(* ===== verification/Prelude.thy ===== *)
theory Prelude
  imports Main "HOL-Library.Word"
begin

text \<open>
  Shared vocabulary of the development: the result type of fallible operations and its
  sequencing, the machine integers of the Rust code (\<open>i64\<close> and \<open>u64\<close> as \<open>int\<close> and
  \<open>nat\<close> with every saturating or checked operation written out), the bit patterns of
  \<open>f32\<close> with IEEE comparison, the \<open>typed_id!\<close> macro, and small facts on lists and options
  that several components use.
\<close>

named_theorems wf_simps \<open>unfolding equations of well-formedness predicates\<close>
named_theorems range_simps \<open>machine-integer bounds\<close>
named_theorems result_simps \<open>case analysis on results of fallible operations\<close>

section \<open>Results\<close>

text \<open>\<open>Result<T, E>\<close> is the sum \<open>'e + 't\<close>, the error on the left.\<close>

definition bind_r :: "'e + 'a \<Rightarrow> ('a \<Rightarrow> 'e + 'b) \<Rightarrow> 'e + 'b" where
  "bind_r m k = (case m of Inl e \<Rightarrow> Inl e | Inr a \<Rightarrow> k a)"

text \<open>The \<open>?\<close> operator on a unit result, followed by the rest of the block.\<close>

definition then_r :: "'e + unit \<Rightarrow> 'e + 'b \<Rightarrow> 'e + 'b" where
  "then_r m k = (case m of Inl e \<Rightarrow> Inl e | Inr _ \<Rightarrow> k)"

text \<open>\<open>if cond { return Err(e) }\<close>.\<close>

definition fail_if :: "bool \<Rightarrow> 'e \<Rightarrow> 'e + unit" where
  "fail_if c e = (if c then Inl e else Inr ())"

definition ok_or :: "'a option \<Rightarrow> 'e \<Rightarrow> 'e + 'a" where
  "ok_or x e = (case x of None \<Rightarrow> Inl e | Some a \<Rightarrow> Inr a)"

text \<open>A \<open>for\<close> loop whose body may leave the function with an error.\<close>

fun for_each :: "('a \<Rightarrow> 'e + unit) \<Rightarrow> 'a list \<Rightarrow> 'e + unit" where
  "for_each f [] = Inr ()"
| "for_each f (x # xs) = (case f x of Inl e \<Rightarrow> Inl e | Inr _ \<Rightarrow> for_each f xs)"

text \<open>The same loop, threading a mutable state.\<close>

fun fold_r :: "('a \<Rightarrow> 's \<Rightarrow> 'e + 's) \<Rightarrow> 'a list \<Rightarrow> 's \<Rightarrow> 'e + 's" where
  "fold_r f [] s = Inr s"
| "fold_r f (x # xs) s = (case f x s of Inl e \<Rightarrow> Inl e | Inr s' \<Rightarrow> fold_r f xs s')"

text \<open>
  Where a function can also panic (an arithmetic overflow in a build with overflow checks, an
  index out of bounds, a missing map key), its error type is a \<open>fault\<close>.
\<close>

datatype 'e fault = Panicked | Failed 'e

lemma bind_r_simps [simp]:
  "bind_r (Inl e) k = Inl e" "bind_r (Inr a) k = k a"
  by (simp_all add: bind_r_def)

lemma then_r_simps [simp]:
  "then_r (Inl e) k = Inl e" "then_r (Inr u) k = k"
  by (simp_all add: then_r_def)

lemma bind_r_eq_Inr [result_simps]:
  "bind_r m k = Inr b \<longleftrightarrow> (\<exists>a. m = Inr a \<and> k a = Inr b)"
  by (cases m) auto

lemma then_r_eq_Inr [result_simps]:
  "then_r m k = Inr b \<longleftrightarrow> m = Inr () \<and> k = Inr b"
  by (cases m) auto

lemma fail_if_eq_Inr [result_simps]: "fail_if c e = Inr u \<longleftrightarrow> \<not> c"
  by (simp add: fail_if_def)

lemma fail_if_simps [simp]: "fail_if False e = Inr ()" "fail_if True e = Inl e"
  by (simp_all add: fail_if_def)

lemma ok_or_eq_Inr [result_simps]: "ok_or x e = Inr a \<longleftrightarrow> x = Some a"
  by (cases x) (auto simp: ok_or_def)

lemma ok_or_simps [simp]: "ok_or None e = Inl e" "ok_or (Some a) e = Inr a"
  by (simp_all add: ok_or_def)

lemma for_each_eq_Inr [result_simps]:
  "for_each f xs = Inr u \<longleftrightarrow> (\<forall>x\<in>set xs. f x = Inr ())"
  by (induction xs) (auto split: sum.splits)

lemma fold_r_append:
  "fold_r f (xs @ ys) s = bind_r (fold_r f xs s) (fold_r f ys)"
  by (induction xs arbitrary: s) (auto split: sum.splits)

lemma fold_r_invariant:
  assumes "fold_r f xs s = Inr t" and "P s"
    and "\<And>x s t. x \<in> set xs \<Longrightarrow> P s \<Longrightarrow> f x s = Inr t \<Longrightarrow> P t"
  shows "P t"
  using assms
proof (induction xs arbitrary: s)
  case (Cons x xs)
  then obtain s' where "f x s = Inr s'" "fold_r f xs s' = Inr t"
    by (auto split: sum.splits)
  with Cons show ?case by (meson list.set_intros)
qed simp

text \<open>Where a panic can come from.\<close>

lemma bind_r_panics: "bind_r m k = Inl Panicked \<longleftrightarrow> m = Inl Panicked \<or> (\<exists>a. m = Inr a \<and> k a = Inl Panicked)"
  by (cases m) auto

lemma then_r_panics: "then_r m k = Inl Panicked \<longleftrightarrow> m = Inl Panicked \<or> (m = Inr () \<and> k = Inl Panicked)"
  by (cases m) auto

lemma fail_if_panics: "fail_if c (Failed e) \<noteq> Inl Panicked"
  by (simp add: fail_if_def)

lemma ok_or_panics: "ok_or x (Failed e) \<noteq> Inl Panicked"
  by (cases x) simp_all

lemma for_each_panics: "for_each f xs = Inl Panicked \<Longrightarrow> \<exists>x \<in> set xs. f x = Inl Panicked"
  by (induction xs) (auto split: sum.splits)

lemma fold_r_panics:
  assumes "fold_r f xs s = Inl Panicked"
  shows "\<exists>x \<in> set xs. \<exists>r. f x r = Inl Panicked"
  using assms
proof (induction xs arbitrary: s)
  case (Cons a xs)
  show ?case
  proof (cases "f a s")
    case (Inl e)
    then show ?thesis using Cons.prems by auto
  next
    case (Inr t)
    then show ?thesis using Cons.prems Cons.IH[of t] by auto
  qed
qed simp

lemmas no_panics = bind_r_panics then_r_panics fail_if_panics ok_or_panics

section \<open>Machine integers\<close>

definition i64_min :: int where "i64_min = - 9223372036854775808"
definition i64_max :: int where "i64_max = 9223372036854775807"
definition u64_max :: nat where "u64_max = 18446744073709551615"
definition u32_max :: nat where "u32_max = 4294967295"

definition is_i64 :: "int \<Rightarrow> bool" where
  "is_i64 x \<longleftrightarrow> i64_min \<le> x \<and> x \<le> i64_max"

definition is_u64 :: "nat \<Rightarrow> bool" where
  "is_u64 n \<longleftrightarrow> n \<le> u64_max"

text \<open>The clamping that ends every \<open>i64::saturating_*\<close> operation.\<close>

definition sat_i64 :: "int \<Rightarrow> int" where
  "sat_i64 x = max i64_min (min i64_max x)"

definition sat_add_u64 :: "nat \<Rightarrow> nat \<Rightarrow> nat" where
  "sat_add_u64 a b = min u64_max (a + b)"

definition checked_add_u64 :: "nat \<Rightarrow> nat \<Rightarrow> nat option" where
  "checked_add_u64 a b = (if a + b \<le> u64_max then Some (a + b) else None)"

lemmas int_bounds [range_simps] =
  i64_min_def i64_max_def u64_max_def u32_max_def is_i64_def is_u64_def

lemma is_i64_sat [simp]: "is_i64 (sat_i64 x)"
  by (simp add: sat_i64_def range_simps)

lemma sat_i64_id: "is_i64 x \<Longrightarrow> sat_i64 x = x"
  by (simp add: sat_i64_def range_simps)

lemma sat_i64_mono: "x \<le> y \<Longrightarrow> sat_i64 x \<le> sat_i64 y"
  by (simp add: sat_i64_def)

lemma sat_i64_lower: "i64_min \<le> y \<Longrightarrow> y \<le> x \<Longrightarrow> y \<le> i64_max \<Longrightarrow> y \<le> sat_i64 x"
  by (simp add: sat_i64_def)

section \<open>f32 bit patterns\<close>

text \<open>
  An \<open>f32\<close> is its 32-bit pattern: sign, 8 exponent bits, 23 fraction bits. \<open>==\<close> on floats
  (and so a derived \<open>PartialEq\<close>) is IEEE equality: a NaN equals nothing, not even itself, and
  the two zeros are equal.
\<close>

type_synonym f32 = "32 word"

definition f32_exp :: "f32 \<Rightarrow> nat" where
  "f32_exp w = (unat w div 2 ^ 23) mod 2 ^ 8"

definition f32_frac :: "f32 \<Rightarrow> nat" where
  "f32_frac w = unat w mod 2 ^ 23"

definition f32_neg :: "f32 \<Rightarrow> bool" where
  "f32_neg w \<longleftrightarrow> 2 ^ 31 \<le> unat w"

definition f32_is_nan :: "f32 \<Rightarrow> bool" where
  "f32_is_nan w \<longleftrightarrow> f32_exp w = 255 \<and> f32_frac w \<noteq> 0"

definition f32_is_finite :: "f32 \<Rightarrow> bool" where
  "f32_is_finite w \<longleftrightarrow> f32_exp w \<noteq> 255"

definition f32_is_zero :: "f32 \<Rightarrow> bool" where
  "f32_is_zero w \<longleftrightarrow> f32_exp w = 0 \<and> f32_frac w = 0"

definition f32_eq :: "f32 \<Rightarrow> f32 \<Rightarrow> bool" where
  "f32_eq a b \<longleftrightarrow> \<not> f32_is_nan a \<and> \<not> f32_is_nan b
     \<and> (a = b \<or> f32_is_zero a \<and> f32_is_zero b)"

text \<open>\<open>x >= 0.0\<close>\<close>

definition f32_ge_zero :: "f32 \<Rightarrow> bool" where
  "f32_ge_zero w \<longleftrightarrow> \<not> f32_is_nan w \<and> (\<not> f32_neg w \<or> f32_is_zero w)"

definition f32_one :: f32 where "f32_one = 0x3f800000"

lemma f32_eq_refl_iff: "f32_eq a a \<longleftrightarrow> \<not> f32_is_nan a"
  by (simp add: f32_eq_def)

lemma f32_eq_sym: "f32_eq a b \<Longrightarrow> f32_eq b a"
  by (auto simp: f32_eq_def)

lemma f32_eq_trans: "f32_eq a b \<Longrightarrow> f32_eq b c \<Longrightarrow> f32_eq a c"
  by (auto simp: f32_eq_def)

lemma f32_zero_props:
  "f32_is_zero a \<Longrightarrow> f32_is_finite a" "f32_is_zero a \<Longrightarrow> \<not> f32_is_nan a"
  by (simp_all add: f32_is_zero_def f32_is_finite_def f32_is_nan_def)

lemma f32_eq_finite: "f32_eq a b \<Longrightarrow> f32_is_finite a = f32_is_finite b"
  by (auto simp: f32_eq_def f32_zero_props)

lemma f32_eq_ge_zero: "f32_eq a b \<Longrightarrow> f32_ge_zero a = f32_ge_zero b"
  by (auto simp: f32_eq_def f32_ge_zero_def)

lemma f32_eq_nan: "f32_eq a b \<Longrightarrow> \<not> f32_is_nan a \<and> \<not> f32_is_nan b"
  by (simp add: f32_eq_def)

lemma f32_one_props [simp]: "f32_is_finite f32_one" "f32_ge_zero f32_one" "\<not> f32_is_nan f32_one"
  by (simp_all add: f32_one_def f32_is_finite_def f32_ge_zero_def f32_is_nan_def f32_neg_def
      f32_exp_def f32_frac_def)

section \<open>Typed identifiers\<close>

text \<open>
  The macro \<open>typed_id!\<close> makes one newtype over \<open>u64\<close> per name, with the derived order of the
  raw value. Here the newtype carries a phantom tag, so that identifiers of different entities
  have different types.
\<close>

datatype 'tag typed_id = Id (raw: nat)

instantiation typed_id :: (type) linorder
begin

definition less_eq_typed_id :: "'a typed_id \<Rightarrow> 'a typed_id \<Rightarrow> bool" where
  "less_eq_typed_id a b \<longleftrightarrow> raw a \<le> raw b"

definition less_typed_id :: "'a typed_id \<Rightarrow> 'a typed_id \<Rightarrow> bool" where
  "less_typed_id a b \<longleftrightarrow> raw a < raw b"

instance
  by standard (auto simp: less_eq_typed_id_def less_typed_id_def intro: typed_id.expand)

end

lemma typed_id_order [simp]: "Id a < Id b \<longleftrightarrow> a < b" "Id a \<le> Id b \<longleftrightarrow> a \<le> b"
  by (simp_all add: less_eq_typed_id_def less_typed_id_def)

end
