(* ===== verification/Ordered_Map.thy ===== *)
theory Ordered_Map
  imports Prelude
begin

text \<open>
  \<open>BTreeMap<K, V>\<close> and \<open>BTreeSet<K>\<close> as the code uses them: the list of entries in
  strictly ascending key order, which is also the order every iteration of the code visits.
  The representation is canonical, so equality of two maps is equality of the lists. The locale
  \<open>ordered_map\<close> is the interface the components rely on; its lemmas are proved from the laws
  and reach the components through the interpretation \<open>bt\<close>.
\<close>

type_synonym ('k, 'v) btree = "('k \<times> 'v) list"

definition bt_ok :: "('k::linorder, 'v) btree \<Rightarrow> bool" where
  "bt_ok m \<longleftrightarrow> sorted_wrt (<) (map fst m)"

definition bt_get :: "('k, 'v) btree \<Rightarrow> 'k \<Rightarrow> 'v option" where
  "bt_get m k = map_of m k"

definition bt_contains :: "('k, 'v) btree \<Rightarrow> 'k \<Rightarrow> bool" where
  "bt_contains m k \<longleftrightarrow> bt_get m k \<noteq> None"

fun bt_insert :: "'k::linorder \<Rightarrow> 'v \<Rightarrow> ('k, 'v) btree \<Rightarrow> ('k, 'v) btree" where
  "bt_insert k v [] = [(k, v)]"
| "bt_insert k v ((k', v') # m) =
     (if k < k' then (k, v) # (k', v') # m
      else if k = k' then (k, v) # m
      else (k', v') # bt_insert k v m)"

definition bt_remove :: "'k \<Rightarrow> ('k, 'v) btree \<Rightarrow> ('k, 'v) btree" where
  "bt_remove k m = filter (\<lambda>e. fst e \<noteq> k) m"

definition bt_keys :: "('k, 'v) btree \<Rightarrow> 'k list" where
  "bt_keys m = map fst m"

definition bt_values :: "('k, 'v) btree \<Rightarrow> 'v list" where
  "bt_values m = map snd m"

text \<open>In-place update of every value (\<open>values_mut\<close>) and \<open>retain\<close>.\<close>

definition bt_map :: "('k \<Rightarrow> 'v \<Rightarrow> 'w) \<Rightarrow> ('k, 'v) btree \<Rightarrow> ('k, 'w) btree" where
  "bt_map f m = map (\<lambda>(k, v). (k, f k v)) m"

definition bt_retain :: "('k \<Rightarrow> 'v \<Rightarrow> bool) \<Rightarrow> ('k, 'v) btree \<Rightarrow> ('k, 'v) btree" where
  "bt_retain p m = filter (\<lambda>(k, v). p k v) m"

text \<open>In-place update of one value, if the key is present (\<open>get_mut\<close>).\<close>

definition bt_modify :: "'k::linorder \<Rightarrow> ('v \<Rightarrow> 'v) \<Rightarrow> ('k, 'v) btree \<Rightarrow> ('k, 'v) btree" where
  "bt_modify k f m = (case bt_get m k of None \<Rightarrow> m | Some v \<Rightarrow> bt_insert k (f v) m)"

section \<open>Lookup\<close>

lemma bt_get_Nil [simp]: "bt_get [] k = None"
  by (simp add: bt_get_def)

lemma bt_ok_Nil [simp]: "bt_ok []"
  by (simp add: bt_ok_def)

lemma bt_ok_Cons: "bt_ok ((k, v) # m) \<longleftrightarrow> (\<forall>k' \<in> fst ` set m. k < k') \<and> bt_ok m"
  by (auto simp: bt_ok_def)

lemma bt_get_Cons: "bt_get ((k', v') # m) k = (if k = k' then Some v' else bt_get m k)"
  by (simp add: bt_get_def)

lemma bt_get_None_iff: "bt_get m k = None \<longleftrightarrow> k \<notin> fst ` set m"
  by (simp add: bt_get_def map_of_eq_None_iff)

lemma bt_get_Some_in: "bt_get m k = Some v \<Longrightarrow> (k, v) \<in> set m"
  by (simp add: bt_get_def map_of_SomeD)

lemma bt_ok_distinct: "bt_ok m \<Longrightarrow> distinct (map fst m)"
  by (simp add: bt_ok_def strict_sorted_iff)

lemma bt_get_iff: "bt_ok m \<Longrightarrow> bt_get m k = Some v \<longleftrightarrow> (k, v) \<in> set m"
  by (simp add: bt_get_def bt_ok_distinct)

lemma fst_set_insert [simp]: "fst ` set (bt_insert k v m) = insert k (fst ` set m)"
  by (induction k v m rule: bt_insert.induct) auto

lemma bt_ok_insert [simp]: "bt_ok m \<Longrightarrow> bt_ok (bt_insert k v m)"
proof (induction k v m rule: bt_insert.induct)
  case (1 k v)
  then show ?case by (simp add: bt_ok_def)
next
  case (2 k v k' v' m)
  then show ?case by (auto simp: bt_ok_Cons split: if_splits)
qed

lemma bt_get_insert [simp]:
  "bt_get (bt_insert k v m) k' = (if k' = k then Some v else bt_get m k')"
  by (induction k v m rule: bt_insert.induct) (auto simp: bt_get_Cons)

lemma bt_ok_filter: "bt_ok m \<Longrightarrow> bt_ok (filter p m)"
  by (induction m) (auto simp: bt_ok_def)

lemma bt_ok_remove [simp]: "bt_ok m \<Longrightarrow> bt_ok (bt_remove k m)"
  by (simp add: bt_remove_def bt_ok_filter)

lemma bt_get_remove [simp]: "bt_get (bt_remove k m) k' = (if k' = k then None else bt_get m k')"
  by (induction m) (auto simp: bt_remove_def bt_get_def)

lemma bt_get_map [simp]: "bt_get (bt_map f m) k = map_option (f k) (bt_get m k)"
  by (induction m) (auto simp: bt_map_def bt_get_def)

lemma bt_keys_map [simp]: "map fst (bt_map f m) = map fst m"
  by (induction m) (auto simp: bt_map_def)

lemma bt_ok_map [simp]: "bt_ok (bt_map f m) = bt_ok m"
  by (simp add: bt_ok_def)

lemma bt_ok_retain [simp]: "bt_ok m \<Longrightarrow> bt_ok (bt_retain p m)"
  by (simp add: bt_retain_def bt_ok_filter)

lemma bt_get_retain:
  assumes "bt_ok m"
  shows "bt_get (bt_retain p m) k
    = (case bt_get m k of None \<Rightarrow> None | Some v \<Rightarrow> if p k v then Some v else None)"
proof -
  have iff: "bt_get (bt_retain p m) k = Some v \<longleftrightarrow> bt_get m k = Some v \<and> p k v" for v
    using assms by (simp add: bt_get_iff) (simp add: bt_retain_def)
  show ?thesis
    by (cases "bt_get (bt_retain p m) k"; cases "bt_get m k")
      (use iff in \<open>auto split: if_splits\<close>)
qed

text \<open>The representation is canonical: a map is determined by its lookups.\<close>

lemma bt_eqI:
  assumes "bt_ok m" "bt_ok n" "\<And>k. bt_get m k = bt_get n k"
  shows "m = n"
  using assms
proof (induction m arbitrary: n)
  case Nil
  then show ?case
    by (cases n) (auto simp: bt_get_Cons, metis option.distinct(1))
next
  case (Cons e m)
  obtain k v where e: "e = (k, v)" by (cases e)
  have "n \<noteq> []"
    using Cons.prems(3)[of k] by (auto simp: e bt_get_Cons)
  then obtain k' v' n' where n: "n = (k', v') # n'"
    by (metis list.exhaust surj_pair)
  have less: "\<forall>j \<in> fst ` set m. k < j" "\<forall>j \<in> fst ` set n'. k' < j"
    and ok: "bt_ok m" "bt_ok n'"
    using Cons.prems(1,2) by (auto simp: e n bt_ok_Cons)
  have "k = k'"
  proof (rule ccontr)
    assume "k \<noteq> k'"
    with Cons.prems(3)[of k] Cons.prems(3)[of k'] have "k \<in> fst ` set n'" "k' \<in> fst ` set m"
      by (auto simp: e n bt_get_Cons dest: bt_get_Some_in intro: rev_image_eqI)
        (metis bt_get_None_iff option.distinct(1))+
    with less show False by (meson not_less_iff_gr_or_eq)
  qed
  moreover have "v = v'"
    using Cons.prems(3)[of k] \<open>k = k'\<close> by (simp add: e n bt_get_Cons)
  moreover have "m = n'"
  proof (rule Cons.IH[OF ok])
    fix j
    show "bt_get m j = bt_get n' j"
    proof (cases "j = k")
      case True
      then have "bt_get m j = None" "bt_get n' j = None"
        using less \<open>k = k'\<close> by (auto simp: bt_get_None_iff)
      then show ?thesis by simp
    next
      case False
      with Cons.prems(3)[of j] \<open>k = k'\<close> show ?thesis by (simp add: e n bt_get_Cons)
    qed
  qed
  ultimately show ?case by (simp add: e n)
qed

lemma bt_values_in: "bt_ok m \<Longrightarrow> v \<in> set (bt_values m) \<longleftrightarrow> (\<exists>k. bt_get m k = Some v)"
  by (auto simp: bt_values_def bt_get_iff) force

lemma bt_keys_in: "k \<in> set (bt_keys m) \<longleftrightarrow> bt_get m k \<noteq> None"
  by (auto simp: bt_keys_def bt_get_None_iff)

lemma bt_entries_in: "bt_ok m \<Longrightarrow> (k, v) \<in> set m \<longleftrightarrow> bt_get m k = Some v"
  by (simp add: bt_get_iff)

lemma bt_ok_modify [simp]: "bt_ok m \<Longrightarrow> bt_ok (bt_modify k f m)"
  by (simp add: bt_modify_def split: option.splits)

lemma bt_get_modify [simp]:
  "bt_get (bt_modify k f m) j = (if j = k then map_option f (bt_get m j) else bt_get m j)"
  by (simp add: bt_modify_def split: option.splits)

lemma bt_map_insert: "bt_map (\<lambda>_. f) (bt_insert k v m) = bt_insert k (f v) (bt_map (\<lambda>_. f) m)"
  by (induction k v m rule: bt_insert.induct) (auto simp: bt_map_def)

lemma bt_map_remove: "bt_map f (bt_remove k m) = bt_remove k (bt_map f m)"
  by (induction m) (auto simp: bt_map_def bt_remove_def)

lemma bt_keys_modulo: "bt_map f m = bt_map f n \<Longrightarrow> bt_keys m = bt_keys n"
  by (metis bt_keys_def bt_keys_map)

section \<open>Counting entries\<close>

definition bt_having :: "('v \<Rightarrow> bool) \<Rightarrow> ('k, 'v) btree \<Rightarrow> 'k set" where
  "bt_having p m = {k. \<exists>v. bt_get m k = Some v \<and> p v}"

lemma finite_bt_having [simp]: "finite (bt_having p m)"
proof (rule finite_subset)
  show "bt_having p m \<subseteq> fst ` set m"
    by (auto simp: bt_having_def dest!: bt_get_Some_in intro: rev_image_eqI)
qed simp

lemma bt_count:
  assumes "bt_ok m"
  shows "length (filter p (bt_values m)) = card (bt_having p m)"
proof -
  have keys: "bt_having p m = fst ` set (filter (\<lambda>e. p (snd e)) m)"
    using assms by (force simp: bt_having_def bt_get_iff)
  have dist: "distinct (map fst (filter (\<lambda>e. p (snd e)) m))"
    using bt_ok_distinct[OF bt_ok_filter[OF assms]] .
  have "card (fst ` set (filter (\<lambda>e. p (snd e)) m)) = length (filter (\<lambda>e. p (snd e)) m)"
    using distinct_card[OF dist] by simp
  moreover have "length (filter p (bt_values m)) = length (filter (\<lambda>e. p (snd e)) m)"
    by (simp add: bt_values_def filter_map o_def)
  ultimately show ?thesis by (simp add: keys)
qed

lemma bt_length:
  assumes "bt_ok m"
  shows "length m = card (bt_having (\<lambda>_. True) m)"
  using bt_count[OF assms, of "\<lambda>_. True"] by (simp add: bt_values_def)

lemma bt_having_mono:
  assumes "\<And>k w. bt_get n k = Some w \<Longrightarrow> q w \<Longrightarrow> \<exists>v. bt_get m k = Some v \<and> p v"
  shows "card (bt_having q n) \<le> card (bt_having p m)"
proof (rule card_mono)
  show "bt_having q n \<subseteq> bt_having p m"
    using assms by (auto simp: bt_having_def)
qed simp

lemma bt_having_insert:
  "bt_having p (bt_insert k v m)
    = (if p v then insert k (bt_having p m) else bt_having p m - {k})"
  by (auto simp: bt_having_def)

lemma bt_having_remove: "bt_having p (bt_remove k m) = bt_having p m - {k}"
  by (auto simp: bt_having_def split: if_splits)

lemma bt_having_insert_le:
  "card (bt_having p (bt_insert k v m)) \<le> Suc (card (bt_having p m))"
proof -
  have "bt_having p (bt_insert k v m) \<subseteq> insert k (bt_having p m)"
    by (auto simp: bt_having_def split: if_splits)
  then have "card (bt_having p (bt_insert k v m)) \<le> card (insert k (bt_having p m))"
    by (intro card_mono) simp_all
  also have "\<dots> \<le> Suc (card (bt_having p m))"
    by (simp add: card_insert_if)
  finally show ?thesis .
qed

section \<open>The place of an entry\<close>

lemma bt_insert_before: "\<forall>j \<in> fst ` set m. k < j \<Longrightarrow> bt_insert k w m = (k, w) # m"
  by (cases m) auto

lemma bt_split:
  assumes "bt_ok m" "bt_get m k = Some v"
  obtains xs ys where "m = xs @ (k, v) # ys" "\<And>w. bt_insert k w m = xs @ (k, w) # ys" "bt_remove k m = xs @ ys"
proof -
  have "\<exists>xs ys. m = xs @ (k, v) # ys \<and> (\<forall>w. bt_insert k w m = xs @ (k, w) # ys) \<and> bt_remove k m = xs @ ys"
    using assms
  proof (induction m)
    case (Cons e m)
    obtain j u where e: "e = (j, u)" by (cases e)
    show ?case
    proof (cases "j = k")
      case True
      with Cons.prems have "u = v" "filter (\<lambda>e. fst e \<noteq> k) m = m"
        by (auto simp: e bt_get_Cons bt_ok_Cons filter_id_conv)
      with True show ?thesis unfolding e by (intro exI[of _ "[]"] exI[of _ m]) (auto simp: bt_remove_def)
    next
      case False
      then obtain xs ys where IH: "m = xs @ (k, v) # ys" "\<forall>w. bt_insert k w m = xs @ (k, w) # ys" "bt_remove k m = xs @ ys"
        using Cons by (auto simp: e bt_get_Cons bt_ok_Cons)
      have "j < k" using Cons.prems False IH(1) by (auto simp: e bt_ok_Cons)
      then show ?thesis
        unfolding e using IH by (intro exI[of _ "(j, u) # xs"] exI[of _ ys]) (auto simp: bt_remove_def)
    qed
  qed simp
  then show ?thesis using that by blast
qed

lemma bt_split_fresh:
  assumes "bt_ok m" "bt_get m k = None"
  obtains xs ys where "m = xs @ ys" "\<And>w. bt_insert k w m = xs @ (k, w) # ys"
proof -
  have "\<exists>xs ys. m = xs @ ys \<and> (\<forall>w. bt_insert k w m = xs @ (k, w) # ys)"
    using assms
  proof (induction m)
    case (Cons e m)
    obtain j u where e: "e = (j, u)" by (cases e)
    show ?case
    proof (cases "k < j")
      case True
      then show ?thesis unfolding e by (intro exI[of _ "[]"] exI[of _ "(j, u) # m"]) auto
    next
      case False
      with Cons obtain xs ys where IH: "m = xs @ ys" "\<forall>w. bt_insert k w m = xs @ (k, w) # ys"
        by (auto simp: e bt_get_Cons bt_ok_Cons split: if_splits)
      have "k \<noteq> j" using Cons.prems by (auto simp: e bt_get_Cons)
      with False show ?thesis
        unfolding e using IH by (intro exI[of _ "(j, u) # xs"] exI[of _ ys]) auto
    qed
  qed simp
  then show ?thesis using that by blast
qed

section \<open>The interface\<close>

locale ordered_map =
  fixes ok :: "'m \<Rightarrow> bool"
    and get :: "'m \<Rightarrow> 'k \<Rightarrow> 'v option"
    and put :: "'k \<Rightarrow> 'v \<Rightarrow> 'm \<Rightarrow> 'm"
    and del :: "'k \<Rightarrow> 'm \<Rightarrow> 'm"
  assumes ok_put: "ok m \<Longrightarrow> ok (put k v m)"
    and ok_del: "ok m \<Longrightarrow> ok (del k m)"
    and get_put: "ok m \<Longrightarrow> get (put k v m) j = (if j = k then Some v else get m j)"
    and get_del: "ok m \<Longrightarrow> get (del k m) j = (if j = k then None else get m j)"
    and ext: "ok m \<Longrightarrow> ok n \<Longrightarrow> (\<And>k. get m k = get n k) \<Longrightarrow> m = n"
begin

lemma put_put: "ok m \<Longrightarrow> put k w (put k v m) = put k w m"
  by (rule ext) (simp_all add: ok_put get_put)

lemma del_put_fresh: "ok m \<Longrightarrow> get m k = None \<Longrightarrow> del k (put k v m) = m"
  by (rule ext) (simp_all add: ok_put ok_del get_put get_del)

lemma put_same: "ok m \<Longrightarrow> get m k = Some v \<Longrightarrow> put k v m = m"
  by (rule ext) (simp_all add: ok_put get_put)

lemma put_del_same: "ok m \<Longrightarrow> get m k = Some v \<Longrightarrow> put k v (del k m) = m"
  by (rule ext) (simp_all add: ok_put ok_del get_put get_del)

lemma put_restore: "ok m \<Longrightarrow> get m k = Some v \<Longrightarrow> put k v (put k w m) = m"
  by (simp add: put_put put_same)

lemma put_commute: "ok m \<Longrightarrow> j \<noteq> k \<Longrightarrow> put j w (put k v m) = put k v (put j w m)"
  by (rule ext) (simp_all add: ok_put get_put)

end

interpretation bt: ordered_map bt_ok bt_get bt_insert bt_remove
  by unfold_locales (auto intro: bt_eqI)

section \<open>Ordered sets\<close>

text \<open>\<open>BTreeSet<K>\<close>: the ascending list of its elements.\<close>

fun bs_insert :: "'k::linorder \<Rightarrow> 'k list \<Rightarrow> 'k list" where
  "bs_insert k [] = [k]"
| "bs_insert k (x # xs) =
     (if k < x then k # x # xs else if k = x then x # xs else x # bs_insert k xs)"

lemma set_bs_insert [simp]: "set (bs_insert k xs) = insert k (set xs)"
  by (induction k xs rule: bs_insert.induct) auto

lemma sorted_bs_insert [simp]: "sorted_wrt (<) xs \<Longrightarrow> sorted_wrt (<) (bs_insert k xs)"
  by (induction k xs rule: bs_insert.induct) auto

lemma set_fold_bs_insert: "set (fold bs_insert xs ys) = set xs \<union> set ys"
  by (induction xs arbitrary: ys) auto

lemma sorted_fold_bs_insert: "sorted_wrt (<) ys \<Longrightarrow> sorted_wrt (<) (fold bs_insert xs ys)"
  by (induction xs arbitrary: ys) auto

end
