(* ===== verification/Sample_Time.thy ===== *)
theory Sample_Time
  imports Prelude
begin

text \<open>
  The sample-coordinate layer of \<open>src/session.rs\<close>: \<open>Sample\<close> and \<open>SampleRange\<close>, the
  \<open>Transport\<close> with its loop, and the \<open>SnapGrid\<close>. A \<open>Sample\<close> is an \<open>i64\<close> frame number, modelled
  as an \<open>int\<close> with every saturating operation and every narrowing cast written out.
\<close>

type_synonym sample = int

definition as_u64 :: "int \<Rightarrow> nat" where
  "as_u64 x = nat (x mod 2 ^ 64)"

definition as_i64 :: "int \<Rightarrow> int" where
  "as_i64 x = (x + 2 ^ 63) mod 2 ^ 64 - 2 ^ 63"

definition sample_saturating_add :: "sample \<Rightarrow> int \<Rightarrow> sample" where
  "sample_saturating_add s n = sat_i64 (s + n)"

definition sample_saturating_sub :: "sample \<Rightarrow> int \<Rightarrow> sample" where
  "sample_saturating_sub s n = sat_i64 (s - n)"

section \<open>Half-open ranges\<close>

record sample_range =
  range_start :: sample
  range_end :: sample

definition range_new :: "sample \<Rightarrow> sample \<Rightarrow> sample_range" where
  "range_new a b =
     (if a \<le> b then \<lparr>range_start = a, range_end = b\<rparr> else \<lparr>range_start = b, range_end = a\<rparr>)"

definition range_empty :: "sample \<Rightarrow> sample_range" where
  "range_empty at = \<lparr>range_start = at, range_end = at\<rparr>"

definition range_from_start_and_len :: "sample \<Rightarrow> nat \<Rightarrow> sample_range" where
  "range_from_start_and_len start len =
     (let delta = min (int len) i64_max
      in \<lparr>range_start = start, range_end = sample_saturating_add start delta\<rparr>)"

definition range_len :: "sample_range \<Rightarrow> nat" where
  "range_len r = as_u64 (sample_saturating_sub (range_end r) (range_start r))"

definition range_is_empty :: "sample_range \<Rightarrow> bool" where
  "range_is_empty r \<longleftrightarrow> range_start r = range_end r"

definition range_contains :: "sample_range \<Rightarrow> sample \<Rightarrow> bool" where
  "range_contains r s \<longleftrightarrow> range_start r \<le> s \<and> s < range_end r"

definition range_contains_inclusive_end :: "sample_range \<Rightarrow> sample \<Rightarrow> bool" where
  "range_contains_inclusive_end r s \<longleftrightarrow> range_start r \<le> s \<and> s \<le> range_end r"

definition range_intersects :: "sample_range \<Rightarrow> sample_range \<Rightarrow> bool" where
  "range_intersects r q \<longleftrightarrow> range_start r < range_end q \<and> range_start q < range_end r"

definition range_intersection :: "sample_range \<Rightarrow> sample_range \<Rightarrow> sample_range option" where
  "range_intersection r q =
     (let range = \<lparr>range_start = max (range_start r) (range_start q),
                   range_end = min (range_end r) (range_end q)\<rparr>
      in if \<not> range_is_empty range \<and> range_start range < range_end range
         then Some range else None)"

definition range_translated :: "sample_range \<Rightarrow> int \<Rightarrow> sample_range" where
  "range_translated r delta =
     \<lparr>range_start = sample_saturating_add (range_start r) delta,
      range_end = sample_saturating_add (range_end r) delta\<rparr>"

definition range_clamp :: "sample_range \<Rightarrow> sample \<Rightarrow> sample" where
  "range_clamp r s = min (max s (range_start r)) (range_end r)"

text \<open>A range both of whose endpoints fit and are in order, as \<open>range_new\<close> builds it.\<close>

definition range_wf :: "sample_range \<Rightarrow> bool" where
  [wf_simps]: "range_wf r \<longleftrightarrow> is_i64 (range_start r) \<and> is_i64 (range_end r)
     \<and> range_start r \<le> range_end r"

lemma range_new_wf: "is_i64 a \<Longrightarrow> is_i64 b \<Longrightarrow> range_wf (range_new a b)"
  by (auto simp: range_new_def wf_simps)

lemma range_from_wf: "is_i64 s \<Longrightarrow> range_wf (range_from_start_and_len s n)"
  by (auto simp: range_from_start_and_len_def wf_simps Let_def sample_saturating_add_def
      sat_i64_def range_simps)

lemma range_translated_wf: "range_wf r \<Longrightarrow> range_wf (range_translated r d)"
  by (auto simp: range_translated_def wf_simps sample_saturating_add_def intro: sat_i64_mono)

text \<open>The length is the exact distance unless it exceeds \<open>i64::MAX\<close>, where it saturates.\<close>

lemma range_len_eq:
  assumes "range_wf r"
  shows "int (range_len r) = min i64_max (range_end r - range_start r)"
  using assms by (auto simp: range_len_def as_u64_def sample_saturating_sub_def sat_i64_def
      wf_simps range_simps)

lemma range_len_pos:
  assumes "is_i64 (range_start r)" "is_i64 (range_end r)" "\<not> range_is_empty r"
  shows "0 < range_len r"
proof -
  let ?d = "sat_i64 (range_end r - range_start r)"
  have d: "?d \<noteq> 0" "- 9223372036854775808 \<le> ?d" "?d \<le> 9223372036854775807"
    using assms by (auto simp: sat_i64_def range_simps range_is_empty_def)
  have "0 < ?d mod 2 ^ 64"
  proof (cases "0 < ?d")
    case True
    with d show ?thesis by simp
  next
    case False
    with d have "?d mod 2 ^ 64 = ?d + 2 ^ 64"
      by (intro int_mod_pos_eq [of _ _ "-1"]) simp_all
    with d show ?thesis by simp
  qed
  then show ?thesis by (simp add: range_len_def as_u64_def sample_saturating_sub_def)
qed

lemma range_intersection_contains:
  "(case range_intersection r q of None \<Rightarrow> False | Some i \<Rightarrow> range_contains i s)
     \<longleftrightarrow> range_contains r s \<and> range_contains q s"
  by (auto simp: range_intersection_def Let_def range_contains_def range_is_empty_def)

lemma range_intersects_iff:
  assumes "range_start r < range_end r" "range_start q < range_end q"
  shows "range_intersects r q \<longleftrightarrow> range_intersection r q \<noteq> None"
  using assms by (auto simp: range_intersects_def range_intersection_def range_is_empty_def Let_def)

section \<open>Transport\<close>

datatype transport_mode = Stopped | Playing | Recording

record transport =
  playhead :: sample
  mode :: transport_mode
  loop_range :: "sample_range option"
  loop_enabled :: bool

definition transport_default :: transport where
  "transport_default = \<lparr>playhead = 0, mode = Stopped, loop_range = None, loop_enabled = False\<rparr>"

definition transport_seek :: "sample \<Rightarrow> transport \<Rightarrow> transport" where
  "transport_seek s t = t\<lparr>playhead := s\<rparr>"

definition is_rolling :: "transport \<Rightarrow> bool" where
  "is_rolling t \<longleftrightarrow> mode t \<noteq> Stopped"

definition transport_play :: "transport \<Rightarrow> transport" where
  "transport_play t = t\<lparr>mode := Playing\<rparr>"

definition transport_record :: "transport \<Rightarrow> transport" where
  "transport_record t = t\<lparr>mode := Recording\<rparr>"

definition transport_stop :: "transport \<Rightarrow> transport" where
  "transport_stop t = t\<lparr>mode := Stopped\<rparr>"

definition set_loop_range :: "sample_range option \<Rightarrow> transport \<Rightarrow> transport" where
  "set_loop_range r t = t\<lparr>loop_range :=
     (case r of None \<Rightarrow> None | Some r \<Rightarrow> if range_is_empty r then None else Some r)\<rparr>"

definition set_loop_enabled :: "bool \<Rightarrow> transport \<Rightarrow> transport" where
  "set_loop_enabled b t = t\<lparr>loop_enabled := b\<rparr>"

definition active_loop :: "transport \<Rightarrow> sample_range option" where
  "active_loop t = (if loop_enabled t then loop_range t else None)"

text \<open>
  \<open>rem_euclid\<close> panics on a zero divisor; \<open>advance_panics\<close> below is that condition. The offset is
  cast back to \<open>i64\<close> before it is added.
\<close>

definition transport_advance :: "nat \<Rightarrow> transport \<Rightarrow> transport" where
  "transport_advance samples t =
     (let delta = min (int samples) i64_max;
          target = sample_saturating_add (playhead t) delta
      in t\<lparr>playhead :=
           (case active_loop t of
              Some l \<Rightarrow>
                if range_end l \<le> target
                then (let len = int (range_len l);
                          offset = (target - range_start l) mod len
                      in sample_saturating_add (range_start l) (as_i64 offset))
                else target
            | None \<Rightarrow> target)\<rparr>)"

definition advance_panics :: "transport \<Rightarrow> bool" where
  "advance_panics t \<longleftrightarrow> (case active_loop t of None \<Rightarrow> False | Some l \<Rightarrow> range_len l = 0)"

text \<open>The private fields only ever hold what the setters store.\<close>

definition transport_ok :: "transport \<Rightarrow> bool" where
  [wf_simps]: "transport_ok t \<longleftrightarrow> is_i64 (playhead t)
     \<and> (\<forall>l. loop_range t = Some l \<longrightarrow> is_i64 (range_start l) \<and> is_i64 (range_end l)
            \<and> \<not> range_is_empty l)"

lemma transport_default_ok: "transport_ok transport_default"
  by (simp add: transport_default_def wf_simps range_simps)

lemma transport_setters_ok:
  assumes "transport_ok t"
  shows "is_i64 s \<Longrightarrow> transport_ok (transport_seek s t)"
    and "transport_ok (transport_play t)" "transport_ok (transport_record t)"
    and "transport_ok (transport_stop t)" "transport_ok (set_loop_enabled b t)"
    and "(\<And>l. r = Some l \<Longrightarrow> is_i64 (range_start l) \<and> is_i64 (range_end l))
         \<Longrightarrow> transport_ok (set_loop_range r t)"
  using assms by (auto simp: wf_simps transport_seek_def transport_play_def transport_record_def
      transport_stop_def set_loop_enabled_def set_loop_range_def split: option.splits)

lemma advance_ok: "transport_ok t \<Longrightarrow> transport_ok (transport_advance n t)"
  by (auto simp: transport_advance_def wf_simps Let_def sample_saturating_add_def
      split: option.splits)

lemma advance_no_panic: "transport_ok t \<Longrightarrow> \<not> advance_panics t"
  by (auto simp: advance_panics_def active_loop_def wf_simps split: option.splits if_splits
      dest: range_len_pos)

lemma advance_frame [simp]:
  "loop_range (transport_advance n t) = loop_range t"
  "loop_enabled (transport_advance n t) = loop_enabled t"
  "mode (transport_advance n t) = mode t"
  "active_loop (transport_advance n t) = active_loop t"
  by (simp_all add: transport_advance_def active_loop_def Let_def)

text \<open>
  A loop that the wrap-around arithmetic handles exactly: in order, non-empty, and no longer
  than \<open>i64::MAX\<close> frames.
\<close>

definition loop_exact :: "sample_range \<Rightarrow> bool" where
  [wf_simps]: "loop_exact l \<longleftrightarrow> is_i64 (range_start l) \<and> is_i64 (range_end l)
     \<and> range_start l < range_end l \<and> range_end l - range_start l \<le> i64_max"

definition wrap_into :: "sample_range \<Rightarrow> int \<Rightarrow> int" where
  "wrap_into l x = range_start l + (x - range_start l) mod (range_end l - range_start l)"

lemma wrap_into_bounds:
  assumes "range_start l < range_end l"
  shows "range_start l \<le> wrap_into l x" "wrap_into l x < range_end l"
proof -
  have "0 \<le> (x - range_start l) mod (range_end l - range_start l)"
    "(x - range_start l) mod (range_end l - range_start l) < range_end l - range_start l"
    using assms by simp_all
  then show "range_start l \<le> wrap_into l x" "wrap_into l x < range_end l"
    by (simp_all add: wrap_into_def)
qed

lemma wrap_into_id:
  "range_start l \<le> x \<Longrightarrow> x < range_end l \<Longrightarrow> wrap_into l x = x"
  by (simp add: wrap_into_def)

lemma wrap_into_add: "wrap_into l (wrap_into l x + y) = wrap_into l (x + y)"
proof -
  have "wrap_into l x + y - range_start l
      = (x - range_start l) mod (range_end l - range_start l) + y"
    by (simp add: wrap_into_def)
  then have "(wrap_into l x + y - range_start l) mod (range_end l - range_start l)
      = (x + y - range_start l) mod (range_end l - range_start l)"
    by (simp add: mod_add_left_eq algebra_simps)
      (metis add.commute diff_add_eq mod_add_left_eq)
  then show ?thesis by (simp add: wrap_into_def)
qed

lemma advance_playhead:
  assumes "is_i64 (playhead t)" "playhead t + int n \<le> i64_max" "int n \<le> i64_max"
    and "\<And>l. active_loop t = Some l \<Longrightarrow> loop_exact l"
  shows "playhead (transport_advance n t)
    = (case active_loop t of
         None \<Rightarrow> playhead t + int n
       | Some l \<Rightarrow> if range_end l \<le> playhead t + int n
                  then wrap_into l (playhead t + int n) else playhead t + int n)"
proof -
  have target: "sample_saturating_add (playhead t) (min (int n) i64_max) = playhead t + int n"
    using assms(1-3) by (auto simp: sample_saturating_add_def sat_i64_def range_simps)
  show ?thesis
  proof (cases "active_loop t")
    case None
    with target show ?thesis by (simp add: transport_advance_def Let_def)
  next
    case (Some l)
    then have l: "loop_exact l" by (rule assms(4))
    then have len: "int (range_len l) = range_end l - range_start l"
      by (simp add: range_len_eq wf_simps)
    let ?x = "playhead t + int n"
    let ?o = "(?x - range_start l) mod (range_end l - range_start l)"
    have o: "0 \<le> ?o" "?o < range_end l - range_start l"
      using l by (simp_all add: wf_simps)
    then have "as_i64 ?o = ?o"
      using l by (auto simp: as_i64_def wf_simps range_simps)
    moreover have "sample_saturating_add (range_start l) ?o = wrap_into l ?x"
      using o l by (simp add: sample_saturating_add_def wrap_into_def sat_i64_def wf_simps range_simps)
    ultimately show ?thesis
      using Some target by (simp add: transport_advance_def Let_def len)
  qed
qed

text \<open>
  Advancing block by block is advancing once: where the loop wraps does not depend on how the
  audio callback cuts the time it reports.
\<close>

lemma advance_additive:
  assumes "is_i64 (playhead t)" "playhead t + int a + int b \<le> i64_max"
    and "int a + int b \<le> i64_max"
    and "\<And>l. active_loop t = Some l \<Longrightarrow> loop_exact l"
  shows "transport_advance b (transport_advance a t) = transport_advance (a + b) t"
proof -
  let ?t1 = "transport_advance a t"
  have one: "playhead ?t1 = (case active_loop t of
         None \<Rightarrow> playhead t + int a
       | Some l \<Rightarrow> if range_end l \<le> playhead t + int a
                  then wrap_into l (playhead t + int a) else playhead t + int a)"
    using assms by (intro advance_playhead) auto
  have le: "playhead ?t1 + int b \<le> i64_max" and i64: "is_i64 (playhead ?t1)"
  proof -
    have "playhead ?t1 \<le> playhead t + int a \<and> i64_min \<le> playhead ?t1"
    proof (cases "active_loop t")
      case None
      with one assms(1) show ?thesis by (simp add: range_simps)
    next
      case (Some l)
      then have "range_start l < range_end l" "is_i64 (range_start l)"
        using assms(4) by (auto simp: wf_simps)
      with one Some assms(1) wrap_into_bounds[of l "playhead t + int a"] show ?thesis
        by (auto simp: range_simps)
    qed
    with assms(2) show "playhead ?t1 + int b \<le> i64_max" "is_i64 (playhead ?t1)"
      by (auto simp: is_i64_def)
  qed
  have two: "playhead (transport_advance b ?t1) = (case active_loop t of
         None \<Rightarrow> playhead ?t1 + int b
       | Some l \<Rightarrow> if range_end l \<le> playhead ?t1 + int b
                  then wrap_into l (playhead ?t1 + int b) else playhead ?t1 + int b)"
    using advance_playhead[OF i64 le] assms by simp
  have both: "playhead (transport_advance (a + b) t) = (case active_loop t of
         None \<Rightarrow> playhead t + int (a + b)
       | Some l \<Rightarrow> if range_end l \<le> playhead t + int (a + b)
                  then wrap_into l (playhead t + int (a + b)) else playhead t + int (a + b))"
    using assms by (intro advance_playhead) auto
  have "playhead (transport_advance b ?t1) = playhead (transport_advance (a + b) t)"
  proof (cases "active_loop t")
    case None
    with one two both show ?thesis by simp
  next
    case (Some l)
    then have l: "range_start l < range_end l" using assms(4) by (auto simp: wf_simps)
    show ?thesis
    proof (cases "range_end l \<le> playhead t + int a")
      case False
      with Some one two both show ?thesis by (simp add: algebra_simps)
    next
      case True
      then have p1: "playhead ?t1 = wrap_into l (playhead t + int a)" using Some one by simp
      have "playhead (transport_advance b ?t1) = wrap_into l (playhead ?t1 + int b)"
        using two Some p1 wrap_into_bounds[OF l, of "playhead t + int a"]
        by (auto simp: wrap_into_id)
      also have "\<dots> = wrap_into l (playhead t + int (a + b))"
        by (simp add: p1 wrap_into_add add.assoc)
      finally show ?thesis using both Some True by simp
    qed
  qed
  then show ?thesis
    by (intro transport.equality) simp_all
qed

section \<open>The snap grid\<close>

datatype quantize_direction = Previous | Nearest | Next

record snap_grid =
  grid_enabled :: bool
  grid_spacing :: nat
  grid_origin :: sample

datatype grid_error = InvalidGridSpacing

definition snap_grid_default :: snap_grid where
  "snap_grid_default = \<lparr>grid_enabled = False, grid_spacing = 1, grid_origin = 0\<rparr>"

definition snap_grid_new :: "nat \<Rightarrow> grid_error + snap_grid" where
  "snap_grid_new spacing =
     (if spacing = 0 then Inl InvalidGridSpacing
      else Inr \<lparr>grid_enabled = True, grid_spacing = spacing, grid_origin = 0\<rparr>)"

definition grid_set_spacing :: "nat \<Rightarrow> snap_grid \<Rightarrow> grid_error + snap_grid" where
  "grid_set_spacing spacing g =
     (if spacing = 0 then Inl InvalidGridSpacing else Inr (g\<lparr>grid_spacing := spacing\<rparr>))"

definition grid_set_enabled :: "bool \<Rightarrow> snap_grid \<Rightarrow> snap_grid" where
  "grid_set_enabled b g = g\<lparr>grid_enabled := b\<rparr>"

definition grid_set_origin :: "sample \<Rightarrow> snap_grid \<Rightarrow> snap_grid" where
  "grid_set_origin s g = g\<lparr>grid_origin := s\<rparr>"

text \<open>The grid point before the final clamp to \<open>i64\<close>.\<close>

definition quantize_unclamped :: "snap_grid \<Rightarrow> sample \<Rightarrow> quantize_direction \<Rightarrow> int" where
  "quantize_unclamped g s d =
     (let spacing = int (grid_spacing g);
          relative = s - grid_origin g;
          previous_step = relative div spacing;
          remainder = relative mod spacing;
          step = (case d of
                    Previous \<Rightarrow> previous_step
                  | Next \<Rightarrow> previous_step + of_bool (remainder \<noteq> 0)
                  | Nearest \<Rightarrow> previous_step + of_bool (spacing \<le> remainder * 2))
      in grid_origin g + step * spacing)"

definition quantize :: "snap_grid \<Rightarrow> sample \<Rightarrow> quantize_direction \<Rightarrow> sample" where
  "quantize g s d = (if \<not> grid_enabled g then s else sat_i64 (quantize_unclamped g s d))"

definition quantize_delta :: "snap_grid \<Rightarrow> sample \<Rightarrow> int \<Rightarrow> quantize_direction \<Rightarrow> int" where
  "quantize_delta g anchor proposed_delta d =
     (let target = sample_saturating_add anchor proposed_delta
      in sat_i64 (quantize g target d - anchor))"

definition quantize_range ::
  "snap_grid \<Rightarrow> sample_range \<Rightarrow> quantize_direction \<Rightarrow> quantize_direction \<Rightarrow> sample_range" where
  "quantize_range g r ds de = range_new (quantize g (range_start r) ds) (quantize g (range_end r) de)"

definition grid_ok :: "snap_grid \<Rightarrow> bool" where
  [wf_simps]: "grid_ok g \<longleftrightarrow> 0 < grid_spacing g \<and> is_i64 (grid_origin g)"

lemma grid_constructors_ok:
  "grid_ok snap_grid_default"
  "snap_grid_new n = Inr g \<Longrightarrow> grid_ok g"
  "grid_ok g \<Longrightarrow> grid_set_spacing n g = Inr g' \<Longrightarrow> grid_ok g'"
  by (auto simp: snap_grid_default_def snap_grid_new_def grid_set_spacing_def wf_simps range_simps
      split: if_splits)

definition on_grid :: "snap_grid \<Rightarrow> sample \<Rightarrow> bool" where
  "on_grid g s \<longleftrightarrow> (s - grid_origin g) mod int (grid_spacing g) = 0"

lemma quantize_unclamped_on_grid: "on_grid g (quantize_unclamped g s d)"
  by (simp add: on_grid_def quantize_unclamped_def Let_def)

text \<open>Where the three directions land, in terms of the distance to the sample.\<close>

lemma quantize_unclamped_distance:
  assumes "0 < grid_spacing g"
  shows "quantize_unclamped g s Previous \<le> s"
    and "s - quantize_unclamped g s Previous < int (grid_spacing g)"
    and "s \<le> quantize_unclamped g s Next"
    and "quantize_unclamped g s Next - s < int (grid_spacing g)"
    and "2 * \<bar>quantize_unclamped g s Nearest - s\<bar> \<le> int (grid_spacing g)"
    and "2 * (s - quantize_unclamped g s Nearest) < int (grid_spacing g)"
proof -
  let ?n = "int (grid_spacing g)"
  let ?m = "(s - grid_origin g) mod ?n"
  have rem: "0 \<le> ?m" "?m < ?n" using assms by simp_all
  have point: "grid_origin g + ((s - grid_origin g) div ?n + b) * ?n = s - ?m + b * ?n" for b
    by (simp add: algebra_simps minus_mod_eq_mult_div [symmetric])
  have eqs: "quantize_unclamped g s Previous = s - ?m"
    "quantize_unclamped g s Next = s - ?m + of_bool (?m \<noteq> 0) * ?n"
    "quantize_unclamped g s Nearest = s - ?m + of_bool (?n \<le> ?m * 2) * ?n"
    using point[of 0] point[of "of_bool (?m \<noteq> 0)"] point[of "of_bool (?n \<le> ?m * 2)"]
    by (simp_all add: quantize_unclamped_def Let_def)
  show "quantize_unclamped g s Previous \<le> s"
    "s - quantize_unclamped g s Previous < ?n"
    "s \<le> quantize_unclamped g s Next" "quantize_unclamped g s Next - s < ?n"
    "2 * \<bar>quantize_unclamped g s Nearest - s\<bar> \<le> ?n"
    "2 * (s - quantize_unclamped g s Nearest) < ?n"
    unfolding eqs using rem by (auto simp: of_bool_def)
qed

lemma quantize_unclamped_fixed:
  assumes "0 < grid_spacing g" "on_grid g s"
  shows "quantize_unclamped g s d = s"
  using assms by (cases d) (auto simp: quantize_unclamped_def on_grid_def Let_def
      minus_mod_eq_mult_div [symmetric] mult.commute)

lemma quantize_is_i64: "is_i64 s \<Longrightarrow> is_i64 (quantize g s d)"
  by (simp add: quantize_def)

end
