(* ===== verification/Session_State.thy ===== *)
theory Session_State
  imports Ordered_Map Sample_Time
begin

text \<open>
  The revisioned data of \<open>src/session.rs\<close>: tracks, lanes, clips, clusters and events, the
  \<open>Arrangement\<close> that owns them, its \<open>validate\<close>, and \<open>ProjectChange\<close>, the exact entity
  replacement of which every command is made. Equality of entities is the derived
  \<open>PartialEq\<close>, which compares gains as IEEE floats.
\<close>

section \<open>Identifiers and entities\<close>

datatype track_tag = TrackTag
datatype lane_tag = LaneTag
datatype clip_tag = ClipTag
datatype event_tag = EventTag
datatype cluster_tag = ClusterTag

type_synonym track_id = "track_tag typed_id"
type_synonym lane_id = "lane_tag typed_id"
type_synonym clip_id = "clip_tag typed_id"
type_synonym event_id = "event_tag typed_id"
type_synonym cluster_id = "cluster_tag typed_id"

record selection =
  sel_time :: "sample_range option"
  sel_tracks :: "track_id list"
  sel_clips :: "clip_id list"
  sel_events :: "event_id list"
  sel_clusters :: "cluster_id list"

definition selection_default :: selection where
  "selection_default = \<lparr>sel_time = None, sel_tracks = [], sel_clips = [], sel_events = [],
     sel_clusters = []\<rparr>"

definition selection_is_empty :: "selection \<Rightarrow> bool" where
  "selection_is_empty s \<longleftrightarrow> sel_time s = None \<and> sel_tracks s = [] \<and> sel_clips s = []
     \<and> sel_events s = [] \<and> sel_clusters s = []"

definition selection_set_time :: "sample_range option \<Rightarrow> selection \<Rightarrow> selection" where
  "selection_set_time r s = s\<lparr>sel_time :=
     (case r of None \<Rightarrow> None | Some r \<Rightarrow> if range_is_empty r then None else Some r)\<rparr>"

datatype track_kind = Audio | Events | Group

record track =
  tr_id :: track_id
  tr_name :: string
  tr_kind :: track_kind
  tr_lane_ids :: "lane_id list"
  tr_gain :: f32
  tr_muted :: bool
  tr_solo :: bool

definition track_new :: "track_id \<Rightarrow> string \<Rightarrow> track_kind \<Rightarrow> track" where
  "track_new i name kind = \<lparr>tr_id = i, tr_name = name, tr_kind = kind, tr_lane_ids = [],
     tr_gain = f32_one, tr_muted = False, tr_solo = False\<rparr>"

record lane =
  ln_id :: lane_id
  ln_track_id :: track_id
  ln_name :: string
  ln_clip_ids :: "clip_id list"

definition lane_new :: "lane_id \<Rightarrow> track_id \<Rightarrow> string \<Rightarrow> lane" where
  "lane_new i t name = \<lparr>ln_id = i, ln_track_id = t, ln_name = name, ln_clip_ids = []\<rparr>"

record clip =
  cl_id :: clip_id
  cl_lane_id :: lane_id
  cl_name :: string
  cl_timeline :: sample_range
  cl_source_start :: nat
  cl_gain :: f32
  cl_muted :: bool
  cl_locked :: bool

definition clip_new :: "clip_id \<Rightarrow> lane_id \<Rightarrow> string \<Rightarrow> sample_range \<Rightarrow> clip" where
  "clip_new i l name timeline = \<lparr>cl_id = i, cl_lane_id = l, cl_name = name,
     cl_timeline = timeline, cl_source_start = 0, cl_gain = f32_one, cl_muted = False,
     cl_locked = False\<rparr>"

record cluster =
  cu_id :: cluster_id
  cu_name :: string
  cu_gain :: f32
  cu_muted :: bool

definition cluster_new :: "cluster_id \<Rightarrow> string \<Rightarrow> cluster" where
  "cluster_new i name = \<lparr>cu_id = i, cu_name = name, cu_gain = f32_one, cu_muted = False\<rparr>"

record event =
  ev_id :: event_id
  ev_lane_id :: lane_id
  ev_cluster_id :: cluster_id
  ev_sample :: sample
  ev_duration :: nat
  ev_gain :: f32
  ev_muted :: bool

definition event_new :: "event_id \<Rightarrow> lane_id \<Rightarrow> cluster_id \<Rightarrow> sample \<Rightarrow> event" where
  "event_new i l c s = \<lparr>ev_id = i, ev_lane_id = l, ev_cluster_id = c, ev_sample = s,
     ev_duration = 0, ev_gain = f32_one, ev_muted = False\<rparr>"

definition event_range :: "event \<Rightarrow> sample_range" where
  "event_range e = range_from_start_and_len (ev_sample e) (ev_duration e)"

text \<open>The derived \<open>PartialEq\<close>: field by field, the gain by IEEE equality.\<close>

definition track_eq :: "track \<Rightarrow> track \<Rightarrow> bool" where
  "track_eq a b \<longleftrightarrow> a\<lparr>tr_gain := tr_gain b\<rparr> = b \<and> f32_eq (tr_gain a) (tr_gain b)"

definition clip_eq :: "clip \<Rightarrow> clip \<Rightarrow> bool" where
  "clip_eq a b \<longleftrightarrow> a\<lparr>cl_gain := cl_gain b\<rparr> = b \<and> f32_eq (cl_gain a) (cl_gain b)"

definition cluster_eq :: "cluster \<Rightarrow> cluster \<Rightarrow> bool" where
  "cluster_eq a b \<longleftrightarrow> a\<lparr>cu_gain := cu_gain b\<rparr> = b \<and> f32_eq (cu_gain a) (cu_gain b)"

definition event_eq :: "event \<Rightarrow> event \<Rightarrow> bool" where
  "event_eq a b \<longleftrightarrow> a\<lparr>ev_gain := ev_gain b\<rparr> = b \<and> f32_eq (ev_gain a) (ev_gain b)"

section \<open>The arrangement\<close>

record arrangement =
  tracks :: "(track_id, track) btree"
  lanes :: "(lane_id, lane) btree"
  clips :: "(clip_id, clip) btree"
  clusters :: "(cluster_id, cluster) btree"
  events :: "(event_id, event) btree"

definition arrangement_default :: arrangement where
  "arrangement_default = \<lparr>tracks = [], lanes = [], clips = [], clusters = [], events = []\<rparr>"

datatype session_error =
    InvalidSampleRate
  | InvalidEntity string
  | InvalidCommand string
  | CommandConflict string
  | MissingTrack track_id
  | MissingLane lane_id
  | MissingClip clip_id
  | MissingCluster cluster_id
  | MissingEvent event_id

definition clips_in_lane :: "arrangement \<Rightarrow> lane_id \<Rightarrow> clip list" where
  "clips_in_lane a l =
     (case bt_get (lanes a) l of
        None \<Rightarrow> []
      | Some lane \<Rightarrow> List.map_filter (bt_get (clips a)) (ln_clip_ids lane))"

definition events_in_lane :: "arrangement \<Rightarrow> lane_id \<Rightarrow> event list" where
  "events_in_lane a l = filter (\<lambda>e. ev_lane_id e = l) (bt_values (events a))"

definition events_in_range :: "arrangement \<Rightarrow> sample_range \<Rightarrow> event list" where
  "events_in_range a r = filter (\<lambda>e.
     if ev_duration e = 0 then range_contains r (ev_sample e)
     else range_intersects (event_range e) r) (bt_values (events a))"

definition max_list :: "int list \<Rightarrow> int option" where
  "max_list xs = (case xs of [] \<Rightarrow> None | x # ys \<Rightarrow> Some (fold max ys x))"

definition project_end :: "arrangement \<Rightarrow> sample" where
  "project_end a =
     (let clip_end = max_list (map (\<lambda>c. range_end (cl_timeline c)) (bt_values (clips a)));
          event_end = max_list (map (\<lambda>e. max (range_end (event_range e)) (ev_sample e))
                                  (bt_values (events a)))
      in case max_list (case_option [] (\<lambda>x. [x]) clip_end @ case_option [] (\<lambda>x. [x]) event_end) of
           None \<Rightarrow> 0
         | Some s \<Rightarrow> s)"

definition valid_gain :: "f32 \<Rightarrow> bool" where
  "valid_gain g \<longleftrightarrow> f32_is_finite g \<and> f32_ge_zero g"

definition occurrences :: "'a \<Rightarrow> 'a list \<Rightarrow> nat" where
  "occurrences x xs = length (filter (\<lambda>y. y = x) xs)"

text \<open>\<open>Arrangement::validate\<close>, loop by loop, each with the error it leaves with.\<close>

definition validate_track :: "arrangement \<Rightarrow> track_id \<times> track \<Rightarrow> session_error + unit" where
  "validate_track a = (\<lambda>(i, t).
     then_r (fail_if (i \<noteq> tr_id t \<or> \<not> valid_gain (tr_gain t)) (InvalidEntity ''track''))
       (for_each (\<lambda>l. bind_r (ok_or (bt_get (lanes a) l) (MissingLane l))
            (\<lambda>lane. fail_if (ln_track_id lane \<noteq> i) (InvalidEntity ''lane ownership'')))
          (tr_lane_ids t)))"

definition validate_lane :: "arrangement \<Rightarrow> lane_id \<times> lane \<Rightarrow> session_error + unit" where
  "validate_lane a = (\<lambda>(i, l).
     case bt_get (tracks a) (ln_track_id l) of
       None \<Rightarrow> Inl (InvalidEntity ''lane'')
     | Some owner \<Rightarrow>
         then_r (fail_if (i \<noteq> ln_id l) (InvalidEntity ''lane''))
         (then_r (fail_if (occurrences i (tr_lane_ids owner) \<noteq> 1) (InvalidEntity ''track lane index''))
            (for_each (\<lambda>c. bind_r (ok_or (bt_get (clips a) c) (MissingClip c))
                 (\<lambda>clip. fail_if (cl_lane_id clip \<noteq> i) (InvalidEntity ''clip ownership'')))
               (ln_clip_ids l))))"

definition validate_clip :: "arrangement \<Rightarrow> clip_id \<times> clip \<Rightarrow> session_error + unit" where
  "validate_clip a = (\<lambda>(i, c).
     then_r (fail_if (i \<noteq> cl_id c \<or> range_is_empty (cl_timeline c) \<or> \<not> valid_gain (cl_gain c))
               (InvalidEntity ''clip''))
       (bind_r (ok_or (bt_get (lanes a) (cl_lane_id c)) (MissingLane (cl_lane_id c)))
          (\<lambda>lane. fail_if (occurrences i (ln_clip_ids lane) \<noteq> 1) (InvalidEntity ''lane clip index''))))"

definition validate_cluster :: "cluster_id \<times> cluster \<Rightarrow> session_error + unit" where
  "validate_cluster = (\<lambda>(i, c).
     fail_if (i \<noteq> cu_id c \<or> \<not> valid_gain (cu_gain c)) (InvalidEntity ''cluster''))"

definition validate_event :: "arrangement \<Rightarrow> event_id \<times> event \<Rightarrow> session_error + unit" where
  "validate_event a = (\<lambda>(i, e).
     then_r (fail_if (i \<noteq> ev_id e \<or> \<not> valid_gain (ev_gain e)) (InvalidEntity ''event''))
     (then_r (fail_if (\<not> bt_contains (lanes a) (ev_lane_id e)) (MissingLane (ev_lane_id e)))
        (fail_if (\<not> bt_contains (clusters a) (ev_cluster_id e)) (MissingCluster (ev_cluster_id e)))))"

definition validate :: "arrangement \<Rightarrow> session_error + unit" where
  "validate a =
     then_r (for_each (validate_track a) (tracks a))
     (then_r (for_each (validate_lane a) (lanes a))
     (then_r (for_each (validate_clip a) (clips a))
     (then_r (for_each validate_cluster (clusters a))
             (for_each (validate_event a) (events a)))))"

section \<open>Changes\<close>

datatype project_change =
    TrackChange "track option" "track option"
  | LaneChange "lane option" "lane option"
  | ClipChange "clip option" "clip option"
  | ClusterChange "cluster option" "cluster option"
  | EventChange "event option" "event option"

definition change_event :: "event \<Rightarrow> event \<Rightarrow> project_change" where
  "change_event before after = EventChange (Some before) (Some after)"

definition change_cluster :: "cluster \<Rightarrow> cluster \<Rightarrow> project_change" where
  "change_cluster before after = ClusterChange (Some before) (Some after)"

fun change_is_noop :: "project_change \<Rightarrow> bool" where
  "change_is_noop (TrackChange b a) = rel_option track_eq b a"
| "change_is_noop (LaneChange b a) = (b = a)"
| "change_is_noop (ClipChange b a) = rel_option clip_eq b a"
| "change_is_noop (ClusterChange b a) = rel_option cluster_eq b a"
| "change_is_noop (EventChange b a) = rel_option event_eq b a"

fun option_id :: "'i option \<Rightarrow> 'i option \<Rightarrow> string \<Rightarrow> session_error + 'i" where
  "option_id (Some a) (Some b) kind = (if a = b then Inr a else Inl (InvalidCommand kind))"
| "option_id (Some a) None kind = Inr a"
| "option_id None (Some a) kind = Inr a"
| "option_id None None kind = Inl (InvalidCommand kind)"

text \<open>
  The macro \<open>replace!\<close>: compare the current entry with the expected one by \<open>PartialEq\<close>, then
  insert or remove.
\<close>

definition replace_entry ::
  "('v \<Rightarrow> 'v \<Rightarrow> bool) \<Rightarrow> string \<Rightarrow> 'k::linorder \<Rightarrow> 'v option \<Rightarrow> 'v option
     \<Rightarrow> ('k, 'v) btree \<Rightarrow> session_error + ('k, 'v) btree" where
  "replace_entry eq kind k expected replacement m =
     (if \<not> rel_option eq (bt_get m k) expected then Inl (CommandConflict kind)
      else Inr (case replacement of Some v \<Rightarrow> bt_insert k v m | None \<Rightarrow> bt_remove k m))"

text \<open>One arm of \<open>ProjectChange::apply\<close>: the id, the direction, the replacement.\<close>

definition replace_arm ::
  "('v \<Rightarrow> 'v \<Rightarrow> bool) \<Rightarrow> ('v \<Rightarrow> 'k::linorder) \<Rightarrow> string \<Rightarrow> 'v option \<Rightarrow> 'v option \<Rightarrow> bool
     \<Rightarrow> ('k, 'v) btree \<Rightarrow> session_error + ('k, 'v) btree" where
  "replace_arm eq key kind before after forward m =
     bind_r (option_id (map_option key before) (map_option key after) kind)
       (\<lambda>i. if forward then replace_entry eq kind i before after m
            else replace_entry eq kind i after before m)"

fun change_apply :: "project_change \<Rightarrow> bool \<Rightarrow> arrangement \<Rightarrow> session_error + arrangement" where
  "change_apply (TrackChange b a) fwd s =
     map_sum id (\<lambda>m. s\<lparr>tracks := m\<rparr>) (replace_arm track_eq tr_id ''track'' b a fwd (tracks s))"
| "change_apply (LaneChange b a) fwd s =
     map_sum id (\<lambda>m. s\<lparr>lanes := m\<rparr>) (replace_arm (=) ln_id ''lane'' b a fwd (lanes s))"
| "change_apply (ClipChange b a) fwd s =
     map_sum id (\<lambda>m. s\<lparr>clips := m\<rparr>) (replace_arm clip_eq cl_id ''clip'' b a fwd (clips s))"
| "change_apply (ClusterChange b a) fwd s =
     map_sum id (\<lambda>m. s\<lparr>clusters := m\<rparr>) (replace_arm cluster_eq cu_id ''cluster'' b a fwd (clusters s))"
| "change_apply (EventChange b a) fwd s =
     map_sum id (\<lambda>m. s\<lparr>events := m\<rparr>) (replace_arm event_eq ev_id ''event'' b a fwd (events s))"

definition apply_changes ::
  "project_change list \<Rightarrow> bool \<Rightarrow> arrangement \<Rightarrow> session_error + arrangement" where
  "apply_changes changes forward a =
     (if forward then fold_r (\<lambda>c. change_apply c True) changes a
      else fold_r (\<lambda>c. change_apply c False) (rev changes) a)"

section \<open>What \<open>validate\<close> accepts\<close>

text \<open>The referential integrity of an arrangement, stated on lookups.\<close>

definition tracks_valid :: "arrangement \<Rightarrow> bool" where
  "tracks_valid a \<longleftrightarrow> (\<forall>i t. bt_get (tracks a) i = Some t \<longrightarrow>
     tr_id t = i \<and> valid_gain (tr_gain t)
     \<and> (\<forall>l \<in> set (tr_lane_ids t). \<exists>lane. bt_get (lanes a) l = Some lane \<and> ln_track_id lane = i))"

definition lanes_valid :: "arrangement \<Rightarrow> bool" where
  "lanes_valid a \<longleftrightarrow> (\<forall>i l. bt_get (lanes a) i = Some l \<longrightarrow>
     ln_id l = i
     \<and> (\<exists>t. bt_get (tracks a) (ln_track_id l) = Some t \<and> occurrences i (tr_lane_ids t) = 1)
     \<and> (\<forall>c \<in> set (ln_clip_ids l). \<exists>clip. bt_get (clips a) c = Some clip \<and> cl_lane_id clip = i))"

definition clips_valid :: "arrangement \<Rightarrow> bool" where
  "clips_valid a \<longleftrightarrow> (\<forall>i c. bt_get (clips a) i = Some c \<longrightarrow>
     cl_id c = i \<and> \<not> range_is_empty (cl_timeline c) \<and> valid_gain (cl_gain c)
     \<and> (\<exists>l. bt_get (lanes a) (cl_lane_id c) = Some l \<and> occurrences i (ln_clip_ids l) = 1))"

definition clusters_valid :: "arrangement \<Rightarrow> bool" where
  "clusters_valid a \<longleftrightarrow> (\<forall>i c. bt_get (clusters a) i = Some c \<longrightarrow>
     cu_id c = i \<and> valid_gain (cu_gain c))"

definition events_valid :: "arrangement \<Rightarrow> bool" where
  "events_valid a \<longleftrightarrow> (\<forall>i e. bt_get (events a) i = Some e \<longrightarrow>
     ev_id e = i \<and> valid_gain (ev_gain e)
     \<and> bt_get (lanes a) (ev_lane_id e) \<noteq> None \<and> bt_get (clusters a) (ev_cluster_id e) \<noteq> None)"

definition arrangement_wf :: "arrangement \<Rightarrow> bool" where
  [wf_simps]: "arrangement_wf a \<longleftrightarrow> bt_ok (tracks a) \<and> bt_ok (lanes a) \<and> bt_ok (clips a)
     \<and> bt_ok (clusters a) \<and> bt_ok (events a)"

lemma for_each_btree:
  assumes "bt_ok m"
  shows "for_each f m = Inr u \<longleftrightarrow> (\<forall>k v. bt_get m k = Some v \<longrightarrow> f (k, v) = Inr ())"
  using assms by (force simp: for_each_eq_Inr bt_get_iff)

lemma validate_track_iff:
  "validate_track a (i, t) = Inr u \<longleftrightarrow> tr_id t = i \<and> valid_gain (tr_gain t)
     \<and> (\<forall>l \<in> set (tr_lane_ids t). \<exists>lane. bt_get (lanes a) l = Some lane \<and> ln_track_id lane = i)"
  by (auto simp: validate_track_def result_simps)

lemma validate_lane_iff:
  "validate_lane a (i, l) = Inr u \<longleftrightarrow> ln_id l = i
     \<and> (\<exists>t. bt_get (tracks a) (ln_track_id l) = Some t \<and> occurrences i (tr_lane_ids t) = 1)
     \<and> (\<forall>c \<in> set (ln_clip_ids l). \<exists>clip. bt_get (clips a) c = Some clip \<and> cl_lane_id clip = i)"
  by (auto simp: validate_lane_def result_simps split: option.splits)

lemma validate_clip_iff:
  "validate_clip a (i, c) = Inr u \<longleftrightarrow>
     cl_id c = i \<and> \<not> range_is_empty (cl_timeline c) \<and> valid_gain (cl_gain c)
     \<and> (\<exists>l. bt_get (lanes a) (cl_lane_id c) = Some l \<and> occurrences i (ln_clip_ids l) = 1)"
  by (auto simp: validate_clip_def result_simps)

lemma validate_cluster_iff:
  "validate_cluster (i, c) = Inr u \<longleftrightarrow> cu_id c = i \<and> valid_gain (cu_gain c)"
  by (auto simp: validate_cluster_def result_simps)

lemma validate_event_iff:
  "validate_event a (i, e) = Inr u \<longleftrightarrow> ev_id e = i \<and> valid_gain (ev_gain e)
     \<and> bt_get (lanes a) (ev_lane_id e) \<noteq> None \<and> bt_get (clusters a) (ev_cluster_id e) \<noteq> None"
  by (auto simp: validate_event_def result_simps bt_contains_def)

lemma validate_iff:
  assumes "arrangement_wf a"
  shows "validate a = Inr () \<longleftrightarrow> tracks_valid a \<and> lanes_valid a \<and> clips_valid a
     \<and> clusters_valid a \<and> events_valid a"
  using assms
  by (simp add: validate_def then_r_eq_Inr for_each_btree arrangement_wf_def tracks_valid_def
      lanes_valid_def clips_valid_def clusters_valid_def events_valid_def validate_track_iff
      validate_lane_iff validate_clip_iff validate_cluster_iff validate_event_iff)

lemma max_list_ge: "x \<in> set xs \<Longrightarrow> \<exists>m. max_list xs = Some m \<and> x \<le> m"
  by (cases xs) (auto simp: max_list_def simp flip: Max.set_eq_fold)

lemma project_end_bounds:
  "c \<in> set (bt_values (clips a)) \<Longrightarrow> range_end (cl_timeline c) \<le> project_end a"
  "e \<in> set (bt_values (events a)) \<Longrightarrow>
     range_end (event_range e) \<le> project_end a \<and> ev_sample e \<le> project_end a"
proof -
  let ?cs = "map (\<lambda>c. range_end (cl_timeline c)) (bt_values (clips a))"
  let ?es = "map (\<lambda>e. max (range_end (event_range e)) (ev_sample e)) (bt_values (events a))"
  have le: "x \<le> project_end a" if "max_list ?cs = Some x \<or> max_list ?es = Some x" for x
    using that max_list_ge[of x "case_option [] (\<lambda>x. [x]) (max_list ?cs)
        @ case_option [] (\<lambda>x. [x]) (max_list ?es)"]
    by (auto simp: project_end_def Let_def split: option.splits)
  show "c \<in> set (bt_values (clips a)) \<Longrightarrow> range_end (cl_timeline c) \<le> project_end a"
    using max_list_ge[of "range_end (cl_timeline c)" ?cs] le by fastforce
  show "e \<in> set (bt_values (events a)) \<Longrightarrow>
     range_end (event_range e) \<le> project_end a \<and> ev_sample e \<le> project_end a"
    using max_list_ge[of "max (range_end (event_range e)) (ev_sample e)" ?es] le by fastforce
qed

end
