(* ===== verification/Session_Changes.thy ===== *)
theory Session_Changes
  imports Session_State
begin

text \<open>
  Changes and their inverses. \<open>PartialEq\<close> on entities is only a partial equivalence (a NaN gain
  equals nothing) and identifies the two zeros, so a command is undone up to the equivalence
  \<open>arrangement_sim\<close>: the same keys, entries equal or equal by \<open>PartialEq\<close>. The lemmas are
  proved once for a map with any partial equivalence and then for the five maps of an
  arrangement.
\<close>

section \<open>Partial equivalences\<close>

definition per :: "('v \<Rightarrow> 'v \<Rightarrow> bool) \<Rightarrow> bool" where
  "per eq \<longleftrightarrow> (\<forall>a b. eq a b \<longrightarrow> eq b a) \<and> (\<forall>a b c. eq a b \<longrightarrow> eq b c \<longrightarrow> eq a c)"

lemma perD:
  assumes "per eq"
  shows "eq a b \<Longrightarrow> eq b a" "eq a b \<Longrightarrow> eq b c \<Longrightarrow> eq a c" "eq a b \<Longrightarrow> eq a a" "eq a b \<Longrightarrow> eq b b"
  using assms unfolding per_def by blast+

lemma per_track: "per track_eq"
  by (auto simp: per_def track_eq_def intro: f32_eq_sym f32_eq_trans)
    (metis track.surjective track.update_convs(5))+

lemma per_clip: "per clip_eq"
  by (auto simp: per_def clip_eq_def intro: f32_eq_sym f32_eq_trans)
    (metis clip.surjective clip.update_convs(6))+

lemma per_cluster: "per cluster_eq"
  by (auto simp: per_def cluster_eq_def intro: f32_eq_sym f32_eq_trans)
    (metis cluster.surjective cluster.update_convs(3))+

lemma per_event: "per event_eq"
  by (auto simp: per_def event_eq_def intro: f32_eq_sym f32_eq_trans)
    (metis event.surjective event.update_convs(6))+

lemma per_eq: "per (=)"
  by (simp add: per_def)

text \<open>Equal, or equal by \<open>PartialEq\<close>: the reflexive closure.\<close>

definition loosely :: "('v \<Rightarrow> 'v \<Rightarrow> bool) \<Rightarrow> 'v \<Rightarrow> 'v \<Rightarrow> bool" where
  "loosely eq a b \<longleftrightarrow> a = b \<or> eq a b"

definition map_sim :: "('v \<Rightarrow> 'v \<Rightarrow> bool) \<Rightarrow> ('k, 'v) btree \<Rightarrow> ('k, 'v) btree \<Rightarrow> bool" where
  "map_sim eq m n \<longleftrightarrow> (\<forall>k. rel_option (loosely eq) (bt_get m k) (bt_get n k))"

lemma loosely_refl [simp]: "loosely eq a a"
  by (simp add: loosely_def)

lemma map_sim_refl [simp]: "map_sim eq m m"
  by (simp add: map_sim_def option.rel_refl)

lemma loosely_sym: "per eq \<Longrightarrow> loosely eq a b \<Longrightarrow> loosely eq b a"
  by (auto simp: loosely_def dest: perD(1))

lemma loosely_trans: "per eq \<Longrightarrow> loosely eq a b \<Longrightarrow> loosely eq b c \<Longrightarrow> loosely eq a c"
  by (auto simp: loosely_def dest: perD(2))

lemma rel_option_sym: "(\<And>a b. R a b \<Longrightarrow> R b a) \<Longrightarrow> rel_option R x y \<Longrightarrow> rel_option R y x"
  by (cases x; cases y) auto

lemma rel_option_trans:
  "(\<And>a b c. R a b \<Longrightarrow> S b c \<Longrightarrow> T a c) \<Longrightarrow> rel_option R x y \<Longrightarrow> rel_option S y z \<Longrightarrow> rel_option T x z"
  by (cases x; cases y; cases z) auto

lemma map_sim_sym: "per eq \<Longrightarrow> map_sim eq m n \<Longrightarrow> map_sim eq n m"
  unfolding map_sim_def by (blast intro: rel_option_sym loosely_sym)

lemma map_sim_trans:
  assumes "per eq" "map_sim eq m n" "map_sim eq n q"
  shows "map_sim eq m q"
  unfolding map_sim_def
proof
  fix k
  have "rel_option (loosely eq) (bt_get m k) (bt_get n k)"
    "rel_option (loosely eq) (bt_get n k) (bt_get q k)"
    using assms(2,3) by (simp_all add: map_sim_def)
  then show "rel_option (loosely eq) (bt_get m k) (bt_get q k)"
    by (rule rel_option_trans[rotated]) (rule loosely_trans[OF assms(1)])
qed

lemma rel_option_loosely:
  assumes "per eq" "rel_option (loosely eq) x y" "rel_option eq x z"
  shows "rel_option eq y z"
  using assms(2,3)
  by (cases x; cases y; cases z) (auto simp: loosely_def dest: perD[OF assms(1)])

section \<open>Replacing one entry\<close>

lemma replace_entry_cong:
  assumes "per eq" "map_sim eq m n" "replace_entry eq kind k x r m = Inr m'"
  shows "\<exists>n'. replace_entry eq kind k x r n = Inr n' \<and> map_sim eq m' n'"
proof -
  have "rel_option eq (bt_get m k) x"
    using assms(3) by (simp add: replace_entry_def split: if_splits)
  then have "rel_option eq (bt_get n k) x"
    using assms(1,2) rel_option_loosely unfolding map_sim_def by blast
  with assms(2,3) show ?thesis
    by (auto simp: replace_entry_def map_sim_def split: if_splits option.splits)
qed

text \<open>The opposite replacement finds what the first one left and puts back what it found.\<close>

lemma replace_entry_inverse:
  assumes "per eq" "replace_entry eq kind k x r m = Inr m'"
    and "\<And>v. r = Some v \<Longrightarrow> eq v v"
  shows "\<exists>m''. replace_entry eq kind k r x m' = Inr m'' \<and> map_sim eq m'' m"
proof -
  have found: "rel_option eq (bt_get m k) x"
    and m': "m' = (case r of Some v \<Rightarrow> bt_insert k v m | None \<Rightarrow> bt_remove k m)"
    using assms(2) by (simp_all add: replace_entry_def split: if_splits)
  have "rel_option eq (bt_get m' k) r"
    using assms(3) by (cases r) (simp_all add: m')
  moreover have "rel_option (loosely eq) x (bt_get m k)"
    using found by (cases x; cases "bt_get m k") (auto simp: loosely_def dest: perD[OF assms(1)])
  ultimately show ?thesis
    by (cases x; cases r) (simp_all add: replace_entry_def m' map_sim_def option.rel_refl)
qed

lemma replace_entry_get:
  assumes "replace_entry eq kind k x r m = Inr m'"
  shows "rel_option eq (bt_get m k) x"
    and "bt_get m' j = (if j = k then r else bt_get m j)"
    and "bt_ok m \<Longrightarrow> bt_ok m'"
  using assms by (auto simp: replace_entry_def split: if_splits option.splits)

text \<open>An entry that is not equal to itself can never be replaced.\<close>

definition reflexive_entries :: "('v \<Rightarrow> 'v \<Rightarrow> bool) \<Rightarrow> ('k, 'v) btree \<Rightarrow> bool" where
  "reflexive_entries eq m \<longleftrightarrow> (\<forall>k v. bt_get m k = Some v \<longrightarrow> eq v v)"

lemma replace_entry_reflexive_back:
  assumes "per eq" "replace_entry eq kind k x r m = Inr m'" "reflexive_entries eq m'"
  shows "reflexive_entries eq m"
  unfolding reflexive_entries_def
proof (intro allI impI)
  fix j v assume j: "bt_get m j = Some v"
  show "eq v v"
  proof (cases "j = k")
    case True
    with replace_entry_get(1)[OF assms(2)] j obtain w where "eq v w"
      by (auto simp: option_rel_Some1)
    then show ?thesis by (rule perD(3)[OF assms(1)])
  next
    case False
    with replace_entry_get(2)[OF assms(2), of j] j assms(3) show ?thesis
      by (auto simp: reflexive_entries_def)
  qed
qed

lemma replace_arm_cases:
  assumes "replace_arm eq key kind b a fwd m = Inr m'"
  obtains k where "option_id (map_option key b) (map_option key a) kind = Inr k"
    and "replace_entry eq kind k (if fwd then b else a) (if fwd then a else b) m = Inr m'"
  using assms by (auto simp: replace_arm_def result_simps split: if_splits)

lemma replace_arm_cong:
  assumes "per eq" "map_sim eq m n" "replace_arm eq key kind b a fwd m = Inr m'"
  shows "\<exists>n'. replace_arm eq key kind b a fwd n = Inr n' \<and> map_sim eq m' n'"
proof -
  obtain k where k: "option_id (map_option key b) (map_option key a) kind = Inr k"
    and r: "replace_entry eq kind k (if fwd then b else a) (if fwd then a else b) m = Inr m'"
    by (rule replace_arm_cases[OF assms(3)])
  from replace_entry_cong[OF assms(1,2) r] k show ?thesis
    by (auto simp: replace_arm_def split: if_splits)
qed

lemma replace_arm_inverse:
  assumes "per eq" "replace_arm eq key kind b a fwd m = Inr m'" "reflexive_entries eq m'"
  shows "\<exists>m''. replace_arm eq key kind b a (\<not> fwd) m' = Inr m'' \<and> map_sim eq m'' m"
proof -
  obtain k where k: "option_id (map_option key b) (map_option key a) kind = Inr k"
    and r: "replace_entry eq kind k (if fwd then b else a) (if fwd then a else b) m = Inr m'"
    by (rule replace_arm_cases[OF assms(2)])
  have "eq v v" if "(if fwd then a else b) = Some v" for v
    using replace_entry_get(2)[OF r, of k] that assms(3) by (auto simp: reflexive_entries_def)
  from replace_entry_inverse[OF assms(1) r this] k show ?thesis
    by (auto simp: replace_arm_def split: if_splits)
qed

lemma replace_arm_reflexive_back:
  "per eq \<Longrightarrow> replace_arm eq key kind b a fwd m = Inr m' \<Longrightarrow> reflexive_entries eq m'
     \<Longrightarrow> reflexive_entries eq m"
  by (elim replace_arm_cases) (rule replace_entry_reflexive_back)

lemma replace_arm_ok: "replace_arm eq key kind b a fwd m = Inr m' \<Longrightarrow> bt_ok m \<Longrightarrow> bt_ok m'"
  by (elim replace_arm_cases) (rule replace_entry_get(3))

section \<open>Changes of an arrangement\<close>

definition arrangement_sim :: "arrangement \<Rightarrow> arrangement \<Rightarrow> bool" where
  "arrangement_sim a b \<longleftrightarrow> map_sim track_eq (tracks a) (tracks b)
     \<and> map_sim (=) (lanes a) (lanes b) \<and> map_sim clip_eq (clips a) (clips b)
     \<and> map_sim cluster_eq (clusters a) (clusters b) \<and> map_sim event_eq (events a) (events b)"

definition arrangement_reflexive :: "arrangement \<Rightarrow> bool" where
  "arrangement_reflexive a \<longleftrightarrow> reflexive_entries track_eq (tracks a)
     \<and> reflexive_entries clip_eq (clips a) \<and> reflexive_entries cluster_eq (clusters a)
     \<and> reflexive_entries event_eq (events a)"

lemmas pers = per_track per_clip per_cluster per_event per_eq

lemma arrangement_sim_refl [simp]: "arrangement_sim a a"
  by (simp add: arrangement_sim_def)

lemma arrangement_sim_sym: "arrangement_sim a b \<Longrightarrow> arrangement_sim b a"
  by (simp add: arrangement_sim_def map_sim_sym pers)

lemmas map_sim_transs = map_sim_trans[OF per_track] map_sim_trans[OF per_clip]
  map_sim_trans[OF per_cluster] map_sim_trans[OF per_event] map_sim_trans[OF per_eq]

lemma arrangement_sim_trans:
  "arrangement_sim a b \<Longrightarrow> arrangement_sim b c \<Longrightarrow> arrangement_sim a c"
  unfolding arrangement_sim_def by (elim conjE, intro conjI) (erule (1) map_sim_transs)+

lemma map_sum_eq_Inr [result_simps]: "map_sum id f x = Inr y \<longleftrightarrow> (\<exists>z. x = Inr z \<and> y = f z)"
  by (cases x) auto

lemma change_apply_wf:
  "change_apply c fwd a = Inr b \<Longrightarrow> arrangement_wf a \<Longrightarrow> arrangement_wf b"
  by (cases c) (auto simp: result_simps wf_simps dest: replace_arm_ok)

lemmas replace_arm_congs = replace_arm_cong[OF per_track] replace_arm_cong[OF per_clip]
  replace_arm_cong[OF per_cluster] replace_arm_cong[OF per_event] replace_arm_cong[OF per_eq]

lemmas replace_arm_inverses = replace_arm_inverse[OF per_track] replace_arm_inverse[OF per_clip]
  replace_arm_inverse[OF per_cluster] replace_arm_inverse[OF per_event]
  replace_arm_inverse[OF per_eq]

lemma change_apply_cong:
  assumes "arrangement_sim a b" "change_apply c fwd a = Inr a'"
  shows "\<exists>b'. change_apply c fwd b = Inr b' \<and> arrangement_sim a' b'"
proof (cases c)
  case (TrackChange x y)
  with assms replace_arm_congs(1)[of "tracks a" "tracks b"] show ?thesis
    by (fastforce simp: result_simps arrangement_sim_def)
next
  case (LaneChange x y)
  with assms replace_arm_congs(5)[of "lanes a" "lanes b"] show ?thesis
    by (fastforce simp: result_simps arrangement_sim_def)
next
  case (ClipChange x y)
  with assms replace_arm_congs(2)[of "clips a" "clips b"] show ?thesis
    by (fastforce simp: result_simps arrangement_sim_def)
next
  case (ClusterChange x y)
  with assms replace_arm_congs(3)[of "clusters a" "clusters b"] show ?thesis
    by (fastforce simp: result_simps arrangement_sim_def)
next
  case (EventChange x y)
  with assms replace_arm_congs(4)[of "events a" "events b"] show ?thesis
    by (fastforce simp: result_simps arrangement_sim_def)
qed

lemma change_apply_reflexive_back:
  "change_apply c fwd a = Inr b \<Longrightarrow> arrangement_reflexive b \<Longrightarrow> arrangement_reflexive a"
  by (cases c) (auto simp: result_simps arrangement_reflexive_def
      dest: replace_arm_reflexive_back[OF per_track] replace_arm_reflexive_back[OF per_clip]
        replace_arm_reflexive_back[OF per_cluster] replace_arm_reflexive_back[OF per_event])

lemma reflexive_entries_eq [simp]: "reflexive_entries (=) m"
  by (simp add: reflexive_entries_def)

lemma change_apply_inverse:
  assumes "change_apply c fwd a = Inr b" "arrangement_reflexive b"
  shows "\<exists>a'. change_apply c (\<not> fwd) b = Inr a' \<and> arrangement_sim a' a"
proof (cases c)
  case (TrackChange x y)
  with assms replace_arm_inverses(1)[of tr_id "''track''" x y fwd "tracks a" "tracks b"]
  show ?thesis by (fastforce simp: result_simps arrangement_sim_def arrangement_reflexive_def)
next
  case (LaneChange x y)
  with assms replace_arm_inverses(5)[of ln_id "''lane''" x y fwd "lanes a" "lanes b"]
  show ?thesis by (fastforce simp: result_simps arrangement_sim_def arrangement_reflexive_def)
next
  case (ClipChange x y)
  with assms replace_arm_inverses(2)[of cl_id "''clip''" x y fwd "clips a" "clips b"]
  show ?thesis by (fastforce simp: result_simps arrangement_sim_def arrangement_reflexive_def)
next
  case (ClusterChange x y)
  with assms replace_arm_inverses(3)[of cu_id "''cluster''" x y fwd "clusters a" "clusters b"]
  show ?thesis by (fastforce simp: result_simps arrangement_sim_def arrangement_reflexive_def)
next
  case (EventChange x y)
  with assms replace_arm_inverses(4)[of ev_id "''event''" x y fwd "events a" "events b"]
  show ?thesis by (fastforce simp: result_simps arrangement_sim_def arrangement_reflexive_def)
qed

end
