(* ===== verification/History.thy ===== *)
theory History
  imports Prelude
begin

text \<open>
  The contract that an undo history rests on, as a locale: a forward and a backward way to run a
  command on a state, and an equivalence of states that both respect. The lemmas are about the
  two stacks of commands such a history keeps: from the contract alone, every stacked command
  stays runnable whatever sequence of executions, undos and redos produced the stacks.
\<close>

text \<open>Every command of the list runs, one after the other.\<close>

fun can_run :: "('c \<Rightarrow> 's \<Rightarrow> 'e + 's) \<Rightarrow> 'c list \<Rightarrow> 's \<Rightarrow> bool" where
  "can_run f [] s \<longleftrightarrow> True"
| "can_run f (c # cs) s \<longleftrightarrow> (case f c s of Inl _ \<Rightarrow> False | Inr t \<Rightarrow> can_run f cs t)"

lemma can_run_take: "can_run f cs s \<Longrightarrow> can_run f (take n cs) s"
  by (induction cs arbitrary: n s) (auto simp: take_Cons split: nat.splits sum.splits)

text \<open>\<open>while deque.len() > limit { deque.pop_front() }\<close>.\<close>

fun trim_front :: "nat \<Rightarrow> 'a list \<Rightarrow> 'a list" where
  "trim_front limit [] = []"
| "trim_front limit (x # xs) = (if limit < length (x # xs) then trim_front limit xs else x # xs)"

lemma trim_front_drop: "trim_front limit xs = drop (length xs - limit) xs"
  by (induction limit xs rule: trim_front.induct) (auto simp: Suc_diff_le)

lemma length_trim_front: "length (trim_front limit xs) \<le> limit"
  by (simp add: trim_front_drop)

lemma rev_trim_front: "rev (trim_front limit xs) = take limit (rev xs)"
  by (cases "length xs \<le> limit") (simp_all add: trim_front_drop rev_drop)

lemma can_run_trim:
  "can_run f (rev xs) s \<Longrightarrow> can_run f (rev (trim_front limit xs)) s"
  by (simp add: rev_trim_front can_run_take)

lemma map_trim_front: "map f (trim_front limit xs) = trim_front limit (map f xs)"
  by (simp add: trim_front_drop drop_map)

locale reversible =
  fixes fwd bwd :: "'c \<Rightarrow> 's \<Rightarrow> 'e + 's"
    and eqv :: "'s \<Rightarrow> 's \<Rightarrow> bool"
    and good :: "'s \<Rightarrow> bool"
  assumes eqv_refl: "eqv s s"
    and eqv_sym: "eqv s t \<Longrightarrow> eqv t s"
    and eqv_trans: "eqv s t \<Longrightarrow> eqv t u \<Longrightarrow> eqv s u"
    and fwd_good: "good s \<Longrightarrow> fwd c s = Inr t \<Longrightarrow> good t"
    and bwd_good: "good s \<Longrightarrow> bwd c s = Inr t \<Longrightarrow> good t"
    and fwd_cong: "good s \<Longrightarrow> good s' \<Longrightarrow> eqv s s' \<Longrightarrow> fwd c s = Inr t
      \<Longrightarrow> \<exists>t'. fwd c s' = Inr t' \<and> eqv t t'"
    and bwd_cong: "good s \<Longrightarrow> good s' \<Longrightarrow> eqv s s' \<Longrightarrow> bwd c s = Inr t
      \<Longrightarrow> \<exists>t'. bwd c s' = Inr t' \<and> eqv t t'"
    and bwd_fwd: "good s \<Longrightarrow> fwd c s = Inr t \<Longrightarrow> \<exists>u. bwd c t = Inr u \<and> eqv u s"
    and fwd_bwd: "good s \<Longrightarrow> bwd c s = Inr t \<Longrightarrow> \<exists>u. fwd c t = Inr u \<and> eqv u s"
begin

lemma can_run_bwd_cong:
  "can_run bwd cs s \<Longrightarrow> good s \<Longrightarrow> good s' \<Longrightarrow> eqv s s' \<Longrightarrow> can_run bwd cs s'"
proof (induction cs arbitrary: s s')
  case (Cons c cs)
  then obtain t where t: "bwd c s = Inr t" "can_run bwd cs t" by (auto split: sum.splits)
  with Cons.prems bwd_cong obtain t' where t': "bwd c s' = Inr t'" "eqv t t'" by blast
  have "can_run bwd cs t'"
    using Cons.IH t(2) bwd_good Cons.prems t t' by blast
  with t'(1) show ?case by simp
qed simp

lemma can_run_fwd_cong:
  "can_run fwd cs s \<Longrightarrow> good s \<Longrightarrow> good s' \<Longrightarrow> eqv s s' \<Longrightarrow> can_run fwd cs s'"
proof (induction cs arbitrary: s s')
  case (Cons c cs)
  then obtain t where t: "fwd c s = Inr t" "can_run fwd cs t" by (auto split: sum.splits)
  with Cons.prems fwd_cong obtain t' where t': "fwd c s' = Inr t'" "eqv t t'" by blast
  have "can_run fwd cs t'"
    using Cons.IH t(2) fwd_good Cons.prems t t' by blast
  with t'(1) show ?case by simp
qed simp

text \<open>Executing a command makes it the next one to undo.\<close>

lemma push_undo:
  assumes "good s" "can_run bwd us s" "fwd c s = Inr t"
  shows "can_run bwd (c # us) t"
proof -
  obtain u where u: "bwd c t = Inr u" "eqv u s" using bwd_fwd assms by blast
  then have "can_run bwd us u"
    using can_run_bwd_cong assms fwd_good bwd_good eqv_sym by blast
  with u show ?thesis by simp
qed

text \<open>Undoing a command makes it the next one to redo.\<close>

lemma push_redo:
  assumes "good s" "can_run fwd rs s" "bwd c s = Inr t"
  shows "can_run fwd (c # rs) t"
proof -
  obtain u where u: "fwd c t = Inr u" "eqv u s" using fwd_bwd assms by blast
  then have "can_run fwd rs u"
    using can_run_fwd_cong assms fwd_good bwd_good eqv_sym by blast
  with u show ?thesis by simp
qed

lemma bwd_after_fwd: "good s \<Longrightarrow> fwd c s = Inr t \<Longrightarrow> bwd c t = Inr u \<Longrightarrow> eqv u s"
  using bwd_fwd by fastforce

lemma fwd_after_bwd: "good s \<Longrightarrow> bwd c s = Inr t \<Longrightarrow> fwd c t = Inr u \<Longrightarrow> eqv u s"
  using fwd_bwd by fastforce

end

end
