(* ===== verification/Session.thy ===== *)
theory Session
  imports Session_Changes History
begin

text \<open>
  The editor session of \<open>src/session.rs\<close>: commands, the bounded undo and redo stacks, revisions
  and the identifier allocators. Every operation takes the session and returns its result with
  the new session; the error paths return the session the code leaves behind.
\<close>

record session_command =
  cmd_label :: string
  cmd_changes :: "project_change list"

definition command_is_empty :: "session_command \<Rightarrow> bool" where
  "command_is_empty c \<longleftrightarrow> list_all change_is_noop (cmd_changes c)"

record command_outcome =
  oc_changed :: bool
  oc_revision :: nat

record history_entry =
  he_command :: session_command
  he_before_revision :: nat
  he_after_revision :: nat

record id_allocator =
  next_track :: nat
  next_lane :: nat
  next_clip :: nat
  next_event :: nat
  next_cluster :: nat

definition id_allocator_default :: id_allocator where
  "id_allocator_default = \<lparr>next_track = 1, next_lane = 1, next_clip = 1, next_event = 1,
     next_cluster = 1\<rparr>"

record session =
  se_sample_rate :: nat
  se_transport :: transport
  se_selection :: selection
  se_snap :: snap_grid
  se_arrangement :: arrangement
  se_ids :: id_allocator
  se_revision :: nat
  se_saved_revision :: nat
  se_next_revision :: nat
  se_undo :: "history_entry list"
  se_redo :: "history_entry list"
  se_history_limit :: nat

definition session_new :: "nat \<Rightarrow> session_error + session" where
  "session_new rate =
     (if rate = 0 then Inl InvalidSampleRate
      else Inr \<lparr>se_sample_rate = rate, se_transport = transport_default,
        se_selection = selection_default, se_snap = snap_grid_default,
        se_arrangement = arrangement_default, se_ids = id_allocator_default,
        se_revision = 0, se_saved_revision = 0, se_next_revision = 1,
        se_undo = [], se_redo = [], se_history_limit = 256\<rparr>)"

definition is_dirty :: "session \<Rightarrow> bool" where
  "is_dirty s \<longleftrightarrow> se_revision s \<noteq> se_saved_revision s"

definition mark_saved :: "session \<Rightarrow> session" where
  "mark_saved s = s\<lparr>se_saved_revision := se_revision s\<rparr>"

definition set_history_limit :: "nat \<Rightarrow> session \<Rightarrow> session" where
  "set_history_limit limit s =
     (let s = s\<lparr>se_history_limit := limit, se_undo := trim_front limit (se_undo s)\<rparr>;
          s = (if limit < length (se_redo s)
               then s\<lparr>se_redo := drop (length (se_redo s) - limit) (se_redo s)\<rparr> else s)
      in if limit = 0 then s\<lparr>se_undo := [], se_redo := []\<rparr> else s)"

definition undo_label :: "session \<Rightarrow> string option" where
  "undo_label s = (if se_undo s = [] then None else Some (cmd_label (he_command (last (se_undo s)))))"

definition redo_label :: "session \<Rightarrow> string option" where
  "redo_label s = (if se_redo s = [] then None else Some (cmd_label (he_command (last (se_redo s)))))"

definition allocate_revision :: "session \<Rightarrow> nat \<times> session" where
  "allocate_revision s =
     (se_next_revision s, s\<lparr>se_next_revision := sat_add_u64 (se_next_revision s) 1\<rparr>)"

definition execute ::
  "session_command \<Rightarrow> session \<Rightarrow> (session_error + command_outcome) \<times> session" where
  "execute command s =
     (if command_is_empty command
      then (Inr \<lparr>oc_changed = False, oc_revision = se_revision s\<rparr>, s)
      else case apply_changes (cmd_changes command) True (se_arrangement s) of
        Inl e \<Rightarrow> (Inl e, s)
      | Inr a \<Rightarrow>
          (case validate a of
             Inl e \<Rightarrow> (Inl e, s)
           | Inr _ \<Rightarrow>
               let before_revision = se_revision s;
                   (after_revision, s1) = allocate_revision (s\<lparr>se_arrangement := a\<rparr>);
                   s2 = s1\<lparr>se_revision := after_revision, se_redo := []\<rparr>;
                   s3 = (if 0 < se_history_limit s2
                         then s2\<lparr>se_undo := trim_front (se_history_limit s2)
                                (se_undo s2 @ [\<lparr>he_command = command,
                                   he_before_revision = before_revision,
                                   he_after_revision = after_revision\<rparr>])\<rparr>
                         else s2)
               in (Inr \<lparr>oc_changed = True, oc_revision = se_revision s3\<rparr>, s3)))"

definition undo :: "session \<Rightarrow> (session_error + nat option) \<times> session" where
  "undo s =
     (if se_undo s = [] then (Inr None, s)
      else let entry = last (se_undo s)
        in case bind_r (apply_changes (cmd_changes (he_command entry)) False (se_arrangement s))
                  (\<lambda>a. then_r (validate a) (Inr a)) of
             Inl e \<Rightarrow> (Inl e, s)
           | Inr a \<Rightarrow>
               (Inr (Some (he_before_revision entry)),
                s\<lparr>se_arrangement := a, se_undo := butlast (se_undo s),
                  se_revision := he_before_revision entry, se_redo := se_redo s @ [entry]\<rparr>))"

definition redo :: "session \<Rightarrow> (session_error + nat option) \<times> session" where
  "redo s =
     (if se_redo s = [] then (Inr None, s)
      else let entry = last (se_redo s)
        in case bind_r (apply_changes (cmd_changes (he_command entry)) True (se_arrangement s))
                  (\<lambda>a. then_r (validate a) (Inr a)) of
             Inl e \<Rightarrow> (Inl e, s)
           | Inr a \<Rightarrow>
               (Inr (Some (he_after_revision entry)),
                s\<lparr>se_arrangement := a, se_redo := butlast (se_redo s),
                  se_revision := he_after_revision entry,
                  se_undo := trim_front (se_history_limit s) (se_undo s @ [entry])\<rparr>))"

section \<open>Creating and editing entities\<close>

datatype id_kind = TrackKind | LaneKind | ClipKind | EventKind | ClusterKind

definition take_id :: "id_kind \<Rightarrow> session \<Rightarrow> nat \<times> session" where
  "take_id kind s =
     (let ids = se_ids s in
      case kind of
        TrackKind \<Rightarrow> (next_track ids, s\<lparr>se_ids := ids\<lparr>next_track := sat_add_u64 (next_track ids) 1\<rparr>\<rparr>)
      | LaneKind \<Rightarrow> (next_lane ids, s\<lparr>se_ids := ids\<lparr>next_lane := sat_add_u64 (next_lane ids) 1\<rparr>\<rparr>)
      | ClipKind \<Rightarrow> (next_clip ids, s\<lparr>se_ids := ids\<lparr>next_clip := sat_add_u64 (next_clip ids) 1\<rparr>\<rparr>)
      | EventKind \<Rightarrow> (next_event ids, s\<lparr>se_ids := ids\<lparr>next_event := sat_add_u64 (next_event ids) 1\<rparr>\<rparr>)
      | ClusterKind \<Rightarrow>
          (next_cluster ids, s\<lparr>se_ids := ids\<lparr>next_cluster := sat_add_u64 (next_cluster ids) 1\<rparr>\<rparr>))"

text \<open>\<open>self.execute(command)?; Ok(id)\<close>.\<close>

definition execute_then ::
  "session_command \<Rightarrow> 'a \<Rightarrow> session \<Rightarrow> (session_error + 'a) \<times> session" where
  "execute_then command x s =
     (case execute command s of (Inl e, s') \<Rightarrow> (Inl e, s') | (Inr _, s') \<Rightarrow> (Inr x, s'))"

definition create_track :: "string \<Rightarrow> track_kind \<Rightarrow> session \<Rightarrow> (session_error + track_id) \<times> session" where
  "create_track name kind s =
     (let (n, s) = take_id TrackKind s; i = Id n; track = track_new i name kind
      in execute_then \<lparr>cmd_label = ''Create track'', cmd_changes = [TrackChange None (Some track)]\<rparr> i s)"

definition create_lane :: "track_id \<Rightarrow> string \<Rightarrow> session \<Rightarrow> (session_error + lane_id) \<times> session" where
  "create_lane t name s =
     (case bt_get (tracks (se_arrangement s)) t of
        None \<Rightarrow> (Inl (MissingTrack t), s)
      | Some before_track \<Rightarrow>
          let (n, s) = take_id LaneKind s; i = Id n;
              after_track = before_track\<lparr>tr_lane_ids := tr_lane_ids before_track @ [i]\<rparr>;
              lane = lane_new i t name
          in execute_then \<lparr>cmd_label = ''Create lane'',
               cmd_changes = [TrackChange (Some before_track) (Some after_track),
                              LaneChange None (Some lane)]\<rparr> i s)"

definition create_clip ::
  "lane_id \<Rightarrow> string \<Rightarrow> sample_range \<Rightarrow> session \<Rightarrow> (session_error + clip_id) \<times> session" where
  "create_clip l name timeline s =
     (if range_is_empty timeline then (Inl (InvalidEntity ''clip''), s)
      else case bt_get (lanes (se_arrangement s)) l of
        None \<Rightarrow> (Inl (MissingLane l), s)
      | Some before_lane \<Rightarrow>
          let (n, s) = take_id ClipKind s; i = Id n;
              after_lane = before_lane\<lparr>ln_clip_ids := ln_clip_ids before_lane @ [i]\<rparr>;
              clip = clip_new i l name timeline
          in execute_then \<lparr>cmd_label = ''Create clip'',
               cmd_changes = [LaneChange (Some before_lane) (Some after_lane),
                              ClipChange None (Some clip)]\<rparr> i s)"

definition create_cluster :: "string \<Rightarrow> session \<Rightarrow> (session_error + cluster_id) \<times> session" where
  "create_cluster name s =
     (let (n, s) = take_id ClusterKind s; i = Id n; cluster = cluster_new i name
      in execute_then \<lparr>cmd_label = ''Create cluster'',
           cmd_changes = [ClusterChange None (Some cluster)]\<rparr> i s)"

definition create_event ::
  "lane_id \<Rightarrow> cluster_id \<Rightarrow> sample \<Rightarrow> session \<Rightarrow> (session_error + event_id) \<times> session" where
  "create_event l c at s =
     (if bt_get (lanes (se_arrangement s)) l = None then (Inl (MissingLane l), s)
      else if bt_get (clusters (se_arrangement s)) c = None then (Inl (MissingCluster c), s)
      else let (n, s) = take_id EventKind s; i = Id n; event = event_new i l c at
        in execute_then \<lparr>cmd_label = ''Create event'', cmd_changes = [EventChange None (Some event)]\<rparr> i s)"

definition command_for_event ::
  "event_id \<Rightarrow> string \<Rightarrow> (event \<Rightarrow> event) \<Rightarrow> session \<Rightarrow> session_error + session_command" where
  "command_for_event i label edit s =
     bind_r (ok_or (bt_get (events (se_arrangement s)) i) (MissingEvent i))
       (\<lambda>before. let after = edit before in
          if ev_id after \<noteq> i then Inl (InvalidCommand ''event id changed'')
          else Inr \<lparr>cmd_label = label, cmd_changes = [change_event before after]\<rparr>)"

definition edit_event ::
  "event_id \<Rightarrow> string \<Rightarrow> (event \<Rightarrow> event) \<Rightarrow> session
     \<Rightarrow> (session_error + command_outcome) \<times> session" where
  "edit_event i label edit s =
     (case bt_get (events (se_arrangement s)) i of
        None \<Rightarrow> (Inl (MissingEvent i), s)
      | Some before \<Rightarrow>
          let after = edit before in
          if ev_id after \<noteq> i then (Inl (InvalidCommand ''event id changed''), s)
          else execute \<lparr>cmd_label = label, cmd_changes = [change_event before after]\<rparr> s)"

definition edit_cluster ::
  "cluster_id \<Rightarrow> string \<Rightarrow> (cluster \<Rightarrow> cluster) \<Rightarrow> session
     \<Rightarrow> (session_error + command_outcome) \<times> session" where
  "edit_cluster i label edit s =
     (case bt_get (clusters (se_arrangement s)) i of
        None \<Rightarrow> (Inl (MissingCluster i), s)
      | Some before \<Rightarrow>
          let after = edit before in
          if cu_id after \<noteq> i then (Inl (InvalidCommand ''cluster id changed''), s)
          else execute \<lparr>cmd_label = label, cmd_changes = [change_cluster before after]\<rparr> s)"

text \<open>
  The loop of \<open>edit_events\<close>: identifiers already seen are skipped, and the closure is an
  \<open>FnMut\<close>, so it carries a state \<open>'st\<close> of its own from one event to the next.
\<close>

fun collect_edits ::
  "arrangement \<Rightarrow> (event \<Rightarrow> 'st \<Rightarrow> event \<times> 'st) \<Rightarrow> event_id list \<Rightarrow> event_id list \<Rightarrow> 'st
     \<Rightarrow> session_error + project_change list" where
  "collect_edits a edit unique [] st = Inr []"
| "collect_edits a edit unique (i # ids) st =
     (if i \<in> set unique then collect_edits a edit unique ids st
      else case bt_get (events a) i of
        None \<Rightarrow> Inl (MissingEvent i)
      | Some before \<Rightarrow>
          (case edit before st of (after, st') \<Rightarrow>
             if ev_id after \<noteq> i then Inl (InvalidCommand ''event id changed'')
             else map_sum id ((#) (change_event before after))
                    (collect_edits a edit (bs_insert i unique) ids st')))"

definition edit_events ::
  "event_id list \<Rightarrow> string \<Rightarrow> (event \<Rightarrow> 'st \<Rightarrow> event \<times> 'st) \<Rightarrow> 'st \<Rightarrow> session
     \<Rightarrow> (session_error + command_outcome) \<times> session" where
  "edit_events ids label edit st s =
     (case collect_edits (se_arrangement s) edit [] ids st of
        Inl e \<Rightarrow> (Inl e, s)
      | Inr changes \<Rightarrow> execute \<lparr>cmd_label = label, cmd_changes = changes\<rparr> s)"

section \<open>Running a command in either direction\<close>

definition run_command :: "bool \<Rightarrow> session_command \<Rightarrow> arrangement \<Rightarrow> session_error + arrangement" where
  "run_command fwd c a =
     bind_r (apply_changes (cmd_changes c) fwd a) (\<lambda>b. then_r (validate b) (Inr b))"

definition arrangement_good :: "arrangement \<Rightarrow> bool" where
  "arrangement_good a \<longleftrightarrow> arrangement_wf a \<and> validate a = Inr ()"

lemma run_command_eq_Inr:
  "run_command fwd c a = Inr b \<longleftrightarrow> apply_changes (cmd_changes c) fwd a = Inr b \<and> validate b = Inr ()"
  by (auto simp: run_command_def result_simps)

lemma fold_change_wf:
  "fold_r (\<lambda>c. change_apply c fwd) cs a = Inr b \<Longrightarrow> arrangement_wf a \<Longrightarrow> arrangement_wf b"
  by (rule fold_r_invariant) (auto intro: change_apply_wf)

lemma fold_change_cong:
  assumes "fold_r (\<lambda>c. change_apply c fwd) cs a = Inr a'" "arrangement_sim a b"
  shows "\<exists>b'. fold_r (\<lambda>c. change_apply c fwd) cs b = Inr b' \<and> arrangement_sim a' b'"
  using assms
proof (induction cs arbitrary: a b)
  case (Cons c cs)
  then obtain x where x: "change_apply c fwd a = Inr x"
    "fold_r (\<lambda>c. change_apply c fwd) cs x = Inr a'" by (auto split: sum.splits)
  with Cons.prems change_apply_cong obtain y where y: "change_apply c fwd b = Inr y"
    "arrangement_sim x y" by blast
  from Cons.IH[OF x(2) y(2)] y(1) show ?case by simp
qed simp

lemma fold_change_reflexive_back:
  "fold_r (\<lambda>c. change_apply c fwd) cs a = Inr b \<Longrightarrow> arrangement_reflexive b
     \<Longrightarrow> arrangement_reflexive a"
  by (induction cs arbitrary: a)
    (auto split: sum.splits dest: change_apply_reflexive_back)

lemma fold_change_inverse:
  assumes "fold_r (\<lambda>c. change_apply c fwd) cs a = Inr b" "arrangement_reflexive b"
  shows "\<exists>a'. fold_r (\<lambda>c. change_apply c (\<not> fwd)) (rev cs) b = Inr a' \<and> arrangement_sim a' a"
  using assms
proof (induction cs arbitrary: a)
  case (Cons c cs)
  then obtain x where x: "change_apply c fwd a = Inr x"
    "fold_r (\<lambda>c. change_apply c fwd) cs x = Inr b" by (auto split: sum.splits)
  from Cons.IH[OF x(2) Cons.prems(2)] obtain x' where x':
    "fold_r (\<lambda>c. change_apply c (\<not> fwd)) (rev cs) b = Inr x'" "arrangement_sim x' x" by blast
  have "arrangement_reflexive x"
    using fold_change_reflexive_back[OF x(2) Cons.prems(2)] .
  with change_apply_inverse[OF x(1)] obtain y where y:
    "change_apply c (\<not> fwd) x = Inr y" "arrangement_sim y a" by blast
  from change_apply_cong[OF arrangement_sim_sym[OF x'(2)] y(1)] obtain y' where y':
    "change_apply c (\<not> fwd) x' = Inr y'" "arrangement_sim y y'" by blast
  with y(2) have "arrangement_sim y' a"
    using arrangement_sim_trans arrangement_sim_sym by blast
  with x'(1) y'(1) show ?case by (auto simp: fold_r_append)
qed simp

lemma apply_changes_inverse:
  assumes "apply_changes cs fwd a = Inr b" "arrangement_reflexive b"
  shows "\<exists>a'. apply_changes cs (\<not> fwd) b = Inr a' \<and> arrangement_sim a' a"
  using assms fold_change_inverse[of fwd cs a b] fold_change_inverse[of fwd "rev cs" a b]
  by (cases fwd) (simp_all add: apply_changes_def)

lemma apply_changes_cong:
  assumes "apply_changes cs fwd a = Inr a'" "arrangement_sim a b"
  shows "\<exists>b'. apply_changes cs fwd b = Inr b' \<and> arrangement_sim a' b'"
  using assms fold_change_cong by (fastforce simp: apply_changes_def split: if_splits)

lemma apply_changes_wf:
  "apply_changes cs fwd a = Inr b \<Longrightarrow> arrangement_wf a \<Longrightarrow> arrangement_wf b"
  by (auto simp: apply_changes_def split: if_splits intro: fold_change_wf)

text \<open>A valid arrangement holds no NaN, so its entries equal themselves.\<close>

lemma valid_gain_not_nan: "valid_gain g \<Longrightarrow> f32_eq g g"
  by (auto simp: valid_gain_def f32_ge_zero_def f32_eq_refl_iff)

lemma good_reflexive: "arrangement_good a \<Longrightarrow> arrangement_reflexive a"
  by (auto simp: arrangement_good_def validate_iff arrangement_reflexive_def reflexive_entries_def
      tracks_valid_def clips_valid_def clusters_valid_def events_valid_def track_eq_def clip_eq_def
      cluster_eq_def event_eq_def valid_gain_not_nan)

end
