(* ===== verification/Session_History.thy ===== *)
theory Session_History
  imports Session
begin

text \<open>
  The undo history of the session is correct: \<open>run_command\<close> is an instance of the \<open>reversible\<close>
  contract, the invariant \<open>session_inv\<close> holds in every reachable session, and from it undo and
  redo can neither fail nor lose an edit.
\<close>

section \<open>Equivalent arrangements validate alike\<close>

lemma loosely_trackD:
  assumes "loosely track_eq a b"
  shows "tr_id a = tr_id b" "tr_lane_ids a = tr_lane_ids b"
    and "valid_gain (tr_gain a) = valid_gain (tr_gain b)"
proof -
  have "a = b \<or> (a\<lparr>tr_gain := tr_gain b\<rparr> = b \<and> f32_eq (tr_gain a) (tr_gain b))"
    using assms by (simp add: loosely_def track_eq_def)
  then show "tr_id a = tr_id b" "tr_lane_ids a = tr_lane_ids b"
    "valid_gain (tr_gain a) = valid_gain (tr_gain b)"
    by (auto simp: valid_gain_def f32_eq_finite f32_eq_ge_zero)
      (metis track.ext_inject track.surjective track.update_convs(5))+
qed

lemma loosely_clipD:
  assumes "loosely clip_eq a b"
  shows "cl_id a = cl_id b" "cl_lane_id a = cl_lane_id b" "cl_timeline a = cl_timeline b"
    and "valid_gain (cl_gain a) = valid_gain (cl_gain b)"
proof -
  have "a = b \<or> (a\<lparr>cl_gain := cl_gain b\<rparr> = b \<and> f32_eq (cl_gain a) (cl_gain b))"
    using assms by (simp add: loosely_def clip_eq_def)
  then show "cl_id a = cl_id b" "cl_lane_id a = cl_lane_id b" "cl_timeline a = cl_timeline b"
    "valid_gain (cl_gain a) = valid_gain (cl_gain b)"
    by (auto simp: valid_gain_def f32_eq_finite f32_eq_ge_zero)
      (metis clip.ext_inject clip.surjective clip.update_convs(6))+
qed

lemma loosely_clusterD:
  assumes "loosely cluster_eq a b"
  shows "cu_id a = cu_id b" and "valid_gain (cu_gain a) = valid_gain (cu_gain b)"
proof -
  have "a = b \<or> (a\<lparr>cu_gain := cu_gain b\<rparr> = b \<and> f32_eq (cu_gain a) (cu_gain b))"
    using assms by (simp add: loosely_def cluster_eq_def)
  then show "cu_id a = cu_id b" "valid_gain (cu_gain a) = valid_gain (cu_gain b)"
    by (auto simp: valid_gain_def f32_eq_finite f32_eq_ge_zero)
      (metis cluster.ext_inject cluster.surjective cluster.update_convs(3))+
qed

lemma loosely_eventD:
  assumes "loosely event_eq a b"
  shows "ev_id a = ev_id b" "ev_lane_id a = ev_lane_id b" "ev_cluster_id a = ev_cluster_id b"
    and "valid_gain (ev_gain a) = valid_gain (ev_gain b)"
proof -
  have "a = b \<or> (a\<lparr>ev_gain := ev_gain b\<rparr> = b \<and> f32_eq (ev_gain a) (ev_gain b))"
    using assms by (simp add: loosely_def event_eq_def)
  then show "ev_id a = ev_id b" "ev_lane_id a = ev_lane_id b" "ev_cluster_id a = ev_cluster_id b"
    "valid_gain (ev_gain a) = valid_gain (ev_gain b)"
    by (auto simp: valid_gain_def f32_eq_finite f32_eq_ge_zero)
      (metis event.ext_inject event.surjective event.update_convs(6))+
qed

text \<open>What is found on the right has a counterpart on the left.\<close>

lemma map_sim_right:
  assumes "map_sim eq m n" "bt_get n k = Some w"
  obtains v where "bt_get m k = Some v" "loosely eq v w"
proof -
  have "rel_option (loosely eq) (bt_get m k) (Some w)"
    using assms by (metis map_sim_def)
  then show ?thesis using that by (auto simp: option_rel_Some2)
qed

lemma map_sim_left:
  assumes "map_sim eq m n" "bt_get m k = Some v"
  obtains w where "bt_get n k = Some w" "loosely eq v w"
proof -
  have "rel_option (loosely eq) (Some v) (bt_get n k)"
    using assms by (metis map_sim_def)
  then show ?thesis using that by (auto simp: option_rel_Some1)
qed

lemma map_sim_eq: "map_sim (=) m n \<Longrightarrow> bt_get m k = bt_get n k"
  by (cases "bt_get m k"; cases "bt_get n k") (auto simp: map_sim_def loosely_def dest!: spec[of _ k])

lemma map_sim_None: "map_sim eq m n \<Longrightarrow> bt_get m k = None \<longleftrightarrow> bt_get n k = None"
  by (cases "bt_get m k"; cases "bt_get n k") (auto simp: map_sim_def dest!: spec[of _ k])

lemma validate_sim:
  assumes sim: "arrangement_sim a b" and wf: "arrangement_wf a" "arrangement_wf b"
    and ok: "validate a = Inr ()"
  shows "validate b = Inr ()"
proof -
  have sims: "map_sim track_eq (tracks a) (tracks b)" "map_sim clip_eq (clips a) (clips b)"
    "map_sim cluster_eq (clusters a) (clusters b)" "map_sim event_eq (events a) (events b)"
    and lanes: "map_sim (=) (lanes a) (lanes b)"
    using sim by (simp_all add: arrangement_sim_def)
  have ln: "bt_get (lanes b) k = bt_get (lanes a) k" for k
    using map_sim_eq[OF lanes, of k] by simp
  have valid: "tracks_valid a" "lanes_valid a" "clips_valid a" "clusters_valid a" "events_valid a"
    using ok by (simp_all add: validate_iff wf)
  have "tracks_valid b"
    unfolding tracks_valid_def
  proof (intro allI impI)
    fix i t assume "bt_get (tracks b) i = Some t"
    then obtain u where "bt_get (tracks a) i = Some u" and rel: "loosely track_eq u t"
      by (rule map_sim_right[OF sims(1)])
    with valid(1) show "tr_id t = i \<and> valid_gain (tr_gain t) \<and> (\<forall>l\<in>set (tr_lane_ids t).
        \<exists>lane. bt_get (lanes b) l = Some lane \<and> ln_track_id lane = i)"
      using loosely_trackD[OF rel] by (auto simp: tracks_valid_def ln)
  qed
  moreover have "lanes_valid b"
    unfolding lanes_valid_def
  proof (intro allI impI)
    fix i l assume "bt_get (lanes b) i = Some l"
    then have l: "bt_get (lanes a) i = Some l" by (simp add: ln)
    with valid(2) obtain t where "bt_get (tracks a) (ln_track_id l) = Some t"
      "occurrences i (tr_lane_ids t) = 1" unfolding lanes_valid_def by blast
    then obtain u where "bt_get (tracks b) (ln_track_id l) = Some u"
      "occurrences i (tr_lane_ids u) = 1"
      using map_sim_left[OF sims(1)] loosely_trackD(2) by metis
    moreover have "\<exists>clip. bt_get (clips b) c = Some clip \<and> cl_lane_id clip = i"
      if "c \<in> set (ln_clip_ids l)" for c
      using valid(2) l that map_sim_left[OF sims(2)] loosely_clipD(2)
      unfolding lanes_valid_def by metis
    ultimately show "ln_id l = i \<and> (\<exists>t. bt_get (tracks b) (ln_track_id l) = Some t
        \<and> occurrences i (tr_lane_ids t) = 1)
        \<and> (\<forall>c\<in>set (ln_clip_ids l). \<exists>clip. bt_get (clips b) c = Some clip \<and> cl_lane_id clip = i)"
      using valid(2) l by (auto simp: lanes_valid_def)
  qed
  moreover have "clips_valid b"
    unfolding clips_valid_def
  proof (intro allI impI)
    fix i c assume "bt_get (clips b) i = Some c"
    then obtain d where d: "bt_get (clips a) i = Some d" and rel: "loosely clip_eq d c"
      by (rule map_sim_right[OF sims(2)])
    have "cl_id d = i \<and> \<not> range_is_empty (cl_timeline d) \<and> valid_gain (cl_gain d)
        \<and> (\<exists>l. bt_get (lanes a) (cl_lane_id d) = Some l \<and> occurrences i (ln_clip_ids l) = 1)"
      using valid(3) d unfolding clips_valid_def by blast
    then show "cl_id c = i \<and> \<not> range_is_empty (cl_timeline c) \<and> valid_gain (cl_gain c)
        \<and> (\<exists>l. bt_get (lanes b) (cl_lane_id c) = Some l \<and> occurrences i (ln_clip_ids l) = 1)"
      by (simp add: ln loosely_clipD[OF rel])
  qed
  moreover have "clusters_valid b"
    unfolding clusters_valid_def
  proof (intro allI impI)
    fix i c assume "bt_get (clusters b) i = Some c"
    then obtain d where "bt_get (clusters a) i = Some d" and rel: "loosely cluster_eq d c"
      by (rule map_sim_right[OF sims(3)])
    with valid(4) show "cu_id c = i \<and> valid_gain (cu_gain c)"
      using loosely_clusterD[OF rel] by (auto simp: clusters_valid_def)
  qed
  moreover have "events_valid b"
    unfolding events_valid_def
  proof (intro allI impI)
    fix i e assume "bt_get (events b) i = Some e"
    then obtain d where d: "bt_get (events a) i = Some d" and rel: "loosely event_eq d e"
      by (rule map_sim_right[OF sims(4)])
    have "ev_id d = i \<and> valid_gain (ev_gain d) \<and> bt_get (lanes a) (ev_lane_id d) \<noteq> None
        \<and> bt_get (clusters a) (ev_cluster_id d) \<noteq> None"
      using valid(5) d unfolding events_valid_def by blast
    then show "ev_id e = i \<and> valid_gain (ev_gain e)
        \<and> bt_get (lanes b) (ev_lane_id e) \<noteq> None \<and> bt_get (clusters b) (ev_cluster_id e) \<noteq> None"
      using map_sim_None[OF sims(3)] by (simp add: ln loosely_eventD[OF rel])
  qed
  ultimately show ?thesis using wf(2) by (simp add: validate_iff)
qed

section \<open>The session as a reversible history\<close>

lemma run_command_good:
  "arrangement_good a \<Longrightarrow> run_command fwd c a = Inr b \<Longrightarrow> arrangement_good b"
  by (auto simp: run_command_eq_Inr arrangement_good_def dest: apply_changes_wf)

lemma run_command_cong:
  assumes "arrangement_good a" "arrangement_good b" "arrangement_sim a b"
    and "run_command fwd c a = Inr a'"
  shows "\<exists>b'. run_command fwd c b = Inr b' \<and> arrangement_sim a' b'"
proof -
  obtain b' where b': "apply_changes (cmd_changes c) fwd b = Inr b'" "arrangement_sim a' b'"
    using assms apply_changes_cong by (fastforce simp: run_command_eq_Inr)
  have "validate b' = Inr ()"
    using validate_sim[OF b'(2)] assms b'(1) apply_changes_wf
    by (auto simp: run_command_eq_Inr arrangement_good_def)
  with b' show ?thesis by (auto simp: run_command_eq_Inr)
qed

lemma run_command_inverse:
  assumes "arrangement_good a" "run_command fwd c a = Inr b"
  shows "\<exists>a'. run_command (\<not> fwd) c b = Inr a' \<and> arrangement_sim a' a"
proof -
  have b: "arrangement_good b" using assms by (rule run_command_good)
  obtain a' where a': "apply_changes (cmd_changes c) (\<not> fwd) b = Inr a'" "arrangement_sim a' a"
    using apply_changes_inverse[of _ fwd a b] good_reflexive[OF b] assms(2)
    by (auto simp: run_command_eq_Inr)
  have "validate a' = Inr ()"
    using validate_sim[OF arrangement_sim_sym[OF a'(2)]] assms(1) b a'(1) apply_changes_wf
    by (auto simp: arrangement_good_def)
  with a' show ?thesis by (auto simp: run_command_eq_Inr)
qed

interpretation sess: reversible "run_command True" "run_command False"
    arrangement_sim arrangement_good
proof
  fix s t u c
  show "arrangement_sim s s" by simp
  show "arrangement_sim s t \<Longrightarrow> arrangement_sim t s" by (rule arrangement_sim_sym)
  show "arrangement_sim s t \<Longrightarrow> arrangement_sim t u \<Longrightarrow> arrangement_sim s u"
    by (rule arrangement_sim_trans)
  show "arrangement_good s \<Longrightarrow> run_command True c s = Inr t \<Longrightarrow> arrangement_good t"
    "arrangement_good s \<Longrightarrow> run_command False c s = Inr t \<Longrightarrow> arrangement_good t"
    by (erule (1) run_command_good)+
  show "arrangement_good s \<Longrightarrow> run_command True c s = Inr t
      \<Longrightarrow> \<exists>u. run_command False c t = Inr u \<and> arrangement_sim u s"
    by (drule (1) run_command_inverse) simp
  show "arrangement_good s \<Longrightarrow> run_command False c s = Inr t
      \<Longrightarrow> \<exists>u. run_command True c t = Inr u \<and> arrangement_sim u s"
    by (drule (1) run_command_inverse) simp
qed (rule run_command_cong; assumption)+

section \<open>The session invariant\<close>

definition undo_stack :: "session \<Rightarrow> session_command list" where
  "undo_stack s = rev (map he_command (se_undo s))"

definition redo_stack :: "session \<Rightarrow> session_command list" where
  "redo_stack s = rev (map he_command (se_redo s))"

text \<open>
  The arrangement is valid, every stacked command would run, and the undo stack respects the
  limit.
\<close>

definition session_inv :: "session \<Rightarrow> bool" where
  "session_inv s \<longleftrightarrow> arrangement_good (se_arrangement s)
     \<and> can_run (run_command False) (undo_stack s) (se_arrangement s)
     \<and> can_run (run_command True) (redo_stack s) (se_arrangement s)
     \<and> length (se_undo s) \<le> se_history_limit s"

lemma arrangement_default_good: "arrangement_good arrangement_default"
  by (simp add: arrangement_good_def arrangement_default_def wf_simps validate_def)

lemma session_new_inv: "session_new r = Inr s \<Longrightarrow> session_inv s"
  by (auto simp: session_new_def session_inv_def undo_stack_def redo_stack_def
      arrangement_default_good split: if_splits)

lemma execute_run:
  "execute c s =
     (if command_is_empty c then (Inr \<lparr>oc_changed = False, oc_revision = se_revision s\<rparr>, s)
      else case run_command True c (se_arrangement s) of
        Inl e \<Rightarrow> (Inl e, s)
      | Inr a \<Rightarrow> (Inr \<lparr>oc_changed = True, oc_revision = se_next_revision s\<rparr>,
          s\<lparr>se_arrangement := a, se_next_revision := sat_add_u64 (se_next_revision s) 1,
            se_revision := se_next_revision s, se_redo := [],
            se_undo := (if 0 < se_history_limit s
              then trim_front (se_history_limit s) (se_undo s @ [\<lparr>he_command = c,
                he_before_revision = se_revision s, he_after_revision = se_next_revision s\<rparr>])
              else se_undo s)\<rparr>))"
  by (simp add: execute_def run_command_def allocate_revision_def Let_def split: sum.split)

lemma undo_run:
  assumes "se_undo s = us @ [h]"
  shows "undo s = (case run_command False (he_command h) (se_arrangement s) of
      Inl e \<Rightarrow> (Inl e, s)
    | Inr a \<Rightarrow> (Inr (Some (he_before_revision h)),
        s\<lparr>se_arrangement := a, se_undo := us, se_revision := he_before_revision h,
          se_redo := se_redo s @ [h]\<rparr>))"
  using assms by (simp add: undo_def run_command_def Let_def split: sum.split)

lemma redo_run:
  assumes "se_redo s = rs @ [h]"
  shows "redo s = (case run_command True (he_command h) (se_arrangement s) of
      Inl e \<Rightarrow> (Inl e, s)
    | Inr a \<Rightarrow> (Inr (Some (he_after_revision h)),
        s\<lparr>se_arrangement := a, se_redo := rs, se_revision := he_after_revision h,
          se_undo := trim_front (se_history_limit s) (se_undo s @ [h])\<rparr>))"
  using assms by (simp add: redo_def run_command_def Let_def split: sum.split)

lemma execute_cases:
  assumes "execute c s = (r, s')"
  obtains (noop) "command_is_empty c" "r = Inr \<lparr>oc_changed = False, oc_revision = se_revision s\<rparr>" "s' = s"
  | (error) e where "\<not> command_is_empty c" "run_command True c (se_arrangement s) = Inl e"
      "r = Inl e" "s' = s"
  | (committed) a where "\<not> command_is_empty c" "run_command True c (se_arrangement s) = Inr a"
      "r = Inr \<lparr>oc_changed = True, oc_revision = se_next_revision s\<rparr>"
      "s' = s\<lparr>se_arrangement := a, se_next_revision := sat_add_u64 (se_next_revision s) 1,
        se_revision := se_next_revision s, se_redo := [],
        se_undo := (if 0 < se_history_limit s
          then trim_front (se_history_limit s) (se_undo s @ [\<lparr>he_command = c,
            he_before_revision = se_revision s, he_after_revision = se_next_revision s\<rparr>])
          else se_undo s)\<rparr>"
proof (cases "command_is_empty c")
  case True
  with assms show ?thesis by (intro noop) (auto simp: execute_def)
next
  case False
  show ?thesis
  proof (cases "run_command True c (se_arrangement s)")
    case (Inl e)
    with assms False show ?thesis by (intro error[OF False Inl]) (simp_all add: execute_run)
  next
    case (Inr a)
    with assms False show ?thesis by (intro committed[OF False Inr]) (simp_all add: execute_run)
  qed
qed

lemma undo_cases:
  assumes "undo s = (r, s')"
  obtains (empty) "se_undo s = []" "r = Inr None" "s' = s"
  | (error) us h e where "se_undo s = us @ [h]"
      "run_command False (he_command h) (se_arrangement s) = Inl e" "r = Inl e" "s' = s"
  | (committed) us h a where "se_undo s = us @ [h]"
      "run_command False (he_command h) (se_arrangement s) = Inr a"
      "r = Inr (Some (he_before_revision h))"
      "s' = s\<lparr>se_arrangement := a, se_undo := us, se_revision := he_before_revision h,
        se_redo := se_redo s @ [h]\<rparr>"
proof (cases "se_undo s" rule: rev_cases)
  case Nil
  with assms show ?thesis by (intro empty) (simp_all add: undo_def)
next
  case (snoc us h)
  show ?thesis
  proof (cases "run_command False (he_command h) (se_arrangement s)")
    case (Inl e)
    with assms snoc show ?thesis by (intro error[OF snoc Inl]) (simp_all add: undo_run)
  next
    case (Inr a)
    with assms snoc show ?thesis by (intro committed[OF snoc Inr]) (simp_all add: undo_run)
  qed
qed

lemma redo_cases:
  assumes "redo s = (r, s')"
  obtains (empty) "se_redo s = []" "r = Inr None" "s' = s"
  | (error) rs h e where "se_redo s = rs @ [h]"
      "run_command True (he_command h) (se_arrangement s) = Inl e" "r = Inl e" "s' = s"
  | (committed) rs h a where "se_redo s = rs @ [h]"
      "run_command True (he_command h) (se_arrangement s) = Inr a"
      "r = Inr (Some (he_after_revision h))"
      "s' = s\<lparr>se_arrangement := a, se_redo := rs, se_revision := he_after_revision h,
        se_undo := trim_front (se_history_limit s) (se_undo s @ [h])\<rparr>"
proof (cases "se_redo s" rule: rev_cases)
  case Nil
  with assms show ?thesis by (intro empty) (simp_all add: redo_def)
next
  case (snoc rs h)
  show ?thesis
  proof (cases "run_command True (he_command h) (se_arrangement s)")
    case (Inl e)
    with assms snoc show ?thesis by (intro error[OF snoc Inl]) (simp_all add: redo_run)
  next
    case (Inr a)
    with assms snoc show ?thesis by (intro committed[OF snoc Inr]) (simp_all add: redo_run)
  qed
qed

lemma can_run_trim_map:
  "can_run f (rev (map g xs)) s \<Longrightarrow> can_run f (rev (map g (trim_front n xs))) s"
  by (simp add: map_trim_front can_run_trim)

lemma execute_inv:
  assumes "session_inv s" "execute c s = (r, s')"
  shows "session_inv s'"
  using assms(2)
proof (cases rule: execute_cases)
  case (committed a)
  have good: "arrangement_good (se_arrangement s)"
    and us: "can_run (run_command False) (undo_stack s) (se_arrangement s)"
    using assms(1) by (simp_all add: session_inv_def)
  have "can_run (run_command False) (c # undo_stack s) a"
    by (rule sess.push_undo[OF good us committed(2)])
  then have "can_run (run_command False) (rev (map he_command (se_undo s @ [\<lparr>he_command = c,
      he_before_revision = se_revision s, he_after_revision = se_next_revision s\<rparr>]))) a"
    by (simp add: undo_stack_def)
  from can_run_trim_map[OF this, of "se_history_limit s"] assms(1) run_command_good[OF good committed(2)]
  show ?thesis
    by (auto simp: committed session_inv_def undo_stack_def redo_stack_def length_trim_front)
qed (use assms in auto)

lemma undo_inv:
  assumes "session_inv s" "undo s = (r, s')"
  shows "session_inv s'"
  using assms(2)
proof (cases rule: undo_cases)
  case (committed us h a)
  then have "can_run (run_command False) (he_command h # rev (map he_command us)) (se_arrangement s)"
    and good: "arrangement_good (se_arrangement s)"
    and rs: "can_run (run_command True) (redo_stack s) (se_arrangement s)"
    using assms(1) by (simp_all add: session_inv_def undo_stack_def)
  with sess.push_redo[OF good rs committed(2)] assms(1) committed run_command_good[OF good committed(2)]
  show ?thesis by (simp add: session_inv_def undo_stack_def redo_stack_def)
qed (use assms in auto)

lemma redo_inv:
  assumes "session_inv s" "redo s = (r, s')"
  shows "session_inv s'"
  using assms(2)
proof (cases rule: redo_cases)
  case (committed rs h a)
  have good: "arrangement_good (se_arrangement s)"
    and us: "can_run (run_command False) (undo_stack s) (se_arrangement s)"
    and rs: "can_run (run_command True) (he_command h # rev (map he_command rs)) (se_arrangement s)"
    using assms(1) committed by (simp_all add: session_inv_def redo_stack_def)
  have "can_run (run_command False) (rev (map he_command (se_undo s @ [h]))) a"
    using sess.push_undo[OF good us committed(2)] by (simp add: undo_stack_def)
  from can_run_trim_map[OF this, of "se_history_limit s"] rs run_command_good[OF good committed(2)]
  show ?thesis
    by (simp add: committed session_inv_def undo_stack_def redo_stack_def length_trim_front)
qed (use assms in auto)

lemma set_history_limit_inv:
  assumes "session_inv s"
  shows "session_inv (set_history_limit n s)"
proof -
  have u: "can_run (run_command False) (rev (map he_command (trim_front n (se_undo s))))
      (se_arrangement s)"
    using assms by (intro can_run_trim_map) (simp add: session_inv_def undo_stack_def)
  have r: "can_run (run_command True) (rev (map he_command (trim_front n (se_redo s))))
      (se_arrangement s)"
    using assms by (intro can_run_trim_map) (simp add: session_inv_def redo_stack_def)
  show ?thesis
    using assms u r unfolding trim_front_drop
    by (auto simp: set_history_limit_def session_inv_def undo_stack_def redo_stack_def Let_def
        trim_front_drop)
qed

section \<open>Reachable sessions\<close>

lemma take_id_frame [simp]:
  "se_arrangement (snd (take_id k s)) = se_arrangement s"
  "se_undo (snd (take_id k s)) = se_undo s" "se_redo (snd (take_id k s)) = se_redo s"
  "se_history_limit (snd (take_id k s)) = se_history_limit s"
  by (simp_all add: take_id_def Let_def split: id_kind.split)

lemma take_id_inv: "session_inv s \<Longrightarrow> take_id k s = (n, s') \<Longrightarrow> session_inv s'"
  using take_id_frame[of k s] by (simp add: session_inv_def undo_stack_def redo_stack_def)

lemma execute_then_inv: "session_inv s \<Longrightarrow> execute_then c x s = (r, s') \<Longrightarrow> session_inv s'"
  by (auto simp: execute_then_def split: prod.splits sum.splits dest: execute_inv)

lemmas create_defs = create_track_def create_lane_def create_clip_def create_cluster_def
  create_event_def

lemma create_inv:
  assumes "session_inv s"
  shows "create_track n k s = (r, s') \<Longrightarrow> session_inv s'"
    and "create_lane t n s = (r1, s') \<Longrightarrow> session_inv s'"
    and "create_clip l n span s = (r2, s') \<Longrightarrow> session_inv s'"
    and "create_cluster n s = (r3, s') \<Longrightarrow> session_inv s'"
    and "create_event l c at s = (r4, s') \<Longrightarrow> session_inv s'"
  using assms
  by (auto simp: create_defs Let_def split: prod.splits if_splits option.splits
      dest!: execute_then_inv[rotated] intro: take_id_inv)

lemma edit_inv:
  assumes "session_inv s"
  shows "edit_event i l f s = (r, s') \<Longrightarrow> session_inv s'"
    and "edit_cluster j l g s = (r, s') \<Longrightarrow> session_inv s'"
    and "edit_events ids l h st s = (r, s') \<Longrightarrow> session_inv s'"
  using assms
  by (auto simp: edit_event_def edit_cluster_def edit_events_def Let_def
      split: option.splits if_splits sum.splits dest: execute_inv)

text \<open>
  The public operations that touch the revisioned state. The transport, the selection and the
  snap grid are public fields that a caller sets freely.
\<close>

inductive session_step :: "session \<Rightarrow> session \<Rightarrow> bool" where
  step_execute: "execute c s = (r, s') \<Longrightarrow> session_step s s'"
| step_undo: "undo s = (r, s') \<Longrightarrow> session_step s s'"
| step_redo: "redo s = (r, s') \<Longrightarrow> session_step s s'"
| step_limit: "session_step s (set_history_limit n s)"
| step_saved: "session_step s (mark_saved s)"
| step_track: "create_track n k s = (r, s') \<Longrightarrow> session_step s s'"
| step_lane: "create_lane t n s = (r, s') \<Longrightarrow> session_step s s'"
| step_clip: "create_clip l n span s = (r, s') \<Longrightarrow> session_step s s'"
| step_cluster: "create_cluster n s = (r, s') \<Longrightarrow> session_step s s'"
| step_event: "create_event l c at s = (r, s') \<Longrightarrow> session_step s s'"
| step_edit_event: "edit_event i lbl f s = (r, s') \<Longrightarrow> session_step s s'"
| step_edit_cluster: "edit_cluster j lbl g s = (r, s') \<Longrightarrow> session_step s s'"
| step_edit_events: "edit_events ids lbl (h :: event \<Rightarrow> nat \<Rightarrow> event \<times> nat) st s = (r, s')
    \<Longrightarrow> session_step s s'"
| step_public: "session_step s (s\<lparr>se_transport := t, se_selection := sel, se_snap := g\<rparr>)"

inductive session_reachable :: "session \<Rightarrow> bool" where
  reach_new: "session_new rate = Inr s \<Longrightarrow> session_reachable s"
| reach_step: "session_reachable s \<Longrightarrow> session_step s s' \<Longrightarrow> session_reachable s'"

lemma session_step_inv: "session_step s s' \<Longrightarrow> session_inv s \<Longrightarrow> session_inv s'"
proof (induction rule: session_step.induct)
  case (step_saved s)
  then show ?case
    by (simp add: mark_saved_def session_inv_def undo_stack_def redo_stack_def)
next
  case (step_public s t sel g)
  then show ?case by (simp add: session_inv_def undo_stack_def redo_stack_def)
qed (auto intro: execute_inv undo_inv redo_inv set_history_limit_inv create_inv edit_inv)

lemma reachable_inv: "session_reachable s \<Longrightarrow> session_inv s"
  by (induction rule: session_reachable.induct) (auto intro: session_new_inv session_step_inv)

text \<open>With the invariant, the error branches of undo and redo are dead.\<close>

lemma undo_succeeds:
  assumes "session_inv s" "se_undo s \<noteq> []"
  shows "\<exists>n s'. undo s = (Inr (Some n), s')"
proof -
  obtain us h where us: "se_undo s = us @ [h]" using assms(2) by (cases "se_undo s" rule: rev_cases) auto
  have "can_run (run_command False) (undo_stack s) (se_arrangement s)"
    using assms(1) by (simp add: session_inv_def)
  then obtain a where "run_command False (he_command h) (se_arrangement s) = Inr a"
    by (auto simp: undo_stack_def us split: sum.splits)
  with us show ?thesis by (simp add: undo_run)
qed

lemma redo_succeeds:
  assumes "session_inv s" "se_redo s \<noteq> []"
  shows "\<exists>n s'. redo s = (Inr (Some n), s')"
proof -
  obtain rs h where rs: "se_redo s = rs @ [h]" using assms(2) by (cases "se_redo s" rule: rev_cases) auto
  have "can_run (run_command True) (redo_stack s) (se_arrangement s)"
    using assms(1) by (simp add: session_inv_def)
  then obtain a where "run_command True (he_command h) (se_arrangement s) = Inr a"
    by (auto simp: redo_stack_def rs split: sum.splits)
  with rs show ?thesis by (simp add: redo_run)
qed

lemma trim_front_snoc:
  "0 < n \<Longrightarrow> \<exists>ys. trim_front n (xs @ [x]) = ys @ [x]"
  by (auto simp: trim_front_drop)

lemma undo_after_execute:
  assumes inv: "session_inv s" and ex: "execute c s = (Inr oc, s1)" "oc_changed oc"
    and lim: "0 < se_history_limit s"
  shows "\<exists>s2. undo s1 = (Inr (Some (se_revision s)), s2)
     \<and> arrangement_sim (se_arrangement s2) (se_arrangement s)
     \<and> se_revision s2 = se_revision s \<and> is_dirty s2 = is_dirty s"
  using ex(1)
proof (cases rule: execute_cases)
  case (committed a)
  let ?h = "\<lparr>he_command = c, he_before_revision = se_revision s,
    he_after_revision = se_next_revision s\<rparr>"
  obtain ys where ys: "se_undo s1 = ys @ [?h]"
    using trim_front_snoc[OF lim, of "se_undo s" ?h] lim by (auto simp: committed)
  have good: "arrangement_good (se_arrangement s)" using inv by (simp add: session_inv_def)
  obtain a' where a': "run_command False c a = Inr a'" "arrangement_sim a' (se_arrangement s)"
    using sess.bwd_fwd[OF good committed(2)] by blast
  then show ?thesis
    using undo_run[OF ys] by (simp add: committed is_dirty_def)
qed (use ex in auto)

lemma redo_after_undo:
  assumes inv: "session_inv s" and un: "undo s = (Inr (Some n), s1)"
  shows "\<exists>m s2. redo s1 = (Inr (Some m), s2)
     \<and> arrangement_sim (se_arrangement s2) (se_arrangement s)
     \<and> m = he_after_revision (last (se_undo s)) \<and> se_undo s2 = se_undo s \<and> se_redo s2 = se_redo s"
  using un
proof (cases rule: undo_cases)
  case (committed us h a)
  have good: "arrangement_good (se_arrangement s)" and len: "length (se_undo s) \<le> se_history_limit s"
    using inv by (simp_all add: session_inv_def)
  obtain a' where a': "run_command True (he_command h) a = Inr a'"
    "arrangement_sim a' (se_arrangement s)"
    using sess.fwd_bwd[OF good committed(2)] by blast
  have "se_redo s1 = se_redo s @ [h]" by (simp add: committed(4))
  from redo_run[OF this] a' len show ?thesis
    by (simp add: committed(1,4) trim_front_drop)
qed (use un in auto)

end
