(* ===== verification/Session_Properties.thy ===== *)
theory Session_Properties
  imports Session_History
begin

text \<open>
  The properties of the editor session (\<open>src/session.rs\<close>) and of its time arithmetic, each
  with an instance at a concrete session, transport or grid.
\<close>

section \<open>A concrete session\<close>

text \<open>The equations that evaluate a call on a session given as a term.\<close>

lemmas session_eval = session_new_def create_cluster_def take_id_def execute_then_def execute_run
  run_command_def Let_def id_allocator_default_def command_is_empty_def apply_changes_def
  cluster_new_def replace_arm_def replace_entry_def arrangement_default_def validate_def
  validate_cluster_def valid_gain_def sat_add_u64_def range_simps bt_get_Cons bt_ok_Cons
  cluster_eq_def f32_eq_refl_iff bt_remove_def

definition sample_session :: session where
  "sample_session =
     (case session_new 48000 of
        Inl _ \<Rightarrow> undefined
      | Inr s \<Rightarrow> snd (create_cluster ''kick'' (snd (create_cluster ''hat'' s))))"

definition sample_cluster :: cluster where
  "sample_cluster = (cluster_new (Id 7) ''snare'')\<lparr>cu_gain := f32_one\<rparr>"

definition sample_command :: session_command where
  "sample_command = \<lparr>cmd_label = ''add'', cmd_changes = [ClusterChange None (Some sample_cluster)]\<rparr>"

lemma sample_session_reachable: "session_reachable sample_session"
proof -
  obtain s where s: "session_new 48000 = Inr s" by (simp add: session_new_def)
  obtain r1 s1 where c1: "create_cluster ''hat'' s = (r1, s1)" by (cases "create_cluster ''hat'' s")
  obtain r2 s2 where c2: "create_cluster ''kick'' s1 = (r2, s2)" by (cases "create_cluster ''kick'' s1")
  have "sample_session = s2" by (simp add: sample_session_def s c1 c2)
  with s c1 c2 show ?thesis by (metis reach_new reach_step step_cluster)
qed

lemma sample_session_facts:
  "length (se_undo sample_session) = 2"
  "fst (execute sample_command sample_session) = Inr \<lparr>oc_changed = True, oc_revision = 3\<rparr>"
  "se_history_limit sample_session = 256"
  "fst (undo sample_session) = Inr (Some 1)"
  "arrangement_wf (se_arrangement sample_session)"
  "validate (se_arrangement sample_session) = Inr ()"
  by (simp_all add: sample_session_def sample_command_def sample_cluster_def session_eval undo_def
      wf_simps)

section \<open>Sessions\<close>

text \<open>
  C1. In every session that the public operations can reach, the arrangement is valid: every
  entity is stored under its own identifier, lanes and tracks, clips and lanes, events, lanes
  and clusters refer to each other without dangling or duplicate references, gains are finite
  and non-negative, and clips are not empty; the undo stack respects the history limit.
\<close>

theorem reachable_sessions_valid:
  assumes "session_reachable s"
  shows "arrangement_wf (se_arrangement s) \<and> tracks_valid (se_arrangement s)
    \<and> lanes_valid (se_arrangement s) \<and> clips_valid (se_arrangement s)
    \<and> clusters_valid (se_arrangement s) \<and> events_valid (se_arrangement s)
    \<and> length (se_undo s) \<le> se_history_limit s"
  using reachable_inv[OF assms] validate_iff[of "se_arrangement s"]
  by (simp add: session_inv_def arrangement_good_def)

lemma reachable_sessions_valid_witness:
  "clusters_valid (se_arrangement sample_session)
     \<and> length (se_undo sample_session) \<le> se_history_limit sample_session"
  using reachable_sessions_valid[OF sample_session_reachable] by simp

text \<open>
  \<open>Arrangement::validate\<close> accepts exactly the arrangements with referential integrity.
\<close>

theorem validate_is_referential_integrity:
  assumes "arrangement_wf a"
  shows "validate a = Inr () \<longleftrightarrow> tracks_valid a \<and> lanes_valid a \<and> clips_valid a
    \<and> clusters_valid a \<and> events_valid a"
  using validate_iff[OF assms] .

lemma validate_is_referential_integrity_witness:
  "arrangement_wf (se_arrangement sample_session) \<and> validate (se_arrangement sample_session) = Inr ()
    \<and> clusters_valid (se_arrangement sample_session)"
  using validate_is_referential_integrity[OF sample_session_facts(5)] sample_session_facts(5,6)
  by simp

text \<open>
  \<open>execute\<close> is all or nothing: an error or an empty command leaves the session as it was;
  otherwise the new arrangement is the result of all changes and passes \<open>validate\<close>, the
  revision is fresh, the redo stack is empty and the command is on top of the undo stack.
\<close>

theorem execute_all_or_nothing:
  "case execute c s of
     (Inl e, s') \<Rightarrow> s' = s
   | (Inr oc, s') \<Rightarrow>
       if oc_changed oc
       then apply_changes (cmd_changes c) True (se_arrangement s) = Inr (se_arrangement s')
         \<and> validate (se_arrangement s') = Inr () \<and> se_revision s' = se_next_revision s
         \<and> oc_revision oc = se_revision s' \<and> se_redo s' = [] \<and> se_ids s' = se_ids s
         \<and> undo_label s' = (if se_history_limit s = 0 then undo_label s else Some (cmd_label c))
       else s' = s \<and> list_all change_is_noop (cmd_changes c)"
proof -
  obtain r s' where ex: "execute c s = (r, s')" by (cases "execute c s")
  show ?thesis
    unfolding ex
  proof (rule execute_cases[OF ex])
    fix a
    let ?h = "\<lparr>he_command = c, he_before_revision = se_revision s, he_after_revision = se_next_revision s\<rparr>"
    assume a: "run_command True c (se_arrangement s) = Inr a"
      and r: "r = Inr \<lparr>oc_changed = True, oc_revision = se_next_revision s\<rparr>"
      and s': "s' = s\<lparr>se_arrangement := a, se_next_revision := sat_add_u64 (se_next_revision s) 1,
        se_revision := se_next_revision s, se_redo := [],
        se_undo := (if 0 < se_history_limit s
          then trim_front (se_history_limit s) (se_undo s @ [?h]) else se_undo s)\<rparr>"
    have "undo_label s' = Some (cmd_label c)" if "0 < se_history_limit s"
      using that trim_front_snoc[OF that, of "se_undo s" ?h] by (auto simp: undo_label_def s')
    then show "case (r, s') of (Inl e, s') \<Rightarrow> s' = s | (Inr oc, s') \<Rightarrow>
       if oc_changed oc
       then apply_changes (cmd_changes c) True (se_arrangement s) = Inr (se_arrangement s')
         \<and> validate (se_arrangement s') = Inr () \<and> se_revision s' = se_next_revision s
         \<and> oc_revision oc = se_revision s' \<and> se_redo s' = [] \<and> se_ids s' = se_ids s
         \<and> undo_label s' = (if se_history_limit s = 0 then undo_label s else Some (cmd_label c))
       else s' = s \<and> list_all change_is_noop (cmd_changes c)"
      using a by (auto simp: r s' run_command_eq_Inr undo_label_def)
  qed (simp_all add: command_is_empty_def)
qed

text \<open>
  In a reachable session undo and redo never fail: they succeed whenever their stack is not
  empty, so the error branches of both are dead.
\<close>

theorem history_never_fails:
  assumes "session_reachable s"
  shows "(\<exists>r s'. undo s = (Inr r, s') \<and> (r = None \<longleftrightarrow> se_undo s = []))
    \<and> (\<exists>r s'. redo s = (Inr r, s') \<and> (r = None \<longleftrightarrow> se_redo s = []))"
proof -
  note inv = reachable_inv[OF assms]
  show ?thesis
    using undo_succeeds[OF inv] redo_succeeds[OF inv]
    by (cases "se_undo s = []"; cases "se_redo s = []") (auto simp: undo_def redo_def)
qed

lemma history_never_fails_witness:
  "\<exists>n s'. undo sample_session = (Inr (Some n), s')"
proof -
  have "se_undo sample_session \<noteq> []" using sample_session_facts(1) by auto
  with history_never_fails[OF sample_session_reachable] show ?thesis by auto
qed

text \<open>
  C2. Undoing a command that was just executed restores the arrangement, up to the IEEE equality
  that the change records are compared with, together with the revision and the dirty flag.
\<close>

theorem undo_reverts_execute:
  assumes "session_reachable s" "execute c s = (Inr oc, s1)" "oc_changed oc" "0 < se_history_limit s"
  shows "\<exists>s2. undo s1 = (Inr (Some (se_revision s)), s2)
     \<and> arrangement_sim (se_arrangement s2) (se_arrangement s)
     \<and> se_revision s2 = se_revision s \<and> is_dirty s2 = is_dirty s"
  using undo_after_execute[OF reachable_inv[OF assms(1)] assms(2-4)] .

lemma undo_reverts_execute_witness:
  "\<exists>s1 s2. execute sample_command sample_session = (Inr \<lparr>oc_changed = True, oc_revision = 3\<rparr>, s1)
     \<and> undo s1 = (Inr (Some (se_revision sample_session)), s2)
     \<and> arrangement_sim (se_arrangement s2) (se_arrangement sample_session)"
proof -
  obtain s1 where s1: "execute sample_command sample_session
      = (Inr \<lparr>oc_changed = True, oc_revision = 3\<rparr>, s1)"
    using sample_session_facts(2) by (metis prod.collapse)
  from undo_reverts_execute[OF sample_session_reachable s1] sample_session_facts(3) s1
  show ?thesis by auto
qed

text \<open>
  Redoing what was just undone restores the arrangement and both stacks, and reports the
  revision that the undone command had produced.
\<close>

theorem redo_reverts_undo:
  assumes "session_reachable s" "undo s = (Inr (Some n), s1)"
  shows "\<exists>m s2. redo s1 = (Inr (Some m), s2)
     \<and> arrangement_sim (se_arrangement s2) (se_arrangement s)
     \<and> m = he_after_revision (last (se_undo s)) \<and> se_undo s2 = se_undo s \<and> se_redo s2 = se_redo s"
  using redo_after_undo[OF reachable_inv[OF assms(1)] assms(2)] .

lemma redo_reverts_undo_witness:
  "\<exists>s1 m s2. undo sample_session = (Inr (Some 1), s1) \<and> redo s1 = (Inr (Some m), s2)
     \<and> se_undo s2 = se_undo sample_session"
proof -
  obtain s1 where s1: "undo sample_session = (Inr (Some 1), s1)"
    using sample_session_facts(4) by (metis prod.collapse)
  from redo_reverts_undo[OF sample_session_reachable s1] s1 show ?thesis by blast
qed

text \<open>
  \<open>project_end\<close> is not before the end of any clip, nor before the position or the end of any
  event.
\<close>

theorem project_end_covers_content:
  assumes "arrangement_wf a"
  shows "(\<forall>i c. bt_get (clips a) i = Some c \<longrightarrow> range_end (cl_timeline c) \<le> project_end a)
    \<and> (\<forall>i e. bt_get (events a) i = Some e \<longrightarrow>
         range_end (event_range e) \<le> project_end a \<and> ev_sample e \<le> project_end a)"
proof -
  have "c \<in> set (bt_values (clips a))" if "bt_get (clips a) i = Some c" for i c
    using assms that by (auto simp: wf_simps bt_values_in)
  moreover have "e \<in> set (bt_values (events a))" if "bt_get (events a) i = Some e" for i e
    using assms that by (auto simp: wf_simps bt_values_in)
  ultimately show ?thesis using project_end_bounds[of _ a] by blast
qed

lemma project_end_covers_content_witness:
  "range_end (cl_timeline (clip_new (Id 1) (Id 1) ''c'' (range_new 10 90)))
    \<le> project_end (arrangement_default\<lparr>clips := [(Id 1, clip_new (Id 1) (Id 1) ''c'' (range_new 10 90))]\<rparr>)"
  by (rule project_end_covers_content[THEN conjunct1, rule_format])
    (simp_all add: arrangement_default_def wf_simps bt_ok_Cons bt_get_Cons)

section \<open>Transport and snap grid\<close>

text \<open>
  Advancing the transport in two steps is advancing it once by the sum, through any number
  of wraps of an active loop, as long as the playhead does not saturate.
\<close>

theorem advance_is_additive:
  assumes "is_i64 (playhead t)" "playhead t + int a + int b \<le> i64_max"
    and "int a + int b \<le> i64_max"
    and "\<And>l. active_loop t = Some l \<Longrightarrow> loop_exact l"
  shows "transport_advance b (transport_advance a t) = transport_advance (a + b) t"
  using advance_additive[OF assms] .

lemma advance_is_additive_witness:
  "transport_advance 70 (transport_advance 90
      (set_loop_enabled True (set_loop_range (Some (range_new 10 60)) transport_default)))
    = transport_advance 160
      (set_loop_enabled True (set_loop_range (Some (range_new 10 60)) transport_default))"
  by (subst advance_is_additive)
    (auto simp: set_loop_enabled_def set_loop_range_def transport_default_def range_new_def
      range_is_empty_def active_loop_def wf_simps range_simps)

text \<open>
  Whatever the setters stored, advancing never divides by zero and keeps the playhead an
  \<open>i64\<close>; with an exact active loop the playhead ends inside the loop or before its end.
\<close>

theorem advance_is_safe:
  assumes "transport_ok t"
  shows "\<not> advance_panics t \<and> transport_ok (transport_advance n t)"
  using advance_no_panic[OF assms] advance_ok[OF assms] by simp

lemma advance_is_safe_witness:
  "\<not> advance_panics (set_loop_enabled True (set_loop_range (Some (range_new 5 5)) transport_default))"
proof -
  have "transport_ok (set_loop_enabled True (set_loop_range (Some (range_new 5 5)) transport_default))"
    by (simp add: set_loop_enabled_def set_loop_range_def transport_default_def range_new_def
      range_is_empty_def wf_simps range_simps)
  from advance_is_safe[OF this] show ?thesis by simp
qed

text \<open>
  \<open>quantize\<close> away from the ends of the \<open>i64\<close> line lands on the grid, on the requested side
  and less than one spacing away, \<open>Nearest\<close> at most half a spacing away with ties going up; a
  quantized sample is a fixed point.
\<close>

theorem quantize_lands_on_grid:
  assumes "grid_ok g" "grid_enabled g"
    and "i64_min + int (grid_spacing g) \<le> s" "s \<le> i64_max - int (grid_spacing g)"
  shows "on_grid g (quantize g s d)
    \<and> (case d of
         Previous \<Rightarrow> quantize g s d \<le> s \<and> s - quantize g s d < int (grid_spacing g)
       | Next \<Rightarrow> s \<le> quantize g s d \<and> quantize g s d - s < int (grid_spacing g)
       | Nearest \<Rightarrow> 2 * \<bar>quantize g s d - s\<bar> \<le> int (grid_spacing g)
           \<and> 2 * (s - quantize g s d) < int (grid_spacing g))
    \<and> quantize g (quantize g s d) d' = quantize g s d"
proof -
  have pos: "0 < grid_spacing g" using assms(1) by (simp add: wf_simps)
  note dist = quantize_unclamped_distance[OF pos, of s]
  have "i64_min \<le> quantize_unclamped g s d \<and> quantize_unclamped g s d \<le> i64_max"
  proof (cases d)
    case Nearest
    have "\<bar>quantize_unclamped g s Nearest - s\<bar> \<le> int (grid_spacing g)" 
    proof -
      have half: "x \<le> n" if "2 * x \<le> n" "0 \<le> x" for x n :: int using that by simp
      show ?thesis by (rule half[OF dist(5) abs_ge_zero])
    qed
    then show ?thesis using Nearest assms(3,4) by (simp add: abs_le_iff)
  qed (use dist(1-4) assms(3,4) pos in simp_all)
  then have i64: "is_i64 (quantize_unclamped g s d)" by (simp add: is_i64_def)
  have eq: "quantize g s d = quantize_unclamped g s d"
    using assms(2) sat_i64_id[OF i64] by (simp add: quantize_def)
  have "quantize_unclamped g (quantize_unclamped g s d) d' = quantize_unclamped g s d"
    by (rule quantize_unclamped_fixed[OF pos quantize_unclamped_on_grid])
  then have "quantize g (quantize_unclamped g s d) d' = quantize_unclamped g s d"
    using assms(2) sat_i64_id[OF i64] by (simp add: quantize_def)
  then show ?thesis
    unfolding eq using dist by (cases d) (simp_all add: quantize_unclamped_on_grid)
qed

lemma quantize_lands_on_grid_witness:
  "quantize \<lparr>grid_enabled = True, grid_spacing = 100, grid_origin = 7\<rparr> 157 Nearest = 207
    \<and> on_grid \<lparr>grid_enabled = True, grid_spacing = 100, grid_origin = 7\<rparr>
        (quantize \<lparr>grid_enabled = True, grid_spacing = 100, grid_origin = 7\<rparr> 157 Nearest)"
  using quantize_lands_on_grid[of "\<lparr>grid_enabled = True, grid_spacing = 100, grid_origin = 7\<rparr>" 157 Nearest]
  by (simp add: wf_simps range_simps) code_simp

end
