(* ===== verification/Change_Set.thy ===== *)
theory Change_Set
  imports Ordered_Map
begin

text \<open>
  \<open>src/change_set.rs\<close>: the normalized audio invalidation that a command reports. A bus impact
  denotes a set of frames; normalization keeps the set and makes the representation canonical, so
  the union of change sets is a semilattice operation on the values themselves.
\<close>

section \<open>Audio ranges\<close>

datatype audio_range = AudioRange (ar_start: int) (ar_end: int)

text \<open>The derived order: by start, then by end.\<close>

instantiation audio_range :: linorder
begin

definition less_eq_audio_range :: "audio_range \<Rightarrow> audio_range \<Rightarrow> bool" where
  "less_eq_audio_range a b \<longleftrightarrow>
     ar_start a < ar_start b \<or> ar_start a = ar_start b \<and> ar_end a \<le> ar_end b"

definition less_audio_range :: "audio_range \<Rightarrow> audio_range \<Rightarrow> bool" where
  "less_audio_range a b \<longleftrightarrow>
     ar_start a < ar_start b \<or> ar_start a = ar_start b \<and> ar_end a < ar_end b"

instance
  by standard (auto simp: less_eq_audio_range_def less_audio_range_def intro: audio_range.expand)

end

datatype invalid_audio_range = InvalidAudioRange int int

definition audio_range_new :: "int \<Rightarrow> int \<Rightarrow> invalid_audio_range + audio_range" where
  "audio_range_new s e = (if s \<ge> e then Inl (InvalidAudioRange s e) else Inr (AudioRange s e))"

definition intersects_or_touches :: "audio_range \<Rightarrow> audio_range \<Rightarrow> bool" where
  "intersects_or_touches a b \<longleftrightarrow> ar_start a \<le> ar_end b \<and> ar_start b \<le> ar_end a"

definition audio_range_union :: "audio_range \<Rightarrow> audio_range \<Rightarrow> audio_range option" where
  "audio_range_union a b =
     (if intersects_or_touches a b
      then Some (AudioRange (min (ar_start a) (ar_start b)) (max (ar_end a) (ar_end b)))
      else None)"

text \<open>
  The loop of \<open>normalize_ranges\<close>: the last normalized range is widened when the next one meets
  or touches it, otherwise the next one is pushed.
\<close>

definition push_range :: "audio_range \<Rightarrow> audio_range list \<Rightarrow> audio_range list" where
  "push_range r normalized =
     (if normalized = [] then [r]
      else case audio_range_union (last normalized) r of
        Some merged \<Rightarrow> butlast normalized @ [merged]
      | None \<Rightarrow> normalized @ [r])"

definition normalize_ranges :: "audio_range list \<Rightarrow> audio_range list" where
  "normalize_ranges ranges = fold push_range (sort ranges) []"

section \<open>Bus impacts\<close>

datatype bus_impact = Whole | Ranges "audio_range list"

definition impact_ranges :: "audio_range list \<Rightarrow> bus_impact" where
  "impact_ranges ranges = Ranges (normalize_ranges ranges)"

fun impact_is_empty :: "bus_impact \<Rightarrow> bool" where
  "impact_is_empty Whole = False"
| "impact_is_empty (Ranges rs) = (rs = [])"

fun impact_merge :: "bus_impact \<Rightarrow> bus_impact \<Rightarrow> bus_impact" where
  "impact_merge Whole _ = Whole"
| "impact_merge (Ranges _) Whole = Whole"
| "impact_merge (Ranges left) (Ranges right) = Ranges (normalize_ranges (left @ right))"

fun impact_covers :: "bus_impact \<Rightarrow> audio_range \<Rightarrow> bool" where
  "impact_covers Whole r = True"
| "impact_covers (Ranges rs) r = list_ex (\<lambda>c. ar_start c \<le> ar_start r \<and> ar_end r \<le> ar_end c) rs"

section \<open>Change sets\<close>

datatype project_domain =
  DArrangement | DSequencer | DAutomation | DAssets | DMixer | DSampleKits | DAir | DBindings

fun domain_rank :: "project_domain \<Rightarrow> nat" where
  "domain_rank DArrangement = 0"
| "domain_rank DSequencer = 1"
| "domain_rank DAutomation = 2"
| "domain_rank DAssets = 3"
| "domain_rank DMixer = 4"
| "domain_rank DSampleKits = 5"
| "domain_rank DAir = 6"
| "domain_rank DBindings = 7"

lemma domain_rank_inj: "domain_rank a = domain_rank b \<Longrightarrow> a = b"
  by (cases a; cases b) auto

instantiation project_domain :: linorder
begin

definition less_eq_project_domain :: "project_domain \<Rightarrow> project_domain \<Rightarrow> bool" where
  "less_eq_project_domain a b \<longleftrightarrow> domain_rank a \<le> domain_rank b"

definition less_project_domain :: "project_domain \<Rightarrow> project_domain \<Rightarrow> bool" where
  "less_project_domain a b \<longleftrightarrow> domain_rank a < domain_rank b"

instance
  by standard (auto simp: less_eq_project_domain_def less_project_domain_def intro: domain_rank_inj)

end

datatype bus_tag = BusTag
type_synonym bus_id = "bus_tag typed_id"

record change_set =
  domains :: "project_domain list"
  audio :: "(bus_id, bus_impact) btree"
  routing_changed :: bool

definition change_set_default :: change_set where
  "change_set_default = \<lparr>domains = [], audio = [], routing_changed = False\<rparr>"

definition touch :: "project_domain \<Rightarrow> change_set \<Rightarrow> change_set" where
  "touch d c = c\<lparr>domains := bs_insert d (domains c)\<rparr>"

text \<open>\<open>entry(bus).and_modify(|i| i.merge(incoming)).or_insert(incoming)\<close>.\<close>

definition merge_entry ::
  "bus_id \<Rightarrow> bus_impact \<Rightarrow> (bus_id, bus_impact) btree \<Rightarrow> (bus_id, bus_impact) btree" where
  "merge_entry bus incoming m =
     (case bt_get m bus of
        Some impact \<Rightarrow> bt_insert bus (impact_merge impact incoming) m
      | None \<Rightarrow> bt_insert bus incoming m)"

definition invalidate_range :: "bus_id \<Rightarrow> audio_range \<Rightarrow> change_set \<Rightarrow> change_set" where
  "invalidate_range bus r c = c\<lparr>audio := merge_entry bus (Ranges [r]) (audio c)\<rparr>"

definition invalidate_ranges :: "bus_id \<Rightarrow> audio_range list \<Rightarrow> change_set \<Rightarrow> change_set" where
  "invalidate_ranges bus ranges c =
     (let incoming = impact_ranges ranges
      in if impact_is_empty incoming then c
         else c\<lparr>audio := merge_entry bus incoming (audio c)\<rparr>)"

definition invalidate_bus :: "bus_id \<Rightarrow> change_set \<Rightarrow> change_set" where
  "invalidate_bus bus c = c\<lparr>audio := bt_insert bus Whole (audio c)\<rparr>"

definition mark_routing_changed :: "change_set \<Rightarrow> change_set" where
  "mark_routing_changed c = c\<lparr>routing_changed := True\<rparr>"

definition change_set_merge :: "change_set \<Rightarrow> change_set \<Rightarrow> change_set" where
  "change_set_merge c other =
     c\<lparr>domains := fold bs_insert (domains other) (domains c),
       routing_changed := routing_changed c \<or> routing_changed other,
       audio := fold (\<lambda>(bus, incoming) m. merge_entry bus incoming m) (audio other) (audio c)\<rparr>"

definition change_set_is_empty :: "change_set \<Rightarrow> bool" where
  "change_set_is_empty c \<longleftrightarrow> domains c = [] \<and> audio c = [] \<and> \<not> routing_changed c"

section \<open>Normalization\<close>

text \<open>Sorted, non-empty, and neither overlapping nor adjacent.\<close>

fun normal_ranges :: "audio_range list \<Rightarrow> bool" where
  "normal_ranges [] \<longleftrightarrow> True"
| "normal_ranges [r] \<longleftrightarrow> ar_start r < ar_end r"
| "normal_ranges (r # q # rs) \<longleftrightarrow>
     ar_start r < ar_end r \<and> ar_end r < ar_start q \<and> normal_ranges (q # rs)"

definition frames :: "audio_range \<Rightarrow> int set" where
  "frames r = {ar_start r..<ar_end r}"

definition frames_of :: "audio_range list \<Rightarrow> int set" where
  "frames_of rs = (\<Union>r \<in> set rs. frames r)"

lemma frames_of_simps [simp]:
  "frames_of [] = {}" "frames_of (r # rs) = frames r \<union> frames_of rs"
  "frames_of (rs @ qs) = frames_of rs \<union> frames_of qs"
  by (auto simp: frames_of_def)

lemma frames_of_sort [simp]: "frames_of (sort rs) = frames_of rs"
  by (simp add: frames_of_def)

text \<open>The push loop, with the last range split off the vector.\<close>

fun normalize_from :: "audio_range \<Rightarrow> audio_range list \<Rightarrow> audio_range list" where
  "normalize_from l [] = [l]"
| "normalize_from l (r # rs) =
     (case audio_range_union l r of
        Some m \<Rightarrow> normalize_from m rs
      | None \<Rightarrow> l # normalize_from r rs)"

lemma fold_push_range: "fold push_range rs (pre @ [l]) = pre @ normalize_from l rs"
proof (induction l rs arbitrary: pre rule: normalize_from.induct)
  case (2 l r rs)
  show ?case
  proof (cases "audio_range_union l r")
    case None
    then show ?thesis using "2.IH"(1)[of "pre @ [l]"] by (simp add: push_range_def)
  next
    case (Some m)
    then show ?thesis using "2.IH"(2)[of m pre] by (simp add: push_range_def)
  qed
qed simp

lemma normalize_ranges_from:
  "normalize_ranges rs = (case sort rs of [] \<Rightarrow> [] | l # ls \<Rightarrow> normalize_from l ls)"
  using fold_push_range[of _ "[]"]
  by (cases "sort rs") (simp_all add: normalize_ranges_def push_range_def)

lemma range_union_frames:
  assumes "audio_range_union a b = Some m" "ar_start a < ar_end a" "ar_start b < ar_end b"
  shows "frames m = frames a \<union> frames b" "ar_start m < ar_end m" "ar_start m = min (ar_start a) (ar_start b)"
  using assms by (auto simp: audio_range_union_def intersects_or_touches_def frames_def split: if_splits)

lemma range_union_None:
  "audio_range_union a b = None \<Longrightarrow> ar_start a \<le> ar_start b \<Longrightarrow> ar_start b < ar_end b
     \<Longrightarrow> ar_end a < ar_start b"
  by (auto simp: audio_range_union_def intersects_or_touches_def split: if_splits)

definition proper :: "audio_range list \<Rightarrow> bool" where
  "proper rs \<longleftrightarrow> (\<forall>r \<in> set rs. ar_start r < ar_end r)"

lemma normalize_from_correct:
  assumes "ar_start l < ar_end l" "proper rs" "sorted_wrt (\<le>) (map ar_start (l # rs))"
  shows "frames_of (normalize_from l rs) = frames l \<union> frames_of rs
    \<and> normal_ranges (normalize_from l rs)
    \<and> ar_start (hd (normalize_from l rs)) = ar_start l \<and> normalize_from l rs \<noteq> []"
  using assms
proof (induction l rs rule: normalize_from.induct)
  case (2 l r rs)
  then have r: "ar_start r < ar_end r" "ar_start l \<le> ar_start r" by (auto simp: proper_def)
  show ?case
  proof (cases "audio_range_union l r")
    case None
    then have gap: "ar_end l < ar_start r" using r range_union_None by blast
    have "proper rs" "sorted_wrt (\<le>) (map ar_start (r # rs))"
      using "2.prems" by (auto simp: proper_def)
    with "2.IH"(1)[OF None r(1)] None gap "2.prems"(1) show ?thesis
      by (cases "normalize_from r rs") auto
  next
    case (Some m)
    from range_union_frames[OF Some "2.prems"(1) r(1)] r(2)
    have m: "frames m = frames l \<union> frames r" "ar_start m < ar_end m" "ar_start m = ar_start l" by auto
    have "proper rs" "sorted_wrt (\<le>) (map ar_start (m # rs))"
      using "2.prems" m(3) by (auto simp: proper_def)
    with "2.IH"(2)[OF Some m(2)] Some m show ?thesis by auto
  qed
qed auto

lemma sorted_starts: "sorted rs \<Longrightarrow> sorted_wrt (\<le>) (map ar_start rs)"
  by (induction rs) (auto simp: less_eq_audio_range_def)

lemma normalize_ranges_correct:
  assumes "proper rs"
  shows "frames_of (normalize_ranges rs) = frames_of rs" "normal_ranges (normalize_ranges rs)"
proof -
  have "frames_of (normalize_ranges rs) = frames_of (sort rs) \<and> normal_ranges (normalize_ranges rs)"
  proof (cases "sort rs")
    case Nil
    then show ?thesis by (simp add: normalize_ranges_from)
  next
    case (Cons l ls)
    have "set (l # ls) = set rs" by (metis Cons set_sort)
    then have "ar_start l < ar_end l" "proper ls"
      using assms by (auto simp: proper_def)
    moreover have "sorted_wrt (\<le>) (map ar_start (l # ls))"
      by (metis Cons sorted_sort sorted_starts)
    ultimately show ?thesis
      using normalize_from_correct[of l ls] by (simp add: normalize_ranges_from Cons)
  qed
  then show "frames_of (normalize_ranges rs) = frames_of rs" "normal_ranges (normalize_ranges rs)"
    by simp_all
qed

lemma normal_ranges_proper: "normal_ranges rs \<Longrightarrow> proper rs"
  by (induction rs rule: normal_ranges.induct) (auto simp: proper_def)

lemma normal_ranges_tail: "normal_ranges (r # rs) \<Longrightarrow> normal_ranges rs"
  by (cases rs) auto

lemma normal_ranges_after:
  "normal_ranges (r # rs) \<Longrightarrow> x \<in> frames_of rs \<Longrightarrow> ar_end r < x"
proof (induction rs arbitrary: r)
  case (Cons q qs)
  then have "ar_end r < ar_start q" "ar_start q < ar_end q" "normal_ranges (q # qs)"
    by (cases qs; auto)+
  with Cons show ?case by (fastforce simp: frames_def)
qed simp

lemma normal_ranges_head:
  assumes "normal_ranges (r # rs)"
  shows "ar_start r < ar_end r"
  using assms by (cases rs) auto

text \<open>The normal form is canonical: it is determined by the frames it covers.\<close>

lemma normal_ranges_unique:
  "normal_ranges rs \<Longrightarrow> normal_ranges qs \<Longrightarrow> frames_of rs = frames_of qs \<Longrightarrow> rs = qs"
proof (induction rs arbitrary: qs)
  case Nil
  then show ?case
    by (cases qs) (auto simp: frames_def dest!: normal_ranges_head)
next
  case (Cons r rs)
  note r = normal_ranges_head[OF Cons.prems(1)]
  have "ar_start r \<in> frames_of qs"
    using Cons.prems(3) r by (auto simp: frames_def)
  then obtain q qs' where qs: "qs = q # qs'" by (cases qs) auto
  have q: "ar_start q < ar_end q" using Cons.prems(2) normal_ranges_head by (simp add: qs)
  note after_r = normal_ranges_after[OF Cons.prems(1)]
    and after_q = normal_ranges_after[OF Cons.prems(2)[unfolded qs]]
  have eq: "x \<in> frames r \<union> frames_of rs \<longleftrightarrow> x \<in> frames q \<union> frames_of qs'" for x
    using Cons.prems(3) by (simp add: qs)
  have start: "ar_start r = ar_start q"
    using eq[of "ar_start r"] eq[of "ar_start q"] r q after_r[of "ar_start q"] after_q[of "ar_start r"]
    by (auto simp: frames_def)
  have "ar_end r = ar_end q"
    using eq[of "ar_end r"] eq[of "ar_end q"] r q start after_r[of "ar_end r"] after_q[of "ar_end q"]
      after_r[of "ar_end q"] after_q[of "ar_end r"]
    by (auto simp: frames_def)
  with start have rq: "r = q" by (simp add: audio_range.expand)
  have "x \<in> frames_of rs \<longleftrightarrow> x \<in> frames_of qs'" for x
    using eq[of x] after_r[of x] after_q[of x] by (auto simp: rq frames_def)
  then have "frames_of rs = frames_of qs'" by blast
  with Cons.IH normal_ranges_tail Cons.prems(1,2) have "rs = qs'" unfolding qs by blast
  with rq show ?case by (simp add: qs)
qed

section \<open>The frames of an impact\<close>

fun impact_frames :: "bus_impact \<Rightarrow> int set" where
  "impact_frames Whole = UNIV"
| "impact_frames (Ranges rs) = frames_of rs"

fun impact_ok :: "bus_impact \<Rightarrow> bool" where
  "impact_ok Whole = True"
| "impact_ok (Ranges rs) = (normal_ranges rs \<and> rs \<noteq> [])"

lemma frames_of_bounded: "frames_of rs \<noteq> UNIV"
proof -
  have "finite (frames_of rs)" by (simp add: frames_of_def frames_def)
  then show ?thesis using infinite_UNIV_int by auto
qed

lemma impact_unique:
  assumes "impact_ok a" "impact_ok b" "impact_frames a = impact_frames b"
  shows "a = b"
proof (cases a; cases b)
  fix rs qs assume ab: "a = Ranges rs" "b = Ranges qs"
  with assms have "normal_ranges rs" "normal_ranges qs" "frames_of rs = frames_of qs" by simp_all
  then show ?thesis unfolding ab by (simp add: normal_ranges_unique)
qed (use assms frames_of_bounded in auto)

lemma frames_of_empty: "proper rs \<Longrightarrow> frames_of rs = {} \<longleftrightarrow> rs = []"
  by (cases rs) (auto simp: proper_def frames_def)

lemma impact_merge_frames:
  assumes "impact_ok a" "impact_ok b"
  shows "impact_frames (impact_merge a b) = impact_frames a \<union> impact_frames b"
    and "impact_ok (impact_merge a b)"
proof -
  have "impact_frames (impact_merge a b) = impact_frames a \<union> impact_frames b
      \<and> impact_ok (impact_merge a b)"
  proof (cases a; cases b)
    fix rs qs assume ab: "a = Ranges rs" "b = Ranges qs"
    then have p: "proper (rs @ qs)" "rs \<noteq> []"
      using assms normal_ranges_proper by (auto simp: proper_def)
    have "normalize_ranges (rs @ qs) \<noteq> []"
      using normalize_ranges_correct(1)[OF p(1)] frames_of_empty[OF p(1)] p(2) by auto
    then show ?thesis using normalize_ranges_correct[OF p(1)] by (simp add: ab)
  qed auto
  then show "impact_frames (impact_merge a b) = impact_frames a \<union> impact_frames b"
    "impact_ok (impact_merge a b)" by auto
qed

text \<open>\<open>covers\<close> asks for one range that spans the query; on a normal form that is inclusion.\<close>

lemma normal_ranges_covers:
  assumes "normal_ranges rs" "ar_start r < ar_end r" "frames r \<subseteq> frames_of rs"
  shows "\<exists>c \<in> set rs. ar_start c \<le> ar_start r \<and> ar_end r \<le> ar_end c"
  using assms(1,3)
proof (induction rs)
  case Nil
  then show ?case using assms(2) by (auto simp: frames_def)
next
  case (Cons c cs)
  note after = normal_ranges_after[OF Cons.prems(1)]
  have c: "ar_start c < ar_end c" using Cons.prems(1) by (rule normal_ranges_head)
  show ?case
  proof (cases "ar_start r < ar_end c")
    case True
    have "ar_start r \<in> frames r" using assms(2) by (simp add: frames_def)
    with Cons.prems(2) have "ar_start r \<in> frames c"
      using after[of "ar_start r"] True by auto
    moreover have "ar_end r \<le> ar_end c"
    proof (rule ccontr)
      assume "\<not> ar_end r \<le> ar_end c"
      then have "ar_end c \<in> frames r" using True by (simp add: frames_def)
      with Cons.prems(2) after[of "ar_end c"] show False by (auto simp: frames_def)
    qed
    ultimately show ?thesis by (auto simp: frames_def)
  next
    case False
    then have "frames r \<subseteq> frames_of cs" using Cons.prems(2) by (fastforce simp: frames_def)
    with Cons.IH normal_ranges_tail[OF Cons.prems(1)] show ?thesis by auto
  qed
qed

lemma impact_covers_iff:
  assumes "impact_ok i" "ar_start r < ar_end r"
  shows "impact_covers i r \<longleftrightarrow> frames r \<subseteq> impact_frames i"
proof (cases i)
  case (Ranges rs)
  have "frames r \<subseteq> frames_of rs"
    if "c \<in> set rs" "ar_start c \<le> ar_start r" "ar_end r \<le> ar_end c" for c
    using that by (intro subsetI) (auto simp: frames_of_def frames_def intro!: bexI[of _ c])
  with assms normal_ranges_covers[of rs r] show ?thesis
    by (auto simp: Ranges list_ex_iff)
qed simp

section \<open>Union of change sets\<close>

definition change_set_ok :: "change_set \<Rightarrow> bool" where
  [wf_simps]: "change_set_ok c \<longleftrightarrow> sorted_wrt (<) (domains c) \<and> bt_ok (audio c)
     \<and> (\<forall>bus i. bt_get (audio c) bus = Some i \<longrightarrow> impact_ok i)"

definition bus_frames :: "change_set \<Rightarrow> bus_id \<Rightarrow> int set" where
  "bus_frames c bus = (case bt_get (audio c) bus of None \<Rightarrow> {} | Some i \<Rightarrow> impact_frames i)"

lemma impact_ok_nonempty: "impact_ok i \<Longrightarrow> impact_frames i \<noteq> {}"
  using frames_of_empty normal_ranges_proper by (cases i) auto

text \<open>A well-formed change set is determined by its domains, its frames and its flag.\<close>

lemma change_set_unique:
  assumes "change_set_ok a" "change_set_ok b" "set (domains a) = set (domains b)"
    and "\<And>bus. bus_frames a bus = bus_frames b bus" "routing_changed a = routing_changed b"
  shows "a = b"
proof -
  have "domains a = domains b"
    using assms(1-3) by (intro strict_sorted_equal) (simp_all add: wf_simps)
  moreover have "audio a = audio b"
  proof (rule bt.ext)
    fix bus
    show "bt_get (audio a) bus = bt_get (audio b) bus"
    proof (cases "bt_get (audio a) bus"; cases "bt_get (audio b) bus")
      fix i j assume ij: "bt_get (audio a) bus = Some i" "bt_get (audio b) bus = Some j"
      then have "impact_ok i" "impact_ok j" using assms(1,2) by (auto simp: wf_simps)
      then show ?thesis
        using assms(4)[of bus] impact_unique[of i j] by (simp add: bus_frames_def ij)
    next
      fix i assume ij: "bt_get (audio a) bus = Some i" "bt_get (audio b) bus = None"
      then have "impact_ok i" using assms(1) by (auto simp: wf_simps)
      then show ?thesis using assms(4)[of bus] impact_ok_nonempty[of i] by (simp add: bus_frames_def ij)
    next
      fix j assume ij: "bt_get (audio a) bus = None" "bt_get (audio b) bus = Some j"
      then have "impact_ok j" using assms(2) by (auto simp: wf_simps)
      then show ?thesis using assms(4)[of bus] impact_ok_nonempty[of j] by (simp add: bus_frames_def ij)
    qed simp
  qed (use assms in \<open>simp_all add: wf_simps\<close>)
  ultimately show ?thesis using assms(5) by simp
qed

lemma merge_entry_get:
  "bt_get (merge_entry bus i m) b =
     (if b = bus then Some (case bt_get m bus of Some j \<Rightarrow> impact_merge j i | None \<Rightarrow> i)
      else bt_get m b)"
  by (auto simp: merge_entry_def split: option.splits)

lemma bt_ok_merge_entry [simp]: "bt_ok m \<Longrightarrow> bt_ok (merge_entry bus i m)"
  by (auto simp: merge_entry_def split: option.splits)

lemma fold_merge_entry:
  assumes "bt_ok es" "bt_ok m"
  shows "bt_ok (fold (\<lambda>(bus, i) m. merge_entry bus i m) es m)
    \<and> bt_get (fold (\<lambda>(bus, i) m. merge_entry bus i m) es m) b =
       (case bt_get es b of None \<Rightarrow> bt_get m b
        | Some i \<Rightarrow> Some (case bt_get m b of Some j \<Rightarrow> impact_merge j i | None \<Rightarrow> i))"
  using assms
proof (induction es arbitrary: m)
  case (Cons e es)
  obtain bus i where e: "e = (bus, i)" by (cases e)
  have es: "bt_ok es" "bt_get es bus = None"
    using Cons.prems(1) by (auto simp: e bt_ok_Cons bt_get_None_iff)
  from Cons.IH[OF es(1), of "merge_entry bus i m"] Cons.prems(2) es(2) show ?case
    by (auto simp: e bt_get_Cons merge_entry_get split: option.split)
qed simp

lemma change_set_merge_meaning:
  assumes "change_set_ok a" "change_set_ok b"
  shows "change_set_ok (change_set_merge a b)"
    and "set (domains (change_set_merge a b)) = set (domains a) \<union> set (domains b)"
    and "bus_frames (change_set_merge a b) bus = bus_frames a bus \<union> bus_frames b bus"
    and "routing_changed (change_set_merge a b) = (routing_changed a \<or> routing_changed b)"
proof -
  have ok: "bt_ok (audio a)" "bt_ok (audio b)"
    and impacts: "\<And>bus i. bt_get (audio a) bus = Some i \<Longrightarrow> impact_ok i"
      "\<And>bus i. bt_get (audio b) bus = Some i \<Longrightarrow> impact_ok i"
    using assms by (auto simp: wf_simps)
  note get = fold_merge_entry[OF ok(2,1)]
  show "change_set_ok (change_set_merge a b)"
    unfolding change_set_ok_def
  proof (intro conjI allI impI)
    show "sorted_wrt (<) (domains (change_set_merge a b))"
      using assms(1) by (simp add: change_set_merge_def sorted_fold_bs_insert wf_simps)
    show "bt_ok (audio (change_set_merge a b))"
      using get by (simp add: change_set_merge_def)
    fix x i assume "bt_get (audio (change_set_merge a b)) x = Some i"
    then show "impact_ok i"
      using get[of x] impacts[of x] impact_merge_frames(2)
      by (auto simp: change_set_merge_def split: option.splits)
  qed
  show "set (domains (change_set_merge a b)) = set (domains a) \<union> set (domains b)"
    by (auto simp: change_set_merge_def set_fold_bs_insert)
  show "bus_frames (change_set_merge a b) bus = bus_frames a bus \<union> bus_frames b bus"
    using get[of bus] impacts[of bus] impact_merge_frames(1)
    by (auto simp: bus_frames_def change_set_merge_def split: option.splits)
  show "routing_changed (change_set_merge a b) = (routing_changed a \<or> routing_changed b)"
    by (simp add: change_set_merge_def)
qed

lemma change_set_merge_commute:
  assumes "change_set_ok a" "change_set_ok b"
  shows "change_set_merge a b = change_set_merge b a"
  by (rule change_set_unique)
    (use assms in \<open>auto simp: change_set_merge_meaning\<close>)

lemma change_set_merge_assoc:
  assumes "change_set_ok a" "change_set_ok b" "change_set_ok c"
  shows "change_set_merge (change_set_merge a b) c = change_set_merge a (change_set_merge b c)"
  by (rule change_set_unique)
    (use assms in \<open>auto simp: change_set_merge_meaning\<close>)

lemma change_set_merge_idem:
  assumes "change_set_ok a"
  shows "change_set_merge a a = a"
  by (rule change_set_unique)
    (use assms in \<open>auto simp: change_set_merge_meaning\<close>)

text \<open>Each producer adds exactly the frames it names.\<close>

lemma invalidate_range_meaning:
  assumes "change_set_ok c" "ar_start r < ar_end r"
  shows "change_set_ok (invalidate_range bus r c)"
    and "bus_frames (invalidate_range bus r c) b = bus_frames c b \<union> (if b = bus then frames r else {})"
proof -
  have r: "impact_ok (Ranges [r])" using assms(2) by simp
  have impacts: "\<And>b i. bt_get (audio c) b = Some i \<Longrightarrow> impact_ok i"
    using assms(1) by (auto simp: wf_simps)
  show "change_set_ok (invalidate_range bus r c)"
    using assms r impacts impact_merge_frames(2)
    by (auto simp: change_set_ok_def invalidate_range_def merge_entry_get
        split: option.splits if_splits)
  show "bus_frames (invalidate_range bus r c) b = bus_frames c b \<union> (if b = bus then frames r else {})"
    using impact_merge_frames(1)[OF impacts r]
    by (auto simp: bus_frames_def invalidate_range_def merge_entry_get split: option.splits)
qed

lemma invalidate_ranges_meaning:
  assumes "change_set_ok c" "proper rs"
  shows "change_set_ok (invalidate_ranges bus rs c)"
    and "bus_frames (invalidate_ranges bus rs c) b
      = bus_frames c b \<union> (if b = bus then frames_of rs else {})"
proof -
  note norm = normalize_ranges_correct[OF assms(2)]
  have impacts: "\<And>b i. bt_get (audio c) b = Some i \<Longrightarrow> impact_ok i"
    using assms(1) by (auto simp: wf_simps)
  have "change_set_ok (invalidate_ranges bus rs c) \<and> bus_frames (invalidate_ranges bus rs c) b
      = bus_frames c b \<union> (if b = bus then frames_of rs else {})"
  proof (cases "normalize_ranges rs = []")
    case True
    then have "frames_of rs = {}" using norm(1) by simp
    with True assms(1) show ?thesis by (simp add: invalidate_ranges_def impact_ranges_def)
  next
    case False
    then have r: "impact_ok (Ranges (normalize_ranges rs))" using norm(2) by simp
    have "change_set_ok (invalidate_ranges bus rs c)"
      using False assms r impacts impact_merge_frames(2)
      by (auto simp: change_set_ok_def invalidate_ranges_def impact_ranges_def Let_def merge_entry_get
          split: option.splits if_splits)
    moreover have "bus_frames (invalidate_ranges bus rs c) b
      = bus_frames c b \<union> (if b = bus then frames_of rs else {})"
      using False impact_merge_frames(1)[OF impacts r] norm(1)
      by (auto simp: bus_frames_def invalidate_ranges_def impact_ranges_def Let_def merge_entry_get
          split: option.splits)
    ultimately show ?thesis ..
  qed
  then show "change_set_ok (invalidate_ranges bus rs c)"
    "bus_frames (invalidate_ranges bus rs c) b = bus_frames c b \<union> (if b = bus then frames_of rs else {})"
    by auto
qed

end
