(* ===== verification/Change_Set_Properties.thy ===== *)
theory Change_Set_Properties
  imports Change_Set
begin

text \<open>
  The properties of \<open>src/change_set.rs\<close>: canonical range lists, the union of change sets as a
  semilattice on what they invalidate, and \<open>covers\<close> as inclusion of frames.
\<close>

definition sample_changes :: change_set where
  "sample_changes = invalidate_range (Id 1) (AudioRange 0 10) change_set_default"

definition other_changes :: change_set where
  "other_changes = invalidate_range (Id 1) (AudioRange 5 20) (touch DMixer change_set_default)"

lemma change_set_default_ok: "change_set_ok change_set_default"
  by (simp add: change_set_default_def wf_simps)

lemma touch_ok: "change_set_ok c \<Longrightarrow> change_set_ok (touch d c)"
  by (simp add: touch_def wf_simps)

lemma sample_changes_ok: "change_set_ok sample_changes" "change_set_ok other_changes"
  unfolding sample_changes_def other_changes_def
  by (intro invalidate_range_meaning(1) touch_ok change_set_default_ok; simp)+

text \<open>
  C10. \<open>normalize_ranges\<close> is canonical: it keeps the set of frames, its result is sorted,
  non-empty piecewise and neither overlapping nor adjacent, and two lists with the same frames
  have the same result.
\<close>

theorem normalize_is_canonical:
  assumes "proper rs" "proper qs"
  shows "frames_of (normalize_ranges rs) = frames_of rs \<and> normal_ranges (normalize_ranges rs)
    \<and> (normalize_ranges rs = normalize_ranges qs \<longleftrightarrow> frames_of rs = frames_of qs)"
  using normalize_ranges_correct[OF assms(1)] normalize_ranges_correct[OF assms(2)]
    normal_ranges_unique by metis

lemma normalize_is_canonical_witness:
  "normalize_ranges [AudioRange 5 9, AudioRange 0 3, AudioRange 3 6]
     = normalize_ranges [AudioRange 0 9]"
  by (subst normalize_is_canonical[THEN conjunct2, THEN conjunct2])
    (auto simp: proper_def frames_def)

text \<open>
  C11. \<open>ChangeSet::merge\<close> is the least upper bound of what the two sides invalidate: the union of
  the domains, of the frames of every bus, and of the routing flags; it is commutative,
  associative and idempotent as a function on change sets.
\<close>

theorem merge_is_union:
  assumes "change_set_ok a" "change_set_ok b" "change_set_ok c"
  shows "set (domains (change_set_merge a b)) = set (domains a) \<union> set (domains b)
    \<and> (\<forall>bus. bus_frames (change_set_merge a b) bus = bus_frames a bus \<union> bus_frames b bus)
    \<and> routing_changed (change_set_merge a b) = (routing_changed a \<or> routing_changed b)
    \<and> change_set_merge a b = change_set_merge b a
    \<and> change_set_merge (change_set_merge a b) c = change_set_merge a (change_set_merge b c)
    \<and> change_set_merge a a = a"
  using change_set_merge_meaning[OF assms(1,2)] change_set_merge_commute[OF assms(1,2)]
    change_set_merge_assoc[OF assms] change_set_merge_idem[OF assms(1)] by blast

lemma merge_is_union_witness:
  "change_set_merge sample_changes other_changes = change_set_merge other_changes sample_changes
    \<and> bus_frames (change_set_merge sample_changes other_changes) (Id 1)
        = bus_frames sample_changes (Id 1) \<union> bus_frames other_changes (Id 1)"
  using merge_is_union[OF sample_changes_ok sample_changes_ok(1)] by blast

text \<open>
  \<open>BusImpact::covers\<close> answers exactly whether every frame of the range is invalidated.
\<close>

theorem covers_is_inclusion:
  assumes "impact_ok i" "ar_start r < ar_end r"
  shows "impact_covers i r \<longleftrightarrow> {ar_start r..<ar_end r} \<subseteq> impact_frames i"
  using impact_covers_iff[OF assms] by (simp add: frames_def)

lemma covers_is_inclusion_witness:
  "impact_covers (Ranges [AudioRange 0 10, AudioRange 20 30]) (AudioRange 22 25)
    \<and> {22..<25} \<subseteq> impact_frames (Ranges [AudioRange 0 10, AudioRange 20 30])"
  using covers_is_inclusion[of "Ranges [AudioRange 0 10, AudioRange 20 30]" "AudioRange 22 25"]
  by simp

text \<open>
  Recording an invalidated range adds exactly its frames to its bus and nothing to any other.
\<close>

theorem invalidate_adds_frames:
  assumes "change_set_ok c" "proper rs"
  shows "change_set_ok (invalidate_ranges bus rs c)
    \<and> (\<forall>b. bus_frames (invalidate_ranges bus rs c) b
        = bus_frames c b \<union> (if b = bus then frames_of rs else {}))"
  using invalidate_ranges_meaning[OF assms] by blast

lemma invalidate_adds_frames_witness:
  "bus_frames (invalidate_ranges (Id 2) [AudioRange 0 4] sample_changes) (Id 2)
    = bus_frames sample_changes (Id 2) \<union> {0..<4}"
  using invalidate_adds_frames[OF sample_changes_ok(1), of "[AudioRange 0 4]" "Id 2"]
  by (simp add: proper_def frames_def)

end
