(* ===== verification/Bytes.thy ===== *)
theory Bytes
  imports Prelude
begin

text \<open>
  Texts and bytes: the operations of \<open>str\<close> that the code uses on text a user types, then the
  byte strings of the journal. A text is the list of its
  Unicode scalar values: \<open>trim\<close> removes the code points of the property \<open>White_Space\<close> at both
  ends, \<open>is_control\<close> is the category \<open>Cc\<close>.
\<close>

type_synonym unicode_string = "nat list"

definition is_white_space :: "nat \<Rightarrow> bool" where
  "is_white_space c \<longleftrightarrow> 9 \<le> c \<and> c \<le> 13 \<or> c = 0x20 \<or> c = 0x85 \<or> c = 0xa0 \<or> c = 0x1680
     \<or> 0x2000 \<le> c \<and> c \<le> 0x200a \<or> c = 0x2028 \<or> c = 0x2029 \<or> c = 0x202f \<or> c = 0x205f \<or> c = 0x3000"

definition is_control :: "nat \<Rightarrow> bool" where
  "is_control c \<longleftrightarrow> c \<le> 0x1f \<or> 0x7f \<le> c \<and> c \<le> 0x9f"

definition trim_white_space :: "unicode_string \<Rightarrow> unicode_string" where
  "trim_white_space s = rev (dropWhile is_white_space (rev (dropWhile is_white_space s)))"

text \<open>\<open>name.trim().is_empty()\<close>\<close>

definition is_blank_text :: "unicode_string \<Rightarrow> bool" where
  "is_blank_text s \<longleftrightarrow> trim_white_space s = []"

chapter \<open>Bytes\<close>

text \<open>
  Byte strings: little-endian encodings of unsigned integers (\<open>to_le_bytes\<close>, \<open>from_le_bytes\<close>) and
  the test \<open>s.trim().is_empty()\<close> on UTF-8 text.
\<close>

type_synonym u8 = "8 word"

fun to_le_bytes :: "nat \<Rightarrow> nat \<Rightarrow> u8 list" where
  "to_le_bytes 0 n = []"
| "to_le_bytes (Suc k) n = of_nat n # to_le_bytes k (n div 256)"

fun from_le_bytes :: "u8 list \<Rightarrow> nat" where
  "from_le_bytes [] = 0"
| "from_le_bytes (b # bs) = unat b + 256 * from_le_bytes bs"

lemma length_to_le_bytes [simp]: "length (to_le_bytes k n) = k"
  by (induction k arbitrary: n) auto

lemma from_to_le_bytes: "from_le_bytes (to_le_bytes k n) = n mod 256 ^ k"
proof (induction k arbitrary: n)
  case (Suc k)
  have "from_le_bytes (to_le_bytes (Suc k) n) = n mod 256 + 256 * ((n div 256) mod 256 ^ k)"
    by (simp add: Suc unat_of_nat)
  also have "\<dots> = n mod (256 * 256 ^ k)"
    by (simp add: mod_mult2_eq)
  finally show ?case by simp
qed simp

lemma from_le_bytes_bound: "from_le_bytes bs < 256 ^ length bs"
proof (induction bs)
  case (Cons b bs)
  have "unat b < 256" using unsigned_less [of b, where ?'a = nat] by simp
  with Cons show ?case by simp
qed simp

lemma to_from_le_bytes: "to_le_bytes (length bs) (from_le_bytes bs) = bs"
proof (induction bs)
  case (Cons b bs)
  have b: "unat b < 256" using unsigned_less [of b, where ?'a = nat] by simp
  then have "(unat b + 256 * from_le_bytes bs) div 256 = from_le_bytes bs" by simp
  moreover have "(of_nat (unat b + 256 * from_le_bytes bs) :: u8) = b"
  proof -
    have "unat (of_nat (unat b + 256 * from_le_bytes bs) :: u8) = unat b"
      using b by (simp add: unat_of_nat del: of_nat_add of_nat_mult)
    then show ?thesis by (simp only: word_unat_eq_iff)
  qed
  ultimately show ?case using Cons by simp
qed simp

text \<open>
  \<open>str::trim\<close> strips the characters with the Unicode property White\_Space. The test below
  recognizes them in their UTF-8 encodings, so it is exact on any valid string.
\<close>

fun blank_bytes :: "nat list \<Rightarrow> bool" where
  "blank_bytes [] = True"
| "blank_bytes (a # s) =
     (if a = 0x20 \<or> 0x09 \<le> a \<and> a \<le> 0x0D then blank_bytes s
      else if a = 0xC2 then
        (case s of b # t \<Rightarrow> (b = 0x85 \<or> b = 0xA0) \<and> blank_bytes t | [] \<Rightarrow> False)
      else if a = 0xE1 then
        (case s of b # c # t \<Rightarrow> b = 0x9A \<and> c = 0x80 \<and> blank_bytes t | _ \<Rightarrow> False)
      else if a = 0xE2 then
        (case s of b # c # t \<Rightarrow>
             (b = 0x80 \<and> (0x80 \<le> c \<and> c \<le> 0x8A \<or> c = 0xA8 \<or> c = 0xA9 \<or> c = 0xAF)
              \<or> b = 0x81 \<and> c = 0x9F) \<and> blank_bytes t
         | _ \<Rightarrow> False)
      else if a = 0xE3 then
        (case s of b # c # t \<Rightarrow> b = 0x80 \<and> c = 0x80 \<and> blank_bytes t | _ \<Rightarrow> False)
      else False)"

definition is_blank :: "string \<Rightarrow> bool" where
  "is_blank s \<longleftrightarrow> blank_bytes (map of_char s)"

lemma is_blank_words [simp]:
  "is_blank ''''" "is_blank ''  ''" "\<not> is_blank ''execute''" "\<not> is_blank ''undo''" "\<not> is_blank ''redo''"
  by (simp_all add: is_blank_def)

end
