(* ===== verification/Command_Journal.thy ===== *)
theory Command_Journal
  imports Bytes "HOL-Library.Word"
begin

text \<open>
  \<open>src/command_journal.rs\<close>: the append-only, checksummed journal of command batches. A frame is a
  fixed header (magic, little-endian length, FNV-1a checksum) and a JSON payload; recovery reads
  the longest verified prefix. The JSON codec (\<open>serde_json\<close>) and the codec of runtime commands are
  arguments of the definitions; \<open>usize\<close> is 64 bits wide.
\<close>

unbundle bit_operations_syntax

section \<open>Batches, records and frames\<close>

record ('c, 'tok, 'claim) command_batch =
  cb_label :: string
  cb_coalesce :: "'tok option"
  cb_commands :: "'c list"
  cb_id_claims :: "'claim list"

record 'v opaque_command =
  oc_domain :: string
  oc_kind :: string
  oc_schema_version :: nat
  oc_payload :: 'v
  oc_extensions :: "(string \<times> 'v) list"

record durable_id_claim =
  dc_namespace :: string
  dc_kind :: string
  dc_id :: string
  dc_scope :: "string option"

record durable_coalesce_token =
  dt_editor_session :: nat
  dt_gesture_kind :: nat
  dt_primary :: string

record 'v durable_batch =
  db_schema_version :: nat
  db_label :: string
  db_coalesce :: "durable_coalesce_token option"
  db_commands :: "'v opaque_command list"
  db_id_claims :: "durable_id_claim list"
  db_extensions :: "(string \<times> 'v) list"

datatype command_operation = Execute | Undo | Redo

datatype journal_frame_error =
    ZeroVersion
  | ZeroSequence
  | EmptyOperation
  | UnknownOperation string
  | ZeroBatchVersion
  | EmptyBatchLabel
  | EmptyCommandBatch
  | SequenceOverflow
  | SequenceGapError (gap_expected: nat) (gap_actual: nat)
  | RevisionGapError (rgap_expected: nat) (rgap_actual: nat)
  | RevisionOverflow
  | RevisionStep (rs_base: nat) (rs_resulting: nat)

fun operation_as_str :: "command_operation \<Rightarrow> string" where
  "operation_as_str Execute = ''execute''"
| "operation_as_str Undo = ''undo''"
| "operation_as_str Redo = ''redo''"

definition operation_parse :: "string \<Rightarrow> journal_frame_error + command_operation" where
  "operation_parse s =
     (if s = ''execute'' then Inr Execute
      else if s = ''undo'' then Inr Undo
      else if s = ''redo'' then Inr Redo
      else Inl (UnknownOperation s))"

record ('c, 'tok, 'claim) journal_record =
  jr_sequence :: nat
  jr_base_revision :: nat
  jr_resulting_revision :: nat
  jr_operation :: command_operation
  jr_batch :: "('c, 'tok, 'claim) command_batch"

text \<open>\<open>base.checked_add(1).ok_or(RevisionOverflow)?\<close> and the comparison that follows it.\<close>

definition check_revision_step :: "nat \<Rightarrow> nat \<Rightarrow> journal_frame_error + unit" where
  "check_revision_step base resulting =
     bind_r (ok_or (checked_add_u64 base 1) RevisionOverflow)
       (\<lambda>expected. fail_if (resulting \<noteq> expected) (RevisionStep base resulting))"

definition record_validate :: "('c, 'tok, 'claim) journal_record \<Rightarrow> journal_frame_error + unit" where
  "record_validate r =
     then_r (fail_if (jr_sequence r = 0) ZeroSequence)
     (then_r (fail_if (is_blank (cb_label (jr_batch r))) EmptyBatchLabel)
     (then_r (fail_if (cb_commands (jr_batch r) = []) EmptyCommandBatch)
        (check_revision_step (jr_base_revision r) (jr_resulting_revision r))))"

definition record_new ::
  "nat \<Rightarrow> nat \<Rightarrow> nat \<Rightarrow> command_operation \<Rightarrow> ('c, 'tok, 'claim) command_batch
     \<Rightarrow> journal_frame_error + ('c, 'tok, 'claim) journal_record" where
  "record_new sequence base resulting operation batch =
     (let r = \<lparr>jr_sequence = sequence, jr_base_revision = base, jr_resulting_revision = resulting,
               jr_operation = operation, jr_batch = batch\<rparr>
      in then_r (record_validate r) (Inr r))"

record 'v journal_frame =
  jf_frame_version :: nat
  jf_sequence :: nat
  jf_base_revision :: nat
  jf_resulting_revision :: nat
  jf_operation :: string
  jf_batch :: "'v durable_batch"
  jf_extensions :: "(string \<times> 'v) list"

definition journal_frame_version :: nat where "journal_frame_version = 1"

definition frame_validate :: "'v journal_frame \<Rightarrow> journal_frame_error + unit" where
  "frame_validate f =
     then_r (fail_if (jf_frame_version f = 0) ZeroVersion)
     (then_r (fail_if (jf_sequence f = 0) ZeroSequence)
     (then_r (fail_if (is_blank (jf_operation f)) EmptyOperation)
     (then_r (fail_if (db_schema_version (jf_batch f) = 0) ZeroBatchVersion)
     (then_r (fail_if (is_blank (db_label (jf_batch f))) EmptyBatchLabel)
     (then_r (fail_if (db_commands (jf_batch f) = []) EmptyCommandBatch)
        (check_revision_step (jf_base_revision f) (jf_resulting_revision f)))))))"

definition frame_new ::
  "nat \<Rightarrow> nat \<Rightarrow> string \<Rightarrow> 'v durable_batch \<Rightarrow> journal_frame_error + 'v journal_frame" where
  "frame_new sequence base operation batch =
     bind_r (ok_or (checked_add_u64 base 1) RevisionOverflow) (\<lambda>resulting.
       let f = \<lparr>jf_frame_version = journal_frame_version, jf_sequence = sequence,
                jf_base_revision = base, jf_resulting_revision = resulting,
                jf_operation = operation, jf_batch = batch, jf_extensions = []\<rparr>
       in then_r (frame_validate f) (Inr f))"

section \<open>The checksum\<close>

definition fnv_offset :: "128 word" where
  "fnv_offset = 0x6c62272e07bb014262b821756295c58d"

definition fnv_prime :: "128 word" where
  "fnv_prime = 0x0000000001000000000000000000013b"

definition fnv1a_128 :: "u8 list \<Rightarrow> 128 word" where
  "fnv1a_128 bytes = fold (\<lambda>byte hash. (hash XOR ucast byte) * fnv_prime) bytes fnv_offset"

section \<open>Encoding a frame\<close>

definition frame_magic :: "u8 list" where
  "frame_magic = [0x41, 0x55, 0x44, 0x45, 0x43, 0x4A, 0x31, 0]"

definition header_len :: nat where "header_len = 32"

definition default_max_frame_bytes :: nat where "default_max_frame_bytes = 67108864"

datatype 'je journal_encode_error =
    InvalidFrameError journal_frame_error
  | JsonError 'je
  | FrameTooLargeError nat

definition frame_bytes :: "u8 list \<Rightarrow> u8 list" where
  "frame_bytes payload =
     frame_magic @ to_le_bytes 8 (length payload) @ to_le_bytes 16 (unat (fnv1a_128 payload)) @ payload"

definition encode_frame ::
  "('v journal_frame \<Rightarrow> 'je + u8 list) \<Rightarrow> 'v journal_frame \<Rightarrow> 'je journal_encode_error + u8 list" where
  "encode_frame ser f =
     (case frame_validate f of
        Inl e \<Rightarrow> Inl (InvalidFrameError e)
      | Inr _ \<Rightarrow>
          (case ser f of
             Inl e \<Rightarrow> Inl (JsonError e)
           | Inr payload \<Rightarrow>
               if default_max_frame_bytes < length payload
               then Inl (FrameTooLargeError (length payload))
               else Inr (frame_bytes payload)))"

section \<open>Recovering a prefix\<close>

text \<open>
  The code stores the text of the JSON and validation errors; the model keeps the errors
  themselves.
\<close>

datatype 'de journal_corruption =
    BadMagic
  | FrameTooLarge nat
  | LengthOverflow
  | ChecksumMismatch
  | Json 'de
  | InvalidFrame journal_frame_error
  | SequenceGap nat nat
  | RevisionGap nat nat

datatype 'de journal_tail =
    Clean
  | Truncated (tail_offset: nat) (tail_available: nat) (tail_required: "nat option")
  | Corrupt (corrupt_offset: nat) (corrupt_error: "'de journal_corruption")

record ('v, 'de) journal_recovery =
  rec_frames :: "'v journal_frame list"
  rec_valid_bytes :: nat
  rec_tail :: "'de journal_tail"

text \<open>The chain checks against the last accepted frame.\<close>

definition chain_check ::
  "'v journal_frame list \<Rightarrow> 'v journal_frame \<Rightarrow> 'de journal_corruption + unit" where
  "chain_check frames f =
     (if frames = [] then Inr ()
      else let previous = last frames in
        case checked_add_u64 (jf_sequence previous) 1 of
          None \<Rightarrow> Inl (SequenceGap u64_max (jf_sequence f))
        | Some expected \<Rightarrow>
            if jf_sequence f \<noteq> expected then Inl (SequenceGap expected (jf_sequence f))
            else if jf_base_revision f \<noteq> jf_resulting_revision previous
            then Inl (RevisionGap (jf_resulting_revision previous) (jf_base_revision f))
            else Inr ())"

text \<open>
  \<open>&xs[a..b]\<close>: a panic unless \<open>a \<le> b\<close> and \<open>b\<close> is at most the length.
\<close>

definition checked_slice :: "nat \<Rightarrow> nat \<Rightarrow> 'a list \<Rightarrow> 'e fault + 'a list" where
  "checked_slice a b xs = (if a \<le> b \<and> b \<le> length xs then Inr (take (b - a) (drop a xs)) else Inl Panicked)"

text \<open>
  One iteration of the loop of \<open>recover_prefix_with_limit\<close>: the disposition of the tail, the
  accepted frame and its length, or the panic of a slice outside the bytes.
\<close>

definition read_frame ::
  "(u8 list \<Rightarrow> 'de + 'v journal_frame) \<Rightarrow> u8 list \<Rightarrow> nat \<Rightarrow> nat \<Rightarrow> 'v journal_frame list
     \<Rightarrow> 'de journal_tail fault + 'v journal_frame \<times> nat" where
  "read_frame de bytes max_frame_bytes offset frames =
     (let available = length bytes - offset in
      if available < header_len then Inl (Failed (Truncated offset available (Some header_len)))
      else
      bind_r (checked_slice offset (offset + header_len) bytes) (\<lambda>header.
      bind_r (checked_slice 0 8 header) (\<lambda>magic.
      if magic \<noteq> frame_magic then Inl (Failed (Corrupt offset BadMagic))
      else
      bind_r (checked_slice 8 16 header) (\<lambda>len_bytes.
      let payload_len = from_le_bytes len_bytes in
      if max_frame_bytes < payload_len then Inl (Failed (Corrupt offset (FrameTooLarge payload_len)))
      else case checked_add_u64 header_len payload_len of
        None \<Rightarrow> Inl (Failed (Corrupt offset LengthOverflow))
      | Some frame_len \<Rightarrow>
          if available < frame_len then Inl (Failed (Truncated offset available (Some frame_len)))
          else
          bind_r (checked_slice 16 header_len header) (\<lambda>checksum_bytes.
          let expected_checksum = from_le_bytes checksum_bytes in
          bind_r (checked_slice (offset + header_len) (offset + frame_len) bytes) (\<lambda>payload.
          if unat (fnv1a_128 payload) \<noteq> expected_checksum
          then Inl (Failed (Corrupt offset ChecksumMismatch))
          else (case de payload of
            Inl e \<Rightarrow> Inl (Failed (Corrupt offset (Json e)))
          | Inr f \<Rightarrow>
              (case frame_validate f of
                 Inl e \<Rightarrow> Inl (Failed (Corrupt offset (InvalidFrame e)))
               | Inr _ \<Rightarrow>
                   (case chain_check frames f of
                      Inl e \<Rightarrow> Inl (Failed (Corrupt offset e))
                    | Inr _ \<Rightarrow> Inr (f, frame_len))))))))))"

text \<open>A slice inside the bytes, and the accepted frames: they end inside the bytes.\<close>

lemma checked_slice_inside [simp]:
  "a \<le> b \<Longrightarrow> b \<le> length xs \<Longrightarrow> checked_slice a b xs = Inr (take (b - a) (drop a xs))"
  by (simp add: checked_slice_def)

lemma checked_slice_eq_Inr [result_simps]:
  "checked_slice a b xs = Inr ys \<longleftrightarrow> a \<le> b \<and> b \<le> length xs \<and> ys = take (b - a) (drop a xs)"
  by (auto simp: checked_slice_def)

lemma read_frame_len:
  "read_frame de bytes m offset frames = Inr (f, len) \<Longrightarrow> header_len \<le> len \<and> offset + len \<le> length bytes"
  by (auto simp: read_frame_def Let_def checked_add_u64_def result_simps
      split: if_splits option.splits sum.splits)

text \<open>
  The loop: \<open>None\<close> is a panic.
\<close>

function recover_from ::
  "(u8 list \<Rightarrow> 'de + 'v journal_frame) \<Rightarrow> u8 list \<Rightarrow> nat \<Rightarrow> nat \<Rightarrow> 'v journal_frame list
     \<Rightarrow> ('v, 'de) journal_recovery option" where
  "recover_from de bytes max_frame_bytes offset frames =
     (if \<not> offset < length bytes
      then Some \<lparr>rec_frames = frames, rec_valid_bytes = offset, rec_tail = Clean\<rparr>
      else case read_frame de bytes max_frame_bytes offset frames of
        Inl Panicked \<Rightarrow> None
      | Inl (Failed tail) \<Rightarrow>
          Some \<lparr>rec_frames = frames, rec_valid_bytes = offset, rec_tail = tail\<rparr>
      | Inr (f, frame_len) \<Rightarrow>
          recover_from de bytes max_frame_bytes (offset + frame_len) (frames @ [f]))"
  by pat_completeness auto
termination
  by (relation "measure (\<lambda>(de, bytes, m, offset, frames). length bytes - offset)")
    (auto dest!: read_frame_len simp: header_len_def)

declare recover_from.simps [simp del]

definition recover_prefix_with_limit ::
  "(u8 list \<Rightarrow> 'de + 'v journal_frame) \<Rightarrow> u8 list \<Rightarrow> nat \<Rightarrow> ('v, 'de) journal_recovery option" where
  "recover_prefix_with_limit de bytes max_frame_bytes = recover_from de bytes max_frame_bytes 0 []"

definition recover_prefix ::
  "(u8 list \<Rightarrow> 'de + 'v journal_frame) \<Rightarrow> u8 list \<Rightarrow> ('v, 'de) journal_recovery option" where
  "recover_prefix de bytes = recover_prefix_with_limit de bytes default_max_frame_bytes"

definition is_complete :: "('v, 'de) journal_recovery \<Rightarrow> bool" where
  "is_complete r \<longleftrightarrow> rec_tail r = Clean"

section \<open>Runtime records\<close>

datatype ('ce, 'je) runtime_encode_error =
    CodecError 'ce
  | FrameError journal_frame_error
  | EncodeError "'je journal_encode_error"

definition encode_runtime_record ::
  "('v journal_frame \<Rightarrow> 'je + u8 list)
     \<Rightarrow> (('c, 'tok, 'claim) command_batch \<Rightarrow> 'ce + 'v durable_batch)
     \<Rightarrow> ('c, 'tok, 'claim) journal_record \<Rightarrow> ('ce, 'je) runtime_encode_error + u8 list" where
  "encode_runtime_record ser encode_batch r =
     (case record_validate r of
        Inl e \<Rightarrow> Inl (FrameError e)
      | Inr _ \<Rightarrow>
          (case encode_batch (jr_batch r) of
             Inl e \<Rightarrow> Inl (CodecError e)
           | Inr durable \<Rightarrow>
               (case frame_new (jr_sequence r) (jr_base_revision r)
                       (operation_as_str (jr_operation r)) durable of
                  Inl e \<Rightarrow> Inl (FrameError e)
                | Inr f \<Rightarrow>
                    map_sum EncodeError id
                      (encode_frame ser (f\<lparr>jf_resulting_revision := jr_resulting_revision r\<rparr>)))))"

definition decode_runtime_frame ::
  "('v durable_batch \<Rightarrow> 'ce + ('c, 'tok, 'claim) command_batch) \<Rightarrow> 'v journal_frame
     \<Rightarrow> ('ce, 'je) runtime_encode_error + ('c, 'tok, 'claim) journal_record" where
  "decode_runtime_frame decode_batch f =
     (case frame_validate f of
        Inl e \<Rightarrow> Inl (FrameError e)
      | Inr _ \<Rightarrow>
          (case decode_batch (jf_batch f) of
             Inl e \<Rightarrow> Inl (CodecError e)
           | Inr batch \<Rightarrow>
               (case operation_parse (jf_operation f) of
                  Inl e \<Rightarrow> Inl (FrameError e)
                | Inr operation \<Rightarrow>
                    map_sum FrameError id
                      (record_new (jf_sequence f) (jf_base_revision f) (jf_resulting_revision f)
                         operation batch))))"

text \<open>The loop over \<open>records.windows(2)\<close>.\<close>

fun check_windows :: "('c, 'tok, 'claim) journal_record list \<Rightarrow> journal_frame_error + unit" where
  "check_windows (p # n # rs) =
     bind_r (ok_or (checked_add_u64 (jr_sequence p) 1) SequenceOverflow) (\<lambda>expected.
       then_r (fail_if (jr_sequence n \<noteq> expected) (SequenceGapError expected (jr_sequence n)))
       (then_r (fail_if (jr_base_revision n \<noteq> jr_resulting_revision p)
                  (RevisionGapError (jr_resulting_revision p) (jr_base_revision n)))
          (check_windows (n # rs))))"
| "check_windows _ = Inr ()"

definition validate_runtime_record_chain ::
  "('c, 'tok, 'claim) journal_record list \<Rightarrow> journal_frame_error + unit" where
  "validate_runtime_record_chain records =
     then_r (for_each record_validate records) (check_windows records)"

definition encode_runtime_records ::
  "('v journal_frame \<Rightarrow> 'je + u8 list)
     \<Rightarrow> (('c, 'tok, 'claim) command_batch \<Rightarrow> 'ce + 'v durable_batch)
     \<Rightarrow> ('c, 'tok, 'claim) journal_record list \<Rightarrow> ('ce, 'je) runtime_encode_error + u8 list" where
  "encode_runtime_records ser encode_batch records =
     (case validate_runtime_record_chain records of
        Inl e \<Rightarrow> Inl (FrameError e)
      | Inr _ \<Rightarrow>
          fold_r (\<lambda>r encoded. map_sum id (\<lambda>bs. encoded @ bs) (encode_runtime_record ser encode_batch r))
            records [])"

end
