(* ===== verification/Journal_Recovery.thy ===== *)
theory Journal_Recovery
  imports Command_Journal
begin

text \<open>
  What recovery promises. Of arbitrary bytes it returns a valid chain of frames, and cutting the
  file at the offset it reports leaves a clean journal with the same frames. Of the bytes the
  encoder wrote, cut anywhere, it returns exactly the frames that were written completely.
\<close>

section \<open>Chains\<close>

definition follows_frame :: "'v journal_frame \<Rightarrow> 'v journal_frame \<Rightarrow> bool" where
  "follows_frame p f \<longleftrightarrow> jf_sequence f = jf_sequence p + 1 \<and> jf_sequence p + 1 \<le> u64_max
     \<and> jf_base_revision f = jf_resulting_revision p"

fun chained :: "'v journal_frame list \<Rightarrow> bool" where
  "chained (p # f # fs) \<longleftrightarrow> follows_frame p f \<and> chained (f # fs)"
| "chained _ \<longleftrightarrow> True"

definition valid_frames :: "'v journal_frame list \<Rightarrow> bool" where
  "valid_frames fs \<longleftrightarrow> (\<forall>f \<in> set fs. frame_validate f = Inr ()) \<and> chained fs"

lemma chain_check_iff:
  "chain_check frames f = Inr u \<longleftrightarrow> frames = [] \<or> follows_frame (last frames) f"
  by (auto simp: chain_check_def follows_frame_def Let_def checked_add_u64_def
      split: option.splits if_splits)

lemma chain_check_Inl:
  "chain_check frames f = Inl e \<Longrightarrow> frames \<noteq> [] \<and> \<not> follows_frame (last frames) f"
  by (auto simp: chain_check_def follows_frame_def Let_def checked_add_u64_def
      split: option.splits if_splits)

lemma chained_snoc: "chained (fs @ [f]) \<longleftrightarrow> chained fs \<and> (fs = [] \<or> follows_frame (last fs) f)"
  by (induction fs rule: chained.induct) auto

lemma chained_append_Cons:
  "chained (fs @ f # gs) \<longleftrightarrow> chained (fs @ [f]) \<and> chained (f # gs)"
  by (induction fs rule: chained.induct) auto

lemma valid_frames_snoc:
  "valid_frames (fs @ [f]) \<longleftrightarrow> valid_frames fs \<and> frame_validate f = Inr ()
     \<and> (fs = [] \<or> follows_frame (last fs) f)"
  by (auto simp: valid_frames_def chained_snoc)

section \<open>Recovery of arbitrary bytes\<close>

lemma read_frame_accepts:
  "read_frame de bytes m offset frames = Inr (f, len)
     \<Longrightarrow> frame_validate f = Inr () \<and> (frames = [] \<or> follows_frame (last frames) f)"
  by (auto simp: read_frame_def Let_def chain_check_iff result_simps
      split: if_splits option.splits sum.splits)

text \<open>
  The guards keep every slice inside the bytes: inside them an iteration does not panic.
\<close>

lemma header_slices:
  assumes "offset + header_len \<le> length bytes"
  shows "checked_slice offset (offset + header_len) bytes = Inr (take header_len (drop offset bytes))"
    and "checked_slice 0 8 (take header_len (drop offset bytes)) = Inr (take 8 (drop offset bytes))"
    and "checked_slice 8 16 (take header_len (drop offset bytes)) = Inr (take 8 (drop (offset + 8) bytes))"
    and "checked_slice 16 header_len (take header_len (drop offset bytes))
      = Inr (take 16 (drop (offset + 16) bytes))"
  using assms by (simp_all add: checked_slice_def header_len_def drop_take add.commute)

lemma read_frame_no_panic:
  assumes "offset < length bytes"
  shows "read_frame de bytes m offset frames \<noteq> Inl Panicked"
proof (cases "length bytes - offset < header_len")
  case False
  then have "offset + header_len \<le> length bytes" using assms by simp
  with False show ?thesis
    by (auto simp: read_frame_def Let_def header_slices bind_r_panics checked_add_u64_def
        split: option.splits sum.splits)
qed (simp add: read_frame_def)

text \<open>What the loop accepts, read off the bytes.\<close>

lemma read_frame_eq_Inr:
  "read_frame de bytes m offset frames = Inr (f, len) \<longleftrightarrow>
     (let k = from_le_bytes (take 8 (drop (offset + 8) bytes));
          payload = take k (drop (offset + header_len) bytes)
      in header_len + k = len \<and> len \<le> u64_max \<and> offset + len \<le> length bytes \<and> k \<le> m
        \<and> take 8 (drop offset bytes) = frame_magic
        \<and> unat (fnv1a_128 payload) = from_le_bytes (take 16 (drop (offset + 16) bytes))
        \<and> de payload = Inr f \<and> frame_validate f = Inr ()
        \<and> (frames = [] \<or> follows_frame (last frames) f))"
proof (cases "offset + header_len \<le> length bytes")
  case True
  obtain k where k: "from_le_bytes (take 8 (drop (offset + 8) bytes)) = k" by blast
  obtain p where p: "take k (drop (offset + header_len) bytes) = p" by blast
  note here = read_frame_def Let_def header_slices[OF True] k bind_r_simps checked_add_u64_def
  have room: "length bytes - offset < x \<longleftrightarrow> \<not> offset + x \<le> length bytes" for x
    using True by linarith
  show ?thesis
  proof (cases "take 8 (drop offset bytes) = frame_magic \<and> k \<le> m \<and> header_len + k \<le> u64_max
      \<and> offset + (header_len + k) \<le> length bytes")
    case inside: True
    then have "checked_slice (offset + header_len) (offset + (header_len + k)) bytes = Inr p"
      by (simp add: p[symmetric])
    then show ?thesis
      using True inside
      by (auto simp: here p room chain_check_iff dest: chain_check_Inl split: sum.splits)
  next
    case False
    then show ?thesis
      using True by (auto simp: here p room)
  qed
next
  case False
  then have "length bytes - offset < header_len" unfolding header_len_def by linarith
  then have "read_frame de bytes m offset frames
      = Inl (Failed (Truncated offset (length bytes - offset) (Some header_len)))"
    by (simp add: read_frame_def)
  with False show ?thesis by (simp add: Let_def)
qed

lemma recover_from_done:
  "\<not> offset < length bytes \<Longrightarrow>
     recover_from de bytes m offset frames
       = Some \<lparr>rec_frames = frames, rec_valid_bytes = offset, rec_tail = Clean\<rparr>"
  by (subst recover_from.simps) simp

lemma recover_from_tail:
  "offset < length bytes \<Longrightarrow> read_frame de bytes m offset frames = Inl (Failed t) \<Longrightarrow>
     recover_from de bytes m offset frames
       = Some \<lparr>rec_frames = frames, rec_valid_bytes = offset, rec_tail = t\<rparr>"
  by (subst recover_from.simps) simp

lemma recover_from_next:
  "offset < length bytes \<Longrightarrow> read_frame de bytes m offset frames = Inr (f, len) \<Longrightarrow>
     recover_from de bytes m offset frames
       = recover_from de bytes m (offset + len) (frames @ [f])"
  by (subst recover_from.simps) simp

lemmas recover_steps = recover_from_done recover_from_tail recover_from_next

text \<open>The induction the loop gives: where it stops, and the state after one accepted frame.\<close>

lemma recover_induct [case_names stop tail accept]:
  assumes "\<And>offset frames. \<not> offset < length bytes \<Longrightarrow> P offset frames"
    and "\<And>offset frames t. offset < length bytes \<Longrightarrow>
      read_frame de bytes m offset frames = Inl (Failed t) \<Longrightarrow> P offset frames"
    and "\<And>offset frames f len. offset < length bytes \<Longrightarrow>
      read_frame de bytes m offset frames = Inr (f, len) \<Longrightarrow>
      header_len \<le> len \<Longrightarrow> offset + len \<le> length bytes \<Longrightarrow>
      P (offset + len) (frames @ [f]) \<Longrightarrow> P offset frames"
  shows "P offset frames"
proof (induction "length bytes - offset" arbitrary: offset frames rule: less_induct)
  case (less offset frames)
  show ?case
  proof (cases "offset < length bytes")
    case True
    consider t where "read_frame de bytes m offset frames = Inl (Failed t)"
      | f len where "read_frame de bytes m offset frames = Inr (f, len)"
      using read_frame_no_panic[OF True] by (metis fault.exhaust obj_sumE surj_pair)
    then show ?thesis
    proof cases
      case (2 f len)
      from read_frame_len[OF this] have len: "header_len \<le> len" "offset + len \<le> length bytes" by auto
      then have "length bytes - (offset + len) < length bytes - offset"
        using True by (simp add: header_len_def)
      from less[OF this] show ?thesis by (rule assms(3)[OF True 2 len])
    qed (rule assms(2)[OF True])
  qed (rule assms(1))
qed

text \<open>Recovery returns, for every input.\<close>

lemma recover_from_total: "\<exists>r. recover_from de bytes m offset frames = Some r"
  by (induction offset frames rule: recover_induct[of bytes _ de m]) (simp_all add: recover_steps)

lemma recover_from_range:
  "offset \<le> length bytes \<Longrightarrow> recover_from de bytes m offset frames = Some r \<Longrightarrow>
     offset \<le> rec_valid_bytes r \<and> rec_valid_bytes r \<le> length bytes"
  by (induction offset frames rule: recover_induct[of bytes _ de m]) (auto simp: recover_steps)

lemma recover_from_valid:
  "valid_frames frames \<Longrightarrow> recover_from de bytes m offset frames = Some r \<Longrightarrow>
     valid_frames (rec_frames r)"
proof (induction offset frames rule: recover_induct[of bytes _ de m])
  case (accept offset frames f len)
  have "valid_frames (frames @ [f])"
    using read_frame_accepts[OF accept(2)] accept.prems by (simp add: valid_frames_snoc)
  with accept show ?case by (simp add: recover_from_next[OF accept(1,2)])
qed (auto simp: recover_steps)

text \<open>An accepted frame only depends on its own bytes.\<close>

lemma read_frame_cut:
  assumes "read_frame de bytes m offset frames = Inr (f, len)" "offset + len \<le> n" "n \<le> length bytes"
  shows "read_frame de (take n bytes) m offset frames = Inr (f, len)"
proof -
  have len: "header_len \<le> len" using read_frame_len[OF assms(1)] by simp
  have cut: "checked_slice a b (take n bytes) = checked_slice a b bytes" if "b \<le> offset + len" for a b
    using that assms(2,3) by (auto simp: checked_slice_def take_drop min_def)
  have "take k (drop (offset + a) (take n bytes)) = take k (drop (offset + a) bytes)" if "a + k \<le> len" for a k
    using that assms(2) by (simp add: drop_take)
  from this[of 0 8] this[of 8 8] this[of 16 16] this[of header_len "len - header_len"]
  show ?thesis
    using assms len unfolding read_frame_eq_Inr Let_def
    by (auto simp: header_len_def)
qed

lemma recover_from_cut:
  assumes "offset \<le> length bytes" "recover_from de bytes m offset frames = Some r"
  shows "recover_from de (take (rec_valid_bytes r) bytes) m offset frames
    = Some (r\<lparr>rec_tail := Clean\<rparr>)"
  using assms
proof (induction offset frames rule: recover_induct[of bytes _ de m])
  case (accept offset frames f len)
  let ?vb = "rec_valid_bytes r"
  have rest: "recover_from de bytes m (offset + len) (frames @ [f]) = Some r"
    using accept.prems(2) by (simp add: recover_from_next[OF accept(1,2)])
  have vb: "offset + len \<le> ?vb" "?vb \<le> length bytes"
    using recover_from_range[OF accept(4) rest] by simp_all
  have "read_frame de (take ?vb bytes) m offset frames = Inr (f, len)"
    by (rule read_frame_cut[OF accept(2) vb])
  moreover have "offset < length (take ?vb bytes)"
    using vb accept(3) by (simp add: header_len_def)
  ultimately have "recover_from de (take ?vb bytes) m offset frames
      = recover_from de (take ?vb bytes) m (offset + len) (frames @ [f])"
    by (intro recover_from_next)
  then show ?case using accept.IH[OF accept(4) rest] by simp
qed (auto simp: recover_steps)

section \<open>Recovery of what the encoder wrote\<close>

lemma length_frame_magic [simp]: "length frame_magic = 8"
  by (simp add: frame_magic_def)

lemma length_frame_bytes: "length (frame_bytes p) = header_len + length p"
  by (simp add: frame_bytes_def header_len_def)

lemma frame_bytes_header:
  "take header_len (frame_bytes p)
    = frame_magic @ to_le_bytes 8 (length p) @ to_le_bytes 16 (unat (fnv1a_128 p))"
  by (simp add: frame_bytes_def header_len_def)

lemma frame_bytes_payload [simp]: "drop header_len (frame_bytes p) = p"
  by (simp add: frame_bytes_def header_len_def)

lemma checksum_bound: "unat (fnv1a_128 p) < 256 ^ 16"
  using unsigned_less [of "fnv1a_128 p", where ?'a = nat] by simp

definition codec_ok :: "('v journal_frame \<Rightarrow> 'je + u8 list) \<Rightarrow> (u8 list \<Rightarrow> 'de + 'v journal_frame) \<Rightarrow> bool" where
  "codec_ok ser de \<longleftrightarrow> (\<forall>f p. ser f = Inr p \<longrightarrow> de p = Inr f)"

lemma encode_frame_cases:
  assumes "encode_frame ser f = Inr b"
  obtains p where "ser f = Inr p" "b = frame_bytes p" "length p \<le> default_max_frame_bytes"
    "frame_validate f = Inr ()"
  using assms by (auto simp: encode_frame_def split: sum.splits if_splits)

lemma read_encoded_frame:
  assumes codec: "codec_ok ser de" and enc: "encode_frame ser f = Inr b"
    and chain: "frames = [] \<or> follows_frame (last frames) f"
  shows "read_frame de (pre @ b @ post) default_max_frame_bytes (length pre) frames = Inr (f, length b)"
proof -
  obtain p where p: "ser f = Inr p" "b = frame_bytes p" "length p \<le> default_max_frame_bytes"
    "frame_validate f = Inr ()" by (rule encode_frame_cases[OF enc])
  have de: "de p = Inr f" using codec p(1) by (simp add: codec_ok_def)
  have "length p < 256 ^ 8" using p(3) by (simp add: default_max_frame_bytes_def)
  then have len: "from_le_bytes (to_le_bytes 8 (length p)) = length p"
    by (simp add: from_to_le_bytes)
  have sum: "from_le_bytes (to_le_bytes 16 (unat (fnv1a_128 p))) = unat (fnv1a_128 p)"
    using checksum_bound[of p] by (simp add: from_to_le_bytes)
  have fits: "checked_add_u64 header_len (length p) = Some (header_len + length p)"
    using p(3) by (simp add: checked_add_u64_def header_len_def default_max_frame_bytes_def u64_max_def)
  show ?thesis
    using fits p(3,4) de chain len sum unfolding p(2) read_frame_eq_Inr Let_def
    by (simp add: frame_bytes_def header_len_def checked_add_u64_def split: if_splits)
qed

text \<open>A frame cut before its last byte is reported as truncated, never as corrupt.\<close>

lemma read_torn_frame:
  assumes enc: "encode_frame ser f = Inr b" and n: "n < length b"
  shows "\<exists>req. read_frame de (pre @ take n b) default_max_frame_bytes (length pre) frames
    = Inl (Failed (Truncated (length pre) n (Some req)))"
proof -
  obtain p where p: "b = frame_bytes p" "length p \<le> default_max_frame_bytes"
    by (rule encode_frame_cases[OF enc])
  show ?thesis
  proof (cases "n < header_len")
    case True
    then show ?thesis using n by (simp add: read_frame_def)
  next
    case False
    have "length p < 256 ^ 8" using p(2) by (simp add: default_max_frame_bytes_def)
    then have len: "from_le_bytes (to_le_bytes 8 (length p)) = length p"
      by (simp add: from_to_le_bytes)
    have mins: "min header_len n = header_len" "min (header_len + length p) n = n"
      using False n by (simp_all add: p(1) length_frame_bytes)
    have fits: "checked_add_u64 header_len (length p) = Some (header_len + length p)"
      using p(2) by (simp add: checked_add_u64_def header_len_def default_max_frame_bytes_def u64_max_def)
    have "n < header_len + length p" using n by (simp add: p(1) length_frame_bytes)
    then show ?thesis
      using False p(2) unfolding p(1) read_frame_def
      by (simp add: Let_def frame_bytes_header mins length_frame_bytes len fits leD)
  qed
qed

definition written :: "('v journal_frame \<Rightarrow> 'je + u8 list) \<Rightarrow> 'v journal_frame list \<Rightarrow> u8 list list \<Rightarrow> bool" where
  "written ser fs bs \<longleftrightarrow> list_all2 (\<lambda>f b. encode_frame ser f = Inr b) fs bs"

lemma encoded_nonempty: "encode_frame ser f = Inr b \<Longrightarrow> 0 < length b"
  by (erule encode_frame_cases) (simp add: length_frame_bytes header_len_def)

lemma recover_written:
  assumes "codec_ok ser de" "written ser fs bs" "chained (frames @ fs)"
  shows "recover_from de (pre @ concat bs @ post) default_max_frame_bytes (length pre) frames
    = recover_from de (pre @ concat bs @ post) default_max_frame_bytes
        (length pre + length (concat bs)) (frames @ fs)"
  using assms(2,3)
proof (induction fs arbitrary: bs pre frames)
  case Nil
  then show ?case by (simp add: written_def)
next
  case (Cons f fs)
  then obtain b bs' where bs: "bs = b # bs'" "encode_frame ser f = Inr b" "written ser fs bs'"
    by (auto simp: written_def list_all2_Cons1)
  have "frames = [] \<or> follows_frame (last frames) f"
    using Cons.prems(2) chained_append_Cons[of frames f fs] chained_snoc[of frames f] by blast
  then have "read_frame de (pre @ b @ concat bs' @ post) default_max_frame_bytes (length pre) frames
      = Inr (f, length b)"
    by (rule read_encoded_frame[OF assms(1) bs(2)])
  moreover have "length pre < length (pre @ b @ concat bs' @ post)"
    using encoded_nonempty[OF bs(2)] by simp
  ultimately have "recover_from de (pre @ b @ concat bs' @ post) default_max_frame_bytes (length pre) frames
      = recover_from de (pre @ b @ concat bs' @ post) default_max_frame_bytes
          (length pre + length b) (frames @ [f])"
    by (rule recover_from_next[rotated])
  with Cons.IH[OF bs(3), of "frames @ [f]" "pre @ b"] Cons.prems(2) show ?case
    by (simp add: bs(1) add.assoc)
qed

lemma recover_complete:
  assumes "codec_ok ser de" "written ser fs bs" "chained fs"
  shows "recover_prefix de (concat bs)
    = Some \<lparr>rec_frames = fs, rec_valid_bytes = length (concat bs), rec_tail = Clean\<rparr>"
  using recover_written[OF assms(1,2), of "[]" "[]" "[]"] assms(3)
  by (simp add: recover_prefix_def recover_prefix_with_limit_def recover_from_done)

lemma recover_torn:
  assumes "codec_ok ser de" "written ser fs bs" "chained fs"
    and "encode_frame ser f = Inr b" "0 < n" "n < length b"
  shows "\<exists>req. recover_prefix de (concat bs @ take n b)
    = Some \<lparr>rec_frames = fs, rec_valid_bytes = length (concat bs),
       rec_tail = Truncated (length (concat bs)) n (Some req)\<rparr>"
proof -
  obtain req where req: "read_frame de (concat bs @ take n b) default_max_frame_bytes
      (length (concat bs)) fs = Inl (Failed (Truncated (length (concat bs)) n (Some req)))"
    using read_torn_frame[OF assms(4,6)] by blast
  have "length (concat bs) < length (concat bs @ take n b)" using assms(5,6) by simp
  from recover_from_tail[OF this req]
  show ?thesis
    using recover_written[OF assms(1,2), of "[]" "[]" "take n b"] assms(3)
    by (simp add: recover_prefix_def recover_prefix_with_limit_def)
qed

text \<open>Cutting the written file at any byte.\<close>

lemma cut_position:
  assumes "\<forall>b \<in> set bs. 0 < length b"
  shows "n < length (concat bs) \<Longrightarrow> \<exists>k < length bs. length (concat (take k bs)) \<le> n
    \<and> n < length (concat (take (Suc k) bs))"
  using assms
proof (induction bs arbitrary: n)
  case (Cons b bs)
  show ?case
  proof (cases "n < length b")
    case True
    then show ?thesis by (intro exI[of _ 0]) simp
  next
    case False
    with Cons.prems have "n - length b < length (concat bs)" by auto
    with Cons obtain k where "k < length bs" "length (concat (take k bs)) \<le> n - length b"
      "n - length b < length (concat (take (Suc k) bs))" by force
    with False show ?thesis by (intro exI[of _ "Suc k"]) auto
  qed
qed simp

lemma chained_take: "chained fs \<Longrightarrow> chained (take k fs)"
proof (induction fs arbitrary: k rule: chained.induct)
  case (1 p f fs)
  show ?case
  proof (cases k)
    case (Suc j)
    with 1 show ?thesis by (cases j) (use "1.IH"[of j] in auto)
  qed simp
qed (simp_all add: take_Cons split: nat.split)

lemma recover_cut_anywhere:
  assumes "codec_ok ser de" "written ser fs bs" "chained fs" "n < length (concat bs)"
  obtains k r where "k < length fs" "length (concat (take k bs)) \<le> n"
    "n < length (concat (take (Suc k) bs))"
    "recover_prefix de (take n (concat bs)) = Some r"
    "rec_frames r = take k fs" "rec_valid_bytes r = length (concat (take k bs))"
    "rec_tail r = (if n = length (concat (take k bs)) then Clean
       else Truncated (length (concat (take k bs))) (n - length (concat (take k bs)))
         (tail_required (rec_tail r)))"
proof -
  have all: "\<forall>b \<in> set bs. 0 < length b"
    using assms(2) encoded_nonempty
    by (fastforce simp: written_def list_all2_conv_all_nth in_set_conv_nth)
  obtain k where k: "k < length bs" "length (concat (take k bs)) \<le> n"
    "n < length (concat (take (Suc k) bs))"
    using cut_position[OF all assms(4)] by blast
  have lens: "length fs = length bs" using assms(2) by (simp add: written_def list_all2_lengthD)
  have w: "written ser (take k fs) (take k bs)" "encode_frame ser (fs ! k) = Inr (bs ! k)"
    using assms(2) k(1) by (simp_all add: written_def list_all2_conv_all_nth)
  let ?l = "length (concat (take k bs))"
  have "concat bs = concat (take k bs) @ bs ! k @ concat (drop (Suc k) bs)"
    using k(1) by (metis concat.simps(2) concat_append id_take_nth_drop)
  moreover have lt: "n - ?l < length (bs ! k)"
    using k by (simp add: take_Suc_conv_app_nth)
  ultimately have cut: "take n (concat bs) = concat (take k bs) @ take (n - ?l) (bs ! k)"
    using k(2) by simp
  show ?thesis
  proof (cases "n = ?l")
    case True
    then have "take n (concat bs) = concat (take k bs)" using cut by simp
    with recover_complete[OF assms(1) w(1) chained_take[OF assms(3)]] True k lens that
    show ?thesis by simp
  next
    case False
    with k(2) have "0 < n - ?l" by simp
    from recover_torn[OF assms(1) w(1) chained_take[OF assms(3)] w(2) this lt]
    obtain req where "recover_prefix de (take n (concat bs))
      = Some \<lparr>rec_frames = take k fs, rec_valid_bytes = ?l, rec_tail = Truncated ?l (n - ?l) (Some req)\<rparr>"
      unfolding cut by blast
    with False k lens that show ?thesis by simp
  qed
qed

end
