(* ===== verification/Journal_Properties.thy ===== *)
theory Journal_Properties
  imports Journal_Recovery
begin

text \<open>
  Runtime records over the frames of the journal, and the properties of the journal
  (\<open>src/command_journal.rs\<close>). The JSON codec and the batch codec are parameters; the only fact
  assumed of them is that decoding inverts a successful encoding.
\<close>

section \<open>Runtime records\<close>

definition frame_for ::
  "(('c, 'tok, 'claim) command_batch \<Rightarrow> 'ce + 'v durable_batch) \<Rightarrow> ('c, 'tok, 'claim) journal_record
     \<Rightarrow> 'v journal_frame \<Rightarrow> bool" where
  "frame_for eb r f \<longleftrightarrow> record_validate r = Inr () \<and> jf_sequence f = jr_sequence r
     \<and> jf_base_revision f = jr_base_revision r \<and> jf_resulting_revision f = jr_resulting_revision r
     \<and> jf_operation f = operation_as_str (jr_operation r) \<and> eb (jr_batch r) = Inr (jf_batch f)"

lemma operation_roundtrip: "operation_parse (operation_as_str op) = Inr op"
  by (cases op) (simp_all add: operation_parse_def)

lemma encode_runtime_record_frame:
  assumes "encode_runtime_record ser eb r = Inr b"
  obtains f where "frame_for eb r f" "encode_frame ser f = Inr b"
proof -
  from assms obtain durable f0 where v: "record_validate r = Inr ()" "eb (jr_batch r) = Inr durable"
    and f0: "frame_new (jr_sequence r) (jr_base_revision r) (operation_as_str (jr_operation r)) durable = Inr f0"
    and enc: "encode_frame ser (f0\<lparr>jf_resulting_revision := jr_resulting_revision r\<rparr>) = Inr b"
    by (auto simp: encode_runtime_record_def map_sum_def split: sum.splits)
  from f0 have "jf_sequence f0 = jr_sequence r" "jf_base_revision f0 = jr_base_revision r"
    "jf_operation f0 = operation_as_str (jr_operation r)" "jf_batch f0 = durable"
    by (auto simp: frame_new_def result_simps Let_def)
  with v have "frame_for eb r (f0\<lparr>jf_resulting_revision := jr_resulting_revision r\<rparr>)"
    by (simp add: frame_for_def)
  from that[OF this enc] show thesis .
qed

lemma decode_frame_for:
  assumes "frame_for eb r f" "frame_validate f = Inr ()"
    and "\<And>b d. eb b = Inr d \<Longrightarrow> db d = Inr b"
  shows "decode_runtime_frame db f = Inr r"
proof -
  have "record_new (jr_sequence r) (jr_base_revision r) (jr_resulting_revision r) (jr_operation r)
      (jr_batch r) = Inr r"
    using assms(1) by (cases r) (simp add: record_new_def frame_for_def Let_def)
  moreover have "db (jf_batch f) = Inr (jr_batch r)"
    using assms(1) by (intro assms(3)) (simp add: frame_for_def)
  ultimately show ?thesis
    using assms(1,2) by (simp add: decode_runtime_frame_def frame_for_def operation_roundtrip)
qed

lemma encode_fold:
  assumes "fold_r (\<lambda>r encoded. map_sum id (\<lambda>bs. encoded @ bs) (encode_runtime_record ser eb r))
      records acc = Inr bytes"
  shows "\<exists>fs bs. bytes = acc @ concat bs \<and> written ser fs bs \<and> list_all2 (frame_for eb) records fs"
  using assms
proof (induction records arbitrary: acc)
  case (Cons r rs)
  obtain b where b: "encode_runtime_record ser eb r = Inr b"
    using Cons.prems by (cases "encode_runtime_record ser eb r") simp_all
  have "fold_r (\<lambda>r encoded. map_sum id (\<lambda>bs. encoded @ bs) (encode_runtime_record ser eb r))
      rs (acc @ b) = Inr bytes"
    using Cons.prems by (simp add: b id_def)
  from Cons.IH[OF this] obtain fs bs where "bytes = (acc @ b) @ concat bs" "written ser fs bs"
    "list_all2 (frame_for eb) rs fs" by blast
  moreover from b obtain f where "frame_for eb r f" "encode_frame ser f = Inr b"
    by (rule encode_runtime_record_frame)
  ultimately show ?case
    by (intro exI[of _ "f # fs"] exI[of _ "b # bs"]) (simp add: written_def)
qed (auto simp: written_def)

lemma check_windows_chained:
  assumes "check_windows records = Inr ()" "list_all2 (frame_for eb) records fs"
  shows "chained fs"
  using assms
proof (induction records arbitrary: fs rule: check_windows.induct)
  case (1 p n rs)
  then obtain f g gs where fs: "fs = f # g # gs" by (auto simp: list_all2_Cons1)
  with 1 have "chained (g # gs)" by (intro "1.IH") (auto simp: result_simps fail_if_def split: if_splits)
  moreover have "follows_frame f g"
    using "1.prems" by (auto simp: fs follows_frame_def frame_for_def result_simps checked_add_u64_def
        split: if_splits)
  ultimately show ?case by (simp add: fs)
qed (auto simp: list_all2_Cons1)

lemma runtime_records_roundtrip:
  assumes codec: "codec_ok ser de" and batch: "\<And>b d. eb b = Inr d \<Longrightarrow> db d = Inr b"
    and enc: "encode_runtime_records ser eb records = Inr bytes"
  shows "\<exists>rv. recover_prefix de bytes = Some rv \<and> is_complete rv
    \<and> list_all2 (\<lambda>f r. decode_runtime_frame db f = Inr r) (rec_frames rv) records"
proof -
  from enc have chain: "check_windows records = Inr ()"
    and fold: "fold_r (\<lambda>r encoded. map_sum id (\<lambda>bs. encoded @ bs) (encode_runtime_record ser eb r))
      records [] = Inr bytes"
    by (auto simp: encode_runtime_records_def validate_runtime_record_chain_def result_simps
        split: sum.splits)
  from encode_fold[OF fold] obtain fs bs where w: "bytes = concat bs" "written ser fs bs"
    "list_all2 (frame_for eb) records fs" by auto
  have "recover_prefix de bytes
      = Some \<lparr>rec_frames = fs, rec_valid_bytes = length (concat bs), rec_tail = Clean\<rparr>"
    unfolding w(1) by (rule recover_complete[OF codec w(2) check_windows_chained[OF chain w(3)]])
  moreover have "list_all2 (\<lambda>f r. decode_runtime_frame db f = Inr r) fs records"
    unfolding list_all2_conv_all_nth
  proof (intro conjI allI impI)
    show len: "length fs = length records" using w(3) by (simp add: list_all2_lengthD)
    fix i assume "i < length fs"
    then have "frame_for eb (records ! i) (fs ! i)" "encode_frame ser (fs ! i) = Inr (bs ! i)"
      using w(2,3) len by (simp_all add: written_def list_all2_conv_all_nth)
    moreover from this(2) have "frame_validate (fs ! i) = Inr ()"
      by (rule encode_frame_cases)
    ultimately show "decode_runtime_frame db (fs ! i) = Inr (records ! i)"
      using batch by (intro decode_frame_for)
  qed
  ultimately show ?thesis by (simp add: is_complete_def)
qed

section \<open>A concrete codec\<close>

text \<open>One frame and a codec that writes it as a single byte: enough to run the journal.\<close>

definition sample_batch :: "nat durable_batch" where
  "sample_batch = \<lparr>db_schema_version = 1, db_label = ''move'', db_coalesce = None,
     db_commands = [\<lparr>oc_domain = ''arrangement'', oc_kind = ''move'', oc_schema_version = 1,
       oc_payload = 0, oc_extensions = []\<rparr>], db_id_claims = [], db_extensions = []\<rparr>"

definition sample_frame :: "nat journal_frame" where
  "sample_frame = \<lparr>jf_frame_version = 1, jf_sequence = 1, jf_base_revision = 0,
     jf_resulting_revision = 1, jf_operation = ''execute'', jf_batch = sample_batch,
     jf_extensions = []\<rparr>"

definition sample_ser :: "nat journal_frame \<Rightarrow> unit + u8 list" where
  "sample_ser f = (if f = sample_frame then Inr [123] else Inl ())"

definition sample_de :: "u8 list \<Rightarrow> unit + nat journal_frame" where
  "sample_de b = (if b = [123] then Inr sample_frame else Inl ())"

lemma sample_codec: "codec_ok sample_ser sample_de"
  by (simp add: codec_ok_def sample_ser_def sample_de_def)

lemma sample_frame_valid: "frame_validate sample_frame = Inr ()"
  by (simp add: frame_validate_def sample_frame_def sample_batch_def check_revision_step_def
      checked_add_u64_def range_simps is_blank_def)

lemma sample_encoded: "encode_frame sample_ser sample_frame = Inr (frame_bytes [123])"
  by (simp add: encode_frame_def sample_frame_valid sample_ser_def default_max_frame_bytes_def)

lemma sample_written: "written sample_ser [sample_frame] [frame_bytes [123]]"
  by (simp add: written_def sample_encoded)

definition sample_record :: "(nat, unit, unit) journal_record" where
  "sample_record = \<lparr>jr_sequence = 1, jr_base_revision = 0, jr_resulting_revision = 1,
     jr_operation = Execute,
     jr_batch = \<lparr>cb_label = ''move'', cb_coalesce = None, cb_commands = [0], cb_id_claims = []\<rparr>\<rparr>"

definition sample_encode_batch :: "(nat, unit, unit) command_batch \<Rightarrow> unit + nat durable_batch" where
  "sample_encode_batch b = (if b = jr_batch sample_record then Inr sample_batch else Inl ())"

definition sample_decode_batch :: "nat durable_batch \<Rightarrow> unit + (nat, unit, unit) command_batch" where
  "sample_decode_batch d = (if d = sample_batch then Inr (jr_batch sample_record) else Inl ())"

lemma sample_record_encoded:
  "encode_runtime_records sample_ser sample_encode_batch [sample_record] = Inr (frame_bytes [123])"
proof -
  have valid: "record_validate sample_record = Inr ()"
    by (simp add: record_validate_def sample_record_def check_revision_step_def
        checked_add_u64_def range_simps is_blank_def)
  have frame: "frame_new (jr_sequence sample_record) (jr_base_revision sample_record)
      (operation_as_str (jr_operation sample_record)) sample_batch = Inr sample_frame"
    using sample_frame_valid
    by (simp add: frame_new_def sample_record_def checked_add_u64_def range_simps
        journal_frame_version_def sample_frame_def)
  have "sample_frame\<lparr>jf_resulting_revision := jr_resulting_revision sample_record\<rparr> = sample_frame"
    by (simp add: sample_frame_def sample_record_def)
  then show ?thesis
    using valid frame
    by (simp add: encode_runtime_records_def validate_runtime_record_chain_def
        encode_runtime_record_def sample_encode_batch_def sample_encoded)
qed

section \<open>Properties\<close>

text \<open>
  C8. Recovery of arbitrary bytes, whatever the codec does with a payload, returns: no slice of
  it is outside the input (a panic), the frames it returns are valid and their sequence
  numbers and revisions continue each other, the offset it reports is inside the input, and
  truncating the file there leaves a journal that recovers cleanly to the same frames.
\<close>

theorem recovery_of_any_bytes:
  "\<exists>r. recover_prefix de bytes = Some r
    \<and> valid_frames (rec_frames r)
    \<and> rec_valid_bytes r \<le> length bytes
    \<and> recover_prefix de (take (rec_valid_bytes r) bytes) = Some (r\<lparr>rec_tail := Clean\<rparr>)"
proof -
  obtain r where r: "recover_from de bytes default_max_frame_bytes 0 [] = Some r"
    using recover_from_total by blast
  show ?thesis
    using recover_from_valid[OF _ r] recover_from_range[OF _ r] recover_from_cut[OF _ r] r
    by (simp add: recover_prefix_def recover_prefix_with_limit_def valid_frames_def)
qed

text \<open>
  C9. A journal the encoder wrote, cut at any byte (a crash in the middle of a write), recovers
  exactly the frames that had been written completely, and nothing is lost of them.
\<close>

theorem recovery_after_any_cut:
  assumes "codec_ok ser de" "written ser fs bs" "chained fs" "n < length (concat bs)"
  shows "\<exists>k r. k < length fs \<and> length (concat (take k bs)) \<le> n \<and> n < length (concat (take (Suc k) bs))
    \<and> recover_prefix de (take n (concat bs)) = Some r
    \<and> rec_frames r = take k fs
    \<and> rec_valid_bytes r = length (concat (take k bs))"
  using recover_cut_anywhere[OF assms] by metis

lemma recovery_after_any_cut_witness:
  "\<exists>r. recover_prefix sample_de (take 32 (frame_bytes [123])) = Some r \<and> rec_frames r = []"
proof -
  have "(32::nat) < length (concat [frame_bytes [123]])"
    by (simp add: length_frame_bytes header_len_def)
  from recovery_after_any_cut[OF sample_codec sample_written _ this] show ?thesis by auto
qed

text \<open>
  A complete journal round-trips: recovery is clean and returns the frames that were
  written, in order.
\<close>

theorem journal_roundtrip:
  assumes "codec_ok ser de" "written ser fs bs" "chained fs"
  shows "\<exists>r. recover_prefix de (concat bs) = Some r \<and> is_complete r \<and> rec_frames r = fs
    \<and> rec_valid_bytes r = length (concat bs)"
  using recover_complete[OF assms] by (simp add: is_complete_def)

lemma journal_roundtrip_witness:
  "\<exists>r. recover_prefix sample_de (frame_bytes [123]) = Some r \<and> rec_frames r = [sample_frame]"
  using journal_roundtrip[OF sample_codec sample_written] by auto

text \<open>
  Every chain of runtime records that \<open>encode_runtime_records\<close> accepts is recovered cleanly,
  and decoding the recovered frames gives back the records.
\<close>

theorem runtime_record_roundtrip:
  assumes "codec_ok ser de" "\<And>b d. eb b = Inr d \<Longrightarrow> db d = Inr b"
    and "encode_runtime_records ser eb records = Inr bytes"
  shows "\<exists>rv. recover_prefix de bytes = Some rv \<and> is_complete rv
    \<and> list_all2 (\<lambda>f r. decode_runtime_frame db f = Inr r) (rec_frames rv) records"
  by (rule runtime_records_roundtrip[OF assms(1) _ assms(3)]) (rule assms(2))

lemma runtime_record_roundtrip_witness:
  "\<exists>rv. recover_prefix sample_de (frame_bytes [123]) = Some rv
     \<and> list_all2 (\<lambda>f r. decode_runtime_frame sample_decode_batch f = Inr r) (rec_frames rv) [sample_record]"
proof -
  have "\<exists>rv. recover_prefix sample_de (frame_bytes [123]) = Some rv \<and> is_complete rv
    \<and> list_all2 (\<lambda>f r. decode_runtime_frame sample_decode_batch f = Inr r) (rec_frames rv) [sample_record]"
    by (rule runtime_record_roundtrip[OF sample_codec _ sample_record_encoded])
      (auto simp: sample_encode_batch_def sample_decode_batch_def split: if_splits)
  then show ?thesis by blast
qed

end
