(* ===== verification/Task_Types.thy ===== *)
theory Task_Types
  imports Ordered_Map Bytes "HOL-Library.Char_ord" "HOL-Library.List_Lexorder"
    "HOL-Library.Product_Lexorder"
begin

text \<open>
  The data of \<open>src/task_coordinator.rs\<close>: identifiers and scopes, canonical recipe keys,
  resource classes and priorities with their derived orders, the configuration with its
  validation, progress reports and the values that cross the interface of the coordinator.
\<close>

datatype task_tag = TaskTag
datatype flight_tag = FlightTag
datatype session_tag = SessionTag
datatype pane_tag = PaneTag
datatype owner_tag = OwnerTag

type_synonym task_id = "task_tag typed_id"
type_synonym flight_id = "flight_tag typed_id"
type_synonym task_session = "session_tag typed_id"
type_synonym pane_id = "pane_tag typed_id"
type_synonym task_owner = "owner_tag typed_id"
type_synonym generation = nat
type_synonym task_instant = nat

datatype pane_scope = SessionScope | Pane pane_id

record task_scope =
  sc_session :: task_session
  sc_pane :: pane_scope

record owner_scope =
  os_owner :: task_owner
  os_scope :: task_scope

section \<open>Recipe keys\<close>

datatype recipe_key = RecipeKey (rk_domain: string) (rk_schema_revision: nat) (rk_digest: "u8 list")

datatype recipe_key_error = EmptyDomain | ZeroSchemaRevision

definition recipe_key_new :: "string \<Rightarrow> nat \<Rightarrow> u8 list \<Rightarrow> recipe_key_error + recipe_key" where
  "recipe_key_new domain revision digest =
     (if is_blank domain then Inl EmptyDomain
      else if revision = 0 then Inl ZeroSchemaRevision
      else Inr (RecipeKey domain revision digest))"

text \<open>The derived order compares the fields in their order of declaration.\<close>

definition recipe_fields :: "recipe_key \<Rightarrow> string \<times> nat \<times> u8 list" where
  "recipe_fields k = (rk_domain k, rk_schema_revision k, rk_digest k)"

lemma recipe_fields_inj: "recipe_fields a = recipe_fields b \<Longrightarrow> a = b"
  by (cases a; cases b) (simp add: recipe_fields_def)

instantiation recipe_key :: linorder
begin

definition less_eq_recipe_key :: "recipe_key \<Rightarrow> recipe_key \<Rightarrow> bool" where
  "less_eq_recipe_key a b \<longleftrightarrow> recipe_fields a \<le> recipe_fields b"

definition less_recipe_key :: "recipe_key \<Rightarrow> recipe_key \<Rightarrow> bool" where
  "less_recipe_key a b \<longleftrightarrow> recipe_fields a < recipe_fields b"

instance
  by standard (auto simp: less_eq_recipe_key_def less_recipe_key_def intro: recipe_fields_inj)

end

section \<open>Resources and priorities\<close>

datatype resource_class =
  Control | Io | Cpu | Render | ModelWorker | PluginWorker | Gpu | Custom nat

text \<open>The derived order: the variants in their order of declaration, then the payload.\<close>

fun resource_rank :: "resource_class \<Rightarrow> nat" where
  "resource_rank Control = 0"
| "resource_rank Io = 1"
| "resource_rank Cpu = 2"
| "resource_rank Render = 3"
| "resource_rank ModelWorker = 4"
| "resource_rank PluginWorker = 5"
| "resource_rank Gpu = 6"
| "resource_rank (Custom n) = 7 + n"

lemma resource_rank_inj: "resource_rank a = resource_rank b \<Longrightarrow> a = b"
  by (cases a; cases b) simp_all

instantiation resource_class :: linorder
begin

definition less_eq_resource_class :: "resource_class \<Rightarrow> resource_class \<Rightarrow> bool" where
  "less_eq_resource_class a b \<longleftrightarrow> resource_rank a \<le> resource_rank b"

definition less_resource_class :: "resource_class \<Rightarrow> resource_class \<Rightarrow> bool" where
  "less_resource_class a b \<longleftrightarrow> resource_rank a < resource_rank b"

instance
  by standard (auto simp: less_eq_resource_class_def less_resource_class_def intro: resource_rank_inj)

end

datatype task_priority = Maintenance | Background | Foreground | Interactive

fun priority_rank :: "task_priority \<Rightarrow> nat" where
  "priority_rank Maintenance = 0"
| "priority_rank Background = 1"
| "priority_rank Foreground = 2"
| "priority_rank Interactive = 3"

lemma priority_rank_inj: "priority_rank a = priority_rank b \<Longrightarrow> a = b"
  by (cases a; cases b) simp_all

instantiation task_priority :: linorder
begin

definition less_eq_task_priority :: "task_priority \<Rightarrow> task_priority \<Rightarrow> bool" where
  "less_eq_task_priority a b \<longleftrightarrow> priority_rank a \<le> priority_rank b"

definition less_task_priority :: "task_priority \<Rightarrow> task_priority \<Rightarrow> bool" where
  "less_task_priority a b \<longleftrightarrow> priority_rank a < priority_rank b"

instance
  by standard (auto simp: less_eq_task_priority_def less_task_priority_def intro: priority_rank_inj)

end

section \<open>Specifications and configuration\<close>

record task_spec =
  sp_owner :: owner_scope
  sp_generation :: generation
  sp_recipe :: recipe_key
  sp_resource :: resource_class
  sp_priority :: task_priority
  sp_deadline :: "task_instant option"

record coordinator_config =
  maximum_active_tasks :: nat
  maximum_queued_flights :: nat
  maximum_subscribers_per_flight :: nat
  maximum_diagnostics_per_task :: nat
  maximum_terminal_snapshots :: nat
  resource_limits :: "(resource_class, nat) btree"

definition config_default :: coordinator_config where
  "config_default =
     \<lparr>maximum_active_tasks = 256, maximum_queued_flights = 128,
      maximum_subscribers_per_flight = 32, maximum_diagnostics_per_task = 64,
      maximum_terminal_snapshots = 256,
      resource_limits = fold (\<lambda>(r, n). bt_insert r n)
        [(Control, 1), (Io, 2), (Cpu, 2), (Render, 2), (ModelWorker, 1), (PluginWorker, 1), (Gpu, 1)] []\<rparr>"

datatype config_error = ZeroLimit string | ZeroResourceLimit

definition config_validate :: "coordinator_config \<Rightarrow> config_error + unit" where
  "config_validate c =
     (if maximum_active_tasks c = 0 then Inl (ZeroLimit ''maximum_active_tasks'')
      else if maximum_queued_flights c = 0 then Inl (ZeroLimit ''maximum_queued_flights'')
      else if maximum_subscribers_per_flight c = 0
        then Inl (ZeroLimit ''maximum_subscribers_per_flight'')
      else if maximum_diagnostics_per_task c = 0
        then Inl (ZeroLimit ''maximum_diagnostics_per_task'')
      else if maximum_terminal_snapshots c = 0 then Inl (ZeroLimit ''maximum_terminal_snapshots'')
      else if list_ex (\<lambda>l. l = 0) (bt_values (resource_limits c)) then Inl ZeroResourceLimit
      else Inr ())"

lemma config_validate_iff:
  "config_validate c = Inr u \<longleftrightarrow> 0 < maximum_active_tasks c \<and> 0 < maximum_queued_flights c
     \<and> 0 < maximum_subscribers_per_flight c \<and> 0 < maximum_diagnostics_per_task c
     \<and> 0 < maximum_terminal_snapshots c \<and> (\<forall>l \<in> set (bt_values (resource_limits c)). 0 < l)"
  by (auto simp: config_validate_def list_ex_iff intro: gr0I)

lemma config_default_valid: "config_validate config_default = Inr ()"
  by (simp add: config_validate_iff config_default_def less_resource_class_def bt_values_def)

section \<open>Progress\<close>

record task_progress =
  pg_phase :: string
  pg_phase_index :: nat
  pg_phase_count :: nat
  pg_completed_units :: nat
  pg_total_units :: nat

datatype progress_error = EmptyPhase | InvalidPhaseIndex | InvalidUnits | Regression

definition progress_validate :: "task_progress \<Rightarrow> progress_error + unit" where
  "progress_validate p =
     (if is_blank (pg_phase p) then Inl EmptyPhase
      else if pg_phase_count p = 0 \<or> pg_phase_count p \<le> pg_phase_index p
        then Inl InvalidPhaseIndex
      else if pg_total_units p = 0 \<or> pg_total_units p < pg_completed_units p
        then Inl InvalidUnits
      else Inr ())"

text \<open>
  \<open>parts_per_million\<close> divides \<open>u128\<close> values, which panics on a zero divisor (here \<open>None\<close>), and
  truncates the quotient to \<open>u32\<close>. Its products stay below \<open>2 ^ 84\<close>, so they cannot overflow.
\<close>

definition parts_per_million :: "task_progress \<Rightarrow> nat option" where
  "parts_per_million p =
     (if pg_total_units p = 0 \<or> pg_phase_count p = 0 then None
      else let phase_fraction = pg_completed_units p * 1000000 div pg_total_units p
        in Some (((pg_phase_index p * 1000000 + phase_fraction) div pg_phase_count p) mod 2 ^ 32))"

definition progress_follows :: "task_progress \<Rightarrow> task_progress \<Rightarrow> bool" where
  "progress_follows p previous \<longleftrightarrow>
     (if pg_phase_index previous < pg_phase_index p then True
      else pg_phase_index p = pg_phase_index previous \<and> pg_phase p = pg_phase previous
        \<and> pg_phase_count p = pg_phase_count previous \<and> pg_total_units p = pg_total_units previous
        \<and> pg_completed_units previous \<le> pg_completed_units p)"

lemma progress_validate_iff:
  "progress_validate p = Inr u \<longleftrightarrow> \<not> is_blank (pg_phase p)
     \<and> pg_phase_index p < pg_phase_count p
     \<and> 0 < pg_total_units p \<and> pg_completed_units p \<le> pg_total_units p"
  by (auto simp: progress_validate_def)

lemma phase_fraction_bound:
  "0 < t \<Longrightarrow> c \<le> t \<Longrightarrow> c * 1000000 div t \<le> (1000000::nat)"
  by (metis div_le_mono mult.commute mult_le_mono2 nonzero_mult_div_cancel_left not_gr_zero)

lemma weighted_le:
  assumes "i < j" "f \<le> (1000000::nat)"
  shows "i * 1000000 + f \<le> j * 1000000 + g"
proof -
  from assms(1) have "Suc i * 1000000 \<le> j * 1000000" by (intro mult_le_mono1) simp
  with assms(2) show ?thesis by simp
qed

lemma overall_bound:
  assumes "i < n" "f \<le> (1000000::nat)"
  shows "(i * 1000000 + f) div n \<le> 1000000"
proof -
  have "(i * 1000000 + f) div n \<le> n * 1000000 div n"
    using weighted_le[OF assms, of 0] by (intro div_le_mono) simp
  with assms(1) show ?thesis by simp
qed

lemma parts_per_million_valid:
  assumes "progress_validate p = Inr ()"
  shows "parts_per_million p = Some ((pg_phase_index p * 1000000
           + pg_completed_units p * 1000000 div pg_total_units p) div pg_phase_count p)"
    and "(pg_phase_index p * 1000000
           + pg_completed_units p * 1000000 div pg_total_units p) div pg_phase_count p \<le> 1000000"
proof -
  have v: "pg_phase_index p < pg_phase_count p" "0 < pg_total_units p"
    "pg_completed_units p \<le> pg_total_units p"
    using assms by (simp_all add: progress_validate_iff)
  show le: "(pg_phase_index p * 1000000
      + pg_completed_units p * 1000000 div pg_total_units p) div pg_phase_count p \<le> 1000000"
    by (rule overall_bound[OF v(1) phase_fraction_bound[OF v(2,3)]])
  then show "parts_per_million p = Some ((pg_phase_index p * 1000000
      + pg_completed_units p * 1000000 div pg_total_units p) div pg_phase_count p)"
    using v by (simp add: parts_per_million_def Let_def)
qed

lemma parts_per_million_mono:
  assumes p: "progress_validate p = Inr ()" and q: "progress_validate q = Inr ()"
    and "progress_follows q p" "pg_phase_count q = pg_phase_count p"
  shows "\<exists>a b. parts_per_million p = Some a \<and> parts_per_million q = Some b \<and> a \<le> b"
proof -
  have frac: "pg_completed_units p * 1000000 div pg_total_units p \<le> 1000000"
    using p by (intro phase_fraction_bound) (simp_all add: progress_validate_iff)
  have "pg_phase_index p * 1000000 + pg_completed_units p * 1000000 div pg_total_units p
    \<le> pg_phase_index q * 1000000 + pg_completed_units q * 1000000 div pg_total_units q"
  proof (cases "pg_phase_index p < pg_phase_index q")
    case True
    then show ?thesis using frac by (rule weighted_le)
  next
    case False
    with assms(3) show ?thesis
      by (simp add: progress_follows_def div_le_mono split: if_splits)
  qed
  then show ?thesis
    using parts_per_million_valid[OF p] parts_per_million_valid[OF q] assms(4)
    by (simp add: div_le_mono)
qed

section \<open>Values of the interface\<close>

datatype diagnostic_severity = Info | Warning | Error

record task_diagnostic =
  dg_severity :: diagnostic_severity
  dg_code :: string
  dg_detail :: string

datatype cancellation_reason = Requested | Superseded | SessionAdvanced | DeadlineExceeded

datatype task_state =
  Queued | Running | Cancelling cancellation_reason | Succeeded | Failed | Cancelled | Rejected

record task_snapshot =
  ts_id :: task_id
  ts_flight :: flight_id
  ts_spec :: task_spec
  ts_state :: task_state
  ts_progress :: "task_progress option"
  ts_diagnostics :: "task_diagnostic list"
  ts_dropped_diagnostics :: nat

record submission =
  sb_task :: task_id
  sb_flight :: flight_id
  sb_joined_existing_flight :: bool

text \<open>
  The cancellation handle of a dispatch shares one flag with the flight; it is represented by
  the flight's identifier, through which \<open>flight_is_cancelled\<close> reads that flag.
\<close>

record task_dispatch =
  td_flight :: flight_id
  td_representative_task :: task_id
  td_recipe :: recipe_key
  td_resource :: resource_class
  td_cancellation :: flight_id

datatype completion_outcome =
  OutSucceeded "recipe_key option" | OutFailed string string | OutCancelled

record completion_report =
  cr_outcome :: completion_outcome
  cr_diagnostics :: "task_diagnostic list"

record completion_receipt =
  rc_task :: task_id
  rc_flight :: flight_id
  rc_owner :: owner_scope
  rc_captured_generation :: generation
  rc_recipe :: recipe_key
  rc_resource :: resource_class
  rc_deadline :: "task_instant option"
  rc_completed_at :: task_instant
  rc_outcome :: completion_outcome

datatype completion_rejection =
    RejectCancelled cancellation_reason
  | RejectStaleGeneration (rj_captured: generation) (rj_current: generation)
  | RejectSessionClosed
  | RejectDeadlineExceeded

record rejected_completion =
  rj_receipt :: completion_receipt
  rj_reason :: completion_rejection

record completion_batch =
  cb_accepted :: "completion_receipt list"
  cb_rejected :: "rejected_completion list"

datatype admission_error =
    UnknownSession task_session
  | StaleSubmission generation generation
  | ActiveTaskLimit
  | QueuedFlightLimit
  | SubscriberLimit flight_id
  | ResourceUnavailable resource_class
  | FlightCancelling flight_id
  | DeadlineAlreadyElapsed

datatype coordinator_error =
    UnknownTask task_id
  | UnknownFlight flight_id
  | FlightNotRunning flight_id
  | Progress progress_error
  | SessionGenerationRegression task_session generation generation

end
