(* ===== verification/Task_Coordinator.thy ===== *)
theory Task_Coordinator
  imports Task_Types
begin

text \<open>
  The operations of \<open>TaskCoordinator\<close> (\<open>src/task_coordinator.rs\<close>), each as a function from the
  coordinator to its result and the new coordinator. \<open>None\<close> is a panic: an \<open>expect\<close> or an
  indexing of a map that finds nothing. The cancellation flag of a flight, shared with the
  executor through an \<open>Arc\<close>, is a field of the flight; only the coordinator sets it.
\<close>

section \<open>State\<close>

text \<open>\<open>SingleFlightKey\<close> is the pair of resource and recipe, ordered field by field.\<close>

type_synonym single_flight_key = "resource_class \<times> recipe_key"

datatype flight_state = FlightQueued | FlightRunning

record flight_record =
  fl_id :: flight_id
  fl_key :: single_flight_key
  fl_state :: flight_state
  fl_submitted_at :: task_instant
  fl_subscribers :: "task_id list"
  fl_cancelled :: bool

fun is_cancelling :: "task_state \<Rightarrow> bool" where
  "is_cancelling (Cancelling _) = True"
| "is_cancelling _ = False"

definition is_eligible :: "task_snapshot \<Rightarrow> bool" where
  "is_eligible t \<longleftrightarrow> \<not> is_cancelling (ts_state t)"

record task_coordinator =
  tc_config :: coordinator_config
  tc_next_task :: nat
  tc_next_flight :: nat
  tc_sessions :: "(task_session, generation) btree"
  tc_tasks :: "(task_id, task_snapshot) btree"
  tc_flights :: "(flight_id, flight_record) btree"
  tc_single_flights :: "(single_flight_key, flight_id) btree"
  tc_running_by_resource :: "(resource_class, nat) btree"
  tc_terminal :: "task_snapshot list"

definition coordinator_new :: "coordinator_config \<Rightarrow> config_error + task_coordinator" where
  "coordinator_new config =
     then_r (config_validate config)
       (Inr \<lparr>tc_config = config, tc_next_task = 1, tc_next_flight = 1, tc_sessions = [],
          tc_tasks = [], tc_flights = [], tc_single_flights = [], tc_running_by_resource = [],
          tc_terminal = []\<rparr>)"

section \<open>Queries\<close>

definition task_eligible :: "task_coordinator \<Rightarrow> task_id \<Rightarrow> bool" where
  "task_eligible c i = (case bt_get (tc_tasks c) i of None \<Rightarrow> False | Some t \<Rightarrow> is_eligible t)"

definition any_eligible :: "task_coordinator \<Rightarrow> flight_record \<Rightarrow> bool" where
  "any_eligible c f \<longleftrightarrow> list_ex (task_eligible c) (fl_subscribers f)"

definition task_query :: "task_id \<Rightarrow> task_coordinator \<Rightarrow> task_snapshot option" where
  "task_query i c =
     (case bt_get (tc_tasks c) i of
        Some t \<Rightarrow> Some t
      | None \<Rightarrow> find (\<lambda>t. ts_id t = i) (tc_terminal c))"

definition active_task_count :: "task_coordinator \<Rightarrow> nat" where
  "active_task_count c = length (tc_tasks c)"

definition queued_flight_count :: "task_coordinator \<Rightarrow> nat" where
  "queued_flight_count c = length (filter (\<lambda>f. fl_state f = FlightQueued) (bt_values (tc_flights c)))"

definition running_flight_count :: "resource_class \<Rightarrow> task_coordinator \<Rightarrow> nat" where
  "running_flight_count r c = (case bt_get (tc_running_by_resource c) r of None \<Rightarrow> 0 | Some n \<Rightarrow> n)"

definition flight_is_cancelled :: "flight_id \<Rightarrow> task_coordinator \<Rightarrow> bool option" where
  "flight_is_cancelled j c = map_option fl_cancelled (bt_get (tc_flights c) j)"

definition resource_has_capacity :: "resource_class \<Rightarrow> task_coordinator \<Rightarrow> bool" where
  "resource_has_capacity r c =
     (case bt_get (resource_limits (tc_config c)) r of
        None \<Rightarrow> False
      | Some limit \<Rightarrow> running_flight_count r c < limit)"

definition deadline_elapsed :: "task_instant option \<Rightarrow> task_instant \<Rightarrow> bool" where
  "deadline_elapsed d now = (case d of None \<Rightarrow> False | Some deadline \<Rightarrow> deadline \<le> now)"

section \<open>Cancelling and retiring\<close>

definition mark_cancelling ::
  "task_id \<Rightarrow> cancellation_reason \<Rightarrow> task_coordinator \<Rightarrow> bool \<times> task_coordinator" where
  "mark_cancelling i reason c =
     (case bt_get (tc_tasks c) i of
        None \<Rightarrow> (False, c)
      | Some t \<Rightarrow>
          if is_cancelling (ts_state t) then (False, c)
          else (True, c\<lparr>tc_tasks := bt_modify i (\<lambda>t. t\<lparr>ts_state := Cancelling reason\<rparr>) (tc_tasks c)\<rparr>))"

text \<open>The loops that collect the identifiers of some tasks and then cancel each of them.\<close>

definition tasks_with :: "(task_snapshot \<Rightarrow> bool) \<Rightarrow> task_coordinator \<Rightarrow> task_id list" where
  "tasks_with p c = map fst (filter (\<lambda>(i, t). p t) (tc_tasks c))"

definition mark_all :: "cancellation_reason \<Rightarrow> task_id list \<Rightarrow> task_coordinator \<Rightarrow> task_coordinator" where
  "mark_all reason ids c = fold (\<lambda>i c. snd (mark_cancelling i reason c)) ids c"

definition unindex :: "single_flight_key \<Rightarrow> flight_id \<Rightarrow> (single_flight_key, flight_id) btree
    \<Rightarrow> (single_flight_key, flight_id) btree" where
  "unindex key j m = (if bt_get m key = Some j then bt_remove key m else m)"

definition cancel_unobserved_flights :: "task_coordinator \<Rightarrow> task_coordinator" where
  "cancel_unobserved_flights c =
     (let no_longer_shareable = filter (\<lambda>f. \<not> any_eligible c f) (bt_values (tc_flights c))
      in c\<lparr>tc_flights := bt_map (\<lambda>_ f. if any_eligible c f then f else f\<lparr>fl_cancelled := True\<rparr>)
             (tc_flights c),
           tc_single_flights := fold (\<lambda>f. unindex (fl_key f) (fl_id f)) no_longer_shareable
             (tc_single_flights c)\<rparr>)"

definition retire_task :: "task_id \<Rightarrow> task_state \<Rightarrow> task_coordinator \<Rightarrow> task_coordinator" where
  "retire_task i state c =
     (case bt_get (tc_tasks c) i of
        None \<Rightarrow> c
      | Some t \<Rightarrow>
          let entries = tc_terminal c @ [t\<lparr>ts_state := state\<rparr>]
          in c\<lparr>tc_tasks := bt_remove i (tc_tasks c),
               tc_terminal := drop (length entries - maximum_terminal_snapshots (tc_config c)) entries\<rparr>)"

definition remove_flight :: "flight_id \<Rightarrow> task_coordinator \<Rightarrow> task_coordinator" where
  "remove_flight j c =
     (case bt_get (tc_flights c) j of
        None \<Rightarrow> c
      | Some f \<Rightarrow>
          c\<lparr>tc_flights := bt_remove j (tc_flights c),
            tc_single_flights := unindex (fl_key f) j (tc_single_flights c),
            tc_running_by_resource :=
              (if fl_state f = FlightRunning
               then bt_modify (fst (fl_key f)) (\<lambda>n. n - 1) (tc_running_by_resource c)
               else tc_running_by_resource c)\<rparr>)"

definition abandoned_state :: "task_coordinator \<Rightarrow> task_id \<Rightarrow> task_state" where
  "abandoned_state c i =
     (case map_option ts_state (bt_get (tc_tasks c) i) of
        Some (Cancelling DeadlineExceeded) \<Rightarrow> Rejected
      | _ \<Rightarrow> Cancelled)"

definition retire_abandoned_flight :: "flight_id \<Rightarrow> task_coordinator \<Rightarrow> task_coordinator option" where
  "retire_abandoned_flight j c =
     (case bt_get (tc_flights c) j of
        None \<Rightarrow> None
      | Some f \<Rightarrow>
          Some (remove_flight j
            (fold (\<lambda>i c. retire_task i (abandoned_state c i) c) (fl_subscribers f) c)))"

fun fold_option :: "('a \<Rightarrow> 's \<Rightarrow> 's option) \<Rightarrow> 'a list \<Rightarrow> 's \<Rightarrow> 's option" where
  "fold_option f [] s = Some s"
| "fold_option f (x # xs) s = (case f x s of None \<Rightarrow> None | Some s' \<Rightarrow> fold_option f xs s')"

definition retire_abandoned_queued_flights :: "task_coordinator \<Rightarrow> task_coordinator option" where
  "retire_abandoned_queued_flights c =
     (let abandoned = map fl_id (filter (\<lambda>f. fl_state f = FlightQueued \<and> \<not> any_eligible c f)
            (bt_values (tc_flights c)))
      in fold_option retire_abandoned_flight abandoned c)"

definition expire :: "task_instant \<Rightarrow> task_coordinator \<Rightarrow> task_coordinator option" where
  "expire now c =
     (let expired = tasks_with (\<lambda>t. is_eligible t \<and> deadline_elapsed (sp_deadline (ts_spec t)) now) c
      in retire_abandoned_queued_flights
           (cancel_unobserved_flights (mark_all DeadlineExceeded expired c)))"

section \<open>Sessions\<close>

definition task_session_of :: "task_snapshot \<Rightarrow> task_session" where
  "task_session_of t = sc_session (os_scope (sp_owner (ts_spec t)))"

definition observe_session ::
  "task_session \<Rightarrow> generation \<Rightarrow> task_coordinator \<Rightarrow> (coordinator_error + unit) \<times> task_coordinator" where
  "observe_session session g c =
     (let advance = (let c = c\<lparr>tc_sessions := bt_insert session g (tc_sessions c)\<rparr>;
              affected = tasks_with (\<lambda>t. task_session_of t = session
                \<and> sp_generation (ts_spec t) \<noteq> g) c
            in (Inr (), cancel_unobserved_flights (mark_all SessionAdvanced affected c)))
      in case bt_get (tc_sessions c) session of
        None \<Rightarrow> advance
      | Some previous \<Rightarrow>
          if g < previous then (Inl (SessionGenerationRegression session previous g), c)
          else if g = previous then (Inr (), c)
          else advance)"

definition close_session :: "task_session \<Rightarrow> task_coordinator \<Rightarrow> task_coordinator" where
  "close_session session c =
     (let c = c\<lparr>tc_sessions := bt_remove session (tc_sessions c)\<rparr>;
          affected = tasks_with (\<lambda>t. task_session_of t = session) c
      in cancel_unobserved_flights (mark_all SessionAdvanced affected c))"

section \<open>Admission\<close>

definition check_active_capacity_for ::
  "task_spec \<Rightarrow> task_coordinator \<Rightarrow> admission_error + unit" where
  "check_active_capacity_for spec c =
     (let supersedable = length (filter (\<lambda>t. sp_owner (ts_spec t) = sp_owner spec
            \<and> sp_generation (ts_spec t) < sp_generation spec) (bt_values (tc_tasks c)))
      in fail_if (maximum_active_tasks (tc_config c) \<le> length (tc_tasks c) - supersedable)
           ActiveTaskLimit)"

definition supersede_older :: "task_spec \<Rightarrow> task_id \<Rightarrow> task_coordinator \<Rightarrow> task_coordinator" where
  "supersede_older spec except c =
     (let older = map fst (filter (\<lambda>(i, t). i \<noteq> except \<and> sp_owner (ts_spec t) = sp_owner spec
            \<and> sp_generation (ts_spec t) < sp_generation spec) (tc_tasks c))
      in cancel_unobserved_flights (mark_all Superseded older c))"

definition allocate_task :: "task_coordinator \<Rightarrow> task_id \<times> task_coordinator" where
  "allocate_task c = (Id (tc_next_task c), c\<lparr>tc_next_task := sat_add_u64 (tc_next_task c) 1\<rparr>)"

definition allocate_flight :: "task_coordinator \<Rightarrow> flight_id \<times> task_coordinator" where
  "allocate_flight c = (Id (tc_next_flight c), c\<lparr>tc_next_flight := sat_add_u64 (tc_next_flight c) 1\<rparr>)"

definition new_snapshot :: "task_id \<Rightarrow> flight_id \<Rightarrow> task_spec \<Rightarrow> flight_state \<Rightarrow> task_snapshot" where
  "new_snapshot i j spec st =
     \<lparr>ts_id = i, ts_flight = j, ts_spec = spec,
      ts_state = (case st of FlightQueued \<Rightarrow> Queued | FlightRunning \<Rightarrow> Running),
      ts_progress = None, ts_diagnostics = [], ts_dropped_diagnostics = 0\<rparr>"

text \<open>The subscriber of a flight that already asked for this work, if any.\<close>

definition existing_subscriber :: "task_spec \<Rightarrow> flight_record \<Rightarrow> task_coordinator \<Rightarrow> task_id option" where
  "existing_subscriber spec f c =
     find (\<lambda>i. case bt_get (tc_tasks c) i of
         None \<Rightarrow> False
       | Some t \<Rightarrow> sp_owner (ts_spec t) = sp_owner spec
           \<and> sp_generation (ts_spec t) = sp_generation spec)
       (fl_subscribers f)"

definition join_flight ::
  "task_spec \<Rightarrow> flight_id \<Rightarrow> flight_record \<Rightarrow> task_coordinator
     \<Rightarrow> (admission_error + submission) \<times> task_coordinator" where
  "join_flight spec j f c =
     (if fl_cancelled f \<or> \<not> any_eligible c f then (Inl (FlightCancelling j), c)
      else case existing_subscriber spec f c of
        Some existing \<Rightarrow>
          (Inr \<lparr>sb_task = existing, sb_flight = j, sb_joined_existing_flight = True\<rparr>, c)
      | None \<Rightarrow>
          if maximum_subscribers_per_flight (tc_config c) \<le> length (fl_subscribers f)
          then (Inl (SubscriberLimit j), c)
          else case check_active_capacity_for spec c of
            Inl e \<Rightarrow> (Inl e, c)
          | Inr _ \<Rightarrow>
              let (i, c) = allocate_task c;
                  c = c\<lparr>tc_tasks := bt_insert i (new_snapshot i j spec (fl_state f)) (tc_tasks c)\<rparr>;
                  c = c\<lparr>tc_flights := bt_modify j
                    (\<lambda>f. f\<lparr>fl_subscribers := fl_subscribers f @ [i]\<rparr>) (tc_flights c)\<rparr>
              in (Inr \<lparr>sb_task = i, sb_flight = j, sb_joined_existing_flight = True\<rparr>,
                  supersede_older spec i c))"

definition start_flight ::
  "task_spec \<Rightarrow> task_instant \<Rightarrow> task_coordinator
     \<Rightarrow> (admission_error + submission) \<times> task_coordinator" where
  "start_flight spec now c =
     (case check_active_capacity_for spec c of
        Inl e \<Rightarrow> (Inl e, c)
      | Inr _ \<Rightarrow>
          if maximum_queued_flights (tc_config c) \<le> queued_flight_count c
          then (Inl QueuedFlightLimit, c)
          else
            let key = (sp_resource spec, sp_recipe spec);
                (i, c) = allocate_task c;
                (j, c) = allocate_flight c;
                c = c\<lparr>tc_tasks := bt_insert i (new_snapshot i j spec FlightQueued) (tc_tasks c)\<rparr>;
                c = c\<lparr>tc_flights := bt_insert j
                  \<lparr>fl_id = j, fl_key = key, fl_state = FlightQueued, fl_submitted_at = now,
                   fl_subscribers = [i], fl_cancelled = False\<rparr> (tc_flights c)\<rparr>;
                c = c\<lparr>tc_single_flights := bt_insert key j (tc_single_flights c)\<rparr>
            in (Inr \<lparr>sb_task = i, sb_flight = j, sb_joined_existing_flight = False\<rparr>,
                supersede_older spec i c))"

definition submit ::
  "task_spec \<Rightarrow> task_instant \<Rightarrow> task_coordinator
     \<Rightarrow> ((admission_error + submission) \<times> task_coordinator) option" where
  "submit spec now c =
     Option.bind (expire now c) (\<lambda>c.
       let session = sc_session (os_scope (sp_owner spec)) in
       case bt_get (tc_sessions c) session of
         None \<Rightarrow> Some (Inl (UnknownSession session), c)
       | Some current \<Rightarrow>
           if sp_generation spec \<noteq> current
           then Some (Inl (StaleSubmission (sp_generation spec) current), c)
           else if deadline_elapsed (sp_deadline spec) now then Some (Inl DeadlineAlreadyElapsed, c)
           else if \<not> bt_contains (resource_limits (tc_config c)) (sp_resource spec)
           then Some (Inl (ResourceUnavailable (sp_resource spec)), c)
           else case bt_get (tc_single_flights c) (sp_resource spec, sp_recipe spec) of
             Some j \<Rightarrow>
               (case bt_get (tc_flights c) j of
                  None \<Rightarrow> None
                | Some f \<Rightarrow> Some (join_flight spec j f c))
           | None \<Rightarrow> Some (start_flight spec now c))"

section \<open>Dispatch\<close>

record flight_rank =
  fr_priority :: task_priority
  fr_deadline :: "task_instant option"
  fr_submitted_at :: task_instant
  fr_id :: flight_id

datatype ordering = Less | Equal | Greater

definition cmp :: "'a::linorder \<Rightarrow> 'a \<Rightarrow> ordering" where
  "cmp a b = (if a < b then Less else if a = b then Equal else Greater)"

definition then_with :: "ordering \<Rightarrow> ordering \<Rightarrow> ordering" where
  "then_with o1 o2 = (if o1 = Equal then o2 else o1)"

fun compare_deadline :: "task_instant option \<Rightarrow> task_instant option \<Rightarrow> ordering" where
  "compare_deadline (Some l) (Some r) = cmp r l"
| "compare_deadline (Some _) None = Greater"
| "compare_deadline None (Some _) = Less"
| "compare_deadline None None = Equal"

definition compare_rank :: "flight_rank \<Rightarrow> flight_rank \<Rightarrow> ordering" where
  "compare_rank l r =
     then_with (then_with (then_with (cmp (fr_priority l) (fr_priority r))
       (compare_deadline (fr_deadline l) (fr_deadline r)))
       (cmp (fr_submitted_at r) (fr_submitted_at l)))
       (cmp (fr_id r) (fr_id l))"

fun earlier_deadline :: "task_instant option \<Rightarrow> task_instant option \<Rightarrow> task_instant option" where
  "earlier_deadline None next = next"
| "earlier_deadline some None = some"
| "earlier_deadline (Some l) (Some r) = Some (min l r)"

definition flight_rank_of :: "task_coordinator \<Rightarrow> flight_record \<Rightarrow> flight_rank option" where
  "flight_rank_of c f =
     (let (priority, deadline, has_eligible) =
        fold (\<lambda>i (p, d, h).
            case bt_get (tc_tasks c) i of
              None \<Rightarrow> (p, d, h)
            | Some t \<Rightarrow>
                if \<not> is_eligible t then (p, d, h)
                else (max p (sp_priority (ts_spec t)), earlier_deadline d (sp_deadline (ts_spec t)), True))
          (fl_subscribers f) (Maintenance, None, False)
      in if has_eligible
         then Some \<lparr>fr_priority = priority, fr_deadline = deadline,
                fr_submitted_at = fl_submitted_at f, fr_id = fl_id f\<rparr>
         else None)"

text \<open>\<open>Iterator::max_by\<close> returns the last of the maximal elements.\<close>

fun max_by :: "('a \<Rightarrow> 'a \<Rightarrow> ordering) \<Rightarrow> 'a list \<Rightarrow> 'a option" where
  "max_by f [] = None"
| "max_by f (x # xs) = Some (fold (\<lambda>y x. if f x y = Greater then x else y) xs x)"

definition ranked_candidates :: "task_coordinator \<Rightarrow> (flight_id \<times> flight_rank) list" where
  "ranked_candidates c =
     List.map_filter (\<lambda>f. map_option (\<lambda>r. (fl_id f, r)) (flight_rank_of c f))
       (filter (\<lambda>f. resource_has_capacity (fst (fl_key f)) c)
         (filter (\<lambda>f. fl_state f = FlightQueued) (bt_values (tc_flights c))))"

definition start_running :: "task_snapshot \<Rightarrow> task_snapshot" where
  "start_running t = (if is_eligible t then t\<lparr>ts_state := Running\<rparr> else t)"

definition dispatch_selected ::
  "flight_id \<Rightarrow> task_coordinator \<Rightarrow> (task_dispatch \<times> task_coordinator) option" where
  "dispatch_selected j c =
     (case bt_get (tc_flights c) j of
        None \<Rightarrow> None
      | Some f \<Rightarrow>
          (case find (task_eligible c) (fl_subscribers f) of
             None \<Rightarrow> None
           | Some representative \<Rightarrow>
               let r = fst (fl_key f) in
               Some (\<lparr>td_flight = j, td_representative_task = representative,
                      td_recipe = snd (fl_key f), td_resource = r, td_cancellation = j\<rparr>,
                 c\<lparr>tc_flights := bt_modify j (\<lambda>f. f\<lparr>fl_state := FlightRunning\<rparr>) (tc_flights c),
                   tc_running_by_resource := bt_insert r (running_flight_count r c + 1)
                     (tc_running_by_resource c),
                   tc_tasks := fold (\<lambda>i. bt_modify i start_running) (fl_subscribers f)
                     (tc_tasks c)\<rparr>)))"

definition dispatch_next ::
  "task_instant \<Rightarrow> task_coordinator \<Rightarrow> (task_dispatch option \<times> task_coordinator) option" where
  "dispatch_next now c =
     Option.bind (expire now c) (\<lambda>c.
       case max_by (\<lambda>l r. compare_rank (snd l) (snd r)) (ranked_candidates c) of
         None \<Rightarrow> Some (None, c)
       | Some (j, _) \<Rightarrow> map_option (\<lambda>(d, c). (Some d, c)) (dispatch_selected j c))"

section \<open>Reports from the executor\<close>

text \<open>
  The loop over the subscribers leaves the progress of the earlier subscribers updated when a
  later one refuses the report.
\<close>

fun progress_loop ::
  "task_progress \<Rightarrow> task_id list \<Rightarrow> (task_id, task_snapshot) btree
     \<Rightarrow> (coordinator_error + unit) \<times> (task_id, task_snapshot) btree" where
  "progress_loop p [] ts = (Inr (), ts)"
| "progress_loop p (i # ids) ts =
     (case bt_get ts i of
        None \<Rightarrow> progress_loop p ids ts
      | Some t \<Rightarrow>
          if (case ts_progress t of None \<Rightarrow> False | Some previous \<Rightarrow> \<not> progress_follows p previous)
          then (Inl (Progress Regression), ts)
          else progress_loop p ids (bt_modify i (\<lambda>t. t\<lparr>ts_progress := Some p\<rparr>) ts))"

definition report_progress ::
  "flight_id \<Rightarrow> task_progress \<Rightarrow> task_coordinator \<Rightarrow> (coordinator_error + unit) \<times> task_coordinator" where
  "report_progress j p c =
     (case progress_validate p of
        Inl e \<Rightarrow> (Inl (Progress e), c)
      | Inr _ \<Rightarrow>
          (case bt_get (tc_flights c) j of
             None \<Rightarrow> (Inl (UnknownFlight j), c)
           | Some f \<Rightarrow>
               if fl_state f \<noteq> FlightRunning then (Inl (FlightNotRunning j), c)
               else case progress_loop p (fl_subscribers f) (tc_tasks c) of
                 (r, ts) \<Rightarrow> (r, c\<lparr>tc_tasks := ts\<rparr>)))"

definition add_diagnostic :: "nat \<Rightarrow> task_diagnostic \<Rightarrow> task_snapshot \<Rightarrow> task_snapshot" where
  "add_diagnostic limit d t =
     (let t = (if length (ts_diagnostics t) = limit
               then t\<lparr>ts_diagnostics := tl (ts_diagnostics t),
                      ts_dropped_diagnostics := sat_add_u64 (ts_dropped_diagnostics t) 1\<rparr>
               else t)
      in t\<lparr>ts_diagnostics := ts_diagnostics t @ [d]\<rparr>)"

definition push_diagnostic :: "task_id \<Rightarrow> task_diagnostic \<Rightarrow> task_coordinator \<Rightarrow> task_coordinator" where
  "push_diagnostic i d c =
     c\<lparr>tc_tasks := bt_modify i (add_diagnostic (maximum_diagnostics_per_task (tc_config c)) d)
        (tc_tasks c)\<rparr>"

definition report_diagnostic ::
  "flight_id \<Rightarrow> task_diagnostic \<Rightarrow> task_coordinator \<Rightarrow> (coordinator_error + unit) \<times> task_coordinator" where
  "report_diagnostic j d c =
     (case bt_get (tc_flights c) j of
        None \<Rightarrow> (Inl (UnknownFlight j), c)
      | Some f \<Rightarrow> (Inr (), fold (\<lambda>i. push_diagnostic i d) (fl_subscribers f) c))"

definition cancel_task ::
  "task_id \<Rightarrow> cancellation_reason \<Rightarrow> task_coordinator \<Rightarrow> (coordinator_error + bool) \<times> task_coordinator" where
  "cancel_task i reason c =
     (if \<not> bt_contains (tc_tasks c) i then (Inl (UnknownTask i), c)
      else case mark_cancelling i reason c of
        (changed, c) \<Rightarrow> (Inr changed, cancel_unobserved_flights c))"

definition cancel_owner :: "owner_scope \<Rightarrow> task_coordinator \<Rightarrow> nat \<times> task_coordinator" where
  "cancel_owner owner c =
     (case fold (\<lambda>i (n, c). case mark_cancelling i Requested c of
               (changed, c) \<Rightarrow> (n + (if changed then 1 else 0), c))
             (tasks_with (\<lambda>t. sp_owner (ts_spec t) = owner) c) (0, c) of
        (n, c) \<Rightarrow> (n, cancel_unobserved_flights c))"

section \<open>Completion and publication\<close>

definition receipt_for ::
  "flight_id \<Rightarrow> completion_outcome \<Rightarrow> task_instant \<Rightarrow> task_id \<Rightarrow> task_snapshot \<Rightarrow> completion_receipt" where
  "receipt_for j outcome now i t =
     \<lparr>rc_task = i, rc_flight = j, rc_owner = sp_owner (ts_spec t),
      rc_captured_generation = sp_generation (ts_spec t), rc_recipe = sp_recipe (ts_spec t),
      rc_resource = sp_resource (ts_spec t), rc_deadline = sp_deadline (ts_spec t),
      rc_completed_at = now, rc_outcome = outcome\<rparr>"

definition completion_gate ::
  "task_instant \<Rightarrow> task_coordinator \<Rightarrow> task_snapshot \<Rightarrow> completion_rejection option" where
  "completion_gate now c t =
     (case bt_get (tc_sessions c) (task_session_of t) of
        None \<Rightarrow> Some RejectSessionClosed
      | Some current \<Rightarrow>
          if current \<noteq> sp_generation (ts_spec t)
          then Some (RejectStaleGeneration (sp_generation (ts_spec t)) current)
          else if deadline_elapsed (sp_deadline (ts_spec t)) now then Some RejectDeadlineExceeded
          else case ts_state t of Cancelling reason \<Rightarrow> Some (RejectCancelled reason) | _ \<Rightarrow> None)"

fun gate_subscribers ::
  "flight_id \<Rightarrow> completion_outcome \<Rightarrow> task_instant \<Rightarrow> task_coordinator \<Rightarrow> task_id list
     \<Rightarrow> completion_batch" where
  "gate_subscribers j outcome now c [] = \<lparr>cb_accepted = [], cb_rejected = []\<rparr>"
| "gate_subscribers j outcome now c (i # ids) =
     (let rest = gate_subscribers j outcome now c ids in
      case bt_get (tc_tasks c) i of
        None \<Rightarrow> rest
      | Some t \<Rightarrow>
          (case completion_gate now c t of
             Some reason \<Rightarrow> rest\<lparr>cb_rejected :=
               \<lparr>rj_receipt = receipt_for j outcome now i t, rj_reason = reason\<rparr> # cb_rejected rest\<rparr>
           | None \<Rightarrow> rest\<lparr>cb_accepted := receipt_for j outcome now i t # cb_accepted rest\<rparr>))"

fun outcome_state :: "completion_outcome \<Rightarrow> task_state" where
  "outcome_state (OutSucceeded _) = Succeeded"
| "outcome_state (OutFailed _ _) = Failed"
| "outcome_state OutCancelled = Cancelled"

definition complete ::
  "flight_id \<Rightarrow> completion_report \<Rightarrow> task_instant \<Rightarrow> task_coordinator
     \<Rightarrow> ((coordinator_error + completion_batch) \<times> task_coordinator) option" where
  "complete j report now c =
     Option.bind (expire now c) (\<lambda>c.
       case bt_get (tc_flights c) j of
         None \<Rightarrow> Some (Inl (UnknownFlight j), c)
       | Some f \<Rightarrow>
           if fl_state f \<noteq> FlightRunning then Some (Inl (FlightNotRunning j), c)
           else
             let subscribers = fl_subscribers f;
                 c = fold (\<lambda>d c. fold (\<lambda>i. push_diagnostic i d) subscribers c)
                       (cr_diagnostics report) c;
                 batch = gate_subscribers j (cr_outcome report) now c subscribers;
                 c = fold (\<lambda>i. retire_task i (outcome_state (cr_outcome report)))
                       (map rc_task (cb_accepted batch)) c;
                 c = fold (\<lambda>i. retire_task i Rejected)
                       (map (rc_task \<circ> rj_receipt) (cb_rejected batch)) c
             in Some (Inr batch, remove_flight j c))"

definition validate_for_publication ::
  "completion_receipt \<Rightarrow> task_instant \<Rightarrow> task_coordinator \<Rightarrow> completion_rejection + unit" where
  "validate_for_publication rc now c =
     (case bt_get (tc_sessions c) (sc_session (os_scope (rc_owner rc))) of
        None \<Rightarrow> Inl RejectSessionClosed
      | Some current \<Rightarrow>
          if current \<noteq> rc_captured_generation rc
          then Inl (RejectStaleGeneration (rc_captured_generation rc) current)
          else if deadline_elapsed (rc_deadline rc) now then Inl RejectDeadlineExceeded
          else Inr ())"

end
