(* ===== verification/Task_Invariant.thy ===== *)
theory Task_Invariant
  imports Task_Coordinator
begin

text \<open>
  What the loops of the coordinator do to its maps, one lookup at a time, and which fields they
  leave alone: cancelling a list of tasks, cancelling unobserved flights, retiring tasks, marking
  subscribers as running, recording progress and diagnostics. Then the invariant of the
  coordinator and that these loops preserve it.
\<close>

named_theorems frame_simps \<open>fields an operation of the coordinator does not change\<close>

section \<open>Cancelling tasks\<close>

definition cancel_state :: "cancellation_reason \<Rightarrow> task_snapshot \<Rightarrow> task_snapshot" where
  "cancel_state r t = (if is_eligible t then t\<lparr>ts_state := Cancelling r\<rparr> else t)"

lemma cancel_state_simps [simp]:
  "ts_id (cancel_state r t) = ts_id t" "ts_flight (cancel_state r t) = ts_flight t"
  "ts_spec (cancel_state r t) = ts_spec t" "ts_progress (cancel_state r t) = ts_progress t"
  "ts_diagnostics (cancel_state r t) = ts_diagnostics t"
  "\<not> is_eligible (cancel_state r t)" "cancel_state q (cancel_state r t) = cancel_state r t"
  by (simp_all add: cancel_state_def is_eligible_def)

lemma cancel_state_fixed: "cancel_state r t = t \<longleftrightarrow> \<not> is_eligible t"
  using cancel_state_simps(6)[of r t] by (auto simp: cancel_state_def)

lemma mark_cancelling_tasks:
  "snd (mark_cancelling i r c) = c\<lparr>tc_tasks := tc_tasks (snd (mark_cancelling i r c))\<rparr>"
  "bt_ok (tc_tasks c) \<Longrightarrow> bt_ok (tc_tasks (snd (mark_cancelling i r c)))"
  "bt_get (tc_tasks (snd (mark_cancelling i r c))) k
     = (if k = i then map_option (cancel_state r) (bt_get (tc_tasks c) k)
        else bt_get (tc_tasks c) k)"
  by (auto simp: mark_cancelling_def cancel_state_def is_eligible_def split: option.splits)

lemma mark_all_frame [frame_simps]:
  "tc_config (mark_all r ids c) = tc_config c"
  "tc_next_task (mark_all r ids c) = tc_next_task c"
  "tc_next_flight (mark_all r ids c) = tc_next_flight c"
  "tc_sessions (mark_all r ids c) = tc_sessions c"
  "tc_flights (mark_all r ids c) = tc_flights c"
  "tc_single_flights (mark_all r ids c) = tc_single_flights c"
  "tc_running_by_resource (mark_all r ids c) = tc_running_by_resource c"
  "tc_terminal (mark_all r ids c) = tc_terminal c"
proof -
  have *: "tc_config (snd (mark_cancelling i r c)) = tc_config c"
    "tc_next_task (snd (mark_cancelling i r c)) = tc_next_task c"
    "tc_next_flight (snd (mark_cancelling i r c)) = tc_next_flight c"
    "tc_sessions (snd (mark_cancelling i r c)) = tc_sessions c"
    "tc_flights (snd (mark_cancelling i r c)) = tc_flights c"
    "tc_single_flights (snd (mark_cancelling i r c)) = tc_single_flights c"
    "tc_running_by_resource (snd (mark_cancelling i r c)) = tc_running_by_resource c"
    "tc_terminal (snd (mark_cancelling i r c)) = tc_terminal c" for i c
    by (simp_all add: mark_cancelling_def split: option.splits)
  show
    "tc_config (mark_all r ids c) = tc_config c"
    "tc_next_task (mark_all r ids c) = tc_next_task c"
    "tc_next_flight (mark_all r ids c) = tc_next_flight c"
    "tc_sessions (mark_all r ids c) = tc_sessions c"
    "tc_flights (mark_all r ids c) = tc_flights c"
    "tc_single_flights (mark_all r ids c) = tc_single_flights c"
    "tc_running_by_resource (mark_all r ids c) = tc_running_by_resource c"
    "tc_terminal (mark_all r ids c) = tc_terminal c"
    by (induction ids arbitrary: c) (simp_all add: mark_all_def *)
qed

lemma mark_all_get [frame_simps]:
  "bt_get (tc_tasks (mark_all r ids c)) k
     = map_option (\<lambda>t. if k \<in> set ids then cancel_state r t else t) (bt_get (tc_tasks c) k)"
proof (induction ids arbitrary: c)
  case Nil
  then show ?case by (simp add: mark_all_def option.map_ident)
next
  case (Cons i ids)
  have "mark_all r (i # ids) c = mark_all r ids (snd (mark_cancelling i r c))"
    by (simp add: mark_all_def)
  then show ?case
    by (cases "bt_get (tc_tasks c) k") (auto simp: Cons.IH mark_cancelling_tasks(3))
qed

lemma mark_all_ok: "bt_ok (tc_tasks c) \<Longrightarrow> bt_ok (tc_tasks (mark_all r ids c))"
  by (induction ids arbitrary: c) (simp_all add: mark_all_def mark_cancelling_tasks(2))

lemma in_tasks_with:
  "bt_ok (tc_tasks c) \<Longrightarrow> i \<in> set (tasks_with p c) \<longleftrightarrow> (\<exists>t. bt_get (tc_tasks c) i = Some t \<and> p t)"
  by (force simp: tasks_with_def bt_get_iff)

section \<open>Unobserved flights\<close>

definition observe_flight :: "task_coordinator \<Rightarrow> flight_record \<Rightarrow> flight_record" where
  "observe_flight c f = (if any_eligible c f then f else f\<lparr>fl_cancelled := True\<rparr>)"

lemma observe_flight_simps [simp]:
  "fl_id (observe_flight c f) = fl_id f" "fl_key (observe_flight c f) = fl_key f"
  "fl_state (observe_flight c f) = fl_state f"
  "fl_subscribers (observe_flight c f) = fl_subscribers f"
  "fl_cancelled (observe_flight c f) = (fl_cancelled f \<or> \<not> any_eligible c f)"
  by (simp_all add: observe_flight_def)

lemma any_eligible_iff:
  "any_eligible c f \<longleftrightarrow> (\<exists>i \<in> set (fl_subscribers f). \<exists>t. bt_get (tc_tasks c) i = Some t \<and> is_eligible t)"
  by (auto simp: any_eligible_def task_eligible_def list_ex_iff split: option.splits)

lemma any_eligible_cong:
  assumes "fl_subscribers g = fl_subscribers f"
    and "\<And>i. i \<in> set (fl_subscribers f) \<Longrightarrow> bt_get (tc_tasks d) i = bt_get (tc_tasks c) i"
  shows "any_eligible d g = any_eligible c f"
  using assms by (auto simp: any_eligible_iff)

lemma cancel_unobserved_frame [frame_simps]:
  "tc_config (cancel_unobserved_flights c) = tc_config c"
  "tc_next_task (cancel_unobserved_flights c) = tc_next_task c"
  "tc_next_flight (cancel_unobserved_flights c) = tc_next_flight c"
  "tc_sessions (cancel_unobserved_flights c) = tc_sessions c"
  "tc_tasks (cancel_unobserved_flights c) = tc_tasks c"
  "tc_running_by_resource (cancel_unobserved_flights c) = tc_running_by_resource c"
  "tc_terminal (cancel_unobserved_flights c) = tc_terminal c"
  "bt_get (tc_flights (cancel_unobserved_flights c)) j
     = map_option (observe_flight c) (bt_get (tc_flights c) j)"
  "bt_ok (tc_flights (cancel_unobserved_flights c)) = bt_ok (tc_flights c)"
  by (simp_all add: cancel_unobserved_flights_def Let_def observe_flight_def[abs_def])

lemma cancel_unobserved_eligible [simp]:
  "any_eligible (cancel_unobserved_flights c) f = any_eligible c f"
  "any_eligible c (observe_flight d f) = any_eligible c f"
  by (simp_all add: any_eligible_iff frame_simps)

lemma fold_unindex:
  "bt_ok m \<Longrightarrow> bt_ok (fold (\<lambda>f. unindex (fl_key f) (fl_id f)) gone m)"
  "bt_ok m \<Longrightarrow> bt_get (fold (\<lambda>f. unindex (fl_key f) (fl_id f)) gone m) key = Some j \<longleftrightarrow>
     bt_get m key = Some j \<and> \<not> (\<exists>f \<in> set gone. fl_key f = key \<and> fl_id f = j)"
  by (induction gone arbitrary: m) (auto simp: unindex_def split: if_splits)

lemma cancel_unobserved_single:
  assumes "bt_ok (tc_single_flights c)" "bt_ok (tc_flights c)"
    and "\<And>j f. bt_get (tc_flights c) j = Some f \<Longrightarrow> fl_id f = j"
  shows "bt_ok (tc_single_flights (cancel_unobserved_flights c))"
    and "bt_get (tc_single_flights (cancel_unobserved_flights c)) key = Some j \<longleftrightarrow>
      bt_get (tc_single_flights c) key = Some j
        \<and> \<not> (\<exists>f. bt_get (tc_flights c) j = Some f \<and> fl_key f = key \<and> \<not> any_eligible c f)"
proof -
  show "bt_ok (tc_single_flights (cancel_unobserved_flights c))"
    by (simp add: cancel_unobserved_flights_def fold_unindex assms(1))
  have "(\<exists>f \<in> set (bt_values (tc_flights c)). \<not> any_eligible c f \<and> fl_key f = key \<and> fl_id f = j)
    \<longleftrightarrow> (\<exists>f. bt_get (tc_flights c) j = Some f \<and> fl_key f = key \<and> \<not> any_eligible c f)"
    unfolding Bex_def bt_values_in[OF assms(2)] using assms(3) by blast
  then show "bt_get (tc_single_flights (cancel_unobserved_flights c)) key = Some j \<longleftrightarrow>
      bt_get (tc_single_flights c) key = Some j
        \<and> \<not> (\<exists>f. bt_get (tc_flights c) j = Some f \<and> fl_key f = key \<and> \<not> any_eligible c f)"
    by (simp add: cancel_unobserved_flights_def fold_unindex assms(1)) blast
qed

section \<open>Retiring tasks and removing flights\<close>

text \<open>\<open>retired ids c d\<close>: \<open>d\<close> is \<open>c\<close> with the tasks \<open>ids\<close> moved to the terminal snapshots.\<close>

definition retired :: "task_id set \<Rightarrow> task_coordinator \<Rightarrow> task_coordinator \<Rightarrow> bool" where
  "retired ids c d \<longleftrightarrow>
     d = c\<lparr>tc_tasks := tc_tasks d, tc_terminal := tc_terminal d\<rparr>
     \<and> (bt_ok (tc_tasks c) \<longrightarrow> bt_ok (tc_tasks d))
     \<and> (\<forall>k. bt_get (tc_tasks d) k = (if k \<in> ids then None else bt_get (tc_tasks c) k))
     \<and> (length (tc_terminal c) \<le> maximum_terminal_snapshots (tc_config c)
        \<longrightarrow> length (tc_terminal d) \<le> maximum_terminal_snapshots (tc_config c))"

lemma retired_empty: "retired {} c c"
  by (simp add: retired_def)

lemma retired_task: "retired {i} c (retire_task i state c)"
  by (auto simp: retired_def retire_task_def Let_def split: option.splits)

lemma retired_frame:
  assumes "retired ids c d"
  shows "tc_config d = tc_config c" "tc_next_task d = tc_next_task c"
    "tc_next_flight d = tc_next_flight c" "tc_sessions d = tc_sessions c"
    "tc_flights d = tc_flights c" "tc_single_flights d = tc_single_flights c"
    "tc_running_by_resource d = tc_running_by_resource c"
    "bt_ok (tc_tasks c) \<Longrightarrow> bt_ok (tc_tasks d)"
    "bt_get (tc_tasks d) k = (if k \<in> ids then None else bt_get (tc_tasks c) k)"
    "length (tc_terminal c) \<le> maximum_terminal_snapshots (tc_config c) \<Longrightarrow>
       length (tc_terminal d) \<le> maximum_terminal_snapshots (tc_config c)"
proof -
  obtain ts te where d: "d = c\<lparr>tc_tasks := ts, tc_terminal := te\<rparr>"
    using assms unfolding retired_def by blast
  show "tc_config d = tc_config c" "tc_next_task d = tc_next_task c"
    "tc_next_flight d = tc_next_flight c" "tc_sessions d = tc_sessions c"
    "tc_flights d = tc_flights c" "tc_single_flights d = tc_single_flights c"
    "tc_running_by_resource d = tc_running_by_resource c"
    by (simp_all add: d)
qed (use assms in \<open>simp_all add: retired_def\<close>)

lemma retired_trans:
  assumes "retired a c d" "retired b d e"
  shows "retired (a \<union> b) c e"
proof -
  obtain ts te where d: "d = c\<lparr>tc_tasks := ts, tc_terminal := te\<rparr>"
    using assms(1) unfolding retired_def by blast
  obtain us ue where e: "e = d\<lparr>tc_tasks := us, tc_terminal := ue\<rparr>"
    using assms(2) unfolding retired_def by blast
  have "e = c\<lparr>tc_tasks := tc_tasks e, tc_terminal := tc_terminal e\<rparr>"
    by (simp add: d e)
  then show ?thesis
    using retired_frame[OF assms(1)] retired_frame[OF assms(2)] unfolding retired_def by auto
qed

lemma retired_fold:
  assumes "\<And>i c. retired {i} c (f i c)"
  shows "retired (set ids) c (fold f ids c)"
proof (induction ids arbitrary: c)
  case (Cons i ids)
  show ?case using retired_trans[OF assms[of i c] Cons.IH] by simp
qed (simp add: retired_empty)

section \<open>Updates of single tasks\<close>

text \<open>
  \<open>tasks_updated g c d\<close>: \<open>d\<close> is \<open>c\<close> with every task \<open>t\<close> replaced by \<open>g i t\<close>.
\<close>

definition tasks_updated ::
  "(task_id \<Rightarrow> task_snapshot \<Rightarrow> task_snapshot) \<Rightarrow> task_coordinator \<Rightarrow> task_coordinator \<Rightarrow> bool" where
  "tasks_updated g c d \<longleftrightarrow> d = c\<lparr>tc_tasks := tc_tasks d\<rparr>
     \<and> (bt_ok (tc_tasks c) \<longrightarrow> bt_ok (tc_tasks d))
     \<and> (\<forall>k. bt_get (tc_tasks d) k = map_option (g k) (bt_get (tc_tasks c) k))"

lemma tasks_updated_frame:
  assumes "tasks_updated g c d"
  shows "tc_config d = tc_config c" "tc_next_task d = tc_next_task c"
    "tc_next_flight d = tc_next_flight c" "tc_sessions d = tc_sessions c"
    "tc_flights d = tc_flights c" "tc_single_flights d = tc_single_flights c"
    "tc_running_by_resource d = tc_running_by_resource c" "tc_terminal d = tc_terminal c"
    "bt_ok (tc_tasks c) \<Longrightarrow> bt_ok (tc_tasks d)"
    "bt_get (tc_tasks d) k = map_option (g k) (bt_get (tc_tasks c) k)"
proof -
  obtain ts where d: "d = c\<lparr>tc_tasks := ts\<rparr>"
    using assms unfolding tasks_updated_def by blast
  show "tc_config d = tc_config c" "tc_next_task d = tc_next_task c"
    "tc_next_flight d = tc_next_flight c" "tc_sessions d = tc_sessions c"
    "tc_flights d = tc_flights c" "tc_single_flights d = tc_single_flights c"
    "tc_running_by_resource d = tc_running_by_resource c" "tc_terminal d = tc_terminal c"
    by (simp_all add: d)
qed (use assms in \<open>simp_all add: tasks_updated_def\<close>)

lemma mark_all_updated:
  "tasks_updated (\<lambda>k t. if k \<in> set ids then cancel_state r t else t) c (mark_all r ids c)"
proof -
  have "mark_all r ids c = c\<lparr>tc_tasks := tc_tasks (mark_all r ids c)\<rparr>"
  proof (induction ids arbitrary: c)
    case (Cons i ids)
    have "mark_all r (i # ids) c = mark_all r ids (snd (mark_cancelling i r c))"
      by (simp add: mark_all_def)
    then show ?case
      using Cons.IH[of "snd (mark_cancelling i r c)"] mark_cancelling_tasks(1)[of i r c]
      by (metis task_coordinator.surjective task_coordinator.update_convs(5))
  qed (simp add: mark_all_def)
  then show ?thesis by (simp add: tasks_updated_def mark_all_ok mark_all_get)
qed

lemma bt_ok_fold_modify: "bt_ok m \<Longrightarrow> bt_ok (fold (\<lambda>i. bt_modify i f) ids m)"
  by (induction ids arbitrary: m) simp_all

lemma bt_get_fold_modify:
  "distinct ids \<Longrightarrow> bt_get (fold (\<lambda>i. bt_modify i f) ids m) k
     = map_option (if k \<in> set ids then f else id) (bt_get m k)"
  by (induction ids arbitrary: m) (auto simp: option.map_id0 option.map_comp o_def)

chapter \<open>Invariant\<close>

text \<open>
  The invariant of the coordinator, in the groups its operations touch: the maps and the links
  between tasks and flights, the single-flight index, the state and the session of eligible
  tasks, the counters with their limits, and the progress of the subscribers of one flight. Each
  group is preserved by the building blocks of the operations.
\<close>

section \<open>Links between the maps\<close>

definition maps_ok :: "task_coordinator \<Rightarrow> bool" where
  "maps_ok c \<longleftrightarrow> bt_ok (tc_sessions c) \<and> bt_ok (tc_tasks c) \<and> bt_ok (tc_flights c)
     \<and> bt_ok (tc_single_flights c) \<and> bt_ok (tc_running_by_resource c)"

definition tasks_linked :: "task_coordinator \<Rightarrow> bool" where
  "tasks_linked c \<longleftrightarrow> (\<forall>i t. bt_get (tc_tasks c) i = Some t \<longrightarrow>
     ts_id t = i \<and> raw i < tc_next_task c
     \<and> (\<exists>f. bt_get (tc_flights c) (ts_flight t) = Some f \<and> i \<in> set (fl_subscribers f)
          \<and> fl_key f = (sp_resource (ts_spec t), sp_recipe (ts_spec t))))"

definition flights_linked :: "task_coordinator \<Rightarrow> bool" where
  "flights_linked c \<longleftrightarrow> (\<forall>j f. bt_get (tc_flights c) j = Some f \<longrightarrow>
     fl_id f = j \<and> raw j < tc_next_flight c \<and> distinct (fl_subscribers f) \<and> fl_subscribers f \<noteq> []
     \<and> (\<forall>i \<in> set (fl_subscribers f). \<exists>t. bt_get (tc_tasks c) i = Some t \<and> ts_flight t = j))"

definition index_sound :: "task_coordinator \<Rightarrow> bool" where
  "index_sound c \<longleftrightarrow> (\<forall>key j. bt_get (tc_single_flights c) key = Some j \<longrightarrow>
     (\<exists>f. bt_get (tc_flights c) j = Some f \<and> fl_key f = key))"

definition running_counted :: "task_coordinator \<Rightarrow> bool" where
  "running_counted c \<longleftrightarrow> (\<forall>r. running_flight_count r c
     = card (bt_having (\<lambda>f. fl_state f = FlightRunning \<and> fst (fl_key f) = r) (tc_flights c)))"

definition link_inv :: "task_coordinator \<Rightarrow> bool" where
  "link_inv c \<longleftrightarrow> maps_ok c \<and> tasks_linked c \<and> flights_linked c \<and> index_sound c \<and> running_counted c"

section \<open>Eligible tasks\<close>

definition state_of_flight :: "flight_state \<Rightarrow> task_state" where
  "state_of_flight st = (case st of FlightQueued \<Rightarrow> Queued | FlightRunning \<Rightarrow> Running)"

definition states_match :: "task_coordinator \<Rightarrow> bool" where
  "states_match c \<longleftrightarrow> (\<forall>i t f. bt_get (tc_tasks c) i = Some t \<longrightarrow> is_eligible t \<longrightarrow>
     bt_get (tc_flights c) (ts_flight t) = Some f \<longrightarrow> ts_state t = state_of_flight (fl_state f))"

definition index_complete :: "task_coordinator \<Rightarrow> bool" where
  "index_complete c \<longleftrightarrow> (\<forall>j f. bt_get (tc_flights c) j = Some f \<longrightarrow> any_eligible c f \<longrightarrow>
     bt_get (tc_single_flights c) (fl_key f) = Some j \<and> \<not> fl_cancelled f)"

definition index_tight :: "task_coordinator \<Rightarrow> bool" where
  "index_tight c \<longleftrightarrow> (\<forall>j f. bt_get (tc_flights c) j = Some f \<longrightarrow> \<not> any_eligible c f \<longrightarrow>
     fl_cancelled f \<and> bt_get (tc_single_flights c) (fl_key f) \<noteq> Some j)"

definition sessions_current :: "task_coordinator \<Rightarrow> bool" where
  "sessions_current c \<longleftrightarrow> (\<forall>i t. bt_get (tc_tasks c) i = Some t \<longrightarrow> is_eligible t \<longrightarrow>
     bt_get (tc_sessions c) (task_session_of t) = Some (sp_generation (ts_spec t)))"

section \<open>Limits and progress\<close>

definition limit_of :: "task_coordinator \<Rightarrow> resource_class \<Rightarrow> nat" where
  "limit_of c r = (case bt_get (resource_limits (tc_config c)) r of None \<Rightarrow> 0 | Some n \<Rightarrow> n)"

definition limits_kept :: "task_coordinator \<Rightarrow> bool" where
  "limits_kept c \<longleftrightarrow> config_validate (tc_config c) = Inr ()
     \<and> card (bt_having is_eligible (tc_tasks c)) \<le> maximum_active_tasks (tc_config c)
     \<and> card (bt_having (\<lambda>f. fl_state f = FlightQueued) (tc_flights c))
         \<le> maximum_queued_flights (tc_config c)
     \<and> (\<forall>j f. bt_get (tc_flights c) j = Some f \<longrightarrow>
          length (fl_subscribers f) \<le> maximum_subscribers_per_flight (tc_config c))
     \<and> (\<forall>r. running_flight_count r c \<le> limit_of c r)
     \<and> (\<forall>i t. bt_get (tc_tasks c) i = Some t \<longrightarrow>
          length (ts_diagnostics t) \<le> maximum_diagnostics_per_task (tc_config c))
     \<and> length (tc_terminal c) \<le> maximum_terminal_snapshots (tc_config c)"

definition progress_of :: "task_coordinator \<Rightarrow> task_id \<Rightarrow> task_progress option" where
  "progress_of c i = Option.bind (bt_get (tc_tasks c) i) ts_progress"

text \<open>
  Every report reaches all subscribers of its flight, and a subscriber that joins starts without
  progress: the older subscribers agree on the last report, the newer ones have none.
\<close>

definition uniform :: "task_progress option list \<Rightarrow> bool" where
  "uniform ps \<longleftrightarrow> (\<exists>p n m. ps = replicate n (Some p) @ replicate m None)"

definition progress_uniform :: "task_coordinator \<Rightarrow> bool" where
  "progress_uniform c \<longleftrightarrow> (\<forall>j f. bt_get (tc_flights c) j = Some f \<longrightarrow>
     uniform (map (progress_of c) (fl_subscribers f)))"

text \<open>Everything but the freshness of the index, which every operation restores last.\<close>

definition loose_inv :: "task_coordinator \<Rightarrow> bool" where
  "loose_inv c \<longleftrightarrow> link_inv c \<and> states_match c \<and> index_complete c \<and> limits_kept c \<and> progress_uniform c"

definition coordinator_inv :: "task_coordinator \<Rightarrow> bool" where
  "coordinator_inv c \<longleftrightarrow> loose_inv c \<and> index_tight c \<and> sessions_current c"

section \<open>Updates of the tasks\<close>

text \<open>An update that keeps identity and specification, and makes no task eligible again.\<close>

definition keeps_identity :: "(task_id \<Rightarrow> task_snapshot \<Rightarrow> task_snapshot) \<Rightarrow> bool" where
  "keeps_identity g \<longleftrightarrow> (\<forall>i t. ts_id (g i t) = ts_id t \<and> ts_flight (g i t) = ts_flight t
     \<and> ts_spec (g i t) = ts_spec t \<and> (is_eligible (g i t) \<longrightarrow> is_eligible t))"

lemma keeps_identityD:
  assumes "keeps_identity g"
  shows "ts_id (g i t) = ts_id t" "ts_flight (g i t) = ts_flight t" "ts_spec (g i t) = ts_spec t"
    "is_eligible (g i t) \<Longrightarrow> is_eligible t" "task_session_of (g i t) = task_session_of t"
  using assms by (auto simp: keeps_identity_def task_session_of_def)

lemma updated_link_inv:
  assumes up: "tasks_updated g c d" and id: "keeps_identity g" and inv: "link_inv c"
  shows "link_inv d"
proof -
  note fr = tasks_updated_frame[OF up]
  note gd = keeps_identityD[OF id]
  have "maps_ok d"
    using inv by (simp add: link_inv_def maps_ok_def fr)
  moreover have "tasks_linked d"
    using inv by (auto simp: link_inv_def tasks_linked_def fr gd)
  moreover have "flights_linked d"
    using inv by (fastforce simp: link_inv_def flights_linked_def fr gd)
  moreover have "index_sound d" "running_counted d"
    using inv by (simp_all add: link_inv_def index_sound_def running_counted_def fr
        running_flight_count_def)
  ultimately show ?thesis by (simp add: link_inv_def)
qed

lemma updated_any_eligible:
  assumes "tasks_updated g c d" "keeps_identity g" "any_eligible d f"
  shows "any_eligible c f"
  using assms(3) keeps_identityD(4)[OF assms(2)]
  by (auto simp: any_eligible_iff tasks_updated_frame[OF assms(1)])

lemma updated_index_complete:
  assumes "tasks_updated g c d" "keeps_identity g" "index_complete c"
  shows "index_complete d"
  using assms(3) updated_any_eligible[OF assms(1,2)]
  by (simp add: index_complete_def tasks_updated_frame[OF assms(1)])

lemma updated_sessions_current:
  assumes "tasks_updated g c d" "keeps_identity g" "sessions_current c"
  shows "sessions_current d"
  using assms(3)
  by (auto simp: sessions_current_def tasks_updated_frame[OF assms(1)] keeps_identityD[OF assms(2)])

lemma updated_limits_kept:
  assumes up: "tasks_updated g c d" and id: "keeps_identity g"
    and diag: "\<And>i t. length (ts_diagnostics t) \<le> maximum_diagnostics_per_task (tc_config c)
      \<Longrightarrow> 0 < maximum_diagnostics_per_task (tc_config c)
      \<Longrightarrow> length (ts_diagnostics (g i t)) \<le> maximum_diagnostics_per_task (tc_config c)"
    and inv: "limits_kept c"
  shows "limits_kept d"
proof -
  note fr = tasks_updated_frame[OF up]
  have "card (bt_having is_eligible (tc_tasks d)) \<le> card (bt_having is_eligible (tc_tasks c))"
    by (rule bt_having_mono) (auto simp: fr dest: keeps_identityD(4)[OF id])
  moreover have "0 < maximum_diagnostics_per_task (tc_config c)"
    using inv by (simp add: limits_kept_def config_validate_iff)
  ultimately show ?thesis
    using inv by (auto simp: limits_kept_def fr running_flight_count_def limit_of_def intro: diag)
qed

lemma updated_progress_uniform:
  assumes "tasks_updated g c d" "progress_uniform c" "\<And>i t. ts_progress (g i t) = ts_progress t"
  shows "progress_uniform d"
proof -
  have "progress_of d i = progress_of c i" for i
    by (cases "bt_get (tc_tasks c) i")
      (simp_all add: progress_of_def tasks_updated_frame[OF assms(1)] assms(3))
  then have "progress_of d = progress_of c" by (rule ext)
  with assms(2) show ?thesis
    by (simp add: progress_uniform_def tasks_updated_frame[OF assms(1)])
qed

lemma updated_states_match:
  assumes "tasks_updated g c d" "keeps_identity g" "states_match c"
    and "\<And>i t. is_eligible (g i t) \<Longrightarrow> ts_state (g i t) = ts_state t"
  shows "states_match d"
  using assms(3)
  by (auto simp: states_match_def tasks_updated_frame[OF assms(1)] keeps_identityD[OF assms(2)]
      assms(4))

section \<open>Cancelling\<close>

lemma cancel_keeps_identity:
  "keeps_identity (\<lambda>k t. if k \<in> set ids then cancel_state r t else t)"
  by (simp add: keeps_identity_def)

lemma mark_all_loose:
  assumes "loose_inv c"
  shows "loose_inv (mark_all r ids c)"
proof -
  note up = mark_all_updated[of ids r c] and id = cancel_keeps_identity[of ids r]
  have "link_inv c" "states_match c" "index_complete c" "limits_kept c" "progress_uniform c"
    using assms by (simp_all add: loose_inv_def)
  then show ?thesis
    unfolding loose_inv_def
    by (intro conjI updated_link_inv[OF up id] updated_index_complete[OF up id]
        updated_states_match[OF up id] updated_limits_kept[OF up id]
        updated_progress_uniform[OF up]) (auto split: if_splits)
qed

lemma mark_all_sessions: "sessions_current c \<Longrightarrow> sessions_current (mark_all r ids c)"
  by (rule updated_sessions_current[OF mark_all_updated cancel_keeps_identity])

lemma cancel_unobserved_link:
  assumes "link_inv c" "index_complete c"
  shows "link_inv (cancel_unobserved_flights c)" (is "link_inv ?d")
proof -
  have maps: "maps_ok c" and ids: "\<And>j f. bt_get (tc_flights c) j = Some f \<Longrightarrow> fl_id f = j"
    using assms(1) by (auto simp: link_inv_def flights_linked_def)
  note single = cancel_unobserved_single[of c, OF _ _ ids]
  have "maps_ok ?d"
    using maps single by (simp add: maps_ok_def frame_simps)
  moreover have "tasks_linked ?d"
    using assms(1) by (fastforce simp: link_inv_def tasks_linked_def frame_simps)
  moreover have "flights_linked ?d"
    using assms(1) by (fastforce simp: link_inv_def flights_linked_def frame_simps)
  moreover have "index_sound ?d"
    unfolding index_sound_def
  proof (intro allI impI)
    fix key j
    assume "bt_get (tc_single_flights ?d) key = Some j"
    then have "bt_get (tc_single_flights c) key = Some j"
      using single maps by (simp add: maps_ok_def)
    then obtain f where "bt_get (tc_flights c) j = Some f" "fl_key f = key"
      using assms(1) unfolding link_inv_def index_sound_def by blast
    then show "\<exists>f. bt_get (tc_flights ?d) j = Some f \<and> fl_key f = key"
      by (simp add: frame_simps)
  qed
  moreover have "bt_having (\<lambda>f. fl_state f = FlightRunning \<and> fst (fl_key f) = r) (tc_flights ?d)
      = bt_having (\<lambda>f. fl_state f = FlightRunning \<and> fst (fl_key f) = r) (tc_flights c)" for r
    by (auto simp: bt_having_def frame_simps)
  then have "running_counted ?d"
    using assms(1) by (simp add: link_inv_def running_counted_def running_flight_count_def frame_simps)
  ultimately show ?thesis by (simp add: link_inv_def)
qed

lemma cancel_unobserved_loose:
  assumes "loose_inv c"
  shows "loose_inv (cancel_unobserved_flights c)" "index_tight (cancel_unobserved_flights c)"
proof -
  let ?d = "cancel_unobserved_flights c"
  have inv: "link_inv c" "states_match c" "index_complete c" "limits_kept c" "progress_uniform c"
    using assms by (simp_all add: loose_inv_def)
  have maps: "bt_ok (tc_single_flights c)" "bt_ok (tc_flights c)"
    and ids: "\<And>j f. bt_get (tc_flights c) j = Some f \<Longrightarrow> fl_id f = j"
    using inv(1) by (auto simp: link_inv_def flights_linked_def maps_ok_def)
  note single = cancel_unobserved_single(2)[OF maps ids]
  have "states_match ?d"
    using inv(2) by (auto simp: states_match_def frame_simps)
  moreover have "index_complete ?d"
    using inv(3) by (auto simp: index_complete_def frame_simps single)
  moreover have "bt_having (\<lambda>f. fl_state f = FlightQueued) (tc_flights ?d)
      = bt_having (\<lambda>f. fl_state f = FlightQueued) (tc_flights c)"
    by (auto simp: bt_having_def frame_simps)
  then have "limits_kept ?d"
    using inv(4) by (auto simp: limits_kept_def frame_simps running_flight_count_def limit_of_def)
  moreover have "progress_uniform ?d"
    using inv(5) by (auto simp: progress_uniform_def frame_simps progress_of_def cong: map_cong)
  ultimately show "loose_inv ?d"
    using cancel_unobserved_link[OF inv(1,3)] by (simp add: loose_inv_def)
  show "index_tight ?d"
    by (auto simp: index_tight_def frame_simps single)
qed

lemma cancel_unobserved_sessions [simp]:
  "sessions_current (cancel_unobserved_flights c) = sessions_current c"
  by (simp add: sessions_current_def frame_simps)

lemma cancel_round:
  assumes "loose_inv c"
  shows "loose_inv (cancel_unobserved_flights (mark_all r ids c))"
    and "index_tight (cancel_unobserved_flights (mark_all r ids c))"
  using cancel_unobserved_loose[OF mark_all_loose[OF assms]] by auto

lemma cancel_round_inv:
  assumes "loose_inv c" "sessions_current c"
  shows "coordinator_inv (cancel_unobserved_flights (mark_all r ids c))"
  using cancel_round[OF assms(1)] mark_all_sessions[OF assms(2)] by (simp add: coordinator_inv_def)

end
