(* ===== verification/Task_Safety.thy ===== *)
theory Task_Safety
  imports Task_Invariant
begin

text \<open>
  Every operation of the coordinator keeps the invariant, no \<open>expect\<close> of it panics, and the
  gates for admission, dispatch and publication decide what they promise.
\<close>

section \<open>Removing a flight with its tasks\<close>

lemma unindex_get:
  "bt_get (unindex key j m) k = (if k = key \<and> bt_get m key = Some j then None else bt_get m k)"
  by (simp add: unindex_def)

lemma unindex_ok [simp]: "bt_ok m \<Longrightarrow> bt_ok (unindex key j m)"
  by (simp add: unindex_def)

lemma remove_flight_frame:
  assumes "bt_get (tc_flights c) j = Some f"
  shows "tc_config (remove_flight j c) = tc_config c"
    "tc_next_task (remove_flight j c) = tc_next_task c"
    "tc_next_flight (remove_flight j c) = tc_next_flight c"
    "tc_sessions (remove_flight j c) = tc_sessions c" "tc_tasks (remove_flight j c) = tc_tasks c"
    "tc_terminal (remove_flight j c) = tc_terminal c"
    "tc_flights (remove_flight j c) = bt_remove j (tc_flights c)"
    "tc_single_flights (remove_flight j c) = unindex (fl_key f) j (tc_single_flights c)"
    "tc_running_by_resource (remove_flight j c)
      = (if fl_state f = FlightRunning
         then bt_modify (fst (fl_key f)) (\<lambda>n. n - 1) (tc_running_by_resource c)
         else tc_running_by_resource c)"
  using assms by (simp_all add: remove_flight_def)

lemma remove_flight_running:
  assumes "bt_get (tc_flights c) j = Some f"
  shows "running_flight_count r (remove_flight j c)
    = running_flight_count r c - (if fl_state f = FlightRunning \<and> fst (fl_key f) = r then 1 else 0)"
  by (auto simp: running_flight_count_def remove_flight_frame[OF assms] split: option.splits)

text \<open>The state in which all subscribers of a flight have been retired and it is removed.\<close>

definition dropping ::
  "flight_id \<Rightarrow> flight_record \<Rightarrow> task_coordinator \<Rightarrow> task_coordinator \<Rightarrow> bool" where
  "dropping j f c d \<longleftrightarrow> bt_get (tc_flights c) j = Some f \<and> retired (set (fl_subscribers f)) c d"

lemma dropping_facts:
  assumes "dropping j f c d"
  shows "bt_get (tc_flights c) j = Some f" "bt_get (tc_flights d) j = Some f"
    "retired (set (fl_subscribers f)) c d"
  using assms retired_frame(5) by (auto simp: dropping_def)

lemma dropping_frame:
  assumes "dropping j f c d"
  shows "tc_config (remove_flight j d) = tc_config c"
    "tc_next_task (remove_flight j d) = tc_next_task c"
    "tc_next_flight (remove_flight j d) = tc_next_flight c"
    "tc_sessions (remove_flight j d) = tc_sessions c"
    "bt_get (tc_tasks (remove_flight j d)) i
      = (if i \<in> set (fl_subscribers f) then None else bt_get (tc_tasks c) i)"
    "bt_get (tc_flights (remove_flight j d)) k = (if k = j then None else bt_get (tc_flights c) k)"
    "bt_get (tc_single_flights (remove_flight j d)) key = Some k \<longleftrightarrow>
      bt_get (tc_single_flights c) key = Some k \<and> \<not> (key = fl_key f \<and> k = j)"
    "running_flight_count r (remove_flight j d) = running_flight_count r c
      - (if fl_state f = FlightRunning \<and> fst (fl_key f) = r then 1 else 0)"
    "maps_ok c \<Longrightarrow> maps_ok (remove_flight j d)"
    "length (tc_terminal c) \<le> maximum_terminal_snapshots (tc_config c) \<Longrightarrow>
      length (tc_terminal (remove_flight j d)) \<le> maximum_terminal_snapshots (tc_config c)"
proof -
  note fl = dropping_facts[OF assms]
  note result = remove_flight_frame[OF fl(2)] retired_frame[OF fl(3)]
  have "running_flight_count r d = running_flight_count r c"
    by (simp add: running_flight_count_def result)
  then show "running_flight_count r (remove_flight j d) = running_flight_count r c
      - (if fl_state f = FlightRunning \<and> fst (fl_key f) = r then 1 else 0)"
    using remove_flight_running[OF fl(2)] by simp
qed (simp_all add: remove_flight_frame[OF dropping_facts(2)[OF assms]]
      retired_frame[OF dropping_facts(3)[OF assms]] unindex_get maps_ok_def, auto)

lemma dropping_back:
  assumes "dropping j f c d"
  shows "bt_get (tc_tasks (remove_flight j d)) i = Some t \<Longrightarrow>
      bt_get (tc_tasks c) i = Some t \<and> i \<notin> set (fl_subscribers f)"
    and "bt_get (tc_flights (remove_flight j d)) k = Some g \<longleftrightarrow>
      bt_get (tc_flights c) k = Some g \<and> k \<noteq> j"
  by (auto simp: dropping_frame[OF assms] split: if_splits)

lemma other_subscribers:
  assumes "flights_linked c" "bt_get (tc_flights c) j = Some f" "bt_get (tc_flights c) k = Some g"
    and "k \<noteq> j" "i \<in> set (fl_subscribers g)"
  shows "i \<notin> set (fl_subscribers f)"
proof
  assume "i \<in> set (fl_subscribers f)"
  then obtain t where "bt_get (tc_tasks c) i = Some t" "ts_flight t = j"
    using assms(1,2) unfolding flights_linked_def by blast
  moreover obtain u where "bt_get (tc_tasks c) i = Some u" "ts_flight u = k"
    using assms(1,3,5) unfolding flights_linked_def by blast
  ultimately show False using assms(4) by simp
qed

lemma dropping_other:
  assumes "dropping j f c d" "flights_linked c" "bt_get (tc_flights c) k = Some g" "k \<noteq> j"
  shows "any_eligible (remove_flight j d) g = any_eligible c g"
    and "map (progress_of (remove_flight j d)) (fl_subscribers g) = map (progress_of c) (fl_subscribers g)"
  using other_subscribers[OF assms(2) dropping_facts(1)[OF assms(1)] assms(3,4)]
  by (auto intro!: any_eligible_cong simp: dropping_frame[OF assms(1)] progress_of_def)

lemma dropping_link:
  assumes drop: "dropping j f c d" and "link_inv c"
  shows "link_inv (remove_flight j d)"
proof -
  let ?e = "remove_flight j d"
  have inv: "maps_ok c" "tasks_linked c" "flights_linked c" "index_sound c" "running_counted c"
    using assms by (simp_all add: link_inv_def)
  note flight = dropping_facts(1)[OF drop] and frame = dropping_frame[OF drop]
    and bk = dropping_back[OF drop]
  have "tasks_linked ?e"
    unfolding tasks_linked_def
  proof (intro allI impI)
    fix i t
    assume "bt_get (tc_tasks ?e) i = Some t"
    then have t: "bt_get (tc_tasks c) i = Some t" "i \<notin> set (fl_subscribers f)"
      using bk by blast+
    then obtain g where g: "ts_id t = i" "raw i < tc_next_task c"
      "bt_get (tc_flights c) (ts_flight t) = Some g" "i \<in> set (fl_subscribers g)"
      "fl_key g = (sp_resource (ts_spec t), sp_recipe (ts_spec t))"
      using inv(2) unfolding tasks_linked_def by blast
    with t flight have "ts_flight t \<noteq> j" by auto
    with g show "ts_id t = i \<and> raw i < tc_next_task ?e \<and> (\<exists>f. bt_get (tc_flights ?e) (ts_flight t) = Some f
        \<and> i \<in> set (fl_subscribers f) \<and> fl_key f = (sp_resource (ts_spec t), sp_recipe (ts_spec t)))"
      by (simp add: frame)
  qed
  moreover have "flights_linked ?e"
    unfolding flights_linked_def
  proof (intro allI impI)
    fix k g
    assume "bt_get (tc_flights ?e) k = Some g"
    then have g: "bt_get (tc_flights c) k = Some g" "k \<noteq> j" using bk by blast+
    then show "fl_id g = k \<and> raw k < tc_next_flight ?e \<and> distinct (fl_subscribers g)
        \<and> fl_subscribers g \<noteq> []
        \<and> (\<forall>i \<in> set (fl_subscribers g). \<exists>t. bt_get (tc_tasks ?e) i = Some t \<and> ts_flight t = k)"
      using inv(3) other_subscribers[OF inv(3) flight g] by (simp add: flights_linked_def frame)
  qed
  moreover have "index_sound ?e"
    unfolding index_sound_def
  proof (intro allI impI)
    fix key k
    assume "bt_get (tc_single_flights ?e) key = Some k"
    then have k: "bt_get (tc_single_flights c) key = Some k" "\<not> (key = fl_key f \<and> k = j)"
      by (simp_all add: frame)
    then obtain g where "bt_get (tc_flights c) k = Some g" "fl_key g = key"
      using inv(4) unfolding index_sound_def by blast
    with k(2) flight show "\<exists>f. bt_get (tc_flights ?e) k = Some f \<and> fl_key f = key"
      by (auto simp: frame)
  qed
  moreover have "running_counted ?e"
    unfolding running_counted_def
  proof
    fix r
    let ?p = "\<lambda>f. fl_state f = FlightRunning \<and> fst (fl_key f) = r"
    have "bt_having ?p (tc_flights ?e) = bt_having ?p (tc_flights c) - {j}"
      by (auto simp: bt_having_def frame split: if_splits)
    moreover have "j \<in> bt_having ?p (tc_flights c) \<longleftrightarrow> ?p f"
      using flight by (simp add: bt_having_def)
    ultimately show "running_flight_count r ?e = card (bt_having ?p (tc_flights ?e))"
      using inv(5) by (simp add: running_counted_def card_Diff_singleton_if frame)
  qed
  ultimately show ?thesis using frame(9)[OF inv(1)] by (simp add: link_inv_def)
qed

lemma dropping_limits:
  assumes drop: "dropping j f c d" and inv: "limits_kept c"
  shows "limits_kept (remove_flight j d)"
proof -
  let ?e = "remove_flight j d"
  note frame = dropping_frame[OF drop] and bk = dropping_back[OF drop]
  have "card (bt_having is_eligible (tc_tasks ?e)) \<le> card (bt_having is_eligible (tc_tasks c))"
    by (rule bt_having_mono) (use bk in blast)
  moreover have "card (bt_having (\<lambda>f. fl_state f = FlightQueued) (tc_flights ?e))
      \<le> card (bt_having (\<lambda>f. fl_state f = FlightQueued) (tc_flights c))"
    by (rule bt_having_mono) (use bk in blast)
  moreover have "running_flight_count r ?e \<le> limit_of c r" for r
  proof -
    have "running_flight_count r ?e \<le> running_flight_count r c" by (simp add: frame)
    also have "\<dots> \<le> limit_of c r" using inv by (simp add: limits_kept_def)
    finally show ?thesis .
  qed
  moreover have "limit_of ?e r = limit_of c r" for r by (simp add: limit_of_def frame)
  moreover have "bt_get (tc_tasks ?e) i = Some t \<Longrightarrow>
      length (ts_diagnostics t) \<le> maximum_diagnostics_per_task (tc_config c)" for i t
    using inv bk(1)[of i t] unfolding limits_kept_def by blast
  moreover have "bt_get (tc_flights ?e) k = Some g \<Longrightarrow>
      length (fl_subscribers g) \<le> maximum_subscribers_per_flight (tc_config c)" for k g
    using inv bk(2)[of k g] unfolding limits_kept_def by blast
  moreover have "length (tc_terminal ?e) \<le> maximum_terminal_snapshots (tc_config c)"
    using inv by (simp add: frame limits_kept_def)
  ultimately show ?thesis
    using inv unfolding limits_kept_def frame(1) by auto
qed

lemma dropping_loose:
  assumes drop: "dropping j f c d" and "loose_inv c"
  shows "loose_inv (remove_flight j d)"
proof -
  let ?e = "remove_flight j d"
  have inv: "link_inv c" "states_match c" "index_complete c" "limits_kept c" "progress_uniform c"
    and linked: "flights_linked c"
    using assms by (simp_all add: loose_inv_def link_inv_def)
  note bk = dropping_back[OF drop] and other = dropping_other[OF drop linked]
  have "states_match ?e"
    using inv(2) bk unfolding states_match_def by blast
  moreover have "index_complete ?e"
    using inv(3) other(1) unfolding index_complete_def bk dropping_frame(7)[OF drop] by blast
  moreover have "progress_uniform ?e"
    using inv(5) other(2) unfolding progress_uniform_def bk by metis
  ultimately show ?thesis
    using dropping_link[OF drop inv(1)] dropping_limits[OF drop inv(4)] by (simp add: loose_inv_def)
qed

lemma dropping_inv:
  assumes drop: "dropping j f c d" and "coordinator_inv c"
  shows "coordinator_inv (remove_flight j d)"
proof -
  have linked: "flights_linked c" and tight: "index_tight c" and now: "sessions_current c"
    and loose: "loose_inv c"
    using assms by (simp_all add: coordinator_inv_def loose_inv_def link_inv_def)
  note bk = dropping_back[OF drop] and other = dropping_other[OF drop linked]
  have "index_tight (remove_flight j d)"
    using tight other(1) unfolding index_tight_def bk dropping_frame(7)[OF drop] by blast
  moreover have "sessions_current (remove_flight j d)"
    unfolding sessions_current_def dropping_frame(4)[OF drop]
    using now bk(1) unfolding sessions_current_def by blast
  ultimately show ?thesis using dropping_loose[OF drop loose] by (simp add: coordinator_inv_def)
qed

section \<open>Deadlines\<close>

text \<open>\<open>calmed c d\<close>: \<open>d\<close> is \<open>c\<close> after some flights without an eligible subscriber were removed.\<close>

definition calmed :: "flight_id set \<Rightarrow> task_coordinator \<Rightarrow> task_coordinator \<Rightarrow> bool" where
  "calmed js c d \<longleftrightarrow> tc_config d = tc_config c \<and> tc_next_task d = tc_next_task c
     \<and> tc_next_flight d = tc_next_flight c \<and> tc_sessions d = tc_sessions c
     \<and> (\<forall>i t. bt_get (tc_tasks d) i = Some t \<longrightarrow> bt_get (tc_tasks c) i = Some t)
     \<and> (\<forall>i t. bt_get (tc_tasks c) i = Some t \<longrightarrow> is_eligible t \<longrightarrow> bt_get (tc_tasks d) i = Some t)
     \<and> (\<forall>k g. bt_get (tc_flights d) k = Some g \<longleftrightarrow> bt_get (tc_flights c) k = Some g \<and> k \<notin> js)"

lemma calmed_refl: "calmed {} c c"
  by (simp add: calmed_def)

lemma calmedD:
  assumes "calmed js c d"
  shows "tc_config d = tc_config c" "tc_next_task d = tc_next_task c"
    "tc_next_flight d = tc_next_flight c" "tc_sessions d = tc_sessions c"
    "bt_get (tc_tasks d) i = Some t \<Longrightarrow> bt_get (tc_tasks c) i = Some t"
    "bt_get (tc_tasks c) i = Some t \<Longrightarrow> is_eligible t \<Longrightarrow> bt_get (tc_tasks d) i = Some t"
    "bt_get (tc_flights d) k = Some g \<longleftrightarrow> bt_get (tc_flights c) k = Some g \<and> k \<notin> js"
  using assms unfolding calmed_def by blast+

lemma calmed_trans:
  assumes c: "calmed js c d" and d: "calmed ks d e"
  shows "calmed (js \<union> ks) c e"
proof -
  note c = calmedD[OF c] and d = calmedD[OF d]
  have "tc_config e = tc_config c" "tc_next_task e = tc_next_task c"
    "tc_next_flight e = tc_next_flight c" "tc_sessions e = tc_sessions c"
    by (simp_all add: c(1-4) d(1-4))
  then show ?thesis
    unfolding calmed_def using c(5-7) d(5-7) by blast
qed

lemma retire_abandoned_flight_step:
  assumes inv: "coordinator_inv c" and f: "bt_get (tc_flights c) j = Some f" "\<not> any_eligible c f"
  shows "\<exists>d. retire_abandoned_flight j c = Some d \<and> coordinator_inv d \<and> calmed {j} c d"
proof -
  let ?d = "fold (\<lambda>i c. retire_task i (abandoned_state c i) c) (fl_subscribers f) c"
  have "retired (set (fl_subscribers f)) c ?d"
    by (rule retired_fold) (rule retired_task)
  then have drop: "dropping j f c ?d" using f by (simp add: dropping_def)
  have "bt_get (tc_tasks (remove_flight j ?d)) i = Some t"
    if "bt_get (tc_tasks c) i = Some t" "is_eligible t" for i t
    using that f(2) by (auto simp: dropping_frame(5)[OF drop] any_eligible_iff)
  then have "calmed {j} c (remove_flight j ?d)"
    unfolding calmed_def dropping_frame(1-4)[OF drop] dropping_back(2)[OF drop]
    using dropping_back(1)[OF drop] by blast
  then show ?thesis
    using dropping_inv[OF drop inv] f(1) by (simp add: retire_abandoned_flight_def)
qed

lemma fold_abandoned:
  assumes "coordinator_inv c" "distinct js"
    and "\<And>j. j \<in> set js \<Longrightarrow> \<exists>f. bt_get (tc_flights c) j = Some f \<and> \<not> any_eligible c f"
  shows "\<exists>d. fold_option retire_abandoned_flight js c = Some d \<and> coordinator_inv d
    \<and> calmed (set js) c d"
  using assms
proof (induction js arbitrary: c)
  case (Cons j js)
  from Cons.prems(3) obtain f where f: "bt_get (tc_flights c) j = Some f" "\<not> any_eligible c f"
    by auto
  from retire_abandoned_flight_step[OF Cons.prems(1) f] obtain d where d:
    "retire_abandoned_flight j c = Some d" "coordinator_inv d" "calmed {j} c d" by blast
  have "\<exists>f. bt_get (tc_flights d) k = Some f \<and> \<not> any_eligible d f" if k: "k \<in> set js" for k
  proof -
    from Cons.prems(3)[of k] k obtain g where g: "bt_get (tc_flights c) k = Some g"
      "\<not> any_eligible c g" by auto
    moreover have "k \<noteq> j" using k Cons.prems(2) by auto
    moreover have "any_eligible d g \<Longrightarrow> any_eligible c g"
      using calmedD(5)[OF d(3)] unfolding any_eligible_iff by blast
    ultimately show ?thesis
      using calmedD(7)[OF d(3)] by blast
  qed
  with Cons.IH[OF d(2)] Cons.prems(2) obtain e where e:
    "fold_option retire_abandoned_flight js d = Some e" "coordinator_inv e" "calmed (set js) d e"
    by auto
  with calmed_trans[OF d(3) e(3)] d(1) show ?case by simp
qed (simp add: calmed_refl)

lemma retire_abandoned_total:
  assumes "coordinator_inv c"
  shows "\<exists>d js. retire_abandoned_queued_flights c = Some d \<and> coordinator_inv d \<and> calmed js c d
    \<and> (\<forall>j \<in> js. \<exists>f. bt_get (tc_flights c) j = Some f \<and> fl_state f = FlightQueued \<and> \<not> any_eligible c f)"
proof -
  let ?p = "\<lambda>f. fl_state f = FlightQueued \<and> \<not> any_eligible c f"
  let ?js = "map fl_id (filter ?p (bt_values (tc_flights c)))"
  have ok: "bt_ok (tc_flights c)" and ids: "\<And>j f. bt_get (tc_flights c) j = Some f \<Longrightarrow> fl_id f = j"
    using assms by (auto simp: coordinator_inv_def loose_inv_def link_inv_def maps_ok_def
        flights_linked_def)
  have "map fl_id (bt_values (tc_flights c)) = map fst (tc_flights c)"
    using ids by (auto simp: bt_values_def bt_get_iff[OF ok])
  then have "distinct (map fl_id (bt_values (tc_flights c)))"
    using bt_ok_distinct[OF ok] by simp
  then have dist: "distinct ?js"
    by (rule distinct_map_filter)
  have js: "\<exists>f. bt_get (tc_flights c) j = Some f \<and> ?p f" if "j \<in> set ?js" for j
    using that ids by (auto simp: bt_values_in[OF ok])
  then have js': "\<exists>f. bt_get (tc_flights c) j = Some f \<and> \<not> any_eligible c f" if "j \<in> set ?js" for j
    using that by blast
  from fold_abandoned[OF assms dist js'] obtain d where
    "fold_option retire_abandoned_flight ?js c = Some d" "coordinator_inv d" "calmed (set ?js) c d"
    by blast
  with js show ?thesis
    unfolding retire_abandoned_queued_flights_def Let_def by blast
qed

text \<open>\<open>expired now c d\<close>: what \<open>expire\<close> did to the tasks and the flights.\<close>

definition expired :: "task_instant \<Rightarrow> task_coordinator \<Rightarrow> task_coordinator \<Rightarrow> bool" where
  "expired now c d \<longleftrightarrow> tc_config d = tc_config c \<and> tc_next_task d = tc_next_task c
     \<and> tc_next_flight d = tc_next_flight c \<and> tc_sessions d = tc_sessions c
     \<and> (\<forall>i t. bt_get (tc_tasks d) i = Some t \<longrightarrow> is_eligible t \<longrightarrow>
          bt_get (tc_tasks c) i = Some t \<and> \<not> deadline_elapsed (sp_deadline (ts_spec t)) now)
     \<and> (\<forall>i t. bt_get (tc_tasks c) i = Some t \<longrightarrow> is_eligible t \<longrightarrow>
          \<not> deadline_elapsed (sp_deadline (ts_spec t)) now \<longrightarrow> bt_get (tc_tasks d) i = Some t)
     \<and> (\<forall>j f. bt_get (tc_flights c) j = Some f \<longrightarrow> fl_state f = FlightRunning \<longrightarrow>
          (\<exists>g. bt_get (tc_flights d) j = Some g \<and> fl_key g = fl_key f \<and> fl_state g = FlightRunning
             \<and> fl_subscribers g = fl_subscribers f))
     \<and> (\<forall>j g. bt_get (tc_flights d) j = Some g \<longrightarrow> (\<exists>f. bt_get (tc_flights c) j = Some f
          \<and> fl_key g = fl_key f \<and> fl_state g = fl_state f \<and> fl_subscribers g = fl_subscribers f))"

lemma coordinator_parts:
  assumes "coordinator_inv c"
  shows "maps_ok c" "tasks_linked c" "flights_linked c" "index_sound c" "running_counted c"
    "states_match c" "index_complete c" "limits_kept c" "progress_uniform c" "index_tight c"
    "sessions_current c" "link_inv c" "loose_inv c"
    "bt_ok (tc_tasks c)" "bt_ok (tc_flights c)" "bt_ok (tc_single_flights c)"
  using assms by (simp_all add: coordinator_inv_def loose_inv_def link_inv_def maps_ok_def)

lemma expire_total:
  assumes inv: "coordinator_inv c"
  shows "\<exists>d. expire now c = Some d \<and> coordinator_inv d \<and> expired now c d"
proof -
  let ?p = "\<lambda>t. is_eligible t \<and> deadline_elapsed (sp_deadline (ts_spec t)) now"
  let ?m = "mark_all DeadlineExceeded (tasks_with ?p c) c"
  let ?u = "cancel_unobserved_flights ?m"
  note parts = coordinator_parts[OF inv]
  have u: "coordinator_inv ?u"
    by (rule cancel_round_inv) (simp_all add: parts)
  from retire_abandoned_total[OF u] obtain d js where d:
    "retire_abandoned_queued_flights ?u = Some d" "coordinator_inv d" "calmed js ?u d"
    and js: "\<And>j. j \<in> js \<Longrightarrow> \<exists>f. bt_get (tc_flights ?u) j = Some f \<and> fl_state f = FlightQueued"
    by blast
  have tasks: "bt_get (tc_tasks ?u) i
      = map_option (\<lambda>t. if ?p t then cancel_state DeadlineExceeded t else t) (bt_get (tc_tasks c) i)" for i
    by (cases "bt_get (tc_tasks c) i") (auto simp: frame_simps in_tasks_with[OF parts(14)])
  have "expired now c d"
    unfolding expired_def
  proof (intro conjI allI impI)
    fix i t assume t: "bt_get (tc_tasks d) i = Some t" "is_eligible t"
    from t(1) have "bt_get (tc_tasks ?u) i = Some t" by (rule calmedD(5)[OF d(3)])
    with t(2) show "bt_get (tc_tasks c) i = Some t" "\<not> deadline_elapsed (sp_deadline (ts_spec t)) now"
      by (auto simp: tasks cancel_state_fixed split: if_splits)
  next
    fix i t assume "bt_get (tc_tasks c) i = Some t" "is_eligible t"
      "\<not> deadline_elapsed (sp_deadline (ts_spec t)) now"
    then show "bt_get (tc_tasks d) i = Some t"
      by (intro calmedD(6)[OF d(3)]) (simp_all add: tasks)
  next
    fix j f assume f: "bt_get (tc_flights c) j = Some f" "fl_state f = FlightRunning"
    then have g: "bt_get (tc_flights ?u) j = Some (observe_flight ?m f)"
      by (simp add: frame_simps)
    with f(2) js have "j \<notin> js" by fastforce
    with g have "bt_get (tc_flights d) j = Some (observe_flight ?m f)"
      by (simp add: calmedD(7)[OF d(3)])
    with f(2) show "\<exists>g. bt_get (tc_flights d) j = Some g \<and> fl_key g = fl_key f
        \<and> fl_state g = FlightRunning \<and> fl_subscribers g = fl_subscribers f" by simp
  next
    fix j g assume "bt_get (tc_flights d) j = Some g"
    then have "bt_get (tc_flights ?u) j = Some g" by (simp add: calmedD(7)[OF d(3)])
    then show "\<exists>f. bt_get (tc_flights c) j = Some f \<and> fl_key g = fl_key f
        \<and> fl_state g = fl_state f \<and> fl_subscribers g = fl_subscribers f"
      by (auto simp: frame_simps)
  qed (simp_all add: calmedD(1-4)[OF d(3)] frame_simps)
  with d(1,2) show ?thesis by (simp add: expire_def)
qed

end
