(* ===== verification/Task_Operations.thy ===== *)
theory Task_Operations
  imports Task_Safety
begin

text \<open>
  Preservation of the invariant by the public operations of the coordinator, and what submission
  and dispatch return.
\<close>

lemma coordinator_new_inv: "coordinator_new cfg = Inr c \<Longrightarrow> coordinator_inv c"
  by (auto simp: coordinator_new_def result_simps coordinator_inv_def loose_inv_def link_inv_def
      maps_ok_def tasks_linked_def flights_linked_def index_sound_def running_counted_def
      states_match_def index_complete_def index_tight_def sessions_current_def limits_kept_def
      progress_uniform_def bt_having_def running_flight_count_def)

section \<open>Sessions\<close>

lemma loose_inv_sessions:
  "loose_inv (c\<lparr>tc_sessions := m\<rparr>) \<longleftrightarrow> loose_inv c" if "bt_ok m" "bt_ok (tc_sessions c)"
  using that
  by (simp add: loose_inv_def link_inv_def maps_ok_def tasks_linked_def flights_linked_def
      index_sound_def running_counted_def states_match_def index_complete_def limits_kept_def
      progress_uniform_def running_flight_count_def any_eligible_iff limit_of_def
      progress_of_def[abs_def])

lemma session_change_inv:
  assumes inv: "coordinator_inv c" and m: "bt_ok m"
    and kept: "\<And>s. s \<noteq> session \<Longrightarrow> bt_get m s = bt_get (tc_sessions c) s"
    and affected: "\<And>t. task_session_of t = session \<Longrightarrow> \<not> p t \<Longrightarrow>
      bt_get m session = Some (sp_generation (ts_spec t))"
  shows "coordinator_inv (cancel_unobserved_flights (mark_all r
    (tasks_with p (c\<lparr>tc_sessions := m\<rparr>)) (c\<lparr>tc_sessions := m\<rparr>)))"
proof -
  note parts = coordinator_parts[OF inv]
  let ?c = "c\<lparr>tc_sessions := m\<rparr>"
  have loose: "loose_inv ?c"
    using parts(13) loose_inv_sessions[OF m] parts(1) by (simp add: maps_ok_def)
  have "sessions_current (mark_all r (tasks_with p ?c) ?c)"
    unfolding sessions_current_def
  proof (intro allI impI)
    fix i t
    assume t: "bt_get (tc_tasks (mark_all r (tasks_with p ?c) ?c)) i = Some t" "is_eligible t"
    then obtain u where u: "bt_get (tc_tasks c) i = Some u"
      "t = (if i \<in> set (tasks_with p ?c) then cancel_state r u else u)"
      by (auto simp: frame_simps)
    with t(2) have "t = u" "i \<notin> set (tasks_with p ?c)" by (auto split: if_splits)
    with u(1) have "\<not> p t" using in_tasks_with[of ?c i p] parts(14) by simp
    moreover have "bt_get (tc_sessions c) (task_session_of t) = Some (sp_generation (ts_spec t))"
      using parts(11) u(1) t(2) \<open>t = u\<close> by (simp add: sessions_current_def)
    ultimately have "bt_get m (task_session_of t) = Some (sp_generation (ts_spec t))"
      using kept affected by (cases "task_session_of t = session") auto
    then show "bt_get (tc_sessions (mark_all r (tasks_with p ?c) ?c)) (task_session_of t)
        = Some (sp_generation (ts_spec t))"
      by (simp add: frame_simps)
  qed
  with cancel_round[OF loose] show ?thesis by (simp add: coordinator_inv_def)
qed

lemma observe_session_inv:
  assumes "coordinator_inv c"
  shows "coordinator_inv (snd (observe_session s g c))"
proof -
  have "bt_ok (tc_sessions c)"
    using assms by (simp add: coordinator_parts(1)[unfolded maps_ok_def])
  then have "coordinator_inv (cancel_unobserved_flights (mark_all SessionAdvanced
      (tasks_with (\<lambda>t. task_session_of t = s \<and> sp_generation (ts_spec t) \<noteq> g)
        (c\<lparr>tc_sessions := bt_insert s g (tc_sessions c)\<rparr>))
      (c\<lparr>tc_sessions := bt_insert s g (tc_sessions c)\<rparr>)))"
    by (intro session_change_inv[OF assms, of _ s]) auto
  with assms show ?thesis
    by (simp add: observe_session_def Let_def split: option.split)
qed

lemma close_session_inv:
  assumes "coordinator_inv c"
  shows "coordinator_inv (close_session s c)"
proof -
  have "bt_ok (tc_sessions c)"
    using assms by (simp add: coordinator_parts(1)[unfolded maps_ok_def])
  then show ?thesis
    unfolding close_session_def Let_def
    by (intro session_change_inv[OF assms, of _ s]) auto
qed

section \<open>Cancellation requests\<close>

lemma mark_all_single: "snd (mark_cancelling i r c) = mark_all r [i] c"
  by (simp add: mark_all_def)

lemma cancel_task_inv:
  assumes "coordinator_inv c"
  shows "coordinator_inv (snd (cancel_task i r c))"
  using cancel_round_inv[OF coordinator_parts(13,11)[OF assms], of r "[i]"] assms
  by (simp add: cancel_task_def mark_all_single split: prod.split)
    (metis mark_all_single snd_conv)

lemma cancel_owner_marks:
  "snd (fold (\<lambda>i (n, c). case mark_cancelling i r c of
       (changed, c) \<Rightarrow> (n + (if changed then 1 else 0), c)) ids (n, c)) = mark_all r ids c"
proof (induction ids arbitrary: n c)
  case (Cons i ids)
  then show ?case
    by (cases "mark_cancelling i r c") (simp add: mark_all_def)
qed (simp add: mark_all_def)

lemma cancel_owner_result:
  "snd (cancel_owner owner c) = cancel_unobserved_flights
     (mark_all Requested (tasks_with (\<lambda>t. sp_owner (ts_spec t) = owner) c) c)"
  unfolding cancel_owner_def
  by (subst cancel_owner_marks[symmetric, of _ _ _ 0]) (simp add: split_beta)

lemma cancel_owner_inv:
  assumes "coordinator_inv c"
  shows "coordinator_inv (snd (cancel_owner owner c))"
  unfolding cancel_owner_result
  by (rule cancel_round_inv) (use coordinator_parts[OF assms] in simp_all)

section \<open>Progress and diagnostics\<close>

lemma updated_any_eligible_iff:
  assumes "tasks_updated g c d" "\<And>i t. is_eligible (g i t) = is_eligible t"
  shows "any_eligible d f = any_eligible c f"
proof -
  have "task_eligible d i = task_eligible c i" for i
    by (cases "bt_get (tc_tasks c) i")
      (simp_all add: task_eligible_def tasks_updated_frame[OF assms(1)] assms(2))
  then show ?thesis by (simp add: any_eligible_def list_ex_iff)
qed

text \<open>An update that changes neither identity nor state of any task keeps all but progress.\<close>

lemma updated_inv:
  assumes up: "tasks_updated g c d" and inv: "coordinator_inv c"
    and same: "\<And>i t. ts_id (g i t) = ts_id t" "\<And>i t. ts_flight (g i t) = ts_flight t"
      "\<And>i t. ts_spec (g i t) = ts_spec t" "\<And>i t. ts_state (g i t) = ts_state t"
    and diag: "\<And>i t. length (ts_diagnostics t) \<le> maximum_diagnostics_per_task (tc_config c)
      \<Longrightarrow> 0 < maximum_diagnostics_per_task (tc_config c)
      \<Longrightarrow> length (ts_diagnostics (g i t)) \<le> maximum_diagnostics_per_task (tc_config c)"
    and prog: "progress_uniform d"
  shows "coordinator_inv d"
proof -
  note parts = coordinator_parts[OF inv]
  have elig: "is_eligible (g i t) = is_eligible t" for i t
    by (simp add: is_eligible_def same)
  have id: "keeps_identity g" by (simp add: keeps_identity_def same elig)
  have "index_tight d"
    using parts(10) updated_any_eligible_iff[OF up elig]
    by (simp add: index_tight_def tasks_updated_frame[OF up])
  moreover have "states_match d"
    by (rule updated_states_match[OF up id parts(6)]) (simp add: same)
  ultimately show ?thesis
    using updated_link_inv[OF up id parts(12)] updated_index_complete[OF up id parts(7)]
      updated_sessions_current[OF up id parts(11)] updated_limits_kept[OF up id diag parts(8)] prog
    by (simp add: coordinator_inv_def loose_inv_def)
qed

lemma add_diagnostic_simps [simp]:
  "ts_id (add_diagnostic n d t) = ts_id t" "ts_flight (add_diagnostic n d t) = ts_flight t"
  "ts_spec (add_diagnostic n d t) = ts_spec t" "ts_state (add_diagnostic n d t) = ts_state t"
  "ts_progress (add_diagnostic n d t) = ts_progress t"
  by (simp_all add: add_diagnostic_def Let_def)

lemma add_diagnostic_bound:
  "length (ts_diagnostics t) \<le> n \<Longrightarrow> 0 < n \<Longrightarrow> length (ts_diagnostics (add_diagnostic n d t)) \<le> n"
  by (simp add: add_diagnostic_def Let_def)

lemma push_diagnostic_updated:
  "tasks_updated (\<lambda>k t. if k = i then add_diagnostic (maximum_diagnostics_per_task (tc_config c)) d t
     else t) c (push_diagnostic i d c)"
  by (simp add: tasks_updated_def push_diagnostic_def option.map_ident)

lemma push_diagnostic_inv:
  assumes "coordinator_inv c"
  shows "coordinator_inv (push_diagnostic i d c)"
  by (rule updated_inv[OF push_diagnostic_updated assms])
    (auto simp: add_diagnostic_bound
      intro!: updated_progress_uniform[OF push_diagnostic_updated coordinator_parts(9)[OF assms]])

text \<open>Adding diagnostics changes neither the flights nor what the gates look at.\<close>

definition same_gates :: "task_coordinator \<Rightarrow> task_coordinator \<Rightarrow> bool" where
  "same_gates c d \<longleftrightarrow> tc_sessions d = tc_sessions c \<and> tc_flights d = tc_flights c
     \<and> tc_config d = tc_config c \<and> tc_next_task d = tc_next_task c
     \<and> tc_next_flight d = tc_next_flight c
     \<and> (\<forall>i. map_option (\<lambda>t. (ts_spec t, ts_state t)) (bt_get (tc_tasks d) i)
          = map_option (\<lambda>t. (ts_spec t, ts_state t)) (bt_get (tc_tasks c) i))"

lemma same_gates_refl: "same_gates c c"
  by (simp add: same_gates_def)

lemma same_gates_trans: "same_gates c d \<Longrightarrow> same_gates d e \<Longrightarrow> same_gates c e"
  by (simp add: same_gates_def)

lemma push_diagnostic_gates: "same_gates c (push_diagnostic i d c)"
  by (auto simp: same_gates_def push_diagnostic_def option.map_comp o_def)

lemma push_diagnostics_inv:
  assumes "coordinator_inv c"
  shows "coordinator_inv (fold (\<lambda>i. push_diagnostic i d) ids c)
    \<and> same_gates c (fold (\<lambda>i. push_diagnostic i d) ids c)"
  using assms
proof (induction ids arbitrary: c)
  case (Cons i ids)
  from Cons.IH[OF push_diagnostic_inv[OF Cons.prems, of i d]]
  show ?case using same_gates_trans[OF push_diagnostic_gates] by auto
qed (simp add: same_gates_refl)

lemma push_all_diagnostics_inv:
  assumes "coordinator_inv c"
  shows "coordinator_inv (fold (\<lambda>d. fold (\<lambda>i. push_diagnostic i d) ids) ds c)
    \<and> same_gates c (fold (\<lambda>d. fold (\<lambda>i. push_diagnostic i d) ids) ds c)"
  using assms
proof (induction ds arbitrary: c)
  case (Cons d ds)
  from push_diagnostics_inv[OF Cons.prems, of d ids] Cons.IH
  show ?case using same_gates_trans by fastforce
qed (simp add: same_gates_refl)

lemma report_diagnostic_inv:
  "coordinator_inv c \<Longrightarrow> coordinator_inv (snd (report_diagnostic j d c))"
  using push_diagnostics_inv[of c d] by (simp add: report_diagnostic_def split: option.split)

text \<open>
  The loop of \<open>report_progress\<close>: since the subscribers that have progress agree, it is either
  refused at its first step or accepted by all.
\<close>

definition set_progress :: "task_progress \<Rightarrow> task_snapshot \<Rightarrow> task_snapshot" where
  "set_progress p t = t\<lparr>ts_progress := Some p\<rparr>"

lemma progress_loop_accepts:
  assumes "distinct ids"
    and "\<And>i t q. i \<in> set ids \<Longrightarrow> bt_get ts i = Some t \<Longrightarrow> ts_progress t = Some q \<Longrightarrow> progress_follows p q"
  shows "progress_loop p ids ts = (Inr (), fold (\<lambda>i. bt_modify i (set_progress p)) ids ts)"
  using assms
proof (induction ids arbitrary: ts)
  case (Cons i ids)
  have "progress_loop p ids (bt_modify i (set_progress p) ts)
      = (Inr (), fold (\<lambda>i. bt_modify i (set_progress p)) ids (bt_modify i (set_progress p) ts))"
    using Cons.prems by (intro Cons.IH) (auto split: if_splits)
  moreover have "bt_modify i (set_progress p) ts = ts" if "bt_get ts i = None"
    using that by (simp add: bt_modify_def)
  ultimately show ?case
    using Cons.prems(2)[of i]
    by (auto simp: set_progress_def[abs_def] split: option.split)
qed simp

lemma progress_loop_refuses:
  assumes "bt_get ts i = Some t" "ts_progress t = Some q" "\<not> progress_follows p q"
  shows "progress_loop p (i # ids) ts = (Inl (Progress Regression), ts)"
  using assms by simp

lemma uniform_Cons_Some:
  "uniform (Some q # ps) \<Longrightarrow> Some p \<in> set ps \<Longrightarrow> p = q"
proof -
  assume "uniform (Some q # ps)" and p: "Some p \<in> set ps"
  then obtain r n m where e: "Some q # ps = replicate n (Some r) @ replicate m None"
    by (auto simp: uniform_def)
  then have "set (Some q # ps) \<subseteq> {Some r, None}"
    unfolding e by auto
  with p show "p = q" by auto
qed

lemma uniform_Cons_None: "uniform (None # ps) \<Longrightarrow> Some p \<notin> set ps"
proof -
  assume "uniform (None # ps)"
  then obtain r n m where e: "None # ps = replicate n (Some r) @ replicate m None"
    by (auto simp: uniform_def)
  then have "n = 0" by (cases n) auto
  with e have "None # ps = replicate m None" by simp
  then have "set (None # ps) \<subseteq> {None}" by (metis set_replicate_conv_if empty_subsetI order_refl)
  then show ?thesis by auto
qed

lemma uniform_replicate [simp]: "uniform (replicate n (Some p))"
  unfolding uniform_def by (metis append_Nil2 replicate_0)

lemma uniform_snoc: "uniform ps \<Longrightarrow> uniform (ps @ [None])"
  unfolding uniform_def by (metis append.assoc replicate_append_same replicate_Suc)

lemma set_progress_updated:
  assumes "distinct ids"
  shows "tasks_updated (\<lambda>k. if k \<in> set ids then set_progress p else id) c
    (c\<lparr>tc_tasks := fold (\<lambda>i. bt_modify i (set_progress p)) ids (tc_tasks c)\<rparr>)"
  by (simp add: tasks_updated_def bt_ok_fold_modify bt_get_fold_modify[OF assms])

lemma set_progress_simps [simp]:
  "ts_id (set_progress p t) = ts_id t" "ts_flight (set_progress p t) = ts_flight t"
  "ts_spec (set_progress p t) = ts_spec t" "ts_state (set_progress p t) = ts_state t"
  "ts_diagnostics (set_progress p t) = ts_diagnostics t" "ts_progress (set_progress p t) = Some p"
  by (simp_all add: set_progress_def)

lemma set_progress_inv:
  assumes inv: "coordinator_inv c" and f: "bt_get (tc_flights c) j = Some f"
  shows "coordinator_inv (c\<lparr>tc_tasks := fold (\<lambda>i. bt_modify i (set_progress p)) (fl_subscribers f)
    (tc_tasks c)\<rparr>)" (is "coordinator_inv ?d")
proof -
  note parts = coordinator_parts[OF inv]
  have dist: "distinct (fl_subscribers f)"
    using parts(3) f by (simp add: flights_linked_def)
  have prog: "progress_of ?d i = (if i \<in> set (fl_subscribers f)
      then map_option (\<lambda>_. p) (bt_get (tc_tasks c) i) else progress_of c i)" for i
    by (cases "bt_get (tc_tasks c) i") (simp_all add: progress_of_def bt_get_fold_modify[OF dist])
  have "progress_uniform ?d"
    unfolding progress_uniform_def
  proof (intro allI impI)
    fix k g assume "bt_get (tc_flights ?d) k = Some g"
    then have g: "bt_get (tc_flights c) k = Some g" by simp
    show "uniform (map (progress_of ?d) (fl_subscribers g))"
    proof (cases "k = j")
      case True
      have "progress_of ?d i = Some p" if i: "i \<in> set (fl_subscribers g)" for i
      proof -
        obtain t where "bt_get (tc_tasks c) i = Some t"
          using parts(3) g i unfolding flights_linked_def by blast
        moreover have "g = f" using True f g by simp
        ultimately show ?thesis using i by (simp add: prog)
      qed
      then have "map (progress_of ?d) (fl_subscribers g)
          = replicate (length (fl_subscribers g)) (Some p)"
        by (intro nth_equalityI) simp_all
      then show ?thesis by simp
    next
      case False
      have "map (progress_of ?d) (fl_subscribers g) = map (progress_of c) (fl_subscribers g)"
        using other_subscribers[OF parts(3) f g False] by (simp add: prog)
      then show ?thesis using parts(9) g unfolding progress_uniform_def by metis
    qed
  qed
  then show ?thesis
    by (intro updated_inv[OF set_progress_updated[OF dist] inv]) simp_all
qed

text \<open>A report of progress reaches every subscriber, or changes nothing.\<close>

lemma report_progress_cases:
  assumes inv: "coordinator_inv c"
  obtains (refused) e where "report_progress j p c = (Inl e, c)"
  | (accepted) f where "bt_get (tc_flights c) j = Some f" "fl_state f = FlightRunning"
      "progress_validate p = Inr ()"
      "report_progress j p c = (Inr (), c\<lparr>tc_tasks := fold (\<lambda>i. bt_modify i (set_progress p))
        (fl_subscribers f) (tc_tasks c)\<rparr>)"
proof (cases "\<exists>f. bt_get (tc_flights c) j = Some f \<and> fl_state f = FlightRunning
    \<and> progress_validate p = Inr ()")
  case False
  then have "\<exists>e. report_progress j p c = (Inl e, c)"
    by (auto simp: report_progress_def split: sum.split option.split)
  then show thesis using refused by blast
next
  case True
  then obtain f where f: "bt_get (tc_flights c) j = Some f" "fl_state f = FlightRunning"
    "progress_validate p = Inr ()" by blast
  note parts = coordinator_parts[OF inv]
  obtain i ids where ids: "fl_subscribers f = i # ids" and dist: "distinct (i # ids)"
    using parts(3) f(1) unfolding flights_linked_def by (metis neq_Nil_conv)
  have "i \<in> set (fl_subscribers f)" by (simp add: ids)
  then obtain t where t: "bt_get (tc_tasks c) i = Some t"
    using parts(3) f(1) unfolding flights_linked_def by blast
  have uni: "uniform (ts_progress t # map (progress_of c) ids)"
  proof -
    have "uniform (map (progress_of c) (fl_subscribers f))"
      using parts(9) f(1) by (simp add: progress_uniform_def)
    moreover have "progress_of c i = ts_progress t" by (simp add: progress_of_def t)
    ultimately show ?thesis by (simp add: ids)
  qed
  show thesis
  proof (cases "\<exists>q. ts_progress t = Some q \<and> \<not> progress_follows p q")
    case True
    then obtain q where q: "ts_progress t = Some q" "\<not> progress_follows p q" by blast
    from progress_loop_refuses[OF t q, of ids] f have "report_progress j p c = (Inl (Progress Regression), c)"
      by (simp add: report_progress_def ids del: progress_loop.simps)
    then show thesis using refused by blast
  next
    case False
    have "progress_follows p q"
      if u: "k \<in> set (i # ids)" "bt_get (tc_tasks c) k = Some u" "ts_progress u = Some q" for k u q
    proof (cases "k = i")
      case True
      then show ?thesis using u False t by auto
    next
      case k: False
      then have "Some q \<in> set (map (progress_of c) ids)"
        using u by (force simp: progress_of_def)
      moreover from this have "ts_progress t \<noteq> None"
        using uniform_Cons_None[of "map (progress_of c) ids" q] uni by metis
      ultimately have "ts_progress t = Some q"
        using uniform_Cons_Some uni by fastforce
      then show ?thesis using False by auto
    qed
    from progress_loop_accepts[OF dist, of "tc_tasks c" p] this
    have "progress_loop p (fl_subscribers f) (tc_tasks c)
        = (Inr (), fold (\<lambda>i. bt_modify i (set_progress p)) (fl_subscribers f) (tc_tasks c))"
      unfolding ids by blast
    with f show thesis by (intro accepted) (simp_all add: report_progress_def)
  qed
qed

lemma report_progress_inv:
  assumes "coordinator_inv c"
  shows "coordinator_inv (snd (report_progress j p c))"
  using assms by (rule report_progress_cases[of c j p]) (simp_all add: assms set_progress_inv)

end
