(* ===== verification/Task_Admission.thy ===== *)
theory Task_Admission
  imports Task_Operations
begin

text \<open>
  Submission: joining a flight and starting a flight keep the invariant and the limits, the
  index always leads to a flight that can be shared, and the panics are unreachable.
\<close>

lemma new_snapshot_simps [simp]:
  "ts_id (new_snapshot i j spec st) = i" "ts_flight (new_snapshot i j spec st) = j"
  "ts_spec (new_snapshot i j spec st) = spec"
  "ts_state (new_snapshot i j spec st) = state_of_flight st"
  "ts_progress (new_snapshot i j spec st) = None" "ts_diagnostics (new_snapshot i j spec st) = []"
  "is_eligible (new_snapshot i j spec st)"
  by (simp_all add: new_snapshot_def state_of_flight_def is_eligible_def split: flight_state.split)

lemma fresh_task:
  assumes "tasks_linked c" "flights_linked c"
  shows "bt_get (tc_tasks c) (Id (tc_next_task c)) = None"
    and "bt_get (tc_flights c) k = Some g \<Longrightarrow> Id (tc_next_task c) \<notin> set (fl_subscribers g)"
proof -
  show none: "bt_get (tc_tasks c) (Id (tc_next_task c)) = None"
  proof (rule ccontr)
    assume "bt_get (tc_tasks c) (Id (tc_next_task c)) \<noteq> None"
    then obtain t where "bt_get (tc_tasks c) (Id (tc_next_task c)) = Some t" by auto
    with assms(1) have "raw (Id (tc_next_task c) :: task_id) < tc_next_task c"
      unfolding tasks_linked_def by blast
    then show False by simp
  qed
  show "Id (tc_next_task c) \<notin> set (fl_subscribers g)" if "bt_get (tc_flights c) k = Some g"
    using assms(2) none that unfolding flights_linked_def by fastforce
qed

lemma fresh_flight:
  assumes "flights_linked c"
  shows "bt_get (tc_flights c) (Id (tc_next_flight c)) = None"
proof (rule ccontr)
  assume "bt_get (tc_flights c) (Id (tc_next_flight c)) \<noteq> None"
  then obtain f where "bt_get (tc_flights c) (Id (tc_next_flight c)) = Some f" by auto
  with assms have "raw (Id (tc_next_flight c) :: flight_id) < tc_next_flight c"
    unfolding flights_linked_def by blast
  then show False by simp
qed

section \<open>Capacity\<close>

lemma capacity_bound:
  assumes ok: "bt_ok (tc_tasks c)" and now: "sessions_current c"
    and cap: "check_active_capacity_for spec c = Inr u"
    and cur: "bt_get (tc_sessions c) (sc_session (os_scope (sp_owner spec))) = Some (sp_generation spec)"
  shows "card (bt_having is_eligible (tc_tasks c)) < maximum_active_tasks (tc_config c)"
proof -
  let ?old = "\<lambda>t. sp_owner (ts_spec t) = sp_owner spec \<and> sp_generation (ts_spec t) < sp_generation spec"
  have "bt_having is_eligible (tc_tasks c) \<inter> bt_having ?old (tc_tasks c) = {}"
    using now cur by (fastforce simp: bt_having_def sessions_current_def task_session_of_def)
  then have "card (bt_having is_eligible (tc_tasks c)) + card (bt_having ?old (tc_tasks c))
      = card (bt_having is_eligible (tc_tasks c) \<union> bt_having ?old (tc_tasks c))"
    by (simp add: card_Un_disjoint)
  also have "\<dots> \<le> card (bt_having (\<lambda>_. True) (tc_tasks c))"
    by (rule card_mono[OF finite_bt_having]) (auto simp: bt_having_def)
  finally have "card (bt_having is_eligible (tc_tasks c))
      \<le> length (tc_tasks c) - length (filter ?old (bt_values (tc_tasks c)))"
    by (simp add: bt_length[OF ok] bt_count[OF ok])
  then show ?thesis
    using cap by (simp add: check_active_capacity_for_def result_simps)
qed

section \<open>Joining a flight\<close>

definition joined :: "task_spec \<Rightarrow> flight_id \<Rightarrow> flight_record \<Rightarrow> task_coordinator \<Rightarrow> task_coordinator" where
  "joined spec j f c =
     c\<lparr>tc_next_task := sat_add_u64 (tc_next_task c) 1,
       tc_tasks := bt_insert (Id (tc_next_task c))
         (new_snapshot (Id (tc_next_task c)) j spec (fl_state f)) (tc_tasks c),
       tc_flights := bt_modify j
         (\<lambda>f. f\<lparr>fl_subscribers := fl_subscribers f @ [Id (tc_next_task c)]\<rparr>) (tc_flights c)\<rparr>"

lemma joined_frame:
  "tc_config (joined spec j f c) = tc_config c"
  "tc_next_flight (joined spec j f c) = tc_next_flight c"
  "tc_sessions (joined spec j f c) = tc_sessions c"
  "tc_single_flights (joined spec j f c) = tc_single_flights c"
  "running_flight_count r (joined spec j f c) = running_flight_count r c"
  "tc_terminal (joined spec j f c) = tc_terminal c"
  "bt_get (tc_tasks (joined spec j f c)) i
     = (if i = Id (tc_next_task c) then Some (new_snapshot (Id (tc_next_task c)) j spec (fl_state f))
        else bt_get (tc_tasks c) i)"
  "bt_get (tc_flights (joined spec j f c)) k
     = (if k = j then map_option (\<lambda>f. f\<lparr>fl_subscribers := fl_subscribers f @ [Id (tc_next_task c)]\<rparr>)
          (bt_get (tc_flights c) k)
        else bt_get (tc_flights c) k)"
  "maps_ok c \<Longrightarrow> maps_ok (joined spec j f c)"
  by (simp_all add: joined_def running_flight_count_def maps_ok_def)

lemma joined_having:
  assumes "bt_get (tc_flights c) j = Some f" "\<And>f s. p (f\<lparr>fl_subscribers := s\<rparr>) = p f"
  shows "bt_having p (tc_flights (joined spec j f c)) = bt_having p (tc_flights c)"
  using assms by (auto simp: bt_having_def joined_frame)

lemma joined_next: "tc_next_task c < u64_max \<Longrightarrow> tc_next_task (joined spec j f c) = Suc (tc_next_task c)"
  by (simp add: joined_def sat_add_u64_def)

lemma joined_link:
  assumes inv: "link_inv c" and f: "bt_get (tc_flights c) j = Some f"
    and key: "fl_key f = (sp_resource spec, sp_recipe spec)" and budget: "tc_next_task c < u64_max"
  shows "link_inv (joined spec j f c)" (is "link_inv ?d")
proof -
  have parts: "maps_ok c" "tasks_linked c" "flights_linked c" "index_sound c" "running_counted c"
    using inv by (simp_all add: link_inv_def)
  note fresh = fresh_task[OF parts(2,3)]
  have "tasks_linked ?d"
    unfolding tasks_linked_def
  proof (intro allI impI)
    fix i t assume i: "bt_get (tc_tasks ?d) i = Some t"
    let ?goal = "ts_id t = i \<and> raw i < tc_next_task ?d \<and> (\<exists>g. bt_get (tc_flights ?d) (ts_flight t) = Some g
        \<and> i \<in> set (fl_subscribers g) \<and> fl_key g = (sp_resource (ts_spec t), sp_recipe (ts_spec t)))"
    show ?goal
    proof (cases "i = Id (tc_next_task c)")
      case True
      with i f key show ?thesis by (auto simp: joined_frame joined_next[OF budget])
    next
      case False
      with i have t: "bt_get (tc_tasks c) i = Some t" by (simp add: joined_frame)
      then obtain g where g: "ts_id t = i" "raw i < tc_next_task c"
        "bt_get (tc_flights c) (ts_flight t) = Some g" "i \<in> set (fl_subscribers g)"
        "fl_key g = (sp_resource (ts_spec t), sp_recipe (ts_spec t))"
        using parts(2) unfolding tasks_linked_def by blast
      then show ?thesis
        by (cases "ts_flight t = j") (auto simp: joined_frame joined_next[OF budget])
    qed
  qed
  moreover have "flights_linked ?d"
    unfolding flights_linked_def
  proof (intro allI impI)
    fix k g assume k: "bt_get (tc_flights ?d) k = Some g"
    then obtain h where h: "bt_get (tc_flights c) k = Some h"
      "g = (if k = j then h\<lparr>fl_subscribers := fl_subscribers h @ [Id (tc_next_task c)]\<rparr> else h)"
      by (auto simp: joined_frame split: if_splits)
    have "fl_id h = k \<and> raw k < tc_next_flight c \<and> distinct (fl_subscribers h)
      \<and> fl_subscribers h \<noteq> []
      \<and> (\<forall>i \<in> set (fl_subscribers h). \<exists>t. bt_get (tc_tasks c) i = Some t \<and> ts_flight t = k)"
      using parts(3) h(1) by (simp add: flights_linked_def)
    with fresh(2)[OF h(1)] show "fl_id g = k \<and> raw k < tc_next_flight ?d \<and> distinct (fl_subscribers g)
        \<and> fl_subscribers g \<noteq> []
        \<and> (\<forall>i \<in> set (fl_subscribers g). \<exists>t. bt_get (tc_tasks ?d) i = Some t \<and> ts_flight t = k)"
      by (auto simp: h(2) joined_frame)
  qed
  moreover have "index_sound ?d"
    unfolding index_sound_def joined_frame(4)
  proof (intro allI impI)
    fix key k assume "bt_get (tc_single_flights c) key = Some k"
    then obtain g where "bt_get (tc_flights c) k = Some g" "fl_key g = key"
      using parts(4) unfolding index_sound_def by blast
    then show "\<exists>f. bt_get (tc_flights ?d) k = Some f \<and> fl_key f = key"
      by (cases "k = j") (auto simp: joined_frame)
  qed
  moreover have "running_counted ?d"
    using parts(5) by (simp add: running_counted_def joined_frame joined_having[OF f])
  ultimately show ?thesis using joined_frame(9)[OF parts(1)] by (simp add: link_inv_def)
qed

lemma joined_loose:
  assumes inv: "coordinator_inv c" and f: "bt_get (tc_flights c) j = Some f"
    and key: "fl_key f = (sp_resource spec, sp_recipe spec)" and budget: "tc_next_task c < u64_max"
    and share: "any_eligible c f"
    and room: "length (fl_subscribers f) < maximum_subscribers_per_flight (tc_config c)"
    and cap: "card (bt_having is_eligible (tc_tasks c)) < maximum_active_tasks (tc_config c)"
  shows "loose_inv (joined spec j f c)" (is "loose_inv ?d")
proof -
  note parts = coordinator_parts[OF inv]
  note fresh = fresh_task[OF parts(2,3)]
  have other: "any_eligible ?d g = any_eligible c g"
    if "bt_get (tc_flights c) k = Some g" for k g
    by (rule any_eligible_cong) (use fresh(2)[OF that] in \<open>auto simp: joined_frame\<close>)
  have states: "states_match ?d"
    unfolding states_match_def
  proof (intro allI impI)
    fix i t g
    assume i: "bt_get (tc_tasks ?d) i = Some t" "is_eligible t"
      and g: "bt_get (tc_flights ?d) (ts_flight t) = Some g"
    show "ts_state t = state_of_flight (fl_state g)"
    proof (cases "i = Id (tc_next_task c)")
      case True
      with i g f show ?thesis by (auto simp: joined_frame)
    next
      case False
      with i(1) have "bt_get (tc_tasks c) i = Some t" by (simp add: joined_frame)
      moreover obtain h where "bt_get (tc_flights c) (ts_flight t) = Some h" "fl_state g = fl_state h"
        using g by (auto simp: joined_frame split: if_splits)
      ultimately show ?thesis using parts(6) i(2) by (simp add: states_match_def)
    qed
  qed
  have complete: "index_complete ?d"
    unfolding index_complete_def
  proof (intro allI impI)
    fix k g assume g: "bt_get (tc_flights ?d) k = Some g" and elig: "any_eligible ?d g"
    show "bt_get (tc_single_flights ?d) (fl_key g) = Some k \<and> \<not> fl_cancelled g"
    proof (cases "k = j")
      case True
      with g f parts(7) share show ?thesis by (auto simp: joined_frame index_complete_def)
    next
      case False
      with g have "bt_get (tc_flights c) k = Some g" by (simp add: joined_frame)
      with other elig parts(7) show ?thesis by (simp add: joined_frame index_complete_def)
    qed
  qed
  have "card (bt_having is_eligible (tc_tasks ?d)) \<le> maximum_active_tasks (tc_config c)"
  proof -
    have "card (bt_having is_eligible (tc_tasks ?d)) \<le> Suc (card (bt_having is_eligible (tc_tasks c)))"
      by (simp add: joined_def bt_having_insert_le)
    with cap show ?thesis by linarith
  qed
  moreover have "length (fl_subscribers g) \<le> maximum_subscribers_per_flight (tc_config c)"
    if "bt_get (tc_flights ?d) k = Some g" for k g
    using that parts(8) room f by (auto simp: joined_frame limits_kept_def split: if_splits)
  moreover have "length (ts_diagnostics t) \<le> maximum_diagnostics_per_task (tc_config c)"
    if "bt_get (tc_tasks ?d) i = Some t" for i t
    using that parts(8) by (auto simp: joined_frame limits_kept_def split: if_splits)
  ultimately have limits: "limits_kept ?d"
    using parts(8)
    unfolding limits_kept_def joined_frame(1,5,6) limit_of_def
    by (simp add: joined_having[OF f])
  have progress: "progress_uniform ?d"
    unfolding progress_uniform_def
  proof (intro allI impI)
    fix k g assume g: "bt_get (tc_flights ?d) k = Some g"
    then obtain h where h: "bt_get (tc_flights c) k = Some h"
      "g = (if k = j then h\<lparr>fl_subscribers := fl_subscribers h @ [Id (tc_next_task c)]\<rparr> else h)"
      by (auto simp: joined_frame split: if_splits)
    have same: "map (progress_of ?d) (fl_subscribers h) = map (progress_of c) (fl_subscribers h)"
      using fresh(2)[OF h(1)] by (auto simp: progress_of_def joined_frame)
    have "progress_of ?d (Id (tc_next_task c)) = None"
      by (simp add: progress_of_def joined_frame)
    moreover have "uniform (map (progress_of c) (fl_subscribers h))"
      using parts(9) h(1) by (simp add: progress_uniform_def)
    ultimately show "uniform (map (progress_of ?d) (fl_subscribers g))"
      unfolding same[symmetric] using uniform_snoc by (auto simp: h(2))
  qed
  show ?thesis
    using joined_link[OF parts(12) f key budget] states complete limits progress
    by (simp add: loose_inv_def)
qed

lemma joined_sessions:
  assumes "sessions_current c"
    and "bt_get (tc_sessions c) (sc_session (os_scope (sp_owner spec))) = Some (sp_generation spec)"
  shows "sessions_current (joined spec j f c)"
  using assms by (auto simp: sessions_current_def joined_frame task_session_of_def)

section \<open>Starting a flight\<close>

definition started :: "task_spec \<Rightarrow> task_instant \<Rightarrow> task_coordinator \<Rightarrow> task_coordinator" where
  "started spec now c =
     c\<lparr>tc_next_task := sat_add_u64 (tc_next_task c) 1,
       tc_next_flight := sat_add_u64 (tc_next_flight c) 1,
       tc_tasks := bt_insert (Id (tc_next_task c))
         (new_snapshot (Id (tc_next_task c)) (Id (tc_next_flight c)) spec FlightQueued) (tc_tasks c),
       tc_flights := bt_insert (Id (tc_next_flight c))
         \<lparr>fl_id = Id (tc_next_flight c), fl_key = (sp_resource spec, sp_recipe spec),
          fl_state = FlightQueued, fl_submitted_at = now, fl_subscribers = [Id (tc_next_task c)],
          fl_cancelled = False\<rparr> (tc_flights c),
       tc_single_flights := bt_insert (sp_resource spec, sp_recipe spec) (Id (tc_next_flight c))
         (tc_single_flights c)\<rparr>"

lemma started_frame:
  "tc_config (started spec now c) = tc_config c"
  "tc_sessions (started spec now c) = tc_sessions c"
  "running_flight_count r (started spec now c) = running_flight_count r c"
  "tc_terminal (started spec now c) = tc_terminal c"
  "bt_get (tc_tasks (started spec now c)) i
     = (if i = Id (tc_next_task c)
        then Some (new_snapshot (Id (tc_next_task c)) (Id (tc_next_flight c)) spec FlightQueued)
        else bt_get (tc_tasks c) i)"
  "bt_get (tc_flights (started spec now c)) k
     = (if k = Id (tc_next_flight c)
        then Some \<lparr>fl_id = Id (tc_next_flight c), fl_key = (sp_resource spec, sp_recipe spec),
          fl_state = FlightQueued, fl_submitted_at = now, fl_subscribers = [Id (tc_next_task c)],
          fl_cancelled = False\<rparr>
        else bt_get (tc_flights c) k)"
  "bt_get (tc_single_flights (started spec now c)) key
     = (if key = (sp_resource spec, sp_recipe spec) then Some (Id (tc_next_flight c))
        else bt_get (tc_single_flights c) key)"
  "maps_ok c \<Longrightarrow> maps_ok (started spec now c)"
  "tc_next_task c < u64_max \<Longrightarrow> tc_next_task (started spec now c) = Suc (tc_next_task c)"
  "tc_next_flight c < u64_max \<Longrightarrow> tc_next_flight (started spec now c) = Suc (tc_next_flight c)"
  by (simp_all add: started_def running_flight_count_def maps_ok_def sat_add_u64_def)

lemma started_link:
  assumes inv: "link_inv c"
    and free: "bt_get (tc_single_flights c) (sp_resource spec, sp_recipe spec) = None"
    and budget: "tc_next_task c < u64_max" "tc_next_flight c < u64_max"
  shows "link_inv (started spec now c)" (is "link_inv ?d")
proof -
  have parts: "maps_ok c" "tasks_linked c" "flights_linked c" "index_sound c" "running_counted c"
    using inv by (simp_all add: link_inv_def)
  note task = fresh_task[OF parts(2,3)] and flight = fresh_flight[OF parts(3)]
  note frame = started_frame(1-8) started_frame(9)[OF budget(1)] started_frame(10)[OF budget(2)]
  have "tasks_linked ?d"
    unfolding tasks_linked_def
  proof (intro allI impI)
    fix i t assume i: "bt_get (tc_tasks ?d) i = Some t"
    show "ts_id t = i \<and> raw i < tc_next_task ?d \<and> (\<exists>g. bt_get (tc_flights ?d) (ts_flight t) = Some g
        \<and> i \<in> set (fl_subscribers g) \<and> fl_key g = (sp_resource (ts_spec t), sp_recipe (ts_spec t)))"
    proof (cases "i = Id (tc_next_task c)")
      case True
      with i show ?thesis by (auto simp: frame)
    next
      case False
      with i have "bt_get (tc_tasks c) i = Some t" by (simp add: frame)
      then obtain g where g: "ts_id t = i" "raw i < tc_next_task c"
        "bt_get (tc_flights c) (ts_flight t) = Some g" "i \<in> set (fl_subscribers g)"
        "fl_key g = (sp_resource (ts_spec t), sp_recipe (ts_spec t))"
        using parts(2) unfolding tasks_linked_def by blast
      with flight have "ts_flight t \<noteq> Id (tc_next_flight c)" by auto
      with g show ?thesis by (simp add: frame)
    qed
  qed
  moreover have "flights_linked ?d"
    unfolding flights_linked_def
  proof (intro allI impI)
    fix k g assume k: "bt_get (tc_flights ?d) k = Some g"
    show "fl_id g = k \<and> raw k < tc_next_flight ?d \<and> distinct (fl_subscribers g)
        \<and> fl_subscribers g \<noteq> []
        \<and> (\<forall>i \<in> set (fl_subscribers g). \<exists>t. bt_get (tc_tasks ?d) i = Some t \<and> ts_flight t = k)"
    proof (cases "k = Id (tc_next_flight c)")
      case True
      with k show ?thesis by (auto simp: frame)
    next
      case False
      with k have h: "bt_get (tc_flights c) k = Some g" by (simp add: frame)
      then have "fl_id g = k \<and> raw k < tc_next_flight c \<and> distinct (fl_subscribers g)
        \<and> fl_subscribers g \<noteq> []
        \<and> (\<forall>i \<in> set (fl_subscribers g). \<exists>t. bt_get (tc_tasks c) i = Some t \<and> ts_flight t = k)"
        using parts(3) by (simp add: flights_linked_def)
      with task(2)[OF h] show ?thesis by (auto simp: frame)
    qed
  qed
  moreover have "index_sound ?d"
    unfolding index_sound_def
  proof (intro allI impI)
    fix key k assume k: "bt_get (tc_single_flights ?d) key = Some k"
    show "\<exists>f. bt_get (tc_flights ?d) k = Some f \<and> fl_key f = key"
    proof (cases "key = (sp_resource spec, sp_recipe spec)")
      case True
      with k show ?thesis by (auto simp: frame)
    next
      case False
      with k have "bt_get (tc_single_flights c) key = Some k" by (simp add: frame)
      then obtain g where "bt_get (tc_flights c) k = Some g" "fl_key g = key"
        using parts(4) unfolding index_sound_def by blast
      with flight show ?thesis by (auto simp: frame)
    qed
  qed
  moreover have "running_counted ?d"
  proof -
    have "bt_having (\<lambda>f. fl_state f = FlightRunning \<and> fst (fl_key f) = r) (tc_flights ?d)
        = bt_having (\<lambda>f. fl_state f = FlightRunning \<and> fst (fl_key f) = r) (tc_flights c)" for r
      using flight by (auto simp: bt_having_def frame)
    then show ?thesis using parts(5) by (simp add: running_counted_def frame)
  qed
  ultimately show ?thesis using frame(8)[OF parts(1)] by (simp add: link_inv_def)
qed

lemma started_loose:
  assumes inv: "coordinator_inv c"
    and free: "bt_get (tc_single_flights c) (sp_resource spec, sp_recipe spec) = None"
    and budget: "tc_next_task c < u64_max" "tc_next_flight c < u64_max"
    and room: "card (bt_having (\<lambda>f. fl_state f = FlightQueued) (tc_flights c))
      < maximum_queued_flights (tc_config c)"
    and cap: "card (bt_having is_eligible (tc_tasks c)) < maximum_active_tasks (tc_config c)"
  shows "loose_inv (started spec now c)" (is "loose_inv ?d")
proof -
  note parts = coordinator_parts[OF inv]
  note task = fresh_task[OF parts(2,3)] and flight = fresh_flight[OF parts(3)]
  note frame = started_frame
  have other: "any_eligible ?d g = any_eligible c g"
    if "bt_get (tc_flights c) k = Some g" for k g
    by (rule any_eligible_cong) (use task(2)[OF that] in \<open>auto simp: frame\<close>)
  have states: "states_match ?d"
    unfolding states_match_def
  proof (intro allI impI)
    fix i t g
    assume i: "bt_get (tc_tasks ?d) i = Some t" "is_eligible t"
      and g: "bt_get (tc_flights ?d) (ts_flight t) = Some g"
    show "ts_state t = state_of_flight (fl_state g)"
    proof (cases "i = Id (tc_next_task c)")
      case True
      with i g show ?thesis by (auto simp: frame)
    next
      case False
      with i(1) have t: "bt_get (tc_tasks c) i = Some t" by (simp add: frame)
      then have "ts_flight t \<noteq> Id (tc_next_flight c)"
        using parts(2) flight unfolding tasks_linked_def by (metis option.distinct(1))
      with g t i(2) parts(6) show ?thesis by (simp add: frame states_match_def)
    qed
  qed
  have complete: "index_complete ?d"
    unfolding index_complete_def
  proof (intro allI impI)
    fix k g assume g: "bt_get (tc_flights ?d) k = Some g" and elig: "any_eligible ?d g"
    show "bt_get (tc_single_flights ?d) (fl_key g) = Some k \<and> \<not> fl_cancelled g"
    proof (cases "k = Id (tc_next_flight c)")
      case True
      with g show ?thesis by (auto simp: frame)
    next
      case False
      with g have h: "bt_get (tc_flights c) k = Some g" by (simp add: frame)
      with other elig parts(7) have "bt_get (tc_single_flights c) (fl_key g) = Some k"
        "\<not> fl_cancelled g" by (simp_all add: index_complete_def)
      with free show ?thesis by (auto simp: frame)
    qed
  qed
  have "card (bt_having is_eligible (tc_tasks ?d)) \<le> maximum_active_tasks (tc_config c)"
  proof -
    have "card (bt_having is_eligible (tc_tasks ?d)) \<le> Suc (card (bt_having is_eligible (tc_tasks c)))"
      by (simp add: started_def bt_having_insert_le)
    with cap show ?thesis by linarith
  qed
  moreover have "card (bt_having (\<lambda>f. fl_state f = FlightQueued) (tc_flights ?d))
      \<le> maximum_queued_flights (tc_config c)"
  proof -
    have "card (bt_having (\<lambda>f. fl_state f = FlightQueued) (tc_flights ?d))
        \<le> Suc (card (bt_having (\<lambda>f. fl_state f = FlightQueued) (tc_flights c)))"
      by (simp add: started_def bt_having_insert_le)
    with room show ?thesis by linarith
  qed
  moreover have "length (fl_subscribers g) \<le> maximum_subscribers_per_flight (tc_config c)"
    if "bt_get (tc_flights ?d) k = Some g" for k g
    using that parts(8)
    by (auto simp: frame limits_kept_def config_validate_iff Suc_le_eq split: if_splits)
  moreover have "length (ts_diagnostics t) \<le> maximum_diagnostics_per_task (tc_config c)"
    if "bt_get (tc_tasks ?d) i = Some t" for i t
    using that parts(8) by (auto simp: frame limits_kept_def split: if_splits)
  ultimately have limits: "limits_kept ?d"
    using parts(8) unfolding limits_kept_def frame(1,3,4) limit_of_def by simp
  have progress: "progress_uniform ?d"
    unfolding progress_uniform_def
  proof (intro allI impI)
    fix k g assume g: "bt_get (tc_flights ?d) k = Some g"
    show "uniform (map (progress_of ?d) (fl_subscribers g))"
    proof (cases "k = Id (tc_next_flight c)")
      case True
      with g show ?thesis
        using uniform_snoc[of "[]"] uniform_replicate[of 0]
        by (auto simp: frame progress_of_def)
    next
      case False
      with g have h: "bt_get (tc_flights c) k = Some g" by (simp add: frame)
      then have "map (progress_of ?d) (fl_subscribers g) = map (progress_of c) (fl_subscribers g)"
        using task(2)[OF h] by (auto simp: progress_of_def frame)
      then show ?thesis using parts(9) h unfolding progress_uniform_def by metis
    qed
  qed
  show ?thesis
    using started_link[OF parts(12) free budget] states complete limits progress
    by (simp add: loose_inv_def)
qed

lemma started_sessions:
  assumes "sessions_current c"
    and "bt_get (tc_sessions c) (sc_session (os_scope (sp_owner spec))) = Some (sp_generation spec)"
  shows "sessions_current (started spec now c)"
  using assms by (auto simp: sessions_current_def started_frame task_session_of_def)

section \<open>Submission\<close>

lemma supersede_inv:
  "loose_inv c \<Longrightarrow> sessions_current c \<Longrightarrow> coordinator_inv (supersede_older spec i c)"
  unfolding supersede_older_def Let_def by (rule cancel_round_inv)

text \<open>The flight the index names has the key, is not cancelled and can be observed.\<close>

lemma indexed_flight:
  assumes inv: "coordinator_inv c" and j: "bt_get (tc_single_flights c) key = Some j"
  obtains f where "bt_get (tc_flights c) j = Some f" "fl_key f = key" "\<not> fl_cancelled f"
    "any_eligible c f"
proof -
  note parts = coordinator_parts[OF inv]
  obtain f where f: "bt_get (tc_flights c) j = Some f" "fl_key f = key"
    using parts(4) j unfolding index_sound_def by blast
  have "any_eligible c f"
    using parts(10) f j unfolding index_tight_def by blast
  moreover have "\<not> fl_cancelled f"
    using parts(7) f(1) \<open>any_eligible c f\<close> unfolding index_complete_def by blast
  ultimately show thesis using that f by blast
qed

lemma join_flight_shape:
  assumes "join_flight spec j f c = (r, d)"
  obtains (refused) e where "r = Inl e" "d = c"
      "(\<forall>k. e \<noteq> FlightCancelling k) \<or> fl_cancelled f \<or> \<not> any_eligible c f"
  | (existing) i where "r = Inr \<lparr>sb_task = i, sb_flight = j, sb_joined_existing_flight = True\<rparr>"
      "d = c" "existing_subscriber spec f c = Some i"
  | (joined) "\<not> fl_cancelled f" "any_eligible c f" "existing_subscriber spec f c = None"
      "length (fl_subscribers f) < maximum_subscribers_per_flight (tc_config c)"
      "check_active_capacity_for spec c = Inr ()"
      "r = Inr \<lparr>sb_task = Id (tc_next_task c), sb_flight = j, sb_joined_existing_flight = True\<rparr>"
      "d = supersede_older spec (Id (tc_next_task c)) (joined spec j f c)"
proof (cases "fl_cancelled f \<or> \<not> any_eligible c f")
  case True
  with assms show thesis
    by (intro refused[of "FlightCancelling j"]) (simp_all add: join_flight_def)
next
  case share: False
  show thesis
  proof (cases "existing_subscriber spec f c")
    case (Some i)
    with share assms show thesis by (intro existing[of i]) (simp_all add: join_flight_def)
  next
    case None
    show thesis
    proof (cases "maximum_subscribers_per_flight (tc_config c) \<le> length (fl_subscribers f)")
      case True
      with share None assms show thesis
        by (intro refused[of "SubscriberLimit j"]) (simp_all add: join_flight_def)
    next
      case room: False
      show thesis
      proof (cases "check_active_capacity_for spec c")
        case (Inl e)
        moreover from this have "e = ActiveTaskLimit"
          by (simp add: check_active_capacity_for_def fail_if_def split: if_splits)
        ultimately show thesis using share None room assms
          by (intro refused[of e]) (simp_all add: join_flight_def)
      next
        case (Inr u)
        with share None room assms show thesis
          by (intro joined) (simp_all add: join_flight_def allocate_task_def joined_def Let_def)
      qed
    qed
  qed
qed

lemma start_flight_shape:
  assumes "bt_ok (tc_flights c)" "start_flight spec now c = (r, d)"
  obtains (refused) e where "r = Inl e" "d = c" "e = ActiveTaskLimit \<or> e = QueuedFlightLimit"
  | (started) "check_active_capacity_for spec c = Inr ()"
      "card (bt_having (\<lambda>f. fl_state f = FlightQueued) (tc_flights c)) < maximum_queued_flights (tc_config c)"
      "r = Inr \<lparr>sb_task = Id (tc_next_task c), sb_flight = Id (tc_next_flight c),
        sb_joined_existing_flight = False\<rparr>"
      "d = supersede_older spec (Id (tc_next_task c)) (started spec now c)"
proof -
  have queued: "queued_flight_count c = card (bt_having (\<lambda>f. fl_state f = FlightQueued) (tc_flights c))"
    by (simp add: queued_flight_count_def bt_count[OF assms(1)])
  show thesis
  proof (cases "check_active_capacity_for spec c")
    case (Inl e)
    then have "e = ActiveTaskLimit"
      by (simp add: check_active_capacity_for_def fail_if_def split: if_splits)
    with Inl assms(2) show thesis by (intro refused[of e]) (simp_all add: start_flight_def)
  next
    case (Inr u)
    show thesis
    proof (cases "maximum_queued_flights (tc_config c) \<le> queued_flight_count c")
      case True
      with Inr assms(2) show thesis
        by (intro refused[of QueuedFlightLimit]) (simp_all add: start_flight_def)
    next
      case False
      with Inr assms(2) show thesis
        by (intro started)
          (simp_all add: start_flight_def queued started_def allocate_task_def allocate_flight_def
            Let_def)
    qed
  qed
qed

text \<open>The three outcomes of a submission: refused, folded into a known task, or admitted.\<close>

lemma submit_shape:
  assumes inv: "coordinator_inv c" and budget: "tc_next_task c < u64_max" "tc_next_flight c < u64_max"
  shows "\<exists>r d e. expire now c = Some e \<and> expired now c e \<and> coordinator_inv e
    \<and> submit spec now c = Some (r, d) \<and> coordinator_inv d
    \<and> (case r of
         Inl err \<Rightarrow> d = e \<and> (\<forall>j. err \<noteq> FlightCancelling j)
       | Inr s \<Rightarrow>
           bt_get (tc_sessions e) (sc_session (os_scope (sp_owner spec))) = Some (sp_generation spec)
           \<and> \<not> deadline_elapsed (sp_deadline spec) now
           \<and> (if sb_joined_existing_flight s
              then bt_get (tc_single_flights e) (sp_resource spec, sp_recipe spec) = Some (sb_flight s)
                \<and> tc_next_flight d = tc_next_flight e
              else bt_get (tc_single_flights e) (sp_resource spec, sp_recipe spec) = None
                \<and> tc_next_flight d = Suc (tc_next_flight e)))"
proof -
  from expire_total[OF inv] obtain e where e: "expire now c = Some e" "coordinator_inv e"
    "expired now c e" by blast
  note parts = coordinator_parts[OF e(2)]
  have budget': "tc_next_task e < u64_max" "tc_next_flight e < u64_max"
    using e(3) budget by (simp_all add: expired_def)
  let ?s = "sc_session (os_scope (sp_owner spec))"
  let ?key = "(sp_resource spec, sp_recipe spec)"
  show ?thesis
  proof (cases "bt_get (tc_sessions e) ?s = Some (sp_generation spec)
      \<and> \<not> deadline_elapsed (sp_deadline spec) now
      \<and> bt_contains (resource_limits (tc_config e)) (sp_resource spec)")
    case False
    then have "\<exists>err. submit spec now c = Some (Inl err, e) \<and> (\<forall>j. err \<noteq> FlightCancelling j)"
      by (auto simp: submit_def e(1) Let_def split: option.split)
    with e show ?thesis by auto
  next
    case True
    then have cur: "bt_get (tc_sessions e) ?s = Some (sp_generation spec)"
      and gate: "\<not> deadline_elapsed (sp_deadline spec) now"
        "bt_contains (resource_limits (tc_config e)) (sp_resource spec)" by simp_all
    note cap = capacity_bound[OF parts(14,11) _ cur]
    show ?thesis
    proof (cases "bt_get (tc_single_flights e) ?key")
      case None
      obtain r d where rd: "start_flight spec now e = (r, d)" by (cases "start_flight spec now e")
      have sub: "submit spec now c = Some (r, d)"
        by (simp add: submit_def e(1) cur gate None rd)
      from parts(15) rd show ?thesis
      proof (cases rule: start_flight_shape)
        case (refused err)
        with sub e show ?thesis by auto
      next
        case started
        have "coordinator_inv d"
          unfolding started(4)
          by (intro supersede_inv started_loose[OF e(2) None budget' started(2) cap[OF started(1)]]
              started_sessions parts(11) cur)
        moreover have "tc_next_flight d = Suc (tc_next_flight e)"
          by (simp add: started(4) supersede_older_def frame_simps started_frame(10)[OF budget'(2)])
        ultimately show ?thesis using sub e cur gate None started(3) by simp
      qed
    next
      case (Some j)
      from indexed_flight[OF e(2) Some] obtain f where f: "bt_get (tc_flights e) j = Some f"
        "fl_key f = ?key" "\<not> fl_cancelled f" "any_eligible e f" by blast
      obtain r d where rd: "join_flight spec j f e = (r, d)" by (cases "join_flight spec j f e")
      have sub: "submit spec now c = Some (r, d)"
        by (simp add: submit_def e(1) cur gate Some f(1) rd)
      from rd show ?thesis
      proof (cases rule: join_flight_shape)
        case (refused err)
        with sub e f show ?thesis by auto
      next
        case (existing i)
        with sub e cur gate Some show ?thesis by simp
      next
        case joined
        have "coordinator_inv d"
          unfolding joined(7)
          by (intro supersede_inv joined_loose[OF e(2) f(1,2) budget'(1) f(4) joined(4) cap[OF joined(5)]]
              joined_sessions parts(11) cur)
        moreover have "tc_next_flight d = tc_next_flight e"
          by (simp add: joined(7) supersede_older_def frame_simps joined_frame(2))
        ultimately show ?thesis using sub e cur gate Some joined(6) by simp
      qed
    qed
  qed
qed

end
