(* ===== verification/Task_Completion.thy ===== *)
theory Task_Completion
  imports Task_Admission
begin

text \<open>
  Dispatch and completion: the order of the flights, the flight that is selected, the gate that
  decides which receipts are accepted, and the reachable states of the coordinator.
\<close>

section \<open>The order of dispatch\<close>

text \<open>\<open>compare_rank\<close> compares keys in one linear order: the comparison it spells out field by field.\<close>

definition rank_key :: "flight_rank \<Rightarrow> task_priority \<times> (nat \<times> int) \<times> int \<times> int" where
  "rank_key r =
     (fr_priority r,
      (case fr_deadline r of None \<Rightarrow> (0, 0) | Some d \<Rightarrow> (1, - int d)),
      - int (fr_submitted_at r), - int (raw (fr_id r)))"

lemma cmp_then_with:
  "then_with (cmp a b) (cmp c d) = cmp (a, c) (b, d)"
  by (auto simp: then_with_def cmp_def)

lemma cmp_negated: "cmp (- int n) (- int m) = cmp m n"
  by (auto simp: cmp_def)

lemma cmp_id: "cmp (- int (raw a)) (- int (raw b)) = cmp b (a :: 'a typed_id)"
  by (auto simp: cmp_def less_typed_id_def intro: typed_id.expand)

lemma compare_deadline_key:
  "compare_deadline l r = cmp (case l of None \<Rightarrow> (0, 0) | Some d \<Rightarrow> (1, - int d))
     (case r of None \<Rightarrow> (0::nat, 0) | Some d \<Rightarrow> (1, - int d))"
  by (cases l; cases r) (auto simp: cmp_def)

lemma then_with_assoc: "then_with (then_with a b) c = then_with a (then_with b c)"
  by (simp add: then_with_def)

lemma compare_rank_key: "compare_rank l r = cmp (rank_key l) (rank_key r)"
proof -
  have "cmp (fr_submitted_at r) (fr_submitted_at l)
      = cmp (- int (fr_submitted_at l)) (- int (fr_submitted_at r))"
    by (rule cmp_negated[symmetric])
  then show ?thesis
    unfolding compare_rank_def then_with_assoc
    by (simp only: rank_key_def compare_deadline_key cmp_id[symmetric] cmp_then_with)
qed

lemma max_by_fold:
  fixes k :: "'a \<Rightarrow> 'b::linorder"
  defines "step \<equiv> \<lambda>y x. if cmp (k x) (k y) = Greater then x else y"
  shows "fold step xs x \<in> insert x (set xs) \<and> (\<forall>y \<in> insert x (set xs). k y \<le> k (fold step xs x))"
proof (induction xs arbitrary: x)
  case (Cons y xs)
  have "step y x \<in> {x, y} \<and> k x \<le> k (step y x) \<and> k y \<le> k (step y x)"
    by (auto simp: step_def cmp_def split: if_splits)
  with Cons.IH[of "step y x"] show ?case
    by (auto intro: order_trans)
qed simp

lemma max_by_key:
  assumes "max_by (\<lambda>l r. cmp (k l) (k r)) xs = Some m"
  shows "m \<in> set xs" "y \<in> set xs \<Longrightarrow> k y \<le> (k m :: 'b::linorder)"
  using assms max_by_fold[where k = k] by (cases xs; auto)+

lemma max_by_None: "max_by f xs = None \<longleftrightarrow> xs = []"
  by (cases xs) simp_all

section \<open>Ranks and candidates\<close>

lemma flight_rank_fold:
  "snd (snd (fold (\<lambda>i (p, d, h).
      case bt_get (tc_tasks c) i of
        None \<Rightarrow> (p, d, h)
      | Some t \<Rightarrow>
          if \<not> is_eligible t then (p, d, h)
          else (max p (sp_priority (ts_spec t)), earlier_deadline d (sp_deadline (ts_spec t)), True))
     ids s)) \<longleftrightarrow> snd (snd s) \<or> (\<exists>i \<in> set ids. \<exists>t. bt_get (tc_tasks c) i = Some t \<and> is_eligible t)"
proof (induction ids arbitrary: s)
  case (Cons i ids)
  obtain p d h where s: "s = (p, d, h)" by (cases s)
  show ?case
    by (cases "bt_get (tc_tasks c) i") (auto simp: s Cons.IH split del: if_split, simp_all add: Cons.IH)
qed simp

lemma flight_rank_None: "flight_rank_of c f = None \<longleftrightarrow> \<not> any_eligible c f"
  using flight_rank_fold[of c "fl_subscribers f" "(Maintenance, None, False)"]
  by (auto simp: flight_rank_of_def any_eligible_iff split: prod.splits)

lemma flight_rank_id: "flight_rank_of c f = Some r \<Longrightarrow> fr_id r = fl_id f"
  by (auto simp: flight_rank_of_def Let_def split: prod.splits if_splits)

definition dispatchable :: "task_coordinator \<Rightarrow> flight_id \<Rightarrow> flight_record \<Rightarrow> bool" where
  "dispatchable c j f \<longleftrightarrow> bt_get (tc_flights c) j = Some f \<and> fl_state f = FlightQueued
     \<and> any_eligible c f \<and> resource_has_capacity (fst (fl_key f)) c"

lemma in_map_filter: "y \<in> set (List.map_filter f xs) \<longleftrightarrow> (\<exists>x \<in> set xs. f x = Some y)"
  by (force simp: List.map_filter_def)

lemma ranked_candidates_iff:
  assumes "coordinator_inv c"
  shows "(j, r) \<in> set (ranked_candidates c) \<longleftrightarrow>
    (\<exists>f. dispatchable c j f \<and> flight_rank_of c f = Some r)"
proof -
  note parts = coordinator_parts[OF assms]
  have "bt_get (tc_flights c) k = Some f \<Longrightarrow> fl_id f = k" for k f
    using parts(3) by (simp add: flights_linked_def)
  then show ?thesis
    using flight_rank_None[of c]
    by (auto simp: ranked_candidates_def in_map_filter dispatchable_def bt_values_in[OF parts(15)])
      (metis option.distinct(1))+
qed

section \<open>Dispatch\<close>

lemma start_running_simps [simp]:
  "ts_id (start_running t) = ts_id t" "ts_flight (start_running t) = ts_flight t"
  "ts_spec (start_running t) = ts_spec t" "ts_progress (start_running t) = ts_progress t"
  "ts_diagnostics (start_running t) = ts_diagnostics t"
  "is_eligible (start_running t) = is_eligible t"
  "is_eligible t \<Longrightarrow> ts_state (start_running t) = Running"
  by (simp_all add: start_running_def is_eligible_def)

definition run_flight :: "flight_id \<Rightarrow> flight_record \<Rightarrow> task_coordinator \<Rightarrow> task_coordinator" where
  "run_flight j f c =
     c\<lparr>tc_flights := bt_modify j (\<lambda>f. f\<lparr>fl_state := FlightRunning\<rparr>) (tc_flights c),
       tc_running_by_resource := bt_insert (fst (fl_key f)) (running_flight_count (fst (fl_key f)) c + 1)
         (tc_running_by_resource c),
       tc_tasks := fold (\<lambda>i. bt_modify i start_running) (fl_subscribers f) (tc_tasks c)\<rparr>"

lemma run_flight_frame:
  assumes "bt_get (tc_flights c) j = Some f" "distinct (fl_subscribers f)"
  shows "tc_config (run_flight j f c) = tc_config c"
    "tc_next_task (run_flight j f c) = tc_next_task c"
    "tc_next_flight (run_flight j f c) = tc_next_flight c"
    "tc_sessions (run_flight j f c) = tc_sessions c"
    "tc_single_flights (run_flight j f c) = tc_single_flights c"
    "tc_terminal (run_flight j f c) = tc_terminal c"
    "bt_get (tc_tasks (run_flight j f c)) i
      = map_option (if i \<in> set (fl_subscribers f) then start_running else id) (bt_get (tc_tasks c) i)"
    "bt_get (tc_flights (run_flight j f c)) k
      = (if k = j then Some (f\<lparr>fl_state := FlightRunning\<rparr>) else bt_get (tc_flights c) k)"
    "running_flight_count r (run_flight j f c)
      = running_flight_count r c + (if r = fst (fl_key f) then 1 else 0)"
    "maps_ok c \<Longrightarrow> maps_ok (run_flight j f c)"
  using assms
  by (simp_all add: run_flight_def running_flight_count_def maps_ok_def bt_ok_fold_modify
      bt_get_fold_modify)

text \<open>
  What a dispatch does to the coordinator \<open>e\<close>, over its lookups: the flight runs, its eligible
  subscribers are running, its resource has one more running flight, and nothing else changes.
\<close>

definition flight_started ::
  "task_coordinator \<Rightarrow> flight_id \<Rightarrow> flight_record \<Rightarrow> task_coordinator \<Rightarrow> bool" where
  "flight_started e j f d \<longleftrightarrow>
     (\<forall>k. bt_get (tc_flights d) k
        = (if k = j then Some (f\<lparr>fl_state := FlightRunning\<rparr>) else bt_get (tc_flights e) k))
     \<and> (\<forall>i. bt_get (tc_tasks d) i
        = (if i \<in> set (fl_subscribers f) \<and> task_eligible e i
           then map_option (\<lambda>t. t\<lparr>ts_state := Running\<rparr>) (bt_get (tc_tasks e) i)
           else bt_get (tc_tasks e) i))
     \<and> (\<forall>r. running_flight_count r d = running_flight_count r e + (if r = fst (fl_key f) then 1 else 0))
     \<and> tc_config d = tc_config e \<and> tc_next_task d = tc_next_task e \<and> tc_next_flight d = tc_next_flight e
     \<and> tc_sessions d = tc_sessions e \<and> tc_single_flights d = tc_single_flights e
     \<and> tc_terminal d = tc_terminal e"

lemma run_flight_started:
  assumes "bt_get (tc_flights e) j = Some f" "distinct (fl_subscribers f)"
  shows "flight_started e j f (run_flight j f e)"
  unfolding flight_started_def
  by (auto simp: run_flight_frame[OF assms] start_running_def task_eligible_def option.map_id split: option.splits)

lemma run_flight_link:
  assumes f: "bt_get (tc_flights c) j = Some f" "fl_state f = FlightQueued" and inv: "link_inv c"
  shows "link_inv (run_flight j f c)" (is "link_inv ?d")
proof -
  have parts: "maps_ok c" "tasks_linked c" "flights_linked c" "index_sound c" "running_counted c"
    using inv by (simp_all add: link_inv_def)
  have dist: "distinct (fl_subscribers f)" using parts(3) f(1) by (simp add: flights_linked_def)
  note frame = run_flight_frame[OF f(1) dist]
  have task_back: "\<exists>u. bt_get (tc_tasks c) i = Some u \<and> ts_id t = ts_id u \<and> ts_flight t = ts_flight u
      \<and> ts_spec t = ts_spec u" if "bt_get (tc_tasks ?d) i = Some t" for i t
    using that by (auto simp: frame)
  have flight_on: "\<exists>g. bt_get (tc_flights ?d) k = Some g \<and> fl_key g = fl_key h
      \<and> fl_subscribers g = fl_subscribers h" if "bt_get (tc_flights c) k = Some h" for k h
    using that f(1) by (auto simp: frame)
  have "tasks_linked ?d"
    unfolding tasks_linked_def
  proof (intro allI impI)
    fix i t assume "bt_get (tc_tasks ?d) i = Some t"
    then obtain u where u: "bt_get (tc_tasks c) i = Some u" "ts_id t = ts_id u"
      "ts_flight t = ts_flight u" "ts_spec t = ts_spec u" using task_back by blast
    then obtain h where h: "ts_id u = i" "raw i < tc_next_task c"
      "bt_get (tc_flights c) (ts_flight u) = Some h" "i \<in> set (fl_subscribers h)"
      "fl_key h = (sp_resource (ts_spec u), sp_recipe (ts_spec u))"
      using parts(2) unfolding tasks_linked_def by blast
    with flight_on[OF h(3)] show "ts_id t = i \<and> raw i < tc_next_task ?d
        \<and> (\<exists>g. bt_get (tc_flights ?d) (ts_flight t) = Some g \<and> i \<in> set (fl_subscribers g)
           \<and> fl_key g = (sp_resource (ts_spec t), sp_recipe (ts_spec t)))"
      by (auto simp: u frame(2))
  qed
  moreover have "flights_linked ?d"
    unfolding flights_linked_def
  proof (intro allI impI)
    fix k g assume "bt_get (tc_flights ?d) k = Some g"
    then obtain h where h: "bt_get (tc_flights c) k = Some h" "fl_id g = fl_id h"
      "fl_subscribers g = fl_subscribers h"
      using f(1) by (auto simp: frame split: if_splits)
    have "fl_id h = k \<and> raw k < tc_next_flight c \<and> distinct (fl_subscribers h)
        \<and> fl_subscribers h \<noteq> []
        \<and> (\<forall>i \<in> set (fl_subscribers h). \<exists>t. bt_get (tc_tasks c) i = Some t \<and> ts_flight t = k)"
      using parts(3) h(1) by (simp add: flights_linked_def)
    then show "fl_id g = k \<and> raw k < tc_next_flight ?d \<and> distinct (fl_subscribers g)
        \<and> fl_subscribers g \<noteq> []
        \<and> (\<forall>i \<in> set (fl_subscribers g). \<exists>t. bt_get (tc_tasks ?d) i = Some t \<and> ts_flight t = k)"
      by (fastforce simp: h frame)
  qed
  moreover have "index_sound ?d"
    using parts(4) flight_on unfolding index_sound_def frame(5) by metis
  moreover have "running_counted ?d"
    unfolding running_counted_def
  proof
    fix r
    let ?p = "\<lambda>f. fl_state f = FlightRunning \<and> fst (fl_key f) = r"
    have "bt_having ?p (tc_flights ?d)
        = (if fst (fl_key f) = r then insert j (bt_having ?p (tc_flights c)) else bt_having ?p (tc_flights c))"
      using f by (auto simp: bt_having_def frame split: if_splits)
    moreover have "j \<notin> bt_having ?p (tc_flights c)" using f by (simp add: bt_having_def)
    ultimately show "running_flight_count r ?d = card (bt_having ?p (tc_flights ?d))"
      using parts(5) by (simp add: running_counted_def frame)
  qed
  ultimately show ?thesis using frame(10)[OF parts(1)] by (simp add: link_inv_def)
qed

lemma run_flight_inv:
  assumes inv: "coordinator_inv c" and f: "dispatchable c j f"
  shows "coordinator_inv (run_flight j f c)" (is "coordinator_inv ?d")
proof -
  note parts = coordinator_parts[OF inv]
  have fl: "bt_get (tc_flights c) j = Some f" "fl_state f = FlightQueued" "any_eligible c f"
    and cap: "resource_has_capacity (fst (fl_key f)) c"
    using f by (simp_all add: dispatchable_def)
  have dist: "distinct (fl_subscribers f)" using parts(3) fl(1) by (simp add: flights_linked_def)
  note frame = run_flight_frame[OF fl(1) dist]
  have elig: "task_eligible ?d i = task_eligible c i" for i
    by (cases "bt_get (tc_tasks c) i") (auto simp: task_eligible_def frame)
  then have any: "any_eligible ?d g = any_eligible c h" if "fl_subscribers g = fl_subscribers h" for g h
    using that by (simp add: any_eligible_def list_ex_iff)
  have flight_back: "\<exists>h. bt_get (tc_flights c) k = Some h \<and> fl_key g = fl_key h
      \<and> fl_subscribers g = fl_subscribers h \<and> fl_cancelled g = fl_cancelled h"
    if "bt_get (tc_flights ?d) k = Some g" for k g
    using that fl(1) by (auto simp: frame split: if_splits)
  have "states_match ?d"
    unfolding states_match_def
  proof (intro allI impI)
    fix i t g
    assume i: "bt_get (tc_tasks ?d) i = Some t" "is_eligible t"
      and g: "bt_get (tc_flights ?d) (ts_flight t) = Some g"
    show "ts_state t = state_of_flight (fl_state g)"
    proof (cases "i \<in> set (fl_subscribers f)")
      case True
      then obtain u where u: "bt_get (tc_tasks c) i = Some u" "t = start_running u"
        using i by (auto simp: frame)
      have "ts_flight u = j" using parts(3) fl(1) True u(1) unfolding flights_linked_def by fastforce
      with g u i(2) show ?thesis by (auto simp: frame state_of_flight_def)
    next
      case False
      then have t: "bt_get (tc_tasks c) i = Some t" using i(1) by (simp add: frame)
      then obtain h where h: "bt_get (tc_flights c) (ts_flight t) = Some h" "i \<in> set (fl_subscribers h)"
        using parts(2) unfolding tasks_linked_def by blast
      with False fl(1) have "ts_flight t \<noteq> j" by auto
      with g h t i(2) parts(6) show ?thesis by (simp add: frame states_match_def)
    qed
  qed
  moreover have "index_complete ?d"
    using parts(7) flight_back any unfolding index_complete_def frame(5) by metis
  moreover have "index_tight ?d"
    using parts(10) flight_back any unfolding index_tight_def frame(5) by metis
  moreover have "sessions_current ?d"
    unfolding sessions_current_def
  proof (intro allI impI)
    fix i t assume i: "bt_get (tc_tasks ?d) i = Some t" "is_eligible t"
    then obtain u where "bt_get (tc_tasks c) i = Some u" "is_eligible u" "ts_spec t = ts_spec u"
      by (auto simp: frame split: if_splits)
    then show "bt_get (tc_sessions ?d) (task_session_of t) = Some (sp_generation (ts_spec t))"
      using parts(11) by (simp add: sessions_current_def frame(4) task_session_of_def)
  qed
  moreover have "progress_uniform ?d"
  proof -
    have "progress_of ?d = progress_of c"
      by (rule ext, rename_tac i, case_tac "bt_get (tc_tasks c) i")
        (simp_all add: progress_of_def frame)
    then show ?thesis
      using parts(9) flight_back unfolding progress_uniform_def by metis
  qed
  moreover have "limits_kept ?d"
  proof -
    have "card (bt_having is_eligible (tc_tasks ?d)) \<le> card (bt_having is_eligible (tc_tasks c))"
      by (rule bt_having_mono) (auto simp: frame split: if_splits)
    moreover have "card (bt_having (\<lambda>f. fl_state f = FlightQueued) (tc_flights ?d))
        \<le> card (bt_having (\<lambda>f. fl_state f = FlightQueued) (tc_flights c))"
      by (rule bt_having_mono) (auto simp: frame split: if_splits)
    moreover have "running_flight_count r ?d \<le> limit_of c r" for r
      using parts(8) cap
      by (auto simp: frame limits_kept_def limit_of_def resource_has_capacity_def split: option.splits)
    moreover have "length (fl_subscribers g) \<le> maximum_subscribers_per_flight (tc_config c)"
      if "bt_get (tc_flights ?d) k = Some g" for k g
      using parts(8) flight_back[OF that] unfolding limits_kept_def by metis
    moreover have "length (ts_diagnostics t) \<le> maximum_diagnostics_per_task (tc_config c)"
      if "bt_get (tc_tasks ?d) i = Some t" for i t
      using parts(8) that by (auto simp: frame limits_kept_def split: if_splits)
    ultimately show ?thesis
      using parts(8) unfolding limits_kept_def frame(1,6) limit_of_def by (simp add: le_trans)
  qed
  ultimately show ?thesis
    using run_flight_link[OF fl(1,2) parts(12)] by (simp add: coordinator_inv_def loose_inv_def)
qed

text \<open>
  A dispatch after \<open>expire\<close>: nothing is dispatchable, or the highest-ranked dispatchable flight
  starts, represented by its first eligible subscriber.
\<close>

lemma dispatch_shape:
  assumes inv: "coordinator_inv c"
  shows "\<exists>e. expire now c = Some e \<and> expired now c e \<and> coordinator_inv e
    \<and> ((\<forall>j f. \<not> dispatchable e j f) \<and> dispatch_next now c = Some (None, e)
      \<or> (\<exists>j f r dp. dispatchable e j f \<and> flight_rank_of e f = Some r
          \<and> (\<forall>k g q. dispatchable e k g \<longrightarrow> flight_rank_of e g = Some q \<longrightarrow> compare_rank r q \<noteq> Less)
          \<and> dispatch_next now c = Some (Some dp, run_flight j f e)
          \<and> td_flight dp = j \<and> td_resource dp = fst (fl_key f) \<and> td_recipe dp = snd (fl_key f)
          \<and> td_representative_task dp \<in> set (fl_subscribers f)
          \<and> task_eligible e (td_representative_task dp) \<and> td_cancellation dp = j
          \<and> flight_started e j f (run_flight j f e)))"
proof -
  from expire_total[OF inv] obtain e where e: "expire now c = Some e" "coordinator_inv e"
    "expired now c e" by blast
  let ?xs = "ranked_candidates e"
  note cand = ranked_candidates_iff[OF e(2)]
  have key: "(\<lambda>l r. compare_rank (snd l) (snd r)) = (\<lambda>l r. cmp (rank_key (snd l)) (rank_key (snd r)))"
    by (simp add: compare_rank_key)
  show ?thesis
  proof (cases "max_by (\<lambda>l r. compare_rank (snd l) (snd r)) ?xs")
    case None
    then have "?xs = []" by (simp add: max_by_None)
    have "\<not> dispatchable e j f" for j f
    proof
      assume d: "dispatchable e j f"
      then have "flight_rank_of e f \<noteq> None" by (simp add: flight_rank_None dispatchable_def)
      with d cand \<open>?xs = []\<close> show False by fastforce
    qed
    with None e show ?thesis by (simp add: dispatch_next_def)
  next
    case (Some m)
    then obtain j r where m: "m = (j, r)" by (cases m)
    from max_by_key[OF Some[unfolded key]] have mem: "(j, r) \<in> set ?xs"
      and best: "\<And>y. y \<in> set ?xs \<Longrightarrow> rank_key (snd y) \<le> rank_key r"
      by (simp_all add: m)
    from mem cand obtain f where f: "dispatchable e j f" "flight_rank_of e f = Some r" by blast
    have best': "compare_rank r q \<noteq> Less" if "dispatchable e k g" "flight_rank_of e g = Some q" for k g q
    proof -
      have "(k, q) \<in> set ?xs" using that cand by blast
      from best[OF this] show ?thesis by (simp add: compare_rank_key cmp_def not_less split: if_splits)
    qed
    have fl: "bt_get (tc_flights e) j = Some f" "any_eligible e f"
      using f(1) by (simp_all add: dispatchable_def)
    then obtain i where i: "find (task_eligible e) (fl_subscribers f) = Some i"
      by (cases "find (task_eligible e) (fl_subscribers f)")
        (auto simp: any_eligible_def find_None_iff list_ex_iff)
    then have rep: "i \<in> set (fl_subscribers f)" "task_eligible e i"
      by (auto simp: find_Some_iff)
    let ?dp = "\<lparr>td_flight = j, td_representative_task = i, td_recipe = snd (fl_key f),
      td_resource = fst (fl_key f), td_cancellation = j\<rparr>"
    have "dispatch_next now c = Some (Some ?dp, run_flight j f e)"
      by (simp add: dispatch_next_def e(1) Some m dispatch_selected_def fl(1) i run_flight_def Let_def)
    moreover have "flight_started e j f (run_flight j f e)"
      by (rule run_flight_started[OF fl(1)])
        (use coordinator_parts(12)[OF e(2)] fl(1) in \<open>auto simp: link_inv_def flights_linked_def\<close>)
    ultimately show ?thesis using e f best' rep
      by (intro exI[of _ e] conjI disjI2 exI[of _ j] exI[of _ f] exI[of _ r] exI[of _ ?dp]) auto
  qed
qed

lemma dispatch_inv:
  assumes "coordinator_inv c" "dispatch_next now c = Some (dp, d)"
  shows "coordinator_inv d"
  using dispatch_shape[OF assms(1), of now] assms(2) run_flight_inv by auto

end
