(* ===== verification/Task_Gate.thy ===== *)
theory Task_Gate
  imports Task_Completion
begin

text \<open>
  Completion and publication: which subscribers of a finished flight get an accepted receipt,
  and that an accepted receipt still passes the publication check. Then the step relation of the
  coordinator, its reachable states, and the properties of the component.
\<close>

section \<open>The receipts of a batch\<close>

lemma accepted_iff:
  "rc \<in> set (cb_accepted (gate_subscribers j outcome now c ids)) \<longleftrightarrow>
    (\<exists>i \<in> set ids. \<exists>t. bt_get (tc_tasks c) i = Some t \<and> completion_gate now c t = None
       \<and> rc = receipt_for j outcome now i t)"
  by (induction ids) (auto simp: Let_def split: option.split)

lemma rejected_iff:
  "rj \<in> set (cb_rejected (gate_subscribers j outcome now c ids)) \<longleftrightarrow>
    (\<exists>i \<in> set ids. \<exists>t reason. bt_get (tc_tasks c) i = Some t \<and> completion_gate now c t = Some reason
       \<and> rj = \<lparr>rj_receipt = receipt_for j outcome now i t, rj_reason = reason\<rparr>)"
  by (induction ids) (auto simp: Let_def split: option.split)

lemma receipt_for_simps [simp]:
  "rc_task (receipt_for j out now i t) = i" "rc_owner (receipt_for j out now i t) = sp_owner (ts_spec t)"
  "rc_captured_generation (receipt_for j out now i t) = sp_generation (ts_spec t)"
  "rc_deadline (receipt_for j out now i t) = sp_deadline (ts_spec t)"
  "rc_flight (receipt_for j out now i t) = j" "rc_outcome (receipt_for j out now i t) = out"
  "rc_recipe (receipt_for j out now i t) = sp_recipe (ts_spec t)"
  "rc_resource (receipt_for j out now i t) = sp_resource (ts_spec t)"
  by (simp_all add: receipt_for_def)

lemma accepted_tasks:
  "map rc_task (cb_accepted (gate_subscribers j outcome now c ids))
    = filter (\<lambda>i. \<exists>t. bt_get (tc_tasks c) i = Some t \<and> completion_gate now c t = None) ids"
  by (induction ids) (auto simp: Let_def split: option.split)

lemma rejected_tasks:
  "map (rc_task \<circ> rj_receipt) (cb_rejected (gate_subscribers j outcome now c ids))
    = filter (\<lambda>i. \<exists>t. bt_get (tc_tasks c) i = Some t \<and> completion_gate now c t \<noteq> None) ids"
  by (induction ids) (auto simp: Let_def split: option.split)

text \<open>Once deadlines have expired, the gate accepts exactly the eligible tasks.\<close>

lemma gate_eligible:
  assumes inv: "coordinator_inv c" and ex: "expired now b c" and t: "bt_get (tc_tasks c) i = Some t"
  shows "completion_gate now c t = None \<longleftrightarrow> is_eligible t"
proof
  assume "is_eligible t"
  moreover from this have "bt_get (tc_sessions c) (task_session_of t) = Some (sp_generation (ts_spec t))"
    using coordinator_parts(11)[OF inv] t by (simp add: sessions_current_def)
  moreover have "\<not> deadline_elapsed (sp_deadline (ts_spec t)) now"
    using ex t \<open>is_eligible t\<close> unfolding expired_def by blast
  ultimately show "completion_gate now c t = None"
    by (auto simp: completion_gate_def is_eligible_def split: task_state.split)
next
  assume "completion_gate now c t = None"
  then show "is_eligible t"
    by (auto simp: completion_gate_def is_eligible_def split: option.splits if_splits task_state.splits)
qed

lemma gate_same:
  assumes "same_gates c d" "map_option (\<lambda>t. (ts_spec t, ts_state t)) (Some u)
    = map_option (\<lambda>t. (ts_spec t, ts_state t)) (Some t)"
  shows "completion_gate now d u = completion_gate now c t"
proof -
  have eqs: "ts_spec u = ts_spec t" "ts_state u = ts_state t" "tc_sessions d = tc_sessions c"
    using assms by (simp_all add: same_gates_def)
  show ?thesis unfolding completion_gate_def task_session_of_def eqs by (rule refl)
qed

section \<open>Completion\<close>

lemma complete_shape:
  assumes inv: "coordinator_inv c" and f: "bt_get (tc_flights c) j = Some f" "fl_state f = FlightRunning"
  shows "\<exists>b d. complete j report now c = Some (Inr b, d) \<and> coordinator_inv d
    \<and> tc_sessions d = tc_sessions c \<and> bt_get (tc_flights d) j = None
    \<and> (\<forall>i \<in> set (fl_subscribers f). bt_get (tc_tasks d) i = None)
    \<and> map rc_task (cb_accepted b) = filter (\<lambda>i. \<exists>t. bt_get (tc_tasks c) i = Some t \<and> is_eligible t
         \<and> \<not> deadline_elapsed (sp_deadline (ts_spec t)) now) (fl_subscribers f)
    \<and> map (rc_task \<circ> rj_receipt) (cb_rejected b) = filter (\<lambda>i. \<not> (\<exists>t. bt_get (tc_tasks c) i = Some t
         \<and> is_eligible t \<and> \<not> deadline_elapsed (sp_deadline (ts_spec t)) now)) (fl_subscribers f)
    \<and> (\<forall>rc \<in> set (cb_accepted b). validate_for_publication rc now d = Inr ()
         \<and> rc_flight rc = j \<and> rc_outcome rc = cr_outcome report
         \<and> bt_get (tc_sessions c) (sc_session (os_scope (rc_owner rc))) = Some (rc_captured_generation rc))"
proof -
  from expire_total[OF inv] obtain e where e: "expire now c = Some e" "coordinator_inv e"
    "expired now c e" by blast
  obtain g where g: "bt_get (tc_flights e) j = Some g" "fl_state g = FlightRunning"
    "fl_subscribers g = fl_subscribers f"
    using e(3) f unfolding expired_def by blast
  let ?subs = "fl_subscribers f"
  let ?p = "fold (\<lambda>d c. fold (\<lambda>i. push_diagnostic i d) ?subs c) (cr_diagnostics report) e"
  have p: "coordinator_inv ?p" "same_gates e ?p"
    using push_all_diagnostics_inv[OF e(2)] by blast+
  let ?b = "gate_subscribers j (cr_outcome report) now ?p ?subs"
  let ?acc = "map rc_task (cb_accepted ?b)" and ?rej = "map (rc_task \<circ> rj_receipt) (cb_rejected ?b)"
  let ?q = "fold (\<lambda>i. retire_task i Rejected) ?rej
    (fold (\<lambda>i. retire_task i (outcome_state (cr_outcome report))) ?acc ?p)"
  have fp: "bt_get (tc_flights ?p) j = Some g"
    using p(2) g(1) by (simp add: same_gates_def)
  have tasks: "\<exists>t u. bt_get (tc_tasks c) i = Some t \<and> bt_get (tc_tasks ?p) i = Some u
      \<and> (completion_gate now ?p u = None \<longleftrightarrow> is_eligible t \<and> \<not> deadline_elapsed (sp_deadline (ts_spec t)) now)"
    if i: "i \<in> set ?subs" for i
  proof -
    obtain t where t: "bt_get (tc_tasks c) i = Some t"
      using coordinator_parts(3)[OF inv] f(1) i unfolding flights_linked_def by blast
    obtain v where v: "bt_get (tc_tasks e) i = Some v"
      using coordinator_parts(3)[OF e(2)] g(1,3) i unfolding flights_linked_def by metis
    have same: "map_option (\<lambda>t. (ts_spec t, ts_state t)) (bt_get (tc_tasks ?p) i)
        = map_option (\<lambda>t. (ts_spec t, ts_state t)) (Some v)"
      using p(2) v by (simp add: same_gates_def)
    then obtain u where u: "bt_get (tc_tasks ?p) i = Some u" by (cases "bt_get (tc_tasks ?p) i") auto
    have "completion_gate now ?p u = completion_gate now e v"
      using gate_same[OF p(2)] same u by simp
    moreover have "completion_gate now e v = None \<longleftrightarrow> is_eligible v"
      by (rule gate_eligible[OF e(2,3) v])
    moreover have "is_eligible v \<longleftrightarrow> is_eligible t \<and> \<not> deadline_elapsed (sp_deadline (ts_spec t)) now"
      using e(3) t v unfolding expired_def by (metis option.inject)
    ultimately show ?thesis using t u by (intro exI[of _ t] exI[of _ u]) simp
  qed
  have acc: "?acc = filter (\<lambda>i. \<exists>t. bt_get (tc_tasks c) i = Some t \<and> is_eligible t
      \<and> \<not> deadline_elapsed (sp_deadline (ts_spec t)) now) ?subs"
    unfolding accepted_tasks by (rule filter_cong) (use tasks in fastforce)+
  have rej: "?rej = filter (\<lambda>i. \<not> (\<exists>t. bt_get (tc_tasks c) i = Some t \<and> is_eligible t
      \<and> \<not> deadline_elapsed (sp_deadline (ts_spec t)) now)) ?subs"
    unfolding rejected_tasks by (rule filter_cong) (use tasks in fastforce)+
  have "set ?acc \<union> set ?rej = set ?subs"
    unfolding acc rej by auto
  moreover have "retired (set ?acc \<union> set ?rej) ?p ?q"
    by (rule retired_trans[OF retired_fold retired_fold]) (rule retired_task)+
  ultimately have "retired (set ?subs) ?p ?q" by simp
  then have drop: "dropping j g ?p ?q" using fp g(3) by (simp add: dropping_def)
  let ?d = "remove_flight j ?q"
  have "tc_sessions e = tc_sessions c" using e(3) unfolding expired_def by blast
  moreover have "tc_sessions ?p = tc_sessions e" using p(2) unfolding same_gates_def by blast
  ultimately have sess: "tc_sessions ?d = tc_sessions c" "tc_sessions ?p = tc_sessions c"
    using dropping_frame(4)[OF drop] by simp_all
  have "complete j report now c = Some (Inr ?b, ?d)"
    by (simp add: complete_def e(1) g Let_def)
  moreover have "validate_for_publication rc now ?d = Inr () \<and> rc_flight rc = j
      \<and> rc_outcome rc = cr_outcome report
      \<and> bt_get (tc_sessions c) (sc_session (os_scope (rc_owner rc))) = Some (rc_captured_generation rc)"
    if rc: "rc \<in> set (cb_accepted ?b)" for rc
  proof -
    obtain i t where t: "completion_gate now ?p t = None"
      "rc = receipt_for j (cr_outcome report) now i t"
      using rc unfolding accepted_iff by blast
    then have "bt_get (tc_sessions c) (task_session_of t) = Some (sp_generation (ts_spec t))"
      "\<not> deadline_elapsed (sp_deadline (ts_spec t)) now"
      by (auto simp: completion_gate_def sess split: option.splits if_splits)
    then show ?thesis
      by (simp add: t(2) validate_for_publication_def sess task_session_of_def)
  qed
  moreover have "bt_get (tc_flights ?d) j = None"
    by (subst dropping_frame(6)[OF drop]) simp
  moreover have "\<forall>i \<in> set ?subs. bt_get (tc_tasks ?d) i = None"
    using g(3) by (subst dropping_frame(5)[OF drop]) simp
  ultimately show ?thesis
    using dropping_inv[OF drop p(1)] acc rej sess(1) by blast
qed

lemma complete_refused:
  assumes inv: "coordinator_inv c"
    and none: "\<not> (\<exists>f. bt_get (tc_flights c) j = Some f \<and> fl_state f = FlightRunning)"
  shows "\<exists>err d. complete j report now c = Some (Inl err, d) \<and> expire now c = Some d \<and> coordinator_inv d
    \<and> (err = UnknownFlight j \<or> err = FlightNotRunning j)"
proof -
  from expire_total[OF inv] obtain e where e: "expire now c = Some e" "coordinator_inv e"
    "expired now c e" by blast
  have "fl_state g \<noteq> FlightRunning" if "bt_get (tc_flights e) j = Some g" for g
    using e(3) that none unfolding expired_def by metis
  then show ?thesis
    using e by (auto simp: complete_def split: option.split)
qed

lemma complete_inv:
  assumes "coordinator_inv c" "complete j report now c = Some (r, d)"
  shows "coordinator_inv d"
  using complete_shape[OF assms(1), of j _ report now] complete_refused[OF assms(1), of j report now]
    assms(2) by (metis option.inject prod.inject)

section \<open>Reachable states\<close>

text \<open>
  One call of the public interface. Submission draws identifiers from two \<open>u64\<close> counters that
  saturate; the relation covers the submissions made before either counter is used up.
\<close>

inductive coordinator_step :: "task_coordinator \<Rightarrow> task_coordinator \<Rightarrow> bool" where
  observe: "coordinator_step c (snd (observe_session s g c))"
| close: "coordinator_step c (close_session s c)"
| submit: "tc_next_task c < u64_max \<Longrightarrow> tc_next_flight c < u64_max \<Longrightarrow>
    submit spec now c = Some (r, d) \<Longrightarrow> coordinator_step c d"
| dispatch: "dispatch_next now c = Some (dp, d) \<Longrightarrow> coordinator_step c d"
| progress: "coordinator_step c (snd (report_progress j p c))"
| diagnostic: "coordinator_step c (snd (report_diagnostic j dg c))"
| cancel: "coordinator_step c (snd (cancel_task i reason c))"
| cancel_owner: "coordinator_step c (snd (cancel_owner owner c))"
| complete: "complete j report now c = Some (b, d) \<Longrightarrow> coordinator_step c d"

inductive coordinator_reachable :: "task_coordinator \<Rightarrow> bool" where
  new: "coordinator_new cfg = Inr c \<Longrightarrow> coordinator_reachable c"
| step: "coordinator_reachable c \<Longrightarrow> coordinator_step c d \<Longrightarrow> coordinator_reachable d"

lemma submit_inv:
  assumes "coordinator_inv c" "tc_next_task c < u64_max" "tc_next_flight c < u64_max"
    and "submit spec now c = Some (r, d)"
  shows "coordinator_inv d"
  using submit_shape[OF assms(1-3), of now spec] assms(4) by auto

lemma coordinator_step_inv: "coordinator_step c d \<Longrightarrow> coordinator_inv c \<Longrightarrow> coordinator_inv d"
  by (induction rule: coordinator_step.induct)
    (auto intro: observe_session_inv close_session_inv submit_inv dispatch_inv report_progress_inv
      report_diagnostic_inv cancel_task_inv cancel_owner_inv complete_inv)

lemma coordinator_reachable_inv: "coordinator_reachable c \<Longrightarrow> coordinator_inv c"
  by (induction rule: coordinator_reachable.induct)
    (auto intro: coordinator_new_inv coordinator_step_inv)

text \<open>At most one live flight computes a recipe on a resource.\<close>

lemma live_flights_unique:
  assumes inv: "coordinator_inv c"
    and f: "bt_get (tc_flights c) j = Some f" "\<not> fl_cancelled f"
    and g: "bt_get (tc_flights c) k = Some g" "\<not> fl_cancelled g" and "fl_key f = fl_key g"
  shows "j = k"
proof -
  have live: "any_eligible c h" if "bt_get (tc_flights c) l = Some h" "\<not> fl_cancelled h" for l h
    using coordinator_parts(10)[OF inv] that unfolding index_tight_def by blast
  have "bt_get (tc_single_flights c) (fl_key h) = Some l"
    if "bt_get (tc_flights c) l = Some h" "\<not> fl_cancelled h" for l h
    using coordinator_parts(7)[OF inv] that live unfolding index_complete_def by blast
  with f g assms(6) show ?thesis by (metis option.inject)
qed

end
