(* ===== verification/Task_Properties.thy ===== *)
theory Task_Properties
  imports Task_Gate
begin

text \<open>
  The properties of the task coordinator (\<open>src/task_coordinator.rs\<close>) in its reachable states, with
  a coordinator that runs one flight as the concrete instance.
\<close>

section \<open>A concrete coordinator\<close>

definition sample_config :: coordinator_config where
  "sample_config = \<lparr>maximum_active_tasks = 4, maximum_queued_flights = 4,
     maximum_subscribers_per_flight = 2, maximum_diagnostics_per_task = 1,
     maximum_terminal_snapshots = 2, resource_limits = [(Cpu, 1)]\<rparr>"

definition sample_spec :: task_spec where
  "sample_spec = \<lparr>sp_owner = \<lparr>os_owner = Id 1, os_scope = \<lparr>sc_session = Id 1, sc_pane = SessionScope\<rparr>\<rparr>,
     sp_generation = 1, sp_recipe = RecipeKey ''render'' 1 (replicate 32 0), sp_resource = Cpu,
     sp_priority = Foreground, sp_deadline = Some 50\<rparr>"

definition opened :: task_coordinator where
  "opened = (case coordinator_new sample_config of
     Inl _ \<Rightarrow> undefined | Inr c \<Rightarrow> snd (observe_session (Id 1) 1 c))"

definition queued :: task_coordinator where
  "queued = snd (the (submit sample_spec 0 opened))"

definition running :: task_coordinator where
  "running = snd (the (dispatch_next 0 queued))"

lemmas coordinator_eval = opened_def coordinator_new_def sample_config_def config_validate_def
  bt_values_def observe_session_def Let_def bt_get_Cons mark_all_def tasks_with_def
  cancel_unobserved_flights_def submit_def expire_def deadline_elapsed_def bt_contains_def
  sample_spec_def retire_abandoned_queued_flights_def start_flight_def
  check_active_capacity_for_def queued_flight_count_def allocate_task_def allocate_flight_def
  sat_add_u64_def range_simps new_snapshot_def supersede_older_def bt_map_def any_eligible_def
  task_eligible_def is_eligible_def dispatch_next_def ranked_candidates_def List.map_filter_def
  flight_rank_of_def resource_has_capacity_def running_flight_count_def dispatch_selected_def
  bt_modify_def start_running_def

lemma opened_reachable: "coordinator_reachable opened"
proof -
  obtain c where c: "coordinator_new sample_config = Inr c"
    by (simp add: coordinator_new_def sample_config_def config_validate_def bt_values_def)
  have "opened = snd (observe_session (Id 1) 1 c)" by (simp add: opened_def c)
  with c show ?thesis
    using coordinator_reachable.new coordinator_reachable.step coordinator_step.observe by metis
qed

lemma opened_budget: "tc_next_task opened < u64_max" "tc_next_flight opened < u64_max"
  by (simp_all add: coordinator_eval)

lemma queued_submit:
  "submit sample_spec 0 opened
    = Some (Inr \<lparr>sb_task = Id 1, sb_flight = Id 1, sb_joined_existing_flight = False\<rparr>, queued)"
proof -
  have "map_option fst (submit sample_spec 0 opened)
      = Some (Inr \<lparr>sb_task = Id 1, sb_flight = Id 1, sb_joined_existing_flight = False\<rparr>)"
    by (simp add: coordinator_eval)
  then show ?thesis by (auto simp: queued_def)
qed

lemma queued_reachable: "coordinator_reachable queued"
  by (rule coordinator_reachable.step[OF opened_reachable])
    (rule coordinator_step.submit[OF opened_budget queued_submit])

lemma queued_dispatch: "\<exists>dp. dispatch_next 0 queued = Some (Some dp, running)"
proof -
  have "map_option (\<lambda>p. fst p \<noteq> None) (dispatch_next 0 queued) = Some True"
    by (simp add: queued_def coordinator_eval)
  then show ?thesis by (auto simp: running_def)
qed

lemma running_reachable: "coordinator_reachable running"
  using queued_dispatch coordinator_reachable.step[OF queued_reachable] coordinator_step.dispatch
  by metis

lemma running_flight:
  "\<exists>f. bt_get (tc_flights running) (Id 1) = Some f \<and> fl_state f = FlightRunning
     \<and> fl_subscribers f = [Id 1]"
  by (simp add: running_def queued_def coordinator_eval)

lemma running_task:
  "\<exists>t. bt_get (tc_tasks running) (Id 1) = Some t \<and> is_eligible t \<and> sp_deadline (ts_spec t) = Some 50"
  by (simp add: running_def queued_def coordinator_eval)

section \<open>Properties\<close>

text \<open>
  In every reachable state the bookkeeping is coherent: tasks and flights point at each
  other, every flight has distinct, present subscribers of its own resource and recipe, the
  single-flight index leads to flights with its key, and the running counters count the running
  flights.
\<close>

theorem bookkeeping_coherent:
  assumes "coordinator_reachable c"
  shows "tasks_linked c \<and> flights_linked c \<and> index_sound c \<and> running_counted c \<and> states_match c
    \<and> sessions_current c"
  using coordinator_parts[OF coordinator_reachable_inv[OF assms]] by simp

lemma bookkeeping_coherent_witness: "flights_linked running \<and> running_counted running"
  using bookkeeping_coherent[OF running_reachable] by simp

text \<open>
  C5. In every reachable state these counts are within the limits of the configuration: the eligible
  tasks (neither cancelled nor superseded), the queued flights, the subscribers of a flight, the
  running flights of each resource, the diagnostics of a task and the retained terminal snapshots.
  The tasks held can be more than \<open>maximum_active_tasks\<close>: superseded ones stay until their flight
  completes.
\<close>

theorem limits_hold:
  assumes "coordinator_reachable c"
  shows "length (filter is_eligible (bt_values (tc_tasks c))) \<le> maximum_active_tasks (tc_config c)
    \<and> queued_flight_count c \<le> maximum_queued_flights (tc_config c)
    \<and> (\<forall>j f. bt_get (tc_flights c) j = Some f \<longrightarrow>
         length (fl_subscribers f) \<le> maximum_subscribers_per_flight (tc_config c))
    \<and> (\<forall>r. running_flight_count r c \<le> limit_of c r)
    \<and> (\<forall>i t. bt_get (tc_tasks c) i = Some t \<longrightarrow>
         length (ts_diagnostics t) \<le> maximum_diagnostics_per_task (tc_config c))
    \<and> length (tc_terminal c) \<le> maximum_terminal_snapshots (tc_config c)"
  using coordinator_parts[OF coordinator_reachable_inv[OF assms]]
  by (simp add: limits_kept_def queued_flight_count_def bt_count)

lemma limits_hold_witness: "running_flight_count Cpu running \<le> limit_of running Cpu"
  using limits_hold[OF running_reachable] by simp

text \<open>
  C4. Identical work runs once: two flights that are not cancelled never have the same resource
  and recipe, and a flight is cancelled exactly when none of its subscribers is eligible.
\<close>

theorem single_flight:
  assumes "coordinator_reachable c"
    and "bt_get (tc_flights c) j = Some f" "bt_get (tc_flights c) k = Some g"
  shows "(\<not> fl_cancelled f \<and> \<not> fl_cancelled g \<and> fl_key f = fl_key g \<longrightarrow> j = k)
    \<and> (fl_cancelled f \<longleftrightarrow> \<not> any_eligible c f)"
proof -
  note inv = coordinator_reachable_inv[OF assms(1)]
  have "fl_cancelled f \<longleftrightarrow> \<not> any_eligible c f"
    using coordinator_parts(7,10)[OF inv] assms(2) unfolding index_complete_def index_tight_def by blast
  with live_flights_unique[OF inv assms(2) _ assms(3)] show ?thesis by blast
qed

lemma single_flight_witness:
  "\<exists>f. bt_get (tc_flights running) (Id 1) = Some f \<and> (fl_cancelled f \<longleftrightarrow> \<not> any_eligible running f)"
  using running_flight single_flight[OF running_reachable] by blast

text \<open>
  C6. A submission always returns: the indexed flight exists and is still shareable, so neither
  the \<open>expect\<close> nor \<open>FlightCancelling\<close> can happen. A refusal changes nothing beyond the expiry; an
  admission has the current generation and a deadline ahead, and joins an existing flight
  exactly when one is indexed.
\<close>

theorem submission_is_total:
  assumes "coordinator_reachable c" "tc_next_task c < u64_max" "tc_next_flight c < u64_max"
  shows "\<exists>r d e. expire now c = Some e \<and> submit spec now c = Some (r, d)
    \<and> (case r of
         Inl err \<Rightarrow> d = e \<and> (\<forall>j. err \<noteq> FlightCancelling j)
       | Inr s \<Rightarrow>
           bt_get (tc_sessions e) (sc_session (os_scope (sp_owner spec))) = Some (sp_generation spec)
           \<and> \<not> deadline_elapsed (sp_deadline spec) now
           \<and> (if sb_joined_existing_flight s
              then bt_get (tc_single_flights e) (sp_resource spec, sp_recipe spec) = Some (sb_flight s)
                \<and> tc_next_flight d = tc_next_flight e
              else bt_get (tc_single_flights e) (sp_resource spec, sp_recipe spec) = None
                \<and> tc_next_flight d = Suc (tc_next_flight e)))"
  using submit_shape[OF coordinator_reachable_inv[OF assms(1)] assms(2,3), of now spec] by blast

lemma submission_is_total_witness:
  "\<exists>e. expire 0 opened = Some e
    \<and> bt_get (tc_single_flights e) (sp_resource sample_spec, sp_recipe sample_spec) = None"
  using submission_is_total[OF opened_reachable opened_budget, of 0 sample_spec]
  by (auto simp: queued_submit)

text \<open>
  C7. Dispatch never panics and starts the best flight. It starts nothing, and changes nothing beyond
  the expiry, when no queued flight has an eligible subscriber and a free resource. Otherwise it
  starts one such flight that no other outranks: afterwards that flight runs, its eligible
  subscribers are running, its resource has one more running flight and nothing else has changed
  (\<open>flight_started\<close>, over the lookups of the two states); the representative is one of its eligible
  subscribers.
\<close>

theorem dispatch_selects_best:
  assumes "coordinator_reachable c"
  shows "\<exists>e r d. expire now c = Some e \<and> dispatch_next now c = Some (r, d)
    \<and> (case r of
         None \<Rightarrow> d = e \<and> (\<forall>j f. \<not> dispatchable e j f)
       | Some dp \<Rightarrow> (\<exists>f rk. dispatchable e (td_flight dp) f \<and> flight_rank_of e f = Some rk
           \<and> (\<forall>k g q. dispatchable e k g \<longrightarrow> flight_rank_of e g = Some q \<longrightarrow> compare_rank rk q \<noteq> Less)
           \<and> td_resource dp = fst (fl_key f) \<and> td_recipe dp = snd (fl_key f)
           \<and> td_representative_task dp \<in> set (fl_subscribers f)
           \<and> task_eligible e (td_representative_task dp) \<and> td_cancellation dp = td_flight dp
           \<and> flight_started e (td_flight dp) f d))"
proof -
  from dispatch_shape[OF coordinator_reachable_inv[OF assms], of now]
  obtain e where e: "expire now c = Some e"
    and alt: "(\<forall>j f. \<not> dispatchable e j f) \<and> dispatch_next now c = Some (None, e)
      \<or> (\<exists>j f r dp. dispatchable e j f \<and> flight_rank_of e f = Some r
          \<and> (\<forall>k g q. dispatchable e k g \<longrightarrow> flight_rank_of e g = Some q \<longrightarrow> compare_rank r q \<noteq> Less)
          \<and> dispatch_next now c = Some (Some dp, run_flight j f e)
          \<and> td_flight dp = j \<and> td_resource dp = fst (fl_key f) \<and> td_recipe dp = snd (fl_key f)
          \<and> td_representative_task dp \<in> set (fl_subscribers f)
          \<and> task_eligible e (td_representative_task dp) \<and> td_cancellation dp = j
          \<and> flight_started e j f (run_flight j f e))"
    by blast
  from alt show ?thesis
  proof (elim disjE exE conjE)
    fix j f r dp
    assume "dispatchable e j f" "flight_rank_of e f = Some r"
      "\<forall>k g q. dispatchable e k g \<longrightarrow> flight_rank_of e g = Some q \<longrightarrow> compare_rank r q \<noteq> Less"
      "dispatch_next now c = Some (Some dp, run_flight j f e)" "td_flight dp = j"
      "td_resource dp = fst (fl_key f)" "td_recipe dp = snd (fl_key f)"
      "td_representative_task dp \<in> set (fl_subscribers f)" "task_eligible e (td_representative_task dp)"
      "td_cancellation dp = j" "flight_started e j f (run_flight j f e)"
    with e show ?thesis
      by (intro exI[of _ e] exI[of _ "Some dp"] exI[of _ "run_flight j f e"]) auto
  qed (use e in auto)
qed

lemma dispatch_selects_best_witness:
  "\<exists>e dp f. expire 0 queued = Some e \<and> dispatch_next 0 queued = Some (Some dp, running)
    \<and> dispatchable e (td_flight dp) f \<and> flight_started e (td_flight dp) f running"
proof -
  from queued_dispatch obtain dp where "dispatch_next 0 queued = Some (Some dp, running)" by blast
  with dispatch_selects_best[OF queued_reachable, of 0] show ?thesis by fastforce
qed

text \<open>
  C3. Completing a running flight gives every subscriber exactly one receipt, in subscription
  order: accepted exactly for the tasks that were eligible and whose deadline had not passed. An
  accepted receipt names the current generation of its session and passes the publication check
  right after completion.
\<close>

theorem completion_gate_exact:
  assumes "coordinator_reachable c" "bt_get (tc_flights c) j = Some f" "fl_state f = FlightRunning"
  shows "\<exists>b d. complete j report now c = Some (Inr b, d)
    \<and> map rc_task (cb_accepted b) = filter (\<lambda>i. \<exists>t. bt_get (tc_tasks c) i = Some t \<and> is_eligible t
         \<and> \<not> deadline_elapsed (sp_deadline (ts_spec t)) now) (fl_subscribers f)
    \<and> map (rc_task \<circ> rj_receipt) (cb_rejected b) = filter (\<lambda>i. \<not> (\<exists>t. bt_get (tc_tasks c) i = Some t
         \<and> is_eligible t \<and> \<not> deadline_elapsed (sp_deadline (ts_spec t)) now)) (fl_subscribers f)
    \<and> (\<forall>rc \<in> set (cb_accepted b). validate_for_publication rc now d = Inr ()
         \<and> bt_get (tc_sessions c) (sc_session (os_scope (rc_owner rc))) = Some (rc_captured_generation rc))
    \<and> bt_get (tc_flights d) j = None
    \<and> (\<forall>i \<in> set (fl_subscribers f). bt_get (tc_tasks d) i = None)"
  using complete_shape[OF coordinator_reachable_inv[OF assms(1)] assms(2,3), of report now] by blast

lemma completion_gate_exact_witness:
  "\<exists>b d. complete (Id 1) \<lparr>cr_outcome = OutSucceeded None, cr_diagnostics = []\<rparr> 10 running = Some (Inr b, d)
    \<and> map rc_task (cb_accepted b) = [Id 1] \<and> cb_rejected b = []"
proof -
  obtain f where f: "bt_get (tc_flights running) (Id 1) = Some f" "fl_state f = FlightRunning"
    "fl_subscribers f = [Id 1]" using running_flight by blast
  obtain t where t: "bt_get (tc_tasks running) (Id 1) = Some t" "is_eligible t"
    "sp_deadline (ts_spec t) = Some 50" using running_task by blast
  have el: "\<exists>t. bt_get (tc_tasks running) (Id 1) = Some t \<and> is_eligible t
      \<and> \<not> deadline_elapsed (sp_deadline (ts_spec t)) 10"
    by (rule exI[of _ t]) (simp add: t deadline_elapsed_def del: One_nat_def)
  from completion_gate_exact[OF running_reachable f(1,2),
      of "\<lparr>cr_outcome = OutSucceeded None, cr_diagnostics = []\<rparr>" 10]
  show ?thesis
    unfolding f(3) filter.simps if_P[OF el] by (simp add: el del: One_nat_def) metis
qed

text \<open>
  Advancing a session to another generation, or closing it, revokes every receipt captured
  before: the publication check refuses it.
\<close>

theorem advancing_revokes_receipts:
  assumes "fst (observe_session s g c) = Inr ()"
    and "sc_session (os_scope (rc_owner rc)) = s" "rc_captured_generation rc \<noteq> g"
  shows "validate_for_publication rc now (snd (observe_session s g c))
      = Inl (RejectStaleGeneration (rc_captured_generation rc) g)
    \<and> validate_for_publication rc now (close_session s c) = Inl RejectSessionClosed"
proof -
  have "bt_get (tc_sessions (snd (observe_session s g c))) s = Some g"
    using assms(1) by (auto simp: observe_session_def Let_def frame_simps split: option.splits if_splits)
  moreover have "bt_get (tc_sessions (close_session s c)) s = None"
    by (simp add: close_session_def Let_def frame_simps)
  ultimately show ?thesis using assms(2,3) by (simp add: validate_for_publication_def)
qed

lemma advancing_revokes_receipts_witness:
  "validate_for_publication (receipt_for (Id 1) OutCancelled 0 (Id 1)
      (new_snapshot (Id 1) (Id 1) sample_spec FlightRunning)) 0 (snd (observe_session (Id 1) 2 running))
    = Inl (RejectStaleGeneration 1 2)"
proof -
  have "fst (observe_session (Id 1) 2 running) = Inr ()"
    by (simp add: running_def queued_def coordinator_eval)
  from advancing_revokes_receipts[OF this, of "receipt_for (Id 1) OutCancelled 0 (Id 1)
      (new_snapshot (Id 1) (Id 1) sample_spec FlightRunning)" 0]
  show ?thesis by (simp add: sample_spec_def)
qed

text \<open>
  A progress report is all or nothing in reachable states, although the loop updates one
  subscriber after the other: it is refused without any change, or every subscriber of the
  flight has exactly this progress afterwards and no other task changed.
\<close>

theorem progress_is_atomic:
  assumes "coordinator_reachable c"
  shows "(\<exists>e. report_progress j p c = (Inl e, c))
    \<or> (\<exists>f d. bt_get (tc_flights c) j = Some f \<and> report_progress j p c = (Inr (), d)
        \<and> (\<forall>i. bt_get (tc_tasks d) i = map_option (\<lambda>t. if i \<in> set (fl_subscribers f)
             then t\<lparr>ts_progress := Some p\<rparr> else t) (bt_get (tc_tasks c) i)))"
proof -
  note inv = coordinator_reachable_inv[OF assms]
  show ?thesis
  proof (rule report_progress_cases[OF inv, of j p])
    fix f
    assume f: "bt_get (tc_flights c) j = Some f"
      and r: "report_progress j p c = (Inr (), c\<lparr>tc_tasks := fold (\<lambda>i. bt_modify i (set_progress p))
        (fl_subscribers f) (tc_tasks c)\<rparr>)"
    have dist: "distinct (fl_subscribers f)"
      using coordinator_parts(3)[OF inv] f by (simp add: flights_linked_def)
    have "bt_get (fold (\<lambda>i. bt_modify i (set_progress p)) (fl_subscribers f) (tc_tasks c)) i
        = map_option (\<lambda>t. if i \<in> set (fl_subscribers f) then t\<lparr>ts_progress := Some p\<rparr> else t)
            (bt_get (tc_tasks c) i)" for i
      unfolding bt_get_fold_modify[OF dist]
      by (cases "bt_get (tc_tasks c) i") (simp_all add: set_progress_def)
    with f r show ?thesis by auto
  qed blast
qed

lemma progress_is_atomic_witness:
  "(\<exists>e. report_progress (Id 9) \<lparr>pg_phase = ''x'', pg_phase_index = 0, pg_phase_count = 1,
      pg_completed_units = 0, pg_total_units = 1\<rparr> running = (Inl e, running))"
proof -
  have "bt_get (tc_flights running) (Id 9) = None"
    by (simp add: running_def queued_def coordinator_eval)
  with progress_is_atomic[OF running_reachable, of "Id 9"] show ?thesis by simp
qed

text \<open>
  The displayed progress of a valid report is at most one million parts, and a report that
  follows another with the same number of phases never displays less.
\<close>

theorem progress_display_monotone:
  assumes "progress_validate p = Inr ()" "progress_validate q = Inr ()"
    and "progress_follows q p" "pg_phase_count q = pg_phase_count p"
  shows "\<exists>a b. parts_per_million p = Some a \<and> parts_per_million q = Some b \<and> a \<le> b \<and> b \<le> 1000000"
  using parts_per_million_mono[OF assms] parts_per_million_valid[OF assms(2)] by auto

lemma progress_display_monotone_witness:
  "\<exists>a b. parts_per_million \<lparr>pg_phase = ''x'', pg_phase_index = 0, pg_phase_count = 3,
      pg_completed_units = 2, pg_total_units = 5\<rparr> = Some a
    \<and> parts_per_million \<lparr>pg_phase = ''y'', pg_phase_index = 1, pg_phase_count = 3,
      pg_completed_units = 0, pg_total_units = 9\<rparr> = Some b \<and> a \<le> b"
proof -
  have "progress_validate \<lparr>pg_phase = ''x'', pg_phase_index = 0, pg_phase_count = 3,
      pg_completed_units = 2, pg_total_units = 5\<rparr> = Inr ()"
    "progress_validate \<lparr>pg_phase = ''y'', pg_phase_index = 1, pg_phase_count = 3,
      pg_completed_units = 0, pg_total_units = 9\<rparr> = Inr ()"
    by (simp_all add: progress_validate_iff is_blank_def)
  from progress_display_monotone[OF this] show ?thesis by (simp add: progress_follows_def) blast
qed

end
