(* ===== verification/Floats.thy ===== *)
theory Floats
  imports Prelude
begin

text \<open>
  The floating-point operations the arrangement uses: the order of \<open>f32\<close> and \<open>f64\<close>, and the
  arithmetic of \<open>f64\<close> (binary64, rounding to the nearest, ties to even) on bit patterns. A
  finite number is an integer multiple of \<open>2 ^ -1074\<close>, so an operation is computed exactly on
  integers and rounded once. Every operation that is not a number gives the same quiet NaN; the
  payload, which Rust leaves open, is never inspected by the code.
\<close>

lemma sign_bit_only:
  fixes n a b :: nat
  assumes "n < b * 2 * a" "n mod a = 0" "n div a mod b = 0"
  shows "n = 0 \<or> n = b * a"
proof -
  have "n div a < b * 2"
    using assms(1) by (rule less_mult_imp_div_less)
  with assms(3) have "n div a = 0 \<or> n div a = b"
    by (cases "n div a < b") (auto simp: le_mod_geq)
  moreover have "n = n div a * a"
    using assms(2) by (simp add: mod_eq_0_iff_dvd)
  ultimately show ?thesis by auto
qed

section \<open>Order of f32\<close>

definition f32_key :: "f32 \<Rightarrow> int" where
  "f32_key w = (if f32_neg w then 2 ^ 31 - int (unat w) else int (unat w))"

definition f32_le :: "f32 \<Rightarrow> f32 \<Rightarrow> bool" where
  "f32_le a b \<longleftrightarrow> \<not> f32_is_nan a \<and> \<not> f32_is_nan b \<and> f32_key a \<le> f32_key b"

text \<open>The representative of a number under \<open>==\<close>: the negative zero becomes the positive one.\<close>

definition f32_canon :: "f32 \<Rightarrow> f32" where
  "f32_canon w = (if f32_is_zero w then 0 else w)"

lemma f32_is_zero_0 [simp]: "f32_is_zero 0" "\<not> f32_is_nan 0" "f32_is_finite 0"
  by (simp_all add: f32_is_zero_def f32_is_nan_def f32_is_finite_def f32_exp_def f32_frac_def)

lemma f32_eq_canon:
  "f32_eq a b \<longleftrightarrow> \<not> f32_is_nan a \<and> \<not> f32_is_nan b \<and> f32_canon a = f32_canon b"
  by (auto simp: f32_eq_def f32_canon_def)

lemma f32_canon_nan [simp]: "f32_is_nan (f32_canon w) = f32_is_nan w"
  "f32_is_finite (f32_canon w) = f32_is_finite w"
  by (auto simp: f32_canon_def f32_zero_props)

lemma f32_zero_cases:
  assumes "f32_is_zero w"
  shows "unat w = 0 \<or> unat w = 2 ^ 31"
proof -
  have "unat w < 2 ^ 8 * 2 * 2 ^ 23" using unsigned_less[of w, where 'a = nat] by simp
  from sign_bit_only[OF this] show ?thesis
    using assms by (simp add: f32_is_zero_def f32_exp_def f32_frac_def)
qed

lemma f32_key_canon [simp]: "f32_key (f32_canon w) = f32_key w"
proof (cases "f32_is_zero w")
  case True
  then show ?thesis
    using f32_zero_cases[OF True] by (auto simp: f32_canon_def f32_key_def f32_neg_def simp del: of_nat_unat)
qed (simp add: f32_canon_def)

lemma f32_le_canon [simp]:
  "f32_le (f32_canon a) b = f32_le a b" "f32_le a (f32_canon b) = f32_le a b"
  by (simp_all add: f32_le_def)

section \<open>f64 bit patterns\<close>

type_synonym f64 = "64 word"

definition f64_exp :: "f64 \<Rightarrow> nat" where
  "f64_exp w = (unat w div 2 ^ 52) mod 2 ^ 11"

definition f64_frac :: "f64 \<Rightarrow> nat" where
  "f64_frac w = unat w mod 2 ^ 52"

definition f64_neg :: "f64 \<Rightarrow> bool" where
  "f64_neg w \<longleftrightarrow> 2 ^ 63 \<le> unat w"

definition f64_is_nan :: "f64 \<Rightarrow> bool" where
  "f64_is_nan w \<longleftrightarrow> f64_exp w = 2047 \<and> f64_frac w \<noteq> 0"

definition f64_is_infinite :: "f64 \<Rightarrow> bool" where
  "f64_is_infinite w \<longleftrightarrow> f64_exp w = 2047 \<and> f64_frac w = 0"

definition f64_is_finite :: "f64 \<Rightarrow> bool" where
  "f64_is_finite w \<longleftrightarrow> f64_exp w \<noteq> 2047"

definition f64_is_zero :: "f64 \<Rightarrow> bool" where
  "f64_is_zero w \<longleftrightarrow> f64_exp w = 0 \<and> f64_frac w = 0"

definition f64_eq :: "f64 \<Rightarrow> f64 \<Rightarrow> bool" where
  "f64_eq a b \<longleftrightarrow> \<not> f64_is_nan a \<and> \<not> f64_is_nan b
     \<and> (a = b \<or> f64_is_zero a \<and> f64_is_zero b)"

definition f64_key :: "f64 \<Rightarrow> int" where
  "f64_key w = (if f64_neg w then 2 ^ 63 - int (unat w) else int (unat w))"

definition f64_le :: "f64 \<Rightarrow> f64 \<Rightarrow> bool" where
  "f64_le a b \<longleftrightarrow> \<not> f64_is_nan a \<and> \<not> f64_is_nan b \<and> f64_key a \<le> f64_key b"

definition f64_zero :: f64 where "f64_zero = 0"
definition f64_one :: f64 where "f64_one = 0x3ff0000000000000"
definition f64_nan :: f64 where "f64_nan = 0x7ff8000000000000"

definition f64_canon :: "f64 \<Rightarrow> f64" where
  "f64_canon w = (if f64_is_zero w then 0 else w)"

lemma f64_is_zero_0 [simp]: "f64_is_zero 0" "\<not> f64_is_nan 0" "f64_is_finite 0"
  by (simp_all add: f64_is_zero_def f64_is_nan_def f64_is_finite_def f64_exp_def f64_frac_def)

lemma f64_zero_props:
  "f64_is_zero a \<Longrightarrow> f64_is_finite a" "f64_is_zero a \<Longrightarrow> \<not> f64_is_nan a"
  "f64_is_finite a \<Longrightarrow> \<not> f64_is_nan a"
  by (simp_all add: f64_is_zero_def f64_is_finite_def f64_is_nan_def)

lemma f64_eq_canon:
  "f64_eq a b \<longleftrightarrow> \<not> f64_is_nan a \<and> \<not> f64_is_nan b \<and> f64_canon a = f64_canon b"
  by (auto simp: f64_eq_def f64_canon_def f64_zero_props)

lemma f64_canon_nan [simp]: "f64_is_nan (f64_canon w) = f64_is_nan w"
  "f64_is_finite (f64_canon w) = f64_is_finite w"
  by (auto simp: f64_canon_def f64_zero_props)

lemma f64_zero_cases:
  assumes "f64_is_zero w"
  shows "unat w = 0 \<or> unat w = 2 ^ 63"
proof -
  have "unat w < 2 ^ 11 * 2 * 2 ^ 52" using unsigned_less[of w, where 'a = nat] by simp
  from sign_bit_only[OF this] show ?thesis
    using assms by (simp add: f64_is_zero_def f64_exp_def f64_frac_def)
qed

lemma f64_key_canon [simp]: "f64_key (f64_canon w) = f64_key w"
proof (cases "f64_is_zero w")
  case True
  then show ?thesis
    using f64_zero_cases[OF True] by (auto simp: f64_canon_def f64_key_def f64_neg_def simp del: of_nat_unat)
qed (simp add: f64_canon_def)

lemma f64_le_canon [simp]:
  "f64_le (f64_canon a) b = f64_le a b" "f64_le a (f64_canon b) = f64_le a b"
  by (simp_all add: f64_le_def)

section \<open>f64 arithmetic\<close>

text \<open>The magnitude of a finite number, in units of \<open>2 ^ -1074\<close>.\<close>

definition f64_magnitude :: "f64 \<Rightarrow> nat" where
  "f64_magnitude w =
     (if f64_exp w = 0 then f64_frac w else (2 ^ 52 + f64_frac w) * 2 ^ (f64_exp w - 1))"

definition f64_scaled :: "f64 \<Rightarrow> int" where
  "f64_scaled w = (if f64_neg w then - int (f64_magnitude w) else int (f64_magnitude w))"

fun bit_length :: "nat \<Rightarrow> nat" where
  "bit_length n = (if n = 0 then 0 else Suc (bit_length (n div 2)))"

declare bit_length.simps [simp del]

text \<open>The exponent of the last place of the number closest to a positive quotient.\<close>

definition last_place :: "nat \<Rightarrow> nat \<Rightarrow> int" where
  "last_place n d =
     (let l = int (bit_length n) - int (bit_length d);
          reaches = (if 0 \<le> l then d * 2 ^ nat l \<le> n else d \<le> n * 2 ^ nat (- l))
      in if n = 0 then - 1074 else max (- 1074) ((if reaches then l else l - 1) - 52))"

text \<open>The bits of a quotient \<open>n / d\<close> rounded to the nearest number, ties to even.\<close>

definition f64_round :: "bool \<Rightarrow> nat \<Rightarrow> nat \<Rightarrow> f64" where
  "f64_round neg n d =
     (let e = last_place n d;
          n' = n * 2 ^ nat (- e);
          d' = d * 2 ^ nat e;
          q = n' div d';
          r = n' mod d';
          q' = (if d' < 2 * r \<or> d' = 2 * r \<and> odd q then q + 1 else q);
          bits = min (2047 * 2 ^ 52) (nat (e + 1074) * 2 ^ 52 + q')
      in of_nat ((if neg then 2 ^ 63 else 0) + bits))"

definition f64_infinity :: "bool \<Rightarrow> f64" where
  "f64_infinity neg = of_nat ((if neg then 2 ^ 63 else 0) + 2047 * 2 ^ 52)"

definition f64_negate :: "f64 \<Rightarrow> f64" where
  "f64_negate w = of_nat (if f64_neg w then unat w - 2 ^ 63 else unat w + 2 ^ 63)"

definition f64_of_u64 :: "nat \<Rightarrow> f64" where
  "f64_of_u64 n = f64_round False n 1"

definition f64_add :: "f64 \<Rightarrow> f64 \<Rightarrow> f64" where
  "f64_add a b =
     (if f64_is_nan a \<or> f64_is_nan b then f64_nan
      else if f64_is_infinite a \<and> f64_is_infinite b then (if a = b then a else f64_nan)
      else if f64_is_infinite a then a
      else if f64_is_infinite b then b
      else let s = f64_scaled a + f64_scaled b
           in if s = 0 then (if f64_neg a \<and> f64_neg b then f64_negate 0 else 0)
              else f64_round (s < 0) (nat \<bar>s\<bar>) (2 ^ 1074))"

definition f64_sub :: "f64 \<Rightarrow> f64 \<Rightarrow> f64" where
  "f64_sub a b = f64_add a (f64_negate b)"

definition f64_mul :: "f64 \<Rightarrow> f64 \<Rightarrow> f64" where
  "f64_mul a b =
     (let neg = (f64_neg a \<noteq> f64_neg b)
      in if f64_is_nan a \<or> f64_is_nan b
           \<or> f64_is_infinite a \<and> f64_is_zero b \<or> f64_is_zero a \<and> f64_is_infinite b then f64_nan
         else if f64_is_infinite a \<or> f64_is_infinite b then f64_infinity neg
         else f64_round neg (f64_magnitude a * f64_magnitude b) (2 ^ 2148))"

definition f64_div :: "f64 \<Rightarrow> f64 \<Rightarrow> f64" where
  "f64_div a b =
     (let neg = (f64_neg a \<noteq> f64_neg b)
      in if f64_is_nan a \<or> f64_is_nan b
           \<or> f64_is_infinite a \<and> f64_is_infinite b \<or> f64_is_zero a \<and> f64_is_zero b then f64_nan
         else if f64_is_infinite a \<or> f64_is_zero b then f64_infinity neg
         else if f64_is_infinite b then f64_round neg 0 1
         else f64_round neg (f64_magnitude a) (f64_magnitude b))"

section \<open>f32 arithmetic\<close>

text \<open>The same on binary32: the unit is \<open>2 ^ -149\<close>, a significand has 24 bits.\<close>

definition f32_is_infinite :: "f32 \<Rightarrow> bool" where
  "f32_is_infinite w \<longleftrightarrow> f32_exp w = 255 \<and> f32_frac w = 0"

definition f32_nan :: f32 where "f32_nan = 0x7fc00000"

definition f32_magnitude :: "f32 \<Rightarrow> nat" where
  "f32_magnitude w =
     (if f32_exp w = 0 then f32_frac w else (2 ^ 23 + f32_frac w) * 2 ^ (f32_exp w - 1))"

definition f32_scaled :: "f32 \<Rightarrow> int" where
  "f32_scaled w = (if f32_neg w then - int (f32_magnitude w) else int (f32_magnitude w))"

definition f32_last_place :: "nat \<Rightarrow> nat \<Rightarrow> int" where
  "f32_last_place n d =
     (let l = int (bit_length n) - int (bit_length d);
          reaches = (if 0 \<le> l then d * 2 ^ nat l \<le> n else d \<le> n * 2 ^ nat (- l))
      in if n = 0 then - 149 else max (- 149) ((if reaches then l else l - 1) - 23))"

definition f32_round :: "bool \<Rightarrow> nat \<Rightarrow> nat \<Rightarrow> f32" where
  "f32_round neg n d =
     (let e = f32_last_place n d;
          n' = n * 2 ^ nat (- e);
          d' = d * 2 ^ nat e;
          q = n' div d';
          r = n' mod d';
          q' = (if d' < 2 * r \<or> d' = 2 * r \<and> odd q then q + 1 else q);
          bits = min (255 * 2 ^ 23) (nat (e + 149) * 2 ^ 23 + q')
      in of_nat ((if neg then 2 ^ 31 else 0) + bits))"

definition f32_infinity :: "bool \<Rightarrow> f32" where
  "f32_infinity neg = of_nat ((if neg then 2 ^ 31 else 0) + 255 * 2 ^ 23)"

definition f32_negate :: "f32 \<Rightarrow> f32" where
  "f32_negate w = of_nat (if f32_neg w then unat w - 2 ^ 31 else unat w + 2 ^ 31)"

definition f32_add :: "f32 \<Rightarrow> f32 \<Rightarrow> f32" where
  "f32_add a b =
     (if f32_is_nan a \<or> f32_is_nan b then f32_nan
      else if f32_is_infinite a \<and> f32_is_infinite b then (if a = b then a else f32_nan)
      else if f32_is_infinite a then a
      else if f32_is_infinite b then b
      else let s = f32_scaled a + f32_scaled b
           in if s = 0 then (if f32_neg a \<and> f32_neg b then f32_negate 0 else 0)
              else f32_round (s < 0) (nat \<bar>s\<bar>) (2 ^ 149))"

definition f32_sub :: "f32 \<Rightarrow> f32 \<Rightarrow> f32" where
  "f32_sub a b = f32_add a (f32_negate b)"

definition f32_mul :: "f32 \<Rightarrow> f32 \<Rightarrow> f32" where
  "f32_mul a b =
     (let neg = (f32_neg a \<noteq> f32_neg b)
      in if f32_is_nan a \<or> f32_is_nan b
           \<or> f32_is_infinite a \<and> f32_is_zero b \<or> f32_is_zero a \<and> f32_is_infinite b then f32_nan
         else if f32_is_infinite a \<or> f32_is_infinite b then f32_infinity neg
         else f32_round neg (f32_magnitude a * f32_magnitude b) (2 ^ 298))"

definition f32_div :: "f32 \<Rightarrow> f32 \<Rightarrow> f32" where
  "f32_div a b =
     (let neg = (f32_neg a \<noteq> f32_neg b)
      in if f32_is_nan a \<or> f32_is_nan b
           \<or> f32_is_infinite a \<and> f32_is_infinite b \<or> f32_is_zero a \<and> f32_is_zero b then f32_nan
         else if f32_is_infinite a \<or> f32_is_zero b then f32_infinity neg
         else if f32_is_infinite b then f32_round neg 0 1
         else f32_round neg (f32_magnitude a) (f32_magnitude b))"

end
