(* ===== verification/Arrangement_Types.thy ===== *)
theory Arrangement_Types
  imports Ordered_Map Floats Bytes
begin

text \<open>
  The data of \<open>src/arrangement.rs\<close>: frames and ranges, the exact stretch ratio, tracks, markers,
  clips with their content and fades, with the derived \<open>PartialEq\<close> field by field. Field names
  carry a prefix per record. An error of the module is \<open>Failed e\<close>, a panic is \<open>Panicked\<close>.
\<close>

datatype ar_track_tag = ArTrackTag
datatype ar_clip_tag = ArClipTag
datatype asset_tag = AssetTag
datatype pattern_tag = PatternTag
datatype parameter_tag = ParameterTag

type_synonym ar_track_id = "ar_track_tag typed_id"
type_synonym ar_clip_id = "ar_clip_tag typed_id"
type_synonym asset_id = "asset_tag typed_id"
type_synonym pattern_id = "pattern_tag typed_id"
type_synonym parameter_id = "parameter_tag typed_id"
type_synonym frame = int

datatype arrangement_error =
    AeInvalidSampleRate
  | AeEmptyRange
  | AeEmptySourceRange
  | AeTimeOverflow
  | AeIdOverflow
  | AeRevisionOverflow
  | AeInvalidIdCounter
  | AeUnsupportedSchema nat
  | AeMissingTrack ar_track_id
  | AeMissingClip ar_clip_id
  | AeInvalidTrack ar_track_id
  | AeInvalidTrackIndex nat
  | AeInvalidClip ar_clip_id
  | AeLockedClip ar_clip_id
  | AeIncompatibleTrack ar_track_id ar_clip_id
  | AeInvalidOrder string
  | AeOverlap ar_track_id ar_clip_id ar_clip_id
  | AeInvalidStretch
  | AeNonIntegralSourceBoundary
  | AeSourceDurationMismatch
  | AeSourceOutOfBounds
  | AeInvalidWarpMarkers
  | AeInvalidAudioLoop
  | AeInvalidChannelMapping
  | AeWarpedEditRequiresCompiler
  | AeInvalidFade
  | AeInvalidTrim
  | AeInvalidSplit
  | AeInvalidMarker frame
  | AeInvalidColor nat
  | AeEmptyOperation
  | AeEmptyTransaction
  | AeStaleOperation string

type_synonym 'a edit_result = "arrangement_error fault + 'a"

abbreviation fails :: "arrangement_error \<Rightarrow> arrangement_error fault + 'a" where
  "fails e \<equiv> Inl (Failed e)"

abbreviation panics :: "arrangement_error fault + 'a" where
  "panics \<equiv> Inl Panicked"

section \<open>Frames and ranges\<close>

definition frame_checked_add :: "frame \<Rightarrow> int \<Rightarrow> frame edit_result" where
  "frame_checked_add f delta = (if is_i64 (f + delta) then Inr (f + delta) else fails AeTimeOverflow)"

record frame_range =
  fr_start :: frame
  fr_end :: frame

definition frame_range_new :: "frame \<Rightarrow> frame \<Rightarrow> frame_range edit_result" where
  "frame_range_new s e =
     (if e \<le> s then fails AeEmptyRange else Inr \<lparr>fr_start = s, fr_end = e\<rparr>)"

definition frame_range_from_len :: "frame \<Rightarrow> nat \<Rightarrow> frame_range edit_result" where
  "frame_range_from_len s len =
     (if len = 0 \<or> i64_max < int len then fails AeEmptyRange
      else bind_r (frame_checked_add s (int len)) (frame_range_new s))"

text \<open>\<open>saturating_sub(..) as u64\<close>: the length of an inverted range wraps.\<close>

definition frame_range_len :: "frame_range \<Rightarrow> nat" where
  "frame_range_len r = nat (sat_i64 (fr_end r - fr_start r) mod 2 ^ 64)"

definition frame_range_contains :: "frame_range \<Rightarrow> frame \<Rightarrow> bool" where
  "frame_range_contains r f \<longleftrightarrow> fr_start r \<le> f \<and> f < fr_end r"

definition frame_range_intersects :: "frame_range \<Rightarrow> frame_range \<Rightarrow> bool" where
  "frame_range_intersects r s \<longleftrightarrow> fr_start r < fr_end s \<and> fr_start s < fr_end r"

definition frame_range_intersection :: "frame_range \<Rightarrow> frame_range \<Rightarrow> frame_range option" where
  "frame_range_intersection r s =
     (case frame_range_new (max (fr_start r) (fr_start s)) (min (fr_end r) (fr_end s)) of
        Inl _ \<Rightarrow> None | Inr t \<Rightarrow> Some t)"

definition frame_range_translated :: "frame_range \<Rightarrow> int \<Rightarrow> frame_range edit_result" where
  "frame_range_translated r delta =
     bind_r (frame_checked_add (fr_start r) delta) (\<lambda>s.
     bind_r (frame_checked_add (fr_end r) delta) (\<lambda>e. frame_range_new s e))"

record source_range =
  so_start :: nat
  so_end :: nat

definition source_range_new :: "nat \<Rightarrow> nat \<Rightarrow> source_range edit_result" where
  "source_range_new s e =
     (if e \<le> s then fails AeEmptySourceRange else Inr \<lparr>so_start = s, so_end = e\<rparr>)"

text \<open>The fields are public, so an inverted range can exist; then the subtraction overflows.\<close>

definition source_range_len :: "source_range \<Rightarrow> nat edit_result" where
  "source_range_len r = (if so_end r < so_start r then panics else Inr (so_end r - so_start r))"

section \<open>Tracks and markers\<close>

datatype ar_track_kind = AudioTrack | PatternTrack | AutomationTrack | HybridTrack | GroupTrack

datatype overlap_policy = MixOverlaps | RejectOverlaps | CrossfadeOverlaps

datatype rgb = Rgb (rgb_get: nat)

definition rgb_new :: "nat \<Rightarrow> rgb edit_result" where
  "rgb_new v = (if 0xffffff < v then fails (AeInvalidColor v) else Inr (Rgb v))"

definition rgb_is_valid :: "rgb \<Rightarrow> bool" where
  "rgb_is_valid c \<longleftrightarrow> rgb_get c \<le> 0xffffff"

record ar_track =
  at_id :: ar_track_id
  at_name :: string
  at_kind :: ar_track_kind
  at_overlap :: overlap_policy
  at_clip_ids :: "ar_clip_id list"
  at_muted :: bool
  at_solo :: bool
  at_locked :: bool
  at_gain_db :: f32
  at_pan :: f32
  at_color :: "rgb option"

definition ar_track_new :: "ar_track_id \<Rightarrow> string \<Rightarrow> ar_track_kind \<Rightarrow> ar_track" where
  "ar_track_new i name kind = \<lparr>at_id = i, at_name = name, at_kind = kind, at_overlap = MixOverlaps,
     at_clip_ids = [], at_muted = False, at_solo = False, at_locked = False, at_gain_db = 0,
     at_pan = 0, at_color = None\<rparr>"

definition ar_track_eq :: "ar_track \<Rightarrow> ar_track \<Rightarrow> bool" where
  "ar_track_eq a b \<longleftrightarrow> a\<lparr>at_gain_db := at_gain_db b, at_pan := at_pan b\<rparr> = b
     \<and> f32_eq (at_gain_db a) (at_gain_db b) \<and> f32_eq (at_pan a) (at_pan b)"

text \<open>A marker name is the list of its Unicode scalar values.\<close>

record marker =
  mk_name :: unicode_string

definition marker_new :: "unicode_string \<Rightarrow> marker" where
  "marker_new name = \<lparr>mk_name = name\<rparr>"

definition marker_is_valid :: "marker \<Rightarrow> bool" where
  "marker_is_valid m \<longleftrightarrow>
     (let trimmed = trim_white_space (mk_name m)
      in trimmed \<noteq> [] \<and> length trimmed \<le> 64 \<and> \<not> list_ex is_control (mk_name m))"

section \<open>The exact stretch ratio\<close>

fun gcd_loop :: "nat \<Rightarrow> nat \<Rightarrow> nat" where
  "gcd_loop l r = (if r = 0 then l else gcd_loop r (l mod r))"

declare gcd_loop.simps [simp del]

record stretch_ratio =
  ra_source :: nat
  ra_project :: nat

definition stretch_ratio_new :: "nat \<Rightarrow> nat \<Rightarrow> stretch_ratio edit_result" where
  "stretch_ratio_new s p =
     (if s = 0 \<or> p = 0 then fails AeInvalidStretch
      else let d = gcd_loop s p in Inr \<lparr>ra_source = s div d, ra_project = p div d\<rparr>)"

definition stretch_ratio_unity :: stretch_ratio where
  "stretch_ratio_unity = \<lparr>ra_source = 1, ra_project = 1\<rparr>"

text \<open>The product of two \<open>u64\<close> fits in the \<open>u128\<close>; a zero denominator panics.\<close>

definition ratio_source_offset :: "stretch_ratio \<Rightarrow> nat \<Rightarrow> nat edit_result" where
  "ratio_source_offset ratio offset =
     (let numerator = offset * ra_source ratio; denominator = ra_project ratio
      in if denominator = 0 then panics
         else if numerator mod denominator \<noteq> 0 then fails AeNonIntegralSourceBoundary
         else if u64_max < numerator div denominator then fails AeTimeOverflow
         else Inr (numerator div denominator))"

section \<open>Clips\<close>

datatype stretch_algorithm =
  Resample | PreservePitch | PhaseVocoder | Granular | ExternalStretch nat

record warp_marker =
  wm_project_offset :: nat
  wm_source_frame :: nat

record playback_transform =
  pb_ratio :: stretch_ratio
  pb_preserve_pitch :: bool
  pb_pitch_semitones :: f64
  pb_reverse :: bool
  pb_algorithm :: stretch_algorithm
  pb_warp_markers :: "warp_marker list"

definition playback_transform_default :: playback_transform where
  "playback_transform_default = \<lparr>pb_ratio = stretch_ratio_unity, pb_preserve_pitch = True,
     pb_pitch_semitones = f64_zero, pb_reverse = False, pb_algorithm = PreservePitch,
     pb_warp_markers = []\<rparr>"

definition playback_eq :: "playback_transform \<Rightarrow> playback_transform \<Rightarrow> bool" where
  "playback_eq a b \<longleftrightarrow> a\<lparr>pb_pitch_semitones := pb_pitch_semitones b\<rparr> = b
     \<and> f64_eq (pb_pitch_semitones a) (pb_pitch_semitones b)"

datatype fade_curve = LinearFade | EqualPowerFade | SmoothStepFade

record fade =
  fa_duration :: nat
  fa_curve :: fade_curve
  fa_phase_start :: f64
  fa_phase_end :: f64

definition fade_full :: "nat \<Rightarrow> fade_curve \<Rightarrow> fade" where
  "fade_full duration curve = \<lparr>fa_duration = duration, fa_curve = curve,
     fa_phase_start = f64_zero, fa_phase_end = f64_one\<rparr>"

definition fade_eq :: "fade \<Rightarrow> fade \<Rightarrow> bool" where
  "fade_eq a b \<longleftrightarrow> fa_duration a = fa_duration b \<and> fa_curve a = fa_curve b
     \<and> f64_eq (fa_phase_start a) (fa_phase_start b) \<and> f64_eq (fa_phase_end a) (fa_phase_end b)"

record clip_fades =
  cf_in :: "fade option"
  cf_out :: "fade option"

definition clip_fades_default :: clip_fades where
  "clip_fades_default = \<lparr>cf_in = None, cf_out = None\<rparr>"

definition clip_fades_eq :: "clip_fades \<Rightarrow> clip_fades \<Rightarrow> bool" where
  "clip_fades_eq a b \<longleftrightarrow> rel_option fade_eq (cf_in a) (cf_in b) \<and> rel_option fade_eq (cf_out a) (cf_out b)"

datatype channel_mapping = AllChannels | Channels "nat list" | MonoSum | MidChannel | SideChannel

datatype audio_loop_mode = LoopOff | LoopForward source_range | LoopPingPong source_range

record audio_region =
  au_asset :: asset_id
  au_source :: source_range
  au_playback :: playback_transform
  au_channels :: channel_mapping
  au_loop_mode :: audio_loop_mode

record pattern_region =
  pr_pattern :: pattern_id
  pr_content_offset :: nat
  pr_looped :: bool

record automation_region =
  mr_parameter :: parameter_id
  mr_content_offset :: nat
  mr_looped :: bool

datatype clip_content =
  AudioContent audio_region | PatternContent pattern_region | AutomationContent automation_region

fun clip_content_kind :: "clip_content \<Rightarrow> ar_track_kind" where
  "clip_content_kind (AudioContent _) = AudioTrack"
| "clip_content_kind (PatternContent _) = PatternTrack"
| "clip_content_kind (AutomationContent _) = AutomationTrack"

definition audio_region_eq :: "audio_region \<Rightarrow> audio_region \<Rightarrow> bool" where
  "audio_region_eq a b \<longleftrightarrow> a\<lparr>au_playback := au_playback b\<rparr> = b
     \<and> playback_eq (au_playback a) (au_playback b)"

fun clip_content_eq :: "clip_content \<Rightarrow> clip_content \<Rightarrow> bool" where
  "clip_content_eq (AudioContent a) (AudioContent b) = audio_region_eq a b"
| "clip_content_eq a b = (a = b)"

record ar_clip =
  ac_id :: ar_clip_id
  ac_track_id :: ar_track_id
  ac_name :: string
  ac_placement :: frame_range
  ac_content :: clip_content
  ac_fades :: clip_fades
  ac_gain_db :: f32
  ac_muted :: bool
  ac_locked :: bool

definition ar_clip_eq :: "ar_clip \<Rightarrow> ar_clip \<Rightarrow> bool" where
  "ar_clip_eq a b \<longleftrightarrow>
     a\<lparr>ac_content := ac_content b, ac_fades := ac_fades b, ac_gain_db := ac_gain_db b\<rparr> = b
     \<and> clip_content_eq (ac_content a) (ac_content b) \<and> clip_fades_eq (ac_fades a) (ac_fades b)
     \<and> f32_eq (ac_gain_db a) (ac_gain_db b)"

text \<open>\<open>lerp\<close> of two phases, rounded after every operation.\<close>

definition lerp :: "f64 \<Rightarrow> f64 \<Rightarrow> f64 \<Rightarrow> f64" where
  "lerp l r amount = f64_add l (f64_mul (f64_sub r l) amount)"

end
