(* ===== verification/Arrangement_State.thy ===== *)
theory Arrangement_State
  imports Arrangement_Types "HOL-Library.Product_Lexorder"
begin

text \<open>
  \<open>ArrangementState\<close> of \<open>src/arrangement.rs\<close>: the queries, \<open>validate\<close>, the put-style
  operations with their preconditions and inverses, \<open>normalize_indexes\<close> and the atomic
  \<open>apply_operations\<close>.
\<close>

record arr_state =
  as_schema_version :: nat
  as_sample_rate :: nat
  as_tracks :: "(ar_track_id, ar_track) btree"
  as_clips :: "(ar_clip_id, ar_clip) btree"
  as_track_order :: "ar_track_id list"
  as_next_track_id :: nat
  as_next_clip_id :: nat
  as_markers :: "(frame, marker) btree"

definition arr_state_new :: "nat \<Rightarrow> arr_state edit_result" where
  "arr_state_new rate =
     (if rate = 0 then fails AeInvalidSampleRate
      else Inr \<lparr>as_schema_version = 1, as_sample_rate = rate, as_tracks = [], as_clips = [],
        as_track_order = [], as_next_track_id = 1, as_next_clip_id = 1, as_markers = []\<rparr>)"

section \<open>Queries\<close>

definition clips_on_track :: "arr_state \<Rightarrow> ar_track_id \<Rightarrow> ar_clip list" where
  "clips_on_track s i =
     (case bt_get (as_tracks s) i of
        None \<Rightarrow> []
      | Some t \<Rightarrow> List.map_filter (bt_get (as_clips s)) (at_clip_ids t))"

definition clips_intersecting :: "arr_state \<Rightarrow> frame_range \<Rightarrow> ar_clip list" where
  "clips_intersecting s r =
     filter (\<lambda>c. frame_range_intersects (ac_placement c) r) (bt_values (as_clips s))"

definition project_range :: "arr_state \<Rightarrow> frame_range option" where
  "project_range s =
     (case bt_values (as_clips s) of
        [] \<Rightarrow> None
      | c # cs \<Rightarrow>
          (case frame_range_new (fold min (map (\<lambda>c. fr_start (ac_placement c)) cs) (fr_start (ac_placement c)))
                  (fold max (map (\<lambda>c. fr_end (ac_placement c)) cs) (fr_end (ac_placement c))) of
             Inl _ \<Rightarrow> None | Inr r \<Rightarrow> Some r))"

section \<open>Validation\<close>

text \<open>The two sides of \<open>validate_order\<close> are collected into ordered sets.\<close>

definition validate_order :: "'a list \<Rightarrow> 'a list \<Rightarrow> string \<Rightarrow> unit edit_result" where
  "validate_order order expected label =
     fail_if (set order \<noteq> set expected \<or> length (remdups order) \<noteq> length order)
       (Failed (AeInvalidOrder label))"

definition valid_db :: "f32 \<Rightarrow> bool" where
  "valid_db v \<longleftrightarrow> f32_is_finite v \<and> f32_le 0xc3100000 v \<and> f32_le v 0x42400000"

definition valid_pan :: "f32 \<Rightarrow> bool" where
  "valid_pan v \<longleftrightarrow> f32_le 0xbf800000 v \<and> f32_le v 0x3f800000"

definition fade_is_invalid :: "nat \<Rightarrow> fade \<Rightarrow> bool" where
  "fade_is_invalid clip_len f \<longleftrightarrow>
     fa_duration f = 0 \<or> clip_len < fa_duration f
     \<or> \<not> f64_is_finite (fa_phase_start f) \<or> \<not> f64_is_finite (fa_phase_end f)
     \<or> \<not> (f64_le f64_zero (fa_phase_start f) \<and> f64_le (fa_phase_start f) f64_one)
     \<or> \<not> (f64_le f64_zero (fa_phase_end f) \<and> f64_le (fa_phase_end f) f64_one)
     \<or> f64_le (fa_phase_end f) (fa_phase_start f)"

definition validate_fades :: "clip_fades \<Rightarrow> nat \<Rightarrow> unit edit_result" where
  "validate_fades fades clip_len =
     for_each (\<lambda>f. fail_if (fade_is_invalid clip_len f) (Failed AeInvalidFade))
       (case_option [] (\<lambda>f. [f]) (cf_in fades) @ case_option [] (\<lambda>f. [f]) (cf_out fades))"

fun check_warp_markers :: "source_range \<Rightarrow> nat \<Rightarrow> nat option \<Rightarrow> warp_marker list \<Rightarrow> unit edit_result" where
  "check_warp_markers source len previous [] = Inr ()"
| "check_warp_markers source len previous (m # ms) =
     (if len < wm_project_offset m
         \<or> wm_source_frame m < so_start source
         \<or> so_end source < wm_source_frame m
         \<or> (case previous of None \<Rightarrow> False | Some prior \<Rightarrow> wm_project_offset m \<le> prior)
      then fails AeInvalidWarpMarkers
      else check_warp_markers source len (Some (wm_project_offset m)) ms)"

fun loop_mode_range :: "audio_loop_mode \<Rightarrow> source_range option" where
  "loop_mode_range LoopOff = None"
| "loop_mode_range (LoopForward r) = Some r"
| "loop_mode_range (LoopPingPong r) = Some r"

definition validate_audio :: "audio_region \<Rightarrow> nat \<Rightarrow> unit edit_result" where
  "validate_audio a len =
     (let playback = au_playback a; source = au_source a in
      then_r (fail_if (\<not> f64_is_finite (pb_pitch_semitones playback)
                 \<or> ra_source (pb_ratio playback) = 0 \<or> ra_project (pb_ratio playback) = 0)
               (Failed AeInvalidStretch))
     (bind_r (ratio_source_offset (pb_ratio playback) len) (\<lambda>mapped.
      bind_r (source_range_len source) (\<lambda>source_len.
      then_r (fail_if (mapped \<noteq> source_len) (Failed AeSourceDurationMismatch))
     (then_r (check_warp_markers source len None (pb_warp_markers playback))
     (then_r (case loop_mode_range (au_loop_mode a) of
                None \<Rightarrow> Inr ()
              | Some r \<Rightarrow> fail_if (so_start r < so_start source \<or> so_end source < so_end r)
                            (Failed AeInvalidAudioLoop))
        (case au_channels a of
           Channels cs \<Rightarrow> fail_if (cs = [] \<or> length (remdups cs) \<noteq> length cs)
                             (Failed AeInvalidChannelMapping)
         | _ \<Rightarrow> Inr ())))))))"

text \<open>The walk along the clip index of a track, with the previous clip.\<close>

fun check_clip_index ::
  "arr_state \<Rightarrow> ar_track_id \<Rightarrow> overlap_policy \<Rightarrow> ar_clip option \<Rightarrow> ar_clip_id list \<Rightarrow> unit edit_result" where
  "check_clip_index s i overlap previous [] = Inr ()"
| "check_clip_index s i overlap previous (j # js) =
     (case bt_get (as_clips s) j of
        None \<Rightarrow> fails (AeMissingClip j)
      | Some clip \<Rightarrow>
          then_r (case previous of
               None \<Rightarrow> Inr ()
             | Some prior \<Rightarrow>
                 if (fr_start (ac_placement clip), ac_id clip) < (fr_start (ac_placement prior), ac_id prior)
                 then fails (AeInvalidOrder ''track clip index'')
                 else if overlap = RejectOverlaps
                     \<and> frame_range_intersects (ac_placement prior) (ac_placement clip)
                 then fails (AeOverlap i (ac_id prior) (ac_id clip))
                 else Inr ())
            (check_clip_index s i overlap (Some clip) js))"

definition validate_ar_track :: "arr_state \<Rightarrow> ar_track_id \<times> ar_track \<Rightarrow> unit edit_result" where
  "validate_ar_track s = (\<lambda>(i, t).
     then_r (fail_if (i \<noteq> at_id t \<or> \<not> valid_db (at_gain_db t) \<or> \<not> valid_pan (at_pan t)
               \<or> \<not> (case at_color t of None \<Rightarrow> True | Some c \<Rightarrow> rgb_is_valid c))
             (Failed (AeInvalidTrack i)))
    (then_r (validate_order (at_clip_ids t)
               (map ac_id (filter (\<lambda>c. ac_track_id c = i) (bt_values (as_clips s)))) ''track clip index'')
            (check_clip_index s i (at_overlap t) None (at_clip_ids t))))"

definition validate_ar_clip :: "arr_state \<Rightarrow> ar_clip_id \<times> ar_clip \<Rightarrow> unit edit_result" where
  "validate_ar_clip s = (\<lambda>(i, c).
     if i \<noteq> ac_id c then fails (AeInvalidClip i)
     else case bt_get (as_tracks s) (ac_track_id c) of
       None \<Rightarrow> fails (AeInvalidClip i)
     | Some track \<Rightarrow>
         then_r (fail_if (\<not> valid_db (ac_gain_db c)) (Failed (AeInvalidClip i)))
        (then_r (fail_if (at_kind track \<noteq> HybridTrack \<and> at_kind track \<noteq> clip_content_kind (ac_content c))
                  (Failed (AeIncompatibleTrack (ac_track_id c) i)))
        (then_r (validate_fades (ac_fades c) (frame_range_len (ac_placement c)))
           (case ac_content c of
              AudioContent a \<Rightarrow> validate_audio a (frame_range_len (ac_placement c))
            | _ \<Rightarrow> Inr ()))))"

definition id_counters_invalid :: "arr_state \<Rightarrow> bool" where
  "id_counters_invalid s \<longleftrightarrow>
     as_next_track_id s = 0 \<or> as_next_clip_id s = 0
     \<or> list_ex (\<lambda>i. raw i = 0 \<or> as_next_track_id s \<le> raw i) (bt_keys (as_tracks s))
     \<or> list_ex (\<lambda>i. raw i = 0 \<or> as_next_clip_id s \<le> raw i) (bt_keys (as_clips s))"

definition arr_validate :: "arr_state \<Rightarrow> unit edit_result" where
  "arr_validate s =
     then_r (fail_if (as_schema_version s \<noteq> 1) (Failed (AeUnsupportedSchema (as_schema_version s))))
    (then_r (fail_if (as_sample_rate s = 0) (Failed AeInvalidSampleRate))
    (then_r (validate_order (as_track_order s) (bt_keys (as_tracks s)) ''track order'')
    (then_r (fail_if (id_counters_invalid s) (Failed AeInvalidIdCounter))
    (then_r (for_each (\<lambda>(f, m). fail_if (\<not> marker_is_valid m) (Failed (AeInvalidMarker f))) (as_markers s))
    (then_r (for_each (validate_ar_track s) (as_tracks s))
            (for_each (validate_ar_clip s) (as_clips s)))))))"

section \<open>Normalization of the derived indexes\<close>

text \<open>\<open>retain\<close> of the known tracks, each at its first occurrence.\<close>

fun retain_first :: "'a list \<Rightarrow> 'a list \<Rightarrow> 'a list \<Rightarrow> 'a list" where
  "retain_first known seen [] = []"
| "retain_first known seen (i # order) =
     (if i \<in> set known \<and> i \<notin> set seen then i # retain_first known (i # seen) order
      else retain_first known seen order)"

definition normalize_order :: "'a list \<Rightarrow> 'a list \<Rightarrow> 'a list" where
  "normalize_order known order =
     (let kept = retain_first known [] order in kept @ filter (\<lambda>i. i \<notin> set kept) known)"

definition clips_of_track :: "(ar_clip_id, ar_clip) btree \<Rightarrow> ar_track_id \<Rightarrow> ar_clip_id list" where
  "clips_of_track clips i = map ac_id (filter (\<lambda>c. ac_track_id c = i) (bt_values clips))"

text \<open>
  The sort key looks the clip up by the identifier it carries. Two or more elements are compared,
  so every key is read, and a missing one panics; the stable sort leaves shorter lists alone.
\<close>

definition clip_sort_key :: "(ar_clip_id, ar_clip) btree \<Rightarrow> ar_clip_id \<Rightarrow> frame \<times> ar_clip_id" where
  "clip_sort_key clips j =
     (case bt_get clips j of Some c \<Rightarrow> (fr_start (ac_placement c), ac_id c) | None \<Rightarrow> (0, j))"

definition clip_index :: "(ar_clip_id, ar_clip) btree \<Rightarrow> ar_track_id \<Rightarrow> ar_clip_id list edit_result" where
  "clip_index clips i =
     (let ids = clips_of_track clips i
      in if 2 \<le> length ids \<and> list_ex (\<lambda>j. \<not> bt_contains clips j) ids then panics
         else Inr (sort_key (clip_sort_key clips) ids))"

fun index_tracks ::
  "(ar_clip_id, ar_clip) btree \<Rightarrow> (ar_track_id, ar_track) btree \<Rightarrow> (ar_track_id, ar_track) btree edit_result" where
  "index_tracks clips [] = Inr []"
| "index_tracks clips ((i, t) # ts) =
     bind_r (clip_index clips (at_id t)) (\<lambda>ids.
     bind_r (index_tracks clips ts) (\<lambda>ts'. Inr ((i, t\<lparr>at_clip_ids := ids\<rparr>) # ts')))"

definition normalize_indexes :: "arr_state \<Rightarrow> arr_state edit_result" where
  "normalize_indexes s =
     bind_r (index_tracks (as_clips s) (as_tracks s)) (\<lambda>ts.
       Inr (s\<lparr>as_track_order := normalize_order (bt_keys (as_tracks s)) (as_track_order s),
              as_tracks := ts\<rparr>))"

section \<open>Operations\<close>

datatype arr_operation =
    PutTrack "ar_track option" "ar_track option"
  | PutClip "ar_clip option" "ar_clip option"
  | SetTrackOrder "ar_track_id list" "ar_track_id list"
  | PutMarker frame "marker option" "marker option"

fun operation_inverse :: "arr_operation \<Rightarrow> arr_operation" where
  "operation_inverse (PutTrack b a) = PutTrack a b"
| "operation_inverse (PutClip b a) = PutClip a b"
| "operation_inverse (SetTrackOrder b a) = SetTrackOrder a b"
| "operation_inverse (PutMarker f b a) = PutMarker f a b"

fun operation_is_noop :: "arr_operation \<Rightarrow> bool" where
  "operation_is_noop (PutTrack b a) = rel_option ar_track_eq b a"
| "operation_is_noop (PutClip b a) = rel_option ar_clip_eq b a"
| "operation_is_noop (SetTrackOrder b a) = (b = a)"
| "operation_is_noop (PutMarker f b a) = (b = a)"

text \<open>\<open>before.or(after)\<close>, the entity whose identifier is looked up.\<close>

fun probe_of :: "'v option \<Rightarrow> 'v option \<Rightarrow> 'v option" where
  "probe_of (Some b) a = Some b"
| "probe_of None a = a"

definition check_existing ::
  "('v \<Rightarrow> 'v \<Rightarrow> bool) \<Rightarrow> string \<Rightarrow> 'v option \<Rightarrow> 'v option \<Rightarrow> ('v \<Rightarrow> 'v option) \<Rightarrow> unit edit_result" where
  "check_existing eq label before after lookup =
     (case probe_of before after of
        None \<Rightarrow> fails AeEmptyOperation
      | Some probe \<Rightarrow> fail_if (\<not> rel_option eq (lookup probe) before) (Failed (AeStaleOperation label)))"

text \<open>The body that the arms \<open>PutTrack\<close> and \<open>PutClip\<close> share: the map and its identifier counter.\<close>

definition put_entity ::
  "('v \<Rightarrow> 'v \<Rightarrow> bool) \<Rightarrow> ('v \<Rightarrow> 'tag typed_id) \<Rightarrow> string \<Rightarrow> 'v option \<Rightarrow> 'v option
     \<Rightarrow> ('tag typed_id, 'v) btree \<Rightarrow> nat \<Rightarrow> (('tag typed_id, 'v) btree \<times> nat) edit_result" where
  "put_entity eq key label before after m counter =
     then_r (check_existing eq label before after (\<lambda>v. bt_get m (key v)))
       (case probe_of before after of
          None \<Rightarrow> panics
        | Some probe \<Rightarrow>
            (case after of
               Some v \<Rightarrow>
                 if u64_max < raw (key v) + 1 then fails AeIdOverflow
                 else Inr (bt_insert (key probe) v m, max counter (raw (key v) + 1))
             | None \<Rightarrow> Inr (bt_remove (key probe) m, counter)))"

fun operation_apply :: "arr_operation \<Rightarrow> arr_state \<Rightarrow> arr_state edit_result" where
  "operation_apply (PutTrack b a) s =
     bind_r (put_entity ar_track_eq at_id ''track'' b a (as_tracks s) (as_next_track_id s))
       (\<lambda>(m, n). Inr (s\<lparr>as_tracks := m, as_next_track_id := n\<rparr>))"
| "operation_apply (PutClip b a) s =
     bind_r (put_entity ar_clip_eq ac_id ''clip'' b a (as_clips s) (as_next_clip_id s))
       (\<lambda>(m, n). Inr (s\<lparr>as_clips := m, as_next_clip_id := n\<rparr>))"
| "operation_apply (SetTrackOrder b a) s =
     (if as_track_order s \<noteq> b then fails (AeStaleOperation ''track order'')
      else Inr (s\<lparr>as_track_order := a\<rparr>))"
| "operation_apply (PutMarker f b a) s =
     (if b = None \<and> a = None then fails AeEmptyOperation
      else if bt_get (as_markers s) f \<noteq> b then fails (AeStaleOperation ''marker'')
      else Inr (s\<lparr>as_markers :=
             (case a of Some m \<Rightarrow> bt_insert f m (as_markers s) | None \<Rightarrow> bt_remove f (as_markers s))\<rparr>))"

text \<open>The block that \<open>apply_operations\<close> and the editor share: a batch on a clone.\<close>

definition run_operations :: "arr_operation list \<Rightarrow> arr_state \<Rightarrow> arr_state edit_result" where
  "run_operations ops s =
     bind_r (fold_r operation_apply ops s) (\<lambda>raw.
     bind_r (normalize_indexes raw) (\<lambda>candidate.
     then_r (arr_validate candidate) (Inr candidate)))"

definition apply_operations :: "arr_operation list \<Rightarrow> arr_state \<Rightarrow> arr_state edit_result" where
  "apply_operations ops s = (if ops = [] then fails AeEmptyTransaction else run_operations ops s)"

record arr_transaction =
  tx_label :: string
  tx_operations :: "arr_operation list"

definition transaction_inverse :: "arr_transaction \<Rightarrow> arr_transaction" where
  "transaction_inverse tx = tx\<lparr>tx_operations := map operation_inverse (rev (tx_operations tx))\<rparr>"

end
