(* ===== verification/Arrangement_Equality.thy ===== *)
theory Arrangement_Equality
  imports Arrangement_State
begin

text \<open>
  The derived \<open>PartialEq\<close> of tracks and clips has canonical representatives: two values are
  equal when neither contains a NaN and they agree after every negative zero is made positive.
  The locale \<open>canonical_entity\<close> states this contract with the identifier of the entity, and
  proves from it how \<open>put_entity\<close> behaves on maps that agree canonically, which replacements it
  can make, and that the opposite replacement takes it back.
\<close>

section \<open>Canonical representatives\<close>

definition track_canon :: "ar_track \<Rightarrow> ar_track" where
  "track_canon t = t\<lparr>at_gain_db := f32_canon (at_gain_db t), at_pan := f32_canon (at_pan t)\<rparr>"

definition fade_canon :: "fade \<Rightarrow> fade" where
  "fade_canon f = f\<lparr>fa_phase_start := f64_canon (fa_phase_start f),
     fa_phase_end := f64_canon (fa_phase_end f)\<rparr>"

definition fades_canon :: "clip_fades \<Rightarrow> clip_fades" where
  "fades_canon f = \<lparr>cf_in = map_option fade_canon (cf_in f), cf_out = map_option fade_canon (cf_out f)\<rparr>"

definition playback_canon :: "playback_transform \<Rightarrow> playback_transform" where
  "playback_canon p = p\<lparr>pb_pitch_semitones := f64_canon (pb_pitch_semitones p)\<rparr>"

definition audio_canon :: "audio_region \<Rightarrow> audio_region" where
  "audio_canon a = a\<lparr>au_playback := playback_canon (au_playback a)\<rparr>"

fun content_canon :: "clip_content \<Rightarrow> clip_content" where
  "content_canon (AudioContent a) = AudioContent (audio_canon a)"
| "content_canon (PatternContent p) = PatternContent p"
| "content_canon (AutomationContent p) = AutomationContent p"

definition clip_canon :: "ar_clip \<Rightarrow> ar_clip" where
  "clip_canon c = c\<lparr>ac_content := content_canon (ac_content c), ac_fades := fades_canon (ac_fades c),
     ac_gain_db := f32_canon (ac_gain_db c)\<rparr>"

text \<open>An equality with canonical representatives, and values that are equal to themselves.\<close>

definition canonical :: "('v \<Rightarrow> 'v \<Rightarrow> bool) \<Rightarrow> ('v \<Rightarrow> 'v) \<Rightarrow> bool" where
  "canonical eq canon \<longleftrightarrow> (\<forall>a b. eq a b \<longleftrightarrow> eq a a \<and> eq b b \<and> canon a = canon b)
     \<and> (\<forall>a b. canon a = canon b \<longrightarrow> eq a a \<longrightarrow> eq b b)"

lemma canonicalI:
  assumes "\<And>a b. eq a b \<longleftrightarrow> fine a \<and> fine b \<and> canon a = canon b"
    and "\<And>a b. canon a = canon b \<Longrightarrow> fine a \<Longrightarrow> fine b"
  shows "canonical eq canon"
  unfolding canonical_def using assms by blast

lemma canonicalD:
  assumes "canonical eq canon"
  shows "eq a b \<longleftrightarrow> eq a a \<and> eq b b \<and> canon a = canon b"
    and "canon a = canon b \<Longrightarrow> eq a a = eq b b"
proof -
  note eq = conjunct1[OF assms[unfolded canonical_def]]
  note refl = conjunct2[OF assms[unfolded canonical_def]]
  show "eq a b \<longleftrightarrow> eq a a \<and> eq b b \<and> canon a = canon b"
    by (rule eq[rule_format])
  show "canon a = canon b \<Longrightarrow> eq a a = eq b b"
    using refl by metis
qed

lemma f32_canon_nanD: "f32_canon a = f32_canon b \<Longrightarrow> f32_is_nan a = f32_is_nan b"
  by (metis f32_canon_nan(1))

lemma f64_canon_nanD: "f64_canon a = f64_canon b \<Longrightarrow> f64_is_nan a = f64_is_nan b"
  by (metis f64_canon_nan(1))

lemma track_canon_eq:
  "track_canon a = track_canon b \<longleftrightarrow> a\<lparr>at_gain_db := at_gain_db b, at_pan := at_pan b\<rparr> = b
     \<and> f32_canon (at_gain_db a) = f32_canon (at_gain_db b) \<and> f32_canon (at_pan a) = f32_canon (at_pan b)"
  by (cases a; cases b) (auto simp: track_canon_def)

lemma canonical_track: "canonical ar_track_eq track_canon"
proof (rule canonicalI[where fine = "\<lambda>t. \<not> f32_is_nan (at_gain_db t) \<and> \<not> f32_is_nan (at_pan t)"])
  fix a b
  show "ar_track_eq a b \<longleftrightarrow> (\<lambda>t. \<not> f32_is_nan (at_gain_db t) \<and> \<not> f32_is_nan (at_pan t)) a \<and> (\<lambda>t. \<not> f32_is_nan (at_gain_db t) \<and> \<not> f32_is_nan (at_pan t)) b \<and> track_canon a = track_canon b"
    unfolding ar_track_eq_def f32_eq_canon track_canon_eq by argo
  show "(\<lambda>t. \<not> f32_is_nan (at_gain_db t) \<and> \<not> f32_is_nan (at_pan t)) b" if "track_canon a = track_canon b" "(\<lambda>t. \<not> f32_is_nan (at_gain_db t) \<and> \<not> f32_is_nan (at_pan t)) a"
    using that unfolding track_canon_eq by (metis f32_canon_nanD)
qed

lemma fade_canon_eq:
  "fade_canon a = fade_canon b \<longleftrightarrow> fa_duration a = fa_duration b \<and> fa_curve a = fa_curve b
     \<and> f64_canon (fa_phase_start a) = f64_canon (fa_phase_start b)
     \<and> f64_canon (fa_phase_end a) = f64_canon (fa_phase_end b)"
  by (cases a; cases b) (auto simp: fade_canon_def)

lemma canonical_fade: "canonical fade_eq fade_canon"
proof (rule canonicalI[where fine = "\<lambda>f. \<not> f64_is_nan (fa_phase_start f) \<and> \<not> f64_is_nan (fa_phase_end f)"])
  fix a b
  show "fade_eq a b \<longleftrightarrow> (\<lambda>f. \<not> f64_is_nan (fa_phase_start f) \<and> \<not> f64_is_nan (fa_phase_end f)) a \<and> (\<lambda>f. \<not> f64_is_nan (fa_phase_start f) \<and> \<not> f64_is_nan (fa_phase_end f)) b \<and> fade_canon a = fade_canon b"
    unfolding fade_eq_def f64_eq_canon fade_canon_eq by argo
  show "(\<lambda>f. \<not> f64_is_nan (fa_phase_start f) \<and> \<not> f64_is_nan (fa_phase_end f)) b" if "fade_canon a = fade_canon b" "(\<lambda>f. \<not> f64_is_nan (fa_phase_start f) \<and> \<not> f64_is_nan (fa_phase_end f)) a"
    using that unfolding fade_canon_eq by (metis f64_canon_nanD)
qed

lemma canonical_option:
  assumes "canonical eq canon"
  shows "canonical (rel_option eq) (map_option canon)"
proof (rule canonicalI[where fine = "\<lambda>x. rel_option eq x x"])
  note c = canonicalD[OF assms]
  show "rel_option eq a b \<longleftrightarrow> rel_option eq a a \<and> rel_option eq b b
      \<and> map_option canon a = map_option canon b" for a b
    by (cases a; cases b) (simp_all, rule c(1))
  show "rel_option eq b b" if "map_option canon a = map_option canon b" "rel_option eq a a" for a b
    using that by (cases a; cases b) (simp_all, metis c(2))
qed

lemma fades_canon_eq:
  "fades_canon a = fades_canon b \<longleftrightarrow> map_option fade_canon (cf_in a) = map_option fade_canon (cf_in b)
     \<and> map_option fade_canon (cf_out a) = map_option fade_canon (cf_out b)"
  by (simp add: fades_canon_def)

lemma canonical_fades: "canonical clip_fades_eq fades_canon"
  using canonical_option[OF canonical_fade]
  unfolding canonical_def clip_fades_eq_def fades_canon_eq by blast

lemma playback_canon_eq:
  "playback_canon a = playback_canon b \<longleftrightarrow> a\<lparr>pb_pitch_semitones := pb_pitch_semitones b\<rparr> = b
     \<and> f64_canon (pb_pitch_semitones a) = f64_canon (pb_pitch_semitones b)"
  by (cases a; cases b) (auto simp: playback_canon_def)

lemma canonical_playback: "canonical playback_eq playback_canon"
proof (rule canonicalI[where fine = "\<lambda>p. \<not> f64_is_nan (pb_pitch_semitones p)"])
  fix a b
  show "playback_eq a b \<longleftrightarrow> (\<lambda>p. \<not> f64_is_nan (pb_pitch_semitones p)) a \<and> (\<lambda>p. \<not> f64_is_nan (pb_pitch_semitones p)) b \<and> playback_canon a = playback_canon b"
    unfolding playback_eq_def f64_eq_canon playback_canon_eq by argo
  show "(\<lambda>p. \<not> f64_is_nan (pb_pitch_semitones p)) b" if "playback_canon a = playback_canon b" "(\<lambda>p. \<not> f64_is_nan (pb_pitch_semitones p)) a"
    using that unfolding playback_canon_eq by (metis f64_canon_nanD)
qed

lemma audio_canon_eq:
  "audio_canon a = audio_canon b \<longleftrightarrow> a\<lparr>au_playback := au_playback b\<rparr> = b
     \<and> playback_canon (au_playback a) = playback_canon (au_playback b)"
  by (cases a; cases b) (auto simp: audio_canon_def)

lemma audio_eq_refl: "audio_region_eq a a = playback_eq (au_playback a) (au_playback a)"
  by (simp add: audio_region_eq_def)

lemma canonical_audio: "canonical audio_region_eq audio_canon"
  using canonical_playback
  unfolding canonical_def audio_canon_eq audio_eq_refl unfolding audio_region_eq_def by blast

lemma canonical_content: "canonical clip_content_eq content_canon"
  unfolding canonical_def
proof (intro conjI allI impI)
  fix a b :: clip_content
  note p = canonicalD[OF canonical_audio]
  show "clip_content_eq a b \<longleftrightarrow> clip_content_eq a a \<and> clip_content_eq b b \<and> content_canon a = content_canon b"
    by (cases a; cases b) (simp_all, rule p(1))
  show "content_canon a = content_canon b \<Longrightarrow> clip_content_eq a a \<Longrightarrow> clip_content_eq b b"
    by (cases a; cases b) (simp_all, metis p(2))
qed

lemma clip_canon_eq:
  "clip_canon a = clip_canon b \<longleftrightarrow>
     a\<lparr>ac_content := ac_content b, ac_fades := ac_fades b, ac_gain_db := ac_gain_db b\<rparr> = b
     \<and> content_canon (ac_content a) = content_canon (ac_content b)
     \<and> fades_canon (ac_fades a) = fades_canon (ac_fades b)
     \<and> f32_canon (ac_gain_db a) = f32_canon (ac_gain_db b)"
  by (cases a; cases b) (auto simp: clip_canon_def)

lemma clip_eq_refl:
  "ar_clip_eq c c \<longleftrightarrow> clip_content_eq (ac_content c) (ac_content c)
     \<and> clip_fades_eq (ac_fades c) (ac_fades c) \<and> \<not> f32_is_nan (ac_gain_db c)"
  by (simp add: ar_clip_eq_def f32_eq_refl_iff)

lemma canonical_clip: "canonical ar_clip_eq clip_canon"
  using canonical_content canonical_fades
  unfolding canonical_def clip_canon_eq clip_eq_refl
  unfolding ar_clip_eq_def f32_eq_canon by (blast dest: f32_canon_nanD)

section \<open>Replacing one entity\<close>

text \<open>Maps that agree canonically, and maps of entities under their own identifier.\<close>

definition same_entries :: "('v \<Rightarrow> 'v) \<Rightarrow> ('k, 'v) btree \<Rightarrow> ('k, 'v) btree \<Rightarrow> bool" where
  "same_entries canon m n \<longleftrightarrow> bt_map (\<lambda>_. canon) m = bt_map (\<lambda>_. canon) n"

definition sound_entries :: "('v \<Rightarrow> 'v \<Rightarrow> bool) \<Rightarrow> ('v \<Rightarrow> 'k) \<Rightarrow> ('k, 'v) btree \<Rightarrow> bool" where
  "sound_entries eq key m \<longleftrightarrow> (\<forall>k v. bt_get m k = Some v \<longrightarrow> key v = k \<and> eq v v)"

definition ids_below :: "nat \<Rightarrow> ('tag typed_id, 'v) btree \<Rightarrow> bool" where
  "ids_below n m \<longleftrightarrow> (\<forall>k v. bt_get m k = Some v \<longrightarrow> raw k < n) \<and> n \<le> u64_max"

lemma same_entries_refl [simp]: "same_entries canon m m"
  by (simp add: same_entries_def)

lemma same_entries_sym: "same_entries canon m n \<Longrightarrow> same_entries canon n m"
  by (simp add: same_entries_def)

lemma same_entries_trans: "same_entries canon m n \<Longrightarrow> same_entries canon n q \<Longrightarrow> same_entries canon m q"
  by (simp add: same_entries_def)

lemma same_entries_get:
  "same_entries canon m n \<Longrightarrow> map_option canon (bt_get m k) = map_option canon (bt_get n k)"
  unfolding same_entries_def by (metis bt_get_map)

lemma same_entriesI:
  assumes "bt_ok m" "bt_ok n" "\<And>k. map_option canon (bt_get m k) = map_option canon (bt_get n k)"
  shows "same_entries canon m n"
  unfolding same_entries_def using assms by (intro bt_eqI) simp_all

lemma same_entries_keys: "same_entries canon m n \<Longrightarrow> bt_keys m = bt_keys n"
  unfolding same_entries_def by (rule bt_keys_modulo)

lemma same_entries_insert:
  "same_entries canon m n \<Longrightarrow> canon v = canon w \<Longrightarrow> same_entries canon (bt_insert k v m) (bt_insert k w n)"
  by (simp add: same_entries_def bt_map_insert)

lemma same_entries_remove:
  "same_entries canon m n \<Longrightarrow> same_entries canon (bt_remove k m) (bt_remove k n)"
  by (simp add: same_entries_def bt_map_remove)

lemma sound_entriesD:
  "sound_entries eq key m \<Longrightarrow> bt_get m k = Some v \<Longrightarrow> key v = k"
  "sound_entries eq key m \<Longrightarrow> bt_get m k = Some v \<Longrightarrow> eq v v"
  by (simp_all add: sound_entries_def)

text \<open>What a successful replacement is: the key it uses and the value it found there.\<close>

lemma put_entity_Inr:
  assumes "put_entity eq key label b a m n = Inr (m', n')"
  obtains k where "map_option key (probe_of b a) = Some k"
    and "rel_option eq (bt_get m k) b"
    and "m' = (case a of Some v \<Rightarrow> bt_insert k v m | None \<Rightarrow> bt_remove k m)"
    and "n' = (case a of Some v \<Rightarrow> max n (raw (key v) + 1) | None \<Rightarrow> n)"
    and "\<forall>v. a = Some v \<longrightarrow> raw (key v) + 1 \<le> u64_max"
  using assms
  by (auto simp: put_entity_def check_existing_def result_simps not_less
      split: option.splits if_splits)

lemma put_entityI:
  assumes "map_option key (probe_of b a) = Some k" "rel_option eq (bt_get m k) b"
    and "\<And>v. a = Some v \<Longrightarrow> raw (key v) + 1 \<le> u64_max"
  shows "put_entity eq key label b a m n
    = Inr (case a of Some v \<Rightarrow> (bt_insert k v m, max n (raw (key v) + 1)) | None \<Rightarrow> (bt_remove k m, n))"
  using assms
  by (cases b; cases a) (auto simp: put_entity_def check_existing_def split: option.splits)

lemma put_entity_ok:
  "put_entity eq key label b a m n = Inr (m', n') \<Longrightarrow> bt_ok m \<Longrightarrow> bt_ok m'"
  by (elim put_entity_Inr) (auto split: option.splits)

lemma put_entity_no_panic:
  "put_entity eq key label b a m n \<noteq> panics"
  by (auto simp: put_entity_def check_existing_def then_r_def fail_if_def split: option.splits sum.splits)

locale canonical_entity =
  fixes eq :: "'v \<Rightarrow> 'v \<Rightarrow> bool" and canon :: "'v \<Rightarrow> 'v" and key :: "'v \<Rightarrow> 'tag typed_id"
  assumes eq_iff: "eq a b \<longleftrightarrow> eq a a \<and> eq b b \<and> canon a = canon b"
    and refl_canon: "canon a = canon b \<Longrightarrow> eq a a = eq b b"
    and key_canon: "key (canon a) = key a"
begin

lemma eq_key: "eq a b \<Longrightarrow> key a = key b"
  using eq_iff key_canon by metis

lemma eq_cong: "canon a = canon b \<Longrightarrow> eq a x = eq b x"
  using eq_iff refl_canon by metis

lemma found_cong:
  "same_entries canon m n \<Longrightarrow> rel_option eq (bt_get m k) x = rel_option eq (bt_get n k) x"
  using same_entries_get[of canon m n k]
  by (cases "bt_get m k"; cases "bt_get n k"; cases x) (auto dest: eq_cong)

lemma found_canon: "rel_option eq x y \<Longrightarrow> map_option canon x = map_option canon y"
  by (cases x; cases y) (simp_all, metis eq_iff)

lemma put_cong:
  assumes "same_entries canon m n" "put_entity eq key label b a m c = Inr (m', c')"
  shows "\<exists>n' d'. put_entity eq key label b a n d = Inr (n', d') \<and> same_entries canon m' n'"
  using assms(2)
proof (rule put_entity_Inr)
  fix k
  assume k: "map_option key (probe_of b a) = Some k" "rel_option eq (bt_get m k) b"
    and m': "m' = (case a of Some v \<Rightarrow> bt_insert k v m | None \<Rightarrow> bt_remove k m)"
    and le: "\<forall>v. a = Some v \<longrightarrow> raw (key v) + 1 \<le> u64_max"
  have "rel_option eq (bt_get n k) b" using k(2) found_cong[OF assms(1)] by simp
  from put_entityI[OF k(1) this le[rule_format], of label d] assms(1) show ?thesis
    by (cases a) (auto simp: m' same_entries_insert same_entries_remove)
qed

text \<open>
  A replacement that leaves a sound map was itself sound: an entity stored under a foreign
  identifier, or one that differs from itself, can never be replaced again.
\<close>

lemma put_sound_back:
  assumes "put_entity eq key label b a m c = Inr (m', c')" "sound_entries eq key m'"
  shows "sound_entries eq key m" and "b \<noteq> None \<Longrightarrow> a \<noteq> None \<Longrightarrow> map_option key b = map_option key a"
proof -
  obtain k where k: "map_option key (probe_of b a) = Some k" "rel_option eq (bt_get m k) b"
    and m': "m' = (case a of Some v \<Rightarrow> bt_insert k v m | None \<Rightarrow> bt_remove k m)"
    by (rule put_entity_Inr[OF assms(1)])
  show "sound_entries eq key m"
    unfolding sound_entries_def
  proof (intro allI impI)
    fix j v assume j: "bt_get m j = Some v"
    show "key v = j \<and> eq v v"
    proof (cases "j = k")
      case True
      with j k obtain w where w: "b = Some w" "eq v w" by (auto simp: option_rel_Some1)
      with k True have "key w = j" by simp
      with w show ?thesis using eq_key eq_iff by metis
    next
      case False
      with j m' have "bt_get m' j = Some v" by (auto split: option.splits)
      with assms(2) show ?thesis by (simp add: sound_entries_def)
    qed
  qed
  show "map_option key b = map_option key a" if ab: "b \<noteq> None" "a \<noteq> None"
  proof -
    obtain w v where [simp]: "b = Some w" "a = Some v" using ab by auto
    have "bt_get m' k = Some v" by (simp add: m')
    with assms(2) k(1) show ?thesis by (auto simp: sound_entries_def)
  qed
qed

text \<open>
  The opposite replacement, on a map that agrees at the one key: it succeeds, restores what was
  there and leaves every other key alone.
\<close>

lemma put_inverse:
  assumes "put_entity eq key label b a m c = Inr (m', c')" "sound_entries eq key m'"
    and "ids_below c m"
    and "\<And>k. map_option key (probe_of b a) = Some k
      \<Longrightarrow> map_option canon (bt_get n' k) = map_option canon (bt_get m' k)"
  obtains k n d' where "map_option key (probe_of b a) = Some k" "map_option key (probe_of a b) = Some k"
    and "put_entity eq key label a b n' d = Inr (n, d')"
    and "map_option canon (bt_get n k) = map_option canon (bt_get m k)"
    and "\<And>j. j \<noteq> k \<Longrightarrow> bt_get n j = bt_get n' j" "\<And>j. j \<noteq> k \<Longrightarrow> bt_get m' j = bt_get m j"
    and "n = (case b of Some v \<Rightarrow> bt_insert k v n' | None \<Rightarrow> bt_remove k n')"
proof -
  obtain k where k: "map_option key (probe_of b a) = Some k" "rel_option eq (bt_get m k) b"
    and m': "m' = (case a of Some v \<Rightarrow> bt_insert k v m | None \<Rightarrow> bt_remove k m)"
    by (rule put_entity_Inr[OF assms(1)])
  have probe: "map_option key (probe_of a b) = Some k"
    using put_sound_back(2)[OF assms(1,2)] k(1) by (cases a; cases b) auto
  have "rel_option eq (bt_get m' k) a"
  proof (cases a)
    case (Some v)
    then have "bt_get m' k = Some v" by (simp add: m')
    with assms(2) Some show ?thesis by (simp add: sound_entries_def)
  qed (simp add: m')
  then have found: "rel_option eq (bt_get n' k) a"
    using assms(4)[OF k(1)] by (cases "bt_get n' k"; cases "bt_get m' k"; cases a) (auto dest: eq_cong)
  have le: "raw (key v) + 1 \<le> u64_max" if "b = Some v" for v
  proof -
    from that k obtain w where w: "bt_get m k = Some w" by (auto simp: option_rel_Some2)
    with assms(3) that k(1) show ?thesis by (auto simp: ids_below_def Suc_le_eq)
  qed
  let ?n = "case b of Some v \<Rightarrow> bt_insert k v n' | None \<Rightarrow> bt_remove k n'"
  obtain d' where put: "put_entity eq key label a b n' d = Inr (?n, d')"
    using put_entityI[OF probe found le, of label d] by (cases b) simp_all
  have "map_option canon (bt_get ?n k) = map_option canon (bt_get m k)"
    using found_canon[OF k(2)] by (cases b) auto
  then show thesis
    by (rule that[OF k(1) probe put]) (simp_all add: m' split: option.splits)
qed

lemma put_ids_below:
  assumes "put_entity eq key label b a m c = Inr (m', c')" "ids_below c m"
  shows "ids_below c' m'" "c \<le> c'"
proof -
  obtain k where k: "map_option key (probe_of b a) = Some k" "rel_option eq (bt_get m k) b"
    and m': "m' = (case a of Some v \<Rightarrow> bt_insert k v m | None \<Rightarrow> bt_remove k m)"
    and c': "c' = (case a of Some v \<Rightarrow> max c (raw (key v) + 1) | None \<Rightarrow> c)"
    and le: "\<forall>v. a = Some v \<longrightarrow> raw (key v) + 1 \<le> u64_max"
    by (rule put_entity_Inr[OF assms(1)])
  show "c \<le> c'" by (auto simp: c' split: option.splits)
  have "raw k < c'"
  proof (cases "bt_get m k")
    case (Some w)
    with assms(2) \<open>c \<le> c'\<close> show ?thesis by (auto simp: ids_below_def intro: less_le_trans)
  next
    case None
    with k show ?thesis by (cases a) (auto simp: c')
  qed
  with assms(2) le show "ids_below c' m'"
    by (auto simp: ids_below_def m' c' split: option.splits if_splits)
qed

end

lemma canon_fields [simp]:
  "at_id (track_canon t) = at_id t" "at_clip_ids (track_canon t) = at_clip_ids t"
  "at_overlap (track_canon t) = at_overlap t" "at_kind (track_canon t) = at_kind t"
  "at_color (track_canon t) = at_color t"
  "ac_id (clip_canon c) = ac_id c" "ac_track_id (clip_canon c) = ac_track_id c"
  "ac_placement (clip_canon c) = ac_placement c"
  by (simp_all add: track_canon_def clip_canon_def)

interpretation track_entity: canonical_entity ar_track_eq track_canon at_id
  by unfold_locales (rule canonicalD[OF canonical_track], rule canonicalD[OF canonical_track], simp_all)

interpretation clip_entity: canonical_entity ar_clip_eq clip_canon ac_id
  by unfold_locales (rule canonicalD[OF canonical_clip], rule canonicalD[OF canonical_clip], simp_all)

end
