(* ===== verification/Arrangement_Validity.thy ===== *)
theory Arrangement_Validity
  imports Arrangement_Equality
begin

text \<open>
  What \<open>ArrangementState::validate\<close> accepts, stated on lookups: the integrity of an arrangement.
  It depends on the maps only up to \<open>PartialEq\<close>, which is what undo and redo preserve.
\<close>

definition arr_wf :: "arr_state \<Rightarrow> bool" where
  [wf_simps]: "arr_wf s \<longleftrightarrow> bt_ok (as_tracks s) \<and> bt_ok (as_clips s) \<and> bt_ok (as_markers s)"

section \<open>The integrity of an arrangement\<close>

definition fade_ok :: "nat \<Rightarrow> fade \<Rightarrow> bool" where
  "fade_ok len f \<longleftrightarrow> 0 < fa_duration f \<and> fa_duration f \<le> len
     \<and> f64_is_finite (fa_phase_start f) \<and> f64_is_finite (fa_phase_end f)
     \<and> f64_le f64_zero (fa_phase_start f) \<and> f64_le (fa_phase_start f) f64_one
     \<and> f64_le f64_zero (fa_phase_end f) \<and> f64_le (fa_phase_end f) f64_one
     \<and> \<not> f64_le (fa_phase_end f) (fa_phase_start f)"

definition fades_ok :: "nat \<Rightarrow> clip_fades \<Rightarrow> bool" where
  "fades_ok len fs \<longleftrightarrow> (\<forall>f. cf_in fs = Some f \<or> cf_out fs = Some f \<longrightarrow> fade_ok len f)"

text \<open>The warp markers lie inside the region, strictly ascending.\<close>

definition warp_markers_ok :: "source_range \<Rightarrow> nat \<Rightarrow> warp_marker list \<Rightarrow> bool" where
  "warp_markers_ok source len ms \<longleftrightarrow> sorted_wrt (<) (map wm_project_offset ms)
     \<and> (\<forall>m \<in> set ms. wm_project_offset m \<le> len \<and> so_start source \<le> wm_source_frame m
          \<and> wm_source_frame m \<le> so_end source)"

definition audio_ok :: "nat \<Rightarrow> audio_region \<Rightarrow> bool" where
  "audio_ok len a \<longleftrightarrow>
     (let playback = au_playback a; source = au_source a; ratio = pb_ratio playback in
      f64_is_finite (pb_pitch_semitones playback) \<and> 0 < ra_source ratio \<and> 0 < ra_project ratio
      \<and> so_start source \<le> so_end source \<and> so_end source - so_start source \<le> u64_max
      \<and> len * ra_source ratio = (so_end source - so_start source) * ra_project ratio
      \<and> warp_markers_ok source len (pb_warp_markers playback)
      \<and> (\<forall>r. loop_mode_range (au_loop_mode a) = Some r
           \<longrightarrow> so_start source \<le> so_start r \<and> so_end r \<le> so_end source)
      \<and> (\<forall>cs. au_channels a = Channels cs \<longrightarrow> cs \<noteq> [] \<and> distinct cs))"

fun content_ok :: "nat \<Rightarrow> clip_content \<Rightarrow> bool" where
  "content_ok len (AudioContent a) = audio_ok len a"
| "content_ok len (PatternContent p) = True"
| "content_ok len (AutomationContent p) = True"

definition clip_ok :: "(ar_track_id, ar_track) btree \<Rightarrow> ar_clip_id \<Rightarrow> ar_clip \<Rightarrow> bool" where
  "clip_ok tracks i c \<longleftrightarrow> ac_id c = i \<and> valid_db (ac_gain_db c)
     \<and> (\<exists>t. bt_get tracks (ac_track_id c) = Some t
          \<and> (at_kind t = HybridTrack \<or> at_kind t = clip_content_kind (ac_content c)))
     \<and> fades_ok (frame_range_len (ac_placement c)) (ac_fades c)
     \<and> content_ok (frame_range_len (ac_placement c)) (ac_content c)"

text \<open>Successive clips of an index: by start and identifier, apart where overlaps are rejected.\<close>

definition clip_follows :: "overlap_policy \<Rightarrow> ar_clip \<Rightarrow> ar_clip \<Rightarrow> bool" where
  "clip_follows overlap a b \<longleftrightarrow>
     (fr_start (ac_placement a), ac_id a) \<le> (fr_start (ac_placement b), ac_id b)
     \<and> (overlap = RejectOverlaps \<longrightarrow> \<not> frame_range_intersects (ac_placement a) (ac_placement b))"

definition indexed_clips :: "(ar_clip_id, ar_clip) btree \<Rightarrow> ar_clip_id list \<Rightarrow> ar_clip list" where
  "indexed_clips clips js = map (\<lambda>j. the (bt_get clips j)) js"

definition track_ok :: "(ar_clip_id, ar_clip) btree \<Rightarrow> ar_track_id \<Rightarrow> ar_track \<Rightarrow> bool" where
  "track_ok clips i t \<longleftrightarrow> at_id t = i \<and> valid_db (at_gain_db t) \<and> valid_pan (at_pan t)
     \<and> (\<forall>c. at_color t = Some c \<longrightarrow> rgb_is_valid c)
     \<and> distinct (at_clip_ids t)
     \<and> (\<forall>j. j \<in> set (at_clip_ids t) \<longleftrightarrow> (\<exists>c. bt_get clips j = Some c \<and> ac_track_id c = i))
     \<and> successively (clip_follows (at_overlap t)) (indexed_clips clips (at_clip_ids t))"

definition counters_ok :: "arr_state \<Rightarrow> bool" where
  "counters_ok s \<longleftrightarrow> 0 < as_next_track_id s \<and> 0 < as_next_clip_id s
     \<and> (\<forall>i t. bt_get (as_tracks s) i = Some t \<longrightarrow> 0 < raw i \<and> raw i < as_next_track_id s)
     \<and> (\<forall>i c. bt_get (as_clips s) i = Some c \<longrightarrow> 0 < raw i \<and> raw i < as_next_clip_id s)"

definition arr_integrity :: "arr_state \<Rightarrow> bool" where
  "arr_integrity s \<longleftrightarrow> as_schema_version s = 1 \<and> 0 < as_sample_rate s
     \<and> distinct (as_track_order s) \<and> set (as_track_order s) = set (bt_keys (as_tracks s))
     \<and> counters_ok s
     \<and> (\<forall>f m. bt_get (as_markers s) f = Some m \<longrightarrow> marker_is_valid m)
     \<and> (\<forall>i t. bt_get (as_tracks s) i = Some t \<longrightarrow> track_ok (as_clips s) i t)
     \<and> (\<forall>i c. bt_get (as_clips s) i = Some c \<longrightarrow> clip_ok (as_tracks s) i c)"

section \<open>\<open>validate\<close> accepts exactly the arrangements with integrity\<close>

lemma for_each_entries:
  assumes "bt_ok m"
  shows "for_each f m = Inr () \<longleftrightarrow> (\<forall>k v. bt_get m k = Some v \<longrightarrow> f (k, v) = Inr ())"
  using assms by (force simp: for_each_eq_Inr bt_get_iff)

lemma length_remdups_distinct: "length (remdups xs) = length xs \<longleftrightarrow> distinct xs"
  by (metis distinct_remdups length_remdups_card_conv card_distinct distinct_card)

lemma validate_order_iff:
  "validate_order order expected label = Inr () \<longleftrightarrow> distinct order \<and> set order = set expected"
  by (auto simp: validate_order_def result_simps length_remdups_distinct)

lemma validate_fades_iff: "validate_fades fs len = Inr () \<longleftrightarrow> fades_ok len fs"
proof -
  have "fade_ok len f \<longleftrightarrow> \<not> fade_is_invalid len f" for f
    by (auto simp: fade_ok_def fade_is_invalid_def)
  moreover have "f \<in> set (case_option [] (\<lambda>f. [f]) a @ case_option [] (\<lambda>f. [f]) b)
      \<longleftrightarrow> a = Some f \<or> b = Some f" for f and a b :: "fade option"
    by (cases a; cases b) auto
  ultimately show ?thesis
    unfolding validate_fades_def fades_ok_def for_each_eq_Inr fail_if_eq_Inr by auto
qed

lemma check_warp_markers_iff:
  "check_warp_markers source len prev ms = Inr () \<longleftrightarrow>
     warp_markers_ok source len ms
     \<and> (\<forall>p m. prev = Some p \<longrightarrow> m \<in> set ms \<longrightarrow> p < wm_project_offset m)"
proof (induction ms arbitrary: prev)
  case Nil
  then show ?case by (simp add: warp_markers_ok_def)
next
  case (Cons m ms)
  show ?case
    unfolding check_warp_markers.simps
    by (cases prev) (auto simp: Cons.IH warp_markers_ok_def not_less not_le intro: less_trans)
qed

lemma ratio_source_offset_Inr:
  "ratio_source_offset r n = Inr k \<longleftrightarrow>
     0 < ra_project r \<and> n * ra_source r = k * ra_project r \<and> k \<le> u64_max"
  by (auto simp: ratio_source_offset_def Let_def not_less)

lemma source_range_len_Inr: "source_range_len r = Inr n \<longleftrightarrow> so_start r \<le> so_end r \<and> n = so_end r - so_start r"
  by (auto simp: source_range_len_def)

lemma validate_audio_iff: "validate_audio a len = Inr () \<longleftrightarrow> audio_ok len a"
  unfolding validate_audio_def audio_ok_def Let_def
  by (auto simp: result_simps ratio_source_offset_Inr source_range_len_Inr check_warp_markers_iff
      length_remdups_distinct split: option.splits channel_mapping.splits)

lemma check_clip_index_Some:
  "check_clip_index s i overlap (Some p) js = Inr () \<longleftrightarrow>
     (\<forall>j \<in> set js. bt_get (as_clips s) j \<noteq> None)
     \<and> successively (clip_follows overlap) (p # indexed_clips (as_clips s) js)"
proof (induction js arbitrary: p)
  case (Cons j js)
  then show ?case
    by (auto simp: result_simps clip_follows_def indexed_clips_def split: option.splits)
qed (simp add: indexed_clips_def)

lemma check_clip_index_None:
  "check_clip_index s i overlap None js = Inr () \<longleftrightarrow>
     (\<forall>j \<in> set js. bt_get (as_clips s) j \<noteq> None)
     \<and> successively (clip_follows overlap) (indexed_clips (as_clips s) js)"
  by (cases js) (auto simp: check_clip_index_Some indexed_clips_def result_simps split: option.splits)

lemma validate_ar_clip_iff: "validate_ar_clip s (i, c) = Inr () \<longleftrightarrow> clip_ok (as_tracks s) i c"
  by (auto simp: validate_ar_clip_def clip_ok_def result_simps validate_fades_iff validate_audio_iff
      split: option.splits clip_content.splits)

lemma clips_of_track_keyed:
  assumes "bt_ok clips" "\<forall>i c. bt_get clips i = Some c \<longrightarrow> ac_id c = i"
  shows "j \<in> set (clips_of_track clips i) \<longleftrightarrow> (\<exists>c. bt_get clips j = Some c \<and> ac_track_id c = i)"
  using assms by (auto simp: clips_of_track_def bt_values_in)

lemma validate_ar_track_iff:
  assumes "bt_ok (as_clips s)" "\<forall>i c. bt_get (as_clips s) i = Some c \<longrightarrow> ac_id c = i"
  shows "validate_ar_track s (i, t) = Inr () \<longleftrightarrow> track_ok (as_clips s) i t"
proof -
  have "set (at_clip_ids t) = set (clips_of_track (as_clips s) i) \<longleftrightarrow>
      (\<forall>j. j \<in> set (at_clip_ids t) \<longleftrightarrow> (\<exists>c. bt_get (as_clips s) j = Some c \<and> ac_track_id c = i))"
    using clips_of_track_keyed[OF assms] by blast
  then show ?thesis
    unfolding validate_ar_track_def track_ok_def
    by (auto simp: result_simps validate_order_iff check_clip_index_None
        simp flip: clips_of_track_def split: option.splits)
qed

lemma id_counters_iff: "\<not> id_counters_invalid s \<longleftrightarrow> counters_ok s"
  by (auto simp: id_counters_invalid_def counters_ok_def list_ex_iff bt_keys_in not_le)

lemma arr_validate_iff:
  assumes "arr_wf s"
  shows "arr_validate s = Inr () \<longleftrightarrow> arr_integrity s"
proof -
  have clips: "for_each (validate_ar_clip s) (as_clips s) = Inr ()
      \<longleftrightarrow> (\<forall>i c. bt_get (as_clips s) i = Some c \<longrightarrow> clip_ok (as_tracks s) i c)"
    using assms by (simp add: for_each_entries validate_ar_clip_iff wf_simps)
  have tracks: "for_each (validate_ar_track s) (as_tracks s) = Inr ()
      \<longleftrightarrow> (\<forall>i t. bt_get (as_tracks s) i = Some t \<longrightarrow> track_ok (as_clips s) i t)"
    if "\<forall>i c. bt_get (as_clips s) i = Some c \<longrightarrow> clip_ok (as_tracks s) i c"
    using that assms by (subst for_each_entries)
      (simp_all add: validate_ar_track_iff wf_simps clip_ok_def)
  have markers: "for_each (\<lambda>(f, m). fail_if (\<not> marker_is_valid m) (Failed (AeInvalidMarker f))) (as_markers s)
      = Inr () \<longleftrightarrow> (\<forall>f m. bt_get (as_markers s) f = Some m \<longrightarrow> marker_is_valid m)"
    using assms by (simp add: for_each_entries wf_simps fail_if_eq_Inr)
  show ?thesis
    unfolding arr_validate_def arr_integrity_def then_r_eq_Inr fail_if_eq_Inr validate_order_iff
      id_counters_iff markers clips
    using tracks by auto
qed

section \<open>Integrity depends on the maps up to \<open>PartialEq\<close>\<close>

lemma canon_predicates [simp]:
  "valid_db (f32_canon g) = valid_db g" "valid_pan (f32_canon g) = valid_pan g"
  by (simp_all add: valid_db_def valid_pan_def)

lemma fade_ok_canon [simp]: "fade_ok len (fade_canon f) = fade_ok len f"
  by (simp add: fade_ok_def fade_canon_def)

lemma fades_ok_canon [simp]: "fades_ok len (fades_canon f) = fades_ok len f"
  by (auto simp: fades_ok_def fades_canon_def)

lemma content_ok_canon [simp]: "content_ok len (content_canon c) = content_ok len c"
  by (cases c) (simp_all add: audio_ok_def audio_canon_def playback_canon_def Let_def)

lemma clip_content_kind_canon [simp]: "clip_content_kind (content_canon c) = clip_content_kind c"
  by (cases c) simp_all

lemma clip_canon_fields [simp]:
  "ac_gain_db (clip_canon c) = f32_canon (ac_gain_db c)"
  "ac_content (clip_canon c) = content_canon (ac_content c)"
  "ac_fades (clip_canon c) = fades_canon (ac_fades c)"
  "at_gain_db (track_canon t) = f32_canon (at_gain_db t)"
  "at_pan (track_canon t) = f32_canon (at_pan t)"
  by (simp_all add: clip_canon_def track_canon_def)

abbreviation canon_tracks :: "(ar_track_id, ar_track) btree \<Rightarrow> (ar_track_id, ar_track) btree" where
  "canon_tracks \<equiv> bt_map (\<lambda>_. track_canon)"

abbreviation canon_clips :: "(ar_clip_id, ar_clip) btree \<Rightarrow> (ar_clip_id, ar_clip) btree" where
  "canon_clips \<equiv> bt_map (\<lambda>_. clip_canon)"

lemma clip_ok_canon: "clip_ok (canon_tracks ts) i (clip_canon c) = clip_ok ts i c"
  by (auto simp: clip_ok_def)

lemma successively_map_cong:
  "(\<And>x y. x \<in> set xs \<Longrightarrow> y \<in> set xs \<Longrightarrow> P (f x) (f y) = Q (g x) (g y))
     \<Longrightarrow> successively P (map f xs) = successively Q (map g xs)"
  by (induction xs rule: induct_list012) auto

lemma track_ok_canon: "track_ok (canon_clips cs) i (track_canon t) = track_ok cs i t"
proof -
  have "successively (clip_follows ov) (indexed_clips (canon_clips cs) js)
      = successively (clip_follows ov) (indexed_clips cs js)"
    if known: "\<forall>j \<in> set js. bt_get cs j \<noteq> None" for ov js
    unfolding indexed_clips_def
  proof (rule successively_map_cong)
    fix x y assume "x \<in> set js" "y \<in> set js"
    then obtain c d where "bt_get cs x = Some c" "bt_get cs y = Some d" using known by fastforce
    then show "clip_follows ov (the (bt_get (canon_clips cs) x)) (the (bt_get (canon_clips cs) y))
        = clip_follows ov (the (bt_get cs x)) (the (bt_get cs y))"
      by (simp add: clip_follows_def)
  qed
  then show ?thesis
    unfolding track_ok_def by (auto, fastforce+)
qed

text \<open>The same content: everything but the identifier counters, up to \<open>PartialEq\<close>.\<close>

definition same_content :: "arr_state \<Rightarrow> arr_state \<Rightarrow> bool" where
  "same_content s t \<longleftrightarrow> as_schema_version s = as_schema_version t \<and> as_sample_rate s = as_sample_rate t
     \<and> same_entries track_canon (as_tracks s) (as_tracks t)
     \<and> same_entries clip_canon (as_clips s) (as_clips t)
     \<and> as_track_order s = as_track_order t \<and> as_markers s = as_markers t"

lemma same_content_refl [simp]: "same_content s s"
  by (simp add: same_content_def)

lemma same_content_sym: "same_content s t \<Longrightarrow> same_content t s"
  by (simp add: same_content_def same_entries_sym)

lemma same_content_trans: "same_content s t \<Longrightarrow> same_content t u \<Longrightarrow> same_content s u"
  by (auto simp: same_content_def intro: same_entries_trans)

lemma entries_ok_canon:
  "(\<forall>i t. bt_get ts i = Some t \<longrightarrow> track_ok cs i t)
     \<longleftrightarrow> (\<forall>i t. bt_get (canon_tracks ts) i = Some t \<longrightarrow> track_ok (canon_clips cs) i t)"
  "(\<forall>i c. bt_get cs i = Some c \<longrightarrow> clip_ok ts i c)
     \<longleftrightarrow> (\<forall>i c. bt_get (canon_clips cs) i = Some c \<longrightarrow> clip_ok (canon_tracks ts) i c)"
  by (simp_all add: track_ok_canon clip_ok_canon) (metis track_ok_canon clip_ok_canon)+

lemma integrity_cong:
  assumes "same_content s t" "arr_integrity s" "counters_ok t"
  shows "arr_integrity t"
proof -
  have eq: "canon_tracks (as_tracks s) = canon_tracks (as_tracks t)"
    "canon_clips (as_clips s) = canon_clips (as_clips t)"
    using assms(1) by (simp_all add: same_content_def same_entries_def)
  have keys: "bt_keys (as_tracks s) = bt_keys (as_tracks t)"
    using assms(1) same_entries_keys unfolding same_content_def by blast
  note canon_s = entries_ok_canon[where ts = "as_tracks s" and cs = "as_clips s"]
  note canon_t = entries_ok_canon[where ts = "as_tracks t" and cs = "as_clips t"]
  from assms(2) show ?thesis
    unfolding arr_integrity_def canon_s canon_t eq keys
    using assms(1,3) by (simp add: same_content_def)
qed

end
