(* ===== verification/Arrangement_Content.thy ===== *)
theory Arrangement_Content
  imports Arrangement_Validity
begin

text \<open>
  The edits of clip content and of clip-edge fades in \<open>src/arrangement.rs\<close>: trimming, slipping
  and splitting a region exactly in source frames, and splitting the fade envelope. The lemmas
  say which content a clip plays at a project frame before and after.
\<close>

section \<open>Content\<close>

definition reject_warped :: "audio_region \<Rightarrow> unit edit_result" where
  "reject_warped a = fail_if (pb_warp_markers (au_playback a) \<noteq> []) (Failed AeWarpedEditRequiresCompiler)"

definition checked_sub_source :: "nat \<Rightarrow> nat \<Rightarrow> nat edit_result" where
  "checked_sub_source a b = (if a < b then fails AeTimeOverflow else Inr (a - b))"

definition checked_add_source :: "nat \<Rightarrow> nat \<Rightarrow> nat edit_result" where
  "checked_add_source a b = (if u64_max < a + b then fails AeTimeOverflow else Inr (a + b))"

definition advance_audio :: "audio_region \<Rightarrow> nat \<Rightarrow> audio_region edit_result" where
  "advance_audio a delta =
     then_r (reject_warped a)
    (bind_r (ratio_source_offset (pb_ratio (au_playback a)) delta) (\<lambda>source_delta.
     bind_r (source_range_len (au_source a)) (\<lambda>len.
       if len \<le> source_delta then fails AeInvalidTrim
       else if pb_reverse (au_playback a) then
         bind_r (checked_sub_source (so_end (au_source a)) source_delta)
           (\<lambda>e. Inr (a\<lparr>au_source := (au_source a)\<lparr>so_end := e\<rparr>\<rparr>))
       else
         bind_r (checked_add_source (so_start (au_source a)) source_delta)
           (\<lambda>s. Inr (a\<lparr>au_source := (au_source a)\<lparr>so_start := s\<rparr>\<rparr>)))))"

fun advance_content :: "clip_content \<Rightarrow> nat \<Rightarrow> clip_content edit_result" where
  "advance_content (AudioContent a) delta = bind_r (advance_audio a delta) (\<lambda>a'. Inr (AudioContent a'))"
| "advance_content (PatternContent p) delta =
     bind_r (checked_add_source (pr_content_offset p) delta)
       (\<lambda>k. Inr (PatternContent (p\<lparr>pr_content_offset := k\<rparr>)))"
| "advance_content (AutomationContent p) delta =
     bind_r (checked_add_source (mr_content_offset p) delta)
       (\<lambda>k. Inr (AutomationContent (p\<lparr>mr_content_offset := k\<rparr>)))"

fun retreat_content_end :: "clip_content \<Rightarrow> nat \<Rightarrow> clip_content edit_result" where
  "retreat_content_end (AudioContent a) delta =
     then_r (reject_warped a)
    (bind_r (ratio_source_offset (pb_ratio (au_playback a)) delta) (\<lambda>source_delta.
     bind_r (source_range_len (au_source a)) (\<lambda>len.
       if len \<le> source_delta then fails AeInvalidTrim
       else if pb_reverse (au_playback a) then
         bind_r (checked_add_source (so_start (au_source a)) source_delta)
           (\<lambda>s. Inr (AudioContent (a\<lparr>au_source := (au_source a)\<lparr>so_start := s\<rparr>\<rparr>)))
       else
         bind_r (checked_sub_source (so_end (au_source a)) source_delta)
           (\<lambda>e. Inr (AudioContent (a\<lparr>au_source := (au_source a)\<lparr>so_end := e\<rparr>\<rparr>))))))"
| "retreat_content_end c delta = Inr c"

definition add_signed_u64 :: "nat \<Rightarrow> int \<Rightarrow> nat edit_result" where
  "add_signed_u64 v delta =
     (let r = int v + delta
      in if r < 0 \<or> int u64_max < r then fails AeSourceOutOfBounds else Inr (nat r))"

fun slip_content :: "clip_content \<Rightarrow> int \<Rightarrow> clip_content edit_result" where
  "slip_content (AudioContent a) delta =
     then_r (reject_warped a)
    (bind_r (ratio_source_offset (pb_ratio (au_playback a)) (nat \<bar>delta\<bar>)) (\<lambda>magnitude.
       let signed = int magnitude * (if delta < 0 then - 1 else 1);
           s = int (so_start (au_source a)) + signed;
           e = int (so_end (au_source a)) + signed
       in if s < 0 \<or> int u64_max < e then fails AeSourceOutOfBounds
          else Inr (AudioContent (a\<lparr>au_source := \<lparr>so_start = nat (s mod 2 ^ 64), so_end = nat (e mod 2 ^ 64)\<rparr>\<rparr>))))"
| "slip_content (PatternContent p) delta =
     bind_r (add_signed_u64 (pr_content_offset p) delta)
       (\<lambda>k. Inr (PatternContent (p\<lparr>pr_content_offset := k\<rparr>)))"
| "slip_content (AutomationContent p) delta =
     bind_r (add_signed_u64 (mr_content_offset p) delta)
       (\<lambda>k. Inr (AutomationContent (p\<lparr>mr_content_offset := k\<rparr>)))"

text \<open>The boundary of a split is computed with unchecked operators.\<close>

fun split_content :: "clip_content \<Rightarrow> nat \<Rightarrow> (clip_content \<times> clip_content) edit_result" where
  "split_content (AudioContent a) offset =
     then_r (reject_warped a)
    (bind_r (ratio_source_offset (pb_ratio (au_playback a)) offset) (\<lambda>source_offset.
       if pb_reverse (au_playback a) then
         (if so_end (au_source a) < source_offset then panics
          else let boundary = so_end (au_source a) - source_offset
               in Inr (AudioContent (a\<lparr>au_source := (au_source a)\<lparr>so_start := boundary\<rparr>\<rparr>),
                       AudioContent (a\<lparr>au_source := (au_source a)\<lparr>so_end := boundary\<rparr>\<rparr>)))
       else
         (if u64_max < so_start (au_source a) + source_offset then panics
          else let boundary = so_start (au_source a) + source_offset
               in Inr (AudioContent (a\<lparr>au_source := (au_source a)\<lparr>so_end := boundary\<rparr>\<rparr>),
                       AudioContent (a\<lparr>au_source := (au_source a)\<lparr>so_start := boundary\<rparr>\<rparr>)))))"
| "split_content c offset = bind_r (advance_content c offset) (\<lambda>right. Inr (c, right))"

section \<open>Fades\<close>

definition split_fade_in :: "fade \<Rightarrow> nat \<Rightarrow> fade option \<times> fade option" where
  "split_fade_in f left_len =
     (if fa_duration f \<le> left_len then (Some f, None)
      else let fraction = f64_div (f64_of_u64 left_len) (f64_of_u64 (fa_duration f));
               phase = lerp (fa_phase_start f) (fa_phase_end f) fraction
           in (Some (f\<lparr>fa_duration := left_len, fa_phase_end := phase\<rparr>),
               Some (f\<lparr>fa_duration := fa_duration f - left_len, fa_phase_start := phase\<rparr>)))"

text \<open>\<open>total - left_len\<close> is below the duration in the last case, so no subtraction there underflows.\<close>

definition split_fade_out :: "fade \<Rightarrow> nat \<Rightarrow> nat \<Rightarrow> (fade option \<times> fade option) edit_result" where
  "split_fade_out f extent left_len =
     (if extent < fa_duration f then panics
      else let fade_start = extent - fa_duration f
           in if left_len \<le> fade_start then Inr (None, Some f)
              else let elapsed = left_len - fade_start;
                       fraction = f64_div (f64_of_u64 elapsed) (f64_of_u64 (fa_duration f));
                       phase = lerp (fa_phase_start f) (fa_phase_end f) fraction
                   in Inr (Some (f\<lparr>fa_duration := fa_duration f - (extent - left_len), fa_phase_end := phase\<rparr>),
                           Some (f\<lparr>fa_duration := extent - left_len, fa_phase_start := phase\<rparr>)))"

definition split_fades :: "clip_fades \<Rightarrow> nat \<Rightarrow> nat \<Rightarrow> (clip_fades \<times> clip_fades) edit_result" where
  "split_fades fades extent left_len =
     (if extent < left_len then panics
      else let (left_in, right_in) =
                 (case cf_in fades of None \<Rightarrow> (None, None) | Some f \<Rightarrow> split_fade_in f left_len)
           in bind_r (case cf_out fades of None \<Rightarrow> Inr (None, None) | Some f \<Rightarrow> split_fade_out f extent left_len)
                (\<lambda>(left_out, right_out).
                   Inr (\<lparr>cf_in = left_in, cf_out = left_out\<rparr>, \<lparr>cf_in = right_in, cf_out = right_out\<rparr>)))"

definition trim_fades_left :: "clip_fades \<Rightarrow> nat \<Rightarrow> nat \<Rightarrow> clip_fades edit_result" where
  "trim_fades_left fades extent removed = bind_r (split_fades fades extent removed) (\<lambda>(l, r). Inr r)"

definition trim_fades_right :: "clip_fades \<Rightarrow> nat \<Rightarrow> nat \<Rightarrow> clip_fades edit_result" where
  "trim_fades_right fades extent removed =
     (if extent < removed then panics
      else bind_r (split_fades fades extent (extent - removed)) (\<lambda>(l, r). Inr l))"

definition clamp_fades :: "clip_fades \<Rightarrow> nat \<Rightarrow> clip_fades" where
  "clamp_fades fades len =
     \<lparr>cf_in = map_option (\<lambda>f. f\<lparr>fa_duration := min (fa_duration f) len\<rparr>) (cf_in fades),
      cf_out = map_option (\<lambda>f. f\<lparr>fa_duration := min (fa_duration f) len\<rparr>) (cf_out fades)\<rparr>"

text \<open>\<open>f64::clamp\<close>, and the gain of a fade curve; \<open>f64::sin\<close> has no specified precision.\<close>

definition f64_clamp :: "f64 \<Rightarrow> f64 \<Rightarrow> f64 \<Rightarrow> f64" where
  "f64_clamp x lo hi =
     (if f64_le x lo \<and> \<not> f64_le lo x then lo else if f64_le hi x \<and> \<not> f64_le x hi then hi else x)"

definition fade_curve_gain :: "(f64 \<Rightarrow> f64) \<Rightarrow> fade_curve \<Rightarrow> f64 \<Rightarrow> f64" where
  "fade_curve_gain sine curve phase =
     (let phase = f64_clamp phase f64_zero f64_one
      in case curve of
           LinearFade \<Rightarrow> phase
         | EqualPowerFade \<Rightarrow> sine (f64_mul phase 0x3ff921fb54442d18)
         | SmoothStepFade \<Rightarrow> f64_mul (f64_mul phase phase)
             (f64_sub 0x4008000000000000 (f64_mul 0x4000000000000000 phase)))"

definition fade_gain_at :: "(f64 \<Rightarrow> f64) \<Rightarrow> ar_clip \<Rightarrow> nat \<Rightarrow> f64 option edit_result" where
  "fade_gain_at sine c offset =
     (let len = frame_range_len (ac_placement c)
      in if len < offset then Inr None
         else
           let gain =
             (case cf_in (ac_fades c) of
                None \<Rightarrow> f64_one
              | Some f \<Rightarrow>
                  if offset \<le> fa_duration f then
                    let amount = f64_div (f64_of_u64 offset) (f64_of_u64 (fa_duration f));
                        phase = lerp (fa_phase_start f) (fa_phase_end f) amount
                    in f64_mul f64_one (fade_curve_gain sine (fa_curve f) phase)
                  else f64_one)
           in (case cf_out (ac_fades c) of
                 None \<Rightarrow> Inr (Some (f64_clamp gain f64_zero f64_one))
               | Some f \<Rightarrow>
                   if len < fa_duration f then panics
                   else
                     let fade_start = len - fa_duration f
                     in if fade_start \<le> offset then
                          let amount = f64_div (f64_of_u64 (offset - fade_start)) (f64_of_u64 (fa_duration f));
                              phase = lerp (fa_phase_start f) (fa_phase_end f) amount
                          in Inr (Some (f64_clamp (f64_mul gain
                                (f64_sub f64_one (fade_curve_gain sine (fa_curve f) phase))) f64_zero f64_one))
                        else Inr (Some (f64_clamp gain f64_zero f64_one))))"

section \<open>What a clip plays\<close>

text \<open>
  The content position under an offset from the start of the clip: for audio the source frame,
  scaled by the denominator of the stretch ratio so that it is exact between source frames.
\<close>

fun content_position :: "clip_content \<Rightarrow> int \<Rightarrow> int" where
  "content_position (AudioContent a) k =
     (let ratio = pb_ratio (au_playback a)
      in if pb_reverse (au_playback a)
         then int (so_end (au_source a)) * int (ra_project ratio) - k * int (ra_source ratio)
         else int (so_start (au_source a)) * int (ra_project ratio) + k * int (ra_source ratio))"
| "content_position (PatternContent p) k = int (pr_content_offset p) + k"
| "content_position (AutomationContent p) k = int (mr_content_offset p) + k"

definition clip_position :: "ar_clip \<Rightarrow> frame \<Rightarrow> int" where
  "clip_position c p = content_position (ac_content c) (p - fr_start (ac_placement c))"

lemma ratio_source_offset_int:
  "ratio_source_offset r n = Inr k \<Longrightarrow> int n * int (ra_source r) = int k * int (ra_project r)"
  by (simp add: ratio_source_offset_Inr flip: of_nat_mult)

lemma checked_source_Inr [result_simps]:
  "checked_sub_source a b = Inr c \<longleftrightarrow> b \<le> a \<and> c = a - b"
  "checked_add_source a b = Inr c \<longleftrightarrow> a + b \<le> u64_max \<and> c = a + b"
  "add_signed_u64 v d = Inr c \<longleftrightarrow> 0 \<le> int v + d \<and> int v + d \<le> int u64_max \<and> c = nat (int v + d)"
  by (auto simp: checked_sub_source_def checked_add_source_def add_signed_u64_def Let_def)

lemma advance_position:
  assumes "advance_content c d = Inr c'"
  shows "content_position c' k = content_position c (k + int d)"
proof (cases c)
  case (AudioContent a)
  with assms obtain n where n: "ratio_source_offset (pb_ratio (au_playback a)) d = Inr n"
    and c': "c' = AudioContent (if pb_reverse (au_playback a)
        then a\<lparr>au_source := (au_source a)\<lparr>so_end := so_end (au_source a) - n\<rparr>\<rparr>
        else a\<lparr>au_source := (au_source a)\<lparr>so_start := so_start (au_source a) + n\<rparr>\<rparr>)"
    and le: "pb_reverse (au_playback a) \<longrightarrow> n \<le> so_end (au_source a)"
    by (auto simp: advance_audio_def result_simps split: if_splits)
  from ratio_source_offset_int[OF n] AudioContent le show ?thesis
    by (simp add: c' Let_def of_nat_diff algebra_simps)
qed (use assms in \<open>auto simp: result_simps\<close>)

lemma retreat_position:
  assumes "retreat_content_end c d = Inr c'"
  shows "content_position c' k = content_position c k"
proof (cases c)
  case (AudioContent a)
  with assms show ?thesis
    by (cases "pb_reverse (au_playback a)") (auto simp: result_simps Let_def split: if_splits)
qed (use assms in auto)

text \<open>A slip moves the source window; under a reversed clip the content moves the other way.\<close>

definition content_direction :: "clip_content \<Rightarrow> int" where
  "content_direction c =
     (case c of AudioContent a \<Rightarrow> if pb_reverse (au_playback a) then - 1 else 1 | _ \<Rightarrow> 1)"

lemma slip_position:
  assumes "slip_content c d = Inr c'" "content_ok len c"
  shows "content_position c' k = content_position c (k + content_direction c * d)"
proof (cases c)
  case (AudioContent a)
  let ?r = "pb_ratio (au_playback a)" and ?s = "so_start (au_source a)" and ?e = "so_end (au_source a)"
  obtain n v where n: "ratio_source_offset ?r (nat \<bar>d\<bar>) = Inr n"
    and v: "v = int n * (if d < 0 then - 1 else 1)"
    and c': "c' = AudioContent (a\<lparr>au_source := \<lparr>so_start = nat ((int ?s + v) mod 2 ^ 64),
        so_end = nat ((int ?e + v) mod 2 ^ 64)\<rparr>\<rparr>)"
    and bounds: "0 \<le> int ?s + v" "int ?e + v \<le> int u64_max"
    using assms(1) AudioContent by (auto simp: result_simps Let_def split: if_splits)
  have "?s \<le> ?e" using assms(2) AudioContent by (simp add: audio_ok_def Let_def)
  then have "(int ?s + v) mod 2 ^ 64 = int ?s + v" "(int ?e + v) mod 2 ^ 64 = int ?e + v" "0 \<le> int ?e + v"
    using bounds by (auto simp: u64_max_def intro!: mod_pos_pos_trivial)
  then obtain s' e' where c'': "c' = AudioContent (a\<lparr>au_source := \<lparr>so_start = s', so_end = e'\<rparr>\<rparr>)"
    and ends: "int s' = int ?s + v" "int e' = int ?e + v"
    using bounds(1) c' by (metis nat_0_le)
  have "\<bar>d\<bar> * int (ra_source ?r) = int n * int (ra_project ?r)"
    using ratio_source_offset_int[OF n] by simp
  then have "v * int (ra_project ?r) = d * int (ra_source ?r)"
    by (auto simp: v abs_if split: if_splits)
  with AudioContent show ?thesis
    by (simp add: c'' Let_def content_direction_def ends algebra_simps)
qed (use assms in \<open>auto simp: result_simps content_direction_def\<close>)

lemma split_position:
  assumes "split_content c d = Inr (l, r)"
  shows "content_position l k = content_position c k"
    and "content_position r k = content_position c (k + int d)"
proof -
  show "content_position l k = content_position c k"
  proof (cases c)
    case (AudioContent a)
    with assms show ?thesis
      by (cases "pb_reverse (au_playback a)") (auto simp: result_simps Let_def split: if_splits)
  qed (use assms in \<open>auto simp: result_simps\<close>)
  show "content_position r k = content_position c (k + int d)"
  proof (cases c)
    case (AudioContent a)
    with assms obtain n where n: "ratio_source_offset (pb_ratio (au_playback a)) d = Inr n"
      and r: "r = AudioContent (if pb_reverse (au_playback a)
          then a\<lparr>au_source := (au_source a)\<lparr>so_end := so_end (au_source a) - n\<rparr>\<rparr>
          else a\<lparr>au_source := (au_source a)\<lparr>so_start := so_start (au_source a) + n\<rparr>\<rparr>)"
      and le: "pb_reverse (au_playback a) \<longrightarrow> n \<le> so_end (au_source a)"
      by (auto simp: result_simps Let_def split: if_splits)
    from ratio_source_offset_int[OF n] AudioContent le show ?thesis
      by (simp add: r Let_def of_nat_diff algebra_simps)
  qed (use assms advance_position in \<open>auto simp: result_simps\<close>)
qed

text \<open>
  What the halves of a split share with the clip: the same asset, playback, channels, loop mode,
  pattern or parameter, and source ranges that meet and together are the one of the clip; a fade
  that reaches over the cut is cut in two, any other one goes to the half it lies in.
\<close>

fun content_parts :: "clip_content \<Rightarrow> clip_content \<Rightarrow> clip_content \<Rightarrow> bool" where
  "content_parts (AudioContent a) (AudioContent l) (AudioContent r) \<longleftrightarrow>
     l = a\<lparr>au_source := au_source l\<rparr> \<and> r = a\<lparr>au_source := au_source r\<rparr>
     \<and> (let (first, second) = (if pb_reverse (au_playback a) then (r, l) else (l, r))
        in so_start (au_source first) = so_start (au_source a)
           \<and> so_end (au_source first) = so_start (au_source second)
           \<and> so_end (au_source second) = so_end (au_source a))"
| "content_parts (PatternContent a) (PatternContent l) (PatternContent r) \<longleftrightarrow>
     l = a \<and> r = a\<lparr>pr_content_offset := pr_content_offset r\<rparr>"
| "content_parts (AutomationContent a) (AutomationContent l) (AutomationContent r) \<longleftrightarrow>
     l = a \<and> r = a\<lparr>mr_content_offset := mr_content_offset r\<rparr>"
| "content_parts _ _ _ \<longleftrightarrow> False"

fun fade_parts :: "fade option \<Rightarrow> fade option \<Rightarrow> fade option \<Rightarrow> bool" where
  "fade_parts (Some f) (Some l) (Some r) \<longleftrightarrow>
     fa_duration l + fa_duration r = fa_duration f \<and> fa_curve l = fa_curve f \<and> fa_curve r = fa_curve f
     \<and> fa_phase_start l = fa_phase_start f \<and> fa_phase_end l = fa_phase_start r
     \<and> fa_phase_end r = fa_phase_end f"
| "fade_parts f l r \<longleftrightarrow> (l = f \<and> r = None) \<or> (l = None \<and> r = f)"

lemma split_content_parts: "split_content c d = Inr (l, r) \<Longrightarrow> content_parts c l r"
proof (cases c)
  case (AudioContent a)
  assume "split_content c d = Inr (l, r)"
  with AudioContent show ?thesis
    by (cases "pb_reverse (au_playback a)") (auto simp: result_simps Let_def split: if_splits)
qed (auto simp: result_simps)

lemma split_fades_parts:
  assumes "split_fades fs extent d = Inr (l, r)"
  shows "fade_parts (cf_in fs) (cf_in l) (cf_in r)" "fade_parts (cf_out fs) (cf_out l) (cf_out r)"
  using assms
  by (cases "cf_in fs"; cases "cf_out fs";
      auto simp: split_fades_def split_fade_in_def split_fade_out_def Let_def split: if_splits)+

section \<open>No panic on valid clips\<close>

lemma ratio_no_panic: "0 < ra_project r \<Longrightarrow> ratio_source_offset r n \<noteq> panics"
  by (simp add: ratio_source_offset_def Let_def)

lemma advance_content_no_panic: "content_ok len c \<Longrightarrow> advance_content c d \<noteq> panics"
  by (cases c) (auto simp: audio_ok_def Let_def advance_audio_def reject_warped_def bind_r_def then_r_def
      fail_if_def checked_sub_source_def checked_add_source_def source_range_len_def ratio_source_offset_def
      split: sum.splits)

lemma retreat_no_panic: "content_ok len c \<Longrightarrow> retreat_content_end c d \<noteq> panics"
  by (cases c) (auto simp: audio_ok_def Let_def reject_warped_def bind_r_def then_r_def
      fail_if_def checked_sub_source_def checked_add_source_def source_range_len_def ratio_source_offset_def
      split: sum.splits)

lemma slip_no_panic: "content_ok len c \<Longrightarrow> slip_content c d \<noteq> panics"
  by (cases c) (auto simp: audio_ok_def Let_def reject_warped_def bind_r_def then_r_def
      fail_if_def add_signed_u64_def ratio_source_offset_def split: sum.splits)

text \<open>Inside the clip, the boundary of a split lies inside the source range.\<close>

lemma audio_offset_le:
  assumes "audio_ok len a" "ratio_source_offset (pb_ratio (au_playback a)) d = Inr n" "d \<le> len"
  shows "n \<le> so_end (au_source a) - so_start (au_source a)"
proof -
  let ?r = "pb_ratio (au_playback a)"
  have "n * ra_project ?r = d * ra_source ?r" "0 < ra_project ?r"
    using assms(2) by (simp_all add: ratio_source_offset_Inr)
  moreover have "d * ra_source ?r \<le> (so_end (au_source a) - so_start (au_source a)) * ra_project ?r"
    using assms(1,3) by (metis audio_ok_def mult_le_mono1)
  ultimately show ?thesis by (metis mult_le_cancel2)
qed

lemma split_no_panic:
  assumes "content_ok len c" "d \<le> len"
    and "\<And>a. c = AudioContent a \<Longrightarrow> so_end (au_source a) \<le> u64_max"
  shows "split_content c d \<noteq> panics"
proof (cases c)
  case (AudioContent a)
  with assms(1) have ok: "audio_ok len a" by simp
  show ?thesis
  proof (cases "ratio_source_offset (pb_ratio (au_playback a)) d")
    case (Inl f)
    with ratio_no_panic[of "pb_ratio (au_playback a)" d] ok AudioContent show ?thesis
      by (auto simp: reject_warped_def then_r_def fail_if_def bind_r_def audio_ok_def Let_def)
  next
    case (Inr n)
    from audio_offset_le[OF ok Inr assms(2)] ok assms(3)[OF AudioContent]
    show ?thesis
      by (auto simp: AudioContent Inr reject_warped_def then_r_def fail_if_def audio_ok_def Let_def)
  qed
qed (auto simp: bind_r_def checked_add_source_def)

lemma split_fades_no_panic:
  assumes "fades_ok extent fs" "left_len \<le> extent"
  shows "\<exists>l r. split_fades fs extent left_len = Inr (l, r)"
proof -
  have "\<exists>l r. split_fade_out f extent left_len = Inr (l, r)" if "cf_out fs = Some f" for f
    using assms(1) that by (auto simp: fades_ok_def fade_ok_def split_fade_out_def Let_def)
  then have "\<exists>l r. (case cf_out fs of None \<Rightarrow> Inr (None, None)
      | Some f \<Rightarrow> split_fade_out f extent left_len) = Inr (l, r)"
    by (cases "cf_out fs") auto
  with assms(2) show ?thesis
    by (auto simp: split_fades_def Let_def split: prod.split)
qed

end
