(* ===== verification/Arrangement_Index.thy ===== *)
theory Arrangement_Index
  imports Arrangement_Validity "HOL-Library.Multiset"
begin

text \<open>
  \<open>normalize_indexes\<close>: it cannot panic when every clip is stored under its own identifier, it
  rewrites only the order of the tracks and their clip indexes, it depends on the maps only up
  to \<open>PartialEq\<close>, and an arrangement with integrity is already normalized.
\<close>

definition index_of_track :: "(ar_clip_id, ar_clip) btree \<Rightarrow> ar_track_id \<Rightarrow> ar_clip_id list" where
  "index_of_track clips i = sort_key (clip_sort_key clips) (clips_of_track clips i)"

definition reindex :: "(ar_clip_id, ar_clip) btree \<Rightarrow> ar_track \<Rightarrow> ar_track" where
  "reindex clips t = t\<lparr>at_clip_ids := index_of_track clips (at_id t)\<rparr>"

definition index_panics :: "(ar_clip_id, ar_clip) btree \<Rightarrow> ar_track_id \<Rightarrow> bool" where
  "index_panics clips i \<longleftrightarrow> 2 \<le> length (clips_of_track clips i)
     \<and> (\<exists>j \<in> set (clips_of_track clips i). bt_get clips j = None)"

lemma clip_index_eq:
  "clip_index clips i = (if index_panics clips i then panics else Inr (index_of_track clips i))"
  by (simp add: clip_index_def index_panics_def index_of_track_def Let_def list_ex_iff bt_contains_def)

lemma index_tracks_eq:
  "index_tracks clips ts =
     (if \<exists>t \<in> set (bt_values ts). index_panics clips (at_id t) then panics
      else Inr (bt_map (\<lambda>_. reindex clips) ts))"
  by (induction clips ts rule: index_tracks.induct)
    (auto simp: clip_index_eq bt_map_def bt_values_def reindex_def)

lemma normalize_indexes_eq:
  "normalize_indexes s =
     (if \<exists>t \<in> set (bt_values (as_tracks s)). index_panics (as_clips s) (at_id t) then panics
      else Inr (s\<lparr>as_track_order := normalize_order (bt_keys (as_tracks s)) (as_track_order s),
                  as_tracks := bt_map (\<lambda>_. reindex (as_clips s)) (as_tracks s)\<rparr>))"
  by (simp add: normalize_indexes_def index_tracks_eq)

definition clips_keyed :: "(ar_clip_id, ar_clip) btree \<Rightarrow> bool" where
  "clips_keyed clips \<longleftrightarrow> bt_ok clips \<and> (\<forall>i c. bt_get clips i = Some c \<longrightarrow> ac_id c = i)"

lemma keyed_no_panic: "clips_keyed clips \<Longrightarrow> \<not> index_panics clips i"
  unfolding index_panics_def clips_keyed_def using clips_of_track_keyed by fastforce

lemma normalize_keyed:
  assumes "clips_keyed (as_clips s)"
  shows "normalize_indexes s =
    Inr (s\<lparr>as_track_order := normalize_order (bt_keys (as_tracks s)) (as_track_order s),
           as_tracks := bt_map (\<lambda>_. reindex (as_clips s)) (as_tracks s)\<rparr>)"
  using keyed_no_panic[OF assms] by (simp add: normalize_indexes_eq)

lemma normalize_Inr:
  assumes "normalize_indexes s = Inr t"
  shows "t = s\<lparr>as_track_order := normalize_order (bt_keys (as_tracks s)) (as_track_order s),
              as_tracks := bt_map (\<lambda>_. reindex (as_clips s)) (as_tracks s)\<rparr>"
  using assms by (auto simp: normalize_indexes_eq split: if_splits)

section \<open>The order of the tracks\<close>

lemma set_retain_first: "set (retain_first known seen order) = set known \<inter> set order - set seen"
  by (induction known seen order rule: retain_first.induct) auto

lemma distinct_retain_first: "distinct (retain_first known seen order)"
  by (induction known seen order rule: retain_first.induct) (auto simp: set_retain_first)

lemma retain_first_id:
  "distinct order \<Longrightarrow> set order \<subseteq> set known \<Longrightarrow> set order \<inter> set seen = {}
     \<Longrightarrow> retain_first known seen order = order"
  by (induction known seen order rule: retain_first.induct) auto

lemma set_normalize_order [simp]: "set (normalize_order known order) = set known"
  by (auto simp: normalize_order_def Let_def set_retain_first)

lemma distinct_normalize_order: "distinct known \<Longrightarrow> distinct (normalize_order known order)"
  by (auto simp: normalize_order_def Let_def distinct_retain_first)

lemma normalize_order_id:
  assumes "distinct order" "set order = set known"
  shows "normalize_order known order = order"
proof -
  have "retain_first known [] order = order"
    by (rule retain_first_id) (use assms in auto)
  with assms(2) show ?thesis by (simp add: normalize_order_def)
qed

lemma normalize_order_cong:
  assumes "set known = set known'"
  shows "retain_first known seen order = retain_first known' seen order"
  using assms by (induction known seen order rule: retain_first.induct) auto

section \<open>The clip index of a track\<close>

lemma sort_key_on_keyed:
  assumes "clips_keyed clips" "bt_get clips j = Some c"
  shows "clip_sort_key clips j = (fr_start (ac_placement c), j)"
  using assms by (simp add: clip_sort_key_def clips_keyed_def)

lemma distinct_clips_of_track:
  assumes "clips_keyed clips"
  shows "distinct (clips_of_track clips i)"
proof -
  have "map ac_id (bt_values clips) = map fst clips"
    unfolding bt_values_def map_map
  proof (rule map_cong[OF refl])
    fix e assume e: "e \<in> set clips"
    then have "bt_get clips (fst e) = Some (snd e)"
      using assms by (simp add: clips_keyed_def bt_get_iff)
    then show "(ac_id \<circ> snd) e = fst e" using assms by (simp add: clips_keyed_def)
  qed
  then have "distinct (map ac_id (bt_values clips))"
    using assms by (simp add: clips_keyed_def bt_ok_distinct)
  then show ?thesis
    unfolding clips_of_track_def by (rule distinct_map_filter)
qed

text \<open>An index with the right clips in the right order is the one normalization computes.\<close>

lemma follows_transp: "transp (\<lambda>a b. (fr_start (ac_placement a), ac_id a) \<le> (fr_start (ac_placement b), ac_id b))"
  by (rule transpI) (auto)

lemma successively_weaken:
  "successively P xs \<Longrightarrow> (\<And>x y. P x y \<Longrightarrow> Q x y) \<Longrightarrow> successively Q xs"
  by (induction xs rule: induct_list012) auto

lemma track_ok_index:
  assumes "clips_keyed clips" "track_ok clips i t"
  shows "at_clip_ids t = index_of_track clips i"
proof -
  let ?js = "at_clip_ids t" and ?k = "clip_sort_key clips"
  have mem: "j \<in> set ?js \<longleftrightarrow> (\<exists>c. bt_get clips j = Some c \<and> ac_track_id c = i)" for j
    using assms(2) by (simp add: track_ok_def)
  have "set (clips_of_track clips i) = set ?js"
    using clips_of_track_keyed[of clips] assms(1) mem by (auto simp: clips_keyed_def)
  moreover have "distinct ?js" using assms(2) by (simp add: track_ok_def)
  ultimately have mset: "mset (clips_of_track clips i) = mset ?js"
    using distinct_clips_of_track[OF assms(1)] set_eq_iff_mset_eq_distinct by blast
  have key: "?k j = (fr_start (ac_placement (the (bt_get clips j))), j)"
    "ac_id (the (bt_get clips j)) = j" if "j \<in> set ?js" for j
    using that mem sort_key_on_keyed[OF assms(1)] assms(1) by (auto simp: clips_keyed_def)
  have inj: "inj_on ?k (set (clips_of_track clips i))"
    using key unfolding \<open>set (clips_of_track clips i) = set ?js\<close> by (auto intro: inj_onI)
  have "successively (\<lambda>a b. (fr_start (ac_placement a), ac_id a) \<le> (fr_start (ac_placement b), ac_id b))
      (indexed_clips clips ?js)"
    by (rule successively_weaken[of "clip_follows (at_overlap t)"])
      (use assms(2) in \<open>simp_all add: track_ok_def clip_follows_def\<close>)
  then have "sorted_wrt (\<lambda>a b. (fr_start (ac_placement a), ac_id a) \<le> (fr_start (ac_placement b), ac_id b))
      (indexed_clips clips ?js)"
    by (rule iffD1[OF successively_conv_sorted_wrt[OF follows_transp]])
  then have "sorted (map ?k ?js)"
    unfolding indexed_clips_def sorted_wrt_map
    by (rule sorted_wrt_mono_rel[rotated]) (simp add: key)
  with mset inj show ?thesis
    unfolding index_of_track_def by (simp add: sort_key_inj_key_eq)
qed

lemma integrity_keyed: "arr_wf s \<Longrightarrow> arr_integrity s \<Longrightarrow> clips_keyed (as_clips s)"
  by (auto simp: arr_integrity_def clips_keyed_def wf_simps clip_ok_def)

lemma reindex_id: "at_clip_ids t = index_of_track clips (at_id t) \<Longrightarrow> reindex clips t = t"
  by (simp add: reindex_def)

lemma integrity_reindex:
  assumes "arr_wf s" "arr_integrity s" "bt_get (as_tracks s) i = Some t"
  shows "reindex (as_clips s) t = t" "at_clip_ids t = index_of_track (as_clips s) (at_id t)"
proof -
  have ok: "track_ok (as_clips s) i t" using assms by (simp add: arr_integrity_def)
  then have "at_id t = i" unfolding track_ok_def by blast
  with track_ok_index[OF integrity_keyed[OF assms(1,2)] ok]
  show "at_clip_ids t = index_of_track (as_clips s) (at_id t)" by simp
  then show "reindex (as_clips s) t = t" by (rule reindex_id)
qed

lemma bt_map_id:
  assumes "bt_ok m" "\<And>k v. bt_get m k = Some v \<Longrightarrow> f v = v"
  shows "bt_map (\<lambda>_. f) m = m"
proof (rule bt_eqI)
  show "bt_get (bt_map (\<lambda>_. f) m) k = bt_get m k" for k
    using assms(2) by (cases "bt_get m k") auto
qed (use assms(1) in simp_all)

lemma integrity_normalized:
  assumes "arr_wf s" "arr_integrity s"
  shows "normalize_indexes s = Inr s"
proof -
  have "bt_map (\<lambda>_. reindex (as_clips s)) (as_tracks s) = as_tracks s"
    using assms integrity_reindex(1) by (intro bt_map_id) (auto simp: wf_simps)
  moreover have "normalize_order (bt_keys (as_tracks s)) (as_track_order s) = as_track_order s"
    using assms(2) by (intro normalize_order_id) (simp_all add: arr_integrity_def)
  ultimately show ?thesis
    using normalize_keyed[OF integrity_keyed[OF assms]] by simp
qed

section \<open>Normalization up to \<open>PartialEq\<close>\<close>

lemma filter_values_canon:
  "filter (\<lambda>c. ac_track_id c = i) (bt_values (canon_clips clips))
     = map clip_canon (filter (\<lambda>c. ac_track_id c = i) (bt_values clips))"
  by (induction clips) (auto simp: bt_values_def bt_map_def)

lemma clips_of_track_canon [simp]: "clips_of_track (canon_clips clips) i = clips_of_track clips i"
  by (simp add: clips_of_track_def filter_values_canon comp_def)

lemma clip_sort_key_canon [simp]: "clip_sort_key (canon_clips clips) = clip_sort_key clips"
  by (rule ext) (simp add: clip_sort_key_def split: option.splits)

lemma index_of_track_canon [simp]: "index_of_track (canon_clips clips) i = index_of_track clips i"
  by (simp add: index_of_track_def)

lemma index_panics_canon [simp]: "index_panics (canon_clips clips) i = index_panics clips i"
  by (simp add: index_panics_def)

lemma index_cong:
  assumes "same_entries clip_canon cs ds"
  shows "index_of_track cs = index_of_track ds" "index_panics cs = index_panics ds"
    "reindex cs = reindex ds"
proof -
  have eq: "canon_clips cs = canon_clips ds"
    using assms by (simp add: same_entries_def)
  show panics: "index_panics cs = index_panics ds"
    by (rule ext) (use eq index_panics_canon in metis)
  show "index_of_track cs = index_of_track ds"
    by (rule ext) (use eq index_of_track_canon in metis)
  then show "reindex cs = reindex ds" by (simp add: reindex_def fun_eq_iff)
qed

lemma reindex_canon: "track_canon (reindex clips t) = reindex clips (track_canon t)"
  by (simp add: track_canon_def reindex_def)

lemma bt_map_map: "bt_map (\<lambda>_. f) (bt_map (\<lambda>_. g) m) = bt_map (\<lambda>_. f \<circ> g) m"
  by (induction m) (auto simp: bt_map_def)

lemma values_ids_canon: "at_id ` set (bt_values (canon_tracks ts)) = at_id ` set (bt_values ts)"
  by (auto simp: bt_values_def bt_map_def image_iff) force+

lemma normalize_cong:
  assumes "same_content s s'" "normalize_indexes s = Inr t"
  shows "\<exists>t'. normalize_indexes s' = Inr t' \<and> same_content t t'"
proof -
  have tracks: "canon_tracks (as_tracks s) = canon_tracks (as_tracks s')"
    and clips: "same_entries clip_canon (as_clips s) (as_clips s')"
    and keys: "bt_keys (as_tracks s) = bt_keys (as_tracks s')"
    using assms(1) same_entries_keys unfolding same_content_def same_entries_def by blast+
  note idx = index_cong[OF clips]
  have ids: "at_id ` set (bt_values (as_tracks s)) = at_id ` set (bt_values (as_tracks s'))"
    using values_ids_canon tracks by metis
  have "\<not> (\<exists>t \<in> set (bt_values (as_tracks s)). index_panics (as_clips s) (at_id t))"
    using assms(2) by (auto simp: normalize_indexes_eq split: if_splits)
  then have "\<not> (\<exists>t \<in> set (bt_values (as_tracks s')). index_panics (as_clips s') (at_id t))"
    using ids idx(2) by (metis image_iff)
  then obtain t' where t': "normalize_indexes s' = Inr t'"
    "t' = s'\<lparr>as_track_order := normalize_order (bt_keys (as_tracks s')) (as_track_order s'),
             as_tracks := bt_map (\<lambda>_. reindex (as_clips s')) (as_tracks s')\<rparr>"
    by (simp add: normalize_indexes_eq)
  have "canon_tracks (bt_map (\<lambda>_. reindex cs) ts) = bt_map (\<lambda>_. reindex cs) (canon_tracks ts)" for cs ts
    by (simp add: bt_map_map comp_def reindex_canon)
  then have "same_entries track_canon (bt_map (\<lambda>_. reindex (as_clips s)) (as_tracks s))
      (bt_map (\<lambda>_. reindex (as_clips s')) (as_tracks s'))"
    by (simp add: same_entries_def tracks idx(3))
  with assms(1) t' normalize_Inr[OF assms(2)] keys show ?thesis
    by (simp add: same_content_def)
qed

end
