(* ===== verification/Arrangement_Reversal.thy ===== *)
theory Arrangement_Reversal
  imports Arrangement_Index History
begin

text \<open>
  Batches and their inverses. A batch runs its operations on a clone and normalizes the derived
  indexes once at the end, while the inverse batch starts from the normalized state: an inverse
  that expects a track with the index it had before normalization finds it stale. The lemmas are
  about the batches that are free of this effect, the settled ones; they form an instance of the
  contract \<open>reversible\<close> on which the editor's undo history rests.
\<close>

definition arr_sound :: "arr_state \<Rightarrow> bool" where
  "arr_sound s \<longleftrightarrow> sound_entries ar_track_eq at_id (as_tracks s)
     \<and> sound_entries ar_clip_eq ac_id (as_clips s)"

definition ids_bounded :: "arr_state \<Rightarrow> bool" where
  "ids_bounded s \<longleftrightarrow> ids_below (as_next_track_id s) (as_tracks s)
     \<and> ids_below (as_next_clip_id s) (as_clips s)"

definition arr_good :: "arr_state \<Rightarrow> bool" where
  "arr_good s \<longleftrightarrow> arr_wf s \<and> arr_integrity s
     \<and> as_next_track_id s \<le> u64_max \<and> as_next_clip_id s \<le> u64_max"

lemma finite_db: "valid_db g \<Longrightarrow> f32_eq g g" "valid_pan p \<Longrightarrow> f32_eq p p"
  by (simp_all add: valid_db_def valid_pan_def f32_eq_refl_iff f32_le_def)

lemma fades_ok_refl: "fades_ok len fs \<Longrightarrow> clip_fades_eq fs fs"
  by (cases "cf_in fs"; cases "cf_out fs")
    (auto simp: clip_fades_eq_def fades_ok_def fade_eq_def fade_ok_def f64_eq_def dest: f64_zero_props)

lemma content_ok_refl: "content_ok len c \<Longrightarrow> clip_content_eq c c"
  by (cases c) (auto simp: audio_ok_def audio_region_eq_def playback_eq_def f64_eq_def Let_def
      dest: f64_zero_props)

lemma track_ok_sound: "track_ok cs i t \<Longrightarrow> at_id t = i \<and> ar_track_eq t t"
  by (simp add: track_ok_def ar_track_eq_def finite_db)

lemma clip_ok_sound: "clip_ok ts i c \<Longrightarrow> ac_id c = i \<and> ar_clip_eq c c"
  using fades_ok_refl content_ok_refl by (auto simp: clip_ok_def ar_clip_eq_def finite_db)

lemma good_sound: "arr_good s \<Longrightarrow> arr_sound s"
  unfolding arr_good_def arr_integrity_def arr_sound_def sound_entries_def
  using track_ok_sound clip_ok_sound by blast

lemma good_ids: "arr_good s \<Longrightarrow> ids_bounded s"
  by (auto simp: arr_good_def arr_integrity_def counters_ok_def ids_bounded_def ids_below_def)

section \<open>One operation\<close>

lemma bind_pair_Inr: "bind_r m (\<lambda>(a, b). Inr (f a b)) = Inr t \<longleftrightarrow> (\<exists>a b. m = Inr (a, b) \<and> t = f a b)"
  by (auto simp: bind_r_eq_Inr)

lemma operation_wf: "operation_apply op s = Inr t \<Longrightarrow> arr_wf s \<Longrightarrow> arr_wf t"
  by (cases op) (auto simp: bind_pair_Inr wf_simps put_entity_ok split: if_splits option.splits)

lemma operation_bounded:
  "operation_apply op s = Inr t \<Longrightarrow> ids_bounded s \<Longrightarrow> ids_bounded t
     \<and> as_next_track_id s \<le> as_next_track_id t \<and> as_next_clip_id s \<le> as_next_clip_id t"
  by (cases op) (auto simp: bind_pair_Inr ids_bounded_def split: if_splits
      dest: track_entity.put_ids_below clip_entity.put_ids_below)

lemma operation_sound_back: "operation_apply op s = Inr t \<Longrightarrow> arr_sound t \<Longrightarrow> arr_sound s"
  by (cases op) (auto simp: bind_pair_Inr arr_sound_def split: if_splits
      dest: track_entity.put_sound_back(1) clip_entity.put_sound_back(1))

lemma operation_cong:
  assumes "same_content s s'" "operation_apply op s = Inr t"
  shows "\<exists>t'. operation_apply op s' = Inr t' \<and> same_content t t'"
proof (cases op)
  case (PutTrack b a)
  with assms track_entity.put_cong[of "as_tracks s" "as_tracks s'"] show ?thesis
    by (fastforce simp: bind_pair_Inr same_content_def)
next
  case (PutClip b a)
  with assms clip_entity.put_cong[of "as_clips s" "as_clips s'"] show ?thesis
    by (fastforce simp: bind_pair_Inr same_content_def)
qed (use assms in \<open>auto simp: same_content_def split: if_splits option.splits\<close>)

lemma operation_rate: "operation_apply op s = Inr t \<Longrightarrow>
    as_sample_rate t = as_sample_rate s \<and> as_schema_version t = as_schema_version s"
  by (cases op) (auto simp: bind_pair_Inr split: if_splits)

section \<open>A list of operations\<close>

abbreviation apply_all :: "arr_operation list \<Rightarrow> arr_state \<Rightarrow> arr_state edit_result" where
  "apply_all \<equiv> fold_r operation_apply"

lemma all_wf: "apply_all ops s = Inr t \<Longrightarrow> arr_wf s \<Longrightarrow> arr_wf t"
  by (rule fold_r_invariant) (auto intro: operation_wf)

lemma all_bounded:
  "apply_all ops s = Inr t \<Longrightarrow> ids_bounded s \<Longrightarrow> ids_bounded t
     \<and> as_next_track_id s \<le> as_next_track_id t \<and> as_next_clip_id s \<le> as_next_clip_id t"
  by (induction ops arbitrary: s) (auto split: sum.splits dest!: operation_bounded intro: order_trans)

lemma all_sound_back: "apply_all ops s = Inr t \<Longrightarrow> arr_sound t \<Longrightarrow> arr_sound s"
  by (induction ops arbitrary: s) (auto split: sum.splits dest: operation_sound_back)

lemma all_cong:
  assumes "same_content s s'" "apply_all ops s = Inr t"
  shows "\<exists>t'. apply_all ops s' = Inr t' \<and> same_content t t'"
  using assms
proof (induction ops arbitrary: s s')
  case (Cons op ops)
  then obtain r where r: "operation_apply op s = Inr r" "apply_all ops r = Inr t"
    by (auto split: sum.splits)
  with operation_cong[OF Cons.prems(1)] obtain r' where "operation_apply op s' = Inr r'" "same_content r r'"
    by blast
  with Cons.IH r(2) show ?case by fastforce
qed simp

section \<open>Batches\<close>

lemma run_operations_Inr:
  "run_operations ops s = Inr t \<longleftrightarrow>
     (\<exists>mid. apply_all ops s = Inr mid \<and> normalize_indexes mid = Inr t \<and> arr_validate t = Inr ())"
  by (auto simp: run_operations_def result_simps)

lemma sound_entries_map:
  assumes "\<And>v. eq (f v) (f v) = eq v v" "\<And>v. key (f v) = key v"
  shows "sound_entries eq key (bt_map (\<lambda>_. f) m) = sound_entries eq key m"
  unfolding sound_entries_def bt_get_map map_option_eq_Some using assms by fastforce

lemma normalize_frame:
  assumes "normalize_indexes s = Inr t"
  shows "arr_wf s \<Longrightarrow> arr_wf t" "arr_sound t = arr_sound s" "ids_bounded s \<Longrightarrow> ids_bounded t"
    "as_next_track_id t = as_next_track_id s" "as_next_clip_id t = as_next_clip_id s"
    "as_clips t = as_clips s"
proof -
  note t = normalize_Inr[OF assms]
  show "arr_wf s \<Longrightarrow> arr_wf t" by (simp add: t wf_simps)
  have "sound_entries ar_track_eq at_id (bt_map (\<lambda>_. reindex cs) m) = sound_entries ar_track_eq at_id m" for cs m
    by (rule sound_entries_map) (simp_all add: ar_track_eq_def reindex_def)
  then show "arr_sound t = arr_sound s"
    by (simp add: t arr_sound_def)
  show "ids_bounded s \<Longrightarrow> ids_bounded t"
    by (auto simp: t ids_bounded_def ids_below_def)
qed (simp_all add: normalize_Inr[OF assms])

lemma run_good:
  assumes "arr_good s" "run_operations ops s = Inr t"
  shows "arr_good t" "as_next_track_id s \<le> as_next_track_id t" "as_next_clip_id s \<le> as_next_clip_id t"
proof -
  obtain mid where mid: "apply_all ops s = Inr mid" "normalize_indexes mid = Inr t" "arr_validate t = Inr ()"
    using assms(2) by (auto simp: run_operations_Inr)
  have b: "ids_bounded mid" "as_next_track_id s \<le> as_next_track_id mid" "as_next_clip_id s \<le> as_next_clip_id mid"
    using all_bounded[OF mid(1) good_ids[OF assms(1)]] by simp_all
  have "arr_wf t" using all_wf[OF mid(1)] normalize_frame(1)[OF mid(2)] assms(1) by (simp add: arr_good_def)
  with mid(3) have "arr_integrity t" using arr_validate_iff by blast
  with \<open>arr_wf t\<close> b normalize_frame(3-5)[OF mid(2)] show "arr_good t"
    by (simp add: arr_good_def ids_bounded_def ids_below_def)
  show "as_next_track_id s \<le> as_next_track_id t" "as_next_clip_id s \<le> as_next_clip_id t"
    using b normalize_frame(4,5)[OF mid(2)] by simp_all
qed

lemma counters_from_keys:
  assumes "same_content s t" "counters_ok s" "ids_bounded t" "0 < as_next_track_id t" "0 < as_next_clip_id t"
  shows "counters_ok t"
proof -
  have "bt_keys (as_tracks s) = bt_keys (as_tracks t)" "bt_keys (as_clips s) = bt_keys (as_clips t)"
    using assms(1) same_entries_keys unfolding same_content_def by blast+
  then have "bt_get (as_tracks t) i \<noteq> None \<longleftrightarrow> bt_get (as_tracks s) i \<noteq> None"
    "bt_get (as_clips t) j \<noteq> None \<longleftrightarrow> bt_get (as_clips s) j \<noteq> None" for i j
    by (metis bt_keys_in)+
  with assms(2-5) show ?thesis
    unfolding counters_ok_def ids_bounded_def ids_below_def by (metis option.distinct(1) option.exhaust)
qed

lemma run_cong:
  assumes "arr_good s" "arr_good s'" "same_content s s'"
    and "apply_all ops s = Inr mid" "normalize_indexes mid = Inr t" "arr_validate t = Inr ()"
  obtains mid' t' where "apply_all ops s' = Inr mid'" "normalize_indexes mid' = Inr t'"
    "arr_validate t' = Inr ()" "same_content mid mid'" "same_content t t'"
proof -
  obtain mid' where mid': "apply_all ops s' = Inr mid'" "same_content mid mid'"
    using all_cong[OF assms(3,4)] by blast
  obtain t' where t': "normalize_indexes mid' = Inr t'" "same_content t t'"
    using normalize_cong[OF mid'(2) assms(5)] by blast
  have b: "ids_bounded mid'" "0 < as_next_track_id mid'" "0 < as_next_clip_id mid'"
    using all_bounded[OF mid'(1) good_ids[OF assms(2)]] assms(2)
    by (auto simp: arr_good_def arr_integrity_def counters_ok_def)
  have wf: "arr_wf t" "arr_wf t'"
    using all_wf[OF assms(4)] normalize_frame(1)[OF assms(5)] all_wf[OF mid'(1)]
      normalize_frame(1)[OF t'(1)] assms(1,2) by (auto simp: arr_good_def)
  with assms(6) have int: "arr_integrity t" using arr_validate_iff by blast
  then have "counters_ok t'"
    using counters_from_keys[OF t'(2)] b normalize_frame(3-5)[OF t'(1)]
    by (simp add: arr_integrity_def)
  then have "arr_validate t' = Inr ()"
    using integrity_cong[OF t'(2) int] arr_validate_iff[OF wf(2)] by simp
  with mid' t' show thesis by (rule_tac that)
qed

section \<open>Settled batches\<close>

fun touched_track :: "arr_operation \<Rightarrow> ar_track_id list" where
  "touched_track (PutTrack b a) = (case probe_of b a of None \<Rightarrow> [] | Some t \<Rightarrow> [at_id t])"
| "touched_track _ = []"

fun sets_track_order :: "arr_operation \<Rightarrow> bool" where
  "sets_track_order (SetTrackOrder b a) = True"
| "sets_track_order _ = False"

fun creates_or_deletes_track :: "arr_operation \<Rightarrow> bool" where
  "creates_or_deletes_track (PutTrack b a) = (b = None \<or> a = None)"
| "creates_or_deletes_track _ = False"

text \<open>
  Normalization leaves the indexes of the tracks the batch wrote and the order it set as they
  are, and a batch that creates or deletes a track also sets the order.
\<close>

definition settled :: "arr_operation list \<Rightarrow> arr_state \<Rightarrow> arr_state \<Rightarrow> bool" where
  "settled ops mid t \<longleftrightarrow>
     (\<forall>op \<in> set ops. \<forall>i \<in> set (touched_track op).
        map_option at_clip_ids (bt_get (as_tracks mid) i) = map_option at_clip_ids (bt_get (as_tracks t) i))
     \<and> (list_ex sets_track_order ops \<longrightarrow> as_track_order mid = as_track_order t)
     \<and> (list_ex creates_or_deletes_track ops \<longrightarrow> list_ex sets_track_order ops)"

definition settled_run :: "arr_operation list \<Rightarrow> arr_state \<Rightarrow> arr_state edit_result" where
  "settled_run ops s =
     bind_r (apply_all ops s) (\<lambda>mid. bind_r (normalize_indexes mid) (\<lambda>t.
       if settled ops mid t then then_r (arr_validate t) (Inr t) else panics))"

lemma settled_run_Inr:
  "settled_run ops s = Inr t \<longleftrightarrow>
     (\<exists>mid. apply_all ops s = Inr mid \<and> normalize_indexes mid = Inr t \<and> settled ops mid t
        \<and> arr_validate t = Inr ())"
  by (auto simp: settled_run_def result_simps split: if_splits)

lemma settled_run_run: "settled_run ops s = Inr t \<Longrightarrow> run_operations ops s = Inr t"
  by (auto simp: settled_run_Inr run_operations_Inr)

lemma index_of_canon: "map_option track_canon x = map_option track_canon y
    \<Longrightarrow> map_option at_clip_ids x = map_option at_clip_ids y"
  by (cases x; cases y) (auto dest: arg_cong[where f = at_clip_ids])

lemma settled_cong:
  assumes "same_content mid mid'" "same_content t t'" "settled ops mid t"
  shows "settled ops mid' t'"
proof -
  have "map_option at_clip_ids (bt_get (as_tracks mid) i) = map_option at_clip_ids (bt_get (as_tracks mid') i)"
    "map_option at_clip_ids (bt_get (as_tracks t) i) = map_option at_clip_ids (bt_get (as_tracks t') i)" for i
    using assms(1,2) by (auto simp: same_content_def intro: index_of_canon dest: same_entries_get)
  with assms show ?thesis by (simp add: settled_def same_content_def)
qed

lemma settled_run_cong:
  assumes "arr_good s" "arr_good s'" "same_content s s'" "settled_run ops s = Inr t"
  shows "\<exists>t'. settled_run ops s' = Inr t' \<and> same_content t t'"
proof -
  obtain mid where mid: "apply_all ops s = Inr mid" "normalize_indexes mid = Inr t" "settled ops mid t"
    "arr_validate t = Inr ()"
    using assms(4) by (auto simp: settled_run_Inr)
  obtain mid' t' where "apply_all ops s' = Inr mid'" "normalize_indexes mid' = Inr t'"
    "arr_validate t' = Inr ()" "same_content mid mid'" "same_content t t'"
    by (rule run_cong[OF assms(1-3) mid(1,2,4)])
  with settled_cong[OF _ _ mid(3)] show ?thesis by (auto simp: settled_run_Inr)
qed

end
