(* ===== verification/Arrangement_Inverse.thy ===== *)
theory Arrangement_Inverse
  imports Arrangement_Reversal
begin

text \<open>
  The inverse of a settled batch restores the content of the state it was applied to and is
  settled itself, so settled batches are an instance of the contract \<open>reversible\<close>.
\<close>

definition unindexed :: "ar_track \<Rightarrow> ar_track" where
  "unindexed t = (track_canon t)\<lparr>at_clip_ids := []\<rparr>"

text \<open>
  The states the two runs go through: the same up to \<open>PartialEq\<close>, except that the tracks outside
  \<open>T\<close> may differ in their derived index, and the order of the tracks is compared if \<open>ord\<close>.
\<close>

definition related :: "ar_track_id set \<Rightarrow> bool \<Rightarrow> arr_state \<Rightarrow> arr_state \<Rightarrow> bool" where
  "related T ord a b \<longleftrightarrow> as_schema_version a = as_schema_version b
     \<and> as_sample_rate a = as_sample_rate b \<and> as_markers a = as_markers b
     \<and> same_entries clip_canon (as_clips a) (as_clips b)
     \<and> (\<forall>i. map_option unindexed (bt_get (as_tracks a) i) = map_option unindexed (bt_get (as_tracks b) i))
     \<and> (\<forall>i \<in> T. map_option track_canon (bt_get (as_tracks a) i) = map_option track_canon (bt_get (as_tracks b) i))
     \<and> (ord \<longrightarrow> as_track_order a = as_track_order b)"

lemma unindexed_canon: "map_option track_canon x = map_option track_canon y
    \<Longrightarrow> map_option unindexed x = map_option unindexed y"
  by (cases x; cases y) (auto simp: unindexed_def)

lemma put_track_inverse:
  assumes "operation_apply (PutTrack b a) s = Inr s'" "arr_sound s'" "ids_bounded s"
    and "related T ord v s'" "set (touched_track (PutTrack b a)) \<subseteq> T"
  shows "\<exists>u. operation_apply (PutTrack a b) v = Inr u \<and> related T ord u s"
proof -
  obtain m n where put: "put_entity ar_track_eq at_id ''track'' b a (as_tracks s) (as_next_track_id s) = Inr (m, n)"
    and s': "s' = s\<lparr>as_tracks := m, as_next_track_id := n\<rparr>"
    using assms(1) by (auto simp: bind_pair_Inr)
  have sound: "sound_entries ar_track_eq at_id m" using assms(2) by (simp add: arr_sound_def s')
  have below: "ids_below (as_next_track_id s) (as_tracks s)" using assms(3) by (simp add: ids_bounded_def)
  have T: "k \<in> T" if "map_option at_id (probe_of b a) = Some k" for k
    using that assms(5) by auto
  then have at_k: "map_option track_canon (bt_get (as_tracks v) k) = map_option track_canon (bt_get m k)"
    if "map_option at_id (probe_of b a) = Some k" for k
    using that assms(4) by (simp add: related_def s')
  obtain k w d where k: "map_option at_id (probe_of b a) = Some k"
    and w: "put_entity ar_track_eq at_id ''track'' a b (as_tracks v) (as_next_track_id v) = Inr (w, d)"
    and here: "map_option track_canon (bt_get w k) = map_option track_canon (bt_get (as_tracks s) k)"
    and away: "\<And>j. j \<noteq> k \<Longrightarrow> bt_get w j = bt_get (as_tracks v) j" "\<And>j. j \<noteq> k \<Longrightarrow> bt_get m j = bt_get (as_tracks s) j"
    by (rule track_entity.put_inverse[OF put sound below at_k]) blast+
  have "map_option unindexed (bt_get w i) = map_option unindexed (bt_get (as_tracks s) i)" for i
  proof (cases "i = k")
    case True
    with unindexed_canon[OF here] show ?thesis by simp
  next
    case False
    with assms(4) away show ?thesis by (simp add: related_def s')
  qed
  moreover have "map_option track_canon (bt_get w i) = map_option track_canon (bt_get (as_tracks s) i)"
    if "i \<in> T" for i
    using that here away assms(4) by (cases "i = k") (simp_all add: related_def s')
  ultimately show ?thesis
    using w assms(4) by (auto simp: related_def s')
qed

lemma put_clip_inverse:
  assumes "operation_apply (PutClip b a) s = Inr s'" "arr_sound s'" "ids_bounded s" "arr_wf s" "arr_wf v"
    and "related T ord v s'"
  shows "\<exists>u. operation_apply (PutClip a b) v = Inr u \<and> related T ord u s"
proof -
  obtain m n where put: "put_entity ar_clip_eq ac_id ''clip'' b a (as_clips s) (as_next_clip_id s) = Inr (m, n)"
    and s': "s' = s\<lparr>as_clips := m, as_next_clip_id := n\<rparr>"
    using assms(1) by (auto simp: bind_pair_Inr)
  have sound: "sound_entries ar_clip_eq ac_id m" using assms(2) by (simp add: arr_sound_def s')
  have below: "ids_below (as_next_clip_id s) (as_clips s)" using assms(3) by (simp add: ids_bounded_def)
  have same: "same_entries clip_canon (as_clips v) m" using assms(6) by (simp add: related_def s')
  obtain k w d where w: "put_entity ar_clip_eq ac_id ''clip'' a b (as_clips v) (as_next_clip_id v) = Inr (w, d)"
    and here: "map_option clip_canon (bt_get w k) = map_option clip_canon (bt_get (as_clips s) k)"
    and away: "\<And>j. j \<noteq> k \<Longrightarrow> bt_get w j = bt_get (as_clips v) j" "\<And>j. j \<noteq> k \<Longrightarrow> bt_get m j = bt_get (as_clips s) j"
    by (rule clip_entity.put_inverse[OF put sound below same_entries_get[OF same]]) blast+
  have "same_entries clip_canon w (as_clips s)"
  proof (rule same_entriesI)
    show "bt_ok w" using put_entity_ok[OF w] assms(5) by (simp add: wf_simps)
    show "bt_ok (as_clips s)" using assms(4) by (simp add: wf_simps)
    fix j
    show "map_option clip_canon (bt_get w j) = map_option clip_canon (bt_get (as_clips s) j)"
      using here away same_entries_get[OF same, of j] by (cases "j = k") simp_all
  qed
  with w assms(6) show ?thesis by (auto simp: related_def s')
qed

lemma put_marker_inverse:
  assumes "operation_apply (PutMarker f b a) s = Inr s'" "arr_wf s" "related T ord v s'"
  shows "\<exists>u. operation_apply (PutMarker f a b) v = Inr u \<and> related T ord u s"
proof -
  let ?m = "as_markers s"
  have found: "bt_get ?m f = b" "\<not> (b = None \<and> a = None)" and ok: "bt_ok ?m"
    and s': "s' = s\<lparr>as_markers := (case a of Some m \<Rightarrow> bt_insert f m ?m | None \<Rightarrow> bt_remove f ?m)\<rparr>"
    using assms(1,2) by (auto simp: wf_simps split: if_splits)
  have v: "as_markers v = as_markers s'" using assms(3) by (simp add: related_def)
  have "(case b of Some m \<Rightarrow> bt_insert f m (as_markers v) | None \<Rightarrow> bt_remove f (as_markers v)) = ?m"
    unfolding v by (rule bt_eqI) (use found(1) ok in \<open>auto simp: s' split: option.splits\<close>)
  moreover have "bt_get (as_markers v) f = a" by (cases a) (simp_all add: v s')
  moreover have "related T ord (v\<lparr>as_markers := ?m\<rparr>) s"
    using assms(3) by (simp add: related_def s')
  ultimately show ?thesis
    using found(2) by auto
qed

lemma operation_inverse_step:
  assumes "operation_apply op s = Inr s'" "arr_sound s'" "ids_bounded s" "arr_wf s" "arr_wf v"
    and "related T ord v s'" "set (touched_track op) \<subseteq> T" "sets_track_order op \<longrightarrow> ord"
  shows "\<exists>u. operation_apply (operation_inverse op) v = Inr u \<and> related T ord u s"
proof (cases op)
  case (PutTrack b a)
  with put_track_inverse assms(1-3,6,7) show ?thesis by simp
next
  case (PutClip b a)
  with put_clip_inverse assms(1-6) show ?thesis by simp
next
  case (SetTrackOrder b a)
  with assms(1,6,8) show ?thesis by (auto simp: related_def split: if_splits)
next
  case (PutMarker f b a)
  with put_marker_inverse assms(1,4,6) show ?thesis by simp
qed

lemma all_inverse:
  assumes "apply_all ops s = Inr mid" "arr_sound mid" "ids_bounded s" "arr_wf s" "arr_wf v"
    and "related T ord v mid" "\<forall>op \<in> set ops. set (touched_track op) \<subseteq> T"
    and "list_ex sets_track_order ops \<longrightarrow> ord"
  shows "\<exists>u. apply_all (map operation_inverse (rev ops)) v = Inr u \<and> related T ord u s"
  using assms
proof (induction ops arbitrary: s)
  case (Cons op ops)
  then obtain r where r: "operation_apply op s = Inr r" "apply_all ops r = Inr mid"
    by (auto split: sum.splits)
  have wf: "ids_bounded r" "arr_wf r" "arr_sound r"
    using operation_bounded[OF r(1)] operation_wf[OF r(1)] all_sound_back[OF r(2)] Cons.prems by auto
  obtain u where u: "apply_all (map operation_inverse (rev ops)) v = Inr u" "related T ord u r"
    using Cons.IH[OF r(2)] Cons.prems wf by auto
  have "arr_wf u" using all_wf[OF u(1)] Cons.prems(5) .
  from operation_inverse_step[OF r(1) wf(3) Cons.prems(3,4) this u(2)] Cons.prems(7,8)
  obtain w where "operation_apply (operation_inverse op) u = Inr w" "related T ord w s" by auto
  with u(1) show ?case by (simp add: fold_r_append)
qed auto

section \<open>Keys and order\<close>

lemma operation_order: "operation_apply op s = Inr t \<Longrightarrow> \<not> sets_track_order op
    \<Longrightarrow> as_track_order t = as_track_order s"
  by (cases op) (auto simp: bind_pair_Inr split: if_splits)

lemma all_order: "apply_all ops s = Inr t \<Longrightarrow> \<not> list_ex sets_track_order ops
    \<Longrightarrow> as_track_order t = as_track_order s"
  by (induction ops arbitrary: s) (auto split: sum.splits dest: operation_order)

lemma operation_keys:
  assumes "operation_apply op s = Inr t" "\<not> creates_or_deletes_track op"
  shows "set (bt_keys (as_tracks t)) = set (bt_keys (as_tracks s))"
proof (cases op)
  case (PutTrack b a)
  with assms obtain v w where [simp]: "b = Some v" "a = Some w" by auto
  from assms PutTrack obtain m n where put: "put_entity ar_track_eq at_id ''track'' b a (as_tracks s) (as_next_track_id s) = Inr (m, n)"
    and t: "t = s\<lparr>as_tracks := m, as_next_track_id := n\<rparr>"
    by (auto simp: bind_pair_Inr)
  from put show ?thesis
    by (rule put_entity_Inr) (auto simp: t bt_keys_def option_rel_Some2 dest!: bt_get_Some_in intro: rev_image_eqI)
qed (use assms in \<open>auto simp: bind_pair_Inr split: if_splits\<close>)

lemma all_keys: "apply_all ops s = Inr t \<Longrightarrow> \<not> list_ex creates_or_deletes_track ops
    \<Longrightarrow> set (bt_keys (as_tracks t)) = set (bt_keys (as_tracks s))"
  by (induction ops arbitrary: s) (auto split: sum.splits dest: operation_keys)

lemma operation_touched_inverse:
  assumes "operation_apply op s = Inr t" "arr_sound t"
  shows "touched_track (operation_inverse op) = touched_track op"
proof (cases op)
  case (PutTrack b a)
  with assms obtain m n where "put_entity ar_track_eq at_id ''track'' b a (as_tracks s) (as_next_track_id s) = Inr (m, n)"
    "sound_entries ar_track_eq at_id m"
    by (auto simp: bind_pair_Inr arr_sound_def)
  from track_entity.put_sound_back(2)[OF this] PutTrack show ?thesis
    by (cases a; cases b) auto
qed simp_all

lemma all_touched_inverse:
  "apply_all ops s = Inr t \<Longrightarrow> arr_sound t \<Longrightarrow> op \<in> set ops
     \<Longrightarrow> touched_track (operation_inverse op) = touched_track op"
proof (induction ops arbitrary: s)
  case (Cons o' ops)
  then obtain r where "operation_apply o' s = Inr r" "apply_all ops r = Inr t"
    by (auto split: sum.splits)
  with Cons operation_touched_inverse all_sound_back show ?case by (metis set_ConsD)
qed simp

lemma inverse_flags [simp]:
  "sets_track_order (operation_inverse op) = sets_track_order op"
  "creates_or_deletes_track (operation_inverse op) = creates_or_deletes_track op"
  "operation_inverse (operation_inverse op) = op"
  by (cases op; auto)+

lemma list_ex_inverse:
  "list_ex sets_track_order (map operation_inverse (rev ops)) = list_ex sets_track_order ops"
  "list_ex creates_or_deletes_track (map operation_inverse (rev ops)) = list_ex creates_or_deletes_track ops"
  by (simp_all add: list_ex_iff)

section \<open>The inverse of a settled batch\<close>

lemma related_keys:
  assumes "related T ord a b"
  shows "set (bt_keys (as_tracks a)) = set (bt_keys (as_tracks b))"
proof -
  have "bt_get (as_tracks a) i \<noteq> None \<longleftrightarrow> bt_get (as_tracks b) i \<noteq> None" for i
    using assms unfolding related_def by (metis option.map_disc_iff)
  then show ?thesis by (auto simp: bt_keys_in)
qed

lemma reindex_unindexed: "track_canon (reindex cs t) = reindex cs (unindexed t)"
  by (simp add: track_canon_def reindex_def unindexed_def)

lemma settled_related:
  assumes "arr_sound mid" "normalize_indexes mid = Inr t" "settled ops mid t"
  shows "related (\<Union>op \<in> set ops. set (touched_track op)) (list_ex sets_track_order ops) t mid"
proof -
  note t = normalize_Inr[OF assms(2)]
  have clip_ids: "map_option at_clip_ids (bt_get (as_tracks mid) i) = map_option at_clip_ids (bt_get (as_tracks t) i)"
    if "i \<in> (\<Union>op \<in> set ops. set (touched_track op))" for i
    using that assms(3) by (auto simp: settled_def)
  have "map_option track_canon (bt_get (as_tracks t) i) = map_option track_canon (bt_get (as_tracks mid) i)"
    if "i \<in> (\<Union>op \<in> set ops. set (touched_track op))" for i
  proof (cases "bt_get (as_tracks mid) i")
    case (Some a)
    with clip_ids[OF that] have "reindex (as_clips mid) a = a"
      by (intro reindex_id) (simp add: t reindex_def)
    with Some show ?thesis by (simp add: t)
  qed (simp add: t)
  moreover have "map_option unindexed (bt_get (as_tracks t) i) = map_option unindexed (bt_get (as_tracks mid) i)" for i
    by (cases "bt_get (as_tracks mid) i") (auto simp: t reindex_def unindexed_def track_canon_def)
  moreover have "list_ex sets_track_order ops \<longrightarrow> as_track_order t = as_track_order mid"
    using assms(3) by (simp add: settled_def)
  ultimately show ?thesis
    unfolding related_def by (auto simp: t)
qed

lemma settled_inverse:
  assumes good: "arr_good s" and run: "settled_run ops s = Inr t"
  shows "\<exists>u. settled_run (map operation_inverse (rev ops)) t = Inr u \<and> same_content u s"
proof -
  let ?T = "\<Union>op \<in> set ops. set (touched_track op)" and ?o = "list_ex sets_track_order ops"
  obtain mid where mid: "apply_all ops s = Inr mid" "normalize_indexes mid = Inr t"
    "settled ops mid t" "arr_validate t = Inr ()"
    using run by (auto simp: settled_run_Inr)
  have tgood: "arr_good t" using run_good[OF good settled_run_run[OF run]] by simp
  have smid: "arr_sound mid" using normalize_frame(2)[OF mid(2)] good_sound[OF tgood] by simp
  have wf: "arr_wf s" "arr_wf t" and int: "arr_integrity s" "arr_integrity t"
    using good tgood by (simp_all add: arr_good_def)
  obtain u0 where u0: "apply_all (map operation_inverse (rev ops)) t = Inr u0" "related ?T ?o u0 s"
    using all_inverse[OF mid(1) smid good_ids[OF good] wf settled_related[OF smid mid(2,3)]] by auto
  have wfu0: "arr_wf u0" using all_wf[OF u0(1)] wf(2) .
  have clips: "same_entries clip_canon (as_clips u0) (as_clips s)"
    using u0(2) by (simp add: related_def)
  have keyed: "clips_keyed (as_clips u0)"
  proof -
    have "ac_id c = i" if "bt_get (as_clips u0) i = Some c" for i c
    proof -
      from same_entries_get[OF clips, of i] that
      obtain d where "bt_get (as_clips s) i = Some d" "clip_canon c = clip_canon d"
        by (cases "bt_get (as_clips s) i") auto
      moreover from this integrity_keyed[OF wf(1) int(1)] have "ac_id d = i"
        by (simp add: clips_keyed_def)
      ultimately show ?thesis by (metis clip_entity.key_canon)
    qed
    with wfu0 show ?thesis by (simp add: clips_keyed_def wf_simps)
  qed
  obtain u where u: "normalize_indexes u0 = Inr u" using normalize_keyed[OF keyed] by blast
  note u_eq = normalize_Inr[OF u]
  note idx = index_cong[OF clips]
  have tracks: "map_option track_canon (bt_get (as_tracks u) i) = map_option track_canon (bt_get (as_tracks s) i)" for i
  proof -
    have "map_option unindexed (bt_get (as_tracks u0) i) = map_option unindexed (bt_get (as_tracks s) i)"
      using u0(2) by (simp add: related_def)
    then show ?thesis
      using integrity_reindex(1)[OF wf(1) int(1), of i]
      by (cases "bt_get (as_tracks u0) i"; cases "bt_get (as_tracks s) i")
        (auto simp: u_eq idx(3) reindex_unindexed, metis reindex_unindexed)
  qed
  have order: "as_track_order u = as_track_order s"
  proof (cases ?o)
    case True
    then have "as_track_order u0 = as_track_order s" using u0(2) by (simp add: related_def)
    with int(1) related_keys[OF u0(2)] show ?thesis
      by (simp add: u_eq normalize_order_id arr_integrity_def)
  next
    case False
    with mid(3) have "\<not> list_ex creates_or_deletes_track ops" by (auto simp: settled_def)
    then have keys: "set (bt_keys (as_tracks mid)) = set (bt_keys (as_tracks s))" using all_keys[OF mid(1)] by simp
    have "as_track_order t = as_track_order s"
      using all_order[OF mid(1) False] int(1) keys
      by (simp add: normalize_Inr[OF mid(2)] normalize_order_id arr_integrity_def)
    moreover have "as_track_order u0 = as_track_order t"
      using all_order[OF u0(1)] False list_ex_inverse by metis
    ultimately show ?thesis
      using int(1) related_keys[OF u0(2)] by (simp add: u_eq normalize_order_id arr_integrity_def)
  qed
  have wfu: "arr_wf u" using normalize_frame(1)[OF u wfu0] .
  have same: "same_content u s"
    unfolding same_content_def
  proof (intro conjI)
    show "same_entries track_canon (as_tracks u) (as_tracks s)"
      using wfu wf(1) tracks by (intro same_entriesI) (simp_all add: wf_simps)
  qed (use u0(2) clips order in \<open>simp_all add: related_def normalize_frame(6)[OF u], simp_all add: u_eq\<close>)
  have b: "ids_bounded u0" "as_next_track_id t \<le> as_next_track_id u0" "as_next_clip_id t \<le> as_next_clip_id u0"
    using all_bounded[OF u0(1) good_ids[OF tgood]] by simp_all
  have "counters_ok u"
    using same_content_sym[OF same] int b normalize_frame(3-5)[OF u]
    by (intro counters_from_keys[of s u]) (auto simp: arr_integrity_def counters_ok_def)
  then have "arr_integrity u" using integrity_cong same_content_sym[OF same] int(1) by blast
  then have val: "arr_validate u = Inr ()" using arr_validate_iff[OF wfu] by simp
  have "settled (map operation_inverse (rev ops)) u0 u"
    unfolding settled_def list_ex_inverse
  proof (intro conjI ballI)
    fix op i assume "op \<in> set (map operation_inverse (rev ops))" "i \<in> set (touched_track op)"
    then have "i \<in> ?T" using all_touched_inverse[OF mid(1) smid] by auto
    then have "map_option track_canon (bt_get (as_tracks u0) i) = map_option track_canon (bt_get (as_tracks s) i)"
      using u0(2) unfolding related_def by blast
    also note tracks[of i, symmetric]
    finally show "map_option at_clip_ids (bt_get (as_tracks u0) i) = map_option at_clip_ids (bt_get (as_tracks u) i)"
      by (rule index_of_canon)
  next
    show "?o \<longrightarrow> as_track_order u0 = as_track_order u"
      using order u0(2) by (simp add: related_def)
    show "list_ex creates_or_deletes_track ops \<longrightarrow> ?o" using mid(3) by (simp add: settled_def)
  qed
  with u0(1) u val same show ?thesis by (auto simp: settled_run_Inr)
qed

definition run_forward :: "arr_transaction \<Rightarrow> arr_state \<Rightarrow> arr_state edit_result" where
  "run_forward tx s = settled_run (tx_operations tx) s"

definition run_backward :: "arr_transaction \<Rightarrow> arr_state \<Rightarrow> arr_state edit_result" where
  "run_backward tx s = settled_run (tx_operations (transaction_inverse tx)) s"

lemma inverse_twice: "map operation_inverse (rev (map operation_inverse (rev ops))) = ops"
  by (simp add: rev_map comp_def)

interpretation arr: reversible run_forward run_backward same_content arr_good
proof
  fix s t u :: arr_state and c :: arr_transaction
  show "same_content s s" by simp
  show "same_content s t \<Longrightarrow> same_content t s" by (rule same_content_sym)
  show "same_content s t \<Longrightarrow> same_content t u \<Longrightarrow> same_content s u" by (rule same_content_trans)
  show "arr_good s \<Longrightarrow> run_forward c s = Inr t \<Longrightarrow> arr_good t"
    unfolding run_forward_def using run_good(1) settled_run_run by blast
  show "arr_good s \<Longrightarrow> run_backward c s = Inr t \<Longrightarrow> arr_good t"
    unfolding run_backward_def using run_good(1) settled_run_run by blast
  show "arr_good s \<Longrightarrow> run_forward c s = Inr t \<Longrightarrow> \<exists>u. run_backward c t = Inr u \<and> same_content u s"
    unfolding run_forward_def run_backward_def transaction_inverse_def using settled_inverse by simp
  show "arr_good s \<Longrightarrow> run_backward c s = Inr t \<Longrightarrow> \<exists>u. run_forward c t = Inr u \<and> same_content u s"
    unfolding run_forward_def run_backward_def transaction_inverse_def
    using settled_inverse[of s "map operation_inverse (rev (tx_operations c))" t] inverse_twice by simp
next
  fix s s' t :: arr_state and c :: arr_transaction
  assume "arr_good s" "arr_good s'" "same_content s s'"
  note cong = settled_run_cong[OF this]
  show "run_forward c s = Inr t \<Longrightarrow> \<exists>t'. run_forward c s' = Inr t' \<and> same_content t t'"
    unfolding run_forward_def by (rule cong)
  show "run_backward c s = Inr t \<Longrightarrow> \<exists>t'. run_backward c s' = Inr t' \<and> same_content t t'"
    unfolding run_backward_def by (rule cong)
qed

end
