(* ===== verification/Arrangement_Editor.thy ===== *)
theory Arrangement_Editor
  imports Arrangement_Content Arrangement_Inverse
begin

text \<open>
  \<open>ArrangementEditor\<close> of \<open>src/arrangement.rs\<close>: the transaction kernel with its undo and redo
  stacks, and the edits that are built on it. An operation returns its result with the editor the
  code leaves behind; \<open>edit\<close> collects the public operations in one datatype.
\<close>

record arr_selection =
  asl_clips :: "ar_clip_id list"
  asl_tracks :: "ar_track_id list"
  asl_time :: "frame_range option"

definition arr_selection_default :: arr_selection where
  "arr_selection_default = \<lparr>asl_clips = [], asl_tracks = [], asl_time = None\<rparr>"

definition retain_valid :: "arr_state \<Rightarrow> arr_selection \<Rightarrow> arr_selection" where
  "retain_valid s sel = sel\<lparr>asl_clips := filter (bt_contains (as_clips s)) (asl_clips sel),
     asl_tracks := filter (bt_contains (as_tracks s)) (asl_tracks sel)\<rparr>"

record arr_history_entry =
  ah_forward :: arr_transaction
  ah_inverse :: arr_transaction
  ah_before_revision :: nat
  ah_after_revision :: nat

record arr_editor =
  ae_state :: arr_state
  ae_selection :: arr_selection
  ae_undo :: "arr_history_entry list"
  ae_redo :: "arr_history_entry list"
  ae_revision :: nat
  ae_saved_revision :: nat
  ae_history_limit :: nat

definition editor_from_state :: "arr_state \<Rightarrow> arr_editor edit_result" where
  "editor_from_state s =
     then_r (arr_validate s)
       (Inr \<lparr>ae_state = s, ae_selection = arr_selection_default, ae_undo = [], ae_redo = [],
             ae_revision = 0, ae_saved_revision = 0, ae_history_limit = 256\<rparr>)"

definition editor_new :: "nat \<Rightarrow> arr_editor edit_result" where
  "editor_new rate = bind_r (arr_state_new rate) editor_from_state"

definition editor_is_dirty :: "arr_editor \<Rightarrow> bool" where
  "editor_is_dirty e \<longleftrightarrow> ae_revision e \<noteq> ae_saved_revision e"

definition editor_mark_saved :: "arr_editor \<Rightarrow> arr_editor" where
  "editor_mark_saved e = e\<lparr>ae_saved_revision := ae_revision e\<rparr>"

definition editor_set_history_limit :: "nat \<Rightarrow> arr_editor \<Rightarrow> arr_editor" where
  "editor_set_history_limit limit e =
     (let undo = trim_front limit (ae_undo e)
      in if limit = 0 then e\<lparr>ae_history_limit := limit, ae_undo := [], ae_redo := []\<rparr>
         else if limit < length (ae_redo e)
         then e\<lparr>ae_history_limit := limit, ae_undo := undo,
                ae_redo := drop (length (ae_redo e) - limit) (ae_redo e)\<rparr>
         else e\<lparr>ae_history_limit := limit, ae_undo := undo\<rparr>)"

definition editor_undo_label :: "arr_editor \<Rightarrow> string option" where
  "editor_undo_label e = (if ae_undo e = [] then None else Some (tx_label (ah_forward (last (ae_undo e)))))"

definition editor_redo_label :: "arr_editor \<Rightarrow> string option" where
  "editor_redo_label e = (if ae_redo e = [] then None else Some (tx_label (ah_forward (last (ae_redo e)))))"

section \<open>The transaction kernel\<close>

definition editor_apply :: "arr_transaction \<Rightarrow> arr_editor \<Rightarrow> nat edit_result \<times> arr_editor" where
  "editor_apply tx e =
     (if tx_operations tx = [] then (fails AeEmptyTransaction, e)
      else if list_all operation_is_noop (tx_operations tx) then (Inr (ae_revision e), e)
      else case run_operations (tx_operations tx) (ae_state e) of
             Inl f \<Rightarrow> (Inl f, e)
           | Inr candidate \<Rightarrow>
               if u64_max < ae_revision e + 1 then (fails AeRevisionOverflow, e)
               else
                 let revision = ae_revision e + 1;
                     entry = \<lparr>ah_forward = tx, ah_inverse = transaction_inverse tx,
                              ah_before_revision = ae_revision e, ah_after_revision = revision\<rparr>
                 in (Inr revision,
                     e\<lparr>ae_state := candidate, ae_revision := revision, ae_redo := [],
                       ae_undo := (if 0 < ae_history_limit e
                                   then trim_front (ae_history_limit e) (ae_undo e @ [entry])
                                   else ae_undo e),
                       ae_selection := retain_valid candidate (ae_selection e)\<rparr>))"

text \<open>The entry is popped before the inverse runs, so a failing undo loses it.\<close>

definition editor_undo :: "arr_editor \<Rightarrow> nat option edit_result \<times> arr_editor" where
  "editor_undo e =
     (if ae_undo e = [] then (Inr None, e)
      else
        let entry = last (ae_undo e); popped = e\<lparr>ae_undo := butlast (ae_undo e)\<rparr>
        in case run_operations (tx_operations (ah_inverse entry)) (ae_state e) of
             Inl f \<Rightarrow> (Inl f, popped)
           | Inr candidate \<Rightarrow>
               (Inr (Some (ah_before_revision entry)),
                popped\<lparr>ae_state := candidate, ae_revision := ah_before_revision entry,
                       ae_selection := retain_valid candidate (ae_selection e),
                       ae_redo := ae_redo e @ [entry]\<rparr>))"

definition editor_redo :: "arr_editor \<Rightarrow> nat option edit_result \<times> arr_editor" where
  "editor_redo e =
     (if ae_redo e = [] then (Inr None, e)
      else
        let entry = last (ae_redo e); popped = e\<lparr>ae_redo := butlast (ae_redo e)\<rparr>
        in case run_operations (tx_operations (ah_forward entry)) (ae_state e) of
             Inl f \<Rightarrow> (Inl f, popped)
           | Inr candidate \<Rightarrow>
               (Inr (Some (ah_after_revision entry)),
                popped\<lparr>ae_state := candidate, ae_revision := ah_after_revision entry,
                       ae_selection := retain_valid candidate (ae_selection e),
                       ae_undo := ae_undo e @ [entry]\<rparr>))"

section \<open>Lookups and identifiers\<close>

definition require_track :: "arr_state \<Rightarrow> ar_track_id \<Rightarrow> ar_track edit_result" where
  "require_track s i = ok_or (bt_get (as_tracks s) i) (Failed (AeMissingTrack i))"

definition require_clip :: "arr_state \<Rightarrow> ar_clip_id \<Rightarrow> ar_clip edit_result" where
  "require_clip s i = ok_or (bt_get (as_clips s) i) (Failed (AeMissingClip i))"

definition editable_clip :: "arr_state \<Rightarrow> ar_clip_id \<Rightarrow> ar_clip edit_result" where
  "editable_clip s i =
     bind_r (require_clip s i) (\<lambda>clip.
       if ac_locked clip then fails (AeLockedClip i)
       else bind_r (require_track s (ac_track_id clip)) (\<lambda>track.
              if at_locked track then fails (AeLockedClip i) else Inr clip))"

definition allocate_track_id :: "arr_state \<Rightarrow> ar_track_id edit_result" where
  "allocate_track_id s =
     (if u64_max < as_next_track_id s + 1 then fails AeIdOverflow else Inr (Id (as_next_track_id s)))"

definition allocate_clip_id :: "arr_state \<Rightarrow> ar_clip_id edit_result" where
  "allocate_clip_id s =
     (if u64_max < as_next_clip_id s + 1 then fails AeIdOverflow else Inr (Id (as_next_clip_id s)))"

section \<open>Planning an edit\<close>

text \<open>
  Every edit reads the state, builds a transaction and applies it. The planning part, with every
  early return in its place, is a function of the state; \<open>commit\<close> applies the transaction and
  returns the value of the edit.
\<close>

definition transaction :: "string \<Rightarrow> arr_operation list \<Rightarrow> arr_transaction" where
  "transaction label ops = \<lparr>tx_label = label, tx_operations = ops\<rparr>"

definition commit :: "(arr_transaction \<times> 'a) edit_result \<Rightarrow> arr_editor \<Rightarrow> 'a edit_result \<times> arr_editor" where
  "commit plan e =
     (case plan of
        Inl f \<Rightarrow> (Inl f, e)
      | Inr (tx, r) \<Rightarrow>
          (case editor_apply tx e of
             (Inl f, e') \<Rightarrow> (Inl f, e')
           | (Inr _, e') \<Rightarrow> (Inr r, e')))"

definition replace_track :: "string \<Rightarrow> ar_track \<Rightarrow> ar_track \<Rightarrow> (arr_transaction \<times> unit) edit_result" where
  "replace_track label b a = Inr (transaction label [PutTrack (Some b) (Some a)], ())"

definition replace_clip :: "string \<Rightarrow> ar_clip \<Rightarrow> ar_clip \<Rightarrow> (arr_transaction \<times> unit) edit_result" where
  "replace_clip label b a = Inr (transaction label [PutClip (Some b) (Some a)], ())"

definition arr_create_track :: "string \<Rightarrow> ar_track_kind \<Rightarrow> arr_state \<Rightarrow> (arr_transaction \<times> ar_track_id) edit_result" where
  "arr_create_track name kind s =
     bind_r (allocate_track_id s) (\<lambda>i.
       Inr (transaction ''Create track''
              [PutTrack None (Some (ar_track_new i name kind)),
               SetTrackOrder (as_track_order s) (as_track_order s @ [i])], i))"

fun remove_clips :: "arr_state \<Rightarrow> ar_clip_id list \<Rightarrow> arr_operation list edit_result" where
  "remove_clips s [] = Inr []"
| "remove_clips s (j # js) =
     bind_r (require_clip s j) (\<lambda>clip.
     bind_r (remove_clips s js) (\<lambda>ops. Inr (PutClip (Some clip) None # ops)))"

definition delete_track :: "ar_track_id \<Rightarrow> arr_state \<Rightarrow> (arr_transaction \<times> unit) edit_result" where
  "delete_track i s =
     bind_r (require_track s i) (\<lambda>track.
     bind_r (remove_clips s (at_clip_ids track)) (\<lambda>ops.
       Inr (transaction ''Delete track''
              (ops @ [PutTrack (Some track) None,
                      SetTrackOrder (as_track_order s) (filter (\<lambda>j. j \<noteq> i) (as_track_order s))]), ())))"

definition reorder_track :: "ar_track_id \<Rightarrow> nat \<Rightarrow> arr_state \<Rightarrow> (arr_transaction \<times> unit) edit_result" where
  "reorder_track i new_index s =
     bind_r (require_track s i) (\<lambda>_.
       if length (as_track_order s) \<le> new_index then fails (AeInvalidTrackIndex new_index)
       else if i \<notin> set (as_track_order s) then fails (AeMissingTrack i)
       else let without = remove1 i (as_track_order s)
            in Inr (transaction ''Reorder track''
                 [SetTrackOrder (as_track_order s) (take new_index without @ [i] @ drop new_index without)], ()))"

definition set_overlap_policy :: "ar_track_id \<Rightarrow> overlap_policy \<Rightarrow> arr_state \<Rightarrow> (arr_transaction \<times> unit) edit_result" where
  "set_overlap_policy i policy s =
     bind_r (require_track s i) (\<lambda>before.
       replace_track ''Set overlap policy'' before (before\<lparr>at_overlap := policy\<rparr>))"

definition arr_create_clip ::
  "ar_track_id \<Rightarrow> string \<Rightarrow> frame_range \<Rightarrow> clip_content \<Rightarrow> arr_state \<Rightarrow> (arr_transaction \<times> ar_clip_id) edit_result" where
  "arr_create_clip track name placement content s =
     bind_r (require_track s track) (\<lambda>_.
     bind_r (allocate_clip_id s) (\<lambda>i.
       Inr (transaction ''Create clip'' [PutClip None (Some
              \<lparr>ac_id = i, ac_track_id = track, ac_name = name, ac_placement = placement,
               ac_content = content, ac_fades = clip_fades_default, ac_gain_db = 0,
               ac_muted = False, ac_locked = False\<rparr>)], i)))"

definition create_audio_clip ::
  "ar_track_id \<Rightarrow> string \<Rightarrow> frame_range \<Rightarrow> asset_id \<Rightarrow> source_range \<Rightarrow> arr_state
     \<Rightarrow> (arr_transaction \<times> ar_clip_id) edit_result" where
  "create_audio_clip track name placement asset source s =
     bind_r (source_range_len source) (\<lambda>len.
     bind_r (stretch_ratio_new len (frame_range_len placement)) (\<lambda>ratio.
       arr_create_clip track name placement (AudioContent
         \<lparr>au_asset = asset, au_source = source,
          au_playback = playback_transform_default\<lparr>pb_ratio := ratio\<rparr>,
          au_channels = AllChannels, au_loop_mode = LoopOff\<rparr>) s))"

definition create_pattern_clip ::
  "ar_track_id \<Rightarrow> string \<Rightarrow> frame_range \<Rightarrow> pattern_id \<Rightarrow> arr_state \<Rightarrow> (arr_transaction \<times> ar_clip_id) edit_result" where
  "create_pattern_clip track name placement pattern s =
     arr_create_clip track name placement (PatternContent
       \<lparr>pr_pattern = pattern, pr_content_offset = 0, pr_looped = False\<rparr>) s"

definition create_automation_clip ::
  "ar_track_id \<Rightarrow> string \<Rightarrow> frame_range \<Rightarrow> parameter_id \<Rightarrow> arr_state \<Rightarrow> (arr_transaction \<times> ar_clip_id) edit_result" where
  "create_automation_clip track name placement parameter s =
     arr_create_clip track name placement (AutomationContent
       \<lparr>mr_parameter = parameter, mr_content_offset = 0, mr_looped = False\<rparr>) s"

definition delete_clip :: "ar_clip_id \<Rightarrow> arr_state \<Rightarrow> (arr_transaction \<times> unit) edit_result" where
  "delete_clip i s =
     bind_r (editable_clip s i) (\<lambda>clip.
       Inr (transaction ''Delete clip'' [PutClip (Some clip) None], ()))"

definition move_clip :: "ar_clip_id \<Rightarrow> ar_track_id \<Rightarrow> frame \<Rightarrow> arr_state \<Rightarrow> (arr_transaction \<times> unit) edit_result" where
  "move_clip i track start s =
     bind_r (require_track s track) (\<lambda>_.
     bind_r (editable_clip s i) (\<lambda>before.
     bind_r (frame_range_from_len start (frame_range_len (ac_placement before))) (\<lambda>placement.
       replace_clip ''Move clip'' before (before\<lparr>ac_track_id := track, ac_placement := placement\<rparr>))))"

definition range_offset :: "frame \<Rightarrow> frame \<Rightarrow> nat" where
  "range_offset later earlier = nat (sat_i64 (later - earlier) mod 2 ^ 64)"

definition trim_left :: "ar_clip_id \<Rightarrow> frame \<Rightarrow> arr_state \<Rightarrow> (arr_transaction \<times> unit) edit_result" where
  "trim_left i new_start s =
     bind_r (editable_clip s i) (\<lambda>before.
       let placement = ac_placement before in
       if new_start < fr_start placement \<or> fr_end placement \<le> new_start then fails AeInvalidTrim
       else let delta = range_offset new_start (fr_start placement)
            in bind_r (advance_content (ac_content before) delta) (\<lambda>content.
               bind_r (trim_fades_left (ac_fades before) (frame_range_len placement) delta) (\<lambda>fades.
                 replace_clip ''Trim clip left'' before
                   (before\<lparr>ac_placement := placement\<lparr>fr_start := new_start\<rparr>,
                           ac_content := content, ac_fades := fades\<rparr>))))"

definition trim_right :: "ar_clip_id \<Rightarrow> frame \<Rightarrow> arr_state \<Rightarrow> (arr_transaction \<times> unit) edit_result" where
  "trim_right i new_end s =
     bind_r (editable_clip s i) (\<lambda>before.
       let placement = ac_placement before in
       if new_end \<le> fr_start placement \<or> fr_end placement < new_end then fails AeInvalidTrim
       else let removed = range_offset (fr_end placement) new_end
            in bind_r (retreat_content_end (ac_content before) removed) (\<lambda>content.
               bind_r (trim_fades_right (ac_fades before) (frame_range_len placement) removed) (\<lambda>fades.
                 replace_clip ''Trim clip right'' before
                   (before\<lparr>ac_placement := placement\<lparr>fr_end := new_end\<rparr>,
                           ac_content := content, ac_fades := fades\<rparr>))))"

definition slip_clip :: "ar_clip_id \<Rightarrow> int \<Rightarrow> arr_state \<Rightarrow> (arr_transaction \<times> unit) edit_result" where
  "slip_clip i delta s =
     bind_r (editable_clip s i) (\<lambda>before.
     bind_r (slip_content (ac_content before) delta) (\<lambda>content.
       replace_clip ''Slip clip'' before (before\<lparr>ac_content := content\<rparr>)))"

definition split_clip :: "ar_clip_id \<Rightarrow> frame \<Rightarrow> arr_state \<Rightarrow> (arr_transaction \<times> ar_clip_id) edit_result" where
  "split_clip i at s =
     bind_r (editable_clip s i) (\<lambda>before.
       let placement = ac_placement before in
       if \<not> frame_range_contains placement at \<or> at = fr_start placement then fails AeInvalidSplit
       else let left_len = range_offset at (fr_start placement)
            in bind_r (allocate_clip_id s) (\<lambda>right_id.
               bind_r (split_content (ac_content before) left_len) (\<lambda>(left_content, right_content).
               bind_r (split_fades (ac_fades before) (frame_range_len placement) left_len)
                 (\<lambda>(left_fades, right_fades).
                   Inr (transaction ''Split clip''
                     [PutClip (Some before) (Some (before\<lparr>ac_placement := placement\<lparr>fr_end := at\<rparr>,
                        ac_content := left_content, ac_fades := left_fades\<rparr>)),
                      PutClip None (Some (before\<lparr>ac_id := right_id, ac_placement := placement\<lparr>fr_start := at\<rparr>,
                        ac_content := right_content, ac_fades := right_fades\<rparr>))], right_id)))))"

definition duplicate_clip :: "ar_clip_id \<Rightarrow> frame \<Rightarrow> arr_state \<Rightarrow> (arr_transaction \<times> ar_clip_id) edit_result" where
  "duplicate_clip i new_start s =
     bind_r (require_clip s i) (\<lambda>source.
     bind_r (allocate_clip_id s) (\<lambda>duplicate_id.
     bind_r (frame_range_from_len new_start (frame_range_len (ac_placement source))) (\<lambda>placement.
       Inr (transaction ''Duplicate clip''
         [PutClip None (Some (source\<lparr>ac_id := duplicate_id, ac_placement := placement\<rparr>))], duplicate_id))))"

fun stretch_content :: "clip_content \<Rightarrow> nat \<Rightarrow> stretch_algorithm \<Rightarrow> bool \<Rightarrow> clip_content edit_result" where
  "stretch_content (AudioContent a) len algorithm preserve_pitch =
     (if pb_warp_markers (au_playback a) \<noteq> [] then fails AeWarpedEditRequiresCompiler
      else bind_r (source_range_len (au_source a)) (\<lambda>source_len.
           bind_r (stretch_ratio_new source_len len) (\<lambda>ratio.
             Inr (AudioContent (a\<lparr>au_playback := (au_playback a)\<lparr>pb_ratio := ratio,
                    pb_algorithm := algorithm, pb_preserve_pitch := preserve_pitch\<rparr>\<rparr>)))))"
| "stretch_content c len algorithm preserve_pitch = Inr c"

definition stretch_resize ::
  "ar_clip_id \<Rightarrow> frame \<Rightarrow> stretch_algorithm \<Rightarrow> bool \<Rightarrow> arr_state \<Rightarrow> (arr_transaction \<times> unit) edit_result" where
  "stretch_resize i new_end algorithm preserve_pitch s =
     bind_r (editable_clip s i) (\<lambda>before.
     bind_r (frame_range_new (fr_start (ac_placement before)) new_end) (\<lambda>placement.
     bind_r (stretch_content (ac_content before) (frame_range_len placement) algorithm preserve_pitch)
       (\<lambda>content.
         replace_clip ''Stretch clip'' before
           (before\<lparr>ac_placement := placement, ac_content := content,
                   ac_fades := clamp_fades (ac_fades before) (frame_range_len placement)\<rparr>))))"

definition set_fades :: "ar_clip_id \<Rightarrow> clip_fades \<Rightarrow> arr_state \<Rightarrow> (arr_transaction \<times> unit) edit_result" where
  "set_fades i fades s =
     bind_r (editable_clip s i) (\<lambda>before.
     then_r (validate_fades fades (frame_range_len (ac_placement before)))
       (replace_clip ''Set clip fades'' before (before\<lparr>ac_fades := fades\<rparr>)))"

definition put_marker :: "frame \<Rightarrow> marker option \<Rightarrow> arr_state \<Rightarrow> (arr_transaction \<times> unit) edit_result" where
  "put_marker at m s =
     Inr (transaction (if m \<noteq> None then ''Put marker'' else ''Remove marker'')
            [PutMarker at (bt_get (as_markers s) at) m], ())"

definition select_intersecting :: "frame_range \<Rightarrow> ar_track_id list option \<Rightarrow> arr_editor \<Rightarrow> arr_editor" where
  "select_intersecting r tracks e =
     e\<lparr>ae_selection := (ae_selection e)\<lparr>asl_time := Some r,
        asl_clips := fold bs_insert
          (map ac_id (filter (\<lambda>c. case tracks of None \<Rightarrow> True | Some set' \<Rightarrow> ac_track_id c \<in> set set')
             (clips_intersecting (ae_state e) r))) []\<rparr>\<rparr>"

section \<open>The public edits\<close>

datatype edit =
    CreateTrack string ar_track_kind
  | DeleteTrack ar_track_id
  | ReorderTrack ar_track_id nat
  | SetOverlapPolicy ar_track_id overlap_policy
  | CreateAudioClip ar_track_id string frame_range asset_id source_range
  | CreatePatternClip ar_track_id string frame_range pattern_id
  | CreateAutomationClip ar_track_id string frame_range parameter_id
  | DeleteClip ar_clip_id
  | MoveClip ar_clip_id ar_track_id frame
  | TrimLeft ar_clip_id frame
  | TrimRight ar_clip_id frame
  | SlipClip ar_clip_id int
  | SplitClip ar_clip_id frame
  | DuplicateClip ar_clip_id frame
  | StretchResize ar_clip_id frame stretch_algorithm bool
  | SetFades ar_clip_id clip_fades
  | PutMarkerAt frame "marker option"

datatype edit_outcome = DoneEdit | NewTrack ar_track_id | NewClip ar_clip_id

definition returning :: "('a \<Rightarrow> edit_outcome) \<Rightarrow> (arr_transaction \<times> 'a) edit_result
    \<Rightarrow> (arr_transaction \<times> edit_outcome) edit_result" where
  "returning f plan = map_sum id (map_prod id f) plan"

abbreviation unit_edit :: "(arr_transaction \<times> unit) edit_result \<Rightarrow> (arr_transaction \<times> edit_outcome) edit_result" where
  "unit_edit \<equiv> returning (\<lambda>_. DoneEdit)"

fun plan_edit :: "edit \<Rightarrow> arr_state \<Rightarrow> (arr_transaction \<times> edit_outcome) edit_result" where
  "plan_edit (CreateTrack name kind) s = returning NewTrack (arr_create_track name kind s)"
| "plan_edit (DeleteTrack i) s = unit_edit (delete_track i s)"
| "plan_edit (ReorderTrack i k) s = unit_edit (reorder_track i k s)"
| "plan_edit (SetOverlapPolicy i p) s = unit_edit (set_overlap_policy i p s)"
| "plan_edit (CreateAudioClip t name r a src) s = returning NewClip (create_audio_clip t name r a src s)"
| "plan_edit (CreatePatternClip t name r p) s = returning NewClip (create_pattern_clip t name r p s)"
| "plan_edit (CreateAutomationClip t name r p) s = returning NewClip (create_automation_clip t name r p s)"
| "plan_edit (DeleteClip i) s = unit_edit (delete_clip i s)"
| "plan_edit (MoveClip i t f) s = unit_edit (move_clip i t f s)"
| "plan_edit (TrimLeft i f) s = unit_edit (trim_left i f s)"
| "plan_edit (TrimRight i f) s = unit_edit (trim_right i f s)"
| "plan_edit (SlipClip i d) s = unit_edit (slip_clip i d s)"
| "plan_edit (SplitClip i f) s = returning NewClip (split_clip i f s)"
| "plan_edit (DuplicateClip i f) s = returning NewClip (duplicate_clip i f s)"
| "plan_edit (StretchResize i f alg pp) s = unit_edit (stretch_resize i f alg pp s)"
| "plan_edit (SetFades i fs) s = unit_edit (set_fades i fs s)"
| "plan_edit (PutMarkerAt f m) s = unit_edit (put_marker f m s)"

definition perform :: "edit \<Rightarrow> arr_editor \<Rightarrow> edit_outcome edit_result \<times> arr_editor" where
  "perform ed e = commit (plan_edit ed (ae_state e)) e"

end
