(* ===== verification/Arrangement_History.thy ===== *)
theory Arrangement_History
  imports Arrangement_Editor
begin

text \<open>
  The undo history of the arrangement editor: every transaction the edits build is settled, so
  the stacked entries stay runnable in both directions whatever sequence of edits, undos and
  redos produced them.
\<close>

section \<open>The edits build settled transactions\<close>

definition settled_batch :: "arr_operation list \<Rightarrow> arr_state \<Rightarrow> bool" where
  "settled_batch ops s \<longleftrightarrow> (\<forall>mid t. apply_all ops s = Inr mid \<longrightarrow> normalize_indexes mid = Inr t
     \<longrightarrow> settled ops mid t)"

definition settled_plan :: "(arr_transaction \<times> 'a) edit_result \<Rightarrow> arr_state \<Rightarrow> bool" where
  "settled_plan p s \<longleftrightarrow> (\<forall>tx r. p = Inr (tx, r) \<longrightarrow> settled_batch (tx_operations tx) s)"

lemma settled_plan_simps [simp]:
  "settled_plan (Inl f) s" "settled_plan (Inr (tx, r)) s = settled_batch (tx_operations tx) s"
  by (simp_all add: settled_plan_def)

lemma transaction_operations [simp]: "tx_operations (transaction l ops) = ops"
  by (simp add: transaction_def)

lemma settled_plan_bind [intro!]:
  "(\<And>a. m = Inr a \<Longrightarrow> settled_plan (k a) s) \<Longrightarrow> settled_plan (bind_r m k) s"
  by (cases m) (auto simp: settled_plan_def)

lemma settled_plan_then [intro!]: "settled_plan k s \<Longrightarrow> settled_plan (then_r m k) s"
  by (cases m) (auto simp: settled_plan_def)

lemma settled_plan_returning: "settled_plan (returning f p) s = settled_plan p s"
  by (cases p) (auto simp: settled_plan_def returning_def)

text \<open>A batch that writes neither tracks nor their order is settled.\<close>

fun clip_or_marker :: "arr_operation \<Rightarrow> bool" where
  "clip_or_marker (PutClip b a) = True"
| "clip_or_marker (PutMarker f b a) = True"
| "clip_or_marker _ = False"

lemma clip_or_marker_neutral:
  "clip_or_marker op \<Longrightarrow> touched_track op = [] \<and> \<not> sets_track_order op \<and> \<not> creates_or_deletes_track op"
  by (cases op) simp_all

lemma settled_clips: "list_all clip_or_marker ops \<Longrightarrow> settled_batch ops s"
  using clip_or_marker_neutral unfolding settled_batch_def settled_def list_all_iff list_ex_iff
  by (metis empty_iff list.set(1))

lemma settled_replace_clip [simp]: "settled_plan (replace_clip l b a) s"
  by (simp add: replace_clip_def settled_clips)

lemma settled_clip_edits:
  "settled_plan (arr_create_clip t n p c s) s" "settled_plan (create_audio_clip t n p a src s) s"
  "settled_plan (create_pattern_clip t n p pat s) s" "settled_plan (create_automation_clip t n p par s) s"
  "settled_plan (delete_clip i s) s" "settled_plan (move_clip i t f s) s"
  "settled_plan (trim_left i f s) s" "settled_plan (trim_right i f s) s"
  "settled_plan (slip_clip i d s) s" "settled_plan (split_clip i f s) s"
  "settled_plan (duplicate_clip i f s) s" "settled_plan (stretch_resize i f alg pp s) s"
  "settled_plan (set_fades i fs s) s" "settled_plan (put_marker f m s) s"
proof -
  show create: "settled_plan (arr_create_clip t n p c s) s" for t n p c
    unfolding arr_create_clip_def by (auto simp: settled_clips)
  show "settled_plan (create_audio_clip t n p a src s) s"
    unfolding create_audio_clip_def by (auto intro: create)
  show "settled_plan (create_pattern_clip t n p pat s) s" "settled_plan (create_automation_clip t n p par s) s"
    unfolding create_pattern_clip_def create_automation_clip_def by (rule create)+
  show "settled_plan (delete_clip i s) s"
    unfolding delete_clip_def by (auto simp: settled_clips)
  show "settled_plan (move_clip i t f s) s" "settled_plan (slip_clip i d s) s"
    "settled_plan (stretch_resize i f alg pp s) s" "settled_plan (set_fades i fs s) s"
    unfolding move_clip_def slip_clip_def stretch_resize_def set_fades_def by auto
  show "settled_plan (trim_left i f s) s" "settled_plan (trim_right i f s) s"
    unfolding trim_left_def trim_right_def Let_def by auto
  show "settled_plan (split_clip i f s) s" "settled_plan (duplicate_clip i f s) s"
    unfolding split_clip_def duplicate_clip_def Let_def
    by (auto simp: settled_clips)
  show "settled_plan (put_marker f m s) s"
    unfolding put_marker_def by (auto simp: settled_clips)
qed

text \<open>The four edits that write tracks.\<close>

lemma keys_in_get: "k \<in> set (bt_keys m) \<longleftrightarrow> (\<exists>v. bt_get m k = Some v)"
  by (simp add: bt_keys_in)

lemma settled_create_track:
  assumes "arr_good s"
  shows "settled_plan (arr_create_track name kind s) s"
  unfolding arr_create_track_def
proof (rule settled_plan_bind, unfold settled_plan_simps transaction_operations)
  fix i assume i: "allocate_track_id s = Inr i"
  then have i_eq: "i = Id (as_next_track_id s)" by (auto simp: allocate_track_id_def split: if_splits)
  have int: "arr_integrity s" using assms by (simp add: arr_good_def)
  have fresh: "bt_get (as_tracks s) i = None"
  proof (rule ccontr)
    assume "bt_get (as_tracks s) i \<noteq> None"
    then obtain t where "bt_get (as_tracks s) i = Some t" by blast
    with int have "raw i < as_next_track_id s" unfolding arr_integrity_def counters_ok_def by blast
    then show False by (simp add: i_eq)
  qed
  have "ac_track_id c \<noteq> i" if "c \<in> set (bt_values (as_clips s))" for c
  proof -
    from that obtain k where "bt_get (as_clips s) k = Some c"
      using assms by (auto simp: bt_values_in arr_good_def wf_simps)
    with int have "bt_get (as_tracks s) (ac_track_id c) \<noteq> None" unfolding arr_integrity_def clip_ok_def by blast
    with fresh show ?thesis by metis
  qed
  then have none: "clips_of_track (as_clips s) i = []"
    by (simp add: clips_of_track_def filter_empty_conv)
  show "settled_batch [PutTrack None (Some (ar_track_new i name kind)),
      SetTrackOrder (as_track_order s) (as_track_order s @ [i])] s"
    unfolding settled_batch_def
  proof (intro allI impI)
    fix mid t
    assume "apply_all [PutTrack None (Some (ar_track_new i name kind)),
        SetTrackOrder (as_track_order s) (as_track_order s @ [i])] s = Inr mid"
      and norm: "normalize_indexes mid = Inr t"
    then have mid: "as_tracks mid = bt_insert i (ar_track_new i name kind) (as_tracks s)"
      "as_clips mid = as_clips s" "as_track_order mid = as_track_order s @ [i]"
      by (auto simp: bind_r_def put_entity_def check_existing_def ar_track_new_def then_r_eq_Inr
          split: sum.splits if_splits prod.splits)
    have order: "normalize_order (bt_keys (as_tracks mid)) (as_track_order mid) = as_track_order mid"
    proof (rule normalize_order_id)
      have keys: "set (as_track_order s) = set (bt_keys (as_tracks s))" "distinct (as_track_order s)"
        using int unfolding arr_integrity_def by blast+
      show "distinct (as_track_order mid)" using keys fresh by (auto simp: mid bt_keys_in)
      show "set (as_track_order mid) = set (bt_keys (as_tracks mid))"
        using keys by (auto simp: mid keys_in_get split: if_splits)
    qed
    show "settled [PutTrack None (Some (ar_track_new i name kind)),
        SetTrackOrder (as_track_order s) (as_track_order s @ [i])] mid t"
      using order none
      by (simp add: settled_def normalize_Inr[OF norm] mid reindex_def ar_track_new_def
          index_of_track_def)
  qed
qed

lemma remove_clips_ops: "remove_clips s js = Inr ops \<Longrightarrow> list_all clip_or_marker ops"
  by (induction js arbitrary: ops) (auto simp: result_simps)

lemma clips_keep_tracks:
  "list_all clip_or_marker ops \<Longrightarrow> apply_all ops s = Inr t
     \<Longrightarrow> as_tracks t = as_tracks s \<and> as_track_order t = as_track_order s"
proof (induction ops arbitrary: s)
  case (Cons op ops)
  then obtain r where "operation_apply op s = Inr r" "apply_all ops r = Inr t"
    by (auto split: sum.splits)
  moreover from this Cons.prems(1) have "as_tracks r = as_tracks s \<and> as_track_order r = as_track_order s"
    by (cases op) (auto simp: bind_pair_Inr split: if_splits)
  ultimately show ?case using Cons by simp
qed simp

lemma settled_delete_track:
  assumes "arr_good s"
  shows "settled_plan (delete_track i s) s"
  unfolding delete_track_def
proof (rule settled_plan_bind, rule settled_plan_bind, unfold settled_plan_simps transaction_operations)
  fix track ops
  assume track: "require_track s i = Inr track" and ops: "remove_clips s (at_clip_ids track) = Inr ops"
  have get: "bt_get (as_tracks s) i = Some track" using track by (simp add: require_track_def ok_or_eq_Inr)
  have int: "arr_integrity s" using assms by (simp add: arr_good_def)
  with get have id: "at_id track = i" unfolding arr_integrity_def track_ok_def by blast
  let ?all = "ops @ [PutTrack (Some track) None,
      SetTrackOrder (as_track_order s) (filter (\<lambda>j. j \<noteq> i) (as_track_order s))]"
  show "settled_batch ?all s"
    unfolding settled_batch_def
  proof (intro allI impI)
    fix mid t
    assume "apply_all ?all s = Inr mid"
      and norm: "normalize_indexes mid = Inr t"
    then obtain r where r: "apply_all ops s = Inr r"
      and rest: "apply_all [PutTrack (Some track) None,
        SetTrackOrder (as_track_order s) (filter (\<lambda>j. j \<noteq> i) (as_track_order s))] r = Inr mid"
      by (auto simp: fold_r_append result_simps)
    have "as_tracks r = as_tracks s" using clips_keep_tracks[OF remove_clips_ops[OF ops] r] by simp
    with rest have mid: "as_tracks mid = bt_remove i (as_tracks s)"
      "as_track_order mid = filter (\<lambda>j. j \<noteq> i) (as_track_order s)"
      by (auto simp: bind_r_def put_entity_def check_existing_def id then_r_eq_Inr
          split: sum.splits if_splits prod.splits)
    have order: "normalize_order (bt_keys (as_tracks mid)) (as_track_order mid) = as_track_order mid"
    proof (rule normalize_order_id)
      have keys: "set (as_track_order s) = set (bt_keys (as_tracks s))" "distinct (as_track_order s)"
        using int unfolding arr_integrity_def by blast+
      show "distinct (as_track_order mid)" using keys by (simp add: mid)
      show "set (as_track_order mid) = set (bt_keys (as_tracks mid))"
        using keys by (auto simp: mid keys_in_get split: if_splits)
    qed
    have "\<forall>op \<in> set ops. touched_track op = []"
      using remove_clips_ops[OF ops] clip_or_marker_neutral by (auto simp: list_all_iff)
    then show "settled ?all mid t"
      using order by (auto simp: settled_def normalize_Inr[OF norm] mid id)
  qed
qed

lemma settled_reorder_track:
  assumes "arr_good s"
  shows "settled_plan (reorder_track i k s) s"
proof -
  have int: "arr_integrity s" using assms by (simp add: arr_good_def)
  let ?w = "remove1 i (as_track_order s)"
  let ?ops = "[SetTrackOrder (as_track_order s) (take k ?w @ [i] @ drop k ?w)]"
  have "settled_batch ?ops s" if "i \<in> set (as_track_order s)"
    unfolding settled_batch_def
  proof (intro allI impI)
    fix mid t assume "apply_all ?ops s = Inr mid" and norm: "normalize_indexes mid = Inr t"
    then have mid: "mid = s\<lparr>as_track_order := take k ?w @ [i] @ drop k ?w\<rparr>" by simp
    have keys: "set (as_track_order s) = set (bt_keys (as_tracks s))" "distinct (as_track_order s)"
      using int unfolding arr_integrity_def by blast+
    have w: "distinct ?w" "set ?w = set (as_track_order s) - {i}" using keys(2) by simp_all
    have parts: "set (take k ?w) \<union> set (drop k ?w) = set ?w" "set (take k ?w) \<inter> set (drop k ?w) = {}"
      using w(1) by (metis append_take_drop_id set_append, metis append_take_drop_id distinct_append)
    have "normalize_order (bt_keys (as_tracks mid)) (as_track_order mid) = as_track_order mid"
    proof (rule normalize_order_id)
      show "distinct (as_track_order mid)" using w parts by (auto simp: mid dest: in_set_takeD in_set_dropD)
      have "set (as_track_order mid) = insert i (set (take k ?w) \<union> set (drop k ?w))" by (auto simp: mid)
      also have "\<dots> = set (as_track_order s)" using parts(1) w(2) that by auto
      finally show "set (as_track_order mid) = set (bt_keys (as_tracks mid))" using keys by (simp add: mid)
    qed
    then show "settled ?ops mid t" by (simp add: settled_def normalize_Inr[OF norm])
  qed
  then show ?thesis
    unfolding reorder_track_def Let_def by auto
qed

lemma settled_set_overlap_policy:
  assumes "arr_good s"
  shows "settled_plan (set_overlap_policy i p s) s"
  unfolding set_overlap_policy_def replace_track_def
proof (rule settled_plan_bind, unfold settled_plan_simps transaction_operations)
  fix v assume "require_track s i = Inr v"
  then have get: "bt_get (as_tracks s) i = Some v" by (simp add: require_track_def ok_or_eq_Inr)
  have "arr_wf s" "arr_integrity s" using assms by (simp_all add: arr_good_def)
  note index = integrity_reindex(2)[OF this get]
  from \<open>arr_integrity s\<close> get have id: "at_id v = i" unfolding arr_integrity_def track_ok_def by blast
  let ?ops = "[PutTrack (Some v) (Some (v\<lparr>at_overlap := p\<rparr>))]"
  have "settled_batch ?ops s"
    unfolding settled_batch_def
  proof (intro allI impI)
    fix mid t assume "apply_all ?ops s = Inr mid" and norm: "normalize_indexes mid = Inr t"
    then have mid: "as_tracks mid = bt_insert i (v\<lparr>at_overlap := p\<rparr>) (as_tracks s)" "as_clips mid = as_clips s"
      by (auto simp: bind_r_def put_entity_def check_existing_def id then_r_eq_Inr
          split: sum.splits if_splits prod.splits)
    show "settled ?ops mid t"
      using index by (simp add: settled_def normalize_Inr[OF norm] mid id reindex_def)
  qed
  then show "settled_batch ?ops s" .
qed

lemma plan_settled: "arr_good s \<Longrightarrow> settled_plan (plan_edit ed s) s"
  by (cases ed) (simp_all add: settled_plan_returning settled_clip_edits settled_create_track
      settled_delete_track settled_reorder_track settled_set_overlap_policy)

section \<open>Editors the operations reach\<close>

text \<open>
  The public operations, with the edits and the transactions that \<open>editor_apply\<close> is called with
  restricted by \<open>edits\<close> and \<open>allowed\<close>: all of them, or the well-typed or settled ones only.
\<close>

inductive editor_later ::
  "(edit \<Rightarrow> bool) \<Rightarrow> (arr_transaction \<Rightarrow> arr_state \<Rightarrow> bool) \<Rightarrow> arr_editor \<Rightarrow> arr_editor \<Rightarrow> bool"
  for edits and allowed and start where
  later_refl: "editor_later edits allowed start start"
| later_edit: "editor_later edits allowed start e \<Longrightarrow> edits ed
     \<Longrightarrow> editor_later edits allowed start (snd (perform ed e))"
| later_apply: "editor_later edits allowed start e \<Longrightarrow> allowed tx (ae_state e)
     \<Longrightarrow> editor_later edits allowed start (snd (editor_apply tx e))"
| later_undo: "editor_later edits allowed start e \<Longrightarrow> editor_later edits allowed start (snd (editor_undo e))"
| later_redo: "editor_later edits allowed start e \<Longrightarrow> editor_later edits allowed start (snd (editor_redo e))"
| later_limit: "editor_later edits allowed start e \<Longrightarrow> editor_later edits allowed start (editor_set_history_limit n e)"
| later_saved: "editor_later edits allowed start e \<Longrightarrow> editor_later edits allowed start (editor_mark_saved e)"
| later_select: "editor_later edits allowed start e \<Longrightarrow> editor_later edits allowed start (select_intersecting r ts e)"

definition any_edit :: "edit \<Rightarrow> bool" where
  "any_edit ed \<longleftrightarrow> True"

definition any_transaction :: "arr_transaction \<Rightarrow> arr_state \<Rightarrow> bool" where
  "any_transaction tx s \<longleftrightarrow> True"

definition settled_transaction :: "arr_transaction \<Rightarrow> arr_state \<Rightarrow> bool" where
  "settled_transaction tx s \<longleftrightarrow> settled_batch (tx_operations tx) s"

text \<open>An editor opened on a state whose values are machine words in canonical maps.\<close>

definition arr_opened :: "arr_state \<Rightarrow> arr_editor \<Rightarrow> bool" where
  "arr_opened s e \<longleftrightarrow> arr_wf s \<and> as_next_track_id s \<le> u64_max \<and> as_next_clip_id s \<le> u64_max
     \<and> editor_from_state s = Inr e"

lemma arr_opened_good: "arr_opened s e \<Longrightarrow> arr_good (ae_state e) \<and> ae_state e = s \<and> ae_undo e = [] \<and> ae_redo e = []
    \<and> ae_selection e = arr_selection_default \<and> ae_revision e = 0"
  by (auto simp: arr_opened_def editor_from_state_def result_simps arr_good_def arr_validate_iff)

section \<open>What one operation does to the editor\<close>

lemma editor_apply_cases:
  assumes "editor_apply tx e = (r, e')"
  obtains (same) "e' = e" "(\<exists>f. r = Inl f) \<or> list_all operation_is_noop (tx_operations tx)"
  | (run) c where "run_operations (tx_operations tx) (ae_state e) = Inr c" "r = Inr (ae_revision e + 1)"
      "e' = e\<lparr>ae_state := c, ae_revision := ae_revision e + 1, ae_redo := [],
         ae_undo := (if 0 < ae_history_limit e then trim_front (ae_history_limit e) (ae_undo e @
            [\<lparr>ah_forward = tx, ah_inverse = transaction_inverse tx, ah_before_revision = ae_revision e,
              ah_after_revision = ae_revision e + 1\<rparr>]) else ae_undo e),
         ae_selection := retain_valid c (ae_selection e)\<rparr>"
proof (cases "tx_operations tx = [] \<or> list_all operation_is_noop (tx_operations tx)")
  case True
  with assms show thesis by (intro same) (auto simp: editor_apply_def split: if_splits)
next
  case False
  show thesis
  proof (cases "run_operations (tx_operations tx) (ae_state e)")
    case (Inl f)
    with assms False show thesis by (intro same) (auto simp: editor_apply_def)
  next
    case (Inr c)
    show thesis
    proof (cases "u64_max < ae_revision e + 1")
      case True
      with assms False Inr show thesis by (intro same) (auto simp: editor_apply_def)
    next
      case no: False
      with assms False Inr show thesis
        by (intro run[of c]) (auto simp: editor_apply_def Let_def)
    qed
  qed
qed

lemma perform_cases:
  obtains (same) f where "plan_edit ed (ae_state e) = Inl f" "perform ed e = (Inl f, e)"
  | (plan) tx r where "plan_edit ed (ae_state e) = Inr (tx, r)" "snd (perform ed e) = snd (editor_apply tx e)"
  by (cases "plan_edit ed (ae_state e)") (auto simp: perform_def commit_def split: prod.splits sum.splits)

text \<open>The state invariants, whatever transactions are applied.\<close>

definition selection_valid :: "arr_editor \<Rightarrow> bool" where
  "selection_valid e \<longleftrightarrow>
     (\<forall>i \<in> set (asl_clips (ae_selection e)). bt_get (as_clips (ae_state e)) i \<noteq> None)
     \<and> (\<forall>i \<in> set (asl_tracks (ae_selection e)). bt_get (as_tracks (ae_state e)) i \<noteq> None)"

lemma retain_valid_selection: "selection_valid (e\<lparr>ae_state := c, ae_selection := retain_valid c sel\<rparr>)"
  by (simp add: selection_valid_def retain_valid_def bt_contains_def)

definition editor_ok :: "arr_editor \<Rightarrow> bool" where
  "editor_ok e \<longleftrightarrow> arr_good (ae_state e) \<and> selection_valid e"

definition keeps_counters :: "arr_editor \<Rightarrow> arr_editor \<Rightarrow> bool" where
  "keeps_counters e e' \<longleftrightarrow> as_next_clip_id (ae_state e) \<le> as_next_clip_id (ae_state e')
     \<and> as_next_track_id (ae_state e) \<le> as_next_track_id (ae_state e')"

lemma keeps_counters_refl [simp]: "keeps_counters e e"
  by (simp add: keeps_counters_def)

lemma run_ok:
  assumes "editor_ok e" "run_operations ops (ae_state e) = Inr (ae_state e')"
    and "ae_selection e' = retain_valid (ae_state e') (ae_selection e)"
  shows "editor_ok e' \<and> keeps_counters e e'"
  using assms run_good[of "ae_state e" ops]
  by (simp add: editor_ok_def keeps_counters_def selection_valid_def retain_valid_def bt_contains_def)

lemma apply_ok: "editor_ok e \<Longrightarrow> editor_ok (snd (editor_apply tx e)) \<and> keeps_counters e (snd (editor_apply tx e))"
  by (rule editor_apply_cases[of tx e "fst (editor_apply tx e)" "snd (editor_apply tx e)"])
    (simp_all add: run_ok)

lemma perform_ok: "editor_ok e \<Longrightarrow> editor_ok (snd (perform ed e)) \<and> keeps_counters e (snd (perform ed e))"
  using apply_ok by (cases rule: perform_cases[of ed e]) simp_all

lemma arr_undo_cases:
  obtains (empty) "ae_undo e = []" "editor_undo e = (Inr None, e)"
  | (fail) f us u where "ae_undo e = us @ [u]" "run_operations (tx_operations (ah_inverse u)) (ae_state e) = Inl f"
      "editor_undo e = (Inl f, e\<lparr>ae_undo := us\<rparr>)"
  | (run) c us u where "ae_undo e = us @ [u]" "run_operations (tx_operations (ah_inverse u)) (ae_state e) = Inr c"
      "editor_undo e = (Inr (Some (ah_before_revision u)),
         e\<lparr>ae_undo := us, ae_state := c, ae_revision := ah_before_revision u,
           ae_selection := retain_valid c (ae_selection e), ae_redo := ae_redo e @ [u]\<rparr>)"
  by (cases "ae_undo e" rule: rev_cases; simp add: editor_undo_def Let_def)
    (cases "run_operations (tx_operations (ah_inverse (last (ae_undo e)))) (ae_state e)"; simp)

lemma arr_redo_cases:
  obtains (empty) "ae_redo e = []" "editor_redo e = (Inr None, e)"
  | (fail) f us u where "ae_redo e = us @ [u]" "run_operations (tx_operations (ah_forward u)) (ae_state e) = Inl f"
      "editor_redo e = (Inl f, e\<lparr>ae_redo := us\<rparr>)"
  | (run) c us u where "ae_redo e = us @ [u]" "run_operations (tx_operations (ah_forward u)) (ae_state e) = Inr c"
      "editor_redo e = (Inr (Some (ah_after_revision u)),
         e\<lparr>ae_redo := us, ae_state := c, ae_revision := ah_after_revision u,
           ae_selection := retain_valid c (ae_selection e), ae_undo := ae_undo e @ [u]\<rparr>)"
  by (cases "ae_redo e" rule: rev_cases; simp add: editor_redo_def Let_def)
    (cases "run_operations (tx_operations (ah_forward (last (ae_redo e)))) (ae_state e)"; simp)

end
