(* ===== verification/Arrangement_Reachable.thy ===== *)
theory Arrangement_Reachable
  imports Arrangement_History
begin

text \<open>
  Invariants of the editors that the public operations reach: the state keeps its integrity and
  the selection stays inside it whatever transactions are applied; as long as the transactions
  are settled, as those of the edits are, undo and redo always succeed and restore the content.
\<close>

section \<open>State and selection\<close>

lemma select_ok:
  assumes "editor_ok e"
  shows "editor_ok (select_intersecting r ts e)"
proof -
  have "bt_get (as_clips (ae_state e)) (ac_id c) \<noteq> None" if "c \<in> set (clips_intersecting (ae_state e) r)" for c
  proof -
    from that assms obtain k where k: "bt_get (as_clips (ae_state e)) k = Some c"
      by (auto simp: clips_intersecting_def bt_values_in editor_ok_def arr_good_def wf_simps)
    moreover have "clips_keyed (as_clips (ae_state e))"
      using assms integrity_keyed by (simp add: editor_ok_def arr_good_def)
    ultimately show ?thesis by (metis clips_keyed_def option.distinct(1))
  qed
  with assms show ?thesis
    by (auto simp: editor_ok_def selection_valid_def select_intersecting_def set_fold_bs_insert)
qed

lemma limit_frame [simp]:
  "ae_state (editor_set_history_limit n e) = ae_state e"
  "ae_selection (editor_set_history_limit n e) = ae_selection e"
  by (simp_all add: editor_set_history_limit_def Let_def)

lemma undo_ok: "editor_ok e \<Longrightarrow> editor_ok (snd (editor_undo e)) \<and> keeps_counters e (snd (editor_undo e))"
  by (cases rule: arr_undo_cases[of e])
    (simp_all add: run_ok, simp_all add: editor_ok_def selection_valid_def keeps_counters_def)

lemma redo_ok: "editor_ok e \<Longrightarrow> editor_ok (snd (editor_redo e)) \<and> keeps_counters e (snd (editor_redo e))"
  by (cases rule: arr_redo_cases[of e])
    (simp_all add: run_ok, simp_all add: editor_ok_def selection_valid_def keeps_counters_def)

lemma keeps_counters_trans: "keeps_counters a b \<Longrightarrow> keeps_counters b c \<Longrightarrow> keeps_counters a c"
  by (simp add: keeps_counters_def)

lemma later_ok:
  "editor_later edits allowed start e \<Longrightarrow> editor_ok start \<Longrightarrow> editor_ok e \<and> keeps_counters start e"
proof (induction rule: editor_later.induct)
  case (later_edit e ed)
  then show ?case using perform_ok keeps_counters_trans by blast
next
  case (later_apply e tx)
  then show ?case using apply_ok keeps_counters_trans by blast
next
  case (later_undo e)
  then show ?case using undo_ok keeps_counters_trans by blast
next
  case (later_redo e)
  then show ?case using redo_ok keeps_counters_trans by blast
next
  case (later_select e r ts)
  then show ?case using select_ok by (simp add: keeps_counters_def select_intersecting_def)
qed (simp_all add: editor_ok_def selection_valid_def keeps_counters_def editor_mark_saved_def)

lemma arr_opened_ok: "arr_opened s e \<Longrightarrow> editor_ok e"
  by (frule arr_opened_good) (auto simp: editor_ok_def selection_valid_def arr_selection_default_def)

section \<open>The stacks stay runnable\<close>

definition history_ok :: "arr_editor \<Rightarrow> bool" where
  "history_ok e \<longleftrightarrow> editor_ok e
     \<and> can_run run_backward (rev (map ah_forward (ae_undo e))) (ae_state e)
     \<and> can_run run_forward (rev (map ah_forward (ae_redo e))) (ae_state e)
     \<and> (\<forall>u \<in> set (ae_undo e) \<union> set (ae_redo e). ah_inverse u = transaction_inverse (ah_forward u))
     \<and> (ae_history_limit e = 0 \<longrightarrow> ae_undo e = [] \<and> ae_redo e = [])"

lemma history_good: "history_ok e \<Longrightarrow> arr_good (ae_state e)"
  by (simp add: history_ok_def editor_ok_def)

lemma forward_run: "run_forward tx s = Inr t \<Longrightarrow> run_operations (tx_operations tx) s = Inr t"
  unfolding run_forward_def by (rule settled_run_run)

lemma backward_run:
  "run_backward tx s = Inr t \<Longrightarrow> run_operations (tx_operations (transaction_inverse tx)) s = Inr t"
  unfolding run_backward_def by (rule settled_run_run)

lemma run_settled:
  "run_operations (tx_operations tx) s = Inr t \<Longrightarrow> settled_transaction tx s \<Longrightarrow> run_forward tx s = Inr t"
  by (auto simp: run_forward_def settled_run_Inr run_operations_Inr settled_transaction_def settled_batch_def)

lemma set_trim_front: "set (trim_front n xs) \<subseteq> set xs"
  by (simp add: trim_front_drop set_drop_subset)

lemma apply_history_ok:
  assumes "history_ok e" "settled_transaction tx (ae_state e)"
  shows "history_ok (snd (editor_apply tx e))"
proof (rule editor_apply_cases[of tx e "fst (editor_apply tx e)" "snd (editor_apply tx e)"])
  fix c
  let ?e = "snd (editor_apply tx e)" and ?n = "ae_history_limit e"
  let ?u = "\<lparr>ah_forward = tx, ah_inverse = transaction_inverse tx, ah_before_revision = ae_revision e,
      ah_after_revision = ae_revision e + 1\<rparr>"
  assume run: "run_operations (tx_operations tx) (ae_state e) = Inr c"
    and e': "?e = e\<lparr>ae_state := c, ae_revision := ae_revision e + 1, ae_redo := [],
      ae_undo := (if 0 < ?n then trim_front ?n (ae_undo e @ [?u]) else ae_undo e),
      ae_selection := retain_valid c (ae_selection e)\<rparr>"
  have fwd: "run_forward tx (ae_state e) = Inr c" by (rule run_settled[OF run assms(2)])
  have "can_run run_backward (tx # rev (map ah_forward (ae_undo e))) c"
    using arr.push_undo[OF history_good[OF assms(1)] _ fwd] assms(1) by (simp add: history_ok_def)
  then have "can_run run_backward (rev (trim_front n (map ah_forward (ae_undo e) @ [tx]))) c" for n
    by (intro can_run_trim) simp
  then have can: "can_run run_backward (rev (map ah_forward (trim_front n (ae_undo e @ [?u])))) c" for n
    by (simp add: map_trim_front)
  have "ah_inverse u = transaction_inverse (ah_forward u)" if "u \<in> set (trim_front n (ae_undo e @ [?u]))" for u n
    using subsetD[OF set_trim_front that] assms(1) by (auto simp: history_ok_def)
  with can e' assms(1) apply_ok[of e tx] show ?thesis
    by (cases "?n = 0") (simp_all add: history_ok_def)
qed (use assms in simp_all)

lemma undo_runs:
  assumes "history_ok e" "ae_undo e = us @ [u]"
  obtains c where "run_backward (ah_forward u) (ae_state e) = Inr c"
    "run_operations (tx_operations (ah_inverse u)) (ae_state e) = Inr c"
    "can_run run_backward (rev (map ah_forward us)) c"
proof -
  from assms obtain c where "run_backward (ah_forward u) (ae_state e) = Inr c"
    "can_run run_backward (rev (map ah_forward us)) c"
    by (auto simp: history_ok_def split: sum.splits)
  with that backward_run[OF this(1)] assms show thesis by (simp add: history_ok_def)
qed

lemma redo_runs:
  assumes "history_ok e" "ae_redo e = us @ [u]"
  obtains c where "run_forward (ah_forward u) (ae_state e) = Inr c"
    "run_operations (tx_operations (ah_forward u)) (ae_state e) = Inr c"
    "can_run run_forward (rev (map ah_forward us)) c"
proof -
  from assms obtain c where "run_forward (ah_forward u) (ae_state e) = Inr c"
    "can_run run_forward (rev (map ah_forward us)) c"
    by (auto simp: history_ok_def split: sum.splits)
  with that forward_run[OF this(1)] show thesis by simp
qed

lemma undo_result:
  assumes "history_ok e" "ae_undo e = us @ [u]"
  obtains c where "run_backward (ah_forward u) (ae_state e) = Inr c"
    "editor_undo e = (Inr (Some (ah_before_revision u)),
       e\<lparr>ae_undo := us, ae_state := c, ae_revision := ah_before_revision u,
         ae_selection := retain_valid c (ae_selection e), ae_redo := ae_redo e @ [u]\<rparr>)"
    "can_run run_backward (rev (map ah_forward us)) c"
proof -
  obtain c where c: "run_backward (ah_forward u) (ae_state e) = Inr c"
    "run_operations (tx_operations (ah_inverse u)) (ae_state e) = Inr c"
    "can_run run_backward (rev (map ah_forward us)) c"
    by (rule undo_runs[OF assms])
  from arr_undo_cases[of e] assms(2) c(2)
  have "editor_undo e = (Inr (Some (ah_before_revision u)),
       e\<lparr>ae_undo := us, ae_state := c, ae_revision := ah_before_revision u,
         ae_selection := retain_valid c (ae_selection e), ae_redo := ae_redo e @ [u]\<rparr>)"
    by (simp add: editor_undo_def Let_def)
  with c that show thesis by blast
qed

lemma redo_result:
  assumes "history_ok e" "ae_redo e = us @ [u]"
  obtains c where "run_forward (ah_forward u) (ae_state e) = Inr c"
    "editor_redo e = (Inr (Some (ah_after_revision u)),
       e\<lparr>ae_redo := us, ae_state := c, ae_revision := ah_after_revision u,
         ae_selection := retain_valid c (ae_selection e), ae_undo := ae_undo e @ [u]\<rparr>)"
    "can_run run_forward (rev (map ah_forward us)) c"
proof -
  obtain c where c: "run_forward (ah_forward u) (ae_state e) = Inr c"
    "run_operations (tx_operations (ah_forward u)) (ae_state e) = Inr c"
    "can_run run_forward (rev (map ah_forward us)) c"
    by (rule redo_runs[OF assms])
  from assms(2) c(2)
  have "editor_redo e = (Inr (Some (ah_after_revision u)),
       e\<lparr>ae_redo := us, ae_state := c, ae_revision := ah_after_revision u,
         ae_selection := retain_valid c (ae_selection e), ae_undo := ae_undo e @ [u]\<rparr>)"
    by (simp add: editor_redo_def Let_def)
  with c that show thesis by blast
qed

lemma undo_history_ok:
  assumes "history_ok e"
  shows "history_ok (snd (editor_undo e))"
proof (cases "ae_undo e" rule: rev_cases)
  case (snoc us u)
  obtain c where c: "run_backward (ah_forward u) (ae_state e) = Inr c"
    and e': "editor_undo e = (Inr (Some (ah_before_revision u)),
       e\<lparr>ae_undo := us, ae_state := c, ae_revision := ah_before_revision u,
         ae_selection := retain_valid c (ae_selection e), ae_redo := ae_redo e @ [u]\<rparr>)"
    and us: "can_run run_backward (rev (map ah_forward us)) c"
    by (rule undo_result[OF assms snoc])
  have "can_run run_forward (ah_forward u # rev (map ah_forward (ae_redo e))) c"
    using arr.push_redo[OF history_good[OF assms] _ c] assms by (simp add: history_ok_def)
  with undo_ok[of e] us assms snoc show ?thesis
    by (auto simp: history_ok_def e')
qed (use assms in \<open>simp add: editor_undo_def\<close>)

lemma redo_history_ok:
  assumes "history_ok e"
  shows "history_ok (snd (editor_redo e))"
proof (cases "ae_redo e" rule: rev_cases)
  case (snoc us u)
  obtain c where c: "run_forward (ah_forward u) (ae_state e) = Inr c"
    and e': "editor_redo e = (Inr (Some (ah_after_revision u)),
       e\<lparr>ae_redo := us, ae_state := c, ae_revision := ah_after_revision u,
         ae_selection := retain_valid c (ae_selection e), ae_undo := ae_undo e @ [u]\<rparr>)"
    and us: "can_run run_forward (rev (map ah_forward us)) c"
    by (rule redo_result[OF assms snoc])
  have "can_run run_backward (ah_forward u # rev (map ah_forward (ae_undo e))) c"
    using arr.push_undo[OF history_good[OF assms] _ c] assms by (simp add: history_ok_def)
  with redo_ok[of e] us assms snoc show ?thesis
    by (auto simp: history_ok_def e')
qed (use assms in \<open>simp add: editor_redo_def\<close>)

lemma limit_history_ok:
  assumes "history_ok e"
  shows "history_ok (editor_set_history_limit n e)"
proof -
  let ?r = "drop (length (ae_redo e) - n) (ae_redo e)"
  have undo: "can_run run_backward (rev (map ah_forward (trim_front n (ae_undo e)))) (ae_state e)"
    using assms can_run_trim[of run_backward "map ah_forward (ae_undo e)" "ae_state e" n]
    by (simp add: history_ok_def map_trim_front)
  have eq: "rev (map ah_forward ?r) = take n (rev (map ah_forward (ae_redo e)))"
    by (cases "n \<le> length (ae_redo e)") (simp_all add: rev_map rev_drop take_map)
  have can: "can_run run_forward (rev (map ah_forward (ae_redo e))) (ae_state e)"
    using assms unfolding history_ok_def by blast
  have redo: "can_run run_forward (rev (map ah_forward ?r)) (ae_state e)"
    unfolding eq by (rule can_run_take[OF can])
  have entries: "u \<in> set (ae_undo e)" if "u \<in> set (trim_front n (ae_undo e))" for u
    by (rule subsetD[OF set_trim_front that])
  have "editor_ok (editor_set_history_limit n e)"
    using assms by (simp add: history_ok_def editor_ok_def selection_valid_def)
  moreover have "ah_inverse u = transaction_inverse (ah_forward u)"
    if "u \<in> set (ae_undo e) \<or> u \<in> set (ae_redo e)" for u
    using that assms by (auto simp: history_ok_def)
  ultimately show ?thesis
    using undo redo entries assms unfolding history_ok_def editor_set_history_limit_def Let_def
    by (cases "n = 0"; cases "n < length (ae_redo e)") (auto dest: in_set_dropD)
qed

lemma perform_history_ok:
  assumes "history_ok e"
  shows "history_ok (snd (perform ed e))"
proof (rule perform_cases[of ed e])
  fix tx r assume plan: "plan_edit ed (ae_state e) = Inr (tx, r)"
    and e': "snd (perform ed e) = snd (editor_apply tx e)"
  have "settled_transaction tx (ae_state e)"
    using plan_settled[OF history_good[OF assms], of ed] plan
    by (simp add: settled_plan_def settled_transaction_def)
  from apply_history_ok[OF assms this] show ?thesis by (simp add: e')
qed (use assms in simp)

lemma select_frame:
  "ae_state (select_intersecting r ts e) = ae_state e" "ae_undo (select_intersecting r ts e) = ae_undo e"
  "ae_redo (select_intersecting r ts e) = ae_redo e"
  "ae_history_limit (select_intersecting r ts e) = ae_history_limit e"
  by (simp_all add: select_intersecting_def)

lemma saved_frame:
  "ae_state (editor_mark_saved e) = ae_state e" "ae_undo (editor_mark_saved e) = ae_undo e"
  "ae_redo (editor_mark_saved e) = ae_redo e"
  "ae_history_limit (editor_mark_saved e) = ae_history_limit e"
  by (simp_all add: editor_mark_saved_def)

lemma later_history_ok:
  "editor_later edits settled_transaction start e \<Longrightarrow> history_ok start \<Longrightarrow> history_ok e"
proof (induction rule: editor_later.induct)
  case (later_select e r ts)
  then have "editor_ok (select_intersecting r ts e)" using select_ok unfolding history_ok_def by blast
  with later_select show ?case unfolding history_ok_def select_frame by blast
next
  case (later_saved e)
  then have "editor_ok (editor_mark_saved e)"
    by (simp add: history_ok_def editor_mark_saved_def editor_ok_def selection_valid_def)
  with later_saved show ?case unfolding history_ok_def saved_frame by blast
qed (simp_all add: perform_history_ok apply_history_ok undo_history_ok redo_history_ok limit_history_ok)

lemma arr_opened_history_ok:
  assumes "arr_opened s e"
  shows "history_ok e"
  using arr_opened_ok[OF assms] arr_opened_good[OF assms] by (simp add: history_ok_def)

text \<open>Undo and redo right after an edit.\<close>

lemma apply_pushes:
  assumes "editor_apply tx e = (Inr v, e')" "e' \<noteq> e" "0 < ae_history_limit e"
  obtains us where "run_operations (tx_operations tx) (ae_state e) = Inr (ae_state e')"
    "ae_revision e' = ae_revision e + 1"
    "ae_undo e' = us @ [\<lparr>ah_forward = tx, ah_inverse = transaction_inverse tx,
       ah_before_revision = ae_revision e, ah_after_revision = ae_revision e + 1\<rparr>]"
    "ae_redo e' = []"
proof -
  have last: "\<exists>vs. trim_front n (us @ [u]) = vs @ [u]" if "0 < n" for n us and u :: arr_history_entry
    using that by (auto simp: trim_front_drop)
  show thesis
  proof (rule editor_apply_cases[OF assms(1)])
    fix c
    let ?u = "\<lparr>ah_forward = tx, ah_inverse = transaction_inverse tx,
       ah_before_revision = ae_revision e, ah_after_revision = ae_revision e + 1\<rparr>"
    assume run: "run_operations (tx_operations tx) (ae_state e) = Inr c"
      and e': "e' = e\<lparr>ae_state := c, ae_revision := ae_revision e + 1, ae_redo := [],
        ae_undo := (if 0 < ae_history_limit e then trim_front (ae_history_limit e) (ae_undo e @ [?u])
           else ae_undo e), ae_selection := retain_valid c (ae_selection e)\<rparr>"
    obtain vs where "trim_front (ae_history_limit e) (ae_undo e @ [?u]) = vs @ [?u]"
      using last[OF assms(3)] by blast
    with run e' assms(3) show thesis by (intro that[of vs]) simp_all
  qed (use assms(2) in simp)
qed

lemma undo_then_redo:
  assumes "history_ok e" "perform ed e = (Inr r, e')" "e' \<noteq> e" "0 < ae_history_limit e"
  shows "\<exists>u v. editor_undo e' = (Inr (Some (ae_revision e)), u)
      \<and> same_content (ae_state u) (ae_state e) \<and> ae_revision u = ae_revision e
      \<and> editor_redo u = (Inr (Some (ae_revision e')), v)
      \<and> same_content (ae_state v) (ae_state e') \<and> ae_revision v = ae_revision e' \<and> ae_undo v = ae_undo e'"
proof -
  obtain tx where plan: "plan_edit ed (ae_state e) = Inr (tx, r)"
    and app: "\<exists>n. editor_apply tx e = (Inr n, e')"
    using assms(2) by (auto simp: perform_def commit_def split: sum.splits prod.splits)
  let ?h = "\<lparr>ah_forward = tx, ah_inverse = transaction_inverse tx, ah_before_revision = ae_revision e,
       ah_after_revision = ae_revision e + 1\<rparr>"
  from app obtain us where run: "run_operations (tx_operations tx) (ae_state e) = Inr (ae_state e')"
    and rev: "ae_revision e' = ae_revision e + 1"
    and undo: "ae_undo e' = us @ [?h]" and redo: "ae_redo e' = []"
    using apply_pushes[OF _ assms(3,4)] by metis
  have good: "arr_good (ae_state e)" by (rule history_good[OF assms(1)])
  have "settled_transaction tx (ae_state e)"
    using plan_settled[OF good, of ed] plan by (simp add: settled_plan_def settled_transaction_def)
  then have fwd: "run_forward tx (ae_state e) = Inr (ae_state e')" by (rule run_settled[OF run])
  have ok: "history_ok e'" using perform_history_ok[OF assms(1), of ed] assms(2) by simp
  obtain c where c: "run_backward tx (ae_state e') = Inr c"
    and u: "editor_undo e' = (Inr (Some (ae_revision e)), e'\<lparr>ae_undo := us, ae_state := c,
      ae_revision := ae_revision e, ae_selection := retain_valid c (ae_selection e'), ae_redo := ae_redo e' @ [?h]\<rparr>)"
    by (rule undo_result[OF ok undo]) simp
  let ?u = "snd (editor_undo e')"
  have same: "same_content c (ae_state e)" using arr.bwd_fwd[OF good fwd] c by auto
  have ok_u: "history_ok ?u" by (rule undo_history_ok[OF ok])
  have "ae_redo ?u = [] @ [?h]" by (simp add: u redo)
  then obtain d where d: "run_forward tx c = Inr d"
    and v: "editor_redo ?u = (Inr (Some (ae_revision e + 1)), ?u\<lparr>ae_redo := [], ae_state := d,
      ae_revision := ae_revision e + 1, ae_selection := retain_valid d (ae_selection ?u), ae_undo := ae_undo ?u @ [?h]\<rparr>)"
    by (rule redo_result[OF ok_u]) (simp add: u)
  have "arr_good (ae_state e')" by (rule history_good[OF ok])
  from arr.fwd_bwd[OF this c] d have "same_content d (ae_state e')" by auto
  with same u v rev undo show ?thesis
    by (intro exI[of _ ?u] exI[of _ "snd (editor_redo ?u)"]) simp
qed

text \<open>
  A revision number is used again after an undo, so an editor can report that it is clean while its
  state is not the saved one.
\<close>

lemma saved_revision_reused:
  assumes "editor_apply tx e = (Inr v, e')" "e' \<noteq> e" "0 < ae_history_limit e"
    and "editor_undo (editor_mark_saved e') = (Inr (Some w), f)"
    and "editor_apply tx' f = (Inr x, f')" "f' \<noteq> f"
  shows "\<not> editor_is_dirty f'"
proof -
  obtain us where "ae_revision e' = ae_revision e + 1" and undo: "ae_undo e' = us @ [\<lparr>ah_forward = tx,
      ah_inverse = transaction_inverse tx, ah_before_revision = ae_revision e, ah_after_revision = ae_revision e + 1\<rparr>]"
    by (rule apply_pushes[OF assms(1-3)])
  with assms(4) have "ae_revision f = ae_revision e" "ae_saved_revision f = ae_revision e + 1"
    by (auto simp: editor_undo_def editor_mark_saved_def Let_def split: sum.splits if_splits)
  with assms(5,6) show ?thesis
    by (elim editor_apply_cases) (simp_all add: editor_is_dirty_def)
qed

end
