(* ===== verification/Arrangement_Effects.thy ===== *)
theory Arrangement_Effects
  imports Arrangement_Reachable
begin

text \<open>
  What the clip edits of the arrangement editor do to the clips: which entry changes, where it
  lies and what it plays; that identifiers are fresh; and that an edit never panics.
\<close>

section \<open>Successful edits\<close>

text \<open>A successful edit commits the transaction it planned, unless every operation is a no-op.\<close>

lemma perform_Inr:
  assumes "perform ed e = (Inr r, e')"
  obtains tx where "plan_edit ed (ae_state e) = Inr (tx, r)"
    "(e' = e \<and> list_all operation_is_noop (tx_operations tx))
     \<or> (\<exists>c. run_operations (tx_operations tx) (ae_state e) = Inr c \<and> ae_state e' = c)"
proof -
  obtain tx where plan: "plan_edit ed (ae_state e) = Inr (tx, r)"
    and fin: "\<exists>v. editor_apply tx e = (Inr v, e')"
    using assms by (auto simp: perform_def commit_def split: sum.splits prod.splits)
  from fin obtain v where "editor_apply tx e = (Inr v, e')" by blast
  then show thesis
    by (cases rule: editor_apply_cases) (auto intro: that[OF plan])
qed

lemma returning_Inr: "returning f p = Inr (tx, r) \<longleftrightarrow> (\<exists>a. p = Inr (tx, a) \<and> r = f a)"
  by (cases p) (auto simp: returning_def)

lemma run_clips:
  assumes "run_operations ops s = Inr t"
  shows "\<exists>mid. apply_all ops s = Inr mid \<and> as_clips t = as_clips mid"
  using assms normalize_frame(6) by (auto simp: run_operations_Inr)

text \<open>One clip replaced by another under the same identifier.\<close>

lemma replace_clip_effect:
  assumes "arr_good s" "run_operations [PutClip (Some b) (Some a)] s = Inr t" "bt_get (as_clips s) i = Some b"
  shows "bt_get (as_clips t) j = (if j = i then Some a else bt_get (as_clips s) j)"
proof -
  have "ac_id b = i"
    using assms(1,3) integrity_keyed[of s] by (auto simp: arr_good_def clips_keyed_def)
  obtain mid where mid: "operation_apply (PutClip (Some b) (Some a)) s = Inr mid" "as_clips t = as_clips mid"
    using run_clips[OF assms(2)] by (auto split: sum.splits)
  then obtain n where "put_entity ar_clip_eq ac_id ''clip'' (Some b) (Some a) (as_clips s) (as_next_clip_id s)
      = Inr (as_clips t, n)"
    by (auto simp: bind_pair_Inr)
  then show ?thesis
    by (rule put_entity_Inr) (auto simp: \<open>ac_id b = i\<close>)
qed

text \<open>\<open>PartialEq\<close> on clips does not see where they lie or what they play.\<close>

lemma content_position_canon [simp]: "content_position (content_canon c) k = content_position c k"
  by (cases c) (simp_all add: audio_canon_def playback_canon_def Let_def)

lemma clip_eq_same:
  assumes "ar_clip_eq a b"
  shows "ac_placement a = ac_placement b" "clip_position a p = clip_position b p"
    "ac_track_id a = ac_track_id b" "ac_id a = ac_id b"
proof -
  have "clip_canon a = clip_canon b" using assms canonicalD(1)[OF canonical_clip] by blast
  then have eq: "ac_placement a = ac_placement b" "content_canon (ac_content a) = content_canon (ac_content b)"
    "ac_track_id a = ac_track_id b" "ac_id a = ac_id b"
    by (metis canon_fields(8) clip_canon_fields(2) canon_fields(7) canon_fields(6))+
  then show "clip_position a p = clip_position b p"
    unfolding clip_position_def by (metis content_position_canon)
  from eq show "ac_placement a = ac_placement b" "ac_track_id a = ac_track_id b" "ac_id a = ac_id b"
    by blast+
qed

text \<open>A clip as planned or equal to it: what an observer of placement and content sees.\<close>

definition plays_as :: "ar_clip \<Rightarrow> ar_clip \<Rightarrow> bool" where
  "plays_as c c' \<longleftrightarrow> ac_placement c = ac_placement c' \<and> ac_track_id c = ac_track_id c'
     \<and> ac_id c = ac_id c' \<and> (\<forall>p. clip_position c p = clip_position c' p)"

lemma replaced_clip:
  assumes good: "arr_good (ae_state e)" and edit: "perform ed e = (Inr r, e')"
    and plan: "\<And>tx. plan_edit ed (ae_state e) = Inr (tx, r) \<Longrightarrow> \<exists>a. Q a \<and> tx_operations tx = [PutClip (Some b) (Some a)]"
    and b: "bt_get (as_clips (ae_state e)) i = Some b"
  obtains a c where "Q a" "bt_get (as_clips (ae_state e')) i = Some c" "plays_as c a"
    "\<And>j. j \<noteq> i \<Longrightarrow> bt_get (as_clips (ae_state e')) j = bt_get (as_clips (ae_state e)) j"
proof (rule perform_Inr[OF edit])
  fix tx assume "plan_edit ed (ae_state e) = Inr (tx, r)"
  then obtain a where a: "Q a" "tx_operations tx = [PutClip (Some b) (Some a)]" using plan by blast
  assume "(e' = e \<and> list_all operation_is_noop (tx_operations tx))
     \<or> (\<exists>c. run_operations (tx_operations tx) (ae_state e) = Inr c \<and> ae_state e' = c)"
  then show thesis
  proof (elim disjE exE conjE)
    assume "e' = e" "list_all operation_is_noop (tx_operations tx)"
    then have "ar_clip_eq b a" "bt_get (as_clips (ae_state e')) i = Some b" using a(2) b by simp_all
    with a(1) \<open>e' = e\<close> show thesis
      by (intro that[of a b]) (simp_all add: plays_as_def clip_eq_same)
  next
    fix c assume "run_operations (tx_operations tx) (ae_state e) = Inr c" "ae_state e' = c"
    with replace_clip_effect[OF good _ b, of a c] a show thesis
      by (intro that[of a a]) (simp_all add: plays_as_def)
  qed
qed

section \<open>Trimming and slipping\<close>

lemma editable_get:
  assumes "editable_clip s i = Inr c"
  shows "bt_get (as_clips s) i = Some c"
  using assms by (auto simp: editable_clip_def require_clip_def result_simps split: if_splits)

lemma range_offset_int:
  assumes "earlier \<le> later" "later - earlier \<le> i64_max"
  shows "int (range_offset later earlier) = later - earlier"
proof -
  have "is_i64 (later - earlier)" using assms by (simp add: range_simps)
  then have "sat_i64 (later - earlier) = later - earlier" by (rule sat_i64_id)
  moreover have "(later - earlier) mod 2 ^ 64 = later - earlier"
    using assms by (intro mod_pos_pos_trivial) (simp_all add: i64_max_def)
  ultimately show ?thesis using assms(1) by (simp add: range_offset_def)
qed

lemma trim_left_effect:
  assumes good: "arr_good (ae_state e)" and edit: "perform (TrimLeft i f) e = (Inr r, e')"
    and b: "bt_get (as_clips (ae_state e)) i = Some b"
    and fits: "fr_end (ac_placement b) - fr_start (ac_placement b) \<le> i64_max"
  shows "\<exists>c. bt_get (as_clips (ae_state e')) i = Some c
      \<and> ac_placement c = (ac_placement b)\<lparr>fr_start := f\<rparr> \<and> ac_track_id c = ac_track_id b
      \<and> fr_start (ac_placement b) \<le> f \<and> f < fr_end (ac_placement b)
      \<and> (\<forall>p. clip_position c p = clip_position b p)"
    and "j \<noteq> i \<Longrightarrow> bt_get (as_clips (ae_state e')) j = bt_get (as_clips (ae_state e)) j"
proof -
  let ?p = "ac_placement b"
  let ?Q = "\<lambda>a. ac_placement a = ?p\<lparr>fr_start := f\<rparr> \<and> ac_track_id a = ac_track_id b
      \<and> fr_start ?p \<le> f \<and> f < fr_end ?p \<and> (\<forall>p. clip_position a p = clip_position b p)"
  obtain a c where Q: "?Q a" and c: "bt_get (as_clips (ae_state e')) i = Some c" "plays_as c a"
    and away: "\<And>j. j \<noteq> i \<Longrightarrow> bt_get (as_clips (ae_state e')) j = bt_get (as_clips (ae_state e)) j"
  proof (rule replaced_clip[OF good edit _ b, where Q = ?Q])
    fix tx assume "plan_edit (TrimLeft i f) (ae_state e) = Inr (tx, r)"
    then obtain v content fades where v: "editable_clip (ae_state e) i = Inr v"
      and le: "fr_start (ac_placement v) \<le> f" "f < fr_end (ac_placement v)"
      and content: "advance_content (ac_content v) (range_offset f (fr_start (ac_placement v))) = Inr content"
      and tx: "tx_operations tx = [PutClip (Some v) (Some (v\<lparr>ac_placement := (ac_placement v)\<lparr>fr_start := f\<rparr>,
          ac_content := content, ac_fades := fades\<rparr>))]"
      by (auto simp: returning_Inr trim_left_def replace_clip_def Let_def result_simps split: if_splits)
    have [simp]: "v = b" using editable_get[OF v] b by simp
    have "int (range_offset f (fr_start ?p)) = f - fr_start ?p"
      using le fits by (intro range_offset_int) simp_all
    then have "content_position content (p - f) = content_position (ac_content b) (p - fr_start ?p)" for p
      using advance_position[OF content, of "p - f"] by simp
    then have "?Q (b\<lparr>ac_placement := ?p\<lparr>fr_start := f\<rparr>, ac_content := content, ac_fades := fades\<rparr>)"
      using le by (simp add: clip_position_def)
    with tx show "\<exists>a. ?Q a \<and> tx_operations tx = [PutClip (Some b) (Some a)]" by auto
  qed blast
  from Q c show "\<exists>c. bt_get (as_clips (ae_state e')) i = Some c
      \<and> ac_placement c = ?p\<lparr>fr_start := f\<rparr> \<and> ac_track_id c = ac_track_id b
      \<and> fr_start ?p \<le> f \<and> f < fr_end ?p \<and> (\<forall>p. clip_position c p = clip_position b p)"
    by (simp add: plays_as_def)
  show "j \<noteq> i \<Longrightarrow> bt_get (as_clips (ae_state e')) j = bt_get (as_clips (ae_state e)) j" by (rule away)
qed

lemma trim_right_effect:
  assumes good: "arr_good (ae_state e)" and edit: "perform (TrimRight i f) e = (Inr r, e')"
    and b: "bt_get (as_clips (ae_state e)) i = Some b"
  shows "\<exists>c. bt_get (as_clips (ae_state e')) i = Some c
      \<and> ac_placement c = (ac_placement b)\<lparr>fr_end := f\<rparr> \<and> ac_track_id c = ac_track_id b
      \<and> fr_start (ac_placement b) < f \<and> f \<le> fr_end (ac_placement b)
      \<and> (\<forall>p. clip_position c p = clip_position b p)"
    and "j \<noteq> i \<Longrightarrow> bt_get (as_clips (ae_state e')) j = bt_get (as_clips (ae_state e)) j"
proof -
  let ?p = "ac_placement b"
  let ?Q = "\<lambda>a. ac_placement a = ?p\<lparr>fr_end := f\<rparr> \<and> ac_track_id a = ac_track_id b
      \<and> fr_start ?p < f \<and> f \<le> fr_end ?p \<and> (\<forall>p. clip_position a p = clip_position b p)"
  obtain a c where Q: "?Q a" and c: "bt_get (as_clips (ae_state e')) i = Some c" "plays_as c a"
    and away: "\<And>j. j \<noteq> i \<Longrightarrow> bt_get (as_clips (ae_state e')) j = bt_get (as_clips (ae_state e)) j"
  proof (rule replaced_clip[OF good edit _ b, where Q = ?Q])
    fix tx assume "plan_edit (TrimRight i f) (ae_state e) = Inr (tx, r)"
    then obtain v content fades where v: "editable_clip (ae_state e) i = Inr v"
      and le: "fr_start (ac_placement v) < f" "f \<le> fr_end (ac_placement v)"
      and content: "retreat_content_end (ac_content v) (range_offset (fr_end (ac_placement v)) f) = Inr content"
      and tx: "tx_operations tx = [PutClip (Some v) (Some (v\<lparr>ac_placement := (ac_placement v)\<lparr>fr_end := f\<rparr>,
          ac_content := content, ac_fades := fades\<rparr>))]"
      by (auto simp: returning_Inr trim_right_def replace_clip_def Let_def result_simps split: if_splits)
    have [simp]: "v = b" using editable_get[OF v] b by simp
    have "?Q (b\<lparr>ac_placement := ?p\<lparr>fr_end := f\<rparr>, ac_content := content, ac_fades := fades\<rparr>)"
      using le retreat_position[OF content] by (simp add: clip_position_def)
    with tx show "\<exists>a. ?Q a \<and> tx_operations tx = [PutClip (Some b) (Some a)]" by auto
  qed blast
  from Q c show "\<exists>c. bt_get (as_clips (ae_state e')) i = Some c
      \<and> ac_placement c = ?p\<lparr>fr_end := f\<rparr> \<and> ac_track_id c = ac_track_id b
      \<and> fr_start ?p < f \<and> f \<le> fr_end ?p \<and> (\<forall>p. clip_position c p = clip_position b p)"
    by (simp add: plays_as_def)
  show "j \<noteq> i \<Longrightarrow> bt_get (as_clips (ae_state e')) j = bt_get (as_clips (ae_state e)) j" by (rule away)
qed

lemma good_clip_ok: "arr_good s \<Longrightarrow> bt_get (as_clips s) i = Some c \<Longrightarrow> clip_ok (as_tracks s) i c"
  by (simp add: arr_good_def arr_integrity_def)

lemma slip_effect:
  assumes good: "arr_good (ae_state e)" and edit: "perform (SlipClip i d) e = (Inr r, e')"
    and b: "bt_get (as_clips (ae_state e)) i = Some b"
  shows "\<exists>c. bt_get (as_clips (ae_state e')) i = Some c
      \<and> ac_placement c = ac_placement b \<and> ac_track_id c = ac_track_id b
      \<and> (\<forall>p. clip_position c p = clip_position b (p + content_direction (ac_content b) * d))"
    and "j \<noteq> i \<Longrightarrow> bt_get (as_clips (ae_state e')) j = bt_get (as_clips (ae_state e)) j"
proof -
  let ?Q = "\<lambda>a. ac_placement a = ac_placement b \<and> ac_track_id a = ac_track_id b
      \<and> (\<forall>p. clip_position a p = clip_position b (p + content_direction (ac_content b) * d))"
  obtain a c where Q: "?Q a" and c: "bt_get (as_clips (ae_state e')) i = Some c" "plays_as c a"
    and away: "\<And>j. j \<noteq> i \<Longrightarrow> bt_get (as_clips (ae_state e')) j = bt_get (as_clips (ae_state e)) j"
  proof (rule replaced_clip[OF good edit _ b, where Q = ?Q])
    fix tx assume "plan_edit (SlipClip i d) (ae_state e) = Inr (tx, r)"
    then obtain v content where v: "editable_clip (ae_state e) i = Inr v"
      and content: "slip_content (ac_content v) d = Inr content"
      and tx: "tx_operations tx = [PutClip (Some v) (Some (v\<lparr>ac_content := content\<rparr>))]"
      by (auto simp: returning_Inr slip_clip_def replace_clip_def result_simps)
    have [simp]: "v = b" using editable_get[OF v] b by simp
    have "content_ok (frame_range_len (ac_placement b)) (ac_content b)"
      using good_clip_ok[OF good b] by (simp add: clip_ok_def)
    with slip_position[OF content] have "?Q (b\<lparr>ac_content := content\<rparr>)"
      by (simp add: clip_position_def algebra_simps)
    with tx show "\<exists>a. ?Q a \<and> tx_operations tx = [PutClip (Some b) (Some a)]" by auto
  qed blast
  from Q c show "\<exists>c. bt_get (as_clips (ae_state e')) i = Some c
      \<and> ac_placement c = ac_placement b \<and> ac_track_id c = ac_track_id b
      \<and> (\<forall>p. clip_position c p = clip_position b (p + content_direction (ac_content b) * d))"
    by (simp add: plays_as_def)
  show "j \<noteq> i \<Longrightarrow> bt_get (as_clips (ae_state e')) j = bt_get (as_clips (ae_state e)) j" by (rule away)
qed

end
