(* ===== verification/Arrangement_Typing.thy ===== *)
theory Arrangement_Typing
  imports Arrangement_Effects
begin

text \<open>
  The model keeps \<open>i64\<close> and \<open>u64\<close> fields as integers. The typing says that they lie in the range
  of their Rust type; every edit with well-typed arguments keeps it. The second part shows that
  an edit of a well-typed editor panics in one case only.
\<close>

section \<open>Machine ranges\<close>

definition range_typed :: "frame_range \<Rightarrow> bool" where
  "range_typed r \<longleftrightarrow> is_i64 (fr_start r) \<and> is_i64 (fr_end r)"

definition source_typed :: "source_range \<Rightarrow> bool" where
  "source_typed r \<longleftrightarrow> so_start r \<le> u64_max \<and> so_end r \<le> u64_max"

fun content_typed :: "clip_content \<Rightarrow> bool" where
  "content_typed (AudioContent a) \<longleftrightarrow> source_typed (au_source a)
     \<and> ra_source (pb_ratio (au_playback a)) \<le> u64_max \<and> ra_project (pb_ratio (au_playback a)) \<le> u64_max"
| "content_typed (PatternContent p) \<longleftrightarrow> pr_content_offset p \<le> u64_max"
| "content_typed (AutomationContent p) \<longleftrightarrow> mr_content_offset p \<le> u64_max"

definition fades_typed :: "clip_fades \<Rightarrow> bool" where
  "fades_typed fs \<longleftrightarrow> pred_option (\<lambda>f. fa_duration f \<le> u64_max) (cf_in fs)
     \<and> pred_option (\<lambda>f. fa_duration f \<le> u64_max) (cf_out fs)"

definition clip_typed :: "ar_clip \<Rightarrow> bool" where
  "clip_typed c \<longleftrightarrow> raw (ac_id c) \<le> u64_max \<and> range_typed (ac_placement c)
     \<and> content_typed (ac_content c) \<and> fades_typed (ac_fades c)"

fun operation_typed :: "arr_operation \<Rightarrow> bool" where
  "operation_typed (PutClip b a) \<longleftrightarrow> pred_option clip_typed b \<and> pred_option clip_typed a"
| "operation_typed (PutTrack b a) \<longleftrightarrow> True"
| "operation_typed (SetTrackOrder b a) \<longleftrightarrow> True"
| "operation_typed (PutMarker f b a) \<longleftrightarrow> is_i64 f"

definition state_typed :: "arr_state \<Rightarrow> bool" where
  "state_typed s \<longleftrightarrow> (\<forall>i c. bt_get (as_clips s) i = Some c \<longrightarrow> clip_typed c)
     \<and> (\<forall>f m. bt_get (as_markers s) f = Some m \<longrightarrow> is_i64 f)
     \<and> as_next_track_id s \<le> u64_max \<and> as_next_clip_id s \<le> u64_max"

definition transaction_typed :: "arr_transaction \<Rightarrow> bool" where
  "transaction_typed tx \<longleftrightarrow> list_all operation_typed (tx_operations tx)"

fun edit_typed :: "edit \<Rightarrow> bool" where
  "edit_typed (CreateAudioClip t name r a src) \<longleftrightarrow>
     range_typed r \<and> source_typed src"
| "edit_typed (CreatePatternClip t name r p) \<longleftrightarrow> range_typed r"
| "edit_typed (CreateAutomationClip t name r p) \<longleftrightarrow> range_typed r"
| "edit_typed (MoveClip i t f) \<longleftrightarrow> is_i64 f"
| "edit_typed (SlipClip i d) \<longleftrightarrow> is_i64 d"
| "edit_typed (DuplicateClip i f) \<longleftrightarrow> is_i64 f"
| "edit_typed (StretchResize i f alg pp) \<longleftrightarrow> is_i64 f"
| "edit_typed (SetFades i fs) \<longleftrightarrow> fades_typed fs"
| "edit_typed (PutMarkerAt f m) \<longleftrightarrow> is_i64 f"
| "edit_typed _ \<longleftrightarrow> True"

section \<open>The content edits stay in range\<close>

lemma advance_typed: "advance_content c d = Inr c' \<Longrightarrow> content_typed c \<Longrightarrow> content_typed c'"
  by (cases c) (auto simp: advance_audio_def source_typed_def result_simps split: if_splits)

lemma retreat_typed: "retreat_content_end c d = Inr c' \<Longrightarrow> content_typed c \<Longrightarrow> content_typed c'"
  by (cases c) (auto simp: source_typed_def result_simps split: if_splits)

lemma u64_mod: "nat (k mod 2 ^ 64) \<le> u64_max"
proof -
  have "k mod 2 ^ 64 < 2 ^ 64" by simp
  then show ?thesis by (simp add: u64_max_def)
qed

lemma slip_typed: "slip_content c d = Inr c' \<Longrightarrow> content_typed c \<Longrightarrow> content_typed c'"
  using u64_mod by (cases c) (auto simp: source_typed_def result_simps Let_def simp del: nat_le_iff
      split: if_splits)

lemma split_content_typed:
  "split_content c d = Inr (l, r) \<Longrightarrow> content_typed c \<Longrightarrow> content_typed l \<and> content_typed r"
proof (cases c)
  case (AudioContent a)
  assume "split_content c d = Inr (l, r)" "content_typed c"
  with AudioContent show ?thesis
    by (cases "pb_reverse (au_playback a)") (auto simp: source_typed_def result_simps Let_def split: if_splits)
qed (auto simp: result_simps dest: advance_typed)

lemma div_bound: "n \<le> m \<Longrightarrow> n div d \<le> (m::nat)"
  by (rule order_trans[OF div_le_dividend])

lemma stretch_typed:
  assumes "stretch_content c len alg pp = Inr c'" "content_typed c" "len \<le> u64_max"
  shows "content_typed c'"
proof (cases c)
  case (AudioContent a)
  with assms show ?thesis
    by (auto simp: result_simps source_typed_def source_range_len_def stretch_ratio_new_def Let_def
        split: if_splits intro!: div_bound)
qed (use assms in auto)

lemma split_fades_typed:
  "split_fades fs extent len = Inr (l, r) \<Longrightarrow> fades_typed fs \<Longrightarrow> fades_typed l \<and> fades_typed r"
  by (cases "cf_in fs"; cases "cf_out fs")
    (auto simp: split_fades_def split_fade_in_def split_fade_out_def fades_typed_def Let_def split: if_splits)

lemma trim_fades_typed:
  "trim_fades_left fs extent n = Inr l \<Longrightarrow> fades_typed fs \<Longrightarrow> fades_typed l"
  "trim_fades_right fs extent n = Inr l \<Longrightarrow> fades_typed fs \<Longrightarrow> fades_typed l"
  by (auto simp: trim_fades_left_def trim_fades_right_def result_simps dest: split_fades_typed split: if_splits)

lemma clamp_typed: "fades_typed fs \<Longrightarrow> fades_typed (clamp_fades fs n)"
  by (cases "cf_in fs"; cases "cf_out fs") (auto simp: fades_typed_def clamp_fades_def)

lemma frame_range_len_le: "frame_range_len r \<le> u64_max"
  unfolding frame_range_len_def by (rule u64_mod)

lemma frame_range_from_len_typed: "is_i64 f \<Longrightarrow> frame_range_from_len f n = Inr r \<Longrightarrow> range_typed r"
  by (auto simp: frame_range_from_len_def frame_range_new_def frame_checked_add_def range_typed_def
      result_simps split: if_splits)

section \<open>Planned transactions are well-typed\<close>

lemma editable_typed: "state_typed s \<Longrightarrow> editable_clip s i = Inr c \<Longrightarrow> clip_typed c"
  using editable_get unfolding state_typed_def by blast

lemma remove_clips_typed:
  "state_typed s \<Longrightarrow> remove_clips s js = Inr ops \<Longrightarrow> list_all operation_typed ops"
  by (induction js arbitrary: ops) (auto simp: result_simps require_clip_def state_typed_def)

lemma i64_between: "is_i64 a \<Longrightarrow> is_i64 b \<Longrightarrow> a \<le> x \<Longrightarrow> x \<le> b \<Longrightarrow> is_i64 x"
  by (simp add: is_i64_def)

definition typed_plan :: "(arr_transaction \<times> 'a) edit_result \<Rightarrow> bool" where
  "typed_plan p \<longleftrightarrow> (\<forall>tx r. p = Inr (tx, r) \<longrightarrow> transaction_typed tx)"

lemma typed_plan_simps [simp]:
  "typed_plan (Inl f)" "typed_plan (Inr (tx, r)) = transaction_typed tx"
  "transaction_typed (transaction l ops) = list_all operation_typed ops"
  "typed_plan (replace_track l b' a')"
  "typed_plan (replace_clip l b a) \<longleftrightarrow> clip_typed b \<and> clip_typed a"
  by (auto simp: typed_plan_def transaction_typed_def replace_track_def replace_clip_def)

lemma typed_plan_returning [simp]: "typed_plan (returning g p) = typed_plan p"
  by (cases p) (auto simp: typed_plan_def returning_def)

lemma typed_plan_bind [intro!]: "(\<And>a. m = Inr a \<Longrightarrow> typed_plan (k a)) \<Longrightarrow> typed_plan (bind_r m k)"
  by (cases m) auto

lemma typed_plan_then [intro!]: "typed_plan k \<Longrightarrow> typed_plan (then_r m k)"
  by (cases m) auto

lemma create_clip_typed:
  assumes "range_typed r" "content_typed c"
  shows "typed_plan (arr_create_clip t n r c s)"
  using assms unfolding arr_create_clip_def
  by (auto simp: clip_typed_def fades_typed_def clip_fades_default_def allocate_clip_id_def split: if_splits)

lemma trim_left_typed:
  assumes "state_typed s"
  shows "typed_plan (trim_left i f s)"
  unfolding typed_plan_def
proof (intro allI impI)
  fix tx r assume "trim_left i f s = Inr (tx, r)"
  then obtain v content fades where v: "editable_clip s i = Inr v"
    and le: "fr_start (ac_placement v) \<le> f" "f < fr_end (ac_placement v)"
    and content: "advance_content (ac_content v) (range_offset f (fr_start (ac_placement v))) = Inr content"
    and fades: "trim_fades_left (ac_fades v) (frame_range_len (ac_placement v))
      (range_offset f (fr_start (ac_placement v))) = Inr fades"
    and tx: "tx = transaction ''Trim clip left'' [PutClip (Some v) (Some (v\<lparr>ac_placement :=
      (ac_placement v)\<lparr>fr_start := f\<rparr>, ac_content := content, ac_fades := fades\<rparr>))]"
    by (auto simp: trim_left_def replace_clip_def Let_def result_simps split: if_splits)
  have c: "clip_typed v" by (rule editable_typed[OF assms v])
  with le have "is_i64 f" by (auto simp: clip_typed_def range_typed_def is_i64_def)
  with c advance_typed[OF content] trim_fades_typed(1)[OF fades] show "transaction_typed tx"
    by (simp add: tx clip_typed_def range_typed_def)
qed

lemma trim_right_typed:
  assumes "state_typed s"
  shows "typed_plan (trim_right i f s)"
  unfolding typed_plan_def
proof (intro allI impI)
  fix tx r assume "trim_right i f s = Inr (tx, r)"
  then obtain v content fades where v: "editable_clip s i = Inr v"
    and le: "fr_start (ac_placement v) < f" "f \<le> fr_end (ac_placement v)"
    and content: "retreat_content_end (ac_content v) (range_offset (fr_end (ac_placement v)) f) = Inr content"
    and fades: "trim_fades_right (ac_fades v) (frame_range_len (ac_placement v))
      (range_offset (fr_end (ac_placement v)) f) = Inr fades"
    and tx: "tx = transaction ''Trim clip right'' [PutClip (Some v) (Some (v\<lparr>ac_placement :=
      (ac_placement v)\<lparr>fr_end := f\<rparr>, ac_content := content, ac_fades := fades\<rparr>))]"
    by (auto simp: trim_right_def replace_clip_def Let_def result_simps split: if_splits)
  have c: "clip_typed v" by (rule editable_typed[OF assms v])
  with le have "is_i64 f" by (auto simp: clip_typed_def range_typed_def is_i64_def)
  with c retreat_typed[OF content] trim_fades_typed(2)[OF fades] show "transaction_typed tx"
    by (simp add: tx clip_typed_def range_typed_def)
qed

lemma split_clip_typed:
  assumes "state_typed s"
  shows "typed_plan (split_clip i f s)"
  unfolding split_clip_def Let_def
proof (rule typed_plan_bind)
  fix b assume "editable_clip s i = Inr b"
  then have b: "clip_typed b" by (rule editable_typed[OF assms])
  show "typed_plan (if \<not> frame_range_contains (ac_placement b) f \<or> f = fr_start (ac_placement b)
      then fails AeInvalidSplit
      else bind_r (allocate_clip_id s) (\<lambda>right_id.
           bind_r (split_content (ac_content b) (range_offset f (fr_start (ac_placement b))))
             (\<lambda>(left_content, right_content).
           bind_r (split_fades (ac_fades b) (frame_range_len (ac_placement b)) (range_offset f (fr_start (ac_placement b))))
             (\<lambda>(left_fades, right_fades).
               Inr (transaction ''Split clip''
                 [PutClip (Some b) (Some (b\<lparr>ac_placement := (ac_placement b)\<lparr>fr_end := f\<rparr>,
                    ac_content := left_content, ac_fades := left_fades\<rparr>)),
                  PutClip None (Some (b\<lparr>ac_id := right_id, ac_placement := (ac_placement b)\<lparr>fr_start := f\<rparr>,
                    ac_content := right_content, ac_fades := right_fades\<rparr>))], right_id)))))"
    using b i64_between[of "fr_start (ac_placement b)" "fr_end (ac_placement b)" f]
    by (auto simp: clip_typed_def range_typed_def allocate_clip_id_def frame_range_contains_def
        dest: split_content_typed split_fades_typed split: if_splits)
qed

lemma plan_typed:
  assumes "state_typed s" "edit_typed ed"
  shows "typed_plan (plan_edit ed s)"
proof (cases ed)
  case (DeleteTrack i)
  then show ?thesis
    using remove_clips_typed[OF assms(1)] by (auto simp: delete_track_def)
next
  case (CreateAudioClip t name r a src)
  show ?thesis
    unfolding CreateAudioClip plan_edit.simps typed_plan_returning create_audio_clip_def
  proof (rule typed_plan_bind, rule typed_plan_bind, rule create_clip_typed)
    fix len ratio
    assume "source_range_len src = Inr len" "stretch_ratio_new len (frame_range_len r) = Inr ratio"
    then have "ra_source ratio \<le> u64_max" "ra_project ratio \<le> u64_max"
      using assms(2) frame_range_len_le[of r]
      by (auto simp: CreateAudioClip source_typed_def source_range_len_def stretch_ratio_new_def Let_def
          split: if_splits intro!: div_bound)
    then show "content_typed (AudioContent \<lparr>au_asset = a, au_source = src,
        au_playback = playback_transform_default\<lparr>pb_ratio := ratio\<rparr>, au_channels = AllChannels,
        au_loop_mode = LoopOff\<rparr>)"
      using assms(2) by (simp add: CreateAudioClip playback_transform_default_def)
  qed (use assms(2) CreateAudioClip in simp)
next
  case (DeleteClip i)
  then show ?thesis using editable_typed[OF assms(1)] by (auto simp: delete_clip_def)
next
  case (MoveClip i t f)
  with assms show ?thesis using editable_typed[OF assms(1)]
    by (auto simp: move_clip_def clip_typed_def dest: frame_range_from_len_typed)
next
  case (SlipClip i d)
  then show ?thesis using editable_typed[OF assms(1)]
    by (auto simp: slip_clip_def clip_typed_def dest: slip_typed)
next
  case (DuplicateClip i f)
  with assms show ?thesis
    by (auto simp: duplicate_clip_def require_clip_def ok_or_eq_Inr state_typed_def clip_typed_def
        allocate_clip_id_def dest: frame_range_from_len_typed split: if_splits)
next
  case (StretchResize i f alg pp)
  show ?thesis
    unfolding StretchResize plan_edit.simps typed_plan_returning stretch_resize_def
  proof (intro typed_plan_bind)
    fix v placement content
    assume v: "editable_clip s i = Inr v" and p: "frame_range_new (fr_start (ac_placement v)) f = Inr placement"
      and c: "stretch_content (ac_content v) (frame_range_len placement) alg pp = Inr content"
    have "clip_typed v" by (rule editable_typed[OF assms(1) v])
    moreover from this p assms(2) have "range_typed placement"
      by (auto simp: StretchResize clip_typed_def range_typed_def frame_range_new_def split: if_splits)
    ultimately show "typed_plan (replace_clip ''Stretch clip'' v (v\<lparr>ac_placement := placement,
        ac_content := content, ac_fades := clamp_fades (ac_fades v) (frame_range_len placement)\<rparr>))"
      using stretch_typed[OF c _ frame_range_len_le] by (simp add: clip_typed_def clamp_typed)
  qed
next
  case (SetFades i fs)
  with assms show ?thesis using editable_typed[OF assms(1)]
    by (auto simp: set_fades_def clip_typed_def)
qed (use assms in \<open>auto simp: arr_create_track_def reorder_track_def set_overlap_policy_def
      create_pattern_clip_def create_automation_clip_def put_marker_def Let_def
      create_clip_typed trim_left_typed trim_right_typed split_clip_typed\<close>)

section \<open>Typing is an invariant\<close>

lemma operation_state_typed:
  assumes "operation_apply op s = Inr t" "operation_typed op" "state_typed s"
  shows "state_typed t"
proof (cases op)
  case (PutTrack b a)
  with assms obtain m n where put: "put_entity ar_track_eq at_id ''track'' b a (as_tracks s) (as_next_track_id s) = Inr (m, n)"
    and t: "t = s\<lparr>as_tracks := m, as_next_track_id := n\<rparr>"
    by (auto simp: bind_pair_Inr)
  from put have "n \<le> u64_max" if "as_next_track_id s \<le> u64_max"
    by (rule put_entity_Inr) (use that in \<open>auto split: option.splits\<close>)
  with assms(3) show ?thesis by (simp add: state_typed_def t)
next
  case (PutClip b a)
  with assms obtain m n where put: "put_entity ar_clip_eq ac_id ''clip'' b a (as_clips s) (as_next_clip_id s) = Inr (m, n)"
    and t: "t = s\<lparr>as_clips := m, as_next_clip_id := n\<rparr>"
    by (auto simp: bind_pair_Inr)
  from put have "n \<le> u64_max" if "as_next_clip_id s \<le> u64_max"
    by (rule put_entity_Inr) (use that in \<open>auto split: option.splits\<close>)
  moreover from put have "clip_typed c" if "bt_get m i = Some c" for i c
    by (rule put_entity_Inr)
      (use that assms(2,3) PutClip in \<open>auto simp: state_typed_def split: option.splits if_splits\<close>)
  ultimately show ?thesis using assms(3) by (auto simp: state_typed_def t)
qed (use assms in \<open>auto simp: state_typed_def split: if_splits option.splits\<close>)

lemma run_state_typed:
  assumes "run_operations ops s = Inr t" "list_all operation_typed ops" "state_typed s"
  shows "state_typed t"
proof -
  obtain mid where mid: "apply_all ops s = Inr mid" "normalize_indexes mid = Inr t"
    using assms(1) by (auto simp: run_operations_Inr)
  have "state_typed mid"
    by (rule fold_r_invariant[where P = state_typed, OF mid(1) assms(3)])
      (use assms(2) operation_state_typed in \<open>auto simp: list_all_iff\<close>)
  with normalize_Inr[OF mid(2)] show ?thesis by (simp add: state_typed_def)
qed

definition entries_typed :: "arr_history_entry list \<Rightarrow> bool" where
  "entries_typed us \<longleftrightarrow> (\<forall>u \<in> set us. transaction_typed (ah_forward u) \<and> transaction_typed (ah_inverse u))"

definition editor_typed :: "arr_editor \<Rightarrow> bool" where
  "editor_typed e \<longleftrightarrow> state_typed (ae_state e) \<and> entries_typed (ae_undo e) \<and> entries_typed (ae_redo e)"

lemma entries_typed_simps [simp]:
  "entries_typed []" "entries_typed (us @ vs) \<longleftrightarrow> entries_typed us \<and> entries_typed vs"
  "entries_typed us \<Longrightarrow> entries_typed (trim_front n us)"
  "entries_typed us \<Longrightarrow> entries_typed (drop n us)"
  unfolding entries_typed_def by (auto dest: subsetD[OF set_trim_front] in_set_dropD)

lemma transaction_typed_inverse: "transaction_typed tx \<Longrightarrow> transaction_typed (transaction_inverse tx)"
proof -
  have "operation_typed op \<Longrightarrow> operation_typed (operation_inverse op)" for op
    by (cases op) simp_all
  then show "transaction_typed tx \<Longrightarrow> transaction_typed (transaction_inverse tx)"
    by (auto simp: transaction_typed_def transaction_inverse_def list_all_iff)
qed

lemma apply_editor_typed:
  assumes "editor_typed e" "transaction_typed tx"
  shows "editor_typed (snd (editor_apply tx e))"
proof (rule editor_apply_cases[of tx e "fst (editor_apply tx e)" "snd (editor_apply tx e)"])
  fix c assume "run_operations (tx_operations tx) (ae_state e) = Inr c"
    and e': "snd (editor_apply tx e) = e\<lparr>ae_state := c, ae_revision := ae_revision e + 1, ae_redo := [],
      ae_undo := (if 0 < ae_history_limit e then trim_front (ae_history_limit e) (ae_undo e @
         [\<lparr>ah_forward = tx, ah_inverse = transaction_inverse tx, ah_before_revision = ae_revision e,
           ah_after_revision = ae_revision e + 1\<rparr>]) else ae_undo e),
      ae_selection := retain_valid c (ae_selection e)\<rparr>"
  then have "state_typed c"
    using assms run_state_typed by (auto simp: editor_typed_def transaction_typed_def)
  moreover have "entries_typed [\<lparr>ah_forward = tx, ah_inverse = transaction_inverse tx,
      ah_before_revision = ae_revision e, ah_after_revision = ae_revision e + 1\<rparr>]"
    using assms(2) transaction_typed_inverse by (simp add: entries_typed_def)
  ultimately show ?thesis using assms(1) by (simp add: e' editor_typed_def)
qed (use assms in simp_all)

lemma perform_editor_typed:
  assumes "editor_typed e" "edit_typed ed"
  shows "editor_typed (snd (perform ed e))"
proof (rule perform_cases[of ed e])
  fix tx r assume plan: "plan_edit ed (ae_state e) = Inr (tx, r)"
    and e': "snd (perform ed e) = snd (editor_apply tx e)"
  have "transaction_typed tx"
    using plan_typed[OF _ assms(2), of "ae_state e"] assms(1) plan
    by (auto simp: typed_plan_def editor_typed_def)
  with apply_editor_typed[OF assms(1)] show ?thesis by (simp add: e')
qed (use assms in simp)

lemma undo_redo_editor_typed:
  assumes "editor_typed e"
  shows "editor_typed (snd (editor_undo e))" "editor_typed (snd (editor_redo e))"
proof -
  show "editor_typed (snd (editor_undo e))"
    using assms run_state_typed
    by (cases rule: arr_undo_cases[of e]) (auto simp: editor_typed_def entries_typed_def transaction_typed_def)
  show "editor_typed (snd (editor_redo e))"
    using assms run_state_typed
    by (cases rule: arr_redo_cases[of e]) (auto simp: editor_typed_def entries_typed_def transaction_typed_def)
qed

lemma later_editor_typed:
  "editor_later edit_typed (\<lambda>tx s. transaction_typed tx) start e \<Longrightarrow> editor_typed start \<Longrightarrow> editor_typed e"
proof (induction rule: editor_later.induct)
  case (later_limit e n)
  then show ?case by (simp add: editor_typed_def editor_set_history_limit_def Let_def)
qed (simp_all add: perform_editor_typed apply_editor_typed undo_redo_editor_typed,
    simp_all add: editor_typed_def select_frame saved_frame)

end
