(* ===== verification/Arrangement_Safety.thy ===== *)
theory Arrangement_Safety
  imports Arrangement_Typing
begin

text \<open>
  No edit of a well-typed editor panics: neither while it is planned, nor while its operations
  run, the indexes are normalized and the result is validated.
\<close>

lemma operation_no_panic: "operation_apply op s \<noteq> panics"
proof (cases op)
  case (PutTrack b a)
  then show ?thesis
    using put_entity_no_panic[of ar_track_eq at_id] by (auto simp: bind_r_panics)
next
  case (PutClip b a)
  then show ?thesis
    using put_entity_no_panic[of ar_clip_eq ac_id] by (auto simp: bind_r_panics)
qed (simp_all split: if_splits)

fun content_sane :: "clip_content \<Rightarrow> bool" where
  "content_sane (AudioContent a) \<longleftrightarrow> so_start (au_source a) \<le> so_end (au_source a)"
| "content_sane _ \<longleftrightarrow> True"

lemma content_ok_sane: "content_ok len c \<Longrightarrow> content_sane c"
  by (cases c) (auto simp: audio_ok_def Let_def)

lemma check_warp_no_panic: "check_warp_markers src len prev ms \<noteq> panics"
  by (induction ms arbitrary: prev) auto

lemma validate_audio_no_panic:
  assumes "so_start (au_source a) \<le> so_end (au_source a)"
  shows "validate_audio a len \<noteq> panics"
proof
  assume "validate_audio a len = panics"
  then have ok: "0 < ra_project (pb_ratio (au_playback a))"
    and panic: "ratio_source_offset (pb_ratio (au_playback a)) len = panics
      \<or> (\<exists>e. (case loop_mode_range (au_loop_mode a) of None \<Rightarrow> Inr () | Some r \<Rightarrow> fail_if
           (so_start r < so_start (au_source a) \<or> so_end (au_source a) < so_end r) (Failed e)) = panics)
      \<or> (\<exists>e. (case au_channels a of Channels cs \<Rightarrow> fail_if (cs = [] \<or> length (remdups cs) \<noteq> length cs) (Failed e)
           | _ \<Rightarrow> Inr ()) = panics)"
    using assms check_warp_no_panic
    by (auto simp: validate_audio_def Let_def no_panics source_range_len_def fail_if_eq_Inr)
  from panic ratio_no_panic[OF ok] show False
    by (auto simp: fail_if_panics split: option.splits channel_mapping.splits)
qed

lemma validate_fades_no_panic: "validate_fades fs len \<noteq> panics"
  using for_each_panics unfolding validate_fades_def by (metis fail_if_panics)

lemma check_clip_index_no_panic: "check_clip_index s i ov prev js \<noteq> panics"
  by (induction js arbitrary: prev) (auto simp: then_r_panics split: option.splits)

lemma validate_order_no_panic: "validate_order xs ys l \<noteq> panics"
  by (simp add: validate_order_def fail_if_panics)

lemma arr_validate_no_panic:
  assumes "bt_ok (as_clips s)" "\<And>i c. bt_get (as_clips s) i = Some c \<Longrightarrow> content_sane (ac_content c)"
  shows "arr_validate s \<noteq> panics"
proof
  assume panic: "arr_validate s = panics"
  have markers: "for_each (\<lambda>(f, m). fail_if (\<not> marker_is_valid m) (Failed (AeInvalidMarker f))) ms \<noteq> panics" for ms
  proof
    assume "for_each (\<lambda>(f, m). fail_if (\<not> marker_is_valid m) (Failed (AeInvalidMarker f))) ms = panics"
    from for_each_panics[OF this] show False by (auto simp: fail_if_panics)
  qed
  have tracks: "for_each (validate_ar_track s) ts \<noteq> panics" for ts
    by (auto dest!: for_each_panics simp: validate_ar_track_def no_panics check_clip_index_no_panic
        validate_order_no_panic)
  from panic have "for_each (validate_ar_clip s) (as_clips s) = panics"
    using markers tracks
    by (auto simp: arr_validate_def then_r_panics fail_if_panics validate_order_no_panic)
  then obtain i c where ic: "(i, c) \<in> set (as_clips s)" "validate_ar_clip s (i, c) = panics"
    by (auto dest!: for_each_panics)
  then have "content_sane (ac_content c)" using assms by (simp add: bt_get_iff)
  with ic(2) show False
    by (cases "ac_content c")
      (auto simp: validate_ar_clip_def no_panics validate_fades_no_panic validate_audio_no_panic
        split: if_splits option.splits)
qed

section \<open>Sane batches\<close>

fun operation_sane :: "arr_operation \<Rightarrow> bool" where
  "operation_sane (PutClip b a) \<longleftrightarrow>
     (\<forall>c. a = Some c \<longrightarrow> content_sane (ac_content c) \<and> (\<forall>d. b = Some d \<longrightarrow> ac_id d = ac_id c))"
| "operation_sane _ \<longleftrightarrow> True"

definition clips_sane :: "arr_state \<Rightarrow> bool" where
  "clips_sane s \<longleftrightarrow> clips_keyed (as_clips s)
     \<and> (\<forall>i c. bt_get (as_clips s) i = Some c \<longrightarrow> content_sane (ac_content c))"

lemma good_sane: "arr_good s \<Longrightarrow> clips_sane s"
proof -
  assume good: "arr_good s"
  then have "clips_keyed (as_clips s)" using integrity_keyed by (auto simp: arr_good_def)
  moreover have "content_sane (ac_content c)" if "bt_get (as_clips s) i = Some c" for i c
    using good_clip_ok[OF good that] by (auto simp: clip_ok_def intro: content_ok_sane)
  ultimately show ?thesis by (auto simp: clips_sane_def)
qed

lemma put_clip_sane:
  assumes put: "put_entity ar_clip_eq ac_id l b a m n = Inr (m', n')"
    and sane: "operation_sane (PutClip b a)"
    and m: "clips_keyed m" "\<And>i c. bt_get m i = Some c \<Longrightarrow> content_sane (ac_content c)"
  shows "clips_keyed m' \<and> (\<forall>i c. bt_get m' i = Some c \<longrightarrow> content_sane (ac_content c))"
proof -
  from put obtain k where k: "map_option ac_id (probe_of b a) = Some k"
    and m': "m' = (case a of Some v \<Rightarrow> bt_insert k v m | None \<Rightarrow> bt_remove k m)"
    by (rule put_entity_Inr)
  show ?thesis
  proof (cases a)
    case None
    with m show ?thesis by (auto simp: m' clips_keyed_def split: if_splits)
  next
    case (Some v)
    have "ac_id v = k" using k sane Some by (cases b) auto
    with m sane Some show ?thesis by (auto simp: m' clips_keyed_def split: if_splits)
  qed
qed

lemma operation_clips_sane:
  assumes "operation_apply op s = Inr t" "operation_sane op" "clips_sane s"
  shows "clips_sane t"
proof (cases op)
  case (PutClip b a)
  with assms(1) obtain m n where put: "put_entity ar_clip_eq ac_id ''clip'' b a (as_clips s) (as_next_clip_id s) = Inr (m, n)"
    and t: "t = s\<lparr>as_clips := m, as_next_clip_id := n\<rparr>"
    by (auto simp: bind_pair_Inr)
  have "operation_sane (PutClip b a)" using assms(2) unfolding PutClip .
  from put_clip_sane[OF put this] assms(3) show ?thesis by (auto simp: clips_sane_def t)
next
  case (PutTrack b a)
  then have "as_clips t = as_clips s" using assms(1) by (auto simp: bind_pair_Inr)
  with assms(3) show ?thesis by (simp add: clips_sane_def)
next
  case (SetTrackOrder b a)
  then have "as_clips t = as_clips s" using assms(1) by (auto split: if_splits)
  with assms(3) show ?thesis by (simp add: clips_sane_def)
next
  case (PutMarker f b a)
  then have "as_clips t = as_clips s" using assms(1) by (auto split: if_splits)
  with assms(3) show ?thesis by (simp add: clips_sane_def)
qed

lemma run_no_panic:
  assumes "clips_sane s" "list_all operation_sane ops"
  shows "run_operations ops s \<noteq> panics"
proof
  assume panic: "run_operations ops s = panics"
  have sane: "clips_sane mid" if "apply_all ops s = Inr mid" for mid
    by (rule fold_r_invariant[where P = clips_sane, OF that assms(1)])
      (use assms(2) operation_clips_sane in \<open>auto simp: list_all_iff\<close>)
  have "apply_all ops s \<noteq> panics"
    using fold_r_panics operation_no_panic by metis
  with panic obtain mid where mid: "apply_all ops s = Inr mid"
    and rest: "normalize_indexes mid = panics \<or> (\<exists>t. normalize_indexes mid = Inr t \<and> arr_validate t = panics)"
    by (auto simp: run_operations_def no_panics)
  have "clips_keyed (as_clips mid)" using sane[OF mid] by (simp add: clips_sane_def)
  then have "normalize_indexes mid \<noteq> panics" by (simp add: normalize_keyed)
  with rest obtain t where t: "normalize_indexes mid = Inr t" "arr_validate t = panics" by blast
  have "bt_ok (as_clips t)" "content_sane (ac_content c)" if "bt_get (as_clips t) i = Some c" for i c
    using sane[OF mid] that by (auto simp: normalize_frame(6)[OF t(1)] clips_sane_def clips_keyed_def)
  moreover have "bt_ok (as_clips t)"
    using sane[OF mid] by (simp add: normalize_frame(6)[OF t(1)] clips_sane_def clips_keyed_def)
  ultimately show False using arr_validate_no_panic[of t] t(2) by blast
qed

section \<open>Planning never panics and plans sane batches\<close>

definition safe_plan :: "(arr_transaction \<times> 'a) edit_result \<Rightarrow> bool" where
  "safe_plan p \<longleftrightarrow> p \<noteq> panics \<and> (\<forall>tx r. p = Inr (tx, r) \<longrightarrow> list_all operation_sane (tx_operations tx))"

lemma safe_plan_simps [simp]:
  "safe_plan (fails e)" "safe_plan (Inr (tx, r)) = list_all operation_sane (tx_operations tx)"
  "safe_plan (replace_track l b' a')"
  "safe_plan (replace_clip l b a) \<longleftrightarrow> content_sane (ac_content a) \<and> ac_id b = ac_id a"
  by (auto simp: safe_plan_def replace_track_def replace_clip_def)

lemma safe_plan_returning [simp]: "safe_plan (returning g p) = safe_plan p"
  by (cases p) (auto simp: safe_plan_def returning_def)

lemma safe_plan_bind:
  assumes "m \<noteq> panics" "\<And>a. m = Inr a \<Longrightarrow> safe_plan (k a)"
  shows "safe_plan (bind_r m k)"
  using assms by (cases m) (auto simp: safe_plan_def)

lemma safe_plan_then:
  assumes "m \<noteq> panics" "safe_plan k"
  shows "safe_plan (then_r m k)"
  using assms by (cases m) (auto simp: safe_plan_def)

lemma lookups_no_panic [simp]:
  "require_track s i \<noteq> panics" "require_clip s j \<noteq> panics" "editable_clip s j \<noteq> panics"
  "allocate_clip_id s \<noteq> panics" "allocate_track_id s \<noteq> panics"
proof -
  show *: "require_track s i \<noteq> panics" "require_clip s j \<noteq> panics" for i j
    by (simp_all add: require_track_def require_clip_def ok_or_panics)
  show "editable_clip s j \<noteq> panics"
    using * by (auto simp: editable_clip_def bind_r_panics split: if_splits)
qed (simp_all add: allocate_clip_id_def allocate_track_id_def)

lemma ranges_no_panic [simp]:
  "frame_range_from_len f n \<noteq> panics" "frame_range_new f g \<noteq> panics" "stretch_ratio_new a b \<noteq> panics"
  by (auto simp: frame_range_from_len_def frame_range_new_def frame_checked_add_def stretch_ratio_new_def
      Let_def bind_r_panics)

lemma advance_sane: "advance_content c d = Inr c' \<Longrightarrow> content_sane c \<Longrightarrow> content_sane c'"
  by (cases c) (auto simp: advance_audio_def source_range_len_def result_simps split: if_splits)

lemma retreat_sane: "retreat_content_end c d = Inr c' \<Longrightarrow> content_sane c \<Longrightarrow> content_sane c'"
  by (cases c) (auto simp: source_range_len_def result_simps split: if_splits)

lemma slip_sane:
  assumes "slip_content c d = Inr c'" "content_sane c"
  shows "content_sane c'"
proof (cases c)
  case (AudioContent a)
  let ?s = "so_start (au_source a)" and ?e = "so_end (au_source a)"
  have le: "?s \<le> ?e" using assms(2) AudioContent by simp
  have mono: "nat ((int ?s + v) mod 2 ^ 64) \<le> nat ((int ?e + v) mod 2 ^ 64)"
    if "\<not> (int ?s + v < 0 \<or> int u64_max < int ?e + v)" for v
  proof -
    have "(int ?s + v) mod 2 ^ 64 = int ?s + v" "(int ?e + v) mod 2 ^ 64 = int ?e + v"
      using that le by (auto simp: u64_max_def intro!: mod_pos_pos_trivial)
    with le show ?thesis by simp
  qed
  from assms(1) AudioContent obtain n where n: "ratio_source_offset (pb_ratio (au_playback a)) (nat \<bar>d\<bar>) = Inr n"
    by (auto simp: result_simps)
  show ?thesis
    using assms(1) mono[of "int n * (if d < 0 then - 1 else 1)"]
    by (auto simp: AudioContent n result_simps Let_def simp del: nat_le_iff split: if_split_asm)
qed (use assms in \<open>auto simp: result_simps\<close>)

lemma split_sane:
  assumes "split_content c d = Inr (l, r)" "content_ok len c" "d \<le> len"
  shows "content_sane l \<and> content_sane r"
proof (cases c)
  case (AudioContent a)
  with assms obtain n where n: "ratio_source_offset (pb_ratio (au_playback a)) d = Inr n"
    by (auto simp: result_simps)
  have "n \<le> so_end (au_source a) - so_start (au_source a)"
    using audio_offset_le[OF _ n assms(3)] assms(2) AudioContent by simp
  with AudioContent assms(1,2) n show ?thesis
    by (auto simp: result_simps Let_def audio_ok_def split: if_splits)
qed (use assms in \<open>auto simp: result_simps\<close>)

lemma stretch_sane: "stretch_content c len alg pp = Inr c' \<Longrightarrow> content_sane c \<Longrightarrow> content_sane c'"
  by (cases c) (auto simp: result_simps split: if_splits)

lemma stretch_no_panic: "content_sane c \<Longrightarrow> stretch_content c len alg pp \<noteq> panics"
  by (cases c) (auto simp: bind_r_panics source_range_len_def)

lemma range_offset_le:
  assumes "fr_start r \<le> f" "f \<le> fr_end r"
  shows "range_offset f (fr_start r) \<le> frame_range_len r" "range_offset (fr_end r) f \<le> frame_range_len r"
proof -
  have mono: "nat (sat_i64 x mod 2 ^ 64) \<le> nat (sat_i64 y mod 2 ^ 64)" if "0 \<le> x" "x \<le> y" for x y
  proof -
    have "0 \<le> sat_i64 x" "sat_i64 x \<le> sat_i64 y" "sat_i64 y < 2 ^ 64"
      using that sat_i64_mono sat_i64_lower[of 0 x] by (simp_all add: sat_i64_def range_simps)
    then show ?thesis by (simp add: mod_pos_pos_trivial)
  qed
  show "range_offset f (fr_start r) \<le> frame_range_len r" "range_offset (fr_end r) f \<le> frame_range_len r"
    unfolding range_offset_def frame_range_len_def by (rule mono; use assms in simp)+
qed

lemma editable_ok:
  assumes "arr_good s" "editable_clip s i = Inr c"
  shows "content_ok (frame_range_len (ac_placement c)) (ac_content c)"
    "fades_ok (frame_range_len (ac_placement c)) (ac_fades c)" "content_sane (ac_content c)"
  using good_clip_ok[OF assms(1) editable_get[OF assms(2)]] content_ok_sane by (auto simp: clip_ok_def)

lemma remove_clips_safe:
  "remove_clips s js \<noteq> panics" "remove_clips s js = Inr ops \<Longrightarrow> list_all operation_sane ops"
  by (induction js arbitrary: ops) (auto simp: bind_r_panics result_simps)

lemma create_clip_safe: "content_sane c \<Longrightarrow> safe_plan (arr_create_clip t n r c s)"
  unfolding arr_create_clip_def by (intro safe_plan_bind) (simp_all add: transaction_def)

lemma create_audio_safe:
  assumes "so_start src \<le> so_end src"
  shows "safe_plan (create_audio_clip t n r a src s)"
  unfolding create_audio_clip_def
  by (intro safe_plan_bind create_clip_safe) (use assms in \<open>simp_all add: source_range_len_def\<close>)

lemma delete_track_safe: "safe_plan (delete_track i s)"
  unfolding delete_track_def
  by (intro safe_plan_bind) (auto simp: transaction_def remove_clips_safe)

lemma reorder_track_safe: "safe_plan (reorder_track i k s)"
  unfolding reorder_track_def by (rule safe_plan_bind) (auto simp: transaction_def Let_def)

lemma move_clip_safe: "arr_good s \<Longrightarrow> safe_plan (move_clip i t f s)"
  unfolding move_clip_def by (intro safe_plan_bind) (simp_all add: editable_ok)

lemma duplicate_clip_safe:
  assumes "arr_good s"
  shows "safe_plan (duplicate_clip i f s)"
proof -
  have "content_sane (ac_content c)" if "require_clip s i = Inr c" for c
    using that good_sane[OF assms] by (auto simp: require_clip_def ok_or_eq_Inr clips_sane_def)
  then show ?thesis
    unfolding duplicate_clip_def by (intro safe_plan_bind) (simp_all add: transaction_def)
qed

lemma trim_fades_no_panic:
  assumes "fades_ok extent fs" "n \<le> extent"
  shows "trim_fades_left fs extent n \<noteq> panics" "trim_fades_right fs extent n \<noteq> panics"
  using split_fades_no_panic[OF assms(1), of n] split_fades_no_panic[OF assms(1), of "extent - n"] assms(2)
  by (auto simp: trim_fades_left_def trim_fades_right_def)

lemma trim_left_safe:
  assumes "arr_good s"
  shows "safe_plan (trim_left i f s)"
  unfolding trim_left_def Let_def
proof (rule safe_plan_bind)
  fix v assume v: "editable_clip s i = Inr v"
  note ok = editable_ok[OF assms v]
  show "safe_plan (if f < fr_start (ac_placement v) \<or> fr_end (ac_placement v) \<le> f then fails AeInvalidTrim
    else bind_r (advance_content (ac_content v) (range_offset f (fr_start (ac_placement v)))) (\<lambda>content.
      bind_r (trim_fades_left (ac_fades v) (frame_range_len (ac_placement v)) (range_offset f (fr_start (ac_placement v))))
        (\<lambda>fades. replace_clip ''Trim clip left'' v (v\<lparr>ac_placement := (ac_placement v)\<lparr>fr_start := f\<rparr>,
          ac_content := content, ac_fades := fades\<rparr>))))"
  proof (cases "f < fr_start (ac_placement v) \<or> fr_end (ac_placement v) \<le> f")
    case False
    then have le: "range_offset f (fr_start (ac_placement v)) \<le> frame_range_len (ac_placement v)"
      using range_offset_le(1)[of "ac_placement v" f] by simp
    have "safe_plan (bind_r (advance_content (ac_content v) (range_offset f (fr_start (ac_placement v)))) (\<lambda>content.
      bind_r (trim_fades_left (ac_fades v) (frame_range_len (ac_placement v)) (range_offset f (fr_start (ac_placement v))))
        (\<lambda>fades. replace_clip ''Trim clip left'' v (v\<lparr>ac_placement := (ac_placement v)\<lparr>fr_start := f\<rparr>,
          ac_content := content, ac_fades := fades\<rparr>))))"
      using ok advance_sane trim_fades_no_panic(1)[OF ok(2) le]
      by (intro safe_plan_bind) (simp_all add: advance_content_no_panic)
    with False show ?thesis by simp
  qed simp
qed simp

lemma trim_right_safe:
  assumes "arr_good s"
  shows "safe_plan (trim_right i f s)"
  unfolding trim_right_def Let_def
proof (rule safe_plan_bind)
  fix v assume v: "editable_clip s i = Inr v"
  note ok = editable_ok[OF assms v]
  show "safe_plan (if f \<le> fr_start (ac_placement v) \<or> fr_end (ac_placement v) < f then fails AeInvalidTrim
    else bind_r (retreat_content_end (ac_content v) (range_offset (fr_end (ac_placement v)) f)) (\<lambda>content.
      bind_r (trim_fades_right (ac_fades v) (frame_range_len (ac_placement v)) (range_offset (fr_end (ac_placement v)) f))
        (\<lambda>fades. replace_clip ''Trim clip right'' v (v\<lparr>ac_placement := (ac_placement v)\<lparr>fr_end := f\<rparr>,
          ac_content := content, ac_fades := fades\<rparr>))))"
  proof (cases "f \<le> fr_start (ac_placement v) \<or> fr_end (ac_placement v) < f")
    case False
    then have le: "range_offset (fr_end (ac_placement v)) f \<le> frame_range_len (ac_placement v)"
      using range_offset_le(2)[of "ac_placement v" f] by simp
    have "safe_plan (bind_r (retreat_content_end (ac_content v) (range_offset (fr_end (ac_placement v)) f)) (\<lambda>content.
      bind_r (trim_fades_right (ac_fades v) (frame_range_len (ac_placement v)) (range_offset (fr_end (ac_placement v)) f))
        (\<lambda>fades. replace_clip ''Trim clip right'' v (v\<lparr>ac_placement := (ac_placement v)\<lparr>fr_end := f\<rparr>,
          ac_content := content, ac_fades := fades\<rparr>))))"
      using ok retreat_sane trim_fades_no_panic(2)[OF ok(2) le]
      by (intro safe_plan_bind) (simp_all add: retreat_no_panic)
    with False show ?thesis by simp
  qed simp
qed simp

lemma slip_clip_safe: "arr_good s \<Longrightarrow> safe_plan (slip_clip i d s)"
  unfolding slip_clip_def
  by (intro safe_plan_bind) (auto dest: editable_ok slip_no_panic slip_sane)

lemma stretch_resize_safe: "arr_good s \<Longrightarrow> safe_plan (stretch_resize i f alg pp s)"
  unfolding stretch_resize_def
  by (intro safe_plan_bind) (auto simp: stretch_no_panic dest: editable_ok(3) stretch_sane)

lemma set_fades_safe: "arr_good s \<Longrightarrow> safe_plan (set_fades i fs s)"
  unfolding set_fades_def
  by (intro safe_plan_bind safe_plan_then) (auto simp: validate_fades_no_panic editable_ok)

lemma split_clip_safe:
  assumes "arr_good s" "state_typed s"
  shows "safe_plan (split_clip i f s)"
  unfolding split_clip_def Let_def
proof (rule safe_plan_bind)
  fix b assume b: "editable_clip s i = Inr b"
  let ?left = "range_offset f (fr_start (ac_placement b))" and ?extent = "frame_range_len (ac_placement b)"
  note ok = editable_ok[OF assms(1) b]
  have typed: "content_typed (ac_content b)"
    using editable_typed[OF assms(2) b] by (simp add: clip_typed_def)
  show "safe_plan (if \<not> frame_range_contains (ac_placement b) f \<or> f = fr_start (ac_placement b)
      then fails AeInvalidSplit
      else bind_r (allocate_clip_id s) (\<lambda>right_id.
           bind_r (split_content (ac_content b) ?left) (\<lambda>(left_content, right_content).
           bind_r (split_fades (ac_fades b) ?extent ?left) (\<lambda>(left_fades, right_fades).
               Inr (transaction ''Split clip''
                 [PutClip (Some b) (Some (b\<lparr>ac_placement := (ac_placement b)\<lparr>fr_end := f\<rparr>,
                    ac_content := left_content, ac_fades := left_fades\<rparr>)),
                  PutClip None (Some (b\<lparr>ac_id := right_id, ac_placement := (ac_placement b)\<lparr>fr_start := f\<rparr>,
                    ac_content := right_content, ac_fades := right_fades\<rparr>))], right_id)))))"
    (is "safe_plan (if ?bad then _ else ?rest)")
  proof (cases ?bad)
    case False
    then have le: "?left \<le> ?extent"
      by (intro range_offset_le(1)) (auto simp: frame_range_contains_def)
    have content: "split_content (ac_content b) ?left \<noteq> panics"
      using typed by (intro split_no_panic[OF ok(1) le]) (simp add: source_typed_def)
    obtain l r where fades: "split_fades (ac_fades b) ?extent ?left = Inr (l, r)"
      using split_fades_no_panic[OF ok(2) le] by blast
    have "safe_plan ?rest"
      by (intro safe_plan_bind lookups_no_panic content)
        (auto simp: fades transaction_def dest: split_sane[OF _ ok(1) le])
    with False show ?thesis by simp
  qed simp
qed simp

text \<open>
  The fields of a \<open>SourceRange\<close> are public, so a caller can pass one whose end lies before its
  start; \<open>create_audio_clip\<close> takes its length before anything is validated.
\<close>

fun inverted_source :: "edit \<Rightarrow> bool" where
  "inverted_source (CreateAudioClip t name r a src) \<longleftrightarrow> so_end src < so_start src"
| "inverted_source _ \<longleftrightarrow> False"

text \<open>Every other plan is sane: it does not panic, and neither will its batch.\<close>

lemma plan_safe:
  assumes good: "arr_good s" and typed: "state_typed s" "edit_typed ed" and src: "\<not> inverted_source ed"
  shows "safe_plan (plan_edit ed s)"
proof (cases ed)
  case (CreateTrack name kind)
  then show ?thesis
    unfolding CreateTrack plan_edit.simps safe_plan_returning arr_create_track_def
    by (intro safe_plan_bind) (simp_all add: transaction_def)
next
  case (SetOverlapPolicy i p)
  then show ?thesis
    unfolding SetOverlapPolicy plan_edit.simps safe_plan_returning set_overlap_policy_def
    by (intro safe_plan_bind) simp_all
next
  case (DeleteClip i)
  then show ?thesis
    unfolding DeleteClip plan_edit.simps safe_plan_returning delete_clip_def
    by (intro safe_plan_bind) (simp_all add: transaction_def)
next
  case (CreateAudioClip t name r a x)
  then show ?thesis using src by (simp add: create_audio_safe)
qed (use assms in \<open>simp_all add: delete_track_safe reorder_track_safe create_pattern_clip_def
    create_automation_clip_def create_clip_safe move_clip_safe trim_left_safe trim_right_safe slip_clip_safe
    split_clip_safe duplicate_clip_safe stretch_resize_safe set_fades_safe put_marker_def transaction_def\<close>)

lemma apply_no_panic:
  assumes "arr_good (ae_state e)" "list_all operation_sane (tx_operations tx)"
  shows "fst (editor_apply tx e) \<noteq> panics"
  using run_no_panic[OF good_sane[OF assms(1)] assms(2)]
  by (auto simp: editor_apply_def Let_def split: sum.splits)

lemma perform_no_panic:
  assumes "arr_good (ae_state e)" "state_typed (ae_state e)" "edit_typed ed" "\<not> inverted_source ed"
  shows "fst (perform ed e) \<noteq> panics"
proof (cases "plan_edit ed (ae_state e)")
  case (Inl f)
  then show ?thesis using plan_safe[OF assms] by (simp add: perform_def commit_def safe_plan_def)
next
  case (Inr p)
  obtain tx r where p: "p = (tx, r)" by (cases p)
  have "list_all operation_sane (tx_operations tx)"
    using plan_safe[OF assms] Inr p by (simp add: safe_plan_def)
  from apply_no_panic[OF assms(1) this] show ?thesis
    by (auto simp: perform_def commit_def Inr p split: sum.splits prod.splits)
qed

lemma perform_inverted: "inverted_source ed \<Longrightarrow> fst (perform ed e) = panics"
  by (cases ed) (simp_all add: perform_def commit_def create_audio_clip_def source_range_len_def returning_def)

end
