(* ===== verification/Arrangement_Clips.thy ===== *)
theory Arrangement_Clips
  imports Arrangement_Safety
begin

text \<open>
  What the edits that make clips promise: the stretch ratio is exact, a split plays what the clip
  played, identifiers are fresh and never used again, and clips on a rejecting track are disjoint.
\<close>

section \<open>The stretch ratio\<close>

lemma gcd_loop_gcd: "gcd_loop l r = gcd l r"
proof (induction l r rule: gcd_loop.induct)
  case (1 l r)
  then show ?case
    by (cases "r = 0") (simp_all add: gcd_loop.simps[of l 0] gcd_loop.simps[of l r] flip: gcd_red_nat)
qed

lemma stretch_ratio_exact:
  assumes "stretch_ratio_new s p = Inr r" "s \<le> u64_max"
  shows "coprime (ra_source r) (ra_project r)" "ra_source r * p = s * ra_project r"
    "ratio_source_offset r p = Inr s"
proof -
  let ?d = "gcd s p"
  from assms(1) have pos: "0 < s" "0 < p" and r: "r = \<lparr>ra_source = s div ?d, ra_project = p div ?d\<rparr>"
    by (auto simp: stretch_ratio_new_def Let_def gcd_loop_gcd split: if_splits)
  then have "coprime (s div ?d) (p div ?d)" by (intro div_gcd_coprime) simp
  then show "coprime (ra_source r) (ra_project r)" by (simp add: r)
  have swap: "s div ?d * p = s * (p div ?d)" by (simp add: div_mult_swap flip: dvd_div_mult)
  then show "ra_source r * p = s * ra_project r" by (simp add: r)
  have "0 < p div ?d" using pos by (simp add: div_greater_zero_iff gcd_le2_nat)
  moreover have "p * (s div ?d) = s * (p div ?d)" using swap by (simp add: mult.commute)
  ultimately show "ratio_source_offset r p = Inr s"
    using assms(2) by (simp add: ratio_source_offset_def Let_def r)
qed

text \<open>Source offsets add up: a clip cut twice is cut where one cut would cut it.\<close>

lemma ratio_source_offset_add:
  assumes "ratio_source_offset r d = Inr m" "ratio_source_offset r d' = Inr n" "m + n \<le> u64_max"
  shows "ratio_source_offset r (d + d') = Inr (m + n)"
  using assms by (simp add: ratio_source_offset_Inr algebra_simps)

section \<open>Clips on a rejecting track\<close>

definition placed :: "ar_clip \<Rightarrow> bool" where
  "placed c \<longleftrightarrow> fr_start (ac_placement c) < fr_end (ac_placement c)"

definition before_clip :: "ar_clip \<Rightarrow> ar_clip \<Rightarrow> bool" where
  "before_clip a b \<longleftrightarrow> placed a \<and> placed b \<and> fr_end (ac_placement a) \<le> fr_start (ac_placement b)"

lemma before_clip_transp: "transp before_clip"
  by (rule transpI) (auto simp: before_clip_def placed_def)

lemma clip_follows_before:
  "clip_follows RejectOverlaps a b \<Longrightarrow> placed a \<Longrightarrow> placed b \<Longrightarrow> before_clip a b"
  by (auto simp: clip_follows_def before_clip_def placed_def frame_range_intersects_def)

lemma successively_mono:
  "successively P xs \<Longrightarrow> (\<And>x y. x \<in> set xs \<Longrightarrow> y \<in> set xs \<Longrightarrow> P x y \<Longrightarrow> Q x y) \<Longrightarrow> successively Q xs"
  by (induction P xs rule: successively.induct) auto

lemma reject_disjoint:
  assumes int: "arr_wf s" "arr_integrity s"
    and t: "bt_get (as_tracks s) i = Some t" "at_overlap t = RejectOverlaps"
    and nonempty: "\<And>j c. bt_get (as_clips s) j = Some c \<Longrightarrow> ac_track_id c = i \<Longrightarrow> placed c"
    and c: "bt_get (as_clips s) j = Some c" "ac_track_id c = i"
    and d: "bt_get (as_clips s) k = Some d" "ac_track_id d = i" and "j \<noteq> k"
  shows "\<not> frame_range_intersects (ac_placement c) (ac_placement d)"
proof -
  let ?cs = "indexed_clips (as_clips s) (at_clip_ids t)"
  have ok: "track_ok (as_clips s) i t" using int(2) t(1) by (simp add: arr_integrity_def)
  have "successively (clip_follows RejectOverlaps) ?cs" using ok t(2) by (simp add: track_ok_def)
  moreover have all: "placed x" if "x \<in> set ?cs" for x
    using that ok nonempty by (force simp: indexed_clips_def track_ok_def)
  ultimately have "successively before_clip ?cs"
    by (auto elim!: successively_mono intro: clip_follows_before all)
  then have sorted: "sorted_wrt before_clip ?cs"
    by (rule iffD1[OF successively_conv_sorted_wrt[OF before_clip_transp]])
  have "j \<in> set (at_clip_ids t)" "k \<in> set (at_clip_ids t)"
    using ok c d unfolding track_ok_def by blast+
  then obtain m n where mn: "m < length (at_clip_ids t)" "at_clip_ids t ! m = j"
      "n < length (at_clip_ids t)" "at_clip_ids t ! n = k"
    by (auto simp: in_set_conv_nth)
  with c d have at: "?cs ! m = c" "?cs ! n = d" by (simp_all add: indexed_clips_def)
  have "m < n \<or> n < m" using mn \<open>j \<noteq> k\<close> by (metis linorder_neqE_nat)
  then have "before_clip c d \<or> before_clip d c"
    using sorted_wrt_nth_less[OF sorted] mn at by (metis indexed_clips_def length_map)
  then show ?thesis by (auto simp: before_clip_def frame_range_intersects_def)
qed

section \<open>New clips\<close>

lemma put_new_clip:
  assumes "run_operations [PutClip None (Some a)] s = Inr t"
  shows "bt_get (as_clips s) (ac_id a) = None"
    "bt_get (as_clips t) j = (if j = ac_id a then Some a else bt_get (as_clips s) j)"
proof -
  obtain mid where "operation_apply (PutClip None (Some a)) s = Inr mid" "as_clips t = as_clips mid"
    using run_clips[OF assms] by (auto split: sum.splits)
  then obtain n where "put_entity ar_clip_eq ac_id ''clip'' None (Some a) (as_clips s) (as_next_clip_id s)
      = Inr (as_clips t, n)"
    by (auto simp: bind_pair_Inr)
  then show "bt_get (as_clips s) (ac_id a) = None"
    "bt_get (as_clips t) j = (if j = ac_id a then Some a else bt_get (as_clips s) j)"
    by (elim put_entity_Inr; auto)+
qed

text \<open>One clip replaced and a new one added, as a split does.\<close>

lemma replace_and_add:
  assumes "arr_good s" "run_operations [PutClip (Some b) (Some a), PutClip None (Some n)] s = Inr t"
    and b: "bt_get (as_clips s) i = Some b" and "ac_id n \<noteq> i"
  shows "bt_get (as_clips s) (ac_id n) = None"
    "bt_get (as_clips t) j = (if j = ac_id n then Some n else if j = i then Some a else bt_get (as_clips s) j)"
proof -
  have [simp]: "ac_id b = i"
    using assms(1) b integrity_keyed[of s] by (auto simp: arr_good_def clips_keyed_def)
  obtain mid mid' where mid: "operation_apply (PutClip (Some b) (Some a)) s = Inr mid"
      "operation_apply (PutClip None (Some n)) mid = Inr mid'" "as_clips t = as_clips mid'"
    using run_clips[OF assms(2)] by (auto split: sum.splits)
  have first: "bt_get (as_clips mid) j = (if j = i then Some a else bt_get (as_clips s) j)" for j
    using mid(1) by (auto simp: bind_pair_Inr elim!: put_entity_Inr)
  have second: "bt_get (as_clips mid) (ac_id n) = None"
    "bt_get (as_clips t) j = (if j = ac_id n then Some n else bt_get (as_clips mid) j)" for j
    using mid(2,3) by (auto simp: bind_pair_Inr elim!: put_entity_Inr)
  show "bt_get (as_clips s) (ac_id n) = None" using second(1) first assms(4) by (simp split: if_splits)
  show "bt_get (as_clips t) j = (if j = ac_id n then Some n else if j = i then Some a else bt_get (as_clips s) j)"
    by (simp add: second(2) first)
qed

text \<open>The clips an outcome names are fresh.\<close>

lemma allocate_clip_Inr: "allocate_clip_id s = Inr j \<longleftrightarrow> as_next_clip_id s + 1 \<le> u64_max \<and> j = Id (as_next_clip_id s)"
  by (auto simp: allocate_clip_id_def)

lemma create_plan:
  assumes "arr_create_clip t name p c s = Inr (tx, j)"
  shows "j = Id (as_next_clip_id s) \<and> (\<exists>a. ac_id a = j \<and> tx_operations tx = [PutClip None (Some a)])"
  using assms by (auto simp: arr_create_clip_def result_simps allocate_clip_Inr)

lemma split_plan:
  assumes "split_clip i f s = Inr (tx, j)"
  shows "\<exists>b content fades left_fades. editable_clip s i = Inr b
    \<and> fr_start (ac_placement b) < f \<and> f < fr_end (ac_placement b)
    \<and> j = Id (as_next_clip_id s)
    \<and> split_content (ac_content b) (range_offset f (fr_start (ac_placement b))) = Inr content
    \<and> split_fades (ac_fades b) (frame_range_len (ac_placement b)) (range_offset f (fr_start (ac_placement b)))
        = Inr (left_fades, fades)
    \<and> tx_operations tx = [PutClip (Some b) (Some (b\<lparr>ac_placement := (ac_placement b)\<lparr>fr_end := f\<rparr>,
          ac_content := fst content, ac_fades := left_fades\<rparr>)),
        PutClip None (Some (b\<lparr>ac_id := j, ac_placement := (ac_placement b)\<lparr>fr_start := f\<rparr>,
          ac_content := snd content, ac_fades := fades\<rparr>))]"
  using assms
  by (auto simp: split_clip_def Let_def result_simps allocate_clip_Inr frame_range_contains_def split: if_splits)

lemma new_clip_plan:
  assumes "plan_edit ed s = Inr (tx, NewClip j)"
  shows "j = Id (as_next_clip_id s) \<and> (\<exists>ops a. ac_id a = j \<and> tx_operations tx = ops @ [PutClip None (Some a)])"
proof (cases ed)
  case (CreateAudioClip t name p a src)
  with assms obtain c where "arr_create_clip t name p c s = Inr (tx, j)"
    by (auto simp: returning_Inr create_audio_clip_def result_simps)
  from create_plan[OF this] show ?thesis by fastforce
next
  case (CreatePatternClip t name p pat)
  with assms obtain c where "arr_create_clip t name p c s = Inr (tx, j)"
    by (auto simp: returning_Inr create_pattern_clip_def)
  from create_plan[OF this] show ?thesis by fastforce
next
  case (CreateAutomationClip t name p par)
  with assms obtain c where "arr_create_clip t name p c s = Inr (tx, j)"
    by (auto simp: returning_Inr create_automation_clip_def)
  from create_plan[OF this] show ?thesis by fastforce
next
  case (SplitClip i f)
  with assms have "split_clip i f s = Inr (tx, j)" by (simp add: returning_Inr)
  from split_plan[OF this] show ?thesis by fastforce
next
  case (DuplicateClip i f)
  with assms show ?thesis
    by (auto simp: returning_Inr duplicate_clip_def result_simps allocate_clip_Inr)
qed (use assms in \<open>auto simp: returning_Inr\<close>)

lemma fresh_clip:
  assumes good: "arr_good (ae_state e)" and edit: "perform ed e = (Inr (NewClip j), e')"
  shows "raw j = as_next_clip_id (ae_state e)" "bt_get (as_clips (ae_state e)) j = None"
    "bt_get (as_clips (ae_state e')) j \<noteq> None" "raw j < as_next_clip_id (ae_state e')"
proof -
  have int: "arr_integrity (ae_state e)" using good by (simp add: arr_good_def)
  show new: "bt_get (as_clips (ae_state e')) j \<noteq> None" and raw: "raw j = as_next_clip_id (ae_state e)"
  proof -
    obtain tx where plan: "plan_edit ed (ae_state e) = Inr (tx, NewClip j)"
      and run: "(e' = e \<and> list_all operation_is_noop (tx_operations tx))
        \<or> (\<exists>c. run_operations (tx_operations tx) (ae_state e) = Inr c \<and> ae_state e' = c)"
      by (rule perform_Inr[OF edit])
    obtain ops a where a: "ac_id a = j" "tx_operations tx = ops @ [PutClip None (Some a)]"
      using new_clip_plan[OF plan] by blast
    with run have "run_operations (ops @ [PutClip None (Some a)]) (ae_state e) = Inr (ae_state e')" by auto
    from run_clips[OF this] obtain m' where m': "apply_all (ops @ [PutClip None (Some a)]) (ae_state e) = Inr m'"
      "as_clips (ae_state e') = as_clips m'" by blast
    obtain m where "operation_apply (PutClip None (Some a)) m = Inr m'"
    proof (cases "apply_all ops (ae_state e)")
      case (Inr m)
      with m'(1) have "operation_apply (PutClip None (Some a)) m = Inr m'"
        by (simp add: fold_r_append del: operation_apply.simps split: sum.splits)
      then show thesis by (rule that)
    qed (use m'(1) in \<open>simp add: fold_r_append\<close>)
    then show "bt_get (as_clips (ae_state e')) j \<noteq> None"
      using a(1) m'(2) by (auto simp: bind_pair_Inr elim!: put_entity_Inr)
    show "raw j = as_next_clip_id (ae_state e)" using new_clip_plan[OF plan] by simp
  qed
  show "bt_get (as_clips (ae_state e)) j = None"
    using int raw by (cases "bt_get (as_clips (ae_state e)) j") (auto simp: arr_integrity_def counters_ok_def)
  have "arr_good (ae_state e')" 
    using perform_Inr[OF edit] run_good[OF good] good by metis
  then show "raw j < as_next_clip_id (ae_state e')"
    using new by (auto simp: arr_good_def arr_integrity_def counters_ok_def)
qed

section \<open>Splitting\<close>

lemma split_effect:
  assumes good: "arr_good (ae_state e)" and edit: "perform (SplitClip i f) e = (Inr (NewClip j), e')"
    and b: "bt_get (as_clips (ae_state e)) i = Some b"
    and fits: "fr_end (ac_placement b) - fr_start (ac_placement b) \<le> i64_max"
  shows "\<exists>l r. bt_get (as_clips (ae_state e')) i = Some l \<and> bt_get (as_clips (ae_state e')) j = Some r
      \<and> l = b\<lparr>ac_placement := (ac_placement b)\<lparr>fr_end := f\<rparr>, ac_content := ac_content l, ac_fades := ac_fades l\<rparr>
      \<and> r = b\<lparr>ac_id := j, ac_placement := (ac_placement b)\<lparr>fr_start := f\<rparr>, ac_content := ac_content r,
          ac_fades := ac_fades r\<rparr>
      \<and> content_parts (ac_content b) (ac_content l) (ac_content r)
      \<and> fade_parts (cf_in (ac_fades b)) (cf_in (ac_fades l)) (cf_in (ac_fades r))
      \<and> fade_parts (cf_out (ac_fades b)) (cf_out (ac_fades l)) (cf_out (ac_fades r))
      \<and> (\<forall>p. clip_position l p = clip_position b p \<and> clip_position r p = clip_position b p)"
    and "fr_start (ac_placement b) < f \<and> f < fr_end (ac_placement b)"
    and "bt_get (as_clips (ae_state e)) j = None"
    and "k \<noteq> i \<Longrightarrow> k \<noteq> j \<Longrightarrow> bt_get (as_clips (ae_state e')) k = bt_get (as_clips (ae_state e)) k"
proof -
  let ?p = "ac_placement b" and ?s = "ae_state e" and ?t = "ae_state e'"
  obtain tx where plan: "plan_edit (SplitClip i f) ?s = Inr (tx, NewClip j)"
    and run: "(e' = e \<and> list_all operation_is_noop (tx_operations tx))
        \<or> (\<exists>c. run_operations (tx_operations tx) ?s = Inr c \<and> ae_state e' = c)"
    by (rule perform_Inr[OF edit])
  from plan have "split_clip i f ?s = Inr (tx, j)" by (simp add: returning_Inr)
  from split_plan[OF this] obtain v content fades left_fades where v: "editable_clip ?s i = Inr v"
    and le: "fr_start (ac_placement v) < f" "f < fr_end (ac_placement v)"
    and content: "split_content (ac_content v) (range_offset f (fr_start (ac_placement v))) = Inr content"
    and halves: "split_fades (ac_fades v) (frame_range_len (ac_placement v))
        (range_offset f (fr_start (ac_placement v))) = Inr (left_fades, fades)"
    and ops: "tx_operations tx = [PutClip (Some v) (Some (v\<lparr>ac_placement := (ac_placement v)\<lparr>fr_end := f\<rparr>,
          ac_content := fst content, ac_fades := left_fades\<rparr>)),
        PutClip None (Some (v\<lparr>ac_id := j, ac_placement := (ac_placement v)\<lparr>fr_start := f\<rparr>,
          ac_content := snd content, ac_fades := fades\<rparr>))]"
    by blast
  have [simp]: "v = b" using editable_get[OF v] b by simp
  show "fr_start ?p < f \<and> f < fr_end ?p" using le by simp
  let ?l = "b\<lparr>ac_placement := ?p\<lparr>fr_end := f\<rparr>, ac_content := fst content, ac_fades := left_fades\<rparr>"
  let ?r = "b\<lparr>ac_id := j, ac_placement := ?p\<lparr>fr_start := f\<rparr>, ac_content := snd content, ac_fades := fades\<rparr>"
  have "run_operations [PutClip (Some b) (Some ?l), PutClip None (Some ?r)] ?s = Inr ?t"
    using run ops by auto
  moreover have "ac_id ?r \<noteq> i" using fresh_clip(2)[OF good edit] b by auto
  ultimately have get: "bt_get (as_clips ?t) k = (if k = j then Some ?r else if k = i then Some ?l
      else bt_get (as_clips ?s) k)" for k
    using replace_and_add(2)[OF good _ b] by simp
  then show "k \<noteq> i \<Longrightarrow> k \<noteq> j \<Longrightarrow> bt_get (as_clips ?t) k = bt_get (as_clips ?s) k" by simp
  have offset: "int (range_offset f (fr_start ?p)) = f - fr_start ?p"
    using le fits by (intro range_offset_int) simp_all
  have "split_content (ac_content b) (range_offset f (fr_start ?p)) = Inr (fst content, snd content)"
    using content by simp
  note position = split_position[OF this] and parts = split_content_parts[OF this]
  have "clip_position ?l p = clip_position b p" "clip_position ?r p = clip_position b p" for p
    using position(1)[of "p - fr_start ?p"] position(2)[of "p - f"] offset
    by (simp_all add: clip_position_def)
  moreover show "bt_get (as_clips ?s) j = None" by (rule fresh_clip(2)[OF good edit])
  then have "j \<noteq> i" using b by auto
  ultimately show "\<exists>l r. bt_get (as_clips ?t) i = Some l \<and> bt_get (as_clips ?t) j = Some r
      \<and> l = b\<lparr>ac_placement := (ac_placement b)\<lparr>fr_end := f\<rparr>, ac_content := ac_content l, ac_fades := ac_fades l\<rparr>
      \<and> r = b\<lparr>ac_id := j, ac_placement := (ac_placement b)\<lparr>fr_start := f\<rparr>, ac_content := ac_content r,
          ac_fades := ac_fades r\<rparr>
      \<and> content_parts (ac_content b) (ac_content l) (ac_content r)
      \<and> fade_parts (cf_in (ac_fades b)) (cf_in (ac_fades l)) (cf_in (ac_fades r))
      \<and> fade_parts (cf_out (ac_fades b)) (cf_out (ac_fades l)) (cf_out (ac_fades r))
      \<and> (\<forall>p. clip_position l p = clip_position b p \<and> clip_position r p = clip_position b p)"
    by (intro exI[of _ ?l] exI[of _ ?r]) (simp add: get parts split_fades_parts[OF halves[simplified]])
qed

end
