(* ===== verification/Arrangement_Properties.thy ===== *)
theory Arrangement_Properties
  imports Arrangement_Clips
begin

text \<open>
  The properties of the arrangement editor, and before them the concrete instances they are shown
  at: a small arrangement with one audio track and one looped sample, the cut of its clip, and what
  three unusual batches of operations do to it.
\<close>

definition demo_track :: ar_track where
  "demo_track = (ar_track_new (Id 3) ''drums'' AudioTrack)\<lparr>at_clip_ids := [Id 3]\<rparr>"

definition demo_clip :: ar_clip where
  "demo_clip = \<lparr>ac_id = Id 3, ac_track_id = Id 3, ac_name = ''loop'',
     ac_placement = \<lparr>fr_start = 0, fr_end = 100\<rparr>,
     ac_content = AudioContent \<lparr>au_asset = Id 7, au_source = \<lparr>so_start = 0, so_end = 200\<rparr>,
       au_playback = playback_transform_default\<lparr>pb_ratio := \<lparr>ra_source = 2, ra_project = 1\<rparr>\<rparr>,
       au_channels = AllChannels, au_loop_mode = LoopOff\<rparr>,
     ac_fades = clip_fades_default, ac_gain_db = 0, ac_muted = False, ac_locked = False\<rparr>"

definition demo_state :: arr_state where
  "demo_state = \<lparr>as_schema_version = 1, as_sample_rate = 48000, as_tracks = [(Id 3, demo_track)],
     as_clips = [(Id 3, demo_clip)], as_track_order = [Id 3], as_next_track_id = 4, as_next_clip_id = 4,
     as_markers = []\<rparr>"

definition demo_editor :: arr_editor where
  "demo_editor = \<lparr>ae_state = demo_state, ae_selection = arr_selection_default, ae_undo = [], ae_redo = [],
     ae_revision = 0, ae_saved_revision = 0, ae_history_limit = 256\<rparr>"

definition demo_left :: ar_clip where
  "demo_left = demo_clip\<lparr>ac_placement := \<lparr>fr_start = 0, fr_end = 40\<rparr>,
     ac_content := AudioContent \<lparr>au_asset = Id 7, au_source = \<lparr>so_start = 0, so_end = 80\<rparr>,
       au_playback = playback_transform_default\<lparr>pb_ratio := \<lparr>ra_source = 2, ra_project = 1\<rparr>\<rparr>,
       au_channels = AllChannels, au_loop_mode = LoopOff\<rparr>\<rparr>"

definition demo_right :: ar_clip where
  "demo_right = demo_clip\<lparr>ac_id := Id 4, ac_placement := \<lparr>fr_start = 40, fr_end = 100\<rparr>,
     ac_content := AudioContent \<lparr>au_asset = Id 7, au_source = \<lparr>so_start = 80, so_end = 200\<rparr>,
       au_playback = playback_transform_default\<lparr>pb_ratio := \<lparr>ra_source = 2, ra_project = 1\<rparr>\<rparr>,
       au_channels = AllChannels, au_loop_mode = LoopOff\<rparr>\<rparr>"

definition demo_split :: arr_state where
  "demo_split = demo_state\<lparr>as_tracks := [(Id 3, demo_track\<lparr>at_clip_ids := [Id 3, Id 4]\<rparr>)],
     as_clips := [(Id 3, demo_left), (Id 4, demo_right)], as_next_clip_id := 5\<rparr>"

definition demo_cut :: arr_transaction where
  "demo_cut = transaction ''Split clip''
     [PutClip (Some demo_clip) (Some demo_left), PutClip None (Some demo_right)]"

lemma zero_float: "\<not> f64_is_nan 0" "f64_is_finite 0" "f32_is_finite 0" "f32_le 0 0x42400000" "f32_le 0xc3100000 0"
 "valid_db 0" "valid_pan 0" "f64_eq 0 0" "f32_eq 0 0" "f64_is_finite f64_zero" "f64_eq f64_zero f64_zero"
  by (simp_all add: f64_is_nan_def f64_is_finite_def f64_exp_def f64_frac_def valid_db_def valid_pan_def f32_le_def f32_key_def f32_is_nan_def f32_exp_def f32_frac_def f32_neg_def f64_eq_def f32_eq_def f64_zero_def f64_is_zero_def)

lemmas demo_defs = demo_track_def demo_clip_def demo_state_def demo_editor_def ar_track_new_def
  clip_fades_default_def playback_transform_default_def

lemmas arr_eval = bt_keys_def bt_values_def bt_get_def bt_contains_def bt_remove_def then_r_def bind_r_def fail_if_def

  frame_checked_add_def frame_range_new_def frame_range_from_len_def frame_range_len_def
  frame_range_contains_def frame_range_intersects_def source_range_new_def source_range_len_def
  ar_track_new_def ar_track_eq_def marker_new_def stretch_ratio_unity_def ratio_source_offset_def
  playback_transform_default_def playback_eq_def fade_full_def fade_eq_def clip_fades_default_def
  clip_fades_eq_def audio_region_eq_def ar_clip_eq_def validate_order_def validate_fades_def
  validate_audio_def validate_ar_track_def validate_ar_clip_def id_counters_invalid_def
  normalize_order_def clips_of_track_def clip_sort_key_def clip_index_def normalize_indexes_def
  check_existing_def put_entity_def run_operations_def apply_operations_def
  transaction_inverse_def arr_selection_default_def retain_valid_def editor_is_dirty_def
  editor_mark_saved_def require_track_def require_clip_def editable_clip_def allocate_track_id_def
  allocate_clip_id_def transaction_def replace_track_def replace_clip_def arr_create_track_def
  delete_track_def reorder_track_def set_overlap_policy_def arr_create_clip_def
  create_audio_clip_def create_pattern_clip_def create_automation_clip_def delete_clip_def
  move_clip_def range_offset_def trim_left_def trim_right_def slip_clip_def split_clip_def
  duplicate_clip_def stretch_resize_def set_fades_def put_marker_def returning_def
  reject_warped_def checked_sub_source_def checked_add_source_def advance_audio_def
  add_signed_u64_def split_fades_def trim_fades_left_def trim_fades_right_def clamp_fades_def


lemmas demo_simps = demo_defs arr_eval zero_float arr_validate_def Let_def sat_i64_def i64_max_def i64_min_def u64_max_def

lemma demo_valid: "arr_validate demo_state = Inr ()"
  by (simp add: demo_simps)

lemma demo_opened: "arr_opened demo_state demo_editor"
  by (simp add: arr_opened_def editor_from_state_def demo_valid) (simp add: demo_simps arr_wf_def bt_ok_def)

lemma demo_plan: "plan_edit (SplitClip (Id 3) 40) demo_state = Inr (demo_cut, NewClip (Id 4))"
  by (simp add: demo_simps demo_left_def demo_right_def demo_cut_def)

lemma demo_ops: "apply_all (tx_operations demo_cut) demo_state = Inr (demo_split\<lparr>as_tracks := as_tracks demo_state\<rparr>)"
  by (simp add: demo_cut_def demo_split_def demo_simps demo_left_def demo_right_def)

lemma demo_normal: "normalize_indexes (demo_split\<lparr>as_tracks := as_tracks demo_state\<rparr>) = Inr demo_split"
  by (simp add: demo_split_def demo_simps demo_left_def demo_right_def)

lemma demo_split_valid: "arr_validate demo_split = Inr ()"
  by (simp add: demo_split_def demo_simps demo_left_def demo_right_def)

lemma demo_run: "run_operations (tx_operations demo_cut) demo_state = Inr demo_split"
  by (simp add: run_operations_Inr demo_ops demo_normal demo_split_valid)

definition demo_marker :: arr_transaction where
  "demo_marker = transaction ''Put marker'' [PutMarker 10 None (Some (marker_new [65]))]"

definition demo_after :: arr_editor where
  "demo_after = demo_editor\<lparr>ae_state := demo_split, ae_revision := 1, ae_undo :=
     [\<lparr>ah_forward = demo_cut, ah_inverse = transaction_inverse demo_cut, ah_before_revision = 0,
       ah_after_revision = 1\<rparr>]\<rparr>"

lemma demo_apply: "editor_apply demo_cut demo_editor = (Inr 1, demo_after)"
proof -
  have ops: "tx_operations demo_cut \<noteq> []" "\<not> list_all operation_is_noop (tx_operations demo_cut)"
    by (simp_all add: demo_cut_def transaction_def)
  show ?thesis
    using demo_run ops
    by (simp add: editor_apply_def demo_after_def demo_editor_def u64_max_def trim_front_drop
        retain_valid_def arr_selection_default_def)
qed

lemma demo_perform: "perform (SplitClip (Id 3) 40) demo_editor = (Inr (NewClip (Id 4)), demo_after)"
proof -
  have "ae_state demo_editor = demo_state" by (simp add: demo_editor_def)
  then show ?thesis
    using demo_plan demo_apply by (simp add: perform_def commit_def del: plan_edit.simps)
qed

text \<open>The cut undone, and the clip duplicated after that.\<close>

definition demo_undone :: arr_editor where
  "demo_undone = demo_editor\<lparr>ae_state := demo_state\<lparr>as_next_clip_id := 5\<rparr>, ae_redo := ae_undo demo_after\<rparr>"

lemma demo_undo: "editor_undo demo_after = (Inr (Some 0), demo_undone)"
proof -
  let ?t = "demo_state\<lparr>as_next_clip_id := 5\<rparr>"
  let ?m = "?t\<lparr>as_tracks := [(Id 3, demo_track\<lparr>at_clip_ids := [Id 3, Id 4]\<rparr>)]\<rparr>"
  have "apply_all (tx_operations (transaction_inverse demo_cut)) demo_split = Inr ?m"
    by (simp add: demo_cut_def demo_split_def demo_simps demo_left_def demo_right_def typed_id_order)
  moreover have "normalize_indexes ?m = Inr ?t" by (simp add: demo_simps)
  moreover have "arr_validate ?t = Inr ()" by (simp add: demo_simps)
  ultimately have "run_operations (tx_operations (transaction_inverse demo_cut)) demo_split = Inr ?t"
    by (simp add: run_operations_Inr)
  then show ?thesis
    by (simp add: editor_undo_def demo_after_def demo_undone_def demo_editor_def retain_valid_def
        arr_selection_default_def)
qed

lemma demo_duplicate: "\<exists>f. perform (DuplicateClip (Id 3) 200) demo_undone = (Inr (NewClip (Id 5)), f)"
proof -
  let ?copy = "demo_clip\<lparr>ac_id := Id 5, ac_placement := \<lparr>fr_start = 200, fr_end = 300\<rparr>\<rparr>"
  let ?s = "demo_state\<lparr>as_next_clip_id := 5\<rparr>"
  let ?m = "?s\<lparr>as_clips := [(Id 3, demo_clip), (Id 5, ?copy)], as_next_clip_id := 6\<rparr>"
  let ?t = "?m\<lparr>as_tracks := [(Id 3, demo_track\<lparr>at_clip_ids := [Id 3, Id 5]\<rparr>)]\<rparr>"
  have plan: "plan_edit (DuplicateClip (Id 3) 200) ?s
      = Inr (transaction ''Duplicate clip'' [PutClip None (Some ?copy)], NewClip (Id 5))"
    by (simp add: demo_simps is_i64_def)
  have "apply_all [PutClip None (Some ?copy)] ?s = Inr ?m" "normalize_indexes ?m = Inr ?t" "arr_validate ?t = Inr ()"
    by (simp_all add: demo_simps typed_id_order)
  then have "run_operations [PutClip None (Some ?copy)] ?s = Inr ?t" by (simp add: run_operations_Inr)
  with plan show ?thesis
    by (simp add: perform_def commit_def editor_apply_def demo_undone_def demo_editor_def u64_max_def
        transaction_def Let_def del: plan_edit.simps)
qed

lemma demo_clip_at: "bt_get (as_clips (ae_state demo_editor)) (Id 3) = Some demo_clip"
  by (simp add: demo_editor_def demo_state_def bt_get_def)

lemma demo_placement: "fr_end (ac_placement demo_clip) - fr_start (ac_placement demo_clip) \<le> i64_max"
  by (simp add: demo_clip_def i64_max_def)

lemma demo_typed: "editor_typed demo_editor"
  by (auto simp: editor_typed_def state_typed_def clip_typed_def range_typed_def source_typed_def fades_typed_def
      demo_defs bt_get_def is_i64_def i64_max_def i64_min_def u64_max_def split: if_splits)

lemma demo_trim: "\<exists>r e'. perform (TrimLeft (Id 3) 40) demo_editor = (Inr r, e')"
proof -
  let ?right = "demo_right\<lparr>ac_id := Id 3\<rparr>"
  let ?t = "demo_state\<lparr>as_clips := [(Id 3, ?right)]\<rparr>"
  have plan: "plan_edit (TrimLeft (Id 3) 40) demo_state
      = Inr (transaction ''Trim clip left'' [PutClip (Some demo_clip) (Some ?right)], DoneEdit)"
    by (simp add: demo_simps demo_right_def)
  have "apply_all [PutClip (Some demo_clip) (Some ?right)] demo_state = Inr ?t" "normalize_indexes ?t = Inr ?t"
    "arr_validate ?t = Inr ()"
    by (simp_all add: demo_simps demo_right_def)
  then have run: "run_operations [PutClip (Some demo_clip) (Some ?right)] demo_state = Inr ?t"
    by (simp add: run_operations_Inr)
  show ?thesis
    using plan run
    by (simp add: perform_def commit_def editor_apply_def demo_editor_def u64_max_def transaction_def Let_def
        del: plan_edit.simps)
qed

text \<open>The cut arrangement on a rejecting track.\<close>

definition reject_state :: arr_state where
  "reject_state = demo_split\<lparr>as_tracks :=
     [(Id 3, demo_track\<lparr>at_overlap := RejectOverlaps, at_clip_ids := [Id 3, Id 4]\<rparr>)]\<rparr>"

definition reject_editor :: arr_editor where
  "reject_editor = demo_editor\<lparr>ae_state := reject_state\<rparr>"

lemma reject_opened: "arr_opened reject_state reject_editor"
proof -
  have "arr_validate reject_state = Inr ()"
    by (simp add: reject_state_def demo_split_def demo_simps demo_left_def demo_right_def)
  then show ?thesis
    by (simp add: arr_opened_def editor_from_state_def)
      (simp add: reject_state_def reject_editor_def demo_split_def demo_simps arr_wf_def bt_ok_def)
qed

section \<open>Three unusual batches\<close>

text \<open>A clip stored under the identifier of another one makes the index panic.\<close>

definition foreign_clip :: arr_operation where
  "foreign_clip = PutClip (Some demo_left) (Some (demo_left\<lparr>ac_id := Id 9\<rparr>))"

lemma foreign_clip_panics: "run_operations [foreign_clip] demo_split = panics"
  by (simp add: run_operations_def foreign_clip_def demo_split_def demo_simps demo_left_def demo_right_def
      typed_id_order)

text \<open>A track created together with a clip on it cannot be undone: its index is only filled at the end.\<close>

definition empty_state :: arr_state where
  "empty_state = \<lparr>as_schema_version = 1, as_sample_rate = 48000, as_tracks = [], as_clips = [],
     as_track_order = [], as_next_track_id = 1, as_next_clip_id = 1, as_markers = []\<rparr>"

definition track_with_clip :: arr_transaction where
  "track_with_clip = transaction ''Import''
     [PutTrack None (Some (demo_track\<lparr>at_clip_ids := []\<rparr>)), PutClip None (Some demo_clip)]"

lemma track_with_clip_runs: "run_operations (tx_operations track_with_clip) empty_state = Inr demo_state"
proof -
  have "apply_all (tx_operations track_with_clip) empty_state
      = Inr (demo_state\<lparr>as_tracks := [(Id 3, demo_track\<lparr>at_clip_ids := []\<rparr>)], as_track_order := []\<rparr>)"
    by (simp add: track_with_clip_def empty_state_def demo_simps)
  moreover have "normalize_indexes (demo_state\<lparr>as_tracks := [(Id 3, demo_track\<lparr>at_clip_ids := []\<rparr>)],
      as_track_order := []\<rparr>) = Inr demo_state"
    by (simp add: demo_simps)
  ultimately show ?thesis by (simp add: run_operations_Inr demo_valid)
qed

lemma track_with_clip_stuck:
  "run_operations (tx_operations (transaction_inverse track_with_clip)) demo_state = fails (AeStaleOperation ''track'')"
  by (simp add: run_operations_def track_with_clip_def demo_simps)

text \<open>Empty placements are valid, and one hides an overlap of its neighbours on a rejecting track.\<close>

definition hidden_overlap :: arr_state where
  "hidden_overlap = demo_state\<lparr>as_tracks := [(Id 3, (ar_track_new (Id 3) ''p'' PatternTrack)\<lparr>at_overlap := RejectOverlaps,
       at_clip_ids := [Id 3, Id 4, Id 5]\<rparr>)],
     as_clips := map (\<lambda>(i, s, e). (Id i, demo_clip\<lparr>ac_id := Id i, ac_placement := \<lparr>fr_start = s, fr_end = e\<rparr>,
       ac_content := PatternContent \<lparr>pr_pattern = Id 1, pr_content_offset = 0, pr_looped = False\<rparr>\<rparr>))
       [(3, 0, 100), (4, 10, - 5), (5, 20, 30)], as_next_clip_id := 6\<rparr>"

lemma hidden_overlap_valid: "arr_validate hidden_overlap = Inr ()"
  by (simp add: hidden_overlap_def demo_simps)

chapter \<open>Properties\<close>

text \<open>
  The properties of the arrangement editor: integrity under every sequence of operations, the
  undo history, fresh identifiers, what the clip edits keep, typing and the absence of panics.
\<close>

section \<open>Integrity\<close>

text \<open>
  C16. \<open>ArrangementState::validate\<close> accepts exactly the arrangements with integrity: the order
  lists every track once, every track indexes exactly its clips in order of time, clips refer to
  tracks of their kind, fades fit, audio maps exactly onto its source, counters are ahead.
\<close>

theorem arr_validate_is_integrity:
  assumes "arr_wf s"
  shows "arr_validate s = Inr () \<longleftrightarrow> arr_integrity s"
  by (rule arr_validate_iff[OF assms])

lemma arr_validate_is_integrity_witness:
  "arr_wf demo_split \<and> arr_integrity demo_split"
proof -
  have wf: "arr_wf demo_split"
    by (simp add: arr_wf_def demo_split_def demo_state_def bt_ok_def typed_id_order)
  with arr_validate_is_integrity[OF wf] demo_split_valid show ?thesis by simp
qed

text \<open>
  C12. Whatever edits, transactions, undos, redos, limits and selections are applied to an opened
  editor, in whatever order, its state stays valid, its selection refers to what exists, and the
  identifier counters never go back.
\<close>

theorem edits_keep_integrity:
  assumes "arr_opened s start" "editor_later any_edit any_transaction start e"
  shows "arr_validate (ae_state e) = Inr () \<and> arr_integrity (ae_state e) \<and> selection_valid e
    \<and> as_next_clip_id s \<le> as_next_clip_id (ae_state e) \<and> as_next_track_id s \<le> as_next_track_id (ae_state e)"
  using later_ok[OF assms(2) arr_opened_ok[OF assms(1)]] arr_opened_good[OF assms(1)]
  by (simp add: editor_ok_def keeps_counters_def arr_good_def arr_validate_iff)

lemma demo_later: "editor_later any_edit any_transaction demo_editor demo_after"
  using later_edit[OF later_refl, of any_edit "SplitClip (Id 3) 40" any_transaction demo_editor]
  by (simp add: demo_perform any_edit_def del: One_nat_def)

lemma edits_keep_integrity_witness:
  "arr_validate (ae_state (snd (editor_apply demo_marker (snd (editor_undo demo_after))))) = Inr ()"
proof -
  have "editor_later any_edit any_transaction demo_editor
      (snd (editor_apply demo_marker (snd (editor_undo demo_after))))"
    by (intro later_apply later_undo demo_later) (simp add: any_transaction_def)
  from edits_keep_integrity[OF demo_opened this] show ?thesis by blast
qed

section \<open>Undo and redo\<close>

text \<open>
  In an editor that edits and settled transactions reach (a transaction is settled when its
  batch leaves the derived indexes of the tracks it touches as it wrote them; every edit plans a
  settled one), undo and redo never fail: the compare-and-swap of every recorded operation
  succeeds and the result validates.
\<close>

theorem arr_history_never_fails:
  assumes "arr_opened s start" "editor_later any_edit settled_transaction start e"
  shows "fst (editor_undo e) = Inr (if ae_undo e = [] then None else Some (ah_before_revision (last (ae_undo e))))
    \<and> fst (editor_redo e) = Inr (if ae_redo e = [] then None else Some (ah_after_revision (last (ae_redo e))))"
proof -
  have ok: "history_ok e"
    by (rule later_history_ok[OF assms(2) arr_opened_history_ok[OF assms(1)]])
  have "fst (editor_undo e) = Inr (Some (ah_before_revision u))" if "ae_undo e = us @ [u]" for us u
    by (rule undo_result[OF ok that]) simp
  moreover have "fst (editor_redo e) = Inr (Some (ah_after_revision u))" if "ae_redo e = us @ [u]" for us u
    by (rule redo_result[OF ok that]) simp
  ultimately show ?thesis
    by (cases "ae_undo e" rule: rev_cases; cases "ae_redo e" rule: rev_cases)
      (simp_all add: editor_undo_def editor_redo_def)
qed

lemma demo_later_settled: "editor_later any_edit settled_transaction demo_editor demo_after"
  using later_edit[OF later_refl, of any_edit "SplitClip (Id 3) 40" settled_transaction demo_editor]
  by (simp add: demo_perform any_edit_def del: One_nat_def)

lemma arr_history_never_fails_witness:
  "fst (editor_undo demo_after) = Inr (Some 0) \<and> fst (editor_redo demo_after) = Inr None"
  using arr_history_never_fails[OF demo_opened demo_later_settled]
  by (simp add: demo_after_def demo_editor_def)

text \<open>
  C13. Undoing the edit just made restores the content of the arrangement (all entries up to
  \<open>PartialEq\<close> and the identifier counters) and the revision, and redoing it brings back the
  edited content, the revision and the undo stack.
\<close>

theorem undo_reverts_edit:
  assumes "arr_opened s start" "editor_later any_edit settled_transaction start e"
    and "perform ed e = (Inr r, e')" "e' \<noteq> e" "0 < ae_history_limit e"
  shows "\<exists>u v. editor_undo e' = (Inr (Some (ae_revision e)), u)
      \<and> same_content (ae_state u) (ae_state e) \<and> ae_revision u = ae_revision e
      \<and> editor_redo u = (Inr (Some (ae_revision e')), v)
      \<and> same_content (ae_state v) (ae_state e') \<and> ae_revision v = ae_revision e' \<and> ae_undo v = ae_undo e'"
  using later_history_ok[OF assms(2) arr_opened_history_ok[OF assms(1)]] assms(3,4,5)
  by (rule undo_then_redo)

lemma undo_reverts_edit_witness:
  "\<exists>u. editor_undo demo_after = (Inr (Some 0), u) \<and> same_content (ae_state u) demo_state"
proof -
  have "demo_after \<noteq> demo_editor" "0 < ae_history_limit demo_editor"
    by (auto simp: demo_after_def demo_editor_def dest: arg_cong[of _ _ ae_revision])
  from undo_reverts_edit[OF demo_opened later_refl demo_perform this] show ?thesis
    by (auto simp: demo_editor_def)
qed

section \<open>Identifiers\<close>

text \<open>
  A clip that an edit creates gets an identifier no clip has, and no later edit, after any
  operations in between (undo, redo and deletions included), creates a clip with it again.
\<close>

theorem clip_ids_never_reused:
  assumes "arr_opened s start" "editor_later any_edit any_transaction start e"
    and "perform ed e = (Inr (NewClip j), e')"
    and "editor_later any_edit any_transaction e' f" "perform ed' f = (Inr (NewClip k), f')"
  shows "bt_get (as_clips (ae_state e)) j = None \<and> bt_get (as_clips (ae_state e')) j \<noteq> None \<and> raw j < raw k"
proof -
  have ok: "editor_ok e" using later_ok[OF assms(2) arr_opened_ok[OF assms(1)]] by blast
  then have "editor_ok e'" using perform_ok[of e ed] assms(3) by simp
  from later_ok[OF assms(4) this] have f: "editor_ok f" "keeps_counters e' f" by blast+
  have good: "arr_good (ae_state e)" "arr_good (ae_state f)" using ok f(1) by (simp_all add: editor_ok_def)
  note new = fresh_clip[OF good(1) assms(3)] and later = fresh_clip[OF good(2) assms(5)]
  from new(2,3,4) later(1) f(2) show ?thesis by (simp add: keeps_counters_def)
qed

lemma clip_ids_never_reused_witness:
  "bt_get (as_clips (ae_state demo_after)) (Id 4) \<noteq> None
    \<and> (\<exists>f. perform (DuplicateClip (Id 3) 200) demo_undone = (Inr (NewClip (Id 5)), f)) \<and> raw (Id 4) < raw (Id 5)"
proof -
  have later: "editor_later any_edit any_transaction demo_after demo_undone"
    using later_undo[OF later_refl, of any_edit any_transaction demo_after] by (simp add: demo_undo)
  obtain f where f: "perform (DuplicateClip (Id 3) 200) demo_undone = (Inr (NewClip (Id 5)), f)"
    using demo_duplicate by blast
  from clip_ids_never_reused[OF demo_opened later_refl demo_perform later f] f show ?thesis
    by (intro conjI exI[of _ f]) simp_all
qed

section \<open>Clip edits\<close>

text \<open>
  Trimming either edge keeps the alignment of the content: at every project frame the trimmed
  clip plays the position the clip played, the other edge and every other clip stay as they were.
  Positions are exact, on the scale of the stretch ratio.
\<close>

theorem trims_keep_alignment:
  assumes "arr_opened s start" "editor_later any_edit any_transaction start e"
    and "ed = TrimLeft i f \<or> ed = TrimRight i f" and "perform ed e = (Inr r, e')"
    and "bt_get (as_clips (ae_state e)) i = Some b"
    and "fr_end (ac_placement b) - fr_start (ac_placement b) \<le> i64_max"
  shows "\<exists>c. bt_get (as_clips (ae_state e')) i = Some c
      \<and> ac_placement c = (if ed = TrimLeft i f then (ac_placement b)\<lparr>fr_start := f\<rparr> else (ac_placement b)\<lparr>fr_end := f\<rparr>)
      \<and> fr_start (ac_placement c) < fr_end (ac_placement c) \<and> ac_track_id c = ac_track_id b
      \<and> (\<forall>p. clip_position c p = clip_position b p)
      \<and> (\<forall>j. j \<noteq> i \<longrightarrow> bt_get (as_clips (ae_state e')) j = bt_get (as_clips (ae_state e)) j)"
proof -
  have good: "arr_good (ae_state e)"
    using later_ok[OF assms(2) arr_opened_ok[OF assms(1)]] by (simp add: editor_ok_def)
  from assms(3) show ?thesis
  proof
    assume ed: "ed = TrimLeft i f"
    note edit = assms(4)[unfolded ed]
    from trim_left_effect(1)[OF good edit assms(5,6)] trim_left_effect(2)[OF good edit assms(5,6)]
    show ?thesis by (auto simp: ed)
  next
    assume ed: "ed = TrimRight i f"
    note edit = assms(4)[unfolded ed]
    from trim_right_effect(1)[OF good edit assms(5)] trim_right_effect(2)[OF good edit assms(5)]
    show ?thesis by (auto simp: ed)
  qed
qed

lemma trims_keep_alignment_witness:
  "\<exists>c. bt_get (as_clips (ae_state (snd (perform (TrimLeft (Id 3) 40) demo_editor)))) (Id 3) = Some c
    \<and> (\<forall>p. clip_position c p = clip_position demo_clip p)"
proof -
  obtain r e' where edit: "perform (TrimLeft (Id 3) 40) demo_editor = (Inr r, e')"
    using demo_trim by blast
  from trims_keep_alignment[OF demo_opened later_refl disjI1[OF refl] this demo_clip_at demo_placement]
  show ?thesis by (auto simp: edit)
qed

text \<open>
  C15. Splitting a clip (of fewer than 2^63 frames) yields two clips, one under its identifier and
  one under a new one, that meet at the split point and together cover its placement. Both keep its
  track, name, gain, mute, lock and all of its content but the source range and the content offset:
  the source ranges meet and together are the one of the clip, every project frame reads the source
  frame it read before, and a fade that reaches over the cut is cut in two. No other clip changes.
\<close>

theorem split_keeps_playback:
  assumes "arr_opened s start" "editor_later any_edit any_transaction start e"
    and "perform (SplitClip i f) e = (Inr (NewClip j), e')"
    and "bt_get (as_clips (ae_state e)) i = Some b"
    and "fr_end (ac_placement b) - fr_start (ac_placement b) \<le> i64_max"
  shows "\<exists>l r. bt_get (as_clips (ae_state e')) i = Some l \<and> bt_get (as_clips (ae_state e')) j = Some r
      \<and> l = b\<lparr>ac_placement := (ac_placement b)\<lparr>fr_end := f\<rparr>, ac_content := ac_content l, ac_fades := ac_fades l\<rparr>
      \<and> r = b\<lparr>ac_id := j, ac_placement := (ac_placement b)\<lparr>fr_start := f\<rparr>, ac_content := ac_content r,
          ac_fades := ac_fades r\<rparr>
      \<and> content_parts (ac_content b) (ac_content l) (ac_content r)
      \<and> fade_parts (cf_in (ac_fades b)) (cf_in (ac_fades l)) (cf_in (ac_fades r))
      \<and> fade_parts (cf_out (ac_fades b)) (cf_out (ac_fades l)) (cf_out (ac_fades r))
      \<and> (\<forall>p. clip_position l p = clip_position b p \<and> clip_position r p = clip_position b p)
      \<and> fr_start (ac_placement b) < f \<and> f < fr_end (ac_placement b)
      \<and> bt_get (as_clips (ae_state e)) j = None
      \<and> (\<forall>k. k \<noteq> i \<longrightarrow> k \<noteq> j \<longrightarrow> bt_get (as_clips (ae_state e')) k = bt_get (as_clips (ae_state e)) k)"
proof -
  have good: "arr_good (ae_state e)"
    using later_ok[OF assms(2) arr_opened_ok[OF assms(1)]] by (simp add: editor_ok_def)
  note effect = split_effect[OF good assms(3-5)]
  from effect(1-3) effect(4) show ?thesis by blast
qed

lemma split_keeps_playback_witness:
  "\<exists>l r. bt_get (as_clips demo_split) (Id 3) = Some l \<and> bt_get (as_clips demo_split) (Id 4) = Some r
    \<and> content_parts (ac_content demo_clip) (ac_content l) (ac_content r)
    \<and> (\<forall>p. clip_position l p = clip_position demo_clip p \<and> clip_position r p = clip_position demo_clip p)"
  using split_keeps_playback[OF demo_opened later_refl demo_perform demo_clip_at demo_placement]
  by (auto simp: demo_after_def)

text \<open>
  On a track that rejects overlaps, two clips of non-empty placement never overlap.
\<close>

theorem rejecting_tracks_disjoint:
  assumes "arr_opened s start" "editor_later any_edit any_transaction start e"
    and "bt_get (as_tracks (ae_state e)) i = Some t" "at_overlap t = RejectOverlaps"
    and "\<forall>j c. bt_get (as_clips (ae_state e)) j = Some c \<longrightarrow> ac_track_id c = i
      \<longrightarrow> fr_start (ac_placement c) < fr_end (ac_placement c)"
    and "bt_get (as_clips (ae_state e)) j = Some c" "ac_track_id c = i"
    and "bt_get (as_clips (ae_state e)) k = Some d" "ac_track_id d = i" "j \<noteq> k"
  shows "\<not> frame_range_intersects (ac_placement c) (ac_placement d)"
proof -
  have "arr_wf (ae_state e)" "arr_integrity (ae_state e)"
    using later_ok[OF assms(2) arr_opened_ok[OF assms(1)]] by (simp_all add: editor_ok_def arr_good_def)
  from reject_disjoint[OF this assms(3,4) _ assms(6-10)] assms(5) show ?thesis
    by (simp add: placed_def)
qed

lemma rejecting_tracks_disjoint_witness:
  "\<not> frame_range_intersects (ac_placement demo_left) (ac_placement demo_right)"
  by (rule rejecting_tracks_disjoint[OF reject_opened later_refl,
        where i = "Id 3" and j = "Id 3" and k = "Id 4" and t = "demo_track\<lparr>at_overlap := RejectOverlaps, at_clip_ids := [Id 3, Id 4]\<rparr>"])
    (auto simp: reject_editor_def reject_state_def demo_split_def demo_simps demo_left_def demo_right_def
      split: if_splits)

section \<open>Panics\<close>

text \<open>
  C14. In a reachable editor whose integers lie in their machine ranges, an edit panics in exactly
  one case: \<open>create_audio_clip\<close> given a source range whose end lies before its start, the length of
  which underflows. Every other edit returns, neither its planning nor its operations nor the
  normalization and validation of the result panic.
\<close>

theorem edit_panics_iff:
  assumes "arr_opened s start" "editor_typed start"
    and "editor_later edit_typed (\<lambda>tx s. transaction_typed tx) start e" "edit_typed ed"
  shows "fst (perform ed e) = panics \<longleftrightarrow>
    (\<exists>track name placement asset source.
       ed = CreateAudioClip track name placement asset source \<and> so_end source < so_start source)"
proof -
  have "arr_good (ae_state e)"
    using later_ok[OF assms(3) arr_opened_ok[OF assms(1)]] by (simp add: editor_ok_def)
  moreover have "state_typed (ae_state e)"
    using later_editor_typed[OF assms(3,2)] by (simp add: editor_typed_def)
  ultimately have "fst (perform ed e) = panics \<longleftrightarrow> inverted_source ed"
    using perform_no_panic[OF _ _ assms(4)] perform_inverted by blast
  then show ?thesis by (cases ed) simp_all
qed

lemma edit_panics_iff_witness:
  "fst (perform (SlipClip (Id 3) (- 3)) demo_editor) \<noteq> panics
    \<and> fst (perform (CreateAudioClip (Id 1) ''take'' \<lparr>fr_start = 0, fr_end = 8\<rparr> (Id 2)
        \<lparr>so_start = 4, so_end = 2\<rparr>) demo_editor) = panics"
proof -
  have "edit_typed (SlipClip (Id 3) (- 3))"
    "edit_typed (CreateAudioClip (Id 1) ''take'' \<lparr>fr_start = 0, fr_end = 8\<rparr> (Id 2) \<lparr>so_start = 4, so_end = 2\<rparr>)"
    by (simp_all add: range_typed_def source_typed_def is_i64_def range_simps)
  note panics_iff = this[THEN edit_panics_iff[OF demo_opened demo_typed later_refl]]
  show ?thesis by (simp add: panics_iff del: One_nat_def)
qed

end
