(* ===== verification/Mixer_Types.thy ===== *)
theory Mixer_Types
  imports Ordered_Map Floats Bytes "HOL-Library.Multiset"
begin

text \<open>
  The data of \<open>src/mixer.rs\<close>: buses with their inserts, sends and faders, processors with their
  parameters, routes in their derived order, and the graph with its identifier cursors. The private
  fields of the Rust structs carry a prefix per record. An operation on the graph returns its
  result with the graph it leaves behind, also when it fails.
\<close>

datatype bus_tag = BusTag
datatype node_tag = NodeTag
datatype send_tag = SendTag
datatype processor_tag = ProcessorTag
datatype mx_parameter_tag = MxParameterTag

type_synonym bus_id = "bus_tag typed_id"
type_synonym node_id = "node_tag typed_id"
type_synonym send_id = "send_tag typed_id"
type_synonym processor_id = "processor_tag typed_id"
type_synonym mx_parameter_id = "mx_parameter_tag typed_id"

datatype bus_kind = SourceBus | ComponentBus | GroupBus | ReturnBus | MasterBus

datatype send_tap = PreFader | PostFader

section \<open>Processors\<close>

record plugin_descriptor =
  pd_format :: string
  pd_identifier :: string
  pd_display_name :: string
  pd_vendor :: "string option"
  pd_opaque_state :: "nat list"

definition plugin_descriptor_new :: "string \<Rightarrow> string \<Rightarrow> string \<Rightarrow> plugin_descriptor" where
  "plugin_descriptor_new format identifier name =
     \<lparr>pd_format = format, pd_identifier = identifier, pd_display_name = name, pd_vendor = None,
      pd_opaque_state = []\<rparr>"

definition native_effect_format :: string where
  "native_effect_format = ''native''"

datatype native_effect_kind = FilterEffect | EqEffect | CompressorEffect

definition native_effects :: "native_effect_kind list" where
  "native_effects = [FilterEffect, EqEffect, CompressorEffect]"

fun native_identifier :: "native_effect_kind \<Rightarrow> string" where
  "native_identifier FilterEffect = ''filter''"
| "native_identifier EqEffect = ''eq''"
| "native_identifier CompressorEffect = ''compressor''"

fun native_display_name :: "native_effect_kind \<Rightarrow> string" where
  "native_display_name FilterEffect = ''Filter''"
| "native_display_name EqEffect = ''EQ''"
| "native_display_name CompressorEffect = ''Compressor''"

definition native_from_identifier :: "string \<Rightarrow> native_effect_kind option" where
  "native_from_identifier i = List.find (\<lambda>kind. native_identifier kind = i) native_effects"

definition native_descriptor :: "native_effect_kind \<Rightarrow> plugin_descriptor" where
  "native_descriptor kind =
     plugin_descriptor_new native_effect_format (native_identifier kind) (native_display_name kind)"

definition native_effect_of :: "plugin_descriptor \<Rightarrow> native_effect_kind option" where
  "native_effect_of d =
     (if pd_format d = native_effect_format then native_from_identifier (pd_identifier d) else None)"

record processor_parameter =
  pp_id :: mx_parameter_id
  pp_key :: string
  pp_name :: string
  pp_normalized_value :: f32

record processor =
  pc_id :: processor_id
  pc_node_id :: node_id
  pc_descriptor :: plugin_descriptor
  pc_latency_samples :: nat
  pc_parameters :: "(mx_parameter_id, processor_parameter) btree"

definition parameter_by_key :: "processor \<Rightarrow> string \<Rightarrow> processor_parameter option" where
  "parameter_by_key p key = List.find (\<lambda>q. pp_key q = key) (bt_values (pc_parameters p))"

section \<open>Buses\<close>

record insert_slot =
  sl_processor :: processor_id
  sl_bypassed :: bool
  sl_wet :: f32

datatype insert_execution = ExplicitBypass | HostWetDry f32 f32

record insert_contract =
  ic_position :: nat
  ic_processor :: processor_id
  ic_declared_latency :: nat
  ic_execution :: insert_execution

record mx_send =
  sd_id :: send_id
  sd_target :: bus_id
  sd_tap :: send_tap
  sd_level_db :: f32
  sd_muted :: bool

record fader_state =
  fd_gain_db :: f32
  fd_pan :: f32
  fd_muted :: bool
  fd_soloed :: bool

definition fader_default :: fader_state where
  "fader_default = \<lparr>fd_gain_db = 0, fd_pan = 0, fd_muted = False, fd_soloed = False\<rparr>"

record mx_bus =
  mb_id :: bus_id
  mb_node_id :: node_id
  mb_name :: unicode_string
  mb_kind :: bus_kind
  mb_output :: "bus_id option"
  mb_inserts :: "insert_slot list"
  mb_sends :: "mx_send list"
  mb_fader :: fader_state

datatype node_owner = BusOwner bus_id | ProcessorOwner processor_id

section \<open>Routes\<close>

datatype route_kind = MainRoute | SendRoute send_id

datatype route_edge = Route (rt_from: bus_id) (rt_to: bus_id) (rt_kind: route_kind)

text \<open>The derived order: fields in turn, the main route before every send.\<close>

instantiation route_kind :: linorder
begin

fun less_eq_route_kind :: "route_kind \<Rightarrow> route_kind \<Rightarrow> bool" where
  "less_eq_route_kind MainRoute k \<longleftrightarrow> True"
| "less_eq_route_kind (SendRoute i) MainRoute \<longleftrightarrow> False"
| "less_eq_route_kind (SendRoute i) (SendRoute j) \<longleftrightarrow> i \<le> j"

definition less_route_kind :: "route_kind \<Rightarrow> route_kind \<Rightarrow> bool" where
  "less_route_kind a b \<longleftrightarrow> a \<le> b \<and> \<not> b \<le> a"

instance
proof
  fix a b c :: route_kind
  show "a < b \<longleftrightarrow> a \<le> b \<and> \<not> b \<le> a" by (rule less_route_kind_def)
  show "a \<le> a" by (cases a) simp_all
  show "a \<le> b \<Longrightarrow> b \<le> c \<Longrightarrow> a \<le> c" by (cases a; cases b; cases c) simp_all
  show "a \<le> b \<Longrightarrow> b \<le> a \<Longrightarrow> a = b" by (cases a; cases b) simp_all
  show "a \<le> b \<or> b \<le> a" by (cases a; cases b) (simp_all add: linear)
qed

end

instantiation route_edge :: linorder
begin

definition less_eq_route_edge :: "route_edge \<Rightarrow> route_edge \<Rightarrow> bool" where
  "less_eq_route_edge a b \<longleftrightarrow> rt_from a < rt_from b \<or> rt_from a = rt_from b
     \<and> (rt_to a < rt_to b \<or> rt_to a = rt_to b \<and> rt_kind a \<le> rt_kind b)"

definition less_route_edge :: "route_edge \<Rightarrow> route_edge \<Rightarrow> bool" where
  "less_route_edge a b \<longleftrightarrow> a \<le> b \<and> \<not> b \<le> a"

instance
  by standard (auto simp: less_eq_route_edge_def less_route_edge_def intro: route_edge.expand)

end

section \<open>Derived data\<close>

record effective_bus_state =
  eb_explicitly_muted :: bool
  eb_soloed :: bool
  eb_in_solo_path :: bool
  eb_solo_suppressed :: bool
  eb_audible :: bool

record bus_latency =
  bl_input :: nat
  bl_insert :: nat
  bl_output :: nat

record route_latency =
  rl_arrival :: nat
  rl_compensation :: nat

record latency_plan =
  lp_buses :: "(bus_id, bus_latency) btree"
  lp_routes :: "(route_edge, route_latency) btree"
  lp_master_output :: nat

section \<open>The graph\<close>

record mixer_graph =
  mg_buses :: "(bus_id, mx_bus) btree"
  mg_order :: "bus_id list"
  mg_processors :: "(processor_id, processor) btree"
  mg_master :: bus_id
  mg_revision :: nat
  mg_next_bus :: nat
  mg_next_node :: nat
  mg_next_send :: nat
  mg_next_processor :: nat
  mg_next_parameter :: nat

record mixer_allocator =
  al_next_bus :: nat
  al_next_node :: nat
  al_next_send :: nat
  al_next_processor :: nat
  al_next_parameter :: nat

datatype mixer_error =
    MeMissingBus bus_id
  | MeMissingMaster bus_id
  | MeMissingSend send_id
  | MeMissingProcessor processor_id
  | MeMissingParameter mx_parameter_id
  | MeMissingOutput bus_id
  | MeRevisionConflict nat nat
  | MeRevisionExhausted
  | MeInvalidAllocatorState
  | MeInvalidBusOrder
  | MeMasterOrderIsPinned
  | MeMasterAlreadyExists
  | MeMasterCannotRoute
  | MeMasterCannotSend
  | MeReturnCannotReceiveMain bus_id
  | MeInvalidReturnOutput bus_id bus_id
  | MeCannotRemoveMaster
  | MeBusStillReferenced bus_id
  | MeCycleDetected "bus_id list"
  | MeInvalidValue string f32 "f32 option" "f32 option"
  | MeEmptyField string
  | MeInvalidInsertIndex nat nat
  | MeProcessorNotOnBus processor_id bus_id
  | MeInsertCannotPrecedeItself processor_id
  | MeProcessorUsedTwice processor_id
  | MeOrphanProcessor processor_id
  | MeDuplicateNode node_id
  | MeDuplicateSend send_id
  | MeDuplicateParameter mx_parameter_id
  | MeDuplicateParameterKey processor_id string
  | MeMissingParameterKey processor_id string
  | MeIdentityMismatch string
  | MeIdExhausted string
  | MeCommandConflict

type_synonym 'a mx_result = "mixer_error fault + 'a"

abbreviation mx_fails :: "mixer_error \<Rightarrow> 'a mx_result" where
  "mx_fails e \<equiv> Inl (Failed e)"

abbreviation mx_panics :: "'a mx_result" where
  "mx_panics \<equiv> Inl Panicked"

type_synonym 'a mx_step = "mixer_graph \<Rightarrow> 'a mx_result \<times> mixer_graph"

text \<open>The \<open>?\<close> operator of a method: an error leaves with the graph as it is.\<close>

definition attempt :: "'a mx_result \<Rightarrow> ('a \<Rightarrow> 'b mx_step) \<Rightarrow> 'b mx_step" where
  "attempt r k g = (case r of Inl e \<Rightarrow> (Inl e, g) | Inr a \<Rightarrow> k a g)"

lemma attempt_simps [simp]: "attempt (Inl e) k g = (Inl e, g)" "attempt (Inr a) k g = k a g"
  by (simp_all add: attempt_def)

section \<open>Checks of values and identifiers\<close>

definition validate_finite :: "string \<Rightarrow> f32 \<Rightarrow> unit mx_result" where
  "validate_finite field v =
     (if f32_is_finite v then Inr () else mx_fails (MeInvalidValue field v None None))"

definition validate_unit :: "string \<Rightarrow> f32 \<Rightarrow> f32 \<Rightarrow> f32 \<Rightarrow> unit mx_result" where
  "validate_unit field v lo hi =
     (if f32_is_finite v \<and> f32_le lo v \<and> f32_le v hi then Inr ()
      else mx_fails (MeInvalidValue field v (Some lo) (Some hi)))"

definition validate_descriptor :: "plugin_descriptor \<Rightarrow> unit mx_result" where
  "validate_descriptor d =
     (if pd_format d = [] then mx_fails (MeEmptyField ''plugin format'')
      else if pd_identifier d = [] then mx_fails (MeEmptyField ''plugin identifier'')
      else Inr ())"

definition f32_minus_one :: f32 where "f32_minus_one = 0xbf800000"

text \<open>\<open>powf\<close> has no specified precision and stays a parameter.\<close>

definition db_to_linear :: "(f32 \<Rightarrow> f32 \<Rightarrow> f32) \<Rightarrow> f32 \<Rightarrow> f32" where
  "db_to_linear powf db = powf 0x41200000 (f32_div db 0x41a00000)"

definition peek_id :: "nat \<Rightarrow> string \<Rightarrow> nat mx_result" where
  "peek_id next kind = (if next \<noteq> u64_max then Inr next else mx_fails (MeIdExhausted kind))"

text \<open>\<open>Iterator::position\<close> and \<open>Iterator::find_map\<close>, and \<open>Vec::insert\<close> and \<open>Vec::remove\<close>.\<close>

fun find_position :: "('a \<Rightarrow> bool) \<Rightarrow> 'a list \<Rightarrow> nat option" where
  "find_position p [] = None"
| "find_position p (x # xs) = (if p x then Some 0 else map_option Suc (find_position p xs))"

fun find_map :: "('a \<Rightarrow> 'b option) \<Rightarrow> 'a list \<Rightarrow> 'b option" where
  "find_map f [] = None"
| "find_map f (x # xs) = (case f x of None \<Rightarrow> find_map f xs | Some y \<Rightarrow> Some y)"

definition insert_at :: "nat \<Rightarrow> 'a \<Rightarrow> 'a list \<Rightarrow> 'a list" where
  "insert_at k x xs = take k xs @ x # drop k xs"

definition remove_at :: "nat \<Rightarrow> 'a list \<Rightarrow> 'a list" where
  "remove_at k xs = take k xs @ drop (Suc k) xs"

lemma find_position_Some:
  "find_position p xs = Some k \<longleftrightarrow> k < length xs \<and> p (xs ! k) \<and> (\<forall>j < k. \<not> p (xs ! j))"
proof (induction xs arbitrary: k)
  case (Cons x xs)
  show ?case
  proof (cases k)
    case 0
    then show ?thesis using Cons.IH by (cases "p x") auto
  next
    case (Suc m)
    then show ?thesis using Cons.IH[of m] by (auto simp: less_Suc_eq_0_disj)
  qed
qed simp

lemma find_position_None: "find_position p xs = None \<longleftrightarrow> (\<forall>x \<in> set xs. \<not> p x)"
  by (induction xs) auto

lemma find_map_None: "find_map f xs = None \<longleftrightarrow> (\<forall>x \<in> set xs. f x = None)"
  by (induction xs) (auto split: option.splits)

lemma find_map_Some: "find_map f xs = Some y \<Longrightarrow> \<exists>x \<in> set xs. f x = Some y"
  by (induction xs) (auto split: option.splits)

lemma set_insert_at [simp]: "set (insert_at k x xs) = insert x (set xs)"
proof -
  have "set (take k xs) \<union> set (drop k xs) = set xs" by (metis append_take_drop_id set_append)
  then show ?thesis by (auto simp: insert_at_def)
qed

lemma mset_insert_at: "mset (insert_at k x xs) = add_mset x (mset xs)"
proof -
  have "mset (take k xs) + mset (drop k xs) = mset xs" by (metis append_take_drop_id mset_append)
  then show ?thesis by (simp add: insert_at_def)
qed

lemma mset_remove_at: "k < length xs \<Longrightarrow> add_mset (xs ! k) (mset (remove_at k xs)) = mset xs"
  using id_take_nth_drop[of k xs] unfolding remove_at_def
  by (metis mset.simps(2) mset_append union_mset_add_mset_right)

end
