(* ===== verification/Mixer_Graph.thy ===== *)
theory Mixer_Graph
  imports Mixer_Types
begin

text \<open>
  The queries of \<open>MixerGraph\<close> in \<open>src/mixer.rs\<close>: routes, the two traversals, \<open>validate\<close>,
  effective mute and solo states, and the latency plan.
\<close>

section \<open>Lookups\<close>

definition mx_buses :: "mixer_graph \<Rightarrow> mx_bus list" where
  "mx_buses g = List.map_filter (bt_get (mg_buses g)) (mg_order g)"

definition require_bus :: "mixer_graph \<Rightarrow> bus_id \<Rightarrow> unit mx_result" where
  "require_bus g i = (if bt_contains (mg_buses g) i then Inr () else mx_fails (MeMissingBus i))"

definition require_processor :: "mixer_graph \<Rightarrow> processor_id \<Rightarrow> unit mx_result" where
  "require_processor g i =
     (if bt_contains (mg_processors g) i then Inr () else mx_fails (MeMissingProcessor i))"

text \<open>Indexing a map panics on a missing key.\<close>

definition bus_at :: "mixer_graph \<Rightarrow> bus_id \<Rightarrow> mx_bus mx_result" where
  "bus_at g i = ok_or (bt_get (mg_buses g) i) Panicked"

definition find_insert :: "mixer_graph \<Rightarrow> processor_id \<Rightarrow> (bus_id \<times> nat) option" where
  "find_insert g i =
     find_map (\<lambda>b. map_option (\<lambda>k. (mb_id b, k)) (find_position (\<lambda>s. sl_processor s = i) (mb_inserts b)))
       (bt_values (mg_buses g))"

definition find_send :: "mixer_graph \<Rightarrow> send_id \<Rightarrow> (bus_id \<times> nat) option" where
  "find_send g i =
     find_map (\<lambda>b. map_option (\<lambda>k. (mb_id b, k)) (find_position (\<lambda>s. sd_id s = i) (mb_sends b)))
       (bt_values (mg_buses g))"

definition node_owner_of :: "mixer_graph \<Rightarrow> node_id \<Rightarrow> node_owner option" where
  "node_owner_of g n =
     (case List.find (\<lambda>b. mb_node_id b = n) (bt_values (mg_buses g)) of
        Some b \<Rightarrow> Some (BusOwner (mb_id b))
      | None \<Rightarrow> map_option (\<lambda>p. ProcessorOwner (pc_id p))
          (List.find (\<lambda>p. pc_node_id p = n) (bt_values (mg_processors g))))"

definition insert_contract_of :: "mixer_graph \<Rightarrow> nat \<times> insert_slot \<Rightarrow> insert_contract mx_result" where
  "insert_contract_of g = (\<lambda>(position, slot).
     bind_r (ok_or (bt_get (mg_processors g) (sl_processor slot)) (Failed (MeMissingProcessor (sl_processor slot))))
       (\<lambda>p. Inr \<lparr>ic_position = position, ic_processor = pc_id p, ic_declared_latency = pc_latency_samples p,
              ic_execution = (if sl_bypassed slot then ExplicitBypass
                              else HostWetDry (f32_sub f32_one (sl_wet slot)) (sl_wet slot))\<rparr>))"

text \<open>\<open>collect\<close> of results: the first error, or all values.\<close>

fun collect_r :: "('a \<Rightarrow> 'e + 'b) \<Rightarrow> 'a list \<Rightarrow> 'e + 'b list" where
  "collect_r f [] = Inr []"
| "collect_r f (x # xs) = bind_r (f x) (\<lambda>y. bind_r (collect_r f xs) (\<lambda>ys. Inr (y # ys)))"

definition insert_processing_contracts :: "mixer_graph \<Rightarrow> bus_id \<Rightarrow> insert_contract list mx_result" where
  "insert_processing_contracts g i =
     bind_r (ok_or (bt_get (mg_buses g) i) (Failed (MeMissingBus i)))
       (\<lambda>b. collect_r (insert_contract_of g) (enumerate 0 (mb_inserts b)))"

section \<open>Routes\<close>

definition bus_routes :: "mx_bus \<Rightarrow> route_edge list" where
  "bus_routes b =
     (case mb_output b of None \<Rightarrow> [] | Some t \<Rightarrow> [Route (mb_id b) t MainRoute])
     @ map (\<lambda>s. Route (mb_id b) (sd_target s) (SendRoute (sd_id s))) (mb_sends b)"

definition routes :: "mixer_graph \<Rightarrow> route_edge list" where
  "routes g = sort (concat (map bus_routes (bt_values (mg_buses g))))"

text \<open>
  \<open>collect_reachable\<close>: the vector of pending nodes is kept with its last element first, so \<open>pop\<close>
  takes the head and the neighbours, sorted downwards and appended, come ahead in ascending order.
\<close>

definition neighbours :: "route_edge list \<Rightarrow> bool \<Rightarrow> bus_id \<Rightarrow> bus_id list" where
  "neighbours rs forward i = List.map_filter
     (\<lambda>r. if forward \<and> rt_from r = i then Some (rt_to r)
          else if \<not> forward \<and> rt_to r = i then Some (rt_from r) else None) rs"

lemma set_map_filter: "set (List.map_filter f xs) = {y. \<exists>x \<in> set xs. f x = Some y}"
  by (induction xs) (auto split: option.splits)

lemma set_neighbours:
  "set (neighbours rs forward i) =
     {j. \<exists>r \<in> set rs. if forward then rt_from r = i \<and> rt_to r = j else rt_to r = i \<and> rt_from r = j}"
  unfolding neighbours_def set_map_filter by (cases forward) (simp_all, blast+)

function reachable_loop ::
  "route_edge list \<Rightarrow> bool \<Rightarrow> bus_id list \<Rightarrow> bus_id list \<Rightarrow> bus_id list \<Rightarrow> bus_id list" where
  "reachable_loop rs forward [] visited collected = collected"
| "reachable_loop rs forward (i # pending) visited collected =
     (if i \<in> set visited then reachable_loop rs forward pending visited collected
      else reachable_loop rs forward (sort (neighbours rs forward i) @ pending)
             (bs_insert i visited) (bs_insert i collected))"
  by pat_completeness auto

text \<open>Every round either shortens the pending nodes or visits a node that a route or they mention.\<close>

definition unvisited :: "route_edge list \<Rightarrow> bus_id list \<Rightarrow> bus_id list \<Rightarrow> bus_id set" where
  "unvisited rs pending visited = (set pending \<union> rt_from ` set rs \<union> rt_to ` set rs) - set visited"

lemma finite_unvisited [simp]: "finite (unvisited rs pending visited)"
  by (simp add: unvisited_def)

termination reachable_loop
proof (relation "measures [\<lambda>(rs, f, pending, visited, c). card (unvisited rs pending visited),
    \<lambda>(rs, f, pending, visited, c). length pending]")
  fix rs forward i and pending visited collected :: "bus_id list"
  assume "i \<in> set visited"
  then have "unvisited rs pending visited \<subseteq> unvisited rs (i # pending) visited"
    by (auto simp: unvisited_def)
  then have "card (unvisited rs pending visited) \<le> card (unvisited rs (i # pending) visited)"
    by (simp add: card_mono)
  then show "((rs, forward, pending, visited, collected), (rs, forward, i # pending, visited, collected))
      \<in> measures [\<lambda>(rs, f, pending, visited, c). card (unvisited rs pending visited),
          \<lambda>(rs, f, pending, visited, c). length pending]" by auto
next
  fix rs forward i and pending visited collected :: "bus_id list"
  assume new: "i \<notin> set visited"
  have "set (neighbours rs forward i) \<subseteq> rt_from ` set rs \<union> rt_to ` set rs"
    unfolding set_neighbours by (cases forward) (simp_all, blast+)
  then have "unvisited rs (sort (neighbours rs forward i) @ pending) (bs_insert i visited)
      \<subseteq> unvisited rs (i # pending) visited - {i}"
    unfolding unvisited_def by simp blast
  moreover have "i \<in> unvisited rs (i # pending) visited" using new by (simp add: unvisited_def)
  ultimately have "unvisited rs (sort (neighbours rs forward i) @ pending) (bs_insert i visited)
      \<subset> unvisited rs (i # pending) visited"
    by blast
  then have "card (unvisited rs (sort (neighbours rs forward i) @ pending) (bs_insert i visited))
      < card (unvisited rs (i # pending) visited)"
    by (simp add: psubset_card_mono)
  then show "((rs, forward, sort (neighbours rs forward i) @ pending, bs_insert i visited, bs_insert i collected),
        (rs, forward, i # pending, visited, collected))
      \<in> measures [\<lambda>(rs, f, pending, visited, c). card (unvisited rs pending visited),
          \<lambda>(rs, f, pending, visited, c). length pending]" by auto
qed simp

definition collect_reachable :: "bus_id \<Rightarrow> route_edge list \<Rightarrow> bool \<Rightarrow> bus_id list \<Rightarrow> bus_id list" where
  "collect_reachable root rs forward collected = reachable_loop rs forward [root] [] collected"

section \<open>Cycles\<close>

text \<open>
  The depth-first search: \<open>states\<close> is 1 on the stack and 2 when finished. A visit that finds no
  cycle pops what it pushed, so the stack is passed down. The recursion is at most as deep as there
  are nodes; the fuel bounds it, and running out of it is a result of its own.
\<close>

datatype search = Cycle "bus_id list" | Finished "(bus_id, nat) btree" | NoFuel | SearchPanic

definition successors :: "route_edge list \<Rightarrow> bus_id \<Rightarrow> bus_id list" where
  "successors rs i = fold bs_insert (map rt_to (filter (\<lambda>r. rt_from r = i) rs)) []"

definition search_state :: "(bus_id, nat) btree \<Rightarrow> bus_id \<Rightarrow> nat" where
  "search_state states i = (case bt_get states i of None \<Rightarrow> 0 | Some n \<Rightarrow> n)"

fun visit_each ::
  "(bus_id \<Rightarrow> (bus_id, nat) btree \<Rightarrow> bus_id list \<Rightarrow> search) \<Rightarrow> bus_id list \<Rightarrow> bus_id list
     \<Rightarrow> (bus_id, nat) btree \<Rightarrow> search" where
  "visit_each visitor stack [] states = Finished states"
| "visit_each visitor stack (j # js) states =
     (if search_state states j = 0 then
        (case visitor j states stack of
           Finished states' \<Rightarrow> visit_each visitor stack js states'
         | r \<Rightarrow> r)
      else if search_state states j = 1 then
        (case find_position (\<lambda>k. k = j) stack of
           None \<Rightarrow> SearchPanic
         | Some start \<Rightarrow> Cycle (drop start stack @ [j]))
      else visit_each visitor stack js states)"

fun visit :: "nat \<Rightarrow> route_edge list \<Rightarrow> bus_id \<Rightarrow> (bus_id, nat) btree \<Rightarrow> bus_id list \<Rightarrow> search" where
  "visit 0 rs i states stack = NoFuel"
| "visit (Suc fuel) rs i states stack =
     (case visit_each (visit fuel rs) (stack @ [i]) (successors rs i) (bt_insert i 1 states) of
        Finished states' \<Rightarrow> Finished (bt_insert i 2 states')
      | r \<Rightarrow> r)"

fun visit_roots :: "nat \<Rightarrow> route_edge list \<Rightarrow> bus_id list \<Rightarrow> (bus_id, nat) btree \<Rightarrow> search" where
  "visit_roots fuel rs [] states = Finished states"
| "visit_roots fuel rs (i # is) states =
     (if search_state states i = 0 then
        (case visit fuel rs i states [] of
           Finished states' \<Rightarrow> visit_roots fuel rs is states'
         | r \<Rightarrow> r)
      else visit_roots fuel rs is states)"

definition find_cycle :: "(bus_id, mx_bus) btree \<Rightarrow> route_edge list \<Rightarrow> bus_id list option mx_result" where
  "find_cycle buses rs =
     (case visit_roots (Suc (length buses + length rs)) rs (bt_keys buses) [] of
        Cycle c \<Rightarrow> Inr (Some c)
      | Finished _ \<Rightarrow> Inr None
      | _ \<Rightarrow> mx_panics)"

section \<open>Validation\<close>

text \<open>The loops thread the sets of identifiers seen so far.\<close>

definition insert_new :: "'a \<Rightarrow> mixer_error \<Rightarrow> 'a list \<Rightarrow> 'a list mx_result" where
  "insert_new x e seen = (if x \<in> set seen then mx_fails e else Inr (x # seen))"

definition check_send :: "mixer_graph \<Rightarrow> mx_send \<Rightarrow> send_id list \<Rightarrow> send_id list mx_result" where
  "check_send g s sends =
     bind_r (insert_new (sd_id s) (MeDuplicateSend (sd_id s)) sends) (\<lambda>sends.
     then_r (require_bus g (sd_target s))
    (then_r (validate_finite ''send level'' (sd_level_db s)) (Inr sends)))"

definition check_insert :: "mixer_graph \<Rightarrow> insert_slot \<Rightarrow> processor_id list \<Rightarrow> processor_id list mx_result" where
  "check_insert g s used =
     then_r (validate_unit ''insert wet'' (sl_wet s) 0 f32_one)
    (bind_r (insert_new (sl_processor s) (MeProcessorUsedTwice (sl_processor s)) used) (\<lambda>used.
     then_r (require_processor g (sl_processor s)) (Inr used)))"

definition check_output :: "mixer_graph \<Rightarrow> bus_id \<Rightarrow> mx_bus \<Rightarrow> unit mx_result" where
  "check_output g i b =
     then_r (fail_if (i \<noteq> mg_master g \<and> mb_output b = None) (Failed (MeMissingOutput i)))
       (case mb_output b of
          None \<Rightarrow> Inr ()
        | Some target \<Rightarrow>
            then_r (require_bus g target)
           (bind_r (bus_at g target) (\<lambda>t.
            then_r (fail_if (mb_kind t = ReturnBus) (Failed (MeReturnCannotReceiveMain target)))
              (fail_if (mb_kind b = ReturnBus \<and> mb_kind t \<noteq> GroupBus \<and> mb_kind t \<noteq> MasterBus)
                (Failed (MeInvalidReturnOutput i target))))))"

definition check_bus ::
  "mixer_graph \<Rightarrow> bus_id \<times> mx_bus \<Rightarrow> node_id list \<times> send_id list \<times> processor_id list
     \<Rightarrow> (node_id list \<times> send_id list \<times> processor_id list) mx_result" where
  "check_bus g = (\<lambda>(i, b) (nodes, sends, used).
     then_r (fail_if (i \<noteq> mb_id b) (Failed (MeIdentityMismatch ''bus'')))
    (bind_r (insert_new (mb_node_id b) (MeDuplicateNode (mb_node_id b)) nodes) (\<lambda>nodes.
     then_r (validate_finite ''gain'' (fd_gain_db (mb_fader b)))
    (then_r (validate_unit ''pan'' (fd_pan (mb_fader b)) f32_minus_one f32_one)
    (then_r (check_output g i b)
    (bind_r (fold_r (check_send g) (mb_sends b) sends) (\<lambda>sends.
     bind_r (fold_r (check_insert g) (mb_inserts b) used) (\<lambda>used. Inr (nodes, sends, used)))))))))"

definition check_parameter ::
  "processor_id \<Rightarrow> mx_parameter_id \<times> processor_parameter \<Rightarrow> mx_parameter_id list \<times> string list
     \<Rightarrow> (mx_parameter_id list \<times> string list) mx_result" where
  "check_parameter i = (\<lambda>(j, q) (parameters, keys).
     then_r (fail_if (j \<noteq> pp_id q) (Failed (MeIdentityMismatch ''parameter'')))
    (bind_r (insert_new j (MeDuplicateParameter j) parameters) (\<lambda>parameters.
     bind_r (insert_new (pp_key q) (MeDuplicateParameterKey i (pp_key q)) keys) (\<lambda>keys.
     then_r (validate_unit ''parameter value'' (pp_normalized_value q) 0 f32_one) (Inr (parameters, keys))))))"

definition check_processor ::
  "processor_id list \<Rightarrow> processor_id \<times> processor \<Rightarrow> node_id list \<times> mx_parameter_id list
     \<Rightarrow> (node_id list \<times> mx_parameter_id list) mx_result" where
  "check_processor used = (\<lambda>(i, p) (nodes, parameters).
     then_r (fail_if (i \<noteq> pc_id p) (Failed (MeIdentityMismatch ''processor'')))
    (then_r (fail_if (i \<notin> set used) (Failed (MeOrphanProcessor i)))
    (bind_r (insert_new (pc_node_id p) (MeDuplicateNode (pc_node_id p)) nodes) (\<lambda>nodes.
     then_r (validate_descriptor (pc_descriptor p))
    (bind_r (fold_r (check_parameter i) (pc_parameters p) (parameters, [])) (\<lambda>(parameters, _).
       Inr (nodes, parameters)))))))"

definition check_master :: "mixer_graph \<Rightarrow> unit mx_result" where
  "check_master g =
     then_r (fail_if (length (mg_order g) \<noteq> length (mg_buses g)
               \<or> mg_order g = [] \<or> last (mg_order g) \<noteq> mg_master g
               \<or> set (mg_order g) \<noteq> set (bt_keys (mg_buses g))) (Failed MeInvalidBusOrder))
    (bind_r (ok_or (bt_get (mg_buses g) (mg_master g)) (Failed (MeMissingMaster (mg_master g)))) (\<lambda>master.
     then_r (fail_if (mb_kind master \<noteq> MasterBus) (Failed (MeMissingMaster (mg_master g))))
    (then_r (fail_if (length (filter (\<lambda>b. mb_kind b = MasterBus) (bt_values (mg_buses g))) \<noteq> 1)
               (Failed MeMasterAlreadyExists))
    (then_r (fail_if (mb_output master \<noteq> None) (Failed MeMasterCannotRoute))
            (fail_if (mb_sends master \<noteq> []) (Failed MeMasterCannotSend))))))"

definition mixer_validate :: "mixer_graph \<Rightarrow> unit mx_result" where
  "mixer_validate g =
     then_r (check_master g)
    (bind_r (fold_r (check_bus g) (mg_buses g) ([], [], [])) (\<lambda>(nodes, sends, used).
     bind_r (fold_r (check_processor used) (mg_processors g) (nodes, [])) (\<lambda>_.
     bind_r (find_cycle (mg_buses g) (routes g)) (\<lambda>cycle.
       case cycle of Some c \<Rightarrow> mx_fails (MeCycleDetected c) | None \<Rightarrow> Inr ()))))"

section \<open>Effective states\<close>

definition solo_path :: "mixer_graph \<Rightarrow> bus_id list" where
  "solo_path g =
     fold (\<lambda>root path. collect_reachable root (routes g) False (collect_reachable root (routes g) True path))
       (map mb_id (filter (\<lambda>b. fd_soloed (mb_fader b)) (bt_values (mg_buses g)))) []"

definition effective_states :: "mixer_graph \<Rightarrow> (bus_id, effective_bus_state) btree" where
  "effective_states g =
     (let any_solo = list_ex (\<lambda>b. fd_soloed (mb_fader b)) (bt_values (mg_buses g));
          path = solo_path g
      in fold (\<lambda>b m.
           let in_path = (\<not> any_solo \<or> mb_id b \<in> set path);
               suppressed = (any_solo \<and> \<not> in_path)
           in bt_insert (mb_id b)
                \<lparr>eb_explicitly_muted = fd_muted (mb_fader b), eb_soloed = fd_soloed (mb_fader b),
                 eb_in_solo_path = in_path, eb_solo_suppressed = suppressed,
                 eb_audible = (\<not> fd_muted (mb_fader b) \<and> \<not> suppressed)\<rparr> m)
         (bt_values (mg_buses g)) [])"

definition effective_send_gain :: "(f32 \<Rightarrow> f32 \<Rightarrow> f32) \<Rightarrow> mixer_graph \<Rightarrow> send_id \<Rightarrow> f32 mx_result" where
  "effective_send_gain powf g i =
     bind_r (ok_or (find_send g i) (Failed (MeMissingSend i))) (\<lambda>(bus, position).
     bind_r (bus_at g bus) (\<lambda>b.
       if length (mb_sends b) \<le> position then mx_panics
       else let s = mb_sends b ! position
            in if sd_muted s then Inr 0
               else bind_r (ok_or (bt_get (effective_states g) bus) Panicked) (\<lambda>state.
                 if \<not> eb_audible state then Inr 0
                 else let fader = (case sd_tap s of PreFader \<Rightarrow> f32_one
                                   | PostFader \<Rightarrow> db_to_linear powf (fd_gain_db (mb_fader b)))
                      in Inr (f32_mul (db_to_linear powf (sd_level_db s)) fader))))"

section \<open>The latency plan\<close>

text \<open>Sums saturate, as in the code.\<close>

fun insert_latencies :: "mixer_graph \<Rightarrow> insert_slot list \<Rightarrow> nat \<Rightarrow> nat mx_result" where
  "insert_latencies g [] acc = Inr acc"
| "insert_latencies g (s # ss) acc =
     (if sl_bypassed s then insert_latencies g ss acc
      else bind_r (ok_or (bt_get (mg_processors g) (sl_processor s)) Panicked)
        (\<lambda>p. insert_latencies g ss (sat_add_u64 acc (pc_latency_samples p))))"

definition bus_insert_latency :: "mixer_graph \<Rightarrow> bus_id \<Rightarrow> nat mx_result" where
  "bus_insert_latency g i =
     bind_r (ok_or (bt_get (mg_buses g) i) (Failed (MeMissingBus i)))
       (\<lambda>b. insert_latencies g (mb_inserts b) 0)"

definition count_route :: "route_edge \<Rightarrow> (bus_id, nat) btree \<Rightarrow> (bus_id, nat) btree mx_result" where
  "count_route r degrees =
     bind_r (ok_or (bt_get degrees (rt_to r)) Panicked) (\<lambda>n. Inr (bt_insert (rt_to r) (n + 1) degrees))"

definition arrival :: "(bus_id, bus_latency) btree \<Rightarrow> route_edge \<Rightarrow> (route_edge \<times> nat) mx_result" where
  "arrival latencies r =
     bind_r (ok_or (bt_get latencies (rt_from r)) Panicked) (\<lambda>l. Inr (r, bl_output l))"

definition release_route ::
  "route_edge \<Rightarrow> (bus_id, nat) btree \<times> bus_id list \<Rightarrow> ((bus_id, nat) btree \<times> bus_id list) mx_result" where
  "release_route r = (\<lambda>(degrees, ready).
     bind_r (ok_or (bt_get degrees (rt_to r)) Panicked) (\<lambda>n.
       if n = 0 then mx_panics
       else Inr (bt_insert (rt_to r) (n - 1) degrees,
                 if n - 1 = 0 then bs_insert (rt_to r) ready else ready)))"

text \<open>
  The loop over the ready buses. Every round takes one bus off, and no bus becomes ready twice, so
  the number of buses is fuel enough; running out of it is the outcome \<open>None\<close>.
\<close>

fun latency_loop ::
  "nat \<Rightarrow> mixer_graph \<Rightarrow> route_edge list \<Rightarrow> (bus_id, nat) btree \<Rightarrow> bus_id list
     \<Rightarrow> (bus_id, bus_latency) btree \<Rightarrow> (route_edge, route_latency) btree
     \<Rightarrow> ((bus_id, bus_latency) btree \<times> (route_edge, route_latency) btree) mx_result option" where
  "latency_loop fuel g rs degrees [] buses legs = Some (Inr (buses, legs))"
| "latency_loop 0 g rs degrees (i # ready) buses legs = None"
| "latency_loop (Suc fuel) g rs degrees (i # ready) buses legs =
     (case collect_r (arrival buses) (filter (\<lambda>r. rt_to r = i) rs) of
        Inl e \<Rightarrow> Some (Inl e)
      | Inr arrivals \<Rightarrow>
          let input = fold max (map snd arrivals) 0;
              legs' = fold (\<lambda>(r, a). bt_insert r \<lparr>rl_arrival = a, rl_compensation = input - a\<rparr>) arrivals legs
          in case bus_insert_latency g i of
               Inl e \<Rightarrow> Some (Inl e)
             | Inr inserts \<Rightarrow>
                 let buses' = bt_insert i \<lparr>bl_input = input, bl_insert = inserts,
                                bl_output = sat_add_u64 input inserts\<rparr> buses
                 in case fold_r release_route (filter (\<lambda>r. rt_from r = i) rs) (degrees, ready) of
                      Inl e \<Rightarrow> Some (Inl e)
                    | Inr (degrees', ready') \<Rightarrow> latency_loop fuel g rs degrees' ready' buses' legs')"

definition latency_plan_of :: "mixer_graph \<Rightarrow> latency_plan mx_result" where
  "latency_plan_of g =
     then_r (mixer_validate g)
    (bind_r (fold_r count_route (routes g) (map (\<lambda>i. (i, 0)) (bt_keys (mg_buses g)))) (\<lambda>degrees.
       let ready = map fst (filter (\<lambda>(i, n). n = 0) degrees)
       in case latency_loop (length (mg_buses g)) g (routes g) degrees ready [] [] of
            None \<Rightarrow> mx_panics
          | Some outcome \<Rightarrow>
              bind_r outcome (\<lambda>(buses, legs).
              bind_r (ok_or (bt_get buses (mg_master g)) Panicked) (\<lambda>m.
                Inr \<lparr>lp_buses = buses, lp_routes = legs, lp_master_output = bl_output m\<rparr>))))"

end
