(* ===== verification/Mixer_Edits.thy ===== *)
theory Mixer_Edits
  imports Mixer_Graph
begin

text \<open>
  The edits of \<open>MixerGraph\<close> in \<open>src/mixer.rs\<close>. Every edit returns the graph it leaves behind, so a failing edit that has
  already consumed an identifier shows it.
\<close>

definition mixer_new :: "unicode_string \<Rightarrow> mixer_graph" where
  "mixer_new name =
     \<lparr>mg_buses = [(Id 1, \<lparr>mb_id = Id 1, mb_node_id = Id 1, mb_name = name, mb_kind = MasterBus,
        mb_output = None, mb_inserts = [], mb_sends = [], mb_fader = fader_default\<rparr>)],
      mg_order = [Id 1], mg_processors = [], mg_master = Id 1, mg_revision = 0, mg_next_bus = 2,
      mg_next_node = 2, mg_next_send = 1, mg_next_processor = 1, mg_next_parameter = 1\<rparr>"

definition allocator_state :: "mixer_graph \<Rightarrow> mixer_allocator" where
  "allocator_state g = \<lparr>al_next_bus = mg_next_bus g, al_next_node = mg_next_node g,
     al_next_send = mg_next_send g, al_next_processor = mg_next_processor g,
     al_next_parameter = mg_next_parameter g\<rparr>"

section \<open>Updates in place\<close>

definition on_bus :: "bus_id \<Rightarrow> (mx_bus \<Rightarrow> mx_bus) \<Rightarrow> unit mx_step" where
  "on_bus i f g =
     (case bt_get (mg_buses g) i of
        None \<Rightarrow> (mx_fails (MeMissingBus i), g)
      | Some b \<Rightarrow> (Inr (), g\<lparr>mg_buses := bt_insert i (f b) (mg_buses g)\<rparr>))"

definition on_processor :: "processor_id \<Rightarrow> (processor \<Rightarrow> processor) \<Rightarrow> unit mx_step" where
  "on_processor i f g =
     (case bt_get (mg_processors g) i of
        None \<Rightarrow> (mx_fails (MeMissingProcessor i), g)
      | Some p \<Rightarrow> (Inr (), g\<lparr>mg_processors := bt_insert i (f p) (mg_processors g)\<rparr>))"

definition on_insert :: "processor_id \<Rightarrow> (insert_slot \<Rightarrow> insert_slot) \<Rightarrow> unit mx_step" where
  "on_insert i f g =
     (case find_insert g i of
        None \<Rightarrow> (mx_fails (MeMissingProcessor i), g)
      | Some (bus, k) \<Rightarrow>
          (case bt_get (mg_buses g) bus of
             None \<Rightarrow> (mx_fails (MeMissingBus bus), g)
           | Some b \<Rightarrow>
               if k < length (mb_inserts b)
               then on_bus bus (\<lambda>b. b\<lparr>mb_inserts := (mb_inserts b)[k := f (mb_inserts b ! k)]\<rparr>) g
               else (mx_panics, g)))"

definition on_send :: "send_id \<Rightarrow> (mx_send \<Rightarrow> mx_send) \<Rightarrow> unit mx_step" where
  "on_send i f g =
     (case find_send g i of
        None \<Rightarrow> (mx_fails (MeMissingSend i), g)
      | Some (bus, k) \<Rightarrow>
          (case bt_get (mg_buses g) bus of
             None \<Rightarrow> (mx_fails (MeMissingBus bus), g)
           | Some b \<Rightarrow>
               if k < length (mb_sends b)
               then on_bus bus (\<lambda>b. b\<lparr>mb_sends := (mb_sends b)[k := f (mb_sends b ! k)]\<rparr>) g
               else (mx_panics, g)))"

section \<open>Buses\<close>

text \<open>The bus identifier is consumed before the node identifier, also when the latter is exhausted.\<close>

definition add_bus :: "bus_kind \<Rightarrow> unicode_string \<Rightarrow> bus_id mx_step" where
  "add_bus kind name g =
     (if kind = MasterBus then (mx_fails MeMasterAlreadyExists, g)
      else if is_blank_text name then (mx_fails (MeEmptyField ''bus name''), g)
      else attempt (peek_id (mg_next_bus g) ''bus'') (\<lambda>i g.
           let g = g\<lparr>mg_next_bus := i + 1\<rparr> in
           attempt (peek_id (mg_next_node g) ''node'') (\<lambda>n g.
             let g = g\<lparr>mg_next_node := n + 1,
                   mg_buses := bt_insert (Id i)
                     \<lparr>mb_id = Id i, mb_node_id = Id n, mb_name = name, mb_kind = kind,
                      mb_output = Some (mg_master g), mb_inserts = [], mb_sends = [],
                      mb_fader = fader_default\<rparr> (mg_buses g)\<rparr>
             in case find_position (\<lambda>j. j = mg_master g) (mg_order g) of
                  None \<Rightarrow> (mx_panics, g)
                | Some k \<Rightarrow> (Inr (Id i), g\<lparr>mg_order := insert_at k (Id i) (mg_order g)\<rparr>)) g) g)"

definition remove_bus :: "bus_id \<Rightarrow> mx_bus mx_step" where
  "remove_bus i g =
     attempt (require_bus g i) (\<lambda>_ g.
       if i = mg_master g then (mx_fails MeCannotRemoveMaster, g)
       else if list_ex (\<lambda>r. rt_to r = i) (routes g) then (mx_fails (MeBusStillReferenced i), g)
       else attempt (bus_at g i) (\<lambda>b g.
         (Inr b, g\<lparr>mg_buses := bt_remove i (mg_buses g), mg_order := filter (\<lambda>j. j \<noteq> i) (mg_order g),
                   mg_processors := fold (\<lambda>s m. bt_remove (sl_processor s) m) (mb_inserts b) (mg_processors g)\<rparr>)) g) g"

definition rename_bus :: "bus_id \<Rightarrow> unicode_string \<Rightarrow> unit mx_step" where
  "rename_bus i name g =
     (if is_blank_text name then (mx_fails (MeEmptyField ''bus name''), g)
      else on_bus i (\<lambda>b. b\<lparr>mb_name := name\<rparr>) g)"

definition move_bus_before :: "bus_id \<Rightarrow> bus_id option \<Rightarrow> unit mx_step" where
  "move_bus_before i anchor g =
     attempt (require_bus g i) (\<lambda>_ g.
       if i = mg_master g then (mx_fails MeMasterOrderIsPinned, g)
       else attempt (case anchor of None \<Rightarrow> Inr () | Some a \<Rightarrow> require_bus g a) (\<lambda>_ g.
         if anchor = Some i then (Inr (), g)
         else case find_position (\<lambda>j. j = i) (mg_order g) of
           None \<Rightarrow> (mx_fails MeInvalidBusOrder, g)
         | Some old \<Rightarrow>
             let order = remove_at old (mg_order g); g = g\<lparr>mg_order := order\<rparr>
             in case find_position (\<lambda>j. j = (case anchor of None \<Rightarrow> mg_master g | Some a \<Rightarrow> a)) order of
                  None \<Rightarrow> (mx_fails MeInvalidBusOrder, g)
                | Some k \<Rightarrow> (Inr (), g\<lparr>mg_order := insert_at k i order\<rparr>)) g) g"

text \<open>A rejected route is rolled back by writing the old output.\<close>

definition set_output :: "bus_id \<Rightarrow> bus_id \<Rightarrow> unit mx_step" where
  "set_output source target g =
     attempt (require_bus g source) (\<lambda>_.
     attempt (require_bus g target) (\<lambda>_ g.
       if source = mg_master g then (mx_fails MeMasterCannotRoute, g)
       else attempt (bus_at g target) (\<lambda>t.
            attempt (bus_at g source) (\<lambda>b g.
              if mb_kind t = ReturnBus then (mx_fails (MeReturnCannotReceiveMain target), g)
              else if mb_kind b = ReturnBus \<and> mb_kind t \<noteq> GroupBus \<and> mb_kind t \<noteq> MasterBus
              then (mx_fails (MeInvalidReturnOutput source target), g)
              else let g' = snd (on_bus source (\<lambda>b. b\<lparr>mb_output := Some target\<rparr>) g)
                   in case mixer_validate g' of
                        Inl e \<Rightarrow> (Inl e, snd (on_bus source (\<lambda>c. c\<lparr>mb_output := mb_output b\<rparr>) g'))
                      | Inr _ \<Rightarrow> (Inr (), g'))) g)) g"

definition add_send :: "bus_id \<Rightarrow> bus_id \<Rightarrow> send_tap \<Rightarrow> f32 \<Rightarrow> send_id mx_step" where
  "add_send source target tap level g =
     attempt (validate_finite ''send level'' level) (\<lambda>_.
     attempt (require_bus g source) (\<lambda>_.
     attempt (require_bus g target) (\<lambda>_ g.
       if source = mg_master g then (mx_fails MeMasterCannotSend, g)
       else attempt (peek_id (mg_next_send g) ''send'') (\<lambda>i g.
         let g' = snd (on_bus source (\<lambda>b. b\<lparr>mb_sends := mb_sends b @
               [\<lparr>sd_id = Id i, sd_target = target, sd_tap = tap, sd_level_db = level, sd_muted = False\<rparr>]\<rparr>) g)
         in case mixer_validate g' of
              Inl e \<Rightarrow> (Inl e, snd (on_bus source (\<lambda>b. b\<lparr>mb_sends := butlast (mb_sends b)\<rparr>) g'))
            | Inr _ \<Rightarrow> (Inr (Id i), g'\<lparr>mg_next_send := i + 1\<rparr>)) g))) g"

definition remove_send :: "send_id \<Rightarrow> mx_send mx_step" where
  "remove_send i g =
     (case find_send g i of
        None \<Rightarrow> (mx_fails (MeMissingSend i), g)
      | Some (bus, k) \<Rightarrow>
          (case bt_get (mg_buses g) bus of
             None \<Rightarrow> (mx_fails (MeMissingBus bus), g)
           | Some b \<Rightarrow>
               if k < length (mb_sends b)
               then (Inr (mb_sends b ! k), snd (on_bus bus (\<lambda>b. b\<lparr>mb_sends := remove_at k (mb_sends b)\<rparr>) g))
               else (mx_panics, g)))"

definition set_send_tap :: "send_id \<Rightarrow> send_tap \<Rightarrow> unit mx_step" where
  "set_send_tap i tap g = on_send i (\<lambda>s. s\<lparr>sd_tap := tap\<rparr>) g"

definition set_send_level :: "send_id \<Rightarrow> f32 \<Rightarrow> unit mx_step" where
  "set_send_level i level g =
     attempt (validate_finite ''send level'' level) (\<lambda>_. on_send i (\<lambda>s. s\<lparr>sd_level_db := level\<rparr>)) g"

definition set_send_muted :: "send_id \<Rightarrow> bool \<Rightarrow> unit mx_step" where
  "set_send_muted i muted g = on_send i (\<lambda>s. s\<lparr>sd_muted := muted\<rparr>) g"

definition set_gain_db :: "bus_id \<Rightarrow> f32 \<Rightarrow> unit mx_step" where
  "set_gain_db i gain g =
     attempt (validate_finite ''gain'' gain)
       (\<lambda>_. on_bus i (\<lambda>b. b\<lparr>mb_fader := (mb_fader b)\<lparr>fd_gain_db := gain\<rparr>\<rparr>)) g"

definition set_pan :: "bus_id \<Rightarrow> f32 \<Rightarrow> unit mx_step" where
  "set_pan i pan g =
     attempt (validate_unit ''pan'' pan f32_minus_one f32_one)
       (\<lambda>_. on_bus i (\<lambda>b. b\<lparr>mb_fader := (mb_fader b)\<lparr>fd_pan := pan\<rparr>\<rparr>)) g"

definition set_muted :: "bus_id \<Rightarrow> bool \<Rightarrow> unit mx_step" where
  "set_muted i muted g = on_bus i (\<lambda>b. b\<lparr>mb_fader := (mb_fader b)\<lparr>fd_muted := muted\<rparr>\<rparr>) g"

definition set_soloed :: "bus_id \<Rightarrow> bool \<Rightarrow> unit mx_step" where
  "set_soloed i soloed g = on_bus i (\<lambda>b. b\<lparr>mb_fader := (mb_fader b)\<lparr>fd_soloed := soloed\<rparr>\<rparr>) g"

section \<open>Processors\<close>

definition insert_processor :: "bus_id \<Rightarrow> nat option \<Rightarrow> plugin_descriptor \<Rightarrow> nat \<Rightarrow> processor_id mx_step" where
  "insert_processor bus index descriptor latency g =
     attempt (require_bus g bus) (\<lambda>_.
     attempt (validate_descriptor descriptor) (\<lambda>_.
     attempt (bus_at g bus) (\<lambda>b g.
       let len = length (mb_inserts b); k = (case index of None \<Rightarrow> len | Some k \<Rightarrow> k)
       in if len < k then (mx_fails (MeInvalidInsertIndex k len), g)
          else attempt (peek_id (mg_next_processor g) ''processor'') (\<lambda>i g.
               let g = g\<lparr>mg_next_processor := i + 1\<rparr> in
               attempt (peek_id (mg_next_node g) ''node'') (\<lambda>n g.
                 let g = g\<lparr>mg_next_node := n + 1, mg_processors := bt_insert (Id i)
                       \<lparr>pc_id = Id i, pc_node_id = Id n, pc_descriptor = descriptor,
                        pc_latency_samples = latency, pc_parameters = []\<rparr> (mg_processors g)\<rparr>
                 in (Inr (Id i), snd (on_bus bus (\<lambda>b. b\<lparr>mb_inserts := insert_at k
                       \<lparr>sl_processor = Id i, sl_bypassed = False, sl_wet = f32_one\<rparr> (mb_inserts b)\<rparr>) g))) g) g))) g"

definition remove_processor :: "processor_id \<Rightarrow> processor mx_step" where
  "remove_processor i g =
     (case find_insert g i of
        None \<Rightarrow> (mx_fails (MeMissingProcessor i), g)
      | Some (bus, k) \<Rightarrow>
          (case bt_get (mg_buses g) bus of
             None \<Rightarrow> (mx_fails (MeMissingBus bus), g)
           | Some b \<Rightarrow>
               if length (mb_inserts b) \<le> k then (mx_panics, g)
               else let g = snd (on_bus bus (\<lambda>b. b\<lparr>mb_inserts := remove_at k (mb_inserts b)\<rparr>) g)
                    in case bt_get (mg_processors g) i of
                         None \<Rightarrow> (mx_panics, g)
                       | Some p \<Rightarrow> (Inr p, g\<lparr>mg_processors := bt_remove i (mg_processors g)\<rparr>)))"

definition move_processor :: "bus_id \<Rightarrow> processor_id \<Rightarrow> nat \<Rightarrow> unit mx_step" where
  "move_processor bus i k g =
     (case find_insert g i of
        None \<Rightarrow> (mx_fails (MeMissingProcessor i), g)
      | Some (owner, old) \<Rightarrow>
          if owner \<noteq> bus then (mx_fails (MeProcessorNotOnBus i bus), g)
          else attempt (bus_at g bus) (\<lambda>b g.
            if length (mb_inserts b) \<le> old then (mx_panics, g)
            else let len = length (mb_inserts b) - 1
                 in if len < k then (mx_fails (MeInvalidInsertIndex k len), g)
                    else on_bus bus (\<lambda>b. b\<lparr>mb_inserts :=
                           insert_at k (mb_inserts b ! old) (remove_at old (mb_inserts b))\<rparr>) g) g)"

definition move_processor_before :: "processor_id \<Rightarrow> processor_id option \<Rightarrow> unit mx_step" where
  "move_processor_before i anchor g =
     (case find_insert g i of
        None \<Rightarrow> (mx_fails (MeMissingProcessor i), g)
      | Some (bus, old) \<Rightarrow>
          (case anchor of
             None \<Rightarrow> attempt (bus_at g bus) (\<lambda>b. move_processor bus i (length (mb_inserts b) - 1)) g
           | Some a \<Rightarrow>
               if a = i then (mx_fails (MeInsertCannotPrecedeItself i), g)
               else (case find_insert g a of
                       None \<Rightarrow> (mx_fails (MeMissingProcessor a), g)
                     | Some (owner, k) \<Rightarrow>
                         if owner \<noteq> bus then (mx_fails (MeProcessorNotOnBus a bus), g)
                         else move_processor bus i (if old < k then k - 1 else k) g)))"

definition set_insert_bypassed :: "processor_id \<Rightarrow> bool \<Rightarrow> unit mx_step" where
  "set_insert_bypassed i bypassed g = on_insert i (\<lambda>s. s\<lparr>sl_bypassed := bypassed\<rparr>) g"

definition set_insert_wet :: "processor_id \<Rightarrow> f32 \<Rightarrow> unit mx_step" where
  "set_insert_wet i wet g =
     attempt (validate_unit ''insert wet'' wet 0 f32_one) (\<lambda>_. on_insert i (\<lambda>s. s\<lparr>sl_wet := wet\<rparr>)) g"

definition set_processor_latency :: "processor_id \<Rightarrow> nat \<Rightarrow> unit mx_step" where
  "set_processor_latency i latency g = on_processor i (\<lambda>p. p\<lparr>pc_latency_samples := latency\<rparr>) g"

definition add_parameter :: "processor_id \<Rightarrow> string \<Rightarrow> string \<Rightarrow> f32 \<Rightarrow> mx_parameter_id mx_step" where
  "add_parameter i key name v g =
     attempt (validate_unit ''parameter value'' v 0 f32_one) (\<lambda>_.
     attempt (require_processor g i) (\<lambda>_ g.
       if key = [] then (mx_fails (MeEmptyField ''parameter key''), g)
       else attempt (ok_or (bt_get (mg_processors g) i) Panicked) (\<lambda>p g.
         if list_ex (\<lambda>q. pp_key q = key) (bt_values (pc_parameters p))
         then (mx_fails (MeDuplicateParameterKey i key), g)
         else attempt (peek_id (mg_next_parameter g) ''parameter'') (\<lambda>j g.
           (Inr (Id j), snd (on_processor i (\<lambda>p. p\<lparr>pc_parameters := bt_insert (Id j)
                \<lparr>pp_id = Id j, pp_key = key, pp_name = name, pp_normalized_value = v\<rparr> (pc_parameters p)\<rparr>)
              (g\<lparr>mg_next_parameter := j + 1\<rparr>)))) g) g)) g"

definition set_parameter_value :: "processor_id \<Rightarrow> mx_parameter_id \<Rightarrow> f32 \<Rightarrow> unit mx_step" where
  "set_parameter_value i j v g =
     attempt (validate_unit ''parameter value'' v 0 f32_one) (\<lambda>_.
     attempt (ok_or (bt_get (mg_processors g) i) (Failed (MeMissingProcessor i))) (\<lambda>p.
     attempt (ok_or (bt_get (pc_parameters p) j) (Failed (MeMissingParameter j))) (\<lambda>q.
       on_processor i (\<lambda>p. p\<lparr>pc_parameters :=
         bt_insert j (q\<lparr>pp_normalized_value := v\<rparr>) (pc_parameters p)\<rparr>)))) g"

definition remove_parameter :: "processor_id \<Rightarrow> mx_parameter_id \<Rightarrow> processor_parameter mx_step" where
  "remove_parameter i j g =
     attempt (ok_or (bt_get (mg_processors g) i) (Failed (MeMissingProcessor i))) (\<lambda>p.
     attempt (ok_or (bt_get (pc_parameters p) j) (Failed (MeMissingParameter j))) (\<lambda>q g.
       (Inr q, snd (on_processor i (\<lambda>p. p\<lparr>pc_parameters := bt_remove j (pc_parameters p)\<rparr>) g)))) g"

section \<open>Restoring the cursors\<close>

text \<open>The cursors are written one after the other; the first bad one stops with the rest unwritten.\<close>

definition next_after :: "nat list \<Rightarrow> nat \<Rightarrow> nat mx_result" where
  "next_after used next =
     (if next \<noteq> 0 \<and> fold max used 0 < next then Inr next else mx_fails MeInvalidAllocatorState)"

definition restore_codec_state :: "mixer_allocator \<Rightarrow> nat \<Rightarrow> unit mx_step" where
  "restore_codec_state al revision g =
     attempt (next_after (map raw (bt_keys (mg_buses g))) (al_next_bus al)) (\<lambda>n g.
       let g = g\<lparr>mg_next_bus := n\<rparr> in
     attempt (next_after (map (\<lambda>b. raw (mb_node_id b)) (bt_values (mg_buses g))
          @ map (\<lambda>p. raw (pc_node_id p)) (bt_values (mg_processors g))) (al_next_node al)) (\<lambda>n g.
       let g = g\<lparr>mg_next_node := n\<rparr> in
     attempt (next_after (concat (map (\<lambda>b. map (\<lambda>s. raw (sd_id s)) (mb_sends b)) (bt_values (mg_buses g))))
          (al_next_send al)) (\<lambda>n g.
       let g = g\<lparr>mg_next_send := n\<rparr> in
     attempt (next_after (map raw (bt_keys (mg_processors g))) (al_next_processor al)) (\<lambda>n g.
       let g = g\<lparr>mg_next_processor := n\<rparr> in
     attempt (next_after (concat (map (\<lambda>p. map raw (bt_keys (pc_parameters p))) (bt_values (mg_processors g))))
          (al_next_parameter al)) (\<lambda>n g.
       (Inr (), g\<lparr>mg_next_parameter := n, mg_revision := revision\<rparr>)) g) g) g) g) g"

end
