(* ===== verification/Mixer_Cycles.thy ===== *)
theory Mixer_Cycles
  imports Mixer_Graph
begin

text \<open>
  The two traversals of \<open>src/mixer.rs\<close>: the depth-first search decides whether the routing has a
  cycle and reports a real one, and \<open>collect_reachable\<close> collects exactly what is reachable.
\<close>

definition links :: "route_edge list \<Rightarrow> (bus_id \<times> bus_id) set" where
  "links rs = {(rt_from r, rt_to r) | r. r \<in> set rs}"

lemma linksI: "r \<in> set rs \<Longrightarrow> (rt_from r, rt_to r) \<in> links rs"
  by (auto simp: links_def)

lemma links_image: "links rs = (\<lambda>r. (rt_from r, rt_to r)) ` set rs"
  by (auto simp: links_def)

lemma set_successors: "set (successors rs i) = links rs `` {i}"
  by (auto simp: successors_def set_fold_bs_insert links_def)

section \<open>The depth-first search\<close>

text \<open>A closed walk along the routes.\<close>

definition is_cycle :: "route_edge list \<Rightarrow> bus_id list \<Rightarrow> bool" where
  "is_cycle rs c \<longleftrightarrow> 2 \<le> length c \<and> hd c = last c \<and> successively (\<lambda>a b. (a, b) \<in> links rs) c"

lemma walk_trancl:
  "successively (\<lambda>a b. (a, b) \<in> E) c \<Longrightarrow> 2 \<le> length c \<Longrightarrow> (hd c, last c) \<in> E\<^sup>+"
proof (induction c)
  case (Cons a c)
  then obtain b c' where c: "c = b # c'" by (cases c) auto
  with Cons.prems have ab: "(a, b) \<in> E" by simp
  show ?case
  proof (cases c')
    case Nil
    with ab c show ?thesis by auto
  next
    case (Cons d ds)
    with Cons.IH Cons.prems c have "(hd c, last c) \<in> E\<^sup>+" by simp
    with ab c show ?thesis by (simp add: trancl_into_trancl2)
  qed
qed simp

lemma is_cycle_cyclic: "is_cycle rs c \<Longrightarrow> \<not> acyclic (links rs)"
  using walk_trancl[of "links rs" c] unfolding is_cycle_def acyclic_def by metis

definition search_inv :: "route_edge list \<Rightarrow> (bus_id, nat) btree \<Rightarrow> bus_id list \<Rightarrow> bool" where
  "search_inv rs st stack \<longleftrightarrow> bt_ok st \<and> distinct stack
     \<and> successively (\<lambda>a b. (a, b) \<in> links rs) stack
     \<and> (\<forall>x. search_state st x = 1 \<longleftrightarrow> x \<in> set stack)
     \<and> (\<forall>x. search_state st x \<le> 2)
     \<and> (\<forall>x y. search_state st x = 2 \<longrightarrow> (x, y) \<in> links rs \<longrightarrow> search_state st y = 2)
     \<and> (\<forall>x. search_state st x = 2 \<longrightarrow> (x, x) \<notin> (links rs)\<^sup>+)"

lemma search_state_insert [simp]:
  "search_state (bt_insert i n st) x = (if x = i then n else search_state st x)"
  by (simp add: search_state_def)

lemma search_state_empty [simp]: "search_state [] x = 0"
  by (simp add: search_state_def)

lemma finished_closed:
  assumes "search_inv rs st stack" "search_state st x = 2" "(x, y) \<in> (links rs)\<^sup>*"
  shows "search_state st y = 2"
  using assms(3,2) by induction (use assms(1) in \<open>auto simp: search_inv_def\<close>)

lemma search_push:
  assumes inv: "search_inv rs st stack" and new: "search_state st i = 0"
    and link: "stack = [] \<or> (last stack, i) \<in> links rs"
  shows "search_inv rs (bt_insert i 1 st) (stack @ [i])"
proof -
  have "search_state st i = 1 \<longleftrightarrow> i \<in> set stack" using inv unfolding search_inv_def by blast
  then have "i \<notin> set stack" using new by simp
  moreover have "successively (\<lambda>a b. (a, b) \<in> links rs) (stack @ [i])"
    using inv link by (auto simp: search_inv_def successively_append_iff)
  moreover have "search_state st y = 2 \<longrightarrow> y \<noteq> i" for y using new by auto
  ultimately show ?thesis
    using inv unfolding search_inv_def by (auto split: if_splits)
qed

lemma search_pop:
  assumes inv: "search_inv rs st (stack @ [i])" and all: "\<forall>j. (i, j) \<in> links rs \<longrightarrow> search_state st j = 2"
  shows "search_inv rs (bt_insert i 2 st) stack"
proof -
  have grey: "search_state st i = 1" using inv by (simp add: search_inv_def)
  have "(i, i) \<notin> (links rs)\<^sup>+"
  proof
    assume "(i, i) \<in> (links rs)\<^sup>+"
    then obtain j where j: "(i, j) \<in> links rs" "(j, i) \<in> (links rs)\<^sup>*" by (metis tranclD)
    with all finished_closed[OF inv, of j i] grey show False by simp
  qed
  with inv all show ?thesis
    unfolding search_inv_def by (auto simp: successively_append_iff)
qed

text \<open>What a search has established when it ends.\<close>

definition search_ok ::
  "route_edge list \<Rightarrow> (bus_id, nat) btree \<Rightarrow> bus_id list \<Rightarrow> ((bus_id, nat) btree \<Rightarrow> bool) \<Rightarrow> search \<Rightarrow> bool" where
  "search_ok rs st stack P r \<longleftrightarrow>
     (case r of
        Finished st' \<Rightarrow> search_inv rs st' stack \<and> (\<forall>x. search_state st x = 2 \<longrightarrow> search_state st' x = 2) \<and> P st'
      | Cycle c \<Rightarrow> is_cycle rs c
      | SearchPanic \<Rightarrow> False
      | NoFuel \<Rightarrow> True)"

lemma back_edge:
  assumes "search_inv rs st (stack @ [i])" "search_state st j = 1" "(i, j) \<in> links rs"
  obtains k where "find_position (\<lambda>x. x = j) (stack @ [i]) = Some k" "is_cycle rs (drop k (stack @ [i]) @ [j])"
proof -
  have "j \<in> set (stack @ [i])" using assms(1,2) by (auto simp: search_inv_def)
  then obtain k where k: "find_position (\<lambda>x. x = j) (stack @ [i]) = Some k"
    using find_position_None[of "\<lambda>x. x = j" "stack @ [i]"] by blast
  then have at: "k < length (stack @ [i])" "(stack @ [i]) ! k = j" by (simp_all add: find_position_Some)
  let ?d = "drop k (stack @ [i])"
  have d: "?d \<noteq> []" "hd ?d = j" "last ?d = i" using at hd_drop_conv_nth[OF at(1)] by (simp_all del: drop_append)
  have "successively (\<lambda>a b. (a, b) \<in> links rs) (take k (stack @ [i]) @ ?d)"
    using assms(1) unfolding search_inv_def append_take_drop_id by blast
  then have "successively (\<lambda>a b. (a, b) \<in> links rs) ?d" by (simp only: successively_append_iff)
  with d assms(3) have "successively (\<lambda>a b. (a, b) \<in> links rs) (?d @ [j])"
    by (simp add: successively_append_iff del: drop_append)
  with d have "is_cycle rs (?d @ [j])"
    by (cases ?d) (simp_all add: is_cycle_def del: drop_append)
  with k show thesis by (rule that)
qed

lemma visit_each_ok:
  assumes visitor: "\<And>j st. search_inv rs st (stack @ [i]) \<Longrightarrow> search_state st j = 0 \<Longrightarrow> (i, j) \<in> links rs
      \<Longrightarrow> search_ok rs st (stack @ [i]) (\<lambda>st'. search_state st' j = 2) (visitor j st (stack @ [i]))"
  shows "search_inv rs st (stack @ [i]) \<Longrightarrow> \<forall>j \<in> set js. (i, j) \<in> links rs
      \<Longrightarrow> search_ok rs st (stack @ [i]) (\<lambda>st'. \<forall>j \<in> set js. search_state st' j = 2)
            (visit_each visitor (stack @ [i]) js st)"
proof (induction js arbitrary: st)
  case Nil
  then show ?case by (simp add: search_ok_def)
next
  case (Cons j js)
  have link: "(i, j) \<in> links rs" using Cons.prems(2) by simp
  have "search_state st j \<le> 2" using Cons.prems(1) by (simp add: search_inv_def)
  then consider "search_state st j = 0" | "search_state st j = 1" | "search_state st j = 2" by linarith
  then show ?case
  proof cases
    case 1
    have ok: "search_ok rs st (stack @ [i]) (\<lambda>st'. search_state st' j = 2) (visitor j st (stack @ [i]))"
      by (rule visitor[OF Cons.prems(1) 1 link])
    show ?thesis
    proof (cases "visitor j st (stack @ [i])")
      case (Finished st')
      with ok have st': "search_inv rs st' (stack @ [i])" "search_state st' j = 2"
        "\<forall>x. search_state st x = 2 \<longrightarrow> search_state st' x = 2"
        by (simp_all add: search_ok_def)
      from Cons.IH[OF st'(1)] Cons.prems(2) st'(2,3) show ?thesis
        by (auto simp: search_ok_def 1 Finished split: search.splits)
    qed (use ok 1 in \<open>simp_all add: search_ok_def\<close>)
  next
    case 2
    from back_edge[OF Cons.prems(1) 2 link] obtain k where
      "find_position (\<lambda>x. x = j) (stack @ [i]) = Some k" "is_cycle rs (drop k (stack @ [i]) @ [j])" .
    with 2 show ?thesis by (simp add: search_ok_def)
  next
    case 3
    from Cons.IH[OF Cons.prems(1)] Cons.prems(2) 3 show ?thesis
      by (auto simp: search_ok_def split: search.splits)
  qed
qed

lemma visit_ok:
  "search_inv rs st stack \<Longrightarrow> search_state st i = 0 \<Longrightarrow> stack = [] \<or> (last stack, i) \<in> links rs
     \<Longrightarrow> search_ok rs st stack (\<lambda>st'. search_state st' i = 2) (visit fuel rs i st stack)"
proof (induction fuel arbitrary: i st stack)
  case 0
  then show ?case by (simp add: search_ok_def)
next
  case (Suc fuel)
  let ?st = "bt_insert i 1 st"
  have inv: "search_inv rs ?st (stack @ [i])" by (rule search_push[OF Suc.prems])
  have ok: "search_ok rs ?st (stack @ [i]) (\<lambda>st'. \<forall>j \<in> set (successors rs i). search_state st' j = 2)
      (visit_each (visit fuel rs) (stack @ [i]) (successors rs i) ?st)"
    by (rule visit_each_ok) (use Suc.IH inv in \<open>simp_all add: set_successors\<close>)
  show ?case
  proof (cases "visit_each (visit fuel rs) (stack @ [i]) (successors rs i) ?st")
    case (Finished st')
    with ok have st': "search_inv rs st' (stack @ [i])" "\<forall>j. (i, j) \<in> links rs \<longrightarrow> search_state st' j = 2"
      "\<forall>x. search_state ?st x = 2 \<longrightarrow> search_state st' x = 2"
      by (simp_all add: search_ok_def set_successors)
    have "search_state st' x = 2" if "search_state st x = 2" for x
    proof -
      have "x \<noteq> i" using that Suc.prems(2) by auto
      with st'(3) that show ?thesis by simp
    qed
    with search_pop[OF st'(1,2)] Finished show ?thesis by (simp add: search_ok_def)
  qed (use ok in \<open>simp_all add: search_ok_def\<close>)
qed

section \<open>Fuel\<close>

definition open_nodes :: "bus_id set \<Rightarrow> (bus_id, nat) btree \<Rightarrow> bus_id set" where
  "open_nodes U st = {x \<in> U. search_state st x = 0}"

lemma visit_each_keeps:
  assumes "\<And>j st st'. visitor j st stack = Finished st' \<Longrightarrow> \<forall>x. search_state st x \<noteq> 0 \<longrightarrow> search_state st' x \<noteq> 0"
  shows "visit_each visitor stack js st = Finished st' \<Longrightarrow> search_state st x \<noteq> 0 \<Longrightarrow> search_state st' x \<noteq> 0"
proof (induction js arbitrary: st)
  case (Cons j js)
  then show ?case using assms[of j st] by (auto split: if_splits search.splits option.splits)
qed simp

lemma visit_keeps:
  "visit fuel rs i st stack = Finished st' \<Longrightarrow> search_state st x \<noteq> 0 \<Longrightarrow> search_state st' x \<noteq> 0"
proof (induction fuel arbitrary: i st stack st' x)
  case (Suc fuel)
  then obtain st1 where st1: "visit_each (visit fuel rs) (stack @ [i]) (successors rs i) (bt_insert i 1 st)
      = Finished st1" and st': "st' = bt_insert i 2 st1"
    by (cases "visit_each (visit fuel rs) (stack @ [i]) (successors rs i) (bt_insert i 1 st)") simp_all
  have "search_state st1 x \<noteq> 0"
    by (rule visit_each_keeps[OF _ st1]) (use Suc.IH Suc.prems(2) in auto)
  then show ?case by (simp add: st')
qed simp

lemma visit_each_fuel:
  assumes visitor: "\<And>j st. j \<in> U \<Longrightarrow> search_state st j = 0 \<Longrightarrow> card (open_nodes U st) \<le> n
      \<Longrightarrow> visitor j st stack \<noteq> NoFuel"
    and keeps: "\<And>j st st'. visitor j st stack = Finished st'
      \<Longrightarrow> \<forall>x. search_state st x \<noteq> 0 \<longrightarrow> search_state st' x \<noteq> 0"
    and fin: "finite U"
  shows "set js \<subseteq> U \<Longrightarrow> card (open_nodes U st) \<le> n \<Longrightarrow> visit_each visitor stack js st \<noteq> NoFuel"
proof (induction js arbitrary: st)
  case (Cons j js)
  have shrink: "card (open_nodes U st') \<le> n" if "visitor j st stack = Finished st'" for st'
  proof -
    have "open_nodes U st' \<subseteq> open_nodes U st" using keeps[OF that] by (auto simp: open_nodes_def)
    then have "card (open_nodes U st') \<le> card (open_nodes U st)"
      using fin by (intro card_mono) (auto simp: open_nodes_def)
    with Cons.prems(2) show ?thesis by simp
  qed
  show ?case
    using Cons visitor[of j st] shrink by (auto split: search.splits option.splits)
qed simp

lemma visit_fuel:
  assumes "finite U" "\<forall>i j. (i, j) \<in> links rs \<longrightarrow> j \<in> U"
  shows "i \<in> U \<Longrightarrow> search_state st i = 0 \<Longrightarrow> card (open_nodes U st) \<le> fuel
      \<Longrightarrow> visit fuel rs i st stack \<noteq> NoFuel"
proof (induction fuel arbitrary: i st stack)
  case 0
  then have "open_nodes U st = {}" using assms(1) by (simp add: open_nodes_def)
  with 0 show ?case by (auto simp: open_nodes_def)
next
  case (Suc fuel)
  let ?st = "bt_insert i 1 st"
  have "open_nodes U ?st = open_nodes U st - {i}" by (auto simp: open_nodes_def)
  moreover have "i \<in> open_nodes U st" using Suc.prems by (simp add: open_nodes_def)
  moreover have "finite (open_nodes U st)" using assms(1) by (simp add: open_nodes_def)
  ultimately have "card (open_nodes U ?st) \<le> fuel" using Suc.prems(3) by simp
  moreover have "set (successors rs i) \<subseteq> U" using assms(2) by (auto simp: set_successors)
  ultimately have "visit_each (visit fuel rs) (stack @ [i]) (successors rs i) ?st \<noteq> NoFuel"
    by (intro visit_each_fuel[where n = fuel and U = U]) (use Suc.IH visit_keeps assms(1) in auto)
  then show ?case by (auto split: search.splits)
qed

section \<open>\<open>find_cycle\<close> decides acyclicity\<close>

lemma visit_roots_ok:
  "search_inv rs st [] \<Longrightarrow> search_ok rs st [] (\<lambda>st'. \<forall>i \<in> set is. search_state st' i = 2) (visit_roots fuel rs is st)"
proof (induction "is" arbitrary: st)
  case Nil
  then show ?case by (simp add: search_ok_def)
next
  case (Cons i "is")
  show ?case
  proof (cases "search_state st i = 0")
    case True
    have ok: "search_ok rs st [] (\<lambda>st'. search_state st' i = 2) (visit fuel rs i st [])"
      by (rule visit_ok[OF Cons.prems True]) simp
    show ?thesis
    proof (cases "visit fuel rs i st []")
      case (Finished st')
      with ok have st': "search_inv rs st' []" "search_state st' i = 2"
        "\<forall>x. search_state st x = 2 \<longrightarrow> search_state st' x = 2"
        by (simp_all add: search_ok_def)
      from Cons.IH[OF st'(1)] st'(2,3) True Finished show ?thesis
        by (auto simp: search_ok_def split: search.splits)
    qed (use ok True in \<open>simp_all add: search_ok_def\<close>)
  next
    case False
    moreover have "search_state st i \<noteq> 1" "search_state st i \<le> 2"
      using Cons.prems unfolding search_inv_def by auto
    ultimately have "search_state st i = 2" by linarith
    with Cons.IH[OF Cons.prems] False show ?thesis
      by (auto simp: search_ok_def split: search.splits)
  qed
qed

lemma visit_roots_fuel:
  assumes "finite U" "\<forall>i j. (i, j) \<in> links rs \<longrightarrow> j \<in> U" "card U \<le> fuel"
  shows "set is \<subseteq> U \<Longrightarrow> visit_roots fuel rs is st \<noteq> NoFuel"
proof (induction "is" arbitrary: st)
  case (Cons i "is")
  have "card (open_nodes U st) \<le> card U"
    using assms(1) by (intro card_mono) (auto simp: open_nodes_def)
  with assms(3) have "card (open_nodes U st) \<le> fuel" by simp
  with visit_fuel[OF assms(1,2), of i st fuel "[]"] Cons show ?case
    by (auto split: search.splits)
qed simp

lemma find_cycle_cases:
  assumes "rt_from ` set rs \<subseteq> set (bt_keys buses)"
  shows "find_cycle buses rs = Inr None \<and> acyclic (links rs)
    \<or> (\<exists>c. find_cycle buses rs = Inr (Some c) \<and> is_cycle rs c)"
proof -
  let ?U = "set (bt_keys buses) \<union> rt_to ` set rs"
  let ?r = "visit_roots (Suc (length buses + length rs)) rs (bt_keys buses) []"
  have "search_inv rs [] []" by (simp add: search_inv_def)
  then have ok: "search_ok rs [] [] (\<lambda>st. \<forall>i \<in> set (bt_keys buses). search_state st i = 2) ?r"
    by (rule visit_roots_ok)
  have "card ?U \<le> length (bt_keys buses) + length rs"
  proof -
    have "card ?U \<le> card (set (bt_keys buses)) + card (rt_to ` set rs)" by (rule card_Un_le)
    also have "\<dots> \<le> length (bt_keys buses) + length (map rt_to rs)"
      by (intro add_mono card_length) (metis card_length set_map)
    finally show ?thesis by simp
  qed
  then have fuel: "?r \<noteq> NoFuel"
    by (intro visit_roots_fuel[where U = ?U]) (auto simp: links_def bt_keys_def)
  show ?thesis
  proof (cases ?r)
    case (Finished st)
    with ok have st: "search_inv rs st []" "\<forall>i \<in> set (bt_keys buses). search_state st i = 2"
      by (simp_all add: search_ok_def)
    have "(x, x) \<notin> (links rs)\<^sup>+" for x
    proof
      assume x: "(x, x) \<in> (links rs)\<^sup>+"
      then obtain y where "(x, y) \<in> links rs" by (metis tranclD)
      with assms st(2) have "search_state st x = 2" by (auto simp: links_def)
      with st(1) x show False by (simp add: search_inv_def)
    qed
    with Finished show ?thesis by (simp add: find_cycle_def acyclic_def)
  qed (use ok fuel in \<open>simp_all add: find_cycle_def search_ok_def\<close>)
qed

lemma find_cycle_acyclic:
  assumes "rt_from ` set rs \<subseteq> set (bt_keys buses)"
  shows "find_cycle buses rs = Inr None \<longleftrightarrow> acyclic (links rs)"
  using find_cycle_cases[OF assms] is_cycle_cyclic by auto

section \<open>Reachability\<close>

definition steps :: "route_edge list \<Rightarrow> bool \<Rightarrow> (bus_id \<times> bus_id) set" where
  "steps rs forward = (if forward then links rs else (links rs)\<inverse>)"

lemma neighbours_steps: "set (neighbours rs forward i) = steps rs forward `` {i}"
  unfolding set_neighbours by (auto simp: steps_def links_def)

lemma reachable_loop_set:
  assumes "\<forall>x \<in> set visited. steps rs forward `` {x} \<subseteq> set visited \<union> set pending"
    and "set visited \<subseteq> set collected"
  shows "set (reachable_loop rs forward pending visited collected)
    = set collected \<union> (steps rs forward)\<^sup>* `` set pending"
  using assms
proof (induction rs forward pending visited collected rule: reachable_loop.induct)
  case (1 rs forward visited collected)
  then show ?case by simp
next
  case (2 rs forward i pending visited collected)
  let ?S = "steps rs forward"
  show ?case
  proof (cases "i \<in> set visited")
    case True
    have closed: "\<forall>x \<in> set visited. ?S `` {x} \<subseteq> set visited \<union> set pending"
      using 2(3) True by auto
    have "y \<in> set visited \<union> ?S\<^sup>* `` set pending" if "(i, y) \<in> ?S\<^sup>*" for y
      using that
    proof induction
      case (step y z)
      from step(3) show ?case
      proof
        assume "y \<in> set visited"
        with closed step(2) show ?thesis by (auto intro: rtrancl_refl)
      next
        assume "y \<in> ?S\<^sup>* `` set pending"
        with step(2) show ?thesis by (auto intro: rtrancl_into_rtrancl)
      qed
    qed (use True in simp)
    moreover have "set (reachable_loop rs forward pending visited collected)
        = set collected \<union> ?S\<^sup>* `` set pending"
      by (rule 2(1)[OF True closed 2(4)])
    ultimately show ?thesis using True 2(4) by auto
  next
    case False
    let ?p = "sort (neighbours rs forward i) @ pending"
    have "set (reachable_loop rs forward ?p (bs_insert i visited) (bs_insert i collected))
        = set (bs_insert i collected) \<union> ?S\<^sup>* `` set ?p"
      by (rule 2(2)[OF False]) (use 2(3,4) in \<open>auto simp: neighbours_steps\<close>)
    moreover have "?S\<^sup>* `` {i} = insert i (?S\<^sup>* `` (?S `` {i}))"
      by (auto intro: converse_rtrancl_into_rtrancl elim: converse_rtranclE)
    moreover have "?S\<^sup>* `` set (i # pending) = ?S\<^sup>* `` {i} \<union> ?S\<^sup>* `` set pending" by auto
    ultimately show ?thesis using False by (simp add: neighbours_steps Image_Un)
  qed
qed

lemma collect_reachable_set:
  "set (collect_reachable root rs forward collected) = set collected \<union> (steps rs forward)\<^sup>* `` {root}"
  unfolding collect_reachable_def by (subst reachable_loop_set) auto

end
