(* ===== verification/Mixer_Validity.thy ===== *)
theory Mixer_Validity
  imports Mixer_Cycles
begin

text \<open>
  The integrity of a mixer graph, stated on lookups and lists of identifiers, and that
  \<open>MixerGraph::validate\<close> accepts exactly the graphs that have it.
\<close>

section \<open>Integrity\<close>

definition unit_f32 :: "f32 \<Rightarrow> bool" where
  "unit_f32 v \<longleftrightarrow> f32_is_finite v \<and> f32_le 0 v \<and> f32_le v f32_one"

definition pan_f32 :: "f32 \<Rightarrow> bool" where
  "pan_f32 v \<longleftrightarrow> f32_is_finite v \<and> f32_le f32_minus_one v \<and> f32_le v f32_one"

definition descriptor_ok :: "plugin_descriptor \<Rightarrow> bool" where
  "descriptor_ok d \<longleftrightarrow> pd_format d \<noteq> [] \<and> pd_identifier d \<noteq> []"

definition output_ok :: "mixer_graph \<Rightarrow> bus_id \<Rightarrow> mx_bus \<Rightarrow> bool" where
  "output_ok g i b \<longleftrightarrow> (i \<noteq> mg_master g \<longrightarrow> mb_output b \<noteq> None)
     \<and> (\<forall>t. mb_output b = Some t \<longrightarrow> (\<exists>c. bt_get (mg_buses g) t = Some c \<and> mb_kind c \<noteq> ReturnBus
          \<and> (mb_kind b = ReturnBus \<longrightarrow> mb_kind c = GroupBus \<or> mb_kind c = MasterBus)))"

definition bus_ok :: "mixer_graph \<Rightarrow> bus_id \<Rightarrow> mx_bus \<Rightarrow> bool" where
  "bus_ok g i b \<longleftrightarrow> mb_id b = i \<and> f32_is_finite (fd_gain_db (mb_fader b)) \<and> pan_f32 (fd_pan (mb_fader b))
     \<and> output_ok g i b
     \<and> (\<forall>s \<in> set (mb_sends b). bt_get (mg_buses g) (sd_target s) \<noteq> None \<and> f32_is_finite (sd_level_db s))
     \<and> (\<forall>s \<in> set (mb_inserts b). unit_f32 (sl_wet s) \<and> bt_get (mg_processors g) (sl_processor s) \<noteq> None)"

definition processor_ok :: "processor_id \<Rightarrow> processor \<Rightarrow> bool" where
  "processor_ok i p \<longleftrightarrow> pc_id p = i \<and> descriptor_ok (pc_descriptor p)
     \<and> (\<forall>j q. bt_get (pc_parameters p) j = Some q \<longrightarrow> pp_id q = j \<and> unit_f32 (pp_normalized_value q))
     \<and> distinct (map pp_key (bt_values (pc_parameters p)))"

definition bus_list :: "mixer_graph \<Rightarrow> mx_bus list" where
  "bus_list g = bt_values (mg_buses g)"

definition processor_list :: "mixer_graph \<Rightarrow> processor list" where
  "processor_list g = bt_values (mg_processors g)"

definition send_ids :: "mixer_graph \<Rightarrow> send_id list" where
  "send_ids g = concat (map (\<lambda>b. map sd_id (mb_sends b)) (bus_list g))"

definition inserted :: "mixer_graph \<Rightarrow> processor_id list" where
  "inserted g = concat (map (\<lambda>b. map sl_processor (mb_inserts b)) (bus_list g))"

definition node_ids :: "mixer_graph \<Rightarrow> node_id list" where
  "node_ids g = map mb_node_id (bus_list g) @ map pc_node_id (processor_list g)"

definition parameter_ids :: "mixer_graph \<Rightarrow> mx_parameter_id list" where
  "parameter_ids g = concat (map (\<lambda>p. bt_keys (pc_parameters p)) (processor_list g))"

definition master_ok :: "mixer_graph \<Rightarrow> bool" where
  "master_ok g \<longleftrightarrow> distinct (mg_order g) \<and> set (mg_order g) = set (bt_keys (mg_buses g))
     \<and> mg_order g \<noteq> [] \<and> last (mg_order g) = mg_master g
     \<and> (\<exists>m. bt_get (mg_buses g) (mg_master g) = Some m \<and> mb_kind m = MasterBus
          \<and> mb_output m = None \<and> mb_sends m = [])
     \<and> (\<forall>i b. bt_get (mg_buses g) i = Some b \<longrightarrow> mb_kind b = MasterBus \<longrightarrow> i = mg_master g)"

definition mixer_wf :: "mixer_graph \<Rightarrow> bool" where
  "mixer_wf g \<longleftrightarrow> bt_ok (mg_buses g) \<and> bt_ok (mg_processors g)
     \<and> (\<forall>i p. bt_get (mg_processors g) i = Some p \<longrightarrow> bt_ok (pc_parameters p))"

definition graph_links :: "mixer_graph \<Rightarrow> (bus_id \<times> bus_id) set" where
  "graph_links g = {(i, t). \<exists>b. bt_get (mg_buses g) i = Some b
     \<and> (mb_output b = Some t \<or> t \<in> sd_target ` set (mb_sends b))}"

definition mixer_ok :: "mixer_graph \<Rightarrow> bool" where
  "mixer_ok g \<longleftrightarrow> master_ok g
     \<and> (\<forall>i b. bt_get (mg_buses g) i = Some b \<longrightarrow> bus_ok g i b)
     \<and> (\<forall>i p. bt_get (mg_processors g) i = Some p \<longrightarrow> processor_ok i p \<and> i \<in> set (inserted g))
     \<and> distinct (node_ids g) \<and> distinct (send_ids g) \<and> distinct (inserted g)
     \<and> distinct (parameter_ids g) \<and> acyclic (graph_links g)"

section \<open>Loops that collect identifiers\<close>

text \<open>\<open>visits f P ids\<close>: a step checks \<open>P\<close> and records new, distinct identifiers.\<close>

definition visits :: "('x \<Rightarrow> 'k list \<Rightarrow> 'k list mx_result) \<Rightarrow> ('x \<Rightarrow> bool) \<Rightarrow> ('x \<Rightarrow> 'k list) \<Rightarrow> 'x set \<Rightarrow> bool" where
  "visits f P ids A \<longleftrightarrow> (\<forall>x \<in> A. \<forall>seen new. f x seen = Inr new \<longleftrightarrow>
     P x \<and> distinct (ids x) \<and> set (ids x) \<inter> set seen = {} \<and> new = rev (ids x) @ seen)"

lemma visits_fold:
  assumes "visits f P ids (set xs)"
  shows "fold_r f xs seen = Inr new \<longleftrightarrow> (\<forall>x \<in> set xs. P x) \<and> distinct (concat (map ids xs))
    \<and> set (concat (map ids xs)) \<inter> set seen = {} \<and> new = rev (concat (map ids xs)) @ seen"
  using assms
proof (induction xs arbitrary: seen)
  case (Cons x xs)
  have step: "f x seen = Inr s \<longleftrightarrow> P x \<and> distinct (ids x) \<and> set (ids x) \<inter> set seen = {} \<and> s = rev (ids x) @ seen" for s
    using Cons.prems by (simp add: visits_def)
  have rest: "visits f P ids (set xs)" using Cons.prems by (simp add: visits_def)
  show ?case
  proof (cases "f x seen")
    case (Inl e)
    then have "\<not> (P x \<and> distinct (ids x) \<and> set (ids x) \<inter> set seen = {})"
      using step[of "rev (ids x) @ seen"] by auto
    with Inl show ?thesis by auto
  next
    case (Inr s)
    then have "P x" "distinct (ids x)" "set (ids x) \<inter> set seen = {}" "s = rev (ids x) @ seen"
      using step[of s] by auto
    with Inr Cons.IH[OF rest, of "rev (ids x) @ seen"] show ?thesis by auto
  qed
qed auto

lemma insert_new_Inr [result_simps]: "insert_new x e seen = Inr s \<longleftrightarrow> x \<notin> set seen \<and> s = x # seen"
  by (auto simp: insert_new_def)

lemma require_Inr [result_simps]:
  "require_bus g i = Inr () \<longleftrightarrow> bt_get (mg_buses g) i \<noteq> None"
  "require_processor g p = Inr () \<longleftrightarrow> bt_get (mg_processors g) p \<noteq> None"
  by (simp_all add: require_bus_def require_processor_def bt_contains_def)

lemma validate_value_Inr [result_simps]:
  "validate_finite l v = Inr () \<longleftrightarrow> f32_is_finite v"
  "validate_unit l v lo hi = Inr () \<longleftrightarrow> f32_is_finite v \<and> f32_le lo v \<and> f32_le v hi"
  "validate_descriptor d = Inr () \<longleftrightarrow> descriptor_ok d"
  by (simp_all add: validate_finite_def validate_unit_def validate_descriptor_def descriptor_ok_def)

lemma bus_at_Inr [result_simps]: "bus_at g i = Inr b \<longleftrightarrow> bt_get (mg_buses g) i = Some b"
  by (simp add: bus_at_def ok_or_eq_Inr)

lemma check_send_visits:
  "visits (check_send g) (\<lambda>s. bt_get (mg_buses g) (sd_target s) \<noteq> None \<and> f32_is_finite (sd_level_db s))
     (\<lambda>s. [sd_id s]) A"
  by (auto simp: visits_def check_send_def result_simps)

lemma check_insert_visits:
  "visits (check_insert g) (\<lambda>s. unit_f32 (sl_wet s) \<and> bt_get (mg_processors g) (sl_processor s) \<noteq> None)
     (\<lambda>s. [sl_processor s]) A"
  by (auto simp: visits_def check_insert_def result_simps unit_f32_def)

lemma check_output_Inr: "check_output g i b = Inr () \<longleftrightarrow> output_ok g i b"
  by (cases "mb_output b") (auto simp: check_output_def output_ok_def result_simps)

lemma check_bus_Inr:
  "check_bus g (i, b) (nodes, sends, used) = Inr (nodes', sends', used') \<longleftrightarrow> bus_ok g i b
     \<and> mb_node_id b \<notin> set nodes \<and> nodes' = mb_node_id b # nodes
     \<and> distinct (map sd_id (mb_sends b)) \<and> set (map sd_id (mb_sends b)) \<inter> set sends = {}
     \<and> sends' = rev (map sd_id (mb_sends b)) @ sends
     \<and> distinct (map sl_processor (mb_inserts b)) \<and> set (map sl_processor (mb_inserts b)) \<inter> set used = {}
     \<and> used' = rev (map sl_processor (mb_inserts b)) @ used"
  unfolding check_bus_def bus_ok_def
  by (simp add: result_simps check_output_Inr visits_fold[OF check_send_visits]
      visits_fold[OF check_insert_visits] pan_f32_def concat_map_singleton) auto

definition fresh_for :: "'k list \<Rightarrow> 'k list \<Rightarrow> bool" where
  "fresh_for ids seen \<longleftrightarrow> distinct ids \<and> set ids \<inter> set seen = {}"

lemma fresh_for_simps [simp]:
  "fresh_for [] seen" "fresh_for (x # ids) seen \<longleftrightarrow> x \<notin> set seen \<and> fresh_for ids (x # seen)"
  "fresh_for (xs @ ids) seen \<longleftrightarrow> fresh_for xs seen \<and> fresh_for ids (rev xs @ seen)"
  by (auto simp: fresh_for_def)

lemma check_bus_fresh:
  "check_bus g (i, b) (nodes, sends, used) =  Inr r \<longleftrightarrow> bus_ok g i b
     \<and> fresh_for [mb_node_id b] nodes \<and> fresh_for (map sd_id (mb_sends b)) sends
     \<and> fresh_for (map sl_processor (mb_inserts b)) used
     \<and> r = (mb_node_id b # nodes, rev (map sd_id (mb_sends b)) @ sends,
            rev (map sl_processor (mb_inserts b)) @ used)"
  by (cases r) (auto simp: check_bus_Inr fresh_for_def)

lemma check_buses_Inr:
  "fold_r (check_bus g) m (nodes, sends, used) = Inr r \<longleftrightarrow>
     (\<forall>e \<in> set m. bus_ok g (fst e) (snd e))
     \<and> fresh_for (map (mb_node_id \<circ> snd) m) nodes
     \<and> fresh_for (concat (map (map sd_id \<circ> mb_sends \<circ> snd) m)) sends
     \<and> fresh_for (concat (map (map sl_processor \<circ> mb_inserts \<circ> snd) m)) used
     \<and> r = (rev (map (mb_node_id \<circ> snd) m) @ nodes, rev (concat (map (map sd_id \<circ> mb_sends \<circ> snd) m)) @ sends,
            rev (concat (map (map sl_processor \<circ> mb_inserts \<circ> snd) m)) @ used)"
proof (induction m arbitrary: nodes sends used)
  case Nil
  then show ?case by auto
next
  case (Cons e m)
  obtain i b where e: "e = (i, b)" by (cases e)
  show ?case
  proof (cases "check_bus g (i, b) (nodes, sends, used)")
    case (Inl f)
    then have "\<not> (bus_ok g i b \<and> fresh_for [mb_node_id b] nodes \<and> fresh_for (map sd_id (mb_sends b)) sends
        \<and> fresh_for (map sl_processor (mb_inserts b)) used)"
      using check_bus_fresh[of g i b nodes sends used] by (metis sum.distinct(1))
    with Inl show ?thesis unfolding e by auto
  next
    case (Inr t)
    then have "bus_ok g i b \<and> fresh_for [mb_node_id b] nodes \<and> fresh_for (map sd_id (mb_sends b)) sends
        \<and> fresh_for (map sl_processor (mb_inserts b)) used"
      and t: "t = (mb_node_id b # nodes, rev (map sd_id (mb_sends b)) @ sends,
            rev (map sl_processor (mb_inserts b)) @ used)"
      unfolding check_bus_fresh by blast+
    then show ?thesis using Inr unfolding e t by (simp add: Cons.IH)
  qed
qed

lemma check_parameter_fold:
  "fold_r (check_parameter i) m (ps, ks) = Inr r \<longleftrightarrow>
     (\<forall>e \<in> set m. pp_id (snd e) = fst e \<and> unit_f32 (pp_normalized_value (snd e)))
     \<and> fresh_for (map fst m) ps \<and> fresh_for (map (pp_key \<circ> snd) m) ks
     \<and> r = (rev (map fst m) @ ps, rev (map (pp_key \<circ> snd) m) @ ks)"
proof (induction m arbitrary: ps ks)
  case Nil
  then show ?case by auto
next
  case (Cons e m)
  obtain j q where e: "e = (j, q)" by (cases e)
  have step: "check_parameter i (j, q) (ps, ks) = Inr t \<longleftrightarrow> pp_id q = j \<and> unit_f32 (pp_normalized_value q)
      \<and> j \<notin> set ps \<and> pp_key q \<notin> set ks \<and> t = (j # ps, pp_key q # ks)" for t
    by (cases t) (auto simp: check_parameter_def result_simps unit_f32_def)
  show ?case
  proof (cases "check_parameter i (j, q) (ps, ks)")
    case (Inl f)
    then have "\<not> (pp_id q = j \<and> unit_f32 (pp_normalized_value q) \<and> j \<notin> set ps \<and> pp_key q \<notin> set ks)"
      using step by (metis sum.distinct(1))
    with Inl show ?thesis unfolding e by auto
  next
    case (Inr t)
    then have "pp_id q = j \<and> unit_f32 (pp_normalized_value q) \<and> j \<notin> set ps \<and> pp_key q \<notin> set ks"
      and t: "t = (j # ps, pp_key q # ks)"
      unfolding step by blast+
    then show ?thesis using Inr unfolding e t by (simp add: Cons.IH)
  qed
qed

lemma check_processor_Inr:
  assumes "bt_ok (pc_parameters p)"
  shows "check_processor used (i, p) (nodes, ps) = Inr r \<longleftrightarrow> processor_ok i p \<and> i \<in> set used
     \<and> pc_node_id p \<notin> set nodes \<and> fresh_for (bt_keys (pc_parameters p)) ps
     \<and> r = (pc_node_id p # nodes, rev (bt_keys (pc_parameters p)) @ ps)"
proof -
  have "(\<exists>ks. fold_r (check_parameter i) (pc_parameters p) (ps, []) = Inr (q, ks))
      \<longleftrightarrow> (\<forall>j q. bt_get (pc_parameters p) j = Some q \<longrightarrow> pp_id q = j \<and> unit_f32 (pp_normalized_value q))
        \<and> distinct (map pp_key (bt_values (pc_parameters p)))
        \<and> fresh_for (bt_keys (pc_parameters p)) ps \<and> q = rev (bt_keys (pc_parameters p)) @ ps" for q
    unfolding check_parameter_fold
    by (auto simp: fresh_for_def bt_keys_def bt_values_def bt_get_iff[OF assms])
  then show ?thesis
    unfolding check_processor_def processor_ok_def
    by (cases r) (auto simp: result_simps)
qed

lemma check_processors_Inr:
  assumes "\<forall>e \<in> set m. bt_ok (pc_parameters (snd e))"
  shows "(\<exists>r. fold_r (check_processor used) m (nodes, ps) = Inr r) \<longleftrightarrow>
     (\<forall>e \<in> set m. processor_ok (fst e) (snd e) \<and> fst e \<in> set used)
     \<and> fresh_for (map (pc_node_id \<circ> snd) m) nodes
     \<and> fresh_for (concat (map (bt_keys \<circ> pc_parameters \<circ> snd) m)) ps"
  using assms
proof (induction m arbitrary: nodes ps)
  case Nil
  then show ?case by auto
next
  case (Cons e m)
  obtain i p where e: "e = (i, p)" by (cases e)
  have ok: "bt_ok (pc_parameters p)" and rest: "\<forall>e \<in> set m. bt_ok (pc_parameters (snd e))"
    using Cons.prems e by simp_all
  show ?case
  proof (cases "check_processor used (i, p) (nodes, ps)")
    case (Inl f)
    then have "\<not> (processor_ok i p \<and> i \<in> set used \<and> pc_node_id p \<notin> set nodes
        \<and> fresh_for (bt_keys (pc_parameters p)) ps)"
      using check_processor_Inr[OF ok] by (metis sum.distinct(1))
    with Inl show ?thesis unfolding e by auto
  next
    case (Inr t)
    then have "processor_ok i p \<and> i \<in> set used \<and> pc_node_id p \<notin> set nodes
        \<and> fresh_for (bt_keys (pc_parameters p)) ps"
      and t: "t = (pc_node_id p # nodes, rev (bt_keys (pc_parameters p)) @ ps)"
      unfolding check_processor_Inr[OF ok] by blast+
    then show ?thesis using Inr unfolding e t by (simp add: Cons.IH[OF rest, simplified])
  qed
qed

section \<open>Routes\<close>

lemma set_routes: "set (routes g) = (\<Union>b \<in> set (bus_list g). set (bus_routes b))"
  by (simp add: routes_def bus_list_def)

lemma links_routes:
  assumes "bt_ok (mg_buses g)" "\<forall>i b. bt_get (mg_buses g) i = Some b \<longrightarrow> mb_id b = i"
  shows "links (routes g) = graph_links g" "rt_from ` set (routes g) \<subseteq> set (bt_keys (mg_buses g))"
proof -
  have mem: "b \<in> set (bus_list g) \<longleftrightarrow> bt_get (mg_buses g) (mb_id b) = Some b" for b
    using assms by (auto simp: bus_list_def bt_values_in)
  have bus: "set (bus_routes b) = {Route (mb_id b) t MainRoute | t. mb_output b = Some t}
      \<union> (\<lambda>s. Route (mb_id b) (sd_target s) (SendRoute (sd_id s))) ` set (mb_sends b)" for b
    by (auto simp: bus_routes_def split: option.splits)
  show "rt_from ` set (routes g) \<subseteq> set (bt_keys (mg_buses g))"
    by (auto simp: set_routes bus mem bt_keys_in)
  have "(i, t) \<in> links (routes g) \<longleftrightarrow> (i, t) \<in> graph_links g" for i t
  proof
    assume "(i, t) \<in> links (routes g)"
    then obtain r b where "r \<in> set (bus_routes b)" "b \<in> set (bus_list g)" "rt_from r = i" "rt_to r = t"
      by (auto simp: links_def set_routes)
    then show "(i, t) \<in> graph_links g" by (auto simp: bus mem graph_links_def)
  next
    assume "(i, t) \<in> graph_links g"
    then obtain b where b: "bt_get (mg_buses g) i = Some b" "mb_output b = Some t \<or> t \<in> sd_target ` set (mb_sends b)"
      by (auto simp: graph_links_def)
    then have "mb_id b = i" using assms(2) by blast
    with b have "b \<in> set (bus_list g)" by (simp add: mem)
    moreover have "\<exists>r \<in> set (bus_routes b). rt_from r = i \<and> rt_to r = t"
      using b(2)
    proof
      assume "mb_output b = Some t"
      then show ?thesis
        using \<open>mb_id b = i\<close> unfolding bus by (intro bexI[of _ "Route i t MainRoute"]) auto
    next
      assume "t \<in> sd_target ` set (mb_sends b)"
      then obtain s where "s \<in> set (mb_sends b)" "t = sd_target s" by blast
      then show ?thesis
        using \<open>mb_id b = i\<close> unfolding bus by (intro bexI[of _ "Route i t (SendRoute (sd_id s))"]) auto
    qed
    then obtain r where "r \<in> set (bus_routes b)" "rt_from r = i" "rt_to r = t" by blast
    ultimately show "(i, t) \<in> links (routes g)" by (auto simp: links_def set_routes)
  qed
  then show "links (routes g) = graph_links g" by auto
qed

section \<open>\<open>validate\<close>\<close>

lemma check_master_Inr:
  assumes "bt_ok (mg_buses g)"
  shows "check_master g = Inr () \<longleftrightarrow> master_ok g"
proof -
  have keys: "distinct (bt_keys (mg_buses g))" using assms by (simp add: bt_keys_def bt_ok_distinct)
  have order: "length (mg_order g) = length (mg_buses g) \<and> set (mg_order g) = set (bt_keys (mg_buses g))
      \<longleftrightarrow> distinct (mg_order g) \<and> set (mg_order g) = set (bt_keys (mg_buses g))"
    using keys by (metis bt_keys_def card_distinct distinct_card length_map)
  have count: "length (filter (\<lambda>b. mb_kind b = MasterBus) (bt_values (mg_buses g)))
      = card (bt_having (\<lambda>b. mb_kind b = MasterBus) (mg_buses g))"
    using bt_count[OF assms] by simp
  have one: "card (bt_having (\<lambda>b. mb_kind b = MasterBus) (mg_buses g)) = 1
      \<longleftrightarrow> (\<forall>i b. bt_get (mg_buses g) i = Some b \<longrightarrow> mb_kind b = MasterBus \<longrightarrow> i = mg_master g)"
    if "bt_get (mg_buses g) (mg_master g) = Some m" "mb_kind m = MasterBus" for m
  proof -
    have "mg_master g \<in> bt_having (\<lambda>b. mb_kind b = MasterBus) (mg_buses g)" using that by (simp add: bt_having_def)
    then have "card (bt_having (\<lambda>b. mb_kind b = MasterBus) (mg_buses g)) = 1
        \<longleftrightarrow> bt_having (\<lambda>b. mb_kind b = MasterBus) (mg_buses g) = {mg_master g}"
      by (auto simp: card_1_singleton_iff)
    also have "\<dots> \<longleftrightarrow> (\<forall>i b. bt_get (mg_buses g) i = Some b \<longrightarrow> mb_kind b = MasterBus \<longrightarrow> i = mg_master g)"
      using that by (auto simp: bt_having_def)
    finally show ?thesis .
  qed
  show ?thesis
    unfolding check_master_def master_ok_def
    using order one by (auto simp: result_simps count simp del: One_nat_def)
qed

lemma mixer_validate_iff:
  assumes "mixer_wf g"
  shows "mixer_validate g = Inr () \<longleftrightarrow> mixer_ok g"
proof -
  have wf: "bt_ok (mg_buses g)" "bt_ok (mg_processors g)"
    "\<forall>e \<in> set (mg_processors g). bt_ok (pc_parameters (snd e))"
    using assms by (auto simp: mixer_wf_def bt_get_iff)
  let ?nodes = "rev (map mb_node_id (bus_list g))" and ?sends = "rev (send_ids g)" and ?used = "rev (inserted g)"
  have lists: "map (mb_node_id \<circ> snd) (mg_buses g) = map mb_node_id (bus_list g)"
    "concat (map (map sd_id \<circ> mb_sends \<circ> snd) (mg_buses g)) = send_ids g"
    "concat (map (map sl_processor \<circ> mb_inserts \<circ> snd) (mg_buses g)) = inserted g"
    "map (pc_node_id \<circ> snd) (mg_processors g) = map pc_node_id (processor_list g)"
    "concat (map (bt_keys \<circ> pc_parameters \<circ> snd) (mg_processors g)) = parameter_ids g"
    by (simp_all add: bus_list_def processor_list_def send_ids_def inserted_def parameter_ids_def bt_values_def
        comp_def)
  have buses: "fold_r (check_bus g) (mg_buses g) ([], [], []) = Inr r \<longleftrightarrow>
      (\<forall>i b. bt_get (mg_buses g) i = Some b \<longrightarrow> bus_ok g i b) \<and> distinct (map mb_node_id (bus_list g))
      \<and> distinct (send_ids g) \<and> distinct (inserted g) \<and> r = (?nodes, ?sends, ?used)" for r
    unfolding check_buses_Inr lists fresh_for_def by (auto simp: bt_get_iff[OF wf(1)])
  have processors: "(\<exists>r. fold_r (check_processor ?used) (mg_processors g) (?nodes, []) = Inr r) \<longleftrightarrow>
      (\<forall>i p. bt_get (mg_processors g) i = Some p \<longrightarrow> processor_ok i p \<and> i \<in> set (inserted g))
      \<and> distinct (map pc_node_id (processor_list g))
      \<and> set (map pc_node_id (processor_list g)) \<inter> set (map mb_node_id (bus_list g)) = {}
      \<and> distinct (parameter_ids g)"
    unfolding check_processors_Inr[OF wf(3)] lists fresh_for_def by (auto simp: bt_get_iff[OF wf(2)])
  have cycle: "find_cycle (mg_buses g) (routes g) = Inr None \<longleftrightarrow> acyclic (graph_links g)"
    if "\<forall>i b. bt_get (mg_buses g) i = Some b \<longrightarrow> bus_ok g i b"
  proof -
    have "\<forall>i b. bt_get (mg_buses g) i = Some b \<longrightarrow> mb_id b = i" using that by (simp add: bus_ok_def)
    from links_routes[OF wf(1) this] show ?thesis by (simp add: find_cycle_acyclic)
  qed
  have "mixer_validate g = Inr () \<longleftrightarrow> check_master g = Inr ()
      \<and> (\<exists>r. fold_r (check_bus g) (mg_buses g) ([], [], []) = Inr r
          \<and> (\<exists>q. fold_r (check_processor (snd (snd r))) (mg_processors g) (fst r, []) = Inr q)
          \<and> find_cycle (mg_buses g) (routes g) = Inr None)"
    unfolding mixer_validate_def by (auto simp: result_simps split: prod.splits option.splits)
  also have "\<dots> \<longleftrightarrow> mixer_ok g"
    unfolding check_master_Inr[OF wf(1)] buses mixer_ok_def node_ids_def
    using processors cycle by (auto simp del: set_map)
  finally show ?thesis .
qed

lemma check_no_panic:
  "insert_new x (e :: mixer_error) seen \<noteq> mx_panics" "require_bus g i \<noteq> mx_panics"
  "require_processor g p \<noteq> mx_panics" "validate_finite l v \<noteq> mx_panics" "validate_unit l v lo hi \<noteq> mx_panics"
  "validate_descriptor d \<noteq> mx_panics"
  by (simp_all add: insert_new_def require_bus_def require_processor_def validate_finite_def validate_unit_def
      validate_descriptor_def)

lemma mixer_validate_no_panic:
  assumes "mixer_wf g"
  shows "mixer_validate g \<noteq> mx_panics"
proof
  assume panic: "mixer_validate g = mx_panics"
  have sends: "fold_r (check_send g) xs s \<noteq> mx_panics" for xs s
    using fold_r_panics[of "check_send g" xs s] by (auto simp: check_send_def no_panics check_no_panic)
  have inserts: "fold_r (check_insert g) xs s \<noteq> mx_panics" for xs s
    using fold_r_panics[of "check_insert g" xs s] by (auto simp: check_insert_def no_panics check_no_panic)
  have outputs: "check_output g i b \<noteq> mx_panics" for i b
    by (cases "mb_output b")
      (auto simp: check_output_def no_panics check_no_panic result_simps bus_at_def ok_or_def)
  have bus: "check_bus g x s \<noteq> mx_panics" for x s
    by (cases x; cases s) (auto simp: check_bus_def no_panics check_no_panic sends inserts outputs)
  then have buses: "fold_r (check_bus g) xs s \<noteq> mx_panics" for xs s
    using fold_r_panics[of "check_bus g" xs s] by auto
  have "check_parameter i x s \<noteq> mx_panics" for i x s
    by (cases x; cases s) (auto simp: check_parameter_def no_panics check_no_panic)
  then have "fold_r (check_parameter i) xs s \<noteq> mx_panics" for i xs s
    using fold_r_panics[of "check_parameter i" xs s] by auto
  then have "check_processor used x s \<noteq> mx_panics" for used x s
    by (cases x; cases s) (auto simp: check_processor_def no_panics check_no_panic)
  then have processors: "fold_r (check_processor used) xs s \<noteq> mx_panics" for used xs s
    using fold_r_panics[of "check_processor used" xs s] by auto
  have "check_master g \<noteq> mx_panics" by (auto simp: check_master_def no_panics)
  with panic buses processors obtain nodes sends' used where
    fold: "fold_r (check_bus g) (mg_buses g) ([], [], []) = Inr (nodes, sends', used)"
    and cycle: "find_cycle (mg_buses g) (routes g) = mx_panics"
    by (auto simp: mixer_validate_def no_panics split: option.splits prod.splits)
  have wf: "bt_ok (mg_buses g)" using assms by (simp add: mixer_wf_def)
  from fold have "\<forall>i b. bt_get (mg_buses g) i = Some b \<longrightarrow> mb_id b = i"
    unfolding check_buses_Inr using wf by (auto simp: bt_get_iff bus_ok_def)
  from find_cycle_cases[OF links_routes(2)[OF wf this]] cycle show False by auto
qed

end
