(* ===== verification/Mixer_Invariant.thy ===== *)
theory Mixer_Invariant
  imports Mixer_Edits Mixer_Validity
begin

text \<open>
  The state invariant of the mixer graph: integrity in the sense of \<open>validate\<close>, and identifier
  cursors beyond every identifier in use. Changes of one bus or one processor that keep it are
  described once, by what they may change of the entry.
\<close>

section \<open>The invariant\<close>

definition below :: "nat \<Rightarrow> 'a typed_id list \<Rightarrow> bool" where
  "below n ids \<longleftrightarrow> n \<le> u64_max \<and> (\<forall>i \<in> set ids. raw i < n)"

definition cursors_ok :: "mixer_graph \<Rightarrow> bool" where
  "cursors_ok g \<longleftrightarrow> below (mg_next_bus g) (bt_keys (mg_buses g)) \<and> below (mg_next_node g) (node_ids g)
     \<and> below (mg_next_send g) (send_ids g) \<and> below (mg_next_processor g) (bt_keys (mg_processors g))
     \<and> below (mg_next_parameter g) (parameter_ids g)"

definition mixer_inv :: "mixer_graph \<Rightarrow> bool" where
  "mixer_inv g \<longleftrightarrow> mixer_wf g \<and> mixer_ok g \<and> cursors_ok g"

lemma below_fresh: "below n ids \<Longrightarrow> Id n \<notin> set ids"
  by (auto simp: below_def)

lemma below_subset: "below n ids \<Longrightarrow> n \<le> m \<Longrightarrow> m \<le> u64_max \<Longrightarrow> set ids' \<subseteq> set ids \<Longrightarrow> below m ids'"
  unfolding below_def by (meson subsetD less_le_trans)

lemma below_insert:
  assumes "below n ids" "n < u64_max" "set ids' \<subseteq> insert (Id n) (set ids)"
  shows "below (Suc n) ids'"
  using assms unfolding below_def by (metis (no_types, lifting) Suc_leI insertE less_Suc_eq subsetD typed_id.sel)

lemma distinct_submset:
  assumes "mset xs \<subseteq># mset ys" "distinct ys"
  shows "distinct xs"
proof -
  have "count (mset xs) a = (if a \<in> set xs then 1 else 0)" for a
  proof -
    have "count (mset xs) a \<le> count (mset ys) a" by (rule mset_subset_eq_count[OF assms(1)])
    also have "\<dots> \<le> 1" using assms(2) by (simp add: distinct_count_atmost_1)
    finally have "count (mset xs) a \<le> 1" .
    then show ?thesis using count_mset_0_iff[of xs a] by (cases "count (mset xs) a") auto
  qed
  then show ?thesis by (simp add: distinct_count_atmost_1)
qed

section \<open>What a bus and a processor depend on\<close>

definition targets :: "mx_bus \<Rightarrow> bus_id set" where
  "targets b = {t. mb_output b = Some t} \<union> sd_target ` set (mb_sends b)"

lemma graph_links_targets: "(i, t) \<in> graph_links g \<longleftrightarrow> (\<exists>b. bt_get (mg_buses g) i = Some b \<and> t \<in> targets b)"
  by (auto simp: graph_links_def targets_def)

lemma bus_ok_mono:
  assumes ok: "bus_ok g i b" and master: "mg_master g' = mg_master g"
    and buses: "\<And>t c. t \<in> targets b \<Longrightarrow> bt_get (mg_buses g) t = Some c
      \<Longrightarrow> \<exists>c'. bt_get (mg_buses g') t = Some c' \<and> mb_kind c' = mb_kind c"
    and processors: "\<And>s. s \<in> set (mb_inserts b) \<Longrightarrow> bt_get (mg_processors g) (sl_processor s) \<noteq> None
      \<Longrightarrow> bt_get (mg_processors g') (sl_processor s) \<noteq> None"
  shows "bus_ok g' i b"
proof -
  have "output_ok g' i b"
  proof (cases "mb_output b")
    case None
    then show ?thesis using ok master by (simp add: bus_ok_def output_ok_def)
  next
    case (Some t)
    with ok obtain c where c: "bt_get (mg_buses g) t = Some c" "mb_kind c \<noteq> ReturnBus"
      "mb_kind b = ReturnBus \<longrightarrow> mb_kind c = GroupBus \<or> mb_kind c = MasterBus"
      by (auto simp: bus_ok_def output_ok_def)
    with buses[of t c] Some show ?thesis by (auto simp: output_ok_def targets_def)
  qed
  moreover have "bt_get (mg_buses g') (sd_target s) \<noteq> None" if "s \<in> set (mb_sends b)" for s
    using ok that buses[of "sd_target s"] by (fastforce simp: bus_ok_def targets_def)
  ultimately show ?thesis using ok processors by (simp add: bus_ok_def)
qed

lemma node_ids_sets: "set (node_ids g) = mb_node_id ` set (bus_list g) \<union> pc_node_id ` set (processor_list g)"
  by (simp add: node_ids_def)

lemma send_ids_set: "set (send_ids g) = (\<Union>b \<in> set (bus_list g). sd_id ` set (mb_sends b))"
  by (auto simp: send_ids_def)

lemma inserted_set: "set (inserted g) = (\<Union>b \<in> set (bus_list g). sl_processor ` set (mb_inserts b))"
  by (auto simp: inserted_def)

lemmas list_defs = bus_list_def processor_list_def send_ids_def inserted_def node_ids_def parameter_ids_def
  bt_values_def bt_keys_def

text \<open>A new value for a bus that may lose sends and permute its inserts.\<close>

definition bus_fits :: "mixer_graph \<Rightarrow> bus_id \<Rightarrow> mx_bus \<Rightarrow> mx_bus \<Rightarrow> bool" where
  "bus_fits g i b c \<longleftrightarrow> mb_node_id c = mb_node_id b \<and> mb_kind c = mb_kind b \<and> mb_output c = mb_output b
     \<and> mset (map sd_id (mb_sends c)) \<subseteq># mset (map sd_id (mb_sends b)) \<and> targets c \<subseteq> targets b
     \<and> mset (map sl_processor (mb_inserts c)) = mset (map sl_processor (mb_inserts b)) \<and> bus_ok g i c"

lemma replace_master:
  assumes ok: "master_ok g" and b: "bt_get (mg_buses g) i = Some b"
    and c: "mb_kind c = mb_kind b" "mb_output c = mb_output b" "mb_sends b = [] \<Longrightarrow> mb_sends c = []"
    and keys: "bt_keys (bt_insert i c (mg_buses g)) = bt_keys (mg_buses g)"
  shows "master_ok (g\<lparr>mg_buses := bt_insert i c (mg_buses g)\<rparr>)"
proof -
  obtain m where m: "bt_get (mg_buses g) (mg_master g) = Some m" "mb_kind m = MasterBus" "mb_output m = None" "mb_sends m = []"
    and only: "\<And>j d. bt_get (mg_buses g) j = Some d \<Longrightarrow> mb_kind d = MasterBus \<Longrightarrow> j = mg_master g"
    using ok unfolding master_ok_def by blast
  have "\<exists>m. bt_get (bt_insert i c (mg_buses g)) (mg_master g) = Some m \<and> mb_kind m = MasterBus
      \<and> mb_output m = None \<and> mb_sends m = []"
    using m b c by (cases "mg_master g = i") simp_all
  moreover have "j = mg_master g" if "bt_get (bt_insert i c (mg_buses g)) j = Some d" "mb_kind d = MasterBus" for j d
    using that only[of j d] only[OF b] c(1) by (simp split: if_splits)
  ultimately show ?thesis using ok keys by (simp add: master_ok_def)
qed

lemma replace_bus:
  assumes inv: "mixer_inv g" and b: "bt_get (mg_buses g) i = Some b" and c: "bus_fits g i b c"
  shows "mixer_inv (g\<lparr>mg_buses := bt_insert i c (mg_buses g)\<rparr>)"
proof -
  let ?g = "g\<lparr>mg_buses := bt_insert i c (mg_buses g)\<rparr>"
  have wf: "mixer_wf g" and ok: "mixer_ok g" and cursors: "cursors_ok g" using inv by (simp_all add: mixer_inv_def)
  have wf': "mixer_wf ?g" using wf by (simp add: mixer_wf_def)
  obtain xs ys where m: "mg_buses g = xs @ (i, b) # ys" "bt_insert i c (xs @ (i, b) # ys) = xs @ (i, c) # ys"
    using bt_split[OF _ b] wf by (metis mixer_wf_def)
  have keys: "bt_keys (mg_buses ?g) = bt_keys (mg_buses g)" by (simp add: bt_keys_def m)
  have nodes: "node_ids ?g = node_ids g" using c by (simp add: list_defs m bus_fits_def)
  have sends: "mset (send_ids ?g) \<subseteq># mset (send_ids g)" using c by (simp add: list_defs m bus_fits_def)
  have slots: "mset (inserted ?g) = mset (inserted g)" using c by (simp add: list_defs m bus_fits_def)
  have parameters: "parameter_ids ?g = parameter_ids g" by (simp add: list_defs)
  have links: "graph_links ?g \<subseteq> graph_links g"
    using b c by (auto simp: graph_links_targets bus_fits_def split: if_splits)
  have "master_ok ?g"
  proof -
    have "mb_sends c = []" if "mb_sends b = []" using that c by (simp add: bus_fits_def)
    moreover have "master_ok g" using ok by (simp add: mixer_ok_def)
    ultimately show ?thesis
      using replace_master[OF _ b] c keys unfolding bus_fits_def by simp
  qed
  moreover have "bus_ok ?g j d" if "bt_get (mg_buses ?g) j = Some d" for j d
  proof -
    have "bus_ok g j d" using that ok c by (auto simp: mixer_ok_def bus_fits_def split: if_splits)
    then show ?thesis by (rule bus_ok_mono) (use b c in \<open>auto simp: bus_fits_def\<close>)
  qed
  moreover have "distinct (inserted ?g)" "set (inserted ?g) = set (inserted g)"
    using ok slots unfolding mixer_ok_def by (metis mset_eq_imp_distinct_iff, metis mset_eq_setD)
  moreover have "distinct (send_ids ?g)" "set (send_ids ?g) \<subseteq> set (send_ids g)"
    using ok sends distinct_submset unfolding mixer_ok_def by (blast, metis set_mset_mono set_mset_mset)
  ultimately have "mixer_ok ?g"
    using ok links nodes parameters acyclic_subset unfolding mixer_ok_def by auto
  moreover have "cursors_ok ?g"
    using cursors keys nodes parameters \<open>set (send_ids ?g) \<subseteq> set (send_ids g)\<close>
    by (auto simp: cursors_ok_def below_def)
  ultimately show ?thesis using wf' by (simp add: mixer_inv_def)
qed

section \<open>Replacing a processor\<close>

text \<open>A new value for a processor that may lose parameters or gain the next one.\<close>

definition processor_fits :: "mixer_graph \<Rightarrow> processor_id \<Rightarrow> processor \<Rightarrow> nat \<Rightarrow> processor \<Rightarrow> bool" where
  "processor_fits g i p n q \<longleftrightarrow> pc_node_id q = pc_node_id p \<and> bt_ok (pc_parameters q) \<and> processor_ok i q
     \<and> (set (bt_keys (pc_parameters q)) \<subseteq> set (bt_keys (pc_parameters p)) \<and> n = mg_next_parameter g
        \<or> set (bt_keys (pc_parameters q)) \<subseteq> insert (Id (mg_next_parameter g)) (set (bt_keys (pc_parameters p)))
          \<and> mg_next_parameter g < u64_max \<and> n = Suc (mg_next_parameter g))"

lemma replace_processor:
  assumes inv: "mixer_inv g" and p: "bt_get (mg_processors g) i = Some p" and q: "processor_fits g i p n q"
  shows "mixer_inv (g\<lparr>mg_processors := bt_insert i q (mg_processors g), mg_next_parameter := n\<rparr>)"
proof -
  let ?g = "g\<lparr>mg_processors := bt_insert i q (mg_processors g), mg_next_parameter := n\<rparr>"
  have wf: "mixer_wf g" and ok: "mixer_ok g" and cursors: "cursors_ok g" using inv by (simp_all add: mixer_inv_def)
  have node: "pc_node_id q = pc_node_id p" and q_ok: "bt_ok (pc_parameters q)" "processor_ok i q"
    and params: "set (bt_keys (pc_parameters q)) \<subseteq> insert (Id (mg_next_parameter g)) (set (bt_keys (pc_parameters p)))"
    using q by (auto simp: processor_fits_def)
  have wf': "mixer_wf ?g" using wf q_ok by (simp add: mixer_wf_def)
  obtain xs ys where m: "mg_processors g = xs @ (i, p) # ys" "bt_insert i q (xs @ (i, p) # ys) = xs @ (i, q) # ys"
    using bt_split[OF _ p] wf by (metis mixer_wf_def)
  have keys: "bt_keys (mg_processors ?g) = bt_keys (mg_processors g)" by (simp add: bt_keys_def m)
  have nodes: "node_ids ?g = node_ids g" using node by (simp add: list_defs m)
  have same: "send_ids ?g = send_ids g" "inserted ?g = inserted g" "graph_links ?g = graph_links g"
    by (simp_all add: list_defs graph_links_def)
  have fresh: "Id (mg_next_parameter g) \<notin> set (parameter_ids g)"
    using cursors unfolding cursors_ok_def by (intro below_fresh) blast
  have old: "parameter_ids g = concat (map (bt_keys \<circ> pc_parameters \<circ> snd) xs) @ bt_keys (pc_parameters p)
      @ concat (map (bt_keys \<circ> pc_parameters \<circ> snd) ys)"
    and new: "parameter_ids ?g = concat (map (bt_keys \<circ> pc_parameters \<circ> snd) xs) @ bt_keys (pc_parameters q)
      @ concat (map (bt_keys \<circ> pc_parameters \<circ> snd) ys)"
    by (simp_all add: parameter_ids_def processor_list_def bt_values_def m comp_def)
  have "distinct (bt_keys (pc_parameters q))" using q_ok(1) by (simp add: bt_keys_def bt_ok_distinct)
  moreover have "distinct (parameter_ids g)" using ok by (simp add: mixer_ok_def)
  ultimately have distinct: "distinct (parameter_ids ?g)"
    using params fresh unfolding old new distinct_append by (auto simp del: set_concat)
  have "master_ok ?g" using ok by (simp add: mixer_ok_def master_ok_def)
  moreover have "bus_ok ?g j b" if "bt_get (mg_buses g) j = Some b" for j b
  proof -
    have "bus_ok g j b" using that ok by (simp add: mixer_ok_def)
    then show ?thesis by (rule bus_ok_mono) auto
  qed
  moreover have "processor_ok j r \<and> j \<in> set (inserted ?g)" if "bt_get (mg_processors ?g) j = Some r" for j r
  proof (cases "j = i")
    case True
    then show ?thesis using that p ok q_ok same by (simp add: mixer_ok_def)
  next
    case False
    then show ?thesis using that ok same by (simp add: mixer_ok_def)
  qed
  ultimately have "mixer_ok ?g" using ok nodes same distinct unfolding mixer_ok_def by simp
  moreover have "cursors_ok ?g"
  proof -
    have "below n (parameter_ids ?g)"
      using q
    proof (unfold processor_fits_def, elim conjE disjE)
      assume "set (bt_keys (pc_parameters q)) \<subseteq> set (bt_keys (pc_parameters p))" "n = mg_next_parameter g"
      then show ?thesis using cursors unfolding cursors_ok_def old new by (auto simp: below_def)
    next
      assume "set (bt_keys (pc_parameters q)) \<subseteq> insert (Id (mg_next_parameter g)) (set (bt_keys (pc_parameters p)))"
        "mg_next_parameter g < u64_max" "n = Suc (mg_next_parameter g)"
      moreover have "below (mg_next_parameter g) (parameter_ids g)" using cursors by (simp add: cursors_ok_def)
      ultimately show ?thesis using below_insert[of "mg_next_parameter g" "parameter_ids g" "parameter_ids ?g"]
        unfolding old new by (auto simp del: set_concat)
    qed
    then show ?thesis using cursors keys nodes same by (simp add: cursors_ok_def)
  qed
  ultimately show ?thesis using wf' by (simp add: mixer_inv_def)
qed

end
