(* ===== verification/Mixer_Preservation.thy ===== *)
theory Mixer_Preservation
  imports Mixer_Invariant
begin

text \<open>
  Every edit of the mixer graph that replaces one bus or one processor keeps the invariant,
  also when it fails, and never panics.
\<close>

section \<open>Outcomes\<close>

definition good :: "'a mx_result \<times> mixer_graph \<Rightarrow> bool" where
  "good x \<longleftrightarrow> mixer_inv (snd x) \<and> fst x \<noteq> mx_panics"

lemma good_pair [simp]: "good (r, g) \<longleftrightarrow> mixer_inv g \<and> r \<noteq> mx_panics"
  by (simp add: good_def)

lemma attempt_good [intro]:
  assumes "mixer_inv g" "r \<noteq> mx_panics" "\<And>a. r = Inr a \<Longrightarrow> good (k a g)"
  shows "good (attempt r k g)"
  using assms by (cases r) simp_all

lemma lookup_no_panic [simp]:
  "require_bus g i \<noteq> mx_panics" "require_processor g p \<noteq> mx_panics" "validate_finite l v \<noteq> mx_panics"
  "validate_unit l v lo hi \<noteq> mx_panics" "validate_descriptor d \<noteq> mx_panics" "peek_id n kind \<noteq> mx_panics"
  "ok_or x (Failed e) \<noteq> mx_panics"
  by (simp_all add: check_no_panic peek_id_def ok_or_panics)

lemma inv_bus_ok: "mixer_inv g \<Longrightarrow> bt_get (mg_buses g) i = Some b \<Longrightarrow> bus_ok g i b"
  by (simp add: mixer_inv_def mixer_ok_def)

lemma inv_processor_ok: "mixer_inv g \<Longrightarrow> bt_get (mg_processors g) i = Some p \<Longrightarrow> processor_ok i p \<and> i \<in> set (inserted g)"
  by (simp add: mixer_inv_def mixer_ok_def)

lemma inv_bt_ok: "mixer_inv g \<Longrightarrow> bt_ok (mg_buses g)" "mixer_inv g \<Longrightarrow> bt_ok (mg_processors g)"
  "mixer_inv g \<Longrightarrow> bt_get (mg_processors g) i = Some p \<Longrightarrow> bt_ok (pc_parameters p)"
  by (simp_all add: mixer_inv_def mixer_wf_def)

lemma on_bus_good:
  assumes "mixer_inv g" "\<And>b. bt_get (mg_buses g) i = Some b \<Longrightarrow> bus_fits g i b (f b)"
  shows "good (on_bus i f g)"
  using assms replace_bus by (auto simp: on_bus_def split: option.split)

lemma on_processor_good:
  assumes "mixer_inv g" "\<And>p. bt_get (mg_processors g) i = Some p \<Longrightarrow> processor_fits g i p (mg_next_parameter g) (f p)"
  shows "good (on_processor i f g)"
proof (cases "bt_get (mg_processors g) i")
  case None
  then show ?thesis using assms(1) by (simp add: on_processor_def)
next
  case (Some p)
  have "g\<lparr>mg_processors := x, mg_next_parameter := mg_next_parameter g\<rparr> = g\<lparr>mg_processors := x\<rparr>" for x by simp
  with Some show ?thesis using replace_processor[OF assms(1) Some assms(2)[OF Some]] by (simp add: on_processor_def)
qed

section \<open>Where a slot or a send is found\<close>

lemma find_insert_Some:
  assumes "mixer_inv g" "find_insert g i = Some (bus, k)"
  obtains b where "bt_get (mg_buses g) bus = Some b" "k < length (mb_inserts b)" "sl_processor (mb_inserts b ! k) = i"
proof -
  from find_map_Some[OF assms(2)[unfolded find_insert_def]] obtain b where
    b: "b \<in> set (bt_values (mg_buses g))" "mb_id b = bus"
    "find_position (\<lambda>s. sl_processor s = i) (mb_inserts b) = Some k"
    by auto
  then obtain j where j: "bt_get (mg_buses g) j = Some b" using inv_bt_ok(1)[OF assms(1)] by (auto simp: bt_values_in)
  then have "j = bus" using inv_bus_ok[OF assms(1)] b(2) by (auto simp: bus_ok_def)
  with j b(3) show ?thesis using that by (auto simp: find_position_Some)
qed

lemma find_send_Some:
  assumes "mixer_inv g" "find_send g i = Some (bus, k)"
  obtains b where "bt_get (mg_buses g) bus = Some b" "k < length (mb_sends b)" "sd_id (mb_sends b ! k) = i"
proof -
  from find_map_Some[OF assms(2)[unfolded find_send_def]] obtain b where
    b: "b \<in> set (bt_values (mg_buses g))" "mb_id b = bus" "find_position (\<lambda>s. sd_id s = i) (mb_sends b) = Some k"
    by auto
  then obtain j where j: "bt_get (mg_buses g) j = Some b" using inv_bt_ok(1)[OF assms(1)] by (auto simp: bt_values_in)
  then have "j = bus" using inv_bus_ok[OF assms(1)] b(2) by (auto simp: bus_ok_def)
  with j b(3) show ?thesis using that by (auto simp: find_position_Some)
qed

section \<open>Name and fader\<close>

lemma fits_name: "bus_ok g i b \<Longrightarrow> bus_fits g i b (b\<lparr>mb_name := n\<rparr>)"
  by (simp add: bus_fits_def targets_def bus_ok_def output_ok_def)

lemma fits_fader:
  assumes "bus_ok g i b" "f32_is_finite (fd_gain_db x)" "pan_f32 (fd_pan x)"
  shows "bus_fits g i b (b\<lparr>mb_fader := x\<rparr>)"
  using assms by (simp add: bus_fits_def targets_def bus_ok_def output_ok_def)

lemma rename_bus_good: "mixer_inv g \<Longrightarrow> good (rename_bus i n g)"
  unfolding rename_bus_def by (auto intro!: on_bus_good fits_name inv_bus_ok)

lemma fader_edit_good:
  assumes "mixer_inv g" "\<And>x. f32_is_finite (fd_gain_db x) \<and> pan_f32 (fd_pan x)
      \<Longrightarrow> f32_is_finite (fd_gain_db (h x)) \<and> pan_f32 (fd_pan (h x))"
  shows "good (on_bus i (\<lambda>b. b\<lparr>mb_fader := h (mb_fader b)\<rparr>) g)"
proof (rule on_bus_good[OF assms(1)])
  fix b assume "bt_get (mg_buses g) i = Some b"
  then have ok: "bus_ok g i b" using inv_bus_ok[OF assms(1)] by blast
  then show "bus_fits g i b (b\<lparr>mb_fader := h (mb_fader b)\<rparr>)"
    using assms(2)[of "mb_fader b"] by (intro fits_fader) (auto simp: bus_ok_def)
qed

lemma set_gain_db_good: "mixer_inv g \<Longrightarrow> good (set_gain_db i v g)"
  unfolding set_gain_db_def by (rule attempt_good) (auto simp: result_simps intro!: fader_edit_good)

lemma set_pan_good: "mixer_inv g \<Longrightarrow> good (set_pan i v g)"
  unfolding set_pan_def by (rule attempt_good) (auto simp: result_simps pan_f32_def intro!: fader_edit_good)

lemma set_muted_good: "mixer_inv g \<Longrightarrow> good (set_muted i v g)"
  unfolding set_muted_def by (rule fader_edit_good) auto

lemma set_soloed_good: "mixer_inv g \<Longrightarrow> good (set_soloed i v g)"
  unfolding set_soloed_def by (rule fader_edit_good) auto

section \<open>Sends\<close>

lemma fits_sends:
  assumes ok: "bus_ok g i b" and ids: "mset (map sd_id xs) \<subseteq># mset (map sd_id (mb_sends b))"
    and sends: "\<And>s. s \<in> set xs \<Longrightarrow> f32_is_finite (sd_level_db s) \<and> sd_target s \<in> sd_target ` set (mb_sends b)"
  shows "bus_fits g i b (b\<lparr>mb_sends := xs\<rparr>)"
proof -
  have "bt_get (mg_buses g) (sd_target s) \<noteq> None" if "s \<in> set xs" for s
    using sends[OF that] ok by (auto simp: bus_ok_def)
  then have "bus_ok g i (b\<lparr>mb_sends := xs\<rparr>)" using ok sends by (simp add: bus_ok_def output_ok_def)
  moreover have "targets (b\<lparr>mb_sends := xs\<rparr>) \<subseteq> targets b" using sends by (auto simp: targets_def)
  ultimately show ?thesis using ids by (simp add: bus_fits_def)
qed

lemma on_send_good:
  assumes inv: "mixer_inv g"
    and f: "\<And>s. f32_is_finite (sd_level_db s) \<Longrightarrow> f32_is_finite (sd_level_db (f s))"
      "\<And>s. sd_id (f s) = sd_id s" "\<And>s. sd_target (f s) = sd_target s"
  shows "good (on_send i f g)"
proof (cases "find_send g i")
  case None
  then show ?thesis using inv by (simp add: on_send_def)
next
  case (Some x)
  obtain bus k where x: "x = (bus, k)" by (cases x)
  obtain b where b: "bt_get (mg_buses g) bus = Some b" "k < length (mb_sends b)"
    using find_send_Some[OF inv] Some x by metis
  have ok: "bus_ok g bus b" by (rule inv_bus_ok[OF inv b(1)])
  let ?xs = "(mb_sends b)[k := f (mb_sends b ! k)]"
  have ids: "map sd_id ?xs = map sd_id (mb_sends b)"
    using b(2) by (intro nth_equalityI) (auto simp: nth_list_update f)
  have targets: "map sd_target ?xs = map sd_target (mb_sends b)"
    using b(2) by (intro nth_equalityI) (auto simp: nth_list_update f)
  have fits: "bus_fits g bus b (b\<lparr>mb_sends := ?xs\<rparr>)"
  proof (rule fits_sends[OF ok])
    fix s assume s: "s \<in> set ?xs"
    then have "sd_target s \<in> set (map sd_target ?xs)" by simp
    moreover have "f32_is_finite (sd_level_db s)"
      using s ok b(2) f(1) set_update_subset_insert[of "mb_sends b" k] by (fastforce simp: bus_ok_def)
    ultimately show "f32_is_finite (sd_level_db s) \<and> sd_target s \<in> sd_target ` set (mb_sends b)"
      unfolding targets by simp
  qed (simp only: ids subset_mset.order_refl)
  have "good (on_bus bus (\<lambda>b. b\<lparr>mb_sends := (mb_sends b)[k := f (mb_sends b ! k)]\<rparr>) g)"
    by (rule on_bus_good[OF inv]) (use b fits in simp)
  then show ?thesis using Some x b by (simp add: on_send_def)
qed

lemma set_send_tap_good: "mixer_inv g \<Longrightarrow> good (set_send_tap i v g)"
  unfolding set_send_tap_def by (rule on_send_good) simp_all

lemma set_send_muted_good: "mixer_inv g \<Longrightarrow> good (set_send_muted i v g)"
  unfolding set_send_muted_def by (rule on_send_good) simp_all

lemma set_send_level_good: "mixer_inv g \<Longrightarrow> good (set_send_level i v g)"
  unfolding set_send_level_def by (rule attempt_good) (auto simp: result_simps intro!: on_send_good)

lemma remove_send_good:
  assumes inv: "mixer_inv g"
  shows "good (remove_send i g)"
proof (cases "find_send g i")
  case None
  then show ?thesis using inv by (simp add: remove_send_def)
next
  case (Some x)
  obtain bus k where x: "x = (bus, k)" by (cases x)
  obtain b where b: "bt_get (mg_buses g) bus = Some b" "k < length (mb_sends b)"
    using find_send_Some[OF inv] Some x by metis
  have ok: "bus_ok g bus b" by (rule inv_bus_ok[OF inv b(1)])
  have m: "add_mset (mb_sends b ! k) (mset (remove_at k (mb_sends b))) = mset (mb_sends b)"
    by (rule mset_remove_at[OF b(2)])
  then have sub: "mset (remove_at k (mb_sends b)) \<subseteq># mset (mb_sends b)" by (metis mset_subset_eq_insertD subset_mset.order_refl subset_mset.less_imp_le)
  have "bus_fits g bus b (b\<lparr>mb_sends := remove_at k (mb_sends b)\<rparr>)"
  proof (rule fits_sends[OF ok])
    show "mset (map sd_id (remove_at k (mb_sends b))) \<subseteq># mset (map sd_id (mb_sends b))"
      unfolding mset_map by (rule image_mset_subseteq_mono[OF sub])
    fix s assume "s \<in> set (remove_at k (mb_sends b))"
    then have "s \<in> set (mb_sends b)" using sub by (metis mset_subset_eqD set_mset_mset)
    then show "f32_is_finite (sd_level_db s) \<and> sd_target s \<in> sd_target ` set (mb_sends b)"
      using ok by (auto simp: bus_ok_def)
  qed
  then have "good (on_bus bus (\<lambda>b. b\<lparr>mb_sends := remove_at k (mb_sends b)\<rparr>) g)"
    by (intro on_bus_good[OF inv]) (use b in simp)
  then show ?thesis using Some x b by (simp add: remove_send_def good_def)
qed

section \<open>Routing, by check and rollback\<close>

lemma rolled_back:
  assumes "mixer_inv g" "bt_get (mg_buses g) i = Some b"
  shows "g\<lparr>mg_buses := bt_insert i b (bt_insert i c (mg_buses g))\<rparr> = g"
  using bt.put_restore[OF inv_bt_ok(1)[OF assms(1)] assms(2)] by simp

text \<open>An accepted graph has the invariant when its maps are ordered and its cursors are right.\<close>

lemma accepted_inv: "mixer_validate g = Inr () \<Longrightarrow> mixer_wf g \<Longrightarrow> cursors_ok g \<Longrightarrow> mixer_inv g"
  by (simp add: mixer_inv_def mixer_validate_iff)

lemma sends_listed:
  assumes "mixer_inv g" "bt_get (mg_buses g) i = Some b"
  shows "sd_id ` set (mb_sends b) \<subseteq> set (send_ids g)"
proof -
  have "b \<in> set (bus_list g)" using assms(2) inv_bt_ok(1)[OF assms(1)] by (auto simp: bus_list_def bt_values_in)
  then show ?thesis unfolding send_ids_set by blast
qed

lemma replaced_lists:
  assumes inv: "mixer_inv g" and b: "bt_get (mg_buses g) i = Some b" and node: "mb_node_id c = mb_node_id b"
  defines "g' \<equiv> g\<lparr>mg_buses := bt_insert i c (mg_buses g)\<rparr>"
  shows "bt_keys (mg_buses g') = bt_keys (mg_buses g)" "node_ids g' = node_ids g" "parameter_ids g' = parameter_ids g"
    and "set (send_ids g') \<subseteq> set (send_ids g) \<union> sd_id ` set (mb_sends c)"
proof -
  obtain xs ys where m: "mg_buses g = xs @ (i, b) # ys" "bt_insert i c (xs @ (i, b) # ys) = xs @ (i, c) # ys"
    using bt_split[OF inv_bt_ok(1)[OF inv] b] by metis
  show "bt_keys (mg_buses g') = bt_keys (mg_buses g)" "node_ids g' = node_ids g" "parameter_ids g' = parameter_ids g"
    using node by (simp_all add: g'_def list_defs m)
  have "bus_list g' = map snd xs @ c # map snd ys" "bus_list g = map snd xs @ b # map snd ys"
    by (simp_all add: g'_def bus_list_def bt_values_def m)
  then show "set (send_ids g') \<subseteq> set (send_ids g) \<union> sd_id ` set (mb_sends c)"
    unfolding send_ids_set by auto
qed

lemma replaced_cursors:
  assumes inv: "mixer_inv g" and b: "bt_get (mg_buses g) i = Some b" and node: "mb_node_id c = mb_node_id b"
  shows "sd_id ` set (mb_sends c) \<subseteq> set (send_ids g) \<Longrightarrow> cursors_ok (g\<lparr>mg_buses := bt_insert i c (mg_buses g)\<rparr>)"
    and "sd_id ` set (mb_sends c) \<subseteq> insert (Id (mg_next_send g)) (set (send_ids g)) \<Longrightarrow> mg_next_send g < u64_max
      \<Longrightarrow> cursors_ok (g\<lparr>mg_buses := bt_insert i c (mg_buses g), mg_next_send := Suc (mg_next_send g)\<rparr>)"
proof -
  let ?g = "g\<lparr>mg_buses := bt_insert i c (mg_buses g)\<rparr>"
  have cursors: "cursors_ok g" using inv by (simp add: mixer_inv_def)
  then have below: "below (mg_next_send g) (send_ids g)" by (simp add: cursors_ok_def)
  note lists = replaced_lists[OF inv b node]
  show "cursors_ok ?g" if "sd_id ` set (mb_sends c) \<subseteq> set (send_ids g)"
  proof -
    have "set (send_ids ?g) \<subseteq> set (send_ids g)" using that lists(4) by blast
    then have "below (mg_next_send g) (send_ids ?g)" using below unfolding below_def by blast
    then show ?thesis using cursors lists(1-3) by (simp add: cursors_ok_def)
  qed
  show "cursors_ok (?g\<lparr>mg_next_send := Suc (mg_next_send g)\<rparr>)"
    if "sd_id ` set (mb_sends c) \<subseteq> insert (Id (mg_next_send g)) (set (send_ids g))" "mg_next_send g < u64_max"
  proof -
    have "set (send_ids ?g) \<subseteq> insert (Id (mg_next_send g)) (set (send_ids g))" using that(1) lists(4) by blast
    then have sends: "below (Suc (mg_next_send g)) (send_ids ?g)" by (rule below_insert[OF below that(2)])
    have "node_ids (?g\<lparr>mg_next_send := n\<rparr>) = node_ids ?g" "send_ids (?g\<lparr>mg_next_send := n\<rparr>) = send_ids ?g"
      "parameter_ids (?g\<lparr>mg_next_send := n\<rparr>) = parameter_ids ?g" for n
      by (simp_all add: list_defs)
    then show ?thesis using cursors lists(1-3) sends unfolding cursors_ok_def by simp
  qed
qed

lemma set_output_outcome:
  assumes inv: "mixer_inv g"
  shows "good (set_output source target g) \<and> (\<forall>e. fst (set_output source target g) = Inl e
    \<longrightarrow> snd (set_output source target g) = g)"
proof (cases "bt_get (mg_buses g) source = None \<or> bt_get (mg_buses g) target = None \<or> source = mg_master g")
  case True
  then show ?thesis using inv by (auto simp: set_output_def require_bus_def bt_contains_def)
next
  case False
  then obtain b t where b: "bt_get (mg_buses g) source = Some b" and t: "bt_get (mg_buses g) target = Some t"
    and "source \<noteq> mg_master g"
    by auto
  let ?c = "b\<lparr>mb_output := Some target\<rparr>" and ?g = "g\<lparr>mg_buses := bt_insert source (b\<lparr>mb_output := Some target\<rparr>) (mg_buses g)\<rparr>"
  have wf: "mixer_wf ?g" using inv by (simp add: mixer_inv_def mixer_wf_def)
  have "sd_id ` set (mb_sends b) \<subseteq> set (send_ids g)"
    by (rule sends_listed[OF inv b])
  then have "cursors_ok ?g" by (intro replaced_cursors(1)[OF inv b]) simp_all
  with wf have accepted: "mixer_validate ?g = Inr () \<Longrightarrow> mixer_inv ?g" by (rule accepted_inv[rotated])
  have "b\<lparr>mb_output := mb_output b\<rparr> = b" by simp
  with rolled_back[OF inv b] have rejected:
    "snd (on_bus source (\<lambda>c. c\<lparr>mb_output := mb_output b\<rparr>) ?g) = g"
    by (simp add: on_bus_def)
  show ?thesis
    using b t \<open>source \<noteq> mg_master g\<close> inv accepted rejected mixer_validate_no_panic[OF wf]
    by (auto simp: set_output_def require_bus_def bt_contains_def bus_at_def on_bus_def Let_def split: sum.split)
qed

lemma peek_id_Inr [result_simps]: "peek_id n kind = Inr i \<longleftrightarrow> n \<noteq> u64_max \<and> i = n"
  by (auto simp: peek_id_def)

lemma next_below: "mixer_inv g \<Longrightarrow> mg_next_send g \<le> u64_max" "mixer_inv g \<Longrightarrow> mg_next_bus g \<le> u64_max"
  "mixer_inv g \<Longrightarrow> mg_next_node g \<le> u64_max" "mixer_inv g \<Longrightarrow> mg_next_processor g \<le> u64_max"
  "mixer_inv g \<Longrightarrow> mg_next_parameter g \<le> u64_max"
  by (simp_all add: mixer_inv_def cursors_ok_def below_def)

lemma validate_ignores_send_cursor: "mixer_validate (g\<lparr>mg_next_send := n\<rparr>) = mixer_validate g"
proof -
  have "check_output (g\<lparr>mg_next_send := n\<rparr>) = check_output g"
    by (intro ext) (simp add: check_output_def require_bus_def bus_at_def split: option.split)
  moreover have "check_send (g\<lparr>mg_next_send := n\<rparr>) = check_send g" "check_insert (g\<lparr>mg_next_send := n\<rparr>) = check_insert g"
    by (intro ext, simp add: check_send_def check_insert_def require_bus_def require_processor_def)+
  ultimately have "check_bus (g\<lparr>mg_next_send := n\<rparr>) = check_bus g" by (intro ext) (simp add: check_bus_def)
  moreover have "check_master (g\<lparr>mg_next_send := n\<rparr>) = check_master g" "routes (g\<lparr>mg_next_send := n\<rparr>) = routes g"
    by (simp_all add: check_master_def routes_def)
  ultimately show ?thesis by (simp add: mixer_validate_def)
qed

lemma add_send_outcome:
  assumes inv: "mixer_inv g"
  shows "good (add_send source target tap level g) \<and> (\<forall>e. fst (add_send source target tap level g) = Inl e
    \<longrightarrow> snd (add_send source target tap level g) = g)"
proof (cases "f32_is_finite level \<and> bt_get (mg_buses g) source \<noteq> None \<and> bt_get (mg_buses g) target \<noteq> None
    \<and> source \<noteq> mg_master g \<and> mg_next_send g \<noteq> u64_max")
  case False
  then show ?thesis
    using inv by (auto simp: add_send_def require_bus_def bt_contains_def validate_finite_def peek_id_def)
next
  case True
  then obtain b where b: "bt_get (mg_buses g) source = Some b" by auto
  let ?s = "\<lparr>sd_id = Id (mg_next_send g), sd_target = target, sd_tap = tap, sd_level_db = level, sd_muted = False\<rparr>"
  let ?c = "b\<lparr>mb_sends := mb_sends b @ [?s]\<rparr>"
  let ?g = "g\<lparr>mg_buses := bt_insert source ?c (mg_buses g)\<rparr>"
  have wf: "mixer_wf ?g" "mixer_wf (?g\<lparr>mg_next_send := Suc (mg_next_send g)\<rparr>)"
    using inv by (simp_all add: mixer_inv_def mixer_wf_def)
  have less: "mg_next_send g < u64_max" using True next_below(1)[OF inv] by simp
  have "cursors_ok (?g\<lparr>mg_next_send := Suc (mg_next_send g)\<rparr>)"
    using replaced_cursors(2)[OF inv b, of ?c] less sends_listed[OF inv b] by auto
  then have accepted: "mixer_inv (?g\<lparr>mg_next_send := Suc (mg_next_send g)\<rparr>)" if "mixer_validate ?g = Inr ()"
    using accepted_inv wf(2) validate_ignores_send_cursor[where g = ?g] that by metis
  have "?c\<lparr>mb_sends := butlast (mb_sends ?c)\<rparr> = b" by simp
  with rolled_back[OF inv b] have rejected: "snd (on_bus source (\<lambda>b. b\<lparr>mb_sends := butlast (mb_sends b)\<rparr>) ?g) = g"
    by (simp add: on_bus_def)
  show ?thesis
    using b True inv accepted rejected mixer_validate_no_panic[OF wf(1)]
    by (auto simp: add_send_def validate_finite_def require_bus_def bt_contains_def peek_id_def on_bus_def Let_def split: sum.split)
qed

lemmas set_output_good = set_output_outcome[THEN conjunct1]
lemmas add_send_good = add_send_outcome[THEN conjunct1]

section \<open>Slots of an insert chain\<close>

lemma fits_inserts:
  assumes ok: "bus_ok g i b" and ids: "mset (map sl_processor xs) = mset (map sl_processor (mb_inserts b))"
    and wet: "\<And>s. s \<in> set xs \<Longrightarrow> unit_f32 (sl_wet s)"
  shows "bus_fits g i b (b\<lparr>mb_inserts := xs\<rparr>)"
proof -
  have "set (map sl_processor xs) = set (map sl_processor (mb_inserts b))" using ids by (rule mset_eq_setD)
  then have "bt_get (mg_processors g) (sl_processor s) \<noteq> None" if "s \<in> set xs" for s
    using ok that unfolding bus_ok_def by (metis (no_types, lifting) image_iff list.set_map)
  then have "bus_ok g i (b\<lparr>mb_inserts := xs\<rparr>)" using ok wet by (simp add: bus_ok_def output_ok_def)
  then show ?thesis using ids by (simp add: bus_fits_def targets_def)
qed

lemma on_insert_good:
  assumes inv: "mixer_inv g"
    and f: "\<And>s. unit_f32 (sl_wet s) \<Longrightarrow> unit_f32 (sl_wet (f s))" "\<And>s. sl_processor (f s) = sl_processor s"
  shows "good (on_insert i f g)"
proof (cases "find_insert g i")
  case None
  then show ?thesis using inv by (simp add: on_insert_def)
next
  case (Some x)
  obtain bus k where x: "x = (bus, k)" by (cases x)
  obtain b where b: "bt_get (mg_buses g) bus = Some b" "k < length (mb_inserts b)"
    using find_insert_Some[OF inv] Some x by metis
  have ok: "bus_ok g bus b" by (rule inv_bus_ok[OF inv b(1)])
  let ?xs = "(mb_inserts b)[k := f (mb_inserts b ! k)]"
  have ids: "map sl_processor ?xs = map sl_processor (mb_inserts b)"
    using b(2) by (intro nth_equalityI) (auto simp: nth_list_update f)
  have "bus_fits g bus b (b\<lparr>mb_inserts := ?xs\<rparr>)"
  proof (rule fits_inserts[OF ok])
    fix s assume "s \<in> set ?xs"
    then show "unit_f32 (sl_wet s)"
      using ok b(2) f(1) set_update_subset_insert[of "mb_inserts b" k] by (fastforce simp: bus_ok_def)
  qed (simp only: ids)
  then have "good (on_bus bus (\<lambda>b. b\<lparr>mb_inserts := (mb_inserts b)[k := f (mb_inserts b ! k)]\<rparr>) g)"
    by (intro on_bus_good[OF inv]) (use b in simp)
  then show ?thesis using Some x b by (simp add: on_insert_def)
qed

lemma set_insert_bypassed_good: "mixer_inv g \<Longrightarrow> good (set_insert_bypassed i v g)"
  unfolding set_insert_bypassed_def by (rule on_insert_good) simp_all

lemma set_insert_wet_good: "mixer_inv g \<Longrightarrow> good (set_insert_wet i v g)"
  unfolding set_insert_wet_def by (rule attempt_good) (auto simp: result_simps unit_f32_def intro!: on_insert_good)

lemma move_processor_good:
  assumes inv: "mixer_inv g"
  shows "good (move_processor bus i k g)"
proof (cases "find_insert g i")
  case None
  then show ?thesis using inv by (simp add: move_processor_def)
next
  case (Some x)
  obtain owner old where x: "x = (owner, old)" by (cases x)
  obtain b where b: "bt_get (mg_buses g) owner = Some b" "old < length (mb_inserts b)"
    using find_insert_Some[OF inv] Some x by metis
  have ok: "bus_ok g owner b" by (rule inv_bus_ok[OF inv b(1)])
  let ?xs = "insert_at k (mb_inserts b ! old) (remove_at old (mb_inserts b))"
  have same: "mset ?xs = mset (mb_inserts b)" using b(2) by (simp add: mset_insert_at mset_remove_at)
  have "bus_fits g owner b (b\<lparr>mb_inserts := ?xs\<rparr>)"
  proof (rule fits_inserts[OF ok])
    show "mset (map sl_processor ?xs) = mset (map sl_processor (mb_inserts b))" unfolding mset_map same ..
    show "unit_f32 (sl_wet s)" if "s \<in> set ?xs" for s
      using that ok mset_eq_setD[OF same] by (auto simp: bus_ok_def)
  qed
  then have "good (on_bus owner (\<lambda>b. b\<lparr>mb_inserts := insert_at k (mb_inserts b ! old) (remove_at old (mb_inserts b))\<rparr>) g)"
    by (intro on_bus_good[OF inv]) (use b in simp)
  then show ?thesis using Some x b inv by (auto simp: move_processor_def bus_at_def Let_def)
qed

lemma move_processor_before_good:
  assumes inv: "mixer_inv g"
  shows "good (move_processor_before i anchor g)"
proof (cases "find_insert g i")
  case None
  then show ?thesis using inv by (simp add: move_processor_before_def)
next
  case (Some x)
  obtain bus old where x: "x = (bus, old)" by (cases x)
  obtain b where b: "bt_get (mg_buses g) bus = Some b" using find_insert_Some[OF inv] Some x by metis
  show ?thesis
    unfolding move_processor_before_def Some x
    using inv b move_processor_good[OF inv] by (auto simp: bus_at_def split: option.split)
qed

section \<open>Processors and their parameters\<close>

lemma set_processor_latency_good: "mixer_inv g \<Longrightarrow> good (set_processor_latency i n g)"
  unfolding set_processor_latency_def
  by (rule on_processor_good)
    (use inv_processor_ok inv_bt_ok(3) in \<open>force simp: processor_fits_def processor_ok_def\<close>)+

lemma map_values_insert:
  assumes "bt_ok m" "bt_get m k = Some v" "f w = f v"
  shows "map f (bt_values (bt_insert k w m)) = map f (bt_values m)"
proof -
  obtain xs ys where "m = xs @ (k, v) # ys" "bt_insert k w (xs @ (k, v) # ys) = xs @ (k, w) # ys"
    using bt_split[OF assms(1,2)] by metis
  then show ?thesis using assms(3) by (simp add: bt_values_def)
qed

lemma set_keys_insert: "set (bt_keys (bt_insert k v m)) = insert k (set (bt_keys m))"
  by (simp add: bt_keys_def)

lemma set_parameter_value_good:
  assumes inv: "mixer_inv g"
  shows "good (set_parameter_value i j v g)"
proof -
  have "good (on_processor i (\<lambda>p. p\<lparr>pc_parameters := bt_insert j (q\<lparr>pp_normalized_value := v\<rparr>) (pc_parameters p)\<rparr>) g)"
    if p: "bt_get (mg_processors g) i = Some p" and q: "bt_get (pc_parameters p) j = Some q" and v: "unit_f32 v" for p q
  proof (rule on_processor_good[OF inv])
    fix p' assume "bt_get (mg_processors g) i = Some p'"
    then have p': "p' = p" using p by simp
    have "bt_ok (pc_parameters p)" "processor_ok i p" using inv_bt_ok(3)[OF inv p] inv_processor_ok[OF inv p] by simp_all
    moreover from this have "map pp_key (bt_values (bt_insert j (q\<lparr>pp_normalized_value := v\<rparr>) (pc_parameters p)))
        = map pp_key (bt_values (pc_parameters p))"
      using q by (intro map_values_insert) simp_all
    moreover have "j \<in> set (bt_keys (pc_parameters p))" using q by (simp add: bt_keys_in)
    ultimately show "processor_fits g i p' (mg_next_parameter g)
        (p'\<lparr>pc_parameters := bt_insert j (q\<lparr>pp_normalized_value := v\<rparr>) (pc_parameters p')\<rparr>)"
      using q v unfolding p' processor_fits_def processor_ok_def by (auto simp: set_keys_insert simp del: set_map)
  qed
  then show ?thesis
    unfolding set_parameter_value_def using inv
    by (intro attempt_good) (auto simp: result_simps unit_f32_def)
qed

lemma remove_parameter_good:
  assumes inv: "mixer_inv g"
  shows "good (remove_parameter i j g)"
proof -
  have "good (on_processor i (\<lambda>p. p\<lparr>pc_parameters := bt_remove j (pc_parameters p)\<rparr>) g)"
  proof (rule on_processor_good[OF inv])
    fix p assume p: "bt_get (mg_processors g) i = Some p"
    have ok: "bt_ok (pc_parameters p)" "processor_ok i p" using inv_bt_ok(3)[OF inv p] inv_processor_ok[OF inv p] by simp_all
    have "distinct (map pp_key (bt_values (bt_remove j (pc_parameters p))))"
      using ok(2) by (auto simp: processor_ok_def bt_values_def bt_remove_def distinct_map_filter)
    moreover have "set (bt_keys (bt_remove j (pc_parameters p))) \<subseteq> set (bt_keys (pc_parameters p))"
      by (auto simp: bt_keys_def bt_remove_def)
    ultimately show "processor_fits g i p (mg_next_parameter g) (p\<lparr>pc_parameters := bt_remove j (pc_parameters p)\<rparr>)"
      using ok by (simp add: processor_fits_def processor_ok_def)
  qed
  then have "mixer_inv (snd (on_processor i (\<lambda>p. p\<lparr>pc_parameters := bt_remove j (pc_parameters p)\<rparr>) g))"
    by (simp add: good_def)
  then show ?thesis
    unfolding remove_parameter_def using inv by (intro attempt_good) (auto simp: result_simps)
qed

lemma add_parameter_good:
  assumes inv: "mixer_inv g"
  shows "good (add_parameter i key label v g)"
proof (cases "unit_f32 v \<and> bt_get (mg_processors g) i \<noteq> None \<and> key \<noteq> [] \<and> mg_next_parameter g \<noteq> u64_max
    \<and> \<not> list_ex (\<lambda>q. pp_key q = key) (bt_values (pc_parameters (the (bt_get (mg_processors g) i))))")
  case False
  then show ?thesis
    using inv by (auto simp: add_parameter_def require_processor_def bt_contains_def validate_unit_def unit_f32_def peek_id_def)
next
  case True
  then obtain p where p: "bt_get (mg_processors g) i = Some p"
    and new: "\<not> list_ex (\<lambda>q. pp_key q = key) (bt_values (pc_parameters p))" by auto
  let ?j = "Id (mg_next_parameter g)"
  let ?q = "\<lparr>pp_id = ?j, pp_key = key, pp_name = label, pp_normalized_value = v\<rparr>"
  have ok: "bt_ok (pc_parameters p)" "processor_ok i p" using inv_bt_ok(3)[OF inv p] inv_processor_ok[OF inv p] by simp_all
  have "p \<in> set (processor_list g)" using p inv_bt_ok(2)[OF inv] by (auto simp: processor_list_def bt_values_in)
  then have "set (bt_keys (pc_parameters p)) \<subseteq> set (parameter_ids g)" by (auto simp: parameter_ids_def)
  moreover have "?j \<notin> set (parameter_ids g)"
    using inv unfolding mixer_inv_def cursors_ok_def by (intro below_fresh) blast
  ultimately have fresh: "bt_get (pc_parameters p) ?j = None" by (auto simp: bt_keys_in)
  obtain xs ys where m: "pc_parameters p = xs @ ys" "bt_insert ?j ?q (xs @ ys) = xs @ (?j, ?q) # ys"
    using bt_split_fresh[OF ok(1) fresh] by metis
  have "distinct (map pp_key (bt_values (bt_insert ?j ?q (pc_parameters p))))"
    using ok(2) new by (auto simp: processor_ok_def bt_values_def m list_ex_iff)
  moreover have "mg_next_parameter g < u64_max" using True next_below(5)[OF inv] by simp
  ultimately have "processor_fits g i p (Suc (mg_next_parameter g)) (p\<lparr>pc_parameters := bt_insert ?j ?q (pc_parameters p)\<rparr>)"
    using ok True by (auto simp: processor_fits_def processor_ok_def set_keys_insert simp del: set_map)
  from replace_processor[OF inv p this]
  have "mixer_inv (g\<lparr>mg_processors := bt_insert i (p\<lparr>pc_parameters := bt_insert ?j ?q (pc_parameters p)\<rparr>) (mg_processors g),
      mg_next_parameter := Suc (mg_next_parameter g)\<rparr>)" .
  moreover have "g\<lparr>mg_processors := x, mg_next_parameter := n\<rparr> = g\<lparr>mg_next_parameter := n, mg_processors := x\<rparr>" for x n
    by simp
  ultimately have "mixer_inv (g\<lparr>mg_next_parameter := Suc (mg_next_parameter g),
      mg_processors := bt_insert i (p\<lparr>pc_parameters := bt_insert ?j ?q (pc_parameters p)\<rparr>) (mg_processors g)\<rparr>)"
    by (simp only:)
  then show ?thesis
    using True p new
    by (simp add: add_parameter_def require_processor_def bt_contains_def validate_unit_def unit_f32_def peek_id_def
        on_processor_def)
qed

end
