(* ===== verification/Mixer_Structure.thy ===== *)
theory Mixer_Structure
  imports Mixer_Preservation
begin

text \<open>
  The edits of the mixer graph that create, remove or reorder buses and processors, and the
  restoration of the identifier cursors, keep the invariant and never panic.
\<close>

section \<open>Order of the strips\<close>

lemma last_insert_at: "k < length xs \<Longrightarrow> last (insert_at k x xs) = last xs"
  by (simp add: insert_at_def last_drop)

lemma last_remove_at:
  assumes "k < length xs" "xs ! k \<noteq> last xs"
  shows "last (remove_at k xs) = last xs" "remove_at k xs \<noteq> []"
proof -
  have "k \<noteq> length xs - 1" using assms by (metis last_conv_nth length_greater_0_conv less_nat_zero_code list.size(3))
  then have "Suc k < length xs" using assms(1) by linarith
  then show "last (remove_at k xs) = last xs" "remove_at k xs \<noteq> []" by (simp_all add: remove_at_def last_drop)
qed

lemma last_filter_same: "xs \<noteq> [] \<Longrightarrow> P (last xs) \<Longrightarrow> last (filter P xs) = last xs \<and> filter P xs \<noteq> []"
  by (induction xs rule: rev_induct) auto

lemma order_inv:
  assumes inv: "mixer_inv g" and order: "mset order = mset (mg_order g)" "last order = mg_master g"
  shows "mixer_inv (g\<lparr>mg_order := order\<rparr>)"
proof -
  let ?g = "g\<lparr>mg_order := order\<rparr>"
  have ok: "mixer_ok g" using inv by (simp add: mixer_inv_def)
  have same: "node_ids ?g = node_ids g" "send_ids ?g = send_ids g" "inserted ?g = inserted g"
    "parameter_ids ?g = parameter_ids g" "graph_links ?g = graph_links g"
    by (simp_all add: list_defs graph_links_def)
  have old: "distinct (mg_order g)" "mg_order g \<noteq> []" using ok by (simp_all add: mixer_ok_def master_ok_def)
  have "distinct order" using old(1) mset_eq_imp_distinct_iff[OF order(1)] by blast
  moreover have "set order = set (mg_order g)" by (rule mset_eq_setD[OF order(1)])
  moreover have "order \<noteq> []" using old(2) order(1) by (metis mset_zero_iff)
  ultimately have "master_ok ?g" using ok order(2) by (simp add: mixer_ok_def master_ok_def)
  moreover have "bus_ok ?g j b" if "bt_get (mg_buses g) j = Some b" for j b
    by (rule bus_ok_mono[OF inv_bus_ok[OF inv that]]) auto
  ultimately have "mixer_ok ?g" using ok same unfolding mixer_ok_def by simp
  then show ?thesis using inv same by (simp add: mixer_inv_def mixer_wf_def cursors_ok_def)
qed

definition may_move :: "bus_id \<Rightarrow> bus_id option \<Rightarrow> mixer_graph \<Rightarrow> bool" where
  "may_move i anchor g \<longleftrightarrow> require_bus g i = Inr () \<and> i \<noteq> mg_master g \<and> anchor \<noteq> Some i
     \<and> (case anchor of None \<Rightarrow> Inr () | Some a \<Rightarrow> require_bus g a) = Inr ()"

lemma may_not_move:
  assumes "\<not> may_move i anchor g"
  shows "snd (move_bus_before i anchor g) = g" "fst (move_bus_before i anchor g) \<noteq> mx_panics"
proof -
  have "(case anchor of None \<Rightarrow> Inr () | Some a \<Rightarrow> require_bus g a) \<noteq> mx_panics"
    by (cases anchor) simp_all
  then show "snd (move_bus_before i anchor g) = g" "fst (move_bus_before i anchor g) \<noteq> mx_panics"
    using assms by (auto simp: move_bus_before_def may_move_def attempt_def split: sum.split)
qed

lemma may_move_moves:
  assumes inv: "mixer_inv g" and may: "may_move i anchor g"
  shows "\<exists>order. move_bus_before i anchor g = (Inr (), g\<lparr>mg_order := order\<rparr>) \<and> mixer_inv (g\<lparr>mg_order := order\<rparr>)"
proof -
  have True: "require_bus g i = Inr () \<and> i \<noteq> mg_master g \<and> anchor \<noteq> Some i
    \<and> (case anchor of None \<Rightarrow> Inr () | Some a \<Rightarrow> require_bus g a) = Inr ()"
    using may by (simp add: may_move_def)
  then have i: "bt_get (mg_buses g) i \<noteq> None" by (simp add: require_Inr)
  have master: "master_ok g" using inv by (simp add: mixer_inv_def mixer_ok_def)
  then have order: "distinct (mg_order g)" "set (mg_order g) = set (bt_keys (mg_buses g))" "mg_order g \<noteq> []"
    "last (mg_order g) = mg_master g"
    by (simp_all add: master_ok_def)
  let ?a = "case anchor of None \<Rightarrow> mg_master g | Some a \<Rightarrow> a"
  have a: "?a \<in> set (mg_order g)" "?a \<noteq> i"
    using True order last_in_set[of "mg_order g"] by (auto simp: bt_keys_in require_Inr split: option.splits)
  have "i \<in> set (mg_order g)" using i order(2) by (simp add: bt_keys_in)
  then have "find_position (\<lambda>j. j = i) (mg_order g) \<noteq> None" unfolding find_position_None by blast
  then obtain old where old: "find_position (\<lambda>j. j = i) (mg_order g) = Some old" "old < length (mg_order g)" "mg_order g ! old = i"
    using find_position_Some by blast
  let ?rest = "remove_at old (mg_order g)"
  have rest: "add_mset i (mset ?rest) = mset (mg_order g)" using mset_remove_at[OF old(2)] old(3) by simp
  have "?a \<in># mset (mg_order g)" using a(1) by (simp only: set_mset_mset)
  then have "?a \<in> insert i (set ?rest)" unfolding rest[symmetric] by simp
  then have "?a \<in> set ?rest" using a(2) by blast
  then have "find_position (\<lambda>j. j = ?a) ?rest \<noteq> None" unfolding find_position_None by blast
  then obtain k where k: "find_position (\<lambda>j. j = ?a) ?rest = Some k" "k < length ?rest"
    using find_position_Some by blast
  have "last (insert_at k i ?rest) = mg_master g"
    using last_insert_at[OF k(2)] last_remove_at(1)[OF old(2)] old(3) order True by metis
  moreover have "mset (insert_at k i ?rest) = mset (mg_order g)" using rest by (simp add: mset_insert_at)
  ultimately have "mixer_inv (g\<lparr>mg_order := insert_at k i ?rest\<rparr>)" by (rule order_inv[OF inv, rotated])
  then show ?thesis
    using True old(1) k(1)
    by (intro exI[of _ "insert_at k i ?rest"]) (simp add: move_bus_before_def Let_def cong: option.case_cong)
qed

lemma move_bus_before_good:
  assumes inv: "mixer_inv g"
  shows "good (move_bus_before i anchor g)"
  using may_not_move[of i anchor g] may_move_moves[OF inv, of i anchor] inv
  by (cases "may_move i anchor g") (auto simp: good_def)

section \<open>Adding a bus\<close>

lemma fresh_bus: "mixer_inv g \<Longrightarrow> bt_get (mg_buses g) (Id (mg_next_bus g)) = None"
  using below_fresh[of "mg_next_bus g" "bt_keys (mg_buses g)"]
  by (auto simp: mixer_inv_def cursors_ok_def bt_keys_in)

lemma targets_exist:
  assumes "mixer_inv g" "bt_get (mg_buses g) i = Some b" "t \<in> targets b"
  shows "bt_get (mg_buses g) t \<noteq> None"
  using inv_bus_ok[OF assms(1,2)] assms(3) by (auto simp: bus_ok_def output_ok_def targets_def)

lemma inv_below:
  "mixer_inv g \<Longrightarrow> below (mg_next_bus g) (bt_keys (mg_buses g))" "mixer_inv g \<Longrightarrow> below (mg_next_node g) (node_ids g)"
  "mixer_inv g \<Longrightarrow> below (mg_next_send g) (send_ids g)"
  "mixer_inv g \<Longrightarrow> below (mg_next_processor g) (bt_keys (mg_processors g))"
  "mixer_inv g \<Longrightarrow> below (mg_next_parameter g) (parameter_ids g)"
  by (simp_all add: mixer_inv_def cursors_ok_def)

lemma cursor_inv:
  assumes "mixer_inv g"
  shows "below n (bt_keys (mg_buses g)) \<Longrightarrow> mixer_inv (g\<lparr>mg_next_bus := n\<rparr>)"
    and "below n (node_ids g) \<Longrightarrow> mixer_inv (g\<lparr>mg_next_node := n\<rparr>)"
    and "below n (send_ids g) \<Longrightarrow> mixer_inv (g\<lparr>mg_next_send := n\<rparr>)"
    and "below n (bt_keys (mg_processors g)) \<Longrightarrow> mixer_inv (g\<lparr>mg_next_processor := n\<rparr>)"
    and "below n (parameter_ids g) \<Longrightarrow> mixer_inv (g\<lparr>mg_next_parameter := n\<rparr>)"
    and "mixer_inv (g\<lparr>mg_revision := n\<rparr>)"
  using assms unfolding mixer_inv_def
  by (auto simp: mixer_wf_def mixer_ok_def master_ok_def bus_ok_def output_ok_def cursors_ok_def list_defs graph_links_def
      simp del: set_concat set_map)

definition with_bus :: "bus_kind \<Rightarrow> unicode_string \<Rightarrow> mixer_graph \<Rightarrow> mx_bus" where
  "with_bus kind name g = \<lparr>mb_id = Id (mg_next_bus g), mb_node_id = Id (mg_next_node g), mb_name = name,
     mb_kind = kind, mb_output = Some (mg_master g), mb_inserts = [], mb_sends = [], mb_fader = fader_default\<rparr>"

lemma fader_default_ok: "f32_is_finite (fd_gain_db fader_default)" "pan_f32 (fd_pan fader_default)"
  by (simp_all add: fader_default_def f32_is_finite_def f32_exp_def pan_f32_def f32_le_def f32_minus_one_def f32_one_def
      f32_is_nan_def f32_frac_def f32_neg_def f32_key_def)

lemma add_bus_inv:
  assumes inv: "mixer_inv g" and kind: "kind \<noteq> MasterBus" and room: "mg_next_bus g < u64_max" "mg_next_node g < u64_max"
    and order: "mset order = add_mset (Id (mg_next_bus g)) (mset (mg_order g))" "last order = mg_master g"
  shows "mixer_inv (g\<lparr>mg_next_bus := Suc (mg_next_bus g), mg_next_node := Suc (mg_next_node g),
    mg_buses := bt_insert (Id (mg_next_bus g)) (with_bus kind name g) (mg_buses g), mg_order := order\<rparr>)" (is "mixer_inv ?g")
proof -
  let ?i = "Id (mg_next_bus g) :: bus_id" and ?b = "with_bus kind name g"
  have wf: "mixer_wf g" and ok: "mixer_ok g" and cursors: "cursors_ok g" using inv by (simp_all add: mixer_inv_def)
  have fresh: "bt_get (mg_buses g) ?i = None" by (rule fresh_bus[OF inv])
  obtain m where m: "bt_get (mg_buses g) (mg_master g) = Some m" "mb_kind m = MasterBus" "mb_output m = None" "mb_sends m = []"
    using ok unfolding mixer_ok_def master_ok_def by blast
  have get: "bt_get (mg_buses ?g) j = (if j = ?i then Some ?b else bt_get (mg_buses g) j)" for j by simp
  obtain xs ys where s: "mg_buses g = xs @ ys" "bt_insert ?i ?b (xs @ ys) = xs @ (?i, ?b) # ys"
    using bt_split_fresh[OF inv_bt_ok(1)[OF inv] fresh] by metis
  have lists: "bus_list ?g = map snd xs @ ?b # map snd ys" "bus_list g = map snd xs @ map snd ys"
    "processor_list ?g = processor_list g"
    by (simp_all add: bus_list_def processor_list_def bt_values_def s)
  have nodes: "mset (node_ids ?g) = add_mset (Id (mg_next_node g)) (mset (node_ids g))"
    by (simp add: node_ids_def lists) (simp add: with_bus_def)
  have same: "send_ids ?g = send_ids g" "inserted ?g = inserted g" "parameter_ids ?g = parameter_ids g"
    by (simp_all add: send_ids_def inserted_def parameter_ids_def lists) (simp_all add: with_bus_def)
  have keys: "set (bt_keys (mg_buses ?g)) = insert ?i (set (bt_keys (mg_buses g)))"
    by (simp add: set_keys_insert)
  have links: "graph_links ?g = insert (?i, mg_master g) (graph_links g)"
  proof -
    have t: "targets ?b = {mg_master g}" by (simp add: targets_def with_bus_def)
    have "(j, t) \<in> graph_links ?g \<longleftrightarrow> (j, t) \<in> insert (?i, mg_master g) (graph_links g)" for j t
      unfolding graph_links_targets insert_iff get using fresh t by (cases "j = ?i") auto
    then show ?thesis by auto
  qed
  have "?i \<notin> Range (graph_links g)"
    using targets_exist[OF inv] fresh unfolding Range_iff graph_links_targets by blast
  moreover have "?i \<noteq> mg_master g" using m fresh by auto
  ultimately have "(mg_master g, ?i) \<notin> (graph_links g)\<^sup>*" by (auto elim: rtranclE)
  then have acyclic: "acyclic (graph_links ?g)" using ok by (simp add: links acyclic_insert mixer_ok_def)
  have "master_ok ?g"
  proof -
    have old: "distinct (mg_order g)" "set (mg_order g) = set (bt_keys (mg_buses g))"
      "\<And>i b. bt_get (mg_buses g) i = Some b \<Longrightarrow> mb_kind b = MasterBus \<Longrightarrow> i = mg_master g"
      using ok unfolding mixer_ok_def master_ok_def by blast+
    have "?i \<notin> set (mg_order g)" using fresh old(2) by (simp add: bt_keys_in)
    then have "distinct order" using old(1) mset_eq_imp_distinct_iff[of order "?i # mg_order g"] order(1) by simp
    moreover have "set order = insert ?i (set (mg_order g))" using order(1) mset_eq_setD[of order "?i # mg_order g"] by simp
    moreover have "order \<noteq> []" using order(1) by auto
    moreover have "bt_get (mg_buses ?g) (mg_master g) = Some m" using m(1) \<open>?i \<noteq> mg_master g\<close> get by metis
    moreover have "j = mg_master g" if "bt_get (mg_buses ?g) j = Some c" "mb_kind c = MasterBus" for j c
      using that kind old(3)[of j c] unfolding get by (cases "j = ?i") (simp_all add: with_bus_def, auto)
    moreover have "mg_order ?g = order" "mg_master ?g = mg_master g" by simp_all
    ultimately show ?thesis
      using m(2-4) order(2) keys old(2) unfolding master_ok_def by metis
  qed
  moreover have "bus_ok ?g j c" if "bt_get (mg_buses ?g) j = Some c" for j c
  proof (cases "j = ?i")
    case True
    with that have "c = ?b" by simp
    with True m \<open>?i \<noteq> mg_master g\<close> show ?thesis
      by (simp add: bus_ok_def output_ok_def with_bus_def fader_default_ok)
  next
    case False
    with that have "bus_ok g j c" using inv_bus_ok[OF inv] by simp
    then show ?thesis by (rule bus_ok_mono) (use fresh in auto)
  qed
  moreover have "distinct (node_ids ?g)"
  proof -
    have "Id (mg_next_node g) \<notin> set (node_ids g)" using cursors unfolding cursors_ok_def by (intro below_fresh) blast
    then show ?thesis
      using ok nodes mset_eq_imp_distinct_iff[of "node_ids ?g" "Id (mg_next_node g) # node_ids g"] by (simp add: mixer_ok_def)
  qed
  ultimately have "mixer_ok ?g" using ok acyclic same unfolding mixer_ok_def by simp
  moreover have "cursors_ok ?g"
  proof -
    have "set (node_ids ?g) = insert (Id (mg_next_node g)) (set (node_ids g))"
      using mset_eq_setD[of "node_ids ?g" "Id (mg_next_node g) # node_ids g"] nodes by simp
    then have "below (Suc (mg_next_node g)) (node_ids ?g)"
      using cursors room(2) unfolding cursors_ok_def by (intro below_insert[of "mg_next_node g" "node_ids g"]) auto
    moreover have "below (Suc (mg_next_bus g)) (bt_keys (mg_buses ?g))"
      using cursors room(1) keys unfolding cursors_ok_def
      by (intro below_insert[of "mg_next_bus g" "bt_keys (mg_buses g)"]) auto
    ultimately show ?thesis using cursors same unfolding cursors_ok_def by simp
  qed
  moreover have "mixer_wf ?g" using wf by (simp add: mixer_wf_def)
  ultimately show ?thesis by (simp add: mixer_inv_def)
qed

lemma master_found:
  assumes "mixer_inv g"
  shows "\<exists>k. find_position (\<lambda>j. j = mg_master g) (mg_order g) = Some k"
proof -
  have "mg_master g \<in> set (mg_order g)"
    using assms last_in_set[of "mg_order g"] by (simp add: mixer_inv_def mixer_ok_def master_ok_def)
  then have "find_position (\<lambda>j. j = mg_master g) (mg_order g) \<noteq> None" unfolding find_position_None by blast
  then show ?thesis by blast
qed

lemma add_bus_good:
  assumes inv: "mixer_inv g"
  shows "good (add_bus kind name g)"
proof (cases "kind = MasterBus \<or> is_blank_text name \<or> mg_next_bus g = u64_max")
  case True
  then show ?thesis using inv by (auto simp: add_bus_def peek_id_def)
next
  case False
  then have bus_room: "mg_next_bus g < u64_max" using next_below(2)[OF inv] by simp
  have bumped: "mixer_inv (g\<lparr>mg_next_bus := Suc (mg_next_bus g)\<rparr>)"
    by (rule cursor_inv(1)[OF inv below_subset[OF inv_below(1)[OF inv]]]) (use bus_room in simp_all)
  show ?thesis
  proof (cases "mg_next_node g = u64_max")
    case True
    then show ?thesis using False bumped by (simp add: add_bus_def peek_id_def)
  next
    case node: False
    then have node_room: "mg_next_node g < u64_max" using next_below(3)[OF inv] by simp
    have order: "last (mg_order g) = mg_master g" using inv by (simp add: mixer_inv_def mixer_ok_def master_ok_def)
    obtain k where k: "find_position (\<lambda>j. j = mg_master g) (mg_order g) = Some k" "k < length (mg_order g)"
      using master_found[OF inv] find_position_Some by blast
    have "mixer_inv (g\<lparr>mg_next_bus := Suc (mg_next_bus g), mg_next_node := Suc (mg_next_node g),
        mg_buses := bt_insert (Id (mg_next_bus g)) (with_bus kind name g) (mg_buses g),
        mg_order := insert_at k (Id (mg_next_bus g)) (mg_order g)\<rparr>)"
      using False order last_insert_at[OF k(2)]
      by (intro add_bus_inv[OF inv _ bus_room node_room]) (simp_all add: mset_insert_at)
    then show ?thesis using False node k(1) by (simp add: add_bus_def peek_id_def with_bus_def)
  qed
qed

end
