(* ===== verification/Mixer_Ownership.thy ===== *)
theory Mixer_Ownership
  imports Mixer_Structure
begin

text \<open>
  Removing a bus takes its processors with it, and a processor enters and leaves together with its
  slot: the edits that change both maps of the mixer graph keep the invariant and never panic.
\<close>

section \<open>Removing a bus\<close>

lemma fold_remove: "fold (\<lambda>s m. bt_remove (f s) m) ss m = filter (\<lambda>e. fst e \<notin> f ` set ss) m"
proof (induction ss arbitrary: m)
  case (Cons s ss)
  then show ?case by (simp add: bt_remove_def conj_commute)
qed simp

lemma bt_get_outside: "bt_get (filter (\<lambda>e. fst e \<notin> A) m) k = (if k \<in> A then None else bt_get m k)"
  by (induction m) (auto simp: bt_get_def)

lemma mset_concat_filter: "mset (concat (map f (filter P xs))) \<subseteq># mset (concat (map f xs))"
  by (induction xs) (auto intro: subset_mset.add_mono subset_mset.order_trans[OF _ mset_subset_eq_add_right])

lemma no_route_to:
  assumes inv: "mixer_inv g" and free: "\<not> list_ex (\<lambda>r. rt_to r = i) (routes g)"
    and d: "bt_get (mg_buses g) j = Some d"
  shows "i \<notin> targets d"
proof
  assume "i \<in> targets d"
  with d have "(j, i) \<in> graph_links g" by (auto simp: graph_links_targets)
  moreover have "\<forall>i b. bt_get (mg_buses g) i = Some b \<longrightarrow> mb_id b = i" using inv_bus_ok[OF inv] by (simp add: bus_ok_def)
  ultimately have "(j, i) \<in> links (routes g)" using links_routes(1)[OF inv_bt_ok(1)[OF inv]] by simp
  then show False using free by (auto simp: links_def list_ex_iff)
qed

lemma remove_bus_inv:
  assumes inv: "mixer_inv g" and b: "bt_get (mg_buses g) i = Some b" and i: "i \<noteq> mg_master g"
    and free: "\<And>j d. bt_get (mg_buses g) j = Some d \<Longrightarrow> i \<notin> targets d"
  defines "owned \<equiv> sl_processor ` set (mb_inserts b)"
  shows "mixer_inv (g\<lparr>mg_buses := bt_remove i (mg_buses g), mg_order := filter (\<lambda>j. j \<noteq> i) (mg_order g),
    mg_processors := filter (\<lambda>e. fst e \<notin> owned) (mg_processors g)\<rparr>)" (is "mixer_inv ?g")
proof -
  have wf: "mixer_wf g" and ok: "mixer_ok g" and cursors: "cursors_ok g" using inv by (simp_all add: mixer_inv_def)
  obtain xs ys where m: "mg_buses g = xs @ (i, b) # ys" "bt_remove i (xs @ (i, b) # ys) = xs @ ys"
    using bt_split[OF inv_bt_ok(1)[OF inv] b] by metis
  have get: "bt_get (mg_buses ?g) j = (if j = i then None else bt_get (mg_buses g) j)"
    "bt_get (mg_processors ?g) p = (if p \<in> owned then None else bt_get (mg_processors g) p)" for j p
    by (simp_all add: bt_get_outside)
  have wf': "mixer_wf ?g" using wf by (auto simp: mixer_wf_def bt_ok_filter bt_get_outside split: if_splits)
  have buses: "bus_list g = map snd xs @ b # map snd ys" "bus_list ?g = map snd xs @ map snd ys"
    by (simp_all add: bus_list_def bt_values_def m)
  have processors: "processor_list ?g = map snd (filter (\<lambda>e. fst e \<notin> owned) (mg_processors g))"
    "processor_list g = map snd (mg_processors g)"
    by (simp_all add: processor_list_def bt_values_def)
  have "mset (map pc_node_id (processor_list ?g)) \<subseteq># mset (map pc_node_id (processor_list g))"
    by (simp add: processors image_mset_subseteq_mono)
  moreover have "mset (map mb_node_id (bus_list ?g)) \<subseteq># mset (map mb_node_id (bus_list g))" by (simp add: buses)
  ultimately have nodes: "mset (node_ids ?g) \<subseteq># mset (node_ids g)"
    unfolding node_ids_def mset_append by (intro subset_mset.add_mono)
  have sends: "mset (send_ids ?g) \<subseteq># mset (send_ids g)" by (simp add: send_ids_def buses)
  have slots: "mset (inserted g) = mset (inserted ?g) + mset (map sl_processor (mb_inserts b))"
    by (simp add: inserted_def buses)
  have parameters: "mset (parameter_ids ?g) \<subseteq># mset (parameter_ids g)"
    using mset_concat_filter[of "bt_keys \<circ> pc_parameters \<circ> snd" "\<lambda>e. fst e \<notin> owned" "mg_processors g"]
    by (simp add: parameter_ids_def processors comp_def)
  have "distinct (inserted g)" using ok by (simp add: mixer_ok_def)
  moreover have "mset (inserted g) = mset (inserted ?g @ map sl_processor (mb_inserts b))" using slots by simp
  ultimately have apart: "distinct (inserted ?g @ map sl_processor (mb_inserts b))"
    using mset_eq_imp_distinct_iff by blast
  then have away: "set (inserted ?g) \<inter> owned = {}" by (simp add: owned_def)
  have all: "set (inserted g) = set (inserted ?g) \<union> owned"
    using mset_eq_setD[of "inserted g" "inserted ?g @ map sl_processor (mb_inserts b)"] slots by (simp add: owned_def)
  have "master_ok ?g"
  proof -
    have old: "distinct (mg_order g)" "set (mg_order g) = set (bt_keys (mg_buses g))" "mg_order g \<noteq> []"
      "last (mg_order g) = mg_master g"
      using ok unfolding mixer_ok_def master_ok_def by blast+
    have "last (filter (\<lambda>j. j \<noteq> i) (mg_order g)) = mg_master g" "filter (\<lambda>j. j \<noteq> i) (mg_order g) \<noteq> []"
      using last_filter_same[OF old(3), of "\<lambda>j. j \<noteq> i"] i old(4) by simp_all
    moreover have "set (filter (\<lambda>j. j \<noteq> i) (mg_order g)) = set (bt_keys (mg_buses ?g))"
      using old(2) by (auto simp: bt_keys_in bt_get_outside split: if_splits)
    ultimately show ?thesis using old(1) i ok by (simp add: mixer_ok_def master_ok_def)
  qed
  moreover have "bus_ok ?g j d" if "bt_get (mg_buses ?g) j = Some d" for j d
  proof -
    have d: "bt_get (mg_buses g) j = Some d" using that by (simp add: get split: if_splits)
    have "d \<in> set (bus_list ?g)"
      using that wf' bt_values_in[of "mg_buses ?g" d] unfolding bus_list_def mixer_wf_def by blast
    then have "sl_processor s \<notin> owned" if "s \<in> set (mb_inserts d)" for s
      using away that by (auto simp: inserted_set)
    then show ?thesis
      using free[OF d] by (intro bus_ok_mono[OF inv_bus_ok[OF inv d]]) (auto simp: bt_get_outside)
  qed
  moreover have "processor_ok p q \<and> p \<in> set (inserted ?g)" if "bt_get (mg_processors ?g) p = Some q" for p q
    using that inv_processor_ok[OF inv, of p q] all by (auto simp: bt_get_outside split: if_splits)
  moreover have "graph_links ?g \<subseteq> graph_links g" by (auto simp: graph_links_targets split: if_splits)
  moreover have "distinct (node_ids ?g)" "distinct (send_ids ?g)" "distinct (parameter_ids ?g)"
    using ok nodes sends parameters distinct_submset unfolding mixer_ok_def by blast+
  ultimately have "mixer_ok ?g"
    using ok apart acyclic_subset unfolding mixer_ok_def by (metis distinct_append)
  moreover have "cursors_ok ?g"
  proof -
    have keys: "set (bt_keys (mg_buses ?g)) \<subseteq> set (bt_keys (mg_buses g))" "set (bt_keys (mg_processors ?g)) \<subseteq> set (bt_keys (mg_processors g))"
      by (auto simp: bt_keys_in bt_get_outside split: if_splits)
    have "set (node_ids ?g) \<subseteq> set (node_ids g)" "set (send_ids ?g) \<subseteq> set (send_ids g)" "set (parameter_ids ?g) \<subseteq> set (parameter_ids g)"
      using nodes sends parameters by (metis set_mset_mono set_mset_mset)+
    with keys cursors show ?thesis unfolding cursors_ok_def below_def by simp blast
  qed
  ultimately show ?thesis using wf' by (simp add: mixer_inv_def)
qed

lemma remove_bus_good:
  assumes inv: "mixer_inv g"
  shows "good (remove_bus i g)"
proof (cases "bt_get (mg_buses g) i")
  case None
  then show ?thesis using inv by (simp add: remove_bus_def require_bus_def bt_contains_def)
next
  case (Some b)
  show ?thesis
  proof (cases "i = mg_master g \<or> list_ex (\<lambda>r. rt_to r = i) (routes g)")
    case True
    then show ?thesis using inv Some by (auto simp: remove_bus_def require_bus_def bt_contains_def)
  next
    case False
    then show ?thesis
      using remove_bus_inv[OF inv Some] no_route_to[OF inv] Some
      by (simp add: remove_bus_def require_bus_def bt_contains_def bus_at_def fold_remove)
  qed
qed

section \<open>A processor and its slot\<close>

lemma insert_processor_inv:
  fixes n k :: nat
  assumes inv: "mixer_inv g" and b: "bt_get (mg_buses g) bus = Some b" and descriptor: "descriptor_ok d"
    and room: "mg_next_processor g < u64_max" "mg_next_node g < u64_max"
  defines "i \<equiv> Id (mg_next_processor g) :: processor_id"
  defines "p \<equiv> \<lparr>pc_id = i, pc_node_id = Id (mg_next_node g), pc_descriptor = d, pc_latency_samples = n, pc_parameters = []\<rparr>"
    and "c \<equiv> b\<lparr>mb_inserts := insert_at k \<lparr>sl_processor = i, sl_bypassed = False, sl_wet = f32_one\<rparr> (mb_inserts b)\<rparr>"
  shows "mixer_inv (g\<lparr>mg_next_processor := Suc (mg_next_processor g), mg_next_node := Suc (mg_next_node g),
    mg_processors := bt_insert i p (mg_processors g), mg_buses := bt_insert bus c (mg_buses g)\<rparr>)" (is "mixer_inv ?g")
proof -
  have wf: "mixer_wf g" and ok: "mixer_ok g" and cursors: "cursors_ok g" using inv by (simp_all add: mixer_inv_def)
  have fresh: "bt_get (mg_processors g) i = None"
    using below_fresh[OF inv_below(4)[OF inv]] unfolding i_def by (auto simp: bt_keys_in)
  have c: "mb_kind c = mb_kind b" "mb_output c = mb_output b" "mb_sends c = mb_sends b" "mb_node_id c = mb_node_id b"
    "mb_id c = mb_id b" "mb_fader c = mb_fader b" "targets c = targets b"
    "mset (map sl_processor (mb_inserts c)) = add_mset i (mset (map sl_processor (mb_inserts b)))"
    by (simp_all add: c_def targets_def mset_insert_at)
  have p: "pc_id p = i" "pc_node_id p = Id (mg_next_node g)" "pc_descriptor p = d" "pc_parameters p = []"
    by (simp_all add: p_def)
  have get: "bt_get (mg_buses ?g) j = (if j = bus then Some c else bt_get (mg_buses g) j)"
    "bt_get (mg_processors ?g) q = (if q = i then Some p else bt_get (mg_processors g) q)" for j q
    by simp_all
  obtain xs ys where m: "mg_buses g = xs @ (bus, b) # ys" "bt_insert bus c (xs @ (bus, b) # ys) = xs @ (bus, c) # ys"
    using bt_split[OF inv_bt_ok(1)[OF inv] b] by metis
  obtain us vs where m': "mg_processors g = us @ vs" "bt_insert i p (us @ vs) = us @ (i, p) # vs"
    using bt_split_fresh[OF inv_bt_ok(2)[OF inv] fresh] by metis
  have lists: "bus_list g = map snd xs @ b # map snd ys" "bus_list ?g = map snd xs @ c # map snd ys"
    "processor_list g = map snd us @ map snd vs" "processor_list ?g = map snd us @ p # map snd vs"
    by (simp_all add: bus_list_def processor_list_def bt_values_def m m')
  have nodes: "mset (node_ids ?g) = mset (Id (mg_next_node g) # node_ids g)" by (simp add: node_ids_def lists c p)
  have slots: "mset (inserted ?g) = mset (i # inserted g)" using c(8) by (simp add: inserted_def lists)
  have "send_ids ?g = send_ids g" "parameter_ids ?g = parameter_ids g"
    by (simp_all add: send_ids_def parameter_ids_def lists c p bt_keys_def)
  moreover have "bt_keys (mg_buses ?g) = bt_keys (mg_buses g)" by (simp add: bt_keys_def m)
  ultimately have same: "send_ids ?g = send_ids g" "parameter_ids ?g = parameter_ids g"
    "bt_keys (mg_buses ?g) = bt_keys (mg_buses g)" by blast+
  have links: "graph_links ?g = graph_links g"
  proof -
    have "(j, t) \<in> graph_links ?g \<longleftrightarrow> (j, t) \<in> graph_links g" for j t
      unfolding graph_links_targets get using b c(7) by (cases "j = bus") auto
    then show ?thesis by auto
  qed
  have outside: "i \<notin> set (inserted g)"
  proof
    assume "i \<in> set (inserted g)"
    then obtain e s where "e \<in> set (bus_list g)" "s \<in> set (mb_inserts e)" "sl_processor s = i" by (auto simp: inserted_set)
    moreover from this obtain j where "bt_get (mg_buses g) j = Some e"
      using inv_bt_ok(1)[OF inv] by (auto simp: bus_list_def bt_values_in)
    ultimately show False using inv_bus_ok[OF inv, of j e] fresh unfolding bus_ok_def by blast
  qed
  have "master_ok (g\<lparr>mg_buses := bt_insert bus c (mg_buses g)\<rparr>)"
    using ok c same(3) by (intro replace_master[OF _ b]) (simp_all add: mixer_ok_def)
  then have "master_ok ?g" by (simp add: master_ok_def)
  moreover have "bus_ok ?g j e" if "bt_get (mg_buses ?g) j = Some e" for j e
  proof -
    have old: "bus_ok ?g j e" if "bus_ok g j e" for j e
      by (rule bus_ok_mono[OF that]) (use b c(1) in \<open>auto simp: get\<close>)
    show ?thesis
    proof (cases "j = bus")
      case True
      then have e: "e = c" using that by (simp add: get)
      have "bus_ok ?g bus b" by (rule old[OF inv_bus_ok[OF inv b]])
      moreover have "unit_f32 f32_one"
        by (simp add: unit_f32_def f32_le_def f32_key_def f32_one_def f32_is_finite_def f32_is_nan_def f32_exp_def f32_frac_def f32_neg_def)
      ultimately show ?thesis
        unfolding True e bus_ok_def output_ok_def c(1-6) get by (simp add: c_def)
    next
      case False
      then show ?thesis using that inv_bus_ok[OF inv] old by (simp add: get)
    qed
  qed
  moreover have "processor_ok j q \<and> j \<in> set (inserted ?g)" if "bt_get (mg_processors ?g) j = Some q" for j q
  proof -
    have "set (inserted ?g) = insert i (set (inserted g))" using mset_eq_setD[OF slots] by simp
    then show ?thesis
      using that inv_processor_ok[OF inv] descriptor p by (cases "j = i") (auto simp: get processor_ok_def bt_values_def)
  qed
  moreover have "distinct (inserted ?g)" using ok outside mset_eq_imp_distinct_iff[OF slots] by (simp add: mixer_ok_def)
  moreover have "distinct (node_ids ?g)"
    using ok below_fresh[OF inv_below(2)[OF inv]] mset_eq_imp_distinct_iff[OF nodes] by (simp add: mixer_ok_def)
  ultimately have "mixer_ok ?g" using ok same(1,2) links unfolding mixer_ok_def by simp
  moreover have "cursors_ok ?g"
  proof -
    have "below (Suc (mg_next_node g)) (node_ids ?g)"
      using mset_eq_setD[OF nodes] by (intro below_insert[OF inv_below(2)[OF inv] room(2)]) simp
    moreover have "below (Suc (mg_next_processor g)) (bt_keys (mg_processors ?g))"
      by (intro below_insert[OF inv_below(4)[OF inv] room(1)]) (simp add: set_keys_insert i_def)
    ultimately show ?thesis using cursors same unfolding cursors_ok_def by simp
  qed
  moreover have "mixer_wf ?g" using wf p(4) by (simp add: mixer_wf_def)
  ultimately show ?thesis by (simp add: mixer_inv_def)
qed

lemma insert_processor_good:
  assumes inv: "mixer_inv g"
  shows "good (insert_processor bus index d n g)"
proof (cases "bt_get (mg_buses g) bus")
  case None
  then show ?thesis using inv by (simp add: insert_processor_def require_bus_def bt_contains_def)
next
  case (Some b)
  let ?k = "case index of None \<Rightarrow> length (mb_inserts b) | Some k \<Rightarrow> k"
  show ?thesis
  proof (cases "descriptor_ok d \<and> ?k \<le> length (mb_inserts b) \<and> mg_next_processor g \<noteq> u64_max")
    case False
    then show ?thesis
      using inv Some by (cases index) (auto simp: insert_processor_def require_bus_def bt_contains_def validate_descriptor_def
          descriptor_ok_def bus_at_def peek_id_def Let_def)
  next
    case True
    then have descriptor: "validate_descriptor d = Inr ()" "\<not> length (mb_inserts b) < ?k" by (simp_all add: validate_value_Inr)
    have room: "mg_next_processor g < u64_max" using True next_below(4)[OF inv] by simp
    have bumped: "mixer_inv (g\<lparr>mg_next_processor := Suc (mg_next_processor g)\<rparr>)"
      by (rule cursor_inv(4)[OF inv below_subset[OF inv_below(4)[OF inv]]]) (use room in simp_all)
    show ?thesis
    proof (cases "mg_next_node g = u64_max")
      case full: True
      then show ?thesis
        using Some descriptor bumped room
        by (simp add: insert_processor_def require_bus_def bt_contains_def bus_at_def peek_id_def Let_def)
    next
      case node: False
      then have "mg_next_node g < u64_max" using next_below(3)[OF inv] by simp
      from insert_processor_inv[OF inv Some _ room this, of d ?k n] True
      show ?thesis
        using Some descriptor node room
        by (simp add: insert_processor_def require_bus_def bt_contains_def bus_at_def peek_id_def on_bus_def Let_def)
    qed
  qed
qed

lemma remove_processor_inv:
  assumes inv: "mixer_inv g" and b: "bt_get (mg_buses g) bus = Some b"
    and k: "k < length (mb_inserts b)" "sl_processor (mb_inserts b ! k) = i"
  defines "c \<equiv> b\<lparr>mb_inserts := remove_at k (mb_inserts b)\<rparr>"
  shows "mixer_inv (g\<lparr>mg_buses := bt_insert bus c (mg_buses g), mg_processors := bt_remove i (mg_processors g)\<rparr>)" (is "mixer_inv ?g")
proof -
  have wf: "mixer_wf g" and ok: "mixer_ok g" and cursors: "cursors_ok g" using inv by (simp_all add: mixer_inv_def)
  have c: "mb_kind c = mb_kind b" "mb_output c = mb_output b" "mb_sends c = mb_sends b" "mb_node_id c = mb_node_id b"
    "mb_id c = mb_id b" "mb_fader c = mb_fader b" "targets c = targets b"
    "mset (map sl_processor (mb_inserts b)) = add_mset i (mset (map sl_processor (mb_inserts c)))"
    using mset_remove_at[OF k(1)] k(2) unfolding c_def targets_def
    by (simp_all, metis image_mset_add_mset)
  have slots_c: "set (mb_inserts c) \<subseteq> set (mb_inserts b)"
    by (auto simp: c_def remove_at_def dest: in_set_takeD in_set_dropD)
  have get: "bt_get (mg_buses ?g) j = (if j = bus then Some c else bt_get (mg_buses g) j)"
    "bt_get (mg_processors ?g) q = (if q = i then None else bt_get (mg_processors g) q)" for j q
    by simp_all
  obtain p where p: "bt_get (mg_processors g) i = Some p"
    using inv_bus_ok[OF inv b] k nth_mem[OF k(1)] unfolding bus_ok_def by blast
  obtain xs ys where m: "mg_buses g = xs @ (bus, b) # ys" "bt_insert bus c (xs @ (bus, b) # ys) = xs @ (bus, c) # ys"
    using bt_split[OF inv_bt_ok(1)[OF inv] b] by metis
  obtain us vs where m': "mg_processors g = us @ (i, p) # vs" "bt_remove i (us @ (i, p) # vs) = us @ vs"
    using bt_split[OF inv_bt_ok(2)[OF inv] p] by metis
  have lists: "bus_list g = map snd xs @ b # map snd ys" "bus_list ?g = map snd xs @ c # map snd ys"
    "processor_list g = map snd us @ p # map snd vs" "processor_list ?g = map snd us @ map snd vs"
    by (simp_all add: bus_list_def processor_list_def bt_values_def m m')
  have nodes: "mset (node_ids g) = mset (pc_node_id p # node_ids ?g)" by (simp add: node_ids_def lists c)
  have slots: "mset (inserted g) = mset (i # inserted ?g)" using c(8) by (simp add: inserted_def lists)
  have sends: "send_ids ?g = send_ids g" by (simp add: send_ids_def lists c)
  have parameters: "mset (parameter_ids ?g) \<subseteq># mset (parameter_ids g)" by (simp add: parameter_ids_def lists)
  have keys: "bt_keys (mg_buses ?g) = bt_keys (mg_buses g)" by (simp add: bt_keys_def m)
  have links: "graph_links ?g = graph_links g"
  proof -
    have "(j, t) \<in> graph_links ?g \<longleftrightarrow> (j, t) \<in> graph_links g" for j t
      unfolding graph_links_targets get using b c(7) by (cases "j = bus") auto
    then show ?thesis by auto
  qed
  have apart: "distinct (i # inserted ?g)" using ok mset_eq_imp_distinct_iff[OF slots] by (simp add: mixer_ok_def)
  have wf': "mixer_wf ?g" using wf by (simp add: mixer_wf_def)
  have "master_ok (g\<lparr>mg_buses := bt_insert bus c (mg_buses g)\<rparr>)"
    using ok c keys by (intro replace_master[OF _ b]) (simp_all add: mixer_ok_def)
  then have "master_ok ?g" by (simp add: master_ok_def)
  moreover have "bus_ok ?g j e" if e: "bt_get (mg_buses ?g) j = Some e" for j e
  proof -
    have "e \<in> set (bus_list ?g)"
      using e wf' bt_values_in[of "mg_buses ?g" e] unfolding bus_list_def mixer_wf_def by blast
    then have away: "sl_processor s \<noteq> i" if "s \<in> set (mb_inserts e)" for s
      using apart that by (auto simp: inserted_set)
    have old: "bus_ok g j e"
    proof (cases "j = bus")
      case True
      then have "e = c" using e by (simp add: get)
      have "bus_ok g bus b" by (rule inv_bus_ok[OF inv b])
      then show ?thesis
        using slots_c unfolding True \<open>e = c\<close> bus_ok_def output_ok_def c(1-6) by blast
    next
      case False
      then show ?thesis using e inv_bus_ok[OF inv] by (simp add: get)
    qed
    show ?thesis by (rule bus_ok_mono[OF old]) (use b c(1) away in \<open>auto simp: get\<close>)
  qed
  moreover have "processor_ok j q \<and> j \<in> set (inserted ?g)" if "bt_get (mg_processors ?g) j = Some q" for j q
    using that inv_processor_ok[OF inv, of j q] mset_eq_setD[OF slots] by (auto simp: get split: if_splits)
  moreover have "distinct (node_ids ?g)" using ok mset_eq_imp_distinct_iff[OF nodes] by (simp add: mixer_ok_def)
  moreover have "distinct (parameter_ids ?g)" using ok parameters distinct_submset unfolding mixer_ok_def by blast
  ultimately have "mixer_ok ?g" using ok sends links apart unfolding mixer_ok_def by simp
  moreover have "cursors_ok ?g"
  proof -
    have "set (node_ids ?g) \<subseteq> set (node_ids g)" using mset_eq_setD[OF nodes] by auto
    moreover have "set (parameter_ids ?g) \<subseteq> set (parameter_ids g)" using parameters by (metis set_mset_mono set_mset_mset)
    moreover have "set (bt_keys (mg_processors ?g)) \<subseteq> set (bt_keys (mg_processors g))"
      by (auto simp: bt_keys_in bt_get_outside split: if_splits)
    ultimately show ?thesis using cursors sends keys unfolding cursors_ok_def below_def by simp blast
  qed
  ultimately show ?thesis using wf' by (simp add: mixer_inv_def)
qed

lemma remove_processor_good:
  assumes inv: "mixer_inv g"
  shows "good (remove_processor i g)"
proof (cases "find_insert g i")
  case None
  then show ?thesis using inv by (simp add: remove_processor_def)
next
  case (Some x)
  obtain bus k where x: "x = (bus, k)" by (cases x)
  obtain b where b: "bt_get (mg_buses g) bus = Some b" "k < length (mb_inserts b)" "sl_processor (mb_inserts b ! k) = i"
    using find_insert_Some[OF inv] Some x by metis
  have "bt_get (mg_processors g) i \<noteq> None"
    using inv_bus_ok[OF inv b(1)] b(3) nth_mem[OF b(2)] unfolding bus_ok_def by blast
  then show ?thesis
    using remove_processor_inv[OF inv b] Some x b by (auto simp: remove_processor_def on_bus_def)
qed

end
