(* ===== verification/Mixer_Reachable.thy ===== *)
theory Mixer_Reachable
  imports Mixer_Ownership
begin

text \<open>
  The edits of the mixer graph as values, the graphs they reach from a new one, and what holds of
  every one of them. A failing edit leaves all but the identifier cursors as it was.
\<close>

section \<open>Restoring the cursors\<close>

definition bounded_allocator :: "mixer_allocator \<Rightarrow> bool" where
  "bounded_allocator al \<longleftrightarrow> is_u64 (al_next_bus al) \<and> is_u64 (al_next_node al) \<and> is_u64 (al_next_send al)
     \<and> is_u64 (al_next_processor al) \<and> is_u64 (al_next_parameter al)"

lemma fold_max_le: "x \<in> set xs \<or> x = a \<Longrightarrow> x \<le> fold max xs (a :: nat)"
proof (induction xs arbitrary: x a)
  case (Cons y ys)
  show ?case
  proof (cases "x \<in> set ys")
    case True
    then show ?thesis using Cons.IH[of x "max y a"] by simp
  next
    case False
    then have "x \<le> max y a" using Cons.prems by auto
    also have "\<dots> \<le> fold max ys (max y a)" using Cons.IH[of "max y a" "max y a"] by simp
    finally show ?thesis by simp
  qed
qed simp

lemma next_after_below:
  assumes "next_after (map raw ids) n = Inr k" "is_u64 n"
  shows "k = n \<and> below n ids"
proof -
  have "k = n" "fold max (map raw ids) 0 < n"
    using assms(1) by (auto simp: next_after_def split: if_splits)
  moreover from this have "raw i < n" if "i \<in> set ids" for i
    using fold_max_le[of "raw i" "map raw ids" 0] that by simp
  ultimately show ?thesis using assms(2) by (simp add: below_def is_u64_def)
qed

lemma next_after_no_panic [simp]: "next_after used n \<noteq> mx_panics"
  by (simp add: next_after_def)

lemma raw_lists:
  "map (\<lambda>b. raw (mb_node_id b)) (bt_values (mg_buses g)) @ map (\<lambda>p. raw (pc_node_id p)) (bt_values (mg_processors g))
     = map raw (node_ids g)"
  "concat (map (\<lambda>b. map (\<lambda>s. raw (sd_id s)) (mb_sends b)) (bt_values (mg_buses g))) = map raw (send_ids g)"
  "concat (map (\<lambda>p. map raw (bt_keys (pc_parameters p))) (bt_values (mg_processors g))) = map raw (parameter_ids g)"
  by (simp_all add: node_ids_def send_ids_def parameter_ids_def bus_list_def processor_list_def map_concat comp_def)

lemma attempt_next_good:
  assumes "mixer_inv g" "is_u64 n" "below n ids \<Longrightarrow> good (k n g)"
  shows "good (attempt (next_after (map raw ids) n) k g)"
  using assms by (intro attempt_good) (auto dest: next_after_below)

lemma restore_codec_state_good:
  assumes inv: "mixer_inv g" and al: "bounded_allocator al"
  shows "good (restore_codec_state al revision g)"
proof -
  have bounds: "is_u64 (al_next_bus al)" "is_u64 (al_next_node al)" "is_u64 (al_next_send al)"
    "is_u64 (al_next_processor al)" "is_u64 (al_next_parameter al)"
    using al by (simp_all add: bounded_allocator_def)
  have good: "good (Inr (), h)" if "mixer_inv h" for h :: mixer_graph using that by simp
  show ?thesis
    unfolding restore_codec_state_def raw_lists Let_def
    by (intro attempt_next_good bounds good cursor_inv inv; assumption)
qed

section \<open>Edits as values\<close>

datatype mixer_edit =
    AddBus bus_kind unicode_string
  | RemoveBus bus_id
  | RenameBus bus_id unicode_string
  | MoveBusBefore bus_id "bus_id option"
  | SetOutput bus_id bus_id
  | AddSend bus_id bus_id send_tap f32
  | RemoveSend send_id
  | SetSendTap send_id send_tap
  | SetSendLevel send_id f32
  | SetSendMuted send_id bool
  | SetGainDb bus_id f32
  | SetPan bus_id f32
  | SetMuted bus_id bool
  | SetSoloed bus_id bool
  | InsertProcessor bus_id "nat option" plugin_descriptor nat
  | RemoveProcessor processor_id
  | MoveProcessor bus_id processor_id nat
  | MoveProcessorBefore processor_id "processor_id option"
  | SetInsertBypassed processor_id bool
  | SetInsertWet processor_id f32
  | SetProcessorLatency processor_id nat
  | AddParameter processor_id string string f32
  | SetParameterValue processor_id mx_parameter_id f32
  | RemoveParameter processor_id mx_parameter_id
  | RestoreCodecState mixer_allocator nat

text \<open>The value an edit returns is dropped; its success or error stays.\<close>

definition drop_value :: "'a mx_result \<times> mixer_graph \<Rightarrow> unit mx_result \<times> mixer_graph" where
  "drop_value x = (case fst x of Inl e \<Rightarrow> Inl e | Inr _ \<Rightarrow> Inr (), snd x)"

fun perform_edit :: "mixer_edit \<Rightarrow> unit mx_step" where
  "perform_edit (AddBus kind n) g = drop_value (add_bus kind n g)"
| "perform_edit (RemoveBus i) g = drop_value (remove_bus i g)"
| "perform_edit (RenameBus i n) g = rename_bus i n g"
| "perform_edit (MoveBusBefore i a) g = move_bus_before i a g"
| "perform_edit (SetOutput i t) g = set_output i t g"
| "perform_edit (AddSend i t tap level) g = drop_value (add_send i t tap level g)"
| "perform_edit (RemoveSend s) g = drop_value (remove_send s g)"
| "perform_edit (SetSendTap s tap) g = set_send_tap s tap g"
| "perform_edit (SetSendLevel s level) g = set_send_level s level g"
| "perform_edit (SetSendMuted s m) g = set_send_muted s m g"
| "perform_edit (SetGainDb i v) g = set_gain_db i v g"
| "perform_edit (SetPan i v) g = set_pan i v g"
| "perform_edit (SetMuted i m) g = set_muted i m g"
| "perform_edit (SetSoloed i m) g = set_soloed i m g"
| "perform_edit (InsertProcessor i k d n) g = drop_value (insert_processor i k d n g)"
| "perform_edit (RemoveProcessor p) g = drop_value (remove_processor p g)"
| "perform_edit (MoveProcessor i p k) g = move_processor i p k g"
| "perform_edit (MoveProcessorBefore p a) g = move_processor_before p a g"
| "perform_edit (SetInsertBypassed p m) g = set_insert_bypassed p m g"
| "perform_edit (SetInsertWet p v) g = set_insert_wet p v g"
| "perform_edit (SetProcessorLatency p n) g = set_processor_latency p n g"
| "perform_edit (AddParameter p key n v) g = drop_value (add_parameter p key n v g)"
| "perform_edit (SetParameterValue p j v) g = set_parameter_value p j v g"
| "perform_edit (RemoveParameter p j) g = drop_value (remove_parameter p j g)"
| "perform_edit (RestoreCodecState al r) g = restore_codec_state al r g"

definition bounded_edit :: "mixer_edit \<Rightarrow> bool" where
  "bounded_edit e = (case e of RestoreCodecState al r \<Rightarrow> bounded_allocator al | _ \<Rightarrow> True)"

lemma good_drop_value: "good x \<Longrightarrow> good (drop_value x)"
  by (auto simp: drop_value_def good_def split: sum.splits)

lemma perform_edit_good:
  assumes "mixer_inv g" "bounded_edit e"
  shows "good (perform_edit e g)"
  using assms
  by (cases e)
    (simp_all add: bounded_edit_def good_drop_value add_bus_good remove_bus_good rename_bus_good move_bus_before_good
      set_output_good add_send_good remove_send_good set_send_tap_good set_send_level_good set_send_muted_good
      set_gain_db_good set_pan_good set_muted_good set_soloed_good insert_processor_good remove_processor_good
      move_processor_good move_processor_before_good set_insert_bypassed_good set_insert_wet_good
      set_processor_latency_good add_parameter_good set_parameter_value_good remove_parameter_good
      restore_codec_state_good)

section \<open>Reachable graphs\<close>

inductive mixer_reachable :: "mixer_graph \<Rightarrow> bool" where
  fresh_mixer: "mixer_reachable (mixer_new name)"
| after_edit: "mixer_reachable g \<Longrightarrow> bounded_edit e \<Longrightarrow> mixer_reachable (snd (perform_edit e g))"
| new_revision: "mixer_reachable g \<Longrightarrow> mixer_reachable (g\<lparr>mg_revision := n\<rparr>)"

lemma mixer_new_inv: "mixer_inv (mixer_new name)"
proof -
  have get: "bt_get (mg_buses (mixer_new name)) i = (if i = Id 1 then Some \<lparr>mb_id = Id 1, mb_node_id = Id 1, mb_name = name,
      mb_kind = MasterBus, mb_output = None, mb_inserts = [], mb_sends = [], mb_fader = fader_default\<rparr> else None)"
    "bt_get (mg_processors (mixer_new name)) p = None" for i p
    by (auto simp: mixer_new_def bt_get_def)
  have lists: "node_ids (mixer_new name) = [Id 1]" "send_ids (mixer_new name) = []" "inserted (mixer_new name) = []"
    "parameter_ids (mixer_new name) = []" "graph_links (mixer_new name) = {}"
    by (simp_all add: list_defs mixer_new_def graph_links_def bt_get_Cons)
  have wf: "mixer_wf (mixer_new name)" by (simp add: mixer_wf_def get) (simp add: mixer_new_def bt_ok_Cons)
  have "master_ok (mixer_new name)"
    unfolding master_ok_def get by (simp add: mixer_new_def bt_keys_def)
  moreover have "bus_ok (mixer_new name) i b" if "bt_get (mg_buses (mixer_new name)) i = Some b" for i b
    using that unfolding get
    by (auto simp: bus_ok_def output_ok_def fader_default_ok mixer_new_def split: if_splits)
  ultimately have "mixer_ok (mixer_new name)" unfolding mixer_ok_def lists by (simp add: get acyclic_def)
  moreover have "cursors_ok (mixer_new name)"
    unfolding cursors_ok_def lists by (simp add: mixer_new_def below_def bt_keys_def u64_max_def)
  ultimately show ?thesis using wf by (simp add: mixer_inv_def)
qed

lemma mixer_reachable_inv: "mixer_reachable g \<Longrightarrow> mixer_inv g"
proof (induction rule: mixer_reachable.induct)
  case (fresh_mixer name)
  then show ?case by (rule mixer_new_inv)
next
  case (after_edit g e)
  then show ?case using perform_edit_good by (simp add: good_def)
next
  case (new_revision g n)
  then show ?case by (simp add: cursor_inv(6))
qed

section \<open>Failing edits\<close>

text \<open>The graph without its identifier cursors.\<close>

definition content :: "mixer_graph \<Rightarrow> mixer_graph" where
  "content g = g\<lparr>mg_next_bus := 0, mg_next_node := 0, mg_next_send := 0, mg_next_processor := 0, mg_next_parameter := 0\<rparr>"

definition harmless :: "mixer_graph \<Rightarrow> 'a mx_result \<times> mixer_graph \<Rightarrow> bool" where
  "harmless g x \<longleftrightarrow> (\<forall>e. fst x = Inl e \<longrightarrow> content (snd x) = content g)"

lemma content_cursors [simp]:
  "content (g\<lparr>mg_next_bus := n\<rparr>) = content g" "content (g\<lparr>mg_next_node := n\<rparr>) = content g"
  "content (g\<lparr>mg_next_send := n\<rparr>) = content g" "content (g\<lparr>mg_next_processor := n\<rparr>) = content g"
  "content (g\<lparr>mg_next_parameter := n\<rparr>) = content g"
  by (simp_all add: content_def)

lemma harmless_pair [simp]: "harmless g (Inr a, h)" "content h = content g \<Longrightarrow> harmless g (r, h)"
  by (simp_all add: harmless_def)

lemma harmless_attempt:
  "content h = content g \<Longrightarrow> (\<And>a. r = Inr a \<Longrightarrow> harmless g (k a h)) \<Longrightarrow> harmless g (attempt r k h)"
  by (cases r) (simp_all add: harmless_def)

lemma harmless_on_bus [simp]: "harmless g (on_bus i f g)" "harmless g (on_processor p u g)"
  by (simp_all add: on_bus_def on_processor_def split: option.split)

lemma harmless_drop_value [simp]: "harmless g (drop_value x) \<longleftrightarrow> harmless g x"
  by (auto simp: drop_value_def harmless_def split: sum.splits)

lemma harmless_on_send [simp]: "harmless g (on_send s f g)" "harmless g (on_insert p u g)"
  by (auto simp: on_send_def on_insert_def split: option.split)

lemma add_bus_harmless:
  assumes "mixer_inv g"
  shows "harmless g (add_bus kind n g)"
proof -
  obtain k where "find_position (\<lambda>j. j = mg_master g) (mg_order g) = Some k" using master_found[OF assms] by blast
  then show ?thesis unfolding add_bus_def Let_def by (auto intro!: harmless_attempt)
qed

lemma move_bus_before_harmless: "mixer_inv g \<Longrightarrow> harmless g (move_bus_before i a g)"
  using may_not_move(1)[of i a g] may_move_moves[of g i a]
  by (cases "may_move i a g") (auto simp: harmless_def)

lemma routing_harmless:
  "mixer_inv g \<Longrightarrow> harmless g (set_output i t g)" "mixer_inv g \<Longrightarrow> harmless g (add_send i t tap level g)"
  using set_output_outcome add_send_outcome by (auto simp: harmless_def)

lemma remove_processor_harmless:
  assumes "mixer_inv g"
  shows "harmless g (remove_processor p g)"
proof -
  have "fst (remove_processor p g) \<noteq> mx_panics" using remove_processor_good[OF assms] by (simp add: good_def)
  then show ?thesis by (auto simp: remove_processor_def Let_def split: option.splits if_splits)
qed

lemma move_processor_harmless: "harmless g (move_processor i p k g)"
  unfolding move_processor_def Let_def by (auto intro!: harmless_attempt split: option.split)

lemma move_processor_before_harmless: "harmless g (move_processor_before p a g)"
  unfolding move_processor_before_def
  by (auto intro!: harmless_attempt move_processor_harmless split: option.split)

lemma plain_harmless:
  "harmless g (remove_bus i g)" "harmless g (rename_bus i n g)" "harmless g (remove_send s g)"
  "harmless g (set_send_tap s tap g)" "harmless g (set_send_level s v g)" "harmless g (set_send_muted s m g)"
  "harmless g (set_gain_db i v g)" "harmless g (set_pan i v g)" "harmless g (set_muted i m g)"
  "harmless g (set_soloed i m g)" "harmless g (insert_processor i k d l g)" "harmless g (set_insert_bypassed p m g)"
  "harmless g (set_insert_wet p v g)" "harmless g (set_processor_latency p l g)"
  "harmless g (add_parameter p key label v g)" "harmless g (set_parameter_value p j v g)" "harmless g (remove_parameter p j g)"
  by (auto simp: remove_bus_def rename_bus_def remove_send_def set_send_tap_def set_send_level_def set_send_muted_def
      set_gain_db_def set_pan_def set_muted_def set_soloed_def insert_processor_def set_insert_bypassed_def
      set_insert_wet_def set_processor_latency_def add_parameter_def set_parameter_value_def remove_parameter_def Let_def
      intro!: harmless_attempt split: option.split)

lemma restore_harmless: "harmless g (restore_codec_state al r g)"
  unfolding restore_codec_state_def Let_def by (auto intro!: harmless_attempt)

lemma perform_edit_harmless:
  assumes "mixer_inv g"
  shows "harmless g (perform_edit e g)"
  using assms
  by (cases e) (simp_all add: add_bus_harmless move_bus_before_harmless routing_harmless remove_processor_harmless
      move_processor_harmless move_processor_before_harmless plain_harmless restore_harmless)

end
