(* ===== verification/Mixer_Latency.thy ===== *)
theory Mixer_Latency
  imports Mixer_Reachable
begin

text \<open>
  The latency plan of \<open>src/mixer.rs\<close>: on a graph with the invariant the loop over the ready buses
  takes every bus exactly once, after everything that feeds it, so the plan is total and every
  route into a bus arrives aligned. A second part is about mute and solo.
\<close>

section \<open>Counting routes\<close>

definition cnt :: "route_edge list \<Rightarrow> bus_id \<Rightarrow> nat" where
  "cnt rs j = length (filter (\<lambda>r. rt_to r = j) rs)"

definition waiting :: "route_edge list \<Rightarrow> bus_id set \<Rightarrow> bus_id \<Rightarrow> nat" where
  "waiting rs done j = length (filter (\<lambda>r. rt_to r = j \<and> rt_from r \<notin> done) rs)"

lemma cnt_simps [simp]: "cnt [] j = 0" "cnt (r # rs) j = (if rt_to r = j then Suc (cnt rs j) else cnt rs j)"
  by (simp_all add: cnt_def)

lemma waiting_nothing_done: "waiting rs {} j = cnt rs j"
  by (simp add: waiting_def cnt_def)

lemma waiting_done:
  assumes "i \<notin> done"
  shows "waiting rs done j = waiting rs (insert i done) j + cnt (filter (\<lambda>r. rt_from r = i) rs) j"
  unfolding waiting_def using assms by (induction rs) auto

lemma waiting_0: "waiting rs done j = 0 \<longleftrightarrow> (\<forall>r \<in> set rs. rt_to r = j \<longrightarrow> rt_from r \<in> done)"
  by (auto simp: waiting_def filter_empty_conv)

lemma count_routes:
  assumes "\<forall>r \<in> set rs. bt_get degrees (rt_to r) \<noteq> None" "bt_ok degrees"
  shows "\<exists>degrees'. fold_r count_route rs degrees = Inr degrees' \<and> bt_ok degrees'
    \<and> (\<forall>j. bt_get degrees' j = map_option (\<lambda>n. n + cnt rs j) (bt_get degrees j))"
  using assms
proof (induction rs arbitrary: degrees)
  case Nil
  then show ?case by (simp add: option.map_ident)
next
  case (Cons r rs)
  then obtain n where n: "bt_get degrees (rt_to r) = Some n" by auto
  let ?d = "bt_insert (rt_to r) (n + 1) degrees"
  have "\<forall>q \<in> set rs. bt_get ?d (rt_to q) \<noteq> None" "bt_ok ?d" using Cons.prems by simp_all
  from Cons.IH[OF this] obtain d' where d': "fold_r count_route rs ?d = Inr d'" "bt_ok d'"
    "\<forall>j. bt_get d' j = map_option (\<lambda>n. n + cnt rs j) (bt_get ?d j)"
    by blast
  have "count_route r degrees = Inr ?d" by (simp add: count_route_def n)
  then have "fold_r count_route (r # rs) degrees = Inr d'" using d'(1) by simp
  moreover have "bt_get d' j = map_option (\<lambda>n. n + cnt (r # rs) j) (bt_get degrees j)" for j
    using d'(3) n by simp
  ultimately show ?case using d'(2) by blast
qed

lemma release_routes:
  assumes "\<forall>r \<in> set xs. bt_get degrees (rt_to r) \<noteq> None" "\<forall>j n. bt_get degrees j = Some n \<longrightarrow> cnt xs j \<le> n"
    and "bt_ok degrees" "sorted_wrt (<) ready"
  shows "\<exists>degrees' ready'. fold_r release_route xs (degrees, ready) = Inr (degrees', ready') \<and> bt_ok degrees'
    \<and> (\<forall>j. bt_get degrees' j = map_option (\<lambda>n. n - cnt xs j) (bt_get degrees j)) \<and> sorted_wrt (<) ready'
    \<and> set ready' = set ready \<union> {j. 0 < cnt xs j \<and> bt_get degrees j = Some (cnt xs j)}"
  using assms
proof (induction xs arbitrary: degrees ready)
  case Nil
  then show ?case by (simp add: option.map_ident)
next
  case (Cons r xs)
  let ?t = "rt_to r"
  obtain n where n: "bt_get degrees ?t = Some n" using Cons.prems(1) by auto
  have pos: "Suc (cnt xs ?t) \<le> n" using Cons.prems(2) n by force
  let ?d = "bt_insert ?t (n - 1) degrees" and ?q = "if n - 1 = 0 then bs_insert ?t ready else ready"
  have "\<forall>q \<in> set xs. bt_get ?d (rt_to q) \<noteq> None" using Cons.prems(1) by simp
  moreover have "\<forall>j m. bt_get ?d j = Some m \<longrightarrow> cnt xs j \<le> m" using Cons.prems(2) pos by (auto split: if_splits)
  moreover have "bt_ok ?d" "sorted_wrt (<) ?q" using Cons.prems(3,4) by simp_all
  ultimately obtain d' q' where IH: "fold_r release_route xs (?d, ?q) = Inr (d', q')" "bt_ok d'"
    "\<forall>j. bt_get d' j = map_option (\<lambda>n. n - cnt xs j) (bt_get ?d j)" "sorted_wrt (<) q'"
    "set q' = set ?q \<union> {j. 0 < cnt xs j \<and> bt_get ?d j = Some (cnt xs j)}"
    using Cons.IH[of ?d ?q] by blast
  have "fold_r release_route (r # xs) (degrees, ready) = Inr (d', q')"
    using n pos IH(1) by (simp add: release_route_def)
  moreover have "bt_get d' j = map_option (\<lambda>n. n - cnt (r # xs) j) (bt_get degrees j)" for j
    using IH(3) n by simp
  moreover have "set q' = set ready \<union> {j. 0 < cnt (r # xs) j \<and> bt_get degrees j = Some (cnt (r # xs) j)}"
    unfolding IH(5) using n pos by auto
  ultimately show ?case using IH(2,4) by blast
qed

section \<open>One round\<close>

definition source_output :: "(bus_id, bus_latency) btree \<Rightarrow> bus_id \<Rightarrow> nat" where
  "source_output buses i = bl_output (the (bt_get buses i))"

definition settled :: "mixer_graph \<Rightarrow> route_edge list \<Rightarrow> (bus_id, bus_latency) btree \<Rightarrow> bus_id \<Rightarrow> bus_latency \<Rightarrow> bool" where
  "settled g rs buses i l \<longleftrightarrow> bus_insert_latency g i = Inr (bl_insert l)
     \<and> bl_output l = sat_add_u64 (bl_input l) (bl_insert l)
     \<and> bl_input l = fold max (map (\<lambda>r. source_output buses (rt_from r)) (filter (\<lambda>r. rt_to r = i) rs)) 0"

definition leg_of :: "(bus_id, bus_latency) btree \<Rightarrow> route_edge \<Rightarrow> route_latency" where
  "leg_of buses r = \<lparr>rl_arrival = source_output buses (rt_from r),
     rl_compensation = bl_input (the (bt_get buses (rt_to r))) - source_output buses (rt_from r)\<rparr>"

definition done_buses :: "(bus_id, bus_latency) btree \<Rightarrow> bus_id set" where
  "done_buses buses = {i. bt_get buses i \<noteq> None}"

definition plan_inv :: "mixer_graph \<Rightarrow> route_edge list \<Rightarrow> (bus_id, nat) btree \<Rightarrow> bus_id list
    \<Rightarrow> (bus_id, bus_latency) btree \<Rightarrow> (route_edge, route_latency) btree \<Rightarrow> bool" where
  "plan_inv g rs degrees ready buses legs \<longleftrightarrow> bt_ok degrees \<and> bt_ok buses \<and> bt_ok legs \<and> sorted_wrt (<) ready
     \<and> done_buses buses \<subseteq> set (bt_keys (mg_buses g))
     \<and> (\<forall>j. bt_get degrees j = (if j \<in> set (bt_keys (mg_buses g)) then Some (waiting rs (done_buses buses) j) else None))
     \<and> set ready = {j \<in> set (bt_keys (mg_buses g)). j \<notin> done_buses buses \<and> waiting rs (done_buses buses) j = 0}
     \<and> (\<forall>j \<in> done_buses buses. waiting rs (done_buses buses) j = 0)
     \<and> (\<forall>j l. bt_get buses j = Some l \<longrightarrow> settled g rs buses j l)
     \<and> (\<forall>r. bt_get legs r = (if r \<in> set rs \<and> rt_to r \<in> done_buses buses then Some (leg_of buses r) else None))"

lemma collect_arrivals:
  assumes "\<forall>r \<in> set xs. rt_from r \<in> done_buses buses"
  shows "collect_r (arrival buses) xs = Inr (map (\<lambda>r. (r, source_output buses (rt_from r))) xs)"
  using assms
  by (induction xs) (auto simp: arrival_def source_output_def done_buses_def)

lemma fold_insert_get:
  "bt_get (fold (\<lambda>(r, a). bt_insert r (f r a)) (map (\<lambda>r. (r, h r)) xs) m) q
     = (if q \<in> set xs then Some (f q (h q)) else bt_get m q)"
  by (induction xs arbitrary: m) auto

lemma fold_insert_ok: "bt_ok m \<Longrightarrow> bt_ok (fold (\<lambda>(r, a). bt_insert r (f r a)) xs m)"
  by (induction xs arbitrary: m) auto

lemma bus_insert_latency_total:
  assumes inv: "mixer_inv g" and i: "i \<in> set (bt_keys (mg_buses g))"
  shows "\<exists>n. bus_insert_latency g i = Inr n"
proof -
  obtain b where b: "bt_get (mg_buses g) i = Some b" using i by (auto simp: bt_keys_in)
  have "\<exists>n. insert_latencies g ss acc = Inr n" if "\<forall>s \<in> set ss. bt_get (mg_processors g) (sl_processor s) \<noteq> None" for ss acc
    using that by (induction g ss acc rule: insert_latencies.induct) (auto split: if_splits)
  then show ?thesis using inv_bus_ok[OF inv b] b by (simp add: bus_insert_latency_def bus_ok_def)
qed

lemma latency_settled_cong:
  assumes "settled g rs buses j l" "\<forall>r \<in> set rs. rt_to r = j \<longrightarrow> source_output buses' (rt_from r) = source_output buses (rt_from r)"
  shows "settled g rs buses' j l"
proof -
  have eq: "map (\<lambda>r. source_output buses' (rt_from r)) (filter (\<lambda>r. rt_to r = j) rs)
      = map (\<lambda>r. source_output buses (rt_from r)) (filter (\<lambda>r. rt_to r = j) rs)"
    using assms(2) by simp
  show ?thesis using assms(1) unfolding settled_def eq .
qed

lemma latency_round:
  assumes inv: "mixer_inv g" and plan: "plan_inv g rs degrees (i # ready) buses legs"
    and inside: "rt_to ` set rs \<subseteq> set (bt_keys (mg_buses g))"
  obtains degrees' ready' buses' legs' where
    "\<And>fuel. latency_loop (Suc fuel) g rs degrees (i # ready) buses legs = latency_loop fuel g rs degrees' ready' buses' legs'"
    "plan_inv g rs degrees' ready' buses' legs'" "done_buses buses' = insert i (done_buses buses)"
    "i \<in> set (bt_keys (mg_buses g)) - done_buses buses"
proof -
  let ?N = "set (bt_keys (mg_buses g))" and ?D = "done_buses buses"
  have ok: "bt_ok degrees" "bt_ok buses" "bt_ok legs" "sorted_wrt (<) (i # ready)" and sub: "?D \<subseteq> ?N"
    and deg: "\<And>j. bt_get degrees j = (if j \<in> ?N then Some (waiting rs ?D j) else None)"
    and ready: "set (i # ready) = {j \<in> ?N. j \<notin> ?D \<and> waiting rs ?D j = 0}"
    and fed: "\<And>j. j \<in> ?D \<Longrightarrow> waiting rs ?D j = 0"
    and settled: "\<And>j l. bt_get buses j = Some l \<Longrightarrow> settled g rs buses j l"
    and legs: "\<And>r. bt_get legs r = (if r \<in> set rs \<and> rt_to r \<in> ?D then Some (leg_of buses r) else None)"
    using plan unfolding plan_inv_def by blast+
  have i: "i \<in> ?N" "i \<notin> ?D" "waiting rs ?D i = 0" using ready by auto
  have from_i: "\<And>r. r \<in> set rs \<Longrightarrow> rt_to r = i \<Longrightarrow> rt_from r \<in> ?D" using i(3) by (simp add: waiting_0)
  let ?in = "filter (\<lambda>r. rt_to r = i) rs"
  let ?arrivals = "map (\<lambda>r. (r, source_output buses (rt_from r))) ?in"
  have arrivals: "collect_r (arrival buses) ?in = Inr ?arrivals" by (rule collect_arrivals) (use from_i in auto)
  define input where "input = fold max (map snd ?arrivals) 0"
  obtain n where n: "bus_insert_latency g i = Inr n" using bus_insert_latency_total[OF inv i(1)] by blast
  define l where "l = \<lparr>bl_input = input, bl_insert = n, bl_output = sat_add_u64 input n\<rparr>"
  define buses' where "buses' = bt_insert i l buses"
  define legs' where "legs' = fold (\<lambda>(r, a). bt_insert r \<lparr>rl_arrival = a, rl_compensation = input - a\<rparr>) ?arrivals legs"
  let ?out = "filter (\<lambda>r. rt_from r = i) rs"
  have done': "done_buses buses' = insert i ?D" by (auto simp: done_buses_def buses'_def)
  have "\<forall>r \<in> set ?out. bt_get degrees (rt_to r) \<noteq> None" using inside by (auto simp: deg)
  moreover have "\<forall>j m. bt_get degrees j = Some m \<longrightarrow> cnt ?out j \<le> m"
    using waiting_done[OF i(2), of rs] by (auto simp: deg split: if_splits)
  moreover have "sorted_wrt (<) ready" using ok(4) by simp
  ultimately obtain degrees' ready' where r: "fold_r release_route ?out (degrees, ready) = Inr (degrees', ready')" "bt_ok degrees'"
    "\<forall>j. bt_get degrees' j = map_option (\<lambda>n. n - cnt ?out j) (bt_get degrees j)" "sorted_wrt (<) ready'"
    "set ready' = set ready \<union> {j. 0 < cnt ?out j \<and> bt_get degrees j = Some (cnt ?out j)}"
    using release_routes[OF _ _ ok(1)] by blast
  have step: "latency_loop (Suc fuel) g rs degrees (i # ready) buses legs = latency_loop fuel g rs degrees' ready' buses' legs'" for fuel
    using arrivals n r(1) by (simp add: Let_def input_def buses'_def legs'_def l_def)
  have same: "source_output buses' j = source_output buses j" if "j \<in> ?D" for j
    using that i(2) by (auto simp: source_output_def buses'_def)
  have wait': "waiting rs (insert i ?D) j = waiting rs ?D j - cnt ?out j" for j using waiting_done[OF i(2), of rs j] by simp
  have deg': "bt_get degrees' j = (if j \<in> ?N then Some (waiting rs (insert i ?D) j) else None)" for j
    using r(3) by (simp add: deg wait')
  have input: "bl_input l = fold max (map (\<lambda>r. source_output buses (rt_from r)) ?in) 0"
    by (simp add: l_def input_def comp_def)
  have settled': "settled g rs buses' j k" if "bt_get buses' j = Some k" for j k
  proof (cases "j = i")
    case True
    then have "k = l" using that by (simp add: buses'_def)
    have "settled g rs buses i l" using n input by (simp add: settled_def l_def)
    then show ?thesis unfolding True \<open>k = l\<close> by (rule latency_settled_cong) (use same from_i in blast)
  next
    case False
    then have old: "bt_get buses j = Some k" using that by (simp add: buses'_def)
    then have "j \<in> ?D" by (simp add: done_buses_def)
    show ?thesis by (rule latency_settled_cong[OF settled[OF old]]) (use fed[OF \<open>j \<in> ?D\<close>] same in \<open>auto simp: waiting_0\<close>)
  qed
  have legs_ok: "bt_get legs' q = (if q \<in> set rs \<and> rt_to q \<in> insert i ?D then Some (leg_of buses' q) else None)" for q
  proof -
    have "leg_of buses' q = \<lparr>rl_arrival = source_output buses (rt_from q), rl_compensation = input - source_output buses (rt_from q)\<rparr>"
      if "q \<in> set rs" "rt_to q = i" using same from_i[OF that] that by (simp add: leg_of_def buses'_def l_def)
    moreover have "leg_of buses' q = leg_of buses q" if "q \<in> set rs" "rt_to q \<in> ?D"
    proof -
      have "rt_from q \<in> ?D" using fed[OF that(2)] that(1) by (auto simp: waiting_0)
      then show ?thesis using same that i(2) by (auto simp: leg_of_def buses'_def)
    qed
    ultimately show ?thesis unfolding legs'_def fold_insert_get legs using i(2) by auto
  qed
  have "set ready' = {j \<in> ?N. j \<notin> insert i ?D \<and> waiting rs (insert i ?D) j = 0}"
  proof -
    have dist: "i \<notin> set ready" using ok(4) by auto
    have old: "j \<in> set ready \<longleftrightarrow> j \<noteq> i \<and> j \<in> ?N \<and> j \<notin> ?D \<and> waiting rs ?D j = 0" for j
      using ready dist by auto
    have "j \<in> set ready' \<longleftrightarrow> j \<in> ?N \<and> j \<notin> insert i ?D \<and> waiting rs (insert i ?D) j = 0" for j
    proof -
      have w: "waiting rs ?D j = waiting rs (insert i ?D) j + cnt ?out j" by (rule waiting_done[OF i(2)])
      have "0 < cnt ?out j \<Longrightarrow> waiting rs ?D j = cnt ?out j \<Longrightarrow> j \<noteq> i \<and> j \<notin> ?D"
        using i(3) fed[of j] by (cases "j \<in> ?D") auto
      moreover have "bt_get degrees j = Some (cnt ?out j) \<longleftrightarrow> j \<in> ?N \<and> waiting rs ?D j = cnt ?out j"
        by (simp add: deg)
      ultimately show ?thesis
        unfolding r(5) Un_iff mem_Collect_eq old insert_iff using w by (cases "cnt ?out j = 0") (simp_all, blast+)
    qed
    then show ?thesis by blast
  qed
  moreover have "waiting rs (insert i ?D) j = 0" if "j \<in> insert i ?D" for j
    using that fed[of j] i(3) wait'[of j] by auto
  ultimately have "plan_inv g rs degrees' ready' buses' legs'"
    unfolding plan_inv_def done'
    using r(2,4) ok(2,3) sub i(1) deg' settled' legs_ok by (auto simp: buses'_def legs'_def fold_insert_ok)
  with step done' i show ?thesis using that by blast
qed

section \<open>The loop\<close>

lemma latency_loop_total:
  assumes inv: "mixer_inv g" and inside: "rt_to ` set rs \<subseteq> set (bt_keys (mg_buses g))"
  shows "plan_inv g rs degrees ready buses legs \<Longrightarrow> card (set (bt_keys (mg_buses g)) - done_buses buses) \<le> fuel
    \<Longrightarrow> \<exists>degrees' buses' legs'. latency_loop fuel g rs degrees ready buses legs = Some (Inr (buses', legs'))
        \<and> plan_inv g rs degrees' [] buses' legs'"
proof (induction fuel arbitrary: degrees ready buses legs)
  case 0
  have "ready = []"
  proof (rule ccontr)
    assume "ready \<noteq> []"
    then obtain i where "i \<in> set ready" by (cases ready) auto
    then have "i \<in> set (bt_keys (mg_buses g)) - done_buses buses" using "0.prems"(1) by (auto simp: plan_inv_def)
    then show False using "0.prems"(2) by auto
  qed
  then show ?case using "0.prems"(1) by auto
next
  case (Suc fuel)
  show ?case
  proof (cases ready)
    case Nil
    then show ?thesis using Suc.prems(1) by auto
  next
    case (Cons i rest)
    obtain degrees' ready' buses' legs' where
      step: "latency_loop (Suc fuel) g rs degrees (i # rest) buses legs = latency_loop fuel g rs degrees' ready' buses' legs'"
      and plan: "plan_inv g rs degrees' ready' buses' legs'" and new: "done_buses buses' = insert i (done_buses buses)"
      and i: "i \<in> set (bt_keys (mg_buses g)) - done_buses buses"
      using latency_round[OF inv Suc.prems(1)[unfolded Cons] inside] by metis
    have "set (bt_keys (mg_buses g)) - done_buses buses' = (set (bt_keys (mg_buses g)) - done_buses buses) - {i}"
      unfolding new by blast
    then have "card (set (bt_keys (mg_buses g)) - done_buses buses') \<le> fuel" using i Suc.prems(2) by simp
    from Suc.IH[OF plan this] show ?thesis unfolding Cons step .
  qed
qed

text \<open>Without a cycle, some bus that is not done yet has only done sources; it would still be ready.\<close>

lemma all_done:
  assumes plan: "plan_inv g rs degrees [] buses legs" and acyclic: "acyclic (links rs)"
    and inside: "rt_from ` set rs \<subseteq> set (bt_keys (mg_buses g))"
  shows "done_buses buses = set (bt_keys (mg_buses g))"
proof (rule ccontr)
  let ?N = "set (bt_keys (mg_buses g))" and ?D = "done_buses buses"
  assume "?D \<noteq> ?N"
  then obtain x where "x \<in> ?N - ?D" using plan by (auto simp: plan_inv_def)
  moreover have "finite (links rs)" by (simp add: links_image)
  then have "wf (links rs)" using acyclic by (rule finite_acyclic_wf)
  ultimately obtain z where z: "z \<in> ?N - ?D" "\<And>y. (y, z) \<in> links rs \<Longrightarrow> y \<notin> ?N - ?D"
    using wfE_min[of "links rs" x "?N - ?D"] by blast
  have "waiting rs ?D z = 0"
    unfolding waiting_0 using z(2) inside linksI by (metis Diff_iff image_subset_iff)
  moreover have "{j \<in> ?N. j \<notin> ?D \<and> waiting rs ?D j = 0} = {}" using plan by (simp add: plan_inv_def)
  ultimately show False using z(1) by blast
qed

section \<open>The plan\<close>

lemma inv_routes:
  assumes inv: "mixer_inv g"
  shows "links (routes g) = graph_links g" "rt_from ` set (routes g) \<subseteq> set (bt_keys (mg_buses g))"
    "rt_to ` set (routes g) \<subseteq> set (bt_keys (mg_buses g))" "acyclic (links (routes g))"
proof -
  have "\<forall>i b. bt_get (mg_buses g) i = Some b \<longrightarrow> mb_id b = i" using inv_bus_ok[OF inv] by (simp add: bus_ok_def)
  from links_routes[OF inv_bt_ok(1)[OF inv] this]
  show links: "links (routes g) = graph_links g" and "rt_from ` set (routes g) \<subseteq> set (bt_keys (mg_buses g))" by blast+
  show "acyclic (links (routes g))" using inv links by (simp add: mixer_inv_def mixer_ok_def)
  show "rt_to ` set (routes g) \<subseteq> set (bt_keys (mg_buses g))"
  proof
    fix t assume "t \<in> rt_to ` set (routes g)"
    then obtain r where "r \<in> set (routes g)" "t = rt_to r" by blast
    then have "(rt_from r, t) \<in> graph_links g" using linksI[of r "routes g"] links by simp
    then show "t \<in> set (bt_keys (mg_buses g))" using targets_exist[OF inv] by (auto simp: graph_links_targets bt_keys_in)
  qed
qed

lemma initial_plan:
  assumes inv: "mixer_inv g"
  obtains degrees where
    "fold_r count_route (routes g) (map (\<lambda>i. (i, 0)) (bt_keys (mg_buses g))) = Inr degrees"
    "plan_inv g (routes g) degrees (map fst (filter (\<lambda>(i, n). n = 0) degrees)) [] []"
proof -
  let ?N = "set (bt_keys (mg_buses g))" and ?z = "map (\<lambda>i. (i, 0 :: nat)) (bt_keys (mg_buses g))"
  have z: "bt_ok ?z" using inv_bt_ok(1)[OF inv] by (simp add: bt_ok_def bt_keys_def comp_def)
  have get: "bt_get ?z j = (if j \<in> ?N then Some 0 else None)" for j
    unfolding bt_get_def by (induction "bt_keys (mg_buses g)") (auto simp: map_of_eq_None_iff map_of_map_restrict restrict_map_def)
  have "\<forall>r \<in> set (routes g). bt_get ?z (rt_to r) \<noteq> None" using inv_routes(3)[OF inv] by (auto simp: get)
  from count_routes[OF this z] obtain degrees where d: "fold_r count_route (routes g) ?z = Inr degrees" "bt_ok degrees"
    "\<And>j. bt_get degrees j = map_option (\<lambda>n. n + cnt (routes g) j) (bt_get ?z j)"
    by blast
  let ?ready = "map fst (filter (\<lambda>(i, n). n = 0) degrees)"
  have deg: "bt_get degrees j = (if j \<in> ?N then Some (waiting (routes g) {} j) else None)" for j
    by (simp add: d(3) get waiting_nothing_done)
  have "sorted_wrt (<) ?ready" using bt_ok_filter[OF d(2)] unfolding bt_ok_def .
  moreover have "set ?ready = {j \<in> ?N. waiting (routes g) {} j = 0}"
  proof -
    have "j \<in> set ?ready \<longleftrightarrow> bt_get degrees j = Some 0" for j by (force simp: bt_get_iff[OF d(2)])
    moreover have "bt_get degrees j = Some 0 \<longleftrightarrow> j \<in> ?N \<and> waiting (routes g) {} j = 0" for j by (simp add: deg)
    ultimately show ?thesis by blast
  qed
  ultimately have "plan_inv g (routes g) degrees ?ready [] []"
    using d(2) deg by (simp add: plan_inv_def done_buses_def)
  with d(1) show ?thesis using that by blast
qed

lemma latency_plan_total:
  assumes inv: "mixer_inv g"
  shows "\<exists>degrees buses legs. plan_inv g (routes g) degrees [] buses legs
    \<and> done_buses buses = set (bt_keys (mg_buses g))
    \<and> latency_plan_of g = Inr \<lparr>lp_buses = buses, lp_routes = legs, lp_master_output = source_output buses (mg_master g)\<rparr>"
proof -
  obtain degrees where d: "fold_r count_route (routes g) (map (\<lambda>i. (i, 0)) (bt_keys (mg_buses g))) = Inr degrees"
    "plan_inv g (routes g) degrees (map fst (filter (\<lambda>(i, n). n = 0) degrees)) [] []"
    using initial_plan[OF inv] by blast
  have "card (set (bt_keys (mg_buses g)) - done_buses []) \<le> length (mg_buses g)"
  proof -
    have "card (set (bt_keys (mg_buses g))) \<le> length (bt_keys (mg_buses g))" by (rule card_length)
    then show ?thesis by (simp add: done_buses_def bt_keys_def)
  qed
  from latency_loop_total[OF inv inv_routes(3)[OF inv] d(2) this] obtain degrees' buses legs where
    loop: "latency_loop (length (mg_buses g)) g (routes g) degrees (map fst (filter (\<lambda>(i, n). n = 0) degrees)) [] []
      = Some (Inr (buses, legs))" and plan: "plan_inv g (routes g) degrees' [] buses legs"
    by blast
  have all: "done_buses buses = set (bt_keys (mg_buses g))" by (rule all_done[OF plan inv_routes(4,2)[OF inv]])
  have "mg_master g \<in> set (bt_keys (mg_buses g))" using inv by (auto simp: mixer_inv_def mixer_ok_def master_ok_def bt_keys_in)
  then obtain l where l: "bt_get buses (mg_master g) = Some l" using all by (auto simp: done_buses_def)
  have valid: "mixer_validate g = Inr ()" using inv by (simp add: mixer_inv_def mixer_validate_iff)
  have "latency_plan_of g = Inr \<lparr>lp_buses = buses, lp_routes = legs, lp_master_output = source_output buses (mg_master g)\<rparr>"
    using valid d(1) loop l by (simp add: latency_plan_of_def Let_def source_output_def)
  with plan all show ?thesis by blast
qed

lemma fold_max_bounds:
  "x \<in> set xs \<Longrightarrow> x \<le> fold max xs (0 :: nat)" "fold max xs 0 = 0 \<or> fold max xs (0 :: nat) \<in> set xs"
proof -
  show "x \<in> set xs \<Longrightarrow> x \<le> fold max xs 0" by (rule fold_max_le) simp
  have "fold max xs a = a \<or> fold max xs a \<in> set xs" for a :: nat
  proof (induction xs arbitrary: a)
    case (Cons x xs)
    show ?case using Cons.IH[of "max x a"] by (cases "x \<le> a") (auto simp: max_def)
  qed simp
  then show "fold max xs 0 = 0 \<or> fold max xs (0 :: nat) \<in> set xs" by blast
qed

chapter \<open>Solo\<close>

text \<open>
  Mute and solo in \<open>src/mixer.rs\<close>: the solo path is what is reachable from a soloed bus along the
  routes or against them.
\<close>

definition soloed_bus :: "mixer_graph \<Rightarrow> bus_id \<Rightarrow> bool" where
  "soloed_bus g i \<longleftrightarrow> (\<exists>b. bt_get (mg_buses g) i = Some b \<and> fd_soloed (mb_fader b))"

lemma solo_path_fold:
  "set (fold (\<lambda>root path. collect_reachable root rs False (collect_reachable root rs True path)) roots path)
    = set path \<union> (\<Union>r \<in> set roots. (links rs)\<^sup>* `` {r} \<union> ((links rs)\<inverse>)\<^sup>* `` {r})"
proof (induction roots arbitrary: path)
  case (Cons r roots)
  show ?case unfolding fold_Cons comp_apply Cons.IH by (auto simp: collect_reachable_set steps_def)
qed simp

lemma soloed_values:
  assumes inv: "mixer_inv g"
  shows "r \<in> mb_id ` {b \<in> set (bt_values (mg_buses g)). fd_soloed (mb_fader b)} \<longleftrightarrow> soloed_bus g r"
    and "list_ex (\<lambda>b. fd_soloed (mb_fader b)) (bt_values (mg_buses g)) \<longleftrightarrow> (\<exists>r. soloed_bus g r)"
proof -
  have vals: "b \<in> set (bt_values (mg_buses g)) \<longleftrightarrow> bt_get (mg_buses g) (mb_id b) = Some b" for b
    using inv_bus_ok[OF inv] inv_bt_ok(1)[OF inv] by (auto simp: bt_values_in bus_ok_def)
  have key: "bt_get (mg_buses g) r = Some b \<Longrightarrow> mb_id b = r" for r b
    using inv_bus_ok[OF inv] by (simp add: bus_ok_def)
  show "r \<in> mb_id ` {b \<in> set (bt_values (mg_buses g)). fd_soloed (mb_fader b)} \<longleftrightarrow> soloed_bus g r" for r
    using key by (auto simp: soloed_bus_def vals)
  show "list_ex (\<lambda>b. fd_soloed (mb_fader b)) (bt_values (mg_buses g)) \<longleftrightarrow> (\<exists>r. soloed_bus g r)"
  proof
    assume "list_ex (\<lambda>b. fd_soloed (mb_fader b)) (bt_values (mg_buses g))"
    then obtain b where "b \<in> set (bt_values (mg_buses g))" "fd_soloed (mb_fader b)" by (auto simp: list_ex_iff)
    then have "soloed_bus g (mb_id b)" by (auto simp: soloed_bus_def vals)
    then show "\<exists>r. soloed_bus g r" ..
  next
    assume "\<exists>r. soloed_bus g r"
    then obtain r b where b: "bt_get (mg_buses g) r = Some b" "fd_soloed (mb_fader b)" by (auto simp: soloed_bus_def)
    then have "b \<in> set (bt_values (mg_buses g))" using key[OF b(1)] by (simp add: vals)
    with b(2) show "list_ex (\<lambda>b. fd_soloed (mb_fader b)) (bt_values (mg_buses g))" by (auto simp: list_ex_iff)
  qed
qed

lemma solo_path_set:
  assumes inv: "mixer_inv g"
  shows "i \<in> set (solo_path g) \<longleftrightarrow> (\<exists>r. soloed_bus g r \<and> ((r, i) \<in> (graph_links g)\<^sup>* \<or> (i, r) \<in> (graph_links g)\<^sup>*))"
proof -
  have "set (map mb_id (filter (\<lambda>b. fd_soloed (mb_fader b)) (bt_values (mg_buses g)))) = {r. soloed_bus g r}"
    using soloed_values(1)[OF inv] by auto
  then show ?thesis
    unfolding solo_path_def solo_path_fold inv_routes(1)[OF inv] by (auto simp: rtrancl_converse)
qed

lemma fold_insert_by_id:
  assumes "\<And>c. c \<in> set bs \<Longrightarrow> mb_id c = mb_id b \<Longrightarrow> c = b"
  shows "bt_get (fold (\<lambda>c m. bt_insert (mb_id c) (F c) m) bs m) (mb_id b)
    = (if b \<in> set bs then Some (F b) else bt_get m (mb_id b))"
  using assms
proof (induction bs arbitrary: m)
  case (Cons c bs)
  have rest: "\<And>c. c \<in> set bs \<Longrightarrow> mb_id c = mb_id b \<Longrightarrow> c = b" using Cons.prems by simp
  have "mb_id c = mb_id b \<longleftrightarrow> c = b" using Cons.prems[of c] by auto
  then show ?case using Cons.IH[OF rest] by auto
qed simp

lemma effective_state_of:
  assumes inv: "mixer_inv g" and b: "bt_get (mg_buses g) i = Some b"
  shows "bt_get (effective_states g) i = Some
    (let any_solo = list_ex (\<lambda>b. fd_soloed (mb_fader b)) (bt_values (mg_buses g));
         in_path = (\<not> any_solo \<or> i \<in> set (solo_path g)); suppressed = (any_solo \<and> \<not> in_path)
     in \<lparr>eb_explicitly_muted = fd_muted (mb_fader b), eb_soloed = fd_soloed (mb_fader b), eb_in_solo_path = in_path,
         eb_solo_suppressed = suppressed, eb_audible = (\<not> fd_muted (mb_fader b) \<and> \<not> suppressed)\<rparr>)"
proof -
  have i: "mb_id b = i" using inv_bus_ok[OF inv b] by (simp add: bus_ok_def)
  have "c = b" if "c \<in> set (bt_values (mg_buses g))" "mb_id c = mb_id b" for c
    using that inv_bus_ok[OF inv] inv_bt_ok(1)[OF inv] b i by (auto simp: bt_values_in bus_ok_def)
  moreover have "b \<in> set (bt_values (mg_buses g))" using b inv_bt_ok(1)[OF inv] by (auto simp: bt_values_in)
  ultimately show ?thesis
    unfolding effective_states_def Let_def i[symmetric] by (subst fold_insert_by_id) simp_all
qed

end
