(* ===== verification/Mixer_Command.thy ===== *)
theory Mixer_Command
  imports Mixer_Reachable
begin

text \<open>
  \<open>MixerCommand\<close> of \<open>src/mixer.rs\<close>: the reversible transition between two graphs, guarded by
  the revision and by the derived equality of graphs, which compares floats as IEEE does.
\<close>

section \<open>Equality of graphs\<close>

definition slot_eq :: "insert_slot \<Rightarrow> insert_slot \<Rightarrow> bool" where
  "slot_eq a b \<longleftrightarrow> sl_processor a = sl_processor b \<and> sl_bypassed a = sl_bypassed b \<and> f32_eq (sl_wet a) (sl_wet b)"

definition send_eq :: "mx_send \<Rightarrow> mx_send \<Rightarrow> bool" where
  "send_eq a b \<longleftrightarrow> sd_id a = sd_id b \<and> sd_target a = sd_target b \<and> sd_tap a = sd_tap b
     \<and> f32_eq (sd_level_db a) (sd_level_db b) \<and> sd_muted a = sd_muted b"

definition fader_eq :: "fader_state \<Rightarrow> fader_state \<Rightarrow> bool" where
  "fader_eq a b \<longleftrightarrow> f32_eq (fd_gain_db a) (fd_gain_db b) \<and> f32_eq (fd_pan a) (fd_pan b)
     \<and> fd_muted a = fd_muted b \<and> fd_soloed a = fd_soloed b"

definition mx_bus_eq :: "mx_bus \<Rightarrow> mx_bus \<Rightarrow> bool" where
  "mx_bus_eq a b \<longleftrightarrow> mb_id a = mb_id b \<and> mb_node_id a = mb_node_id b \<and> mb_name a = mb_name b
     \<and> mb_kind a = mb_kind b \<and> mb_output a = mb_output b \<and> list_all2 slot_eq (mb_inserts a) (mb_inserts b)
     \<and> list_all2 send_eq (mb_sends a) (mb_sends b) \<and> fader_eq (mb_fader a) (mb_fader b)"

definition map_eq :: "('v \<Rightarrow> 'v \<Rightarrow> bool) \<Rightarrow> ('k, 'v) btree \<Rightarrow> ('k, 'v) btree \<Rightarrow> bool" where
  "map_eq eq m n \<longleftrightarrow> list_all2 (\<lambda>a b. fst a = fst b \<and> eq (snd a) (snd b)) m n"

definition mx_parameter_eq :: "processor_parameter \<Rightarrow> processor_parameter \<Rightarrow> bool" where
  "mx_parameter_eq a b \<longleftrightarrow> pp_id a = pp_id b \<and> pp_key a = pp_key b \<and> pp_name a = pp_name b
     \<and> f32_eq (pp_normalized_value a) (pp_normalized_value b)"

definition processor_eq :: "processor \<Rightarrow> processor \<Rightarrow> bool" where
  "processor_eq a b \<longleftrightarrow> pc_id a = pc_id b \<and> pc_node_id a = pc_node_id b \<and> pc_descriptor a = pc_descriptor b
     \<and> pc_latency_samples a = pc_latency_samples b \<and> map_eq mx_parameter_eq (pc_parameters a) (pc_parameters b)"

definition mixer_eq :: "mixer_graph \<Rightarrow> mixer_graph \<Rightarrow> bool" where
  "mixer_eq a b \<longleftrightarrow> map_eq mx_bus_eq (mg_buses a) (mg_buses b) \<and> mg_order a = mg_order b
     \<and> map_eq processor_eq (mg_processors a) (mg_processors b) \<and> mg_master a = mg_master b
     \<and> mg_revision a = mg_revision b \<and> allocator_state a = allocator_state b"

section \<open>Commands\<close>

record mixer_command =
  mc_label :: unicode_string
  mc_before :: mixer_graph
  mc_after :: mixer_graph

definition next_revision :: "mixer_graph \<Rightarrow> nat mx_result" where
  "next_revision g = ok_or (checked_add_u64 (mg_revision g) 1) (Failed MeRevisionExhausted)"

definition command_from_parts :: "unicode_string \<Rightarrow> mixer_graph \<Rightarrow> mixer_graph \<Rightarrow> mixer_command mx_result" where
  "command_from_parts label before after =
     then_r (mixer_validate before)
    (then_r (mixer_validate after)
    (bind_r (next_revision before) (\<lambda>r.
       if mg_revision after \<noteq> r then mx_fails MeCommandConflict
       else Inr \<lparr>mc_label = label, mc_before = before, mc_after = after\<rparr>)))"

definition build_at_revision ::
  "unicode_string \<Rightarrow> nat \<Rightarrow> mixer_graph \<Rightarrow> unit mx_step \<Rightarrow> mixer_command mx_result" where
  "build_at_revision label expected current edit =
     then_r (fail_if (mg_revision current \<noteq> expected) (Failed (MeRevisionConflict expected (mg_revision current))))
    (let (outcome, after) = edit current in
     then_r outcome
    (then_r (mixer_validate after)
    (bind_r (next_revision current) (\<lambda>r.
       Inr \<lparr>mc_label = label, mc_before = current, mc_after = after\<lparr>mg_revision := r\<rparr>\<rparr>))))"

definition build_command :: "unicode_string \<Rightarrow> mixer_graph \<Rightarrow> unit mx_step \<Rightarrow> mixer_command mx_result" where
  "build_command label current edit = build_at_revision label (mg_revision current) current edit"

definition compose_consecutive :: "mixer_command \<Rightarrow> mixer_command \<Rightarrow> mixer_command option" where
  "compose_consecutive c d =
     (if mixer_eq (mc_after c) (mc_before d)
      then Some \<lparr>mc_label = mc_label d, mc_before = mc_before c, mc_after = mc_after d\<rparr> else None)"

definition rebase_for_replay :: "mixer_command \<Rightarrow> mixer_graph \<Rightarrow> mixer_command mx_result" where
  "rebase_for_replay c current =
     (let before = (mc_before c)\<lparr>mg_revision := mg_revision current\<rparr> in
      if \<not> mixer_eq before current then mx_fails MeCommandConflict
      else bind_r (next_revision current) (\<lambda>r.
        Inr \<lparr>mc_label = mc_label c, mc_before = before, mc_after = (mc_after c)\<lparr>mg_revision := r\<rparr>\<rparr>))"

definition command_inverse :: "mixer_command \<Rightarrow> mixer_command" where
  "command_inverse c = \<lparr>mc_label = mc_label c, mc_before = mc_after c,
     mc_after = (mc_before c)\<lparr>mg_revision := sat_add_u64 (mg_revision (mc_after c)) 1\<rparr>\<rparr>"

definition apply_command :: "mixer_command \<Rightarrow> unit mx_step" where
  "apply_command c g =
     (if mg_revision g \<noteq> mg_revision (mc_before c)
      then (mx_fails (MeRevisionConflict (mg_revision (mc_before c)) (mg_revision g)), g)
      else if \<not> mixer_eq g (mc_before c) then (mx_fails MeCommandConflict, g)
      else (Inr (), mc_after c))"

definition revert_command :: "mixer_command \<Rightarrow> unit mx_step" where
  "revert_command c = apply_command (command_inverse c)"

section \<open>Equality on intact graphs\<close>

lemma finite_not_nan: "f32_is_finite v \<Longrightarrow> f32_eq v v"
  by (simp add: f32_eq_def f32_is_nan_def f32_is_finite_def)

lemma list_all2_refl: "(\<And>x. x \<in> set xs \<Longrightarrow> P x x) \<Longrightarrow> list_all2 P xs xs"
  by (simp add: list_all2_same)

lemma bus_ok_eq: "bus_ok g i b \<Longrightarrow> mx_bus_eq b b"
  unfolding mx_bus_eq_def bus_ok_def
  by (auto simp: slot_eq_def send_eq_def fader_eq_def finite_not_nan unit_f32_def pan_f32_def intro!: list_all2_refl)

lemma processor_ok_eq:
  assumes "processor_ok i p" "bt_ok (pc_parameters p)"
  shows "processor_eq p p"
proof -
  have "mx_parameter_eq q q" if "(j, q) \<in> set (pc_parameters p)" for j q
    using assms that by (auto simp: processor_ok_def mx_parameter_eq_def unit_f32_def finite_not_nan bt_get_iff)
  then show ?thesis by (auto simp: processor_eq_def map_eq_def intro!: list_all2_refl)
qed

lemma mixer_eq_self:
  assumes "mixer_wf g" "mixer_ok g"
  shows "mixer_eq g g"
proof -
  have "mx_bus_eq b b" if "(i, b) \<in> set (mg_buses g)" for i b
    using assms that bus_ok_eq[of g i b] by (auto simp: mixer_wf_def mixer_ok_def bt_get_iff)
  moreover have "processor_eq p p" if "(i, p) \<in> set (mg_processors g)" for i p
    using assms that processor_ok_eq[of i p] by (auto simp: mixer_wf_def mixer_ok_def bt_get_iff)
  ultimately show ?thesis by (auto simp: mixer_eq_def map_eq_def intro!: list_all2_refl)
qed

lemma reachable_eq_self: "mixer_reachable g \<Longrightarrow> mixer_eq g g"
  using mixer_reachable_inv mixer_eq_self by (auto simp: mixer_inv_def)

section \<open>Building, applying and reverting\<close>

text \<open>The edits of one gesture, in order, until one fails.\<close>

fun perform_edits :: "mixer_edit list \<Rightarrow> unit mx_step" where
  "perform_edits [] g = (Inr (), g)"
| "perform_edits (e # es) g =
     (case perform_edit e g of (Inl f, h) \<Rightarrow> (Inl f, h) | (Inr _, h) \<Rightarrow> perform_edits es h)"

lemma perform_edits_reachable:
  "mixer_reachable g \<Longrightarrow> \<forall>e \<in> set es. bounded_edit e \<Longrightarrow> mixer_reachable (snd (perform_edits es g))"
proof (induction es arbitrary: g)
  case (Cons e es)
  then have "mixer_reachable (snd (perform_edit e g))" using after_edit by simp
  with Cons show ?case by (cases "perform_edit e g") (auto split: sum.split)
qed simp

lemma reachable_validates: "mixer_reachable g \<Longrightarrow> mixer_validate g = Inr ()"
  using mixer_reachable_inv mixer_validate_iff by (auto simp: mixer_inv_def)

lemma build_command_reachable:
  assumes g: "mixer_reachable g" and es: "\<forall>e \<in> set es. bounded_edit e"
  shows "build_command label g (perform_edits es) = Inr c \<longleftrightarrow>
    fst (perform_edits es g) = Inr () \<and> mg_revision g < u64_max \<and> mc_label c = label \<and> mc_before c = g
    \<and> mc_after c = (snd (perform_edits es g))\<lparr>mg_revision := Suc (mg_revision g)\<rparr>"
proof -
  have "mixer_validate (snd (perform_edits es g)) = Inr ()"
    using perform_edits_reachable[OF assms] by (rule reachable_validates)
  then show ?thesis
    by (cases c) (auto simp: build_command_def build_at_revision_def next_revision_def checked_add_u64_def
        then_r_eq_Inr case_prod_beta result_simps split: if_splits)
qed

lemma apply_command_eq: "mixer_eq g (mc_before c) \<Longrightarrow> apply_command c g = (Inr (), mc_after c)"
  by (simp add: apply_command_def mixer_eq_def)

lemma composed_applies:
  assumes "compose_consecutive c d = Some cd" "apply_command c g = (Inr (), h)"
  shows "apply_command cd g = apply_command d h \<and> fst (apply_command d h) = Inr ()"
proof -
  have h: "h = mc_after c" and g: "mixer_eq g (mc_before c)" "mg_revision g = mg_revision (mc_before c)"
    using assms(2) by (auto simp: apply_command_def split: if_splits)
  have "mixer_eq h (mc_before d)" "cd = \<lparr>mc_label = mc_label d, mc_before = mc_before c, mc_after = mc_after d\<rparr>"
    using assms(1) h by (auto simp: compose_consecutive_def split: if_splits)
  then show ?thesis using g apply_command_eq by simp
qed

end
