(* ===== verification/Mixer_Properties.thy ===== *)
theory Mixer_Properties
  imports Mixer_Latency Mixer_Command
begin

text \<open>
  What the mixer promises: every graph its edits reach is intact, failing edits change nothing that
  can be heard or routed, the cycle check is exact, the latency plan exists and aligns every route,
  solo follows the routing, and a command can be applied and reverted.
\<close>

section \<open>An example graph\<close>

definition mixer_demo :: mixer_graph where
  "mixer_demo = snd (perform_edit (AddBus SourceBus [86]) (mixer_new [77]))"

lemma mixer_demo_reachable: "mixer_reachable mixer_demo"
  unfolding mixer_demo_def by (intro after_edit fresh_mixer) (simp add: bounded_edit_def)

lemma mixer_demo_value:
  "mixer_demo = \<lparr>mg_buses =
     [(Id 1, \<lparr>mb_id = Id 1, mb_node_id = Id 1, mb_name = [77], mb_kind = MasterBus, mb_output = None, mb_inserts = [],
        mb_sends = [], mb_fader = fader_default\<rparr>),
      (Id 2, \<lparr>mb_id = Id 2, mb_node_id = Id 2, mb_name = [86], mb_kind = SourceBus, mb_output = Some (Id 1), mb_inserts = [],
        mb_sends = [], mb_fader = fader_default\<rparr>)],
     mg_order = [Id 2, Id 1], mg_processors = [], mg_master = Id 1, mg_revision = 0, mg_next_bus = 3, mg_next_node = 3,
     mg_next_send = 1, mg_next_processor = 1, mg_next_parameter = 1\<rparr>"
  by (simp add: mixer_demo_def mixer_new_def add_bus_def drop_value_def peek_id_def u64_max_def insert_at_def
      is_blank_text_def trim_white_space_def is_white_space_def)

section \<open>Integrity\<close>

text \<open>
  C17. Whatever edits are applied to a new mixer, in any order, failing ones and cursor
  restorations included, the graph passes \<open>validate\<close>: the order lists every bus once with the
  master last, outputs and sends refer to existing buses by the routing rules, every processor
  stands in exactly one slot, node, send and parameter identifiers are unique, and the routing has
  no cycle. No further edit panics.
\<close>

theorem mixer_edits_keep_integrity:
  assumes "mixer_reachable g"
  shows "mixer_validate g = Inr () \<and> mixer_ok g
    \<and> (bounded_edit e \<longrightarrow> fst (perform_edit e g) \<noteq> mx_panics \<and> mixer_validate (snd (perform_edit e g)) = Inr ())"
proof -
  have "mixer_inv g" by (rule mixer_reachable_inv[OF assms])
  moreover have "fst (perform_edit e g) \<noteq> mx_panics" if "bounded_edit e"
    using perform_edit_good[OF \<open>mixer_inv g\<close> that] by (simp add: good_def)
  moreover have "mixer_validate (snd (perform_edit e g)) = Inr ()" if "bounded_edit e"
    using after_edit[OF assms that] by (rule reachable_validates)
  ultimately show ?thesis using reachable_validates[OF assms] by (simp add: mixer_inv_def)
qed

theorem mixer_edits_keep_integrity_witness:
  "mixer_validate mixer_demo = Inr () \<and> fst (perform_edit (SetOutput (Id 2) (Id 2)) mixer_demo) \<noteq> mx_panics"
  using mixer_edits_keep_integrity[OF mixer_demo_reachable, of "SetOutput (Id 2) (Id 2)"]
  by (simp add: bounded_edit_def)

text \<open>
  C18. \<open>MixerGraph::validate\<close> accepts exactly the graphs with integrity, stated on lookups, lists of
  identifiers and the relation of routes.
\<close>

theorem mixer_validate_is_integrity:
  assumes "mixer_wf g"
  shows "(mixer_validate g = Inr () \<longleftrightarrow> mixer_ok g) \<and> mixer_validate g \<noteq> mx_panics"
  using mixer_validate_iff[OF assms] mixer_validate_no_panic[OF assms] by blast+

theorem mixer_validate_is_integrity_witness:
  "(mixer_validate (mixer_new [77]) = Inr () \<longleftrightarrow> mixer_ok (mixer_new [77])) \<and> mixer_wf (mixer_new [77])"
  using mixer_validate_is_integrity[of "mixer_new [77]"] mixer_new_inv[of "[77]"] by (simp add: mixer_inv_def)

text \<open>
  C19. The depth-first search for cycles is exact: it reports none exactly when the routes have none,
  and what it reports is a closed walk along routes.
\<close>

theorem find_cycle_exact:
  assumes "rt_from ` set rs \<subseteq> set (bt_keys buses)"
  shows "find_cycle buses rs = Inr None \<and> acyclic (links rs)
    \<or> (\<exists>c. find_cycle buses rs = Inr (Some c) \<and> is_cycle rs c \<and> (hd c, hd c) \<in> (links rs)\<^sup>+)"
  using find_cycle_cases[OF assms] walk_trancl[of "links rs"] unfolding is_cycle_def by metis

theorem find_cycle_exact_witness:
  "\<exists>c. find_cycle [(Id 1, undefined), (Id 2, undefined)] [Route (Id 1) (Id 2) MainRoute, Route (Id 2) (Id 1) MainRoute]
    = Inr (Some c) \<and> (hd c, hd c) \<in> {(Id 1, Id 2), (Id 2, Id 1)}\<^sup>+"
proof -
  let ?rs = "[Route (Id 1) (Id 2) MainRoute, Route (Id 2) (Id 1) MainRoute]"
  have links: "links ?rs = {(Id 1, Id 2), (Id 2, Id 1)}" by (simp add: links_image)
  have "\<not> acyclic (links ?rs)" unfolding links acyclic_def by (meson insertI1 insertI2 r_into_trancl trancl_trans)
  then show ?thesis
    using find_cycle_exact[of ?rs "[(Id 1, undefined), (Id 2, undefined)]"] unfolding links by (auto simp: bt_keys_def)
qed

text \<open>
  C20. An edit that fails leaves the graph as it was, up to the identifier cursors: a rejected route
  or send is rolled back, and nothing is half inserted, half removed or half moved.
\<close>

theorem failed_mixer_edits_change_nothing:
  assumes "mixer_reachable g" "fst (perform_edit e g) = Inl f"
  shows "content (snd (perform_edit e g)) = content g"
  using perform_edit_harmless[OF mixer_reachable_inv[OF assms(1)], of e] assms(2) by (simp add: harmless_def)

theorem failed_mixer_edits_change_nothing_witness:
  "content (snd (perform_edit (RemoveBus (Id 1)) mixer_demo)) = content mixer_demo"
proof (rule failed_mixer_edits_change_nothing[OF mixer_demo_reachable])
  show "fst (perform_edit (RemoveBus (Id 1)) mixer_demo) = Inl (Failed MeCannotRemoveMaster)"
    by (simp add: mixer_demo_value drop_value_def remove_bus_def require_bus_def bt_contains_def bt_get_Cons)
qed

section \<open>Latency\<close>

text \<open>
  C21. The latency plan always exists: on a reachable graph \<open>latency_plan\<close> returns, without error or
  panic, a plan with an entry for every bus and for every route and for nothing else.
\<close>

theorem latency_plan_exists:
  assumes "mixer_reachable g"
  shows "\<exists>p. latency_plan_of g = Inr p \<and> set (bt_keys (lp_buses p)) = set (bt_keys (mg_buses g))
    \<and> set (bt_keys (lp_routes p)) = set (routes g)"
proof -
  have inv: "mixer_inv g" by (rule mixer_reachable_inv[OF assms])
  obtain degrees buses legs where plan: "plan_inv g (routes g) degrees [] buses legs"
    and all: "done_buses buses = set (bt_keys (mg_buses g))"
    and p: "latency_plan_of g = Inr \<lparr>lp_buses = buses, lp_routes = legs, lp_master_output = source_output buses (mg_master g)\<rparr>"
    using latency_plan_total[OF inv] by blast
  have "r \<in> set (bt_keys legs) \<longleftrightarrow> r \<in> set (routes g)" for r
    using plan inv_routes(3)[OF inv] all by (auto simp: plan_inv_def bt_keys_in)
  moreover have "i \<in> set (bt_keys buses) \<longleftrightarrow> i \<in> set (bt_keys (mg_buses g))" for i
    using all by (auto simp: done_buses_def bt_keys_in)
  ultimately show ?thesis using p by auto
qed

theorem latency_plan_exists_witness:
  "\<exists>p. latency_plan_of mixer_demo = Inr p \<and> set (bt_keys (lp_buses p)) = {Id 1, Id 2}"
  using latency_plan_exists[OF mixer_demo_reachable] by (auto simp: mixer_demo_value bt_keys_def)

text \<open>
  C22. The latency plan aligns: every route into a bus, its compensation added, arrives at the input
  latency of the bus, which is the latest of the arrivals or zero; each arrival is the output latency
  of the source, each output the input plus the enabled inserts, saturating at the end of \<open>u64\<close>,
  and the master output is the one reported.
\<close>

theorem latency_plan_aligns:
  assumes "mixer_reachable g" "latency_plan_of g = Inr p"
  shows "(\<forall>r \<in> set (routes g). \<exists>s t leg. bt_get (lp_buses p) (rt_from r) = Some s \<and> bt_get (lp_buses p) (rt_to r) = Some t
      \<and> bt_get (lp_routes p) r = Some leg \<and> rl_arrival leg = bl_output s
      \<and> rl_arrival leg + rl_compensation leg = bl_input t)
    \<and> (\<forall>i l. bt_get (lp_buses p) i = Some l \<longrightarrow> bus_insert_latency g i = Inr (bl_insert l)
      \<and> bl_output l = sat_add_u64 (bl_input l) (bl_insert l)
      \<and> (bl_input l = 0 \<or> (\<exists>r \<in> set (routes g). \<exists>leg. rt_to r = i \<and> bt_get (lp_routes p) r = Some leg
            \<and> rl_arrival leg = bl_input l)))
    \<and> (\<exists>m. bt_get (lp_buses p) (mg_master g) = Some m \<and> lp_master_output p = bl_output m)"
proof -
  have inv: "mixer_inv g" by (rule mixer_reachable_inv[OF assms(1)])
  obtain degrees buses legs where plan: "plan_inv g (routes g) degrees [] buses legs"
    and all: "done_buses buses = set (bt_keys (mg_buses g))"
    and p: "p = \<lparr>lp_buses = buses, lp_routes = legs, lp_master_output = source_output buses (mg_master g)\<rparr>"
    using latency_plan_total[OF inv] assms(2) by auto
  have settled: "\<And>i l. bt_get buses i = Some l \<Longrightarrow> settled g (routes g) buses i l"
    and legs: "\<And>r. bt_get legs r = (if r \<in> set (routes g) \<and> rt_to r \<in> done_buses buses then Some (leg_of buses r) else None)"
    using plan unfolding plan_inv_def by blast+
  have ends: "\<exists>s t. bt_get buses (rt_from r) = Some s \<and> bt_get buses (rt_to r) = Some t" if "r \<in> set (routes g)" for r
    using inv_routes(2,3)[OF inv] that all by (auto simp: done_buses_def image_subset_iff)
  have leg: "bt_get legs r = Some (leg_of buses r)" if "r \<in> set (routes g)" for r
    using ends[OF that] that by (auto simp: legs done_buses_def)
  have "\<exists>s t leg. bt_get buses (rt_from r) = Some s \<and> bt_get buses (rt_to r) = Some t
      \<and> bt_get legs r = Some leg \<and> rl_arrival leg = bl_output s \<and> rl_arrival leg + rl_compensation leg = bl_input t"
    if r: "r \<in> set (routes g)" for r
  proof -
    obtain s t where st: "bt_get buses (rt_from r) = Some s" "bt_get buses (rt_to r) = Some t" using ends[OF r] by blast
    have "bl_output s \<in> set (map (\<lambda>q. source_output buses (rt_from q)) (filter (\<lambda>q. rt_to q = rt_to r) (routes g)))"
      using r st(1) by (force simp: source_output_def)
    then have "bl_output s \<le> bl_input t" using settled[OF st(2)] fold_max_bounds(1) unfolding settled_def by metis
    then show ?thesis using st leg[OF r] by (auto simp: leg_of_def source_output_def)
  qed
  moreover have "bl_input l = 0 \<or> (\<exists>r \<in> set (routes g). \<exists>leg. rt_to r = i \<and> bt_get legs r = Some leg \<and> rl_arrival leg = bl_input l)"
    if "bt_get buses i = Some l" for i l
  proof -
    have "bl_input l = 0 \<or> bl_input l \<in> set (map (\<lambda>q. source_output buses (rt_from q)) (filter (\<lambda>q. rt_to q = i) (routes g)))"
      using settled[OF that] fold_max_bounds(2) unfolding settled_def by metis
    then show ?thesis using leg by (force simp: leg_of_def)
  qed
  moreover have "\<exists>m. bt_get buses (mg_master g) = Some m \<and> source_output buses (mg_master g) = bl_output m"
  proof -
    have "mg_master g \<in> done_buses buses"
      unfolding all using inv by (auto simp: mixer_inv_def mixer_ok_def master_ok_def bt_keys_in)
    then show ?thesis by (auto simp: done_buses_def source_output_def)
  qed
  ultimately show ?thesis using settled unfolding p settled_def by simp
qed

theorem latency_plan_aligns_witness:
  "\<exists>p t leg. latency_plan_of mixer_demo = Inr p \<and> bt_get (lp_buses p) (Id 1) = Some t
    \<and> bt_get (lp_routes p) (Route (Id 2) (Id 1) MainRoute) = Some leg \<and> rl_arrival leg + rl_compensation leg = bl_input t"
proof -
  obtain p where p: "latency_plan_of mixer_demo = Inr p"
    using latency_plan_total[OF mixer_reachable_inv[OF mixer_demo_reachable]] by blast
  have "Route (Id 2) (Id 1) MainRoute \<in> set (routes mixer_demo)"
    by (simp add: mixer_demo_value routes_def bt_values_def bus_routes_def)
  then show ?thesis using latency_plan_aligns[OF mixer_demo_reachable p] p by fastforce
qed

section \<open>Solo\<close>

text \<open>
  C23. A bus of a reachable graph sounds exactly when it is not muted and either no bus is soloed or
  it feeds, or is fed by, a soloed bus through any number of routes (or is soloed itself).
\<close>

theorem solo_follows_routing:
  assumes "mixer_reachable g" "bt_get (mg_buses g) i = Some b"
  shows "\<exists>s. bt_get (effective_states g) i = Some s \<and> (eb_audible s \<longleftrightarrow> \<not> fd_muted (mb_fader b)
    \<and> ((\<forall>r. \<not> soloed_bus g r)
       \<or> (\<exists>r. soloed_bus g r \<and> ((r, i) \<in> (graph_links g)\<^sup>* \<or> (i, r) \<in> (graph_links g)\<^sup>*))))"
  using effective_state_of[OF mixer_reachable_inv[OF assms(1)] assms(2)] soloed_values(2)[OF mixer_reachable_inv[OF assms(1)]]
    solo_path_set[OF mixer_reachable_inv[OF assms(1)], of i]
  by (auto simp: Let_def)

theorem solo_follows_routing_witness:
  "\<exists>s. bt_get (effective_states mixer_demo) (Id 2) = Some s \<and> eb_audible s"
proof -
  have get: "bt_get (mg_buses mixer_demo) (Id 2) = Some \<lparr>mb_id = Id 2, mb_node_id = Id 2, mb_name = [86], mb_kind = SourceBus,
      mb_output = Some (Id 1), mb_inserts = [], mb_sends = [], mb_fader = fader_default\<rparr>"
    and "\<not> soloed_bus mixer_demo r" for r
    by (auto simp: mixer_demo_value bt_get_Cons soloed_bus_def fader_default_def split: if_splits)
  then show ?thesis using solo_follows_routing[OF mixer_demo_reachable get] by (auto simp: fader_default_def)
qed

section \<open>Commands\<close>

text \<open>
  C24. A gesture of edits on a reachable graph either fails as its first failing edit does, or runs
  out of revisions, or builds a command. Applying the command gives the edited graph with the next
  revision; reverting it there gives the old graph with the revision after that; a graph of another
  revision is refused and kept.
\<close>

theorem mixer_command_roundtrip:
  assumes "mixer_reachable g" "\<forall>e \<in> set es. bounded_edit e" "fst (perform_edits es g) = Inr ()" "mg_revision g < u64_max"
  shows "\<exists>c h. build_command label g (perform_edits es) = Inr c \<and> apply_command c g = (Inr (), h)
    \<and> h = (snd (perform_edits es g))\<lparr>mg_revision := Suc (mg_revision g)\<rparr> \<and> mixer_reachable h
    \<and> revert_command c h = (Inr (), g\<lparr>mg_revision := sat_add_u64 (mg_revision h) 1\<rparr>)
    \<and> (\<forall>k. mg_revision k \<noteq> mg_revision g \<longrightarrow> apply_command c k = (mx_fails (MeRevisionConflict (mg_revision g) (mg_revision k)), k))"
proof -
  let ?h = "(snd (perform_edits es g))\<lparr>mg_revision := Suc (mg_revision g)\<rparr>"
  let ?c = "\<lparr>mc_label = label, mc_before = g, mc_after = ?h\<rparr>"
  have h: "mixer_reachable ?h" by (rule new_revision[OF perform_edits_reachable[OF assms(1,2)]])
  have "build_command label g (perform_edits es) = Inr ?c"
    using assms(3,4) by (subst build_command_reachable[OF assms(1,2)]) simp
  moreover have "apply_command ?c g = (Inr (), ?h)"
    using apply_command_eq[of g ?c] reachable_eq_self[OF assms(1)] by simp
  moreover have "revert_command ?c ?h = (Inr (), g\<lparr>mg_revision := sat_add_u64 (mg_revision ?h) 1\<rparr>)"
    using apply_command_eq[of ?h "command_inverse ?c"] reachable_eq_self[OF h]
    by (simp add: revert_command_def command_inverse_def)
  moreover have "apply_command ?c k = (mx_fails (MeRevisionConflict (mg_revision g) (mg_revision k)), k)"
    if "mg_revision k \<noteq> mg_revision g" for k
    using that by (simp add: apply_command_def)
  ultimately show ?thesis using h by blast
qed

theorem mixer_command_roundtrip_witness:
  "\<exists>c h. build_command [76] mixer_demo (perform_edits [SetMuted (Id 2) True]) = Inr c
    \<and> apply_command c mixer_demo = (Inr (), h) \<and> revert_command c h = (Inr (), mixer_demo\<lparr>mg_revision := 2\<rparr>)"
proof -
  have "fst (perform_edits [SetMuted (Id 2) True] mixer_demo) = Inr ()"
    by (simp add: mixer_demo_value set_muted_def on_bus_def bt_get_Cons)
  moreover have "mg_revision mixer_demo = 0" by (simp add: mixer_demo_value)
  ultimately show ?thesis
    using mixer_command_roundtrip[OF mixer_demo_reachable, of "[SetMuted (Id 2) True]" "[76]"]
    by (auto simp: bounded_edit_def u64_max_def sat_add_u64_def)
qed

end
