(* ===== verification/Tempo_Map.thy ===== *)
theory Tempo_Map
  imports Prelude Ordered_Map Floats
begin

text \<open>
  The time base of the sequencer (\<open>src/src/sequencer.rs\<close>): musical ticks, tempos, time
  signatures, and the \<open>TempoMap\<close> with its edits and its conversions between ticks, PCM frames
  and bar positions. A tick or frame is an \<open>int\<close> in the \<open>i64\<close> range; intermediate \<open>i128\<close>
  values stay below \<open>2 ^ 127\<close> and are plain integers here.
\<close>

section \<open>Errors\<close>

datatype pattern_tag = PatternTag
datatype pattern_clip_tag = PatternClipTag
datatype note_tag = NoteTag
datatype step_lane_tag = StepLaneTag
datatype sample_asset_tag = SampleAssetTag

type_synonym PatternId = "pattern_tag typed_id"
type_synonym PatternClipId = "pattern_clip_tag typed_id"
type_synonym NoteId = "note_tag typed_id"
type_synonym StepLaneId = "step_lane_tag typed_id"
type_synonym SampleAssetId = "sample_asset_tag typed_id"

type_synonym BeatTime = int
type_synonym BeatDuration = nat
type_synonym ProjectFrame = int

datatype SequencerError =
    InvalidSampleRate
  | InvalidTempo
  | InvalidTimeSignature
  | MapPointBeforeZero
  | MissingMapOrigin
  | MapOriginNotRemovable
  | NoMapPointAt BeatTime
  | MeterChangeNotAtBar
  | InvalidMusicalPosition
  | InvalidRange
  | InvalidPattern PatternId
  | MissingPattern PatternId
  | InvalidClip PatternClipId
  | InvalidNote NoteId
  | InvalidTransform
  | InvalidAllocatorState
  | EmptyCommand
  | StaleCommand

section \<open>Frames and ticks\<close>

definition PPQ :: int where "PPQ = 960"
definition MICROS_PER_SECOND :: int where "MICROS_PER_SECOND = 1000000"

definition beat_saturating_add :: "BeatTime \<Rightarrow> int \<Rightarrow> BeatTime" where
  "beat_saturating_add t delta = sat_i64 (t + delta)"

record FrameRange =
  fr_start :: ProjectFrame
  fr_end :: ProjectFrame

definition tempo_range_new :: "ProjectFrame \<Rightarrow> ProjectFrame \<Rightarrow> SequencerError + FrameRange" where
  "tempo_range_new s e = (if e \<le> s then Inl InvalidRange else Inr \<lparr>fr_start = s, fr_end = e\<rparr>)"

text \<open>\<open>saturating_sub\<close> on \<open>i64\<close>, then the wrapping cast to \<open>u64\<close>.\<close>

definition tempo_range_len :: "FrameRange \<Rightarrow> nat" where
  "tempo_range_len r = nat (sat_i64 (fr_end r - fr_start r) mod 2 ^ 64)"

definition tempo_range_contains :: "FrameRange \<Rightarrow> ProjectFrame \<Rightarrow> bool" where
  "tempo_range_contains r f \<longleftrightarrow> fr_start r \<le> f \<and> f < fr_end r"

section \<open>Tempo and meter\<close>

record Tempo =
  micros_per_quarter :: nat

definition from_micros_per_quarter :: "nat \<Rightarrow> Tempo" where
  "from_micros_per_quarter micros = \<lparr>micros_per_quarter = micros\<rparr>"

text \<open>The integer closest to a finite \<open>f64\<close>, halves away from zero (\<open>f64::round\<close>).\<close>

definition f64_nearest_int :: "f64 \<Rightarrow> int" where
  "f64_nearest_int x =
     (let n = int ((2 * f64_magnitude x + 2 ^ 1074) div 2 ^ 1075)
      in if f64_neg x then - n else n)"

definition tempo_from_bpm :: "f64 \<Rightarrow> SequencerError + Tempo" where
  "tempo_from_bpm bpm =
     (if \<not> f64_is_finite bpm \<or> f64_le bpm f64_zero then Inl InvalidTempo
      else let quotient = f64_div (f64_of_u64 60000000) bpm;
               micros = f64_nearest_int quotient
           in if \<not> f64_is_finite quotient \<or> micros < 1 \<or> int u32_max < micros
              then Inl InvalidTempo
              else Inr (from_micros_per_quarter (nat micros)))"

definition tempo_bpm :: "Tempo \<Rightarrow> f64" where
  "tempo_bpm t = f64_div (f64_of_u64 60000000) (f64_of_u64 (micros_per_quarter t))"

definition tempo_validate :: "Tempo \<Rightarrow> SequencerError + unit" where
  "tempo_validate t = fail_if (micros_per_quarter t = 0) InvalidTempo"

record TimeSignature =
  numerator :: nat
  denominator :: nat

fun is_power_of_two :: "nat \<Rightarrow> bool" where
  "is_power_of_two n = (if n \<le> 1 then n = 1 else even n \<and> is_power_of_two (n div 2))"

declare is_power_of_two.simps [simp del]

definition ticks_per_beat :: "TimeSignature \<Rightarrow> int" where
  "ticks_per_beat s = PPQ * 4 div int (denominator s)"

definition ticks_per_bar :: "TimeSignature \<Rightarrow> int" where
  "ticks_per_bar s = ticks_per_beat s * int (numerator s)"

definition signature_validate :: "TimeSignature \<Rightarrow> SequencerError + unit" where
  "signature_validate s =
     fail_if (numerator s = 0 \<or> \<not> is_power_of_two (denominator s)
       \<or> PPQ * 4 < int (denominator s) \<or> PPQ * 4 mod int (denominator s) \<noteq> 0)
       InvalidTimeSignature"

definition time_signature_new :: "nat \<Rightarrow> nat \<Rightarrow> SequencerError + TimeSignature" where
  "time_signature_new n d =
     (let s = \<lparr>numerator = n, denominator = d\<rparr> in then_r (signature_validate s) (Inr s))"

record TempoPoint =
  tp_at :: BeatTime
  tp_tempo :: Tempo

record MeterPoint =
  mp_at :: BeatTime
  mp_signature :: TimeSignature

record MusicalPosition =
  pos_bar :: int
  pos_beat :: nat
  pos_tick :: nat

record TempoMap =
  tm_sample_rate :: nat
  tm_tempos :: "TempoPoint list"
  tm_meters :: "MeterPoint list"

section \<open>Searching the points\<close>

text \<open>
  \<open>slice::partition_point\<close> and \<open>slice::binary_search_by_key\<close> on the strictly ascending
  vectors of the map: the number of leading elements that satisfy a predicate, and the index of
  a key or the place to insert it.
\<close>

definition partition_point :: "('a \<Rightarrow> bool) \<Rightarrow> 'a list \<Rightarrow> nat" where
  "partition_point p xs = length (takeWhile p xs)"

definition search_by_key :: "('a \<Rightarrow> BeatTime) \<Rightarrow> BeatTime \<Rightarrow> 'a list \<Rightarrow> nat + nat" where
  "search_by_key key at xs =
     (let i = partition_point (\<lambda>x. key x < at) xs
      in if i < length xs \<and> key (xs ! i) = at then Inr i else Inl i)"

definition upper_bound_by_tick :: "'a list \<Rightarrow> BeatTime \<Rightarrow> ('a \<Rightarrow> BeatTime) \<Rightarrow> nat" where
  "upper_bound_by_tick xs t key = partition_point (\<lambda>x. key x \<le> t) xs"

text \<open>\<open>Vec::insert\<close> and \<open>Vec::remove\<close> at an index in range.\<close>

definition vec_insert :: "'a list \<Rightarrow> nat \<Rightarrow> 'a \<Rightarrow> 'a list" where
  "vec_insert xs i x = take i xs @ x # drop i xs"

definition vec_remove :: "'a list \<Rightarrow> nat \<Rightarrow> 'a list" where
  "vec_remove xs i = take i xs @ drop (Suc i) xs"

text \<open>\<open>slice::windows(2)\<close>\<close>

definition windows2 :: "'a list \<Rightarrow> ('a \<times> 'a) list" where
  "windows2 xs = zip xs (tl xs)"

section \<open>Construction and edits\<close>

definition tempo_map_new :: "nat \<Rightarrow> Tempo \<Rightarrow> TimeSignature \<Rightarrow> SequencerError + TempoMap" where
  "tempo_map_new rate tempo meter =
     (if rate = 0 then Inl InvalidSampleRate
      else then_r (tempo_validate tempo) (then_r (signature_validate meter)
        (Inr \<lparr>tm_sample_rate = rate,
              tm_tempos = [\<lparr>tp_at = 0, tp_tempo = tempo\<rparr>],
              tm_meters = [\<lparr>mp_at = 0, mp_signature = meter\<rparr>]\<rparr>)))"

definition common_time :: "nat \<Rightarrow> f64 \<Rightarrow> SequencerError + TempoMap" where
  "common_time rate bpm =
     bind_r (tempo_from_bpm bpm) (\<lambda>tempo.
       bind_r (time_signature_new 4 4) (\<lambda>meter. tempo_map_new rate tempo meter))"

definition set_tempo :: "BeatTime \<Rightarrow> Tempo \<Rightarrow> TempoMap \<Rightarrow> SequencerError + TempoMap" where
  "set_tempo at tempo m =
     (if at < 0 then Inl MapPointBeforeZero
      else then_r (tempo_validate tempo)
        (Inr (m\<lparr>tm_tempos := (case search_by_key tp_at at (tm_tempos m) of
            Inr i \<Rightarrow> (tm_tempos m)[i := (tm_tempos m ! i)\<lparr>tp_tempo := tempo\<rparr>]
          | Inl i \<Rightarrow> vec_insert (tm_tempos m) i \<lparr>tp_at = at, tp_tempo = tempo\<rparr>)\<rparr>)))"

definition remove_tempo :: "BeatTime \<Rightarrow> TempoMap \<Rightarrow> SequencerError + Tempo \<times> TempoMap" where
  "remove_tempo at m =
     (if at = 0 then Inl MapOriginNotRemovable
      else case search_by_key tp_at at (tm_tempos m) of
          Inl _ \<Rightarrow> Inl (NoMapPointAt at)
        | Inr i \<Rightarrow> Inr (tp_tempo (tm_tempos m ! i), m\<lparr>tm_tempos := vec_remove (tm_tempos m) i\<rparr>))"

definition validate_meter_boundaries :: "MeterPoint list \<Rightarrow> SequencerError + unit" where
  "validate_meter_boundaries points =
     (if points = [] \<or> mp_at (hd points) \<noteq> 0 then Inl MissingMapOrigin
      else for_each (\<lambda>(a, b). fail_if (mp_at b \<le> mp_at a
          \<or> (mp_at b - mp_at a) mod ticks_per_bar (mp_signature a) \<noteq> 0) MeterChangeNotAtBar)
        (windows2 points))"

definition remove_meter :: "BeatTime \<Rightarrow> TempoMap \<Rightarrow> SequencerError + TimeSignature \<times> TempoMap" where
  "remove_meter at m =
     (if at = 0 then Inl MapOriginNotRemovable
      else case search_by_key mp_at at (tm_meters m) of
          Inl _ \<Rightarrow> Inl (NoMapPointAt at)
        | Inr i \<Rightarrow>
            (let candidate = vec_remove (tm_meters m) i
             in then_r (validate_meter_boundaries candidate)
                  (Inr (mp_signature (tm_meters m ! i), m\<lparr>tm_meters := candidate\<rparr>))))"

definition set_meter :: "BeatTime \<Rightarrow> TimeSignature \<Rightarrow> TempoMap \<Rightarrow> SequencerError + TempoMap" where
  "set_meter at sig m =
     (if at < 0 then Inl MapPointBeforeZero
      else then_r (signature_validate sig)
        (let candidate = (case search_by_key mp_at at (tm_meters m) of
            Inr i \<Rightarrow> (tm_meters m)[i := (tm_meters m ! i)\<lparr>mp_signature := sig\<rparr>]
          | Inl i \<Rightarrow> vec_insert (tm_meters m) i \<lparr>mp_at = at, mp_signature = sig\<rparr>)
         in then_r (validate_meter_boundaries candidate) (Inr (m\<lparr>tm_meters := candidate\<rparr>))))"

section \<open>Points in force\<close>

definition tempo_point_at :: "TempoMap \<Rightarrow> BeatTime \<Rightarrow> TempoPoint" where
  "tempo_point_at m at = tm_tempos m ! (upper_bound_by_tick (tm_tempos m) at tp_at - 1)"

definition tempo_at :: "TempoMap \<Rightarrow> BeatTime \<Rightarrow> Tempo" where
  "tempo_at m at = tp_tempo (tempo_point_at m at)"

definition tempo_segment_start :: "TempoMap \<Rightarrow> BeatTime \<Rightarrow> BeatTime" where
  "tempo_segment_start m at = tp_at (tempo_point_at m at)"

definition meter_index :: "TempoMap \<Rightarrow> BeatTime \<Rightarrow> nat" where
  "meter_index m at = upper_bound_by_tick (tm_meters m) at mp_at - 1"

definition meter_at :: "TempoMap \<Rightarrow> BeatTime \<Rightarrow> TimeSignature" where
  "meter_at m at = mp_signature (tm_meters m ! meter_index m at)"

definition bar_start :: "TempoMap \<Rightarrow> BeatTime \<Rightarrow> BeatTime" where
  "bar_start m at =
     (let point = (if at < 0 then tm_meters m ! 0 else tm_meters m ! meter_index m at);
          bar = ticks_per_bar (mp_signature point);
          relative = at - mp_at point
      in sat_i64 (mp_at point + relative div bar * bar))"

definition next_bar_start :: "TempoMap \<Rightarrow> BeatTime \<Rightarrow> BeatTime" where
  "next_bar_start m at =
     (let start = bar_start m at in sat_i64 (start + ticks_per_bar (meter_at m start)))"

section \<open>Ticks to frames and back\<close>

text \<open>The loop of \<open>beat_to_frame\<close> over the points after the first one.\<close>

fun integrate :: "int \<Rightarrow> BeatTime \<Rightarrow> int \<Rightarrow> BeatTime \<Rightarrow> Tempo \<Rightarrow> TempoPoint list \<Rightarrow> int" where
  "integrate rate beat acc cursor tempo [] =
     acc + (beat - cursor) * int (micros_per_quarter tempo) * rate"
| "integrate rate beat acc cursor tempo (p # ps) =
     (if beat \<le> tp_at p then acc + (beat - cursor) * int (micros_per_quarter tempo) * rate
      else integrate rate beat
        (acc + (tp_at p - cursor) * int (micros_per_quarter tempo) * rate)
        (tp_at p) (tp_tempo p) ps)"

definition frame_numerator :: "TempoMap \<Rightarrow> BeatTime \<Rightarrow> int" where
  "frame_numerator m beat =
     (let first = tp_tempo (tm_tempos m ! 0); rate = int (tm_sample_rate m)
      in if beat < 0 then beat * int (micros_per_quarter first) * rate
         else integrate rate beat 0 0 first (tl (tm_tempos m)))"

definition beat_to_frame :: "TempoMap \<Rightarrow> BeatTime \<Rightarrow> ProjectFrame" where
  "beat_to_frame m beat = sat_i64 (frame_numerator m beat div (PPQ * MICROS_PER_SECOND))"

function bisect_beat :: "TempoMap \<Rightarrow> ProjectFrame \<Rightarrow> int \<Rightarrow> int \<Rightarrow> int" where
  "bisect_beat m frame low high =
     (if low < high
      then let mid = low + (high - low + 1) div 2
           in if beat_to_frame m mid \<le> frame then bisect_beat m frame mid high
              else bisect_beat m frame low (mid - 1)
      else low)"
  by pat_completeness auto
termination
  by (relation "measure (\<lambda>(m, frame, low, high). nat (high - low))") (auto simp: nat_mono_iff)

declare bisect_beat.simps [simp del]

definition frame_to_beat_floor :: "TempoMap \<Rightarrow> ProjectFrame \<Rightarrow> BeatTime" where
  "frame_to_beat_floor m frame = bisect_beat m frame i64_min i64_max"

definition first_beat_at_or_after_frame :: "TempoMap \<Rightarrow> ProjectFrame \<Rightarrow> BeatTime" where
  "first_beat_at_or_after_frame m frame =
     (if frame = i64_min then i64_min else sat_i64 (frame_to_beat_floor m (frame - 1) + 1))"

section \<open>Bar positions\<close>

definition meter_start_bar :: "TempoMap \<Rightarrow> nat \<Rightarrow> int" where
  "meter_start_bar m i =
     foldl (\<lambda>bars (a, b).
         sat_i64 (bars + (mp_at b - mp_at a) div ticks_per_bar (mp_signature a)))
       0 (windows2 (take (Suc i) (tm_meters m)))"

definition position_within_segment ::
    "BeatTime \<Rightarrow> BeatTime \<Rightarrow> int \<Rightarrow> TimeSignature \<Rightarrow> MusicalPosition" where
  "position_within_segment t segment_tick segment_bar sig =
     (let relative = t - segment_tick;
          bar = ticks_per_bar sig;
          beat = ticks_per_beat sig;
          within_bar = relative mod bar
      in \<lparr>pos_bar = sat_i64 (segment_bar + relative div bar),
          pos_beat = nat (within_bar div beat) mod 2 ^ 16,
          pos_tick = nat (within_bar mod beat) mod 2 ^ 16\<rparr>)"

definition musical_position :: "TempoMap \<Rightarrow> BeatTime \<Rightarrow> MusicalPosition" where
  "musical_position m at =
     (if at < 0 then position_within_segment at 0 0 (mp_signature (tm_meters m ! 0))
      else let i = meter_index m at
           in position_within_segment at (mp_at (tm_meters m ! i)) (meter_start_bar m i)
                (mp_signature (tm_meters m ! i)))"

text \<open>The loop of \<open>beat_at_position\<close>, from index \<open>i\<close> on, with the segment selected so far.\<close>

function select_segment :: "TempoMap \<Rightarrow> int \<Rightarrow> nat \<Rightarrow> nat \<times> int \<Rightarrow> nat \<times> int" where
  "select_segment m bar i selected =
     (if i < length (tm_meters m) \<and> meter_start_bar m i \<le> bar
      then select_segment m bar (Suc i) (i, meter_start_bar m i) else selected)"
  by pat_completeness auto
termination
  by (relation "measure (\<lambda>(m, bar, i, s). length (tm_meters m) - i)") auto

declare select_segment.simps [simp del]

definition beat_at_position :: "TempoMap \<Rightarrow> MusicalPosition \<Rightarrow> SequencerError + BeatTime" where
  "beat_at_position m p =
     (let (i, start_bar) = (if pos_bar p < 0 then (0, 0)
              else select_segment m (pos_bar p) 1 (0, 0));
          meter = tm_meters m ! i;
          sig = mp_signature meter
      in if numerator sig \<le> pos_beat p \<or> ticks_per_beat sig \<le> int (pos_tick p)
         then Inl InvalidMusicalPosition
         else Inr (sat_i64 (mp_at meter + (pos_bar p - start_bar) * ticks_per_bar sig
           + int (pos_beat p) * ticks_per_beat sig + int (pos_tick p))))"

end
