(* ===== verification/Tempo_Frames.thy ===== *)
theory Tempo_Frames
  imports Tempo_Map
begin

text \<open>
  The invariant of a \<open>TempoMap\<close> and the frame conversions under it: every edit keeps the
  invariant; \<open>beat_to_frame\<close> is the floor of the exact integral of the tempo; the bisection of
  \<open>frame_to_beat_floor\<close> is its upper adjoint, and \<open>first_beat_at_or_after_frame\<close> its lower one.
\<close>

section \<open>Ascending points\<close>

definition ascending :: "('a \<Rightarrow> BeatTime) \<Rightarrow> 'a list \<Rightarrow> bool" where
  "ascending key = sorted_wrt (\<lambda>a b. key a < key b)"

lemma ascending_simps [simp]:
  "ascending key []"
  "ascending key (x # xs) \<longleftrightarrow> (\<forall>y \<in> set xs. key x < key y) \<and> ascending key xs"
  by (simp_all add: ascending_def)

lemma ascending_append [simp]:
  "ascending key (xs @ ys) \<longleftrightarrow>
     ascending key xs \<and> ascending key ys \<and> (\<forall>x \<in> set xs. \<forall>y \<in> set ys. key x < key y)"
  unfolding ascending_def sorted_wrt_append ..

lemma partition_take: "take (partition_point p xs) xs = takeWhile p xs"
  unfolding partition_point_def by (rule takeWhile_eq_take[symmetric])

lemma partition_drop: "drop (partition_point p xs) xs = dropWhile p xs"
  unfolding partition_point_def by (rule dropWhile_eq_drop[symmetric])

lemma ascending_dropWhile:
  assumes "ascending key xs" and "x \<in> set (dropWhile (\<lambda>x. key x < at) xs)"
  shows "at \<le> key x"
  using assms by (induction xs) (auto split: if_splits)

lemma ascending_dropWhile_le:
  assumes "ascending key xs" and "x \<in> set (dropWhile (\<lambda>x. key x \<le> at) xs)"
  shows "at < key x"
  using assms by (induction xs) (auto split: if_splits)

lemma search_found:
  "search_by_key key at xs = Inr i \<Longrightarrow> i < length xs \<and> key (xs ! i) = at"
  by (auto simp: search_by_key_def Let_def split: if_splits)

lemma search_split:
  assumes "ascending key xs" "search_by_key key at xs = Inl i"
  shows "\<forall>x \<in> set (take i xs). key x < at" "\<forall>x \<in> set (drop i xs). at < key x"
proof -
  have i: "i = partition_point (\<lambda>x. key x < at) xs"
    and miss: "\<not> (i < length xs \<and> key (xs ! i) = at)"
    using assms(2) by (auto simp: search_by_key_def Let_def split: if_splits)
  show "\<forall>x \<in> set (take i xs). key x < at"
    by (auto simp: i partition_take dest: set_takeWhileD)
  show "\<forall>x \<in> set (drop i xs). at < key x"
  proof (cases "drop i xs")
    case (Cons y ys)
    have len: "i < length xs" using Cons by (metis drop_all list.distinct(1) not_less)
    have "y = xs ! i" using Cons len by (simp add: Cons_nth_drop_Suc[symmetric])
    then have "key y \<noteq> at" using miss len by simp
    moreover have "at \<le> key y"
      using ascending_dropWhile[OF assms(1), of y at] Cons by (simp add: i partition_drop)
    moreover have "ascending key (drop i xs)"
      using assms(1) by (simp add: ascending_def sorted_wrt_drop)
    ultimately show ?thesis using Cons by auto
  qed simp
qed

lemma ascending_insert:
  assumes "ascending key xs" "search_by_key key at xs = Inl i" "key x = at"
  shows "ascending key (vec_insert xs i x)"
proof -
  have "ascending key (take i xs @ drop i xs)" using assms(1) by simp
  then show ?thesis
    using search_split[OF assms(1,2)] assms(3)
    by (auto simp: vec_insert_def simp del: append_take_drop_id)
qed

lemma ascending_remove: "ascending key xs \<Longrightarrow> ascending key (vec_remove xs i)"
  unfolding vec_remove_def ascending_def sorted_wrt_append
  by (auto simp: sorted_wrt_take sorted_wrt_drop in_set_conv_nth sorted_wrt_iff_nth_less)

lemma ascending_update:
  assumes "ascending key xs" "key x = key (xs ! i)"
  shows "ascending key (xs[i := x])"
  unfolding ascending_def sorted_wrt_iff_nth_less
proof (intro allI impI)
  fix a b assume "a < b" "b < length (xs[i := x])"
  moreover then have "key (xs ! a) < key (xs ! b)"
    using assms(1) by (simp add: ascending_def sorted_wrt_iff_nth_less)
  ultimately show "key (xs[i := x] ! a) < key (xs[i := x] ! b)"
    using assms(2) by (cases "i = a"; cases "i = b") simp_all
qed

lemma ascending_hd:
  assumes "ascending key xs" "x \<in> set xs"
  shows "key (hd xs) \<le> key x"
  using assms by (cases xs) (auto simp: order_less_imp_le)

lemma set_vec_insert [simp]: "set (vec_insert xs i x) = insert x (set xs)"
proof -
  have "set (take i xs) \<union> set (drop i xs) = set xs"
    by (metis append_take_drop_id set_append)
  then show ?thesis by (auto simp: vec_insert_def)
qed

lemma vec_insert_ne [simp]: "vec_insert xs i x \<noteq> []"
  by (simp add: vec_insert_def)

lemma set_vec_remove: "set (vec_remove xs i) \<subseteq> set xs"
  by (auto simp: vec_remove_def dest: in_set_takeD in_set_dropD)

lemma hd_vec_insert:
  assumes "ascending key xs" "search_by_key key at xs = Inl i" "xs \<noteq> []" "key (hd xs) \<le> at"
  shows "hd (vec_insert xs i x) = hd xs"
proof -
  have "i \<noteq> 0"
  proof
    assume "i = 0"
    then have "at < key (hd xs)" using search_split(2)[OF assms(1,2)] assms(3) by simp
    then show False using assms(4) by simp
  qed
  then show ?thesis using assms(3) by (cases i; cases xs) (simp_all add: vec_insert_def)
qed

lemma hd_vec_remove:
  assumes "search_by_key key at xs = Inr i" "key (hd xs) \<noteq> at" "xs \<noteq> []"
  shows "hd (vec_remove xs i) = hd xs" "vec_remove xs i \<noteq> []"
proof -
  have "i \<noteq> 0" using search_found[OF assms(1)] assms(2,3) by (cases i) (auto simp: hd_conv_nth)
  then show "hd (vec_remove xs i) = hd xs" "vec_remove xs i \<noteq> []"
    using assms(3) by (cases i; cases xs; simp add: vec_remove_def)+
qed

lemma hd_list_update:
  "xs \<noteq> [] \<Longrightarrow> hd (xs[i := x]) = (if i = 0 then x else hd xs)"
  by (cases xs; cases i) simp_all

section \<open>The invariant\<close>

definition tempo_ok :: "Tempo \<Rightarrow> bool" where
  "tempo_ok t \<longleftrightarrow> 0 < micros_per_quarter t \<and> micros_per_quarter t \<le> u32_max"

definition signature_ok :: "TimeSignature \<Rightarrow> bool" where
  "signature_ok s \<longleftrightarrow> signature_validate s = Inr () \<and> numerator s < 2 ^ 16"

text \<open>\<open>on_bar a b\<close>: the meter point \<open>b\<close> sits on a later bar line of the meter of \<open>a\<close>.\<close>

definition on_bar :: "MeterPoint \<Rightarrow> MeterPoint \<Rightarrow> bool" where
  "on_bar a b \<longleftrightarrow> mp_at a < mp_at b \<and> (mp_at b - mp_at a) mod ticks_per_bar (mp_signature a) = 0"

definition tempos_ok :: "TempoPoint list \<Rightarrow> bool" where
  "tempos_ok ps \<longleftrightarrow> ps \<noteq> [] \<and> tp_at (hd ps) = 0 \<and> ascending tp_at ps
     \<and> (\<forall>p \<in> set ps. is_i64 (tp_at p) \<and> tempo_ok (tp_tempo p))"

definition meters_ok :: "MeterPoint list \<Rightarrow> bool" where
  "meters_ok ps \<longleftrightarrow> ps \<noteq> [] \<and> mp_at (hd ps) = 0 \<and> successively on_bar ps
     \<and> (\<forall>p \<in> set ps. is_i64 (mp_at p) \<and> signature_ok (mp_signature p))"

definition tempo_map_ok :: "TempoMap \<Rightarrow> bool" where
  "tempo_map_ok m \<longleftrightarrow> 0 < tm_sample_rate m \<and> tm_sample_rate m \<le> u32_max
     \<and> tempos_ok (tm_tempos m) \<and> meters_ok (tm_meters m)"

lemma windows2_all: "(\<forall>(a, b) \<in> set (windows2 xs). P a b) \<longleftrightarrow> successively P xs"
proof (induction P xs rule: successively.induct)
  case (3 P x y xs)
  then show ?case by (simp add: windows2_def)
qed (simp_all add: windows2_def)

lemma validate_meter_boundaries_iff [result_simps]:
  "validate_meter_boundaries ps = Inr () \<longleftrightarrow>
     ps \<noteq> [] \<and> mp_at (hd ps) = 0 \<and> successively on_bar ps"
proof -
  have "(\<forall>x \<in> set (windows2 ps). (case x of (a, b) \<Rightarrow> fail_if (mp_at b \<le> mp_at a
          \<or> (mp_at b - mp_at a) mod ticks_per_bar (mp_signature a) \<noteq> 0) MeterChangeNotAtBar) = Inr ())
      \<longleftrightarrow> (\<forall>(a, b) \<in> set (windows2 ps). on_bar a b)"
    by (intro ball_cong) (auto simp: fail_if_def on_bar_def split: if_splits)
  then show ?thesis
    by (simp add: validate_meter_boundaries_def for_each_eq_Inr windows2_all)
qed

lemma meters_ascending:
  assumes "successively on_bar ps" shows "ascending mp_at ps"
proof -
  have "successively (\<lambda>a b. mp_at a < mp_at b) ps"
    using assms by (rule successively_mono) (simp add: on_bar_def)
  then show ?thesis
    by (simp add: ascending_def successively_conv_sorted_wrt transp_def)
qed

lemma signature_ok_pos:
  assumes "signature_ok s"
  shows "0 < ticks_per_beat s" "0 < ticks_per_bar s" "ticks_per_beat s \<le> 3840"
    "ticks_per_bar s = int (numerator s) * ticks_per_beat s" "0 < numerator s" "numerator s < 65536"
proof -
  have s: "0 < numerator s" "0 < denominator s" "int (denominator s) \<le> 3840" "numerator s < 65536"
    using assms by (auto simp: signature_ok_def signature_validate_def fail_if_def PPQ_def
        is_power_of_two.simps[of 0] split: if_splits intro: Nat.gr0I)
  then have "1 \<le> 3840 div int (denominator s)"
    by (smt (verit) div_by_1 of_nat_0_less_iff pos_imp_zdiv_pos_iff)
  then show beat: "0 < ticks_per_beat s" by (simp add: ticks_per_beat_def PPQ_def)
  have "3840 div int (denominator s) \<le> 3840"
    using zdiv_mono2[of 3840 1 "int (denominator s)"] s(2) by simp
  then show "ticks_per_beat s \<le> 3840" by (simp add: ticks_per_beat_def PPQ_def)
  show "ticks_per_bar s = int (numerator s) * ticks_per_beat s"
    by (simp add: ticks_per_bar_def mult.commute)
  then show "0 < ticks_per_bar s" using beat s(1) by simp
  show "0 < numerator s" "numerator s < 65536" using s by simp_all
qed

section \<open>Edits keep the invariant\<close>

lemma tempo_map_new_ok:
  assumes "tempo_map_new rate tempo meter = Inr m" "rate \<le> u32_max"
    "micros_per_quarter tempo \<le> u32_max" "numerator meter < 2 ^ 16"
  shows "tempo_map_ok m"
  using assms
  by (auto simp: tempo_map_new_def tempo_map_ok_def tempos_ok_def meters_ok_def result_simps
      tempo_validate_def tempo_ok_def signature_ok_def range_simps split: if_splits)

lemma set_tempo_ok:
  assumes ok: "tempo_map_ok m" and run: "set_tempo at tempo m = Inr m'"
    and range: "is_i64 at" "micros_per_quarter tempo \<le> u32_max"
  shows "tempo_map_ok m'"
proof -
  have ts: "tempos_ok (tm_tempos m)" using ok by (simp add: tempo_map_ok_def)
  have at: "0 \<le> at" and tempo: "tempo_ok tempo"
    using run range
    by (auto simp: set_tempo_def result_simps tempo_validate_def tempo_ok_def split: if_splits)
  have "tempos_ok (tm_tempos m')"
  proof (cases "search_by_key tp_at at (tm_tempos m)")
    case (Inl i)
    then have "tm_tempos m' = vec_insert (tm_tempos m) i \<lparr>tp_at = at, tp_tempo = tempo\<rparr>"
      using run at by (auto simp: set_tempo_def result_simps)
    then show ?thesis
      using ts tempo range at Inl ascending_insert[OF _ Inl] hd_vec_insert[OF _ Inl]
      by (simp add: tempos_ok_def vec_insert_ne)
  next
    case (Inr i)
    note found = search_found[OF Inr]
    have "tm_tempos m' = (tm_tempos m)[i := (tm_tempos m ! i)\<lparr>tp_tempo := tempo\<rparr>]"
      using run at Inr by (auto simp: set_tempo_def result_simps)
    then show ?thesis
      using ts tempo range found
      by (auto simp: tempos_ok_def ascending_update hd_list_update
          simp flip: hd_conv_nth dest!: set_update_subset_insert[THEN subsetD])
  qed
  moreover have "tm_meters m' = tm_meters m" "tm_sample_rate m' = tm_sample_rate m"
    using run by (auto simp: set_tempo_def result_simps split: if_splits)
  ultimately show ?thesis using ok by (simp add: tempo_map_ok_def)
qed

lemma remove_tempo_ok:
  assumes ok: "tempo_map_ok m" and run: "remove_tempo at m = Inr (t, m')"
  shows "tempo_map_ok m'"
proof -
  obtain i where i: "search_by_key tp_at at (tm_tempos m) = Inr i" "at \<noteq> 0"
    and m': "m' = m\<lparr>tm_tempos := vec_remove (tm_tempos m) i\<rparr>"
    using run by (auto simp: remove_tempo_def split: if_splits sum.splits)
  have ts: "tempos_ok (tm_tempos m)" using ok by (simp add: tempo_map_ok_def)
  then have "tempos_ok (vec_remove (tm_tempos m) i)"
    using hd_vec_remove[OF i(1)] i(2) set_vec_remove[of "tm_tempos m" i]
    by (auto simp: tempos_ok_def ascending_remove)
  then show ?thesis using ok m' by (simp add: tempo_map_ok_def)
qed

lemma set_meter_ok:
  assumes ok: "tempo_map_ok m" and run: "set_meter at sig m = Inr m'"
    and range: "is_i64 at" "numerator sig < 2 ^ 16"
  shows "tempo_map_ok m'"
proof -
  define ps where "ps = (case search_by_key mp_at at (tm_meters m) of
            Inr i \<Rightarrow> (tm_meters m)[i := (tm_meters m ! i)\<lparr>mp_signature := sig\<rparr>]
          | Inl i \<Rightarrow> vec_insert (tm_meters m) i \<lparr>mp_at = at, mp_signature = sig\<rparr>)"
  have sig: "signature_ok sig" and m': "m' = m\<lparr>tm_meters := ps\<rparr>"
    and valid: "validate_meter_boundaries ps = Inr ()"
    using run range
    by (auto simp: set_meter_def result_simps signature_ok_def Let_def ps_def split: if_splits)
  have "\<forall>p \<in> set ps. is_i64 (mp_at p) \<and> signature_ok (mp_signature p)"
  proof (cases "search_by_key mp_at at (tm_meters m)")
    case (Inl i)
    then show ?thesis using ok sig range by (auto simp: ps_def tempo_map_ok_def meters_ok_def)
  next
    case (Inr i)
    then show ?thesis
      using ok sig search_found[OF Inr]
      by (auto simp: ps_def tempo_map_ok_def meters_ok_def
          dest!: set_update_subset_insert[THEN subsetD])
  qed
  then have "meters_ok ps"
    using valid by (simp add: meters_ok_def validate_meter_boundaries_iff)
  then show ?thesis using ok m' by (simp add: tempo_map_ok_def)
qed

lemma remove_meter_ok:
  assumes ok: "tempo_map_ok m" and run: "remove_meter at m = Inr (s, m')"
  shows "tempo_map_ok m'"
proof -
  obtain i where m': "m' = m\<lparr>tm_meters := vec_remove (tm_meters m) i\<rparr>"
    and valid: "validate_meter_boundaries (vec_remove (tm_meters m) i) = Inr ()"
    using run by (auto simp: remove_meter_def result_simps Let_def split: if_splits sum.splits)
  have "meters_ok (vec_remove (tm_meters m) i)"
    using valid ok set_vec_remove[of "tm_meters m" i]
    by (auto simp: meters_ok_def validate_meter_boundaries_iff tempo_map_ok_def)
  then show ?thesis using ok m' by (simp add: tempo_map_ok_def)
qed

end
