(* ===== verification/Tempo_Bars.thy ===== *)
theory Tempo_Bars
  imports Tempo_Frames
begin

text \<open>
  Bar positions under the invariant of the map: the bar a meter segment starts at, the segment a
  tick or a position lies in, and the inverse conversions between ticks and positions.
\<close>

section \<open>Segments\<close>

definition seg_at :: "TempoMap \<Rightarrow> nat \<Rightarrow> BeatTime" where
  "seg_at m i = mp_at (tm_meters m ! i)"

definition seg_sig :: "TempoMap \<Rightarrow> nat \<Rightarrow> TimeSignature" where
  "seg_sig m i = mp_signature (tm_meters m ! i)"

definition seg_bar :: "TempoMap \<Rightarrow> nat \<Rightarrow> int" where
  "seg_bar m i = ticks_per_bar (seg_sig m i)"

definition seg_count :: "TempoMap \<Rightarrow> nat" where
  "seg_count m = length (tm_meters m)"

lemmas seg_defs = seg_at_def seg_sig_def seg_bar_def seg_count_def

lemma seg_sig_ok:
  assumes "tempo_map_ok m" "i < seg_count m"
  shows "signature_ok (seg_sig m i)"
  using assms by (simp add: tempo_map_ok_def meters_ok_def seg_defs)

lemma seg_bar_bounds:
  assumes "tempo_map_ok m" "i < seg_count m"
  shows "0 < seg_bar m i" "seg_bar m i < 2 ^ 28"
proof -
  note s = signature_ok_pos[OF seg_sig_ok[OF assms]]
  show "0 < seg_bar m i" using s by (simp add: seg_bar_def)
  have "seg_bar m i \<le> 65535 * 3840"
    unfolding seg_bar_def s(4) using s by (intro mult_mono) simp_all
  then show "seg_bar m i < 2 ^ 28" by simp
qed

lemma seg_first:
  assumes "tempo_map_ok m" shows "seg_at m 0 = 0" "0 < seg_count m"
  using assms by (auto simp: tempo_map_ok_def meters_ok_def seg_defs hd_conv_nth)

lemma seg_next:
  assumes "tempo_map_ok m" "Suc i < seg_count m"
  shows "seg_at m i < seg_at m (Suc i)" "(seg_at m (Suc i) - seg_at m i) mod seg_bar m i = 0"
proof -
  have "successively on_bar (tm_meters m)" using assms by (simp add: tempo_map_ok_def meters_ok_def)
  then have "on_bar (tm_meters m ! i) (tm_meters m ! Suc i)"
    using assms(2) by (simp add: successively_conv_nth seg_count_def)
  then show "seg_at m i < seg_at m (Suc i)" "(seg_at m (Suc i) - seg_at m i) mod seg_bar m i = 0"
    by (simp_all add: on_bar_def seg_defs)
qed

lemma seg_at_bounds:
  assumes "tempo_map_ok m" "i < seg_count m"
  shows "is_i64 (seg_at m i)" "0 \<le> seg_at m i"
proof -
  show "is_i64 (seg_at m i)" using assms by (simp add: tempo_map_ok_def meters_ok_def seg_defs)
  show "0 \<le> seg_at m i"
    using assms(2)
  proof (induction i)
    case (Suc i)
    then show ?case using seg_next(1)[OF assms(1), of i] by simp
  qed (use seg_first[OF assms(1)] in simp)
qed

lemma seg_at_mono:
  assumes "tempo_map_ok m" "i < j" "j < seg_count m"
  shows "seg_at m i < seg_at m j"
  using assms(2,3)
proof (induction j)
  case (Suc j)
  then show ?case using seg_next(1)[OF assms(1), of j] by (cases "i = j") auto
qed simp

section \<open>The bar a segment starts at\<close>

lemma windows2_snoc:
  assumes "Suc i < length xs"
  shows "windows2 (take (Suc (Suc i)) xs) = windows2 (take (Suc i) xs) @ [(xs ! i, xs ! Suc i)]"
  using assms
proof (induction xs arbitrary: i)
  case (Cons x xs)
  then show ?case
  proof (cases i)
    case 0
    then show ?thesis using Cons.prems by (cases xs) (simp_all add: windows2_def)
  next
    case (Suc j)
    then obtain y ys where xs: "xs = y # ys" using Cons.prems by (cases xs) auto
    show ?thesis
      using Cons.IH[of j] Cons.prems Suc xs by (simp add: windows2_def)
  qed
qed simp

lemma start_bar_bounds:
  assumes ok: "tempo_map_ok m" and "i < seg_count m"
  shows "0 \<le> meter_start_bar m i \<and> meter_start_bar m i \<le> seg_at m i"
    and start_bar_next: "Suc i < seg_count m \<Longrightarrow> meter_start_bar m (Suc i)
      = meter_start_bar m i + (seg_at m (Suc i) - seg_at m i) div seg_bar m i"
proof -
  have zero: "meter_start_bar m 0 = 0"
    using seg_first[OF ok] by (cases "tm_meters m") (simp_all add: meter_start_bar_def windows2_def)
  have succ: "meter_start_bar m (Suc i) = sat_i64 (meter_start_bar m i
      + (seg_at m (Suc i) - seg_at m i) div seg_bar m i)" if "Suc i < seg_count m" for i
    using that windows2_snoc[of i "tm_meters m"]
    by (simp add: meter_start_bar_def seg_defs)
  have step: "0 \<le> meter_start_bar m i
        + (seg_at m (Suc i) - seg_at m i) div seg_bar m i
      \<and> meter_start_bar m i + (seg_at m (Suc i) - seg_at m i) div seg_bar m i \<le> seg_at m (Suc i)"
    if "Suc i < seg_count m" "0 \<le> meter_start_bar m i \<and> meter_start_bar m i \<le> seg_at m i" for i
  proof -
    have bar: "0 < seg_bar m i" using seg_bar_bounds[OF ok, of i] that(1) by simp
    have d: "0 \<le> seg_at m (Suc i) - seg_at m i" using seg_next(1)[OF ok that(1)] by simp
    have "0 \<le> (seg_at m (Suc i) - seg_at m i) div seg_bar m i"
      using bar d by (simp add: pos_imp_zdiv_nonneg_iff)
    moreover have "(seg_at m (Suc i) - seg_at m i) div seg_bar m i \<le> seg_at m (Suc i) - seg_at m i"
      using zdiv_mono2[of "seg_at m (Suc i) - seg_at m i" 1 "seg_bar m i"] bar d by simp
    ultimately show ?thesis using that(2) by linarith
  qed
  have all: "j < seg_count m \<Longrightarrow> 0 \<le> meter_start_bar m j \<and> meter_start_bar m j \<le> seg_at m j" for j
  proof (induction j)
    case (Suc j)
    then show ?case
      using step[of j] succ[of j] seg_at_bounds[OF ok, of "Suc j"]
      by (auto simp: sat_i64_def range_simps)
  qed (use zero seg_first[OF ok] in simp)
  then show "0 \<le> meter_start_bar m i \<and> meter_start_bar m i \<le> seg_at m i" using assms(2) .
  assume "Suc i < seg_count m"
  then show "meter_start_bar m (Suc i)
      = meter_start_bar m i + (seg_at m (Suc i) - seg_at m i) div seg_bar m i"
    using step[of i] all[of i] succ[of i] seg_at_bounds[OF ok, of "Suc i"]
    by (auto simp: sat_i64_def range_simps)
qed

lemma start_bar_zero: "tempo_map_ok m \<Longrightarrow> meter_start_bar m 0 = 0"
  using start_bar_bounds[of m 0] seg_first[of m] by simp

lemma start_bar_less:
  assumes ok: "tempo_map_ok m" and "Suc i < seg_count m"
  shows "meter_start_bar m i < meter_start_bar m (Suc i)"
proof -
  have bar: "0 < seg_bar m i" using seg_bar_bounds[OF ok, of i] assms(2) by simp
  have "0 < seg_at m (Suc i) - seg_at m i" "seg_bar m i dvd seg_at m (Suc i) - seg_at m i"
    using seg_next[OF ok assms(2)] by auto
  then have "1 \<le> (seg_at m (Suc i) - seg_at m i) div seg_bar m i"
    using bar by (smt (verit) dvd_div_eq_0_iff pos_imp_zdiv_neg_iff)
  then show ?thesis using start_bar_next[OF ok _ assms(2)] assms(2) by simp
qed

lemma start_bar_mono:
  assumes "tempo_map_ok m" "i < j" "j < seg_count m"
  shows "meter_start_bar m i < meter_start_bar m j"
  using assms(2,3)
proof (induction j)
  case (Suc j)
  then show ?case using start_bar_less[OF assms(1), of j] by (cases "i = j") auto
qed simp

section \<open>Finding the segment\<close>

text \<open>\<open>in_segment m i t\<close>: the meter of segment \<open>i\<close> is in force at \<open>t\<close>.\<close>

definition in_segment :: "TempoMap \<Rightarrow> nat \<Rightarrow> BeatTime \<Rightarrow> bool" where
  "in_segment m i t \<longleftrightarrow> i < seg_count m \<and> seg_at m i \<le> t
     \<and> (Suc i < seg_count m \<longrightarrow> t < seg_at m (Suc i))"

lemma in_segment_unique:
  assumes "tempo_map_ok m" "in_segment m i t" "in_segment m j t"
  shows "i = j"
proof -
  have le: "a \<le> b" if "in_segment m a t" "in_segment m b t" for a b
  proof (rule ccontr)
    assume "\<not> a \<le> b"
    then have "Suc b < seg_count m" "Suc b \<le> a" using that by (auto simp: in_segment_def)
    then have "seg_at m (Suc b) \<le> seg_at m a"
      using seg_at_mono[OF assms(1), of "Suc b" a] that(1) by (cases "Suc b = a") (auto simp: in_segment_def)
    then show False using that \<open>Suc b < seg_count m\<close> by (simp add: in_segment_def)
  qed
  show ?thesis using le[of i j] le[of j i] assms by simp
qed

lemma meter_index_segment:
  assumes ok: "tempo_map_ok m" and "0 \<le> t"
  shows "in_segment m (meter_index m t) t"
proof -
  define P where "P = (\<lambda>x :: MeterPoint. mp_at x \<le> t)"
  let ?ps = "tm_meters m"
  define n where "n = length (takeWhile P ?ps)"
  have idx: "meter_index m t = n - 1"
    by (simp add: meter_index_def upper_bound_by_tick_def partition_point_def n_def P_def)
  have first: "P (?ps ! 0)" "0 < length ?ps"
    using seg_first[OF ok] assms(2) by (simp_all add: P_def seg_defs)
  then have "0 < n" by (cases ?ps) (simp_all add: n_def)
  moreover have "n \<le> length ?ps" by (simp add: n_def length_takeWhile_le)
  moreover have "P (?ps ! (n - 1))"
  proof -
    have "takeWhile P ?ps ! (n - 1) \<in> set (takeWhile P ?ps)"
      using \<open>0 < n\<close> by (intro nth_mem) (simp add: n_def)
    moreover have "takeWhile P ?ps ! (n - 1) = ?ps ! (n - 1)"
      using \<open>0 < n\<close> by (intro takeWhile_nth) (simp add: n_def)
    ultimately show ?thesis using set_takeWhileD by metis
  qed
  moreover have "\<not> P (?ps ! n)" if "n < length ?ps"
    using that nth_length_takeWhile[of P ?ps] by (simp add: n_def)
  ultimately show ?thesis
    by (auto simp: in_segment_def idx seg_defs P_def)
qed

lemma select_segment_result:
  assumes ok: "tempo_map_ok m" and "i < seg_count m" "meter_start_bar m i \<le> bar"
  shows "\<exists>j < seg_count m. select_segment m bar (Suc i) (i, meter_start_bar m i) = (j, meter_start_bar m j)
    \<and> meter_start_bar m j \<le> bar \<and> (Suc j < seg_count m \<longrightarrow> bar < meter_start_bar m (Suc j))"
  using assms(2,3)
proof (induction "seg_count m - i" arbitrary: i)
  case 0
  then show ?case by simp
next
  case (Suc k)
  show ?case
  proof (cases "Suc i < seg_count m \<and> meter_start_bar m (Suc i) \<le> bar")
    case True
    then show ?thesis
      using Suc.hyps(1)[of "Suc i"] Suc.hyps(2) by (subst select_segment.simps) (simp add: seg_count_def)
  next
    case False
    then show ?thesis
      using Suc.prems by (subst select_segment.simps) (auto simp: seg_count_def)
  qed
qed

lemma start_bar_unique:
  assumes "tempo_map_ok m" "i < seg_count m" "j < seg_count m"
    "meter_start_bar m i \<le> b" "Suc i < seg_count m \<longrightarrow> b < meter_start_bar m (Suc i)"
    "meter_start_bar m j \<le> b" "Suc j < seg_count m \<longrightarrow> b < meter_start_bar m (Suc j)"
  shows "i = j"
proof -
  have le: "a \<le> c" if "a < seg_count m" "c < seg_count m" "meter_start_bar m a \<le> b"
      "Suc c < seg_count m \<longrightarrow> b < meter_start_bar m (Suc c)" for a c
  proof (rule ccontr)
    assume "\<not> a \<le> c"
    then have "Suc c < seg_count m" "Suc c \<le> a" using that by auto
    then have "meter_start_bar m (Suc c) \<le> meter_start_bar m a"
      using start_bar_mono[OF assms(1), of "Suc c" a] that(1) by (cases "Suc c = a") auto
    then show False using that \<open>Suc c < seg_count m\<close> by simp
  qed
  show ?thesis using le[of i j] le[of j i] assms by auto
qed

end
