(* ===== verification/Tempo_Integral.thy ===== *)
theory Tempo_Integral
  imports Tempo_Frames
begin

text \<open>
  The frame of a tick is the floor of an integral: one tick more adds the microseconds per
  quarter of the tempo in force there, times the sample rate. Hence the conversion is monotone
  and the bisection of the inverse finds its adjoint.
\<close>

section \<open>One tick more\<close>

text \<open>The tempo in force, walking the points after the first one.\<close>

fun tempo_walk :: "BeatTime \<Rightarrow> Tempo \<Rightarrow> TempoPoint list \<Rightarrow> Tempo" where
  "tempo_walk at tempo [] = tempo"
| "tempo_walk at tempo (p # ps) = (if tp_at p \<le> at then tempo_walk at (tp_tempo p) ps else tempo)"

lemma tempo_walk_nth:
  "tp_tempo ((p # ps) ! length (takeWhile (\<lambda>x. tp_at x \<le> at) ps)) = tempo_walk at (tp_tempo p) ps"
  by (induction ps arbitrary: p) auto

lemma tempo_at_walk:
  assumes "tempo_map_ok m"
  shows "tempo_at m at = (if at < 0 then tp_tempo (tm_tempos m ! 0)
    else tempo_walk at (tp_tempo (tm_tempos m ! 0)) (tl (tm_tempos m)))"
proof -
  obtain p ps where ps: "tm_tempos m = p # ps" "tp_at p = 0"
    using assms by (cases "tm_tempos m") (auto simp: tempo_map_ok_def tempos_ok_def)
  show ?thesis
    using ps tempo_walk_nth[of p ps at]
    by (simp add: tempo_at_def tempo_point_at_def upper_bound_by_tick_def partition_point_def)
qed

lemma integrate_acc:
  "integrate rate b acc c t ps = acc + integrate rate b 0 c t ps"
proof (induction ps arbitrary: acc c t)
  case (Cons p ps)
  show ?case
    using Cons.IH[of "acc + (tp_at p - c) * int (micros_per_quarter t) * rate" "tp_at p" "tp_tempo p"]
      Cons.IH[of "(tp_at p - c) * int (micros_per_quarter t) * rate" "tp_at p" "tp_tempo p"]
    by simp
qed simp

lemma integrate_start:
  assumes "ascending tp_at (q # ps)" "tp_at q = c"
  shows "integrate rate c 0 c t ps = 0"
  using assms by (cases ps) auto

lemma integrate_step:
  assumes "ascending tp_at (q # ps)" "tp_at q \<le> b"
  shows "integrate rate (b + 1) 0 (tp_at q) t ps
    = integrate rate b 0 (tp_at q) t ps + int (micros_per_quarter (tempo_walk b t ps)) * rate"
  using assms
proof (induction ps arbitrary: q t)
  case (Cons p ps)
  let ?done = "(tp_at p - tp_at q) * int (micros_per_quarter t) * rate"
  have asc: "ascending tp_at (p # ps)" using Cons.prems(1) by simp
  consider "b < tp_at p" | "b = tp_at p" | "tp_at p < b" by linarith
  then show ?case
  proof cases
    case 1
    then show ?thesis by (simp add: algebra_simps)
  next
    case 2
    have "integrate rate (b + 1) 0 b (tp_tempo p) ps
        = int (micros_per_quarter (tempo_walk b (tp_tempo p) ps)) * rate"
      using Cons.IH[OF asc, of "tp_tempo p"] integrate_start[OF asc, of b rate "tp_tempo p"] 2
      by simp
    then show ?thesis using 2 integrate_acc[of rate "b + 1" ?done] by simp
  next
    case 3
    then show ?thesis
      using Cons.IH[OF asc, of "tp_tempo p"] integrate_acc[of rate "b + 1" ?done]
        integrate_acc[of rate b ?done] by simp
  qed
qed (simp add: algebra_simps)

lemma frame_numerator_step:
  assumes ok: "tempo_map_ok m"
  shows "frame_numerator m (b + 1)
    = frame_numerator m b + int (micros_per_quarter (tempo_at m b)) * int (tm_sample_rate m)"
proof -
  obtain p ps where ps: "tm_tempos m = p # ps" "tp_at p = 0" and asc: "ascending tp_at (p # ps)"
    using ok by (cases "tm_tempos m") (auto simp: tempo_map_ok_def tempos_ok_def)
  consider "b < - 1" | "b = - 1" | "0 \<le> b" by linarith
  then show ?thesis
  proof cases
    case 1
    then show ?thesis
      using ps by (simp add: frame_numerator_def tempo_at_walk[OF ok] Let_def distrib_right)
  next
    case 2
    then show ?thesis
      using ps integrate_start[OF asc, of 0]
      by (simp add: frame_numerator_def tempo_at_walk[OF ok] Let_def)
  next
    case 3
    then show ?thesis
      using ps integrate_step[OF asc, of b]
      by (simp add: frame_numerator_def tempo_at_walk[OF ok] Let_def)
  qed
qed

lemma frame_numerator_zero:
  assumes "tempo_map_ok m" shows "frame_numerator m 0 = 0"
proof -
  obtain p ps where "tm_tempos m = p # ps" "tp_at p = 0" "ascending tp_at (p # ps)"
    using assms by (cases "tm_tempos m") (auto simp: tempo_map_ok_def tempos_ok_def)
  then show ?thesis using integrate_start[of p ps 0] by (simp add: frame_numerator_def)
qed

section \<open>The integral\<close>

text \<open>Microseconds per quarter, summed over the ticks between the origin and a tick.\<close>

definition tempo_integral :: "TempoMap \<Rightarrow> BeatTime \<Rightarrow> int" where
  "tempo_integral m beat =
     (if 0 \<le> beat then (\<Sum>t \<in> {0..<beat}. int (micros_per_quarter (tempo_at m t)))
      else - (\<Sum>t \<in> {beat..<0}. int (micros_per_quarter (tempo_at m t))))"

lemma frame_numerator_up:
  assumes "tempo_map_ok m"
  shows "frame_numerator m (b + int n) = frame_numerator m b
    + (\<Sum>t \<in> {b..<b + int n}. int (micros_per_quarter (tempo_at m t))) * int (tm_sample_rate m)"
proof (induction n)
  case (Suc n)
  have "{b..<b + int (Suc n)} = insert (b + int n) {b..<b + int n}" by auto
  then show ?case
    using Suc frame_numerator_step[OF assms, of "b + int n"] by (simp add: algebra_simps)
qed simp

lemma frame_numerator_integral:
  assumes "tempo_map_ok m"
  shows "frame_numerator m b = tempo_integral m b * int (tm_sample_rate m)"
proof (cases "0 \<le> b")
  case True
  then show ?thesis
    using frame_numerator_up[OF assms, of 0 "nat b"] frame_numerator_zero[OF assms]
    by (simp add: tempo_integral_def)
next
  case False
  then show ?thesis
    using frame_numerator_up[OF assms, of b "nat (- b)"] frame_numerator_zero[OF assms]
    by (simp add: tempo_integral_def)
qed

lemma tempo_at_ok:
  assumes "tempo_map_ok m" shows "tempo_ok (tempo_at m t)"
proof -
  have "tm_tempos m \<noteq> []" and all: "\<forall>p \<in> set (tm_tempos m). tempo_ok (tp_tempo p)"
    using assms by (auto simp: tempo_map_ok_def tempos_ok_def)
  then have "upper_bound_by_tick (tm_tempos m) t tp_at - 1 < length (tm_tempos m)"
    using length_takeWhile_le[of "\<lambda>x. tp_at x \<le> t" "tm_tempos m"]
    by (simp add: upper_bound_by_tick_def partition_point_def less_imp_diff_less
        le_neq_implies_less Suc_diff_le less_Suc_eq_le flip: length_greater_0_conv)
  then show ?thesis using all by (simp add: tempo_at_def tempo_point_at_def)
qed

lemma frame_numerator_mono:
  assumes "tempo_map_ok m" "a \<le> b"
  shows "frame_numerator m a \<le> frame_numerator m b"
proof -
  have "b = a + int (nat (b - a))" using assms(2) by simp
  then have "frame_numerator m b = frame_numerator m a
    + (\<Sum>t \<in> {a..<b}. int (micros_per_quarter (tempo_at m t))) * int (tm_sample_rate m)"
    using frame_numerator_up[OF assms(1)] by metis
  moreover have "0 \<le> (\<Sum>t \<in> {a..<b}. int (micros_per_quarter (tempo_at m t))) * int (tm_sample_rate m)"
    by (intro mult_nonneg_nonneg sum_nonneg) simp_all
  ultimately show ?thesis by simp
qed

lemma beat_to_frame_mono:
  assumes "tempo_map_ok m" "a \<le> b"
  shows "beat_to_frame m a \<le> beat_to_frame m b"
  unfolding beat_to_frame_def
  by (intro sat_i64_mono zdiv_mono1 frame_numerator_mono assms)
    (simp add: PPQ_def MICROS_PER_SECOND_def)

section \<open>The bisection\<close>

lemma bisect_bounds:
  assumes "low \<le> high"
  shows "low \<le> bisect_beat m f low high \<and> bisect_beat m f low high \<le> high"
  using assms
proof (induction m f low high rule: bisect_beat.induct)
  case (1 m f low high)
  let ?mid = "low + (high - low + 1) div 2"
  show ?case
  proof (cases "low < high")
    case True
    then have "low < ?mid" "?mid \<le> high" by linarith+
    then show ?thesis
      using 1 True by (subst (1 2) bisect_beat.simps) (auto simp: Let_def)
  qed (use 1 in \<open>simp add: bisect_beat.simps\<close>)
qed

lemma bisect_adjoint:
  assumes "tempo_map_ok m" "low \<le> high" "beat_to_frame m low \<le> f" "low \<le> b" "b \<le> high"
  shows "b \<le> bisect_beat m f low high \<longleftrightarrow> beat_to_frame m b \<le> f"
  using assms
proof (induction m f low high rule: bisect_beat.induct)
  case (1 m f low high)
  define mid where "mid = low + (high - low + 1) div 2"
  show ?case
  proof (cases "low < high")
    case True
    then have mid: "low < mid" "mid \<le> high" by (auto simp: mid_def)
    show ?thesis
    proof (cases "beat_to_frame m mid \<le> f")
      case yes: True
      have eq: "bisect_beat m f low high = bisect_beat m f mid high"
        using True yes by (subst bisect_beat.simps) (simp add: mid_def)
      show ?thesis
      proof (cases "mid \<le> b")
        case True
        then show ?thesis
          unfolding eq using 1 yes mid \<open>low < high\<close> by (auto simp: mid_def)
      next
        case False
        then have "beat_to_frame m b \<le> f"
          using beat_to_frame_mono[OF 1(3), of b mid] yes by simp
        then show ?thesis
          unfolding eq using bisect_bounds[OF mid(2), of m f] False by simp
      qed
    next
      case no: False
      have eq: "bisect_beat m f low high = bisect_beat m f low (mid - 1)"
        using True no by (subst bisect_beat.simps) (simp add: mid_def)
      show ?thesis
      proof (cases "b \<le> mid - 1")
        case le: True
        show ?thesis
          unfolding eq using "1.IH"(2)[OF True mid_def no] 1(3-6) mid le by auto
      next
        case False
        then have "\<not> beat_to_frame m b \<le> f"
          using beat_to_frame_mono[OF 1(3), of mid b] no by simp
        then show ?thesis
          unfolding eq using bisect_bounds[of low "mid - 1" m f] False mid by simp
      qed
    qed
  qed (use 1 in \<open>simp add: bisect_beat.simps\<close>)
qed

lemma floor_adjoint:
  assumes "tempo_map_ok m" "beat_to_frame m i64_min \<le> f" "is_i64 b"
  shows "b \<le> frame_to_beat_floor m f \<longleftrightarrow> beat_to_frame m b \<le> f"
  unfolding frame_to_beat_floor_def
  by (rule bisect_adjoint) (use assms in \<open>simp_all add: range_simps\<close>)

lemma frame_to_beat_floor_i64: "is_i64 (frame_to_beat_floor m f)"
  using bisect_bounds[of i64_min i64_max m f]
  by (simp add: frame_to_beat_floor_def range_simps)

lemma first_beat_adjoint:
  assumes ok: "tempo_map_ok m" and f: "beat_to_frame m i64_min < f" "f \<le> beat_to_frame m i64_max"
    and b: "is_i64 b"
  shows "first_beat_at_or_after_frame m f \<le> b \<longleftrightarrow> f \<le> beat_to_frame m b"
proof -
  let ?prior = "frame_to_beat_floor m (f - 1)"
  have le: "c \<le> ?prior \<longleftrightarrow> beat_to_frame m c \<le> f - 1" if "is_i64 c" for c
    using floor_adjoint[OF ok _ that] f by simp
  have "\<not> i64_max \<le> ?prior" using le[of i64_max] f by (simp add: range_simps)
  then have "is_i64 (?prior + 1)"
    using frame_to_beat_floor_i64[of m "f - 1"] by (simp add: range_simps)
  moreover have "f \<noteq> i64_min"
  proof -
    have "i64_min \<le> beat_to_frame m i64_min"
      by (simp add: beat_to_frame_def sat_i64_def)
    then show ?thesis using f(1) by simp
  qed
  ultimately have "first_beat_at_or_after_frame m f = ?prior + 1"
    by (simp add: first_beat_at_or_after_frame_def sat_i64_id)
  then show ?thesis using le[OF b] by auto
qed

end
