(* ===== verification/Tempo_Positions.thy ===== *)
theory Tempo_Positions
  imports Tempo_Bars Tempo_Integral
begin

text \<open>
  The round trips between ticks and bar positions, the bar lines around a tick, the bar lines at
  which a meter change is accepted, and the maps that the edits can reach.
\<close>

section \<open>From a tick to its position and back\<close>

text \<open>The segment and the bar number a position is counted from.\<close>

definition origin_of :: "TempoMap \<Rightarrow> BeatTime \<Rightarrow> nat" where
  "origin_of m t = (if t < 0 then 0 else meter_index m t)"

lemma origin_of_segment:
  assumes "tempo_map_ok m"
  shows "origin_of m t < seg_count m"
    "t < 0 \<Longrightarrow> origin_of m t = 0"
    "0 \<le> t \<Longrightarrow> in_segment m (origin_of m t) t"
  using meter_index_segment[OF assms, of t] seg_first[OF assms]
  by (auto simp: origin_of_def in_segment_def)

lemma origin_of_eq:
  assumes "tempo_map_ok m" "in_segment m i t"
  shows "origin_of m t = i"
proof -
  have "0 \<le> t" using seg_at_bounds(2)[OF assms(1), of i] assms(2) by (simp add: in_segment_def)
  then show ?thesis
    using in_segment_unique[OF assms(1) meter_index_segment[OF assms(1)] assms(2)]
    by (simp add: origin_of_def)
qed

lemma div_less_of_mult:
  fixes a b q :: int
  assumes "0 < b" "a < q * b"
  shows "a div b < q"
proof -
  have "a div b * b \<le> a" using assms(1) by (simp add: minus_mod_eq_div_mult[symmetric])
  then show ?thesis using assms by (smt (verit) mult_less_cancel_right)
qed

lemma less_of_div:
  fixes a b q :: int
  assumes "0 < b" "a div b < q"
  shows "a < q * b"
proof -
  have "a = a div b * b + a mod b" by simp
  moreover have "a mod b < b" using assms(1) by simp
  moreover have "(a div b + 1) * b \<le> q * b" using assms by (intro mult_right_mono) auto
  ultimately show ?thesis unfolding distrib_right by linarith
qed

definition bar_number :: "TempoMap \<Rightarrow> BeatTime \<Rightarrow> int" where
  "bar_number m t = (let i = origin_of m t
     in meter_start_bar m i + (t - seg_at m i) div seg_bar m i)"

lemma div_by_positive_bounds:
  fixes a b :: int
  assumes "0 < b"
  shows "0 \<le> a \<Longrightarrow> 0 \<le> a div b \<and> a div b \<le> a" "a < 0 \<Longrightarrow> a \<le> a div b \<and> a div b < 0"
proof -
  show "0 \<le> a \<Longrightarrow> 0 \<le> a div b \<and> a div b \<le> a"
    using zdiv_mono2[of a 1 b] assms by (simp add: pos_imp_zdiv_nonneg_iff)
  assume a: "a < 0"
  then have "a div b < 0" using assms by (simp add: pos_imp_zdiv_neg_iff)
  moreover have "a \<le> a div b" using zdiv_mono2_neg[of a 1 b] a assms by simp
  ultimately show "a \<le> a div b \<and> a div b < 0" by simp
qed

lemma bar_number_bounds:
  assumes ok: "tempo_map_ok m" and t: "is_i64 t"
  shows "is_i64 (bar_number m t)" "bar_number m t < 0 \<longleftrightarrow> t < 0"
proof -
  let ?i = "origin_of m t"
  have bar: "0 < seg_bar m ?i" using seg_bar_bounds[OF ok] origin_of_segment[OF ok] by simp
  show "is_i64 (bar_number m t)"
  proof (cases "t < 0")
    case True
    then show ?thesis
      using div_by_positive_bounds(2)[OF bar, of t] t origin_of_segment(2)[OF ok True]
        start_bar_zero[OF ok] seg_first[OF ok]
      by (simp add: bar_number_def range_simps)
  next
    case False
    then have "in_segment m ?i t" using origin_of_segment[OF ok] by simp
    then show ?thesis
      using div_by_positive_bounds(1)[OF bar, of "t - seg_at m ?i"] t start_bar_bounds[OF ok, of ?i]
      by (simp add: bar_number_def range_simps in_segment_def Let_def)
  qed
  show "bar_number m t < 0 \<longleftrightarrow> t < 0"
  proof (cases "t < 0")
    case True
    then show ?thesis
      using div_by_positive_bounds(2)[OF bar, of t] origin_of_segment(2)[OF ok True]
        start_bar_zero[OF ok] seg_first[OF ok]
      by (simp add: bar_number_def)
  next
    case False
    then have "in_segment m ?i t" using origin_of_segment[OF ok] by simp
    then show ?thesis
      using div_by_positive_bounds(1)[OF bar, of "t - seg_at m ?i"] start_bar_bounds[OF ok, of ?i] False
      by (simp add: bar_number_def in_segment_def Let_def)
  qed
qed

lemma within_bar_digits:
  assumes "signature_ok s" "0 \<le> w" "w < ticks_per_bar s"
  shows "0 \<le> w div ticks_per_beat s" "w div ticks_per_beat s < int (numerator s)"
    "0 \<le> w mod ticks_per_beat s" "w mod ticks_per_beat s < ticks_per_beat s"
proof -
  note s = signature_ok_pos[OF assms(1)]
  show "0 \<le> w div ticks_per_beat s" using s assms by (simp add: pos_imp_zdiv_nonneg_iff)
  show "w div ticks_per_beat s < int (numerator s)"
    using assms(3) s(1,4) by (simp add: div_less_of_mult)
  show "0 \<le> w mod ticks_per_beat s" "w mod ticks_per_beat s < ticks_per_beat s" using s by simp_all
qed

lemma musical_position_eq:
  assumes ok: "tempo_map_ok m" and t: "is_i64 t"
  defines "i \<equiv> origin_of m t"
  defines "w \<equiv> (t - seg_at m i) mod seg_bar m i"
  shows "musical_position m t = \<lparr>pos_bar = bar_number m t,
    pos_beat = nat (w div ticks_per_beat (seg_sig m i)),
    pos_tick = nat (w mod ticks_per_beat (seg_sig m i))\<rparr>"
proof -
  have i: "i < seg_count m" using origin_of_segment[OF ok] by (simp add: i_def)
  note sig = seg_sig_ok[OF ok i]
  have "0 \<le> w" "w < ticks_per_bar (seg_sig m i)"
    using seg_bar_bounds[OF ok i] by (simp_all add: w_def seg_bar_def)
  from within_bar_digits[OF sig this] signature_ok_pos[OF sig]
  have "w div ticks_per_beat (seg_sig m i) < 65536" "w mod ticks_per_beat (seg_sig m i) < 65536"
    by linarith+
  then have digits: "nat (w div ticks_per_beat (seg_sig m i)) mod 2 ^ 16 = nat (w div ticks_per_beat (seg_sig m i))"
    "nat (w mod ticks_per_beat (seg_sig m i)) mod 2 ^ 16 = nat (w mod ticks_per_beat (seg_sig m i))"
    by (simp_all add: nat_less_iff)
  have "musical_position m t
    = position_within_segment t (seg_at m i) (meter_start_bar m i) (seg_sig m i)"
    using start_bar_zero[OF ok] seg_first[OF ok]
    by (simp add: musical_position_def i_def origin_of_def seg_defs Let_def)
  also have "\<dots> = \<lparr>pos_bar = bar_number m t,
    pos_beat = nat (w div ticks_per_beat (seg_sig m i)),
    pos_tick = nat (w mod ticks_per_beat (seg_sig m i))\<rparr>"
    using digits bar_number_bounds(1)[OF ok t]
    by (simp add: position_within_segment_def Let_def w_def seg_bar_def bar_number_def i_def sat_i64_id)
  finally show ?thesis .
qed

text \<open>The segment \<open>beat_at_position\<close> selects for a bar number.\<close>

lemma selected_segment:
  assumes ok: "tempo_map_ok m"
  obtains j where "j < seg_count m" "(if bar < 0 then (0, 0) else select_segment m bar 1 (0, 0))
      = (j, meter_start_bar m j)"
    "bar < 0 \<Longrightarrow> j = 0" "0 \<le> bar \<Longrightarrow> meter_start_bar m j \<le> bar"
    "0 \<le> bar \<Longrightarrow> Suc j < seg_count m \<Longrightarrow> bar < meter_start_bar m (Suc j)"
  using select_segment_result[OF ok, of 0 bar] start_bar_zero[OF ok] seg_first[OF ok] that
  by (cases "bar < 0") auto

definition exact_tick :: "TempoMap \<Rightarrow> nat \<Rightarrow> MusicalPosition \<Rightarrow> int" where
  "exact_tick m j p = seg_at m j + (pos_bar p - meter_start_bar m j) * seg_bar m j
     + int (pos_beat p) * ticks_per_beat (seg_sig m j) + int (pos_tick p)"

lemma beat_at_position_eq:
  assumes "(if pos_bar p < 0 then (0, 0) else select_segment m (pos_bar p) 1 (0, 0))
      = (j, meter_start_bar m j)"
  shows "beat_at_position m p =
    (if numerator (seg_sig m j) \<le> pos_beat p \<or> ticks_per_beat (seg_sig m j) \<le> int (pos_tick p)
     then Inl InvalidMusicalPosition else Inr (sat_i64 (exact_tick m j p)))"
  using assms by (simp add: beat_at_position_def exact_tick_def seg_defs Let_def split: prod.split)

lemma bar_of_segment:
  assumes ok: "tempo_map_ok m" and seg: "in_segment m i t"
  shows "Suc i < seg_count m \<Longrightarrow>
    meter_start_bar m i + (t - seg_at m i) div seg_bar m i < meter_start_bar m (Suc i)"
proof -
  assume next_seg: "Suc i < seg_count m"
  have bar: "0 < seg_bar m i" using seg_bar_bounds[OF ok, of i] next_seg by simp
  obtain q where q: "seg_at m (Suc i) - seg_at m i = seg_bar m i * q"
    using seg_next(2)[OF ok next_seg] by (metis dvd_def mod_0_imp_dvd)
  have "t - seg_at m i < seg_bar m i * q" using seg next_seg q by (simp add: in_segment_def)
  then have "(t - seg_at m i) div seg_bar m i < q"
    using bar by (simp add: div_less_of_mult mult.commute)
  moreover have "(seg_at m (Suc i) - seg_at m i) div seg_bar m i = q" using q bar by simp
  ultimately show ?thesis using start_bar_next[OF ok _ next_seg] next_seg by simp
qed

lemma selects_origin:
  assumes ok: "tempo_map_ok m" and t: "is_i64 t"
  shows "(if bar_number m t < 0 then (0, 0) else select_segment m (bar_number m t) 1 (0, 0))
    = (origin_of m t, meter_start_bar m (origin_of m t))"
proof -
  let ?i = "origin_of m t"
  obtain j where j: "j < seg_count m"
    "(if bar_number m t < 0 then (0, 0) else select_segment m (bar_number m t) 1 (0, 0))
      = (j, meter_start_bar m j)"
    "bar_number m t < 0 \<Longrightarrow> j = 0" "0 \<le> bar_number m t \<Longrightarrow> meter_start_bar m j \<le> bar_number m t"
    "0 \<le> bar_number m t \<Longrightarrow> Suc j < seg_count m \<Longrightarrow> bar_number m t < meter_start_bar m (Suc j)"
    using selected_segment[OF ok, of "bar_number m t"] by blast
  have "j = ?i"
  proof (cases "t < 0")
    case True
    then show ?thesis using j(3) bar_number_bounds(2)[OF ok t] origin_of_segment(2)[OF ok] by simp
  next
    case False
    then have seg: "in_segment m ?i t" using origin_of_segment[OF ok] by simp
    have bar: "0 < seg_bar m ?i" using seg_bar_bounds[OF ok] seg by (simp add: in_segment_def)
    have "meter_start_bar m ?i \<le> bar_number m t"
      using seg div_by_positive_bounds(1)[OF bar, of "t - seg_at m ?i"]
      by (simp add: bar_number_def in_segment_def Let_def)
    moreover have "Suc ?i < seg_count m \<longrightarrow> bar_number m t < meter_start_bar m (Suc ?i)"
      using bar_of_segment[OF ok seg] by (simp add: bar_number_def Let_def)
    ultimately show ?thesis
      using start_bar_unique[OF ok j(1)] j(4,5) bar_number_bounds(2)[OF ok t] False
        origin_of_segment(1)[OF ok] by auto
  qed
  then show ?thesis using j(2) by simp
qed

lemma position_of_tick:
  assumes ok: "tempo_map_ok m" and t: "is_i64 t"
  shows "beat_at_position m (musical_position m t) = Inr t"
proof -
  let ?i = "origin_of m t"
  let ?w = "(t - seg_at m ?i) mod seg_bar m ?i" and ?beat = "ticks_per_beat (seg_sig m ?i)"
  have i: "?i < seg_count m" using origin_of_segment[OF ok] by simp
  note sig = seg_sig_ok[OF ok i]
  have w: "0 \<le> ?w" "?w < ticks_per_bar (seg_sig m ?i)"
    using seg_bar_bounds[OF ok i] by (simp_all flip: seg_bar_def)
  note digits = within_bar_digits[OF sig w]
  have "bar_number m t - meter_start_bar m ?i = (t - seg_at m ?i) div seg_bar m ?i"
    by (simp add: bar_number_def Let_def)
  then have "exact_tick m ?i (musical_position m t)
      = seg_at m ?i + (t - seg_at m ?i) div seg_bar m ?i * seg_bar m ?i + (?w div ?beat * ?beat + ?w mod ?beat)"
    using digits by (simp add: exact_tick_def musical_position_eq[OF ok t])
  also have "\<dots> = seg_at m ?i + ((t - seg_at m ?i) div seg_bar m ?i * seg_bar m ?i + ?w)"
    by (simp only: div_mult_mod_eq add.assoc)
  also have "\<dots> = t" unfolding div_mult_mod_eq by simp
  finally have exact: "exact_tick m ?i (musical_position m t) = t" .
  note pos = musical_position_eq[OF ok t]
  have "(if pos_bar (musical_position m t) < 0 then (0, 0)
      else select_segment m (pos_bar (musical_position m t)) 1 (0, 0)) = (?i, meter_start_bar m ?i)"
    using selects_origin[OF ok t] unfolding pos MusicalPosition.select_convs .
  moreover have "pos_beat (musical_position m t) < numerator (seg_sig m ?i)"
    "int (pos_tick (musical_position m t)) < ?beat"
    using digits by (simp_all add: pos nat_less_iff)
  ultimately show ?thesis
    using beat_at_position_eq[of "musical_position m t" m ?i] exact t by (simp add: sat_i64_id)
qed

lemma tick_of_position:
  assumes ok: "tempo_map_ok m" and run: "beat_at_position m p = Inr t"
    and inner: "i64_min < t" "t < i64_max"
  shows "musical_position m t = p"
proof -
  obtain j where j: "j < seg_count m"
    "(if pos_bar p < 0 then (0, 0) else select_segment m (pos_bar p) 1 (0, 0))
      = (j, meter_start_bar m j)"
    "pos_bar p < 0 \<Longrightarrow> j = 0" "0 \<le> pos_bar p \<Longrightarrow> meter_start_bar m j \<le> pos_bar p"
    "0 \<le> pos_bar p \<Longrightarrow> Suc j < seg_count m \<Longrightarrow> pos_bar p < meter_start_bar m (Suc j)"
    using selected_segment[OF ok, of "pos_bar p"] by blast
  note sig = seg_sig_ok[OF ok j(1)]
  note pos = signature_ok_pos[OF sig]
  let ?beat = "ticks_per_beat (seg_sig m j)"
  define w where "w = int (pos_beat p) * ?beat + int (pos_tick p)"
  have fits: "pos_beat p < numerator (seg_sig m j)" "int (pos_tick p) < ?beat"
    and sat: "t = sat_i64 (exact_tick m j p)"
    using run by (auto simp: beat_at_position_eq[OF j(2)] split: if_splits)
  have exact: "t = seg_at m j + (pos_bar p - meter_start_bar m j) * seg_bar m j + w"
    using sat inner by (auto simp: sat_i64_def exact_tick_def w_def range_simps)
  have "int (pos_beat p) * ?beat \<le> (int (numerator (seg_sig m j)) - 1) * ?beat"
    using fits(1) pos(1) by (intro mult_right_mono) auto
  then have "w < int (numerator (seg_sig m j)) * ?beat"
    using fits(2) by (simp add: w_def algebra_simps)
  then have w: "0 \<le> w" "w < seg_bar m j" using pos(1) pos(4) by (simp_all add: w_def seg_bar_def)
  have bar: "0 < seg_bar m j" using seg_bar_bounds[OF ok j(1)] by simp
  have rel: "t - seg_at m j = (pos_bar p - meter_start_bar m j) * seg_bar m j + w"
    using exact by simp
  have quot: "(t - seg_at m j) div seg_bar m j = pos_bar p - meter_start_bar m j"
    and rest: "(t - seg_at m j) mod seg_bar m j = w"
    unfolding rel using w bar by simp_all
  have origin: "origin_of m t = j"
  proof (cases "pos_bar p < 0")
    case True
    then have "(t - seg_at m j) div seg_bar m j < 0"
      using quot j(3) start_bar_zero[OF ok] by simp
    then have "t < 0" using bar j(3)[OF True] seg_first[OF ok] by (simp add: pos_imp_zdiv_neg_iff)
    then show ?thesis using j(3)[OF True] by (simp add: origin_of_def)
  next
    case False
    then have "0 \<le> (t - seg_at m j) div seg_bar m j" using quot j(4) by simp
    then have low: "seg_at m j \<le> t" using bar by (simp add: pos_imp_zdiv_nonneg_iff)
    have "t < seg_at m (Suc j)" if "Suc j < seg_count m"
      using that
    proof -
      assume "Suc j < seg_count m"
      obtain q where q: "seg_at m (Suc j) - seg_at m j = seg_bar m j * q"
        using seg_next(2)[OF ok \<open>Suc j < seg_count m\<close>] by (metis dvd_def mod_0_imp_dvd)
      have "pos_bar p - meter_start_bar m j < q"
        using j(5)[OF _ \<open>Suc j < seg_count m\<close>] False
          start_bar_next[OF ok j(1) \<open>Suc j < seg_count m\<close>] q bar by simp
      then have "(t - seg_at m j) div seg_bar m j < q" using quot by simp
      then have "t - seg_at m j < seg_bar m j * q"
        using bar less_of_div[of "seg_bar m j" "t - seg_at m j" q] by (simp add: mult.commute)
      then show ?thesis using q by simp
    qed
    then show ?thesis using low j(1) origin_of_eq[OF ok, of j t] by (simp add: in_segment_def)
  qed
  have "w div ?beat = int (pos_beat p)" "w mod ?beat = int (pos_tick p)"
    using fits(2) pos(1) by (simp_all add: w_def)
  moreover have "bar_number m t = pos_bar p" using quot origin by (simp add: bar_number_def)
  moreover have "is_i64 t" using inner by (simp add: range_simps)
  ultimately show ?thesis
    using musical_position_eq[OF ok, of t] origin rest by simp
qed

section \<open>Bar lines\<close>

lemma meter_at_origin:
  assumes "tempo_map_ok m"
  shows "meter_at m t = seg_sig m (origin_of m t)"
proof (cases "t < 0")
  case True
  then have "takeWhile (\<lambda>x. mp_at x \<le> t) (tm_meters m) = []"
    using seg_first[OF assms] by (cases "tm_meters m") (auto simp: seg_defs)
  then show ?thesis
    using True by (simp add: meter_at_def meter_index_def origin_of_def seg_sig_def
        upper_bound_by_tick_def partition_point_def)
qed (simp add: meter_at_def origin_of_def seg_sig_def)

lemma bar_start_eq:
  "bar_start m t = sat_i64 (seg_at m (origin_of m t)
     + (t - seg_at m (origin_of m t)) div seg_bar m (origin_of m t) * seg_bar m (origin_of m t))"
  by (simp add: bar_start_def origin_of_def seg_defs Let_def)

lemma position_on_line:
  assumes ok: "tempo_map_ok m" and t: "is_i64 t"
    and line: "(t - seg_at m (origin_of m t)) mod seg_bar m (origin_of m t) = 0"
  shows "musical_position m t = \<lparr>pos_bar = bar_number m t, pos_beat = 0, pos_tick = 0\<rparr>"
  using musical_position_eq[OF ok t] line by simp

definition far_from_ends :: "BeatTime \<Rightarrow> bool" where
  "far_from_ends t \<longleftrightarrow> i64_min + 2 ^ 28 \<le> t \<and> t \<le> i64_max - 2 ^ 28"

lemma bar_start_line:
  assumes ok: "tempo_map_ok m" and t: "far_from_ends t"
  defines "i \<equiv> origin_of m t"
  defines "s \<equiv> seg_at m i + (t - seg_at m i) div seg_bar m i * seg_bar m i"
  shows "bar_start m t = s" "s \<le> t" "t < s + seg_bar m i" "origin_of m s = i"
    "bar_number m s = bar_number m t" "(s - seg_at m i) mod seg_bar m i = 0" "is_i64 s"
proof -
  have i: "i < seg_count m" using origin_of_segment[OF ok] by (simp add: i_def)
  note bar = seg_bar_bounds[OF ok i]
  have split: "t = s + (t - seg_at m i) mod seg_bar m i"
    using div_mult_mod_eq[of "t - seg_at m i" "seg_bar m i"] unfolding s_def by linarith
  moreover have "0 \<le> (t - seg_at m i) mod seg_bar m i" "(t - seg_at m i) mod seg_bar m i < seg_bar m i"
    using bar by simp_all
  ultimately show le: "s \<le> t" and lt: "t < s + seg_bar m i" by linarith+
  show i64: "is_i64 s" using le lt bar t by (simp add: far_from_ends_def range_simps)
  then show "bar_start m t = s" by (simp add: bar_start_eq s_def i_def sat_i64_id)
  show line: "(s - seg_at m i) mod seg_bar m i = 0" by (simp add: s_def)
  show origin: "origin_of m s = i"
  proof (cases "t < 0")
    case True
    then show ?thesis using le by (simp add: origin_of_def i_def)
  next
    case False
    then have seg: "in_segment m i t" using origin_of_segment[OF ok] by (simp add: i_def)
    then have "0 \<le> (t - seg_at m i) div seg_bar m i"
      using bar by (simp add: in_segment_def pos_imp_zdiv_nonneg_iff)
    then have "seg_at m i \<le> s" using bar by (simp add: s_def)
    then show ?thesis
      using seg le by (intro origin_of_eq[OF ok]) (auto simp: in_segment_def)
  qed
  have "(s - seg_at m i) div seg_bar m i = (t - seg_at m i) div seg_bar m i"
    using bar by (simp add: s_def)
  then show "bar_number m s = bar_number m t"
    using origin by (simp add: bar_number_def i_def Let_def)
qed

lemma next_bar_line:
  assumes ok: "tempo_map_ok m" and t: "far_from_ends t"
  defines "i \<equiv> origin_of m t"
  defines "n \<equiv> bar_start m t + seg_bar m i"
  shows "next_bar_start m t = n" "is_i64 n" "bar_number m n = bar_number m t + 1"
    "(n - seg_at m (origin_of m n)) mod seg_bar m (origin_of m n) = 0"
proof -
  note s = bar_start_line[OF ok t, folded i_def]
  have i: "i < seg_count m" using origin_of_segment[OF ok] by (simp add: i_def)
  note bar = seg_bar_bounds[OF ok i]
  let ?q = "(t - seg_at m i) div seg_bar m i"
  have start: "bar_start m t = seg_at m i + ?q * seg_bar m i" using s(1) by simp
  have n: "n = seg_at m i + (?q + 1) * seg_bar m i" by (simp add: n_def start algebra_simps)
  show i64: "is_i64 n" using s(2,3) bar t by (simp add: n_def s(1) far_from_ends_def range_simps)
  then show "next_bar_start m t = n"
    using s(4) by (simp add: next_bar_start_def meter_at_origin[OF ok] s(1) n_def seg_bar_def sat_i64_id)
  have rel: "(n - seg_at m i) div seg_bar m i = ?q + 1" "(n - seg_at m i) mod seg_bar m i = 0"
    using bar by (simp_all add: n)
  have goal: "bar_number m n = bar_number m t + 1
      \<and> (n - seg_at m (origin_of m n)) mod seg_bar m (origin_of m n) = 0"
    if "origin_of m n = i"
    using that rel by (simp add: bar_number_def i_def Let_def)
  have both: "bar_number m n = bar_number m t + 1
      \<and> (n - seg_at m (origin_of m n)) mod seg_bar m (origin_of m n) = 0"
  proof (cases "t < 0")
    case True
    then have "i = 0" by (simp add: i_def origin_of_def)
    then have "?q < 0" using True bar seg_first[OF ok] by (simp add: pos_imp_zdiv_neg_iff)
    then have "(?q + 1) * seg_bar m 0 \<le> 0"
      using bar \<open>i = 0\<close> by (intro mult_nonpos_nonneg) auto
    then have "n \<le> 0" using n \<open>i = 0\<close> seg_first[OF ok] by simp
    moreover have "in_segment m 0 0"
      using seg_first[OF ok] seg_next(1)[OF ok, of 0] by (simp add: in_segment_def)
    ultimately have "origin_of m n = i"
      using \<open>i = 0\<close> origin_of_eq[OF ok, of 0 0] by (cases "n < 0") (auto simp: origin_of_def)
    then show ?thesis by (rule goal)
  next
    case False
    then have seg: "in_segment m i t" using origin_of_segment[OF ok] by (simp add: i_def)
    have low: "seg_at m i \<le> n"
      using seg s(2,3) by (simp add: n_def s(1) in_segment_def)
    show ?thesis
    proof (cases "Suc i < seg_count m \<and> seg_at m (Suc i) \<le> n")
      case True
      then have next_seg: "Suc i < seg_count m" by simp
      obtain q where q: "seg_at m (Suc i) - seg_at m i = seg_bar m i * q"
        using seg_next(2)[OF ok next_seg] by (metis dvd_def mod_0_imp_dvd)
      have "t - seg_at m i < q * seg_bar m i"
        using seg next_seg q by (simp add: in_segment_def mult.commute)
      then have "?q < q" using div_less_of_mult[OF bar(1)] by simp
      then have "(?q + 1) * seg_bar m i \<le> q * seg_bar m i"
        using bar by (intro mult_right_mono) auto
      then have at: "n = seg_at m (Suc i)" using n q True by (simp add: mult.commute)
      then have "in_segment m (Suc i) n"
        using next_seg seg_next(1)[OF ok, of "Suc i"] by (auto simp: in_segment_def)
      then have origin: "origin_of m n = Suc i" by (rule origin_of_eq[OF ok])
      have "bar_number m n = meter_start_bar m i + (n - seg_at m i) div seg_bar m i"
        using origin at start_bar_next[OF ok i next_seg] by (simp add: bar_number_def)
      also have "\<dots> = bar_number m t + 1" using rel by (simp add: bar_number_def i_def Let_def)
      finally show ?thesis using origin at by simp
    next
      case False
      then have "in_segment m i n" using i low by (auto simp: in_segment_def)
      then show ?thesis by (intro goal origin_of_eq[OF ok])
    qed
  qed
  then show "bar_number m n = bar_number m t + 1"
    "(n - seg_at m (origin_of m n)) mod seg_bar m (origin_of m n) = 0" by simp_all
qed

section \<open>Meter changes\<close>

lemma bar_start_at_line:
  assumes ok: "tempo_map_ok m" and "is_i64 t" "in_segment m i t"
    "(t - seg_at m i) mod seg_bar m i = 0"
  shows "bar_start m t = t"
proof -
  have "seg_at m i + (t - seg_at m i) div seg_bar m i * seg_bar m i = t"
    using div_mult_mod_eq[of "t - seg_at m i" "seg_bar m i"] assms(4) by linarith
  then show ?thesis
    using origin_of_eq[OF ok assms(3)] assms(2) by (simp add: bar_start_eq sat_i64_id)
qed

lemma meter_change_on_line:
  assumes ok: "tempo_map_ok m" and at: "is_i64 at" and run: "set_meter at sig m = Inr m'"
  shows "bar_start m at = at"
proof -
  have asc: "ascending mp_at (tm_meters m)" and "0 \<le> at"
    using ok run by (auto simp: tempo_map_ok_def meters_ok_def meters_ascending set_meter_def
        split: if_splits)
  show ?thesis
  proof (cases "search_by_key mp_at at (tm_meters m)")
    case (Inr i)
    note found = search_found[OF Inr]
    then have "in_segment m i at"
      using seg_next(1)[OF ok, of i] by (auto simp: in_segment_def seg_defs)
    then show ?thesis
      using found by (intro bar_start_at_line[OF ok at]) (auto simp: seg_defs)
  next
    case (Inl i)
    let ?x = "\<lparr>mp_at = at, mp_signature = sig\<rparr>"
    note parts = search_split[OF asc Inl]
    have valid: "successively on_bar (take i (tm_meters m) @ ?x # drop i (tm_meters m))"
      using run Inl \<open>0 \<le> at\<close>
      by (auto simp: set_meter_def result_simps Let_def vec_insert_def)
    have "i \<noteq> 0"
    proof
      assume "i = 0"
      then have "at < mp_at (tm_meters m ! 0)"
        using parts(2) seg_first[OF ok] by (auto simp: seg_count_def)
      then show False using \<open>0 \<le> at\<close> seg_first[OF ok] by (simp add: seg_at_def)
    qed
    then obtain j where j: "i = Suc j" by (cases i) auto
    have len: "j < seg_count m"
    proof (rule ccontr)
      assume "\<not> j < seg_count m"
      moreover have "i \<le> length (tm_meters m)"
        using Inl by (auto simp: search_by_key_def partition_point_def Let_def length_takeWhile_le
            split: if_splits)
      ultimately show False using j by (simp add: seg_count_def)
    qed
    have "take i (tm_meters m) \<noteq> []" "last (take i (tm_meters m)) = tm_meters m ! j"
      using len j by (simp_all add: seg_count_def take_Suc_conv_app_nth)
    then have step: "on_bar (tm_meters m ! j) ?x"
      using valid by (simp add: successively_append_iff)
    have "at < seg_at m (Suc j)" if "Suc j < seg_count m"
      using parts(2) that j by (auto simp: seg_defs in_set_conv_nth dest!: spec[of _ 0]
          simp flip: Cons_nth_drop_Suc)
    then have "in_segment m j at" using step len by (simp add: in_segment_def on_bar_def seg_defs)
    then show ?thesis
      by (rule bar_start_at_line[OF ok at]) (use step in \<open>simp add: on_bar_def seg_defs\<close>)
  qed
qed

lemma meter_change_after_last:
  assumes ok: "tempo_map_ok m" and "is_i64 at" and sig: "signature_ok sig"
    and last: "mp_at (last (tm_meters m)) < at" and line: "bar_start m at = at"
  shows "set_meter at sig m = Inr (m\<lparr>tm_meters := tm_meters m @ [\<lparr>mp_at = at, mp_signature = sig\<rparr>]\<rparr>)"
proof -
  let ?ps = "tm_meters m" and ?i = "seg_count m - 1"
  have ps: "?ps \<noteq> []" "last ?ps = ?ps ! ?i" "successively on_bar ?ps" "mp_at (hd ?ps) = 0"
    and i: "?i < seg_count m"
    using ok seg_first[OF ok] by (simp_all add: tempo_map_ok_def meters_ok_def seg_count_def last_conv_nth)
  have asc: "ascending mp_at ?ps" using ps(3) by (rule meters_ascending)
  have below: "\<forall>x \<in> set ?ps. mp_at x < at"
  proof
    fix x assume "x \<in> set ?ps"
    then obtain k where "k < length ?ps" "?ps ! k = x" by (auto simp: in_set_conv_nth)
    moreover from this have "k < ?i \<or> k = ?i" by (auto simp: seg_count_def)
    ultimately show "mp_at x < at"
      using seg_at_mono[OF ok, of k ?i] last ps(2) i by (auto simp: seg_defs)
  qed
  then have "takeWhile (\<lambda>x. mp_at x < at) ?ps = ?ps" by (simp add: takeWhile_eq_all_conv)
  then have search: "search_by_key mp_at at ?ps = Inl (length ?ps)"
    by (simp add: search_by_key_def partition_point_def Let_def del: takeWhile_eq_all_conv)
  have low: "0 \<le> at" using last seg_at_bounds(2)[OF ok i] ps(2) by (simp add: seg_at_def)
  have "in_segment m ?i at" using last ps(2) i by (simp add: in_segment_def seg_at_def)
  then have "origin_of m at = ?i" by (rule origin_of_eq[OF ok])
  then have "sat_i64 (seg_at m ?i + (at - seg_at m ?i) div seg_bar m ?i * seg_bar m ?i) = at"
    using line by (simp add: bar_start_eq)
  moreover have "0 \<le> seg_at m ?i + (at - seg_at m ?i) div seg_bar m ?i * seg_bar m ?i"
    using seg_at_bounds(2)[OF ok i] seg_bar_bounds(1)[OF ok i] \<open>in_segment m ?i at\<close>
    by (simp add: in_segment_def pos_imp_zdiv_nonneg_iff)
  moreover have "seg_at m ?i + (at - seg_at m ?i) div seg_bar m ?i * seg_bar m ?i \<le> at"
    using div_mult_mod_eq[of "at - seg_at m ?i" "seg_bar m ?i"] seg_bar_bounds(1)[OF ok i]
      pos_mod_sign[of "seg_bar m ?i" "at - seg_at m ?i"] by linarith
  ultimately have "seg_at m ?i + (at - seg_at m ?i) div seg_bar m ?i * seg_bar m ?i = at"
    using assms(2) by (simp add: sat_i64_id range_simps)
  then have "(at - seg_at m ?i) mod seg_bar m ?i = 0"
    using div_mult_mod_eq[of "at - seg_at m ?i" "seg_bar m ?i"] by linarith
  then have "on_bar (last ?ps) \<lparr>mp_at = at, mp_signature = sig\<rparr>"
    using last ps(2) by (simp add: on_bar_def seg_defs)
  then have "validate_meter_boundaries (?ps @ [\<lparr>mp_at = at, mp_signature = sig\<rparr>]) = Inr ()"
    using ps by (simp add: validate_meter_boundaries_iff successively_append_iff)
  then show ?thesis
    using search low sig by (simp add: set_meter_def signature_ok_def vec_insert_def)
qed

section \<open>Reachable maps\<close>

text \<open>What the API can make: the parameters have the ranges of their Rust types.\<close>

inductive tempo_map_reachable :: "TempoMap \<Rightarrow> bool" where
  reach_new: "tempo_map_reachable m"
    if "tempo_map_new rate tempo meter = Inr m" "rate \<le> u32_max"
      "micros_per_quarter tempo \<le> u32_max" "numerator meter < 2 ^ 16"
| reach_set_tempo: "tempo_map_reachable m'"
    if "tempo_map_reachable m" "set_tempo at tempo m = Inr m'" "is_i64 at"
      "micros_per_quarter tempo \<le> u32_max"
| reach_remove_tempo: "tempo_map_reachable m'"
    if "tempo_map_reachable m" "remove_tempo at m = Inr (tempo, m')"
| reach_set_meter: "tempo_map_reachable m'"
    if "tempo_map_reachable m" "set_meter at meter m = Inr m'" "is_i64 at"
      "numerator meter < 2 ^ 16"
| reach_remove_meter: "tempo_map_reachable m'"
    if "tempo_map_reachable m" "remove_meter at m = Inr (meter, m')"

lemma tempo_map_reachable_ok: "tempo_map_reachable m \<Longrightarrow> tempo_map_ok m"
  by (induction rule: tempo_map_reachable.induct)
    (blast intro: tempo_map_new_ok set_tempo_ok remove_tempo_ok set_meter_ok remove_meter_ok)+

end
