(* ===== verification/Tempo_Properties.thy ===== *)
theory Tempo_Properties
  imports Tempo_Positions
begin

text \<open>The properties of the tempo map, each with a concrete instance.\<close>

section \<open>A concrete map\<close>

text \<open>
  48 kHz, 120 beats per minute in four four; from the second bar on 100 beats per minute in
  three four.
\<close>

definition sample_map :: TempoMap where
  "sample_map = \<lparr>tm_sample_rate = 48000,
     tm_tempos = [\<lparr>tp_at = 0, tp_tempo = \<lparr>micros_per_quarter = 500000\<rparr>\<rparr>,
                  \<lparr>tp_at = 3840, tp_tempo = \<lparr>micros_per_quarter = 600000\<rparr>\<rparr>],
     tm_meters = [\<lparr>mp_at = 0, mp_signature = \<lparr>numerator = 4, denominator = 4\<rparr>\<rparr>,
                  \<lparr>mp_at = 3840, mp_signature = \<lparr>numerator = 3, denominator = 4\<rparr>\<rparr>]\<rparr>"

lemma power_of_two_four [simp]: "is_power_of_two 4"
  by (simp add: is_power_of_two.simps)

lemma sample_map_reachable: "tempo_map_reachable sample_map"
proof -
  let ?slow = "\<lparr>micros_per_quarter = 600000\<rparr>" and ?waltz = "\<lparr>numerator = 3, denominator = 4\<rparr>"
  obtain a where a: "tempo_map_new 48000 \<lparr>micros_per_quarter = 500000\<rparr> \<lparr>numerator = 4, denominator = 4\<rparr> = Inr a"
    by (simp add: tempo_map_new_def tempo_validate_def signature_validate_def PPQ_def)
  then have "tempo_map_reachable a"
    by (rule reach_new) (simp_all add: range_simps)
  moreover obtain b where b: "set_tempo 3840 ?slow a = Inr b"
    by (simp add: set_tempo_def tempo_validate_def)
  ultimately have "tempo_map_reachable b"
    by (rule reach_set_tempo) (simp_all add: range_simps)
  moreover have "set_meter 3840 ?waltz b = Inr sample_map"
    using a b
    by (auto simp: tempo_map_new_def set_tempo_def set_meter_def sample_map_def tempo_validate_def
        signature_validate_def PPQ_def search_by_key_def partition_point_def vec_insert_def
        validate_meter_boundaries_def windows2_def ticks_per_bar_def ticks_per_beat_def fail_if_def)
  ultimately show ?thesis
    by (rule reach_set_meter) (simp_all add: range_simps)
qed

lemmas sample_evaluation =
  sample_map_def beat_to_frame_def frame_numerator_def PPQ_def MICROS_PER_SECOND_def sat_i64_def
  i64_min_def i64_max_def is_i64_def

section \<open>Edits\<close>

text \<open>
  C25. Every map the API can make has its first points at tick zero, strictly ascending points in
  the \<open>i64\<close> range, non-zero tempos, valid time signatures, and every meter change on a bar line
  of the meter before it.
\<close>

theorem tempo_edits_keep_map:
  assumes "tempo_map_reachable m"
  shows "tempo_map_ok m"
  using assms by (rule tempo_map_reachable_ok)

theorem tempo_edits_keep_map_witness: "tempo_map_ok sample_map"
  by (rule tempo_edits_keep_map) (rule sample_map_reachable)

text \<open>
  A meter change is accepted only where a bar begins under the meter in force, and after the
  last meter point everywhere a bar begins.
\<close>

theorem meter_changes_on_bar_lines:
  assumes "tempo_map_reachable m" "is_i64 at" "signature_ok sig"
  shows "(set_meter at sig m = Inr m' \<longrightarrow> bar_start m at = at)
    \<and> (mp_at (last (tm_meters m)) < at \<and> bar_start m at = at \<longrightarrow>
        set_meter at sig m = Inr (m\<lparr>tm_meters := tm_meters m @ [\<lparr>mp_at = at, mp_signature = sig\<rparr>]\<rparr>))"
  using meter_change_on_line[OF tempo_map_reachable_ok[OF assms(1)] assms(2)]
    meter_change_after_last[OF tempo_map_reachable_ok[OF assms(1)] assms(2,3)] by blast

theorem meter_changes_on_bar_lines_witness:
  "set_meter 6720 \<lparr>numerator = 4, denominator = 4\<rparr> sample_map
     = Inr (sample_map\<lparr>tm_meters := tm_meters sample_map
         @ [\<lparr>mp_at = 6720, mp_signature = \<lparr>numerator = 4, denominator = 4\<rparr>\<rparr>]\<rparr>)"
proof -
  have "signature_ok \<lparr>numerator = 4, denominator = 4\<rparr>"
    by (simp add: signature_ok_def signature_validate_def PPQ_def)
  moreover have "is_i64 6720" by (simp add: range_simps)
  moreover have "mp_at (last (tm_meters sample_map)) < 6720 \<and> bar_start sample_map 6720 = 6720"
    by (simp add: sample_evaluation bar_start_def meter_index_def upper_bound_by_tick_def
        partition_point_def ticks_per_bar_def ticks_per_beat_def)
  ultimately show ?thesis
    using meter_changes_on_bar_lines[OF sample_map_reachable, of 6720] by blast
qed

section \<open>Frames\<close>

text \<open>
  C26. The frame of a tick is the floor of the exact integral of the tempo over the ticks before
  it, so no rounding accumulates over tempo changes.
\<close>

theorem frames_are_integral:
  assumes "tempo_map_reachable m"
  shows "beat_to_frame m beat
    = sat_i64 (tempo_integral m beat * int (tm_sample_rate m) div (PPQ * MICROS_PER_SECOND))"
  by (simp add: beat_to_frame_def frame_numerator_integral tempo_map_reachable_ok[OF assms])

theorem frames_are_integral_witness:
  "beat_to_frame sample_map 4800 = 124800
    \<and> sat_i64 (tempo_integral sample_map 4800 * 48000 div 960000000) = 124800"
  using frames_are_integral[OF sample_map_reachable, of 4800]
  by (simp add: sample_evaluation)

text \<open>
  C27. \<open>frame_to_beat_floor\<close> returns the greatest tick whose frame is not after the given one and
  \<open>first_beat_at_or_after_frame\<close> the least tick whose frame is not before it, for every frame
  that some tick is before and some tick reaches.
\<close>

theorem frame_conversions_adjoint:
  assumes "tempo_map_reachable m" "is_i64 beat"
    and "beat_to_frame m i64_min < frame" "frame \<le> beat_to_frame m i64_max"
  shows "(beat \<le> frame_to_beat_floor m frame \<longleftrightarrow> beat_to_frame m beat \<le> frame)
    \<and> (first_beat_at_or_after_frame m frame \<le> beat \<longleftrightarrow> frame \<le> beat_to_frame m beat)"
  using floor_adjoint[OF tempo_map_reachable_ok[OF assms(1)] _ assms(2), of frame]
    first_beat_adjoint[OF tempo_map_reachable_ok[OF assms(1)] assms(3,4,2)] assms(3) by simp

theorem frame_conversions_adjoint_witness:
  "4800 \<le> frame_to_beat_floor sample_map 124800 \<and> \<not> 4801 \<le> frame_to_beat_floor sample_map 124800
    \<and> first_beat_at_or_after_frame sample_map 124800 \<le> 4800
    \<and> \<not> first_beat_at_or_after_frame sample_map 124800 \<le> 4799"
proof -
  note adjoint = frame_conversions_adjoint[OF sample_map_reachable, where frame = 124800]
  show ?thesis
    using adjoint[of 4800] adjoint[of 4801] adjoint[of 4799] by (simp add: sample_evaluation)
qed

section \<open>Bars\<close>

text \<open>
  C28. Ticks and bar positions determine each other: the position of a tick leads back to it, and
  a position whose tick is inside the representable range is the position of that tick.
\<close>

theorem positions_roundtrip:
  assumes "tempo_map_reachable m" "is_i64 at" "beat_at_position m p = Inr t"
    and "i64_min < t" "t < i64_max"
  shows "beat_at_position m (musical_position m at) = Inr at \<and> musical_position m t = p"
  using position_of_tick[OF tempo_map_reachable_ok[OF assms(1)] assms(2)]
    tick_of_position[OF tempo_map_reachable_ok[OF assms(1)] assms(3-5)] by simp

theorem positions_roundtrip_witness:
  "beat_at_position sample_map (musical_position sample_map (- 1)) = Inr (- 1)
    \<and> musical_position sample_map 9610 = \<lparr>pos_bar = 3, pos_beat = 0, pos_tick = 10\<rparr>"
proof (rule positions_roundtrip[OF sample_map_reachable])
  have "select_segment sample_map 3 1 (0, 0) = (1, 1)"
    by (simp add: select_segment.simps sample_evaluation meter_start_bar_def windows2_def
        ticks_per_bar_def ticks_per_beat_def)
  then show "beat_at_position sample_map \<lparr>pos_bar = 3, pos_beat = 0, pos_tick = 10\<rparr> = Inr 9610"
    by (simp add: beat_at_position_def sample_evaluation ticks_per_bar_def ticks_per_beat_def)
qed (simp_all add: range_simps)

text \<open>
  Away from the ends of the representable range, \<open>bar_start\<close> is the line the bar of a tick
  begins at and \<open>next_bar_start\<close> the line of the following bar, across meter changes.
\<close>

theorem bar_lines_around_tick:
  assumes "tempo_map_reachable m" "far_from_ends t"
  shows "bar_start m t \<le> t \<and> t < next_bar_start m t
    \<and> musical_position m (bar_start m t)
        = \<lparr>pos_bar = pos_bar (musical_position m t), pos_beat = 0, pos_tick = 0\<rparr>
    \<and> musical_position m (next_bar_start m t)
        = \<lparr>pos_bar = pos_bar (musical_position m t) + 1, pos_beat = 0, pos_tick = 0\<rparr>"
proof -
  note ok = tempo_map_reachable_ok[OF assms(1)]
  have t: "is_i64 t" using assms(2) by (simp add: far_from_ends_def range_simps)
  note s = bar_start_line[OF ok assms(2)] and n = next_bar_line[OF ok assms(2)]
  show ?thesis
    using s n position_on_line[OF ok] by (simp add: musical_position_eq[OF ok t])
qed

theorem bar_lines_around_tick_witness:
  "bar_start sample_map 4000 = 3840 \<and> next_bar_start sample_map 4000 = 6720
    \<and> 4000 < next_bar_start sample_map 4000"
  using bar_lines_around_tick[OF sample_map_reachable, of 4000]
  by (simp add: far_from_ends_def sample_evaluation bar_start_def next_bar_start_def meter_index_def
      meter_at_def upper_bound_by_tick_def partition_point_def ticks_per_bar_def ticks_per_beat_def)

section \<open>A change refused at a bar line\<close>

text \<open>
  Before a later meter point a change can be refused although a bar begins there: five four from
  the start of the map does not divide the bar before the change to three four.
\<close>

lemma bar_line_refused:
  "bar_start sample_map 0 = 0
    \<and> set_meter 0 \<lparr>numerator = 5, denominator = 4\<rparr> sample_map = Inl MeterChangeNotAtBar"
  by (simp add: sample_evaluation bar_start_def meter_index_def upper_bound_by_tick_def
      partition_point_def ticks_per_bar_def ticks_per_beat_def set_meter_def signature_validate_def
      search_by_key_def validate_meter_boundaries_def windows2_def fail_if_def)

end
