(* ===== verification/Pattern_Types.thy ===== *)
theory Pattern_Types
  imports Tempo_Map Bytes "HOL-Library.List_Lexorder"
begin

text \<open>
  The data of the sequencer (\<open>src/src/sequencer.rs\<close>): notes, steps, patterns with their
  provenance, and the clips that place patterns in time. Then the terms of the pattern notation
  (\<open>src/src/pattern_lang.rs\<close>) and the rationals of its evaluator. A Rust \<open>String\<close> is the list of its
  code points, ordered lexicographically, which is the order of its UTF-8 bytes. A \<open>BTreeMap\<close> is
  its sorted association list.
\<close>

section \<open>Floats\<close>

definition f32_minus_one :: f32 where "f32_minus_one = 0xbf800000"

text \<open>\<open>value.is_finite() && (0.0..=1.0).contains(&value)\<close>, and the same from minus one.\<close>

definition unit_value :: "f32 \<Rightarrow> bool" where
  "unit_value v \<longleftrightarrow> f32_is_finite v \<and> f32_le 0 v \<and> f32_le v f32_one"

definition bipolar_value :: "f32 \<Rightarrow> bool" where
  "bipolar_value v \<longleftrightarrow> f32_is_finite v \<and> f32_le f32_minus_one v \<and> f32_le v f32_one"

text \<open>\<open>f32::clamp(0.0, 1.0)\<close>; a NaN stays a NaN.\<close>

definition f32_clamp_unit :: "f32 \<Rightarrow> f32" where
  "f32_clamp_unit v =
     (if f32_is_nan v then v else if \<not> f32_le 0 v then 0 else if \<not> f32_le v f32_one then f32_one else v)"

section \<open>Notes\<close>

record NotePitch =
  np_midi_key :: nat
  np_cents :: f32

datatype Articulation = Normal | Staccato | Tenuto | Legato | Accent | Named unicode_string

record ExpressionPoint =
  ep_position :: f32
  ep_value :: f32

record PerNoteExpression =
  pe_pitch_cents :: "ExpressionPoint list"
  pe_pressure :: "ExpressionPoint list"
  pe_timbre :: "ExpressionPoint list"

record NoteEvent =
  ne_id :: NoteId
  ne_start :: BeatTime
  ne_duration :: BeatDuration
  ne_pitch :: NotePitch
  ne_velocity :: f32
  ne_release_velocity :: f32
  ne_pan :: f32
  ne_probability :: f32
  ne_micro_offset :: int
  ne_channel :: nat
  ne_instrument :: "nat option"
  ne_articulation :: Articulation
  ne_expression :: PerNoteExpression

definition valid_expression :: "PerNoteExpression \<Rightarrow> bool" where
  "valid_expression e \<longleftrightarrow>
     list_all (\<lambda>curve.
         list_all (\<lambda>p. unit_value (ep_position p) \<and> f32_is_finite (ep_value p)) curve
         \<and> list_all (\<lambda>(a, b). f32_le (ep_position a) (ep_position b)) (windows2 curve))
       [pe_pitch_cents e, pe_pressure e, pe_timbre e]"

definition note_validate :: "NoteEvent \<Rightarrow> SequencerError + unit" where
  "note_validate n =
     fail_if (ne_start n < 0 \<or> ne_duration n = 0
       \<or> \<not> unit_value (ne_velocity n) \<or> \<not> unit_value (ne_release_velocity n)
       \<or> \<not> unit_value (ne_probability n) \<or> \<not> bipolar_value (ne_pan n)
       \<or> \<not> f32_is_finite (np_cents (ne_pitch n)) \<or> 15 < ne_channel n
       \<or> \<not> valid_expression (ne_expression n))
       (InvalidNote (ne_id n))"

definition sounding_duration :: "NoteEvent \<Rightarrow> nat" where
  "sounding_duration n = (case ne_articulation n of
       Staccato \<Rightarrow> max 1 (ne_duration n div 2)
     | Tenuto \<Rightarrow> sat_add_u64 (ne_duration n) (ne_duration n div 20)
     | _ \<Rightarrow> ne_duration n)"

type_synonym NotePattern = "(NoteId, NoteEvent) btree"

section \<open>Steps\<close>

datatype TriggerTarget =
    InstrumentNote nat nat
  | DrumPad nat nat
  | Sample SampleAssetId
  | AnalysisTemplate nat

record StepEvent =
  se_velocity :: f32
  se_probability :: f32
  se_micro_offset :: int
  se_gate :: BeatDuration
  se_ratchets :: nat
  se_pitch_semitones :: f32
  se_pan :: f32

definition step_validate :: "StepEvent \<Rightarrow> bool" where
  "step_validate s \<longleftrightarrow> unit_value (se_velocity s) \<and> unit_value (se_probability s)
     \<and> bipolar_value (se_pan s) \<and> f32_is_finite (se_pitch_semitones s) \<and> 0 < se_ratchets s"

record StepLane =
  sl_id :: StepLaneId
  sl_name :: unicode_string
  sl_target :: TriggerTarget
  sl_choke_group :: "nat option"
  sl_steps :: "(nat, StepEvent) btree"

record StepPattern =
  sp_resolution :: BeatDuration
  sp_swing :: f32
  sp_lanes :: "(StepLaneId, StepLane) btree"

section \<open>Patterns and clips\<close>

datatype proposal_tag = ProposalTag

type_synonym ReconstructionProposalId = "proposal_tag typed_id"

text \<open>The two words of \<open>PatternTermHash(u128)\<close> as one number.\<close>

datatype PatternTermHash = PatternTermHash "128 word"

type_synonym bindings = "(unicode_string, TriggerTarget) btree"

datatype PatternOrigin =
    Authored
  | Expression (expr_source: unicode_string) (expr_term: PatternTermHash)
      (expr_bindings_hash: PatternTermHash) (expr_bindings: bindings) (expr_diverged: bool)
  | Deprojected (proposal: ReconstructionProposalId) (depr_diverged: bool)

fun origin_diverged :: "PatternOrigin \<Rightarrow> bool" where
  "origin_diverged Authored = False"
| "origin_diverged (Expression _ _ _ _ d) = d"
| "origin_diverged (Deprojected _ d) = d"

fun mark_diverged :: "PatternOrigin \<Rightarrow> PatternOrigin" where
  "mark_diverged Authored = Authored"
| "mark_diverged (Expression s t h b _) = Expression s t h b True"
| "mark_diverged (Deprojected p _) = Deprojected p True"

datatype PatternContent = Notes NotePattern | Steps StepPattern

record PatternDefinition =
  pd_id :: PatternId
  pd_name :: unicode_string
  pd_length :: BeatDuration
  pd_content :: PatternContent
  pd_origin :: PatternOrigin
  pd_revision :: nat

record PatternClip =
  pc_id :: PatternClipId
  pc_pattern :: PatternId
  pc_start :: BeatTime
  pc_length :: BeatDuration
  pc_pattern_offset :: BeatTime
  pc_looped :: bool
  pc_transpose_semitones :: f32
  pc_gain :: f32
  pc_muted :: bool

definition clip_end :: "PatternClip \<Rightarrow> BeatTime" where
  "clip_end c = beat_saturating_add (pc_start c) (min (int (pc_length c)) i64_max)"

definition clip_validate :: "PatternClip \<Rightarrow> SequencerError + unit" where
  "clip_validate c =
     fail_if (pc_length c = 0 \<or> i64_max < int (pc_length c) \<or> clip_end c \<le> pc_start c
       \<or> pc_pattern_offset c < 0 \<or> \<not> f32_is_finite (pc_transpose_semitones c)
       \<or> \<not> f32_is_finite (pc_gain c) \<or> \<not> f32_le 0 (pc_gain c))
       (InvalidClip (pc_id c))"

chapter \<open>Pattern terms\<close>

text \<open>
  The terms of the pattern notation (\<open>src/src/pattern_lang.rs\<close>), the exact rationals its
  evaluator computes with, and the bindings a term refers to. \<open>u64\<close> components are \<open>nat\<close>; a
  \<open>u128\<close> sum that overflows panics.
\<close>

section \<open>Terms\<close>

definition MAX_EXACT_STEPS :: nat where "MAX_EXACT_STEPS = 64"
definition FALLBACK_STEPS :: nat where "FALLBACK_STEPS = 16"

datatype Ratio = Ratio (ratio_numerator: nat) (ratio_denominator: nat)

definition ratio_one :: Ratio where "ratio_one = Ratio 1 1"

datatype Element =
    Rest
  | Name unicode_string "nat option"
  | Group "Step list"
  | Alternate "Step list"
and Step =
    Step (st_element: Element) (st_width: Ratio) (st_replicate: nat) (st_repeat: nat)
      (st_probability: "f32 option") (st_velocity: "f32 option")

definition step_plain :: "Element \<Rightarrow> Step" where
  "step_plain e = Step e ratio_one 1 1 None None"

datatype PatternTransform = TRotate int | TGain f32 | TDegrade f32

datatype PatternExpr =
    Seq "Step list"
  | Stack "PatternExpr list"
  | Every nat nat PatternTransform PatternExpr
  | Rotate int PatternExpr
  | Euclid nat nat int Element
  | Fast nat PatternExpr
  | Slow nat PatternExpr
  | Swing f32 PatternExpr
  | Gain f32 PatternExpr
  | Degrade f32 PatternExpr

datatype PatternEvalError =
    UnboundName unicode_string
  | StepCollision unicode_string int
  | EmptyPattern
  | InvalidRatio nat nat
  | InvalidParameter string
  | NestedSwing
  | SpanOverflow
  | InvalidCycle

datatype PatternEvalDiagnostic =
    RoundedToTick int int
  | RatchetSpacingTruncated int nat

type_synonym 'a eval_result = "PatternEvalError fault + 'a"

abbreviation eval_fails :: "PatternEvalError \<Rightarrow> 'a eval_result" where
  "eval_fails e \<equiv> Inl (Failed e)"

record EvalContext =
  ec_bindings :: bindings
  ec_cycle :: BeatDuration
  ec_seed :: nat
  ec_cycle_index :: nat

record EvalOutput =
  eo_pattern :: StepPattern
  eo_diagnostics :: "PatternEvalDiagnostic list"

section \<open>Bindings\<close>

text \<open>The decimal digits of a number, as code points.\<close>

fun decimal :: "nat \<Rightarrow> unicode_string" where
  "decimal n = (if n < 10 then [48 + n] else decimal (n div 10) @ [48 + n mod 10])"

declare decimal.simps [simp del]

definition lane_key :: "unicode_string \<Rightarrow> nat option \<Rightarrow> unicode_string" where
  "lane_key binding variant = (case variant of Some v \<Rightarrow> binding @ 58 # decimal v | None \<Rightarrow> binding)"

fun collect_element_bindings :: "Element \<Rightarrow> unicode_string list \<Rightarrow> unicode_string list"
and collect_step_bindings :: "Step list \<Rightarrow> unicode_string list \<Rightarrow> unicode_string list" where
  "collect_element_bindings Rest names = names"
| "collect_element_bindings (Name b v) names = bs_insert (lane_key b v) names"
| "collect_element_bindings (Group steps) names = collect_step_bindings steps names"
| "collect_element_bindings (Alternate steps) names = collect_step_bindings steps names"
| "collect_step_bindings [] names = names"
| "collect_step_bindings (Step e _ _ _ _ _ # steps) names =
     collect_step_bindings steps (collect_element_bindings e names)"

fun collect_expr_bindings :: "PatternExpr \<Rightarrow> unicode_string list \<Rightarrow> unicode_string list" where
  "collect_expr_bindings (Seq steps) names = collect_step_bindings steps names"
| "collect_expr_bindings (Stack members) names = fold collect_expr_bindings members names"
| "collect_expr_bindings (Euclid _ _ _ e) names = collect_element_bindings e names"
| "collect_expr_bindings (Every _ _ _ inner) names = collect_expr_bindings inner names"
| "collect_expr_bindings (Rotate _ inner) names = collect_expr_bindings inner names"
| "collect_expr_bindings (Fast _ inner) names = collect_expr_bindings inner names"
| "collect_expr_bindings (Slow _ inner) names = collect_expr_bindings inner names"
| "collect_expr_bindings (Swing _ inner) names = collect_expr_bindings inner names"
| "collect_expr_bindings (Gain _ inner) names = collect_expr_bindings inner names"
| "collect_expr_bindings (Degrade _ inner) names = collect_expr_bindings inner names"

definition referenced_bindings :: "PatternExpr \<Rightarrow> unicode_string list" where
  "referenced_bindings e = collect_expr_bindings e []"

section \<open>Exact rationals\<close>

datatype Rational = Rational (rat_n: nat) (rat_d: nat)

definition rat_zero :: Rational where "rat_zero = Rational 0 1"
definition rat_one :: Rational where "rat_one = Rational 1 1"

fun rat_gcd :: "nat \<Rightarrow> nat \<Rightarrow> nat" where
  "rat_gcd a b = (if b = 0 then a else rat_gcd b (a mod b))"

declare rat_gcd.simps [simp del]

definition rat_new :: "nat \<Rightarrow> nat \<Rightarrow> Rational eval_result" where
  "rat_new n d =
     (if d = 0 then eval_fails SpanOverflow
      else let g = max 1 (rat_gcd n d) in Inr (Rational (n div g) (d div g)))"

definition rat_checked :: "nat \<Rightarrow> nat \<Rightarrow> Rational eval_result" where
  "rat_checked n d =
     (if d = 0 then eval_fails SpanOverflow
      else let g = max 1 (rat_gcd n d); n' = n div g; d' = d div g
           in if u64_max < n' \<or> u64_max < d' then eval_fails SpanOverflow else Inr (Rational n' d'))"

definition u128_max :: nat where "u128_max = 340282366920938463463374607431768211455"

definition rat_add :: "Rational \<Rightarrow> Rational \<Rightarrow> Rational eval_result" where
  "rat_add a b =
     (let n = rat_n a * rat_d b + rat_n b * rat_d a
      in if u128_max < n then Inl Panicked else rat_checked n (rat_d a * rat_d b))"

definition rat_mul :: "Rational \<Rightarrow> Rational \<Rightarrow> Rational eval_result" where
  "rat_mul a b = rat_checked (rat_n a * rat_n b) (rat_d a * rat_d b)"

definition rat_div :: "Rational \<Rightarrow> Rational \<Rightarrow> Rational eval_result" where
  "rat_div a b =
     (if rat_n b = 0 then eval_fails SpanOverflow
      else rat_checked (rat_n a * rat_d b) (rat_d a * rat_n b))"

definition rat_scale_int :: "Rational \<Rightarrow> nat \<Rightarrow> Rational eval_result" where
  "rat_scale_int a k = rat_checked (rat_n a * k) (rat_d a)"

text \<open>\<open>cmp_value\<close> as the two comparisons the code asks for.\<close>

definition rat_less :: "Rational \<Rightarrow> Rational \<Rightarrow> bool" where
  "rat_less a b \<longleftrightarrow> rat_n a * rat_d b < rat_n b * rat_d a"

definition rat_same :: "Rational \<Rightarrow> Rational \<Rightarrow> bool" where
  "rat_same a b \<longleftrightarrow> rat_n a * rat_d b = rat_n b * rat_d a"

end
