(* ===== verification/Pattern_Text.thy ===== *)
theory Pattern_Text
  imports Pattern_Types
begin

text \<open>
  The text of the pattern notation (\<open>src/src/pattern_lang.rs\<close>): the recursive-descent parser on
  bytes, the printer, and the fingerprints taken from printed text. The parser's offset is the
  length of what it has consumed, so its state is the rest of the input, and an error carries the
  length of the rest until \<open>parse\<close> turns it into an offset. The recursion of the parser runs on
  fuel; \<open>OutOfFuel\<close> never comes out of \<open>parse\<close>. The text \<open>{:?}\<close> gives for an \<open>f32\<close> is a
  parameter.
\<close>

type_synonym bytes = "nat list"

definition ascii :: "string \<Rightarrow> bytes" where
  "ascii s = map of_char s"

datatype PatternParseError = PatternParseError (offset: nat) (message: unicode_string)

text \<open>What stops the parser: an error, with the length of the rest, or the end of the fuel.\<close>

datatype parse_stop = Stopped nat unicode_string | OutOfFuel

type_synonym 'a parsed = "parse_stop fault + 'a \<times> bytes"

definition parse_error :: "bytes \<Rightarrow> unicode_string \<Rightarrow> 'a parsed" where
  "parse_error r m = Inl (Failed (Stopped (length r) m))"

section \<open>Bytes\<close>

definition is_digit :: "nat \<Rightarrow> bool" where
  "is_digit b \<longleftrightarrow> 48 \<le> b \<and> b \<le> 57"

definition is_lowercase :: "nat \<Rightarrow> bool" where
  "is_lowercase b \<longleftrightarrow> 97 \<le> b \<and> b \<le> 122"

definition is_ident_byte :: "nat \<Rightarrow> bool" where
  "is_ident_byte b \<longleftrightarrow> is_lowercase b \<or> is_digit b \<or> b = 95 \<or> b = 45"

definition is_space :: "nat \<Rightarrow> bool" where
  "is_space b \<longleftrightarrow> b = 32 \<or> b = 9 \<or> b = 10 \<or> b = 13"

definition peek :: "bytes \<Rightarrow> nat option" where
  "peek r = (case r of [] \<Rightarrow> None | b # _ \<Rightarrow> Some b)"

definition skip_space :: "bytes \<Rightarrow> bytes" where
  "skip_space r = dropWhile is_space r"

definition expect :: "nat \<Rightarrow> bytes \<Rightarrow> unit parsed" where
  "expect b r =
     (if peek r = Some b then Inr ((), tl r) else parse_error r (ascii ''expected '' @ [39, b, 39]))"

definition comma :: "bytes \<Rightarrow> bool \<times> bytes" where
  "comma r =
     (let r = skip_space r
      in if peek r = Some 44 then (True, skip_space (tl r)) else (False, r))"

definition require_comma :: "bytes \<Rightarrow> unit parsed" where
  "require_comma r =
     (case comma r of (True, r') \<Rightarrow> Inr ((), r')
      | (False, r') \<Rightarrow> parse_error r' (ascii ''expected '' @ [39, 44, 39]))"

section \<open>Words and numbers\<close>

definition ident :: "bytes \<Rightarrow> (unicode_string \<times> bytes) option" where
  "ident r = (case r of
       [] \<Rightarrow> None
     | b # rest \<Rightarrow> if is_lowercase b
         then Some (b # takeWhile is_ident_byte rest, dropWhile is_ident_byte rest) else None)"

definition peek_number :: "bytes \<Rightarrow> bool" where
  "peek_number r \<longleftrightarrow> (case r of [] \<Rightarrow> False | b # _ \<Rightarrow> is_digit b)"

definition peek_signed_integer :: "bytes \<Rightarrow> bool" where
  "peek_signed_integer r \<longleftrightarrow> (case r of
       [] \<Rightarrow> False
     | b # rest \<Rightarrow> if b = 45 then peek_number rest else is_digit b)"

definition digits_value :: "bytes \<Rightarrow> nat" where
  "digits_value ds = foldl (\<lambda>n d. 10 * n + (d - 48)) 0 ds"

definition integer :: "bytes \<Rightarrow> nat parsed" where
  "integer r =
     (let ds = takeWhile is_digit r; rest = dropWhile is_digit r
      in if ds = [] then parse_error r (ascii ''expected an integer'')
         else if u64_max < digits_value ds then parse_error rest (ascii ''integer out of range'')
         else Inr (digits_value ds, rest))"

text \<open>\<open>as u32\<close>, \<open>as i64\<close> and \<open>as i32\<close>.\<close>

definition as_u32 :: "nat \<Rightarrow> nat" where "as_u32 n = n mod 2 ^ 32"

definition wrap_i64 :: "int \<Rightarrow> int" where
  "wrap_i64 n = (n + 2 ^ 63) mod 2 ^ 64 - 2 ^ 63"

definition wrap_i32 :: "int \<Rightarrow> int" where
  "wrap_i32 n = (n + 2 ^ 31) mod 2 ^ 32 - 2 ^ 31"

definition integer_u32 :: "bytes \<Rightarrow> nat parsed" where
  "integer_u32 r = bind_r (integer r) (\<lambda>(n, r). Inr (as_u32 n, r))"

text \<open>The negation of \<open>i64::MIN\<close> overflows.\<close>

definition signed_integer :: "bytes \<Rightarrow> int parsed" where
  "signed_integer r =
     (if peek r = Some 45
      then bind_r (integer (tl r)) (\<lambda>(n, r).
        if wrap_i64 (int n) = i64_min then Inl Panicked else Inr (- wrap_i64 (int n), r))
      else bind_r (integer r) (\<lambda>(n, r). Inr (wrap_i64 (int n), r)))"

definition signed_i32 :: "bytes \<Rightarrow> int parsed" where
  "signed_i32 r = bind_r (signed_integer r) (\<lambda>(n, r). Inr (wrap_i32 n, r))"

text \<open>\<open>f32::from_str\<close> on digits around an optional point: rounded once.\<close>

definition f32_of_decimal :: "bytes \<Rightarrow> bytes \<Rightarrow> f32" where
  "f32_of_decimal whole fraction =
     f32_round False (digits_value (whole @ fraction)) (10 ^ length fraction)"

definition number :: "bytes \<Rightarrow> f32 parsed" where
  "number r =
     (let whole = takeWhile is_digit r; r1 = dropWhile is_digit r
      in if peek r1 = Some 46
         then let fraction = takeWhile is_digit (tl r1); r2 = dropWhile is_digit (tl r1)
              in if whole = [] \<and> fraction = [] then parse_error r2 (ascii ''number out of range'')
                 else Inr (f32_of_decimal whole fraction, r2)
         else if whole = [] then parse_error r (ascii ''expected a number'')
         else Inr (f32_of_decimal whole [], r1))"

section \<open>Modifiers and transforms\<close>

text \<open>One modifier of a step, if there is one: the changed step and the rest.\<close>

definition modifier :: "Step \<Rightarrow> bytes \<Rightarrow> Step option parsed" where
  "modifier s r = (case s of Step e w rep rpt p v \<Rightarrow>
     (if peek r = Some 42 then bind_r (integer_u32 (tl r)) (\<lambda>(n, r).
        if n = 0 then parse_error r (ascii '''*0' is not a repeat'')
        else Inr (Some (Step e w rep n p v), r))
      else if peek r = Some 33 then bind_r (integer_u32 (tl r)) (\<lambda>(n, r).
        if n = 0 then parse_error r (ascii '''!0' is not a replication'')
        else Inr (Some (Step e w n rpt p v), r))
      else if peek r = Some 64 then bind_r (integer_u32 (tl r)) (\<lambda>(n, r).
        bind_r (if peek r = Some 47 then integer_u32 (tl r) else Inr (1, r)) (\<lambda>(d, r).
        if n = 0 \<or> d = 0 then parse_error r (ascii ''width must be a positive rational'')
        else Inr (Some (Step e (Ratio n d) rep rpt p v), r)))
      else if peek r = Some 63 then
        bind_r (if peek_number (tl r) then number (tl r) else Inr (0x3f000000, tl r)) (\<lambda>(x, r).
        Inr (Some (Step e w rep rpt (Some x) v), r))
      else if peek r = Some 94 then bind_r (number (tl r)) (\<lambda>(x, r).
        Inr (Some (Step e w rep rpt p (Some x)), r))
      else Inr (None, r)))"

text \<open>The loop over the modifiers; each one consumes its first byte.\<close>

fun modifiers :: "nat \<Rightarrow> Step \<Rightarrow> bytes \<Rightarrow> Step parsed" where
  "modifiers 0 s r = Inl (Failed OutOfFuel)"
| "modifiers (Suc n) s r =
     bind_r (modifier s r) (\<lambda>(found, r'). case found of
       None \<Rightarrow> Inr (s, r') | Some s' \<Rightarrow> modifiers n s' r')"

definition transform :: "bytes \<Rightarrow> PatternTransform parsed" where
  "transform r = (case ident r of
       None \<Rightarrow> parse_error r (ascii ''expected rot/gain/degrade transform'')
     | Some (word, r) \<Rightarrow>
         bind_r (expect 40 r) (\<lambda>(_, r).
         let r = skip_space r
         in bind_r
             (if word = ascii ''rot'' then bind_r (signed_i32 r) (\<lambda>(n, r). Inr (TRotate n, r))
              else if word = ascii ''gain'' then bind_r (number r) (\<lambda>(x, r). Inr (TGain x, r))
              else if word = ascii ''degrade'' then bind_r (number r) (\<lambda>(x, r). Inr (TDegrade x, r))
              else parse_error r (ascii ''unknown transform: '' @ word)) (\<lambda>(t, r).
            bind_r (expect 41 (skip_space r)) (\<lambda>(_, r). Inr (t, r)))))"

section \<open>Steps and elements\<close>

definition ends_steps :: "nat option \<Rightarrow> bool" where
  "ends_steps b \<longleftrightarrow> b = None \<or> b = Some 93 \<or> b = Some 62 \<or> b = Some 41 \<or> b = Some 44"

fun parse_steps :: "nat \<Rightarrow> bytes \<Rightarrow> Step list parsed"
and parse_step :: "nat \<Rightarrow> bytes \<Rightarrow> Step parsed"
and parse_element :: "nat \<Rightarrow> bytes \<Rightarrow> Element parsed" where
  "parse_steps 0 r = Inl (Failed OutOfFuel)"
| "parse_steps (Suc n) r =
     (let r = skip_space r
      in if ends_steps (peek r) then Inr ([], r)
         else bind_r (parse_step n r) (\<lambda>(s, r).
              bind_r (parse_steps n r) (\<lambda>(rest, r). Inr (s # rest, r))))"
| "parse_step 0 r = Inl (Failed OutOfFuel)"
| "parse_step (Suc n) r =
     bind_r (parse_element n r) (\<lambda>(e, r). modifiers n (step_plain e) r)"
| "parse_element 0 r = Inl (Failed OutOfFuel)"
| "parse_element (Suc n) r =
     (let r = skip_space r
      in if peek r = Some 126 then Inr (Rest, tl r)
         else if peek r = Some 91 then
           bind_r (parse_steps n (tl r)) (\<lambda>(steps, r).
           bind_r (expect 93 r) (\<lambda>(_, r).
           if steps = [] then parse_error r (ascii ''empty group'') else Inr (Group steps, r)))
         else if peek r = Some 60 then
           bind_r (parse_steps n (tl r)) (\<lambda>(steps, r).
           bind_r (expect 62 r) (\<lambda>(_, r).
           if steps = [] then parse_error r (ascii ''empty alternation'') else Inr (Alternate steps, r)))
         else (case ident r of
             Some (binding, r) \<Rightarrow>
               if peek r = Some 58
               then bind_r (integer_u32 (tl r)) (\<lambda>(v, r). Inr (Name binding (Some v), r))
               else Inr (Name binding None, r)
           | None \<Rightarrow> parse_error r (ascii ''expected a name, '' @ [39] @ ascii ''~'' @ [39, 44, 32, 39]
               @ ascii ''['' @ [39] @ ascii '', or '' @ [39] @ ascii ''<'' @ [39])))"

section \<open>Terms\<close>

definition combinators :: "unicode_string list" where
  "combinators = map ascii [''seq'', ''stack'', ''every'', ''rot'', ''e'', ''fast'', ''slow'',
     ''swing'', ''gain'', ''degrade'']"

text \<open>The loop over the arguments of \<open>e\<close> after the first two: rotation and element.\<close>

fun euclid_arguments :: "nat \<Rightarrow> int \<Rightarrow> Element option \<Rightarrow> bytes \<Rightarrow> (int \<times> Element option) parsed" where
  "euclid_arguments 0 rotation element r = Inl (Failed OutOfFuel)"
| "euclid_arguments (Suc n) rotation element r =
     (case comma r of
        (False, r) \<Rightarrow> Inr ((rotation, element), r)
      | (True, r) \<Rightarrow>
          if element = None \<and> rotation = 0 \<and> peek_signed_integer r
          then bind_r (signed_i32 r) (\<lambda>(k, r). euclid_arguments n k element r)
          else bind_r (parse_element n r) (\<lambda>(e, r). euclid_arguments n rotation (Some e) r))"

text \<open>The fixed arguments before the inner term of a combinator: what makes it of the term.\<close>

definition every_arguments :: "bytes \<Rightarrow> (PatternExpr \<Rightarrow> PatternExpr) parsed" where
  "every_arguments r =
     bind_r (integer_u32 r) (\<lambda>(period, r).
     bind_r (require_comma r) (\<lambda>(_, r).
     bind_r (if peek_number r
             then bind_r (integer_u32 r) (\<lambda>(k, r). bind_r (require_comma r) (\<lambda>(_, r). Inr (k, r)))
             else Inr (0, r)) (\<lambda>(k, r).
     bind_r (transform r) (\<lambda>(t, r).
     bind_r (require_comma r) (\<lambda>(_, r). Inr (Every period k t, r))))))"

definition wrapper_arguments :: "unicode_string \<Rightarrow> bytes \<Rightarrow> (PatternExpr \<Rightarrow> PatternExpr) parsed" where
  "wrapper_arguments word r =
     (if word = ascii ''seq'' then Inr (id, r)
      else if word = ascii ''every'' then every_arguments r
      else if word = ascii ''rot'' then
        bind_r (signed_i32 r) (\<lambda>(k, r). bind_r (require_comma r) (\<lambda>(_, r). Inr (Rotate k, r)))
      else if word = ascii ''fast'' \<or> word = ascii ''slow'' then
        bind_r (integer_u32 r) (\<lambda>(k, r). bind_r (require_comma r) (\<lambda>(_, r).
          Inr (if word = ascii ''fast'' then Fast k else Slow k, r)))
      else
        bind_r (number r) (\<lambda>(x, r). bind_r (require_comma r) (\<lambda>(_, r).
          Inr (if word = ascii ''swing'' then Swing x
               else if word = ascii ''gain'' then Gain x else Degrade x, r))))"

fun parse_expr :: "nat \<Rightarrow> bytes \<Rightarrow> PatternExpr parsed"
and parse_members :: "nat \<Rightarrow> bytes \<Rightarrow> PatternExpr list parsed"
and try_call :: "nat \<Rightarrow> bytes \<Rightarrow> PatternExpr option parsed" where
  "parse_expr 0 r = Inl (Failed OutOfFuel)"
| "parse_expr (Suc n) r =
     bind_r (try_call n r) (\<lambda>(call, r). case call of
       Some c \<Rightarrow> Inr (c, r)
     | None \<Rightarrow> bind_r (parse_steps n r) (\<lambda>(steps, r).
         if steps = [] then parse_error r (ascii ''expected a pattern'') else Inr (Seq steps, r)))"
| "parse_members 0 r = Inl (Failed OutOfFuel)"
| "parse_members (Suc n) r =
     (case comma r of
        (False, r) \<Rightarrow> Inr ([], r)
      | (True, r) \<Rightarrow>
          bind_r (parse_expr n r) (\<lambda>(member, r).
          bind_r (parse_members n r) (\<lambda>(members, r). Inr (member # members, r))))"
| "try_call 0 r = Inl (Failed OutOfFuel)"
| "try_call (Suc n) start = (case ident start of
       None \<Rightarrow> Inr (None, start)
     | Some (word, r) \<Rightarrow>
         if peek r \<noteq> Some 40 \<or> word \<notin> set combinators then Inr (None, start)
         else let r = skip_space (tl r)
              in bind_r
                  (if word = ascii ''stack'' then
                     bind_r (parse_expr n r) (\<lambda>(member, r).
                     bind_r (parse_members n r) (\<lambda>(members, r). Inr (Stack (member # members), r)))
                   else if word = ascii ''e'' then
                     bind_r (integer_u32 r) (\<lambda>(hits, r).
                     bind_r (require_comma r) (\<lambda>(_, r).
                     bind_r (integer_u32 r) (\<lambda>(slots, r).
                     bind_r (euclid_arguments n 0 None (skip_space r)) (\<lambda>((rotation, element), r).
                     case element of
                       None \<Rightarrow> parse_error r (ascii ''e(...) needs an element'')
                     | Some x \<Rightarrow> Inr (Euclid hits slots rotation x, r)))))
                   else
                     bind_r (wrapper_arguments word r) (\<lambda>(wrap, r).
                     bind_r (parse_expr n r) (\<lambda>(inner, r). Inr (wrap inner, r)))) (\<lambda>(call, r).
                 bind_r (expect 41 (skip_space r)) (\<lambda>(_, r). Inr (Some call, r))))"

definition parse_fuel :: "bytes \<Rightarrow> nat" where
  "parse_fuel source = 4 * length source + 16"

definition parse_bytes :: "bytes \<Rightarrow> PatternExpr parsed" where
  "parse_bytes source =
     bind_r (parse_expr (parse_fuel source) (skip_space source)) (\<lambda>(e, r).
       let r = skip_space r
       in if r = [] then Inr (e, r) else parse_error r (ascii ''unexpected trailing input''))"

text \<open>The UTF-8 encoding of a text.\<close>

definition utf8_char :: "nat \<Rightarrow> bytes" where
  "utf8_char c =
     (if c < 0x80 then [c]
      else if c < 0x800 then [0xc0 + c div 64, 0x80 + c mod 64]
      else if c < 0x10000 then [0xe0 + c div 4096, 0x80 + c div 64 mod 64, 0x80 + c mod 64]
      else [0xf0 + c div 262144, 0x80 + c div 4096 mod 64, 0x80 + c div 64 mod 64, 0x80 + c mod 64])"

definition utf8 :: "unicode_string \<Rightarrow> bytes" where
  "utf8 s = concat (map utf8_char s)"

text \<open>\<open>parse\<close>: no fuel in the result; the error at its offset.\<close>

definition parse :: "unicode_string \<Rightarrow> PatternParseError fault + PatternExpr" where
  "parse source =
     (let bs = utf8 source
      in case parse_bytes bs of
           Inr (e, _) \<Rightarrow> Inr e
         | Inl (Failed (Stopped n m)) \<Rightarrow> Inl (Failed (PatternParseError (length bs - n) m))
         | Inl _ \<Rightarrow> Inl Panicked)"

section \<open>Printing\<close>

definition signed_decimal :: "int \<Rightarrow> unicode_string" where
  "signed_decimal k = (if k < 0 then 45 # decimal (nat (- k)) else decimal (nat k))"

type_synonym float_text = "f32 \<Rightarrow> unicode_string"

definition print_modifiers :: "float_text \<Rightarrow> Step \<Rightarrow> unicode_string" where
  "print_modifiers debug s = (case s of Step e w rep rpt p v \<Rightarrow>
     (if 1 < rpt then 42 # decimal rpt else [])
     @ (if 1 < rep then 33 # decimal rep else [])
     @ (if w = ratio_one then []
        else if ratio_denominator w = 1 then 64 # decimal (ratio_numerator w)
        else 64 # decimal (ratio_numerator w) @ 47 # decimal (ratio_denominator w))
     @ (case p of None \<Rightarrow> [] | Some x \<Rightarrow> 63 # debug x)
     @ (case v of None \<Rightarrow> [] | Some x \<Rightarrow> 94 # debug x))"

fun print_element :: "float_text \<Rightarrow> Element \<Rightarrow> unicode_string"
and print_steps :: "float_text \<Rightarrow> Step list \<Rightarrow> unicode_string"
and print_step :: "float_text \<Rightarrow> Step \<Rightarrow> unicode_string" where
  "print_element debug Rest = [126]"
| "print_element debug (Name b v) = lane_key b v"
| "print_element debug (Group steps) = 91 # print_steps debug steps @ [93]"
| "print_element debug (Alternate steps) = 60 # print_steps debug steps @ [62]"
| "print_steps debug [] = []"
| "print_steps debug (s # rest) =
     print_step debug s @ (if rest = [] then [] else 32 # print_steps debug rest)"
| "print_step debug (Step e w rep rpt p v) =
     print_element debug e @ print_modifiers debug (Step e w rep rpt p v)"

definition print_transform :: "float_text \<Rightarrow> PatternTransform \<Rightarrow> unicode_string" where
  "print_transform debug t = (case t of
       TRotate k \<Rightarrow> ascii ''rot('' @ signed_decimal k @ [41]
     | TGain x \<Rightarrow> ascii ''gain('' @ debug x @ [41]
     | TDegrade x \<Rightarrow> ascii ''degrade('' @ debug x @ [41])"

text \<open>The separator of arguments.\<close>

definition sep :: unicode_string where "sep = [44, 32]"

fun print_expr :: "float_text \<Rightarrow> PatternExpr \<Rightarrow> unicode_string"
and print_members :: "float_text \<Rightarrow> PatternExpr list \<Rightarrow> unicode_string" where
  "print_expr debug (Seq steps) = print_steps debug steps"
| "print_expr debug (Stack members) = ascii ''stack('' @ print_members debug members @ [41]"
| "print_expr debug (Every period k t inner) =
     ascii ''every('' @ decimal period @ sep @ (if k = 0 then [] else decimal k @ sep)
     @ print_transform debug t @ sep @ print_expr debug inner @ [41]"
| "print_expr debug (Rotate k inner) =
     ascii ''rot('' @ signed_decimal k @ sep @ print_expr debug inner @ [41]"
| "print_expr debug (Euclid hits slots rotation e) =
     ascii ''e('' @ decimal hits @ sep @ decimal slots @ sep
     @ (if rotation = 0 then [] else signed_decimal rotation @ sep) @ print_element debug e @ [41]"
| "print_expr debug (Fast k inner) =
     ascii ''fast('' @ decimal k @ sep @ print_expr debug inner @ [41]"
| "print_expr debug (Slow k inner) =
     ascii ''slow('' @ decimal k @ sep @ print_expr debug inner @ [41]"
| "print_expr debug (Swing x inner) =
     ascii ''swing('' @ debug x @ sep @ print_expr debug inner @ [41]"
| "print_expr debug (Gain x inner) =
     ascii ''gain('' @ debug x @ sep @ print_expr debug inner @ [41]"
| "print_expr debug (Degrade x inner) =
     ascii ''degrade('' @ debug x @ sep @ print_expr debug inner @ [41]"
| "print_members debug [] = []"
| "print_members debug (m # ms) =
     print_expr debug m @ (if ms = [] then [] else sep @ print_members debug ms)"

section \<open>Fingerprints\<close>

unbundle bit_operations_syntax

definition pattern_fnv1a_128 :: "bytes \<Rightarrow> 128 word" where
  "pattern_fnv1a_128 bs = foldl (\<lambda>hash b. (hash XOR of_nat b) * 0x0000000001000000000000000000013b)
     0x6c62272e07bb014262b821756295c58d bs"

definition term_hash :: "float_text \<Rightarrow> PatternExpr \<Rightarrow> PatternTermHash" where
  "term_hash debug e = PatternTermHash (pattern_fnv1a_128 (utf8 (print_expr debug e)))"

text \<open>The derived \<open>{:?}\<close> of a target.\<close>

fun debug_target :: "TriggerTarget \<Rightarrow> unicode_string" where
  "debug_target (InstrumentNote i k) = ascii ''InstrumentNote { instrument: '' @ decimal i
     @ ascii '', key: '' @ decimal k @ ascii '' }''"
| "debug_target (DrumPad r p) = ascii ''DrumPad { rack: '' @ decimal r
     @ ascii '', pad: '' @ decimal p @ ascii '' }''"
| "debug_target (Sample a) = ascii ''Sample(SampleAssetId('' @ decimal (raw a) @ ascii ''))''"
| "debug_target (AnalysisTemplate t) = ascii ''AnalysisTemplate('' @ decimal t @ ascii '')''"

definition bindings_hash :: "bindings \<Rightarrow> PatternTermHash" where
  "bindings_hash bs = PatternTermHash (pattern_fnv1a_128 (utf8
     (concat (map (\<lambda>(name, target). name @ 61 # debug_target target @ [59]) bs))))"

end
