(* ===== verification/Pattern_Parser.thy ===== *)
theory Pattern_Parser
  imports Pattern_Text "HOL-Library.Sublist"
begin

text \<open>
  What the parser does on every input: it returns a term of proper shape or an error inside the
  text, it never runs out of fuel, and it panics only at the literal whose negation overflows.
\<close>

section \<open>Shape of parsed terms\<close>

definition u32_ok :: "nat \<Rightarrow> bool" where "u32_ok n \<longleftrightarrow> n < 2 ^ 32"
definition i32_ok :: "int \<Rightarrow> bool" where "i32_ok n \<longleftrightarrow> - (2 ^ 31) \<le> n \<and> n < 2 ^ 31"

definition name_ok :: "unicode_string \<Rightarrow> bool" where
  "name_ok b \<longleftrightarrow> (\<exists>c cs. b = c # cs \<and> is_lowercase c \<and> list_all is_ident_byte cs)"

text \<open>\<open>float\<close> says which floats may occur.\<close>

fun element_ok :: "(f32 \<Rightarrow> bool) \<Rightarrow> Element \<Rightarrow> bool"
and step_ok :: "(f32 \<Rightarrow> bool) \<Rightarrow> Step \<Rightarrow> bool" where
  "element_ok float Rest = True"
| "element_ok float (Name b v) = (name_ok b \<and> (\<forall>n \<in> set_option v. u32_ok n))"
| "element_ok float (Group steps) = (steps \<noteq> [] \<and> (\<forall>s \<in> set steps. step_ok float s))"
| "element_ok float (Alternate steps) = (steps \<noteq> [] \<and> (\<forall>s \<in> set steps. step_ok float s))"
| "step_ok float (Step e w rep rpt p v) =
     (element_ok float e \<and> 0 < ratio_numerator w \<and> u32_ok (ratio_numerator w)
      \<and> 0 < ratio_denominator w \<and> u32_ok (ratio_denominator w) \<and> 0 < rep \<and> u32_ok rep
      \<and> 0 < rpt \<and> u32_ok rpt \<and> (\<forall>x \<in> set_option p. float x) \<and> (\<forall>x \<in> set_option v. float x))"

definition transform_ok :: "(f32 \<Rightarrow> bool) \<Rightarrow> PatternTransform \<Rightarrow> bool" where
  "transform_ok float t = (case t of TRotate k \<Rightarrow> i32_ok k | TGain x \<Rightarrow> float x | TDegrade x \<Rightarrow> float x)"

fun expr_ok :: "(f32 \<Rightarrow> bool) \<Rightarrow> PatternExpr \<Rightarrow> bool" where
  "expr_ok float (Seq steps) = (steps \<noteq> [] \<and> (\<forall>s \<in> set steps. step_ok float s))"
| "expr_ok float (Stack members) = (members \<noteq> [] \<and> (\<forall>m \<in> set members. expr_ok float m))"
| "expr_ok float (Every period k t inner) =
     (u32_ok period \<and> u32_ok k \<and> transform_ok float t \<and> expr_ok float inner)"
| "expr_ok float (Rotate k inner) = (i32_ok k \<and> expr_ok float inner)"
| "expr_ok float (Euclid hits slots rotation e) =
     (u32_ok hits \<and> u32_ok slots \<and> i32_ok rotation \<and> element_ok float e)"
| "expr_ok float (Fast k inner) = (u32_ok k \<and> expr_ok float inner)"
| "expr_ok float (Slow k inner) = (u32_ok k \<and> expr_ok float inner)"
| "expr_ok float (Swing x inner) = (float x \<and> expr_ok float inner)"
| "expr_ok float (Gain x inner) = (float x \<and> expr_ok float inner)"
| "expr_ok float (Degrade x inner) = (float x \<and> expr_ok float inner)"

abbreviation any_float :: "f32 \<Rightarrow> bool" where "any_float \<equiv> (\<lambda>_. True)"

section \<open>A logic of parsers\<close>

definition min_literal :: "bytes \<Rightarrow> bool" where
  "min_literal r \<longleftrightarrow> (\<exists>before ds after. r = before @ 45 # ds @ after
     \<and> list_all is_digit ds \<and> digits_value ds = 2 ^ 63)"

definition accepts :: "bool \<Rightarrow> bytes \<Rightarrow> ('a \<Rightarrow> bool) \<Rightarrow> 'a parsed \<Rightarrow> bool" where
  "accepts strict r Q p = (case p of
       Inr (x, r') \<Rightarrow> Q x \<and> suffix r' r \<and> (strict \<longrightarrow> r' \<noteq> r)
     | Inl Panicked \<Rightarrow> min_literal r
     | Inl (Failed (Stopped n m)) \<Rightarrow> n \<le> length r
     | Inl (Failed OutOfFuel) \<Rightarrow> False)"

lemma accepts_Inr [simp]:
  "accepts strict r Q (Inr (x, r')) \<longleftrightarrow> Q x \<and> suffix r' r \<and> (strict \<longrightarrow> r' \<noteq> r)"
  by (simp add: accepts_def)

lemma accepts_error [simp]: "accepts strict r Q (parse_error r' m) \<longleftrightarrow> length r' \<le> length r"
  by (simp add: accepts_def parse_error_def)

lemma min_literal_suffix: "min_literal r' \<Longrightarrow> suffix r' r \<Longrightarrow> min_literal r"
  unfolding min_literal_def suffix_def by (metis append.assoc)

lemma accepts_longer:
  assumes "accepts strict r' Q p" "suffix r' r" "strict' \<longrightarrow> strict \<or> r' \<noteq> r"
  shows "accepts strict' r Q p"
proof (cases p)
  case (Inl e)
  then show ?thesis
    using assms min_literal_suffix suffix_length_le[OF assms(2)]
    by (auto simp: accepts_def split: fault.splits parse_stop.splits)
next
  case (Inr y)
  then show ?thesis
    using assms suffix_order.trans suffix_order.antisym
    by (auto simp: accepts_def split: prod.splits)
qed

lemma accepts_bind:
  assumes "accepts strict r Q p"
    and "\<And>x r'. Q x \<Longrightarrow> suffix r' r \<Longrightarrow> (strict \<longrightarrow> r' \<noteq> r) \<Longrightarrow> accepts strict' r' R (k x r')"
    and "final \<longrightarrow> strict \<or> strict'"
  shows "accepts final r R (bind_r p (\<lambda>(x, r'). k x r'))"
proof (cases p)
  case (Inl e)
  then show ?thesis using assms(1) by (auto simp: accepts_def split: fault.splits parse_stop.splits)
next
  case (Inr y)
  obtain x r' where y: "y = (x, r')" by (cases y)
  have *: "Q x" "suffix r' r" "strict \<longrightarrow> r' \<noteq> r" using assms(1) Inr y by simp_all
  have "accepts final r R (k x r')"
    by (rule accepts_longer[OF assms(2)[OF *]]) (use * assms(3) in auto)
  then show ?thesis using Inr y by simp
qed

lemma accepts_weaken:
  assumes "accepts strict r Q p" "\<And>x. Q x \<Longrightarrow> R x" "strict' \<longrightarrow> strict"
  shows "accepts strict' r R p"
  using assms by (auto simp: accepts_def split: sum.splits prod.splits fault.splits parse_stop.splits)

section \<open>Lexical parts\<close>

lemma suffix_tl [intro, simp]: "suffix (tl r) r"
  by (cases r) (auto simp: suffix_def)

lemma suffix_skip [intro, simp]: "suffix (skip_space r) r"
  by (simp add: skip_space_def suffix_dropWhile)

lemma suffix_skip_tl [intro, simp]: "suffix (skip_space (tl r)) r"
  using suffix_order.trans[OF suffix_skip suffix_tl] .

lemma peek_Some: "peek r = Some b \<longleftrightarrow> (\<exists>rest. r = b # rest)"
  by (cases r) (auto simp: peek_def)

lemma proper_suffix_length: "suffix r' r \<Longrightarrow> r' \<noteq> r \<Longrightarrow> length r' < length r"
  by (meson strict_suffix_def suffix_length_less)

lemma consumed_tl [simp]: "r \<noteq> [] \<Longrightarrow> tl r \<noteq> r"
  by (cases r) (auto dest: arg_cong[of _ _ length])

lemma consumed_skip_tl [simp]:
  assumes "r \<noteq> []" shows "skip_space (tl r) \<noteq> r"
proof -
  have "length (skip_space (tl r)) \<le> length (tl r)"
    unfolding skip_space_def by (rule length_dropWhile_le)
  also have "\<dots> < length r" using assms by simp
  finally show ?thesis by auto
qed

lemma accepts_expect [intro]: "accepts True r (\<lambda>_. True) (expect b r)"
  by (cases r) (auto simp: expect_def peek_def suffix_Cons dest: arg_cong[of _ _ length])

lemma accepts_comma:
  assumes "comma r = (found, r')"
  shows "suffix r' r" "found \<Longrightarrow> r' \<noteq> r" "found \<Longrightarrow> length r' < length r"
proof -
  show s: "suffix r' r"
    using assms suffix_order.trans[OF suffix_skip_tl suffix_skip]
    by (auto simp: comma_def Let_def split: if_splits)
  assume found
  then have r': "r' = skip_space (tl (skip_space r))" and ne: "skip_space r \<noteq> []"
    using assms by (auto simp: comma_def Let_def peek_Some split: if_splits)
  have "length r' < length (skip_space r)"
    using proper_suffix_length[OF suffix_skip_tl consumed_skip_tl[OF ne]] r' by simp
  also have "\<dots> \<le> length r" by (simp add: suffix_length_le)
  finally show "length r' < length r" .
  then show "r' \<noteq> r" by auto
qed

lemma accepts_require_comma [intro]: "accepts True r (\<lambda>_. True) (require_comma r)"
proof (cases "comma r")
  case (Pair found r')
  then show ?thesis
    using accepts_comma[OF Pair] by (cases found) (auto simp: require_comma_def suffix_length_le)
qed

lemma ident_Some:
  assumes "ident r = Some (word, r')"
  shows "name_ok word" "suffix r' r" "length r' < length r"
  using assms
  by (auto simp: ident_def name_ok_def list_all_iff suffix_Cons suffix_dropWhile le_imp_less_Suc
      length_dropWhile_le dest: set_takeWhileD split: list.splits if_splits)

lemma accepts_integer [intro]:
  "accepts True r (\<lambda>n. n \<le> u64_max) (integer r)"
proof -
  have "length (takeWhile is_digit r) + length (dropWhile is_digit r) = length r"
    by (metis length_append takeWhile_dropWhile_id)
  then show ?thesis
    by (auto simp: integer_def Let_def suffix_dropWhile length_dropWhile_le
        dest: arg_cong[of _ _ length])
qed

lemma accepts_u32 [intro]: "accepts True r u32_ok (integer_u32 r)"
  unfolding integer_u32_def
  by (rule accepts_bind[OF accepts_integer, where strict' = False])
    (auto simp: as_u32_def u32_ok_def)

lemma wrap_i64_min:
  assumes "n \<le> u64_max"
  shows "wrap_i64 (int n) = i64_min \<longleftrightarrow> n = 2 ^ 63"
proof (cases "n < 2 ^ 63")
  case True
  then have "(int n + 2 ^ 63) mod 2 ^ 64 = int n + 2 ^ 63"
    by (intro mod_pos_pos_trivial) auto
  then show ?thesis using True by (simp add: wrap_i64_def range_simps)
next
  case False
  have "(int n + 2 ^ 63) mod 2 ^ 64 = (int n + 2 ^ 63 - 2 ^ 64) mod 2 ^ 64"
    by (rule minus_mod_self2[symmetric])
  also have "\<dots> = int n + 2 ^ 63 - 2 ^ 64"
    using False assms by (intro mod_pos_pos_trivial) (auto simp: range_simps)
  finally show ?thesis unfolding wrap_i64_def range_simps by auto
qed

lemma accepts_signed [intro]: "accepts True r (\<lambda>_. True) (signed_integer r)"
proof (cases "peek r = Some 45")
  case True
  then obtain rest where r: "r = 45 # rest" by (auto simp: peek_Some)
  show ?thesis
  proof (cases "integer rest")
    case (Inl e)
    then show ?thesis
      using accepts_longer[OF accepts_integer[of rest], of r True] r True
      by (auto simp: signed_integer_def suffix_Cons accepts_def dest: arg_cong[of _ _ length]
          split: fault.splits parse_stop.splits)
  next
    case (Inr y)
    obtain n r' where y: "y = (n, r')" by (cases y)
    have n: "n = digits_value (takeWhile is_digit rest)" "n \<le> u64_max" "r' = dropWhile is_digit rest"
      using Inr y by (auto simp: integer_def Let_def parse_error_def split: if_splits)
    have "min_literal r" if "n = 2 ^ 63"
      unfolding min_literal_def
      by (rule exI[of _ "[]"], rule exI[of _ "takeWhile is_digit rest"], rule exI[of _ r'])
        (use that n r in \<open>auto simp: list_all_iff dest: set_takeWhileD\<close>)
    moreover have "suffix r' r" "r' \<noteq> r"
    proof -
      have s: "suffix r' rest" using n by (simp add: suffix_dropWhile)
      then show "suffix r' r" using r by (simp add: suffix_Cons)
      show "r' \<noteq> r" using suffix_length_le[OF s] r by auto
    qed
    ultimately show ?thesis
      using Inr y r n wrap_i64_min[of n] by (simp add: signed_integer_def peek_def accepts_def)
  qed
next
  case False
  then show ?thesis
    unfolding signed_integer_def if_not_P[OF False]
    by (intro accepts_bind[OF accepts_integer, where strict' = False]) auto
qed

lemma wrap_i32_ok: "i32_ok (wrap_i32 n)"
  by (simp add: i32_ok_def wrap_i32_def)

lemma accepts_i32 [intro]: "accepts True r i32_ok (signed_i32 r)"
  unfolding signed_i32_def
  by (rule accepts_bind[OF accepts_signed, where strict' = False]) (auto simp: wrap_i32_ok)

lemma accepts_number [intro]: "accepts True r any_float (number r)"
proof -
  let ?r1 = "dropWhile is_digit r" and ?whole = "takeWhile is_digit r"
  have len: "length ?whole + length ?r1 = length r"
    by (metis length_append takeWhile_dropWhile_id)
  have s1: "suffix ?r1 r" by (rule suffix_dropWhile)
  show ?thesis
  proof (cases "peek ?r1 = Some 46")
    case True
    let ?r2 = "dropWhile is_digit (tl ?r1)"
    have "suffix ?r2 ?r1" using suffix_order.trans[OF suffix_dropWhile suffix_tl] .
    then have s2: "suffix ?r2 r" using s1 suffix_order.trans by blast
    have "length ?r2 \<le> length (tl ?r1)" by (rule length_dropWhile_le)
    also have "\<dots> < length ?r1" using True by (auto simp: peek_Some)
    finally have "length ?r2 < length r" using len by simp
    then show ?thesis using True s2 by (auto simp: number_def Let_def)
  next
    case False
    then show ?thesis using s1 len by (auto simp: number_def Let_def)
  qed
qed

lemma accepts_modifier:
  assumes "step_ok any_float s"
  shows "modifier s r = Inr (None, r)
    \<or> accepts True r (\<lambda>t. \<forall>s' \<in> set_option t. step_ok any_float s') (modifier s r)"
proof (cases "\<exists>b \<in> {42, 33, 64, 63, 94}. peek r = Some b")
  case True
  obtain e w rep rpt p v where s: "s = Step e w rep rpt p v" by (cases s)
  have r: "r \<noteq> []" using True by (auto simp: peek_def)
  have first: "accepts True r Q k" if "accepts True (tl r) Q k" for Q and k :: "'x parsed"
    using accepts_longer[OF that suffix_tl] by simp
  note u32 = first[OF accepts_u32] and num = first[OF accepts_number]
  have more: "accepts False r' u32_ok (if peek r' = Some 47 then integer_u32 (tl r') else Inr (1, r'))" for r'
    using accepts_longer[OF accepts_u32 suffix_tl, of False r'] by (auto simp: u32_ok_def)
  have half: "accepts True r any_float
      (if peek_number (tl r) then number (tl r) else Inr (0x3f000000, tl r))"
    using num r consumed_tl[OF r] by auto
  have "accepts True r (\<lambda>t. \<forall>s' \<in> set_option t. step_ok any_float s') (modifier s r)"
    unfolding s modifier_def Step.case
    using True assms s consumed_tl[OF r]
    by (auto intro!: accepts_bind[OF u32, where strict' = False] accepts_bind[OF half, where strict' = False]
        accepts_bind[OF num, where strict' = False] accepts_bind[OF more, where strict' = False])
  then show ?thesis by simp
next
  case False
  then show ?thesis by (cases s) (simp add: modifier_def)
qed

lemma accepts_modifiers:
  assumes "length r < n" "step_ok any_float s"
  shows "accepts False r (step_ok any_float) (modifiers n s r)"
  using assms
proof (induction n arbitrary: s r)
  case (Suc n)
  consider "modifier s r = Inr (None, r)"
    | "accepts True r (\<lambda>t. \<forall>s' \<in> set_option t. step_ok any_float s') (modifier s r)"
    using accepts_modifier[OF Suc.prems(2)] by blast
  then show ?case
  proof cases
    case 2
    show ?thesis
      unfolding modifiers.simps
    proof (rule accepts_bind[OF 2, where strict' = False])
      fix found r' assume found: "\<forall>s' \<in> set_option found. step_ok any_float s'"
        and r': "suffix r' r" "True \<longrightarrow> r' \<noteq> r"
      have "length r' < n" using proper_suffix_length[of r' r] r' Suc.prems(1) by simp
      then show "accepts False r' (step_ok any_float)
          (case found of None \<Rightarrow> Inr (s, r') | Some s' \<Rightarrow> modifiers n s' r')"
        using found Suc by (auto split: option.split)
    qed simp
  qed (simp add: Suc.prems)
qed simp

lemma accepts_transform: "accepts True r (transform_ok any_float) (transform r)"
proof (cases "ident r")
  case None
  then show ?thesis by (simp add: transform_def)
next
  case (Some y)
  obtain word r1 where y: "y = (word, r1)" by (cases y)
  note i = ident_Some[OF Some[unfolded y]]
  have "accepts True r1 (transform_ok any_float)
      (bind_r (expect 40 r1) (\<lambda>(_, r).
         let r = skip_space r
         in bind_r
             (if word = ascii ''rot'' then bind_r (signed_i32 r) (\<lambda>(n, r). Inr (TRotate n, r))
              else if word = ascii ''gain'' then bind_r (number r) (\<lambda>(x, r). Inr (TGain x, r))
              else if word = ascii ''degrade'' then bind_r (number r) (\<lambda>(x, r). Inr (TDegrade x, r))
              else parse_error r (ascii ''unknown transform: '' @ word)) (\<lambda>(t, r).
            bind_r (expect 41 (skip_space r)) (\<lambda>(_, r). Inr (t, r)))))"
  proof (rule accepts_bind[OF accepts_expect, where strict' = False])
    fix u :: unit and r2 assume "suffix r2 r1"
    let ?r = "skip_space r2"
    have "accepts False ?r (transform_ok any_float)
      (if word = ascii ''rot'' then bind_r (signed_i32 ?r) (\<lambda>(n, r). Inr (TRotate n, r))
              else if word = ascii ''gain'' then bind_r (number ?r) (\<lambda>(x, r). Inr (TGain x, r))
              else if word = ascii ''degrade'' then bind_r (number ?r) (\<lambda>(x, r). Inr (TDegrade x, r))
              else parse_error ?r (ascii ''unknown transform: '' @ word))"
      by (auto simp: transform_ok_def intro!: accepts_bind[OF accepts_i32, where strict' = False]
          accepts_bind[OF accepts_number, where strict' = False])
    then have "accepts False ?r (transform_ok any_float) (bind_r
             (if word = ascii ''rot'' then bind_r (signed_i32 ?r) (\<lambda>(n, r). Inr (TRotate n, r))
              else if word = ascii ''gain'' then bind_r (number ?r) (\<lambda>(x, r). Inr (TGain x, r))
              else if word = ascii ''degrade'' then bind_r (number ?r) (\<lambda>(x, r). Inr (TDegrade x, r))
              else parse_error ?r (ascii ''unknown transform: '' @ word)) (\<lambda>(t, r).
            bind_r (expect 41 (skip_space r)) (\<lambda>(_, r). Inr (t, r))))"
    proof (rule accepts_bind[where strict' = False])
      fix t r3 assume t: "transform_ok any_float t"
      have "accepts False (skip_space r3) (transform_ok any_float)
          (bind_r (expect 41 (skip_space r3)) (\<lambda>(_, r). Inr (t, r)))"
        by (rule accepts_bind[OF accepts_expect, where strict' = False]) (use t in auto)
      then show "accepts False r3 (transform_ok any_float)
          (bind_r (expect 41 (skip_space r3)) (\<lambda>(_, r). Inr (t, r)))"
        by (rule accepts_longer) auto
    qed simp
    then show "accepts False r2 (transform_ok any_float) (let r = skip_space r2
         in bind_r
             (if word = ascii ''rot'' then bind_r (signed_i32 r) (\<lambda>(n, r). Inr (TRotate n, r))
              else if word = ascii ''gain'' then bind_r (number r) (\<lambda>(x, r). Inr (TGain x, r))
              else if word = ascii ''degrade'' then bind_r (number r) (\<lambda>(x, r). Inr (TDegrade x, r))
              else parse_error r (ascii ''unknown transform: '' @ word)) (\<lambda>(t, r).
            bind_r (expect 41 (skip_space r)) (\<lambda>(_, r). Inr (t, r))))"
      unfolding Let_def by (rule accepts_longer) auto
  qed simp
  then show ?thesis
    using accepts_longer[OF _ i(2)] Some y by (auto simp: transform_def)
qed

chapter \<open>Totality\<close>

text \<open>
  The recursive part of the parser under its fuel: four units per byte of input are enough at
  every point of the recursion.
\<close>

section \<open>Steps and elements\<close>

lemma skip_length [simp]: "length (skip_space r) \<le> length r"
  by (simp add: suffix_length_le)

definition steps_accepted :: "nat \<Rightarrow> bool" where
  "steps_accepted n \<longleftrightarrow> (\<forall>r.
     (4 * length r + 3 \<le> n \<longrightarrow> accepts False r (\<lambda>ss. \<forall>s \<in> set ss. step_ok any_float s) (parse_steps n r))
     \<and> (4 * length r + 2 \<le> n \<longrightarrow> accepts True r (step_ok any_float) (parse_step n r))
     \<and> (4 * length r + 1 \<le> n \<longrightarrow> accepts True r (element_ok any_float) (parse_element n r)))"

lemma accepts_steps_Suc:
  assumes "steps_accepted n" "4 * length r + 2 \<le> n"
  shows "accepts False r (\<lambda>ss. \<forall>s \<in> set ss. step_ok any_float s) (parse_steps (Suc n) r)"
proof -
  let ?r = "skip_space r"
  have len: "length ?r \<le> length r" by simp
  have "accepts False ?r (\<lambda>ss. \<forall>s \<in> set ss. step_ok any_float s)
      (bind_r (parse_step n ?r) (\<lambda>(s, r). bind_r (parse_steps n r) (\<lambda>(rest, r). Inr (s # rest, r))))"
  proof (rule accepts_bind[where strict = True and Q = "step_ok any_float" and strict' = False])
    show "accepts True ?r (step_ok any_float) (parse_step n ?r)"
      using assms len unfolding steps_accepted_def by (meson add_mono le_trans mult_le_mono2 order_refl)
    fix s r' assume s: "step_ok any_float s" and r': "suffix r' ?r" "True \<longrightarrow> r' \<noteq> ?r"
    then have "length r' < length ?r" using proper_suffix_length by blast
    then have "4 * length r' + 3 \<le> n" using assms(2) len by linarith
    then have "accepts False r' (\<lambda>ss. \<forall>s \<in> set ss. step_ok any_float s) (parse_steps n r')"
      using assms(1) unfolding steps_accepted_def by blast
    then show "accepts False r' (\<lambda>ss. \<forall>s \<in> set ss. step_ok any_float s)
        (bind_r (parse_steps n r') (\<lambda>(rest, r). Inr (s # rest, r)))"
      by (rule accepts_bind[where strict' = False]) (use s in auto)
  qed simp
  then have "accepts False r (\<lambda>ss. \<forall>s \<in> set ss. step_ok any_float s)
      (bind_r (parse_step n ?r) (\<lambda>(s, r). bind_r (parse_steps n r) (\<lambda>(rest, r). Inr (s # rest, r))))"
    by (rule accepts_longer) auto
  then show ?thesis by (simp add: Let_def)
qed

lemma accepts_step_Suc:
  assumes "steps_accepted n" "4 * length r + 1 \<le> n"
  shows "accepts True r (step_ok any_float) (parse_step (Suc n) r)"
  unfolding parse_step.simps
proof (rule accepts_bind[where strict = True and Q = "element_ok any_float" and strict' = False])
  show "accepts True r (element_ok any_float) (parse_element n r)"
    using assms unfolding steps_accepted_def by blast
  fix e r' assume e: "element_ok any_float e" and r': "suffix r' r" "True \<longrightarrow> r' \<noteq> r"
  then have "length r' < length r" using proper_suffix_length by blast
  then show "accepts False r' (step_ok any_float) (modifiers n (step_plain e) r')"
    using assms(2) e by (intro accepts_modifiers) (auto simp: step_plain_def ratio_one_def u32_ok_def)
qed simp

lemma accepts_bracket:
  assumes "steps_accepted n" "4 * length r \<le> n" "r \<noteq> []"
    and "\<And>steps. steps \<noteq> [] \<Longrightarrow> \<forall>s \<in> set steps. step_ok any_float s \<Longrightarrow> element_ok any_float (f steps)"
  shows "accepts True r (element_ok any_float)
    (bind_r (parse_steps n (tl r)) (\<lambda>(steps, r). bind_r (expect b r) (\<lambda>(_, r).
       if steps = [] then parse_error r m else Inr (f steps, r))))"
proof -
  have "4 * length (tl r) + 3 \<le> n" using assms(2,3) by (cases r) auto
  then have "accepts False (tl r) (\<lambda>ss. \<forall>s \<in> set ss. step_ok any_float s) (parse_steps n (tl r))"
    using assms(1) unfolding steps_accepted_def by blast
  then have "accepts False (tl r) (element_ok any_float)
    (bind_r (parse_steps n (tl r)) (\<lambda>(steps, r). bind_r (expect b r) (\<lambda>(_, r).
       if steps = [] then parse_error r m else Inr (f steps, r))))"
  proof (rule accepts_bind[where strict' = False])
    fix steps r' assume steps: "\<forall>s \<in> set steps. step_ok any_float s"
    show "accepts False r' (element_ok any_float) (bind_r (expect b r') (\<lambda>(_, r).
       if steps = [] then parse_error r m else Inr (f steps, r)))"
      by (rule accepts_bind[OF accepts_expect, where strict' = False]) (use steps assms(4) in auto)
  qed simp
  then show ?thesis using assms(3) by (rule_tac accepts_longer) auto
qed

lemma accepts_element_Suc:
  assumes "steps_accepted n" "4 * length r \<le> n"
  shows "accepts True r (element_ok any_float) (parse_element (Suc n) r)"
proof -
  let ?r = "skip_space r"
  have len: "4 * length ?r \<le> n" using assms(2) skip_length[of r] by linarith
  consider "peek ?r = Some 126" | "peek ?r = Some 91" | "peek ?r = Some 60"
    | "peek ?r \<noteq> Some 126" "peek ?r \<noteq> Some 91" "peek ?r \<noteq> Some 60" by blast
  then have "accepts True ?r (element_ok any_float) (parse_element (Suc n) r)"
  proof cases
    case 1
    then show ?thesis by (auto simp: Let_def peek_Some dest: arg_cong[of _ _ length])
  next
    case 2
    then have "?r \<noteq> []" by (auto simp: peek_Some)
    then show ?thesis using 2 accepts_bracket[OF assms(1) len, of Group] by (simp add: Let_def)
  next
    case 3
    then have "?r \<noteq> []" by (auto simp: peek_Some)
    then show ?thesis using 3 accepts_bracket[OF assms(1) len, of Alternate] by (simp add: Let_def)
  next
    case 4
    show ?thesis
    proof (cases "ident ?r")
      case None
      then show ?thesis using 4 by (simp add: Let_def)
    next
      case (Some y)
      obtain word r1 where y: "y = (word, r1)" by (cases y)
      note i = ident_Some[OF Some[unfolded y]]
      have "accepts False r1 (element_ok any_float) (if peek r1 = Some 58
           then bind_r (integer_u32 (tl r1)) (\<lambda>(v, r). Inr (Name word (Some v), r))
           else Inr (Name word None, r1))"
      proof (cases "peek r1 = Some 58")
        case True
        have "accepts False (tl r1) (element_ok any_float)
            (bind_r (integer_u32 (tl r1)) (\<lambda>(v, r). Inr (Name word (Some v), r)))"
          by (rule accepts_bind[OF accepts_u32, where strict' = False]) (use i in auto)
        then show ?thesis using True by (auto intro: accepts_longer)
      qed (use i in simp)
      then have "accepts True ?r (element_ok any_float) (if peek r1 = Some 58
           then bind_r (integer_u32 (tl r1)) (\<lambda>(v, r). Inr (Name word (Some v), r))
           else Inr (Name word None, r1))"
        by (rule accepts_longer) (use i in auto)
      then show ?thesis using 4 Some y by (simp add: Let_def)
    qed
  qed
  then show ?thesis by (rule accepts_longer) auto
qed

lemma accepts_steps: "steps_accepted n"
proof (induction n)
  case (Suc n)
  show ?case
    unfolding steps_accepted_def
    using accepts_steps_Suc[OF Suc] accepts_step_Suc[OF Suc] accepts_element_Suc[OF Suc]
    by (auto simp del: parse_steps.simps parse_step.simps parse_element.simps)
qed (simp add: steps_accepted_def)

lemma accepts_element:
  "4 * length r + 1 \<le> n \<Longrightarrow> accepts True r (element_ok any_float) (parse_element n r)"
  using accepts_steps[of n] unfolding steps_accepted_def by blast

section \<open>Combinators\<close>

lemma accepts_then_comma:
  assumes "accepts True r Q p" "\<And>x. Q x \<Longrightarrow> R (f x)"
  shows "accepts True r R (bind_r p (\<lambda>(x, r). bind_r (require_comma r) (\<lambda>(_, r). Inr (f x, r))))"
  by (rule accepts_bind[OF assms(1), where strict' = False],
      rule accepts_bind[OF accepts_require_comma, where strict' = False])
    (use assms(2) in auto)

text \<open>A wrapper is proper when it makes a proper term of a proper one.\<close>

definition wrapper_ok :: "(PatternExpr \<Rightarrow> PatternExpr) \<Rightarrow> bool" where
  "wrapper_ok f \<longleftrightarrow> (\<forall>e. expr_ok any_float e \<longrightarrow> expr_ok any_float (f e))"

lemma accepts_every: "accepts True r wrapper_ok (every_arguments r)"
  unfolding every_arguments_def
proof (rule accepts_bind[OF accepts_u32, where strict' = False],
    rule accepts_bind[OF accepts_require_comma, where strict' = False])
  fix period r1 and u :: unit and r2
  assume period: "u32_ok period"
  have offset: "accepts False r2 u32_ok (if peek_number r2
      then bind_r (integer_u32 r2) (\<lambda>(k, r). bind_r (require_comma r) (\<lambda>(_, r). Inr (k, r)))
      else Inr (0, r2))"
    using accepts_weaken[OF accepts_then_comma[OF accepts_u32, of u32_ok "\<lambda>k. k" r2], of u32_ok False]
    by (auto simp: u32_ok_def)
  show "accepts False r2 wrapper_ok (bind_r (if peek_number r2
      then bind_r (integer_u32 r2) (\<lambda>(k, r). bind_r (require_comma r) (\<lambda>(_, r). Inr (k, r)))
      else Inr (0, r2)) (\<lambda>(k, r). bind_r (transform r) (\<lambda>(t, r).
      bind_r (require_comma r) (\<lambda>(_, r). Inr (Every period k t, r)))))"
  proof (rule accepts_bind[OF offset, where strict' = True])
    fix k r3 assume "u32_ok k"
    then show "accepts True r3 wrapper_ok (bind_r (transform r3) (\<lambda>(t, r).
        bind_r (require_comma r) (\<lambda>(_, r). Inr (Every period k t, r))))"
      by (intro accepts_then_comma[OF accepts_transform]) (simp add: wrapper_ok_def period)
  qed simp
qed simp_all

lemma accepts_wrapper: "accepts False r wrapper_ok (wrapper_arguments word r)"
proof -
  note weaken = accepts_weaken[where strict' = False and R = wrapper_ok]
  have "accepts False r wrapper_ok (every_arguments r)" by (rule weaken[OF accepts_every]) auto
  moreover have "accepts False r wrapper_ok
      (bind_r (signed_i32 r) (\<lambda>(k, r). bind_r (require_comma r) (\<lambda>(_, r). Inr (Rotate k, r))))"
    by (rule weaken[OF accepts_then_comma[OF accepts_i32]]) (auto simp: wrapper_ok_def)
  moreover have "accepts False r wrapper_ok
      (bind_r (integer_u32 r) (\<lambda>(k, r). bind_r (require_comma r) (\<lambda>(_, r).
          Inr (if word = ascii ''fast'' then Fast k else Slow k, r))))"
    by (rule weaken[OF accepts_then_comma[OF accepts_u32]]) (auto simp: wrapper_ok_def)
  moreover have "accepts False r wrapper_ok
      (bind_r (number r) (\<lambda>(x, r). bind_r (require_comma r) (\<lambda>(_, r).
          Inr (if word = ascii ''swing'' then Swing x
               else if word = ascii ''gain'' then Gain x else Degrade x, r))))"
    by (rule weaken[OF accepts_then_comma[OF accepts_number]]) (auto simp: wrapper_ok_def)
  ultimately show ?thesis
    unfolding wrapper_arguments_def by (auto simp: wrapper_ok_def)
qed

lemma accepts_euclid:
  assumes "4 * length r + 2 \<le> n" "i32_ok rotation" "\<forall>e \<in> set_option element. element_ok any_float e"
  shows "accepts False r (\<lambda>(k, e). i32_ok k \<and> (\<forall>x \<in> set_option e. element_ok any_float x))
    (euclid_arguments n rotation element r)"
  using assms
proof (induction n arbitrary: rotation element r)
  case (Suc n)
  let ?Q = "\<lambda>(k, e). i32_ok k \<and> (\<forall>x \<in> set_option e. element_ok any_float x)"
  obtain found r1 where r1: "comma r = (found, r1)" by (cases "comma r")
  note c = accepts_comma[OF r1]
  show ?case
  proof (cases found)
    case True
    then have len: "length r1 < length r" using c by simp
    have next_ok: "accepts False r2 ?Q (euclid_arguments n k e r2)"
      if "i32_ok k" "\<forall>x \<in> set_option e. element_ok any_float x" "suffix r2 r1" for k e r2
      by (rule Suc.IH) (use that suffix_length_le[OF that(3)] len Suc.prems(1) in auto)
    have "accepts False r1 ?Q (bind_r (signed_i32 r1) (\<lambda>(k, r). euclid_arguments n k element r))"
      by (rule accepts_bind[OF accepts_i32, where strict' = False])
        (use next_ok Suc.prems(3) in auto)
    moreover have "accepts False r1 ?Q (bind_r (parse_element n r1)
        (\<lambda>(e, r). euclid_arguments n rotation (Some e) r))"
      by (rule accepts_bind[OF accepts_element, where strict' = False])
        (use next_ok Suc.prems len in auto)
    ultimately have "accepts False r1 ?Q (euclid_arguments (Suc n) rotation element r)"
      unfolding euclid_arguments.simps r1 using True by (simp only: prod.case bool.case if_split simp_thms)
    then show ?thesis by (rule accepts_longer) (use c in auto)
  qed (use r1 c Suc.prems in simp)
qed simp

section \<open>Terms\<close>

definition exprs_accepted :: "nat \<Rightarrow> bool" where
  "exprs_accepted n \<longleftrightarrow> (\<forall>r.
     (4 * length r + 5 \<le> n \<longrightarrow> accepts False r (expr_ok any_float) (parse_expr n r))
     \<and> (4 * length r + 4 \<le> n \<longrightarrow> accepts False r (\<lambda>ms. \<forall>m \<in> set ms. expr_ok any_float m) (parse_members n r))
     \<and> (4 * length r + 4 \<le> n \<longrightarrow> accepts False r (\<lambda>c. \<forall>e \<in> set_option c. expr_ok any_float e) (try_call n r)))"

lemma accepts_expr_Suc:
  assumes "exprs_accepted n" "4 * length r + 4 \<le> n"
  shows "accepts False r (expr_ok any_float) (parse_expr (Suc n) r)"
  unfolding parse_expr.simps
proof (rule accepts_bind[where strict = False and strict' = False
      and Q = "\<lambda>c. \<forall>e \<in> set_option c. expr_ok any_float e"])
  show "accepts False r (\<lambda>c. \<forall>e \<in> set_option c. expr_ok any_float e) (try_call n r)"
    using assms unfolding exprs_accepted_def by blast
  fix call r' assume call: "\<forall>e \<in> set_option call. expr_ok any_float e" and r': "suffix r' r"
  have "4 * length r' + 3 \<le> n" using suffix_length_le[OF r'] assms(2) by linarith
  then have steps: "accepts False r' (\<lambda>ss. \<forall>s \<in> set ss. step_ok any_float s) (parse_steps n r')"
    using accepts_steps[of n] unfolding steps_accepted_def by blast
  have "accepts False r' (expr_ok any_float) (bind_r (parse_steps n r') (\<lambda>(steps, r).
         if steps = [] then parse_error r (ascii ''expected a pattern'') else Inr (Seq steps, r)))"
    by (rule accepts_bind[OF steps, where strict' = False]) auto
  then show "accepts False r' (expr_ok any_float) (case call of
       Some c \<Rightarrow> Inr (c, r')
     | None \<Rightarrow> bind_r (parse_steps n r') (\<lambda>(steps, r).
         if steps = [] then parse_error r (ascii ''expected a pattern'') else Inr (Seq steps, r)))"
    using call by (cases call) auto
qed simp

lemma accepts_members_Suc:
  assumes "exprs_accepted n" "4 * length r + 3 \<le> n"
  shows "accepts False r (\<lambda>ms. \<forall>m \<in> set ms. expr_ok any_float m) (parse_members (Suc n) r)"
proof -
  let ?Q = "\<lambda>ms. \<forall>m \<in> set ms. expr_ok any_float m"
  obtain found r1 where r1: "comma r = (found, r1)" by (cases "comma r")
  note c = accepts_comma[OF r1]
  show ?thesis
  proof (cases found)
    case True
    then have len: "length r1 < length r" using c by simp
    have "accepts False r1 ?Q (bind_r (parse_expr n r1) (\<lambda>(member, r).
        bind_r (parse_members n r) (\<lambda>(members, r). Inr (member # members, r))))"
    proof (rule accepts_bind[where strict = False and strict' = False and Q = "expr_ok any_float"])
      have "4 * length r1 + 5 \<le> n" using len assms(2) by linarith
      then show "accepts False r1 (expr_ok any_float) (parse_expr n r1)"
        using assms(1) unfolding exprs_accepted_def by blast
      fix m r2 assume m: "expr_ok any_float m" and r2: "suffix r2 r1"
      have "4 * length r2 + 4 \<le> n" using suffix_length_le[OF r2] len assms(2) by linarith
      then have "accepts False r2 ?Q (parse_members n r2)"
        using assms(1) unfolding exprs_accepted_def by blast
      then show "accepts False r2 ?Q (bind_r (parse_members n r2) (\<lambda>(members, r). Inr (m # members, r)))"
        by (rule accepts_bind[where strict' = False]) (use m in auto)
    qed simp
    then show ?thesis using True r1 c accepts_longer[of False r1 ?Q _ r False] by simp
  qed (use r1 c in simp)
qed

lemma accepts_call_Suc:
  assumes "exprs_accepted n" "4 * length start + 3 \<le> n"
  shows "accepts False start (\<lambda>c. \<forall>e \<in> set_option c. expr_ok any_float e) (try_call (Suc n) start)"
proof (cases "ident start")
  case None
  then show ?thesis by simp
next
  case (Some y)
  obtain word r0 where y: "y = (word, r0)" by (cases y)
  note i = ident_Some[OF Some[unfolded y]]
  show ?thesis
  proof (cases "peek r0 \<noteq> Some 40 \<or> word \<notin> set combinators")
    case True
    then show ?thesis using Some y by simp
  next
    case False
    define r where "r = skip_space (tl r0)"
    have r: "suffix r start" "4 * length r + 7 \<le> n"
    proof -
      show "suffix r start"
        unfolding r_def using suffix_order.trans[OF suffix_skip_tl i(2)] .
      have "length r \<le> length (tl r0)" unfolding r_def by (rule skip_length)
      moreover have "length (tl r0) < length r0" using False by (auto simp: peek_Some)
      ultimately have "length r + 2 \<le> length start" using i(3) by linarith
      then show "4 * length r + 7 \<le> n" using assms(2) by linarith
    qed
    have expr: "accepts False r' (expr_ok any_float) (parse_expr n r')" if "suffix r' r" for r'
      using assms(1) suffix_length_le[OF that] r(2) unfolding exprs_accepted_def by auto
    have members: "accepts False r' (\<lambda>ms. \<forall>m \<in> set ms. expr_ok any_float m) (parse_members n r')"
      if "suffix r' r" for r'
      using assms(1) suffix_length_le[OF that] r(2) unfolding exprs_accepted_def by auto
    have stack: "accepts False r (expr_ok any_float) (bind_r (parse_expr n r) (\<lambda>(member, r).
        bind_r (parse_members n r) (\<lambda>(members, r). Inr (Stack (member # members), r))))"
      by (rule accepts_bind[OF expr[OF suffix_order.refl], where strict' = False],
          rule accepts_bind[OF members, where strict' = False]) auto
    have wrap: "accepts False r (expr_ok any_float) (bind_r (wrapper_arguments word r) (\<lambda>(wrap, r).
        bind_r (parse_expr n r) (\<lambda>(inner, r). Inr (wrap inner, r))))"
      by (rule accepts_bind[OF accepts_wrapper, where strict' = False],
          rule accepts_bind[OF expr, where strict' = False]) (auto simp: wrapper_ok_def)
    have arguments: "accepts False (skip_space r') (\<lambda>(k, e). i32_ok k \<and> (\<forall>x \<in> set_option e. element_ok any_float x))
        (euclid_arguments n 0 None (skip_space r'))" if "suffix r' r" for r'
    proof -
      have "4 * length (skip_space r') + 2 \<le> n"
        using skip_length[of r'] suffix_length_le[OF that] r(2) by linarith
      then show ?thesis by (intro accepts_euclid) (auto simp: i32_ok_def)
    qed
    have euclid: "accepts False r (expr_ok any_float) (bind_r (integer_u32 r) (\<lambda>(hits, r).
        bind_r (require_comma r) (\<lambda>(_, r).
        bind_r (integer_u32 r) (\<lambda>(slots, r).
        bind_r (euclid_arguments n 0 None (skip_space r)) (\<lambda>((rotation, element), r).
        case element of
          None \<Rightarrow> parse_error r (ascii ''e(...) needs an element'')
        | Some x \<Rightarrow> Inr (Euclid hits slots rotation x, r))))))"
    proof (rule accepts_bind[OF accepts_u32, where strict' = False],
        rule accepts_bind[OF accepts_require_comma, where strict' = False],
        rule accepts_bind[OF accepts_u32, where strict' = False])
      fix hits r1 and u :: unit and r2 slots r3
      assume *: "u32_ok hits" "suffix r1 r" "suffix r2 r1" "u32_ok slots" "suffix r3 r2"
      have "suffix r3 r" using * suffix_order.trans by blast
      have "accepts False (skip_space r3) (expr_ok any_float)
        (bind_r (euclid_arguments n 0 None (skip_space r3)) (\<lambda>((rotation, element), r).
          case element of
            None \<Rightarrow> parse_error r (ascii ''e(...) needs an element'')
          | Some x \<Rightarrow> Inr (Euclid hits slots rotation x, r)))"
        by (rule accepts_bind[OF arguments[OF \<open>suffix r3 r\<close>], where strict' = False])
          (use * in \<open>auto split: option.split\<close>)
      then show "accepts False r3 (expr_ok any_float)
        (bind_r (euclid_arguments n 0 None (skip_space r3)) (\<lambda>((rotation, element), r).
          case element of
            None \<Rightarrow> parse_error r (ascii ''e(...) needs an element'')
          | Some x \<Rightarrow> Inr (Euclid hits slots rotation x, r)))"
        by (rule accepts_longer) auto
    qed simp_all
    let ?calls = "if word = ascii ''stack'' then
        bind_r (parse_expr n r) (\<lambda>(member, r).
        bind_r (parse_members n r) (\<lambda>(members, r). Inr (Stack (member # members), r)))
      else if word = ascii ''e'' then
        bind_r (integer_u32 r) (\<lambda>(hits, r).
        bind_r (require_comma r) (\<lambda>(_, r).
        bind_r (integer_u32 r) (\<lambda>(slots, r).
        bind_r (euclid_arguments n 0 None (skip_space r)) (\<lambda>((rotation, element), r).
        case element of
          None \<Rightarrow> parse_error r (ascii ''e(...) needs an element'')
        | Some x \<Rightarrow> Inr (Euclid hits slots rotation x, r)))))
      else
        bind_r (wrapper_arguments word r) (\<lambda>(wrap, r).
        bind_r (parse_expr n r) (\<lambda>(inner, r). Inr (wrap inner, r)))"
    have calls: "accepts False r (expr_ok any_float) ?calls"
      using stack euclid wrap by simp
    have "accepts False r (\<lambda>c. \<forall>e \<in> set_option c. expr_ok any_float e) (bind_r ?calls (\<lambda>(call, r).
        bind_r (expect 41 (skip_space r)) (\<lambda>(_, r). Inr (Some call, r))))"
    proof (rule accepts_bind[OF calls, where strict' = False])
      fix call r1 assume call: "expr_ok any_float call"
      have "accepts False (skip_space r1) (\<lambda>c. \<forall>e \<in> set_option c. expr_ok any_float e)
          (bind_r (expect 41 (skip_space r1)) (\<lambda>(_, r). Inr (Some call, r)))"
        by (rule accepts_bind[OF accepts_expect, where strict' = False]) (use call in auto)
      then show "accepts False r1 (\<lambda>c. \<forall>e \<in> set_option c. expr_ok any_float e)
          (bind_r (expect 41 (skip_space r1)) (\<lambda>(_, r). Inr (Some call, r)))"
        by (rule accepts_longer) auto
    qed simp
    then have "accepts False start (\<lambda>c. \<forall>e \<in> set_option c. expr_ok any_float e) (bind_r ?calls (\<lambda>(call, r).
        bind_r (expect 41 (skip_space r)) (\<lambda>(_, r). Inr (Some call, r))))"
      by (rule accepts_longer) (use r(1) in auto)
    moreover have "try_call (Suc n) start = bind_r ?calls (\<lambda>(call, r).
        bind_r (expect 41 (skip_space r)) (\<lambda>(_, r). Inr (Some call, r)))"
      using False Some y by (simp only: try_call.simps option.case prod.case Let_def r_def if_False)
    ultimately show ?thesis by simp
  qed
qed

lemma accepts_exprs: "exprs_accepted n"
proof (induction n)
  case (Suc n)
  show ?case
    unfolding exprs_accepted_def
    using accepts_expr_Suc[OF Suc] accepts_members_Suc[OF Suc] accepts_call_Suc[OF Suc]
    by (auto simp del: parse_expr.simps parse_members.simps try_call.simps)
qed (simp add: exprs_accepted_def)

lemma accepts_parse_bytes: "accepts False source (expr_ok any_float) (parse_bytes source)"
proof -
  let ?r = "skip_space source"
  have "4 * length ?r + 5 \<le> parse_fuel source"
    using skip_length[of source] unfolding parse_fuel_def by linarith
  then have expr: "accepts False ?r (expr_ok any_float) (parse_expr (parse_fuel source) ?r)"
    using accepts_exprs unfolding exprs_accepted_def by blast
  have "accepts False ?r (expr_ok any_float) (parse_bytes source)"
    unfolding parse_bytes_def
  proof (rule accepts_bind[OF expr, where strict' = False])
    fix e r' assume "expr_ok any_float e"
    then show "accepts False r' (expr_ok any_float) (let r = skip_space r'
        in if r = [] then Inr (e, r) else parse_error r (ascii ''unexpected trailing input''))"
      by (simp add: Let_def)
  qed simp
  then show ?thesis by (rule accepts_longer) auto
qed

text \<open>So \<open>parse\<close> gives a proper term, an error inside the text, or the one panic there is.\<close>

lemma parse_outcome:
  "case parse source of
     Inr t \<Rightarrow> expr_ok any_float t
   | Inl (Failed e) \<Rightarrow> offset e \<le> length (utf8 source)
   | Inl Panicked \<Rightarrow> min_literal (utf8 source)"
  using accepts_parse_bytes[of "utf8 source"]
  by (auto simp: parse_def Let_def accepts_def split: sum.splits fault.splits parse_stop.splits prod.splits)

end
