(* ===== verification/Pattern_Roundtrip.thy ===== *)
theory Pattern_Roundtrip
  imports Pattern_Parser
begin

text \<open>
  Parsing what the printer wrote: a proper term whose floats print as plain decimals is the term
  its printed text parses to.
\<close>

section \<open>Numbers\<close>

definition stops :: "(nat \<Rightarrow> bool) \<Rightarrow> bytes \<Rightarrow> bool" where
  "stops p r \<longleftrightarrow> (\<forall>b rest. r = b # rest \<longrightarrow> \<not> p b)"

lemma take_while_stops:
  assumes "list_all p ds" "stops p r"
  shows "takeWhile p (ds @ r) = ds" "dropWhile p (ds @ r) = r"
proof -
  have all: "\<And>x. x \<in> set ds \<Longrightarrow> p x" using assms(1) by (simp add: list_all_iff)
  have "takeWhile p r = []" "dropWhile p r = r" using assms(2) by (cases r; simp add: stops_def)+
  then show "takeWhile p (ds @ r) = ds" "dropWhile p (ds @ r) = r"
    using takeWhile_append2[of ds p r] dropWhile_append2[of ds p r] all by simp_all
qed

lemma digits_value_snoc: "digits_value (ds @ [d]) = 10 * digits_value ds + (d - 48)"
  by (simp add: digits_value_def)

lemma decimal_digits:
  "decimal n \<noteq> [] \<and> list_all is_digit (decimal n) \<and> digits_value (decimal n) = n"
proof (induction n rule: decimal.induct)
  case (1 n)
  then show ?case
    by (subst (1 2 3) decimal.simps)
      (auto simp: is_digit_def[of "48 + _"] digits_value_snoc digits_value_def[of "[_]"])
qed

lemma parse_decimal:
  assumes "n \<le> u64_max" "stops is_digit r"
  shows "integer (decimal n @ r) = Inr (n, r)"
  using take_while_stops[OF _ assms(2), of "decimal n"] decimal_digits[of n] assms(1)
  by (simp add: integer_def Let_def)

lemma parse_u32:
  assumes "u32_ok n" "stops is_digit r"
  shows "integer_u32 (decimal n @ r) = Inr (n, r)"
  using parse_decimal[OF _ assms(2), of n] assms(1)
  by (simp add: integer_u32_def as_u32_def u32_ok_def range_simps)

lemma decimal_head:
  obtains d ds where "decimal n = d # ds" "is_digit d"
  using decimal_digits[of n] by (cases "decimal n") auto

lemma wrap_small:
  assumes "i32_ok k"
  shows "wrap_i32 k = k" "wrap_i64 k = k"
proof -
  have "(k + 2 ^ 31) mod 2 ^ 32 = k + 2 ^ 31" "(k + 2 ^ 63) mod 2 ^ 64 = k + 2 ^ 63"
    using assms by (intro mod_pos_pos_trivial; simp add: i32_ok_def)+
  then show "wrap_i32 k = k" "wrap_i64 k = k" by (simp_all add: wrap_i32_def wrap_i64_def)
qed

lemma parse_signed:
  assumes "i32_ok k" "stops is_digit r"
  shows "signed_i32 (signed_decimal k @ r) = Inr (k, r)"
proof (cases "k < 0")
  case True
  have small: "i32_ok (- k) \<or> - k = 2 ^ 31" using assms(1) by (auto simp: i32_ok_def)
  have "wrap_i64 (- k) = - k"
  proof (cases "- k = 2 ^ 31")
    case True
    show ?thesis unfolding True wrap_i64_def by simp
  qed (use small wrap_small(2)[of "- k"] in simp)
  moreover have "- k \<noteq> i64_min" using True by (simp add: range_simps)
  moreover have "integer (decimal (nat (- k)) @ r) = Inr (nat (- k), r)"
    using assms by (intro parse_decimal) (auto simp: i32_ok_def range_simps)
  ultimately show ?thesis
    using True wrap_small[OF assms(1)] by (simp add: signed_i32_def signed_integer_def signed_decimal_def peek_def)
next
  case False
  obtain d ds where d: "decimal (nat k) = d # ds" "is_digit d" by (rule decimal_head)
  have "integer (decimal (nat k) @ r) = Inr (nat k, r)"
    using assms by (intro parse_decimal) (auto simp: i32_ok_def range_simps)
  moreover have "peek (decimal (nat k) @ r) \<noteq> Some 45" using d by (auto simp: peek_def is_digit_def)
  ultimately show ?thesis
    using False wrap_small[OF assms(1)] by (simp add: signed_i32_def signed_integer_def signed_decimal_def)
qed

lemma peek_signed_decimal [simp]: "peek_signed_integer (signed_decimal k @ r)"
proof -
  obtain d ds where d: "decimal (nat k) = d # ds" "is_digit d" by (rule decimal_head)
  obtain e es where e: "decimal (nat (- k)) = e # es" "is_digit e" by (rule decimal_head)
  show ?thesis
    using d e by (auto simp: peek_signed_integer_def signed_decimal_def peek_number_def is_digit_def)
qed

text \<open>The text of a float is a plain decimal that parses to it.\<close>

definition plain :: "float_text \<Rightarrow> f32 \<Rightarrow> bool" where
  "plain debug x \<longleftrightarrow> (\<exists>whole fraction. debug x = whole @ 46 # fraction \<and> whole \<noteq> []
     \<and> list_all is_digit whole \<and> list_all is_digit fraction \<and> f32_of_decimal whole fraction = x)"

lemma parse_number:
  assumes "plain debug x" "stops is_digit r"
  shows "number (debug x @ r) = Inr (x, r)" "peek_number (debug x @ r)"
proof -
  obtain whole fraction where d: "debug x = whole @ 46 # fraction" "whole \<noteq> []"
    "list_all is_digit whole" "list_all is_digit fraction" "f32_of_decimal whole fraction = x"
    using assms(1) by (auto simp: plain_def)
  have "stops is_digit (46 # fraction @ r)" by (simp add: stops_def is_digit_def)
  from take_while_stops[OF d(3) this] take_while_stops[OF d(4) assms(2)]
  show "number (debug x @ r) = Inr (x, r)" using d by (simp add: number_def Let_def peek_def)
  show "peek_number (debug x @ r)" using d by (cases whole) (simp_all add: peek_number_def)
qed

section \<open>What may follow\<close>

text \<open>\<open>calm\<close>: after an element; \<open>follow\<close>: after a step; \<open>closing\<close>: after steps.\<close>

definition calm :: "bytes \<Rightarrow> bool" where
  "calm r \<longleftrightarrow> (\<forall>b rest. r = b # rest \<longrightarrow> b \<in> {32, 33, 41, 42, 44, 62, 63, 64, 93, 94})"

definition follow :: "bytes \<Rightarrow> bool" where
  "follow r \<longleftrightarrow> (\<forall>b rest. r = b # rest \<longrightarrow> b \<in> {32, 41, 44, 62, 93})"

definition closing :: "bytes \<Rightarrow> bool" where
  "closing r \<longleftrightarrow> (\<forall>b rest. r = b # rest \<longrightarrow> b \<in> {41, 44, 62, 93})"

lemma calm_follow: "follow r \<Longrightarrow> calm r" "closing r \<Longrightarrow> follow r"
  by (auto simp: calm_def follow_def closing_def)

lemma calm_stops:
  assumes "calm r"
  shows "stops is_digit r" "stops is_ident_byte r"
    "peek r \<noteq> Some 47" "peek r \<noteq> Some 46" "peek r \<noteq> Some 58" "peek r \<noteq> Some 40"
  using assms
  by (auto simp: calm_def stops_def is_digit_def is_ident_byte_def is_lowercase_def peek_Some)

section \<open>Modifiers\<close>

definition repeat_text :: "nat \<Rightarrow> bytes" where
  "repeat_text n = (if 1 < n then 42 # decimal n else [])"

definition replicate_text :: "nat \<Rightarrow> bytes" where
  "replicate_text n = (if 1 < n then 33 # decimal n else [])"

definition width_text :: "Ratio \<Rightarrow> bytes" where
  "width_text w = (if w = ratio_one then []
     else if ratio_denominator w = 1 then 64 # decimal (ratio_numerator w)
     else 64 # decimal (ratio_numerator w) @ 47 # decimal (ratio_denominator w))"

definition option_text :: "nat \<Rightarrow> float_text \<Rightarrow> f32 option \<Rightarrow> bytes" where
  "option_text mark debug p = (case p of None \<Rightarrow> [] | Some x \<Rightarrow> mark # debug x)"

lemma print_modifiers_parts:
  "print_modifiers debug (Step e w rep rpt p v) =
     repeat_text rpt @ replicate_text rep @ width_text w @ option_text 63 debug p @ option_text 94 debug v"
  by (simp add: print_modifiers_def repeat_text_def replicate_text_def width_text_def option_text_def)

lemma calm_parts:
  assumes "calm r"
  shows "calm (option_text 94 debug v @ r)" "calm (option_text 63 debug v @ r)"
    "calm (width_text w @ r)" "calm (replicate_text n @ r)" "calm (repeat_text n @ r)"
  using assms
  by (auto simp: calm_def option_text_def width_text_def replicate_text_def repeat_text_def
      split: option.splits)

lemma modifiers_done:
  assumes "follow r" "0 < n"
  shows "modifiers n s r = Inr (s, r)"
proof -
  have "modifier s r = Inr (None, r)"
    using assms(1) by (cases s) (auto simp: modifier_def follow_def peek_Some)
  then show ?thesis using assms(2) by (cases n) simp_all
qed

lemma modifiers_velocity:
  assumes "follow r" "1 < n" "\<forall>x \<in> set_option v. plain debug x"
  shows "modifiers n (Step e w rep rpt p None) (option_text 94 debug v @ r) = Inr (Step e w rep rpt p v, r)"
proof (cases v)
  case None
  then show ?thesis using modifiers_done[OF assms(1)] assms(2) by (simp add: option_text_def)
next
  case (Some x)
  obtain k where k: "n = Suc k" "0 < k" using assms(2) by (cases n) auto
  have "number (debug x @ r) = Inr (x, r)"
    using parse_number(1) assms calm_stops calm_follow Some by auto
  then show ?thesis
    using Some k modifiers_done[OF assms(1) k(2)]
    by (simp add: option_text_def modifier_def peek_def)
qed

lemma modifiers_probability:
  assumes "follow r" "2 < n" "\<forall>x \<in> set_option v. plain debug x" "\<forall>x \<in> set_option p. plain debug x"
  shows "modifiers n (Step e w rep rpt None None) (option_text 63 debug p @ option_text 94 debug v @ r)
    = Inr (Step e w rep rpt p v, r)"
proof (cases p)
  case None
  then show ?thesis using modifiers_velocity[OF assms(1) _ assms(3)] assms(2) by (simp add: option_text_def)
next
  case (Some x)
  obtain k where k: "n = Suc k" "1 < k" using assms(2) by (cases n) auto
  have "stops is_digit (option_text 94 debug v @ r)"
    using calm_stops(1)[OF calm_parts(1)[OF calm_follow(1)[OF assms(1)]]] .
  then have "number (debug x @ option_text 94 debug v @ r) = Inr (x, option_text 94 debug v @ r)"
    "peek_number (debug x @ option_text 94 debug v @ r)"
    using parse_number assms(4) Some by auto
  then show ?thesis
    using Some k modifiers_velocity[OF assms(1) k(2) assms(3)]
    by (simp add: option_text_def[of 63] modifier_def peek_def)
qed

lemma modifiers_width:
  assumes "follow r" "3 < n" "\<forall>x \<in> set_option v. plain debug x" "\<forall>x \<in> set_option p. plain debug x"
    and w: "0 < ratio_numerator w" "u32_ok (ratio_numerator w)"
      "0 < ratio_denominator w" "u32_ok (ratio_denominator w)"
  defines "rest \<equiv> option_text 63 debug p @ option_text 94 debug v @ r"
  shows "modifiers n (Step e ratio_one rep rpt None None) (width_text w @ rest) = Inr (Step e w rep rpt p v, r)"
proof (cases "w = ratio_one")
  case True
  then show ?thesis
    using modifiers_probability[OF assms(1) _ assms(3,4)] assms(2) by (simp add: width_text_def rest_def)
next
  case False
  obtain k where k: "n = Suc k" "2 < k" using assms(2) by (cases n) auto
  have calm: "calm rest"
    unfolding rest_def by (intro calm_parts calm_follow(1)[OF assms(1)])
  note stops = calm_stops[OF calm]
  obtain a b where w_eq: "w = Ratio a b" by (cases w)
  have rest_ok: "modifiers k (Step e w rep rpt None None) rest = Inr (Step e w rep rpt p v, r)"
    using modifiers_probability[OF assms(1) k(2) assms(3,4)] by (simp add: rest_def)
  show ?thesis
  proof (cases "b = 1")
    case True
    then have "integer_u32 (decimal a @ rest) = Inr (a, rest)"
      using w w_eq stops by (intro parse_u32) simp_all
    then show ?thesis
      using False k w w_eq True rest_ok stops by (simp add: width_text_def modifier_def peek_def[of "64 # _"])
  next
    case other: False
    have "stops is_digit (47 # decimal b @ rest)" by (simp add: stops_def is_digit_def)
    then have "integer_u32 (decimal a @ 47 # decimal b @ rest) = Inr (a, 47 # decimal b @ rest)"
      using w w_eq by (intro parse_u32) simp_all
    moreover have "integer_u32 (decimal b @ rest) = Inr (b, rest)"
      using w w_eq stops by (intro parse_u32) simp_all
    ultimately show ?thesis
      using False other k w w_eq rest_ok by (simp add: width_text_def modifier_def peek_def)
  qed
qed

lemma modifiers_printed:
  assumes "follow r" "5 < n" "step_ok (plain debug) (Step e w rep rpt p v)"
  shows "modifiers n (step_plain e) (print_modifiers debug (Step e w rep rpt p v) @ r)
    = Inr (Step e w rep rpt p v, r)"
proof -
  define r3 where "r3 = width_text w @ option_text 63 debug p @ option_text 94 debug v @ r"
  define r2 where "r2 = replicate_text rep @ r3"
  have calm: "calm r3" "calm r2"
    unfolding r2_def r3_def by (intro calm_parts calm_follow(1)[OF assms(1)])+
  have width: "modifiers k (Step e ratio_one rep rpt None None) r3 = Inr (Step e w rep rpt p v, r)"
    if "3 < k" for k
    unfolding r3_def by (rule modifiers_width) (use assms that in auto)
  have replicate: "modifiers k (Step e ratio_one 1 rpt None None) r2 = Inr (Step e w rep rpt p v, r)"
    if k4: "4 < k" for k
  proof (cases "1 < rep")
    case True
    obtain j where j: "k = Suc j" "3 < j" using k4 by (cases k) auto
    have "integer_u32 (decimal rep @ r3) = Inr (rep, r3)"
      using assms(3) calm_stops(1)[OF calm(1)] by (intro parse_u32) auto
    then show ?thesis
      using True j width[OF j(2)] by (simp add: r2_def replicate_text_def modifier_def peek_def)
  next
    case False
    then have "rep = 1" using assms(3) by simp
    then show ?thesis using width[of k] k4 by (simp add: r2_def replicate_text_def)
  qed
  show ?thesis
  proof (cases "1 < rpt")
    case True
    obtain j where j: "n = Suc j" "4 < j" using assms(2) by (cases n) auto
    have "integer_u32 (decimal rpt @ r2) = Inr (rpt, r2)"
      using assms(3) calm_stops(1)[OF calm(2)] by (intro parse_u32) auto
    then show ?thesis
      using True j replicate[OF j(2)]
      by (simp add: print_modifiers_parts step_plain_def repeat_text_def modifier_def peek_def
          flip: r2_def r3_def)
  next
    case False
    then have "rpt = 1" using assms(3) by simp
    then show ?thesis
      using replicate[of n] assms(2)
      by (simp add: print_modifiers_parts step_plain_def repeat_text_def flip: r2_def r3_def)
  qed
qed

section \<open>Steps and elements\<close>

text \<open>The first byte of an element: no space and no closing byte.\<close>

lemma element_head:
  assumes "element_ok float e"
  obtains b rest where "print_element debug e = b # rest"
    "b = 126 \<or> b = 91 \<or> b = 60 \<or> is_lowercase b"
proof (cases e)
  case (Name b v)
  then obtain c cs where "b = c # cs" "is_lowercase c" using assms by (auto simp: name_ok_def)
  then show ?thesis using that Name by (cases v) (auto simp: lane_key_def)
qed (use that in auto)

lemma step_head:
  assumes "step_ok float s"
  obtains b rest where "print_step debug s = b # rest" "b = 126 \<or> b = 91 \<or> b = 60 \<or> is_lowercase b"
proof -
  obtain e w rep rpt p v where s: "s = Step e w rep rpt p v" by (cases s)
  then have "element_ok float e" using assms by simp
  then obtain b rest where "print_element debug e = b # rest"
    "b = 126 \<or> b = 91 \<or> b = 60 \<or> is_lowercase b"
    by (rule element_head)
  then show ?thesis using that[of b] s by simp
qed

lemma opening_byte:
  assumes "b = 126 \<or> b = 91 \<or> b = 60 \<or> is_lowercase b"
  shows "\<not> is_space b" "\<not> ends_steps (Some b)" "\<not> is_digit b" "b \<noteq> 45"
  using assms by (auto simp: is_space_def ends_steps_def is_lowercase_def is_digit_def)

lemma skip_space_Cons: "\<not> is_space b \<Longrightarrow> skip_space (b # r) = b # r"
  by (simp add: skip_space_def)

lemma parse_steps_space: "parse_steps n (32 # r) = parse_steps n r"
  by (cases n) (simp_all add: skip_space_def is_space_def)

lemma parse_steps_closing:
  assumes "closing r" "0 < n"
  shows "parse_steps n r = Inr ([], r)"
proof (cases r)
  case (Cons b rest)
  then have "skip_space r = r" "ends_steps (peek r)"
    using assms(1) by (auto simp: closing_def skip_space_def is_space_def ends_steps_def peek_def)
  then show ?thesis using assms(2) by (cases n) simp_all
qed (use assms in \<open>cases n; simp add: skip_space_def ends_steps_def peek_def\<close>)

definition element_parses :: "float_text \<Rightarrow> Element \<Rightarrow> bool" where
  "element_parses debug e \<longleftrightarrow> (\<forall>r n. calm r \<longrightarrow> 4 * length (print_element debug e @ r) + 6 \<le> n \<longrightarrow>
     parse_element n (print_element debug e @ r) = Inr (e, r))"

definition step_parses :: "float_text \<Rightarrow> Step \<Rightarrow> bool" where
  "step_parses debug s \<longleftrightarrow> (\<forall>r n. follow r \<longrightarrow> 4 * length (print_step debug s @ r) + 7 \<le> n \<longrightarrow>
     parse_step n (print_step debug s @ r) = Inr (s, r))"

lemma step_parsesI:
  assumes "step_ok (plain debug) (Step e w rep rpt p v)" "element_parses debug e"
  shows "step_parses debug (Step e w rep rpt p v)"
  unfolding step_parses_def
proof (intro allI impI)
  let ?s = "Step e w rep rpt p v"
  fix r n assume r: "follow r" and n: "4 * length (print_step debug ?s @ r) + 7 \<le> n"
  obtain k where k: "n = Suc k" using n by (cases n) auto
  have shape: "print_step debug ?s @ r = print_element debug e @ print_modifiers debug ?s @ r" by simp
  have "calm (print_modifiers debug ?s @ r)"
    unfolding print_modifiers_parts append_assoc by (intro calm_parts calm_follow(1)[OF r])
  moreover have "4 * length (print_element debug e @ print_modifiers debug ?s @ r) + 6 \<le> k"
    using n k by simp
  ultimately have "parse_element k (print_step debug ?s @ r) = Inr (e, print_modifiers debug ?s @ r)"
    unfolding shape using assms(2) by (simp add: element_parses_def)
  moreover have "5 < k" using n k by simp
  ultimately show "parse_step n (print_step debug ?s @ r) = Inr (?s, r)"
    using modifiers_printed[OF r _ assms(1)] k by (simp del: print_step.simps)
qed

lemma steps_parse:
  assumes "\<forall>s \<in> set steps. step_ok (plain debug) s \<and> step_parses debug s" "closing r"
    "4 * length (print_steps debug steps @ r) + 8 \<le> n"
  shows "parse_steps n (print_steps debug steps @ r) = Inr (steps, r)"
  using assms
proof (induction steps arbitrary: n)
  case Nil
  then show ?case using parse_steps_closing[OF Nil(2)] by simp
next
  case (Cons s steps)
  obtain k where k: "n = Suc k" using Cons.prems by (cases n) auto
  define rest where "rest = (if steps = [] then r else 32 # print_steps debug steps @ r)"
  have shape: "print_steps debug (s # steps) @ r = print_step debug s @ rest" by (simp add: rest_def)
  obtain b bs where b: "print_step debug s = b # bs" "b = 126 \<or> b = 91 \<or> b = 60 \<or> is_lowercase b"
    using step_head Cons.prems(1) by (metis list.set_intros(1))
  note head = opening_byte[OF b(2)]
  have len: "4 * length (print_step debug s @ rest) + 7 \<le> k"
    using Cons.prems(3) k unfolding shape by simp
  have "follow rest" using Cons.prems(2) calm_follow by (auto simp: rest_def follow_def)
  then have first: "parse_step k (print_step debug s @ rest) = Inr (s, rest)"
    using Cons.prems(1) len by (simp add: step_parses_def)
  have later: "parse_steps k rest = Inr (steps, r)"
  proof (cases "steps = []")
    case True
    then show ?thesis using parse_steps_closing[OF Cons.prems(2)] len by (simp add: rest_def)
  next
    case False
    then have "4 * length (print_steps debug steps @ r) + 8 \<le> k"
      using len by (simp add: rest_def)
    then show ?thesis
      using Cons.IH Cons.prems False by (simp add: rest_def parse_steps_space)
  qed
  have "skip_space (print_step debug s @ rest) = print_step debug s @ rest"
    "\<not> ends_steps (peek (print_step debug s @ rest))"
    using b head by (simp_all add: skip_space_Cons peek_def)
  then show ?case
    unfolding shape k using first later by (simp add: Let_def)
qed

lemma element_parses_bracket:
  assumes steps: "steps \<noteq> []" "\<forall>s \<in> set steps. step_ok (plain debug) s \<and> step_parses debug s"
  shows "element_parses debug (Group steps)" "element_parses debug (Alternate steps)"
proof -
  have inner: "parse_steps k (print_steps debug steps @ b # r) = Inr (steps, b # r)"
    if "b = 93 \<or> b = 62" "4 * length (print_steps debug steps @ b # r) + 8 \<le> k" for b k r
    using steps_parse[OF steps(2) _ that(2)] that(1) by (auto simp: closing_def)
  show "element_parses debug (Group steps)"
    unfolding element_parses_def
  proof (intro allI impI)
    fix r n assume n: "4 * length (print_element debug (Group steps) @ r) + 6 \<le> n"
    obtain k where k: "n = Suc k" using n by (cases n) auto
    have "parse_steps k (print_steps debug steps @ 93 # r) = Inr (steps, 93 # r)"
      using n k by (intro inner) simp_all
    then show "parse_element n (print_element debug (Group steps) @ r) = Inr (Group steps, r)"
      using k steps(1) by (simp add: skip_space_def is_space_def peek_def expect_def)
  qed
  show "element_parses debug (Alternate steps)"
    unfolding element_parses_def
  proof (intro allI impI)
    fix r n assume n: "4 * length (print_element debug (Alternate steps) @ r) + 6 \<le> n"
    obtain k where k: "n = Suc k" using n by (cases n) auto
    have "parse_steps k (print_steps debug steps @ 62 # r) = Inr (steps, 62 # r)"
      using n k by (intro inner) simp_all
    then show "parse_element n (print_element debug (Alternate steps) @ r) = Inr (Alternate steps, r)"
      using k steps(1) by (simp add: skip_space_def is_space_def peek_def expect_def)
  qed
qed

lemma ident_name:
  assumes "name_ok b" "stops is_ident_byte r"
  shows "ident (b @ r) = Some (b, r)"
proof -
  obtain c cs where b: "b = c # cs" "is_lowercase c" "list_all is_ident_byte cs"
    using assms(1) by (auto simp: name_ok_def)
  then show ?thesis using take_while_stops[OF b(3) assms(2)] by (simp add: ident_def)
qed

lemma element_parses_name:
  assumes "element_ok float (Name b v)"
  shows "element_parses debug (Name b v)"
  unfolding element_parses_def
proof (intro allI impI)
  fix r n assume r: "calm r" and n: "4 * length (print_element debug (Name b v) @ r) + 6 \<le> n"
  obtain k where k: "n = Suc k" using n by (cases n) auto
  note stops = calm_stops[OF r]
  have b: "name_ok b" using assms by simp
  then obtain c cs where c: "b = c # cs" "is_lowercase c" by (auto simp: name_ok_def)
  then have head: "\<not> is_space c" "c \<noteq> 126" "c \<noteq> 91" "c \<noteq> 60"
    by (auto simp: is_space_def is_lowercase_def)
  show "parse_element n (print_element debug (Name b v) @ r) = Inr (Name b v, r)"
  proof (cases v)
    case None
    have "ident (b @ r) = Some (b, r)" by (rule ident_name[OF b stops(2)])
    then show ?thesis
      using k c head stops(5) None by (simp add: lane_key_def skip_space_def peek_def[of "_ # _"])
  next
    case (Some x)
    have "ident (b @ 58 # decimal x @ r) = Some (b, 58 # decimal x @ r)"
      by (rule ident_name[OF b]) (simp add: stops_def is_ident_byte_def is_lowercase_def is_digit_def)
    moreover have "integer_u32 (decimal x @ r) = Inr (x, r)"
      using assms Some stops(1) by (intro parse_u32) simp_all
    ultimately show ?thesis
      using k c head Some by (simp add: lane_key_def skip_space_def peek_def)
  qed
qed

lemma elements_parse:
  "element_ok (plain debug) e \<Longrightarrow> element_parses debug e"
  "step_ok (plain debug) s \<Longrightarrow> step_parses debug s"
proof (induction e and s)
  case Rest
  show ?case
    unfolding element_parses_def
  proof (intro allI impI)
    fix r n assume "4 * length (print_element debug Rest @ r) + 6 \<le> n"
    then show "parse_element n (print_element debug Rest @ r) = Inr (Rest, r)"
      by (cases n) (simp_all add: skip_space_def is_space_def peek_def)
  qed
next
  case (Name b v)
  then show ?case by (intro element_parses_name)
next
  case (Group steps)
  then show ?case by (intro element_parses_bracket) auto
next
  case (Alternate steps)
  then show ?case by (intro element_parses_bracket) auto
next
  case (Step e w rep rpt p v)
  then show ?case by (intro step_parsesI) auto
qed

lemma printed_steps_parse:
  assumes "\<forall>s \<in> set steps. step_ok (plain debug) s" "closing r"
    "4 * length (print_steps debug steps @ r) + 8 \<le> n"
  shows "parse_steps n (print_steps debug steps @ r) = Inr (steps, r)"
  using steps_parse[OF _ assms(2,3)] assms(1) elements_parse(2) by blast

end
