(* ===== verification/Pattern_Print.thy ===== *)
theory Pattern_Print
  imports Pattern_Roundtrip
begin

text \<open>
  The round trip for whole terms: combinators print as calls the parser reads back, and printed
  text is ASCII, so its UTF-8 bytes are its code points.
\<close>

section \<open>Separators\<close>

definition opens :: "bytes \<Rightarrow> bool" where
  "opens x \<longleftrightarrow> (\<exists>b rest. x = b # rest \<and> (b = 126 \<or> b = 91 \<or> b = 60 \<or> is_lowercase b))"

lemma fuel_split: "2 \<le> n \<Longrightarrow> \<exists>k. n = Suc (Suc k)"
  by presburger

lemma opens_skip:
  assumes "opens x" shows "skip_space x = x"
proof -
  obtain b rest where x: "x = b # rest" and b: "b = 126 \<or> b = 91 \<or> b = 60 \<or> is_lowercase b"
    using assms unfolding opens_def by blast
  show ?thesis unfolding x by (rule skip_space_Cons[OF opening_byte(1)[OF b]])
qed

lemma opens_append: "opens x \<Longrightarrow> opens (x @ y)"
  by (auto simp: opens_def)

lemma opens_not_number:
  assumes "opens x" shows "\<not> peek_signed_integer x" "\<not> peek_number x"
proof -
  obtain b rest where x: "x = b # rest" and b: "b = 126 \<or> b = 91 \<or> b = 60 \<or> is_lowercase b"
    using assms unfolding opens_def by blast
  show "\<not> peek_signed_integer x" "\<not> peek_number x"
    unfolding x peek_signed_integer_def peek_number_def list.case
    using opening_byte(3,4)[OF b] by simp_all
qed

lemma comma_sep:
  assumes "skip_space x = x"
  shows "comma (sep @ x) = (True, x)" "require_comma (sep @ x) = Inr ((), x)"
  using assms by (simp_all add: sep_def comma_def require_comma_def skip_space_def is_space_def peek_def)

lemma comma_close: "comma (41 # r) = (False, 41 # r)"
  by (simp add: comma_def skip_space_def is_space_def peek_def)

lemma close_call: "expect 41 (skip_space (41 # r)) = Inr ((), r)"
  by (simp add: expect_def skip_space_def is_space_def peek_def)

lemma stops_sep [simp]: "stops is_digit (sep @ x)" "stops is_digit (41 # x)"
  by (simp_all add: stops_def sep_def is_digit_def)

lemma skip_decimal: "skip_space (decimal n @ x) = decimal n @ x"
proof -
  obtain d ds where "decimal n = d # ds" "is_digit d" by (rule decimal_head)
  then show ?thesis by (simp add: skip_space_def is_space_def is_digit_def)
qed

lemma skip_signed: "skip_space (signed_decimal k @ x) = signed_decimal k @ x"
  by (simp add: signed_decimal_def skip_decimal) (simp add: skip_space_def is_space_def)

lemma skip_float:
  assumes "plain debug x" shows "skip_space (debug x @ r) = debug x @ r"
proof -
  obtain d ds where "debug x = d # ds" "is_digit d"
    using assms by (auto simp: plain_def neq_Nil_conv)
  then show ?thesis by (simp add: skip_space_def is_space_def is_digit_def)
qed

lemma u32_then_comma:
  assumes "u32_ok n" "skip_space x = x"
  shows "integer_u32 (decimal n @ sep @ x) = Inr (n, sep @ x)" "require_comma (sep @ x) = Inr ((), x)"
  using parse_u32[OF assms(1)] comma_sep[OF assms(2)] by simp_all

section \<open>Calls\<close>

lemma try_call_word:
  assumes "word \<in> set combinators" "skip_space rest = rest"
  shows "try_call (Suc n) (word @ 40 # rest) =
    bind_r (if word = ascii ''stack'' then
         bind_r (parse_expr n rest) (\<lambda>(member, r).
         bind_r (parse_members n r) (\<lambda>(members, r). Inr (Stack (member # members), r)))
       else if word = ascii ''e'' then
         bind_r (integer_u32 rest) (\<lambda>(hits, r).
         bind_r (require_comma r) (\<lambda>(_, r).
         bind_r (integer_u32 r) (\<lambda>(slots, r).
         bind_r (euclid_arguments n 0 None (skip_space r)) (\<lambda>((rotation, element), r).
         case element of
           None \<Rightarrow> parse_error r (ascii ''e(...) needs an element'')
         | Some x \<Rightarrow> Inr (Euclid hits slots rotation x, r)))))
       else
         bind_r (wrapper_arguments word rest) (\<lambda>(wrap, r).
         bind_r (parse_expr n r) (\<lambda>(inner, r). Inr (wrap inner, r)))) (\<lambda>(call, r).
     bind_r (expect 41 (skip_space r)) (\<lambda>(_, r). Inr (Some call, r)))"
proof -
  have "name_ok word"
    using assms(1) by (auto simp: combinators_def ascii_def name_ok_def is_lowercase_def is_ident_byte_def)
  moreover have "stops is_ident_byte (40 # rest)"
    by (simp add: stops_def is_ident_byte_def is_lowercase_def is_digit_def)
  ultimately have ident: "ident (word @ 40 # rest) = Some (word, 40 # rest)" by (rule ident_name)
  have call: "\<not> (peek (40 # rest) \<noteq> Some 40 \<or> word \<notin> set combinators)"
    using assms(1) by (simp add: peek_def)
  show ?thesis
    unfolding try_call.simps ident option.case prod.case if_not_P[OF call] list.sel assms(2) Let_def ..
qed

definition expr_parses :: "float_text \<Rightarrow> PatternExpr \<Rightarrow> bool" where
  "expr_parses debug e \<longleftrightarrow> (\<forall>r n. closing r \<longrightarrow> 4 * length (print_expr debug e @ r) + 10 \<le> n \<longrightarrow>
     parse_expr n (print_expr debug e @ r) = Inr (e, r))"

lemma expr_parsesD:
  "expr_parses debug e \<Longrightarrow> closing r \<Longrightarrow> 4 * length (print_expr debug e @ r) + 10 \<le> n \<Longrightarrow>
     parse_expr n (print_expr debug e @ r) = Inr (e, r)"
  by (simp add: expr_parses_def)

lemma closing_simps [simp]: "closing (41 # r)" "closing (sep @ r)" "closing []"
  by (simp_all add: closing_def sep_def)

lemma expr_opens: "expr_ok float e \<Longrightarrow> opens (print_expr debug e)"
proof (cases e)
  case (Seq steps)
  assume "expr_ok float e"
  with Seq obtain s rest where s: "steps = s # rest" "step_ok float s" by (cases steps) auto
  obtain b bs where "print_step debug s = b # bs" "b = 126 \<or> b = 91 \<or> b = 60 \<or> is_lowercase b"
    using step_head[OF s(2)] by metis
  then show ?thesis using Seq s by (simp add: opens_def)
qed (simp_all add: opens_def ascii_def is_lowercase_def)

lemma wrapper_parses:
  assumes "print_expr debug e = word @ 40 # args @ print_expr debug inner @ [41]"
    and "word \<in> set combinators" "word \<noteq> ascii ''stack''" "word \<noteq> ascii ''e''"
    and "\<And>x. opens x \<Longrightarrow> skip_space (args @ x) = args @ x \<and> wrapper_arguments word (args @ x) = Inr (wrap, x)"
    and "wrap inner = e" "expr_parses debug inner" "expr_ok float inner"
  shows "expr_parses debug e"
  unfolding expr_parses_def
proof (intro allI impI)
  fix r n assume r: "closing r" and n: "4 * length (print_expr debug e @ r) + 10 \<le> n"
  obtain k where k: "n = Suc (Suc k)" using fuel_split[of n] n by auto
  let ?x = "print_expr debug inner @ 41 # r"
  have shape: "print_expr debug e @ r = word @ 40 # args @ ?x" using assms(1) by simp
  have opens: "opens ?x" by (rule opens_append[OF expr_opens[OF assms(8)]])
  note args = assms(5)[OF opens]
  have "4 * length ?x + 10 \<le> k" using n k unfolding shape by simp
  then have "parse_expr k ?x = Inr (inner, 41 # r)" by (intro expr_parsesD[OF assms(7)]) simp_all
  then have "try_call (Suc k) (print_expr debug e @ r) = Inr (Some e, r)"
    unfolding shape try_call_word[OF assms(2) args[THEN conjunct1]]
    using assms(3,4,6) args close_call by simp
  then show "parse_expr n (print_expr debug e @ r) = Inr (e, r)" using k by simp
qed

section \<open>Each combinator\<close>

lemma seq_parses:
  assumes "steps \<noteq> []" "\<forall>s \<in> set steps. step_ok (plain debug) s"
  shows "expr_parses debug (Seq steps)"
  unfolding expr_parses_def
proof (intro allI impI)
  fix r n assume r: "closing r" and n: "4 * length (print_expr debug (Seq steps) @ r) + 10 \<le> n"
  obtain k where k: "n = Suc (Suc k)" using fuel_split[of n] n by auto
  let ?x = "print_steps debug steps @ r"
  have steps: "parse_steps (Suc k) ?x = Inr (steps, r)"
    by (rule printed_steps_parse) (use assms(2) r n k in auto)
  obtain e w rep rpt p v rest where s: "steps = Step e w rep rpt p v # rest"
    using assms(1) by (metis Step.exhaust neq_Nil_conv)
  then have ok: "element_ok (plain debug) e" using assms(2) by simp
  define tail where "tail = print_modifiers debug (Step e w rep rpt p v)
    @ (if rest = [] then [] else 32 # print_steps debug rest) @ r"
  have x: "?x = print_element debug e @ tail" by (simp add: s tail_def)
  have "calm tail"
    unfolding tail_def print_modifiers_parts append_assoc
    by (intro calm_parts) (use r in \<open>auto simp: calm_def closing_def\<close>)
  note stops = calm_stops[OF this]
  have "try_call (Suc k) ?x = Inr (None, ?x)"
  proof (cases e)
    case (Name b v')
    then have b: "name_ok b" using ok by simp
    show ?thesis
    proof (cases v')
      case None
      then show ?thesis
        using ident_name[OF b stops(2)] stops(6) Name unfolding x by (simp add: lane_key_def)
    next
      case (Some m)
      have "ident (b @ 58 # decimal m @ tail) = Some (b, 58 # decimal m @ tail)"
        by (rule ident_name[OF b]) (simp add: stops_def is_ident_byte_def is_lowercase_def is_digit_def)
      then show ?thesis using Name Some unfolding x by (simp add: lane_key_def peek_def)
    qed
  qed (unfold x, simp_all add: ident_def is_lowercase_def)
  then show "parse_expr n (print_expr debug (Seq steps) @ r) = Inr (Seq steps, r)"
    using steps assms(1) k by (simp del: try_call.simps parse_steps.simps)
qed

lemma members_parse:
  assumes "\<forall>m \<in> set members. expr_parses debug m \<and> expr_ok float m"
    and "4 * length (if members = [] then 41 # r else sep @ print_members debug members @ 41 # r) + 9 \<le> n"
  shows "parse_members n (if members = [] then 41 # r else sep @ print_members debug members @ 41 # r)
    = Inr (members, 41 # r)"
  using assms
proof (induction members arbitrary: n)
  case Nil
  then show ?case by (cases n) (simp_all add: comma_close)
next
  case (Cons m ms)
  obtain k where k: "n = Suc k" using Cons.prems(2) by (cases n) auto
  let ?rest = "if ms = [] then 41 # r else sep @ print_members debug ms @ 41 # r"
  have shape: "print_members debug (m # ms) @ 41 # r = print_expr debug m @ ?rest" by simp
  have "opens (print_expr debug m @ ?rest)"
    using Cons.prems(1) expr_opens opens_append by auto
  then have comma: "comma (sep @ print_expr debug m @ ?rest) = (True, print_expr debug m @ ?rest)"
    by (intro comma_sep opens_skip)
  have len: "4 * length (print_expr debug m @ ?rest) + 16 \<le> k"
    using Cons.prems(2) k by (cases "ms = []") (simp_all add: sep_def)
  then have "parse_expr k (print_expr debug m @ ?rest) = Inr (m, ?rest)"
    using Cons.prems(1) by (intro expr_parsesD) auto
  moreover have "parse_members k ?rest = Inr (ms, 41 # r)"
    using Cons.prems(1) len by (intro Cons.IH) auto
  moreover have "(if m # ms = [] then 41 # r else sep @ print_members debug (m # ms) @ 41 # r)
      = sep @ print_expr debug m @ ?rest"
    by simp
  ultimately show ?case using k comma by (simp only: parse_members.simps prod.case bool.case bind_r_simps)
qed

lemma stack_parses:
  assumes "members \<noteq> []" "\<forall>m \<in> set members. expr_parses debug m \<and> expr_ok float m"
  shows "expr_parses debug (Stack members)"
  unfolding expr_parses_def
proof (intro allI impI)
  fix r n assume n: "4 * length (print_expr debug (Stack members) @ r) + 10 \<le> n"
  obtain k where k: "n = Suc (Suc k)" using fuel_split[of n] n by auto
  obtain m ms where m: "members = m # ms" using assms(1) by (cases members) auto
  let ?rest = "if ms = [] then 41 # r else sep @ print_members debug ms @ 41 # r"
  let ?x = "print_expr debug m @ ?rest"
  have shape: "print_expr debug (Stack members) @ r = ascii ''stack'' @ 40 # ?x"
    by (simp add: m ascii_def)
  have len: "4 * length ?x + 10 \<le> k" using n k unfolding shape by (simp add: ascii_def)
  have "opens ?x" using assms(2) m expr_opens opens_append by auto
  then have skip: "skip_space ?x = ?x" by (rule opens_skip)
  have "parse_expr k ?x = Inr (m, ?rest)"
    using assms(2) m len by (intro expr_parsesD) auto
  moreover have "parse_members k ?rest = Inr (ms, 41 # r)"
    by (rule members_parse) (use assms(2) m len in auto)
  moreover have "ascii ''stack'' \<in> set combinators" by (simp add: combinators_def)
  ultimately have "try_call (Suc k) (print_expr debug (Stack members) @ r) = Inr (Some (Stack members), r)"
    unfolding shape using try_call_word[OF _ skip, of "ascii ''stack''" k] close_call m by simp
  then show "parse_expr n (print_expr debug (Stack members) @ r) = Inr (Stack members, r)"
    using k by simp
qed

lemma euclid_element:
  assumes "element_ok (plain debug) e" "4 * length (print_element debug e @ 41 # r) + 7 \<le> n"
    and "rotation \<noteq> 0 \<or> \<not> peek_signed_integer (print_element debug e @ 41 # r)"
  shows "euclid_arguments n rotation None (sep @ print_element debug e @ 41 # r)
    = Inr ((rotation, Some e), 41 # r)"
proof -
  obtain k where k: "n = Suc (Suc k)" using fuel_split[of n] assms(2) by auto
  have "opens (print_element debug e)"
    using element_head[OF assms(1), of debug] by (metis opens_def)
  then have "comma (sep @ print_element debug e @ 41 # r) = (True, print_element debug e @ 41 # r)"
    by (intro comma_sep opens_skip opens_append)
  moreover have "parse_element (Suc k) (print_element debug e @ 41 # r) = Inr (e, 41 # r)"
    using elements_parse(1)[OF assms(1)] assms(2) k unfolding element_parses_def
    by (simp add: calm_def del: parse_element.simps)
  ultimately show ?thesis
    using assms(3) k by (auto simp: comma_close simp del: parse_element.simps)
qed

lemma euclid_parses:
  assumes "u32_ok hits" "u32_ok slots" "i32_ok rotation" "element_ok (plain debug) e"
  shows "expr_parses debug (Euclid hits slots rotation e)"
  unfolding expr_parses_def
proof (intro allI impI)
  let ?t = "Euclid hits slots rotation e"
  fix r n assume n: "4 * length (print_expr debug ?t @ r) + 10 \<le> n"
  obtain k where k: "n = Suc (Suc k)" using fuel_split[of n] n by auto
  let ?el = "print_element debug e @ 41 # r"
  let ?rest = "sep @ (if rotation = 0 then [] else signed_decimal rotation @ sep) @ ?el"
  let ?x = "decimal hits @ sep @ decimal slots @ ?rest"
  have shape: "print_expr debug ?t @ r = ascii ''e'' @ 40 # ?x" by (simp add: ascii_def)
  have opens: "opens ?el"
    using element_head[OF assms(4), of debug] by (metis opens_def append_Cons)
  have len: "4 * length ?el + 20 \<le> k" using n k unfolding shape by (simp add: ascii_def sep_def)
  have skip: "skip_space ?rest = ?rest" by (simp add: sep_def skip_space_def is_space_def)
  have arguments: "euclid_arguments k 0 None (skip_space ?rest) = Inr ((rotation, Some e), 41 # r)"
  proof (cases "rotation = 0")
    case True
    then show ?thesis
      using euclid_element[OF assms(4), of r k 0] opens_not_number[OF opens] len skip by simp
  next
    case False
    obtain j where j: "k = Suc j" using len by (cases k) auto
    have "signed_i32 (signed_decimal rotation @ sep @ ?el) = Inr (rotation, sep @ ?el)"
      by (rule parse_signed) (use assms(3) in simp_all)
    moreover have "comma (sep @ signed_decimal rotation @ sep @ ?el) = (True, signed_decimal rotation @ sep @ ?el)"
      by (intro comma_sep skip_signed)
    moreover have "euclid_arguments j rotation None (sep @ ?el) = Inr ((rotation, Some e), 41 # r)"
      by (rule euclid_element) (use assms(4) len j False in auto)
    ultimately show ?thesis using False j skip by simp
  qed
  have "integer_u32 ?x = Inr (hits, sep @ decimal slots @ ?rest)"
    "require_comma (sep @ decimal slots @ ?rest) = Inr ((), decimal slots @ ?rest)"
    "integer_u32 (decimal slots @ ?rest) = Inr (slots, ?rest)"
    using u32_then_comma[OF assms(1), of "decimal slots @ ?rest"] parse_u32[OF assms(2), of ?rest]
      skip_decimal by simp_all
  then have "try_call (Suc k) (print_expr debug ?t @ r) = Inr (Some ?t, r)"
    unfolding shape using try_call_word[of "ascii ''e''" ?x k] skip_decimal arguments close_call
    by (simp add: combinators_def ascii_def del: euclid_arguments.simps)
  then show "parse_expr n (print_expr debug ?t @ r) = Inr (?t, r)" using k by simp
qed

lemma parse_transform:
  assumes "transform_ok (plain debug) t"
  shows "transform (print_transform debug t @ r) = Inr (t, r)"
proof -
  have stop: "stops is_ident_byte (40 # x)" for x
    by (simp add: stops_def is_ident_byte_def is_lowercase_def is_digit_def)
  have ident: "ident (ascii w @ 40 # x) = Some (ascii w, 40 # x)" if "name_ok (ascii w)" for w x
    by (rule ident_name[OF that stop])
  have names: "name_ok (ascii ''rot'')" "name_ok (ascii ''gain'')" "name_ok (ascii ''degrade'')"
    by (simp_all add: ascii_def name_ok_def is_lowercase_def is_ident_byte_def)
  have opened: "expect 40 (40 # x) = Inr ((), x)" for x by (simp add: expect_def peek_def)
  show ?thesis
  proof (cases t)
    case (TRotate k)
    then have "print_transform debug t @ r = ascii ''rot'' @ 40 # signed_decimal k @ 41 # r"
      by (simp add: print_transform_def ascii_def)
    moreover have "signed_i32 (signed_decimal k @ 41 # r) = Inr (k, 41 # r)"
      by (rule parse_signed) (use assms TRotate in \<open>simp_all add: transform_ok_def\<close>)
    ultimately show ?thesis
      using TRotate ident[OF names(1)] opened close_call skip_signed by (simp add: transform_def)
  next
    case (TGain x)
    then have "print_transform debug t @ r = ascii ''gain'' @ 40 # debug x @ 41 # r"
      by (simp add: print_transform_def ascii_def)
    moreover have "number (debug x @ 41 # r) = Inr (x, 41 # r)" "skip_space (debug x @ 41 # r) = debug x @ 41 # r"
      using parse_number(1)[of debug x] skip_float[of debug x] assms TGain by (simp_all add: transform_ok_def)
    ultimately show ?thesis
      using TGain ident[OF names(2)] opened close_call by (simp add: transform_def ascii_def)
  next
    case (TDegrade x)
    then have "print_transform debug t @ r = ascii ''degrade'' @ 40 # debug x @ 41 # r"
      by (simp add: print_transform_def ascii_def)
    moreover have "number (debug x @ 41 # r) = Inr (x, 41 # r)" "skip_space (debug x @ 41 # r) = debug x @ 41 # r"
      using parse_number(1)[of debug x] skip_float[of debug x] assms TDegrade by (simp_all add: transform_ok_def)
    ultimately show ?thesis
      using TDegrade ident[OF names(3)] opened close_call by (simp add: transform_def ascii_def)
  qed
qed

section \<open>All terms\<close>

lemma number_wrapper:
  assumes "plain debug x" "word \<in> {ascii ''swing'', ascii ''gain'', ascii ''degrade''}" "opens r"
  shows "skip_space ((debug x @ sep) @ r) = (debug x @ sep) @ r
    \<and> wrapper_arguments word ((debug x @ sep) @ r) = Inr
        (if word = ascii ''swing'' then Swing x else if word = ascii ''gain'' then Gain x else Degrade x, r)"
  using assms skip_float[OF assms(1)] parse_number(1)[OF assms(1), of "sep @ r"]
    comma_sep[OF opens_skip[OF assms(3)]]
  by (auto simp: wrapper_arguments_def ascii_def)

lemma factor_wrapper:
  assumes "u32_ok k" "word \<in> {ascii ''fast'', ascii ''slow''}" "opens r"
  shows "skip_space ((decimal k @ sep) @ r) = (decimal k @ sep) @ r
    \<and> wrapper_arguments word ((decimal k @ sep) @ r) = Inr (if word = ascii ''fast'' then Fast k else Slow k, r)"
  using assms skip_decimal[of k "sep @ r"] parse_u32[OF assms(1), of "sep @ r"]
    comma_sep[OF opens_skip[OF assms(3)]]
  by (auto simp: wrapper_arguments_def ascii_def)

lemma rotate_wrapper:
  assumes "i32_ok k" "opens r"
  shows "skip_space ((signed_decimal k @ sep) @ r) = (signed_decimal k @ sep) @ r
    \<and> wrapper_arguments (ascii ''rot'') ((signed_decimal k @ sep) @ r) = Inr (Rotate k, r)"
  using skip_signed[of k "sep @ r"] parse_signed[OF assms(1), of "sep @ r"]
    comma_sep[OF opens_skip[OF assms(2)]]
  by (auto simp: wrapper_arguments_def ascii_def)

lemma every_wrapper:
  assumes "u32_ok period" "u32_ok k" "transform_ok (plain debug) t" "opens r"
  defines "args \<equiv> decimal period @ sep @ (if k = 0 then [] else decimal k @ sep)
    @ print_transform debug t @ sep"
  shows "skip_space (args @ r) = args @ r
    \<and> wrapper_arguments (ascii ''every'') (args @ r) = Inr (Every period k t, r)"
proof -
  let ?tail = "print_transform debug t @ sep @ r"
  have opens: "opens ?tail"
    by (cases t) (simp_all add: print_transform_def ascii_def opens_def is_lowercase_def)
  have tail: "transform ?tail = Inr (t, sep @ r)" "require_comma (sep @ r) = Inr ((), r)"
    using parse_transform[OF assms(3)] comma_sep[OF opens_skip[OF assms(4)]] by simp_all
  have "every_arguments (args @ r) = Inr (Every period k t, r)"
  proof (cases "k = 0")
    case True
    have "integer_u32 (args @ r) = Inr (period, sep @ ?tail)"
      "require_comma (sep @ ?tail) = Inr ((), ?tail)"
      using u32_then_comma[OF assms(1) opens_skip[OF opens]] True by (simp_all add: args_def)
    then show ?thesis
      using tail opens_not_number[OF opens] True by (simp add: every_arguments_def)
  next
    case False
    have "integer_u32 (args @ r) = Inr (period, sep @ decimal k @ sep @ ?tail)"
      "require_comma (sep @ decimal k @ sep @ ?tail) = Inr ((), decimal k @ sep @ ?tail)"
      using u32_then_comma[OF assms(1) skip_decimal] False by (simp_all add: args_def)
    moreover have "peek_number (decimal k @ sep @ ?tail)"
      using decimal_head[of k] by (metis append_Cons list.simps(5) peek_number_def)
    moreover have "integer_u32 (decimal k @ sep @ ?tail) = Inr (k, sep @ ?tail)"
      "require_comma (sep @ ?tail) = Inr ((), ?tail)"
      using u32_then_comma[OF assms(2) opens_skip[OF opens]] by simp_all
    ultimately show ?thesis using tail by (simp add: every_arguments_def)
  qed
  moreover have "skip_space (args @ r) = args @ r" by (simp add: args_def skip_decimal)
  ultimately show ?thesis by (simp add: wrapper_arguments_def ascii_def)
qed

lemma exprs_parse:
  "expr_ok (plain debug) e \<Longrightarrow> expr_parses debug e"
proof (induction e)
  case (Seq steps)
  then show ?case by (intro seq_parses) auto
next
  case (Stack members)
  then show ?case by (intro stack_parses) auto
next
  case (Every period k t inner)
  let ?args = "decimal period @ sep @ (if k = 0 then [] else decimal k @ sep)
    @ print_transform debug t @ sep"
  show ?case
  proof (rule wrapper_parses[where word = "ascii ''every''" and inner = inner and args = ?args
        and wrap = "Every period k t" and float = "plain debug"])
    show "skip_space (?args @ x) = ?args @ x
      \<and> wrapper_arguments (ascii ''every'') (?args @ x) = Inr (Every period k t, x)" if "opens x" for x
      by (rule every_wrapper) (use Every that in auto)
  qed (use Every in \<open>simp_all add: combinators_def ascii_def\<close>)
next
  case (Rotate k inner)
  show ?case
    by (rule wrapper_parses[where word = "ascii ''rot''" and inner = inner
        and args = "signed_decimal k @ sep" and wrap = "Rotate k"])
      (use Rotate rotate_wrapper[of k] in \<open>auto simp: combinators_def ascii_def\<close>)
next
  case (Euclid hits slots rotation x)
  then show ?case by (intro euclid_parses) auto
next
  case (Fast k inner)
  show ?case
    by (rule wrapper_parses[where word = "ascii ''fast''" and inner = inner
        and args = "decimal k @ sep" and wrap = "Fast k"])
      (use Fast factor_wrapper[of k "ascii ''fast''"] in \<open>auto simp: combinators_def ascii_def\<close>)
next
  case (Slow k inner)
  show ?case
    by (rule wrapper_parses[where word = "ascii ''slow''" and inner = inner
        and args = "decimal k @ sep" and wrap = "Slow k"])
      (use Slow factor_wrapper[of k "ascii ''slow''"] in \<open>auto simp: combinators_def ascii_def\<close>)
next
  case (Swing x inner)
  show ?case
    by (rule wrapper_parses[where word = "ascii ''swing''" and inner = inner
        and args = "debug x @ sep" and wrap = "Swing x"])
      (use Swing number_wrapper[of debug x "ascii ''swing''"] in \<open>auto simp: combinators_def ascii_def\<close>)
next
  case (Gain x inner)
  show ?case
    by (rule wrapper_parses[where word = "ascii ''gain''" and inner = inner
        and args = "debug x @ sep" and wrap = "Gain x"])
      (use Gain number_wrapper[of debug x "ascii ''gain''"] in \<open>auto simp: combinators_def ascii_def\<close>)
next
  case (Degrade x inner)
  show ?case
    by (rule wrapper_parses[where word = "ascii ''degrade''" and inner = inner
        and args = "debug x @ sep" and wrap = "Degrade x"])
      (use Degrade number_wrapper[of debug x "ascii ''degrade''"] in \<open>auto simp: combinators_def ascii_def\<close>)
qed

section \<open>Printed text is ASCII\<close>

abbreviation is_ascii :: "bytes \<Rightarrow> bool" where
  "is_ascii s \<equiv> list_all (\<lambda>b. b < 128) s"

lemma ascii_digits: "list_all is_digit ds \<Longrightarrow> is_ascii ds"
  by (auto simp: list_all_iff is_digit_def)

lemma ascii_decimal [simp]: "is_ascii (decimal n)"
  using decimal_digits ascii_digits by blast

lemma ascii_signed [simp]: "is_ascii (signed_decimal k)"
  by (simp add: signed_decimal_def)

lemma ascii_plain [simp]: "plain debug x \<Longrightarrow> is_ascii (debug x)"
  by (auto simp: plain_def ascii_digits)

lemma ascii_name: "name_ok b \<Longrightarrow> is_ascii b"
  by (fastforce simp: name_ok_def list_all_iff is_lowercase_def is_ident_byte_def is_digit_def)

lemma ascii_sep [simp]: "is_ascii sep"
  by (simp add: sep_def)

lemma ascii_modifiers:
  assumes "step_ok (plain debug) (Step e w rep rpt p v)"
  shows "is_ascii (print_modifiers debug (Step e w rep rpt p v))"
  using assms
  by (auto simp: print_modifiers_parts repeat_text_def replicate_text_def width_text_def
      option_text_def split: option.splits)

lemma ascii_steps:
  "\<forall>s \<in> set steps. is_ascii (print_step debug s) \<Longrightarrow> is_ascii (print_steps debug steps)"
  by (induction steps) auto

lemma ascii_elements:
  "element_ok (plain debug) e \<Longrightarrow> is_ascii (print_element debug e)"
  "step_ok (plain debug) s \<Longrightarrow> is_ascii (print_step debug s)"
proof (induction e and s)
  case (Name b v)
  then show ?case by (cases v) (auto simp: lane_key_def ascii_name)
next
  case (Group steps)
  then show ?case using ascii_steps by auto
next
  case (Alternate steps)
  then show ?case using ascii_steps by auto
next
  case (Step e w rep rpt p v)
  then show ?case using ascii_modifiers by auto
qed simp

lemma ascii_members:
  "\<forall>m \<in> set ms. is_ascii (print_expr debug m) \<Longrightarrow> is_ascii (print_members debug ms)"
  by (induction ms) auto

lemma ascii_transform: "transform_ok (plain debug) t \<Longrightarrow> is_ascii (print_transform debug t)"
  by (cases t) (simp_all add: print_transform_def transform_ok_def ascii_def)

lemma ascii_expr: "expr_ok (plain debug) e \<Longrightarrow> is_ascii (print_expr debug e)"
proof (induction e)
  case (Seq steps)
  then show ?case using ascii_elements ascii_steps by auto
next
  case (Stack members)
  then show ?case using ascii_members by (auto simp: ascii_def)
next
  case (Every period k t inner)
  then show ?case using ascii_transform by (auto simp: ascii_def)
next
  case (Euclid hits slots rotation x)
  then show ?case using ascii_elements by (auto simp: ascii_def)
qed (auto simp: ascii_def)

lemma utf8_ascii: "is_ascii s \<Longrightarrow> utf8 s = s"
  by (induction s) (auto simp: utf8_def utf8_char_def)

section \<open>The round trip\<close>

lemma parse_printed:
  assumes "expr_ok (plain debug) e"
  shows "parse (print_expr debug e) = Inr e"
proof -
  let ?s = "print_expr debug e"
  have "parse_expr (parse_fuel ?s) (?s @ []) = Inr (e, [])"
    by (rule expr_parsesD[OF exprs_parse[OF assms]]) (simp_all add: parse_fuel_def)
  moreover have "skip_space ?s = ?s" by (rule opens_skip[OF expr_opens[OF assms]])
  ultimately have "parse_bytes ?s = Inr (e, [])"
    by (simp add: parse_bytes_def skip_space_def)
  then show ?thesis by (simp add: parse_def utf8_ascii[OF ascii_expr[OF assms]])
qed

text \<open>The floats of a term, and the proper terms over a set of floats.\<close>

fun element_floats :: "Element \<Rightarrow> f32 set" and step_floats :: "Step \<Rightarrow> f32 set" where
  "element_floats Rest = {}"
| "element_floats (Name b v) = {}"
| "element_floats (Group steps) = (\<Union>s \<in> set steps. step_floats s)"
| "element_floats (Alternate steps) = (\<Union>s \<in> set steps. step_floats s)"
| "step_floats (Step e w rep rpt p v) = element_floats e \<union> set_option p \<union> set_option v"

definition transform_floats :: "PatternTransform \<Rightarrow> f32 set" where
  "transform_floats t = (case t of TRotate k \<Rightarrow> {} | TGain x \<Rightarrow> {x} | TDegrade x \<Rightarrow> {x})"

fun expr_floats :: "PatternExpr \<Rightarrow> f32 set" where
  "expr_floats (Seq steps) = (\<Union>s \<in> set steps. step_floats s)"
| "expr_floats (Stack members) = (\<Union>m \<in> set members. expr_floats m)"
| "expr_floats (Every period k t inner) = transform_floats t \<union> expr_floats inner"
| "expr_floats (Rotate k inner) = expr_floats inner"
| "expr_floats (Euclid hits slots rotation e) = element_floats e"
| "expr_floats (Fast k inner) = expr_floats inner"
| "expr_floats (Slow k inner) = expr_floats inner"
| "expr_floats (Swing x inner) = insert x (expr_floats inner)"
| "expr_floats (Gain x inner) = insert x (expr_floats inner)"
| "expr_floats (Degrade x inner) = insert x (expr_floats inner)"

lemma element_ok_floats:
  "element_ok float e \<longleftrightarrow> element_ok any_float e \<and> (\<forall>x \<in> element_floats e. float x)"
  "step_ok float s \<longleftrightarrow> step_ok any_float s \<and> (\<forall>x \<in> step_floats s. float x)"
  by (induction e and s) auto

lemma expr_ok_floats:
  "expr_ok float e \<longleftrightarrow> expr_ok any_float e \<and> (\<forall>x \<in> expr_floats e. float x)"
proof (induction e)
  case (Seq steps)
  then show ?case using element_ok_floats(2)[of float] by auto
next
  case (Every period k t inner)
  then show ?case by (cases t) (auto simp: transform_ok_def transform_floats_def)
next
  case (Euclid hits slots rotation x)
  then show ?case using element_ok_floats(1)[of float] by auto
qed auto

end
