(* ===== verification/Pattern_Eval.thy ===== *)
theory Pattern_Eval
  imports Pattern_Types
begin

text \<open>
  The evaluator of pattern terms (\<open>src/src/pattern_lang.rs\<close>): a term becomes events at exact
  rational positions of one normalized cycle, which \<open>eval_steps\<close> places on the tick lattice and
  on a step grid. Where the code pushes to an output vector, a function here returns what it
  pushes.
\<close>

record AbstractEvent =
  ae_lane :: unicode_string
  ae_position :: Rational
  ae_width :: Rational
  ae_velocity :: f32
  ae_probability :: f32
  ae_ratchets :: nat

section \<open>Elements and sequences\<close>

definition check_unit :: "f32 option \<Rightarrow> string \<Rightarrow> unit eval_result" where
  "check_unit v what = (case v of
       None \<Rightarrow> Inr ()
     | Some x \<Rightarrow> if unit_value x then Inr () else eval_fails (InvalidParameter what))"

definition scale_probability :: "f32 \<Rightarrow> AbstractEvent \<Rightarrow> AbstractEvent" where
  "scale_probability p e = e\<lparr>ae_probability := f32_clamp_unit (f32_mul (ae_probability e) p)\<rparr>"

definition scale_velocity :: "f32 \<Rightarrow> AbstractEvent \<Rightarrow> AbstractEvent" where
  "scale_velocity v e = e\<lparr>ae_velocity := f32_clamp_unit (f32_mul (ae_velocity e) v)\<rparr>"

definition compose :: "f32 option \<Rightarrow> f32 option \<Rightarrow> f32 option" where
  "compose outer inner = (case (outer, inner) of
       (Some a, Some b) \<Rightarrow> Some (f32_mul a b)
     | (Some a, None) \<Rightarrow> Some a
     | (None, b) \<Rightarrow> b)"

definition u32_saturating_mul :: "nat \<Rightarrow> nat \<Rightarrow> nat" where
  "u32_saturating_mul a b = min u32_max (a * b)"

text \<open>The first loop of \<open>eval_seq\<close>: the sum of the weights.\<close>

definition add_width :: "Step \<Rightarrow> Rational \<Rightarrow> Rational eval_result" where
  "add_width s acc =
     (let n = ratio_numerator (st_width s); d = ratio_denominator (st_width s)
      in if n = 0 \<or> d = 0 then eval_fails (InvalidRatio n d)
         else bind_r (rat_new (n * max 1 (st_replicate s)) d) (\<lambda>w. rat_add acc w))"

definition sequence_width :: "Step list \<Rightarrow> Rational eval_result" where
  "sequence_width steps = fold_r add_width steps rat_zero"

lemma size_chosen:
  "x \<in> set steps \<Longrightarrow> size (st_element x) < size_list size steps"
proof (induction steps)
  case (Cons s steps)
  then show ?case by (cases s) auto
qed simp

lemma fold_r_cong [fundef_cong]:
  assumes "xs = ys" "s = t" "\<And>x r. x \<in> set ys \<Longrightarrow> f x r = g x r"
  shows "fold_r f xs s = fold_r g ys t"
proof -
  have "(\<forall>x \<in> set ys. \<forall>r. f x r = g x r) \<Longrightarrow> fold_r f ys t = fold_r g ys t"
    by (induction ys arbitrary: t) (auto split: sum.splits)
  then show ?thesis using assms by simp
qed

text \<open>
  \<open>eval_element\<close> and \<open>eval_seq\<close>, the latter's second loop as \<open>eval_slots\<close> with the cursor and the
  sum of the weights.
\<close>

function (sequential) eval_element ::
    "Element \<Rightarrow> Rational \<Rightarrow> Rational \<Rightarrow> nat \<Rightarrow> f32 option \<Rightarrow> f32 option \<Rightarrow> nat
      \<Rightarrow> AbstractEvent list eval_result"
  and eval_seq :: "Step list \<Rightarrow> Rational \<Rightarrow> Rational \<Rightarrow> nat \<Rightarrow> AbstractEvent list eval_result"
  and eval_slots :: "Step list \<Rightarrow> Rational \<Rightarrow> Rational \<Rightarrow> Rational \<Rightarrow> Rational \<Rightarrow> nat
      \<Rightarrow> AbstractEvent list eval_result" where
  "eval_element element slot_start slot_width repeat probability velocity cycle =
     then_r (check_unit probability ''step probability'')
     (then_r (check_unit velocity ''step velocity'')
     (case element of
        Rest \<Rightarrow> Inr []
      | Name b v \<Rightarrow>
          if 255 < repeat then eval_fails (InvalidParameter ''repeat count'')
          else Inr [\<lparr>ae_lane = lane_key b v, ae_position = slot_start, ae_width = slot_width,
                     ae_velocity = (case velocity of None \<Rightarrow> f32_one | Some x \<Rightarrow> x),
                     ae_probability = (case probability of None \<Rightarrow> f32_one | Some x \<Rightarrow> x),
                     ae_ratchets = max 1 repeat\<rparr>]
      | Group steps \<Rightarrow>
          bind_r (rat_new (max 1 repeat) 1) (\<lambda>copies.
          bind_r (rat_div slot_width copies) (\<lambda>copy_width.
          bind_r (fold_r (\<lambda>copy out.
              bind_r (rat_scale_int copy_width copy) (\<lambda>off.
              bind_r (rat_add slot_start off) (\<lambda>copy_start.
              bind_r (eval_seq steps copy_start copy_width cycle) (\<lambda>events. Inr (out @ events)))))
            [0..<max 1 repeat] []) (\<lambda>events.
          Inr (map (case velocity of None \<Rightarrow> id | Some v \<Rightarrow> scale_velocity v)
            (map (case probability of None \<Rightarrow> id | Some p \<Rightarrow> scale_probability p) events)))))
      | Alternate steps \<Rightarrow>
          if steps = [] then eval_fails EmptyPattern
          else let chosen = steps ! (cycle mod length steps);
                   copies = max 1 (st_replicate chosen)
               in bind_r (rat_new copies 1) (\<lambda>divisor.
                  bind_r (rat_div slot_width divisor) (\<lambda>copy_width.
                  fold_r (\<lambda>copy out.
                      bind_r (rat_scale_int copy_width copy) (\<lambda>off.
                      bind_r (rat_add slot_start off) (\<lambda>copy_start.
                      bind_r (eval_element (st_element (steps ! (cycle mod length steps)))
                          copy_start copy_width
                          (u32_saturating_mul (max 1 (st_repeat chosen)) (max 1 repeat))
                          (compose probability (st_probability chosen))
                          (compose velocity (st_velocity chosen)) cycle) (\<lambda>events.
                      Inr (out @ events)))))
                    [0..<copies] []))))"
| "eval_seq steps start width cycle =
     (if steps = [] then eval_fails EmptyPattern
      else bind_r (sequence_width steps) (\<lambda>acc. eval_slots steps acc rat_zero start width cycle))"
| "eval_slots [] acc cursor start width cycle = Inr []"
| "eval_slots (Step element w copies repeat probability velocity # steps) acc cursor start width cycle =
     bind_r (rat_new (ratio_numerator w) (ratio_denominator w)) (\<lambda>weight.
     bind_r (rat_div weight acc) (\<lambda>slot_fraction.
     bind_r (fold_r (\<lambda>_ (cursor, out).
         bind_r (rat_div cursor acc) (\<lambda>q.
         bind_r (rat_mul q width) (\<lambda>off.
         bind_r (rat_add start off) (\<lambda>slot_start.
         bind_r (rat_mul slot_fraction width) (\<lambda>slot_width.
         bind_r (eval_element element slot_start slot_width (max 1 repeat) probability velocity cycle)
           (\<lambda>events.
         bind_r (rat_add cursor weight) (\<lambda>cursor'. Inr (cursor', out @ events))))))))
       [0..<max 1 copies] (cursor, [])) (\<lambda>(cursor', events).
     bind_r (eval_slots steps acc cursor' start width cycle) (\<lambda>later. Inr (events @ later)))))"
  by pat_completeness auto
termination
  by (relation "measure (\<lambda>x. case x of
    Inl (e, _) \<Rightarrow> 3 * size e
  | Inr (Inl (steps, _)) \<Rightarrow> 3 * size_list size steps + 2
  | Inr (Inr (steps, _)) \<Rightarrow> 3 * size_list size steps + 1)")
    (auto intro!: trans_less_add2 size_chosen)

declare eval_element.simps [simp del] eval_seq.simps [simp del] eval_slots.simps [simp del]

section \<open>Rotation of payloads\<close>

definition event_before :: "AbstractEvent list \<Rightarrow> nat \<Rightarrow> nat \<Rightarrow> bool" where
  "event_before events i j \<longleftrightarrow>
     (let a = events ! i; b = events ! j
      in rat_less (ae_position a) (ae_position b)
         \<or> rat_same (ae_position a) (ae_position b)
           \<and> (ae_lane a < ae_lane b \<or> ae_lane a = ae_lane b \<and> i < j))"

text \<open>\<open>sort_by\<close> with a comparison under which no two indices are equal.\<close>

fun insert_index :: "(nat \<Rightarrow> nat \<Rightarrow> bool) \<Rightarrow> nat \<Rightarrow> nat list \<Rightarrow> nat list" where
  "insert_index before i [] = [i]"
| "insert_index before i (j # js) = (if before i j then i # j # js else j # insert_index before i js)"

definition sort_indices :: "(nat \<Rightarrow> nat \<Rightarrow> bool) \<Rightarrow> nat list \<Rightarrow> nat list" where
  "sort_indices before is = fold (insert_index before) is []"

definition take_payload :: "AbstractEvent \<Rightarrow> AbstractEvent \<Rightarrow> AbstractEvent" where
  "take_payload source e = e\<lparr>ae_lane := ae_lane source, ae_velocity := ae_velocity source,
     ae_probability := ae_probability source, ae_ratchets := ae_ratchets source\<rparr>"

text \<open>The length of a vector stays below \<open>2 ^ 31\<close>, so the cast of the count keeps it.\<close>

definition rotate_payloads :: "int \<Rightarrow> AbstractEvent list \<Rightarrow> AbstractEvent list" where
  "rotate_payloads steps events =
     (let count = length events
      in if count = 0 \<or> steps mod int count = 0 then events
         else let order = sort_indices (event_before events) [0..<count];
                  shift = nat (steps mod int count)
              in fold (\<lambda>rank out. out[order ! rank :=
                    take_payload (events ! (order ! ((rank + shift) mod count))) (events ! (order ! rank))])
                  [0..<count] events)"

definition apply_transform :: "PatternTransform \<Rightarrow> AbstractEvent list \<Rightarrow> AbstractEvent list eval_result" where
  "apply_transform t events = (case t of
       TRotate steps \<Rightarrow> Inr (rotate_payloads steps events)
     | TGain gain \<Rightarrow>
         if \<not> f32_is_finite gain \<or> \<not> f32_le 0 gain then eval_fails (InvalidParameter ''gain'')
         else Inr (map (scale_velocity gain) events)
     | TDegrade p \<Rightarrow>
         if \<not> unit_value p then eval_fails (InvalidParameter ''degrade probability'')
         else Inr (map (scale_probability (f32_sub f32_one p)) events))"

section \<open>Terms\<close>

definition sat_u64 :: "nat \<Rightarrow> nat" where
  "sat_u64 n = min u64_max n"

text \<open>Placing the events of one copy of \<open>fast\<close>, and of the window of \<open>slow\<close>.\<close>

definition squeeze :: "Rational \<Rightarrow> Rational \<Rightarrow> AbstractEvent \<Rightarrow> AbstractEvent eval_result" where
  "squeeze start copy_width e =
     bind_r (rat_mul (ae_position e) copy_width) (\<lambda>off.
     bind_r (rat_add start off) (\<lambda>position.
     bind_r (rat_mul (ae_width e) copy_width) (\<lambda>width.
     Inr (e\<lparr>ae_position := position, ae_width := width\<rparr>))))"

definition stretch :: "nat \<Rightarrow> Rational \<Rightarrow> AbstractEvent \<Rightarrow> AbstractEvent eval_result" where
  "stretch factor window_start e =
     bind_r (rat_checked
         (rat_n (ae_position e) * rat_d window_start - rat_n window_start * rat_d (ae_position e))
         (rat_d (ae_position e) * rat_d window_start)) (\<lambda>offset.
     bind_r (rat_scale_int offset factor) (\<lambda>position.
     bind_r (rat_scale_int (ae_width e) factor) (\<lambda>width.
     bind_r (rat_add position width) (\<lambda>end_position.
     bind_r (if rat_less rat_one end_position
             then rat_checked (rat_d position - rat_n position) (rat_d position)
             else Inr width) (\<lambda>width'.
     Inr (e\<lparr>ae_position := position, ae_width := width'\<rparr>))))))"

definition collect_r :: "('a \<Rightarrow> 'e + 'b) \<Rightarrow> 'a list \<Rightarrow> 'e + 'b list" where
  "collect_r f xs = fold_r (\<lambda>x out. bind_r (f x) (\<lambda>y. Inr (out @ [y]))) xs []"

definition euclid_hit :: "nat \<Rightarrow> nat \<Rightarrow> int \<Rightarrow> nat \<Rightarrow> bool" where
  "euclid_hit hits slots rotation slot \<longleftrightarrow>
     nat ((int slot - rotation) mod int slots) * hits mod slots < hits"

fun eval_norm :: "PatternExpr \<Rightarrow> nat \<Rightarrow> AbstractEvent list eval_result" where
  "eval_norm (Swing _ _) cycle = eval_fails NestedSwing"
| "eval_norm (Seq steps) cycle = eval_seq steps rat_zero rat_one cycle"
| "eval_norm (Stack members) cycle =
     (if members = [] then eval_fails EmptyPattern
      else fold_r (\<lambda>member out. bind_r (eval_norm member cycle) (\<lambda>events. Inr (out @ events)))
        members [])"
| "eval_norm (Every period offset transform inner) cycle =
     (if period = 0 then eval_fails (InvalidParameter ''every period'')
      else bind_r (eval_norm inner cycle) (\<lambda>events.
        if cycle mod period = offset mod period then apply_transform transform events
        else Inr events))"
| "eval_norm (Rotate steps inner) cycle =
     bind_r (eval_norm inner cycle) (\<lambda>events. Inr (rotate_payloads steps events))"
| "eval_norm (Euclid hits slots rotation element) cycle =
     (if slots = 0 \<or> slots < hits then eval_fails (InvalidParameter ''euclid hits/slots'')
      else bind_r (rat_new 1 slots) (\<lambda>slot_width.
        fold_r (\<lambda>slot out.
            if euclid_hit hits slots rotation slot
            then bind_r (rat_scale_int slot_width slot) (\<lambda>start.
                 bind_r (eval_element element start slot_width 1 None None cycle) (\<lambda>events.
                 Inr (out @ events)))
            else Inr out)
          [0..<slots] []))"
| "eval_norm (Fast factor inner) cycle =
     (if factor = 0 then eval_fails (InvalidParameter ''fast factor'')
      else bind_r (rat_new 1 factor) (\<lambda>copy_width.
        fold_r (\<lambda>copy out.
            bind_r (eval_norm inner (sat_u64 (sat_u64 (cycle * factor) + copy))) (\<lambda>events.
            bind_r (rat_scale_int copy_width copy) (\<lambda>start.
            bind_r (collect_r (squeeze start copy_width) events) (\<lambda>placed.
            Inr (out @ placed)))))
          [0..<factor] []))"
| "eval_norm (Slow factor inner) cycle =
     (if factor = 0 then eval_fails (InvalidParameter ''slow factor'')
      else let window = cycle mod factor
           in bind_r (eval_norm inner (cycle div factor)) (\<lambda>events.
              bind_r (rat_new window factor) (\<lambda>window_start.
              bind_r (rat_new (window + 1) factor) (\<lambda>window_end.
              collect_r (stretch factor window_start)
                (filter (\<lambda>e. \<not> rat_less (ae_position e) window_start
                   \<and> rat_less (ae_position e) window_end) events)))))"
| "eval_norm (Gain linear inner) cycle =
     (if \<not> f32_is_finite linear \<or> \<not> f32_le 0 linear then eval_fails (InvalidParameter ''gain'')
      else bind_r (eval_norm inner cycle) (\<lambda>events. Inr (map (scale_velocity linear) events)))"
| "eval_norm (Degrade p inner) cycle =
     (if \<not> unit_value p then eval_fails (InvalidParameter ''degrade probability'')
      else bind_r (eval_norm inner cycle) (\<lambda>events.
        Inr (map (scale_probability (f32_sub f32_one p)) events)))"

section \<open>The step grid\<close>

text \<open>The nearest tick, ties towards the later one; the pushed diagnostics are returned.\<close>

definition round_ticks :: "Rational \<Rightarrow> nat \<Rightarrow> (int \<times> PatternEvalDiagnostic list) eval_result" where
  "round_ticks fraction cycle_ticks =
     (let numerator = rat_n fraction * cycle_ticks;
          denominator = rat_d fraction;
          quotient = numerator div denominator;
          remainder = numerator mod denominator;
          (tick, error_num) = (if denominator \<le> remainder * 2
            then (quotient + 1, denominator - remainder) else (quotient, remainder))
      in if denominator = 0 then Inl Panicked
         else if i64_max < int tick then eval_fails SpanOverflow
         else Inr (int tick,
           if error_num \<noteq> 0
           then [RoundedToTick (int tick)
                   (max 1 (int (min (error_num * 1000 div denominator) 2147483647)))]
           else []))"

record Placed =
  pl_lane :: unicode_string
  pl_tick :: int
  pl_gate :: nat
  pl_velocity :: f32
  pl_probability :: f32
  pl_ratchets :: nat

definition place_event ::
    "nat \<Rightarrow> AbstractEvent \<Rightarrow> Placed list \<times> PatternEvalDiagnostic list
      \<Rightarrow> (Placed list \<times> PatternEvalDiagnostic list) eval_result" where
  "place_event cycle_ticks e acc =
     bind_r (round_ticks (ae_position e) cycle_ticks) (\<lambda>(tick, d1).
     bind_r (round_ticks (ae_width e) cycle_ticks) (\<lambda>(width, d2).
     let gate = nat (max 1 width);
         remainder = gate mod ae_ratchets e;
         d3 = (if 1 < ae_ratchets e \<and> remainder \<noteq> 0
               then [RatchetSpacingTruncated tick (min remainder u32_max)] else [])
     in Inr (fst acc @ [\<lparr>pl_lane = ae_lane e, pl_tick = tick, pl_gate = gate,
               pl_velocity = ae_velocity e, pl_probability = ae_probability e,
               pl_ratchets = ae_ratchets e\<rparr>],
             snd acc @ d1 @ d2 @ d3)))"

text \<open>The coarsest grid that hits every event, or sixteen steps: the resolution and which it is.\<close>

definition grid_choice :: "nat \<Rightarrow> Placed list \<Rightarrow> nat \<times> bool" where
  "grid_choice cycle_ticks placed =
     (let g = max 1 (fold (\<lambda>e g. rat_gcd g (nat (pl_tick e))) placed cycle_ticks)
      in if cycle_ticks div g \<le> MAX_EXACT_STEPS then (g, False)
         else (max 1 (cycle_ticks div FALLBACK_STEPS), True))"

definition step_slot :: "nat \<Rightarrow> bool \<Rightarrow> Placed \<Rightarrow> nat" where
  "step_slot resolution fallback e =
     (let i = min (nat (pl_tick e) div resolution) u32_max
      in if fallback then min i (FALLBACK_STEPS - 1) else i)"

definition assemble_event ::
    "nat \<Rightarrow> bool \<Rightarrow> Placed \<Rightarrow> (unicode_string, (nat, StepEvent) btree) btree
      \<Rightarrow> (unicode_string, (nat, StepEvent) btree) btree eval_result" where
  "assemble_event resolution fallback e lanes =
     (let i = step_slot resolution fallback e;
          micro = pl_tick e - int i * int resolution;
          steps = (case bt_get lanes (pl_lane e) of None \<Rightarrow> [] | Some s \<Rightarrow> s)
      in if micro < - 2147483648 \<or> 2147483647 < micro then eval_fails SpanOverflow
         else if bt_contains steps i then eval_fails (StepCollision (pl_lane e) (pl_tick e))
         else Inr (bt_insert (pl_lane e)
           (bt_insert i \<lparr>se_velocity = pl_velocity e, se_probability = pl_probability e,
              se_micro_offset = micro, se_gate = pl_gate e, se_ratchets = pl_ratchets e,
              se_pitch_semitones = 0, se_pan = 0\<rparr> steps) lanes))"

definition retain_lane ::
    "bindings \<Rightarrow> unicode_string \<Rightarrow> (unicode_string, (nat, StepEvent) btree) btree
      \<Rightarrow> (unicode_string, (nat, StepEvent) btree) btree eval_result" where
  "retain_lane bindings name lanes =
     (if \<not> bt_contains bindings name then eval_fails (UnboundName name)
      else Inr (if bt_contains lanes name then lanes else bt_insert name [] lanes))"

text \<open>\<open>keys().position(...)\<close>\<close>

fun key_position :: "'k list \<Rightarrow> 'k \<Rightarrow> nat option" where
  "key_position [] k = None"
| "key_position (x # xs) k = (if x = k then Some 0 else map_option Suc (key_position xs k))"

definition finish_lane ::
    "bindings \<Rightarrow> unicode_string \<times> (nat, StepEvent) btree \<Rightarrow> (StepLaneId, StepLane) btree
      \<Rightarrow> (StepLaneId, StepLane) btree eval_result" where
  "finish_lane bindings entry lanes =
     bind_r (ok_or (bt_get bindings (fst entry)) (Failed (UnboundName (fst entry)))) (\<lambda>target.
     bind_r (ok_or (key_position (bt_keys bindings) (fst entry)) (Failed (UnboundName (fst entry))))
       (\<lambda>ordinal.
     let i = Id (ordinal + 1)
     in Inr (bt_insert i \<lparr>sl_id = i, sl_name = fst entry, sl_target = target,
          sl_choke_group = None, sl_steps = snd entry\<rparr> lanes)))"

definition eval_steps :: "PatternExpr \<Rightarrow> EvalContext \<Rightarrow> EvalOutput eval_result" where
  "eval_steps expr context =
     (let cycle_ticks = ec_cycle context
      in if cycle_ticks = 0 \<or> i64_max < int cycle_ticks then eval_fails InvalidCycle
         else bind_r (case expr of
             Swing amount inner \<Rightarrow>
               if \<not> unit_value amount then eval_fails (InvalidParameter ''swing amount'')
               else Inr (amount, inner)
           | other \<Rightarrow> Inr (0, other)) (\<lambda>(swing, core).
         bind_r (eval_norm core (ec_cycle_index context)) (\<lambda>events.
         bind_r (fold_r (place_event cycle_ticks) events ([], [])) (\<lambda>(placed, diagnostics).
         let (resolution, fallback) = grid_choice cycle_ticks placed
         in bind_r (fold_r (assemble_event resolution fallback) placed []) (\<lambda>lanes.
            bind_r (fold_r (retain_lane (ec_bindings context)) (referenced_bindings expr) lanes) (\<lambda>lanes.
            bind_r (fold_r (finish_lane (ec_bindings context)) lanes []) (\<lambda>pattern_lanes.
            Inr \<lparr>eo_pattern = \<lparr>sp_resolution = resolution, sp_swing = swing,
                   sp_lanes = pattern_lanes\<rparr>,
                 eo_diagnostics = diagnostics\<rparr>)))))))"

end
