(* ===== verification/Pattern_Exact.thy ===== *)
theory Pattern_Exact
  imports Pattern_Eval Complex_Main
begin

text \<open>
  The numbers of the evaluator. First the factors that scale velocities and probabilities: they
  stay finite, so that a clamped product is a number between zero and one. Then the exact
  rationals that positions and widths are made of.
\<close>

lemma unat_of_small: "k < 2 ^ 32 \<Longrightarrow> unat (of_nat k :: f32) = k"
  by (simp add: unsigned_of_nat take_bit_nat_eq_self)

lemma f32_fields:
  assumes "b \<le> 255 * 2 ^ 23"
  shows "f32_exp (of_nat ((if neg then 2 ^ 31 else 0) + b)) = b div 2 ^ 23"
    "f32_frac (of_nat ((if neg then 2 ^ 31 else 0) + b)) = b mod 2 ^ 23"
proof -
  have u: "unat (of_nat ((if neg then 2 ^ 31 else 0) + b) :: f32) = (if neg then 2 ^ 31 else 0) + b"
    using assms by (intro unat_of_small) simp
  have m: "b div 2 ^ 23 < 256" using assms by simp
  have s: "(2147483648 + b) div 8388608 = 256 + b div 8388608"
    "(2147483648 + b) mod 8388608 = b mod 8388608"
    using div_mult_self3[of 8388608 256 b] mod_mult_self3[of 256 8388608 b] by simp_all
  show "f32_exp (of_nat ((if neg then 2 ^ 31 else 0) + b)) = b div 2 ^ 23"
    using m s unfolding f32_exp_def u by (auto simp: add.commute)
  show "f32_frac (of_nat ((if neg then 2 ^ 31 else 0) + b)) = b mod 2 ^ 23"
    using s unfolding f32_frac_def u by (auto simp: add.commute)
qed

definition rounded_bits :: "nat \<Rightarrow> nat \<Rightarrow> nat" where
  "rounded_bits n d =
     (let e = f32_last_place n d;
          n' = n * 2 ^ nat (- e);
          d' = d * 2 ^ nat e;
          q = n' div d';
          r = n' mod d';
          q' = (if d' < 2 * r \<or> d' = 2 * r \<and> odd q then q + 1 else q)
      in nat (e + 149) * 2 ^ 23 + q')"

lemma f32_round_bits:
  "f32_round neg n d = of_nat ((if neg then 2 ^ 31 else 0) + min (255 * 2 ^ 23) (rounded_bits n d))"
  by (simp only: f32_round_def rounded_bits_def Let_def)

lemma f32_round_no_nan: "\<not> f32_is_nan (f32_round neg n d)"
proof -
  define b where "b = min (255 * 2 ^ 23) (rounded_bits n d)"
  have b: "b \<le> 255 * 2 ^ 23" by (simp add: b_def)
  have "b div 2 ^ 23 = 255 \<Longrightarrow> b mod 2 ^ 23 = 0"
    using b div_mult_mod_eq[of b "2 ^ 23"] by simp
  then show ?thesis
    unfolding f32_round_bits b_def[symmetric] f32_is_nan_def f32_fields[OF b] by simp
qed

lemma bit_length_bound: "n < 2 ^ bit_length n"
proof (induction n rule: bit_length.induct)
  case (1 n)
  show ?case
  proof (cases "n = 0")
    case False
    then have "n div 2 < 2 ^ bit_length (n div 2)" using 1 by simp
    then have "n < 2 * 2 ^ bit_length (n div 2)" by linarith
    then show ?thesis using False by (simp add: bit_length.simps[of n])
  qed (simp add: bit_length.simps)
qed

lemma bit_length_mono: "m \<le> n \<Longrightarrow> bit_length m \<le> bit_length n"
proof (induction n arbitrary: m rule: bit_length.induct)
  case (1 n)
  show ?case
  proof (cases "m = 0")
    case True
    then show ?thesis by (simp add: bit_length.simps[of 0])
  next
    case False
    then have "n \<noteq> 0" "m div 2 \<le> n div 2" using 1 by (simp_all add: div_le_mono)
    then show ?thesis using 1 False by (simp add: bit_length.simps[of m] bit_length.simps[of n])
  qed
qed

lemma bit_length_unit: "bit_length (2 ^ k) = k + 1"
  by (induction k) (simp_all add: bit_length.simps)

lemma fraction_finite:
  assumes "n \<le> 2 ^ 149"
  shows "f32_is_finite (f32_round neg n (2 ^ 149))"
proof -
  define e where "e = f32_last_place n (2 ^ 149)"
  define l where "l = int (bit_length n) - 150"
  have b: "bit_length (2 ^ 149 :: nat) = 150" using bit_length_unit[of 149] by simp
  have L: "bit_length n \<le> 150" using bit_length_mono[OF assms] b by simp
  have e: "- 149 \<le> e" "e \<le> - 23" "n \<noteq> 0 \<Longrightarrow> l - 24 \<le> e"
    unfolding e_def f32_last_place_def b Let_def l_def using L by auto
  have q: "n * 2 ^ nat (- e) div 2 ^ 149 < 2 ^ 25"
  proof (cases "n = 0")
    case False
    have "nat (- e) + bit_length n \<le> 174" using e(2) e(3)[OF False] by (simp add: l_def)
    then have "(2 :: nat) ^ (nat (- e) + bit_length n) \<le> 2 ^ 174" by (intro power_increasing) auto
    moreover have "n * 2 ^ nat (- e) < 2 ^ bit_length n * 2 ^ nat (- e)"
      by (intro mult_strict_right_mono bit_length_bound) simp
    ultimately have "n * 2 ^ nat (- e) < 2 ^ 174"
      unfolding power_add by (simp only: mult.commute less_le_trans)
    then have "n * 2 ^ nat (- e) < 2 ^ 25 * 2 ^ 149" by simp
    then show ?thesis by (rule less_mult_imp_div_less)
  qed simp
  have "nat e = 0" "nat (e + 149) \<le> 126" using e by auto
  moreover have "rounded_bits n (2 ^ 149)
      \<le> nat (e + 149) * 2 ^ 23 + (n * 2 ^ nat (- e) div (2 ^ 149 * 2 ^ nat e) + 1)"
    unfolding rounded_bits_def e_def[symmetric] Let_def by simp
  ultimately have r: "rounded_bits n (2 ^ 149) < 131 * 2 ^ 23" using q by simp
  then have m: "min (255 * 2 ^ 23) (rounded_bits n (2 ^ 149)) = rounded_bits n (2 ^ 149)" by simp
  show ?thesis
    unfolding f32_round_bits m f32_is_finite_def
    using f32_fields(1)[of "rounded_bits n (2 ^ 149)" neg] r by auto
qed

section \<open>Unit values\<close>

lemma f32_mul_no_nan:
  assumes "f32_is_finite a" "f32_is_finite b"
  shows "\<not> f32_is_nan (f32_mul a b)"
proof -
  have "\<not> f32_is_nan a" "\<not> f32_is_nan b" "\<not> f32_is_infinite a" "\<not> f32_is_infinite b"
    using assms by (simp_all add: f32_is_finite_def f32_is_nan_def f32_is_infinite_def)
  then show ?thesis by (simp add: f32_mul_def Let_def f32_round_no_nan)
qed

lemma unit_constants [simp]: "unit_value 0" "unit_value f32_one"
  by (simp_all add: unit_value_def f32_le_def f32_key_def f32_neg_def f32_one_def f32_is_nan_def
      f32_is_finite_def f32_exp_def f32_frac_def)

lemma one_key: "f32_key f32_one = 1065353216" "\<not> f32_neg f32_one"
  by (simp_all add: f32_key_def f32_neg_def f32_one_def)

lemma unit_bits:
  assumes "f32_le 0 v" "f32_le v f32_one"
  shows "unat v = 2 ^ 31 \<or> unat v \<le> 1065353216"
  using assms unfolding f32_le_def one_key by (auto simp: f32_key_def f32_neg_def simp del: of_nat_unat split: if_splits)

lemma f32_clamp_unit_unit:
  assumes "\<not> f32_is_nan v"
  shows "unit_value (f32_clamp_unit v)"
proof -
  have "unit_value v" if "f32_le 0 v" "f32_le v f32_one"
    using unit_bits[OF that] that by (auto simp: unit_value_def f32_is_finite_def f32_exp_def)
  then show ?thesis using assms by (auto simp: f32_clamp_unit_def)
qed

lemma scaled_unit:
  "unit_value v \<Longrightarrow> f32_is_finite x \<Longrightarrow> unit_value (f32_clamp_unit (f32_mul v x))"
  by (intro f32_clamp_unit_unit f32_mul_no_nan) (simp_all add: unit_value_def)

lemma unit_magnitude:
  assumes "unit_value v"
  shows "f32_magnitude v \<le> 2 ^ 149"
proof (cases "unat v = 2 ^ 31")
  case True
  then show ?thesis by (simp add: f32_magnitude_def f32_exp_def f32_frac_def)
next
  case False
  then have u: "unat v \<le> 127 * 2 ^ 23"
    using unit_bits[of v] assms by (simp add: unit_value_def)
  define x where "x = unat v div 2 ^ 23"
  have x: "x \<le> 127" "x = 127 \<Longrightarrow> unat v mod 2 ^ 23 = 0"
    using u div_mult_mod_eq[of "unat v" "2 ^ 23"] by (simp_all add: x_def)
  have e: "f32_exp v = x" "f32_frac v < 2 ^ 23" "x = 127 \<Longrightarrow> f32_frac v = 0"
    using x by (simp_all add: f32_exp_def f32_frac_def x_def)
  consider "x = 0" | "x = 127" | "0 < x" "x \<le> 126" using x(1) by linarith
  then show ?thesis
  proof cases
    case 3
    have "(2 :: nat) ^ (x - 1) \<le> 2 ^ 125" using 3 by (intro power_increasing) auto
    then have "(2 ^ 23 + f32_frac v) * 2 ^ (x - 1) \<le> 2 ^ 24 * 2 ^ 125"
      using e(2) by (intro mult_mono) auto
    then show ?thesis using 3 by (simp add: f32_magnitude_def e(1))
  qed (use e in \<open>simp_all add: f32_magnitude_def\<close>)
qed

lemma complement_scaled:
  assumes "unit_value p"
  shows "\<exists>m \<le> 2 ^ 149. f32_scaled f32_one + f32_scaled (f32_negate p) = int m
    \<and> f32_is_finite (f32_negate p)"
proof -
  have one: "f32_scaled f32_one = 2 ^ 149"
    by (simp add: f32_scaled_def f32_magnitude_def f32_neg_def f32_exp_def f32_frac_def f32_one_def)
  consider "unat p = 2 ^ 31" | "unat p \<le> 1065353216"
    using unit_bits[of p] assms by (auto simp: unit_value_def)
  then show ?thesis
  proof cases
    case 1
    then have "f32_negate p = 0" by (simp add: f32_negate_def f32_neg_def)
    then show ?thesis
      unfolding one by (intro exI[of _ "2 ^ 149"]) (simp add: f32_scaled_def f32_magnitude_def f32_neg_def
        f32_exp_def f32_frac_def f32_is_finite_def)
  next
    case 2
    have "f32_negate p = of_nat ((if True then 2 ^ 31 else 0) + unat p)"
      using 2 by (simp add: f32_negate_def f32_neg_def add.commute)
    moreover from this have "unat (f32_negate p) = 2 ^ 31 + unat p"
      using unat_of_small[of "2 ^ 31 + unat p"] 2 by simp
    moreover have "unat p \<le> 255 * 2 ^ 23" using 2 by simp
    ultimately have f: "f32_exp (f32_negate p) = f32_exp p" "f32_frac (f32_negate p) = f32_frac p"
      "f32_neg (f32_negate p)"
      using f32_fields[of "unat p" True] 2
      by (simp_all add: f32_neg_def f32_exp_def[of p] f32_frac_def[of p])
    have "f32_scaled (f32_negate p) = - int (f32_magnitude p)"
      using f by (simp add: f32_scaled_def f32_magnitude_def)
    moreover have "f32_is_finite p" using assms by (simp add: unit_value_def)
    ultimately show ?thesis
      unfolding one using unit_magnitude[OF assms] f(1)
      by (intro exI[of _ "2 ^ 149 - f32_magnitude p"]) (simp add: f32_is_finite_def)
  qed
qed

lemma unit_complement_finite:
  assumes "unit_value p"
  shows "f32_is_finite (f32_sub f32_one p)"
proof -
  obtain m where m: "m \<le> 2 ^ 149" "f32_scaled f32_one + f32_scaled (f32_negate p) = int m"
    "f32_is_finite (f32_negate p)"
    using complement_scaled[OF assms] by blast
  have "\<not> f32_neg f32_one" by (simp add: one_key)
  moreover have "\<not> f32_is_nan (f32_negate p)" "\<not> f32_is_infinite (f32_negate p)"
    using m(3) by (simp_all add: f32_is_finite_def f32_is_nan_def f32_is_infinite_def)
  moreover have "\<not> f32_is_infinite f32_one"
    by (simp add: f32_is_infinite_def f32_exp_def f32_one_def)
  ultimately have "f32_sub f32_one p = (if m = 0 then 0 else f32_round False m (2 ^ 149))"
    unfolding f32_sub_def f32_add_def m(2) by simp
  then show ?thesis using fraction_finite[OF m(1), of False] by simp
qed

chapter \<open>Exact rationals\<close>

text \<open>
  The value of a rational, and that the checked operations of the evaluator compute the sums,
  products and quotients of these values.
\<close>

section \<open>The value of a rational\<close>

definition ratv :: "Rational \<Rightarrow> rat" where
  "ratv r = of_nat (rat_n r) / of_nat (rat_d r)"

definition proper :: "Rational \<Rightarrow> bool" where
  "proper r \<longleftrightarrow> 0 < rat_d r"

lemma rat_gcd_gcd: "rat_gcd a b = gcd a b"
proof (induction a b rule: rat_gcd.induct)
  case (1 a b)
  then show ?case
    by (cases "b = 0") (simp_all add: rat_gcd.simps[of a b] rat_gcd.simps[of a 0] gcd_red_nat[symmetric])
qed

lemma divided_value:
  assumes "0 < g" "g dvd n" "g dvd d" "0 < d"
  shows "(of_nat (n div g) :: rat) / of_nat (d div g) = of_nat n / of_nat d" "0 < d div g"
proof -
  obtain a b where "n = g * a" "d = g * b" using assms by (auto elim!: dvdE)
  then show "(of_nat (n div g) :: rat) / of_nat (d div g) = of_nat n / of_nat d" "0 < d div g"
    using assms by simp_all
qed

lemma reduced_value:
  assumes "0 < d"
  shows "ratv (Rational (n div max 1 (gcd n d)) (d div max 1 (gcd n d))) = of_nat n / of_nat d"
    "0 < d div max 1 (gcd n d)"
proof -
  have g: "max 1 (gcd n d) = gcd n d" "0 < gcd n d"
    using assms by (auto simp: max_def not_le less_Suc_eq)
  show "ratv (Rational (n div max 1 (gcd n d)) (d div max 1 (gcd n d))) = of_nat n / of_nat d"
    "0 < d div max 1 (gcd n d)"
    unfolding g(1) ratv_def using divided_value[of "gcd n d" n d] g(2) assms by simp_all
qed

lemma rat_new_value:
  assumes "rat_new n d = Inr r"
  shows "proper r" "ratv r = of_nat n / of_nat d" "0 < d"
  using assms reduced_value[of d n]
  by (auto simp: rat_new_def rat_gcd_gcd Let_def proper_def split: if_splits)

lemma rat_checked_value:
  assumes "rat_checked n d = Inr r"
  shows "proper r" "ratv r = of_nat n / of_nat d" "0 < d"
  using assms reduced_value[of d n]
  by (auto simp: rat_checked_def rat_gcd_gcd Let_def proper_def split: if_splits)

lemma rat_add_value:
  assumes "rat_add a b = Inr r" "proper a" "proper b"
  shows "proper r" "ratv r = ratv a + ratv b"
proof -
  have r: "rat_checked (rat_n a * rat_d b + rat_n b * rat_d a) (rat_d a * rat_d b) = Inr r"
    using assms(1) by (simp add: rat_add_def Let_def split: if_splits)
  show "proper r" by (rule rat_checked_value[OF r])
  show "ratv r = ratv a + ratv b"
    using rat_checked_value(2)[OF r] assms(2,3) by (simp add: ratv_def proper_def add_frac_eq)
qed

lemma rat_mul_value:
  assumes "rat_mul a b = Inr r"
  shows "proper r" "ratv r = ratv a * ratv b"
  using rat_checked_value[OF assms[unfolded rat_mul_def]] by (simp_all add: ratv_def)

lemma rat_div_value:
  assumes "rat_div a b = Inr r"
  shows "proper r" "ratv r = ratv a / ratv b"
proof -
  have b: "rat_n b \<noteq> 0" and r: "rat_checked (rat_n a * rat_d b) (rat_d a * rat_n b) = Inr r"
    using assms by (auto simp: rat_div_def split: if_splits)
  show "proper r" "ratv r = ratv a / ratv b"
    using rat_checked_value[OF r] by (simp_all add: ratv_def)
qed

lemma rat_scale_value:
  assumes "rat_scale_int a k = Inr r"
  shows "proper r" "ratv r = ratv a * of_nat k"
  using rat_checked_value[OF assms[unfolded rat_scale_int_def]] by (simp_all add: ratv_def)

lemma proper_constants [simp]:
  "proper rat_zero" "proper rat_one" "ratv rat_zero = 0" "ratv rat_one = 1"
  by (simp_all add: proper_def ratv_def rat_zero_def rat_one_def)

lemma ratv_nonneg [simp]: "0 \<le> ratv r"
  by (simp add: ratv_def)

lemma fraction_less:
  assumes "0 < b" "0 < d"
  shows "a * d < c * b \<longleftrightarrow> (of_nat a :: rat) / of_nat b < of_nat c / of_nat d"
proof -
  have "(of_nat a :: rat) / of_nat b < of_nat c / of_nat d
      \<longleftrightarrow> (of_nat (a * d) :: rat) < of_nat (c * b)"
    using assms by (simp add: field_simps)
  then show ?thesis by (simp only: of_nat_less_iff)
qed

lemma rat_less_value:
  "proper a \<Longrightarrow> proper b \<Longrightarrow> rat_less a b \<longleftrightarrow> ratv a < ratv b"
  by (simp only: rat_less_def ratv_def proper_def fraction_less)

end
