(* ===== verification/Pattern_Bounds.thy ===== *)
theory Pattern_Bounds
  imports Pattern_Exact
begin

text \<open>
  Every event of a term lies inside the cycle: an element fills at most the slot it is given, the
  slots of a sequence follow one another inside its window, and the combinators keep events
  between zero and one. Velocities and probabilities stay between zero and one, ratchets between
  one and 255.
\<close>

definition event_sound :: "rat \<Rightarrow> rat \<Rightarrow> AbstractEvent \<Rightarrow> bool" where
  "event_sound lo hi e \<longleftrightarrow> proper (ae_position e) \<and> proper (ae_width e)
     \<and> lo \<le> ratv (ae_position e) \<and> 0 < ratv (ae_width e)
     \<and> ratv (ae_position e) + ratv (ae_width e) \<le> hi
     \<and> unit_value (ae_velocity e) \<and> unit_value (ae_probability e)
     \<and> 1 \<le> ae_ratchets e \<and> ae_ratchets e \<le> 255"

lemma event_sound_mono: "event_sound lo hi e \<Longrightarrow> lo' \<le> lo \<Longrightarrow> hi \<le> hi' \<Longrightarrow> event_sound lo' hi' e"
  by (simp add: event_sound_def)

lemma scale_velocity_sound:
  "event_sound lo hi e \<Longrightarrow> f32_is_finite v \<Longrightarrow> event_sound lo hi (scale_velocity v e)"
  by (simp add: event_sound_def scale_velocity_def scaled_unit)

lemma scale_probability_sound:
  "event_sound lo hi e \<Longrightarrow> f32_is_finite v \<Longrightarrow> event_sound lo hi (scale_probability v e)"
  by (simp add: event_sound_def scale_probability_def scaled_unit)

lemma check_unit_eq_Inr [result_simps]:
  "check_unit v what = Inr u \<longleftrightarrow> (\<forall>x. v = Some x \<longrightarrow> unit_value x)"
  by (cases v) (simp_all add: check_unit_def)

lemma unit_finite: "unit_value x \<Longrightarrow> f32_is_finite x"
  by (simp add: unit_value_def)

section \<open>Copies of a slot\<close>

text \<open>The copies \<open>0 .. count - 1\<close> of equal width divide a slot.\<close>

lemma copy_inside:
  assumes "copy < count" "0 \<le> (width :: rat)"
  shows "start \<le> start + width / of_nat count * of_nat copy"
    "start + width / of_nat count * of_nat copy + width / of_nat count \<le> start + width"
proof -
  have c: "0 < (of_nat count :: rat)" using assms(1) by simp
  have "(of_nat copy :: rat) + 1 \<le> of_nat count" using assms(1) by (metis of_nat_Suc of_nat_le_iff Suc_leI add.commute)
  then have "width / of_nat count * (of_nat copy + 1) \<le> width / of_nat count * of_nat count"
    using assms(2) c by (intro mult_left_mono) auto
  moreover have "width / of_nat count * (of_nat copy + 1)
      = width / of_nat count * of_nat copy + width / of_nat count"
    by (simp add: distrib_left)
  moreover have "width / of_nat count * of_nat count = width" using c by simp
  ultimately show "start + width / of_nat count * of_nat copy + width / of_nat count \<le> start + width"
    by linarith
  show "start \<le> start + width / of_nat count * of_nat copy" using assms(2) c by simp
qed

lemma copies_sound:
  assumes result: "fold_r (\<lambda>copy out.
      bind_r (rat_scale_int copy_width copy) (\<lambda>off.
      bind_r (rat_add start off) (\<lambda>copy_start.
      bind_r (f copy_start) (\<lambda>events. Inr (out @ events))))) [0..<count] [] = Inr events"
    and div: "rat_div width (Rational c 1) = Inr copy_width" "c = count"
    and proper: "proper start" "proper width" "0 < ratv width"
    and f: "\<And>copy_start events. proper copy_start \<Longrightarrow> f copy_start = Inr events
      \<Longrightarrow> \<forall>e \<in> set events. event_sound (ratv copy_start) (ratv copy_start + ratv copy_width) e"
  shows "\<forall>e \<in> set events. event_sound (ratv start) (ratv start + ratv width) e"
proof (rule fold_r_invariant[OF result])
  fix copy out out'
  assume copy: "copy \<in> set [0..<count]"
    and out: "\<forall>e \<in> set out. event_sound (ratv start) (ratv start + ratv width) e"
    and step: "bind_r (rat_scale_int copy_width copy) (\<lambda>off.
      bind_r (rat_add start off) (\<lambda>copy_start.
      bind_r (f copy_start) (\<lambda>events. Inr (out @ events)))) = Inr out'"
  from step obtain off copy_start events where r: "rat_scale_int copy_width copy = Inr off"
    "rat_add start off = Inr copy_start" "f copy_start = Inr events" "out' = out @ events"
    by (auto simp: result_simps)
  have w: "ratv copy_width = ratv width / of_nat count"
    using rat_div_value(2)[OF div(1)] div(2) by (simp add: ratv_def)
  have p: "proper copy_start" by (rule rat_add_value(1)[OF r(2) proper(1) rat_scale_value(1)[OF r(1)]])
  have s: "ratv copy_start = ratv start + ratv width / of_nat count * of_nat copy"
    using rat_add_value(2)[OF r(2) proper(1) rat_scale_value(1)[OF r(1)]] rat_scale_value(2)[OF r(1)]
    by (simp add: w)
  have "\<forall>e \<in> set events. event_sound (ratv start) (ratv start + ratv width) e"
  proof
    fix e assume "e \<in> set events"
    then have "event_sound (ratv copy_start) (ratv copy_start + ratv copy_width) e"
      using f[OF p r(3)] by blast
    then show "event_sound (ratv start) (ratv start + ratv width) e"
      by (rule event_sound_mono)
        (use copy_inside[of copy count "ratv width" "ratv start"] copy proper(3) in
          \<open>simp_all add: s w\<close>)
  qed
  then show "\<forall>e \<in> set out'. event_sound (ratv start) (ratv start + ratv width) e"
    using out r(4) by auto
qed simp

lemma rat_new_whole: "rat_new (Suc n) 1 = Inr (Rational (Suc n) 1)"
  by (simp add: rat_new_def rat_gcd_gcd)

lemma rat_new_copies: "rat_new (max 1 n) 1 = Inr (Rational (max 1 n) 1)"
  by (simp add: rat_new_def rat_gcd_gcd)

section \<open>Sequences\<close>

definition weight_of :: "Step \<Rightarrow> rat" where
  "weight_of s = of_nat (ratio_numerator (st_width s)) / of_nat (ratio_denominator (st_width s))"

definition weights :: "Step list \<Rightarrow> rat" where
  "weights steps = sum_list (map (\<lambda>s. weight_of s * of_nat (max 1 (st_replicate s))) steps)"

lemma weights_simps [simp]:
  "weights [] = 0"
  "weights (s # steps) = weight_of s * of_nat (max 1 (st_replicate s)) + weights steps"
  by (simp_all add: weights_def)

definition weighted :: "Step \<Rightarrow> bool" where
  "weighted s \<longleftrightarrow> 0 < ratio_numerator (st_width s) \<and> 0 < ratio_denominator (st_width s)"

lemma weight_pos: "weighted s \<Longrightarrow> 0 < weight_of s"
  by (simp add: weighted_def weight_of_def)

lemma weights_nonneg: "0 \<le> weights steps"
  by (induction steps) (simp_all add: weight_of_def)

lemma sequence_width_fold:
  assumes "fold_r add_width steps acc = Inr whole" "proper acc"
  shows "proper whole \<and> ratv whole = ratv acc + weights steps \<and> (\<forall>s \<in> set steps. weighted s)"
  using assms
proof (induction steps arbitrary: acc)
  case (Cons s steps)
  then obtain acc' where a: "add_width s acc = Inr acc'" "fold_r add_width steps acc' = Inr whole"
    by (auto split: sum.splits)
  from a(1) obtain w where w: "rat_new (ratio_numerator (st_width s) * max 1 (st_replicate s))
      (ratio_denominator (st_width s)) = Inr w" "rat_add acc w = Inr acc'" "weighted s"
    by (auto simp: add_width_def Let_def result_simps weighted_def split: if_splits)
  note sum = rat_add_value[OF w(2) Cons.prems(2) rat_new_value(1)[OF w(1)]]
  have "ratv w = weight_of s * of_nat (max 1 (st_replicate s))"
    using rat_new_value(2)[OF w(1)] by (simp add: weight_of_def)
  then show ?case using Cons.IH[OF a(2) sum(1)] sum(2) w(3) by simp
qed simp

lemma sequence_width_value:
  assumes "sequence_width steps = Inr acc"
  shows "proper acc" "ratv acc = weights steps" "\<forall>s \<in> set steps. weighted s"
  using sequence_width_fold[of steps rat_zero acc] assms by (simp_all add: sequence_width_def)

text \<open>One copy of a step: the events of its slot, and the cursor moved by the weight.\<close>

lemma slot_step:
  assumes "bind_r (rat_div cursor acc) (\<lambda>q.
         bind_r (rat_mul q width) (\<lambda>off.
         bind_r (rat_add start off) (\<lambda>slot_start.
         bind_r (rat_mul slot_fraction width) (\<lambda>slot_width.
         bind_r (f slot_start slot_width)
           (\<lambda>events.
         bind_r (rat_add cursor weight) (\<lambda>cursor'. Inr (cursor', out @ events))))))) = Inr (cursor2, out2)"
    and "proper start" "proper cursor" "proper weight"
  obtains slot_start slot_width events where
    "f slot_start slot_width = Inr events" "out2 = out @ events" "proper slot_start" "proper slot_width"
    "ratv slot_start = ratv start + ratv cursor / ratv acc * ratv width"
    "ratv slot_width = ratv slot_fraction * ratv width"
    "proper cursor2" "ratv cursor2 = ratv cursor + ratv weight"
proof -
  from assms(1) obtain q off slot_start slot_width events where r:
    "rat_div cursor acc = Inr q" "rat_mul q width = Inr off" "rat_add start off = Inr slot_start"
    "rat_mul slot_fraction width = Inr slot_width" "f slot_start slot_width = Inr events"
    "rat_add cursor weight = Inr cursor2" "out2 = out @ events"
    by (auto simp: result_simps)
  note vals = rat_div_value[OF r(1)] rat_mul_value[OF r(2)] rat_mul_value[OF r(4)]
    rat_add_value[OF r(6) assms(3,4)] rat_add_value[OF r(3) assms(2) rat_mul_value(1)[OF r(2)]]
  show thesis by (rule that[OF r(5,7)]) (simp_all add: vals)
qed


lemma slot_inside:
  assumes "0 < (acc :: rat)" "0 \<le> cursor" "0 < weight" "cursor + weight \<le> acc" "0 < width"
  shows "start \<le> start + cursor / acc * width"
    "start + cursor / acc * width + weight / acc * width \<le> start + width"
    "0 < weight / acc * width"
proof -
  have "cursor / acc * width + weight / acc * width = (cursor + weight) / acc * width"
    by (simp add: add_divide_distrib distrib_right)
  moreover have "(cursor + weight) / acc \<le> 1" using assms by simp
  then have "(cursor + weight) / acc * width \<le> 1 * width"
    using assms(5) by (intro mult_right_mono) auto
  ultimately show "start + cursor / acc * width + weight / acc * width \<le> start + width" by simp
  show "start \<le> start + cursor / acc * width" "0 < weight / acc * width" using assms by simp_all
qed

lemma slot_copies:
  assumes "fold_r (\<lambda>_ (cursor, out).
         bind_r (rat_div cursor acc) (\<lambda>q.
         bind_r (rat_mul q width) (\<lambda>off.
         bind_r (rat_add start off) (\<lambda>slot_start.
         bind_r (rat_mul slot_fraction width) (\<lambda>slot_width.
         bind_r (f slot_start slot_width)
           (\<lambda>events.
         bind_r (rat_add cursor weight) (\<lambda>cursor'. Inr (cursor', out @ events)))))))) xs (c0, out0)
      = Inr (c1, out1)"
    and proper: "proper start" "proper weight" "proper c0"
    and sizes: "0 < ratv acc" "0 < ratv weight" "0 < ratv width"
      "ratv slot_fraction = ratv weight / ratv acc"
      "ratv c0 + of_nat (length xs) * ratv weight \<le> ratv acc"
    and f: "\<And>slot_start slot_width events. proper slot_start \<Longrightarrow> proper slot_width
      \<Longrightarrow> 0 < ratv slot_width \<Longrightarrow> f slot_start slot_width = Inr events
      \<Longrightarrow> \<forall>e \<in> set events. event_sound (ratv slot_start) (ratv slot_start + ratv slot_width) e"
    and out0: "\<forall>e \<in> set out0. event_sound (ratv start) (ratv start + ratv width) e"
  shows "proper c1 \<and> ratv c1 = ratv c0 + of_nat (length xs) * ratv weight
    \<and> (\<forall>e \<in> set out1. event_sound (ratv start) (ratv start + ratv width) e)"
  using assms(1) proper(3) sizes(5) out0
proof (induction xs arbitrary: c0 out0)
  case (Cons x xs)
  from Cons.prems(1) obtain c2 out2 where
    step: "bind_r (rat_div c0 acc) (\<lambda>q.
         bind_r (rat_mul q width) (\<lambda>off.
         bind_r (rat_add start off) (\<lambda>slot_start.
         bind_r (rat_mul slot_fraction width) (\<lambda>slot_width.
         bind_r (f slot_start slot_width)
           (\<lambda>events.
         bind_r (rat_add c0 weight) (\<lambda>cursor'. Inr (cursor', out0 @ events))))))) = Inr (c2, out2)"
    and later: "fold_r (\<lambda>_ (cursor, out).
         bind_r (rat_div cursor acc) (\<lambda>q.
         bind_r (rat_mul q width) (\<lambda>off.
         bind_r (rat_add start off) (\<lambda>slot_start.
         bind_r (rat_mul slot_fraction width) (\<lambda>slot_width.
         bind_r (f slot_start slot_width)
           (\<lambda>events.
         bind_r (rat_add cursor weight) (\<lambda>cursor'. Inr (cursor', out @ events)))))))) xs (c2, out2)
      = Inr (c1, out1)"
    by (auto split: sum.splits)
  from slot_step[OF step proper(1) Cons.prems(2) proper(2)]
  obtain slot_start slot_width events where s: "f slot_start slot_width = Inr events"
    "out2 = out0 @ events" "proper slot_start" "proper slot_width"
    "ratv slot_start = ratv start + ratv c0 / ratv acc * ratv width"
    "ratv slot_width = ratv slot_fraction * ratv width"
    "proper c2" "ratv c2 = ratv c0 + ratv weight" by metis
  have "0 \<le> of_nat (length xs) * ratv weight" by simp
  moreover have "of_nat (length (x # xs)) * ratv weight = ratv weight + of_nat (length xs) * ratv weight"
    by (simp add: distrib_right)
  ultimately have fits: "ratv c0 + ratv weight \<le> ratv acc" using Cons.prems(3) by linarith
  note inside = slot_inside(1,2)[OF sizes(1) ratv_nonneg sizes(2) fits sizes(3), of "ratv start"]
    slot_inside(3)[OF sizes(1) ratv_nonneg sizes(2) fits sizes(3)]
  have "\<forall>e \<in> set events. event_sound (ratv slot_start) (ratv slot_start + ratv slot_width) e"
    by (rule f[OF s(3,4) _ s(1)]) (use inside(3) in \<open>simp add: s(6) sizes(4)\<close>)
  then have "\<forall>e \<in> set out2. event_sound (ratv start) (ratv start + ratv width) e"
    using Cons.prems(4) inside(1,2) unfolding s(2) set_append s(5) s(6) sizes(4)
    by (blast intro: event_sound_mono)
  from Cons.IH[OF later s(7) _ this] Cons.prems(3) show ?case
    by (simp add: s(8) distrib_right add.assoc)
qed simp

section \<open>Elements\<close>

definition element_inside :: "Element \<Rightarrow> bool" where
  "element_inside element \<longleftrightarrow> (\<forall>start width repeat probability velocity cycle events.
     proper start \<and> proper width \<and> 0 < ratv width
     \<and> eval_element element start width repeat probability velocity cycle = Inr events
     \<longrightarrow> (\<forall>e \<in> set events. event_sound (ratv start) (ratv start + ratv width) e))"

lemma slots_inside:
  assumes "\<forall>s \<in> set steps. element_inside (st_element s)" "\<forall>s \<in> set steps. weighted s"
    and "eval_slots steps acc cursor start width cycle = Inr events"
    and "proper start" "proper cursor" "proper width" "0 < ratv width" "0 < ratv acc"
      "ratv cursor + weights steps \<le> ratv acc"
  shows "\<forall>e \<in> set events. event_sound (ratv start) (ratv start + ratv width) e"
  using assms
proof (induction steps arbitrary: cursor events)
  case Nil
  then show ?case by (simp add: eval_slots.simps)
next
  case (Cons s steps)
  obtain element w copies repeat probability velocity where
    s: "s = Step element w copies repeat probability velocity" by (cases s)
  let ?f = "\<lambda>slot_start slot_width. eval_element element slot_start slot_width (max 1 repeat)
    probability velocity cycle"
  from Cons.prems(3) obtain weight fraction cursor2 now later where r:
    "rat_new (ratio_numerator w) (ratio_denominator w) = Inr weight"
    "rat_div weight acc = Inr fraction"
    "fold_r (\<lambda>_ (cursor, out).
         bind_r (rat_div cursor acc) (\<lambda>q.
         bind_r (rat_mul q width) (\<lambda>off.
         bind_r (rat_add start off) (\<lambda>slot_start.
         bind_r (rat_mul fraction width) (\<lambda>slot_width.
         bind_r (?f slot_start slot_width)
           (\<lambda>events.
         bind_r (rat_add cursor weight) (\<lambda>cursor'. Inr (cursor', out @ events))))))))
       [0..<max 1 copies] (cursor, []) = Inr (cursor2, now)"
    "eval_slots steps acc cursor2 start width cycle = Inr later" "events = now @ later"
    unfolding s eval_slots.simps by (auto simp only: bind_r_eq_Inr split_paired_Ex prod.case sum.inject)
  have v: "proper weight" "ratv weight = weight_of s"
    using rat_new_value[OF r(1)] by (simp_all add: s weight_of_def)
  have positive: "0 < ratv weight" using weight_pos[of s] Cons.prems(2) by (simp add: v(2))
  have room: "ratv cursor + of_nat (length [0..<max 1 copies]) * ratv weight \<le> ratv acc"
    using Cons.prems(9) weights_nonneg[of steps] by (simp add: s v(2) weight_of_def mult.commute)
  have inside: "\<forall>e \<in> set ev. event_sound (ratv slot_start) (ratv slot_start + ratv slot_width) e"
    if "proper slot_start" "proper slot_width" "0 < ratv slot_width" "?f slot_start slot_width = Inr ev"
    for slot_start slot_width ev
    using Cons.prems(1) that by (simp add: s element_inside_def)
  note copies = slot_copies[OF r(3) Cons.prems(4) v(1) Cons.prems(5) Cons.prems(8) positive
    Cons.prems(7) rat_div_value(2)[OF r(2)] room inside]
  have "\<forall>e \<in> set later. event_sound (ratv start) (ratv start + ratv width) e"
    by (rule Cons.IH[OF _ _ r(4)]) (use Cons.prems copies in \<open>simp_all add: s v(2) mult.commute\<close>)
  then show ?case using copies unfolding r(5) by auto
qed


lemma eval_seq_inside:
  assumes "\<forall>s \<in> set steps. element_inside (st_element s)"
    and "eval_seq steps start width cycle = Inr events"
    and "proper start" "proper width" "0 < ratv width"
  shows "\<forall>e \<in> set events. event_sound (ratv start) (ratv start + ratv width) e"
proof -
  obtain acc where acc: "steps \<noteq> []" "sequence_width steps = Inr acc"
    "eval_slots steps acc rat_zero start width cycle = Inr events"
    using assms(2) by (auto simp: eval_seq.simps result_simps split: if_splits)
  note weights = sequence_width_value[OF acc(2)]
  obtain s ss where s: "steps = s # ss" using acc(1) by (cases steps) auto
  have "0 < weight_of s * of_nat (max 1 (st_replicate s))"
    using weight_pos[of s] weights(3) by (simp add: s)
  then have "0 < ratv acc" using weights_nonneg[of ss] unfolding weights(2) s weights_simps by linarith
  then show ?thesis
    by (intro slots_inside[OF assms(1) weights(3) acc(3) assms(3) _ assms(4,5)]) (simp_all add: weights(2))
qed

lemma rat_new_copies_value: "max 1 n = m \<Longrightarrow> rat_new m 1 = Inr (Rational m 1)"
  using rat_new_copies[of n] by simp

lemma copy_width_pos:
  assumes "rat_div width (Rational (max 1 n) 1) = Inr copy_width" "0 < ratv width"
  shows "proper copy_width" "0 < ratv copy_width"
proof -
  have "0 < max 1 n" by simp
  then have "0 < (of_nat (max 1 n) :: rat)" by (simp only: of_nat_0_less_iff)
  moreover have "ratv (Rational (max 1 n) 1) = of_nat (max 1 n)" by (simp add: ratv_def)
  ultimately show "proper copy_width" "0 < ratv copy_width"
    using rat_div_value[OF assms(1)] assms(2) by simp_all
qed

lemma named_inside: "element_inside (Name b v)"
  by (auto simp: element_inside_def eval_element.simps result_simps event_sound_def
      split: if_splits option.splits)

lemma group_inside:
  assumes "\<forall>s \<in> set steps. element_inside (st_element s)"
  shows "element_inside (Group steps)"
  unfolding element_inside_def
proof (intro allI impI, elim conjE)
  fix start width repeat probability velocity cycle events
  assume p: "proper start" "proper width" "0 < ratv width"
    and r: "eval_element (Group steps) start width repeat probability velocity cycle = Inr events"
  from r obtain copy_width placed where c:
    "rat_div width (Rational (max 1 repeat) 1) = Inr copy_width"
    "fold_r (\<lambda>copy out.
              bind_r (rat_scale_int copy_width copy) (\<lambda>off.
              bind_r (rat_add start off) (\<lambda>copy_start.
              bind_r (eval_seq steps copy_start copy_width cycle) (\<lambda>events. Inr (out @ events)))))
            [0..<max 1 repeat] [] = Inr placed"
    "events = map (case velocity of None \<Rightarrow> id | Some v \<Rightarrow> scale_velocity v)
            (map (case probability of None \<Rightarrow> id | Some p \<Rightarrow> scale_probability p) placed)"
    "\<forall>x. probability = Some x \<longrightarrow> unit_value x" "\<forall>x. velocity = Some x \<longrightarrow> unit_value x"
    unfolding eval_element.simps[of "Group steps"]
    by (auto simp only: then_r_eq_Inr bind_r_eq_Inr check_unit_eq_Inr Element.case rat_new_copies sum.inject)
  have w: "proper copy_width" "0 < ratv copy_width"
    using copy_width_pos[OF c(1) p(3)] by simp_all
  have "\<forall>e \<in> set placed. event_sound (ratv start) (ratv start + ratv width) e"
    by (rule copies_sound[OF c(2) c(1) refl p])
      (rule eval_seq_inside[OF assms _ _ w])
  then show "\<forall>e \<in> set events. event_sound (ratv start) (ratv start + ratv width) e"
    using c(4,5) unfolding c(3)
    by (auto split: option.splits intro!: scale_velocity_sound scale_probability_sound intro: unit_finite)
qed

lemma alternate_inside:
  assumes "\<forall>s \<in> set steps. element_inside (st_element s)"
  shows "element_inside (Alternate steps)"
  unfolding element_inside_def
proof (intro allI impI, elim conjE)
  fix start width repeat probability velocity cycle events
  assume p: "proper start" "proper width" "0 < ratv width"
    and r: "eval_element (Alternate steps) start width repeat probability velocity cycle = Inr events"
  let ?s = "steps ! (cycle mod length steps)"
  from r obtain copy_width where c: "steps \<noteq> []"
    "rat_div width (Rational (max 1 (st_replicate ?s)) 1) = Inr copy_width"
    "fold_r (\<lambda>copy out.
                      bind_r (rat_scale_int copy_width copy) (\<lambda>off.
                      bind_r (rat_add start off) (\<lambda>copy_start.
                      bind_r (eval_element (st_element ?s)
                          copy_start copy_width
                          (u32_saturating_mul (max 1 (st_repeat ?s)) (max 1 repeat))
                          (compose probability (st_probability ?s))
                          (compose velocity (st_velocity ?s)) cycle) (\<lambda>events.
                      Inr (out @ events)))))
                    [0..<max 1 (st_replicate ?s)] [] = Inr events"
    unfolding eval_element.simps[of "Alternate steps"]
    by (auto simp only: then_r_eq_Inr bind_r_eq_Inr check_unit_eq_Inr Element.case rat_new_copies sum.inject
        Let_def sum.distinct split: if_splits)
  have w: "proper copy_width" "0 < ratv copy_width"
    using copy_width_pos[OF c(2) p(3)] by simp_all
  have i: "element_inside (st_element ?s)" using assms c(1) by simp
  show "\<forall>e \<in> set events. event_sound (ratv start) (ratv start + ratv width) e"
    by (rule copies_sound[OF c(3) c(2) refl p]) (use i w in \<open>auto simp: element_inside_def\<close>)
qed

lemma every_element_inside: "element_inside element"
  and every_step_inside: "element_inside (st_element s)"
proof (induction element and s)
  case Rest
  then show ?case by (auto simp: element_inside_def eval_element.simps result_simps)
next
  case (Name b v)
  then show ?case by (rule named_inside)
next
  case (Group steps)
  then show ?case by (intro group_inside ballI)
next
  case (Alternate steps)
  then show ?case by (intro alternate_inside ballI)
next
  case (Step element w copies repeat p v)
  then show ?case by simp
qed

chapter \<open>Combinators\<close>

text \<open>
  The combinators keep every event inside the cycle: rotation moves payloads between positions,
  \<open>fast\<close> squeezes copies into equal parts, \<open>slow\<close> stretches one window and clips what leaves the
  cycle.
\<close>

abbreviation events_sound :: "AbstractEvent list \<Rightarrow> bool" where
  "events_sound events \<equiv> \<forall>e \<in> set events. event_sound 0 1 e"

section \<open>Rotation\<close>

lemma insert_index_set: "set (insert_index before i js) = insert i (set js)"
  by (induction js) auto

lemma insert_index_length: "length (insert_index before i js) = Suc (length js)"
  by (induction js) auto

lemma sort_indices_set: "set (sort_indices before is) = set is"
proof -
  have "set (fold (insert_index before) is js) = set is \<union> set js" for js
    by (induction "is" arbitrary: js) (auto simp: insert_index_set)
  then show ?thesis by (simp add: sort_indices_def)
qed

lemma sort_indices_length: "length (sort_indices before is) = length is"
proof -
  have "length (fold (insert_index before) is js) = length is + length js" for js
    by (induction "is" arbitrary: js) (auto simp: insert_index_length)
  then show ?thesis by (simp add: sort_indices_def)
qed

lemma take_payload_sound:
  "event_sound lo hi source \<Longrightarrow> event_sound lo hi e \<Longrightarrow> event_sound lo hi (take_payload source e)"
  by (simp add: take_payload_def event_sound_def)

lemma fold_invariant:
  "P s \<Longrightarrow> (\<And>x s. x \<in> set xs \<Longrightarrow> P s \<Longrightarrow> P (f x s)) \<Longrightarrow> P (fold f xs s)"
  by (induction xs arbitrary: s) auto

lemma rotate_sound:
  assumes "\<forall>e \<in> set events. event_sound lo hi e"
  shows "\<forall>e \<in> set (rotate_payloads steps events). event_sound lo hi e"
proof -
  define order where "order = sort_indices (event_before events) [0..<length events]"
  define shift where "shift = nat (steps mod int (length events))"
  have o: "length order = length events" "\<And>i. i < length events \<Longrightarrow> order ! i < length events"
    using nth_mem[of _ order] sort_indices_set[of "event_before events" "[0..<length events]"]
      sort_indices_length[of "event_before events" "[0..<length events]"]
    by (auto simp: order_def)
  have *: "\<forall>e \<in> set (fold (\<lambda>rank out. out[order ! rank :=
        take_payload (events ! (order ! ((rank + shift) mod length events))) (events ! (order ! rank))])
      [0..<length events] events). event_sound lo hi e"
  proof (rule fold_invariant[where P = "\<lambda>out. \<forall>e \<in> set out. event_sound lo hi e"])
    fix rank out
    assume rank: "rank \<in> set [0..<length events]" and out: "\<forall>e \<in> set out. event_sound lo hi e"
    then have "rank < length events" by simp
    moreover from this have "(rank + shift) mod length events < length events"
      by (intro mod_less_divisor) linarith
    ultimately have "event_sound lo hi (take_payload (events ! (order ! ((rank + shift) mod length events)))
        (events ! (order ! rank)))"
      using assms o(2) by (intro take_payload_sound) auto
    then show "\<forall>e \<in> set (out[order ! rank :=
        take_payload (events ! (order ! ((rank + shift) mod length events))) (events ! (order ! rank))]).
          event_sound lo hi e"
      using out by (blast dest: subsetD[OF set_update_subset_insert])
  qed (rule assms)
  show ?thesis
    unfolding rotate_payloads_def Let_def order_def[symmetric] shift_def[symmetric]
    using * assms by simp
qed

section \<open>Transforms\<close>

lemma apply_transform_sound:
  assumes "apply_transform t events = Inr result" "\<forall>e \<in> set events. event_sound lo hi e"
  shows "\<forall>e \<in> set result. event_sound lo hi e"
proof (cases t)
  case (TRotate k)
  then show ?thesis using rotate_sound[OF assms(2)] assms(1) by (auto simp: apply_transform_def)
next
  case (TGain g)
  then show ?thesis using assms scale_velocity_sound by (auto simp: apply_transform_def split: if_splits)
next
  case (TDegrade p)
  then show ?thesis
    using assms scale_probability_sound unit_complement_finite[of p]
    by (auto simp: apply_transform_def split: if_splits)
qed

section \<open>Fast and slow\<close>

lemma collect_r_all:
  assumes "collect_r f xs = Inr ys" "\<And>x y. x \<in> set xs \<Longrightarrow> f x = Inr y \<Longrightarrow> P y"
  shows "\<forall>y \<in> set ys. P y"
  by (rule fold_r_invariant[OF assms(1)[unfolded collect_r_def]]) (auto simp: result_simps assms(2))

lemma squeeze_sound:
  assumes "squeeze start copy_width e = Inr e'" "event_sound 0 1 e" "proper start" "0 < ratv copy_width"
  shows "event_sound (ratv start) (ratv start + ratv copy_width) e'"
proof -
  obtain off position width where r: "rat_mul (ae_position e) copy_width = Inr off"
    "rat_add start off = Inr position" "rat_mul (ae_width e) copy_width = Inr width"
    "e' = e\<lparr>ae_position := position, ae_width := width\<rparr>"
    using assms(1) by (auto simp: squeeze_def result_simps)
  note vals = rat_mul_value[OF r(1)] rat_mul_value[OF r(3)]
    rat_add_value[OF r(2) assms(3) rat_mul_value(1)[OF r(1)]]
  have "(ratv (ae_position e) + ratv (ae_width e)) * ratv copy_width \<le> 1 * ratv copy_width"
    using assms(2,4) by (intro mult_right_mono) (simp_all add: event_sound_def)
  then show ?thesis
    using assms(2,4) unfolding r(4) by (simp add: event_sound_def vals distrib_right)
qed

lemma stretch_sound:
  assumes "stretch factor window_start e = Inr e'" "event_sound 0 1 e" "0 < factor"
    and start: "ratv window_start = of_nat k / of_nat factor" "proper window_start"
      "ratv window_start \<le> ratv (ae_position e)" "ratv (ae_position e) < of_nat (k + 1) / of_nat factor"
  shows "event_sound 0 1 e'"
proof -
  obtain offset position width end_position width' where r:
    "rat_checked (rat_n (ae_position e) * rat_d window_start - rat_n window_start * rat_d (ae_position e))
       (rat_d (ae_position e) * rat_d window_start) = Inr offset"
    "rat_scale_int offset factor = Inr position" "rat_scale_int (ae_width e) factor = Inr width"
    "rat_add position width = Inr end_position"
    "(if rat_less rat_one end_position
       then rat_checked (rat_d position - rat_n position) (rat_d position)
       else Inr width) = Inr width'"
    "e' = e\<lparr>ae_position := position, ae_width := width'\<rparr>"
    using assms(1) by (auto simp: stretch_def result_simps simp del: sum.inject split del: if_split)
  have pe: "proper (ae_position e)" using assms(2) by (simp add: event_sound_def)
  have "\<not> ratv (ae_position e) < ratv window_start" using start(3) by simp
  then have le: "rat_n window_start * rat_d (ae_position e) \<le> rat_n (ae_position e) * rat_d window_start"
    using rat_less_value[OF pe start(2)] by (simp add: rat_less_def)
  have "ratv offset = ratv (ae_position e) - ratv window_start"
    using rat_checked_value(2)[OF r(1)] le pe start(2)
    by (simp add: ratv_def proper_def of_nat_diff diff_frac_eq)
  then have p: "proper position" "ratv position = (ratv (ae_position e) - of_nat k / of_nat factor) * of_nat factor"
    using rat_scale_value[OF r(2)] start(1) by simp_all
  have f: "0 < (of_nat factor :: rat)" using assms(3) by simp
  have p0: "0 \<le> ratv position" by simp
  have "ratv (ae_position e) * of_nat factor < of_nat (k + 1)"
    using start(4) f by (simp add: pos_less_divide_eq)
  then have p1: "ratv position < 1" using f unfolding p(2) by (simp add: left_diff_distrib)
  have w: "proper width" "0 < ratv width"
    using rat_scale_value[OF r(3)] assms(2) f by (simp_all add: event_sound_def)
  note e = rat_add_value[OF r(4) p(1) w(1)]
  have "proper width' \<and> 0 < ratv width' \<and> ratv position + ratv width' \<le> 1"
  proof (cases "rat_less rat_one end_position")
    case True
    then have c: "rat_checked (rat_d position - rat_n position) (rat_d position) = Inr width'"
      using r(5) by simp
    have "rat_n position < rat_d position"
      using p1 p(1) by (simp add: ratv_def proper_def)
    then have "ratv width' = 1 - ratv position"
      using rat_checked_value(2,3)[OF c] by (simp add: ratv_def of_nat_diff diff_divide_distrib)
    then show ?thesis using rat_checked_value(1)[OF c] p1 by simp
  next
    case False
    then have "width' = width" "ratv end_position \<le> 1"
      using r(5) rat_less_value[OF proper_constants(2) e(1)] by simp_all
    then show ?thesis using w e(2) by simp
  qed
  then show ?thesis using assms(2) p(1) unfolding r(6) by (simp add: event_sound_def)
qed


section \<open>Terms\<close>

lemma part_inside:
  assumes "copy < count" "rat_new 1 count = Inr part" "rat_scale_int part copy = Inr start"
  shows "proper part" "0 < ratv part" "proper start" "0 \<le> ratv start" "ratv start + ratv part \<le> 1"
    "ratv start = of_nat copy / of_nat count" "ratv part = 1 / of_nat count"
proof -
  note vals = rat_new_value[OF assms(2)] rat_scale_value[OF assms(3)]
  show "proper part" "proper start" "0 < ratv part" "0 \<le> ratv start"
    "ratv start = of_nat copy / of_nat count" "ratv part = 1 / of_nat count"
    using vals by simp_all
  show "ratv start + ratv part \<le> 1"
    using copy_inside(2)[OF assms(1), of 1 0] vals by simp
qed

lemma stack_fold:
  assumes "fold_r (\<lambda>x out. bind_r (f x) (\<lambda>events. Inr (out @ events))) xs [] = Inr result"
    "\<And>x events. x \<in> set xs \<Longrightarrow> f x = Inr events \<Longrightarrow> events_sound events"
  shows "events_sound result"
  by (rule fold_r_invariant[OF assms(1)]) (use assms(2) in \<open>auto simp: result_simps\<close>)

theorem eval_norm_inside: "eval_norm e cycle = Inr events \<Longrightarrow> events_sound events"
proof (induction e arbitrary: cycle events)
  case (Seq steps)
  then show ?case
    using eval_seq_inside[of steps rat_zero rat_one cycle events] every_step_inside by simp
next
  case (Stack members)
  from Stack.prems have "fold_r (\<lambda>member out. bind_r (eval_norm member cycle)
      (\<lambda>events. Inr (out @ events))) members [] = Inr events"
    by (auto split: if_splits)
  then show ?case by (rule stack_fold) (rule Stack.IH)
next
  case (Every period offset transform inner)
  then show ?case
    using apply_transform_sound by (auto simp: result_simps split: if_splits)
next
  case (Rotate k inner)
  then obtain played where "eval_norm inner cycle = Inr played" "events = rotate_payloads k played"
    by (auto simp: result_simps)
  then show ?case using rotate_sound[OF Rotate.IH] by simp
next
  case (Euclid hits slots rotation element)
  from Euclid.prems obtain part where part: "rat_new 1 slots = Inr part" and
    r: "fold_r (\<lambda>slot out.
            if euclid_hit hits slots rotation slot
            then bind_r (rat_scale_int part slot) (\<lambda>start.
                 bind_r (eval_element element start part 1 None None cycle) (\<lambda>events.
                 Inr (out @ events)))
            else Inr out) [0..<slots] [] = Inr events"
    by (auto simp: result_simps split: if_splits)
  show ?case
  proof (rule fold_r_invariant[OF r])
    fix slot out out'
    assume slot: "slot \<in> set [0..<slots]" and out: "events_sound out"
      and step: "(if euclid_hit hits slots rotation slot
            then bind_r (rat_scale_int part slot) (\<lambda>start.
                 bind_r (eval_element element start part 1 None None cycle) (\<lambda>events.
                 Inr (out @ events)))
            else Inr out) = Inr out'"
    show "events_sound out'"
    proof (cases "euclid_hit hits slots rotation slot")
      case True
      with step obtain start new where s: "rat_scale_int part slot = Inr start"
        "eval_element element start part 1 None None cycle = Inr new" "out' = out @ new"
        by (auto simp: result_simps)
      note inside = part_inside[OF _ part s(1)]
      have "slot < slots" using slot by simp
      note inside = inside[OF this]
      have "\<forall>e \<in> set new. event_sound (ratv start) (ratv start + ratv part) e"
        using every_element_inside[of element] s(2) inside unfolding element_inside_def by blast
      then show ?thesis using out event_sound_mono inside(4,5) unfolding s(3) by fastforce
    qed (use step out in simp)
  qed simp
next
  case (Fast factor inner)
  from Fast.prems obtain part where part: "rat_new 1 factor = Inr part" and
    r: "fold_r (\<lambda>copy out.
            bind_r (eval_norm inner (sat_u64 (sat_u64 (cycle * factor) + copy))) (\<lambda>events.
            bind_r (rat_scale_int part copy) (\<lambda>start.
            bind_r (collect_r (squeeze start part) events) (\<lambda>placed.
            Inr (out @ placed))))) [0..<factor] [] = Inr events"
    by (auto simp: result_simps split: if_splits)
  show ?case
  proof (rule fold_r_invariant[OF r])
    fix copy out out'
    assume copy: "copy \<in> set [0..<factor]" and out: "events_sound out"
      and step: "bind_r (eval_norm inner (sat_u64 (sat_u64 (cycle * factor) + copy))) (\<lambda>events.
            bind_r (rat_scale_int part copy) (\<lambda>start.
            bind_r (collect_r (squeeze start part) events) (\<lambda>placed.
            Inr (out @ placed)))) = Inr out'"
    from step obtain new start placed where
      s: "eval_norm inner (sat_u64 (sat_u64 (cycle * factor) + copy)) = Inr new"
      "rat_scale_int part copy = Inr start" "collect_r (squeeze start part) new = Inr placed"
      "out' = out @ placed"
      by (auto simp: result_simps)
    have "copy < factor" using copy by simp
    note inside = part_inside[OF this part s(2)]
    have "events_sound placed"
    proof (rule collect_r_all[OF s(3)])
      fix e e' assume "e \<in> set new" "squeeze start part e = Inr e'"
      then have "event_sound (ratv start) (ratv start + ratv part) e'"
        using squeeze_sound[OF _ _ inside(3,2)] Fast.IH[OF s(1)] by blast
      then show "event_sound 0 1 e'" by (rule event_sound_mono) (use inside in simp_all)
    qed
    then show "events_sound out'" using out by (auto simp: s(4))
  qed simp
next
  case (Slow factor inner)
  define k where "k = cycle mod factor"
  from Slow.prems obtain played ws we where
    r: "factor \<noteq> 0" "eval_norm inner (cycle div factor) = Inr played" "rat_new k factor = Inr ws"
    "rat_new (k + 1) factor = Inr we"
    "collect_r (stretch factor ws) (filter (\<lambda>e. \<not> rat_less (ae_position e) ws
       \<and> rat_less (ae_position e) we) played) = Inr events"
    by (auto simp: result_simps k_def Let_def split: if_splits)
  note vals = rat_new_value[OF r(3)] rat_new_value[OF r(4)]
  show ?case
  proof (rule collect_r_all[OF r(5)])
    fix e e' assume e: "e \<in> set (filter (\<lambda>e. \<not> rat_less (ae_position e) ws
       \<and> rat_less (ae_position e) we) played)" and s: "stretch factor ws e = Inr e'"
    then have sound: "event_sound 0 1 e" using Slow.IH[OF r(2)] by simp
    then have "ratv ws \<le> ratv (ae_position e)" "ratv (ae_position e) < ratv we"
      using e vals(1,4) by (auto simp: rat_less_value event_sound_def)
    then show "event_sound 0 1 e'"
      by (intro stretch_sound[OF s sound _ vals(2) vals(1)]) (use r(1) vals(5) in simp_all)
  qed
next
  case (Swing amount inner)
  then show ?case by simp
next
  case (Gain linear inner)
  then show ?case using scale_velocity_sound by (auto simp: result_simps split: if_splits)
next
  case (Degrade p inner)
  then show ?case
    using scale_probability_sound unit_complement_finite[of p]
    by (auto simp: result_simps split: if_splits)
qed

end
