(* ===== verification/Pattern_Euclid.thy ===== *)
theory Pattern_Euclid
  imports Pattern_Bounds
begin

text \<open>
  Euclidean rhythms: the slots that sound are the evenly spread onsets \<open>ceiling (k * slots / hits)\<close>,
  turned by the rotation, so there are exactly as many as the term asks for.
\<close>

text \<open>The slot of the \<open>k\<close>-th onset before rotation.\<close>

definition onset :: "nat \<Rightarrow> nat \<Rightarrow> nat \<Rightarrow> nat" where
  "onset hits slots k = (k * slots + hits - 1) div hits"

lemma onset_bounds:
  assumes "0 < hits"
  shows "k * slots \<le> onset hits slots k * hits" "onset hits slots k * hits < k * slots + hits"
proof -
  define x where "x = k * slots + hits - 1"
  have "x = x div hits * hits + x mod hits" "x mod hits < hits" using assms by simp_all
  then show "k * slots \<le> onset hits slots k * hits" "onset hits slots k * hits < k * slots + hits"
    using assms unfolding onset_def x_def by linarith+
qed

lemma onset_below:
  assumes "0 < hits" "hits \<le> slots" "k < hits"
  shows "onset hits slots k < slots"
proof (rule ccontr)
  assume "\<not> onset hits slots k < slots"
  then have "slots * hits \<le> onset hits slots k * hits" by simp
  then have "slots * hits < k * slots + hits" using onset_bounds(2)[OF assms(1), where k = k and slots = slots] by linarith
  moreover have "(k + 1) * slots \<le> hits * slots" using assms(3) by (intro mult_le_mono1) simp
  ultimately show False using assms(2) by (simp add: mult.commute)
qed

lemma onset_inj:
  assumes "0 < hits" "hits \<le> slots" "onset hits slots j = onset hits slots k"
  shows "j = k"
proof -
  have "\<not> a < b" if "onset hits slots a = onset hits slots b" for a b
  proof
    assume "a < b"
    then have "(a + 1) * slots \<le> b * slots" by (intro mult_le_mono1) simp
    then show False
      using onset_bounds[OF assms(1), where k = b and slots = slots] onset_bounds[OF assms(1), where k = a and slots = slots] that assms(2)
      by simp
  qed
  then show ?thesis using assms(3) by (metis linorder_neqE_nat)
qed

lemma straight_hit:
  assumes "0 < slots" "hits \<le> slots" "j < slots"
  shows "j * hits mod slots < hits \<longleftrightarrow> (\<exists>k < hits. j = onset hits slots k)"
proof
  assume h: "j * hits mod slots < hits"
  then have pos: "0 < hits" by simp
  define k where "k = j * hits div slots"
  have split: "j * hits = k * slots + j * hits mod slots" by (simp add: k_def)
  have "k * slots < hits * slots"
    using split assms(3) pos by (metis less_add_same_cancel1 add_lessD1 mult.commute mult_less_mono1)
  then have "k < hits" by simp
  moreover have "j = onset hits slots k"
  proof -
    have "(j * hits) div hits \<le> onset hits slots k"
      unfolding onset_def using split h by (intro div_le_mono) linarith
    moreover have "onset hits slots k * hits < (j + 1) * hits"
      using onset_bounds(2)[OF pos, where k = k and slots = slots] split by simp
    then have "onset hits slots k < j + 1" by (simp only: mult_less_cancel2)
    ultimately show ?thesis using pos by simp
  qed
  ultimately show "\<exists>k < hits. j = onset hits slots k" by blast
next
  assume "\<exists>k < hits. j = onset hits slots k"
  then obtain k where k: "k < hits" "j = onset hits slots k" by blast
  have pos: "0 < hits" using k(1) by simp
  have "k * slots \<le> j * hits" "j * hits < k * slots + hits" using onset_bounds[OF pos] by (simp_all add: k(2))
  then obtain r where r: "j * hits = k * slots + r" "r < hits" by (metis add_less_cancel_left le_iff_add)
  then have "j * hits mod slots = r" using assms(2) by simp
  then show "j * hits mod slots < hits" using r(2) by simp
qed

text \<open>The slot an onset is turned to.\<close>

definition turned :: "nat \<Rightarrow> int \<Rightarrow> nat \<Rightarrow> nat" where
  "turned slots rotation j = nat ((int j + rotation) mod int slots)"

lemma turned_less: "0 < slots \<Longrightarrow> turned slots rotation j < slots"
  by (simp add: turned_def nat_less_iff)

lemma turned_back:
  assumes "0 < slots" "j < slots"
  shows "turned slots rotation (turned slots (- rotation) j) = j"
proof -
  have "int (turned slots (- rotation) j) = (int j - rotation) mod int slots"
    using assms by (simp add: turned_def)
  then have "(int (turned slots (- rotation) j) + rotation) mod int slots = int j mod int slots"
    by (simp add: mod_add_left_eq)
  then show ?thesis using assms by (simp add: turned_def)
qed

lemma turned_inj:
  assumes "0 < slots" "i < slots" "j < slots" "turned slots rotation i = turned slots rotation j"
  shows "i = j"
  using turned_back[OF assms(1,2), of "- rotation"] turned_back[OF assms(1,3), of "- rotation"] assms(4)
  by simp

lemma euclid_hits:
  assumes "0 < slots" "hits \<le> slots" "j < slots"
  shows "euclid_hit hits slots rotation j \<longleftrightarrow> (\<exists>k < hits. j = turned slots rotation (onset hits slots k))"
proof -
  define b where "b = turned slots (- rotation) j"
  have b: "b < slots" using turned_less[OF assms(1)] by (simp add: b_def)
  have "euclid_hit hits slots rotation j \<longleftrightarrow> b * hits mod slots < hits"
    by (simp add: euclid_hit_def b_def turned_def)
  also have "\<dots> \<longleftrightarrow> (\<exists>k < hits. b = onset hits slots k)" by (rule straight_hit[OF assms(1,2) b])
  also have "\<dots> \<longleftrightarrow> (\<exists>k < hits. j = turned slots rotation (onset hits slots k))"
  proof
    assume "\<exists>k < hits. b = onset hits slots k"
    then show "\<exists>k < hits. j = turned slots rotation (onset hits slots k)"
      using turned_back[OF assms(1,3), of rotation] by (metis b_def)
  next
    assume "\<exists>k < hits. j = turned slots rotation (onset hits slots k)"
    then obtain k where k: "k < hits" "j = turned slots rotation (onset hits slots k)" by blast
    moreover have "0 < hits" using k(1) by simp
    ultimately have "b = onset hits slots k"
      using turned_back[OF assms(1) onset_below[OF _ assms(2), of k], of "- rotation"]
      by (simp add: b_def)
    then show "\<exists>k < hits. b = onset hits slots k" using k(1) by blast
  qed
  finally show ?thesis .
qed

lemma hit_slots:
  assumes "0 < slots" "hits \<le> slots"
  shows "{j. j < slots \<and> euclid_hit hits slots rotation j}
      = (\<lambda>k. turned slots rotation (onset hits slots k)) ` {..<hits}"
    "card {j. j < slots \<and> euclid_hit hits slots rotation j} = hits"
proof -
  show image: "{j. j < slots \<and> euclid_hit hits slots rotation j}
      = (\<lambda>k. turned slots rotation (onset hits slots k)) ` {..<hits}"
    using euclid_hits[OF assms] turned_less[OF assms(1)] by auto
  have "inj_on (\<lambda>k. turned slots rotation (onset hits slots k)) {..<hits}"
  proof (rule inj_onI)
    fix x y assume xy: "x \<in> {..<hits}" "y \<in> {..<hits}"
      "turned slots rotation (onset hits slots x) = turned slots rotation (onset hits slots y)"
    then have pos: "0 < hits" by auto
    have "onset hits slots x = onset hits slots y"
      by (rule turned_inj[OF assms(1) _ _ xy(3)]) (use xy onset_below[OF pos assms(2)] in auto)
    then show "x = y" by (rule onset_inj[OF pos assms(2)])
  qed
  then show "card {j. j < slots \<and> euclid_hit hits slots rotation j} = hits"
    unfolding image by (simp add: card_image)
qed

section \<open>The events of a rhythm\<close>

lemma rhythm_events:
  assumes "fold_r (\<lambda>slot out.
            if euclid_hit hits slots rotation slot
            then bind_r (rat_scale_int part slot) (\<lambda>start.
                 bind_r (eval_element (Name b v) start part 1 None None cycle) (\<lambda>events.
                 Inr (out @ events)))
            else Inr out) js out = Inr events"
    and part: "ratv part = 1 / of_nat slots"
  shows "map (\<lambda>e. (ratv (ae_position e), ae_width e, ae_lane e)) events
    = map (\<lambda>e. (ratv (ae_position e), ae_width e, ae_lane e)) out
      @ map (\<lambda>j. (of_nat j / of_nat slots, part, lane_key b v)) (filter (euclid_hit hits slots rotation) js)"
  using assms(1)
proof (induction js arbitrary: out)
  case (Cons j js)
  then obtain out1 where r: "(if euclid_hit hits slots rotation j
            then bind_r (rat_scale_int part j) (\<lambda>start.
                 bind_r (eval_element (Name b v) start part 1 None None cycle) (\<lambda>events.
                 Inr (out @ events)))
            else Inr out) = Inr out1"
    and later: "fold_r (\<lambda>slot out.
            if euclid_hit hits slots rotation slot
            then bind_r (rat_scale_int part slot) (\<lambda>start.
                 bind_r (eval_element (Name b v) start part 1 None None cycle) (\<lambda>events.
                 Inr (out @ events)))
            else Inr out) js out1 = Inr events"
    by (auto split: sum.splits)
  have "map (\<lambda>e. (ratv (ae_position e), ae_width e, ae_lane e)) out1
    = map (\<lambda>e. (ratv (ae_position e), ae_width e, ae_lane e)) out
      @ (if euclid_hit hits slots rotation j then [(of_nat j / of_nat slots, part, lane_key b v)] else [])"
    using r rat_scale_value(2)[of part j] part
    by (auto simp: result_simps eval_element.simps check_unit_def split: if_splits)
  then show ?case using Cons.IH[OF later] by simp
qed simp

lemma euclid_evaluation:
  assumes "eval_norm (Euclid hits slots rotation (Name b v)) cycle = Inr events"
  shows "0 < slots" "hits \<le> slots"
    "map (\<lambda>e. ratv (ae_position e)) events
      = map (\<lambda>j. of_nat j / of_nat slots) (filter (euclid_hit hits slots rotation) [0..<slots])"
    "\<forall>e \<in> set events. ratv (ae_width e) = 1 / of_nat slots \<and> ae_lane e = lane_key b v"
proof -
  show s: "0 < slots" "hits \<le> slots" using assms by (auto split: if_splits)
  obtain part where part: "rat_new 1 slots = Inr part" and
    r: "fold_r (\<lambda>slot out.
            if euclid_hit hits slots rotation slot
            then bind_r (rat_scale_int part slot) (\<lambda>start.
                 bind_r (eval_element (Name b v) start part 1 None None cycle) (\<lambda>events.
                 Inr (out @ events)))
            else Inr out) [0..<slots] [] = Inr events"
    using assms by (auto simp: result_simps split: if_splits)
  have w: "ratv part = 1 / of_nat slots" using rat_new_value(2)[OF part] by simp
  have m: "map (\<lambda>e. (ratv (ae_position e), ae_width e, ae_lane e)) events
    = map (\<lambda>j. (of_nat j / of_nat slots, part, lane_key b v)) (filter (euclid_hit hits slots rotation) [0..<slots])"
    using rhythm_events[OF r w] by simp
  from arg_cong[OF m, of "map fst"]
  show "map (\<lambda>e. ratv (ae_position e)) events
      = map (\<lambda>j. of_nat j / of_nat slots) (filter (euclid_hit hits slots rotation) [0..<slots])"
    by (simp add: comp_def)
  have "(\<lambda>e. (ratv (ae_position e), ae_width e, ae_lane e)) ` set events
      \<subseteq> range (\<lambda>j. (of_nat j / of_nat slots, part, lane_key b v))"
    using arg_cong[OF m, of set] by auto
  then show "\<forall>e \<in> set events. ratv (ae_width e) = 1 / of_nat slots \<and> ae_lane e = lane_key b v"
    using w by auto
qed

end
