(* ===== verification/Pattern_Steps.thy ===== *)
theory Pattern_Steps
  imports Pattern_Bounds
begin

text \<open>
  The step grid: \<open>eval_steps\<close> renders every event of the term as exactly one step, within half a
  tick of its position, and every step renders an event.
\<close>

section \<open>Rounding to ticks\<close>

lemma division_value:
  assumes "0 < d"
  shows "(of_nat m :: rat) / of_nat d = of_nat (m div d) + of_nat (m mod d) / of_nat d"
proof -
  have "(of_nat m :: rat) = of_nat (m div d) * of_nat d + of_nat (m mod d)"
    by (metis div_mult_mod_eq of_nat_add of_nat_mult)
  then show ?thesis using assms by (simp add: add_divide_distrib)
qed

lemma round_ticks_value:
  assumes "round_ticks f cycle = Inr (tick, diagnostics)"
  shows "proper f" "0 \<le> tick" "\<bar>of_int tick - ratv f * of_nat cycle\<bar> \<le> 1 / 2"
proof -
  define m where "m = rat_n f * cycle"
  define d where "d = rat_d f"
  have d: "0 < d" and t: "tick = int (if d \<le> m mod d * 2 then m div d + 1 else m div d)"
    using assms by (auto simp: round_ticks_def Let_def m_def d_def split: if_splits)
  show "proper f" using d by (simp add: proper_def d_def)
  show "0 \<le> tick" by (simp add: t)
  have v: "ratv f * of_nat cycle = of_nat (m div d) + of_nat (m mod d) / of_nat d"
    using division_value[OF d, of m] by (simp add: ratv_def m_def d_def)
  have q: "0 < (of_nat d :: rat)" using d by simp
  show "\<bar>of_int tick - ratv f * of_nat cycle\<bar> \<le> 1 / 2"
  proof (cases "d \<le> m mod d * 2")
    case True
    then have "(of_nat d :: rat) \<le> of_nat (m mod d * 2)" by (simp only: of_nat_le_iff)
    then have "1 / 2 \<le> (of_nat (m mod d) :: rat) / of_nat d" using q by (simp add: field_simps)
    moreover have "(of_nat (m mod d) :: rat) < of_nat d" using d by (simp only: of_nat_less_iff) simp
    then have "(of_nat (m mod d) :: rat) / of_nat d < 1" using q by simp
    ultimately show ?thesis using True by (simp add: v t abs_if)
  next
    case False
    then have "m mod d * 2 < d" by simp
    then have "(of_nat (m mod d * 2) :: rat) < of_nat d" by (simp only: of_nat_less_iff)
    then have x: "(of_nat (m mod d) :: rat) / of_nat d < 1 / 2" using q by (simp add: field_simps)
    have "of_int tick - ratv f * of_nat cycle = - (of_nat (m mod d) / of_nat d)"
      using False by (simp add: v t)
    moreover have "0 \<le> (of_nat (m mod d) :: rat) / of_nat d" by simp
    ultimately show ?thesis using x by linarith
  qed
qed

text \<open>A placed event: within half a tick of its position, its gate within a tick of its width.\<close>

definition placed_as :: "nat \<Rightarrow> AbstractEvent \<Rightarrow> Placed \<Rightarrow> bool" where
  "placed_as cycle e p \<longleftrightarrow> pl_lane p = ae_lane e \<and> pl_velocity p = ae_velocity e
     \<and> pl_probability p = ae_probability e \<and> pl_ratchets p = ae_ratchets e
     \<and> 0 \<le> pl_tick p \<and> \<bar>of_int (pl_tick p) - ratv (ae_position e) * of_nat cycle\<bar> \<le> 1 / 2
     \<and> 0 < pl_gate p \<and> \<bar>of_nat (pl_gate p) - ratv (ae_width e) * of_nat cycle\<bar> < 1"

lemma place_event_value:
  assumes "place_event cycle e (placed, ds) = Inr (placed', ds')" "0 < cycle" "0 < ratv (ae_width e)"
  shows "\<exists>p. placed' = placed @ [p] \<and> placed_as cycle e p"
proof -
  from assms(1) obtain tick d1 width d2 where r: "round_ticks (ae_position e) cycle = Inr (tick, d1)"
    "round_ticks (ae_width e) cycle = Inr (width, d2)"
    "placed' = placed @ [\<lparr>pl_lane = ae_lane e, pl_tick = tick, pl_gate = nat (max 1 width),
               pl_velocity = ae_velocity e, pl_probability = ae_probability e,
               pl_ratchets = ae_ratchets e\<rparr>]"
    by (auto simp: place_event_def result_simps Let_def)
  note position = round_ticks_value[OF r(1)]
  note extent = round_ticks_value[OF r(2)]
  have "0 < ratv (ae_width e) * of_nat cycle" using assms(2,3) by simp
  then have "\<bar>of_nat (nat (max 1 width)) - ratv (ae_width e) * of_nat cycle\<bar> < 1"
    using extent by (cases "width = 0") (auto simp: abs_if max_def)
  then show ?thesis unfolding r(3) using position by (simp add: placed_as_def)
qed

lemma place_events:
  assumes "fold_r (place_event cycle) events (placed, ds) = Inr (placed', ds')" "0 < cycle"
    "\<forall>e \<in> set events. 0 < ratv (ae_width e)"
  shows "\<exists>new. placed' = placed @ new \<and> list_all2 (placed_as cycle) events new"
  using assms
proof (induction events arbitrary: placed ds)
  case (Cons e events)
  from Cons.prems(1) obtain placed1 ds1 where r: "place_event cycle e (placed, ds) = Inr (placed1, ds1)"
    "fold_r (place_event cycle) events (placed1, ds1) = Inr (placed', ds')"
    by (auto split: sum.splits)
  obtain p where p: "placed1 = placed @ [p]" "placed_as cycle e p"
    using place_event_value[OF r(1)] Cons.prems(2,3) by auto
  obtain new where "placed' = placed1 @ new" "list_all2 (placed_as cycle) events new"
    using Cons.IH[OF r(2) Cons.prems(2)] Cons.prems(3) by auto
  then show ?case using p by (intro exI[of _ "p # new"]) simp
qed simp

section \<open>Assembling the lanes\<close>

definition grid_step :: "nat \<Rightarrow> bool \<Rightarrow> Placed \<Rightarrow> StepEvent" where
  "grid_step resolution fallback p = \<lparr>se_velocity = pl_velocity p, se_probability = pl_probability p,
     se_micro_offset = pl_tick p - int (step_slot resolution fallback p) * int resolution,
     se_gate = pl_gate p, se_ratchets = pl_ratchets p, se_pitch_semitones = 0, se_pan = 0\<rparr>"

definition grid_cell :: "nat \<Rightarrow> bool \<Rightarrow> Placed \<Rightarrow> unicode_string \<times> nat" where
  "grid_cell resolution fallback p = (pl_lane p, step_slot resolution fallback p)"

definition cell :: "(unicode_string, (nat, StepEvent) btree) btree \<Rightarrow> unicode_string \<times> nat \<Rightarrow> StepEvent option" where
  "cell lanes place = (case bt_get lanes (fst place) of None \<Rightarrow> None | Some steps \<Rightarrow> bt_get steps (snd place))"

definition grid_of :: "nat \<Rightarrow> bool \<Rightarrow> Placed list \<Rightarrow> (unicode_string, (nat, StepEvent) btree) btree \<Rightarrow> bool" where
  "grid_of resolution fallback placed lanes \<longleftrightarrow> bt_ok lanes
     \<and> distinct (map (grid_cell resolution fallback) placed)
     \<and> (\<forall>place s. cell lanes place = Some s
          \<longleftrightarrow> (\<exists>p \<in> set placed. grid_cell resolution fallback p = place \<and> grid_step resolution fallback p = s))"

lemma assemble_step:
  assumes "assemble_event resolution fallback p lanes = Inr lanes'" "grid_of resolution fallback placed lanes"
  shows "grid_of resolution fallback (placed @ [p]) lanes'"
proof -
  define place where "place = grid_cell resolution fallback p"
  define steps where "steps = (case bt_get lanes (pl_lane p) of None \<Rightarrow> [] | Some s \<Rightarrow> s)"
  have l: "lanes' = bt_insert (pl_lane p) (bt_insert (snd place) (grid_step resolution fallback p) steps) lanes"
    and free: "\<not> bt_contains steps (snd place)"
    using assms(1) by (auto simp: assemble_event_def Let_def grid_step_def place_def grid_cell_def
        steps_def[symmetric] split: if_splits)
  have empty: "cell lanes place = None"
    using free by (auto simp: cell_def steps_def place_def grid_cell_def bt_contains_def split: option.splits)
  have other: "cell lanes' b = (if b = place then Some (grid_step resolution fallback p) else cell lanes b)" for b
    unfolding l by (cases b) (auto simp: cell_def place_def grid_cell_def steps_def split: option.splits)
  have fresh: "\<forall>q \<in> set placed. grid_cell resolution fallback q \<noteq> place"
    using empty assms(2) unfolding grid_of_def by (metis option.distinct(1))
  have "cell lanes' b = Some s \<longleftrightarrow> (\<exists>q \<in> set (placed @ [p]). grid_cell resolution fallback q = b
      \<and> grid_step resolution fallback q = s)" for b s
  proof -
    have before: "cell lanes b = Some s \<longleftrightarrow> (\<exists>q \<in> set placed. grid_cell resolution fallback q = b
        \<and> grid_step resolution fallback q = s)"
      using assms(2) unfolding grid_of_def by blast
    show ?thesis
      by (cases "b = place") (use before fresh in \<open>auto simp: other place_def[symmetric]\<close>)
  qed
  moreover have "bt_ok lanes'" using assms(2) by (simp add: l grid_of_def)
  moreover have "distinct (map (grid_cell resolution fallback) (placed @ [p]))"
    using assms(2) fresh by (auto simp: grid_of_def place_def)
  ultimately show ?thesis unfolding grid_of_def by blast
qed

lemma assemble_all:
  assumes "fold_r (assemble_event resolution fallback) later lanes = Inr lanes'"
    "grid_of resolution fallback placed lanes"
  shows "grid_of resolution fallback (placed @ later) lanes'"
  using assms
proof (induction later arbitrary: lanes placed)
  case (Cons p later)
  then obtain lanes1 where "assemble_event resolution fallback p lanes = Inr lanes1"
    "fold_r (assemble_event resolution fallback) later lanes1 = Inr lanes'"
    by (auto split: sum.splits)
  then show ?case
    using Cons.IH[of lanes1 "placed @ [p]"] assemble_step Cons.prems(2) by fastforce
qed simp

lemma retain_grid:
  assumes "retain_lane bindings name lanes = Inr lanes'" "grid_of resolution fallback placed lanes"
  shows "grid_of resolution fallback placed lanes'"
proof -
  have "cell lanes' place = cell lanes place" for place
    using assms(1) by (auto simp: retain_lane_def cell_def bt_contains_def split: if_splits option.splits)
  moreover have "bt_ok lanes'"
    using assms by (auto simp: retain_lane_def grid_of_def split: if_splits)
  ultimately show ?thesis using assms(2) by (simp add: grid_of_def)
qed

section \<open>Finishing the lanes\<close>

lemma key_position_nth: "key_position ks k = Some n \<Longrightarrow> n < length ks \<and> ks ! n = k"
  by (induction ks k arbitrary: n rule: key_position.induct) (auto split: if_splits)

definition lane_entry :: "bindings \<Rightarrow> unicode_string \<times> (nat, StepEvent) btree \<Rightarrow> StepLaneId \<Rightarrow> StepLane \<Rightarrow> bool" where
  "lane_entry bindings entry i lane \<longleftrightarrow> (\<exists>ordinal target.
     key_position (bt_keys bindings) (fst entry) = Some ordinal \<and> bt_get bindings (fst entry) = Some target
     \<and> i = Id (ordinal + 1) \<and> lane = \<lparr>sl_id = i, sl_name = fst entry, sl_target = target,
          sl_choke_group = None, sl_steps = snd entry\<rparr>)"

lemma finish_lane_entry:
  "finish_lane bindings entry lanes = Inr lanes'
    \<longleftrightarrow> (\<exists>i lane. lane_entry bindings entry i lane \<and> lanes' = bt_insert i lane lanes)"
  by (auto simp: finish_lane_def lane_entry_def result_simps Let_def)

lemma lane_entry_names:
  assumes "lane_entry bindings a i lane" "lane_entry bindings b i lane'"
  shows "fst a = fst b"
  using assms by (auto simp: lane_entry_def dest!: key_position_nth)

lemma finish_lanes:
  assumes "fold_r (finish_lane bindings) entries lanes = Inr lanes'"
    "distinct (map fst (before @ entries))" "bt_ok lanes"
    "\<And>i lane. bt_get lanes i = Some lane \<longleftrightarrow> (\<exists>entry \<in> set before. lane_entry bindings entry i lane)"
    "\<forall>entry \<in> set before. \<exists>i lane. lane_entry bindings entry i lane"
  shows "bt_ok lanes' \<and> (\<forall>i lane. bt_get lanes' i = Some lane
      \<longleftrightarrow> (\<exists>entry \<in> set (before @ entries). lane_entry bindings entry i lane))
    \<and> (\<forall>entry \<in> set (before @ entries). \<exists>i lane. lane_entry bindings entry i lane)"
  using assms
proof (induction entries arbitrary: lanes before)
  case (Cons entry entries)
  then obtain lanes1 where r: "finish_lane bindings entry lanes = Inr lanes1"
    "fold_r (finish_lane bindings) entries lanes1 = Inr lanes'"
    by (auto split: sum.splits)
  then obtain i lane where e: "lane_entry bindings entry i lane" "lanes1 = bt_insert i lane lanes"
    using finish_lane_entry by blast
  have functional: "lane_entry bindings entry j l \<longleftrightarrow> j = i \<and> l = lane" for j l
    using e(1) by (auto simp: lane_entry_def)
  have apart: "\<not> lane_entry bindings b i l" if "b \<in> set before" for b l
    using lane_entry_names[OF e(1)] that Cons.prems(2) by (metis (no_types, lifting) Cons.prems(2)
      append.assoc distinct_append disjoint_iff imageI list.set_intros(1) map_append list.set_map)
  have "bt_get lanes1 j = Some l \<longleftrightarrow> (\<exists>b \<in> set (before @ [entry]). lane_entry bindings b j l)" for j l
    unfolding e(2) using Cons.prems(4)[of j l] functional apart by auto
  from Cons.IH[OF r(2) _ _ this] show ?case
    using Cons.prems(2,3,5) e by auto
qed simp


section \<open>The rendered pattern\<close>

text \<open>The term under the outermost swing, and a step of the pattern by lane name and index.\<close>

definition pattern_core :: "PatternExpr \<Rightarrow> PatternExpr" where
  "pattern_core e = (case e of Swing _ inner \<Rightarrow> inner | _ \<Rightarrow> e)"

definition pattern_step :: "StepPattern \<Rightarrow> unicode_string \<times> nat \<Rightarrow> StepEvent \<Rightarrow> bool" where
  "pattern_step pattern place s \<longleftrightarrow> (\<exists>i lane. bt_get (sp_lanes pattern) i = Some lane
     \<and> sl_name lane = fst place \<and> bt_get (sl_steps lane) (snd place) = Some s)"

lemma eval_steps_parts:
  assumes "eval_steps e context = Inr out"
  obtains events placed lanes kept resolution fallback where
    "0 < ec_cycle context" "int (ec_cycle context) \<le> i64_max"
    "eval_norm (pattern_core e) (ec_cycle_index context) = Inr events"
    "fold_r (place_event (ec_cycle context)) events ([], []) = Inr (placed, eo_diagnostics out)"
    "grid_choice (ec_cycle context) placed = (resolution, fallback)"
    "fold_r (assemble_event resolution fallback) placed [] = Inr lanes"
    "fold_r (retain_lane (ec_bindings context)) (referenced_bindings e) lanes = Inr kept"
    "fold_r (finish_lane (ec_bindings context)) kept [] = Inr (sp_lanes (eo_pattern out))"
    "sp_resolution (eo_pattern out) = resolution" "unit_value (sp_swing (eo_pattern out))"
proof -
  from assms have c: "0 < ec_cycle context" "int (ec_cycle context) \<le> i64_max"
    by (auto simp: eval_steps_def Let_def split: if_splits)
  then have run: "(ec_cycle context = 0 \<or> i64_max < int (ec_cycle context)) = False" by simp
  from assms obtain sc events pd lanes kept finished where r:
    "(case e of
             Swing amount inner \<Rightarrow>
               if \<not> unit_value amount then eval_fails (InvalidParameter ''swing amount'')
               else Inr (amount, inner)
           | other \<Rightarrow> Inr (0, other)) = Inr sc"
    "eval_norm (snd sc) (ec_cycle_index context) = Inr events"
    "fold_r (place_event (ec_cycle context)) events ([], []) = Inr pd"
    "fold_r (assemble_event (fst (grid_choice (ec_cycle context) (fst pd)))
       (snd (grid_choice (ec_cycle context) (fst pd)))) (fst pd) [] = Inr lanes"
    "fold_r (retain_lane (ec_bindings context)) (referenced_bindings e) lanes = Inr kept"
    "fold_r (finish_lane (ec_bindings context)) kept [] = Inr finished"
    "\<lparr>eo_pattern = \<lparr>sp_resolution = fst (grid_choice (ec_cycle context) (fst pd)), sp_swing = fst sc,
       sp_lanes = finished\<rparr>, eo_diagnostics = snd pd\<rparr> = out"
    unfolding eval_steps_def Let_def case_prod_beta run if_False bind_r_eq_Inr sum.inject by blast
  have core: "snd sc = pattern_core e" "unit_value (fst sc)"
    using r(1) by (auto simp: pattern_core_def split: PatternExpr.splits if_splits)
  have "fold_r (place_event (ec_cycle context)) events ([], []) = Inr (fst pd, eo_diagnostics out)"
    using r(3,7) by auto
  then show thesis
    by (rule that[OF c r(2)[unfolded core(1)] _ prod.collapse[symmetric] r(4,5)])
      (use r core in auto)
qed

lemma key_order_ok: "bt_ok m \<Longrightarrow> distinct (map fst m)"
  by (rule bt_ok_distinct)

lemma fold_retain_grid:
  assumes "fold_r (retain_lane bindings) names lanes = Inr kept" "grid_of resolution fallback placed lanes"
  shows "grid_of resolution fallback placed kept"
  by (rule fold_r_invariant[OF assms(1)]) (use assms(2) retain_grid in blast)+

lemma finished_cells:
  assumes "fold_r (finish_lane bindings) kept [] = Inr (sp_lanes pattern)" "bt_ok kept"
  shows "pattern_step pattern place s \<longleftrightarrow> cell kept place = Some s"
proof -
  have f: "\<And>i lane. bt_get (sp_lanes pattern) i = Some lane
      \<longleftrightarrow> (\<exists>entry \<in> set kept. lane_entry bindings entry i lane)"
    "\<forall>entry \<in> set kept. \<exists>i lane. lane_entry bindings entry i lane"
    using finish_lanes[OF assms(1), of "[]"] bt_ok_distinct[OF assms(2)] by simp_all
  have shape: "sl_name lane = fst entry" "sl_steps lane = snd entry"
    if "lane_entry bindings entry i lane" for entry i lane
    using that by (auto simp: lane_entry_def)
  show ?thesis
  proof
    assume "pattern_step pattern place s"
    then obtain i lane entry where e: "entry \<in> set kept" "lane_entry bindings entry i lane"
      "sl_name lane = fst place" "bt_get (sl_steps lane) (snd place) = Some s"
      unfolding pattern_step_def f by blast
    then have "bt_get kept (fst entry) = Some (snd entry)" by (simp add: bt_get_iff[OF assms(2)])
    then show "cell kept place = Some s"
      using e(3,4) shape[OF e(2)] by (simp add: cell_def)
  next
    assume "cell kept place = Some s"
    then obtain steps where s: "bt_get kept (fst place) = Some steps" "bt_get steps (snd place) = Some s"
      by (auto simp: cell_def split: option.splits)
    then have "(fst place, steps) \<in> set kept" using bt_get_Some_in by fast
    then obtain i lane where "lane_entry bindings (fst place, steps) i lane" using f(2) by blast
    then show "pattern_step pattern place s"
      unfolding pattern_step_def f using shape s \<open>(fst place, steps) \<in> set kept\<close> by fastforce
  qed
qed

text \<open>What a step of the grid says of the event it renders.\<close>

definition renders :: "nat \<Rightarrow> nat \<Rightarrow> AbstractEvent \<Rightarrow> unicode_string \<times> nat \<Rightarrow> StepEvent \<Rightarrow> bool" where
  "renders cycle resolution e place s \<longleftrightarrow> fst place = ae_lane e
     \<and> \<bar>of_int (int (snd place) * int resolution + se_micro_offset s) - ratv (ae_position e) * of_nat cycle\<bar> \<le> 1 / 2
     \<and> 0 < se_gate s \<and> \<bar>of_nat (se_gate s) - ratv (ae_width e) * of_nat cycle\<bar> < 1
     \<and> se_velocity s = ae_velocity e \<and> se_probability s = ae_probability e
     \<and> se_ratchets s = ae_ratchets e \<and> se_pitch_semitones s = 0 \<and> se_pan s = 0"

lemma grid_renders:
  "placed_as cycle e p \<Longrightarrow> renders cycle resolution e (grid_cell resolution fallback p) (grid_step resolution fallback p)"
  by (simp add: placed_as_def renders_def grid_cell_def grid_step_def)

lemma rendered_pattern:
  assumes "eval_steps e context = Inr out"
    and "eval_norm (pattern_core e) (ec_cycle_index context) = Inr events"
  shows "\<exists>places. list_all2 (\<lambda>event place. \<exists>s. pattern_step (eo_pattern out) place s
        \<and> renders (ec_cycle context) (sp_resolution (eo_pattern out)) event place s) events places
      \<and> distinct places \<and> set places = {place. \<exists>s. pattern_step (eo_pattern out) place s}"
proof -
  obtain placed lanes kept resolution fallback where r: "0 < ec_cycle context"
    "fold_r (place_event (ec_cycle context)) events ([], []) = Inr (placed, eo_diagnostics out)"
    "fold_r (assemble_event resolution fallback) placed [] = Inr lanes"
    "fold_r (retain_lane (ec_bindings context)) (referenced_bindings e) lanes = Inr kept"
    "fold_r (finish_lane (ec_bindings context)) kept [] = Inr (sp_lanes (eo_pattern out))"
    "sp_resolution (eo_pattern out) = resolution"
    using eval_steps_parts[OF assms(1)] assms(2) by (metis sum.inject(2))
  have w: "\<forall>e \<in> set events. 0 < ratv (ae_width e)"
    using eval_norm_inside[OF assms(2)] by (simp add: event_sound_def)
  have placed: "list_all2 (placed_as (ec_cycle context)) events placed"
    using place_events[OF r(2,1) w] by simp
  have "grid_of resolution fallback [] []" by (simp add: grid_of_def cell_def)
  then have "grid_of resolution fallback placed lanes" using assemble_all[OF r(3)] by fastforce
  then have grid: "grid_of resolution fallback placed kept" by (rule fold_retain_grid[OF r(4)])
  then have steps: "pattern_step (eo_pattern out) place s \<longleftrightarrow> (\<exists>p \<in> set placed.
      grid_cell resolution fallback p = place \<and> grid_step resolution fallback p = s)" for place s
    using finished_cells[OF r(5)] unfolding grid_of_def by blast
  let ?places = "map (grid_cell resolution fallback) placed"
  have "list_all2 (\<lambda>event place. \<exists>s. pattern_step (eo_pattern out) place s
        \<and> renders (ec_cycle context) (sp_resolution (eo_pattern out)) event place s) events ?places"
    unfolding list_all2_map2 r(6)
  proof (rule list.rel_mono_strong[OF placed])
    fix event p assume "p \<in> set placed" "placed_as (ec_cycle context) event p"
    then show "\<exists>s. pattern_step (eo_pattern out) (grid_cell resolution fallback p) s
        \<and> renders (ec_cycle context) resolution event (grid_cell resolution fallback p) s"
      using grid_renders steps by blast
  qed
  moreover have "distinct ?places" using grid by (simp add: grid_of_def)
  moreover have "set ?places = {place. \<exists>s. pattern_step (eo_pattern out) place s}"
    unfolding steps set_map image_def by blast
  ultimately show ?thesis by blast
qed

end
