(* ===== verification/Sequencer_State.thy ===== *)
theory Sequencer_State
  imports Pattern_Eval Pattern_Text History
begin

text \<open>
  The sequencer (\<open>src/src/sequencer.rs\<close>): validation of patterns and clips, the equality its
  commands compare by, the reversible commands with their transaction, the bounded undo history
  and the allocators of identifiers.
\<close>

section \<open>Validation\<close>

definition notes_validate :: "PatternId \<Rightarrow> BeatDuration \<Rightarrow> NotePattern \<Rightarrow> SequencerError + unit" where
  "notes_validate pid len notes =
     for_each (\<lambda>(i, note). then_r (fail_if (i \<noteq> ne_id note \<or> int len \<le> ne_start note) (InvalidPattern pid))
       (note_validate note)) notes"

definition steps_validate :: "PatternId \<Rightarrow> BeatDuration \<Rightarrow> StepPattern \<Rightarrow> SequencerError + unit" where
  "steps_validate pid len pattern =
     then_r (fail_if (sp_resolution pattern = 0 \<or> \<not> unit_value (sp_swing pattern)) (InvalidPattern pid))
     (for_each (\<lambda>(i, lane).
         then_r (fail_if (i \<noteq> sl_id lane) (InvalidPattern pid))
         (for_each (\<lambda>(step, event).
             fail_if (len \<le> step * sp_resolution pattern \<or> \<not> step_validate event) (InvalidPattern pid))
           (sl_steps lane)))
       (sp_lanes pattern))"

text \<open>An error that cannot be a panic, as a value of a function that may panic.\<close>

definition lift_error :: "'e + 'a \<Rightarrow> 'e fault + 'a" where
  "lift_error r = (case r of Inl e \<Rightarrow> Inl (Failed e) | Inr a \<Rightarrow> Inr a)"

text \<open>\<open>map_err(|_| e)\<close>.\<close>

definition replace_error :: "'e \<Rightarrow> 'd fault + 'a \<Rightarrow> 'e fault + 'a" where
  "replace_error e r = (case r of Inl Panicked \<Rightarrow> Inl Panicked | Inl (Failed _) \<Rightarrow> Inl (Failed e) | Inr a \<Rightarrow> Inr a)"

definition expression_validate :: "float_text \<Rightarrow> PatternDefinition \<Rightarrow> SequencerError fault + unit" where
  "expression_validate debug p = (case pd_origin p of
       Expression source term_fp bindings_fp bindings _ \<Rightarrow>
         bind_r (replace_error (InvalidPattern (pd_id p)) (parse source)) (\<lambda>t.
         if term_hash debug t \<noteq> term_fp \<or> bindings_hash bindings \<noteq> bindings_fp
           \<or> \<not> list_all (bt_contains bindings) (referenced_bindings t)
           \<or> (case pd_content p of Steps _ \<Rightarrow> False | Notes _ \<Rightarrow> True)
         then Inl (Failed (InvalidPattern (pd_id p)))
         else bind_r (replace_error (InvalidPattern (pd_id p))
             (eval_steps t \<lparr>ec_bindings = bindings, ec_cycle = pd_length p, ec_seed = 0, ec_cycle_index = 0\<rparr>))
           (\<lambda>_. Inr ()))
     | _ \<Rightarrow> Inr ())"

definition pattern_validate :: "float_text \<Rightarrow> PatternDefinition \<Rightarrow> SequencerError fault + unit" where
  "pattern_validate debug p =
     (if pd_length p = 0 \<or> i64_max < int (pd_length p) then Inl (Failed (InvalidPattern (pd_id p)))
      else then_r (expression_validate debug p)
        (lift_error (case pd_content p of
             Notes notes \<Rightarrow> notes_validate (pd_id p) (pd_length p) notes
           | Steps pattern \<Rightarrow> steps_validate (pd_id p) (pd_length p) pattern)))"

section \<open>Equality\<close>

text \<open>
  \<open>PartialEq\<close> of patterns and clips: field by field, floats by \<open>==\<close>. Two floats are equal when
  neither is a NaN and their representatives agree (\<open>f32_eq_canon\<close>), so two values are equal
  when their representatives agree and they hold no NaN.
\<close>

definition points_canon :: "ExpressionPoint list \<Rightarrow> ExpressionPoint list" where
  "points_canon = map (\<lambda>p. \<lparr>ep_position = f32_canon (ep_position p), ep_value = f32_canon (ep_value p)\<rparr>)"

definition expression_canon :: "PerNoteExpression \<Rightarrow> PerNoteExpression" where
  "expression_canon e = \<lparr>pe_pitch_cents = points_canon (pe_pitch_cents e),
     pe_pressure = points_canon (pe_pressure e), pe_timbre = points_canon (pe_timbre e)\<rparr>"

definition note_canon :: "NoteEvent \<Rightarrow> NoteEvent" where
  "note_canon n = n\<lparr>ne_pitch := (ne_pitch n)\<lparr>np_cents := f32_canon (np_cents (ne_pitch n))\<rparr>,
     ne_velocity := f32_canon (ne_velocity n), ne_release_velocity := f32_canon (ne_release_velocity n),
     ne_pan := f32_canon (ne_pan n), ne_probability := f32_canon (ne_probability n),
     ne_expression := expression_canon (ne_expression n)\<rparr>"

definition step_canon :: "StepEvent \<Rightarrow> StepEvent" where
  "step_canon s = s\<lparr>se_velocity := f32_canon (se_velocity s), se_probability := f32_canon (se_probability s),
     se_pitch_semitones := f32_canon (se_pitch_semitones s), se_pan := f32_canon (se_pan s)\<rparr>"

definition lane_canon :: "StepLane \<Rightarrow> StepLane" where
  "lane_canon l = l\<lparr>sl_steps := bt_map (\<lambda>_. step_canon) (sl_steps l)\<rparr>"

fun pattern_content_canon :: "PatternContent \<Rightarrow> PatternContent" where
  "pattern_content_canon (Notes notes) = Notes (bt_map (\<lambda>_. note_canon) notes)"
| "pattern_content_canon (Steps p) = Steps \<lparr>sp_resolution = sp_resolution p, sp_swing = f32_canon (sp_swing p),
     sp_lanes = bt_map (\<lambda>_. lane_canon) (sp_lanes p)\<rparr>"

definition pattern_canon :: "PatternDefinition \<Rightarrow> PatternDefinition" where
  "pattern_canon p = p\<lparr>pd_content := pattern_content_canon (pd_content p)\<rparr>"

definition pattern_clip_canon :: "PatternClip \<Rightarrow> PatternClip" where
  "pattern_clip_canon c = c\<lparr>pc_transpose_semitones := f32_canon (pc_transpose_semitones c),
     pc_gain := f32_canon (pc_gain c)\<rparr>"

text \<open>No float of the value is a NaN.\<close>

definition points_numbers :: "ExpressionPoint list \<Rightarrow> bool" where
  "points_numbers = list_all (\<lambda>p. \<not> f32_is_nan (ep_position p) \<and> \<not> f32_is_nan (ep_value p))"

definition note_numbers :: "NoteEvent \<Rightarrow> bool" where
  "note_numbers n \<longleftrightarrow> \<not> f32_is_nan (np_cents (ne_pitch n)) \<and> \<not> f32_is_nan (ne_velocity n)
     \<and> \<not> f32_is_nan (ne_release_velocity n) \<and> \<not> f32_is_nan (ne_pan n)
     \<and> \<not> f32_is_nan (ne_probability n) \<and> points_numbers (pe_pitch_cents (ne_expression n))
     \<and> points_numbers (pe_pressure (ne_expression n)) \<and> points_numbers (pe_timbre (ne_expression n))"

definition step_numbers :: "StepEvent \<Rightarrow> bool" where
  "step_numbers s \<longleftrightarrow> \<not> f32_is_nan (se_velocity s) \<and> \<not> f32_is_nan (se_probability s)
     \<and> \<not> f32_is_nan (se_pitch_semitones s) \<and> \<not> f32_is_nan (se_pan s)"

fun content_numbers :: "PatternContent \<Rightarrow> bool" where
  "content_numbers (Notes notes) = list_all note_numbers (bt_values notes)"
| "content_numbers (Steps p) = (\<not> f32_is_nan (sp_swing p)
     \<and> list_all (\<lambda>l. list_all step_numbers (bt_values (sl_steps l))) (bt_values (sp_lanes p)))"

definition clip_numbers :: "PatternClip \<Rightarrow> bool" where
  "clip_numbers c \<longleftrightarrow> \<not> f32_is_nan (pc_transpose_semitones c) \<and> \<not> f32_is_nan (pc_gain c)"

definition pattern_content_eq :: "PatternContent \<Rightarrow> PatternContent \<Rightarrow> bool" where
  "pattern_content_eq a b \<longleftrightarrow> pattern_content_canon a = pattern_content_canon b \<and> content_numbers a \<and> content_numbers b"

definition pattern_eq :: "PatternDefinition \<Rightarrow> PatternDefinition \<Rightarrow> bool" where
  "pattern_eq a b \<longleftrightarrow> pd_id a = pd_id b \<and> pd_name a = pd_name b \<and> pd_length a = pd_length b
     \<and> pattern_content_eq (pd_content a) (pd_content b) \<and> pd_origin a = pd_origin b \<and> pd_revision a = pd_revision b"

definition pattern_clip_eq :: "PatternClip \<Rightarrow> PatternClip \<Rightarrow> bool" where
  "pattern_clip_eq a b \<longleftrightarrow> pattern_clip_canon a = pattern_clip_canon b \<and> clip_numbers a \<and> clip_numbers b"

section \<open>Commands\<close>

datatype SequencerCommand =
    PutPattern "PatternDefinition option" "PatternDefinition option"
  | PutClip "PatternClip option" "PatternClip option"
  | SetTempoMap TempoMap TempoMap

fun sequencer_inverse :: "SequencerCommand \<Rightarrow> SequencerCommand" where
  "sequencer_inverse (PutPattern before after) = PutPattern after before"
| "sequencer_inverse (PutClip before after) = PutClip after before"
| "sequencer_inverse (SetTempoMap before after) = SetTempoMap after before"

record HistoryEntry =
  he_label :: unicode_string
  he_forward :: "SequencerCommand list"
  he_backward :: "SequencerCommand list"

record Sequencer =
  sq_tempo_map :: TempoMap
  sq_patterns :: "(PatternId, PatternDefinition) btree"
  sq_clips :: "(PatternClipId, PatternClip) btree"
  sq_next_pattern_id :: nat
  sq_next_clip_id :: nat
  sq_next_note_id :: nat
  sq_next_lane_id :: nat
  sq_revision :: nat
  sq_history_limit :: nat
  sq_undo :: "HistoryEntry list"
  sq_redo :: "HistoryEntry list"

type_synonym 'a sequencer_result = "SequencerError fault + 'a"

definition sequencer_new :: "TempoMap \<Rightarrow> Sequencer" where
  "sequencer_new m = \<lparr>sq_tempo_map = m, sq_patterns = [], sq_clips = [], sq_next_pattern_id = 1,
     sq_next_clip_id = 1, sq_next_note_id = 1, sq_next_lane_id = 1, sq_revision = 0,
     sq_history_limit = 256, sq_undo = [], sq_redo = []\<rparr>"

definition clone_without_history :: "Sequencer \<Rightarrow> Sequencer" where
  "clone_without_history s = s\<lparr>sq_undo := [], sq_redo := []\<rparr>"

text \<open>\<open>keys().map(|id| id.get()).max()\<close> and \<open>max(maximum.saturating_add(1))\<close>.\<close>

definition largest_id :: "('t typed_id, 'v) btree \<Rightarrow> nat option" where
  "largest_id m = (if m = [] then None else Some (fold max (map raw (bt_keys m)) 0))"

definition bump :: "nat \<Rightarrow> nat \<Rightarrow> nat" where
  "bump counter i = max counter (sat_add_u64 i 1)"

definition bump_over :: "nat \<Rightarrow> nat option \<Rightarrow> nat" where
  "bump_over counter largest = (case largest of None \<Rightarrow> counter | Some i \<Rightarrow> bump counter i)"

text \<open>The guards that the two \<open>Put\<close> commands share: the identifier, if nothing is stale.\<close>

definition put_target ::
    "('v \<Rightarrow> 'v \<Rightarrow> bool) \<Rightarrow> ('v \<Rightarrow> 'k) \<Rightarrow> 'v option \<Rightarrow> 'v option \<Rightarrow> ('k, 'v) btree \<Rightarrow> SequencerError + 'k" where
  "put_target eq key before after m =
     bind_r (ok_or (case before of Some v \<Rightarrow> Some (key v) | None \<Rightarrow> map_option key after) EmptyCommand) (\<lambda>i.
     if (\<exists>v. after = Some v \<and> key v \<noteq> i) \<or> \<not> rel_option eq (bt_get m i) before
     then Inl StaleCommand else Inr i)"

fun apply_sequencer_command :: "SequencerCommand \<Rightarrow> Sequencer \<Rightarrow> SequencerError + Sequencer" where
  "apply_sequencer_command (PutPattern before after) s =
     bind_r (put_target pattern_eq pd_id before after (sq_patterns s)) (\<lambda>i.
     Inr (case after of
       None \<Rightarrow> s\<lparr>sq_patterns := bt_remove i (sq_patterns s)\<rparr>
     | Some p \<Rightarrow>
         let s = s\<lparr>sq_patterns := bt_insert i p (sq_patterns s),
                   sq_next_pattern_id := bump (sq_next_pattern_id s) (raw i)\<rparr>
         in case pd_content p of
              Notes notes \<Rightarrow> s\<lparr>sq_next_note_id := bump_over (sq_next_note_id s) (largest_id notes)\<rparr>
            | Steps steps \<Rightarrow>
                s\<lparr>sq_next_lane_id := bump_over (sq_next_lane_id s) (largest_id (sp_lanes steps))\<rparr>))"
| "apply_sequencer_command (PutClip before after) s =
     bind_r (put_target pattern_clip_eq pc_id before after (sq_clips s)) (\<lambda>i.
     Inr (case after of
       None \<Rightarrow> s\<lparr>sq_clips := bt_remove i (sq_clips s)\<rparr>
     | Some c \<Rightarrow> s\<lparr>sq_clips := bt_insert i c (sq_clips s),
                   sq_next_clip_id := bump (sq_next_clip_id s) (raw i)\<rparr>))"
| "apply_sequencer_command (SetTempoMap before after) s =
     (if sq_tempo_map s \<noteq> before then Inl StaleCommand else Inr (s\<lparr>sq_tempo_map := after\<rparr>))"

definition apply_sequencer_commands :: "SequencerCommand list \<Rightarrow> Sequencer \<Rightarrow> SequencerError + Sequencer" where
  "apply_sequencer_commands = fold_r apply_sequencer_command"

text \<open>A grid edit of a generated pattern marks its origin as diverged.\<close>

definition mark_diverged_after_manual_edit ::
    "PatternDefinition option \<Rightarrow> PatternDefinition \<Rightarrow> PatternDefinition" where
  "mark_diverged_after_manual_edit before after = (case before of
       None \<Rightarrow> after
     | Some b \<Rightarrow>
         if pd_length b = pd_length after \<and> pattern_content_eq (pd_content b) (pd_content after) then after
         else (case (pd_origin b, pd_origin after) of
             (Expression source1 term1 fp1 _ False, Expression source2 term2 fp2 bindings _) \<Rightarrow>
               if source1 = source2 \<and> term1 = term2 \<and> fp1 = fp2
               then after\<lparr>pd_origin := Expression source2 term2 fp2 bindings True\<rparr> else after
           | (Deprojected proposal1 False, Deprojected proposal2 _) \<Rightarrow>
               if proposal1 = proposal2 then after\<lparr>pd_origin := Deprojected proposal2 True\<rparr> else after
           | _ \<Rightarrow> after))"

fun prepare_divergence :: "SequencerCommand \<Rightarrow> SequencerCommand" where
  "prepare_divergence (PutPattern before (Some after)) =
     PutPattern before (Some (mark_diverged_after_manual_edit before after))"
| "prepare_divergence command = command"

definition prepare_pattern_divergence :: "SequencerCommand list \<Rightarrow> SequencerCommand list" where
  "prepare_pattern_divergence = map prepare_divergence"

section \<open>Validation of the whole\<close>

definition clip_fits :: "Sequencer \<Rightarrow> PatternClip \<Rightarrow> SequencerError + unit" where
  "clip_fits s c =
     bind_r (ok_or (bt_get (sq_patterns s) (pc_pattern c)) (MissingPattern (pc_pattern c))) (\<lambda>p.
     fail_if (int (pd_length p) \<le> pc_pattern_offset c
       \<or> \<not> pc_looped c \<and> int (pd_length p) < pc_pattern_offset c + int (pc_length c))
       (InvalidClip (pc_id c)))"

definition sequencer_validate :: "float_text \<Rightarrow> Sequencer \<Rightarrow> unit sequencer_result" where
  "sequencer_validate debug s =
     then_r (for_each (\<lambda>(i, p). then_r (fail_if (i \<noteq> pd_id p) (Failed (InvalidPattern i)))
         (pattern_validate debug p)) (sq_patterns s))
       (lift_error (for_each (\<lambda>(i, c). then_r (fail_if (i \<noteq> pc_id c) (InvalidClip i))
         (then_r (clip_validate c) (clip_fits s c))) (sq_clips s)))"

section \<open>Transactions\<close>

text \<open>The candidate a list of commands leads to, applied and validated on a clone.\<close>

definition candidate_of :: "float_text \<Rightarrow> SequencerCommand list \<Rightarrow> Sequencer \<Rightarrow> Sequencer sequencer_result" where
  "candidate_of debug commands s =
     bind_r (lift_error (apply_sequencer_commands commands (clone_without_history s))) (\<lambda>candidate.
     then_r (sequencer_validate debug candidate) (Inr candidate))"

definition publish :: "Sequencer \<Rightarrow> Sequencer \<Rightarrow> Sequencer" where
  "publish candidate s = s\<lparr>sq_tempo_map := sq_tempo_map candidate, sq_patterns := sq_patterns candidate,
     sq_clips := sq_clips candidate,
     sq_next_pattern_id := max (sq_next_pattern_id s) (sq_next_pattern_id candidate),
     sq_next_clip_id := max (sq_next_clip_id s) (sq_next_clip_id candidate),
     sq_next_note_id := max (sq_next_note_id s) (sq_next_note_id candidate),
     sq_next_lane_id := max (sq_next_lane_id s) (sq_next_lane_id candidate),
     sq_revision := sat_add_u64 (sq_revision s) 1\<rparr>"

text \<open>The mutating methods: an error leaves the sequencer as it was.\<close>

definition sequencer_execute ::
    "float_text \<Rightarrow> unicode_string \<Rightarrow> SequencerCommand list \<Rightarrow> Sequencer \<Rightarrow> Sequencer sequencer_result" where
  "sequencer_execute debug label commands s =
     (if commands = [] then Inr s
      else let commands = prepare_pattern_divergence commands
           in bind_r (candidate_of debug commands s) (\<lambda>candidate.
              let s = (publish candidate s)\<lparr>sq_redo := []\<rparr>
              in Inr (if sq_history_limit s = 0 then s
                 else s\<lparr>sq_undo := trim_front (sq_history_limit s) (sq_undo s @ [\<lparr>he_label = label,
                   he_forward = commands, he_backward = map sequencer_inverse (rev commands)\<rparr>])\<rparr>)))"

definition apply_without_history :: "float_text \<Rightarrow> SequencerCommand list \<Rightarrow> Sequencer \<Rightarrow> Sequencer sequencer_result" where
  "apply_without_history debug commands s =
     (if commands = [] then Inr s
      else bind_r (candidate_of debug (prepare_pattern_divergence commands) s) (\<lambda>candidate.
        Inr (candidate\<lparr>sq_revision := sat_add_u64 (sq_revision candidate) 1\<rparr>)))"

definition sequencer_undo :: "float_text \<Rightarrow> Sequencer \<Rightarrow> (Sequencer option) sequencer_result" where
  "sequencer_undo debug s =
     (if sq_undo s = [] then Inr None
      else let entry = last (sq_undo s)
           in bind_r (candidate_of debug (he_backward entry) s) (\<lambda>candidate.
              Inr (Some ((publish candidate s)\<lparr>sq_undo := butlast (sq_undo s), sq_redo := sq_redo s @ [entry]\<rparr>))))"

definition sequencer_redo :: "float_text \<Rightarrow> Sequencer \<Rightarrow> (Sequencer option) sequencer_result" where
  "sequencer_redo debug s =
     (if sq_redo s = [] then Inr None
      else let entry = last (sq_redo s)
           in bind_r (candidate_of debug (he_forward entry) s) (\<lambda>candidate.
              Inr (Some ((publish candidate s)\<lparr>sq_undo := sq_undo s @ [entry], sq_redo := butlast (sq_redo s)\<rparr>))))"

definition sequencer_set_history_limit :: "nat \<Rightarrow> Sequencer \<Rightarrow> Sequencer" where
  "sequencer_set_history_limit limit s = s\<lparr>sq_history_limit := limit, sq_undo := trim_front limit (sq_undo s),
     sq_redo := (if limit < length (sq_redo s) then drop (length (sq_redo s) - limit) (sq_redo s)
                 else sq_redo s)\<rparr>"

definition sequencer_undo_label :: "Sequencer \<Rightarrow> unicode_string option" where
  "sequencer_undo_label s = (if sq_undo s = [] then None else Some (he_label (last (sq_undo s))))"

definition sequencer_redo_label :: "Sequencer \<Rightarrow> unicode_string option" where
  "sequencer_redo_label s = (if sq_redo s = [] then None else Some (he_label (last (sq_redo s))))"

section \<open>Identifiers\<close>

record SequencerAllocatorState =
  sa_next_pattern_id :: nat
  sa_next_clip_id :: nat
  sa_next_note_id :: nat
  sa_next_lane_id :: nat

definition sequencer_allocator_state :: "Sequencer \<Rightarrow> SequencerAllocatorState" where
  "sequencer_allocator_state s = \<lparr>sa_next_pattern_id = sq_next_pattern_id s, sa_next_clip_id = sq_next_clip_id s,
     sa_next_note_id = sq_next_note_id s, sa_next_lane_id = sq_next_lane_id s\<rparr>"

text \<open>\<open>max().unwrap_or(0).saturating_add(1)\<close> over the identifiers in use.\<close>

definition after_largest :: "nat list \<Rightarrow> nat" where
  "after_largest ids = sat_add_u64 (fold max ids 0) 1"

definition note_ids :: "PatternDefinition \<Rightarrow> nat list" where
  "note_ids p = (case pd_content p of Notes notes \<Rightarrow> map raw (bt_keys notes) | Steps _ \<Rightarrow> [])"

definition lane_ids :: "PatternDefinition \<Rightarrow> nat list" where
  "lane_ids p = (case pd_content p of Steps steps \<Rightarrow> map raw (bt_keys (sp_lanes steps)) | Notes _ \<Rightarrow> [])"

definition required_allocators :: "Sequencer \<Rightarrow> SequencerAllocatorState" where
  "required_allocators s =
     \<lparr>sa_next_pattern_id = after_largest (map raw (bt_keys (sq_patterns s))),
      sa_next_clip_id = after_largest (map raw (bt_keys (sq_clips s))),
      sa_next_note_id = after_largest (concat (map note_ids (bt_values (sq_patterns s)))),
      sa_next_lane_id = after_largest (concat (map lane_ids (bt_values (sq_patterns s))))\<rparr>"

definition restore_allocator_state :: "SequencerAllocatorState \<Rightarrow> Sequencer \<Rightarrow> SequencerError + Sequencer" where
  "restore_allocator_state state s =
     (let required = required_allocators s
      in if sa_next_pattern_id state < sa_next_pattern_id required
            \<or> sa_next_clip_id state < sa_next_clip_id required
            \<or> sa_next_note_id state < sa_next_note_id required
            \<or> sa_next_lane_id state < sa_next_lane_id required
            \<or> sa_next_pattern_id state = 0 \<or> sa_next_clip_id state = 0
            \<or> sa_next_note_id state = 0 \<or> sa_next_lane_id state = 0
         then Inl InvalidAllocatorState
         else Inr (s\<lparr>sq_next_pattern_id := sa_next_pattern_id state, sq_next_clip_id := sa_next_clip_id state,
           sq_next_note_id := sa_next_note_id state, sq_next_lane_id := sa_next_lane_id state\<rparr>))"

definition allocate_pattern_id :: "Sequencer \<Rightarrow> PatternId \<times> Sequencer" where
  "allocate_pattern_id s = (Id (sq_next_pattern_id s),
     s\<lparr>sq_next_pattern_id := sat_add_u64 (sq_next_pattern_id s) 1\<rparr>)"

definition allocate_pattern_clip_id :: "Sequencer \<Rightarrow> PatternClipId \<times> Sequencer" where
  "allocate_pattern_clip_id s = (Id (sq_next_clip_id s), s\<lparr>sq_next_clip_id := sat_add_u64 (sq_next_clip_id s) 1\<rparr>)"

definition allocate_note_id :: "Sequencer \<Rightarrow> NoteId \<times> Sequencer" where
  "allocate_note_id s = (Id (sq_next_note_id s), s\<lparr>sq_next_note_id := sat_add_u64 (sq_next_note_id s) 1\<rparr>)"

definition allocate_step_lane_id :: "Sequencer \<Rightarrow> StepLaneId \<times> Sequencer" where
  "allocate_step_lane_id s = (Id (sq_next_lane_id s), s\<lparr>sq_next_lane_id := sat_add_u64 (sq_next_lane_id s) 1\<rparr>)"

end
