(* ===== verification/Pattern_Validate.thy ===== *)
theory Pattern_Validate
  imports Pattern_Steps Sequencer_State
begin

text \<open>
  The patterns the evaluator renders satisfy \<open>PatternDefinition::validate\<close>
  (\<open>src/src/sequencer.rs\<close>): the chosen grid, the steps of every lane, and the stored
  fingerprints.
\<close>

section \<open>The grid\<close>

lemma grid_divisor:
  "fold (\<lambda>e g. rat_gcd g (nat (pl_tick e))) placed cycle dvd cycle
    \<and> (\<forall>p \<in> set placed. fold (\<lambda>e g. rat_gcd g (nat (pl_tick e))) placed cycle dvd nat (pl_tick p))"
proof (induction placed arbitrary: cycle)
  case (Cons p placed)
  have "fold (\<lambda>e g. rat_gcd g (nat (pl_tick e))) placed (gcd cycle (nat (pl_tick p)))
      dvd gcd cycle (nat (pl_tick p))"
    using Cons.IH by blast
  then show ?case using Cons.IH[of "gcd cycle (nat (pl_tick p))"] by (auto simp: rat_gcd_gcd)
qed simp

text \<open>An exact grid hits every tick; the fallback grid has sixteen steps.\<close>

lemma grid_choice_exact:
  assumes "grid_choice cycle placed = (resolution, False)" "0 < cycle" "p \<in> set placed"
  shows "0 < resolution" "resolution dvd nat (pl_tick p)" "cycle div resolution \<le> 64" "resolution dvd cycle"
proof -
  define g where "g = fold (\<lambda>e g. rat_gcd g (nat (pl_tick e))) placed cycle"
  have d: "g dvd cycle" "g dvd nat (pl_tick p)"
    using grid_divisor[of placed cycle] assms(3) by (auto simp: g_def)
  then have "0 < g" using assms(2) by (auto intro: Nat.gr0I)
  then have "resolution = g" "cycle div g \<le> 64"
    using assms(1) by (auto simp: grid_choice_def g_def[symmetric] Let_def MAX_EXACT_STEPS_def max_def
        not_le less_Suc_eq split: if_splits)
  then show "0 < resolution" "resolution dvd nat (pl_tick p)" "cycle div resolution \<le> 64"
    "resolution dvd cycle"
    using \<open>0 < g\<close> d by simp_all
qed

lemma grid_choice_fallback:
  assumes "grid_choice cycle placed = (resolution, True)" "0 < cycle"
  shows "resolution = cycle div 16" "64 < cycle"
proof -
  have "64 < cycle div max 1 (fold (\<lambda>e g. rat_gcd g (nat (pl_tick e))) placed cycle)"
    and r: "resolution = max 1 (cycle div 16)"
    using assms(1) by (auto simp: grid_choice_def Let_def MAX_EXACT_STEPS_def FALLBACK_STEPS_def split: if_splits)
  then show c: "64 < cycle" by (meson div_le_dividend order_less_le_trans)
  show "resolution = cycle div 16" using c r by simp
qed

lemma grid_choice_positive:
  "grid_choice cycle placed = (resolution, fallback) \<Longrightarrow> 0 < resolution"
  by (auto simp: grid_choice_def Let_def split: if_splits)

lemma step_in_cycle:
  assumes choice: "grid_choice cycle placed = (resolution, fallback)" and "0 < cycle" "p \<in> set placed"
    and "nat (pl_tick p) < cycle"
  shows "step_slot resolution fallback p * resolution < cycle"
    "\<not> fallback \<Longrightarrow> step_slot resolution fallback p * resolution = nat (pl_tick p)"
proof -
  have exact: "step_slot resolution fallback p * resolution = nat (pl_tick p)" if "\<not> fallback"
  proof -
    note g = grid_choice_exact[OF _ assms(2,3), of resolution] 
    have "nat (pl_tick p) div resolution \<le> cycle div resolution" using assms(4) by (simp add: div_le_mono)
    then have "nat (pl_tick p) div resolution \<le> u32_max"
      using g(3) choice that by (simp add: u32_max_def)
    then show ?thesis using g(2) choice that by (simp add: step_slot_def)
  qed
  then show "\<not> fallback \<Longrightarrow> step_slot resolution fallback p * resolution = nat (pl_tick p)" .
  show "step_slot resolution fallback p * resolution < cycle"
  proof (cases fallback)
    case True
    then have c: "grid_choice cycle placed = (resolution, True)" using choice by simp
    note grid_choice_fallback[OF c assms(2)]
    moreover have "step_slot resolution fallback p \<le> 15"
      using True by (simp add: step_slot_def FALLBACK_STEPS_def Let_def)
    then have "step_slot resolution fallback p * resolution \<le> 15 * resolution" by (rule mult_le_mono1)
    moreover have "15 * (cycle div 16) < cycle" if "64 < cycle" using that by linarith
    ultimately show ?thesis by linarith
  qed (use exact assms(4) in simp)
qed

section \<open>Rendered patterns validate\<close>

lemma unit_bipolar [simp]: "bipolar_value 0"
  by (simp add: bipolar_value_def f32_le_def f32_key_def f32_neg_def f32_one_def f32_minus_one_def
      f32_is_nan_def f32_is_finite_def f32_exp_def f32_frac_def)

lemma grid_step_valid:
  assumes "placed_as cycle e p" "event_sound 0 1 e"
  shows "step_validate (grid_step resolution fallback p)"
  using assms by (simp add: step_validate_def grid_step_def placed_as_def event_sound_def)

lemma list_all2_right: "list_all2 P xs ys \<Longrightarrow> y \<in> set ys \<Longrightarrow> \<exists>x \<in> set xs. P x y"
  by (induction xs ys rule: list_all2_induct) auto

lemma retain_bound:
  "fold_r (retain_lane bindings) names lanes = Inr kept \<Longrightarrow> list_all (bt_contains bindings) names"
  by (induction names arbitrary: lanes) (auto simp: retain_lane_def split: if_splits sum.splits)

lemma set_bt_insert: "set (bt_insert k v m) \<subseteq> insert (k, v) (set m)"
  by (induction k v m rule: bt_insert.induct) auto

definition entries_from ::
    "(Placed \<Rightarrow> StepEvent) \<Rightarrow> (Placed \<Rightarrow> nat) \<Rightarrow> Placed set
      \<Rightarrow> (unicode_string, (nat, StepEvent) btree) btree \<Rightarrow> bool" where
  "entries_from f slot placed lanes \<longleftrightarrow> (\<forall>entry \<in> set lanes. \<forall>(step, event) \<in> set (snd entry).
     \<exists>p \<in> placed. step = slot p \<and> event = f p)"

lemma assemble_entry:
  assumes "assemble_event resolution fallback p lanes = Inr lanes'"
    "entries_from (grid_step resolution fallback) (step_slot resolution fallback) placed lanes"
  shows "entries_from (grid_step resolution fallback) (step_slot resolution fallback) (insert p placed) lanes'"
proof -
  define steps where "steps = (case bt_get lanes (pl_lane p) of None \<Rightarrow> [] | Some s \<Rightarrow> s)"
  let ?new = "bt_insert (step_slot resolution fallback p) (grid_step resolution fallback p) steps"
  have l: "lanes' = bt_insert (pl_lane p) ?new lanes"
    using assms(1) by (auto simp: assemble_event_def Let_def grid_step_def
        steps_def[symmetric] split: if_splits)
  have old: "\<forall>(step, event) \<in> set steps. \<exists>p \<in> placed. step = step_slot resolution fallback p
      \<and> event = grid_step resolution fallback p"
  proof (cases "bt_get lanes (pl_lane p)")
    case (Some found)
    then have "(pl_lane p, found) \<in> set lanes" by (rule bt_get_Some_in)
    then show ?thesis using assms(2) Some unfolding entries_from_def by (fastforce simp: steps_def)
  qed (simp add: steps_def)
  have now: "\<forall>(step, event) \<in> set ?new. \<exists>q \<in> insert p placed. step = step_slot resolution fallback q
      \<and> event = grid_step resolution fallback q"
  proof clarify
    fix step event assume "(step, event) \<in> set ?new"
    then have "(step, event) = (step_slot resolution fallback p, grid_step resolution fallback p)
        \<or> (step, event) \<in> set steps"
      using set_bt_insert by fastforce
    then show "\<exists>q \<in> insert p placed. step = step_slot resolution fallback q
        \<and> event = grid_step resolution fallback q"
      using old by auto
  qed
  show ?thesis
    unfolding entries_from_def
  proof
    fix entry assume "entry \<in> set lanes'"
    then have "entry \<in> insert (pl_lane p, ?new) (set lanes)"
      unfolding l by (rule subsetD[OF set_bt_insert])
    then have "entry = (pl_lane p, ?new) \<or> entry \<in> set lanes" by simp
    then show "\<forall>(step, event) \<in> set (snd entry). \<exists>q \<in> insert p placed.
        step = step_slot resolution fallback q \<and> event = grid_step resolution fallback q"
    proof
      assume "entry \<in> set lanes"
      from bspec[OF assms(2)[unfolded entries_from_def] this] show ?thesis by blast
    qed (use now in simp)
  qed
qed

lemma assemble_entries:
  assumes "fold_r (assemble_event resolution fallback) later lanes = Inr lanes'"
    "entries_from (grid_step resolution fallback) (step_slot resolution fallback) placed lanes"
  shows "entries_from (grid_step resolution fallback) (step_slot resolution fallback) (set later \<union> placed) lanes'"
  using assms
proof (induction later arbitrary: lanes placed)
  case (Cons p later)
  then obtain lanes1 where "assemble_event resolution fallback p lanes = Inr lanes1"
    "fold_r (assemble_event resolution fallback) later lanes1 = Inr lanes'"
    by (auto split: sum.splits)
  then show ?case
    using Cons.IH[of lanes1 "insert p placed"] assemble_entry[OF _ Cons.prems(2)] by simp
qed simp

lemma retain_entries:
  assumes "fold_r (retain_lane bindings) names lanes = Inr kept" "entries_from f slot placed lanes"
  shows "entries_from f slot placed kept"
proof (rule fold_r_invariant[OF assms(1)])
  fix name m m' assume "entries_from f slot placed m" "retain_lane bindings name m = Inr m'"
  then show "entries_from f slot placed m'"
    using set_bt_insert[of name "[]" m] by (fastforce simp: retain_lane_def entries_from_def split: if_splits)
qed (rule assms(2))

lemma rendered_steps_validate:
  assumes eval: "eval_steps e context = Inr out"
    and events: "eval_norm (pattern_core e) (ec_cycle_index context) = Inr events"
    and early: "\<forall>event \<in> set events. ratv (ae_position event) * of_nat (ec_cycle context) + 1 / 2
      < of_nat (ec_cycle context)"
  shows "steps_validate pid (ec_cycle context) (eo_pattern out) = Inr ()"
    "list_all (bt_contains (ec_bindings context)) (referenced_bindings e)"
proof -
  obtain placed lanes kept resolution fallback where r: "0 < ec_cycle context"
    "fold_r (place_event (ec_cycle context)) events ([], []) = Inr (placed, eo_diagnostics out)"
    "grid_choice (ec_cycle context) placed = (resolution, fallback)"
    "fold_r (assemble_event resolution fallback) placed [] = Inr lanes"
    "fold_r (retain_lane (ec_bindings context)) (referenced_bindings e) lanes = Inr kept"
    "fold_r (finish_lane (ec_bindings context)) kept [] = Inr (sp_lanes (eo_pattern out))"
    "sp_resolution (eo_pattern out) = resolution" "unit_value (sp_swing (eo_pattern out))"
    using eval_steps_parts[OF eval] events by (metis sum.inject(2))
  have sound: "events_sound events" by (rule eval_norm_inside[OF events])
  then have "\<forall>e \<in> set events. 0 < ratv (ae_width e)" by (simp add: event_sound_def)
  then have placed: "list_all2 (placed_as (ec_cycle context)) events placed"
    using place_events[OF r(2,1)] by simp
  have valid: "step_slot resolution fallback p * resolution < ec_cycle context"
    "step_validate (grid_step resolution fallback p)" if p: "p \<in> set placed" for p
  proof -
    obtain event where e: "event \<in> set events" "placed_as (ec_cycle context) event p"
      using list_all2_right[OF placed p] by blast
    have "of_int (pl_tick p) - ratv (ae_position event) * of_nat (ec_cycle context) \<le> 1 / 2"
      using e(2) abs_le_D1 unfolding placed_as_def by blast
    then have "of_int (pl_tick p) < (of_nat (ec_cycle context) :: rat)"
      using bspec[OF early e(1)] by linarith
    then have "nat (pl_tick p) < ec_cycle context" using e(2) r(1) by (simp add: placed_as_def) linarith
    then show "step_slot resolution fallback p * resolution < ec_cycle context"
      by (rule step_in_cycle(1)[OF r(3,1) p])
    show "step_validate (grid_step resolution fallback p)"
      using grid_step_valid e sound by blast
  qed
  have "grid_of resolution fallback [] []" by (simp add: grid_of_def cell_def)
  then have "grid_of resolution fallback placed lanes" using assemble_all[OF r(4)] by fastforce
  then have grid: "grid_of resolution fallback placed kept" by (rule fold_retain_grid[OF r(5)])
  then have kept: "bt_ok kept" by (simp add: grid_of_def)
  have ok: "bt_ok (sp_lanes (eo_pattern out))" and lanes: "\<And>i lane. bt_get (sp_lanes (eo_pattern out)) i = Some lane
      \<Longrightarrow> \<exists>entry \<in> set kept. lane_entry (ec_bindings context) entry i lane"
    using finish_lanes[OF r(6), of "[]"] bt_ok_distinct[OF kept] by simp_all
  show "list_all (bt_contains (ec_bindings context)) (referenced_bindings e)"
    by (rule retain_bound[OF r(5)])
  have "entries_from (grid_step resolution fallback) (step_slot resolution fallback) (set placed) kept"
    by (rule retain_entries[OF r(5)]) (use assemble_entries[OF r(4), of "{}"] in \<open>simp add: entries_from_def\<close>)
  note sources = this
  have content: "fail_if (ec_cycle context \<le> step * resolution \<or> \<not> step_validate event) e = Inr ()"
    if entry: "entry \<in> set kept" "(step, event) \<in> set (snd entry)" for entry step event and e :: SequencerError
  proof -
    from bspec[OF sources[unfolded entries_from_def] entry(1)] entry(2)
    obtain p where "p \<in> set placed" "step = step_slot resolution fallback p"
      "event = grid_step resolution fallback p" by blast
    then show ?thesis using valid[of p] by (simp add: fail_if_eq_Inr not_le)
  qed
  show "steps_validate pid (ec_cycle context) (eo_pattern out) = Inr ()"
    unfolding steps_validate_def r(7) then_r_eq_Inr for_each_eq_Inr
  proof (intro conjI ballI)
    show "fail_if (resolution = 0 \<or> \<not> unit_value (sp_swing (eo_pattern out))) (InvalidPattern pid) = Inr ()"
      using r(8) grid_choice_positive[OF r(3)] by simp
  next
    fix x assume x: "x \<in> set (sp_lanes (eo_pattern out))"
    obtain i lane where il: "x = (i, lane)" by (cases x)
    then obtain entry where e: "entry \<in> set kept" "lane_entry (ec_bindings context) entry i lane"
      using lanes bt_get_iff[OF ok] x by blast
    then have "i = sl_id lane" "sl_steps lane = snd entry" by (auto simp: lane_entry_def)
    then show "(case x of (i, lane) \<Rightarrow> then_r (fail_if (i \<noteq> sl_id lane) (InvalidPattern pid))
        (for_each (\<lambda>(step, event). fail_if (ec_cycle context \<le> step * resolution \<or> \<not> step_validate event)
           (InvalidPattern pid)) (sl_steps lane))) = Inr ()"
      using content[OF e(1)] by (auto simp: il for_each_eq_Inr)
  qed
qed

end
