(* ===== verification/Pattern_Properties.thy ===== *)
theory Pattern_Properties
  imports Pattern_Parser Pattern_Print Pattern_Euclid Pattern_Validate
begin

text \<open>The properties of the pattern notation, each with a concrete instance.\<close>

section \<open>Parsing and printing\<close>

text \<open>
  C29. Parsing ends on every text: it gives a well-formed term, or an error whose offset lies
  within the text. The only panic is the negation of the literal \<open>-9223372036854775808\<close>.
\<close>

theorem parse_total:
  "case parse source of
     Inr t \<Rightarrow> expr_ok any_float t
   | Inl (Failed e) \<Rightarrow> offset e \<le> length (utf8 source)
   | Inl Panicked \<Rightarrow> min_literal (utf8 source)"
  by (rule parse_outcome)

text \<open>
  C30. The printed form of a parsed term parses back to it whenever every float of the term prints as
  a plain decimal (digits, a point, digits) that reads back exactly. The formatter of floats is the
  parameter \<open>debug\<close>; the condition is about the floats that occur in the term and it is needed: the
  number grammar has no exponent, while \<open>{:?}\<close> writes one for a float below 1e-4 or from 1e16 on.
\<close>

theorem canonical_print_roundtrip:
  assumes "parse source = Inr t" "\<forall>x \<in> expr_floats t. plain debug x"
  shows "parse (print_expr debug t) = Inr t"
proof (rule parse_printed)
  have "expr_ok any_float t" using parse_outcome[of source] assms(1) by simp
  then show "expr_ok (plain debug) t" using assms(2) by (subst expr_ok_floats) simp
qed

text \<open>
  A formatter for the witness: the value in hundredths, written with one or two digits after the
  point, as \<open>{:?}\<close> writes \<open>1.5\<close>, \<open>0.5\<close> and \<open>0.25\<close>.
\<close>

definition hundredths_text :: float_text where
  "hundredths_text x =
     (let h = f32_magnitude x * 100 div 2 ^ 149; tenths = h mod 100 div 10; rest = h mod 10
      in decimal (h div 100) @ 46 # (if rest = 0 then [48 + tenths] else [48 + tenths, 48 + rest]))"

lemma hundredths_plain:
  "plain hundredths_text 0x3fc00000" "plain hundredths_text 0x3f000000" "plain hundredths_text 0x3e800000"
proof -
  have out: "hundredths_text 0x3fc00000 = [49] @ 46 # [53]" "hundredths_text 0x3f000000 = [48] @ 46 # [53]"
    "hundredths_text 0x3e800000 = [48] @ 46 # [50, 53]"
    by (simp_all add: hundredths_text_def f32_magnitude_def f32_exp_def f32_frac_def decimal.simps Let_def)
  have read: "f32_of_decimal [49] [53] = 0x3fc00000" "f32_of_decimal [48] [53] = 0x3f000000"
    "f32_of_decimal [48] [50, 53] = 0x3e800000"
    by (simp_all add: f32_of_decimal_def digits_value_def f32_round_def f32_last_place_def bit_length.simps)
  show "plain hundredths_text 0x3fc00000" "plain hundredths_text 0x3f000000" "plain hundredths_text 0x3e800000"
    unfolding plain_def out by (rule exI conjI refl read | simp add: is_digit_def)+
qed

text \<open>\<open>gain(1.5, bd:1?0.5 [sd ~?0.25]*2)\<close>\<close>

definition sample_term :: PatternExpr where
  "sample_term = Gain 0x3fc00000 (Seq [Step (Name (ascii ''bd'') (Some 1)) ratio_one 1 1 (Some 0x3f000000) None,
     Step (Group [step_plain (Name (ascii ''sd'') None), Step Rest ratio_one 1 1 (Some 0x3e800000) None])
       ratio_one 1 2 None None])"

theorem canonical_print_roundtrip_witness:
  "parse (print_expr hundredths_text sample_term) = Inr sample_term"
proof -
  have "expr_ok (plain hundredths_text) sample_term"
    by (simp add: sample_term_def step_plain_def ratio_one_def hundredths_plain name_ok_def ascii_def
        is_lowercase_def is_ident_byte_def is_digit_def u32_ok_def u32_max_def)
  from parse_printed[OF this] show ?thesis
    by (rule canonical_print_roundtrip)
      (simp add: sample_term_def step_plain_def hundredths_plain)
qed

section \<open>Evaluation\<close>

text \<open>
  C31. Every event of an evaluated term lies inside the cycle with positive width, its velocity and
  probability between zero and one and its ratchets between one and 255.
\<close>

theorem events_inside_cycle:
  assumes "eval_norm t cycle = Inr events" "e \<in> set events"
  shows "0 \<le> ratv (ae_position e) \<and> 0 < ratv (ae_width e)
    \<and> ratv (ae_position e) + ratv (ae_width e) \<le> 1
    \<and> unit_value (ae_velocity e) \<and> unit_value (ae_probability e)
    \<and> 1 \<le> ae_ratchets e \<and> ae_ratchets e \<le> 255"
  using eval_norm_inside[OF assms(1)] assms(2) by (auto simp: event_sound_def)

definition kick :: Element where "kick = Name (ascii ''bd'') None"

definition kick_event :: "nat \<Rightarrow> nat \<Rightarrow> nat \<Rightarrow> AbstractEvent" where
  "kick_event n d w = \<lparr>ae_lane = ascii ''bd'', ae_position = Rational n d, ae_width = Rational 1 w,
     ae_velocity = f32_one, ae_probability = f32_one, ae_ratchets = 1\<rparr>"

lemmas evaluation_simps = eval_element.simps eval_seq.simps eval_slots.simps sequence_width_def
  add_width_def rat_new_def rat_checked_def rat_add_def rat_mul_def rat_div_def rat_scale_int_def
  rat_zero_def rat_one_def rat_gcd.simps step_plain_def ratio_one_def check_unit_def lane_key_def
  u64_max_def u128_max_def kick_def kick_event_def upt_rec

lemma two_kicks:
  "eval_norm (Seq [step_plain kick, step_plain kick]) 0 = Inr [kick_event 0 1 2, kick_event 1 2 2]"
  by (simp add: evaluation_simps)

theorem events_inside_cycle_witness:
  "0 < ratv (ae_width (kick_event 1 2 2))
    \<and> ratv (ae_position (kick_event 1 2 2)) + ratv (ae_width (kick_event 1 2 2)) \<le> 1"
  using events_inside_cycle[OF two_kicks, of "kick_event 1 2 2"] by simp

text \<open>
  C32. The Euclidean rhythm of \<open>hits\<close> in \<open>slots\<close> sounds exactly \<open>hits\<close> times, at the onsets
  \<open>ceiling (k * slots / hits)\<close> turned by the rotation, each as wide as a slot.
\<close>

theorem euclid_spreads_hits:
  assumes "eval_norm (Euclid hits slots rotation (Name b v)) cycle = Inr events"
  shows "length events = hits
    \<and> (\<lambda>e. ratv (ae_position e) * of_nat slots) ` set events
      = (\<lambda>k. of_int ((int (onset hits slots k) + rotation) mod int slots)) ` {..<hits}
    \<and> (\<forall>e \<in> set events. ratv (ae_width e) = 1 / of_nat slots)"
proof -
  note r = euclid_evaluation[OF assms]
  note h = hit_slots[OF r(1,2), of rotation]
  let ?js = "filter (euclid_hit hits slots rotation) [0..<slots]"
  have set: "set ?js = {j. j < slots \<and> euclid_hit hits slots rotation j}" by auto
  have "length events = length ?js" using arg_cong[OF r(3), of length] by simp
  also have "\<dots> = card (set ?js)" by (simp add: distinct_card[symmetric])
  finally have "length events = hits" unfolding set h(2) .
  moreover have "(\<lambda>e. ratv (ae_position e) * of_nat slots) ` set events
      = (\<lambda>x. x * of_nat slots) ` set (map (\<lambda>e. ratv (ae_position e)) events)"
    by (simp add: image_image)
  then have "(\<lambda>e. ratv (ae_position e) * of_nat slots) ` set events = of_nat ` set ?js"
    using r(1) by (simp only: r(3) list.set_map image_image) simp
  then have "(\<lambda>e. ratv (ae_position e) * of_nat slots) ` set events
      = (\<lambda>k. of_int ((int (onset hits slots k) + rotation) mod int slots)) ` {..<hits}"
    unfolding set h(1) image_image turned_def using r(1) by simp
  ultimately show ?thesis using r(4) by simp
qed

lemma tresillo_hits: "{..<3} = {0, 1, 2 :: nat}"
  by auto

lemma tresillo:
  "eval_norm (Euclid 3 8 1 kick) 0 = Inr [kick_event 1 8 8, kick_event 1 2 8, kick_event 7 8 8]"
  by (simp add: evaluation_simps euclid_hit_def)

theorem euclid_spreads_hits_witness:
  "length [kick_event 1 8 8, kick_event 1 2 8, kick_event 7 8 8] = 3
    \<and> {1, 4, 7} = (\<lambda>k. of_int ((int (onset 3 8 k) + 1) mod 8) :: rat) ` {..<3}"
  using euclid_spreads_hits[OF tresillo[unfolded kick_def]]
  by (simp add: kick_event_def ratv_def)

section \<open>The step grid\<close>

text \<open>
  C33. Every event of the term becomes exactly one step of the pattern, within half a tick of its
  exact position and with its velocity, probability and ratchets, and the pattern has no other
  steps.
\<close>

theorem steps_render_events:
  assumes "eval_steps t context = Inr out"
    and "eval_norm (pattern_core t) (ec_cycle_index context) = Inr events"
  shows "\<exists>places. list_all2 (\<lambda>event place. \<exists>s. pattern_step (eo_pattern out) place s
        \<and> renders (ec_cycle context) (sp_resolution (eo_pattern out)) event place s) events places
      \<and> distinct places \<and> set places = {place. \<exists>s. pattern_step (eo_pattern out) place s}"
  using assms by (rule rendered_pattern)

definition kick_context :: EvalContext where
  "kick_context = \<lparr>ec_bindings = [(ascii ''bd'', DrumPad 1 0)], ec_cycle = 1920, ec_seed = 0, ec_cycle_index = 0\<rparr>"

definition kick_step :: StepEvent where
  "kick_step = \<lparr>se_velocity = f32_one, se_probability = f32_one, se_micro_offset = 0, se_gate = 960,
     se_ratchets = 1, se_pitch_semitones = 0, se_pan = 0\<rparr>"

definition kick_pattern :: StepPattern where
  "kick_pattern = \<lparr>sp_resolution = 960, sp_swing = 0, sp_lanes = [(Id 1, \<lparr>sl_id = Id 1, sl_name = ascii ''bd'',
     sl_target = DrumPad 1 0, sl_choke_group = None, sl_steps = [(0, kick_step), (1, kick_step)]\<rparr>)]\<rparr>"

definition placed_kick :: "int \<Rightarrow> Placed" where
  "placed_kick tick = \<lparr>pl_lane = ascii ''bd'', pl_tick = tick, pl_gate = 960, pl_velocity = f32_one,
     pl_probability = f32_one, pl_ratchets = 1\<rparr>"

lemma kicks_placed:
  "fold_r (place_event 1920) [kick_event 0 1 2, kick_event 1 2 2] ([], [])
    = Inr ([placed_kick 0, placed_kick 960], [])"
  by (simp add: place_event_def round_ticks_def kick_event_def placed_kick_def i64_max_def)

lemma kicks_grid: "grid_choice 1920 [placed_kick 0, placed_kick 960] = (960, False)"
  by (simp add: grid_choice_def rat_gcd.simps placed_kick_def MAX_EXACT_STEPS_def)

lemma kicks_assembled:
  "fold_r (assemble_event 960 False) [placed_kick 0, placed_kick 960] []
    = Inr [(ascii ''bd'', [(0, kick_step), (1, kick_step)])]"
  by (simp add: assemble_event_def step_slot_def bt_contains_def bt_get_Cons placed_kick_def
      kick_step_def u32_max_def)

lemma kick_steps:
  "eval_steps (Seq [step_plain kick, step_plain kick]) kick_context
    = Inr \<lparr>eo_pattern = kick_pattern, eo_diagnostics = []\<rparr>"
proof -
  have names: "referenced_bindings (Seq [step_plain kick, step_plain kick]) = [ascii ''bd'']"
    by (simp add: referenced_bindings_def step_plain_def kick_def lane_key_def)
  show ?thesis
    unfolding eval_steps_def kick_context_def
    by (simp add: two_kicks kicks_placed kicks_grid kicks_assembled names i64_max_def del: eval_norm.simps
        fold_r.simps(2) One_nat_def)
      (simp add: retain_lane_def finish_lane_def bt_contains_def bt_get_Cons bt_keys_def Let_def
        kick_pattern_def)
qed

theorem steps_render_events_witness:
  "\<exists>places. list_all2 (\<lambda>event place. \<exists>s. pattern_step kick_pattern place s
        \<and> renders 1920 960 event place s) [kick_event 0 1 2, kick_event 1 2 2] places
      \<and> distinct places \<and> set places = {place. \<exists>s. pattern_step kick_pattern place s}"
  using steps_render_events[OF kick_steps, of "[kick_event 0 1 2, kick_event 1 2 2]"] two_kicks
  by (simp add: pattern_core_def kick_context_def kick_pattern_def)


text \<open>
  C34. A pattern evaluated from its text passes the validation of the library, with the fingerprints
  of the term and of its bindings, whenever no event rounds up to the end of the cycle.
\<close>

theorem evaluated_pattern_validates:
  assumes "parse source = Inr t"
    and "eval_steps t \<lparr>ec_bindings = bindings, ec_cycle = len, ec_seed = 0, ec_cycle_index = 0\<rparr> = Inr out"
    and "eval_norm (pattern_core t) 0 = Inr events"
    and "\<forall>event \<in> set events. ratv (ae_position event) * of_nat len + 1 / 2 < of_nat len"
  shows "pattern_validate debug \<lparr>pd_id = pid, pd_name = name, pd_length = len,
     pd_content = Steps (eo_pattern out),
     pd_origin = Expression source (term_hash debug t) (bindings_hash bindings) bindings diverged,
     pd_revision = revision\<rparr> = Inr ()"
proof -
  let ?ctx = "\<lparr>ec_bindings = bindings, ec_cycle = len, ec_seed = 0, ec_cycle_index = 0\<rparr>"
  note steps = rendered_steps_validate[OF assms(2), of events]
  have "0 < len" "int len \<le> i64_max"
    using eval_steps_parts[OF assms(2)] by (metis EvalContext.select_convs(2))+
  then show ?thesis
    using steps assms by (simp add: pattern_validate_def expression_validate_def replace_error_def lift_error_def)
qed

lemma kicks_parse: "parse (ascii ''bd bd'') = Inr (Seq [step_plain kick, step_plain kick])"
proof -
  have "expr_ok (plain hundredths_text) (Seq [step_plain kick, step_plain kick])"
    by (simp add: kick_def step_plain_def ratio_one_def name_ok_def ascii_def
        is_lowercase_def is_ident_byte_def is_digit_def u32_ok_def u32_max_def)
  from parse_printed[OF this] show ?thesis
    by (simp add: kick_def step_plain_def lane_key_def print_modifiers_def ascii_def)
qed

theorem evaluated_pattern_validates_witness:
  "pattern_validate hundredths_text \<lparr>pd_id = Id 7, pd_name = ascii ''kicks'', pd_length = 1920,
     pd_content = Steps kick_pattern,
     pd_origin = Expression (ascii ''bd bd'') (term_hash hundredths_text (Seq [step_plain kick, step_plain kick]))
       (bindings_hash [(ascii ''bd'', DrumPad 1 0)]) [(ascii ''bd'', DrumPad 1 0)] False,
     pd_revision = 1\<rparr> = Inr ()"
  using evaluated_pattern_validates[OF kicks_parse kick_steps[unfolded kick_context_def],
      of "[kick_event 0 1 2, kick_event 1 2 2]"] two_kicks
  by (simp add: pattern_core_def kick_event_def ratv_def)

end
