(* ===== verification/Sequencer_Schedule.thy ===== *)
theory Sequencer_Schedule
  imports Sequencer_State "HOL-Library.Product_Lexorder" "HOL-Library.Signed_Division"
begin

text \<open>
  Scheduling and note transforms of \<open>src/src/sequencer.rs\<close>: the repetitions of a clip that can
  sound in a window of ticks, the events of notes and steps at exact frames, the splitting of a
  callback block at loop wraps, and the seeded transforms of notes and steps. Where the code
  pushes to an output vector, a function here returns what it pushes.
\<close>

section \<open>Numbers\<close>

text \<open>Conversions between floats (\<open>as\<close>), and \<open>round() as i64\<close>.\<close>

definition f64_of_f32 :: "f32 \<Rightarrow> f64" where
  "f64_of_f32 v = (if f32_is_nan v then f64_nan else if f32_is_infinite v then f64_infinity (f32_neg v)
     else f64_round (f32_neg v) (f32_magnitude v) (2 ^ 149))"

definition f32_of_f64 :: "f64 \<Rightarrow> f32" where
  "f32_of_f64 v = (if f64_is_nan v then f32_nan else if f64_is_infinite v then f32_infinity (f64_neg v)
     else f32_round (f64_neg v) (f64_magnitude v) (2 ^ 1074))"

definition f64_of_i64 :: "int \<Rightarrow> f64" where
  "f64_of_i64 n = f64_round (n < 0) (nat \<bar>n\<bar>) 1"

definition clamp_int :: "int \<Rightarrow> int \<Rightarrow> int \<Rightarrow> int" where
  "clamp_int lo hi n = max lo (min hi n)"

definition f64_round_to_int :: "int \<Rightarrow> int \<Rightarrow> f64 \<Rightarrow> int" where
  "f64_round_to_int lo hi v =
     (if f64_is_nan v then 0 else if f64_is_infinite v then (if f64_neg v then lo else hi)
      else clamp_int lo hi (f64_nearest_int v))"

definition i32_min :: int where "i32_min = - 2147483648"
definition i32_max :: int where "i32_max = 2147483647"

definition f64_half :: f64 where "f64_half = 0x3fe0000000000000"
definition f64_two :: f64 where "f64_two = 0x4000000000000000"
definition f32_hundred :: f32 where "f32_hundred = 0x42c80000"

definition f64_lt :: "f64 \<Rightarrow> f64 \<Rightarrow> bool" where
  "f64_lt a b \<longleftrightarrow> f64_le a b \<and> \<not> f64_le b a"

text \<open>The wrapping cast of a \<open>u64\<close> to \<open>i64\<close>, and operators that panic on overflow.\<close>

definition cast_i64 :: "nat \<Rightarrow> int" where
  "cast_i64 n = (if int n \<le> i64_max then int n else int n - 2 ^ 64)"

definition exact_i64 :: "int \<Rightarrow> 'e fault + int" where
  "exact_i64 n = (if is_i64 n then Inr n else Inl Panicked)"

section \<open>Hashes\<close>

definition hash64 :: "64 word \<Rightarrow> 64 word" where
  "hash64 v0 =
     (let v1 = (v0 XOR drop_bit 30 v0) * 0xbf58476d1ce4e5b9;
          v2 = (v1 XOR drop_bit 27 v1) * 0x94d049bb133111eb
      in v2 XOR drop_bit 31 v2)"

definition unit_from_hash :: "64 word \<Rightarrow> f64" where
  "unit_from_hash v = f64_mul (f64_of_u64 (unat (drop_bit 11 (hash64 v)))) (f64_div f64_one (f64_of_u64 (2 ^ 53)))"

definition signed_unit :: "64 word \<Rightarrow> f64" where
  "signed_unit v = f64_sub (f64_mul (unit_from_hash v) f64_two) f64_one"

definition performance_identity :: "nat \<Rightarrow> nat \<Rightarrow> 64 word \<Rightarrow> int \<Rightarrow> nat \<Rightarrow> 64 word" where
  "performance_identity seed clip event cycle sub =
     hash64 (of_nat seed XOR word_rotl 11 (of_nat clip) XOR word_rotl 29 event
       XOR word_rotl 43 (of_int cycle) XOR of_nat sub)"

definition passes_probability :: "f32 \<Rightarrow> 64 word \<Rightarrow> bool" where
  "passes_probability p identity \<longleftrightarrow> f32_le f32_one p
     \<or> f32_le 0 p \<and> \<not> f32_le p 0 \<and> f64_lt (unit_from_hash identity) (f64_of_f32 p)"

section \<open>Transforms\<close>

record QuantizeSpec =
  qs_grid :: BeatDuration
  qs_strength :: f32

record HumanizeSpec =
  hs_maximum_ticks :: int
  hs_maximum_velocity_delta :: f32
  hs_seed :: nat

record SwingSpec =
  ws_grid :: BeatDuration
  ws_amount :: f32

definition nearest_grid :: "int \<Rightarrow> int \<Rightarrow> int" where
  "nearest_grid v grid =
     sat_i64 (sat_i64 (v div grid + (if grid \<le> sat_i64 (v mod grid * 2) then 1 else 0)) * grid)"

definition quantize_notes :: "NotePattern \<Rightarrow> QuantizeSpec \<Rightarrow> SequencerError + NotePattern" where
  "quantize_notes notes spec =
     (if qs_grid spec = 0 \<or> \<not> unit_value (qs_strength spec) then Inl InvalidTransform
      else let grid = min (int (qs_grid spec)) i64_max
           in Inr (bt_map (\<lambda>_ n.
                let nearest = nearest_grid (ne_start n) grid;
                    delta = f64_mul (f64_of_i64 (sat_i64 (nearest - ne_start n))) (f64_of_f32 (qs_strength spec))
                in n\<lparr>ne_start := max 0 (sat_i64 (ne_start n + f64_round_to_int i64_min i64_max delta))\<rparr>) notes))"

definition invalid_humanize :: "HumanizeSpec \<Rightarrow> bool" where
  "invalid_humanize spec \<longleftrightarrow> hs_maximum_ticks spec < 0 \<or> \<not> unit_value (hs_maximum_velocity_delta spec)"

definition humanized_offset :: "HumanizeSpec \<Rightarrow> 64 word \<Rightarrow> int \<Rightarrow> int" where
  "humanized_offset spec identity ticks =
     (let timing = signed_unit (hash64 (of_nat (hs_seed spec) XOR identity XOR 0xa8f901e4))
      in clamp_int i32_min i32_max (ticks
           + f64_round_to_int i32_min i32_max (f64_mul timing (f64_of_i64 (hs_maximum_ticks spec)))))"

definition humanized_velocity :: "HumanizeSpec \<Rightarrow> 64 word \<Rightarrow> f32 \<Rightarrow> f32" where
  "humanized_velocity spec identity v =
     (let velocity = signed_unit (hash64 (of_nat (hs_seed spec) XOR identity XOR 0x7d39b614))
      in f32_clamp_unit (f32_add v
           (f32_of_f64 (f64_mul velocity (f64_of_f32 (hs_maximum_velocity_delta spec))))))"

definition humanize_notes :: "NotePattern \<Rightarrow> HumanizeSpec \<Rightarrow> SequencerError + NotePattern" where
  "humanize_notes notes spec =
     (if invalid_humanize spec then Inl InvalidTransform
      else Inr (bt_map (\<lambda>_ n. let identity = of_nat (raw (ne_id n))
        in n\<lparr>ne_micro_offset := humanized_offset spec identity (ne_micro_offset n),
             ne_velocity := humanized_velocity spec identity (ne_velocity n)\<rparr>) notes))"

definition swing_notes :: "NotePattern \<Rightarrow> SwingSpec \<Rightarrow> SequencerError + NotePattern" where
  "swing_notes notes spec =
     (if ws_grid spec = 0 \<or> i64_max < int (ws_grid spec) \<or> \<not> unit_value (ws_amount spec) then Inl InvalidTransform
      else let grid = int (ws_grid spec);
               delay = f64_round_to_int i32_min i32_max
                 (f64_mul (f64_mul (f64_of_i64 grid) f64_half) (f64_of_f32 (ws_amount spec)))
           in Inr (bt_map (\<lambda>_ n. if ne_start n div grid mod 2 = 1
                then n\<lparr>ne_micro_offset := clamp_int i32_min i32_max (ne_micro_offset n + delay)\<rparr> else n) notes))"

definition humanize_steps :: "StepPattern \<Rightarrow> HumanizeSpec \<Rightarrow> SequencerError + StepPattern" where
  "humanize_steps pattern spec =
     (if invalid_humanize spec then Inl InvalidTransform
      else Inr (pattern\<lparr>sp_lanes := bt_map (\<lambda>_ lane. lane\<lparr>sl_steps := bt_map (\<lambda>i s.
          let identity = word_rotl 17 (of_nat (raw (sl_id lane))) XOR of_nat i
          in s\<lparr>se_micro_offset := humanized_offset spec identity (se_micro_offset s),
               se_velocity := humanized_velocity spec identity (se_velocity s)\<rparr>) (sl_steps lane)\<rparr>)
        (sp_lanes pattern)\<rparr>))"

section \<open>Scheduled events\<close>

datatype ExpressionDimension = PitchCents | Pressure | Timbre

datatype ScheduledKind =
    LoopBoundary
  | NoteOff PatternClipId NoteId "nat option" f32 nat
  | NoteOn PatternClipId NoteId "nat option" NotePitch f32 f32 nat Articulation
  | NoteExpression PatternClipId NoteId "nat option" ExpressionDimension f32 nat
  | Trigger PatternClipId StepLaneId TriggerTarget "nat option" f32 f32 f32 nat nat

record ScheduledEvent =
  ev_block_offset :: nat
  ev_project_frame :: ProjectFrame
  ev_kind :: ScheduledKind

definition push_if_in_range :: "FrameRange \<Rightarrow> nat \<Rightarrow> ProjectFrame \<Rightarrow> ScheduledKind \<Rightarrow> ScheduledEvent list" where
  "push_if_in_range window block_base frame kind =
     (if tempo_range_contains window frame
      then [\<lparr>ev_block_offset = min u32_max (sat_add_u64 block_base (nat (sat_i64 (frame - fr_start window)))),
             ev_project_frame = frame, ev_kind = kind\<rparr>]
      else [])"

fun event_priority :: "ScheduledKind \<Rightarrow> nat" where
  "event_priority LoopBoundary = 0"
| "event_priority (NoteOff _ _ _ _ _) = 1"
| "event_priority (NoteOn _ _ _ _ _ _ _ _) = 2"
| "event_priority (NoteExpression _ _ _ _ _ _) = 3"
| "event_priority (Trigger _ _ _ _ _ _ _ _ _) = 4"

fun stable_event_key :: "ScheduledKind \<Rightarrow> nat \<times> nat \<times> nat" where
  "stable_event_key LoopBoundary = (0, 0, 0)"
| "stable_event_key (NoteOff clip note _ _ _) = (raw clip, raw note, 0)"
| "stable_event_key (NoteOn clip note _ _ _ _ _ _) = (raw clip, raw note, 0)"
| "stable_event_key (NoteExpression clip note _ _ _ _) = (raw clip, raw note, 0)"
| "stable_event_key (Trigger clip lane _ _ _ _ _ _ ratchet) = (raw clip, raw lane, ratchet)"

definition schedule_key :: "ScheduledEvent \<Rightarrow> nat \<times> nat \<times> nat \<times> nat \<times> nat" where
  "schedule_key e = (ev_block_offset e, event_priority (ev_kind e), stable_event_key (ev_kind e))"

definition sort_scheduled :: "ScheduledEvent list \<Rightarrow> ScheduledEvent list" where
  "sort_scheduled = sort_key schedule_key"

section \<open>Repetitions\<close>

function occurrence_loop :: "int \<Rightarrow> int \<Rightarrow> int \<Rightarrow> int \<Rightarrow> int \<Rightarrow> int \<Rightarrow> (int \<times> int) list" where
  "occurrence_loop start initial pattern_len minimum maximum cycle =
     (let elapsed = sat_i64 (initial + sat_i64 (cycle * pattern_len))
      in if maximum \<le> elapsed then []
         else (if minimum \<le> elapsed then [(sat_i64 (start + elapsed), cycle)] else [])
           @ (let cycle' = sat_i64 (cycle + 1)
              in if cycle' = i64_max then []
                 else occurrence_loop start initial pattern_len minimum maximum cycle'))"
  by pat_completeness auto
termination
proof (relation "measure (\<lambda>(_, _, _, _, _, cycle). nat (i64_max - cycle))")
  fix start initial pattern_len minimum maximum cycle elapsed cycle'
  assume "cycle' = sat_i64 (cycle + 1)" "cycle' \<noteq> i64_max"
  then have "cycle < i64_max" "cycle < cycle'" by (simp_all add: sat_i64_def range_simps)
  then show "((start, initial, pattern_len, minimum, maximum, cycle'),
      (start, initial, pattern_len, minimum, maximum, cycle))
      \<in> measure (\<lambda>(_, _, _, _, _, cycle). nat (i64_max - cycle))"
    by simp
qed simp

declare occurrence_loop.simps [simp del]

text \<open>The absolute tick before microtiming, and the repetition.\<close>

definition occurrence_bases ::
    "PatternClip \<Rightarrow> int \<Rightarrow> int \<Rightarrow> int \<Rightarrow> int \<Rightarrow> int \<Rightarrow> SequencerError fault + (int \<times> int) list" where
  "occurrence_bases clip local_tick pattern_len clip_len absolute_min absolute_max =
     (let initial = sat_i64 (local_tick - pc_pattern_offset clip);
          minimum = max 0 (sat_i64 (absolute_min - pc_start clip));
          maximum = min clip_len (sat_i64 (absolute_max - pc_start clip))
      in if maximum \<le> minimum then Inr []
         else if \<not> pc_looped clip
         then Inr (if minimum \<le> initial \<and> initial < maximum then [(sat_i64 (pc_start clip + initial), 0)] else [])
         else let numerator = sat_i64 (minimum - initial)
              in bind_r (if 0 < numerator
                   then bind_r (exact_i64 (pattern_len - 1)) (\<lambda>padding.
                        if pattern_len = 0 then Inl Panicked
                        else Inr (sat_i64 (numerator + padding) sdiv pattern_len))
                   else Inr 0) (\<lambda>first.
                 Inr (occurrence_loop (pc_start clip) initial pattern_len minimum maximum first)))"

definition checked_div_euclid :: "int \<Rightarrow> int \<Rightarrow> 'e fault + int" where
  "checked_div_euclid a b =
     (if b = 0 \<or> a = i64_min \<and> b = - 1 then Inl Panicked
      else Inr (if 0 < b then a div b else - (a div - b)))"

definition placement_cycles :: "PatternClip \<Rightarrow> int \<Rightarrow> int \<Rightarrow> int \<Rightarrow> SequencerError fault + int list" where
  "placement_cycles clip pattern_len tick_start tick_end =
     (if \<not> pc_looped clip then Inr [0]
      else let anchor = sat_i64 (pc_start clip - pc_pattern_offset clip)
           in bind_r (checked_div_euclid (sat_i64 (tick_start - anchor)) pattern_len) (\<lambda>first.
              bind_r (checked_div_euclid (sat_i64 (tick_end - anchor)) pattern_len) (\<lambda>last.
              bind_r (checked_div_euclid (sat_i64 (clip_end clip - anchor)) pattern_len) (\<lambda>clip_last.
              Inr [max 0 (sat_i64 (first - 1))..min (sat_i64 (last + 2)) (sat_i64 (clip_last + 1)) - 1]))))"

section \<open>Notes\<close>

definition note_on_kind :: "PatternClip \<Rightarrow> NoteEvent \<Rightarrow> ScheduledKind" where
  "note_on_kind clip n = NoteOn (pc_id clip) (ne_id n) (ne_instrument n)
     \<lparr>np_midi_key = np_midi_key (ne_pitch n),
      np_cents = f32_add (np_cents (ne_pitch n)) (f32_mul (pc_transpose_semitones clip) f32_hundred)\<rparr>
     (f32_clamp_unit (f32_mul (ne_velocity n) (pc_gain clip))) (ne_pan n) (ne_channel n) (ne_articulation n)"

definition note_off_kind :: "PatternClip \<Rightarrow> NoteEvent \<Rightarrow> ScheduledKind" where
  "note_off_kind clip n = NoteOff (pc_id clip) (ne_id n) (ne_instrument n) (ne_release_velocity n) (ne_channel n)"

definition expression_curves :: "NoteEvent \<Rightarrow> (ExpressionDimension \<times> ExpressionPoint) list" where
  "expression_curves n = map (Pair PitchCents) (pe_pitch_cents (ne_expression n))
     @ map (Pair Pressure) (pe_pressure (ne_expression n)) @ map (Pair Timbre) (pe_timbre (ne_expression n))"

definition expression_tick :: "int \<Rightarrow> int \<Rightarrow> ExpressionPoint \<Rightarrow> int" where
  "expression_tick on_tick off_tick p =
     (let duration = sat_i64 (off_tick - on_tick);
          ticks = f64_round_to_int i64_min i64_max (f64_mul (f64_of_i64 duration) (f64_of_f32 (ep_position p)))
      in min (sat_i64 (on_tick + ticks)) (sat_i64 (off_tick - 1)))"

text \<open>The events of one repetition, by their ticks.\<close>

definition note_occurrence :: "nat \<Rightarrow> PatternClip \<Rightarrow> NoteEvent \<Rightarrow> int \<times> int \<Rightarrow> (int \<times> ScheduledKind) list" where
  "note_occurrence seed clip n = (\<lambda>(base, cycle).
     let on_tick = sat_i64 (base + ne_micro_offset n)
     in if on_tick < pc_start clip \<or> clip_end clip \<le> on_tick
          \<or> \<not> passes_probability (ne_probability n)
                (performance_identity seed (raw (pc_id clip)) (of_nat (raw (ne_id n))) cycle 0)
        then []
        else let off_tick = min (sat_i64 (on_tick + min (int (sounding_duration n)) i64_max)) (clip_end clip)
             in [(on_tick, note_on_kind clip n), (off_tick, note_off_kind clip n)]
                @ map (\<lambda>(dimension, p). (expression_tick on_tick off_tick p,
                    NoteExpression (pc_id clip) (ne_id n) (ne_instrument n) dimension (ep_value p) (ne_channel n)))
                  (expression_curves n))"

definition push_at_ticks :: "TempoMap \<Rightarrow> FrameRange \<Rightarrow> nat \<Rightarrow> (int \<times> ScheduledKind) list \<Rightarrow> ScheduledEvent list" where
  "push_at_ticks m window block_base ticks =
     concat (map (\<lambda>(tick, kind). push_if_in_range window block_base (beat_to_frame m tick) kind) ticks)"

definition schedule_note ::
    "TempoMap \<Rightarrow> FrameRange \<Rightarrow> nat \<Rightarrow> nat \<Rightarrow> int \<Rightarrow> int \<Rightarrow> PatternClip \<Rightarrow> int \<Rightarrow> NoteEvent
      \<Rightarrow> SequencerError fault + ScheduledEvent list" where
  "schedule_note m window block_base seed tick_start tick_end clip pattern_len n =
     (let on_delta = ne_micro_offset n;
          off_delta = sat_i64 (on_delta + min (int (sounding_duration n)) i64_max)
      in bind_r (occurrence_bases clip (ne_start n) pattern_len (cast_i64 (pc_length clip))
             (sat_i64 (tick_start - max on_delta off_delta)) (sat_i64 (tick_end - min on_delta off_delta))) (\<lambda>bases.
         Inr (push_at_ticks m window block_base (concat (map (note_occurrence seed clip n) bases)))))"

section \<open>Steps\<close>

definition swing_delay :: "StepPattern \<Rightarrow> nat \<Rightarrow> int" where
  "swing_delay steps step_index =
     (if step_index mod 2 = 1
      then f64_round_to_int i64_min i64_max
        (f64_mul (f64_mul (f64_of_u64 (sp_resolution steps)) f64_half) (f64_of_f32 (sp_swing steps)))
      else 0)"

definition local_tick :: "StepPattern \<Rightarrow> nat \<Rightarrow> SequencerError fault + int" where
  "local_tick steps step_index = exact_i64 (int step_index * cast_i64 (sp_resolution steps))"

definition step_trigger ::
    "TempoMap \<Rightarrow> PatternClip \<Rightarrow> StepLane \<Rightarrow> StepEvent \<Rightarrow> int \<Rightarrow> nat \<Rightarrow> int \<Rightarrow> nat \<Rightarrow> ScheduledKind" where
  "step_trigger m clip lane s spacing ratchets tick ratchet =
     (let gate = (if 1 < ratchets then spacing else min (int (se_gate s)) i64_max)
      in Trigger (pc_id clip) (sl_id lane) (sl_target lane) (sl_choke_group lane)
           (f32_clamp_unit (f32_mul (se_velocity s) (pc_gain clip))) (se_pan s)
           (f32_add (se_pitch_semitones s) (pc_transpose_semitones clip))
           (nat (max 0 (sat_i64 (beat_to_frame m (sat_i64 (tick + gate)) - beat_to_frame m tick)))) ratchet)"

text \<open>One ratchet at its tick, unless it lies outside the clip or its chance fails.\<close>

definition ratchet_event ::
    "TempoMap \<Rightarrow> nat \<Rightarrow> PatternClip \<Rightarrow> StepLane \<Rightarrow> nat \<Rightarrow> StepEvent \<Rightarrow> int \<Rightarrow> nat \<Rightarrow> int \<Rightarrow> int \<Rightarrow> nat
      \<Rightarrow> (int \<times> ScheduledKind) list" where
  "ratchet_event m seed clip lane step_index s spacing ratchets cycle tick ratchet =
     (if tick < pc_start clip \<or> clip_end clip \<le> tick
        \<or> \<not> passes_probability (se_probability s) (performance_identity seed (raw (pc_id clip))
              (of_nat (raw (sl_id lane)) XOR of_nat step_index) cycle ratchet)
      then [] else [(tick, step_trigger m clip lane s spacing ratchets tick ratchet)])"

definition step_spacing :: "StepPattern \<Rightarrow> StepEvent \<Rightarrow> int" where
  "step_spacing steps s =
     (let ratchets = max 1 (se_ratchets s);
          extent = (if 0 < se_gate s then se_gate s else sp_resolution steps)
      in if 1 < ratchets then cast_i64 (max 1 (extent div ratchets)) else 0)"

definition step_occurrence ::
    "TempoMap \<Rightarrow> nat \<Rightarrow> PatternClip \<Rightarrow> StepPattern \<Rightarrow> StepLane \<Rightarrow> nat \<Rightarrow> StepEvent \<Rightarrow> int \<times> int
      \<Rightarrow> SequencerError fault + (int \<times> ScheduledKind) list" where
  "step_occurrence m seed clip steps lane step_index s = (\<lambda>(base, cycle).
     let ratchets = max 1 (se_ratchets s);
         spacing = step_spacing steps s;
         first = sat_i64 (sat_i64 (base + swing_delay steps step_index) + se_micro_offset s)
     in bind_r (collect_r (\<lambda>ratchet. bind_r (exact_i64 (spacing * int ratchet)) (\<lambda>delta.
            Inr (ratchet_event m seed clip lane step_index s spacing ratchets cycle
              (sat_i64 (first + delta)) ratchet))) [0..<ratchets]) (\<lambda>events.
        Inr (concat events)))"

definition schedule_step ::
    "TempoMap \<Rightarrow> FrameRange \<Rightarrow> nat \<Rightarrow> nat \<Rightarrow> int \<Rightarrow> int \<Rightarrow> PatternClip \<Rightarrow> int \<Rightarrow> StepPattern \<Rightarrow> StepLane
      \<Rightarrow> nat \<times> StepEvent \<Rightarrow> SequencerError fault + ScheduledEvent list" where
  "schedule_step m window block_base seed tick_start tick_end clip pattern_len steps lane = (\<lambda>(step_index, s).
     bind_r (local_tick steps step_index) (\<lambda>tick.
     let first_delta = sat_i64 (swing_delay steps step_index + se_micro_offset s);
         last_delta = sat_i64 (first_delta
           + sat_i64 (step_spacing steps s * (int (max 1 (se_ratchets s)) - 1)))
     in bind_r (occurrence_bases clip tick pattern_len (cast_i64 (pc_length clip))
            (sat_i64 (tick_start - max first_delta last_delta))
            (sat_i64 (tick_end - min first_delta last_delta))) (\<lambda>bases.
        bind_r (collect_r (step_occurrence m seed clip steps lane step_index s) bases) (\<lambda>events.
        Inr (push_at_ticks m window block_base (concat events))))))"

text \<open>The steps of one realized cycle of an expression pattern.\<close>

definition cycle_step ::
    "TempoMap \<Rightarrow> nat \<Rightarrow> PatternClip \<Rightarrow> int \<Rightarrow> int \<Rightarrow> StepPattern \<Rightarrow> StepLane \<Rightarrow> nat \<times> StepEvent
      \<Rightarrow> SequencerError fault + (int \<times> ScheduledKind) list" where
  "cycle_step m seed clip pattern_len cycle steps lane = (\<lambda>(step_index, s).
     bind_r (local_tick steps step_index) (\<lambda>tick.
     let ratchets = max 1 (se_ratchets s);
         spacing = (if 1 < ratchets then cast_i64 (max 1 (max 1 (se_gate s) div ratchets)) else 0);
         base = sat_i64 (sat_i64 (pc_start clip + sat_i64 (tick - pc_pattern_offset clip))
           + sat_i64 (cycle * pattern_len));
         first = sat_i64 (sat_i64 (base + swing_delay steps step_index) + se_micro_offset s)
     in Inr (concat (map (\<lambda>ratchet. ratchet_event m seed clip lane step_index s spacing ratchets cycle
          (sat_i64 (first + sat_i64 (spacing * int ratchet))) ratchet) [0..<ratchets]))))"

definition schedule_step_cycle ::
    "TempoMap \<Rightarrow> FrameRange \<Rightarrow> nat \<Rightarrow> nat \<Rightarrow> PatternClip \<Rightarrow> int \<Rightarrow> int \<times> StepPattern
      \<Rightarrow> SequencerError fault + ScheduledEvent list" where
  "schedule_step_cycle m window block_base seed clip pattern_len = (\<lambda>(cycle, steps).
     bind_r (collect_r (\<lambda>(_, lane). bind_r (collect_r (cycle_step m seed clip pattern_len cycle steps lane)
         (sl_steps lane)) (\<lambda>events. Inr (concat events))) (sp_lanes steps)) (\<lambda>events.
     Inr (push_at_ticks m window block_base (concat events))))"

section \<open>Spans\<close>

definition concat_r :: "('a \<Rightarrow> 'e + 'b list) \<Rightarrow> 'a list \<Rightarrow> 'e + 'b list" where
  "concat_r f xs = bind_r (collect_r f xs) (\<lambda>ys. Inr (concat ys))"

text \<open>
  The realized cycles of a pattern that is still generated by its expression; \<open>None\<close> when the
  stored steps are used.
\<close>

definition realized_cycles ::
    "PatternDefinition \<Rightarrow> PatternClip \<Rightarrow> nat \<Rightarrow> int \<Rightarrow> int \<Rightarrow> SequencerError fault + (int \<times> StepPattern) list option" where
  "realized_cycles p clip seed tick_start tick_end = (case pd_origin p of
       Expression source _ _ bindings False \<Rightarrow>
         (case parse source of
            Inl Panicked \<Rightarrow> Inl Panicked
          | Inl (Failed _) \<Rightarrow> Inr None
          | Inr t \<Rightarrow>
              bind_r (placement_cycles clip (cast_i64 (pd_length p)) tick_start tick_end) (\<lambda>cycles.
              case collect_r (\<lambda>cycle. bind_r (eval_steps t \<lparr>ec_bindings = bindings, ec_cycle = pd_length p,
                     ec_seed = seed, ec_cycle_index = nat cycle\<rparr>) (\<lambda>out. Inr (cycle, eo_pattern out))) cycles of
                Inl Panicked \<Rightarrow> Inl Panicked
              | Inl (Failed _) \<Rightarrow> Inr None
              | Inr realized \<Rightarrow> Inr (Some realized)))
     | _ \<Rightarrow> Inr None)"

definition schedule_clip ::
    "Sequencer \<Rightarrow> FrameRange \<Rightarrow> nat \<Rightarrow> nat \<Rightarrow> int \<Rightarrow> int \<Rightarrow> PatternClip \<Rightarrow> SequencerError fault + ScheduledEvent list" where
  "schedule_clip s window block_base seed tick_start tick_end clip =
     bind_r (ok_or (bt_get (sq_patterns s) (pc_pattern clip)) Panicked) (\<lambda>p.
     let m = sq_tempo_map s; pattern_len = cast_i64 (pd_length p)
     in case pd_content p of
          Notes notes \<Rightarrow>
            concat_r (schedule_note m window block_base seed tick_start tick_end clip pattern_len) (bt_values notes)
        | Steps steps \<Rightarrow>
            bind_r (realized_cycles p clip seed tick_start tick_end) (\<lambda>realized.
            case realized of
              Some cycles \<Rightarrow> concat_r (schedule_step_cycle m window block_base seed clip pattern_len) cycles
            | None \<Rightarrow>
                concat_r (\<lambda>lane. concat_r (schedule_step m window block_base seed tick_start tick_end clip pattern_len
                  steps lane) (sl_steps lane)) (bt_values (sp_lanes steps))))"

definition schedule_span ::
    "Sequencer \<Rightarrow> FrameRange \<Rightarrow> nat \<Rightarrow> nat \<Rightarrow> SequencerError fault + ScheduledEvent list" where
  "schedule_span s window block_base seed =
     (let tick_start = first_beat_at_or_after_frame (sq_tempo_map s) (fr_start window);
          tick_end = first_beat_at_or_after_frame (sq_tempo_map s) (fr_end window)
      in concat_r (schedule_clip s window block_base seed tick_start tick_end)
           (filter (\<lambda>clip. \<not> pc_muted clip) (bt_values (sq_clips s))))"

definition schedule_project_window ::
    "Sequencer \<Rightarrow> FrameRange \<Rightarrow> nat \<Rightarrow> SequencerError fault + ScheduledEvent list" where
  "schedule_project_window s window seed =
     bind_r (schedule_span s window 0 seed) (\<lambda>events. Inr (sort_scheduled events))"

section \<open>Transport blocks\<close>

definition loop_boundary :: "nat \<Rightarrow> FrameRange \<Rightarrow> ScheduledEvent" where
  "loop_boundary block_offset loop_range =
     \<lparr>ev_block_offset = block_offset mod 2 ^ 32, ev_project_frame = fr_end loop_range, ev_kind = LoopBoundary\<rparr>"

text \<open>A playhead at or after the end of the loop wraps into it, which is a boundary.\<close>

definition wrap_position ::
    "FrameRange \<Rightarrow> nat \<Rightarrow> int \<Rightarrow> SequencerError fault + int \<times> ScheduledEvent list" where
  "wrap_position loop_range block_offset position =
     (if position < fr_end loop_range then Inr (position, [])
      else bind_r (exact_i64 (position - fr_start loop_range)) (\<lambda>inside.
        let len = cast_i64 (tempo_range_len loop_range)
        in if len = 0 \<or> inside = i64_min \<and> len = - 1 then Inl Panicked
           else bind_r (exact_i64 (fr_start loop_range + inside mod \<bar>len\<bar>)) (\<lambda>position'.
             Inr (position', [loop_boundary block_offset loop_range]))))"

function transport_loop ::
    "Sequencer \<Rightarrow> FrameRange \<Rightarrow> nat \<Rightarrow> nat \<Rightarrow> nat \<Rightarrow> int \<Rightarrow> SequencerError fault + ScheduledEvent list" where
  "transport_loop s loop_range seed remaining block_offset position =
     (if remaining = 0 then Inr []
      else bind_r (wrap_position loop_range block_offset position) (\<lambda>(position, wrapped).
        let until_wrap = nat (max 1 (sat_i64 (fr_end loop_range - position)));
            count = min remaining until_wrap;
            stop = sat_i64 (position + int count);
            remaining' = remaining - count;
            boundary = (stop = fr_end loop_range \<and> 0 < remaining')
        in bind_r (schedule_span s \<lparr>fr_start = position, fr_end = stop\<rparr> block_offset seed) (\<lambda>events.
           bind_r (transport_loop s loop_range seed remaining' (block_offset + count)
             (if boundary then fr_start loop_range else stop)) (\<lambda>later.
           Inr (wrapped @ events
             @ (if boundary then [loop_boundary (block_offset + count) loop_range] else []) @ later)))))"
  by pat_completeness auto
termination
  by (relation "measure (\<lambda>(_, _, _, remaining, _, _). remaining)") auto

declare transport_loop.simps [simp del]

definition schedule_transport_window ::
    "Sequencer \<Rightarrow> ProjectFrame \<Rightarrow> nat \<Rightarrow> FrameRange option \<Rightarrow> nat \<Rightarrow> SequencerError fault + ScheduledEvent list" where
  "schedule_transport_window s playhead frame_count loop_range seed =
     (if frame_count = 0 then Inr []
      else bind_r (case loop_range of
          Some r \<Rightarrow> transport_loop s r seed frame_count 0 playhead
        | None \<Rightarrow> schedule_span s \<lparr>fr_start = playhead, fr_end = sat_i64 (playhead + int frame_count)\<rparr> 0 seed)
        (\<lambda>events. Inr (sort_scheduled events)))"

end
