(* ===== verification/Sequencer_Equality.thy ===== *)
theory Sequencer_Equality
  imports Sequencer_State
begin

text \<open>
  Equality up to \<open>PartialEq\<close>: validation cannot tell a value from its representative, valid values
  hold no NaN, and replacing an entry of a map is undone by the opposite replacement. The locale
  \<open>compared_entry\<close> is what the replacement relies on; patterns and clips are its instances.
\<close>

section \<open>Validation of representatives\<close>

lemma unit_canon [simp]: "unit_value (f32_canon v) = unit_value v" "bipolar_value (f32_canon v) = bipolar_value v"
  by (simp_all add: unit_value_def bipolar_value_def)

lemma unit_number: "unit_value v \<Longrightarrow> \<not> f32_is_nan v" "bipolar_value v \<Longrightarrow> \<not> f32_is_nan v"
  "f32_is_finite v \<Longrightarrow> \<not> f32_is_nan v"
  by (auto simp: unit_value_def bipolar_value_def f32_is_finite_def f32_is_nan_def)

lemma windows2_map: "windows2 (map f xs) = map (\<lambda>(a, b). (f a, f b)) (windows2 xs)"
  by (simp add: windows2_def map_tl[symmetric] zip_map_map)

lemma curve_canon:
  "list_all (\<lambda>p. unit_value (ep_position p) \<and> f32_is_finite (ep_value p)) (points_canon curve)
    = list_all (\<lambda>p. unit_value (ep_position p) \<and> f32_is_finite (ep_value p)) curve"
  "list_all (\<lambda>(a, b). f32_le (ep_position a) (ep_position b)) (windows2 (points_canon curve))
    = list_all (\<lambda>(a, b). f32_le (ep_position a) (ep_position b)) (windows2 curve)"
  by (auto simp: points_canon_def windows2_map list_all_iff)

lemma valid_expression_canon [simp]: "valid_expression (expression_canon e) = valid_expression e"
  by (simp add: valid_expression_def expression_canon_def curve_canon)

lemma note_canon_fields [simp]: "ne_id (note_canon n) = ne_id n" "ne_start (note_canon n) = ne_start n"
  by (simp_all add: note_canon_def)

lemma note_validate_canon [simp]: "note_validate (note_canon n) = note_validate n"
  by (simp add: note_validate_def note_canon_def)

lemma step_validate_canon [simp]: "step_validate (step_canon s) = step_validate s"
  by (simp add: step_validate_def step_canon_def)

lemma for_each_map: "for_each f (map g xs) = for_each (\<lambda>x. f (g x)) xs"
  by (induction xs) (auto split: sum.splits)

lemma for_each_bt_map: "for_each (\<lambda>(i, v). f i v) (bt_map (\<lambda>_. g) m) = for_each (\<lambda>(i, v). f i (g v)) m"
  by (simp add: bt_map_def for_each_map case_prod_unfold)

lemma lane_canon_fields [simp]: "sl_id (lane_canon l) = sl_id l"
  "sl_steps (lane_canon l) = bt_map (\<lambda>_. step_canon) (sl_steps l)"
  by (simp_all add: lane_canon_def)

lemma notes_validate_canon [simp]:
  "notes_validate pid len (bt_map (\<lambda>_. note_canon) notes) = notes_validate pid len notes"
  by (simp add: notes_validate_def for_each_bt_map)

lemma steps_validate_canon [simp]:
  "steps_validate pid len \<lparr>sp_resolution = sp_resolution p, sp_swing = f32_canon (sp_swing p),
     sp_lanes = bt_map (\<lambda>_. lane_canon) (sp_lanes p)\<rparr> = steps_validate pid len p"
  by (simp add: steps_validate_def for_each_bt_map)

lemma pattern_canon_fields [simp]:
  "pd_id (pattern_canon p) = pd_id p" "pd_length (pattern_canon p) = pd_length p"
  "pd_origin (pattern_canon p) = pd_origin p"
  "pd_content (pattern_canon p) = pattern_content_canon (pd_content p)"
  by (simp_all add: pattern_canon_def)

lemma pattern_validate_canon [simp]: "pattern_validate debug (pattern_canon p) = pattern_validate debug p"
proof -
  have "expression_validate debug (pattern_canon p) = expression_validate debug p"
    by (cases "pd_content p"; cases "pd_origin p") (simp_all add: expression_validate_def cong: if_cong)
  then show ?thesis by (cases "pd_content p") (simp_all add: pattern_validate_def)
qed

lemma pattern_clip_canon_fields [simp]:
  "pc_id (pattern_clip_canon c) = pc_id c" "pc_pattern (pattern_clip_canon c) = pc_pattern c"
  "pc_pattern_offset (pattern_clip_canon c) = pc_pattern_offset c"
  "pc_length (pattern_clip_canon c) = pc_length c" "pc_looped (pattern_clip_canon c) = pc_looped c"
  by (simp_all add: pattern_clip_canon_def)

lemma clip_validate_canon [simp]: "clip_validate (pattern_clip_canon c) = clip_validate c"
  by (simp add: clip_validate_def pattern_clip_canon_def clip_end_def)

section \<open>Valid values are numbers\<close>

lemma curve_numbers:
  "valid_expression e \<Longrightarrow> points_numbers (pe_pitch_cents e) \<and> points_numbers (pe_pressure e)
    \<and> points_numbers (pe_timbre e)"
  by (auto simp: valid_expression_def points_numbers_def list_all_iff unit_number)

lemma note_valid_numbers: "note_validate n = Inr () \<Longrightarrow> note_numbers n"
  by (simp add: note_validate_def note_numbers_def fail_if_eq_Inr unit_number curve_numbers)

lemma step_valid_numbers: "step_validate s \<Longrightarrow> step_numbers s"
  by (simp add: step_validate_def step_numbers_def unit_number)

lemma lift_error_Inr [simp]: "lift_error r = Inr a \<longleftrightarrow> r = Inr a"
  by (cases r) (simp_all add: lift_error_def)

lemma pattern_valid_numbers:
  assumes "pattern_validate debug p = Inr ()"
  shows "content_numbers (pd_content p)"
proof (cases "pd_content p")
  case (Notes ns)
  then have "notes_validate (pd_id p) (pd_length p) ns = Inr ()"
    using assms by (simp add: pattern_validate_def then_r_eq_Inr split: if_splits)
  then show ?thesis
    using Notes note_valid_numbers by (fastforce simp: notes_validate_def result_simps list_all_iff bt_values_def)
next
  case (Steps steps)
  then have v: "steps_validate (pd_id p) (pd_length p) steps = Inr ()"
    using assms by (simp add: pattern_validate_def then_r_eq_Inr split: if_splits)
  have "step_numbers event"
    if l: "(i, lane) \<in> set (sp_lanes steps)" "(step, event) \<in> set (sl_steps lane)" for i lane step event
  proof (rule step_valid_numbers)
    show "step_validate event"
      using v l by (fastforce simp: steps_validate_def result_simps)
  qed
  moreover have "\<not> f32_is_nan (sp_swing steps)"
    using v unit_number by (auto simp: steps_validate_def result_simps)
  ultimately show ?thesis by (auto simp: Steps list_all_iff bt_values_def)
qed

lemma clip_valid_numbers: "clip_validate c = Inr () \<Longrightarrow> clip_numbers c"
  by (simp add: clip_validate_def clip_numbers_def fail_if_eq_Inr unit_number)

section \<open>Numbers and representatives\<close>

lemma points_numbers_canon: "points_numbers (points_canon ps) = points_numbers ps"
  by (induction ps) (simp_all add: points_numbers_def points_canon_def)

lemma note_numbers_canon: "note_numbers (note_canon n) = note_numbers n"
  by (simp add: note_numbers_def note_canon_def expression_canon_def points_numbers_canon)

lemma step_numbers_canon: "step_numbers (step_canon s) = step_numbers s"
  by (simp add: step_numbers_def step_canon_def)

lemma values_map: "bt_values (bt_map (\<lambda>_. f) m) = map f (bt_values m)"
  by (simp add: bt_values_def bt_map_def case_prod_unfold)

lemma content_numbers_canon: "content_numbers (pattern_content_canon c) = content_numbers c"
  by (cases c) (simp_all add: values_map list.pred_map comp_def note_numbers_canon step_numbers_canon)

lemma clip_numbers_canon: "clip_numbers (pattern_clip_canon c) = clip_numbers c"
  by (simp add: clip_numbers_def pattern_clip_canon_def)

section \<open>Replacing an entry\<close>

definition put_at :: "'k::linorder \<Rightarrow> 'v option \<Rightarrow> ('k, 'v) btree \<Rightarrow> ('k, 'v) btree" where
  "put_at i after m = (case after of None \<Rightarrow> bt_remove i m | Some v \<Rightarrow> bt_insert i v m)"

lemma put_at_get: "bt_get (put_at i a m) k = (if k = i then a else bt_get m k)"
  by (simp add: put_at_def split: option.splits)

lemma put_at_ok: "bt_ok m \<Longrightarrow> bt_ok (put_at i a m)"
  by (simp add: put_at_def split: option.splits)

lemma put_at_map: "bt_map (\<lambda>_. f) (put_at i a m) = put_at i (map_option f a) (bt_map (\<lambda>_. f) m)"
  by (simp add: put_at_def bt_map_insert bt_map_remove split: option.splits)

lemma put_target_Inr:
  "put_target eq key b a m = Inr i \<longleftrightarrow>
     (b \<noteq> None \<or> a \<noteq> None) \<and> (\<forall>v. b = Some v \<longrightarrow> key v = i) \<and> (\<forall>v. a = Some v \<longrightarrow> key v = i)
     \<and> rel_option eq (bt_get m i) b"
  by (cases b; cases a) (auto simp: put_target_def split: if_splits)

locale compared_entry =
  fixes eq :: "'v \<Rightarrow> 'v \<Rightarrow> bool" and canon :: "'v \<Rightarrow> 'v" and numbers :: "'v \<Rightarrow> bool"
    and key :: "'v \<Rightarrow> 'k::linorder"
  assumes eq_iff: "eq a b \<longleftrightarrow> canon a = canon b \<and> numbers a \<and> numbers b"
    and numbers_canon: "numbers (canon a) = numbers a"
    and key_canon: "key (canon a) = key a"
begin

lemma eq_numbers: "eq a b \<Longrightarrow> numbers a"
  by (simp add: eq_iff)

lemma eq_key: "eq a b \<Longrightarrow> key a = key b"
  using eq_iff key_canon by metis

lemma eq_cong: "canon a = canon a' \<Longrightarrow> eq a b = eq a' b"
  using eq_iff numbers_canon by metis

lemma found_cong:
  assumes "bt_map (\<lambda>_. canon) m = bt_map (\<lambda>_. canon) n"
  shows "rel_option eq (bt_get m i) b = rel_option eq (bt_get n i) b"
proof -
  have "map_option canon (bt_get m i) = map_option canon (bt_get n i)"
    using arg_cong[OF assms, of "\<lambda>m. bt_get m i"] by simp
  then show ?thesis by (cases "bt_get m i"; cases "bt_get n i"; cases b) (auto dest: eq_cong)
qed

lemma target_cong:
  "bt_map (\<lambda>_. canon) m = bt_map (\<lambda>_. canon) n \<Longrightarrow> put_target eq key b a m = put_target eq key b a n"
  using found_cong[of m n] by (simp add: put_target_def cong: if_cong)

text \<open>A map of numbers under their own keys; a replacement that gives one started from one.\<close>

definition sound_map :: "('k, 'v) btree \<Rightarrow> bool" where
  "sound_map m \<longleftrightarrow> (\<forall>k v. bt_get m k = Some v \<longrightarrow> key v = k \<and> numbers v)"

lemma sound_back:
  assumes "put_target eq key b a m = Inr i" "sound_map (put_at i a m)"
  shows "sound_map m"
  unfolding sound_map_def
proof (intro allI impI)
  fix k v assume v: "bt_get m k = Some v"
  show "key v = k \<and> numbers v"
  proof (cases "k = i")
    case True
    then obtain w where "b = Some w" "eq v w" "key w = i"
      using assms(1) v by (auto simp: put_target_Inr option_rel_Some1)
    then show ?thesis using True eq_key eq_numbers by auto
  next
    case False
    then have "bt_get (put_at i a m) k = Some v" using v by (simp add: put_at_get)
    then show ?thesis using assms(2) unfolding sound_map_def by blast
  qed
qed

lemma put_undone:
  assumes target: "put_target eq key b a m = Inr i" and "sound_map (put_at i a m)" "bt_ok m"
    and same: "bt_map (\<lambda>_. canon) n = bt_map (\<lambda>_. canon) (put_at i a m)"
  shows "put_target eq key a b n = Inr i"
    "bt_map (\<lambda>_. canon) (put_at i b n) = bt_map (\<lambda>_. canon) m"
proof -
  have "rel_option eq (bt_get (put_at i a m) i) a"
    using assms(2) by (cases a) (auto simp: put_at_get sound_map_def eq_iff dest: spec[of _ i])
  then show "put_target eq key a b n = Inr i"
    using target found_cong[OF same] by (auto simp: put_target_Inr)
  have found: "map_option canon (bt_get m i) = map_option canon b"
    using target by (cases "bt_get m i"; cases b) (auto simp: put_target_Inr eq_iff)
  have "bt_map (\<lambda>_. canon) (put_at i b n) = bt_map (\<lambda>_. canon) (put_at i b (put_at i a m))"
    by (simp add: put_at_map same)
  also have "\<dots> = bt_map (\<lambda>_. canon) m"
    by (rule bt_eqI) (use assms(3) found in \<open>simp_all add: put_at_ok put_at_get\<close>)
  finally show "bt_map (\<lambda>_. canon) (put_at i b n) = bt_map (\<lambda>_. canon) m" .
qed

end

lemma pattern_canon_iff:
  "pattern_canon a = pattern_canon b \<longleftrightarrow> pd_id a = pd_id b \<and> pd_name a = pd_name b \<and> pd_length a = pd_length b
     \<and> pattern_content_canon (pd_content a) = pattern_content_canon (pd_content b)
     \<and> pd_origin a = pd_origin b \<and> pd_revision a = pd_revision b"
  by (cases a; cases b) (auto simp: pattern_canon_def)

interpretation pattern_entry: compared_entry pattern_eq pattern_canon "\<lambda>p. content_numbers (pd_content p)" pd_id
  by unfold_locales
    (auto simp: pattern_eq_def pattern_content_eq_def pattern_canon_iff content_numbers_canon)

interpretation clip_entry: compared_entry pattern_clip_eq pattern_clip_canon clip_numbers pc_id
  by unfold_locales (auto simp: pattern_clip_eq_def clip_numbers_canon)

end
