(* ===== verification/Sequencer_History.thy ===== *)
theory Sequencer_History
  imports Sequencer_Equality
begin

text \<open>
  The undo history of the sequencer (\<open>src/src/sequencer.rs\<close>): what one command does to the
  content of the sequencer, that its inverse undoes it, and then that whole transactions are an
  instance of the \<open>reversible\<close> contract. Content is compared up to \<open>PartialEq\<close>.
\<close>

section \<open>Content\<close>

definition sequencer_content :: "Sequencer \<Rightarrow> TempoMap \<times> (PatternId, PatternDefinition) btree \<times> (PatternClipId, PatternClip) btree" where
  "sequencer_content s = (sq_tempo_map s, bt_map (\<lambda>_. pattern_canon) (sq_patterns s),
     bt_map (\<lambda>_. pattern_clip_canon) (sq_clips s))"

lemma content_iff:
  "sequencer_content s = sequencer_content t \<longleftrightarrow> sq_tempo_map s = sq_tempo_map t
     \<and> bt_map (\<lambda>_. pattern_canon) (sq_patterns s) = bt_map (\<lambda>_. pattern_canon) (sq_patterns t)
     \<and> bt_map (\<lambda>_. pattern_clip_canon) (sq_clips s) = bt_map (\<lambda>_. pattern_clip_canon) (sq_clips t)"
  by (auto simp: sequencer_content_def)

definition sequencer_wf :: "Sequencer \<Rightarrow> bool" where
  "sequencer_wf s \<longleftrightarrow> bt_ok (sq_patterns s) \<and> bt_ok (sq_clips s)"

definition sequencer_sound :: "Sequencer \<Rightarrow> bool" where
  "sequencer_sound s \<longleftrightarrow> pattern_entry.sound_map (sq_patterns s) \<and> clip_entry.sound_map (sq_clips s)"

text \<open>Validation depends on the content only.\<close>

definition content_validate ::
    "float_text \<Rightarrow> (PatternId, PatternDefinition) btree \<Rightarrow> (PatternClipId, PatternClip) btree \<Rightarrow> unit sequencer_result" where
  "content_validate debug patterns clips =
     then_r (for_each (\<lambda>(i, p). then_r (fail_if (i \<noteq> pd_id p) (Failed (InvalidPattern i)))
         (pattern_validate debug p)) patterns)
       (lift_error (for_each (\<lambda>(i, c). then_r (fail_if (i \<noteq> pc_id c) (InvalidClip i))
         (then_r (clip_validate c)
           (bind_r (ok_or (bt_get patterns (pc_pattern c)) (MissingPattern (pc_pattern c))) (\<lambda>p.
            fail_if (int (pd_length p) \<le> pc_pattern_offset c
              \<or> \<not> pc_looped c \<and> int (pd_length p) < pc_pattern_offset c + int (pc_length c))
            (InvalidClip (pc_id c)))))) clips))"

lemma validate_content: "sequencer_validate debug s = content_validate debug (sq_patterns s) (sq_clips s)"
  by (simp add: sequencer_validate_def content_validate_def clip_fits_def)

lemma bind_map_option:
  "(\<And>p. h (g p) = h p) \<Longrightarrow> bind_r (ok_or (map_option g x) e) h = bind_r (ok_or x e) h"
  by (cases x) simp_all

lemma content_validate_canon:
  "content_validate debug (bt_map (\<lambda>_. pattern_canon) patterns) (bt_map (\<lambda>_. pattern_clip_canon) clips)
    = content_validate debug patterns clips"
  by (simp add: content_validate_def for_each_bt_map bind_map_option)

lemma validate_cong:
  "sequencer_content s = sequencer_content t \<Longrightarrow> sequencer_validate debug s = sequencer_validate debug t"
  unfolding validate_content content_iff by (metis content_validate_canon)

lemma valid_parts:
  assumes "sequencer_validate debug s = Inr ()"
  shows "\<forall>(i, p) \<in> set (sq_patterns s). pd_id p = i \<and> pattern_validate debug p = Inr ()"
    "\<forall>(i, c) \<in> set (sq_clips s). pc_id c = i \<and> clip_validate c = Inr () \<and> clip_fits s c = Inr ()"
  using assms by (auto simp: sequencer_validate_def result_simps)

lemma valid_sound: "sequencer_validate debug s = Inr () \<Longrightarrow> sequencer_sound s"
  using valid_parts[of debug s] pattern_valid_numbers clip_valid_numbers
  by (fastforce simp: sequencer_sound_def pattern_entry.sound_map_def clip_entry.sound_map_def
      dest!: bt_get_Some_in)

section \<open>One command\<close>

text \<open>What a command does to the content, counters aside.\<close>

lemma put_pattern_Inr:
  assumes "apply_sequencer_command (PutPattern b a) s = Inr t"
  obtains i where "put_target pattern_eq pd_id b a (sq_patterns s) = Inr i"
    "sq_patterns t = put_at i a (sq_patterns s)" "sq_clips t = sq_clips s" "sq_tempo_map t = sq_tempo_map s"
    "sq_undo t = sq_undo s" "sq_redo t = sq_redo s" "sq_history_limit t = sq_history_limit s"
proof -
  obtain i where "put_target pattern_eq pd_id b a (sq_patterns s) = Inr i"
    using assms by (auto simp: bind_r_eq_Inr)
  then show thesis
    using assms by (intro that[of i])
      (auto simp: put_at_def Let_def split: option.splits PatternContent.splits)
qed

lemma put_clip_Inr:
  assumes "apply_sequencer_command (PutClip b a) s = Inr t"
  obtains i where "put_target pattern_clip_eq pc_id b a (sq_clips s) = Inr i"
    "sq_clips t = put_at i a (sq_clips s)" "sq_patterns t = sq_patterns s" "sq_tempo_map t = sq_tempo_map s"
    "sq_undo t = sq_undo s" "sq_redo t = sq_redo s" "sq_history_limit t = sq_history_limit s"
proof -
  obtain i where "put_target pattern_clip_eq pc_id b a (sq_clips s) = Inr i"
    using assms by (auto simp: bind_r_eq_Inr)
  then show thesis
    using assms by (intro that[of i]) (auto simp: put_at_def split: option.splits)
qed

lemma put_pattern_target:
  "put_target pattern_eq pd_id b a (sq_patterns s) = Inr i
    \<Longrightarrow> \<exists>t. apply_sequencer_command (PutPattern b a) s = Inr t"
  by simp

lemma put_clip_target:
  "put_target pattern_clip_eq pc_id b a (sq_clips s) = Inr i
    \<Longrightarrow> \<exists>t. apply_sequencer_command (PutClip b a) s = Inr t"
  by simp

lemma command_wf: "apply_sequencer_command c s = Inr t \<Longrightarrow> sequencer_wf s \<Longrightarrow> sequencer_wf t"
  by (cases c) (auto simp: sequencer_wf_def put_at_ok elim!: put_pattern_Inr put_clip_Inr
      simp del: apply_sequencer_command.simps(1,2) split: if_splits)

lemma command_cong:
  assumes "apply_sequencer_command c s = Inr t" "sequencer_content s = sequencer_content s'"
  shows "\<exists>t'. apply_sequencer_command c s' = Inr t' \<and> sequencer_content t = sequencer_content t'"
proof (cases c)
  case (PutPattern b a)
  obtain i where i: "put_target pattern_eq pd_id b a (sq_patterns s) = Inr i"
    "sq_patterns t = put_at i a (sq_patterns s)" "sq_clips t = sq_clips s" "sq_tempo_map t = sq_tempo_map s"
    by (rule put_pattern_Inr[OF assms(1)[unfolded PutPattern]])
  have target: "put_target pattern_eq pd_id b a (sq_patterns s') = Inr i"
    using i(1) assms(2) pattern_entry.target_cong by (metis content_iff)
  then obtain t' where t': "apply_sequencer_command (PutPattern b a) s' = Inr t'"
    using put_pattern_target by blast
  then obtain j where j: "put_target pattern_eq pd_id b a (sq_patterns s') = Inr j"
    "sq_patterns t' = put_at j a (sq_patterns s')" "sq_clips t' = sq_clips s'" "sq_tempo_map t' = sq_tempo_map s'"
    by (rule put_pattern_Inr)
  have "sequencer_content t = sequencer_content t'"
    using assms(2) i j target by (simp add: content_iff put_at_map)
  then show ?thesis using t' PutPattern by blast
next
  case (PutClip b a)
  obtain i where i: "put_target pattern_clip_eq pc_id b a (sq_clips s) = Inr i"
    "sq_clips t = put_at i a (sq_clips s)" "sq_patterns t = sq_patterns s" "sq_tempo_map t = sq_tempo_map s"
    by (rule put_clip_Inr[OF assms(1)[unfolded PutClip]])
  have target: "put_target pattern_clip_eq pc_id b a (sq_clips s') = Inr i"
    using i(1) assms(2) clip_entry.target_cong by (metis content_iff)
  then obtain t' where t': "apply_sequencer_command (PutClip b a) s' = Inr t'"
    using put_clip_target by blast
  then obtain j where j: "put_target pattern_clip_eq pc_id b a (sq_clips s') = Inr j"
    "sq_clips t' = put_at j a (sq_clips s')" "sq_patterns t' = sq_patterns s'" "sq_tempo_map t' = sq_tempo_map s'"
    by (rule put_clip_Inr)
  have "sequencer_content t = sequencer_content t'"
    using assms(2) i j target by (simp add: content_iff put_at_map)
  then show ?thesis using t' PutClip by blast
next
  case (SetTempoMap b a)
  then show ?thesis using assms by (auto simp: content_iff split: if_splits)
qed

lemma command_sound_back:
  assumes "apply_sequencer_command c s = Inr t" "sequencer_sound t"
  shows "sequencer_sound s"
proof (cases c)
  case (PutPattern b a)
  from put_pattern_Inr[OF assms(1)[unfolded this]] show ?thesis
    using assms(2) pattern_entry.sound_back by (metis sequencer_sound_def)
next
  case (PutClip b a)
  from put_clip_Inr[OF assms(1)[unfolded this]] show ?thesis
    using assms(2) clip_entry.sound_back by (metis sequencer_sound_def)
next
  case (SetTempoMap b a)
  then show ?thesis using assms by (auto simp: sequencer_sound_def split: if_splits)
qed

lemma command_undone:
  assumes "apply_sequencer_command c s = Inr t" "sequencer_wf s" "sequencer_sound t"
    and same: "sequencer_content t' = sequencer_content t"
  shows "\<exists>s'. apply_sequencer_command (sequencer_inverse c) t' = Inr s' \<and> sequencer_content s' = sequencer_content s"
proof (cases c)
  case (PutPattern b a)
  obtain i where i: "put_target pattern_eq pd_id b a (sq_patterns s) = Inr i"
    "sq_patterns t = put_at i a (sq_patterns s)" "sq_clips t = sq_clips s" "sq_tempo_map t = sq_tempo_map s"
    by (rule put_pattern_Inr[OF assms(1)[unfolded PutPattern]])
  have u: "put_target pattern_eq pd_id a b (sq_patterns t') = Inr i"
    "bt_map (\<lambda>_. pattern_canon) (put_at i b (sq_patterns t')) = bt_map (\<lambda>_. pattern_canon) (sq_patterns s)"
    by (rule pattern_entry.put_undone[OF i(1)],
        use assms i in \<open>simp_all add: sequencer_wf_def sequencer_sound_def content_iff\<close>)+
  then obtain s' where s': "apply_sequencer_command (PutPattern a b) t' = Inr s'"
    using put_pattern_target by blast
  then obtain j where j: "put_target pattern_eq pd_id a b (sq_patterns t') = Inr j"
    "sq_patterns s' = put_at j b (sq_patterns t')" "sq_clips s' = sq_clips t'" "sq_tempo_map s' = sq_tempo_map t'"
    by (rule put_pattern_Inr)
  have "sequencer_content s' = sequencer_content s"
    using same i j u by (simp add: content_iff)
  then show ?thesis using s' PutPattern by auto
next
  case (PutClip b a)
  obtain i where i: "put_target pattern_clip_eq pc_id b a (sq_clips s) = Inr i"
    "sq_clips t = put_at i a (sq_clips s)" "sq_patterns t = sq_patterns s" "sq_tempo_map t = sq_tempo_map s"
    by (rule put_clip_Inr[OF assms(1)[unfolded PutClip]])
  have u: "put_target pattern_clip_eq pc_id a b (sq_clips t') = Inr i"
    "bt_map (\<lambda>_. pattern_clip_canon) (put_at i b (sq_clips t')) = bt_map (\<lambda>_. pattern_clip_canon) (sq_clips s)"
    by (rule clip_entry.put_undone[OF i(1)],
        use assms i in \<open>simp_all add: sequencer_wf_def sequencer_sound_def content_iff\<close>)+
  then obtain s' where s': "apply_sequencer_command (PutClip a b) t' = Inr s'"
    using put_clip_target by blast
  then obtain j where j: "put_target pattern_clip_eq pc_id a b (sq_clips t') = Inr j"
    "sq_clips s' = put_at j b (sq_clips t')" "sq_patterns s' = sq_patterns t'" "sq_tempo_map s' = sq_tempo_map t'"
    by (rule put_clip_Inr)
  have "sequencer_content s' = sequencer_content s"
    using same i j u by (simp add: content_iff)
  then show ?thesis using s' PutClip by auto
next
  case (SetTempoMap b a)
  then show ?thesis using assms by (auto simp: content_iff split: if_splits)
qed


chapter \<open>Transactions\<close>

text \<open>
  Lists of commands and their inverses, the instance of \<open>reversible\<close>, and the invariant that the
  stacks stay runnable, kept by every mutating method.
\<close>

section \<open>Lists of commands\<close>

definition inverse_commands :: "SequencerCommand list \<Rightarrow> SequencerCommand list" where
  "inverse_commands cs = map sequencer_inverse (rev cs)"

lemma sequencer_inverse_inverse [simp]: "sequencer_inverse (sequencer_inverse c) = c"
  by (cases c) simp_all

lemma inverse_commands_inverse [simp]: "inverse_commands (inverse_commands cs) = cs"
  by (simp add: inverse_commands_def rev_map comp_def)

lemma apply_commands_Cons:
  "apply_sequencer_commands (c # cs) s = Inr t
    \<longleftrightarrow> (\<exists>u. apply_sequencer_command c s = Inr u \<and> apply_sequencer_commands cs u = Inr t)"
  by (auto simp: apply_sequencer_commands_def split: sum.splits)

lemma apply_commands_Nil [simp]: "apply_sequencer_commands [] s = Inr s"
  by (simp add: apply_sequencer_commands_def)

lemma apply_commands_snoc:
  "apply_sequencer_commands (cs @ [c]) s = Inr t
    \<longleftrightarrow> (\<exists>u. apply_sequencer_commands cs s = Inr u \<and> apply_sequencer_command c u = Inr t)"
proof -
  have "fold_r apply_sequencer_command [c] u = apply_sequencer_command c u" for u
    by (cases "apply_sequencer_command c u") (simp_all del: apply_sequencer_command.simps)
  then show ?thesis
    by (simp add: apply_sequencer_commands_def fold_r_append bind_r_eq_Inr del: fold_r.simps(2))
qed

lemma commands_wf: "apply_sequencer_commands cs s = Inr t \<Longrightarrow> sequencer_wf s \<Longrightarrow> sequencer_wf t"
  by (induction cs arbitrary: s) (auto simp: apply_commands_Cons dest: command_wf)

lemma commands_cong:
  assumes "apply_sequencer_commands cs s = Inr t" "sequencer_content s = sequencer_content s'"
  shows "\<exists>t'. apply_sequencer_commands cs s' = Inr t' \<and> sequencer_content t = sequencer_content t'"
  using assms
proof (induction cs arbitrary: s s')
  case (Cons c cs)
  then obtain u where u: "apply_sequencer_command c s = Inr u" "apply_sequencer_commands cs u = Inr t"
    by (auto simp: apply_commands_Cons)
  from command_cong[OF u(1) Cons.prems(2)] obtain u' where
    "apply_sequencer_command c s' = Inr u'" "sequencer_content u = sequencer_content u'" by blast
  then show ?case using Cons.IH[OF u(2)] by (auto simp: apply_commands_Cons)
qed simp

lemma commands_sound_back:
  "apply_sequencer_commands cs s = Inr t \<Longrightarrow> sequencer_sound t \<Longrightarrow> sequencer_sound s"
  by (induction cs arbitrary: s) (auto simp: apply_commands_Cons dest: command_sound_back)

lemma commands_undone:
  assumes "apply_sequencer_commands cs s = Inr t" "sequencer_wf s" "sequencer_sound t"
    "sequencer_content t' = sequencer_content t"
  shows "\<exists>s'. apply_sequencer_commands (inverse_commands cs) t' = Inr s'
    \<and> sequencer_content s' = sequencer_content s"
  using assms
proof (induction cs arbitrary: s)
  case Nil
  then show ?case by (simp add: inverse_commands_def)
next
  case (Cons c cs)
  then obtain u where u: "apply_sequencer_command c s = Inr u" "apply_sequencer_commands cs u = Inr t"
    by (auto simp: apply_commands_Cons)
  have sound: "sequencer_sound u" by (rule commands_sound_back[OF u(2) Cons.prems(3)])
  obtain u' where u': "apply_sequencer_commands (inverse_commands cs) t' = Inr u'"
    "sequencer_content u' = sequencer_content u"
    using Cons.IH[OF u(2) command_wf[OF u(1) Cons.prems(2)] Cons.prems(3,4)] by blast
  obtain s' where "apply_sequencer_command (sequencer_inverse c) u' = Inr s'"
    "sequencer_content s' = sequencer_content s"
    using command_undone[OF u(1) Cons.prems(2) sound u'(2)] by blast
  then show ?case using u'(1) by (auto simp: inverse_commands_def apply_commands_snoc)
qed

section \<open>The contract\<close>

definition sequencer_good :: "float_text \<Rightarrow> Sequencer \<Rightarrow> bool" where
  "sequencer_good debug s \<longleftrightarrow> sequencer_validate debug s = Inr () \<and> sequencer_wf s"

lemma clone_content [simp]: "sequencer_content (clone_without_history s) = sequencer_content s"
  by (simp add: content_iff clone_without_history_def)

lemma clone_wf [simp]: "sequencer_wf (clone_without_history s) = sequencer_wf s"
  by (simp add: sequencer_wf_def clone_without_history_def)

lemma candidate_Inr:
  "candidate_of debug cs s = Inr t
    \<longleftrightarrow> apply_sequencer_commands cs (clone_without_history s) = Inr t \<and> sequencer_validate debug t = Inr ()"
  by (auto simp: candidate_of_def result_simps)

lemma candidate_good:
  "candidate_of debug cs s = Inr t \<Longrightarrow> sequencer_good debug s \<Longrightarrow> sequencer_good debug t"
  by (auto simp: candidate_Inr sequencer_good_def dest: commands_wf)

lemma candidate_cong:
  assumes "candidate_of debug cs s = Inr t" "sequencer_content s = sequencer_content s'"
  shows "\<exists>t'. candidate_of debug cs s' = Inr t' \<and> sequencer_content t = sequencer_content t'"
proof -
  obtain t' where t': "apply_sequencer_commands cs (clone_without_history s') = Inr t'"
    "sequencer_content t = sequencer_content t'"
    using commands_cong[of cs "clone_without_history s" t "clone_without_history s'"] assms
    by (auto simp: candidate_Inr)
  then show ?thesis
    using assms(1) validate_cong[OF t'(2), of debug] by (auto simp: candidate_Inr)
qed

lemma candidate_undone:
  assumes "candidate_of debug cs s = Inr t" "sequencer_good debug s"
  shows "\<exists>u. candidate_of debug (inverse_commands cs) t = Inr u \<and> sequencer_content u = sequencer_content s"
proof -
  have t: "apply_sequencer_commands cs (clone_without_history s) = Inr t" "sequencer_validate debug t = Inr ()"
    using assms(1) by (simp_all add: candidate_Inr)
  obtain u where u: "apply_sequencer_commands (inverse_commands cs) (clone_without_history t) = Inr u"
    "sequencer_content u = sequencer_content s"
    using commands_undone[OF t(1) _ valid_sound[OF t(2)], of "clone_without_history t"] assms(2)
    by (auto simp: sequencer_good_def)
  then show ?thesis
    using assms(2) validate_cong[OF u(2), of debug] by (auto simp: candidate_Inr sequencer_good_def)
qed

interpretation sq: reversible "candidate_of debug" "\<lambda>cs. candidate_of debug (inverse_commands cs)"
    "\<lambda>s t. sequencer_content s = sequencer_content t" "sequencer_good debug" for debug
proof (unfold_locales, goal_cases)
  case (4 s c t) then show ?case by (rule candidate_good[rotated])
next
  case (5 s c t) then show ?case by (rule candidate_good[rotated])
next
  case (6 s s' c t) then show ?case using candidate_cong by blast
next
  case (7 s s' c t) then show ?case using candidate_cong by blast
next
  case (8 s c t) then show ?case using candidate_undone by blast
next
  case (9 s c t)
  then show ?case using candidate_undone[of debug "inverse_commands c" s t] by simp
qed auto

lemma command_keeps_history:
  assumes "apply_sequencer_command c s = Inr t"
  shows "sq_undo t = sq_undo s \<and> sq_redo t = sq_redo s \<and> sq_history_limit t = sq_history_limit s"
proof (cases c)
  case (PutPattern b a)
  from put_pattern_Inr[OF assms[unfolded this]] show ?thesis by metis
next
  case (PutClip b a)
  from put_clip_Inr[OF assms[unfolded this]] show ?thesis by metis
next
  case (SetTempoMap b a)
  then show ?thesis using assms by (auto split: if_splits)
qed

lemma commands_keep_history:
  "apply_sequencer_commands cs s = Inr t \<Longrightarrow> sq_undo t = sq_undo s \<and> sq_redo t = sq_redo s
    \<and> sq_history_limit t = sq_history_limit s"
  by (induction cs arbitrary: s) (auto simp: apply_commands_Cons dest: command_keeps_history)

section \<open>Publishing\<close>

lemma publish_content [simp]: "sequencer_content (publish c s) = sequencer_content c"
  by (simp add: content_iff publish_def)

lemma content_update [simp]:
  "sequencer_content (s\<lparr>sq_undo := us\<rparr>) = sequencer_content s"
  "sequencer_content (s\<lparr>sq_redo := us\<rparr>) = sequencer_content s"
  "sequencer_content (s\<lparr>sq_revision := n\<rparr>) = sequencer_content s"
  "sequencer_content (s\<lparr>sq_history_limit := n\<rparr>) = sequencer_content s"
  "sequencer_content (s\<lparr>sq_next_pattern_id := n\<rparr>) = sequencer_content s"
  "sequencer_content (s\<lparr>sq_next_clip_id := n\<rparr>) = sequencer_content s"
  "sequencer_content (s\<lparr>sq_next_note_id := n\<rparr>) = sequencer_content s"
  "sequencer_content (s\<lparr>sq_next_lane_id := n\<rparr>) = sequencer_content s"
  by (simp_all add: content_iff)

lemma wf_update [simp]:
  "sequencer_wf (publish c s) = sequencer_wf c"
  "sequencer_wf (s\<lparr>sq_undo := us\<rparr>) = sequencer_wf s"
  "sequencer_wf (s\<lparr>sq_redo := us\<rparr>) = sequencer_wf s"
  "sequencer_wf (s\<lparr>sq_revision := n\<rparr>) = sequencer_wf s"
  "sequencer_wf (s\<lparr>sq_history_limit := n\<rparr>) = sequencer_wf s"
  "sequencer_wf (s\<lparr>sq_next_pattern_id := n\<rparr>) = sequencer_wf s"
  "sequencer_wf (s\<lparr>sq_next_clip_id := n\<rparr>) = sequencer_wf s"
  "sequencer_wf (s\<lparr>sq_next_note_id := n\<rparr>) = sequencer_wf s"
  "sequencer_wf (s\<lparr>sq_next_lane_id := n\<rparr>) = sequencer_wf s"
  by (simp_all add: sequencer_wf_def publish_def)

lemma trim_front_subset: "set (trim_front n xs) \<subseteq> set xs"
  by (simp add: trim_front_drop set_drop_subset)

section \<open>The invariant of the history\<close>

definition history_sound :: "float_text \<Rightarrow> Sequencer \<Rightarrow> bool" where
  "history_sound debug s \<longleftrightarrow>
     can_run (\<lambda>cs. candidate_of debug (inverse_commands cs)) (rev (map he_forward (sq_undo s))) s
     \<and> can_run (candidate_of debug) (rev (map he_forward (sq_redo s))) s
     \<and> (\<forall>e \<in> set (sq_undo s) \<union> set (sq_redo s). he_backward e = inverse_commands (he_forward e))
     \<and> (sq_history_limit s = 0 \<longrightarrow> sq_undo s = [] \<and> sq_redo s = [])"

definition sequencer_inv :: "float_text \<Rightarrow> Sequencer \<Rightarrow> bool" where
  "sequencer_inv debug s \<longleftrightarrow> sequencer_good debug s \<and> history_sound debug s"

lemma new_inv: "sequencer_inv debug (sequencer_new m)"
  by (simp add: sequencer_inv_def sequencer_good_def history_sound_def sequencer_new_def
      sequencer_validate_def sequencer_wf_def lift_error_def)

text \<open>The stacks stay runnable when only counters or the revision change.\<close>

lemma history_cong:
  assumes "history_sound debug s" "sequencer_good debug s" "sequencer_content t = sequencer_content s"
    "sequencer_wf t" "sq_undo t = sq_undo s" "sq_redo t = sq_redo s"
    "sq_history_limit t = sq_history_limit s"
  shows "sequencer_inv debug t"
proof -
  have t: "sequencer_good debug t"
    using assms(2,4) validate_cong[OF assms(3), of debug] by (simp add: sequencer_good_def)
  show ?thesis
    using assms(1) sq.can_run_bwd_cong[OF _ assms(2) t assms(3)[symmetric]]
      sq.can_run_fwd_cong[OF _ assms(2) t assms(3)[symmetric]] t
    by (auto simp: sequencer_inv_def history_sound_def assms(5-7))
qed

lemma sequencer_execute_inv:
  assumes "sequencer_inv debug s" "sequencer_execute debug label cs s = Inr t"
  shows "sequencer_inv debug t"
proof (cases "cs = []")
  case False
  define fw where "fw = prepare_pattern_divergence cs"
  obtain c where c: "candidate_of debug fw s = Inr c"
    and t: "t = (let s' = (publish c s)\<lparr>sq_redo := []\<rparr>
              in if sq_history_limit s' = 0 then s'
                 else s'\<lparr>sq_undo := trim_front (sq_history_limit s') (sq_undo s' @ [\<lparr>he_label = label,
                   he_forward = fw, he_backward = map sequencer_inverse (rev fw)\<rparr>])\<rparr>)"
    using assms(2) False by (auto simp: sequencer_execute_def fw_def Let_def bind_r_eq_Inr)
  let ?bwd = "\<lambda>cs. candidate_of debug (inverse_commands cs)"
  have good: "sequencer_good debug s" "sequencer_good debug c"
    using assms(1) candidate_good[OF c] by (simp_all add: sequencer_inv_def)
  have us: "can_run ?bwd (rev (map he_forward (sq_undo s))) s"
    using assms(1) by (simp add: sequencer_inv_def history_sound_def)
  have pushed: "can_run ?bwd (fw # rev (map he_forward (sq_undo s))) c"
    by (rule sq.push_undo[OF good(1) us c])
  have content: "sequencer_content t = sequencer_content c" "sequencer_wf t"
    using good(2) by (simp_all add: t Let_def sequencer_good_def)
  have t_good: "sequencer_good debug t"
    using good(2) content(2) validate_cong[OF content(1), of debug] by (simp add: sequencer_good_def)
  have "can_run ?bwd (rev (map he_forward (sq_undo t))) c"
  proof (cases "sq_history_limit s = 0")
    case True
    then show ?thesis using assms(1) by (simp add: t Let_def publish_def sequencer_inv_def history_sound_def)
  next
    case False
    have "can_run ?bwd (rev (map he_forward (sq_undo s) @ [fw])) c" using pushed by simp
    from can_run_trim[OF this, of "sq_history_limit s"] False show ?thesis
      by (simp add: t Let_def publish_def map_trim_front)
  qed
  then have "can_run ?bwd (rev (map he_forward (sq_undo t))) t"
    by (rule sq.can_run_bwd_cong[OF _ good(2) t_good content(1)[symmetric]])
  moreover have "set (sq_undo t) \<subseteq> insert \<lparr>he_label = label, he_forward = fw,
      he_backward = inverse_commands fw\<rparr> (set (sq_undo s))"
    using trim_front_subset[of "sq_history_limit s" "sq_undo s @ [\<lparr>he_label = label, he_forward = fw,
      he_backward = map sequencer_inverse (rev fw)\<rparr>]"]
    by (auto simp: t Let_def publish_def inverse_commands_def)
  moreover have "sq_redo t = []" "sq_history_limit t = sq_history_limit s"
    "sq_history_limit s = 0 \<Longrightarrow> sq_undo t = sq_undo s"
    by (simp_all add: t Let_def publish_def)
  ultimately show ?thesis
    using assms(1) t_good by (fastforce simp: sequencer_inv_def history_sound_def)
qed (use assms in \<open>simp add: sequencer_execute_def\<close>)

lemma last_split: "xs \<noteq> [] \<Longrightarrow> rev (map f xs) = f (last xs) # rev (map f (butlast xs))"
  by (cases xs rule: rev_cases) simp_all

lemma in_butlast: "x \<in> set (butlast xs) \<Longrightarrow> x \<in> set xs"
  by (rule in_set_butlastD)

lemma undo_step:
  assumes "sequencer_inv debug s" "sq_undo s \<noteq> []"
  obtains c where "candidate_of debug (inverse_commands (he_forward (last (sq_undo s)))) s = Inr c"
    "sequencer_undo debug s = Inr (Some ((publish c s)\<lparr>sq_undo := butlast (sq_undo s),
       sq_redo := sq_redo s @ [last (sq_undo s)]\<rparr>))"
    "can_run (\<lambda>cs. candidate_of debug (inverse_commands cs)) (rev (map he_forward (butlast (sq_undo s)))) c"
proof -
  have "can_run (\<lambda>cs. candidate_of debug (inverse_commands cs)) (rev (map he_forward (sq_undo s))) s"
    and entry: "he_backward (last (sq_undo s)) = inverse_commands (he_forward (last (sq_undo s)))"
    using assms by (simp_all add: sequencer_inv_def history_sound_def)
  then obtain c where "candidate_of debug (inverse_commands (he_forward (last (sq_undo s)))) s = Inr c"
    "can_run (\<lambda>cs. candidate_of debug (inverse_commands cs)) (rev (map he_forward (butlast (sq_undo s)))) c"
    using last_split[OF assms(2), of he_forward] by (auto split: sum.splits)
  then show thesis
    using that assms(2) entry by (simp add: sequencer_undo_def Let_def)
qed

lemma redo_step:
  assumes "sequencer_inv debug s" "sq_redo s \<noteq> []"
  obtains c where "candidate_of debug (he_forward (last (sq_redo s))) s = Inr c"
    "sequencer_redo debug s = Inr (Some ((publish c s)\<lparr>sq_undo := sq_undo s @ [last (sq_redo s)],
       sq_redo := butlast (sq_redo s)\<rparr>))"
    "can_run (candidate_of debug) (rev (map he_forward (butlast (sq_redo s)))) c"
proof -
  have "can_run (candidate_of debug) (rev (map he_forward (sq_redo s))) s"
    using assms by (simp add: sequencer_inv_def history_sound_def)
  then obtain c where "candidate_of debug (he_forward (last (sq_redo s))) s = Inr c"
    "can_run (candidate_of debug) (rev (map he_forward (butlast (sq_redo s)))) c"
    using last_split[OF assms(2), of he_forward] by (auto split: sum.splits)
  then show thesis
    using that assms(2) by (simp add: sequencer_redo_def Let_def)
qed

text \<open>A state with the content of \<open>c\<close> and stacks that run from \<open>c\<close>.\<close>

lemma inv_intro:
  assumes "sequencer_good debug c" "sequencer_content t = sequencer_content c" "sequencer_wf t"
    and "can_run (\<lambda>cs. candidate_of debug (inverse_commands cs)) (rev (map he_forward (sq_undo t))) c"
    and "can_run (candidate_of debug) (rev (map he_forward (sq_redo t))) c"
    and "\<forall>e \<in> set (sq_undo t) \<union> set (sq_redo t). he_backward e = inverse_commands (he_forward e)"
    and "sq_history_limit t = 0 \<Longrightarrow> sq_undo t = [] \<and> sq_redo t = []"
  shows "sequencer_inv debug t"
proof -
  have good: "sequencer_good debug t"
    using assms(1,3) validate_cong[OF assms(2), of debug] by (simp add: sequencer_good_def)
  show ?thesis
    using sq.can_run_bwd_cong[OF assms(4,1) good assms(2)[symmetric]]
      sq.can_run_fwd_cong[OF assms(5,1) good assms(2)[symmetric]] good assms(6,7)
    by (simp add: sequencer_inv_def history_sound_def)
qed

lemma sequencer_undo_inv:
  assumes "sequencer_inv debug s" "sequencer_undo debug s = Inr (Some t)"
  shows "sequencer_inv debug t"
proof -
  have ne: "sq_undo s \<noteq> []" using assms(2) by (auto simp: sequencer_undo_def)
  have good: "sequencer_good debug s" and redo: "can_run (candidate_of debug) (rev (map he_forward (sq_redo s))) s"
    using assms(1) by (simp_all add: sequencer_inv_def history_sound_def)
  obtain c where c: "candidate_of debug (inverse_commands (he_forward (last (sq_undo s)))) s = Inr c"
    "sequencer_undo debug s = Inr (Some ((publish c s)\<lparr>sq_undo := butlast (sq_undo s),
       sq_redo := sq_redo s @ [last (sq_undo s)]\<rparr>))"
    "can_run (\<lambda>cs. candidate_of debug (inverse_commands cs)) (rev (map he_forward (butlast (sq_undo s)))) c"
    by (rule undo_step[OF assms(1) ne])
  have t: "t = (publish c s)\<lparr>sq_undo := butlast (sq_undo s), sq_redo := sq_redo s @ [last (sq_undo s)]\<rparr>"
    using c(2) assms(2) by simp
  have cg: "sequencer_good debug c" by (rule candidate_good[OF c(1) good])
  show ?thesis
  proof (rule inv_intro[OF cg])
    show "can_run (candidate_of debug) (rev (map he_forward (sq_redo t))) c"
      using sq.push_redo[OF good redo c(1)] by (simp add: t)
    show "\<forall>e \<in> set (sq_undo t) \<union> set (sq_redo t). he_backward e = inverse_commands (he_forward e)"
      using assms(1) ne by (auto simp: t sequencer_inv_def history_sound_def dest: in_butlast)
    show "sq_history_limit t = 0 \<Longrightarrow> sq_undo t = [] \<and> sq_redo t = []"
      using assms(1) ne by (simp add: t publish_def sequencer_inv_def history_sound_def)
  qed (use c(3) cg in \<open>simp_all add: t sequencer_good_def\<close>)
qed

lemma sequencer_redo_inv:
  assumes "sequencer_inv debug s" "sequencer_redo debug s = Inr (Some t)"
  shows "sequencer_inv debug t"
proof -
  have ne: "sq_redo s \<noteq> []" using assms(2) by (auto simp: sequencer_redo_def)
  have good: "sequencer_good debug s"
    and undo: "can_run (\<lambda>cs. candidate_of debug (inverse_commands cs)) (rev (map he_forward (sq_undo s))) s"
    using assms(1) by (simp_all add: sequencer_inv_def history_sound_def)
  obtain c where c: "candidate_of debug (he_forward (last (sq_redo s))) s = Inr c"
    "sequencer_redo debug s = Inr (Some ((publish c s)\<lparr>sq_undo := sq_undo s @ [last (sq_redo s)],
       sq_redo := butlast (sq_redo s)\<rparr>))"
    "can_run (candidate_of debug) (rev (map he_forward (butlast (sq_redo s)))) c"
    by (rule redo_step[OF assms(1) ne])
  have t: "t = (publish c s)\<lparr>sq_undo := sq_undo s @ [last (sq_redo s)], sq_redo := butlast (sq_redo s)\<rparr>"
    using c(2) assms(2) by simp
  have cg: "sequencer_good debug c" by (rule candidate_good[OF c(1) good])
  show ?thesis
  proof (rule inv_intro[OF cg])
    show "can_run (\<lambda>cs. candidate_of debug (inverse_commands cs)) (rev (map he_forward (sq_undo t))) c"
      using sq.push_undo[OF good undo c(1)] by (simp add: t)
    show "\<forall>e \<in> set (sq_undo t) \<union> set (sq_redo t). he_backward e = inverse_commands (he_forward e)"
      using assms(1) ne by (auto simp: t sequencer_inv_def history_sound_def dest: in_butlast)
    show "sq_history_limit t = 0 \<Longrightarrow> sq_undo t = [] \<and> sq_redo t = []"
      using assms(1) ne by (simp add: t publish_def sequencer_inv_def history_sound_def)
  qed (use c(3) cg in \<open>simp_all add: t sequencer_good_def\<close>)
qed

lemma limit_inv:
  assumes "sequencer_inv debug s"
  shows "sequencer_inv debug (sequencer_set_history_limit limit s)"
proof (rule inv_intro)
  let ?t = "sequencer_set_history_limit limit s"
  show "sequencer_good debug s" "sequencer_content ?t = sequencer_content s" "sequencer_wf ?t"
    using assms by (simp_all add: sequencer_inv_def sequencer_set_history_limit_def sequencer_good_def)
  have undo: "can_run (\<lambda>cs. candidate_of debug (inverse_commands cs)) (rev (map he_forward (sq_undo s))) s"
    and redo: "can_run (candidate_of debug) (rev (map he_forward (sq_redo s))) s"
    and entry: "\<forall>e \<in> set (sq_undo s) \<union> set (sq_redo s). he_backward e = inverse_commands (he_forward e)"
    using assms by (simp_all add: sequencer_inv_def history_sound_def)
  show "can_run (\<lambda>cs. candidate_of debug (inverse_commands cs)) (rev (map he_forward (sq_undo ?t))) s"
    using can_run_trim[OF undo] by (simp add: sequencer_set_history_limit_def map_trim_front)
  show "can_run (candidate_of debug) (rev (map he_forward (sq_redo ?t))) s"
    using redo can_run_trim[OF redo, of limit]
    by (simp add: sequencer_set_history_limit_def trim_front_drop drop_map)
  show "\<forall>e \<in> set (sq_undo ?t) \<union> set (sq_redo ?t). he_backward e = inverse_commands (he_forward e)"
  proof -
    have "set (sq_undo ?t) \<subseteq> set (sq_undo s)"
      by (simp add: sequencer_set_history_limit_def trim_front_subset)
    moreover have "set (sq_redo ?t) \<subseteq> set (sq_redo s)"
      by (simp add: sequencer_set_history_limit_def set_drop_subset)
    ultimately show ?thesis using entry by blast
  qed
  show "sq_history_limit ?t = 0 \<Longrightarrow> sq_undo ?t = [] \<and> sq_redo ?t = []"
    by (simp add: sequencer_set_history_limit_def trim_front_drop)
qed

lemma without_history_inv:
  assumes "sequencer_inv debug s" "apply_without_history debug cs s = Inr t"
  shows "sequencer_inv debug t"
proof (cases "cs = []")
  case False
  then obtain c where c: "candidate_of debug (prepare_pattern_divergence cs) s = Inr c"
    "t = c\<lparr>sq_revision := sat_add_u64 (sq_revision c) 1\<rparr>"
    using assms(2) by (auto simp: apply_without_history_def bind_r_eq_Inr)
  have good: "sequencer_good debug c"
    using candidate_good[OF c(1)] assms(1) by (simp add: sequencer_inv_def)
  have "sq_undo c = []" "sq_redo c = []"
    using c(1) commands_keep_history[of "prepare_pattern_divergence cs" "clone_without_history s" c]
    by (simp_all add: candidate_Inr clone_without_history_def)
  then show ?thesis
    by (intro inv_intro[OF good]) (use good in \<open>simp_all add: c(2) sequencer_good_def\<close>)
qed (use assms in \<open>simp add: apply_without_history_def\<close>)

end
