(* ===== verification/Sequencer_Reachable.thy ===== *)
theory Sequencer_Reachable
  imports Sequencer_History
begin

text \<open>
  The sequencers the public methods can make: the history stays runnable, and every counter lies
  above the identifiers of its kind, so allocated identifiers are fresh.
\<close>

section \<open>Counters\<close>

definition ids_above :: "nat list \<Rightarrow> nat \<Rightarrow> bool" where
  "ids_above ids counter \<longleftrightarrow> (\<forall>i \<in> set ids. sat_add_u64 i 1 \<le> counter)"

definition sequencer_counters_ok :: "Sequencer \<Rightarrow> bool" where
  "sequencer_counters_ok s \<longleftrightarrow> ids_above (map raw (bt_keys (sq_patterns s))) (sq_next_pattern_id s)
     \<and> ids_above (map raw (bt_keys (sq_clips s))) (sq_next_clip_id s)
     \<and> (\<forall>p \<in> set (bt_values (sq_patterns s)). ids_above (note_ids p) (sq_next_note_id s)
          \<and> ids_above (lane_ids p) (sq_next_lane_id s))"

lemma above_mono: "ids_above ids m \<Longrightarrow> m \<le> n \<Longrightarrow> ids_above ids n"
  by (auto simp: ids_above_def)

lemma sat_add_mono: "a \<le> b \<Longrightarrow> sat_add_u64 a c \<le> sat_add_u64 b c"
  by (simp add: sat_add_u64_def)

lemma fold_max_ge: "x \<in> set xs \<Longrightarrow> (x :: nat) \<le> fold max xs y" "(y :: nat) \<le> fold max xs y"
proof (induction xs arbitrary: y)
  case (Cons a xs)
  { case 1
    then show ?case using Cons.IH(1)[of "max a y"] Cons.IH(2)[of "max a y"] by auto }
  { case 2
    show ?case using Cons.IH(2)[of "max a y"] by simp }
qed simp_all

lemma above_largest: "after_largest ids \<le> n \<Longrightarrow> ids_above ids n"
  using sat_add_mono[OF fold_max_ge(1)] unfolding ids_above_def after_largest_def by (meson order_trans)

lemma above_bump_over: "ids_above (map raw (bt_keys m)) (bump_over counter (largest_id m))"
  unfolding ids_above_def
proof
  fix i assume i: "i \<in> set (map raw (bt_keys m))"
  then have "m \<noteq> []" by (auto simp: bt_keys_def)
  then show "sat_add_u64 i 1 \<le> bump_over counter (largest_id m)"
    using sat_add_mono[OF fold_max_ge(1)[OF i], of 1 0]
    by (simp add: bump_over_def largest_id_def bump_def max.coboundedI2)
qed

lemma bump_over_ge: "counter \<le> bump_over counter x"
  by (simp add: bump_over_def bump_def split: option.splits)

lemma keys_insert: "set (bt_keys (bt_insert i v m)) = insert i (set (bt_keys m))"
  by (simp add: bt_keys_def)

lemma keys_remove: "set (bt_keys (bt_remove i m)) \<subseteq> set (bt_keys m)"
  by (auto simp: bt_keys_def bt_remove_def)

lemma insert_entries: "set (bt_insert k v m) \<subseteq> insert (k, v) (set m)"
  by (induction k v m rule: bt_insert.induct) auto

lemma values_insert: "set (bt_values (bt_insert i v m)) \<subseteq> insert v (set (bt_values m))"
  using image_mono[OF insert_entries, of snd i v m] by (auto simp: bt_values_def)

lemma values_remove: "set (bt_values (bt_remove i m)) \<subseteq> set (bt_values m)"
  by (auto simp: bt_values_def bt_remove_def)

lemma above_subset: "ids_above xs n \<Longrightarrow> set ys \<subseteq> set xs \<Longrightarrow> ids_above ys n"
  by (auto simp: ids_above_def)

lemma above_keys_insert:
  assumes "ids_above (map raw (bt_keys m)) counter"
  shows "ids_above (map raw (bt_keys (bt_insert i v m))) (bump counter (raw i))"
  using assms by (auto simp: ids_above_def keys_insert bump_def max.coboundedI1)

lemma above_keys_remove:
  "ids_above (map raw (bt_keys m)) counter \<Longrightarrow> ids_above (map raw (bt_keys (bt_remove i m))) counter"
  by (erule above_subset) (simp only: set_map image_mono keys_remove)

lemma command_counters:
  assumes "apply_sequencer_command c s = Inr t" "sequencer_counters_ok s"
  shows "sequencer_counters_ok t"
proof (cases c)
  case (PutPattern b a)
  then obtain i where i: "put_target pattern_eq pd_id b a (sq_patterns s) = Inr i"
    using assms(1) by (auto simp: bind_r_eq_Inr)
  show ?thesis
  proof (cases a)
    case None
    then have t: "t = s\<lparr>sq_patterns := bt_remove i (sq_patterns s)\<rparr>"
      using assms(1) PutPattern i by simp
    show ?thesis
      using assms(2) values_remove[of i "sq_patterns s"] by (auto simp: t sequencer_counters_ok_def above_keys_remove)
  next
    case (Some p)
    let ?s = "s\<lparr>sq_patterns := bt_insert i p (sq_patterns s), sq_next_pattern_id := bump (sq_next_pattern_id s) (raw i)\<rparr>"
    have t: "t = (case pd_content p of
              Notes ns \<Rightarrow> ?s\<lparr>sq_next_note_id := bump_over (sq_next_note_id s) (largest_id ns)\<rparr>
            | Steps ps \<Rightarrow> ?s\<lparr>sq_next_lane_id := bump_over (sq_next_lane_id s) (largest_id (sp_lanes ps))\<rparr>)"
      using assms(1) PutPattern Some i by (auto split: PatternContent.splits)
    have vals: "q = p \<or> q \<in> set (bt_values (sq_patterns s))"
      if "q \<in> set (bt_values (bt_insert i p (sq_patterns s)))" for q
      using values_insert[of i p "sq_patterns s"] that by blast
    show ?thesis
    proof (cases "pd_content p")
      case (Notes ns)
      have "ids_above (note_ids p) (bump_over (sq_next_note_id s) (largest_id ns))" "ids_above (lane_ids p) n" for n
        using above_bump_over by (simp_all add: note_ids_def lane_ids_def Notes ids_above_def)
      then show ?thesis
        using assms(2) above_mono[OF _ bump_over_ge]
        by (auto simp: t Notes sequencer_counters_ok_def above_keys_insert dest!: vals)
    next
      case (Steps ps)
      have "ids_above (lane_ids p) (bump_over (sq_next_lane_id s) (largest_id (sp_lanes ps)))" "ids_above (note_ids p) n" for n
        using above_bump_over by (simp_all add: note_ids_def lane_ids_def Steps ids_above_def)
      then show ?thesis
        using assms(2) above_mono[OF _ bump_over_ge]
        by (auto simp: t Steps sequencer_counters_ok_def above_keys_insert dest!: vals)
    qed
  qed
next
  case (PutClip b a)
  then obtain i where i: "put_target pattern_clip_eq pc_id b a (sq_clips s) = Inr i"
    using assms(1) by (auto simp: bind_r_eq_Inr)
  then show ?thesis
    using assms PutClip by (cases a) (auto simp: sequencer_counters_ok_def above_keys_insert above_keys_remove)
next
  case (SetTempoMap b a)
  then show ?thesis using assms by (auto simp: sequencer_counters_ok_def split: if_splits)
qed

lemma commands_counters: "apply_sequencer_commands cs s = Inr t \<Longrightarrow> sequencer_counters_ok s \<Longrightarrow> sequencer_counters_ok t"
  by (induction cs arbitrary: s) (auto simp: apply_commands_Cons dest: command_counters)

lemma candidate_counters:
  assumes "candidate_of debug cs s = Inr t" "sequencer_counters_ok s"
  shows "sequencer_counters_ok t"
proof -
  have "sequencer_counters_ok (clone_without_history s)"
    using assms(2) by (simp add: sequencer_counters_ok_def clone_without_history_def)
  then show ?thesis using assms(1) commands_counters by (auto simp: candidate_Inr)
qed

lemma publish_counters: "sequencer_counters_ok c \<Longrightarrow> sequencer_counters_ok (publish c s)"
  by (auto simp: sequencer_counters_ok_def publish_def elim!: above_mono)

lemma counters_update [simp]:
  "sequencer_counters_ok (s\<lparr>sq_undo := us\<rparr>) = sequencer_counters_ok s"
  "sequencer_counters_ok (s\<lparr>sq_redo := us\<rparr>) = sequencer_counters_ok s"
  "sequencer_counters_ok (s\<lparr>sq_revision := n\<rparr>) = sequencer_counters_ok s"
  "sequencer_counters_ok (s\<lparr>sq_history_limit := n\<rparr>) = sequencer_counters_ok s"
  by (simp_all add: sequencer_counters_ok_def)

lemma restore_counters: "restore_allocator_state state s = Inr t \<Longrightarrow> sequencer_counters_ok t"
  by (auto simp: restore_allocator_state_def Let_def required_allocators_def sequencer_counters_ok_def not_less
      above_largest split: if_splits)
    (auto simp: ids_above_def dest!: above_largest)

lemma allocate_counters:
  "sequencer_counters_ok s \<Longrightarrow> sq_next_pattern_id s \<le> u64_max \<Longrightarrow> sequencer_counters_ok (snd (allocate_pattern_id s))"
  "sequencer_counters_ok s \<Longrightarrow> sq_next_clip_id s \<le> u64_max \<Longrightarrow> sequencer_counters_ok (snd (allocate_pattern_clip_id s))"
  "sequencer_counters_ok s \<Longrightarrow> sq_next_note_id s \<le> u64_max \<Longrightarrow> sequencer_counters_ok (snd (allocate_note_id s))"
  "sequencer_counters_ok s \<Longrightarrow> sq_next_lane_id s \<le> u64_max \<Longrightarrow> sequencer_counters_ok (snd (allocate_step_lane_id s))"
  by (auto simp: sequencer_counters_ok_def allocate_pattern_id_def allocate_pattern_clip_id_def allocate_note_id_def
      allocate_step_lane_id_def sat_add_u64_def ids_above_def) fastforce+


text \<open>The counters are \<open>u64\<close> values.\<close>

definition counters_bounded :: "Sequencer \<Rightarrow> bool" where
  "counters_bounded s \<longleftrightarrow> sq_next_pattern_id s \<le> u64_max \<and> sq_next_clip_id s \<le> u64_max
     \<and> sq_next_note_id s \<le> u64_max \<and> sq_next_lane_id s \<le> u64_max"

lemma bump_bounded: "n \<le> u64_max \<Longrightarrow> bump n i \<le> u64_max" "n \<le> u64_max \<Longrightarrow> bump_over n x \<le> u64_max"
  by (auto simp: bump_def bump_over_def sat_add_u64_def split: option.splits)

lemma command_bounded:
  assumes "apply_sequencer_command c s = Inr t" "counters_bounded s"
  shows "counters_bounded t"
proof (cases c)
  case (PutPattern b a)
  show ?thesis
  proof (cases a)
    case (Some p)
    then show ?thesis
      using assms PutPattern by (cases "pd_content p") (auto simp: bind_r_eq_Inr counters_bounded_def Let_def bump_bounded)
  qed (use assms PutPattern in \<open>auto simp: bind_r_eq_Inr counters_bounded_def\<close>)
next
  case (PutClip b a)
  then show ?thesis
    using assms by (cases a) (auto simp: bind_r_eq_Inr counters_bounded_def bump_bounded)
qed (use assms in \<open>auto simp: counters_bounded_def split: if_splits\<close>)

lemma commands_bounded:
  "apply_sequencer_commands cs s = Inr t \<Longrightarrow> counters_bounded s \<Longrightarrow> counters_bounded t"
  by (induction cs arbitrary: s) (auto simp: apply_commands_Cons dest: command_bounded)

lemma candidate_bounded:
  assumes "candidate_of debug cs s = Inr t" "counters_bounded s"
  shows "counters_bounded t"
proof -
  have "counters_bounded (clone_without_history s)"
    using assms(2) by (simp add: counters_bounded_def clone_without_history_def)
  then show ?thesis using assms(1) commands_bounded by (auto simp: candidate_Inr)
qed

lemma publish_bounded: "counters_bounded c \<Longrightarrow> counters_bounded s \<Longrightarrow> counters_bounded (publish c s)"
  by (simp add: counters_bounded_def publish_def)

lemma bounded_update [simp]:
  "counters_bounded (s\<lparr>sq_undo := us\<rparr>) = counters_bounded s"
  "counters_bounded (s\<lparr>sq_redo := us\<rparr>) = counters_bounded s"
  "counters_bounded (s\<lparr>sq_revision := n\<rparr>) = counters_bounded s"
  "counters_bounded (s\<lparr>sq_history_limit := n\<rparr>) = counters_bounded s"
  by (simp_all add: counters_bounded_def)

section \<open>Reachable sequencers\<close>

inductive sequencer_reachable :: "float_text \<Rightarrow> Sequencer \<Rightarrow> bool" for debug where
  sq_new: "sequencer_reachable debug (sequencer_new m)"
| sq_execute: "sequencer_reachable debug s \<Longrightarrow> sequencer_execute debug label cs s = Inr t
    \<Longrightarrow> sequencer_reachable debug t"
| sq_apply: "sequencer_reachable debug s \<Longrightarrow> apply_without_history debug cs s = Inr t
    \<Longrightarrow> sequencer_reachable debug t"
| sq_undone: "sequencer_reachable debug s \<Longrightarrow> sequencer_undo debug s = Inr (Some t)
    \<Longrightarrow> sequencer_reachable debug t"
| sq_redone: "sequencer_reachable debug s \<Longrightarrow> sequencer_redo debug s = Inr (Some t)
    \<Longrightarrow> sequencer_reachable debug t"
| sq_limit: "sequencer_reachable debug s \<Longrightarrow> sequencer_reachable debug (sequencer_set_history_limit limit s)"
| sq_restore: "sequencer_reachable debug s \<Longrightarrow> restore_allocator_state state s = Inr t
    \<Longrightarrow> sa_next_pattern_id state \<le> u64_max \<Longrightarrow> sa_next_clip_id state \<le> u64_max
    \<Longrightarrow> sa_next_note_id state \<le> u64_max \<Longrightarrow> sa_next_lane_id state \<le> u64_max
    \<Longrightarrow> sequencer_reachable debug t"
| sq_pattern: "sequencer_reachable debug s \<Longrightarrow> sequencer_reachable debug (snd (allocate_pattern_id s))"
| sq_clip: "sequencer_reachable debug s \<Longrightarrow> sequencer_reachable debug (snd (allocate_pattern_clip_id s))"
| sq_note: "sequencer_reachable debug s \<Longrightarrow> sequencer_reachable debug (snd (allocate_note_id s))"
| sq_lane: "sequencer_reachable debug s \<Longrightarrow> sequencer_reachable debug (snd (allocate_step_lane_id s))"

lemma inv_counters:
  assumes "sequencer_inv debug s" "sequencer_content t = sequencer_content s" "sequencer_wf t"
    "sq_undo t = sq_undo s" "sq_redo t = sq_redo s" "sq_history_limit t = sq_history_limit s"
  shows "sequencer_inv debug t"
  by (rule history_cong[OF _ _ assms(2-6)]) (use assms(1) in \<open>simp_all add: sequencer_inv_def\<close>)

lemma allocate_inv:
  assumes "sequencer_inv debug s"
  shows "sequencer_inv debug (snd (allocate_pattern_id s))" "sequencer_inv debug (snd (allocate_pattern_clip_id s))"
    "sequencer_inv debug (snd (allocate_note_id s))" "sequencer_inv debug (snd (allocate_step_lane_id s))"
proof -
  have wf: "sequencer_wf s" using assms by (simp add: sequencer_inv_def sequencer_good_def)
  show "sequencer_inv debug (snd (allocate_pattern_id s))" "sequencer_inv debug (snd (allocate_pattern_clip_id s))"
    "sequencer_inv debug (snd (allocate_note_id s))" "sequencer_inv debug (snd (allocate_step_lane_id s))"
    by (rule inv_counters[OF assms], simp_all add: wf allocate_pattern_id_def allocate_pattern_clip_id_def
        allocate_note_id_def allocate_step_lane_id_def)+
qed

lemma restore_inv:
  assumes "sequencer_inv debug s" "restore_allocator_state state s = Inr t"
  shows "sequencer_inv debug t"
proof -
  have wf: "sequencer_wf s" using assms(1) by (simp add: sequencer_inv_def sequencer_good_def)
  have "t = s\<lparr>sq_next_pattern_id := sa_next_pattern_id state, sq_next_clip_id := sa_next_clip_id state,
      sq_next_note_id := sa_next_note_id state, sq_next_lane_id := sa_next_lane_id state\<rparr>"
    using assms(2) by (simp add: restore_allocator_state_def Let_def split: if_splits)
  then show ?thesis by (intro inv_counters[OF assms(1)]) (simp_all add: wf)
qed

lemma sequencer_reachable_inv: "sequencer_reachable debug s \<Longrightarrow> sequencer_inv debug s"
  by (induction rule: sequencer_reachable.induct)
    (auto intro: new_inv sequencer_execute_inv without_history_inv sequencer_undo_inv sequencer_redo_inv limit_inv restore_inv allocate_inv)

lemma execute_counters:
  assumes "sequencer_execute debug label cs s = Inr t" "sequencer_counters_ok s" "counters_bounded s"
  shows "sequencer_counters_ok t \<and> counters_bounded t"
proof (cases "cs = []")
  case False
  then obtain c where "candidate_of debug (prepare_pattern_divergence cs) s = Inr c"
    and t: "t = (let s' = (publish c s)\<lparr>sq_redo := []\<rparr>
              in if sq_history_limit s' = 0 then s'
                 else s'\<lparr>sq_undo := trim_front (sq_history_limit s') (sq_undo s' @ [\<lparr>he_label = label,
                   he_forward = prepare_pattern_divergence cs,
                   he_backward = map sequencer_inverse (rev (prepare_pattern_divergence cs))\<rparr>])\<rparr>)"
    using assms(1) by (auto simp: sequencer_execute_def Let_def bind_r_eq_Inr)
  then have "sequencer_counters_ok c" "counters_bounded c"
    using assms(2,3) candidate_counters candidate_bounded by blast+
  then show ?thesis
    using assms(3) by (simp add: t Let_def publish_counters publish_bounded)
qed (use assms in \<open>simp add: sequencer_execute_def\<close>)

lemma undo_counters:
  assumes "sequencer_undo debug s = Inr (Some t) \<or> sequencer_redo debug s = Inr (Some t)"
    "sequencer_counters_ok s" "counters_bounded s"
  shows "sequencer_counters_ok t \<and> counters_bounded t"
proof -
  obtain cs c us rs where "candidate_of debug cs s = Inr c"
    and t: "t = (publish c s)\<lparr>sq_undo := us, sq_redo := rs\<rparr>"
    using assms(1) by (auto simp: sequencer_undo_def sequencer_redo_def Let_def bind_r_eq_Inr split: if_splits)
  then have "sequencer_counters_ok c" "counters_bounded c"
    using assms(2,3) candidate_counters candidate_bounded by blast+
  then show ?thesis using assms(3) by (simp add: t publish_counters publish_bounded)
qed

lemma reachable_counters: "sequencer_reachable debug s \<Longrightarrow> sequencer_counters_ok s \<and> counters_bounded s"
proof (induction rule: sequencer_reachable.induct)
  case (sq_new m)
  show ?case
    by (simp add: sequencer_counters_ok_def counters_bounded_def sequencer_new_def ids_above_def bt_keys_def
        bt_values_def u64_max_def)
next
  case (sq_execute s label cs t)
  then show ?case using execute_counters by blast
next
  case (sq_apply s cs t)
  show ?case
  proof (cases "cs = []")
    case False
    then obtain c where c: "candidate_of debug (prepare_pattern_divergence cs) s = Inr c"
      "t = c\<lparr>sq_revision := sat_add_u64 (sq_revision c) 1\<rparr>"
      using sq_apply(2) by (auto simp: apply_without_history_def bind_r_eq_Inr)
    then show ?thesis
      using sq_apply(3) candidate_counters[OF c(1)] candidate_bounded[OF c(1)] by simp
  qed (use sq_apply in \<open>simp add: apply_without_history_def\<close>)
next
  case (sq_undone s t)
  then show ?case using undo_counters by blast
next
  case (sq_redone s t)
  then show ?case using undo_counters by blast
next
  case (sq_limit s limit)
  then show ?case by (simp add: sequencer_set_history_limit_def)
next
  case (sq_restore s state t)
  then show ?case
    using restore_counters[OF sq_restore(2)]
    by (auto simp: restore_allocator_state_def Let_def counters_bounded_def split: if_splits)
next
  case (sq_pattern s)
  then show ?case using allocate_counters(1)
    by (auto simp: counters_bounded_def allocate_pattern_id_def sat_add_u64_def)
next
  case (sq_clip s)
  then show ?case using allocate_counters(2)
    by (auto simp: counters_bounded_def allocate_pattern_clip_id_def sat_add_u64_def)
next
  case (sq_note s)
  then show ?case using allocate_counters(3)
    by (auto simp: counters_bounded_def allocate_note_id_def sat_add_u64_def)
next
  case (sq_lane s)
  then show ?case using allocate_counters(4)
    by (auto simp: counters_bounded_def allocate_step_lane_id_def sat_add_u64_def)
qed

end
