(* ===== verification/Sequencer_Blocks.thy ===== *)
theory Sequencer_Blocks
  imports Sequencer_Schedule Sequencer_Reachable Tempo_Integral "HOL-Library.Multiset"
begin

text \<open>
  What scheduling returns: exactly the events whose frame lies in the window, each as often as it
  occurs, out of a multiset that depends on the sequencer and the seed alone. Hence blocks that follow one another play what one
  long window plays.
\<close>

section \<open>Lists of results\<close>

lemma collect_step:
  "fold_r (\<lambda>x out. bind_r (f x) (\<lambda>y. Inr (out @ [y]))) xs out = Inr ys
    \<Longrightarrow> \<exists>zs. ys = out @ zs \<and> list_all2 (\<lambda>x y. f x = Inr y) xs zs"
  by (induction xs arbitrary: out) (force split: sum.splits simp: bind_r_eq_Inr)+

lemma collect_r_Inr: "collect_r f xs = Inr ys \<Longrightarrow> list_all2 (\<lambda>x y. f x = Inr y) xs ys"
  using collect_step[of f xs "[]" ys] by (simp add: collect_r_def)

lemma concat_r_set:
  assumes "concat_r f xs = Inr ys"
  shows "set ys = {y. \<exists>x \<in> set xs. \<exists>zs. f x = Inr zs \<and> y \<in> set zs}"
    "\<forall>x \<in> set xs. \<exists>zs. f x = Inr zs"
proof -
  obtain yss where yss: "list_all2 (\<lambda>x y. f x = Inr y) xs yss" "ys = concat yss"
    using assms collect_r_Inr by (auto simp: concat_r_def bind_r_eq_Inr)
  have "set (concat yss) = {y. \<exists>x \<in> set xs. \<exists>zs. f x = Inr zs \<and> y \<in> set zs}
      \<and> (\<forall>x \<in> set xs. \<exists>zs. f x = Inr zs)"
    using yss(1) by (induction rule: list_all2_induct) auto
  then show "set ys = {y. \<exists>x \<in> set xs. \<exists>zs. f x = Inr zs \<and> y \<in> set zs}"
    "\<forall>x \<in> set xs. \<exists>zs. f x = Inr zs"
    using yss(2) by simp_all
qed

lemma collect_r_total: "\<forall>x \<in> set xs. \<exists>y. f x = Inr y \<Longrightarrow> \<exists>ys. collect_r f xs = Inr ys"
proof -
  have "\<forall>x \<in> set xs. \<exists>y. f x = Inr y
    \<Longrightarrow> \<exists>ys. fold_r (\<lambda>x out. bind_r (f x) (\<lambda>y. Inr (out @ [y]))) xs out = Inr ys" for out
    by (induction xs arbitrary: out) (force split: sum.splits)+
  then show "\<forall>x \<in> set xs. \<exists>y. f x = Inr y \<Longrightarrow> \<exists>ys. collect_r f xs = Inr ys"
    by (simp add: collect_r_def)
qed

lemma bind_r_total: "\<exists>a. x = Inr a \<Longrightarrow> (\<And>a. \<exists>b. k a = Inr b) \<Longrightarrow> \<exists>b. bind_r x k = Inr b"
  by auto

lemma concat_r_total: "\<forall>x \<in> set xs. \<exists>y. f x = Inr y \<Longrightarrow> \<exists>ys. concat_r f xs = Inr ys"
  using collect_r_total[of xs f] by (auto simp: concat_r_def)

lemma collect_concat: "bind_r (collect_r f xs) (\<lambda>ys. Inr (concat ys)) = concat_r f xs"
  by (simp add: concat_r_def)

section \<open>Repetitions\<close>

text \<open>The elapsed ticks at the start of a repetition, saturated as in the loop.\<close>

definition elapsed_at :: "int \<Rightarrow> int \<Rightarrow> int \<Rightarrow> int" where
  "elapsed_at initial len cycle = sat_i64 (initial + sat_i64 (cycle * len))"

lemma elapsed_mono: "0 < len \<Longrightarrow> a \<le> b \<Longrightarrow> elapsed_at initial len a \<le> elapsed_at initial len b"
  unfolding elapsed_at_def by (intro sat_i64_mono add_left_mono mult_right_mono) simp_all

lemma occurrence_loop_set:
  assumes "0 < len" "0 \<le> cycle" "maximum \<le> elapsed_at initial len (i64_max - 1)"
  shows "set (occurrence_loop start initial len minimum maximum cycle)
    = {(sat_i64 (start + elapsed_at initial len c), c) | c.
        cycle \<le> c \<and> minimum \<le> elapsed_at initial len c \<and> elapsed_at initial len c < maximum}"
    and "distinct (occurrence_loop start initial len minimum maximum cycle)"
proof -
  let ?P = "\<lambda>start initial len minimum maximum cycle.
    set (occurrence_loop start initial len minimum maximum cycle)
      = {(sat_i64 (start + elapsed_at initial len c), c) | c.
          cycle \<le> c \<and> minimum \<le> elapsed_at initial len c \<and> elapsed_at initial len c < maximum}
    \<and> distinct (occurrence_loop start initial len minimum maximum cycle)"
  have "?P start initial len minimum maximum cycle"
  using assms
proof (induction start initial len minimum maximum cycle rule: occurrence_loop.induct)
  case (1 start initial len minimum maximum cycle)
  let ?e = "elapsed_at initial len"
  show ?case
  proof (cases "maximum \<le> ?e cycle")
    case True
    have "\<not> ?e c < maximum" if "cycle \<le> c" for c
      using elapsed_mono[OF 1(2) that, of initial] True by linarith
    then show ?thesis
      using True by (subst (1 2) occurrence_loop.simps) (auto simp: Let_def elapsed_at_def)
  next
    case False
    have small: "cycle < i64_max - 1"
    proof (rule ccontr)
      assume "\<not> cycle < i64_max - 1"
      then have "?e (i64_max - 1) \<le> ?e cycle" by (intro elapsed_mono 1(2)) simp
      then show False using 1(4) False by linarith
    qed
    then have succ: "sat_i64 (cycle + 1) = cycle + 1" "cycle + 1 \<noteq> i64_max"
      using 1(3) by (simp_all add: sat_i64_def range_simps)
    have IH: "set (occurrence_loop start initial len minimum maximum (cycle + 1))
      = {(sat_i64 (start + ?e c), c) | c. cycle + 1 \<le> c \<and> minimum \<le> ?e c \<and> ?e c < maximum}"
      "distinct (occurrence_loop start initial len minimum maximum (cycle + 1))"
      using 1(1)[OF refl _ refl] False succ 1(2-4) by (simp_all add: elapsed_at_def)
    have split: "cycle \<le> c \<longleftrightarrow> c = cycle \<or> cycle + 1 \<le> c" for c by auto
    have "occurrence_loop start initial len minimum maximum cycle
      = (if minimum \<le> ?e cycle then [(sat_i64 (start + ?e cycle), cycle)] else [])
        @ occurrence_loop start initial len minimum maximum (cycle + 1)"
      using False by (subst occurrence_loop.simps) (simp add: Let_def elapsed_at_def succ)
    then show ?thesis
      using False by (auto simp: IH split)
  qed
qed
  then show "set (occurrence_loop start initial len minimum maximum cycle)
      = {(sat_i64 (start + elapsed_at initial len c), c) | c.
          cycle \<le> c \<and> minimum \<le> elapsed_at initial len c \<and> elapsed_at initial len c < maximum}"
    "distinct (occurrence_loop start initial len minimum maximum cycle)" by simp_all
qed

text \<open>
  The repetitions of a clip, whatever the window: where a repetition starts, counted from the start
  of the clip, and its number.
\<close>

definition repetition :: "PatternClip \<Rightarrow> int \<Rightarrow> int \<Rightarrow> int \<Rightarrow> int \<Rightarrow> bool" where
  "repetition clip tick len c e \<longleftrightarrow> 0 \<le> c \<and> (pc_looped clip \<or> c = 0)
     \<and> e = tick - pc_pattern_offset clip + c * len \<and> 0 \<le> e \<and> e < int (pc_length clip)"

definition repetitions :: "PatternClip \<Rightarrow> int \<Rightarrow> int \<Rightarrow> (int \<times> int) list" where
  "repetitions clip tick len =
     map (\<lambda>c. (pc_start clip + (tick - pc_pattern_offset clip + c * len), c))
       (filter (\<lambda>c. (pc_looped clip \<or> c = 0) \<and> 0 \<le> tick - pc_pattern_offset clip + c * len
            \<and> tick - pc_pattern_offset clip + c * len < int (pc_length clip))
          [0..int (pc_length clip) + pc_pattern_offset clip])"

lemma sat_lt: "y < x \<Longrightarrow> y < i64_max \<Longrightarrow> y < sat_i64 x"
  by (simp add: sat_i64_def)

lemma sat_le: "x \<le> y \<Longrightarrow> i64_min \<le> y \<Longrightarrow> sat_i64 x \<le> y"
  by (simp add: sat_i64_def)

text \<open>Cycles before the first one of the loop start before the window.\<close>

lemma first_cycle_skips:
  fixes minimum initial len c :: int
  assumes "0 < len" "0 \<le> c" "c < sat_i64 (sat_i64 (minimum - initial) + (len - 1)) div len" "len \<le> i64_max"
  shows "initial + c * len < minimum"
proof -
  let ?n = "sat_i64 (minimum - initial)"
  have "(c + 1) * len \<le> sat_i64 (?n + (len - 1)) div len * len"
    using assms(1,3) by (intro mult_right_mono) simp_all
  also have "\<dots> \<le> sat_i64 (?n + (len - 1))"
    using assms(1) by (simp add: minus_mod_eq_div_mult[symmetric])
  finally have "(c + 1) * len \<le> sat_i64 (?n + (len - 1))" .
  moreover have "0 \<le> (c + 1) * len" using assms(1,2) by simp
  ultimately have "(c + 1) * len \<le> ?n + (len - 1)"
    using assms(4) by (auto simp: sat_i64_def range_simps min_def max_def split: if_splits)
  then have "c * len < ?n" by (simp add: algebra_simps)
  moreover have "0 \<le> c * len" using assms(1,2) by simp
  ultimately show ?thesis by (auto simp: sat_i64_def min_def max_def range_simps split: if_splits)
qed

text \<open>Positions and lengths far from the ends of \<open>i64\<close>.\<close>

definition tick_room :: int where "tick_room = 2 ^ 60"

definition clip_room :: "PatternClip \<Rightarrow> int \<Rightarrow> bool" where
  "clip_room clip len \<longleftrightarrow> 0 < len \<and> len \<le> tick_room \<and> 0 \<le> pc_pattern_offset clip \<and> pc_pattern_offset clip < len
     \<and> 0 < pc_length clip \<and> int (pc_length clip) \<le> tick_room
     \<and> - tick_room \<le> pc_start clip \<and> pc_start clip \<le> tick_room"

lemma elapsed_exact:
  assumes "0 \<le> c" "0 < len" "- tick_room \<le> initial" "initial \<le> tick_room" "maximum \<le> tick_room"
  shows "elapsed_at initial len c < maximum \<longleftrightarrow> initial + c * len < maximum"
    "elapsed_at initial len c < maximum \<Longrightarrow> elapsed_at initial len c = initial + c * len"
proof -
  have nonneg: "0 \<le> c * len" using assms(1,2) by simp
  show eq: "elapsed_at initial len c < maximum \<longleftrightarrow> initial + c * len < maximum"
    using nonneg assms(3-5) by (auto simp: elapsed_at_def sat_i64_def min_def max_def range_simps tick_room_def)
  show "elapsed_at initial len c = initial + c * len" if "elapsed_at initial len c < maximum"
    using that nonneg assms(3-5)
    by (auto simp: eq) (auto simp: elapsed_at_def sat_i64_def min_def max_def range_simps tick_room_def)
qed

lemma sdiv_nonneg: "0 \<le> a \<Longrightarrow> 0 < b \<Longrightarrow> a sdiv b = a div (b :: int)"
  by (cases "a = 0") (simp_all add: signed_divide_int_def)

lemma occurrence_bases_set:
  assumes room: "clip_room clip len" and tick: "0 \<le> tick" "tick < len"
    and bases: "occurrence_bases clip tick len (int (pc_length clip)) absolute_min absolute_max = Inr bs"
  shows "(b, c) \<in> set bs \<longleftrightarrow> (\<exists>e. repetition clip tick len c e \<and> b = pc_start clip + e
    \<and> sat_i64 (absolute_min - pc_start clip) \<le> e \<and> e < sat_i64 (absolute_max - pc_start clip))"
    (is ?set) and "distinct bs"
proof -
  define initial where "initial = tick - pc_pattern_offset clip"
  define minimum where "minimum = max 0 (sat_i64 (absolute_min - pc_start clip))"
  define maximum where "maximum = min (int (pc_length clip)) (sat_i64 (absolute_max - pc_start clip))"
  have bounds: "- tick_room \<le> initial" "initial \<le> tick_room" "maximum \<le> tick_room" "0 \<le> minimum" "0 < len"
    "len \<le> i64_max"
    using room tick by (auto simp: initial_def maximum_def minimum_def clip_room_def tick_room_def range_simps)
  have sat: "sat_i64 initial = initial"
    using bounds by (intro sat_i64_id) (simp add: range_simps tick_room_def)
  have start: "sat_i64 (pc_start clip + e) = pc_start clip + e" if "0 \<le> e" "e < maximum" for e
    using that room bounds(3) by (intro sat_i64_id) (simp add: range_simps tick_room_def clip_room_def)
  have goal: "?set \<longleftrightarrow> ((b, c) \<in> set bs \<longleftrightarrow> (\<exists>e. 0 \<le> c \<and> (pc_looped clip \<or> c = 0)
      \<and> e = initial + c * len \<and> minimum \<le> e \<and> e < maximum \<and> b = pc_start clip + e))"
    by (auto simp: repetition_def initial_def minimum_def maximum_def)
  have "?set \<and> distinct bs"
  proof (cases "maximum \<le> minimum")
    case True
    then have "bs = []"
      using bases by (simp add: occurrence_bases_def Let_def minimum_def maximum_def)
    then show ?thesis using True unfolding goal by auto
  next
    case False
    show ?thesis
    proof (cases "pc_looped clip")
      case False
      have "bs = (if minimum \<le> initial \<and> initial < maximum then [(sat_i64 (pc_start clip + initial), 0)] else [])"
        using bases \<open>\<not> maximum \<le> minimum\<close> False sat
        by (auto simp: occurrence_bases_def Let_def minimum_def maximum_def initial_def)
      then show ?thesis
        using False start bounds(4) unfolding goal by auto
    next
      case True
      define first where "first = (if 0 < sat_i64 (minimum - initial)
        then sat_i64 (sat_i64 (minimum - initial) + (len - 1)) div len else 0)"
      have nonneg: "0 \<le> sat_i64 (sat_i64 (minimum - initial) + (len - 1))" if "0 < sat_i64 (minimum - initial)"
        using that bounds(5) by (simp add: sat_i64_def range_simps)
      have bs: "bs = occurrence_loop (pc_start clip) initial len minimum maximum first"
        using bases \<open>\<not> maximum \<le> minimum\<close> True sat bounds(5,6) nonneg
        by (auto simp: occurrence_bases_def Let_def minimum_def maximum_def initial_def first_def exact_i64_def
            is_i64_def i64_min_def sdiv_nonneg split: if_splits)
      have first: "0 \<le> first" using nonneg bounds(5) by (simp add: first_def pos_imp_zdiv_nonneg_iff)
      have "\<not> elapsed_at initial len (i64_max - 1) < maximum"
      proof -
        have "(i64_max - 1) * 1 \<le> (i64_max - 1) * len"
          using bounds(5) by (intro mult_left_mono) (simp_all add: range_simps)
        then have "\<not> initial + (i64_max - 1) * len < maximum"
          using bounds by (simp add: range_simps tick_room_def)
        then show ?thesis
          using elapsed_exact(1)[of "i64_max - 1" len initial maximum] bounds by (simp add: range_simps)
      qed
      then have loop: "set bs = {(sat_i64 (pc_start clip + elapsed_at initial len c), c) | c.
          first \<le> c \<and> minimum \<le> elapsed_at initial len c \<and> elapsed_at initial len c < maximum}"
        and different: "distinct bs"
        unfolding bs by (intro occurrence_loop_set bounds(5) first; simp)+
      have skip: "initial + c * len < minimum" if "0 \<le> c" "c < first" for c
        using that first_cycle_skips[OF bounds(5) that(1) _ bounds(6), of minimum initial]
        by (simp add: first_def split: if_splits)
      have exact: "minimum \<le> elapsed_at initial len c \<and> elapsed_at initial len c < maximum
          \<longleftrightarrow> minimum \<le> initial + c * len \<and> initial + c * len < maximum"
        "initial + c * len < maximum \<Longrightarrow> elapsed_at initial len c = initial + c * len" if "0 \<le> c" for c
        using elapsed_exact[OF that bounds(5,1,2,3)] by auto
      let ?e = "initial + c * len"
      have "(b, c) \<in> set bs \<longleftrightarrow> first \<le> c \<and> minimum \<le> ?e \<and> ?e < maximum \<and> b = pc_start clip + ?e"
      proof (cases "first \<le> c")
        case True
        then have c: "0 \<le> c" using first by simp
        have "sat_i64 (pc_start clip + elapsed_at initial len c) = pc_start clip + ?e"
          if "minimum \<le> ?e" "?e < maximum"
          using start[of ?e] that bounds(4) by (simp add: exact(2)[OF c that(2)])
        then show ?thesis using True exact(1)[OF c] by (auto simp: loop)
      qed (simp add: loop)
      moreover have "first \<le> c \<and> minimum \<le> ?e \<longleftrightarrow> 0 \<le> c \<and> minimum \<le> ?e"
        using skip[of c] first by (meson leD leI order_trans)
      ultimately show ?thesis unfolding goal using True different by blast
    qed
  qed
  then show ?set "distinct bs" by simp_all
qed

lemma repetitions_set:
  assumes room: "clip_room clip len" and tick: "0 \<le> tick"
  shows "(b, c) \<in> set (repetitions clip tick len) \<longleftrightarrow> (\<exists>e. repetition clip tick len c e \<and> b = pc_start clip + e)"
proof -
  have "c \<le> int (pc_length clip) + pc_pattern_offset clip"
    if "0 \<le> c" "tick - pc_pattern_offset clip + c * len < int (pc_length clip)"
  proof -
    have "c * 1 \<le> c * len" using that(1) room by (intro mult_left_mono) (simp_all add: clip_room_def)
    with that(2) tick show ?thesis by simp
  qed
  then show ?thesis by (auto simp: repetitions_def repetition_def)
qed

lemma repetitions_distinct: "distinct (repetitions clip tick len)"
  by (simp add: repetitions_def distinct_map inj_on_def)

section \<open>Windows\<close>

text \<open>What is heard: frames with kinds, each as often as it is scheduled.\<close>

definition heard :: "ScheduledEvent list \<Rightarrow> (ProjectFrame \<times> ScheduledKind) multiset" where
  "heard es = mset (map (\<lambda>e. (ev_project_frame e, ev_kind e)) es)"

definition at_frames :: "TempoMap \<Rightarrow> (int \<times> ScheduledKind) list \<Rightarrow> (ProjectFrame \<times> ScheduledKind) multiset" where
  "at_frames m ticks = mset (map (\<lambda>(t, k). (beat_to_frame m t, k)) ticks)"

definition in_window ::
    "FrameRange \<Rightarrow> (ProjectFrame \<times> ScheduledKind) multiset \<Rightarrow> (ProjectFrame \<times> ScheduledKind) multiset" where
  "in_window window events = filter_mset (\<lambda>(f, k). tempo_range_contains window f) events"

lemma heard_append [simp]: "heard (xs @ ys) = heard xs + heard ys" "heard [] = {#}"
  by (simp_all add: heard_def)

lemma at_frames_append [simp]: "at_frames m (xs @ ys) = at_frames m xs + at_frames m ys" "at_frames m [] = {#}"
  by (simp_all add: at_frames_def)

lemma in_window_add [simp]: "in_window w (A + B) = in_window w A + in_window w B" "in_window w {#} = {#}"
  by (simp_all add: in_window_def)

lemma in_window_sum: "in_window w (\<Sum>x\<leftarrow>xs. f x) = (\<Sum>x\<leftarrow>xs. in_window w (f x))"
  by (induction xs) simp_all

lemma heard_push: "heard (push_at_ticks m window base ticks) = in_window window (at_frames m ticks)"
proof (induction ticks)
  case (Cons x ticks)
  have "push_at_ticks m window base (x # ticks)
      = push_if_in_range window base (beat_to_frame m (fst x)) (snd x) @ push_at_ticks m window base ticks"
    by (simp add: push_at_ticks_def split: prod.split)
  then show ?case
    using Cons by (cases x) (simp add: push_if_in_range_def at_frames_def in_window_def heard_def)
qed (simp add: push_at_ticks_def)

lemma at_frames_concat: "at_frames m (concat xss) = (\<Sum>xs\<leftarrow>xss. at_frames m xs)"
  by (induction xss) simp_all

text \<open>Leaving out what contributes nothing.\<close>

lemma sum_list_filter_empty:
  assumes "\<forall>x \<in> set xs. \<not> P x \<longrightarrow> g x = ({#} :: 'b multiset)"
  shows "(\<Sum>x\<leftarrow>filter P xs. g x) = (\<Sum>x\<leftarrow>xs. g x)"
  using assms by (induction xs) auto

lemma sum_list_subset:
  assumes "distinct xs" "distinct ys" "set xs \<subseteq> set ys"
    and "\<forall>y \<in> set ys. y \<notin> set xs \<longrightarrow> g y = ({#} :: 'b multiset)"
  shows "(\<Sum>x\<leftarrow>xs. g x) = (\<Sum>y\<leftarrow>ys. g y)"
proof -
  have "set (filter (\<lambda>y. y \<in> set xs) ys) = set xs" using assms(3) by auto
  then have "mset xs = mset (filter (\<lambda>y. y \<in> set xs) ys)"
    using assms(1,2) set_eq_iff_mset_eq_distinct[OF assms(1) distinct_filter] by blast
  then have "mset (map g xs) = mset (map g (filter (\<lambda>y. y \<in> set xs) ys))"
    unfolding mset_map by (rule arg_cong)
  then have "sum_list (map g xs) = sum_list (map g (filter (\<lambda>y. y \<in> set xs) ys))"
    by (metis sum_mset_sum_list)
  also have "\<dots> = sum_list (map g ys)"
    by (rule sum_list_filter_empty) (use assms(4) in blast)
  finally show ?thesis .
qed

text \<open>A window the tempo map can resolve, with the ticks whose frames lie in it.\<close>

definition resolved :: "TempoMap \<Rightarrow> FrameRange \<Rightarrow> bool" where
  "resolved m window \<longleftrightarrow> (\<forall>f \<in> {fr_start window, fr_end window}.
     beat_to_frame m i64_min < f \<and> f \<le> beat_to_frame m i64_max)"

lemma contained_ticks:
  assumes "tempo_map_ok m" "resolved m window" "is_i64 t" "tempo_range_contains window (beat_to_frame m t)"
  shows "first_beat_at_or_after_frame m (fr_start window) \<le> t"
    "t < first_beat_at_or_after_frame m (fr_end window)"
proof -
  have adjoint: "first_beat_at_or_after_frame m f \<le> t \<longleftrightarrow> f \<le> beat_to_frame m t"
    if "f \<in> {fr_start window, fr_end window}" for f
    using assms(2) that by (intro first_beat_adjoint[OF assms(1) _ _ assms(3)]) (auto simp: resolved_def)
  show "first_beat_at_or_after_frame m (fr_start window) \<le> t"
    "t < first_beat_at_or_after_frame m (fr_end window)"
    using assms(4) adjoint[of "fr_start window"] adjoint[of "fr_end window"]
    by (auto simp: tempo_range_contains_def)
qed

text \<open>A repetition with an event in the window is one of the bases the code visits.\<close>

lemma repetition_visited:
  assumes room: "clip_room clip len" and tick: "0 \<le> tick" "tick < len"
    and bases: "occurrence_bases clip tick len (int (pc_length clip)) (sat_i64 (tick_start - late))
      (sat_i64 (tick_end - early)) = Inr bs"
    and rep: "repetition clip tick len c e"
    and t: "pc_start clip + e + early \<le> t" "t \<le> pc_start clip + e + late" "tick_start \<le> t" "t < tick_end"
  shows "(pc_start clip + e, c) \<in> set bs"
proof -
  have e: "0 \<le> e" "e < int (pc_length clip)" using rep by (simp_all add: repetition_def)
  have b: "i64_min \<le> pc_start clip + e" "pc_start clip + e < i64_max" "e < i64_max" "i64_min \<le> e"
    using room e by (simp_all add: clip_room_def tick_room_def range_simps)
  have "sat_i64 (tick_start - late) \<le> pc_start clip + e"
    using t(2,3) b by (intro sat_le) simp_all
  then have "sat_i64 (sat_i64 (tick_start - late) - pc_start clip) \<le> e"
    using b by (intro sat_le) simp_all
  moreover have "pc_start clip + e < sat_i64 (tick_end - early)"
    using t(1,4) b by (intro sat_lt) simp_all
  then have "e < sat_i64 (sat_i64 (tick_end - early) - pc_start clip)"
    using b by (intro sat_lt) simp_all
  ultimately show ?thesis
    using occurrence_bases_set(1)[OF room tick bases] rep by blast
qed

text \<open>
  The bases the code visits are all that matter: the events of the other repetitions lie outside
  the window.
\<close>

lemma visited_suffice:
  assumes room: "clip_room clip len" and tick: "0 \<le> tick" "tick < len"
    and window: "tempo_map_ok m" "resolved m window"
    and bases: "occurrence_bases clip tick len (int (pc_length clip))
      (sat_i64 (first_beat_at_or_after_frame m (fr_start window) - late))
      (sat_i64 (first_beat_at_or_after_frame m (fr_end window) - early)) = Inr bs"
    and events: "\<And>c e t k. repetition clip tick len c e \<Longrightarrow> (t, k) \<in> set (f (pc_start clip + e, c)) \<Longrightarrow>
      pc_start clip + e + early \<le> t \<and> t \<le> pc_start clip + e + late \<and> is_i64 t"
  shows "in_window window (at_frames m (concat (map f bs)))
    = in_window window (at_frames m (concat (map f (repetitions clip tick len))))"
proof -
  note visited = occurrence_bases_set[OF room tick bases] and all = repetitions_set[OF room tick(1)]
  have "in_window window (at_frames m (f x)) = {#}" if x: "x \<in> set (repetitions clip tick len)" "x \<notin> set bs" for x
  proof -
    obtain b c where bc: "x = (b, c)" by (cases x)
    obtain e where e: "repetition clip tick len c e" "b = pc_start clip + e" using x(1) all bc by blast
    have "\<not> tempo_range_contains window (beat_to_frame m t)" if "(t, k) \<in> set (f x)" for t k
    proof
      assume inside: "tempo_range_contains window (beat_to_frame m t)"
      have t: "pc_start clip + e + early \<le> t" "t \<le> pc_start clip + e + late" "is_i64 t"
        using events[OF e(1)] that by (auto simp: bc e(2))
      have "(pc_start clip + e, c) \<in> set bs"
        by (rule repetition_visited[OF room tick bases e(1) t(1,2) contained_ticks[OF window t(3) inside]])
      then show False using x(2) by (simp add: bc e(2))
    qed
    then show ?thesis by (auto simp: in_window_def at_frames_def filter_mset_eq_conv)
  qed
  moreover have "set bs \<subseteq> set (repetitions clip tick len)"
    using visited(1) all by (auto simp: subset_iff)
  ultimately have "(\<Sum>x\<leftarrow>bs. in_window window (at_frames m (f x)))
      = (\<Sum>x\<leftarrow>repetitions clip tick len. in_window window (at_frames m (f x)))"
    by (intro sum_list_subset visited(2) repetitions_distinct) auto
  then show ?thesis by (simp add: at_frames_concat in_window_sum comp_def)
qed

section \<open>Notes\<close>

text \<open>Signs of products.\<close>

lemma round_positive: "\<not> f64_neg (f64_round False n d)"
proof -
  have "unat (of_nat (min (2047 * 2 ^ 52) k) :: f64) = min (2047 * 2 ^ 52) k" for k
    by (simp add: unsigned_of_nat take_bit_nat_eq_self min_def)
  then show ?thesis by (simp add: f64_round_def f64_neg_def Let_def)
qed

lemma round_nothing: "f64_magnitude (f64_round neg 0 d) = 0" "f64_is_finite (f64_round neg 0 d)"
  "f64_is_zero (f64_round neg 0 d)"
proof -
  have "f64_round neg 0 d = (if neg then of_nat (2 ^ 63) else 0)"
    by (simp add: f64_round_def last_place_def bit_length.simps Let_def)
  then show "f64_magnitude (f64_round neg 0 d) = 0" "f64_is_finite (f64_round neg 0 d)"
    "f64_is_zero (f64_round neg 0 d)"
    by (simp_all add: f64_is_zero_def f64_magnitude_def f64_exp_def f64_frac_def f64_is_finite_def)
qed

lemma round_to_int_nonneg:
  assumes "\<not> f64_neg v \<or> f64_is_finite v \<and> f64_magnitude v = 0" "lo \<le> 0" "0 \<le> hi"
  shows "0 \<le> f64_round_to_int lo hi v"
proof -
  have "f64_is_finite v \<Longrightarrow> \<not> f64_is_nan v \<and> \<not> f64_is_infinite v"
    by (simp add: f64_is_finite_def f64_is_nan_def f64_is_infinite_def)
  then show ?thesis
    using assms by (auto simp: f64_round_to_int_def f64_nearest_int_def clamp_int_def)
qed

lemma negative_zero:
  assumes "f32_neg p" "f32_le 0 p"
  shows "f32_magnitude p = 0"
proof -
  have "f32_key 0 \<le> f32_key p" using assms(2) by (simp add: f32_le_def)
  then have "0 \<le> 2 ^ 31 - int (unat p)" using assms(1) unfolding f32_key_def f32_neg_def by simp
  then have "int (unat p) \<le> int (2 ^ 31)" unfolding of_nat_power of_nat_numeral by (rule iffD1[OF diff_ge_0_iff_ge])
  then have "unat p = 2 ^ 31" using assms(1) unfolding f32_neg_def of_nat_le_iff by (rule antisym)
  then have "f32_exp p = 0" "f32_frac p = 0" unfolding f32_exp_def f32_frac_def by simp_all
  then show ?thesis by (simp add: f32_magnitude_def)
qed

lemma product_nonneg:
  assumes "0 \<le> d" "unit_value p" "lo \<le> 0" "0 \<le> hi"
  shows "0 \<le> f64_round_to_int lo hi (f64_mul (f64_of_i64 d) (f64_of_f32 p))"
proof (rule round_to_int_nonneg[OF _ assms(3,4)])
  let ?a = "f64_of_i64 d" and ?b = "f64_of_f32 p"
  have a: "\<not> f64_neg ?a" using assms(1) round_positive by (simp add: f64_of_i64_def)
  have fin: "\<not> f32_is_nan p" "\<not> f32_is_infinite p"
    using assms(2) by (auto simp: unit_value_def f32_is_finite_def f32_is_nan_def f32_is_infinite_def)
  then have b: "?b = f64_round (f32_neg p) (f32_magnitude p) (2 ^ 149)" by (simp add: f64_of_f32_def)
  have nan: "\<not> f64_neg f64_nan" by (simp add: f64_neg_def f64_nan_def)
  have infinity: "\<not> f64_neg (f64_infinity False)" by (simp add: f64_neg_def f64_infinity_def)
  show "\<not> f64_neg (f64_mul ?a ?b) \<or> f64_is_finite (f64_mul ?a ?b) \<and> f64_magnitude (f64_mul ?a ?b) = 0"
  proof (cases "f32_neg p")
    case False
    then have "\<not> f64_neg ?b" using round_positive b by simp
    then show ?thesis using a nan infinity round_positive by (simp add: f64_mul_def)
  next
    case True
    then have "f32_magnitude p = 0" using assms(2) negative_zero by (simp add: unit_value_def)
    then have "f64_magnitude ?b = 0" "\<not> f64_is_infinite ?b" "\<not> f64_is_nan ?b" "f64_is_zero ?b"
      using b round_nothing[of True "2 ^ 149"] True
      by (simp_all add: f64_is_finite_def f64_is_infinite_def f64_is_nan_def)
    then show ?thesis
      using nan round_nothing(1,2) by (auto simp: f64_mul_def Let_def)
  qed
qed

definition note_room :: "NoteEvent \<Rightarrow> bool" where
  "note_room n \<longleftrightarrow> int (ne_duration n) \<le> 2 ^ 59 \<and> i32_min \<le> ne_micro_offset n \<and> ne_micro_offset n \<le> i32_max"

lemma sounding_bounds:
  assumes "note_room n" "0 < ne_duration n"
  shows "1 \<le> int (sounding_duration n)" "int (sounding_duration n) \<le> tick_room"
proof -
  have d: "ne_duration n \<le> 2 ^ 59" using assms(1) by (simp add: note_room_def)
  have "sat_add_u64 (ne_duration n) (ne_duration n div 20) \<le> ne_duration n + ne_duration n"
    "1 \<le> sat_add_u64 (ne_duration n) (ne_duration n div 20)"
    using assms(2) by (simp_all add: sat_add_u64_def u64_max_def div_le_dividend le_diff_conv min.coboundedI2)
  moreover have "max 1 (ne_duration n div 2) \<le> 2 ^ 60" using d by simp
  ultimately have "1 \<le> sounding_duration n \<and> sounding_duration n \<le> 2 ^ 60"
    using d assms(2) by (auto simp: sounding_duration_def split: Articulation.splits)
  then show "1 \<le> int (sounding_duration n)" "int (sounding_duration n) \<le> tick_room"
    by (simp_all add: tick_room_def)
qed

lemma clip_end_exact: "clip_room clip len \<Longrightarrow> clip_end clip = pc_start clip + int (pc_length clip)"
  unfolding clip_end_def beat_saturating_add_def
  by (subst sat_i64_id) (simp_all add: clip_room_def tick_room_def range_simps)

lemma expression_tick_between:
  assumes "unit_value (ep_position p)" "on_tick < off_tick" "i64_min \<le> on_tick" "off_tick \<le> i64_max"
    "i64_min < off_tick" "on_tick \<le> i64_max"
  shows "on_tick \<le> expression_tick on_tick off_tick p \<and> expression_tick on_tick off_tick p < off_tick"
proof -
  define ticks where "ticks = f64_round_to_int i64_min i64_max
    (f64_mul (f64_of_i64 (sat_i64 (off_tick - on_tick))) (f64_of_f32 (ep_position p)))"
  have "0 \<le> sat_i64 (off_tick - on_tick)" using assms(2) by (simp add: sat_i64_def range_simps)
  then have "0 \<le> ticks"
    unfolding ticks_def by (rule product_nonneg[OF _ assms(1)]) (simp_all add: range_simps)
  then have "on_tick \<le> sat_i64 (on_tick + ticks)" using assms(3,6) by (simp add: sat_i64_def)
  moreover have "sat_i64 (off_tick - 1) = off_tick - 1" using assms(4,5) by (intro sat_i64_id) (simp add: is_i64_def)
  ultimately show ?thesis using assms(2) by (simp add: expression_tick_def Let_def ticks_def[symmetric])
qed

lemma note_tick_bounds:
  assumes room: "clip_room clip len" "note_room n" and valid: "note_validate n = Inr ()"
    and rep: "repetition clip (ne_start n) len c e"
    and event: "(t, k) \<in> set (note_occurrence seed clip n (pc_start clip + e, c))"
  defines "on_delta \<equiv> ne_micro_offset n"
  defines "off_delta \<equiv> sat_i64 (on_delta + min (int (sounding_duration n)) i64_max)"
  shows "pc_start clip + e + min on_delta off_delta \<le> t" "t \<le> pc_start clip + e + max on_delta off_delta" "is_i64 t"
proof -
  let ?b = "pc_start clip + e"
  let ?d = "int (sounding_duration n)"
  have d: "1 \<le> ?d" "?d \<le> tick_room"
    using sounding_bounds[OF room(2)] valid by (auto simp: note_validate_def result_simps)
  have micro: "- (2 ^ 31) \<le> on_delta" "on_delta \<le> 2 ^ 31"
    using room(2) by (simp_all add: note_room_def i32_min_def i32_max_def on_delta_def)
  have b: "- tick_room \<le> ?b" "?b \<le> 2 * tick_room"
    using room(1) rep by (simp_all add: clip_room_def repetition_def)
  have off: "off_delta = on_delta + ?d"
    unfolding off_delta_def using d micro by (subst sat_i64_id) (simp_all add: range_simps tick_room_def min_def)
  define on_tick where "on_tick = ?b + on_delta"
  define off_tick where "off_tick = min (on_tick + ?d) (clip_end clip)"
  have on: "sat_i64 (?b + ne_micro_offset n) = on_tick"
    using b micro by (subst sat_i64_id) (simp_all add: on_tick_def on_delta_def range_simps tick_room_def)
  have "sat_i64 (on_tick + min ?d i64_max) = on_tick + ?d"
    using b micro d by (subst sat_i64_id) (simp_all add: on_tick_def range_simps tick_room_def min_def)
  then have "on_tick < clip_end clip"
    and cases: "t = on_tick \<or> t = off_tick \<or> (\<exists>dim p. (dim, p) \<in> set (expression_curves n) \<and> t = expression_tick on_tick off_tick p)"
    using event on by (auto simp: note_occurrence_def Let_def off_tick_def split: if_splits)
  then have order: "on_tick < off_tick" "off_tick \<le> on_tick + ?d" using d(1) by (simp_all add: off_tick_def)
  have range: "i64_min < on_tick" "on_tick + ?d \<le> i64_max"
    using b micro d by (simp_all add: on_tick_def range_simps tick_room_def)
  have points: "unit_value (ep_position p)" if "(dim, p) \<in> set (expression_curves n)" for dim p
    using that valid by (auto simp: expression_curves_def note_validate_def valid_expression_def list_all_iff result_simps)
  have "on_tick \<le> t \<and> t \<le> on_tick + ?d"
    using cases order d(1) range expression_tick_between[OF points, of _ _ on_tick off_tick] by fastforce
  then show "?b + min on_delta off_delta \<le> t" "t \<le> ?b + max on_delta off_delta" "is_i64 t"
    using range d(1) by (simp_all add: off on_tick_def is_i64_def)
qed

text \<open>All events of a note in a clip, whatever the window.\<close>

definition note_sounds ::
    "TempoMap \<Rightarrow> nat \<Rightarrow> PatternClip \<Rightarrow> int \<Rightarrow> NoteEvent \<Rightarrow> (ProjectFrame \<times> ScheduledKind) multiset" where
  "note_sounds m seed clip len n =
     at_frames m (concat (map (note_occurrence seed clip n) (repetitions clip (ne_start n) len)))"

definition ticks_of :: "TempoMap \<Rightarrow> FrameRange \<Rightarrow> int \<Rightarrow> int \<Rightarrow> bool" where
  "ticks_of m window tick_start tick_end \<longleftrightarrow> tempo_map_ok m \<and> resolved m window
     \<and> tick_start = first_beat_at_or_after_frame m (fr_start window)
     \<and> tick_end = first_beat_at_or_after_frame m (fr_end window)"

lemma schedule_note_exact:
  assumes window: "ticks_of m window tick_start tick_end"
    and room: "clip_room clip len" "note_room n" and valid: "note_validate n = Inr ()" "ne_start n < len"
    and run: "schedule_note m window base seed tick_start tick_end clip len n = Inr es"
  shows "heard es = in_window window (note_sounds m seed clip len n)"
proof -
  define on_delta where "on_delta = ne_micro_offset n"
  define off_delta where "off_delta = sat_i64 (on_delta + min (int (sounding_duration n)) i64_max)"
  have len: "cast_i64 (pc_length clip) = int (pc_length clip)"
    using room(1) by (simp add: cast_i64_def clip_room_def tick_room_def range_simps)
  have tick: "0 \<le> ne_start n" using valid(1) by (auto simp: note_validate_def result_simps)
  obtain bs where bs: "occurrence_bases clip (ne_start n) len (int (pc_length clip))
      (sat_i64 (tick_start - max on_delta off_delta)) (sat_i64 (tick_end - min on_delta off_delta)) = Inr bs"
    and es: "es = push_at_ticks m window base (concat (map (note_occurrence seed clip n) bs))"
    using run by (auto simp: schedule_note_def Let_def bind_r_eq_Inr len on_delta_def off_delta_def)
  have map: "tempo_map_ok m" "resolved m window"
    "tick_start = first_beat_at_or_after_frame m (fr_start window)"
    "tick_end = first_beat_at_or_after_frame m (fr_end window)"
    using window by (simp_all add: ticks_of_def)
  show ?thesis
    unfolding es heard_push note_sounds_def
    by (rule visited_suffice[OF room(1) tick valid(2) map(1,2) bs[unfolded map(3,4)]])
      (use note_tick_bounds[OF room valid(1)] in \<open>unfold on_delta_def off_delta_def, blast\<close>)
qed

section \<open>Steps\<close>

definition step_room :: "StepPattern \<Rightarrow> nat \<Rightarrow> StepEvent \<Rightarrow> bool" where
  "step_room steps i s \<longleftrightarrow> int (sp_resolution steps) \<le> tick_room \<and> int (se_gate s) \<le> tick_room
     \<and> \<bar>swing_delay steps i\<bar> \<le> tick_room \<and> i32_min \<le> se_micro_offset s \<and> se_micro_offset s \<le> i32_max
     \<and> se_ratchets s \<le> 255"

lemma spacing_bounds:
  assumes "step_room steps i s" "j < max 1 (se_ratchets s)"
  shows "0 \<le> step_spacing steps s * int j"
    "step_spacing steps s * int j \<le> step_spacing steps s * (int (max 1 (se_ratchets s)) - 1)"
    "step_spacing steps s * (int (max 1 (se_ratchets s)) - 1) \<le> tick_room"
proof -
  let ?r = "max 1 (se_ratchets s)"
  define extent where "extent = (if 0 < se_gate s then se_gate s else sp_resolution steps)"
  have extent: "int extent \<le> tick_room" using assms(1) by (simp add: extent_def step_room_def)
  have "max 1 (extent div ?r) \<le> max 1 extent" by (intro max.mono div_le_dividend) simp
  then have "int (max 1 (extent div ?r)) \<le> max 1 (int extent)" by linarith
  then have small: "int (max 1 (extent div ?r)) \<le> i64_max"
    using extent by (simp add: tick_room_def range_simps)
  have sp: "step_spacing steps s = (if 1 < ?r then int (max 1 (extent div ?r)) else 0)"
    using small by (auto simp: step_spacing_def Let_def extent_def[symmetric] cast_i64_def max_absorb2)
  then have nonneg: "0 \<le> step_spacing steps s" by simp
  then show "0 \<le> step_spacing steps s * int j" by simp
  show "step_spacing steps s * int j \<le> step_spacing steps s * (int ?r - 1)"
    using assms(2) nonneg by (intro mult_left_mono) simp_all
  have "max 1 (extent div ?r) * (?r - 1) \<le> max extent 255"
  proof (cases "extent div ?r = 0")
    case True
    have "?r - 1 \<le> 255" using assms(1) by (auto simp: step_room_def)
    then show ?thesis using True by (simp add: le_max_iff_disj)
  next
    case False
    have "extent div ?r * (?r - 1) \<le> extent div ?r * ?r" by (intro mult_le_mono) simp_all
    also have "\<dots> \<le> extent" by (simp add: div_times_less_eq_dividend)
    finally show ?thesis using False by (simp add: max_def)
  qed
  then have "int (max 1 (extent div ?r) * (?r - 1)) \<le> max (int extent) 255" by linarith
  then have "int (max 1 (extent div ?r)) * (int ?r - 1) \<le> max (int extent) 255"
    by (simp add: of_nat_diff)
  also have "\<dots> \<le> tick_room" using extent by (simp add: tick_room_def)
  finally have "int (max 1 (extent div ?r)) * (int ?r - 1) \<le> tick_room" .
  moreover have "step_spacing steps s = 0" if "\<not> 1 < ?r" unfolding sp using that by (rule if_not_P)
  moreover have "step_spacing steps s = int (max 1 (extent div ?r))" if "1 < ?r" unfolding sp using that by (rule if_P)
  ultimately show "step_spacing steps s * (int ?r - 1) \<le> tick_room"
    by (cases "1 < ?r") (simp_all only: mult_zero_left, simp add: tick_room_def)
qed

lemma step_occurrence_ticks:
  assumes "step_occurrence m seed clip steps lane i s (b, c) = Inr evs" "(t, k) \<in> set evs"
  obtains j where "j < max 1 (se_ratchets s)"
    "t = sat_i64 (sat_i64 (sat_i64 (b + swing_delay steps i) + se_micro_offset s) + step_spacing steps s * int j)"
proof -
  let ?first = "sat_i64 (sat_i64 (b + swing_delay steps i) + se_micro_offset s)"
  have run: "concat_r (\<lambda>j. bind_r (exact_i64 (step_spacing steps s * int j)) (\<lambda>delta.
      Inr (ratchet_event m seed clip lane i s (step_spacing steps s) (max 1 (se_ratchets s)) c (sat_i64 (?first + delta)) j)))
      [0..<max 1 (se_ratchets s)] = (Inr evs :: SequencerError fault + _)"
    using assms(1) by (simp add: step_occurrence_def Let_def collect_concat)
  obtain j zs where j: "j < max 1 (se_ratchets s)" "(t, k) \<in> set zs"
    "bind_r (exact_i64 (step_spacing steps s * int j)) (\<lambda>delta.
      Inr (ratchet_event m seed clip lane i s (step_spacing steps s) (max 1 (se_ratchets s)) c (sat_i64 (?first + delta)) j)) = (Inr zs :: SequencerError fault + _)"
    using assms(2) unfolding concat_r_set(1)[OF run] by auto
  then show thesis
    using that by (auto simp: bind_r_eq_Inr exact_i64_def ratchet_event_def split: if_splits)
qed

lemma step_tick_bounds:
  assumes room: "clip_room clip len" "step_room steps i s"
    and rep: "repetition clip tick len c e"
    and run: "step_occurrence m seed clip steps lane i s (pc_start clip + e, c) = Inr evs" "(t, k) \<in> set evs"
  defines "first_delta \<equiv> sat_i64 (swing_delay steps i + se_micro_offset s)"
  defines "last_delta \<equiv> sat_i64 (first_delta + sat_i64 (step_spacing steps s * (int (max 1 (se_ratchets s)) - 1)))"
  shows "pc_start clip + e + min first_delta last_delta \<le> t" "t \<le> pc_start clip + e + max first_delta last_delta" "is_i64 t"
proof -
  let ?b = "pc_start clip + e"
  obtain j where j: "j < max 1 (se_ratchets s)"
    "t = sat_i64 (sat_i64 (sat_i64 (?b + swing_delay steps i) + se_micro_offset s) + step_spacing steps s * int j)"
    by (rule step_occurrence_ticks[OF run])
  define extent where "extent = step_spacing steps s * (int (max 1 (se_ratchets s)) - 1)"
  define delta where "delta = step_spacing steps s * int j"
  have delta: "0 \<le> delta" "delta \<le> extent" "extent \<le> tick_room"
    using spacing_bounds[OF room(2) j(1)] by (simp_all add: delta_def extent_def)
  have micro: "- (2 ^ 31) \<le> se_micro_offset s" "se_micro_offset s \<le> 2 ^ 31"
    "- tick_room \<le> swing_delay steps i" "swing_delay steps i \<le> tick_room"
    using room(2) by (auto simp: step_room_def i32_min_def i32_max_def)
  have b: "- tick_room \<le> ?b" "?b \<le> 2 * tick_room - 1"
    using room(1) rep by (simp_all add: clip_room_def repetition_def)
  have s1: "sat_i64 (?b + swing_delay steps i) = ?b + swing_delay steps i"
    using b micro by (intro sat_i64_id) (simp add: range_simps tick_room_def)
  have s2: "sat_i64 (?b + swing_delay steps i + se_micro_offset s) = ?b + swing_delay steps i + se_micro_offset s"
    using b micro by (intro sat_i64_id) (simp add: range_simps tick_room_def)
  have f: "first_delta = swing_delay steps i + se_micro_offset s"
    unfolding first_delta_def using micro by (intro sat_i64_id) (simp add: range_simps tick_room_def)
  have "sat_i64 extent = extent"
    using delta by (intro sat_i64_id) (simp add: range_simps tick_room_def)
  then have l: "last_delta = first_delta + extent"
    unfolding last_delta_def extent_def[symmetric] f using micro delta
    by (simp, intro sat_i64_id) (simp add: range_simps tick_room_def)
  have t: "t = sat_i64 (?b + first_delta + delta)"
    unfolding j(2) s1 s2 f delta_def by (simp only: add.assoc)
  have "t = ?b + first_delta + delta"
    unfolding t using b micro delta by (intro sat_i64_id) (simp add: f range_simps tick_room_def)
  then show "?b + min first_delta last_delta \<le> t" "t \<le> ?b + max first_delta last_delta"
    using delta by (simp_all add: l)
  show "is_i64 t" by (simp add: j(2))
qed

definition step_sounds ::
    "TempoMap \<Rightarrow> nat \<Rightarrow> PatternClip \<Rightarrow> int \<Rightarrow> StepPattern \<Rightarrow> StepLane \<Rightarrow> nat \<times> StepEvent
      \<Rightarrow> (ProjectFrame \<times> ScheduledKind) multiset" where
  "step_sounds m seed clip len steps lane = (\<lambda>(i, s).
     at_frames m (concat (map (case_sum (\<lambda>_. []) id \<circ> step_occurrence m seed clip steps lane i s)
       (repetitions clip (int i * int (sp_resolution steps)) len))))"

lemma schedule_step_exact:
  assumes window: "ticks_of m window tick_start tick_end"
    and room: "clip_room clip len" "step_room steps i s"
    and valid: "int (i * sp_resolution steps) < len"
    and run: "schedule_step m window base seed tick_start tick_end clip len steps lane (i, s) = Inr es"
  shows "heard es = in_window window (step_sounds m seed clip len steps lane (i, s))"
proof -
  define first_delta where "first_delta = sat_i64 (swing_delay steps i + se_micro_offset s)"
  define last_delta where "last_delta = sat_i64 (first_delta
    + sat_i64 (step_spacing steps s * (int (max 1 (se_ratchets s)) - 1)))"
  let ?tick = "int i * int (sp_resolution steps)"
  have len: "cast_i64 (pc_length clip) = int (pc_length clip)" "cast_i64 (sp_resolution steps) = int (sp_resolution steps)"
    using room by (simp_all add: cast_i64_def clip_room_def step_room_def tick_room_def range_simps)
  have tick: "0 \<le> ?tick" "?tick < len" using valid by simp_all
  have "i64_min \<le> ?tick" by (rule order_trans[OF _ tick(1)]) (simp add: i64_min_def)
  then have local: "local_tick steps i = Inr ?tick"
    using tick room(1)
    by (simp add: local_tick_def exact_i64_def len clip_room_def tick_room_def is_i64_def i64_max_def)
  obtain bs evss where bs: "occurrence_bases clip ?tick len (int (pc_length clip))
      (sat_i64 (tick_start - max first_delta last_delta)) (sat_i64 (tick_end - min first_delta last_delta)) = Inr bs"
    and evss: "collect_r (step_occurrence m seed clip steps lane i s) bs = Inr evss"
    and es: "es = push_at_ticks m window base (concat evss)"
    using run by (auto simp: schedule_step_def Let_def bind_r_eq_Inr len local first_delta_def last_delta_def)
  have evss: "evss = map (case_sum (\<lambda>_. []) id \<circ> step_occurrence m seed clip steps lane i s) bs"
    using collect_r_Inr[OF evss] by (induction rule: list_all2_induct) simp_all
  have map: "tempo_map_ok m" "resolved m window"
    "tick_start = first_beat_at_or_after_frame m (fr_start window)"
    "tick_end = first_beat_at_or_after_frame m (fr_end window)"
    using window by (simp_all add: ticks_of_def)
  show ?thesis
    unfolding es evss heard_push step_sounds_def prod.case
  proof (rule visited_suffice[OF room(1) tick map(1,2) bs[unfolded map(3,4)]])
    fix c e t k
    assume rep: "repetition clip ?tick len c e"
      and "(t, k) \<in> set ((case_sum (\<lambda>_. []) id \<circ> step_occurrence m seed clip steps lane i s) (pc_start clip + e, c))"
    then obtain evs where "step_occurrence m seed clip steps lane i s (pc_start clip + e, c) = Inr evs"
      "(t, k) \<in> set evs" by (force split: sum.splits)
    from step_tick_bounds[OF room rep this]
    show "pc_start clip + e + min first_delta last_delta \<le> t
        \<and> t \<le> pc_start clip + e + max first_delta last_delta \<and> is_i64 t"
      by (simp add: first_delta_def last_delta_def)
  qed
qed

section \<open>Nothing panics\<close>

lemma occurrence_bases_total:
  assumes "clip_room clip len"
  shows "\<exists>bs. occurrence_bases clip tick len n lo hi = Inr bs"
proof -
  have "0 < len" "is_i64 (len - 1)" using assms by (simp_all add: clip_room_def tick_room_def range_simps)
  then show ?thesis by (auto simp: occurrence_bases_def Let_def exact_i64_def)
qed

lemma schedule_note_total:
  "clip_room clip len \<Longrightarrow> \<exists>es. schedule_note m window base seed tick_start tick_end clip len n = Inr es"
  unfolding schedule_note_def Let_def by (rule bind_r_total[OF occurrence_bases_total]) simp_all

lemma step_occurrence_total:
  assumes "step_room steps i s"
  shows "\<exists>evs. step_occurrence m seed clip steps lane i s bc = Inr evs"
proof -
  obtain b c where bc: "bc = (b, c)" by (cases bc)
  have "is_i64 (step_spacing steps s * int j)" if "j < max 1 (se_ratchets s)" for j
    using spacing_bounds[OF assms that] by (simp add: range_simps tick_room_def)
  then show ?thesis
    unfolding bc step_occurrence_def Let_def prod.case collect_concat
    by (intro concat_r_total) (simp add: exact_i64_def)
qed

lemma schedule_step_total:
  assumes "clip_room clip len" "step_room steps i s" "int (i * sp_resolution steps) < len"
  shows "\<exists>es. schedule_step m window base seed tick_start tick_end clip len steps lane (i, s) = Inr es"
proof -
  have "i64_min \<le> int i * int (sp_resolution steps)" by (rule order_trans[of _ 0]) (simp_all add: i64_min_def)
  moreover have "cast_i64 (sp_resolution steps) = int (sp_resolution steps)"
    using assms(2) by (simp add: cast_i64_def step_room_def tick_room_def range_simps)
  ultimately have "local_tick steps i = Inr (int i * int (sp_resolution steps))"
    using assms(1,3) by (simp add: local_tick_def exact_i64_def clip_room_def tick_room_def is_i64_def i64_max_def)
  moreover have "\<exists>evs. collect_r (step_occurrence m seed clip steps lane i s) bs = Inr evs" for bs
    using step_occurrence_total[OF assms(2)] by (intro collect_r_total) blast
  ultimately show ?thesis
    unfolding schedule_step_def Let_def prod.case
    by (simp, intro bind_r_total[OF occurrence_bases_total[OF assms(1)]] bind_r_total) simp_all
qed

section \<open>Sequencers\<close>

text \<open>A pattern whose stored content is played: its expression, if any, has diverged.\<close>

definition plays_stored :: "PatternDefinition \<Rightarrow> bool" where
  "plays_stored p = (case pd_origin p of Expression _ _ _ _ diverged \<Rightarrow> diverged | _ \<Rightarrow> True)"

fun content_room :: "PatternContent \<Rightarrow> bool" where
  "content_room (Notes notes) = list_all note_room (bt_values notes)"
| "content_room (Steps steps) =
     list_all (\<lambda>lane. list_all (\<lambda>(i, s). step_room steps i s) (sl_steps lane)) (bt_values (sp_lanes steps))"

text \<open>Positions and lengths of what is played stay clear of the ends of \<open>i64\<close>.\<close>

definition sequencer_room :: "Sequencer \<Rightarrow> bool" where
  "sequencer_room s \<longleftrightarrow> (\<forall>clip \<in> set (bt_values (sq_clips s)). \<not> pc_muted clip \<longrightarrow>
     (case bt_get (sq_patterns s) (pc_pattern clip) of None \<Rightarrow> True
      | Some p \<Rightarrow> plays_stored p \<and> content_room (pd_content p) \<and> int (pd_length p) \<le> tick_room
          \<and> int (pc_length clip) \<le> tick_room \<and> \<bar>pc_start clip\<bar> \<le> tick_room))"

text \<open>Everything the sequencer plays with a seed.\<close>

definition clip_sounds :: "Sequencer \<Rightarrow> nat \<Rightarrow> PatternClip \<Rightarrow> (ProjectFrame \<times> ScheduledKind) multiset" where
  "clip_sounds s seed clip = (case bt_get (sq_patterns s) (pc_pattern clip) of None \<Rightarrow> {#}
     | Some p \<Rightarrow> (case pd_content p of
         Notes notes \<Rightarrow> (\<Sum>n\<leftarrow>bt_values notes. note_sounds (sq_tempo_map s) seed clip (int (pd_length p)) n)
       | Steps steps \<Rightarrow> (\<Sum>lane\<leftarrow>bt_values (sp_lanes steps). \<Sum>x\<leftarrow>sl_steps lane.
           step_sounds (sq_tempo_map s) seed clip (int (pd_length p)) steps lane x)))"

definition sounding :: "Sequencer \<Rightarrow> nat \<Rightarrow> (ProjectFrame \<times> ScheduledKind) multiset" where
  "sounding s seed = (\<Sum>clip\<leftarrow>filter (\<lambda>clip. \<not> pc_muted clip) (bt_values (sq_clips s)). clip_sounds s seed clip)"

text \<open>Concatenation of exact and total parts.\<close>

lemma concat_r_exact:
  assumes "\<And>x. x \<in> set xs \<Longrightarrow> \<exists>es. f x = Inr es \<and> heard es = in_window w (g x)"
  shows "\<exists>es. concat_r f xs = Inr es \<and> heard es = in_window w (\<Sum>x\<leftarrow>xs. g x)"
proof -
  obtain es where es: "concat_r f xs = Inr es"
    using concat_r_total[of xs f] assms by blast
  then obtain yss where yss: "list_all2 (\<lambda>x y. f x = Inr y) xs yss" "es = concat yss"
    using collect_r_Inr by (auto simp: concat_r_def bind_r_eq_Inr)
  from yss(1) have "(\<forall>x \<in> set xs. \<exists>es. f x = Inr es \<and> heard es = in_window w (g x))
      \<longrightarrow> heard (concat yss) = in_window w (\<Sum>x\<leftarrow>xs. g x)"
    by (induction rule: list_all2_induct) auto
  then show ?thesis using es yss(2) assms by blast
qed

lemma fits_iff:
  "clip_fits s c = Inr () \<longleftrightarrow> (\<exists>p. bt_get (sq_patterns s) (pc_pattern c) = Some p
     \<and> pc_pattern_offset c < int (pd_length p)
     \<and> (pc_looped c \<or> pc_pattern_offset c + int (pc_length c) \<le> int (pd_length p)))"
  by (cases "bt_get (sq_patterns s) (pc_pattern c)") (auto simp: clip_fits_def result_simps)

lemma pattern_parts:
  assumes "pattern_validate debug p = Inr ()"
  shows "0 < pd_length p"
    "pd_content p = Notes notes \<Longrightarrow> n \<in> set (bt_values notes) \<Longrightarrow> note_validate n = Inr () \<and> ne_start n < int (pd_length p)"
    "pd_content p = Steps steps \<Longrightarrow> lane \<in> set (bt_values (sp_lanes steps)) \<Longrightarrow> (i, x) \<in> set (sl_steps lane)
      \<Longrightarrow> i * sp_resolution steps < pd_length p"
proof -
  have len: "pd_length p \<noteq> 0" and content: "(case pd_content p of
        Notes notes \<Rightarrow> notes_validate (pd_id p) (pd_length p) notes
      | Steps pattern \<Rightarrow> steps_validate (pd_id p) (pd_length p) pattern) = Inr ()"
    using assms by (simp_all add: pattern_validate_def then_r_eq_Inr split: if_splits)
  show "0 < pd_length p" using len by simp
  show "note_validate n = Inr () \<and> ne_start n < int (pd_length p)"
    if "pd_content p = Notes notes" "n \<in> set (bt_values notes)"
    using content that by (auto simp: notes_validate_def bt_values_def result_simps)
  show "i * sp_resolution steps < pd_length p"
    if "pd_content p = Steps steps" "lane \<in> set (bt_values (sp_lanes steps))" "(i, x) \<in> set (sl_steps lane)"
    using content that by (fastforce simp: steps_validate_def bt_values_def result_simps not_le)
qed

lemma schedule_clip_exact:
  assumes valid: "sequencer_validate debug s = Inr ()" and room: "sequencer_room s"
    and window: "ticks_of (sq_tempo_map s) window tick_start tick_end"
    and clip: "clip \<in> set (bt_values (sq_clips s))" "\<not> pc_muted clip"
  shows "\<exists>es. schedule_clip s window base seed tick_start tick_end clip = Inr es
    \<and> heard es = in_window window (clip_sounds s seed clip)"
proof -
  let ?m = "sq_tempo_map s"
  obtain i where "(i, clip) \<in> set (sq_clips s)" using clip(1) by (auto simp: bt_values_def)
  then have fits: "clip_validate clip = Inr ()" "clip_fits s clip = Inr ()"
    using valid_parts(2)[OF valid] by auto
  then obtain p where p: "bt_get (sq_patterns s) (pc_pattern clip) = Some p"
    and offset: "pc_pattern_offset clip < int (pd_length p)"
    by (auto simp: fits_iff)
  have pv: "pattern_validate debug p = Inr ()"
    using bspec[OF valid_parts(1)[OF valid] bt_get_Some_in[OF p]] by simp
  note parts = pattern_parts[OF pv]
  have stored: "plays_stored p" and content: "content_room (pd_content p)"
    and far: "int (pd_length p) \<le> tick_room" "int (pc_length clip) \<le> tick_room" "\<bar>pc_start clip\<bar> \<le> tick_room"
    using room clip p by (auto simp: sequencer_room_def dest!: bspec)
  have croom: "clip_room clip (int (pd_length p))"
    using far offset parts(1) fits(1) by (auto simp: clip_room_def clip_validate_def result_simps)
  have len: "cast_i64 (pd_length p) = int (pd_length p)"
    using far(1) by (simp add: cast_i64_def tick_room_def range_simps)
  show ?thesis
  proof (cases "pd_content p")
    case (Notes ns)
    have "\<exists>es. concat_r (schedule_note ?m window base seed tick_start tick_end clip (int (pd_length p))) (bt_values ns) = Inr es
        \<and> heard es = in_window window (\<Sum>n\<leftarrow>bt_values ns. note_sounds ?m seed clip (int (pd_length p)) n)"
    proof (rule concat_r_exact)
      fix n assume n: "n \<in> set (bt_values ns)"
      then have "note_room n" using content Notes by (simp add: list_all_iff)
      from schedule_note_exact[OF window croom this] parts(2)[OF Notes n]
      have "heard es = in_window window (note_sounds ?m seed clip (int (pd_length p)) n)"
        if "schedule_note ?m window base seed tick_start tick_end clip (int (pd_length p)) n = Inr es" for es
        using that by simp
      then show "\<exists>es. schedule_note ?m window base seed tick_start tick_end clip (int (pd_length p)) n = Inr es
          \<and> heard es = in_window window (note_sounds ?m seed clip (int (pd_length p)) n)"
        using schedule_note_total[OF croom, of ?m window base seed tick_start tick_end n] by (metis (no_types))
    qed
    then show ?thesis by (simp add: schedule_clip_def clip_sounds_def p Notes len)
  next
    case (Steps steps)
    have lanes: "\<exists>es. concat_r (\<lambda>lane. concat_r (schedule_step ?m window base seed tick_start tick_end clip
          (int (pd_length p)) steps lane) (sl_steps lane)) (bt_values (sp_lanes steps)) = Inr es
        \<and> heard es = in_window window (\<Sum>lane\<leftarrow>bt_values (sp_lanes steps). \<Sum>x\<leftarrow>sl_steps lane.
            step_sounds ?m seed clip (int (pd_length p)) steps lane x)"
    proof (intro concat_r_exact)
      fix lane x assume x: "lane \<in> set (bt_values (sp_lanes steps))" "x \<in> set (sl_steps lane)"
      obtain i st where ix: "x = (i, st)" by (cases x)
      have sroom: "step_room steps i st" using content Steps x ix by (auto simp: list_all_iff)
      have local: "int (i * sp_resolution steps) < int (pd_length p)"
        using parts(3)[OF Steps x(1)] x(2) ix by (metis of_nat_less_iff)
      from schedule_step_exact[OF window croom sroom this]
      have "heard es = in_window window (step_sounds ?m seed clip (int (pd_length p)) steps lane x)"
        if "schedule_step ?m window base seed tick_start tick_end clip (int (pd_length p)) steps lane x = Inr es" for es
        using that ix by simp
      then show "\<exists>es. schedule_step ?m window base seed tick_start tick_end clip (int (pd_length p)) steps lane x = Inr es
          \<and> heard es = in_window window (step_sounds ?m seed clip (int (pd_length p)) steps lane x)"
        using schedule_step_total[OF croom sroom local, of ?m window base seed tick_start tick_end lane] ix
        by (metis (no_types))
    qed
    have "realized_cycles p clip seed tick_start tick_end = Inr None"
      using stored by (auto simp: realized_cycles_def plays_stored_def split: PatternOrigin.splits bool.splits)
    then show ?thesis using lanes by (simp add: schedule_clip_def clip_sounds_def p Steps len)
  qed
qed

lemma schedule_span_exact:
  assumes valid: "sequencer_validate debug s = Inr ()" and room: "sequencer_room s"
    and map: "tempo_map_ok (sq_tempo_map s)" "resolved (sq_tempo_map s) window"
  shows "\<exists>es. schedule_span s window base seed = Inr es \<and> heard es = in_window window (sounding s seed)"
proof -
  have "ticks_of (sq_tempo_map s) window (first_beat_at_or_after_frame (sq_tempo_map s) (fr_start window))
      (first_beat_at_or_after_frame (sq_tempo_map s) (fr_end window))"
    using map by (simp add: ticks_of_def)
  note schedule_clip_exact[OF valid room this]
  then show ?thesis
    unfolding schedule_span_def Let_def sounding_def by (intro concat_r_exact) simp
qed

lemma heard_sort [simp]: "heard (sort_scheduled es) = heard es"
  by (simp add: heard_def sort_scheduled_def)

lemma in_window_split:
  assumes "a \<le> b" "b \<le> c"
  shows "in_window \<lparr>fr_start = a, fr_end = c\<rparr> E
    = in_window \<lparr>fr_start = a, fr_end = b\<rparr> E + in_window \<lparr>fr_start = b, fr_end = c\<rparr> E"
  using assms by (induction E) (auto simp: in_window_def tempo_range_contains_def)

section \<open>Transport blocks\<close>

text \<open>Events of a span carry the offset of their frame in the block.\<close>

definition offsets_within :: "FrameRange \<Rightarrow> nat \<Rightarrow> ScheduledEvent list \<Rightarrow> bool" where
  "offsets_within window base es \<longleftrightarrow> (\<forall>e \<in> set es. tempo_range_contains window (ev_project_frame e)
     \<and> ev_block_offset e = min u32_max (base + nat (ev_project_frame e - fr_start window)))"

lemma push_offsets: "offsets_within window base (push_at_ticks m window base ticks)"
proof -
  have "min u32_max (sat_add_u64 base (nat (sat_i64 x))) = min u32_max (base + nat x)" if "0 \<le> x" for x
  proof (cases "x \<le> i64_max")
    case True
    then have "sat_i64 x = x" using that by (intro sat_i64_id) (simp add: is_i64_def i64_min_def)
    then show ?thesis by (auto simp: sat_add_u64_def u32_max_def u64_max_def)
  next
    case False
    then have "nat (sat_i64 x) = nat i64_max" "nat i64_max \<le> nat x" by (simp_all add: sat_i64_def range_simps)
    then show ?thesis by (simp add: sat_add_u64_def range_simps)
  qed
  then show ?thesis
    by (auto simp: offsets_within_def push_at_ticks_def push_if_in_range_def tempo_range_contains_def
        split: if_splits)
qed

lemma concat_r_offsets:
  assumes "concat_r f xs = Inr es" "\<And>x zs. x \<in> set xs \<Longrightarrow> f x = Inr zs \<Longrightarrow> offsets_within w b zs"
  shows "offsets_within w b es"
  using assms(2) unfolding offsets_within_def concat_r_set(1)[OF assms(1)] by blast

lemma schedule_clip_offsets:
  assumes "schedule_clip s window base seed ts te clip = Inr es"
  shows "offsets_within window base es"
proof -
  obtain p where p: "bt_get (sq_patterns s) (pc_pattern clip) = Some p"
    using assms by (cases "bt_get (sq_patterns s) (pc_pattern clip)") (simp_all add: schedule_clip_def)
  show ?thesis
  proof (cases "pd_content p")
    case (Notes ns)
    then have "concat_r (schedule_note (sq_tempo_map s) window base seed ts te clip (cast_i64 (pd_length p))) (bt_values ns) = Inr es"
      using assms p by (simp add: schedule_clip_def)
    then show ?thesis
      by (rule concat_r_offsets) (auto simp: schedule_note_def Let_def bind_r_eq_Inr push_offsets)
  next
    case (Steps steps)
    then obtain r where r: "(case r of
        Some cycles \<Rightarrow> concat_r (schedule_step_cycle (sq_tempo_map s) window base seed clip (cast_i64 (pd_length p))) cycles
      | None \<Rightarrow> concat_r (\<lambda>lane. concat_r (schedule_step (sq_tempo_map s) window base seed ts te clip
          (cast_i64 (pd_length p)) steps lane) (sl_steps lane)) (bt_values (sp_lanes steps))) = Inr es"
      using assms p by (cases "realized_cycles p clip seed ts te") (auto simp: schedule_clip_def Let_def)
    show ?thesis
    proof (cases r)
      case None
      have "offsets_within window base zs"
        if "schedule_step (sq_tempo_map s) window base seed ts te clip l steps lane x = Inr zs" for l lane x zs
        using that by (cases x) (auto simp: schedule_step_def Let_def bind_r_eq_Inr push_offsets)
      then have "offsets_within window base zs"
        if "concat_r (schedule_step (sq_tempo_map s) window base seed ts te clip l steps lane) xs = Inr zs" for l lane xs zs
        using concat_r_offsets[OF that] by blast
      then show ?thesis
        using None r concat_r_offsets[of _ "bt_values (sp_lanes steps)" es] by simp blast
    next
      case (Some cycles)
      then show ?thesis
        using r by (auto elim!: concat_r_offsets simp: schedule_step_cycle_def bind_r_eq_Inr push_offsets)
    qed
  qed
qed

lemma schedule_span_offsets: "schedule_span s window base seed = Inr es \<Longrightarrow> offsets_within window base es"
  unfolding schedule_span_def Let_def by (erule concat_r_offsets) (rule schedule_clip_offsets)

lemma span_offset_bound:
  assumes "offsets_within \<lparr>fr_start = position, fr_end = sat_i64 (position + int step)\<rparr> base es" "e \<in> set es"
    "i64_min \<le> position"
  shows "ev_block_offset e < base + step"
proof -
  have "sat_i64 (position + int step) \<le> position + int step"
    using assms(3) by (simp add: sat_i64_def)
  moreover have "position \<le> ev_project_frame e" "ev_project_frame e < sat_i64 (position + int step)"
    "ev_block_offset e \<le> base + nat (ev_project_frame e - position)"
    using assms(1,2) by (auto simp: offsets_within_def tempo_range_contains_def)
  ultimately show ?thesis by linarith
qed

lemma wrap_position_i64:
  "wrap_position r skipped position = Inr (position', ws) \<Longrightarrow> is_i64 position \<Longrightarrow> is_i64 position'"
  by (auto simp: wrap_position_def Let_def bind_r_eq_Inr exact_i64_def split: if_splits)

lemma transport_loop_0 [simp]: "transport_loop s r seed 0 skipped position = Inr []"
  by (simp add: transport_loop.simps)

lemma transport_loop_offsets:
  assumes "transport_loop s r seed remaining skipped position = Inr es" "e \<in> set es"
    "is_i64 position" "is_i64 (fr_start r)" "skipped + remaining < 2 ^ 32"
  shows "ev_block_offset e < skipped + remaining"
  using assms
proof (induction remaining arbitrary: skipped position es e rule: less_induct)
  case (less remaining)
  have rem: "remaining \<noteq> 0" using less(2,3) by (cases "remaining = 0") simp_all
  then obtain position' wrapped where w: "wrap_position r skipped position = Inr (position', wrapped)"
    using less(2) by (subst (asm) transport_loop.simps) (auto simp: bind_r_eq_Inr)
  define step where "step = min remaining (nat (max 1 (sat_i64 (fr_end r - position'))))"
  define stop where "stop = sat_i64 (position' + int step)"
  define boundary where "boundary \<longleftrightarrow> stop = fr_end r \<and> 0 < remaining - step"
  have step: "0 < step" "step \<le> remaining" using rem by (simp_all add: step_def)
  have unrolled: "transport_loop s r seed remaining skipped position
    = bind_r (schedule_span s \<lparr>fr_start = position', fr_end = stop\<rparr> skipped seed) (\<lambda>events.
      bind_r (transport_loop s r seed (remaining - step) (skipped + step)
        (if boundary then fr_start r else stop)) (\<lambda>later.
      Inr (wrapped @ events @ (if boundary then [loop_boundary (skipped + step) r] else []) @ later)))"
    by (subst transport_loop.simps)
      (simp only: w rem bind_r_simps prod.case Let_def step_def stop_def boundary_def if_False)
  then obtain events later where parts: "schedule_span s \<lparr>fr_start = position', fr_end = stop\<rparr> skipped seed = Inr events"
    "transport_loop s r seed (remaining - step) (skipped + step) (if boundary then fr_start r else stop) = Inr later"
    and es: "es = wrapped @ events @ (if boundary then [loop_boundary (skipped + step) r] else []) @ later"
    using less(2) unfolding unrolled bind_r_eq_Inr by blast
  have pos: "is_i64 position'" "i64_min \<le> position'"
    using wrap_position_i64[OF w less(4)] by (simp_all add: is_i64_def)
  have wrapped: "set wrapped \<subseteq> {loop_boundary skipped r}"
    using w by (auto simp: wrap_position_def Let_def bind_r_eq_Inr split: if_splits)
  have "ev_block_offset e' < skipped + remaining" if "e' \<in> set later" for e'
  proof -
    have "is_i64 (if boundary then fr_start r else stop)" using less(5) by (simp add: stop_def)
    then have "ev_block_offset e' < skipped + step + (remaining - step)"
      using step less(6) by (intro less(1)[OF _ parts(2) that _ less(5)]) simp_all
    then show ?thesis using step by simp
  qed
  moreover have "ev_block_offset e' < skipped + remaining" if "e' \<in> set events" for e'
    using span_offset_bound[OF schedule_span_offsets[OF parts(1), unfolded stop_def] that pos(2)] step by simp
  moreover have "ev_block_offset (loop_boundary skipped r) < skipped + remaining"
    using rem less(6) by (simp add: loop_boundary_def)
  moreover have "ev_block_offset (loop_boundary (skipped + step) r) < skipped + remaining" if boundary
    using that step less(6) by (simp add: loop_boundary_def boundary_def)
  ultimately show ?case
    using less(3) wrapped by (auto simp: es split: if_splits)
qed

end
