(* ===== verification/Sequencer_Properties.thy ===== *)
theory Sequencer_Properties
  imports Sequencer_Blocks Tempo_Properties
begin

text \<open>
  The properties of the pattern library, its commands and the scheduler, each with a concrete
  instance: a small library with one pattern of one note, and a clip that loops it.
\<close>

definition demo_note :: NoteEvent where
  "demo_note = \<lparr>ne_id = Id 7, ne_start = 0, ne_duration = 240, ne_pitch = \<lparr>np_midi_key = 60, np_cents = 0\<rparr>,
     ne_velocity = f32_one, ne_release_velocity = 0, ne_pan = 0, ne_probability = f32_one,
     ne_micro_offset = 0, ne_channel = 0, ne_instrument = None, ne_articulation = Normal,
     ne_expression = \<lparr>pe_pitch_cents = [], pe_pressure = [], pe_timbre = []\<rparr>\<rparr>"

definition demo_pattern :: PatternDefinition where
  "demo_pattern = \<lparr>pd_id = Id 4, pd_name = ascii ''riff'', pd_length = 960, pd_content = Notes [(Id 7, demo_note)],
     pd_origin = Deprojected (Id 2) False, pd_revision = 0\<rparr>"

definition demo_library :: Sequencer where
  "demo_library = (sequencer_new sample_map)\<lparr>sq_patterns := [(Id 4, demo_pattern)], sq_next_pattern_id := 5,
     sq_next_note_id := 8, sq_revision := 1,
     sq_undo := [\<lparr>he_label = ascii ''add'', he_forward = [PutPattern None (Some demo_pattern)],
       he_backward = [PutPattern (Some demo_pattern) None]\<rparr>]\<rparr>"

lemmas demo_floats = unit_value_def bipolar_value_def f32_is_finite_def f32_le_def f32_one_def
  f32_minus_one_def f32_is_nan_def f32_exp_def f32_frac_def f32_key_def
  f32_neg_def windows2_def

lemma demo_fields [simp]: "pd_id demo_pattern = Id 4" "pd_length demo_pattern = 960"
  "pd_content demo_pattern = Notes [(Id 7, demo_note)]" "pd_origin demo_pattern = Deprojected (Id 2) False"
  by (simp_all add: demo_pattern_def)

lemma demo_note_valid: "note_validate demo_note = Inr ()"
  by (simp add: note_validate_def demo_note_def valid_expression_def demo_floats)

lemma demo_pattern_valid: "pattern_validate debug demo_pattern = Inr ()"
  using demo_note_valid
  by (simp add: pattern_validate_def expression_validate_def notes_validate_def
      i64_max_def demo_note_def)

lemma demo_eq: "pattern_eq demo_pattern demo_pattern"
  using pattern_valid_numbers[OF demo_pattern_valid] by (simp add: pattern_eq_def pattern_content_eq_def)

definition demo_candidate :: Sequencer where
  "demo_candidate = (sequencer_new sample_map)\<lparr>sq_patterns := [(Id 4, demo_pattern)], sq_next_pattern_id := 5,
     sq_next_note_id := 8\<rparr>"

lemma demo_put:
  "apply_sequencer_commands [PutPattern None (Some demo_pattern)] (clone_without_history (sequencer_new sample_map))
    = Inr demo_candidate"
  by (simp add: apply_sequencer_commands_def put_target_def sequencer_new_def clone_without_history_def
      bt_get_def bump_def bump_over_def largest_id_def bt_keys_def sat_add_u64_def u64_max_def demo_candidate_def)

lemma demo_candidate_valid: "sequencer_validate debug demo_candidate = Inr ()"
  by (simp add: sequencer_validate_def demo_candidate_def demo_pattern_valid sequencer_new_def)

lemma demo_execute:
  "sequencer_execute debug (ascii ''add'') [PutPattern None (Some demo_pattern)] (sequencer_new sample_map) = Inr demo_library"
proof -
  have "candidate_of debug [PutPattern None (Some demo_pattern)] (sequencer_new sample_map) = Inr demo_candidate"
    by (simp add: candidate_of_def demo_put demo_candidate_valid lift_error_def)
  then show ?thesis
    by (simp add: sequencer_execute_def prepare_pattern_divergence_def mark_diverged_after_manual_edit_def)
      (simp add: demo_library_def demo_candidate_def publish_def sequencer_new_def Let_def
        trim_front_drop sat_add_u64_def u64_max_def)
qed

lemma demo_reachable: "sequencer_reachable debug demo_library"
  by (rule sequencer_reachable.sq_execute[OF sequencer_reachable.sq_new demo_execute])

section \<open>Validity\<close>

text \<open>
  C35. In every reachable sequencer the patterns are valid under their own identifier, and every clip
  is valid, refers to a pattern of the library and starts inside it; a clip that does not loop ends
  inside it too.
\<close>

theorem sequencer_always_valid:
  assumes "sequencer_reachable debug s"
  shows "(\<forall>i p. bt_get (sq_patterns s) i = Some p \<longrightarrow> pd_id p = i \<and> pattern_validate debug p = Inr ())
    \<and> (\<forall>i c. bt_get (sq_clips s) i = Some c \<longrightarrow> pc_id c = i \<and> clip_validate c = Inr ()
        \<and> (\<exists>p. bt_get (sq_patterns s) (pc_pattern c) = Some p \<and> pc_pattern_offset c < int (pd_length p)
            \<and> (pc_looped c \<or> pc_pattern_offset c + int (pc_length c) \<le> int (pd_length p))))"
proof -
  have "sequencer_validate debug s = Inr ()"
    using sequencer_reachable_inv[OF assms] by (simp add: sequencer_inv_def sequencer_good_def)
  note valid = valid_parts[OF this]
  have "pd_id p = i \<and> pattern_validate debug p = Inr ()" if "bt_get (sq_patterns s) i = Some p" for i p
    using bspec[OF valid(1) bt_get_Some_in[OF that]] by simp
  moreover have "pc_id c = i \<and> clip_validate c = Inr () \<and> clip_fits s c = Inr ()"
    if "bt_get (sq_clips s) i = Some c" for i c
    using bspec[OF valid(2) bt_get_Some_in[OF that]] by simp
  ultimately show ?thesis
    by (simp add: fits_iff)
qed

theorem sequencer_always_valid_witness:
  "pattern_validate (\<lambda>_. []) demo_pattern = Inr ()"
proof -
  have "bt_get (sq_patterns demo_library) (Id 4) = Some demo_pattern"
    by (simp add: demo_library_def bt_get_def)
  then show ?thesis using sequencer_always_valid[OF demo_reachable[of "\<lambda>_. []"]] by blast
qed

section \<open>Undo and redo\<close>

text \<open>
  C36. Undo and redo never fail in a reachable sequencer: while their stack has an entry, its
  commands are not stale and lead to a valid library, and the entry moves to the other stack.
\<close>

theorem sequencer_history_total:
  assumes "sequencer_reachable debug s"
  shows "(sq_undo s \<noteq> [] \<longrightarrow> (\<exists>t. sequencer_undo debug s = Inr (Some t)
      \<and> sq_undo t = butlast (sq_undo s) \<and> sq_redo t = sq_redo s @ [last (sq_undo s)]))
    \<and> (sq_redo s \<noteq> [] \<longrightarrow> (\<exists>t. sequencer_redo debug s = Inr (Some t)
      \<and> sq_undo t = sq_undo s @ [last (sq_redo s)] \<and> sq_redo t = butlast (sq_redo s)))"
proof (intro conjI impI)
  note inv = sequencer_reachable_inv[OF assms]
  show "\<exists>t. sequencer_undo debug s = Inr (Some t) \<and> sq_undo t = butlast (sq_undo s)
      \<and> sq_redo t = sq_redo s @ [last (sq_undo s)]" if "sq_undo s \<noteq> []"
    by (rule undo_step[OF inv that]) simp
  show "\<exists>t. sequencer_redo debug s = Inr (Some t) \<and> sq_undo t = sq_undo s @ [last (sq_redo s)]
      \<and> sq_redo t = butlast (sq_redo s)" if "sq_redo s \<noteq> []"
    by (rule redo_step[OF inv that]) simp
qed

theorem sequencer_history_total_witness:
  "\<exists>t. sequencer_undo (\<lambda>_. []) demo_library = Inr (Some t) \<and> sq_undo t = [] \<and> length (sq_redo t) = 1"
proof -
  have "sq_undo demo_library \<noteq> []" "butlast (sq_undo demo_library) = []" "sq_redo demo_library = []"
    by (simp_all add: demo_library_def sequencer_new_def)
  then show ?thesis using sequencer_history_total[OF demo_reachable[of "\<lambda>_. []"]] by force
qed

lemma execute_undo_redo:
  assumes "sequencer_inv debug s" "sequencer_execute debug label cs s = Inr t" "cs \<noteq> []"
    "sq_history_limit s \<noteq> 0"
  shows "\<exists>u v. sequencer_undo debug t = Inr (Some u) \<and> sequencer_content u = sequencer_content s
    \<and> sequencer_redo debug u = Inr (Some v) \<and> sequencer_content v = sequencer_content t"
proof -
  define fw where "fw = prepare_pattern_divergence cs"
  obtain c where c: "candidate_of debug fw s = Inr c"
    and t: "sequencer_content t = sequencer_content c" "sq_undo t \<noteq> []" "he_forward (last (sq_undo t)) = fw"
    using assms(2-4)
    by (auto simp: sequencer_execute_def fw_def Let_def bind_r_eq_Inr publish_def content_iff trim_front_drop)
  have inv: "sequencer_inv debug t" by (rule sequencer_execute_inv[OF assms(1,2)])
  have good: "sequencer_good debug s" using assms(1) by (simp add: sequencer_inv_def)
  obtain c' u where c': "candidate_of debug (inverse_commands fw) t = Inr c'"
    and u: "sequencer_undo debug t = Inr (Some u)" "sequencer_content u = sequencer_content c'"
      "sq_redo u \<noteq> []" "last (sq_redo u) = last (sq_undo t)"
    by (rule undo_step[OF inv t(2)]) (simp add: t(3))
  have us: "sequencer_content u = sequencer_content s"
    using candidate_undone[OF c good] candidate_cong[OF c' t(1)] u(2) by auto
  obtain d v where d: "candidate_of debug fw u = Inr d"
    and v: "sequencer_redo debug u = Inr (Some v)" "sequencer_content v = sequencer_content d"
    by (rule redo_step[OF sequencer_undo_inv[OF inv u(1)] u(3)]) (simp add: u(4) t(3))
  have "sequencer_content v = sequencer_content t"
    using candidate_cong[OF d us] c t(1) v(2) by auto
  then show ?thesis using u(1) us v(1) by blast
qed

text \<open>
  C37. Undoing an edit gives back the patterns, clips and tempo map it started from, and redoing it
  those it led to, floats compared as \<open>PartialEq\<close> does.
\<close>

theorem sequencer_undo_restores:
  assumes "sequencer_reachable debug s" "sequencer_execute debug label cs s = Inr t" "cs \<noteq> []"
    "sq_history_limit s \<noteq> 0"
  shows "\<exists>u v. sequencer_undo debug t = Inr (Some u) \<and> sequencer_content u = sequencer_content s
    \<and> sequencer_redo debug u = Inr (Some v) \<and> sequencer_content v = sequencer_content t"
  by (rule execute_undo_redo[OF sequencer_reachable_inv[OF assms(1)] assms(2-4)])

theorem sequencer_undo_restores_witness:
  "\<exists>u. sequencer_undo (\<lambda>_. []) demo_library = Inr (Some u) \<and> sequencer_content u = (sample_map, [], [])"
proof -
  have "sequencer_content (sequencer_new sample_map) = (sample_map, [], [])"
    "sq_history_limit (sequencer_new sample_map) \<noteq> 0"
    by (simp_all add: sequencer_content_def sequencer_new_def bt_map_def)
  then show ?thesis
    using sequencer_undo_restores[OF sequencer_reachable.sq_new demo_execute[of "\<lambda>_. []"]] by auto
qed

section \<open>Identifiers\<close>

lemma above_fresh: "ids_above ids n \<Longrightarrow> n < u64_max \<Longrightarrow> n \<notin> set ids"
  by (auto simp: ids_above_def sat_add_u64_def)

lemma fresh_counters:
  assumes "sequencer_counters_ok s"
  shows "sq_next_pattern_id s < u64_max \<Longrightarrow> bt_get (sq_patterns s) (Id (sq_next_pattern_id s)) = None"
    "sq_next_clip_id s < u64_max \<Longrightarrow> bt_get (sq_clips s) (Id (sq_next_clip_id s)) = None"
    "sq_next_note_id s < u64_max \<Longrightarrow> bt_get (sq_patterns s) i = Some p \<Longrightarrow> sq_next_note_id s \<notin> set (note_ids p)"
    "sq_next_lane_id s < u64_max \<Longrightarrow> bt_get (sq_patterns s) i = Some p \<Longrightarrow> sq_next_lane_id s \<notin> set (lane_ids p)"
proof -
  have keys: "raw i \<in> set (map raw (bt_keys m))" if "bt_get m i = Some v" for m :: "('t typed_id, 'v) btree" and i v
    using bt_get_Some_in[OF that] by (force simp: bt_keys_def)
  have vals: "p \<in> set (bt_values (sq_patterns s))" if "bt_get (sq_patterns s) i = Some p" for i p
    using bt_get_Some_in[OF that] by (force simp: bt_values_def)
  note above = assms[unfolded sequencer_counters_ok_def]
  show "bt_get (sq_patterns s) (Id (sq_next_pattern_id s)) = None" if "sq_next_pattern_id s < u64_max"
    using above_fresh[OF _ that] above keys[of "sq_patterns s"] by (metis not_None_eq typed_id.sel)
  show "bt_get (sq_clips s) (Id (sq_next_clip_id s)) = None" if "sq_next_clip_id s < u64_max"
    using above_fresh[OF _ that] above keys[of "sq_clips s"] by (metis not_None_eq typed_id.sel)
  show "sq_next_note_id s \<notin> set (note_ids p)" if "sq_next_note_id s < u64_max" "bt_get (sq_patterns s) i = Some p"
    using above_fresh[OF _ that(1)] above vals[OF that(2)] by blast
  show "sq_next_lane_id s \<notin> set (lane_ids p)" if "sq_next_lane_id s < u64_max" "bt_get (sq_patterns s) i = Some p"
    using above_fresh[OF _ that(1)] above vals[OF that(2)] by blast
qed

lemma undo_keeps_counters:
  assumes "sequencer_undo debug s = Inr (Some t) \<or> sequencer_redo debug s = Inr (Some t)"
  shows "sq_next_pattern_id s \<le> sq_next_pattern_id t \<and> sq_next_clip_id s \<le> sq_next_clip_id t
    \<and> sq_next_note_id s \<le> sq_next_note_id t \<and> sq_next_lane_id s \<le> sq_next_lane_id t"
  using assms by (auto simp: sequencer_undo_def sequencer_redo_def Let_def bind_r_eq_Inr publish_def split: if_splits)

text \<open>
  C38. An allocated identifier is new: no pattern, clip, note or step lane of a reachable sequencer
  has it as long as its counter has not reached the end of \<open>u64\<close>; the counter moves past it and
  nothing else changes. Undo and redo never lower a counter, so they never make an identifier
  available again.
\<close>

theorem allocated_ids_fresh:
  assumes "sequencer_reachable debug s"
    and "sq_next_pattern_id s < u64_max" "sq_next_clip_id s < u64_max"
      "sq_next_note_id s < u64_max" "sq_next_lane_id s < u64_max"
    and "allocate_pattern_id s = (i, s1)" "allocate_pattern_clip_id s = (c, s2)"
      "allocate_note_id s = (n, s3)" "allocate_step_lane_id s = (l, s4)"
  shows "bt_get (sq_patterns s) i = None \<and> s1 = s\<lparr>sq_next_pattern_id := raw i + 1\<rparr>
    \<and> bt_get (sq_clips s) c = None \<and> s2 = s\<lparr>sq_next_clip_id := raw c + 1\<rparr>
    \<and> (\<forall>k p. bt_get (sq_patterns s) k = Some p \<longrightarrow> raw n \<notin> set (note_ids p))
    \<and> s3 = s\<lparr>sq_next_note_id := raw n + 1\<rparr>
    \<and> (\<forall>k p. bt_get (sq_patterns s) k = Some p \<longrightarrow> raw l \<notin> set (lane_ids p))
    \<and> s4 = s\<lparr>sq_next_lane_id := raw l + 1\<rparr>
    \<and> (\<forall>t. sequencer_undo debug s = Inr (Some t) \<or> sequencer_redo debug s = Inr (Some t)
        \<longrightarrow> raw i \<le> raw (fst (allocate_pattern_id t)) \<and> raw c \<le> raw (fst (allocate_pattern_clip_id t))
          \<and> raw n \<le> raw (fst (allocate_note_id t)) \<and> raw l \<le> raw (fst (allocate_step_lane_id t)))"
proof -
  have ok: "sequencer_counters_ok s" using reachable_counters[OF assms(1)] by simp
  note allocators = allocate_pattern_id_def allocate_pattern_clip_id_def allocate_note_id_def
    allocate_step_lane_id_def
  have "i = Id (sq_next_pattern_id s)" "c = Id (sq_next_clip_id s)" "n = Id (sq_next_note_id s)"
    "l = Id (sq_next_lane_id s)" "s1 = s\<lparr>sq_next_pattern_id := sq_next_pattern_id s + 1\<rparr>"
    "s2 = s\<lparr>sq_next_clip_id := sq_next_clip_id s + 1\<rparr>"
    "s3 = s\<lparr>sq_next_note_id := sq_next_note_id s + 1\<rparr>"
    "s4 = s\<lparr>sq_next_lane_id := sq_next_lane_id s + 1\<rparr>"
    using assms(2-9) by (auto simp: allocators sat_add_u64_def)
  then show ?thesis
    using fresh_counters[OF ok] assms(2-5) undo_keeps_counters[of debug s]
    by (auto simp: allocators)
qed

theorem allocated_ids_fresh_witness:
  "bt_get (sq_patterns demo_library) (Id 5) = None \<and> bt_get (sq_clips demo_library) (Id 1) = None
    \<and> 8 \<notin> set (note_ids demo_pattern) \<and> 1 \<notin> set (lane_ids demo_pattern)"
proof -
  have limits: "sq_next_pattern_id demo_library < u64_max" "sq_next_clip_id demo_library < u64_max"
      "sq_next_note_id demo_library < u64_max" "sq_next_lane_id demo_library < u64_max"
    and demo: "bt_get (sq_patterns demo_library) (Id 4) = Some demo_pattern"
    by (simp_all add: demo_library_def sequencer_new_def u64_max_def bt_get_def)
  have ids: "fst (allocate_pattern_id demo_library) = Id 5" "fst (allocate_pattern_clip_id demo_library) = Id 1"
    "fst (allocate_note_id demo_library) = Id 8" "fst (allocate_step_lane_id demo_library) = Id 1"
    by (simp_all add: demo_library_def sequencer_new_def allocate_pattern_id_def
        allocate_pattern_clip_id_def allocate_note_id_def allocate_step_lane_id_def)
  show ?thesis
    using allocated_ids_fresh[OF demo_reachable[of "\<lambda>_. []"] limits surjective_pairing surjective_pairing
        surjective_pairing surjective_pairing] demo
    unfolding ids typed_id.sel by blast
qed

section \<open>Provenance\<close>

lemma execute_candidate:
  assumes "sequencer_execute debug label cs s = Inr t" "cs \<noteq> []"
  obtains c where "candidate_of debug (prepare_pattern_divergence cs) s = Inr c" "sq_patterns t = sq_patterns c"
  using assms unfolding sequencer_execute_def Let_def
  by (cases "candidate_of debug (prepare_pattern_divergence cs) s") (auto simp: publish_def)

text \<open>
  C40. A grid edit of a generated pattern is marked: when a command replaces a pattern by one with
  another length or content that claims the same origin, the stored pattern has the new content and
  an origin that says it diverged.
\<close>

theorem grid_edit_marks_divergence:
  assumes "sequencer_execute debug label [PutPattern (Some b) (Some a)] s = Inr t"
    and "pd_origin a = pd_origin b" "pd_origin b \<noteq> Authored" "\<not> origin_diverged (pd_origin b)"
    and "pd_length b \<noteq> pd_length a \<or> \<not> pattern_content_eq (pd_content b) (pd_content a)"
  shows "bt_get (sq_patterns t) (pd_id b) = Some (a\<lparr>pd_origin := mark_diverged (pd_origin b)\<rparr>)
    \<and> origin_diverged (mark_diverged (pd_origin b))"
proof -
  let ?a = "a\<lparr>pd_origin := mark_diverged (pd_origin b)\<rparr>"
  have mark: "mark_diverged_after_manual_edit (Some b) a = ?a" "origin_diverged (mark_diverged (pd_origin b))"
    using assms(2-5) by (cases "pd_origin b"; auto simp: mark_diverged_after_manual_edit_def)+
  obtain c where "candidate_of debug [PutPattern (Some b) (Some ?a)] s = Inr c"
    and patterns: "sq_patterns t = sq_patterns c"
    by (rule execute_candidate[OF assms(1)]) (simp_all add: prepare_pattern_divergence_def mark(1))
  then have "apply_sequencer_command (PutPattern (Some b) (Some ?a)) (clone_without_history s) = Inr c"
    unfolding candidate_Inr apply_commands_Cons by simp
  then obtain i where "put_target pattern_eq pd_id (Some b) (Some ?a) (sq_patterns s) = Inr i"
    "sq_patterns c = put_at i (Some ?a) (sq_patterns s)"
    by (rule put_pattern_Inr) (simp add: clone_without_history_def)
  then show ?thesis
    using mark(2) by (auto simp: patterns put_at_get put_target_def split: if_splits)
qed

definition demo_edit :: PatternDefinition where
  "demo_edit = demo_pattern\<lparr>pd_length := 1920\<rparr>"

definition marked_edit :: PatternDefinition where
  "marked_edit = demo_edit\<lparr>pd_origin := Deprojected (Id 2) True\<rparr>"

lemma marked_valid: "pattern_validate debug marked_edit = Inr ()"
  using demo_note_valid
  by (simp add: marked_edit_def demo_edit_def pattern_validate_def expression_validate_def notes_validate_def
      i64_max_def demo_note_def)

lemma demo_edit_execute:
  "\<exists>t. sequencer_execute debug (ascii ''edit'') [PutPattern (Some demo_pattern) (Some demo_edit)] demo_library = Inr t"
proof -
  let ?c = "(clone_without_history demo_library)\<lparr>sq_patterns := [(Id 4, marked_edit)]\<rparr>"
  have "mark_diverged_after_manual_edit (Some demo_pattern) demo_edit = marked_edit"
    by (simp add: mark_diverged_after_manual_edit_def demo_edit_def marked_edit_def)
  moreover have "apply_sequencer_commands [PutPattern (Some demo_pattern) (Some marked_edit)]
      (clone_without_history demo_library) = Inr ?c"
    using demo_eq
    by (simp add: apply_sequencer_commands_def put_target_def clone_without_history_def bt_get_def demo_library_def
        marked_edit_def demo_edit_def bump_def bump_over_def largest_id_def bt_keys_def sat_add_u64_def u64_max_def
        sequencer_new_def)
  moreover have "sequencer_validate debug ?c = Inr ()"
    using marked_valid
    by (simp add: sequencer_validate_def clone_without_history_def demo_library_def sequencer_new_def)
      (simp add: marked_edit_def demo_edit_def)
  ultimately have "candidate_of debug (prepare_pattern_divergence [PutPattern (Some demo_pattern) (Some demo_edit)])
      demo_library = Inr ?c"
    by (simp add: candidate_Inr prepare_pattern_divergence_def)
  then show ?thesis by (simp add: sequencer_execute_def Let_def)
qed

theorem grid_edit_marks_divergence_witness:
  "\<exists>t. sequencer_execute (\<lambda>_. []) (ascii ''edit'') [PutPattern (Some demo_pattern) (Some demo_edit)] demo_library = Inr t
    \<and> bt_get (sq_patterns t) (Id 4) = Some marked_edit"
proof -
  obtain t where t: "sequencer_execute (\<lambda>_. []) (ascii ''edit'') [PutPattern (Some demo_pattern) (Some demo_edit)]
      demo_library = Inr t"
    using demo_edit_execute by blast
  have "pd_origin demo_edit = pd_origin demo_pattern" "pd_origin demo_pattern \<noteq> Authored"
    "\<not> origin_diverged (pd_origin demo_pattern)"
    "pd_length demo_pattern \<noteq> pd_length demo_edit
      \<or> \<not> pattern_content_eq (pd_content demo_pattern) (pd_content demo_edit)"
    by (simp_all add: demo_edit_def)
  from grid_edit_marks_divergence[OF t this] show ?thesis
    using t by (simp add: marked_edit_def)
qed

section \<open>Scheduling\<close>

definition demo_placed :: PatternClip where
  "demo_placed = \<lparr>pc_id = Id 1, pc_pattern = Id 4, pc_start = 0, pc_length = 1920, pc_pattern_offset = 0,
     pc_looped = True, pc_transpose_semitones = 0, pc_gain = f32_one, pc_muted = False\<rparr>"

lemma demo_placed_fields [simp]: "pc_id demo_placed = Id 1" "pc_pattern demo_placed = Id 4"
  "pc_start demo_placed = 0" "pc_length demo_placed = 1920" "pc_pattern_offset demo_placed = 0"
  "pc_looped demo_placed" "\<not> pc_muted demo_placed"
  by (simp_all add: demo_placed_def)

definition demo_placing :: Sequencer where
  "demo_placing = (clone_without_history demo_library)\<lparr>sq_clips := [(Id 1, demo_placed)], sq_next_clip_id := 2\<rparr>"

lemma demo_song_exists:
  "\<exists>t. sequencer_execute debug (ascii ''place'') [PutClip None (Some demo_placed)] demo_library = Inr t
    \<and> sq_patterns t = [(Id 4, demo_pattern)] \<and> sq_clips t = [(Id 1, demo_placed)] \<and> sq_tempo_map t = sample_map"
proof -
  have "apply_sequencer_commands [PutClip None (Some demo_placed)] (clone_without_history demo_library) = Inr demo_placing"
    by (simp add: apply_sequencer_commands_def put_target_def clone_without_history_def bt_get_def demo_library_def
        demo_placing_def sequencer_new_def bump_def sat_add_u64_def u64_max_def)
  moreover have "clip_validate demo_placed = Inr ()"
    by (simp add: clip_validate_def demo_placed_def clip_end_def beat_saturating_add_def sat_i64_def range_simps demo_floats)
  then have "sequencer_validate debug demo_placing = Inr ()"
    using demo_pattern_valid
    by (simp add: sequencer_validate_def demo_placing_def clone_without_history_def demo_library_def
        sequencer_new_def clip_fits_def bt_get_def lift_error_def)
  ultimately have "candidate_of debug (prepare_pattern_divergence [PutClip None (Some demo_placed)]) demo_library = Inr demo_placing"
    by (simp add: candidate_Inr prepare_pattern_divergence_def)
  then show ?thesis
    by (simp add: sequencer_execute_def Let_def publish_def demo_placing_def clone_without_history_def
        demo_library_def sequencer_new_def)
qed

lemma demo_song:
  obtains t where "sequencer_reachable debug t" "sq_patterns t = [(Id 4, demo_pattern)]"
    "sq_clips t = [(Id 1, demo_placed)]" "sq_tempo_map t = sample_map" "sequencer_room t"
proof -
  obtain t where t: "sequencer_execute debug (ascii ''place'') [PutClip None (Some demo_placed)] demo_library = Inr t"
    "sq_patterns t = [(Id 4, demo_pattern)]" "sq_clips t = [(Id 1, demo_placed)]" "sq_tempo_map t = sample_map"
    using demo_song_exists by blast
  have "note_room demo_note" by (simp add: note_room_def demo_note_def i32_min_def i32_max_def)
  then have "sequencer_room t"
    by (simp add: sequencer_room_def t bt_values_def bt_get_def plays_stored_def tick_room_def)
  then show thesis
    using that[OF sequencer_reachable.sq_execute[OF demo_reachable t(1)]] t by blast
qed

lemma demo_resolved: "0 \<le> a \<Longrightarrow> a \<le> b \<Longrightarrow> b \<le> 48000 \<Longrightarrow> resolved sample_map \<lparr>fr_start = a, fr_end = b\<rparr>"
proof -
  have "beat_to_frame sample_map i64_min < 0" "48000 \<le> beat_to_frame sample_map i64_max"
    by (simp_all add: sample_evaluation)
  then show "0 \<le> a \<Longrightarrow> a \<le> b \<Longrightarrow> b \<le> 48000 \<Longrightarrow> resolved sample_map \<lparr>fr_start = a, fr_end = b\<rparr>"
    by (simp add: resolved_def)
qed

text \<open>
  C39. A window schedules, without panic, exactly the events of the song whose frame lies in the
  half-open window, each as often as it occurs, sorted, and each at its distance from the start of
  the window. The events of the song are those of the repetitions of its unmuted clips: they do not
  depend on the window. This is for patterns that play their stored content, positions and lengths
  of at most \<open>2 ^ 60\<close> ticks and windows inside the frames of the tempo map.
\<close>

theorem project_window_exact:
  assumes "sequencer_reachable debug s" "tempo_map_reachable (sq_tempo_map s)" "sequencer_room s"
    "resolved (sq_tempo_map s) window"
  shows "\<exists>es. schedule_project_window s window seed = Inr es
    \<and> heard es = in_window window (sounding s seed)
    \<and> sorted (map schedule_key es)
    \<and> (\<forall>e \<in> set es. ev_block_offset e = min u32_max (nat (ev_project_frame e - fr_start window)))"
proof -
  have "sequencer_validate debug s = Inr ()"
    using sequencer_reachable_inv[OF assms(1)] by (simp add: sequencer_inv_def sequencer_good_def)
  from schedule_span_exact[OF this assms(3) tempo_map_reachable_ok[OF assms(2)] assms(4), of 0 seed]
  obtain es where es: "schedule_span s window 0 seed = Inr es" "heard es = in_window window (sounding s seed)"
    by blast
  then show ?thesis
    using schedule_span_offsets[OF es(1)]
    by (auto simp: schedule_project_window_def sort_scheduled_def offsets_within_def heard_sort[unfolded sort_scheduled_def])
qed

lemma demo_sounding:
  assumes "sq_patterns t = [(Id 4, demo_pattern)]" "sq_clips t = [(Id 1, demo_placed)]" "sq_tempo_map t = sample_map"
  shows "(0, note_on_kind demo_placed demo_note) \<in># sounding t 0"
proof -
  have rep: "(pc_start demo_placed + 0, 0) \<in> set (repetitions demo_placed (ne_start demo_note) 960)"
    by (simp add: repetitions_def demo_note_def)
  have "passes_probability (ne_probability demo_note) v" for v
    by (simp add: passes_probability_def demo_note_def demo_floats)
  then have "(0, note_on_kind demo_placed demo_note)
      \<in> set (note_occurrence 0 demo_placed demo_note (pc_start demo_placed + 0, 0))"
    by (simp add: note_occurrence_def Let_def demo_note_def clip_end_def beat_saturating_add_def sat_i64_def range_simps)
  moreover have "beat_to_frame sample_map 0 = 0" by (simp add: sample_evaluation)
  ultimately have "(0, note_on_kind demo_placed demo_note) \<in># note_sounds sample_map 0 demo_placed 960 demo_note"
    using rep unfolding note_sounds_def at_frames_def by force
  then show ?thesis
    by (simp add: sounding_def clip_sounds_def assms bt_values_def bt_get_def)
qed

theorem project_window_exact_witness:
  "\<exists>s es. sq_clips s = [(Id 1, demo_placed)]
    \<and> schedule_project_window s \<lparr>fr_start = 0, fr_end = 24000\<rparr> 0 = Inr es
    \<and> (0, note_on_kind demo_placed demo_note) \<in># heard es"
proof -
  obtain t where t: "sequencer_reachable (\<lambda>_. []) t" "sq_patterns t = [(Id 4, demo_pattern)]"
    "sq_clips t = [(Id 1, demo_placed)]" "sq_tempo_map t = sample_map" "sequencer_room t"
    by (rule demo_song)
  have "resolved (sq_tempo_map t) \<lparr>fr_start = 0, fr_end = 24000\<rparr>" "tempo_map_reachable (sq_tempo_map t)"
    using demo_resolved[of 0 24000] sample_map_reachable by (simp_all add: t(4))
  then obtain es where es: "schedule_project_window t \<lparr>fr_start = 0, fr_end = 24000\<rparr> 0 = Inr es"
    "heard es = in_window \<lparr>fr_start = 0, fr_end = 24000\<rparr> (sounding t 0)"
    using project_window_exact[OF t(1) _ t(5)] by blast
  have "(0, note_on_kind demo_placed demo_note) \<in># heard es"
    using demo_sounding[OF t(2-4)] by (simp add: es(2) in_window_def tempo_range_contains_def)
  then show ?thesis using t(3) es(1) by blast
qed

lemma resolved_stop:
  assumes "resolved m \<lparr>fr_start = a, fr_end = b\<rparr>"
  shows "sat_i64 b = b"
  using assms by (intro sat_i64_id) (auto simp: resolved_def beat_to_frame_def sat_i64_def is_i64_def)

lemma block_heard:
  assumes "sequencer_reachable debug s" "tempo_map_reachable (sq_tempo_map s)" "sequencer_room s"
    and window: "resolved (sq_tempo_map s) \<lparr>fr_start = a, fr_end = a + int n\<rparr>" and "0 < n"
  shows "\<exists>es. schedule_transport_window s a n None seed = Inr es
    \<and> heard es = in_window \<lparr>fr_start = a, fr_end = a + int n\<rparr> (sounding s seed)"
proof -
  have "sequencer_validate debug s = Inr ()"
    using sequencer_reachable_inv[OF assms(1)] by (simp add: sequencer_inv_def sequencer_good_def)
  from schedule_span_exact[OF this assms(3) tempo_map_reachable_ok[OF assms(2)] window, of 0 seed]
  show ?thesis
    using assms(5) resolved_stop[OF window] by (auto simp: schedule_transport_window_def)
qed

text \<open>
  Blocks join: two callback blocks, one after the other, play the same events at the same
  frames as one block of their joint length.
\<close>

theorem blocks_join:
  assumes "sequencer_reachable debug s" "tempo_map_reachable (sq_tempo_map s)" "sequencer_room s"
    "resolved (sq_tempo_map s) \<lparr>fr_start = a, fr_end = a + int n\<rparr>"
    "resolved (sq_tempo_map s) \<lparr>fr_start = a + int n, fr_end = a + int n + int k\<rparr>" "0 < n" "0 < k"
  shows "\<exists>xs ys zs. schedule_transport_window s a n None seed = Inr xs
    \<and> schedule_transport_window s (a + int n) k None seed = Inr ys
    \<and> schedule_transport_window s a (n + k) None seed = Inr zs \<and> heard zs = heard xs + heard ys"
proof -
  have "resolved (sq_tempo_map s) \<lparr>fr_start = a, fr_end = a + int (n + k)\<rparr>"
    using assms(4,5) by (simp add: resolved_def add.assoc)
  from block_heard[OF assms(1-3) this, of seed] block_heard[OF assms(1-4,6), of seed]
    block_heard[OF assms(1-3,5,7), of seed]
  obtain xs ys zs where blocks: "schedule_transport_window s a n None seed = Inr xs"
    "heard xs = in_window \<lparr>fr_start = a, fr_end = a + int n\<rparr> (sounding s seed)"
    "schedule_transport_window s (a + int n) k None seed = Inr ys"
    "heard ys = in_window \<lparr>fr_start = a + int n, fr_end = a + int n + int k\<rparr> (sounding s seed)"
    "schedule_transport_window s a (n + k) None seed = Inr zs"
    "heard zs = in_window \<lparr>fr_start = a, fr_end = a + int (n + k)\<rparr> (sounding s seed)"
    using assms(6) by auto
  then show ?thesis
    using in_window_split[of a "a + int n" "a + int n + int k" "sounding s seed"] by (simp add: add.assoc)
qed

theorem blocks_join_witness:
  "\<exists>s xs ys zs. sq_clips s = [(Id 1, demo_placed)] \<and> schedule_transport_window s 0 512 None 0 = Inr xs
    \<and> schedule_transport_window s 512 512 None 0 = Inr ys
    \<and> schedule_transport_window s 0 1024 None 0 = Inr zs \<and> heard zs = heard xs + heard ys"
proof -
  obtain t where t: "sequencer_reachable (\<lambda>_. []) t" "sq_patterns t = [(Id 4, demo_pattern)]"
    "sq_clips t = [(Id 1, demo_placed)]" "sq_tempo_map t = sample_map" "sequencer_room t"
    by (rule demo_song)
  have "resolved (sq_tempo_map t) \<lparr>fr_start = 0, fr_end = 0 + int 512\<rparr>"
    "resolved (sq_tempo_map t) \<lparr>fr_start = 0 + int 512, fr_end = 0 + int 512 + int 512\<rparr>"
    "tempo_map_reachable (sq_tempo_map t)"
    using demo_resolved[of 0 512] demo_resolved[of 512 1024] sample_map_reachable by (simp_all add: t(4))
  from blocks_join[OF t(1) this(3) t(5) this(1,2), of 0] show ?thesis
    using t(3) by auto
qed

lemma transport_to_wrap:
  assumes "position < fr_end r" "int n = fr_end r - position" "is_i64 (fr_end r)" "int n \<le> i64_max"
  shows "transport_loop s r seed (n + rest) skipped position
    = bind_r (schedule_span s \<lparr>fr_start = position, fr_end = fr_end r\<rparr> skipped seed) (\<lambda>events.
      bind_r (transport_loop s r seed rest (skipped + n) (if 0 < rest then fr_start r else fr_end r)) (\<lambda>later.
      Inr (events @ (if 0 < rest then [loop_boundary (skipped + n) r] else []) @ later)))"
proof -
  have n: "0 < n" using assms(1,2) by simp
  have room: "sat_i64 (fr_end r - position) = int n"
    unfolding assms(2)[symmetric] using assms(4) by (intro sat_i64_id) (simp add: is_i64_def i64_min_def)
  have "min (n + rest) (nat (max 1 (sat_i64 (fr_end r - position)))) = n" using n by (simp add: room)
  moreover have "sat_i64 (position + int n) = fr_end r" using assms(2,3) by (simp add: sat_i64_id)
  ultimately show ?thesis
    using n by (subst transport_loop.simps) (simp add: wrap_position_def assms(1) Let_def)
qed

text \<open>
  Every event of a callback block has its offset inside the block, also across loop wraps, and
  the events are sorted by offset, loop boundaries and note ends before what starts at the same
  offset.
\<close>

theorem transport_events_in_block:
  assumes "schedule_transport_window s playhead frame_count loop_range seed = Inr es" "frame_count < 2 ^ 32"
    "is_i64 playhead" "pred_option (\<lambda>r. is_i64 (fr_start r)) loop_range"
  shows "list_all (\<lambda>e. ev_block_offset e < frame_count) es \<and> sorted (map schedule_key es)"
proof (cases "frame_count = 0")
  case False
  then obtain us where us: "es = sort_scheduled us" and run: "(case loop_range of
      Some r \<Rightarrow> transport_loop s r seed frame_count 0 playhead
    | None \<Rightarrow> schedule_span s \<lparr>fr_start = playhead, fr_end = sat_i64 (playhead + int frame_count)\<rparr> 0 seed) = Inr us"
    using assms(1) by (auto simp: schedule_transport_window_def bind_r_eq_Inr)
  have "ev_block_offset e < frame_count" if "e \<in> set us" for e
  proof (cases loop_range)
    case None
    then show ?thesis
      using run span_offset_bound[OF schedule_span_offsets that] assms(3) by (force simp: is_i64_def)
  next
    case (Some r)
    then show ?thesis
      using run transport_loop_offsets[OF _ that assms(3)] assms(2,4) by force
  qed
  then show ?thesis by (simp add: us sort_scheduled_def list_all_iff)
qed (use assms(1) in \<open>simp add: schedule_transport_window_def\<close>)

theorem transport_events_in_block_witness:
  "\<exists>s es. sq_clips s = [(Id 1, demo_placed)]
    \<and> schedule_transport_window s 0 24000 (Some \<lparr>fr_start = 0, fr_end = 12000\<rparr>) 0 = Inr es
    \<and> list_all (\<lambda>e. ev_block_offset e < 24000) es \<and> sorted (map schedule_key es)"
proof -
  obtain t where t: "sequencer_reachable (\<lambda>_. []) t" "sq_patterns t = [(Id 4, demo_pattern)]"
    "sq_clips t = [(Id 1, demo_placed)]" "sq_tempo_map t = sample_map" "sequencer_room t"
    by (rule demo_song)
  let ?r = "\<lparr>fr_start = 0, fr_end = 12000\<rparr>"
  have valid: "sequencer_validate (\<lambda>_. []) t = Inr ()"
    using sequencer_reachable_inv[OF t(1)] by (simp add: sequencer_inv_def sequencer_good_def)
  have "\<exists>es. schedule_span t ?r base 0 = Inr es" for base
    using schedule_span_exact[OF valid t(5), of ?r base 0] demo_resolved[of 0 12000]
      tempo_map_reachable_ok[OF sample_map_reachable] by (auto simp: t(4))
  then obtain xs ys where "schedule_span t ?r 0 0 = Inr xs" "schedule_span t ?r 12000 0 = Inr ys" by metis
  moreover have "transport_loop t ?r 0 (12000 + 12000) 0 0 = bind_r (schedule_span t ?r 0 0) (\<lambda>events.
      bind_r (transport_loop t ?r 0 12000 12000 0) (\<lambda>later. Inr (events @ [loop_boundary 12000 ?r] @ later)))"
    by (subst transport_to_wrap) (simp_all add: range_simps)
  moreover have "transport_loop t ?r 0 (12000 + 0) 12000 0 = bind_r (schedule_span t ?r 12000 0) (\<lambda>events. Inr events)"
    by (subst transport_to_wrap) (simp_all add: range_simps)
  ultimately have "transport_loop t ?r 0 24000 0 0 = Inr (xs @ loop_boundary 12000 ?r # ys)"
    by simp
  then obtain es where es: "schedule_transport_window t 0 24000 (Some ?r) 0 = Inr es"
    by (simp add: schedule_transport_window_def)
  have "list_all (\<lambda>e. ev_block_offset e < 24000) es \<and> sorted (map schedule_key es)"
    by (rule transport_events_in_block[OF es]) (simp_all add: range_simps)
  then show ?thesis using t(3) es by blast
qed

end
