(* ===== verification/Spec2Isabelle.thy ===== *)
theory Spec2Isabelle
  imports Session_Properties Change_Set_Properties Journal_Properties Task_Properties
    Arrangement_Properties Mixer_Properties Tempo_Properties Pattern_Properties
    Sequencer_Properties
begin

text \<open>
  A verification development for the project core of audec, a digital audio workstation in Rust.
  Paths are relative to \<open>src/src/\<close>.

  \<^bold>\<open>The program.\<close> A project is a set of domains, each a plain value with validated, undoable
  edits: the editor session (\<open>session.rs\<close>), the arrangement (\<open>arrangement.rs\<close>), the mixer
  (\<open>mixer.rs\<close>) and the sequencer with its pattern notation (\<open>sequencer.rs\<close>, \<open>pattern_lang.rs\<close>).
  An edit reports what it invalidates (\<open>change_set.rs\<close>) and is appended to a journal
  (\<open>command_journal.rs\<close>, \<open>command_record.rs\<close>); work in the background is admitted, shared and
  revoked by a coordinator (\<open>task_coordinator.rs\<close>). The domains do not call one another: the
  sequencer uses the notation for the patterns it stores, and every domain follows the same
  pattern, a clone that is edited and validated before it replaces the value, with two stacks of
  invertible commands. Those shared patterns are locales here.

  \<^bold>\<open>Shared theories.\<close> \<open>Prelude\<close> has results (\<open>error + value\<close>), panics as the error \<open>Panicked\<close> of
  the type \<open>fault\<close>, loops that stop at the first error, and the ranges and saturating operations
  of \<open>i64\<close> and \<open>u64\<close>. \<open>Ordered_Map\<close> is \<open>BTreeMap\<close> as its ascending list of entries (the locale
  \<open>ordered_map\<close>, instantiated by that list). \<open>Floats\<close> is \<open>f32\<close> and \<open>f64\<close> as their bits, with order,
  equality, rounding and products. \<open>Bytes\<close> has texts and byte strings. \<open>History\<close> is the contract of
  an undo history (the locale \<open>reversible\<close>), interpreted for the session, the arrangement and the
  sequencer. \<open>canonical_entity\<close> (\<open>Arrangement_Equality\<close>) and \<open>compared_entry\<close>
  (\<open>Sequencer_Equality\<close>) are the contracts of \<open>PartialEq\<close> on values with floats.

  \<^bold>\<open>Session.\<close> \<open>Sample_Time\<close> (samples, ranges, transport, snap grid), \<open>Session_State\<close>
  (\<open>Arrangement\<close> and \<open>validate\<close>), \<open>Session_Changes\<close> (\<open>ProjectChange\<close>), \<open>Session\<close>
  (\<open>ProjectSession\<close>: one function per method), \<open>Session_History\<close>, \<open>Session_Properties\<close>: sessions
  stay valid, undo restores content, revision and dirty flag.

  \<^bold>\<open>Change sets and journal.\<close> \<open>Change_Set\<close> models the invalidation, \<open>Change_Set_Properties\<close> shows
  that ranges are canonical and merging is union. \<open>Command_Journal\<close> has the frame format, its
  checksum and recovery, where a slice outside the bytes is a panic; \<open>Journal_Recovery\<close> and \<open>Journal_Properties\<close> what recovery returns for any
  bytes and for any cut of a written journal. The JSON of the records is a parameter with its
  round trip as the hypothesis.

  \<^bold>\<open>Tasks.\<close> \<open>Task_Types\<close> and \<open>Task_Coordinator\<close> are the data and the operations,
  \<open>Task_Invariant\<close>, \<open>Task_Operations\<close>, \<open>Task_Admission\<close>, \<open>Task_Safety\<close>, \<open>Task_Completion\<close> and
  \<open>Task_Gate\<close> the invariant and its preservation, \<open>Task_Properties\<close> the step relation's properties:
  single flight, limits, the choice of the next flight, which receipts are accepted.

  \<^bold>\<open>Arrangement.\<close> \<open>Arrangement_Types\<close>, \<open>Arrangement_State\<close> (\<open>ArrangementState\<close>, its operations and
  \<open>validate\<close>), \<open>Arrangement_Editor\<close> and \<open>Arrangement_Content\<close> (the public edits) are the model.
  \<open>Arrangement_Validity\<close>, \<open>_Index\<close>, \<open>_Reachable\<close> give integrity; \<open>_Equality\<close>, \<open>_Inverse\<close>,
  \<open>_Reversal\<close>, \<open>_History\<close> the undo history; \<open>_Typing\<close>, \<open>_Effects\<close>, \<open>_Safety\<close>, \<open>_Clips\<close> the value
  ranges, what an edit does to the clips, and the absence of panics; \<open>_Properties\<close> the properties.

  \<^bold>\<open>Mixer.\<close> \<open>Mixer_Types\<close>, \<open>Mixer_Graph\<close> (queries, cycle search, latency plan, solo),
  \<open>Mixer_Edits\<close> and \<open>Mixer_Command\<close> are the model. \<open>Mixer_Validity\<close>, \<open>_Invariant\<close>,
  \<open>_Preservation\<close>, \<open>_Ownership\<close>, \<open>_Structure\<close>, \<open>_Reachable\<close> give integrity, \<open>_Cycles\<close> the exactness
  of the search, \<open>_Latency\<close> the latency plan and solo, \<open>_Properties\<close> the properties.

  \<^bold>\<open>Sequencer.\<close> \<open>Tempo_Map\<close> is the time base; \<open>Tempo_Frames\<close>, \<open>Tempo_Integral\<close>, \<open>Tempo_Bars\<close>,
  \<open>Tempo_Positions\<close> and \<open>Tempo_Properties\<close> show that frames are the integral of the
  tempo and that the conversions are adjoint or inverse. \<open>Pattern_Types\<close> has notes, steps,
  patterns, clips and the terms of the notation; \<open>Pattern_Text\<close> its parser and printer;
  \<open>Pattern_Eval\<close> the evaluation of a term to events and to a step grid. \<open>Pattern_Parser\<close>,
  \<open>_Roundtrip\<close> and \<open>_Print\<close> show that parsing is total and inverse to printing; \<open>Pattern_Exact\<close>,
  \<open>_Bounds\<close>, \<open>_Euclid\<close>, \<open>_Steps\<close> and \<open>_Validate\<close> where events lie and that the grid holds each of
  them; \<open>Pattern_Properties\<close> the properties. \<open>Sequencer_State\<close> is the pattern library with its
  commands, transactions and allocators; \<open>Sequencer_Equality\<close>, \<open>_History\<close>, \<open>_Reachable\<close> and
  \<open>_Properties\<close> show validity, the undo history, fresh identifiers and recorded provenance.
  \<open>Sequencer_Schedule\<close> is the expansion of clips into scheduled events, the splitting of a callback
  block at loop wraps and the seeded transforms of notes and steps. \<open>Sequencer_Blocks\<close> shows that a
  window holds exactly the events of the song in it, each as often as it occurs, so that blocks join
  without loss or repetition, and that offsets stay inside the block. This is for patterns that play
  their stored content and for positions and lengths of at most \<open>2 ^ 60\<close> ticks (\<open>sequencer_room\<close>).

  \<^bold>\<open>State and effects.\<close> A method with \<open>&mut self\<close> returns the changed value; where it changes
  something before it fails, it returns the value with the result. A Rust \<open>enum\<close> is a datatype, a
  \<open>struct\<close> a record, a \<open>usize\<close>, \<open>u64\<close>, \<open>u32\<close> or \<open>u8\<close> a \<open>nat\<close> and an \<open>i64\<close> an \<open>int\<close>; hashes and
  floats are words. Saturating and checked operations are written out at their width. Plain
  arithmetic that can overflow gives \<open>Panicked\<close>, as in a build with overflow checks, unless a
  bound on its operands rules it out. Reachable states are inductive predicates whose rules are
  the public methods.

  \<^bold>\<open>Fuel.\<close> The cycle search has one unit more than there are buses and routes, since a call
  either marks a bus or follows a route. The latency loop runs once per bus. The parser
  has four units per byte and sixteen more (\<open>Pattern_Parser\<close>: they are never used up).
  Recovery of a journal, the bisection of ticks and the other loops recurse on a measure. The
  exhaustion of the stack is not modelled.

  \<^bold>\<open>Parameters.\<close> The JSON and batch codecs of the journal, \<open>f64::sin\<close>, \<open>f32::powf\<close> and the text
  of an \<open>f32\<close> under \<open>{:?}\<close> are arguments of the definitions that use them.

  \<^bold>\<open>Not modelled.\<close> Outside the files above: the aggregate project that bundles
  the domains, automation, pattern workflow and its audition, media and sampler, effects and
  plugins, rendering and devices, analysis and reverse production, readings and explanations,
  persistence, model workers, and the views. They are float signal processing, input and output,
  threads and processes, or presentation.
\<close>

end
